(* ===== verification/Prelude.thy ===== *)
theory Prelude
  imports Main "HOL-Library.Word" "HOL-Library.Monad_Syntax"
begin

text \<open>
  Shared vocabulary of the development: the error codes of \<open>esp_err.h\<close>, traps as the
  \<open>option\<close> monad, 32-bit size arithmetic written out on \<open>nat\<close>, byte memories with
  bounds-checked reads and writes, little-endian fields, and the lemma collections and
  generic facts the component theories use.
\<close>

unbundle bit_operations_syntax

section \<open>Lemma collections\<close>

text \<open>
  \<open>mem_simps\<close>: reads after writes on byte memories.  \<open>size_simps\<close>: 32-bit size
  arithmetic in range.  \<open>trap_simps\<close>: the option monad of traps.
\<close>

named_theorems mem_simps
named_theorems size_simps
named_theorems trap_simps

section \<open>Error codes\<close>

text \<open>The \<open>esp_err_t\<close> values (\<open>esp_common/include/esp_err.h\<close> and the component headers)
  that the modelled functions return.\<close>

datatype esp_err_t =
    ESP_OK
  | ESP_FAIL
  | ESP_ERR_NO_MEM
  | ESP_ERR_INVALID_ARG
  | ESP_ERR_INVALID_STATE
  | ESP_ERR_INVALID_SIZE
  | ESP_ERR_NOT_FOUND
  | ESP_ERR_NOT_SUPPORTED
  | ESP_ERR_TIMEOUT
  | ESP_ERR_NOT_ALLOWED
  | ESP_ERR_OTA_PARTITION_CONFLICT
  | ESP_ERR_OTA_VALIDATE_FAILED
  | ESP_ERR_OTA_ROLLBACK_FAILED
  | ESP_ERR_OTA_ROLLBACK_INVALID_STATE

section \<open>Traps\<close>

text \<open>
  A failed \<open>configASSERT\<close> stops the firmware, and an access outside an object is
  undefined.  Both are the value \<open>None\<close> of the option monad: a result \<open>Some r\<close> says
  that the run reached its end without either.
\<close>

definition assert_that :: "bool \<Rightarrow> unit option" where
  "assert_that b = (if b then Some () else None)"

lemma assert_that_True [simp, trap_simps]: "assert_that True = Some ()"
  by (simp add: assert_that_def)

lemma assert_that_False [simp, trap_simps]: "assert_that False = None"
  by (simp add: assert_that_def)

lemma assert_that_eq_Some [simp, trap_simps]: "assert_that b = Some u \<longleftrightarrow> b"
  by (simp add: assert_that_def)

lemma assert_that_bind_Some [trap_simps]:
  "Option.bind (assert_that b) f = Some y \<longleftrightarrow> b \<and> f () = Some y"
  by (simp add: assert_that_def)

lemma assert_that_bind [trap_simps]: "b \<Longrightarrow> Option.bind (assert_that b) f = f ()"
  by simp

text \<open>For evaluation: only the first part of a bind is simplified until it is a value.\<close>

lemma bind_weak_cong: "m = m' \<Longrightarrow> Option.bind m f = Option.bind m' f"
  by simp

section \<open>Sizes on a 32-bit target\<close>

text \<open>
  \<open>size_t\<close> and pointers are 32 bits wide.  They are modelled as \<open>nat\<close> with the wrap
  written out: \<open>wrap32\<close> after an addition, \<open>sub32\<close> for a subtraction.
\<close>

abbreviation two32 :: nat where "two32 \<equiv> 4294967296"

definition wrap32 :: "nat \<Rightarrow> nat" where
  "wrap32 n = n mod two32"

definition sub32 :: "nat \<Rightarrow> nat \<Rightarrow> nat" where
  "sub32 a b = nat ((int a - int b) mod int two32)"

lemma wrap32_id [size_simps]: "n < two32 \<Longrightarrow> wrap32 n = n"
  by (simp add: wrap32_def)

lemma wrap32_less [simp]: "wrap32 n < two32"
  by (simp add: wrap32_def)

lemma sub32_eq [size_simps]: "b \<le> a \<Longrightarrow> a < two32 \<Longrightarrow> sub32 a b = a - b"
  by (simp add: sub32_def nat_diff_distrib' of_nat_diff[symmetric] del: of_nat_diff)

section \<open>Byte memories\<close>

type_synonym byte = "8 word"

definition read_at :: "byte list \<Rightarrow> nat \<Rightarrow> nat \<Rightarrow> byte list option" where
  "read_at m p n = (if p + n \<le> length m then Some (take n (drop p m)) else None)"

definition write_at :: "byte list \<Rightarrow> nat \<Rightarrow> byte list \<Rightarrow> byte list option" where
  "write_at m p bs =
     (if p + length bs \<le> length m then Some (take p m @ bs @ drop (p + length bs) m) else None)"

text \<open>\<open>memcpy (m + p, src, n)\<close>: reading past the end of the source is undefined as well.\<close>

definition memcpy :: "byte list \<Rightarrow> nat \<Rightarrow> byte list \<Rightarrow> nat \<Rightarrow> byte list option" where
  "memcpy m p src n = (if n \<le> length src then write_at m p (take n src) else None)"

text \<open>Little-endian integers.\<close>

fun bytes_of_nat :: "nat \<Rightarrow> nat \<Rightarrow> byte list" where
  "bytes_of_nat 0 n = []"
| "bytes_of_nat (Suc k) n = of_nat n # bytes_of_nat k (n div 256)"

fun nat_of_bytes :: "byte list \<Rightarrow> nat" where
  "nat_of_bytes [] = 0"
| "nat_of_bytes (b # bs) = unat b + 256 * nat_of_bytes bs"

lemma length_bytes_of_nat [simp]: "length (bytes_of_nat k n) = k"
  by (induction k arbitrary: n) auto

lemma unat_of_nat8: "unat (of_nat n :: 8 word) = n mod 256"
  by (simp add: unat_of_nat)

lemma nat_of_bytes_of_nat: "nat_of_bytes (bytes_of_nat k n) = n mod 256 ^ k"
proof (induction k arbitrary: n)
  case 0
  then show ?case by simp
next
  case (Suc k)
  have "n mod (256 * 256 ^ k) = n mod 256 + 256 * ((n div 256) mod 256 ^ k)"
    by (simp add: mod_mult2_eq)
  then show ?case by (simp add: Suc.IH unat_of_nat8)
qed

lemma nat_of_bytes_less: "nat_of_bytes bs < 256 ^ length bs"
proof (induction bs)
  case Nil
  then show ?case by simp
next
  case (Cons b bs)
  have "unat b < 2 ^ LENGTH(8)" by (rule unsigned_less)
  then have "unat b < 256" by simp
  then show ?case using Cons.IH by simp
qed

subsection \<open>Reads after writes\<close>

lemma length_read_at [mem_simps]: "read_at m p n = Some bs \<Longrightarrow> length bs = n"
  by (auto simp: read_at_def split: if_splits)

lemma read_at_Some [mem_simps]: "p + n \<le> length m \<Longrightarrow> read_at m p n = Some (take n (drop p m))"
  by (simp add: read_at_def)

lemma write_at_Some [mem_simps]:
  "p + length bs \<le> length m \<Longrightarrow>
     write_at m p bs = Some (take p m @ bs @ drop (p + length bs) m)"
  by (simp add: write_at_def)

lemma write_at_bound: "write_at m p bs = Some m' \<Longrightarrow> p + length bs \<le> length m"
  by (auto simp: write_at_def split: if_splits)

lemma length_write_at: "write_at m p bs = Some m' \<Longrightarrow> length m' = length m"
  by (auto simp: write_at_def split: if_splits)

lemma write_at_nth_other:
  assumes "write_at m p bs = Some m'" and "i < p \<or> p + length bs \<le> i" and "i < length m"
  shows "m' ! i = m ! i"
  using assms by (auto simp: write_at_def nth_append split: if_splits)

lemma read_at_write_at_same [mem_simps]:
  "write_at m p bs = Some m' \<Longrightarrow> read_at m' p (length bs) = Some bs"
  by (auto simp: write_at_def read_at_def split: if_splits)

lemma read_at_cong:
  assumes "length m' = length m" and "\<And>i. p \<le> i \<Longrightarrow> i < p + n \<Longrightarrow> i < length m \<Longrightarrow> m' ! i = m ! i"
  shows "read_at m' p n = read_at m p n"
proof (cases "p + n \<le> length m")
  case True
  have "take n (drop p m') = take n (drop p m)"
    by (rule nth_equalityI) (use assms True in auto)
  then show ?thesis using assms(1) True by (simp add: read_at_def)
next
  case False
  then show ?thesis using assms(1) by (simp add: read_at_def)
qed

lemma read_at_write_at_other:
  assumes "write_at m p bs = Some m'" and "q + n \<le> p \<or> p + length bs \<le> q"
  shows "read_at m' q n = read_at m q n"
  by (rule read_at_cong)
     (use assms length_write_at write_at_nth_other in \<open>auto intro: write_at_nth_other\<close>)

end
