(* ===== verification/Ringbuf.thy ===== *)
theory Ringbuf
  imports Prelude
begin

text \<open>
  The ring buffer of \<open>components/esp_ringbuf/ringbuf.c\<close>: its control block, the headers
  stored in the buffer, and its static operations for the three buffer types.  Pointers are
  offsets from the start of the storage area, which is a list of bytes; a failed
  \<open>configASSERT\<close> or an access outside the storage is \<open>None\<close>.
\<close>

section \<open>Constants and data\<close>

definition rbALIGN_MASK :: nat where "rbALIGN_MASK = 3"

definition rbALIGN_SIZE :: "nat \<Rightarrow> nat" where
  "rbALIGN_SIZE xSz = (wrap32 (xSz + rbALIGN_MASK) div 4) * 4"

definition rbCHECK_ALIGNED :: "nat \<Rightarrow> bool" where
  "rbCHECK_ALIGNED p \<longleftrightarrow> p mod 4 = 0"

definition rbALLOW_SPLIT_FLAG :: "32 word" where "rbALLOW_SPLIT_FLAG = 1"
definition rbBYTE_BUFFER_FLAG :: "32 word" where "rbBYTE_BUFFER_FLAG = 2"
definition rbBUFFER_FULL_FLAG :: "32 word" where "rbBUFFER_FULL_FLAG = 4"
definition rbBUFFER_STATIC_FLAG :: "32 word" where "rbBUFFER_STATIC_FLAG = 8"

definition rbITEM_FREE_FLAG :: "32 word" where "rbITEM_FREE_FLAG = 1"
definition rbITEM_DUMMY_DATA_FLAG :: "32 word" where "rbITEM_DUMMY_DATA_FLAG = 2"
definition rbITEM_SPLIT_FLAG :: "32 word" where "rbITEM_SPLIT_FLAG = 4"
definition rbITEM_WRITTEN_FLAG :: "32 word" where "rbITEM_WRITTEN_FLAG = 8"

lemmas rb_flag_defs =
  rbALLOW_SPLIT_FLAG_def rbBYTE_BUFFER_FLAG_def rbBUFFER_FULL_FLAG_def rbBUFFER_STATIC_FLAG_def
  rbITEM_FREE_FLAG_def rbITEM_DUMMY_DATA_FLAG_def rbITEM_SPLIT_FLAG_def rbITEM_WRITTEN_FLAG_def

text \<open>The C condition \<open>flags & mask\<close>, and setting and clearing a flag.\<close>

definition has_flag :: "32 word \<Rightarrow> 32 word \<Rightarrow> bool" where
  "has_flag w f \<longleftrightarrow> w AND f \<noteq> 0"

definition set_flag :: "32 word \<Rightarrow> 32 word \<Rightarrow> 32 word" where
  "set_flag w f = w OR f"

definition clear_flag :: "32 word \<Rightarrow> 32 word \<Rightarrow> 32 word" where
  "clear_flag w f = w AND NOT f"

record ItemHeader_t =
  xItemLen :: nat
  uxItemFlags :: "32 word"

definition rbHEADER_SIZE :: nat where "rbHEADER_SIZE = 8"

datatype RingbufferType_t = RINGBUF_TYPE_NOSPLIT | RINGBUF_TYPE_ALLOWSPLIT | RINGBUF_TYPE_BYTEBUF

text \<open>The function pointers of the control block, one constructor per function they can hold.\<close>

datatype CheckItemFitsFunction_t = CheckItemFitsDefault | CheckItemFitsByteBuffer
datatype CopyItemFunction_t = CopyItemNoSplit | CopyItemAllowSplit | CopyItemByteBuf
datatype GetItemFunction_t = GetItemDefault | GetItemByteBuf
datatype ReturnItemFunction_t = ReturnItemDefault | ReturnItemByteBuf
datatype GetCurMaxSizeFunction_t = GetCurMaxSizeNoSplit | GetCurMaxSizeAllowSplit | GetCurMaxSizeByteBuf

record Ringbuffer_t =
  xSize :: nat
  xMaxItemSize :: nat
  uxRingbufferFlags :: "32 word"
  xCheckItemFits :: CheckItemFitsFunction_t
  vCopyItem :: CopyItemFunction_t
  pvGetItem :: GetItemFunction_t
  vReturnItem :: ReturnItemFunction_t
  xGetCurMaxSize :: GetCurMaxSizeFunction_t
  pucAcquire :: nat
  pucWrite :: nat
  pucRead :: nat
  pucFree :: nat
  pucHead :: nat
  pucTail :: nat
  xItemsWaiting :: int
  xTasksWaitingToSend :: "nat list"
  xTasksWaitingToReceive :: "nat list"
  xQueueSet :: "nat option"
  storage :: "byte list"

section \<open>Headers in the storage area\<close>

definition get_item_len :: "byte list \<Rightarrow> nat \<Rightarrow> nat option" where
  "get_item_len m p = map_option nat_of_bytes (read_at m p 4)"

definition get_item_flags :: "byte list \<Rightarrow> nat \<Rightarrow> 32 word option" where
  "get_item_flags m p = map_option (\<lambda>bs. of_nat (nat_of_bytes bs)) (read_at m (p + 4) 4)"

definition get_header :: "byte list \<Rightarrow> nat \<Rightarrow> ItemHeader_t option" where
  "get_header m p = do {
     l \<leftarrow> get_item_len m p;
     f \<leftarrow> get_item_flags m p;
     Some \<lparr>xItemLen = l, uxItemFlags = f\<rparr>
   }"

definition set_item_len :: "byte list \<Rightarrow> nat \<Rightarrow> nat \<Rightarrow> byte list option" where
  "set_item_len m p l = write_at m p (bytes_of_nat 4 l)"

definition set_item_flags :: "byte list \<Rightarrow> nat \<Rightarrow> 32 word \<Rightarrow> byte list option" where
  "set_item_flags m p f = write_at m (p + 4) (bytes_of_nat 4 (unat f))"

section \<open>Initialisation\<close>

definition prvInitializeNewRingbuffer :: "nat \<Rightarrow> RingbufferType_t \<Rightarrow> byte list \<Rightarrow> Ringbuffer_t" where
  "prvInitializeNewRingbuffer xBufferSize xBufferType pucRingbufferStorage =
     (let rb = \<lparr>xSize = xBufferSize, xMaxItemSize = 0, uxRingbufferFlags = 0,
                xCheckItemFits = CheckItemFitsDefault, vCopyItem = CopyItemNoSplit,
                pvGetItem = GetItemDefault, vReturnItem = ReturnItemDefault,
                xGetCurMaxSize = GetCurMaxSizeNoSplit,
                pucAcquire = 0, pucWrite = 0, pucRead = 0, pucFree = 0,
                pucHead = 0, pucTail = xBufferSize, xItemsWaiting = 0,
                xTasksWaitingToSend = [], xTasksWaitingToReceive = [], xQueueSet = None,
                storage = pucRingbufferStorage\<rparr>
      in case xBufferType of
           RINGBUF_TYPE_NOSPLIT \<Rightarrow>
             rb\<lparr>xCheckItemFits := CheckItemFitsDefault, vCopyItem := CopyItemNoSplit,
                pvGetItem := GetItemDefault, vReturnItem := ReturnItemDefault,
                xMaxItemSize := sub32 (rbALIGN_SIZE (xSize rb div 2)) rbHEADER_SIZE,
                xGetCurMaxSize := GetCurMaxSizeNoSplit\<rparr>
         | RINGBUF_TYPE_ALLOWSPLIT \<Rightarrow>
             rb\<lparr>uxRingbufferFlags := set_flag (uxRingbufferFlags rb) rbALLOW_SPLIT_FLAG,
                xCheckItemFits := CheckItemFitsDefault, vCopyItem := CopyItemAllowSplit,
                pvGetItem := GetItemDefault, vReturnItem := ReturnItemDefault,
                xMaxItemSize := sub32 (xSize rb) (rbHEADER_SIZE * 2),
                xGetCurMaxSize := GetCurMaxSizeAllowSplit\<rparr>
         | RINGBUF_TYPE_BYTEBUF \<Rightarrow>
             rb\<lparr>uxRingbufferFlags := set_flag (uxRingbufferFlags rb) rbBYTE_BUFFER_FLAG,
                xCheckItemFits := CheckItemFitsByteBuffer, vCopyItem := CopyItemByteBuf,
                pvGetItem := GetItemByteBuf, vReturnItem := ReturnItemByteBuf,
                xMaxItemSize := xSize rb,
                xGetCurMaxSize := GetCurMaxSizeByteBuf\<rparr>)"

section \<open>Free space\<close>

definition is_full :: "Ringbuffer_t \<Rightarrow> bool" where
  "is_full rb \<longleftrightarrow> has_flag (uxRingbufferFlags rb) rbBUFFER_FULL_FLAG"

definition prvGetFreeSize :: "Ringbuffer_t \<Rightarrow> nat option" where
  "prvGetFreeSize rb = do {
     let xReturn = (if is_full rb then 0
                    else let xFreeSize = int (pucFree rb) - int (pucAcquire rb)
                         in nat (if xFreeSize \<le> 0 then xFreeSize + int (xSize rb) else xFreeSize));
     assert_that (xReturn \<le> xSize rb);
     Some xReturn
   }"

definition prvCheckItemFitsDefault :: "Ringbuffer_t \<Rightarrow> nat \<Rightarrow> bool option" where
  "prvCheckItemFitsDefault rb xItemSize = do {
     assert_that (rbCHECK_ALIGNED (pucAcquire rb));
     assert_that (pucHead rb \<le> pucAcquire rb \<and> pucAcquire rb < pucTail rb);
     let xTotalItemSize = wrap32 (rbALIGN_SIZE xItemSize + rbHEADER_SIZE);
     Some (if pucAcquire rb = pucFree rb then \<not> is_full rb
           else if pucAcquire rb < pucFree rb then xTotalItemSize \<le> pucFree rb - pucAcquire rb
           else if xTotalItemSize \<le> sub32 (pucTail rb) (pucAcquire rb) then True
           else if has_flag (uxRingbufferFlags rb) rbALLOW_SPLIT_FLAG
                then wrap32 (xTotalItemSize + rbHEADER_SIZE)
                       \<le> sub32 (xSize rb) (sub32 (pucAcquire rb) (pucFree rb))
           else xTotalItemSize \<le> sub32 (pucFree rb) (pucHead rb))
   }"

definition prvCheckItemFitsByteBuffer :: "Ringbuffer_t \<Rightarrow> nat \<Rightarrow> bool option" where
  "prvCheckItemFitsByteBuffer rb xItemSize = do {
     assert_that (pucHead rb \<le> pucAcquire rb \<and> pucAcquire rb < pucTail rb);
     Some (if pucAcquire rb = pucFree rb then \<not> is_full rb
           else if pucAcquire rb < pucFree rb then xItemSize \<le> pucFree rb - pucAcquire rb
           else xItemSize \<le> sub32 (xSize rb) (sub32 (pucAcquire rb) (pucFree rb)))
   }"

section \<open>Sending to a no-split buffer\<close>

definition mark_dummy :: "Ringbuffer_t \<Rightarrow> Ringbuffer_t option" where
  "mark_dummy rb = do {
     m1 \<leftarrow> set_item_flags (storage rb) (pucAcquire rb) rbITEM_DUMMY_DATA_FLAG;
     m2 \<leftarrow> set_item_len m1 (pucAcquire rb) 0;
     Some (rb\<lparr>storage := m2, pucAcquire := pucHead rb\<rparr>)
   }"

text \<open>Both send paths end the same way: wrap the acquire pointer when no header fits before
  the tail, and set the full flag when it meets the free pointer.\<close>

definition wrap_acquire :: "Ringbuffer_t \<Rightarrow> Ringbuffer_t" where
  "wrap_acquire rb =
     (if sub32 (pucTail rb) (pucAcquire rb) < rbHEADER_SIZE
      then rb\<lparr>pucAcquire := pucHead rb\<rparr> else rb)"

definition mark_full :: "Ringbuffer_t \<Rightarrow> Ringbuffer_t" where
  "mark_full rb =
     (if pucAcquire rb = pucFree rb
      then rb\<lparr>uxRingbufferFlags := set_flag (uxRingbufferFlags rb) rbBUFFER_FULL_FLAG\<rparr> else rb)"

definition prvAcquireItemNoSplit :: "Ringbuffer_t \<Rightarrow> nat \<Rightarrow> (Ringbuffer_t \<times> nat) option" where
  "prvAcquireItemNoSplit rb xItemSize = do {
     let xAlignedItemSize = rbALIGN_SIZE xItemSize;
     let xRemLen = sub32 (pucTail rb) (pucAcquire rb);
     assert_that (rbCHECK_ALIGNED (pucAcquire rb));
     assert_that (pucHead rb \<le> pucAcquire rb \<and> pucAcquire rb < pucTail rb);
     assert_that (rbHEADER_SIZE \<le> xRemLen);
     rb1 \<leftarrow> (if xRemLen < wrap32 (xAlignedItemSize + rbHEADER_SIZE) then mark_dummy rb else Some rb);
     m1 \<leftarrow> set_item_len (storage rb1) (pucAcquire rb1) xItemSize;
     m2 \<leftarrow> set_item_flags m1 (pucAcquire rb1) 0;
     let item_address = pucAcquire rb1 + rbHEADER_SIZE;
     let rb2 = rb1\<lparr>storage := m2,
                   pucAcquire := wrap32 (pucAcquire rb1 + (rbHEADER_SIZE + xAlignedItemSize))\<rparr>;
     Some (mark_full (wrap_acquire rb2), item_address)
   }"

text \<open>
  The loop of \<open>prvSendItemDoneNoSplit\<close> that moves \<open>pucWrite\<close> over written items and
  dummies.  The fuel bounds the number of cells it can pass; running out is a trap, and the
  invariant lemmas show that it does not happen.
\<close>

definition wrap_write :: "Ringbuffer_t \<Rightarrow> Ringbuffer_t" where
  "wrap_write rb =
     (if sub32 (pucTail rb) (pucWrite rb) < rbHEADER_SIZE
      then rb\<lparr>pucWrite := pucHead rb\<rparr> else rb)"

fun advance_write :: "nat \<Rightarrow> Ringbuffer_t \<Rightarrow> Ringbuffer_t option" where
  "advance_write 0 rb = None"
| "advance_write (Suc fuel) rb = do {
     h \<leftarrow> get_header (storage rb) (pucWrite rb);
     if (has_flag (uxItemFlags h) rbITEM_WRITTEN_FLAG \<or> has_flag (uxItemFlags h) rbITEM_DUMMY_DATA_FLAG)
          \<and> pucWrite rb \<noteq> pucAcquire rb
     then (if has_flag (uxItemFlags h) rbITEM_DUMMY_DATA_FLAG
           then do {
             m \<leftarrow> set_item_flags (storage rb) (pucWrite rb)
                    (set_flag (uxItemFlags h) rbITEM_WRITTEN_FLAG);
             advance_write fuel (wrap_write (rb\<lparr>storage := m, pucWrite := pucHead rb\<rparr>))
           }
           else do {
             let p = wrap32 (pucWrite rb + (rbALIGN_SIZE (xItemLen h) + rbHEADER_SIZE));
             assert_that (p \<le> pucHead rb + xSize rb);
             advance_write fuel (wrap_write (rb\<lparr>pucWrite := p\<rparr>))
           })
     else Some rb
   }"

declare advance_write.simps [simp del]

text \<open>Every pass moves the pointer by at least a header, so one unit of fuel per byte of the
  buffer is more than enough.\<close>

definition walk_fuel :: "Ringbuffer_t \<Rightarrow> nat" where
  "walk_fuel rb = Suc (xSize rb)"

definition prvSendItemDoneNoSplit :: "Ringbuffer_t \<Rightarrow> nat \<Rightarrow> Ringbuffer_t option" where
  "prvSendItemDoneNoSplit rb pucItem = do {
     assert_that (rbCHECK_ALIGNED pucItem);
     assert_that (pucHead rb \<le> pucItem);
     assert_that (pucItem \<le> pucTail rb);
     assert_that (rbHEADER_SIZE \<le> pucItem);
     let p = pucItem - rbHEADER_SIZE;
     h \<leftarrow> get_header (storage rb) p;
     assert_that (xItemLen h \<le> xMaxItemSize rb);
     assert_that (\<not> has_flag (uxItemFlags h) rbITEM_DUMMY_DATA_FLAG);
     assert_that (\<not> has_flag (uxItemFlags h) rbITEM_WRITTEN_FLAG);
     m \<leftarrow> set_item_flags (storage rb) p
            (set_flag (clear_flag (uxItemFlags h) rbITEM_SPLIT_FLAG) rbITEM_WRITTEN_FLAG);
     advance_write (walk_fuel rb) (rb\<lparr>storage := m, xItemsWaiting := xItemsWaiting rb + 1\<rparr>)
   }"

definition prvCopyItemNoSplit :: "Ringbuffer_t \<Rightarrow> byte list \<Rightarrow> nat \<Rightarrow> Ringbuffer_t option" where
  "prvCopyItemNoSplit rb pucItem xItemSize = do {
     (rb1, item_addr) \<leftarrow> prvAcquireItemNoSplit rb xItemSize;
     m \<leftarrow> memcpy (storage rb1) item_addr pucItem xItemSize;
     prvSendItemDoneNoSplit (rb1\<lparr>storage := m\<rparr>) item_addr
   }"

section \<open>Sending to an allow-split buffer and to a byte buffer\<close>

text \<open>The first part of a split item, or a dummy when only the header fits before the tail.
  Returns the buffer, the rest of the data and its size and aligned size.\<close>

definition split_first_part ::
  "Ringbuffer_t \<Rightarrow> byte list \<Rightarrow> nat \<Rightarrow> nat \<Rightarrow> nat \<Rightarrow> (Ringbuffer_t \<times> byte list \<times> nat \<times> nat) option" where
  "split_first_part rb pucItem xItemSize xAlignedItemSize xRemLen = do {
     let pxFirstHeader = pucAcquire rb;
     m1 \<leftarrow> set_item_flags (storage rb) pxFirstHeader 0;
     m2 \<leftarrow> set_item_len m1 pxFirstHeader (sub32 xRemLen rbHEADER_SIZE);
     let acq = wrap32 (pucAcquire rb + rbHEADER_SIZE);
     let xRemLen' = sub32 xRemLen rbHEADER_SIZE;
     if xRemLen' > 0
     then do {
       m3 \<leftarrow> memcpy m2 acq pucItem xRemLen';
       m4 \<leftarrow> set_item_flags m3 pxFirstHeader (set_flag 0 rbITEM_SPLIT_FLAG);
       Some (rb\<lparr>storage := m4, xItemsWaiting := xItemsWaiting rb + 1, pucAcquire := pucHead rb\<rparr>,
             drop xRemLen' pucItem, sub32 xItemSize xRemLen', sub32 xAlignedItemSize xRemLen')
     }
     else do {
       m3 \<leftarrow> set_item_flags m2 pxFirstHeader (set_flag 0 rbITEM_DUMMY_DATA_FLAG);
       Some (rb\<lparr>storage := m3, pucAcquire := pucHead rb\<rparr>, pucItem, xItemSize, xAlignedItemSize)
     }
   }"

definition prvCopyItemAllowSplit :: "Ringbuffer_t \<Rightarrow> byte list \<Rightarrow> nat \<Rightarrow> Ringbuffer_t option" where
  "prvCopyItemAllowSplit rb pucItem xItemSize = do {
     let xAlignedItemSize = rbALIGN_SIZE xItemSize;
     let xRemLen = sub32 (pucTail rb) (pucAcquire rb);
     assert_that (rbCHECK_ALIGNED (pucAcquire rb));
     assert_that (pucHead rb \<le> pucAcquire rb \<and> pucAcquire rb < pucTail rb);
     assert_that (rbHEADER_SIZE \<le> xRemLen);
     (rb1, item, isz, asz) \<leftarrow>
       (if xRemLen < wrap32 (xAlignedItemSize + rbHEADER_SIZE)
        then split_first_part rb pucItem xItemSize xAlignedItemSize xRemLen
        else Some (rb, pucItem, xItemSize, xAlignedItemSize));
     m1 \<leftarrow> set_item_len (storage rb1) (pucAcquire rb1) isz;
     m2 \<leftarrow> set_item_flags m1 (pucAcquire rb1) 0;
     let acq = wrap32 (pucAcquire rb1 + rbHEADER_SIZE);
     m3 \<leftarrow> memcpy m2 acq item isz;
     let rb2 = rb1\<lparr>storage := m3, xItemsWaiting := xItemsWaiting rb1 + 1,
                   pucAcquire := wrap32 (acq + asz)\<rparr>;
     let rb3 = mark_full (wrap_acquire rb2);
     Some (rb3\<lparr>pucWrite := pucAcquire rb3\<rparr>)
   }"

definition prvCopyItemByteBuf :: "Ringbuffer_t \<Rightarrow> byte list \<Rightarrow> nat \<Rightarrow> Ringbuffer_t option" where
  "prvCopyItemByteBuf rb pucItem xItemSize = do {
     assert_that (pucHead rb \<le> pucAcquire rb \<and> pucAcquire rb < pucTail rb);
     let xRemLen = sub32 (pucTail rb) (pucAcquire rb);
     (rb1, item, isz) \<leftarrow>
       (if xRemLen < xItemSize
        then do {
          m \<leftarrow> memcpy (storage rb) (pucAcquire rb) pucItem xRemLen;
          Some (rb\<lparr>storage := m, xItemsWaiting := xItemsWaiting rb + int xRemLen,
                   pucAcquire := pucHead rb\<rparr>,
                drop xRemLen pucItem, xItemSize - xRemLen)
        }
        else Some (rb, pucItem, xItemSize));
     m \<leftarrow> memcpy (storage rb1) (pucAcquire rb1) item isz;
     let rb2 = rb1\<lparr>storage := m, xItemsWaiting := xItemsWaiting rb1 + int isz,
                   pucAcquire := wrap32 (pucAcquire rb1 + isz)\<rparr>;
     let rb3 = (if pucAcquire rb2 = pucTail rb2 then rb2\<lparr>pucAcquire := pucHead rb2\<rparr> else rb2);
     let rb4 = mark_full rb3;
     Some (rb4\<lparr>pucWrite := pucAcquire rb4\<rparr>)
   }"

section \<open>Receiving\<close>

definition prvCheckItemAvail :: "Ringbuffer_t \<Rightarrow> bool option" where
  "prvCheckItemAvail rb =
     (if has_flag (uxRingbufferFlags rb) rbBYTE_BUFFER_FLAG \<and> pucRead rb \<noteq> pucFree rb
      then Some False
      else if xItemsWaiting rb > 0 \<and> (pucRead rb \<noteq> pucWrite rb \<or> is_full rb)
      then (if \<not> has_flag (uxRingbufferFlags rb) (rbBYTE_BUFFER_FLAG OR rbALLOW_SPLIT_FLAG)
            then do {
              h \<leftarrow> get_header (storage rb) (pucRead rb);
              Some (has_flag (uxItemFlags h) rbITEM_WRITTEN_FLAG)
            }
            else Some True)
      else Some False)"

text \<open>Returns the buffer, the item's address, its size and whether it is the first part of a
  split item.\<close>

definition prvGetItemDefault :: "Ringbuffer_t \<Rightarrow> (Ringbuffer_t \<times> nat \<times> nat \<times> bool) option" where
  "prvGetItemDefault rb = do {
     h0 \<leftarrow> get_header (storage rb) (pucRead rb);
     assert_that (xItemsWaiting rb > 0 \<and> (pucRead rb \<noteq> pucWrite rb \<or> is_full rb));
     assert_that (rbCHECK_ALIGNED (pucRead rb));
     assert_that (pucHead rb \<le> pucRead rb \<and> pucRead rb < pucTail rb);
     assert_that (xItemLen h0 \<le> xMaxItemSize rb \<or> has_flag (uxItemFlags h0) rbITEM_DUMMY_DATA_FLAG);
     (rb1, h) \<leftarrow>
       (if has_flag (uxItemFlags h0) rbITEM_DUMMY_DATA_FLAG
        then do {
          h1 \<leftarrow> get_header (storage rb) (pucHead rb);
          assert_that (xItemLen h1 \<le> xMaxItemSize rb);
          Some (rb\<lparr>pucRead := pucHead rb\<rparr>, h1)
        }
        else Some (rb, h0));
     let pcReturn = pucRead rb1 + rbHEADER_SIZE;
     assert_that (if xItemLen h = 0 then pucHead rb1 \<le> pcReturn \<and> pcReturn \<le> pucTail rb1
                  else pucHead rb1 \<le> pcReturn \<and> pcReturn < pucTail rb1);
     let p = wrap32 (pucRead rb1 + (rbHEADER_SIZE + rbALIGN_SIZE (xItemLen h)));
     let p' = (if sub32 (pucTail rb1) p < rbHEADER_SIZE then pucHead rb1 else p);
     Some (rb1\<lparr>xItemsWaiting := xItemsWaiting rb1 - 1, pucRead := p'\<rparr>,
           pcReturn, xItemLen h, has_flag (uxItemFlags h) rbITEM_SPLIT_FLAG)
   }"

definition prvGetItemByteBuf :: "Ringbuffer_t \<Rightarrow> nat \<Rightarrow> (Ringbuffer_t \<times> nat \<times> nat) option" where
  "prvGetItemByteBuf rb xMaxSize = do {
     assert_that (xItemsWaiting rb > 0 \<and> (pucRead rb \<noteq> pucWrite rb \<or> is_full rb));
     assert_that (pucHead rb \<le> pucRead rb \<and> pucRead rb < pucTail rb);
     assert_that (pucRead rb = pucFree rb);
     let ret = pucRead rb;
     Some (if pucWrite rb < pucRead rb \<or> is_full rb
           then (let n = pucTail rb - pucRead rb
                 in if xMaxSize = 0 \<or> n \<le> xMaxSize
                    then (rb\<lparr>xItemsWaiting := xItemsWaiting rb - int n, pucRead := pucHead rb\<rparr>, ret, n)
                    else (rb\<lparr>xItemsWaiting := xItemsWaiting rb - int xMaxSize,
                             pucRead := pucRead rb + xMaxSize\<rparr>, ret, xMaxSize))
           else (let n = pucWrite rb - pucRead rb
                 in if xMaxSize = 0 \<or> n \<le> xMaxSize
                    then (rb\<lparr>xItemsWaiting := xItemsWaiting rb - int n, pucRead := pucWrite rb\<rparr>, ret, n)
                    else (rb\<lparr>xItemsWaiting := xItemsWaiting rb - int xMaxSize,
                             pucRead := pucRead rb + xMaxSize\<rparr>, ret, xMaxSize)))
   }"

section \<open>Returning items\<close>

definition wrap_free :: "Ringbuffer_t \<Rightarrow> Ringbuffer_t" where
  "wrap_free rb =
     (if sub32 (pucTail rb) (pucFree rb) < rbHEADER_SIZE
      then rb\<lparr>pucFree := pucHead rb\<rparr> else rb)"

fun advance_free :: "nat \<Rightarrow> Ringbuffer_t \<Rightarrow> Ringbuffer_t option" where
  "advance_free 0 rb = None"
| "advance_free (Suc fuel) rb = do {
     h \<leftarrow> get_header (storage rb) (pucFree rb);
     if (has_flag (uxItemFlags h) rbITEM_FREE_FLAG \<or> has_flag (uxItemFlags h) rbITEM_DUMMY_DATA_FLAG)
          \<and> pucFree rb \<noteq> pucRead rb
     then (if has_flag (uxItemFlags h) rbITEM_DUMMY_DATA_FLAG
           then do {
             m \<leftarrow> set_item_flags (storage rb) (pucFree rb)
                    (set_flag (uxItemFlags h) rbITEM_FREE_FLAG);
             advance_free fuel (wrap_free (rb\<lparr>storage := m, pucFree := pucHead rb\<rparr>))
           }
           else do {
             let p = wrap32 (pucFree rb + (rbALIGN_SIZE (xItemLen h) + rbHEADER_SIZE));
             assert_that (p \<le> pucHead rb + xSize rb);
             advance_free fuel (wrap_free (rb\<lparr>pucFree := p\<rparr>))
           })
     else Some rb
   }"

declare advance_free.simps [simp del]

definition reset_full_flag :: "Ringbuffer_t \<Rightarrow> Ringbuffer_t" where
  "reset_full_flag rb =
     (if is_full rb then
        if pucFree rb \<noteq> pucAcquire rb
        then rb\<lparr>uxRingbufferFlags := clear_flag (uxRingbufferFlags rb) rbBUFFER_FULL_FLAG\<rparr>
        else if pucFree rb = pucAcquire rb \<and> pucFree rb = pucRead rb
        then rb\<lparr>uxRingbufferFlags := clear_flag (uxRingbufferFlags rb) rbBUFFER_FULL_FLAG\<rparr>
        else rb
      else rb)"

definition prvReturnItemDefault :: "Ringbuffer_t \<Rightarrow> nat \<Rightarrow> Ringbuffer_t option" where
  "prvReturnItemDefault rb pucItem = do {
     assert_that (rbCHECK_ALIGNED pucItem);
     assert_that (pucHead rb \<le> pucItem);
     assert_that (pucItem \<le> pucTail rb);
     assert_that (rbHEADER_SIZE \<le> pucItem);
     let p = pucItem - rbHEADER_SIZE;
     h \<leftarrow> get_header (storage rb) p;
     assert_that (xItemLen h \<le> xMaxItemSize rb);
     assert_that (\<not> has_flag (uxItemFlags h) rbITEM_DUMMY_DATA_FLAG);
     assert_that (\<not> has_flag (uxItemFlags h) rbITEM_FREE_FLAG);
     m \<leftarrow> set_item_flags (storage rb) p
            (set_flag (clear_flag (uxItemFlags h) rbITEM_SPLIT_FLAG) rbITEM_FREE_FLAG);
     rb1 \<leftarrow> advance_free (walk_fuel rb) (rb\<lparr>storage := m\<rparr>);
     Some (reset_full_flag rb1)
   }"

definition prvReturnItemByteBuf :: "Ringbuffer_t \<Rightarrow> nat \<Rightarrow> Ringbuffer_t option" where
  "prvReturnItemByteBuf rb pucItem = do {
     assert_that (pucHead rb \<le> pucItem);
     assert_that (pucItem < pucTail rb);
     let rb1 = rb\<lparr>pucFree := pucRead rb\<rparr>;
     Some (if is_full rb1
           then rb1\<lparr>uxRingbufferFlags := clear_flag (uxRingbufferFlags rb1) rbBUFFER_FULL_FLAG\<rparr>
           else rb1)
   }"

section \<open>The largest item that can be sent now\<close>

text \<open>\<open>xFreeSize\<close> is a signed \<open>BaseType_t\<close>; a negative value becomes 0 and the rest is
  limited by \<open>xMaxItemSize\<close>.\<close>

definition clamp_free_size :: "Ringbuffer_t \<Rightarrow> int \<Rightarrow> nat" where
  "clamp_free_size rb xFreeSize =
     (if xFreeSize < 0 then 0
      else if int (xMaxItemSize rb) < xFreeSize then xMaxItemSize rb else nat xFreeSize)"

definition prvGetCurMaxSizeNoSplit :: "Ringbuffer_t \<Rightarrow> nat" where
  "prvGetCurMaxSizeNoSplit rb =
     (if is_full rb then 0
      else let xFreeSize =
             (if pucAcquire rb < pucFree rb then int (pucFree rb) - int (pucAcquire rb)
              else let xSize1 = pucTail rb - pucAcquire rb;
                       xSize2 = pucFree rb - pucHead rb
                   in int (if xSize1 > xSize2 then xSize1 else xSize2))
           in clamp_free_size rb (xFreeSize - int rbHEADER_SIZE))"

definition prvGetCurMaxSizeAllowSplit :: "Ringbuffer_t \<Rightarrow> nat" where
  "prvGetCurMaxSizeAllowSplit rb =
     (if is_full rb then 0
      else let xFreeSize =
             (if pucAcquire rb = pucHead rb \<and> pucFree rb = pucHead rb
              then int (xSize rb) - int rbHEADER_SIZE
              else if pucAcquire rb < pucFree rb
              then (int (pucFree rb) - int (pucAcquire rb)) - int rbHEADER_SIZE
              else (int (pucFree rb) - int (pucHead rb))
                   + (int (pucTail rb) - int (pucAcquire rb)) - int (rbHEADER_SIZE * 2))
           in clamp_free_size rb xFreeSize)"

definition prvGetCurMaxSizeByteBuf :: "Ringbuffer_t \<Rightarrow> nat" where
  "prvGetCurMaxSizeByteBuf rb =
     (if is_full rb then 0
      else let xFreeSize = int (pucFree rb) - int (pucAcquire rb)
           in nat (if xFreeSize \<le> 0 then xFreeSize + int (xSize rb) else xFreeSize))"

section \<open>Calls through the function pointers\<close>

definition call_xCheckItemFits :: "Ringbuffer_t \<Rightarrow> nat \<Rightarrow> bool option" where
  "call_xCheckItemFits rb n =
     (case xCheckItemFits rb of
        CheckItemFitsDefault \<Rightarrow> prvCheckItemFitsDefault rb n
      | CheckItemFitsByteBuffer \<Rightarrow> prvCheckItemFitsByteBuffer rb n)"

definition call_vCopyItem :: "Ringbuffer_t \<Rightarrow> byte list \<Rightarrow> nat \<Rightarrow> Ringbuffer_t option" where
  "call_vCopyItem rb bs n =
     (case vCopyItem rb of
        CopyItemNoSplit \<Rightarrow> prvCopyItemNoSplit rb bs n
      | CopyItemAllowSplit \<Rightarrow> prvCopyItemAllowSplit rb bs n
      | CopyItemByteBuf \<Rightarrow> prvCopyItemByteBuf rb bs n)"

definition call_pvGetItem :: "Ringbuffer_t \<Rightarrow> nat \<Rightarrow> (Ringbuffer_t \<times> nat \<times> nat \<times> bool) option" where
  "call_pvGetItem rb xMaxSize =
     (case pvGetItem rb of
        GetItemDefault \<Rightarrow> prvGetItemDefault rb
      | GetItemByteBuf \<Rightarrow> map_option (\<lambda>(rb', p, n). (rb', p, n, False)) (prvGetItemByteBuf rb xMaxSize))"

definition call_vReturnItem :: "Ringbuffer_t \<Rightarrow> nat \<Rightarrow> Ringbuffer_t option" where
  "call_vReturnItem rb p =
     (case vReturnItem rb of
        ReturnItemDefault \<Rightarrow> prvReturnItemDefault rb p
      | ReturnItemByteBuf \<Rightarrow> prvReturnItemByteBuf rb p)"

definition call_xGetCurMaxSize :: "Ringbuffer_t \<Rightarrow> nat" where
  "call_xGetCurMaxSize rb =
     (case xGetCurMaxSize rb of
        GetCurMaxSizeNoSplit \<Rightarrow> prvGetCurMaxSizeNoSplit rb
      | GetCurMaxSizeAllowSplit \<Rightarrow> prvGetCurMaxSizeAllowSplit rb
      | GetCurMaxSizeByteBuf \<Rightarrow> prvGetCurMaxSizeByteBuf rb)"

end
