(* ===== verification/Ringbuf_Layout.thy ===== *)
theory Ringbuf_Layout
  imports Ringbuf
begin

text \<open>
  How items lie in the storage of a no-split or allow-split ring buffer: flag and header
  lemmas, the chain of cells from one pointer to another, the part of the ring a chain
  covers, and the frame lemma that writes outside that part keep the chain.
\<close>

section \<open>Flags\<close>

lemma and_pow2_word: "(w :: 32 word) AND 2 ^ n \<noteq> 0 \<longleftrightarrow> bit w n"
  by (simp add: and_exp_eq_0_iff_not_bit)

lemma has_flag_bit [simp]:
  "has_flag w 1 \<longleftrightarrow> bit w 0" "has_flag w 2 \<longleftrightarrow> bit w 1"
  "has_flag w 4 \<longleftrightarrow> bit w 2" "has_flag w 8 \<longleftrightarrow> bit w 3"
  using and_pow2_word [of w 0] and_pow2_word [of w 1] and_pow2_word [of w 2] and_pow2_word [of w 3]
  by (simp_all add: has_flag_def)

lemma has_flag_3: "has_flag w (2 OR 1) \<longleftrightarrow> bit w 0 \<or> bit w 1"
proof -
  have "w AND (2 OR 1) = (w AND 2) OR (w AND 1)"
    by (rule bit.conj_disj_distrib)
  then have "has_flag w (2 OR 1) \<longleftrightarrow> has_flag w 2 \<or> has_flag w 1"
    unfolding has_flag_def by (metis or_eq_0_iff)
  then show ?thesis by auto
qed

lemma bit_consts [simp]:
  "bit (1 :: 32 word) n \<longleftrightarrow> n = 0" "bit (2 :: 32 word) n \<longleftrightarrow> n = 1"
  "bit (4 :: 32 word) n \<longleftrightarrow> n = 2" "bit (8 :: 32 word) n \<longleftrightarrow> n = 3"
proof -
  have p: "bit ((2 :: 32 word) ^ k) n \<longleftrightarrow> k < 32 \<and> n = k" for k
    by (auto simp: bit_exp_iff possible_bit_word)
  show "bit (1 :: 32 word) n \<longleftrightarrow> n = 0" using p [of 0] by simp
  show "bit (2 :: 32 word) n \<longleftrightarrow> n = 1" using p [of 1] by simp
  show "bit (4 :: 32 word) n \<longleftrightarrow> n = 2" using p [of 2] by simp
  show "bit (8 :: 32 word) n \<longleftrightarrow> n = 3" using p [of 3] by simp
qed

lemma bit_set_flag [simp]: "bit (set_flag w f) n \<longleftrightarrow> bit w n \<or> bit f n"
  by (simp add: set_flag_def bit_or_iff)

lemma bit_clear_flag [simp]: "bit (clear_flag w f) n \<longleftrightarrow> bit w n \<and> \<not> bit f n"
  by (auto simp: clear_flag_def bit_and_iff bit_not_iff dest: bit_imp_possible_bit)

section \<open>Headers\<close>

lemma get_item_len_cong:
  "length m' = length m \<Longrightarrow> (\<And>i. p \<le> i \<Longrightarrow> i < p + 4 \<Longrightarrow> i < length m \<Longrightarrow> m' ! i = m ! i) \<Longrightarrow>
     get_item_len m' p = get_item_len m p"
  unfolding get_item_len_def by (subst read_at_cong) auto

lemma get_item_flags_cong:
  "length m' = length m \<Longrightarrow> (\<And>i. p + 4 \<le> i \<Longrightarrow> i < p + 8 \<Longrightarrow> i < length m \<Longrightarrow> m' ! i = m ! i) \<Longrightarrow>
     get_item_flags m' p = get_item_flags m p"
  unfolding get_item_flags_def by (subst read_at_cong) auto

lemma get_header_eq_Some:
  "get_header m p = Some h \<longleftrightarrow>
     get_item_len m p = Some (xItemLen h) \<and> get_item_flags m p = Some (uxItemFlags h)"
  by (cases h) (auto simp: get_header_def bind_eq_Some_conv)

lemma get_header_Some:
  "get_item_len m p = Some l \<Longrightarrow> get_item_flags m p = Some f \<Longrightarrow>
     get_header m p = Some \<lparr>xItemLen = l, uxItemFlags = f\<rparr>"
  by (simp add: get_header_eq_Some)

lemma of_nat_unat_mod32: "(of_nat (unat (w :: 32 word) mod 4294967296) :: 32 word) = w"
proof -
  have "unat w < 2 ^ LENGTH(32)" by (rule unsigned_less)
  then show ?thesis by (simp add: mod_less)
qed

lemma set_item_len_get:
  assumes "set_item_len m p l = Some m'" and "l < two32"
  shows "get_item_len m' p = Some l"
proof -
  have "read_at m' p (length (bytes_of_nat 4 l)) = Some (bytes_of_nat 4 l)"
    using assms(1) unfolding set_item_len_def by (rule read_at_write_at_same)
  then show ?thesis
    using assms(2) by (simp add: get_item_len_def nat_of_bytes_of_nat del: bytes_of_nat.simps)
qed

lemma set_item_flags_get:
  assumes "set_item_flags m p f = Some m'"
  shows "get_item_flags m' p = Some f"
proof -
  have "read_at m' (p + 4) (length (bytes_of_nat 4 (unat f))) = Some (bytes_of_nat 4 (unat f))"
    using assms unfolding set_item_flags_def by (rule read_at_write_at_same)
  then show ?thesis
    by (simp add: get_item_flags_def nat_of_bytes_of_nat of_nat_unat_mod32 del: bytes_of_nat.simps)
qed

lemma set_item_len_Some:
  "p + 4 \<le> length m \<Longrightarrow> \<exists>m'. set_item_len m p l = Some m' \<and> length m' = length m \<and>
     (\<forall>i < length m. i < p \<or> p + 4 \<le> i \<longrightarrow> m' ! i = m ! i)"
  unfolding set_item_len_def
  by (intro exI conjI, rule write_at_Some) (auto simp: nth_append simp del: bytes_of_nat.simps)

lemma set_item_flags_Some:
  "p + 8 \<le> length m \<Longrightarrow> \<exists>m'. set_item_flags m p f = Some m' \<and> length m' = length m \<and>
     (\<forall>i < length m. i < p + 4 \<or> p + 8 \<le> i \<longrightarrow> m' ! i = m ! i)"
  unfolding set_item_flags_def
  by (intro exI conjI, rule write_at_Some) (auto simp: nth_append simp del: bytes_of_nat.simps)

lemma memcpy_Some:
  "p + n \<le> length m \<Longrightarrow> n \<le> length bs \<Longrightarrow>
     \<exists>m'. memcpy m p bs n = Some m' \<and> length m' = length m \<and> read_at m' p n = Some (take n bs) \<and>
       (\<forall>i < length m. i < p \<or> p + n \<le> i \<longrightarrow> m' ! i = m ! i)"
  unfolding memcpy_def
  by (auto simp: write_at_def read_at_def nth_append min_def)

section \<open>Alignment\<close>

lemma rbALIGN_SIZE_eq: "n < two32 - 3 \<Longrightarrow> rbALIGN_SIZE n = (n + 3) div 4 * 4"
  by (simp add: rbALIGN_SIZE_def rbALIGN_MASK_def wrap32_id)

lemma rbALIGN_SIZE_ge: "n < two32 - 3 \<Longrightarrow> n \<le> rbALIGN_SIZE n"
  by (simp add: rbALIGN_SIZE_eq)

lemma rbALIGN_SIZE_lt: "n < two32 - 3 \<Longrightarrow> rbALIGN_SIZE n < n + 4"
  by (simp add: rbALIGN_SIZE_eq)

lemma rbALIGN_SIZE_dvd [simp]: "4 dvd rbALIGN_SIZE n"
  by (simp add: rbALIGN_SIZE_def)

lemma rbALIGN_SIZE_le_aligned:
  "n \<le> k \<Longrightarrow> 4 dvd k \<Longrightarrow> k < two32 - 3 \<Longrightarrow> rbALIGN_SIZE n \<le> k"
  by (subst rbALIGN_SIZE_eq) presburger+

lemma rbALIGN_SIZE_0 [simp]: "rbALIGN_SIZE 0 = 0"
  by (simp add: rbALIGN_SIZE_eq)

section \<open>Cells and chains\<close>

text \<open>A cell is what starts at a header: dummy data up to the tail, or an item with its
  length, its flags and its bytes.\<close>

datatype cell = Dummy "32 word" | Item nat "32 word" "byte list"

fun is_item :: "cell \<Rightarrow> bool" where
  "is_item (Item n f d) = True"
| "is_item (Dummy f) = False"

fun cell_flags :: "cell \<Rightarrow> 32 word" where
  "cell_flags (Item n f d) = f"
| "cell_flags (Dummy f) = f"

fun cell_span :: "nat \<Rightarrow> nat \<Rightarrow> cell \<Rightarrow> nat" where
  "cell_span S p (Dummy f) = S - p"
| "cell_span S p (Item n f d) =
     (if S - (p + 8 + rbALIGN_SIZE n) < 8 then S - p else 8 + rbALIGN_SIZE n)"

definition wrap_pos :: "nat \<Rightarrow> nat \<Rightarrow> nat" where
  "wrap_pos S p = (if p = S then 0 else p)"

fun cell_at :: "nat \<Rightarrow> byte list \<Rightarrow> nat \<Rightarrow> cell \<Rightarrow> bool" where
  "cell_at S m p (Dummy f) \<longleftrightarrow>
     p + 8 \<le> S \<and> get_item_len m p = Some 0 \<and> get_item_flags m p = Some f \<and> bit f 1"
| "cell_at S m p (Item n f d) \<longleftrightarrow>
     n < 2147483648 \<and> p + 8 + rbALIGN_SIZE n \<le> S \<and>
     get_item_len m p = Some n \<and> get_item_flags m p = Some f \<and> \<not> bit f 1 \<and>
     (bit f 2 \<longrightarrow> 0 < p \<and> p + 8 + rbALIGN_SIZE n = S) \<and>
     read_at m (p + 8) n = Some d"

fun chain :: "nat \<Rightarrow> byte list \<Rightarrow> nat \<Rightarrow> cell list \<Rightarrow> nat \<Rightarrow> bool" where
  "chain S m p [] q \<longleftrightarrow> p = q"
| "chain S m p (c # cs) q \<longleftrightarrow>
     cell_at S m p c \<and> chain S m (wrap_pos S (p + cell_span S p c)) cs q"

fun extent :: "nat \<Rightarrow> nat \<Rightarrow> cell list \<Rightarrow> nat" where
  "extent S p [] = 0"
| "extent S p (c # cs) = cell_span S p c + extent S (wrap_pos S (p + cell_span S p c)) cs"

text \<open>The address \<open>x\<close> lies in the \<open>n\<close> bytes of the ring that start at \<open>p\<close>.\<close>

definition in_ring :: "nat \<Rightarrow> nat \<Rightarrow> nat \<Rightarrow> nat \<Rightarrow> bool" where
  "in_ring S p n x \<longleftrightarrow> x < S \<and> ((p \<le> x \<and> x < p + n) \<or> x + S < p + n)"

text \<open>A pointer at which a header fits.\<close>

definition pos_ok :: "nat \<Rightarrow> nat \<Rightarrow> bool" where
  "pos_ok S p \<longleftrightarrow> 4 dvd p \<and> p + 8 \<le> S"

lemma cell_span_ge: "cell_at S m p c \<Longrightarrow> 8 \<le> cell_span S p c"
  by (cases c) auto

lemma cell_span_le: "cell_at S m p c \<Longrightarrow> p + cell_span S p c \<le> S"
  by (cases c) auto

lemma pos_ok_next:
  assumes "pos_ok S p" "cell_at S m p c" "4 dvd S" "16 \<le> S"
  shows "pos_ok S (wrap_pos S (p + cell_span S p c))"
proof (cases c)
  case (Dummy f)
  then show ?thesis using assms by (auto simp: pos_ok_def wrap_pos_def)
next
  case (Item n f d)
  have "4 dvd p + (8 + rbALIGN_SIZE n)"
    using assms(1) by (simp add: pos_ok_def)
  then show ?thesis using assms Item by (auto simp: pos_ok_def wrap_pos_def)
qed

lemma chain_pos_ok:
  "chain S m p cs q \<Longrightarrow> pos_ok S p \<Longrightarrow> 4 dvd S \<Longrightarrow> 16 \<le> S \<Longrightarrow> pos_ok S q"
  by (induction cs arbitrary: p) (simp, metis chain.simps(2) pos_ok_next)

lemma chain_append:
  "chain S m p (xs @ ys) q \<longleftrightarrow> (\<exists>r. chain S m p xs r \<and> chain S m r ys q)"
  by (induction xs arbitrary: p) auto

text \<open>The end of a chain is determined by its start and its cells.\<close>

fun chain_end :: "nat \<Rightarrow> nat \<Rightarrow> cell list \<Rightarrow> nat" where
  "chain_end S p [] = p"
| "chain_end S p (c # cs) = chain_end S (wrap_pos S (p + cell_span S p c)) cs"

lemma chain_chain_end: "chain S m p cs q \<Longrightarrow> q = chain_end S p cs"
  by (induction cs arbitrary: p) auto

lemma extent_append: "extent S p (xs @ ys) = extent S p xs + extent S (chain_end S p xs) ys"
  by (induction xs arbitrary: p) auto

lemma extent_pos: "chain S m p cs q \<Longrightarrow> cs \<noteq> [] \<Longrightarrow> 8 \<le> extent S p cs"
  by (cases cs) (auto dest: cell_span_ge)

lemma extent_0_iff: "chain S m p cs q \<Longrightarrow> extent S p cs = 0 \<longleftrightarrow> cs = []"
  using extent_pos by (cases cs) fastforce+

text \<open>The end of a chain is its start plus its extent, modulo the size.\<close>

lemma chain_end_mod:
  "chain S m p cs q \<Longrightarrow> p < S \<Longrightarrow> q = (p + extent S p cs) mod S"
proof (induction cs arbitrary: p)
  case Nil
  then show ?case by simp
next
  case (Cons c cs)
  let ?e = "p + cell_span S p c"
  have le: "?e \<le> S" using Cons.prems(1) by (auto intro: cell_span_le)
  have "wrap_pos S ?e < S"
    using le Cons.prems(2) by (auto simp: wrap_pos_def)
  then have "q = (wrap_pos S ?e + extent S (wrap_pos S ?e) cs) mod S"
    using Cons by simp
  also have "\<dots> = (p + extent S p (c # cs)) mod S"
    by (auto simp: wrap_pos_def simp flip: add.assoc)
  finally show ?case .
qed

lemma in_ring_step:
  assumes "p + s \<le> S" "p < S" "s + n \<le> S" "in_ring S (wrap_pos S (p + s)) n x"
  shows "in_ring S p (s + n) x"
  using assms by (auto simp: in_ring_def wrap_pos_def split: if_splits)

text \<open>Frame: memories that agree on the covered part of the ring have the same chains.\<close>

lemma cell_at_frame:
  assumes "cell_at S m p c" "length m = S" "length m' = S"
    "\<And>x. p \<le> x \<Longrightarrow> x < p + cell_span S p c \<Longrightarrow> x < S \<Longrightarrow> m' ! x = m ! x"
  shows "cell_at S m' p c"
proof (cases c)
  case (Dummy f)
  have "get_item_len m' p = get_item_len m p"
    by (rule get_item_len_cong) (use assms Dummy in auto)
  moreover have "get_item_flags m' p = get_item_flags m p"
    by (rule get_item_flags_cong) (use assms Dummy in auto)
  ultimately show ?thesis using assms Dummy by simp
next
  case (Item n f d)
  have al: "n \<le> rbALIGN_SIZE n" using assms(1) Item by (intro rbALIGN_SIZE_ge) auto
  have sp: "8 + rbALIGN_SIZE n \<le> cell_span S p c" using assms(1) Item by auto
  have "get_item_len m' p = get_item_len m p"
    by (rule get_item_len_cong) (use assms sp in auto)
  moreover have "get_item_flags m' p = get_item_flags m p"
    by (rule get_item_flags_cong) (use assms sp in auto)
  moreover have "read_at m' (p + 8) n = read_at m (p + 8) n"
    by (rule read_at_cong) (use assms sp al in auto)
  ultimately show ?thesis using assms Item by simp
qed

lemma chain_frame:
  "chain S m p cs q \<Longrightarrow> p < S \<Longrightarrow> extent S p cs \<le> S \<Longrightarrow> length m = S \<Longrightarrow> length m' = S \<Longrightarrow>
     (\<And>x. in_ring S p (extent S p cs) x \<Longrightarrow> m' ! x = m ! x) \<Longrightarrow> chain S m' p cs q"
proof (induction cs arbitrary: p)
  case Nil
  then show ?case by simp
next
  case (Cons c cs)
  let ?e = "wrap_pos S (p + cell_span S p c)"
  have le: "p + cell_span S p c \<le> S" using Cons.prems(1) by (auto intro: cell_span_le)
  have "cell_at S m' p c"
    by (rule cell_at_frame) (use Cons.prems le in \<open>auto simp: in_ring_def\<close>)
  moreover have "chain S m' ?e cs q"
  proof (rule Cons.IH)
    show "?e < S" using le Cons.prems(2) by (auto simp: wrap_pos_def)
    show "m' ! x = m ! x" if "in_ring S ?e (extent S ?e cs) x" for x
      using Cons.prems(2,3,6) in_ring_step [OF le Cons.prems(2) _ that] by simp
  qed (use Cons.prems in auto)
  ultimately show ?case by simp
qed

text \<open>The bytes after a chain, up to its start, are free for new cells.\<close>

lemma ring_disjoint:
  assumes "p < S" "q = (p + e) mod S" "e + n \<le> S" "in_ring S p e x" "in_ring S q n x"
  shows False
proof (cases "p + e < S")
  case True
  then show ?thesis using assms by (auto simp: in_ring_def)
next
  case False
  then have "q = p + e - S" using assms(1-3) by (simp add: mod_if [of "p + e"])
  then show ?thesis using assms False by (auto simp: in_ring_def)
qed

section \<open>Writing cells\<close>

lemma write_header:
  assumes "p + 8 \<le> length m" "n < two32"
  shows "\<exists>m1 m2. set_item_len m p n = Some m1 \<and> set_item_flags m1 p f = Some m2 \<and>
           length m2 = length m \<and> get_item_len m2 p = Some n \<and> get_item_flags m2 p = Some f \<and>
           (\<forall>i < length m. i < p \<or> p + 8 \<le> i \<longrightarrow> m2 ! i = m ! i)"
proof -
  obtain m1 where m1: "set_item_len m p n = Some m1" "length m1 = length m"
    "\<forall>i < length m. i < p \<or> p + 4 \<le> i \<longrightarrow> m1 ! i = m ! i"
    using set_item_len_Some [of p m n] assms by auto
  obtain m2 where m2: "set_item_flags m1 p f = Some m2" "length m2 = length m1"
    "\<forall>i < length m1. i < p + 4 \<or> p + 8 \<le> i \<longrightarrow> m2 ! i = m1 ! i"
    using set_item_flags_Some [of p m1 f] assms m1(2) by auto
  have "get_item_len m2 p = get_item_len m1 p"
    by (rule get_item_len_cong) (use m2 in auto)
  then have "get_item_len m2 p = Some n"
    using set_item_len_get [OF m1(1) assms(2)] by simp
  then show ?thesis
    using m1 m2 set_item_flags_get [OF m2(1)] by auto
qed

lemma write_dummy:
  assumes "p + 8 \<le> length m"
  shows "\<exists>m1 m2. set_item_flags m p f = Some m1 \<and> set_item_len m1 p n = Some m2 \<and>
           length m2 = length m \<and> (n < two32 \<longrightarrow> get_item_len m2 p = Some n) \<and>
           get_item_flags m2 p = Some f \<and>
           (\<forall>i < length m. i < p \<or> p + 8 \<le> i \<longrightarrow> m2 ! i = m ! i)"
proof -
  obtain m1 where m1: "set_item_flags m p f = Some m1" "length m1 = length m"
    "\<forall>i < length m. i < p + 4 \<or> p + 8 \<le> i \<longrightarrow> m1 ! i = m ! i"
    using set_item_flags_Some [of p m f] assms by auto
  obtain m2 where m2: "set_item_len m1 p n = Some m2" "length m2 = length m1"
    "\<forall>i < length m1. i < p \<or> p + 4 \<le> i \<longrightarrow> m2 ! i = m1 ! i"
    using set_item_len_Some [of p m1 n] assms m1(2) by auto
  have "get_item_flags m2 p = get_item_flags m1 p"
    by (rule get_item_flags_cong) (use m2 in auto)
  then have "get_item_flags m2 p = Some f"
    using set_item_flags_get [OF m1(1)] by simp
  then show ?thesis
    using m1 m2 set_item_len_get [OF m2(1)] by auto
qed

text \<open>Changing the flags of a cell keeps its length, its data and everything else.\<close>

lemma set_flags_frame:
  assumes "p + 8 \<le> length m"
  shows "\<exists>m'. set_item_flags m p f = Some m' \<and> length m' = length m \<and>
           get_item_flags m' p = Some f \<and> get_item_len m' p = get_item_len m p \<and>
           (\<forall>n. read_at m' (p + 8) n = read_at m (p + 8) n) \<and>
           (\<forall>i < length m. i < p \<or> p + 8 \<le> i \<longrightarrow> m' ! i = m ! i)"
proof -
  obtain m' where m': "set_item_flags m p f = Some m'" "length m' = length m"
    "\<forall>i < length m. i < p + 4 \<or> p + 8 \<le> i \<longrightarrow> m' ! i = m ! i"
    using set_item_flags_Some [of p m f] assms by auto
  have "get_item_len m' p = get_item_len m p"
    by (rule get_item_len_cong) (use m' in auto)
  moreover have "read_at m' (p + 8) n = read_at m (p + 8) n" for n
    by (rule read_at_cong) (use m' in auto)
  ultimately show ?thesis using m' set_item_flags_get [OF m'(1)] by auto
qed

end
