(* ===== verification/Ringbuf_Api.thy ===== *)
theory Ringbuf_Api
  imports Ringbuf
begin

text \<open>
  The public functions of \<open>components/esp_ringbuf/ringbuf.c\<close>.  Each critical section is one
  atomic step.  A blocking call is a loop of such steps; the script argument says, for every
  time the caller blocks, whether the kernel reports a time-out and what the rest of the
  system did to the buffer in between.  The FreeRTOS scheduler appears as the priority of
  each task and the task that is running.
\<close>

section \<open>Scheduling effects\<close>

record sched =
  cur_task :: nat
  task_prio :: "nat \<Rightarrow> nat"

datatype rb_effect = Unblock nat | Yield | NotifyQueueSet nat

text \<open>\<open>xTaskRemoveFromEventList\<close> unblocks the first waiting task and says whether it
  preempts the caller.\<close>

definition unblock_first :: "sched \<Rightarrow> nat list \<Rightarrow> nat list \<times> rb_effect list" where
  "unblock_first sc ws =
     (case ws of [] \<Rightarrow> ([], [])
      | t # ts \<Rightarrow> (ts, Unblock t # (if task_prio sc (cur_task sc) < task_prio sc t then [Yield] else [])))"

text \<open>\<open>vTaskPlaceOnEventList\<close> keeps the waiting list in priority order.\<close>

definition place_on_event_list :: "sched \<Rightarrow> nat list \<Rightarrow> nat list" where
  "place_on_event_list sc ws =
     takeWhile (\<lambda>t. task_prio sc (cur_task sc) \<le> task_prio sc t) ws @
     cur_task sc # dropWhile (\<lambda>t. task_prio sc (cur_task sc) \<le> task_prio sc t) ws"

text \<open>The end of every send: the queue set, if there is one, is told after the critical
  section; otherwise a waiting receiver is unblocked.\<close>

definition notify_receiver :: "sched \<Rightarrow> Ringbuffer_t \<Rightarrow> Ringbuffer_t \<times> rb_effect list" where
  "notify_receiver sc rb =
     (case xQueueSet rb of
        Some qs \<Rightarrow> (rb, [NotifyQueueSet qs])
      | None \<Rightarrow> let (ws, es) = unblock_first sc (xTasksWaitingToReceive rb)
                in (rb\<lparr>xTasksWaitingToReceive := ws\<rparr>, es))"

definition notify_sender :: "sched \<Rightarrow> Ringbuffer_t \<Rightarrow> Ringbuffer_t \<times> rb_effect list" where
  "notify_sender sc rb =
     (let (ws, es) = unblock_first sc (xTasksWaitingToSend rb)
      in (rb\<lparr>xTasksWaitingToSend := ws\<rparr>, es))"

section \<open>Creation and deletion\<close>

text \<open>\<open>mallocs\<close> are the results of the two allocations: \<open>None\<close> is a failed one, and the
  storage comes with its initial bytes.\<close>

definition xRingbufferCreate ::
  "nat \<Rightarrow> RingbufferType_t \<Rightarrow> bool \<Rightarrow> (nat \<Rightarrow> byte list option) \<Rightarrow> Ringbuffer_t option option" where
  "xRingbufferCreate xBufferSize xBufferType ctrl_ok malloc_storage = do {
     assert_that (0 < xBufferSize);
     let n = (if xBufferType \<noteq> RINGBUF_TYPE_BYTEBUF then rbALIGN_SIZE xBufferSize else xBufferSize);
     Some (case malloc_storage n of
             Some st \<Rightarrow> if ctrl_ok then Some (prvInitializeNewRingbuffer n xBufferType st) else None
           | None \<Rightarrow> None)
   }"

definition xRingbufferCreateNoSplit ::
  "nat \<Rightarrow> nat \<Rightarrow> bool \<Rightarrow> (nat \<Rightarrow> byte list option) \<Rightarrow> Ringbuffer_t option option" where
  "xRingbufferCreateNoSplit xItemSize xItemNum ctrl_ok malloc_storage =
     xRingbufferCreate (wrap32 (wrap32 (rbALIGN_SIZE xItemSize + rbHEADER_SIZE) * xItemNum))
       RINGBUF_TYPE_NOSPLIT ctrl_ok malloc_storage"

definition xRingbufferCreateStatic ::
  "nat \<Rightarrow> RingbufferType_t \<Rightarrow> byte list \<Rightarrow> Ringbuffer_t option" where
  "xRingbufferCreateStatic xBufferSize xBufferType pucRingbufferStorage = do {
     assert_that (0 < xBufferSize);
     assert_that (xBufferType = RINGBUF_TYPE_BYTEBUF \<or> rbCHECK_ALIGNED xBufferSize);
     let rb = prvInitializeNewRingbuffer xBufferSize xBufferType pucRingbufferStorage;
     Some (rb\<lparr>uxRingbufferFlags := set_flag (uxRingbufferFlags rb) rbBUFFER_STATIC_FLAG\<rparr>)
   }"

text \<open>\<open>vRingbufferDelete\<close> says whether the memory of the buffer is freed.\<close>

definition vRingbufferDelete :: "Ringbuffer_t \<Rightarrow> bool" where
  "vRingbufferDelete rb \<longleftrightarrow> \<not> has_flag (uxRingbufferFlags rb) rbBUFFER_STATIC_FLAG"

definition xRingbufferGetStaticBuffer :: "Ringbuffer_t \<Rightarrow> byte list option" where
  "xRingbufferGetStaticBuffer rb =
     (if has_flag (uxRingbufferFlags rb) rbBUFFER_STATIC_FLAG then Some (storage rb) else None)"

definition xRingbufferCreateWithCaps ::
  "nat \<Rightarrow> RingbufferType_t \<Rightarrow> bool \<Rightarrow> (nat \<Rightarrow> byte list option) \<Rightarrow> Ringbuffer_t option option" where
  "xRingbufferCreateWithCaps xBufferSize xBufferType ctrl_ok malloc_storage =
     (let n = (if xBufferType \<noteq> RINGBUF_TYPE_BYTEBUF then rbALIGN_SIZE xBufferSize else xBufferSize)
      in case malloc_storage n of
           Some st \<Rightarrow> if ctrl_ok then map_option Some (xRingbufferCreateStatic n xBufferType st)
                      else Some None
         | None \<Rightarrow> Some None)"

text \<open>Deleting such a buffer asserts that it was created statically; \<open>vRingbufferDelete\<close>
  then leaves the memory alone and the two blocks are freed here.\<close>

definition vRingbufferDeleteWithCaps :: "Ringbuffer_t \<Rightarrow> bool option" where
  "vRingbufferDeleteWithCaps rb = do {
     assert_that (xRingbufferGetStaticBuffer rb \<noteq> None);
     Some (vRingbufferDelete rb)
   }"

section \<open>Sending and acquiring\<close>

datatype 'a outcome = Returned 'a | StillBlocked

text \<open>What a send hands over: data to copy, or a request for space to fill in later.\<close>

datatype send_mode = SendData "byte list" | AcquireSpace

type_synonym block_script = "(bool \<times> (Ringbuffer_t \<Rightarrow> Ringbuffer_t)) list"

text \<open>The step inside the critical section when the item fits.\<close>

definition send_now ::
  "sched \<Rightarrow> send_mode \<Rightarrow> nat \<Rightarrow> Ringbuffer_t \<Rightarrow> (Ringbuffer_t \<times> rb_effect list \<times> nat option) option" where
  "send_now sc mode xItemSize rb =
     (case mode of
        AcquireSpace \<Rightarrow> do {
          (rb1, p) \<leftarrow> prvAcquireItemNoSplit rb xItemSize;
          Some (rb1, [], Some p)
        }
      | SendData bs \<Rightarrow> do {
          rb1 \<leftarrow> call_vCopyItem rb bs xItemSize;
          let (rb2, es) = notify_receiver sc rb1;
          Some (rb2, es, None)
        })"

text \<open>
  \<open>prvSendAcquireGeneric\<close>: the result is the buffer, the scheduling effects, the pointer
  an acquire stores, and \<open>xReturn\<close>.  A script that is used up leaves the task blocked.
\<close>

fun prvSendAcquireGeneric ::
  "sched \<Rightarrow> send_mode \<Rightarrow> nat \<Rightarrow> nat \<Rightarrow> block_script \<Rightarrow> Ringbuffer_t
     \<Rightarrow> (Ringbuffer_t \<times> (rb_effect list \<times> nat option \<times> bool) outcome) option" where
  "prvSendAcquireGeneric sc mode xItemSize xTicksToWait script rb = do {
     fits \<leftarrow> call_xCheckItemFits rb xItemSize;
     if fits then do {
       (rb1, es, p) \<leftarrow> send_now sc mode xItemSize rb;
       Some (rb1, Returned (es, p, True))
     }
     else if xTicksToWait = 0 then Some (rb, Returned ([], None, False))
     else case script of
            [] \<Rightarrow> Some (rb\<lparr>xTasksWaitingToSend := place_on_event_list sc (xTasksWaitingToSend rb)\<rparr>,
                        StillBlocked)
          | (timed_out, others) # script' \<Rightarrow>
              if timed_out then Some (rb, Returned ([], None, False))
              else prvSendAcquireGeneric sc mode xItemSize xTicksToWait script'
                     (others (rb\<lparr>xTasksWaitingToSend :=
                                   place_on_event_list sc (xTasksWaitingToSend rb)\<rparr>))
   }"

declare prvSendAcquireGeneric.simps [simp del]

definition xRingbufferSendAcquire ::
  "sched \<Rightarrow> nat \<Rightarrow> nat \<Rightarrow> block_script \<Rightarrow> Ringbuffer_t
     \<Rightarrow> (Ringbuffer_t \<times> (rb_effect list \<times> nat option \<times> bool) outcome) option" where
  "xRingbufferSendAcquire sc xItemSize xTicksToWait script rb = do {
     assert_that (\<not> has_flag (uxRingbufferFlags rb) (rbBYTE_BUFFER_FLAG OR rbALLOW_SPLIT_FLAG));
     if xItemSize > xMaxItemSize rb then Some (rb, Returned ([], None, False))
     else prvSendAcquireGeneric sc AcquireSpace xItemSize xTicksToWait script rb
   }"

definition xRingbufferSendComplete ::
  "sched \<Rightarrow> nat \<Rightarrow> Ringbuffer_t \<Rightarrow> (Ringbuffer_t \<times> rb_effect list) option" where
  "xRingbufferSendComplete sc pvItem rb = do {
     assert_that (\<not> has_flag (uxRingbufferFlags rb) (rbBYTE_BUFFER_FLAG OR rbALLOW_SPLIT_FLAG));
     rb1 \<leftarrow> prvSendItemDoneNoSplit rb pvItem;
     Some (notify_receiver sc rb1)
   }"

definition xRingbufferSend ::
  "sched \<Rightarrow> byte list \<Rightarrow> nat \<Rightarrow> nat \<Rightarrow> block_script \<Rightarrow> Ringbuffer_t
     \<Rightarrow> (Ringbuffer_t \<times> (rb_effect list \<times> nat option \<times> bool) outcome) option" where
  "xRingbufferSend sc pvItem xItemSize xTicksToWait script rb =
     (if xItemSize > xMaxItemSize rb then Some (rb, Returned ([], None, False))
      else if has_flag (uxRingbufferFlags rb) rbBYTE_BUFFER_FLAG \<and> xItemSize = 0
      then Some (rb, Returned ([], None, True))
      else prvSendAcquireGeneric sc (SendData pvItem) xItemSize xTicksToWait script rb)"

definition xRingbufferSendFromISR ::
  "sched \<Rightarrow> byte list \<Rightarrow> nat \<Rightarrow> Ringbuffer_t \<Rightarrow> (Ringbuffer_t \<times> rb_effect list \<times> bool) option" where
  "xRingbufferSendFromISR sc pvItem xItemSize rb =
     (if xItemSize > xMaxItemSize rb then Some (rb, [], False)
      else if has_flag (uxRingbufferFlags rb) rbBYTE_BUFFER_FLAG \<and> xItemSize = 0
      then Some (rb, [], True)
      else do {
        fits \<leftarrow> call_xCheckItemFits rb xItemSize;
        if fits then do {
          rb1 \<leftarrow> call_vCopyItem rb pvItem xItemSize;
          let (rb2, es) = notify_receiver sc rb1;
          Some (rb2, es, True)
        }
        else Some (rb, [], False)
      })"

section \<open>Receiving and returning\<close>

text \<open>The pieces a receive hands out: address and size of the first and, for a split item, of
  the second part.\<close>

type_synonym received = "(nat \<times> nat) \<times> (nat \<times> nat) option"

text \<open>The step inside the critical section when an item is available.  \<open>want2\<close> says whether
  the caller passed a place for the second part: an allow-split buffer writes through it.\<close>

definition receive_now :: "bool \<Rightarrow> nat \<Rightarrow> Ringbuffer_t \<Rightarrow> (Ringbuffer_t \<times> received) option" where
  "receive_now want2 xMaxSize rb = do {
     (rb1, p1, n1, split1) \<leftarrow> call_pvGetItem rb xMaxSize;
     if has_flag (uxRingbufferFlags rb1) rbALLOW_SPLIT_FLAG
     then (if split1 then do {
             (rb2, p2, n2, split2) \<leftarrow> call_pvGetItem rb1 0;
             assert_that want2;
             assert_that (p2 < p1);
             assert_that (\<not> split2);
             Some (rb2, (p1, n1), Some (p2, n2))
           }
           else do {
             assert_that want2;
             Some (rb1, (p1, n1), None)
           })
     else Some (rb1, (p1, n1), None)
   }"

fun prvReceiveGeneric ::
  "sched \<Rightarrow> bool \<Rightarrow> nat \<Rightarrow> nat \<Rightarrow> block_script \<Rightarrow> Ringbuffer_t
     \<Rightarrow> (Ringbuffer_t \<times> (received option) outcome) option" where
  "prvReceiveGeneric sc want2 xMaxSize xTicksToWait script rb = do {
     avail \<leftarrow> prvCheckItemAvail rb;
     if avail then do {
       (rb1, r) \<leftarrow> receive_now want2 xMaxSize rb;
       Some (rb1, Returned (Some r))
     }
     else if xTicksToWait = 0 then Some (rb, Returned None)
     else case script of
            [] \<Rightarrow> Some (rb\<lparr>xTasksWaitingToReceive := place_on_event_list sc (xTasksWaitingToReceive rb)\<rparr>,
                        StillBlocked)
          | (timed_out, others) # script' \<Rightarrow>
              if timed_out then Some (rb, Returned None)
              else prvReceiveGeneric sc want2 xMaxSize xTicksToWait script'
                     (others (rb\<lparr>xTasksWaitingToReceive :=
                                   place_on_event_list sc (xTasksWaitingToReceive rb)\<rparr>))
   }"

declare prvReceiveGeneric.simps [simp del]

definition prvReceiveGenericFromISR ::
  "bool \<Rightarrow> nat \<Rightarrow> Ringbuffer_t \<Rightarrow> (Ringbuffer_t \<times> received option) option" where
  "prvReceiveGenericFromISR want2 xMaxSize rb = do {
     avail \<leftarrow> prvCheckItemAvail rb;
     if avail then do {
       (rb1, r) \<leftarrow> receive_now want2 xMaxSize rb;
       Some (rb1, Some r)
     }
     else Some (rb, None)
   }"

definition xRingbufferReceive ::
  "sched \<Rightarrow> nat \<Rightarrow> block_script \<Rightarrow> Ringbuffer_t \<Rightarrow> (Ringbuffer_t \<times> (received option) outcome) option" where
  "xRingbufferReceive sc xTicksToWait script rb = prvReceiveGeneric sc False 0 xTicksToWait script rb"

definition xRingbufferReceiveFromISR :: "Ringbuffer_t \<Rightarrow> (Ringbuffer_t \<times> received option) option" where
  "xRingbufferReceiveFromISR rb = prvReceiveGenericFromISR False 0 rb"

definition xRingbufferReceiveSplit ::
  "sched \<Rightarrow> nat \<Rightarrow> block_script \<Rightarrow> Ringbuffer_t \<Rightarrow> (Ringbuffer_t \<times> (received option) outcome) option" where
  "xRingbufferReceiveSplit sc xTicksToWait script rb = do {
     assert_that (has_flag (uxRingbufferFlags rb) rbALLOW_SPLIT_FLAG);
     prvReceiveGeneric sc True 0 xTicksToWait script rb
   }"

definition xRingbufferReceiveSplitFromISR :: "Ringbuffer_t \<Rightarrow> (Ringbuffer_t \<times> received option) option" where
  "xRingbufferReceiveSplitFromISR rb = do {
     assert_that (has_flag (uxRingbufferFlags rb) rbALLOW_SPLIT_FLAG);
     prvReceiveGenericFromISR True 0 rb
   }"

definition xRingbufferReceiveUpTo ::
  "sched \<Rightarrow> nat \<Rightarrow> nat \<Rightarrow> block_script \<Rightarrow> Ringbuffer_t \<Rightarrow> (Ringbuffer_t \<times> (received option) outcome) option" where
  "xRingbufferReceiveUpTo sc xTicksToWait xMaxSize script rb = do {
     assert_that (has_flag (uxRingbufferFlags rb) rbBYTE_BUFFER_FLAG);
     if xMaxSize = 0 then Some (rb, Returned None)
     else prvReceiveGeneric sc False xMaxSize xTicksToWait script rb
   }"

definition xRingbufferReceiveUpToFromISR ::
  "nat \<Rightarrow> Ringbuffer_t \<Rightarrow> (Ringbuffer_t \<times> received option) option" where
  "xRingbufferReceiveUpToFromISR xMaxSize rb = do {
     assert_that (has_flag (uxRingbufferFlags rb) rbBYTE_BUFFER_FLAG);
     if xMaxSize = 0 then Some (rb, None)
     else prvReceiveGenericFromISR False xMaxSize rb
   }"

definition vRingbufferReturnItem ::
  "sched \<Rightarrow> nat \<Rightarrow> Ringbuffer_t \<Rightarrow> (Ringbuffer_t \<times> rb_effect list) option" where
  "vRingbufferReturnItem sc pvItem rb = do {
     rb1 \<leftarrow> call_vReturnItem rb pvItem;
     Some (notify_sender sc rb1)
   }"

text \<open>The interrupt version records the need for a context switch instead of yielding.\<close>

definition vRingbufferReturnItemFromISR ::
  "sched \<Rightarrow> nat \<Rightarrow> bool \<Rightarrow> Ringbuffer_t \<Rightarrow> (Ringbuffer_t \<times> rb_effect list \<times> bool) option" where
  "vRingbufferReturnItemFromISR sc pvItem woken rb = do {
     rb1 \<leftarrow> call_vReturnItem rb pvItem;
     let (rb2, es) = notify_sender sc rb1;
     Some (rb2, filter (\<lambda>e. e \<noteq> Yield) es, woken \<or> Yield \<in> set es)
   }"

section \<open>Queries and queue sets\<close>

definition xRingbufferGetMaxItemSize :: "Ringbuffer_t \<Rightarrow> nat" where
  "xRingbufferGetMaxItemSize rb = xMaxItemSize rb"

definition xRingbufferGetCurFreeSize :: "Ringbuffer_t \<Rightarrow> nat" where
  "xRingbufferGetCurFreeSize rb = call_xGetCurMaxSize rb"

definition xRingbufferAddToQueueSetRead :: "nat \<Rightarrow> Ringbuffer_t \<Rightarrow> (Ringbuffer_t \<times> bool) option" where
  "xRingbufferAddToQueueSetRead qs rb =
     (if xQueueSet rb \<noteq> None then Some (rb, False)
      else do {
        avail \<leftarrow> prvCheckItemAvail rb;
        Some (if avail then (rb, False) else (rb\<lparr>xQueueSet := Some qs\<rparr>, True))
      })"

definition xRingbufferRemoveFromQueueSetRead :: "nat \<Rightarrow> Ringbuffer_t \<Rightarrow> (Ringbuffer_t \<times> bool) option" where
  "xRingbufferRemoveFromQueueSetRead qs rb =
     (if xQueueSet rb \<noteq> Some qs then Some (rb, False)
      else do {
        avail \<leftarrow> prvCheckItemAvail rb;
        Some (if avail then (rb, False) else (rb\<lparr>xQueueSet := None\<rparr>, True))
      })"

text \<open>Offsets of the free, read, write and acquire pointers, and the items waiting.\<close>

definition vRingbufferGetInfo :: "Ringbuffer_t \<Rightarrow> nat \<times> nat \<times> nat \<times> nat \<times> int" where
  "vRingbufferGetInfo rb =
     (pucFree rb - pucHead rb, pucRead rb - pucHead rb, pucWrite rb - pucHead rb,
      pucAcquire rb - pucHead rb, xItemsWaiting rb)"

end
