(* ===== verification/Ringbuf_Inv.thy ===== *)
theory Ringbuf_Inv
  imports Ringbuf_Layout Ringbuf_Api
begin

text \<open>
  The invariant of a no-split or allow-split ring buffer whose items are sent in one step.
  The cells between the free pointer and the read pointer (\<open>A\<close>) are retrieved items that
  are not all returned yet, those between the read pointer and the acquire pointer
  (\<open>B\<close>) hold the data still to be received.
\<close>

section \<open>The data in a chain of cells\<close>

text \<open>The messages that the cells hold: a dummy precedes an item, and an item with the split
  flag is the first half of a message whose second half is the next item.\<close>

fun messages :: "cell list \<Rightarrow> byte list list option" where
  "messages [] = Some []"
| "messages (Dummy f # cs) =
     (case cs of Item n g d # cs' \<Rightarrow> messages cs | _ \<Rightarrow> None)"
| "messages (Item n f d # cs) =
     (if bit f 2
      then (case cs of
              Item n' f' d' # cs' \<Rightarrow>
                if bit f' 2 then None else map_option ((#) (d @ d')) (messages cs')
            | _ \<Rightarrow> None)
      else map_option ((#) d) (messages cs))"

fun fresh_cell :: "bool \<Rightarrow> nat \<Rightarrow> cell \<Rightarrow> bool" where
  "fresh_cell split mx (Dummy f) \<longleftrightarrow> (\<not> split \<longrightarrow> bit f 3)"
| "fresh_cell split mx (Item n f d) \<longleftrightarrow>
     n \<le> mx \<and> \<not> bit f 0 \<and> (\<not> split \<longrightarrow> bit f 3 \<and> \<not> bit f 2)"

fun len_ok :: "nat \<Rightarrow> cell \<Rightarrow> bool" where
  "len_ok mx (Dummy f) \<longleftrightarrow> True"
| "len_ok mx (Item n f d) \<longleftrightarrow> n \<le> mx"

text \<open>The first item that is not yet returned is at the free pointer, or behind one dummy
  there.\<close>

fun held_head :: "cell list \<Rightarrow> bool" where
  "held_head [] \<longleftrightarrow> True"
| "held_head (Item n f d # cs) \<longleftrightarrow> \<not> bit f 0"
| "held_head (Dummy g # Item n f d # cs) \<longleftrightarrow> \<not> bit f 0"
| "held_head (Dummy g # cs) \<longleftrightarrow> False"

section \<open>The invariant\<close>

definition max_item :: "nat \<Rightarrow> bool \<Rightarrow> nat" where
  "max_item S split = (if split then S - 16 else rbALIGN_SIZE (S div 2) - 8)"

definition size_ok :: "nat \<Rightarrow> bool" where
  "size_ok S \<longleftrightarrow> 4 dvd S \<and> 16 \<le> S \<and> S < 2147483648"

definition rb_static :: "nat \<Rightarrow> bool \<Rightarrow> Ringbuffer_t \<Rightarrow> bool" where
  "rb_static S split rb \<longleftrightarrow>
     xSize rb = S \<and> pucHead rb = 0 \<and> pucTail rb = S \<and> length (storage rb) = S \<and>
     xMaxItemSize rb = max_item S split \<and>
     bit (uxRingbufferFlags rb) 0 = split \<and> \<not> bit (uxRingbufferFlags rb) 1 \<and>
     xCheckItemFits rb = CheckItemFitsDefault \<and>
     vCopyItem rb = (if split then CopyItemAllowSplit else CopyItemNoSplit) \<and>
     pvGetItem rb = GetItemDefault \<and> vReturnItem rb = ReturnItemDefault \<and>
     xGetCurMaxSize rb = (if split then GetCurMaxSizeAllowSplit else GetCurMaxSizeNoSplit)"

definition rb_core :: "nat \<Rightarrow> bool \<Rightarrow> Ringbuffer_t \<Rightarrow> cell list \<Rightarrow> cell list \<Rightarrow> bool" where
  "rb_core S split rb A B \<longleftrightarrow>
     size_ok S \<and> rb_static S split rb \<and> pos_ok S (pucFree rb) \<and>
     chain S (storage rb) (pucFree rb) A (pucRead rb) \<and>
     chain S (storage rb) (pucRead rb) B (pucAcquire rb) \<and>
     pucWrite rb = pucAcquire rb \<and>
     extent S (pucFree rb) (A @ B) \<le> S \<and>
     (is_full rb \<longleftrightarrow> extent S (pucFree rb) (A @ B) = S) \<and>
     xItemsWaiting rb = int (length (filter is_item B)) \<and>
     (\<forall>c \<in> set A. len_ok (max_item S split) c) \<and>
     (\<forall>c \<in> set B. fresh_cell split (max_item S split) c) \<and>
     held_head A"

definition rb_inv :: "nat \<Rightarrow> bool \<Rightarrow> Ringbuffer_t \<Rightarrow> cell list \<Rightarrow> cell list \<Rightarrow> bool" where
  "rb_inv S split rb A B \<longleftrightarrow> rb_core S split rb A B \<and> messages B \<noteq> None"

lemma rb_inv_core: "rb_inv S split rb A B \<Longrightarrow> rb_core S split rb A B"
  by (simp add: rb_inv_def)

text \<open>Facts every operation starts from.\<close>

lemma rb_core_facts:
  assumes "rb_core S split rb A B"
  shows "size_ok S" "4 dvd S" "16 \<le> S" "S < 2147483648"
    "pucTail rb = S" "pucHead rb = 0" "xSize rb = S" "length (storage rb) = S"
    "xMaxItemSize rb = max_item S split"
    "pos_ok S (pucFree rb)" "pos_ok S (pucRead rb)" "pos_ok S (pucAcquire rb)"
    "chain S (storage rb) (pucFree rb) (A @ B) (pucAcquire rb)"
    "extent S (pucFree rb) (A @ B) \<le> S"
    "pucAcquire rb = (pucFree rb + extent S (pucFree rb) (A @ B)) mod S"
proof -
  show sz: "size_ok S" "4 dvd S" "16 \<le> S" "S < 2147483648"
    using assms by (auto simp: rb_core_def size_ok_def)
  show "pucTail rb = S" "pucHead rb = 0" "xSize rb = S" "length (storage rb) = S"
    "xMaxItemSize rb = max_item S split"
    using assms by (auto simp: rb_core_def rb_static_def)
  show fr: "pos_ok S (pucFree rb)" using assms by (simp add: rb_core_def)
  have chA: "chain S (storage rb) (pucFree rb) A (pucRead rb)"
    and chB: "chain S (storage rb) (pucRead rb) B (pucAcquire rb)"
    using assms by (auto simp: rb_core_def)
  show rd: "pos_ok S (pucRead rb)" by (rule chain_pos_ok [OF chA fr sz(2,3)])
  show "pos_ok S (pucAcquire rb)" by (rule chain_pos_ok [OF chB rd sz(2,3)])
  show ch: "chain S (storage rb) (pucFree rb) (A @ B) (pucAcquire rb)"
    using chA chB by (auto simp: chain_append)
  show "extent S (pucFree rb) (A @ B) \<le> S" using assms by (simp add: rb_core_def)
  show "pucAcquire rb = (pucFree rb + extent S (pucFree rb) (A @ B)) mod S"
    using chain_end_mod [OF ch] fr by (simp add: pos_ok_def)
qed

lemmas rb_inv_facts = rb_core_facts [OF rb_inv_core]

lemma is_full_bit: "is_full rb \<longleftrightarrow> bit (uxRingbufferFlags rb) 2"
  by (simp add: is_full_def rbBUFFER_FULL_FLAG_def)

lemma rbCHECK_ALIGNED_iff [simp]: "rbCHECK_ALIGNED p \<longleftrightarrow> 4 dvd p"
  by (simp add: rbCHECK_ALIGNED_def dvd_eq_mod_eq_0)

lemma max_item_nosplit:
  assumes "size_ok S"
  shows "max_item S False + 8 = rbALIGN_SIZE (S div 2)" "2 * (max_item S False + 8) \<le> S + 4"
    "max_item S False + 8 \<le> S"
proof -
  have al: "rbALIGN_SIZE (S div 2) = (S div 2 + 3) div 4 * 4"
    using assms by (intro rbALIGN_SIZE_eq) (auto simp: size_ok_def)
  have ge: "8 \<le> rbALIGN_SIZE (S div 2)" using assms unfolding al size_ok_def by presburger
  show *: "max_item S False + 8 = rbALIGN_SIZE (S div 2)"
    using ge by (simp add: max_item_def)
  show "2 * (max_item S False + 8) \<le> S + 4"
    using assms unfolding * al size_ok_def by presburger
  then show "max_item S False + 8 \<le> S" using assms by (simp add: size_ok_def)
qed

text \<open>The space an item needs, aligned and with its header.\<close>

lemma item_total:
  assumes "size_ok S" "n \<le> max_item S False"
  shows "n < 2147483648" "rbALIGN_SIZE n \<le> max_item S False"
    "wrap32 (rbALIGN_SIZE n + rbHEADER_SIZE) = rbALIGN_SIZE n + 8"
proof -
  have mx: "max_item S False \<le> S" using max_item_nosplit(3) [OF assms(1)] by simp
  show n: "n < 2147483648" using assms mx by (simp add: size_ok_def)
  have "4 dvd max_item S False + 8" unfolding max_item_nosplit(1) [OF assms(1)] by simp
  then have "4 dvd max_item S False" by (simp add: dvd_add_left_iff)
  then show al: "rbALIGN_SIZE n \<le> max_item S False"
    using assms mx by (intro rbALIGN_SIZE_le_aligned) (auto simp: size_ok_def)
  show "wrap32 (rbALIGN_SIZE n + rbHEADER_SIZE) = rbALIGN_SIZE n + 8"
    using al mx assms(1) by (simp add: wrap32_id rbHEADER_SIZE_def size_ok_def)
qed

section \<open>Acquiring space\<close>

text \<open>What the geometry of the ring says about the new cells: where the item goes and that
  the cells fit into the free part.\<close>

definition new_cells_fit :: "nat \<Rightarrow> nat \<Rightarrow> nat \<Rightarrow> nat \<Rightarrow> cell list \<Rightarrow> nat \<Rightarrow> nat \<Rightarrow> bool" where
  "new_cells_fit S E acq n D p sp \<longleftrightarrow>
     p + 8 + rbALIGN_SIZE n \<le> S \<and> pos_ok S p \<and>
     (D = [] \<and> p = acq \<or> D = [Dummy 2] \<and> p = 0 \<and> 0 < acq) \<and>
     sp = (if S - (p + 8 + rbALIGN_SIZE n) < 8 then S - p else 8 + rbALIGN_SIZE n) \<and>
     E + extent S acq D + sp \<le> S"

lemma fits_geometry:
  assumes inv: "rb_inv S False rb A B" and n: "n \<le> max_item S False"
    and fits: "prvCheckItemFitsDefault rb n = Some True"
  defines "E \<equiv> extent S (pucFree rb) (A @ B)"
    and "need_dummy \<equiv> S - pucAcquire rb < rbALIGN_SIZE n + 8"
  shows "new_cells_fit S E (pucAcquire rb) n
           (if need_dummy then [Dummy 2] else [])
           (if need_dummy then 0 else pucAcquire rb)
           (let p = if need_dummy then 0 else pucAcquire rb
            in if S - (p + 8 + rbALIGN_SIZE n) < 8 then S - p else 8 + rbALIGN_SIZE n)"
proof -
  note facts = rb_inv_facts [OF inv]
  note sz = facts(1-4) and fr = facts(10) and acq = facts(12) and ch = facts(13)
  have frS: "pucFree rb < S" using fr by (simp add: pos_ok_def)
  note acq_mod = facts(15) [folded E_def]
  have E: "E \<le> S" "is_full rb \<longleftrightarrow> E = S" using inv by (auto simp: rb_inv_def rb_core_def E_def)
  have st: "pucTail rb = S" "pucHead rb = 0" "\<not> has_flag (uxRingbufferFlags rb) rbALLOW_SPLIT_FLAG"
    using inv by (auto simp: rb_inv_def rb_core_def rb_static_def rbALLOW_SPLIT_FLAG_def)
  note tot = item_total [OF sz(1) n]
  let ?T = "rbALIGN_SIZE n + 8"
  have T: "4 dvd ?T" "2 * ?T \<le> S + 4" using max_item_nosplit(2) [OF sz(1)] tot(2) by auto
  have sub: "sub32 (pucTail rb) (pucAcquire rb) = S - pucAcquire rb"
    "sub32 (pucFree rb) (pucHead rb) = pucFree rb"
    using acq fr sz(4) st by (simp_all add: pos_ok_def sub32_eq)
  have f: "if pucAcquire rb = pucFree rb then E \<noteq> S
           else if pucAcquire rb < pucFree rb then ?T \<le> pucFree rb - pucAcquire rb
           else ?T \<le> S - pucAcquire rb \<or> ?T \<le> pucFree rb"
    using fits st(3) E(2) unfolding prvCheckItemFitsDefault_def
    by (auto simp: tot(3) sub Let_def trap_simps split: if_splits)
  have acqE: "pucAcquire rb = (if pucFree rb + E < S then pucFree rb + E else pucFree rb + E - S)"
    using acq_mod E(1) frS by (simp add: mod_if [of "pucFree rb + E"])
  have *: "4 dvd pucAcquire rb" "pucAcquire rb + 8 \<le> S" "4 dvd pucFree rb" "pucFree rb + 8 \<le> S"
    using acq fr by (auto simp: pos_ok_def)
  show ?thesis
  proof (cases need_dummy)
    case False
    then have "pucAcquire rb + ?T \<le> S" using * by (simp add: need_dummy_def)
    then show ?thesis
      using False f acqE E(1) * acq frS
      by (auto simp: new_cells_fit_def Let_def split: if_splits)
  next
    case True
    then have lt: "S < pucAcquire rb + ?T" using * by (simp add: need_dummy_def)
    have "0 < pucAcquire rb" using lt T by (cases "pucAcquire rb") auto
    moreover have "?T \<le> pucAcquire rb" if "pucAcquire rb = pucFree rb"
    proof (rule ccontr)
      assume "\<not> ?T \<le> pucAcquire rb"
      then have "pucAcquire rb + 4 \<le> ?T" using T(1) *(1) by presburger
      then show False using lt T(2) by arith
    qed
    ultimately show ?thesis
      using True lt f acqE E(1) * frS sz
      by (auto simp: new_cells_fit_def Let_def pos_ok_def split: if_splits)
  qed
qed


lemma mark_full_wrap:
  assumes "pucHead rb = 0" "pucTail rb = S" "q \<le> S" "S < 2147483648"
  shows "mark_full (wrap_acquire (rb\<lparr>storage := m, pucAcquire := q\<rparr>)) =
     (let q' = (if S - q < 8 then 0 else q)
      in rb\<lparr>storage := m, pucAcquire := q',
            uxRingbufferFlags := (if q' = pucFree rb
              then set_flag (uxRingbufferFlags rb) rbBUFFER_FULL_FLAG else uxRingbufferFlags rb)\<rparr>)"
  using assms by (simp add: mark_full_def wrap_acquire_def sub32_eq rbHEADER_SIZE_def Let_def)

lemma mark_dummy_ok:
  assumes "pucHead rb = 0" "length (storage rb) = S" "pucAcquire rb + 8 \<le> S"
  shows "\<exists>m. mark_dummy rb = Some (rb\<lparr>storage := m, pucAcquire := 0\<rparr>) \<and> length m = S \<and>
           chain S m (pucAcquire rb) [Dummy 2] 0 \<and>
           (\<forall>x < S. x < pucAcquire rb \<or> pucAcquire rb + 8 \<le> x \<longrightarrow> m ! x = storage rb ! x)"
proof -
  obtain m1 m2 where m:
    "set_item_flags (storage rb) (pucAcquire rb) 2 = Some m1"
    "set_item_len m1 (pucAcquire rb) 0 = Some m2" "length m2 = S"
    "get_item_len m2 (pucAcquire rb) = Some 0" "get_item_flags m2 (pucAcquire rb) = Some 2"
    "\<forall>x < S. x < pucAcquire rb \<or> pucAcquire rb + 8 \<le> x \<longrightarrow> m2 ! x = storage rb ! x"
    using write_dummy [of "pucAcquire rb" "storage rb" 2 0] assms by auto
  then show ?thesis
    using assms by (auto simp: mark_dummy_def rbITEM_DUMMY_DATA_FLAG_def wrap_pos_def)
qed

lemma acquire_ok:
  assumes inv: "rb_inv S False rb A B" and n: "n \<le> max_item S False"
    and fits: "prvCheckItemFitsDefault rb n = Some True"
  defines "E \<equiv> extent S (pucFree rb) (A @ B)"
  shows "\<exists>m p D sp q. prvAcquireItemNoSplit rb n =
           Some (rb\<lparr>storage := m, pucAcquire := q,
                   uxRingbufferFlags := (if q = pucFree rb
                     then set_flag (uxRingbufferFlags rb) rbBUFFER_FULL_FLAG
                     else uxRingbufferFlags rb)\<rparr>, p + 8) \<and>
           new_cells_fit S E (pucAcquire rb) n D p sp \<and> q = wrap_pos S (p + sp) \<and>
           length m = S \<and> chain S m (pucAcquire rb) D p \<and>
           get_item_len m p = Some n \<and> get_item_flags m p = Some 0 \<and>
           (D \<noteq> [] \<longrightarrow> S - pucAcquire rb < rbALIGN_SIZE n + 8) \<and>
           (\<forall>x < S. \<not> in_ring S (pucAcquire rb) (extent S (pucAcquire rb) D + sp) x \<longrightarrow>
                    m ! x = storage rb ! x)"
proof -
  note facts = rb_inv_facts [OF inv]
  note sz = facts(1-4) and st = facts(5,6,8)
  have acq: "4 dvd pucAcquire rb" "pucAcquire rb + 8 \<le> S" using facts(12) by (auto simp: pos_ok_def)
  define need_dummy where "need_dummy \<longleftrightarrow> S - pucAcquire rb < rbALIGN_SIZE n + 8"
  define p where "p = (if need_dummy then 0 else pucAcquire rb)"
  define D where "D = (if need_dummy then [Dummy 2] else [])"
  define sp where "sp = (if S - (p + 8 + rbALIGN_SIZE n) < 8 then S - p else 8 + rbALIGN_SIZE n)"
  have ncf: "new_cells_fit S E (pucAcquire rb) n D p sp"
    using fits_geometry [OF inv n fits]
    unfolding sp_def D_def p_def E_def need_dummy_def Let_def .
  note tot = item_total [OF sz(1) n]
  have pn: "p + 8 + rbALIGN_SIZE n \<le> S" "p + 8 \<le> S"
    using ncf by (auto simp: new_cells_fit_def)
  obtain rb1 where rb1:
    "(if need_dummy then mark_dummy rb else Some rb) = Some rb1"
    "rb1 = rb\<lparr>storage := storage rb1, pucAcquire := p\<rparr>" "length (storage rb1) = S"
    "chain S (storage rb1) (pucAcquire rb) D p"
    "\<forall>x < S. x < pucAcquire rb \<or> pucAcquire rb + extent S (pucAcquire rb) D \<le> x \<longrightarrow>
       storage rb1 ! x = storage rb ! x"
    using mark_dummy_ok [OF st(2,3) acq(2)] acq(2) st(3)
    by (cases need_dummy) (auto simp: p_def D_def)
  obtain m1 m where m:
    "set_item_len (storage rb1) p n = Some m1" "set_item_flags m1 p 0 = Some m" "length m = S"
    "get_item_len m p = Some n" "get_item_flags m p = Some 0"
    "\<forall>x < S. x < p \<or> p + 8 \<le> x \<longrightarrow> m ! x = storage rb1 ! x"
    using write_header [of p "storage rb1" n 0] rb1(3) pn tot(1) by auto
  define q where "q = wrap_pos S (p + sp)"
  have q: "q = (if S - (p + 8 + rbALIGN_SIZE n) < 8 then 0 else p + 8 + rbALIGN_SIZE n)"
    using pn by (auto simp: q_def sp_def wrap_pos_def)
  have acqp: "pucAcquire rb1 = p" "pucHead rb1 = 0" "pucTail rb1 = S" "pucFree rb1 = pucFree rb"
    "uxRingbufferFlags rb1 = uxRingbufferFlags rb"
    using st by (subst rb1(2), simp)+
  have mf: "mark_full (wrap_acquire (rb1\<lparr>storage := m, pucAcquire := p + 8 + rbALIGN_SIZE n\<rparr>)) =
      rb\<lparr>storage := m, pucAcquire := q,
         uxRingbufferFlags := (if q = pucFree rb
           then set_flag (uxRingbufferFlags rb) rbBUFFER_FULL_FLAG else uxRingbufferFlags rb)\<rparr>"
    unfolding mark_full_wrap [OF acqp(2,3) pn(1) sz(4)] Let_def acqp(4,5) q [symmetric]
    by (subst rb1(2)) simp
  have rem: "8 \<le> S - pucAcquire rb" using acq(2) by simp
  have "prvAcquireItemNoSplit rb n =
      Some (rb\<lparr>storage := m, pucAcquire := q,
         uxRingbufferFlags := (if q = pucFree rb
           then set_flag (uxRingbufferFlags rb) rbBUFFER_FULL_FLAG else uxRingbufferFlags rb)\<rparr>, p + 8)"
    using st acq rem sz pn rb1(1) m(1,2) mf acqp tot
    by (simp add: prvAcquireItemNoSplit_def sub32_eq rbHEADER_SIZE_def need_dummy_def wrap32_id
                  add.commute add.left_commute)
  moreover have "chain S m (pucAcquire rb) D p"
  proof (rule chain_frame [OF rb1(4)])
    show "m ! x = storage rb1 ! x" if "in_ring S (pucAcquire rb) (extent S (pucAcquire rb) D) x" for x
      using that m(6) ncf sz(3) acq(2)
      by (auto simp: in_ring_def new_cells_fit_def split: if_splits)
  qed (use acq ncf rb1(3) m(3) in \<open>auto simp: new_cells_fit_def\<close>)
  moreover have "m ! x = storage rb ! x"
    if "x < S" "\<not> in_ring S (pucAcquire rb) (extent S (pucAcquire rb) D + sp) x" for x
  proof -
    have sp8: "8 \<le> sp" "p + sp \<le> S" using pn by (auto simp: sp_def)
    have "D = [] \<and> p = pucAcquire rb \<or> D = [Dummy 2] \<and> p = 0"
      by (simp add: D_def p_def)
    then show ?thesis
      using that m(6) rb1(5) sp8 acq(2) by (elim disjE) (auto simp: in_ring_def)
  qed
  moreover have "D \<noteq> [] \<longrightarrow> S - pucAcquire rb < rbALIGN_SIZE n + 8"
    by (simp add: D_def need_dummy_def)
  ultimately show ?thesis
    using ncf m q_def by blast
qed


section \<open>Appending cells\<close>

lemma chain_frame_append:
  assumes "chain S m p A r" "chain S m r B q" "p < S" "extent S p (A @ B) \<le> S"
    "length m = S" "length m' = S"
    "\<And>x. in_ring S p (extent S p (A @ B)) x \<Longrightarrow> m' ! x = m ! x"
  shows "chain S m' p A r" "chain S m' r B q"
proof -
  have "chain S m p (A @ B) q" using assms(1,2) by (auto simp: chain_append)
  then have "chain S m' p (A @ B) q" by (rule chain_frame) (use assms in auto)
  then obtain r' where r': "chain S m' p A r'" "chain S m' r' B q" by (auto simp: chain_append)
  have "r' = r" using chain_chain_end [OF r'(1)] chain_chain_end [OF assms(1)] by simp
  then show "chain S m' p A r" "chain S m' r B q" using r' by simp_all
qed

lemma rb_inv_append:
  assumes inv: "rb_inv S split rb A B"
    and mf: "length mf = S"
      "\<And>x. x < S \<Longrightarrow> \<not> in_ring S (pucAcquire rb) (extent S (pucAcquire rb) N) x \<Longrightarrow>
             mf ! x = storage rb ! x"
    and N: "chain S mf (pucAcquire rb) N q" "N \<noteq> []"
      "extent S (pucFree rb) (A @ B) + extent S (pucAcquire rb) N \<le> S"
      "\<forall>c \<in> set N. fresh_cell split (max_item S split) c" "messages (B @ N) \<noteq> None"
  shows "rb_inv S split
     (rb\<lparr>storage := mf, pucAcquire := q, pucWrite := q,
         xItemsWaiting := xItemsWaiting rb + int (length (filter is_item N)),
         uxRingbufferFlags := (if q = pucFree rb
           then set_flag (uxRingbufferFlags rb) rbBUFFER_FULL_FLAG else uxRingbufferFlags rb)\<rparr>)
     A (B @ N)"
proof -
  note facts = rb_inv_facts [OF inv]
  let ?E = "extent S (pucFree rb) (A @ B)" and ?X = "extent S (pucAcquire rb) N"
  have frS: "pucFree rb < S" using facts(10) by (simp add: pos_ok_def)
  have X: "8 \<le> ?X" using extent_pos [OF N(1,2)] .
  have agree: "mf ! x = storage rb ! x" if "in_ring S (pucFree rb) ?E x" for x
  proof (rule mf(2))
    show "x < S" using that by (simp add: in_ring_def)
    show "\<not> in_ring S (pucAcquire rb) ?X x"
      using ring_disjoint [OF frS facts(15) N(3) that] by blast
  qed
  have chA: "chain S (storage rb) (pucFree rb) A (pucRead rb)"
    and chB: "chain S (storage rb) (pucRead rb) B (pucAcquire rb)"
    using inv by (auto simp: rb_inv_def rb_core_def)
  note fr = chain_frame_append [OF chA chB frS facts(14) facts(8) mf(1) agree]
  have all: "chain S mf (pucFree rb) ((A @ B) @ N) q"
    using fr N(1) by (auto simp: chain_append)
  have ext: "extent S (pucFree rb) (A @ B @ N) = ?E + ?X"
    using extent_append [of S "pucFree rb" "A @ B" N] chain_chain_end [OF facts(13)] by simp
  have "q = (pucFree rb + (?E + ?X)) mod S"
    using chain_end_mod [OF all frS] ext by simp
  then have full: "q = pucFree rb \<longleftrightarrow> ?E + ?X = S"
    using X N(3) frS by (cases "pucFree rb + (?E + ?X) < S") (auto simp: mod_if [of "pucFree rb + (?E + ?X)"])
  have nf: "\<not> is_full rb" using inv X N(3) by (auto simp: rb_inv_def rb_core_def)
  have st: "rb_static S split
     (rb\<lparr>storage := mf, pucAcquire := q, pucWrite := q,
         xItemsWaiting := xItemsWaiting rb + int (length (filter is_item N)),
         uxRingbufferFlags := (if q = pucFree rb
           then set_flag (uxRingbufferFlags rb) rbBUFFER_FULL_FLAG else uxRingbufferFlags rb)\<rparr>)"
    using inv mf(1) by (auto simp: rb_inv_def rb_core_def rb_static_def rbBUFFER_FULL_FLAG_def)
  show ?thesis
    unfolding rb_inv_def rb_core_def
    using inv st fr N ext full nf facts(10) chain_append [of S mf "pucRead rb" B N q]
    by (auto simp: rb_inv_def rb_core_def is_full_bit rbBUFFER_FULL_FLAG_def)
qed

lemma messages_append_whole:
  "messages xs = Some ms \<Longrightarrow> messages (xs @ ys) = map_option ((@) ms) (messages ys)"
proof (induction xs arbitrary: ms rule: messages.induct)
  case 1
  then show ?case by (simp add: option.map_ident)
next
  case (2 f cs)
  from 2(2) obtain n g d cs' where cs: "cs = Item n g d # cs'" "messages cs = Some ms"
    by (simp split: list.splits cell.splits)
  have "messages (cs @ ys) = map_option ((@) ms) (messages ys)"
    by (rule 2(1) [OF cs(1) refl cs(2)])
  then show ?case using cs(1) by simp
next
  case (3 n f d cs)
  show ?case
  proof (cases "bit f 2")
    case False
    then obtain ms' where ms': "messages cs = Some ms'" "ms = d # ms'" using 3(3) by auto
    have "messages (cs @ ys) = map_option ((@) ms') (messages ys)"
      by (rule 3(2) [OF False ms'(1)])
    then show ?thesis using False ms'(2) by (simp add: option.map_comp comp_def)
  next
    case True
    then obtain n' f' d' cs' ms' where cs: "cs = Item n' f' d' # cs'" "\<not> bit f' 2"
      "messages cs' = Some ms'" "ms = (d @ d') # ms'"
      using 3(3) by (auto split: list.splits cell.splits if_splits)
    have "messages (cs' @ ys) = map_option ((@) ms') (messages ys)"
      by (rule 3(1) [OF True cs(1) refl cs(2,3)])
    then show ?thesis using True cs by (simp add: option.map_comp comp_def)
  qed
qed

section \<open>Completing a send\<close>

lemma advance_write_stop:
  "get_header (storage rb) (pucWrite rb) = Some h \<Longrightarrow> pucWrite rb = pucAcquire rb \<Longrightarrow>
     advance_write (Suc k) rb = Some rb"
  by (simp add: advance_write.simps(2))

lemma cell_at_header:
  "cell_at S m p c \<Longrightarrow> get_header m p =
     Some \<lparr>xItemLen = (case c of Item n f d \<Rightarrow> n | Dummy f \<Rightarrow> 0), uxItemFlags = cell_flags c\<rparr>"
  by (cases c) (auto simp: get_header_eq_Some)

lemma wrap_pos_sub32:
  assumes "p + l \<le> S" "S < 2147483648" "4 dvd p" "4 dvd l"
  shows "(if sub32 S (p + l) < 8 then 0 else p + l) =
         wrap_pos S (p + (if S - (p + l) < 8 then S - p else l))"
  using assms by (auto simp: sub32_eq wrap_pos_def)

lemma advance_write_item:
  assumes "cell_at S (storage rb) (pucWrite rb) (Item n f d)" "bit f 3"
    "pucWrite rb \<noteq> pucAcquire rb" "pucHead rb = 0" "pucTail rb = S" "xSize rb = S"
    "S < 2147483648" "4 dvd pucWrite rb"
  shows "advance_write (Suc k) rb =
     advance_write k (rb\<lparr>pucWrite := wrap_pos S (pucWrite rb + cell_span S (pucWrite rb) (Item n f d))\<rparr>)"
proof -
  let ?w = "pucWrite rb" and ?l = "rbALIGN_SIZE n + 8"
  have b: "?w + ?l \<le> S" using assms(1) by simp
  have "wrap_write (rb\<lparr>pucWrite := ?w + ?l\<rparr>) =
      rb\<lparr>pucWrite := wrap_pos S (?w + cell_span S ?w (Item n f d))\<rparr>"
    using wrap_pos_sub32 [OF b assms(7,8)] assms(4,5)
    by (simp add: wrap_write_def rbHEADER_SIZE_def ac_simps split: if_splits)
  then show ?thesis
    using cell_at_header [OF assms(1)] assms b
    by (simp add: advance_write.simps(2) rb_flag_defs rbHEADER_SIZE_def wrap32_id)
qed

lemma advance_write_dummy:
  assumes "cell_at S (storage rb) (pucWrite rb) (Dummy f)"
    "pucWrite rb \<noteq> pucAcquire rb" "pucHead rb = 0" "pucTail rb = S" "16 \<le> S" "S < 2147483648"
    "set_item_flags (storage rb) (pucWrite rb) (set_flag f 8) = Some m"
  shows "advance_write (Suc k) rb = advance_write k (rb\<lparr>storage := m, pucWrite := 0\<rparr>)"
proof -
  have "wrap_write (rb\<lparr>storage := m, pucWrite := 0\<rparr>) = rb\<lparr>storage := m, pucWrite := 0\<rparr>"
    using assms(3-6) by (simp add: wrap_write_def rbHEADER_SIZE_def sub32_eq)
  then show ?thesis
    using cell_at_header [OF assms(1)] assms by (simp add: advance_write.simps(2) rb_flag_defs)
qed

end
