(* ===== verification/Ringbuf_Send.thy ===== *)
theory Ringbuf_Send
  imports Ringbuf_Inv
begin

text \<open>
  Sending keeps the invariant and appends the item to the cells still to be read: the
  no-split and the allow-split copy.
\<close>

section \<open>No-split buffers\<close>

text \<open>
  In a buffer whose size is a multiple of 8 no single item fills the whole ring, so the new
  acquire pointer differs from the old one.  (For other sizes it can, and the write pointer
  then stays behind.)
\<close>

lemma acquire_moves:
  assumes inv: "rb_inv S False rb A B" and "8 dvd S" and n: "n \<le> max_item S False"
    and ncf: "new_cells_fit S E acq n D p sp" and dummy: "D \<noteq> [] \<Longrightarrow> S - acq < rbALIGN_SIZE n + 8"
    and acq: "pos_ok S acq"
  shows "extent S acq D + sp < S"
proof -
  have sz: "size_ok S" "16 \<le> S" using inv by (auto simp: rb_inv_def rb_core_def size_ok_def)
  have "max_item S False + 8 = rbALIGN_SIZE (S div 2)" by (rule max_item_nosplit(1) [OF sz(1)])
  moreover have "rbALIGN_SIZE (S div 2) = S div 2"
    using \<open>8 dvd S\<close> sz by (subst rbALIGN_SIZE_eq) (auto simp: size_ok_def)
  ultimately have half: "2 * (rbALIGN_SIZE n + 8) \<le> S"
    using item_total(2) [OF sz(1) n] \<open>8 dvd S\<close> by presburger
  have D: "D = [] \<and> p = acq \<or> D = [Dummy 2] \<and> p = 0 \<and> 0 < acq"
    and sp: "sp = (if S - (p + 8 + rbALIGN_SIZE n) < 8 then S - p else 8 + rbALIGN_SIZE n)"
    and tot: "extent S acq D + sp \<le> S"
    using ncf by (auto simp: new_cells_fit_def)
  have al: "4 dvd rbALIGN_SIZE n" "4 dvd acq" "acq + 8 \<le> S" "4 dvd S"
    using acq sz by (auto simp: pos_ok_def size_ok_def)
  show ?thesis
  proof (cases "D = []")
    case True
    then have "sp = (if S - (acq + 8 + rbALIGN_SIZE n) < 8 then S - acq else 8 + rbALIGN_SIZE n)"
      using D sp by auto
    then show ?thesis using True half sz(2) al \<open>8 dvd S\<close> by (auto split: if_splits)
  next
    case False
    then have D1: "D = [Dummy 2]" "p = 0" using D by auto
    then have "sp = (if S - (8 + rbALIGN_SIZE n) < 8 then S else 8 + rbALIGN_SIZE n)"
      using sp by simp
    then show ?thesis using D1 dummy half sz(2) al tot by (auto split: if_splits)
  qed
qed

text \<open>Writing the data and completing the item turns the acquired space into new cells.\<close>

lemma fill_and_complete:
  assumes m: "length m = S" "get_item_len m p = Some n" "get_item_flags m p = Some 0"
    and p: "p + 8 + rbALIGN_SIZE n \<le> S" "n < 2147483648" "n \<le> length bs"
  shows "\<exists>m1 m2. memcpy m (p + 8) bs n = Some m1 \<and> set_item_flags m1 p 8 = Some m2 \<and>
     get_header m1 p = Some \<lparr>xItemLen = n, uxItemFlags = 0\<rparr> \<and>
     length m2 = S \<and> cell_at S m2 p (Item n 8 (take n bs)) \<and>
     (\<forall>x < S. x < p \<or> p + 8 + rbALIGN_SIZE n \<le> x \<longrightarrow> m2 ! x = m ! x)"
proof -
  have al: "n \<le> rbALIGN_SIZE n" using p(2) by (simp add: rbALIGN_SIZE_ge)
  obtain m1 where m1: "memcpy m (p + 8) bs n = Some m1" "length m1 = S"
    "read_at m1 (p + 8) n = Some (take n bs)"
    "\<forall>x < S. x < p + 8 \<or> p + 8 + n \<le> x \<longrightarrow> m1 ! x = m ! x"
    using memcpy_Some [of "p + 8" n m bs] m(1) p al by auto
  have h: "get_item_len m1 p = Some n" "get_item_flags m1 p = Some 0"
    using get_item_len_cong [of m1 m p] get_item_flags_cong [of m1 m p] m1(2,4) m by auto
  obtain m2 where m2: "set_item_flags m1 p 8 = Some m2" "length m2 = S"
    "get_item_flags m2 p = Some 8" "get_item_len m2 p = get_item_len m1 p"
    "\<forall>k. read_at m2 (p + 8) k = read_at m1 (p + 8) k"
    "\<forall>x < S. x < p \<or> p + 8 \<le> x \<longrightarrow> m2 ! x = m1 ! x"
    using set_flags_frame [of p m1 8] m1(2) p(1) by auto
  have "cell_at S m2 p (Item n 8 (take n bs))" using m2 m1 h p by simp
  moreover have "m2 ! x = m ! x" if "x < S" "x < p \<or> p + 8 + rbALIGN_SIZE n \<le> x" for x
    using that m1(4) m2(6) al by auto
  ultimately show ?thesis using m1 m2 h get_header_Some [OF h] by auto
qed

text \<open>The write pointer follows over the new cells up to the acquire pointer.\<close>

lemma advance_write_new:
  assumes D: "D = [] \<and> p = w \<or> D = [Dummy 2] \<and> p = 0"
    and ch: "chain S (storage rb) w D p" and it: "cell_at S (storage rb) p (Item n 8 d)"
    and q: "q = wrap_pos S (p + cell_span S p (Item n 8 d))" "q \<noteq> w" "D \<noteq> [] \<longrightarrow> q \<noteq> 0"
    and sep: "D \<noteq> [] \<longrightarrow> p + 8 + rbALIGN_SIZE n \<le> w"
    and rb: "pucWrite rb = w" "pucAcquire rb = q" "pucHead rb = 0" "pucTail rb = S" "xSize rb = S"
      "length (storage rb) = S" "16 \<le> S" "S < 2147483648" "4 dvd p" "pos_ok S q"
  shows "\<exists>m D'. advance_write (Suc (Suc (Suc k))) rb = Some (rb\<lparr>storage := m, pucWrite := q\<rparr>) \<and>
     length m = S \<and> chain S m w (D' @ [Item n 8 d]) q \<and>
     (D' = [] \<and> D = [] \<or> D' = [Dummy 10] \<and> D = [Dummy 2]) \<and>
     (\<forall>x < S. x < w \<or> w + extent S w D \<le> x \<longrightarrow> m ! x = storage rb ! x)"
proof (cases "D = []")
  case True
  then have pw: "p = w" using D by simp
  have "get_item_len (storage rb) q \<noteq> None" "get_item_flags (storage rb) q \<noteq> None"
    using rb(6,10) by (auto simp: get_item_len_def get_item_flags_def read_at_def pos_ok_def)
  then obtain h where h: "get_header (storage rb) q = Some h"
    using get_header_Some by blast
  have "advance_write (Suc (Suc (Suc k))) rb = advance_write (Suc (Suc k)) (rb\<lparr>pucWrite := q\<rparr>)"
    using advance_write_item [of S rb n 8 d "Suc (Suc k)"] it q rb pw by simp
  also have "\<dots> = Some (rb\<lparr>pucWrite := q\<rparr>)"
    using advance_write_stop [of "rb\<lparr>pucWrite := q\<rparr>" h "Suc k"] h rb(2) by simp
  finally show ?thesis
    using True pw it q(1) rb(6)
    by (intro exI [of _ "storage rb"] exI [of _ "[]"]) (auto simp del: cell_at.simps cell_span.simps)
next
  case False
  then have D2: "D = [Dummy 2]" "p = 0" using D by auto
  have c0: "cell_at S (storage rb) w (Dummy 2)" using ch D2 by (simp del: cell_at.simps)
  then have w8: "w + 8 \<le> length (storage rb)" using rb(6) by simp
  obtain m where m: "set_item_flags (storage rb) w 10 = Some m" "length m = S"
    "get_item_flags m w = Some 10" "get_item_len m w = get_item_len (storage rb) w"
    "\<forall>x < S. x < w \<or> w + 8 \<le> x \<longrightarrow> m ! x = storage rb ! x"
    using set_flags_frame [OF w8, of 10] rb(6) by auto
  have f10: "set_flag 2 8 = (10 :: 32 word)" by (simp add: set_flag_def)
  have c1: "cell_at S m w (Dummy 10)"
    using c0 m bit_set_flag [of 2 8 1] f10 by simp
  have c2: "cell_at S m 0 (Item n 8 d)"
    by (rule cell_at_frame [OF it [unfolded D2]])
       (use rb(6) m sep D2 False c0 in \<open>auto split: if_splits\<close>)
  have "get_item_len m q \<noteq> None" "get_item_flags m q \<noteq> None"
    using m(2) rb(10) by (auto simp: get_item_len_def get_item_flags_def read_at_def pos_ok_def)
  then obtain h where h: "get_header m q = Some h"
    using get_header_Some by blast
  have "advance_write (Suc (Suc (Suc k))) rb =
      advance_write (Suc (Suc k)) (rb\<lparr>storage := m, pucWrite := 0\<rparr>)"
    using advance_write_dummy [of S rb 2 m "Suc (Suc k)"] c0 q(2) rb m(1) f10 by simp
  also have "\<dots> = advance_write (Suc k) (rb\<lparr>storage := m, pucWrite := q\<rparr>)"
    using advance_write_item [of S "rb\<lparr>storage := m, pucWrite := 0\<rparr>" n 8 d "Suc k"] c2 q D2 rb by simp
  also have "\<dots> = Some (rb\<lparr>storage := m, pucWrite := q\<rparr>)"
    using advance_write_stop [of "rb\<lparr>storage := m, pucWrite := q\<rparr>" h k] h rb(2) by simp
  finally show ?thesis
    using D2 m c0 c1 c2 q(1)
    by (intro exI [of _ m] exI [of _ "[Dummy 10]"])
       (auto simp: wrap_pos_def simp del: cell_at.simps(2))
qed


lemma messages_nosplit_item: "\<not> bit f 2 \<Longrightarrow> messages [Item n f d] = Some [d]"
  by simp

lemma prvCopyItemNoSplit_ok:
  assumes inv: "rb_inv S False rb A B" and S8: "8 dvd S" and n: "n \<le> max_item S False"
    and fits: "prvCheckItemFitsDefault rb n = Some True" and bs: "n \<le> length bs"
  shows "\<exists>rb' D'. prvCopyItemNoSplit rb bs n = Some rb' \<and>
     rb_inv S False rb' A (B @ D' @ [Item n 8 (take n bs)]) \<and>
     (D' = [] \<or> D' = [Dummy 10]) \<and>
     pucFree rb' = pucFree rb \<and> pucRead rb' = pucRead rb \<and> xQueueSet rb' = xQueueSet rb \<and>
     xTasksWaitingToReceive rb' = xTasksWaitingToReceive rb \<and>
     xTasksWaitingToSend rb' = xTasksWaitingToSend rb"
proof -
  note facts = rb_inv_facts [OF inv]
  let ?w = "pucAcquire rb" and ?d = "take n bs"
  obtain m p D sp q where acq:
    "prvAcquireItemNoSplit rb n =
       Some (rb\<lparr>storage := m, pucAcquire := q,
               uxRingbufferFlags := (if q = pucFree rb
                 then set_flag (uxRingbufferFlags rb) rbBUFFER_FULL_FLAG
                 else uxRingbufferFlags rb)\<rparr>, p + 8)"
    and ncf: "new_cells_fit S (extent S (pucFree rb) (A @ B)) ?w n D p sp"
    and q: "q = wrap_pos S (p + sp)" and m: "length m = S" "chain S m ?w D p"
      "get_item_len m p = Some n" "get_item_flags m p = Some 0"
      "\<forall>x < S. \<not> in_ring S ?w (extent S ?w D + sp) x \<longrightarrow> m ! x = storage rb ! x"
    and dm: "D \<noteq> [] \<longrightarrow> S - ?w < rbALIGN_SIZE n + 8"
    using acquire_ok [OF inv n fits] by blast
  have D: "D = [] \<and> p = ?w \<or> D = [Dummy 2] \<and> p = 0 \<and> 0 < ?w"
    and pn: "p + 8 + rbALIGN_SIZE n \<le> S" "pos_ok S p"
    and sp: "sp = cell_span S p (Item n 8 ?d)"
    and tot: "extent S (pucFree rb) (A @ B) + extent S ?w D + sp \<le> S"
    using ncf by (auto simp: new_cells_fit_def)
  note n31 = item_total(1) [OF facts(1) n]
  have lt: "extent S ?w D + sp < S"
    by (rule acquire_moves [OF inv S8 n ncf _ facts(12)]) (use dm in blast)
  have sp8: "8 + rbALIGN_SIZE n \<le> sp" "p + sp \<le> S" using sp pn(1) by auto
  have w: "?w + 8 \<le> S" using facts(12) by (simp add: pos_ok_def)
  have qw: "q \<noteq> ?w" and q0: "D \<noteq> [] \<longrightarrow> q \<noteq> 0" and sep: "D \<noteq> [] \<longrightarrow> p + 8 + rbALIGN_SIZE n \<le> ?w"
    using D lt sp8 w q by (auto simp: wrap_pos_def split: if_splits)
  obtain m1 m2 where m12: "memcpy m (p + 8) bs n = Some m1" "set_item_flags m1 p 8 = Some m2"
    "get_header m1 p = Some \<lparr>xItemLen = n, uxItemFlags = 0\<rparr>" "length m2 = S"
    "cell_at S m2 p (Item n 8 ?d)"
    "\<forall>x < S. x < p \<or> p + 8 + rbALIGN_SIZE n \<le> x \<longrightarrow> m2 ! x = m ! x"
    using fill_and_complete [OF m(1,3,4) pn(1) n31 bs] by blast
  have chD: "chain S m2 ?w D p"
  proof (rule chain_frame [OF m(2)])
    show "m2 ! x = m ! x" if "in_ring S ?w (extent S ?w D) x" for x
      using that m12(6) sep D w by (auto simp: in_ring_def)
  qed (use w lt m(1) m12(4) in auto)
  define rbX where "rbX = rb\<lparr>pucAcquire := q,
      uxRingbufferFlags := (if q = pucFree rb
        then set_flag (uxRingbufferFlags rb) rbBUFFER_FULL_FLAG else uxRingbufferFlags rb),
      storage := m2, xItemsWaiting := xItemsWaiting rb + 1\<rparr>"
  have f8: "set_flag (clear_flag 0 4) 8 = (8 :: 32 word)"
    by (simp add: set_flag_def clear_flag_def)
  have "prvCopyItemNoSplit rb bs n = advance_write (walk_fuel rbX) rbX"
    using acq m12(1,2,3) f8 n pn facts(5-9)
    by (simp add: prvCopyItemNoSplit_def prvSendItemDoneNoSplit_def rbX_def rbHEADER_SIZE_def
                  rb_flag_defs pos_ok_def walk_fuel_def)
  moreover have "walk_fuel rbX = Suc (Suc (Suc (S - 2)))"
    using facts(3,7) by (simp add: walk_fuel_def rbX_def)
  moreover have "\<exists>m3 D'. advance_write (Suc (Suc (Suc (S - 2)))) rbX =
        Some (rbX\<lparr>storage := m3, pucWrite := q\<rparr>) \<and>
     length m3 = S \<and> chain S m3 ?w (D' @ [Item n 8 ?d]) q \<and>
     (D' = [] \<and> D = [] \<or> D' = [Dummy 10] \<and> D = [Dummy 2]) \<and>
     (\<forall>x < S. x < ?w \<or> ?w + extent S ?w D \<le> x \<longrightarrow> m3 ! x = storage rbX ! x)"
  proof (rule advance_write_new)
    show "D = [] \<and> p = ?w \<or> D = [Dummy 2] \<and> p = 0" using D by auto
    show "chain S (storage rbX) ?w D p" using chD by (simp add: rbX_def)
    show "cell_at S (storage rbX) p (Item n 8 ?d)"
      using m12(5) by (simp add: rbX_def del: cell_at.simps)
    show "q = wrap_pos S (p + cell_span S p (Item n 8 ?d))" using q sp by simp
    show "pucWrite rbX = ?w" using inv by (simp add: rbX_def rb_inv_def rb_core_def)
    show "pos_ok S q"
      unfolding q sp by (rule pos_ok_next [OF pn(2) m12(5) facts(2,3)])
    show "4 dvd p" using pn(2) by (simp add: pos_ok_def)
  qed (use facts qw q0 sep m12(4) in \<open>auto simp: rbX_def\<close>)
  ultimately obtain m3 D' where r: "prvCopyItemNoSplit rb bs n = Some (rbX\<lparr>storage := m3, pucWrite := q\<rparr>)"
    and m3: "length m3 = S" "chain S m3 ?w (D' @ [Item n 8 ?d]) q"
    and D': "D' = [] \<and> D = [] \<or> D' = [Dummy 10] \<and> D = [Dummy 2]"
    and fr3: "\<forall>x < S. x < ?w \<or> ?w + extent S ?w D \<le> x \<longrightarrow> m3 ! x = storage rbX ! x"
    by metis
  let ?N = "D' @ [Item n 8 ?d]"
  have eN: "extent S ?w ?N = extent S ?w D + sp"
    using D D' sp w by (auto simp: wrap_pos_def simp del: cell_span.simps(2))
  have "rb_inv S False
     (rb\<lparr>storage := m3, pucAcquire := q, pucWrite := q,
         xItemsWaiting := xItemsWaiting rb + int (length (filter is_item ?N)),
         uxRingbufferFlags := (if q = pucFree rb
           then set_flag (uxRingbufferFlags rb) rbBUFFER_FULL_FLAG else uxRingbufferFlags rb)\<rparr>)
     A (B @ ?N)"
  proof (rule rb_inv_append [OF inv m3(1) _ m3(2)])
    show "m3 ! x = storage rb ! x" if "x < S" "\<not> in_ring S ?w (extent S ?w ?N) x" for x
    proof -
      have o: "x < ?w \<or> ?w + extent S ?w D \<le> x" "x < p \<or> p + 8 + rbALIGN_SIZE n \<le> x"
        "\<not> in_ring S ?w (extent S ?w D + sp) x"
        using that D sp8 w eN sep by (auto simp: in_ring_def)
      from o(1) have "m3 ! x = m2 ! x" using fr3 that(1) by (auto simp: rbX_def)
      then show ?thesis using o(2,3) m12(6) m(5) that(1) by auto
    qed
    obtain ms where ms: "messages B = Some ms" using inv by (auto simp: rb_inv_def rb_core_def)
    show "messages (B @ ?N) \<noteq> None"
      using D' messages_append_whole [OF ms] by auto
    show "\<forall>c\<in>set ?N. fresh_cell False (max_item S False) c" using n D' by auto
  qed (use eN tot in auto)
  moreover have "(rb\<lparr>storage := m3, pucAcquire := q, pucWrite := q,
         xItemsWaiting := xItemsWaiting rb + int (length (filter is_item ?N)),
         uxRingbufferFlags := (if q = pucFree rb
           then set_flag (uxRingbufferFlags rb) rbBUFFER_FULL_FLAG else uxRingbufferFlags rb)\<rparr>)
     = rbX\<lparr>storage := m3, pucWrite := q\<rparr>"
    by (rule Ringbuffer_t.equality) (use D' in \<open>auto simp: rbX_def\<close>)
  ultimately have "rb_inv S False (rbX\<lparr>storage := m3, pucWrite := q\<rparr>) A (B @ ?N)" by simp
  then show ?thesis
    using r D' by (intro exI [of _ "rbX\<lparr>storage := m3, pucWrite := q\<rparr>"] exI [of _ D'])
      (auto simp: rbX_def)
qed

end
