(* ===== verification/Ringbuf_Recv.thy ===== *)
theory Ringbuf_Recv
  imports Ringbuf_Inv
begin

text \<open>
  Receiving hands out the cells in order, and returning an item frees the ring up to the
  first item that is still held.
\<close>

section \<open>Availability\<close>

lemma full_if_read_at_acquire:
  assumes inv: "rb_core S split rb A B" and B: "B \<noteq> []" and eq: "pucRead rb = pucAcquire rb"
  shows "is_full rb"
proof -
  note facts = rb_core_facts [OF inv]
  have chB: "chain S (storage rb) (pucRead rb) B (pucAcquire rb)"
    and chA: "chain S (storage rb) (pucFree rb) A (pucRead rb)"
    using inv by (auto simp: rb_core_def)
  have e: "extent S (pucFree rb) (A @ B) = extent S (pucFree rb) A + extent S (pucRead rb) B"
    using chain_chain_end [OF chA] by (simp add: extent_append)
  have rd: "pucRead rb < S" using facts(11) by (simp add: pos_ok_def)
  have X: "8 \<le> extent S (pucRead rb) B" "extent S (pucRead rb) B \<le> S"
    using extent_pos [OF chB B] facts(14) e by auto
  have "pucRead rb = (pucRead rb + extent S (pucRead rb) B) mod S"
    using chain_end_mod [OF chB rd] eq by simp
  then have "extent S (pucRead rb) B = S"
    using X rd by (cases "pucRead rb + extent S (pucRead rb) B < S")
      (auto simp: mod_if [of "pucRead rb + extent S (pucRead rb) B"])
  then show ?thesis using inv e facts(14) by (auto simp: rb_core_def)
qed

lemma messages_Cons_item:
  "messages B \<noteq> None \<Longrightarrow> B \<noteq> [] \<Longrightarrow>
     (\<exists>n f d B'. B = Item n f d # B') \<or> (\<exists>g n f d B'. B = Dummy g # Item n f d # B')"
  by (cases B rule: messages.cases) (auto split: list.splits cell.splits)

lemma read_header_flags:
  "chain S m p (c # cs) q \<Longrightarrow> get_header m p =
     Some \<lparr>xItemLen = (case c of Item n f d \<Rightarrow> n | Dummy f \<Rightarrow> 0), uxItemFlags = cell_flags c\<rparr>"
  by (rule cell_at_header [of S]) simp

lemma prvCheckItemAvail_iff:
  assumes inv: "rb_inv S split rb A B"
  shows "prvCheckItemAvail rb = Some (B \<noteq> [])"
proof (cases "B = []")
  case True
  then have "xItemsWaiting rb = 0" using inv by (simp add: rb_inv_def rb_core_def)
  then show ?thesis
    using True inv by (simp add: prvCheckItemAvail_def rbBYTE_BUFFER_FLAG_def rb_inv_def rb_core_def rb_static_def)
next
  case False
  have core: "rb_core S split rb A B" and ms: "messages B \<noteq> None" using inv by (auto simp: rb_inv_def)
  have "filter is_item B \<noteq> []"
    using messages_Cons_item [OF ms False] by auto
  then have w: "0 < xItemsWaiting rb" using core by (auto simp: rb_core_def)
  have rw: "pucRead rb \<noteq> pucWrite rb \<or> is_full rb"
    using full_if_read_at_acquire [OF core False] core by (auto simp: rb_core_def)
  have fl: "\<not> bit (uxRingbufferFlags rb) 1" "bit (uxRingbufferFlags rb) 0 = split"
    using core by (auto simp: rb_core_def rb_static_def)
  obtain c cs where B: "B = c # cs" using False by (cases B) auto
  have "chain S (storage rb) (pucRead rb) (c # cs) (pucAcquire rb)" using core B by (simp add: rb_core_def)
  note h = read_header_flags [OF this]
  have "fresh_cell split (max_item S split) c" using core B by (simp add: rb_core_def)
  then have wr: "split \<or> bit (cell_flags c) 3" by (cases c) auto
  have "has_flag (uxRingbufferFlags rb) (rbBYTE_BUFFER_FLAG OR rbALLOW_SPLIT_FLAG) \<longleftrightarrow> split"
    using fl has_flag_3 [of "uxRingbufferFlags rb"]
    by (simp add: rbBYTE_BUFFER_FLAG_def rbALLOW_SPLIT_FLAG_def)
  moreover have "\<not> has_flag (uxRingbufferFlags rb) rbBYTE_BUFFER_FLAG"
    using fl(1) by (simp add: rbBYTE_BUFFER_FLAG_def)
  moreover have "\<not> split \<Longrightarrow> has_flag (cell_flags c) rbITEM_WRITTEN_FLAG"
    using wr by (simp add: rbITEM_WRITTEN_FLAG_def)
  ultimately show ?thesis
    using w rw False h by (cases split) (simp_all add: prvCheckItemAvail_def)
qed

section \<open>Getting an item\<close>

text \<open>Where the read pointer goes after the cell at \<open>p\<close>.\<close>

lemma next_read:
  assumes "cell_at S m p (Item n f d)" "4 dvd p" "S < 2147483648"
  shows "(let p' = wrap32 (p + (rbHEADER_SIZE + rbALIGN_SIZE n))
          in if sub32 S p' < rbHEADER_SIZE then 0 else p') =
         wrap_pos S (p + cell_span S p (Item n f d))"
proof -
  have b: "p + (8 + rbALIGN_SIZE n) \<le> S" using assms(1) by simp
  then have w: "wrap32 (p + (8 + rbALIGN_SIZE n)) = p + (8 + rbALIGN_SIZE n)"
    using assms(3) by (intro wrap32_id) simp
  have c: "cell_span S p (Item n f d) =
      (if S - (p + (8 + rbALIGN_SIZE n)) < 8 then S - p else 8 + rbALIGN_SIZE n)"
    by (simp add: add.assoc)
  have "4 dvd 8 + rbALIGN_SIZE n" by simp
  from wrap_pos_sub32 [OF b assms(3,2) this] show ?thesis
    unfolding Let_def rbHEADER_SIZE_def w c .
qed

lemma item_in_bounds:
  assumes "cell_at S m p (Item n f d)"
  shows "n = 0 \<longrightarrow> p + 8 \<le> S" "n \<noteq> 0 \<longrightarrow> p + 8 < S"
proof -
  have "n \<le> rbALIGN_SIZE n" using assms by (intro rbALIGN_SIZE_ge) auto
  then show "n = 0 \<longrightarrow> p + 8 \<le> S" "n \<noteq> 0 \<longrightarrow> p + 8 < S" using assms by auto
qed

text \<open>Cells that are read move from the unread to the held part.\<close>

lemma fresh_len_ok: "fresh_cell split mx c \<Longrightarrow> len_ok mx c"
  by (cases c) auto

lemma rb_core_move:
  assumes inv: "rb_core S split rb A (C @ B)" and C: "chain S (storage rb) (pucRead rb) C r"
    and hh: "held_head (A @ C)"
  shows "rb_core S split
     (rb\<lparr>xItemsWaiting := xItemsWaiting rb - int (length (filter is_item C)), pucRead := r\<rparr>) (A @ C) B"
proof -
  have chA: "chain S (storage rb) (pucFree rb) A (pucRead rb)"
    and chCB: "chain S (storage rb) (pucRead rb) (C @ B) (pucAcquire rb)"
    using inv by (auto simp: rb_core_def)
  have "chain S (storage rb) r B (pucAcquire rb)"
    using chCB chain_chain_end [OF C] chain_chain_end by (auto simp: chain_append)
  moreover have "chain S (storage rb) (pucFree rb) (A @ C) r"
    using chA C by (auto simp: chain_append)
  ultimately show ?thesis
    unfolding rb_core_def using inv hh fresh_len_ok [of split "max_item S split"]
    by (simp add: rb_core_def rb_static_def is_full_def ball_Un Ball_def)
qed

lemma held_head_append_item:
  "held_head A \<Longrightarrow> \<not> bit f 0 \<Longrightarrow> held_head (A @ [Item n f d])"
  "held_head A \<Longrightarrow> \<not> bit f 0 \<Longrightarrow> held_head (A @ [Dummy g, Item n f d])"
  by (cases A rule: held_head.cases; simp)+

lemma get_item:
  assumes inv: "rb_core S split rb A (Item n f d # B)"
  defines "rb' \<equiv> rb\<lparr>xItemsWaiting := xItemsWaiting rb - 1,
                   pucRead := wrap_pos S (pucRead rb + cell_span S (pucRead rb) (Item n f d))\<rparr>"
  shows "prvGetItemDefault rb = Some (rb', pucRead rb + 8, n, bit f 2)"
    and "rb_core S split rb' (A @ [Item n f d]) B"
proof -
  note facts = rb_core_facts [OF inv]
  have it: "cell_at S (storage rb) (pucRead rb) (Item n f d)"
    using inv unfolding rb_core_def chain.simps by blast
  have w: "0 < xItemsWaiting rb" using inv by (simp add: rb_core_def)
  have rw: "pucRead rb \<noteq> pucWrite rb \<or> is_full rb"
    using full_if_read_at_acquire [OF inv] inv by (auto simp: rb_core_def)
  have rd: "4 dvd pucRead rb" "pucRead rb < S" using facts(11) by (auto simp: pos_ok_def)
  have n: "n \<le> max_item S split" and f0: "\<not> bit f 0" and f1: "\<not> bit f (Suc 0)" and hA: "held_head A"
    using inv it by (simp_all add: rb_core_def)
  have bnd: "if n = 0 then pucRead rb + 8 \<le> S else pucRead rb + 8 < S"
    using item_in_bounds [OF it] by simp
  note nr = next_read [OF it rd(1) facts(4), unfolded Let_def]
  show "prvGetItemDefault rb = Some (rb', pucRead rb + 8, n, bit f 2)"
    unfolding prvGetItemDefault_def cell_at_header [OF it] rb'_def nr [symmetric]
    using facts(5,6,9) w rw rd n f1 bnd
    by (simp add: rb_flag_defs rbHEADER_SIZE_def Let_def cong: if_cong split del: if_split)
  have "chain S (storage rb) (pucRead rb) [Item n f d]
          (wrap_pos S (pucRead rb + cell_span S (pucRead rb) (Item n f d)))"
    using it by (simp del: cell_at.simps cell_span.simps)
  from rb_core_move [OF _ this held_head_append_item(1) [OF hA f0], of split B]
  show "rb_core S split rb' (A @ [Item n f d]) B"
    using inv by (simp add: rb'_def del: cell_span.simps)
qed

lemma get_dummy:
  assumes inv: "rb_core S split rb A (Dummy g # Item n f d # B)"
  defines "rb' \<equiv> rb\<lparr>xItemsWaiting := xItemsWaiting rb - 1,
                   pucRead := wrap_pos S (cell_span S 0 (Item n f d))\<rparr>"
  shows "prvGetItemDefault rb = Some (rb', 8, n, bit f 2)"
    and "rb_core S split rb' (A @ [Dummy g, Item n f d]) B"
proof -
  note facts = rb_core_facts [OF inv]
  have du: "cell_at S (storage rb) (pucRead rb) (Dummy g)"
    using inv unfolding rb_core_def chain.simps by blast
  have rd: "4 dvd pucRead rb" "pucRead rb < S" using facts(11) by (auto simp: pos_ok_def)
  have nx: "wrap_pos S (pucRead rb + cell_span S (pucRead rb) (Dummy g)) = 0"
    using rd by (simp add: wrap_pos_def)
  have it: "cell_at S (storage rb) 0 (Item n f d)"
    using inv unfolding rb_core_def chain.simps nx by blast
  have w: "0 < xItemsWaiting rb" using inv by (simp add: rb_core_def)
  have rw: "pucRead rb \<noteq> pucWrite rb \<or> is_full rb"
    using full_if_read_at_acquire [OF inv] inv by (auto simp: rb_core_def)
  have n: "n \<le> max_item S split" and f0: "\<not> bit f 0" and hA: "held_head A"
    and g1: "bit g (Suc 0)"
    using inv du by (simp_all add: rb_core_def)
  have bnd: "if n = 0 then 8 \<le> S else 8 < S"
    using item_in_bounds [OF it] by simp
  have nr: "wrap_pos S (cell_span S 0 (Item n f d)) =
      (if sub32 S (wrap32 (rbHEADER_SIZE + rbALIGN_SIZE n)) < rbHEADER_SIZE then 0
       else wrap32 (rbHEADER_SIZE + rbALIGN_SIZE n))"
    using next_read [OF it _ facts(4)] by (simp add: Let_def del: cell_span.simps)
  show "prvGetItemDefault rb = Some (rb', 8, n, bit f 2)"
    unfolding prvGetItemDefault_def cell_at_header [OF du] rb'_def nr
    using facts(5,6,9) w rw rd n g1 bnd cell_at_header [OF it]
    by (simp add: rb_flag_defs rbHEADER_SIZE_def Let_def cong: if_cong split del: if_split)
  have "chain S (storage rb) (pucRead rb) [Dummy g, Item n f d] (wrap_pos S (cell_span S 0 (Item n f d)))"
    using it du nx by (simp del: cell_at.simps cell_span.simps)
  from rb_core_move [OF _ this held_head_append_item(2) [OF hA f0], of split B]
  show "rb_core S split rb' (A @ [Dummy g, Item n f d]) B"
    using inv by (simp add: rb'_def del: cell_span.simps)
qed

end
