(* ===== verification/Ringbuf_Free.thy ===== *)
theory Ringbuf_Free
  imports Ringbuf_Inv
begin

text \<open>
  Returning an item: its header is marked free, and the free pointer moves over the cells
  that are free or dummies, up to the first held item.
\<close>

definition freed :: "cell \<Rightarrow> bool" where
  "freed c \<longleftrightarrow> \<not> is_item c \<or> bit (cell_flags c) 0"

lemma freed_simps [simp]:
  "freed (Dummy g)" "freed (Item n f d) \<longleftrightarrow> bit f 0"
  by (simp_all add: freed_def)

lemma advance_free_stop:
  "get_header (storage rb) (pucFree rb) = Some h \<Longrightarrow>
     pucFree rb = pucRead rb \<or> \<not> bit (uxItemFlags h) 0 \<and> \<not> bit (uxItemFlags h) 1 \<Longrightarrow>
     advance_free (Suc k) rb = Some rb"
  by (auto simp: advance_free.simps(2) rb_flag_defs)

lemma advance_free_item:
  assumes "cell_at S (storage rb) (pucFree rb) (Item n f d)" "bit f 0"
    "pucFree rb \<noteq> pucRead rb" "pucHead rb = 0" "pucTail rb = S" "xSize rb = S"
    "S < 2147483648" "4 dvd pucFree rb"
  shows "advance_free (Suc k) rb =
     advance_free k (rb\<lparr>pucFree := wrap_pos S (pucFree rb + cell_span S (pucFree rb) (Item n f d))\<rparr>)"
proof -
  let ?w = "pucFree rb" and ?l = "rbALIGN_SIZE n + 8"
  have b: "?w + ?l \<le> S" using assms(1) by simp
  have "wrap_free (rb\<lparr>pucFree := ?w + ?l\<rparr>) =
      rb\<lparr>pucFree := wrap_pos S (?w + cell_span S ?w (Item n f d))\<rparr>"
  proof -
    have l: "4 dvd ?l" by simp
    have e: "(if S - (?w + ?l) < 8 then S - ?w else ?l) = cell_span S ?w (Item n f d)"
      by (simp add: add.assoc add.commute [of "rbALIGN_SIZE n"])
    show ?thesis
      using wrap_pos_sub32 [OF b assms(7,8) l] unfolding e
      by (cases "sub32 S (?w + ?l) < 8")
         (simp_all add: wrap_free_def rbHEADER_SIZE_def assms(4,5) del: cell_span.simps)
  qed
  moreover have "advance_free (Suc k) rb = advance_free k (wrap_free (rb\<lparr>pucFree := ?w + ?l\<rparr>))"
    using cell_at_header [OF assms(1)] assms(1-7) b
    by (simp add: advance_free.simps(2) rb_flag_defs rbHEADER_SIZE_def wrap32_id del: cell_span.simps)
  ultimately show ?thesis by simp
qed

lemma advance_free_dummy:
  assumes "cell_at S (storage rb) (pucFree rb) (Dummy f)"
    "pucFree rb \<noteq> pucRead rb" "pucHead rb = 0" "pucTail rb = S" "16 \<le> S" "S < 2147483648"
    "set_item_flags (storage rb) (pucFree rb) (set_flag f 1) = Some m"
  shows "advance_free (Suc k) rb = advance_free k (rb\<lparr>storage := m, pucFree := 0\<rparr>)"
proof -
  have "wrap_free (rb\<lparr>storage := m, pucFree := 0\<rparr>) = rb\<lparr>storage := m, pucFree := 0\<rparr>"
    using assms(3-6) by (simp add: wrap_free_def rbHEADER_SIZE_def sub32_eq)
  then show ?thesis
    using cell_at_header [OF assms(1)] assms by (simp add: advance_free.simps(2) rb_flag_defs)
qed

lemma header_readable:
  assumes "pos_ok S p" "length m = S"
  shows "\<exists>h. get_header m p = Some h"
proof -
  have "get_item_len m p \<noteq> None" "get_item_flags m p \<noteq> None"
    using assms by (auto simp: get_item_len_def get_item_flags_def read_at_def pos_ok_def)
  then show ?thesis using get_header_Some by blast
qed

text \<open>A chain that does not cover the whole ring ends elsewhere than it starts.\<close>

lemma chain_moves:
  assumes "chain S m p cs q" "cs \<noteq> []" "p < S" "extent S p cs < S"
  shows "p \<noteq> q"
proof
  assume "p = q"
  then have "p = (p + extent S p cs) mod S" using chain_end_mod [OF assms(1,3)] by simp
  moreover have "8 \<le> extent S p cs" by (rule extent_pos [OF assms(1,2)])
  ultimately show False
    using assms(3,4) by (cases "p + extent S p cs < S") (auto simp: mod_if [of "p + extent S p cs"])
qed

text \<open>The result of the walk: the free pointer is behind the freed prefix of the cells, and
  the memory changes only in the part of the ring that the cells cover.\<close>

definition free_walk ::
  "nat \<Rightarrow> byte list \<Rightarrow> nat \<Rightarrow> cell list \<Rightarrow> nat \<Rightarrow> byte list \<Rightarrow> nat \<Rightarrow> bool" where
  "free_walk S m0 f A r m q \<longleftrightarrow>
     length m = S \<and> pos_ok S q \<and> chain S m q (dropWhile freed A) r \<and>
     extent S f A = extent S f (takeWhile freed A) + extent S q (dropWhile freed A) \<and>
     q = chain_end S f (takeWhile freed A) \<and>
     (\<forall>x < S. \<not> in_ring S f (extent S f A) x \<longrightarrow> m ! x = m0 ! x)"

lemma free_walk_stop:
  "length m = S \<Longrightarrow> pos_ok S f \<Longrightarrow> chain S m f A r \<Longrightarrow> A = [] \<or> \<not> freed (hd A) \<Longrightarrow>
     free_walk S m f A r m f"
  by (cases A) (auto simp: free_walk_def)

lemma free_walk_step:
  assumes "freed c" "f + cell_span S f c \<le> S" "f < S" "extent S f (c # A) \<le> S"
    "free_walk S m1 (wrap_pos S (f + cell_span S f c)) A r m q"
    "\<And>x. x < S \<Longrightarrow> \<not> in_ring S f (cell_span S f c) x \<Longrightarrow> m1 ! x = m0 ! x"
  shows "free_walk S m0 f (c # A) r m q"
proof -
  let ?n = "wrap_pos S (f + cell_span S f c)"
  have "m ! x = m0 ! x" if "x < S" "\<not> in_ring S f (extent S f (c # A)) x" for x
  proof -
    have "\<not> in_ring S ?n (extent S ?n A) x"
      using in_ring_step [OF assms(2,3), of "extent S ?n A" x] assms(4) that(2) by auto
    moreover have "\<not> in_ring S f (cell_span S f c) x" using that(2) by (auto simp: in_ring_def)
    ultimately show ?thesis using assms(5,6) that(1) by (simp add: free_walk_def)
  qed
  moreover have dw: "dropWhile freed (c # A) = dropWhile freed A" "takeWhile freed (c # A) = c # takeWhile freed A"
    using assms(1) by simp_all
  moreover have "extent S f (c # A) = extent S f (c # takeWhile freed A) + extent S q (dropWhile freed A)"
    using assms(5) unfolding free_walk_def by simp
  ultimately show ?thesis
    using assms(5) unfolding free_walk_def dw chain_end.simps by blast
qed

lemma advance_free_ok:
  assumes "chain S (storage rb) (pucFree rb) A (pucRead rb)" "pos_ok S (pucFree rb)"
    "extent S (pucFree rb) A < S" "length A < fuel"
    "pucHead rb = 0" "pucTail rb = S" "xSize rb = S" "length (storage rb) = S"
    "4 dvd S" "16 \<le> S" "S < 2147483648"
  shows "\<exists>m q. advance_free fuel rb = Some (rb\<lparr>storage := m, pucFree := q\<rparr>) \<and>
     free_walk S (storage rb) (pucFree rb) A (pucRead rb) m q"
  using assms
proof (induction A arbitrary: rb fuel)
  case Nil
  obtain k where k: "fuel = Suc k" using Nil.prems(4) by (cases fuel) auto
  obtain h where h: "get_header (storage rb) (pucFree rb) = Some h"
    using header_readable Nil.prems(2,8) by blast
  have "advance_free fuel rb = Some (rb\<lparr>storage := storage rb, pucFree := pucFree rb\<rparr>)"
    unfolding k using advance_free_stop [OF h, of k] Nil.prems(1) by simp
  moreover have "free_walk S (storage rb) (pucFree rb) [] (pucRead rb) (storage rb) (pucFree rb)"
    by (rule free_walk_stop) (use Nil.prems in simp_all)
  ultimately show ?case by blast
next
  case (Cons c A)
  let ?f = "pucFree rb"
  let ?n = "wrap_pos S (?f + cell_span S ?f c)"
  obtain k where k: "fuel = Suc k" "length A < k" using Cons.prems(4) by (cases fuel) auto
  have fS: "?f < S" "4 dvd ?f" using Cons.prems(2) by (auto simp: pos_ok_def)
  have c: "cell_at S (storage rb) ?f c" and ch: "chain S (storage rb) ?n A (pucRead rb)"
    using Cons.prems(1) by (simp_all del: cell_at.simps cell_span.simps)
  have fr: "?f \<noteq> pucRead rb"
    using chain_moves [OF Cons.prems(1) _ fS(1) Cons.prems(3)] by simp
  have le: "?f + cell_span S ?f c \<le> S" by (rule cell_span_le [OF c])
  have nx: "pos_ok S ?n" by (rule pos_ok_next [OF Cons.prems(2) c Cons.prems(9,10)])
  have ext: "extent S ?n A < S" using Cons.prems(3) by (simp del: cell_span.simps)
  note go = free_walk_step [OF _ le fS(1) less_imp_le [OF Cons.prems(3)], of _ _ _ _ "storage rb"]
  show ?case
  proof (cases "freed c")
    case False
    then obtain n f d where it: "c = Item n f d" "\<not> bit f 0" by (cases c) auto
    then have "\<not> bit f 1" using c by simp
    then have "advance_free fuel rb = Some (rb\<lparr>storage := storage rb, pucFree := ?f\<rparr>)"
      unfolding k using advance_free_stop [OF cell_at_header [OF c], of k] it by simp
    moreover have "free_walk S (storage rb) ?f (c # A) (pucRead rb) (storage rb) ?f"
      by (rule free_walk_stop) (use Cons.prems(1,2,8) False in \<open>simp_all del: chain.simps\<close>)
    ultimately show ?thesis by blast
  next
    case True
    have "\<exists>m1. advance_free fuel rb = advance_free k (rb\<lparr>storage := m1, pucFree := ?n\<rparr>) \<and> length m1 = S \<and>
        (\<forall>x < S. \<not> in_ring S ?f (cell_span S ?f c) x \<longrightarrow> m1 ! x = storage rb ! x)"
    proof (cases c)
      case (Item n f d)
      then have "advance_free fuel rb = advance_free k (rb\<lparr>pucFree := ?n\<rparr>)"
        unfolding k using advance_free_item [of S rb n f d k] c fr fS True Cons.prems by simp
      then show ?thesis using Cons.prems(8) by (intro exI [of _ "storage rb"]) simp
    next
      case (Dummy g)
      have f8: "?f + 8 \<le> length (storage rb)" using c Dummy Cons.prems(8) by simp
      obtain m1 where m1: "set_item_flags (storage rb) ?f (set_flag g 1) = Some m1" "length m1 = S"
        "\<forall>x < S. x < ?f \<or> ?f + 8 \<le> x \<longrightarrow> m1 ! x = storage rb ! x"
        using set_flags_frame [OF f8] Cons.prems(8) by metis
      have n0: "?n = 0" using Dummy fS by (simp add: wrap_pos_def)
      have "advance_free fuel rb = advance_free k (rb\<lparr>storage := m1, pucFree := ?n\<rparr>)"
        unfolding k n0 using advance_free_dummy [of S rb g m1 k] c fr m1(1) Cons.prems Dummy by simp
      moreover have "m1 ! x = storage rb ! x" if "x < S" "\<not> in_ring S ?f (cell_span S ?f c) x" for x
      proof -
        have "x < ?f \<or> ?f + 8 \<le> x" using that cell_span_ge [OF c] by (auto simp: in_ring_def)
        then show ?thesis using m1(3) that(1) by blast
      qed
      ultimately show ?thesis using m1(2) by blast
    qed
    then obtain m1 where m1: "advance_free fuel rb = advance_free k (rb\<lparr>storage := m1, pucFree := ?n\<rparr>)"
      "length m1 = S" "\<And>x. x < S \<Longrightarrow> \<not> in_ring S ?f (cell_span S ?f c) x \<Longrightarrow> m1 ! x = storage rb ! x"
      by blast
    let ?rb = "rb\<lparr>storage := m1, pucFree := ?n\<rparr>"
    have ch1: "chain S m1 ?n A (pucRead rb)"
    proof (rule chain_frame [OF ch _ _ Cons.prems(8) m1(2)])
      show "m1 ! x = storage rb ! x" if x: "in_ring S ?n (extent S ?n A) x" for x
      proof (rule m1(3))
        show "x < S" using x by (simp add: in_ring_def)
        have q: "?n = (?f + cell_span S ?f c) mod S" using le fS by (auto simp: wrap_pos_def)
        show "\<not> in_ring S ?f (cell_span S ?f c) x"
          using ring_disjoint [OF fS(1) q _ _ x] Cons.prems(3) by (auto simp del: cell_span.simps)
      qed
    qed (use nx ext in \<open>auto simp: pos_ok_def\<close>)
    have "\<exists>m q. advance_free k ?rb = Some (?rb\<lparr>storage := m, pucFree := q\<rparr>) \<and>
       free_walk S (storage ?rb) (pucFree ?rb) A (pucRead ?rb) m q"
      by (rule Cons.IH) (use ch1 nx ext k(2) Cons.prems(5-) m1(2) in simp_all)
    then obtain m q where "advance_free k ?rb = Some (?rb\<lparr>storage := m, pucFree := q\<rparr>)"
      and w: "free_walk S m1 ?n A (pucRead rb) m q" by auto
    then have "advance_free fuel rb = Some (rb\<lparr>storage := m, pucFree := q\<rparr>)"
      using m1(1) by simp
    moreover have "free_walk S (storage rb) ?f (c # A) (pucRead rb) m q"
      by (rule go [OF True w m1(3)])
    ultimately show ?thesis by blast
  qed
qed

section \<open>Returning an item\<close>

lemma in_ring_part:
  assumes "p < S" "r = (p + e) mod S" "r + s \<le> S" "e + s \<le> N" "N \<le> S" "in_ring S r s x"
  shows "in_ring S p N x"
proof (cases "p + e < S")
  case True
  then show ?thesis using assms by (auto simp: in_ring_def)
next
  case False
  then have "r = p + e - S" using assms by (cases "e = S") (auto simp: mod_if [of "p + e"])
  then show ?thesis using assms False by (auto simp: in_ring_def)
qed

text \<open>Setting the flags of one cell in the middle of a chain.\<close>

lemma chain_set_flags:
  assumes ch: "chain S m p (A1 @ Item n f d # A2) q" and p: "pos_ok S p" and len: "length m = S"
    and ext: "extent S p (A1 @ Item n f d # A2) \<le> S" and g: "\<not> bit g 1" "\<not> bit g 2"
    and S: "4 dvd S" "16 \<le> S"
  defines "r \<equiv> chain_end S p A1"
  shows "\<exists>m'. set_item_flags m r g = Some m' \<and> length m' = S \<and>
     chain S m' p (A1 @ Item n g d # A2) q \<and> pos_ok S r \<and> cell_at S m r (Item n f d) \<and>
     (\<forall>x < S. \<not> in_ring S p (extent S p (A1 @ Item n f d # A2)) x \<longrightarrow> m' ! x = m ! x)"
proof -
  let ?s = "cell_span S r (Item n f d)" and ?e = "extent S p A1"
  let ?r' = "wrap_pos S (r + ?s)"
  have pS: "p < S" using p by (simp add: pos_ok_def)
  have c1: "chain S m p A1 r" and it: "cell_at S m r (Item n f d)" and c2: "chain S m ?r' A2 q"
    using ch chain_chain_end unfolding r_def chain_append by (auto simp del: cell_at.simps cell_span.simps)
  have r: "pos_ok S r" by (rule chain_pos_ok [OF c1 p S])
  then have rS: "r < S" "r + 8 \<le> length m" using len by (auto simp: pos_ok_def)
  have rm: "r = (p + ?e) mod S" by (rule chain_end_mod [OF c1 pS])
  have le: "r + ?s \<le> S" by (rule cell_span_le [OF it])
  have E: "extent S p (A1 @ Item n f d # A2) = ?e + (?s + extent S ?r' A2)"
    unfolding extent_append r_def [symmetric] by (simp del: cell_span.simps)
  obtain m' where m': "set_item_flags m r g = Some m'" "length m' = S"
    "get_item_flags m' r = Some g" "get_item_len m' r = get_item_len m r"
    "\<forall>k. read_at m' (r + 8) k = read_at m (r + 8) k"
    "\<forall>x < S. x < r \<or> r + 8 \<le> x \<longrightarrow> m' ! x = m ! x"
    using set_flags_frame [OF rS(2), of g] len by auto
  have out: "m' ! x = m ! x" if "x < S" "\<not> in_ring S r ?s x" for x
  proof -
    have "x < r \<or> r + 8 \<le> x" using that cell_span_ge [OF it] by (auto simp: in_ring_def simp del: cell_span.simps)
    then show ?thesis using m'(6) that(1) by blast
  qed
  have it': "cell_at S m' r (Item n g d)" using it m' g by simp
  have "chain S m' p A1 r"
  proof (rule chain_frame [OF c1 pS _ len m'(2)])
    show "m' ! x = m ! x" if "in_ring S p ?e x" for x
      using out ring_disjoint [OF pS rm _ that, of ?s] that ext E by (auto simp: in_ring_def simp del: cell_span.simps)
  qed (use ext E in simp)
  moreover have "chain S m' ?r' A2 q"
  proof (rule chain_frame [OF c2 _ _ len m'(2)])
    have nx: "?r' = (r + ?s) mod S" using le rS(1) by (auto simp: wrap_pos_def simp del: cell_span.simps)
    show "m' ! x = m ! x" if "in_ring S ?r' (extent S ?r' A2) x" for x
      using out ring_disjoint [OF rS(1) nx _ _ that] that ext E by (auto simp: in_ring_def simp del: cell_span.simps)
    show "?r' < S" using le rS(1) S by (auto simp: wrap_pos_def simp del: cell_span.simps)
  qed (use ext E in simp)
  moreover have "cell_span S r (Item n g d) = ?s" by simp
  ultimately have "chain S m' p (A1 @ Item n g d # A2) q"
    unfolding chain_append using it' by (auto simp del: cell_at.simps cell_span.simps)
  moreover have "m' ! x = m ! x" if "x < S" "\<not> in_ring S p (extent S p (A1 @ Item n f d # A2)) x" for x
  proof (rule out [OF that(1)])
    show "\<not> in_ring S r ?s x"
      using in_ring_part [OF pS rm le _ ext] E that(2) by auto
  qed
  ultimately show ?thesis using m'(1,2) r it by blast
qed

text \<open>The free walk over the retrieved cells keeps the invariant.\<close>

lemma takeWhile_extent_pos:
  "chain S m p A q \<Longrightarrow> takeWhile P A \<noteq> [] \<Longrightarrow> 8 \<le> extent S p (takeWhile P A)"
  using chain_append [of S m p "takeWhile P A" "dropWhile P A" q] extent_pos by auto

lemma held_head_dropWhile: "held_head (dropWhile freed A)"
proof (cases "dropWhile freed A")
  case Nil
  then show ?thesis by (simp only: held_head.simps)
next
  case (Cons c cs)
  then have "\<not> freed c" using hd_dropWhile [of freed A] by simp
  then show ?thesis using Cons by (cases c) auto
qed

lemma len_ok_dropWhile: "\<forall>c \<in> set A. len_ok k c \<Longrightarrow> \<forall>c \<in> set (dropWhile P A). len_ok k c"
  using set_dropWhileD by fast

text \<open>Everything the invariant says except the head of the held cells.\<close>

lemma rb_core_free_walk:
  assumes inv: "rb_core S split rb A0 B"
    and m: "length m = S" "chain S m (pucFree rb) A (pucRead rb)" "\<forall>c \<in> set A. len_ok (max_item S split) c"
    and e: "extent S (pucFree rb) A = extent S (pucFree rb) A0"
    and w: "free_walk S m (pucFree rb) A (pucRead rb) m' q"
    and fr: "\<And>x. x < S \<Longrightarrow> \<not> in_ring S (pucFree rb) (extent S (pucFree rb) A) x \<Longrightarrow> m ! x = storage rb ! x"
    and lt: "0 < extent S (pucFree rb) A" "extent S (pucFree rb) A < S"
  shows "rb_core S split (reset_full_flag (rb\<lparr>storage := m', pucFree := q\<rparr>)) (dropWhile freed A) B"
proof -
  note facts = rb_core_facts [OF inv]
  let ?f = "pucFree rb" and ?eA = "extent S (pucFree rb) A" and ?eB = "extent S (pucRead rb) B"
  let ?t = "extent S (pucFree rb) (takeWhile freed A)" and ?d = "extent S q (dropWhile freed A)"
  have fS: "?f < S" using facts(10) by (simp add: pos_ok_def)
  have chA0: "chain S (storage rb) ?f A0 (pucRead rb)" and chB: "chain S (storage rb) (pucRead rb) B (pucAcquire rb)"
    using inv by (auto simp: rb_core_def)
  have rd: "pucRead rb = (?f + ?eA) mod S" using chain_end_mod [OF chA0 fS] e by simp
  have E: "extent S ?f (A0 @ B) = ?eA + ?eB"
    using chain_chain_end [OF chA0] e by (simp add: extent_append)
  have full: "is_full rb \<longleftrightarrow> ?eA + ?eB = S" "?eA + ?eB \<le> S" using inv E by (auto simp: rb_core_def)
  have W: "length m' = S" "pos_ok S q" "chain S m' q (dropWhile freed A) (pucRead rb)" "?eA = ?t + ?d"
    "q = chain_end S ?f (takeWhile freed A)"
    "\<And>x. x < S \<Longrightarrow> \<not> in_ring S ?f ?eA x \<Longrightarrow> m' ! x = m ! x"
    using w by (auto simp: free_walk_def)
  have chB': "chain S m' (pucRead rb) B (pucAcquire rb)"
  proof (rule chain_frame [OF chB _ _ facts(8) W(1)])
    show "m' ! x = storage rb ! x" if "in_ring S (pucRead rb) ?eB x" for x
    proof -
      have "\<not> in_ring S ?f ?eA x" using ring_disjoint [OF fS rd full(2) _ that] by blast
      moreover have "x < S" using that by (simp add: in_ring_def)
      ultimately show ?thesis using W(6) fr by simp
    qed
  qed (use facts(11) full(2) in \<open>auto simp: pos_ok_def\<close>)
  have E': "extent S q (dropWhile freed A @ B) = ?d + ?eB"
    using chain_chain_end [OF W(3)] by (simp add: extent_append)
  have qf: "q = ?f \<longleftrightarrow> ?t = 0"
  proof
    assume "q = ?f"
    obtain r where r: "chain S m ?f (takeWhile freed A) r" "chain S m r (dropWhile freed A) (pucRead rb)"
      using m(2) chain_append [of S m ?f "takeWhile freed A" "dropWhile freed A"] by auto
    then show "?t = 0"
      using chain_moves [OF r(1) _ fS] chain_chain_end [OF r(1)] W(4,5) lt(2) \<open>q = ?f\<close>
      by (cases "takeWhile freed A = []") auto
  next
    assume "?t = 0"
    then have "takeWhile freed A = []" using takeWhile_extent_pos [OF m(2), of freed] by (cases "takeWhile freed A = []") auto
    then show "q = ?f" using W(5) by simp
  qed
  have aq: "pucAcquire rb = ?f" if "is_full rb"
    using facts(15) E full(1) that fS by simp
  have rf: "pucRead rb \<noteq> ?f"
    using rd fS lt by (cases "?f + ?eA < S") (auto simp: mod_if [of "?f + ?eA"])
  have ll: "\<forall>c \<in> set (dropWhile freed A). len_ok (max_item S split) c"
    using m(3) len_ok_dropWhile by blast
  let ?rb = "rb\<lparr>storage := m', pucFree := q\<rparr>"
  have reset: "reset_full_flag ?rb =
      (if is_full rb \<and> 0 < ?t
       then ?rb\<lparr>uxRingbufferFlags := clear_flag (uxRingbufferFlags rb) rbBUFFER_FULL_FLAG\<rparr> else ?rb)"
    using qf aq rf by (auto simp: reset_full_flag_def is_full_def)
  have st: "rb_static S split (reset_full_flag ?rb)"
    using inv W(1) unfolding reset by (auto simp: rb_core_def rb_static_def rbBUFFER_FULL_FLAG_def)
  have fl: "is_full (reset_full_flag ?rb) \<longleftrightarrow> ?d + ?eB = S"
    using full W(4) unfolding reset by (auto simp: is_full_bit rbBUFFER_FULL_FLAG_def)
  have same: "pucFree (reset_full_flag ?rb) = q" "storage (reset_full_flag ?rb) = m'"
    "pucRead (reset_full_flag ?rb) = pucRead rb" "pucAcquire (reset_full_flag ?rb) = pucAcquire rb"
    "pucWrite (reset_full_flag ?rb) = pucWrite rb" "xItemsWaiting (reset_full_flag ?rb) = xItemsWaiting rb"
    unfolding reset by simp_all
  show ?thesis
    unfolding rb_core_def same E' fl
    using st W(2,3) chB' ll held_head_dropWhile inv full(2) W(4) by (simp add: rb_core_def)
qed

text \<open>Returning a held item.  When the held cells cover the whole ring, it must be the last
  one: see the finding on the full flag.\<close>

definition held_item :: "nat \<Rightarrow> Ringbuffer_t \<Rightarrow> cell list \<Rightarrow> nat \<Rightarrow> bool" where
  "held_item S rb A p \<longleftrightarrow>
     (\<exists>A1 n f d A2. A = A1 @ Item n f d # A2 \<and> \<not> bit f 0 \<and> p = chain_end S (pucFree rb) A1 + 8 \<and>
        (extent S (pucFree rb) A < S \<or> (\<forall>c \<in> set A1 \<union> set A2. freed c)))"

fun free_flag :: "cell \<Rightarrow> cell" where
  "free_flag (Dummy f) = Dummy f"
| "free_flag (Item n f d) = Item n (set_flag (clear_flag f rbITEM_SPLIT_FLAG) rbITEM_FREE_FLAG) d"

lemma reset_full_flag_same:
  "pucRead (reset_full_flag rb) = pucRead rb" "pucAcquire (reset_full_flag rb) = pucAcquire rb"
  "xQueueSet (reset_full_flag rb) = xQueueSet rb"
  "xTasksWaitingToReceive (reset_full_flag rb) = xTasksWaitingToReceive rb"
  "xTasksWaitingToSend (reset_full_flag rb) = xTasksWaitingToSend rb"
  by (simp_all add: reset_full_flag_def)

lemma length_le_extent: "chain S m p cs q \<Longrightarrow> 8 * length cs \<le> extent S p cs"
proof (induction cs arbitrary: p)
  case (Cons c cs)
  have "8 \<le> cell_span S p c" using Cons.prems by (auto intro: cell_span_ge simp del: cell_at.simps cell_span.simps)
  moreover have "8 * length cs \<le> extent S (wrap_pos S (p + cell_span S p c)) cs"
    using Cons by (simp del: cell_at.simps cell_span.simps)
  ultimately show ?case by simp
qed simp

lemma prvReturnItemDefault_unfold:
  assumes "cell_at S (storage rb) r (Item n f d)" "\<not> bit f 0" "n \<le> xMaxItemSize rb" "pos_ok S r"
    "pucHead rb = 0" "pucTail rb = S"
    "set_item_flags (storage rb) r (set_flag (clear_flag f rbITEM_SPLIT_FLAG) rbITEM_FREE_FLAG) = Some m"
  shows "prvReturnItemDefault rb (r + 8) =
     map_option reset_full_flag (advance_free (walk_fuel rb) (rb\<lparr>storage := m\<rparr>))"
proof -
  have "\<not> bit f 1" using assms(1) by simp
  then show ?thesis
    using cell_at_header [OF assms(1)] assms(2-7)
    by (simp add: prvReturnItemDefault_def rb_flag_defs rbHEADER_SIZE_def pos_ok_def map_conv_bind_option comp_def)
qed

text \<open>The last held item of a buffer that is covered by retrieved items.\<close>

lemma return_last_of_full:
  assumes inv: "rb_core S split rb A0 B" and ext: "extent S (pucFree rb) A0 = S" and m: "length m = S"
  shows "rb_inv S split (reset_full_flag (rb\<lparr>storage := m\<rparr>)) [] B" "pucFree rb = pucRead rb"
proof -
  note facts = rb_core_facts [OF inv]
  have fS: "pucFree rb < S" using facts(10) by (simp add: pos_ok_def)
  have chA: "chain S (storage rb) (pucFree rb) A0 (pucRead rb)"
    and chB: "chain S (storage rb) (pucRead rb) B (pucAcquire rb)" using inv by (auto simp: rb_core_def)
  show fr: "pucFree rb = pucRead rb" using chain_end_mod [OF chA fS] ext fS by simp
  have E: "extent S (pucFree rb) (A0 @ B) = S + extent S (pucRead rb) B"
    using chain_chain_end [OF chA] ext by (simp add: extent_append)
  then have B: "B = []" using facts(14) extent_0_iff [OF chB] by simp
  then have aq: "pucAcquire rb = pucRead rb" using chB by simp
  have "is_full rb" using inv E B by (simp add: rb_core_def)
  then have "reset_full_flag (rb\<lparr>storage := m\<rparr>) =
      rb\<lparr>storage := m, uxRingbufferFlags := clear_flag (uxRingbufferFlags rb) rbBUFFER_FULL_FLAG\<rparr>"
    using fr aq by (simp add: reset_full_flag_def is_full_def)
  then show "rb_inv S split (reset_full_flag (rb\<lparr>storage := m\<rparr>)) [] B"
    using inv B fr aq m fS facts(10)
    by (auto simp: rb_inv_def rb_core_def rb_static_def is_full_bit rbBUFFER_FULL_FLAG_def)
qed

lemma reset_full_flag_free: "pucFree (reset_full_flag rb) = pucFree rb"
  by (simp add: reset_full_flag_def)

lemma prvReturnItemDefault_ok:
  assumes inv: "rb_inv S split rb (A1 @ Item n f d # A2) B" and held: "\<not> bit f 0"
    and last: "extent S (pucFree rb) (A1 @ Item n f d # A2) < S \<or> (\<forall>c \<in> set A1 \<union> set A2. freed c)"
  shows "\<exists>rb'. prvReturnItemDefault rb (chain_end S (pucFree rb) A1 + 8) = Some rb' \<and>
     rb_inv S split rb' (dropWhile freed (A1 @ free_flag (Item n f d) # A2)) B \<and>
     pucRead rb' = pucRead rb \<and> pucAcquire rb' = pucAcquire rb \<and> xQueueSet rb' = xQueueSet rb \<and>
     xTasksWaitingToReceive rb' = xTasksWaitingToReceive rb \<and>
     xTasksWaitingToSend rb' = xTasksWaitingToSend rb \<and>
     (extent S (pucFree rb) (A1 @ Item n f d # A2) < S \<longrightarrow>
        pucFree rb' = chain_end S (pucFree rb) (takeWhile freed (A1 @ free_flag (Item n f d) # A2)))"
proof -
  let ?A = "A1 @ Item n f d # A2" and ?f = "pucFree rb" and ?r = "chain_end S (pucFree rb) A1"
  define g where "g = set_flag (clear_flag f rbITEM_SPLIT_FLAG) rbITEM_FREE_FLAG"
  let ?A' = "A1 @ Item n g d # A2"
  have core: "rb_core S split rb ?A B" and msg: "messages B \<noteq> None" using inv by (auto simp: rb_inv_def)
  note facts = rb_core_facts [OF core]
  have chA: "chain S (storage rb) ?f ?A (pucRead rb)" and chB: "chain S (storage rb) (pucRead rb) B (pucAcquire rb)"
    using core by (auto simp: rb_core_def)
  have E: "extent S ?f (?A @ B) = extent S ?f ?A + extent S (pucRead rb) B"
    using chain_chain_end [OF chA] by (metis extent_append)
  have eA: "extent S ?f ?A \<le> S" "8 \<le> extent S ?f ?A" using facts(14) E extent_pos [OF chA] by auto
  obtain q1 where "chain S (storage rb) q1 (Item n f d # A2) (pucRead rb)"
    using chA unfolding chain_append by blast
  then have "\<not> bit f 1" by simp
  then have g: "\<not> bit g 1" "\<not> bit g 2" "bit g 0"
    by (simp_all add: g_def rbITEM_SPLIT_FLAG_def rbITEM_FREE_FLAG_def)
  obtain m where m: "set_item_flags (storage rb) ?r g = Some m" "length m = S"
    "chain S m ?f ?A' (pucRead rb)" "pos_ok S ?r" "cell_at S (storage rb) ?r (Item n f d)"
    "\<forall>x < S. \<not> in_ring S ?f (extent S ?f ?A) x \<longrightarrow> m ! x = storage rb ! x"
    using chain_set_flags [OF chA facts(10,8) eA(1) g(1,2) facts(2,3)] by blast
  have ll: "\<forall>c \<in> set ?A. len_ok (max_item S split) c" using core unfolding rb_core_def by blast
  then have n: "n \<le> xMaxItemSize rb" using facts(9) by simp
  note un = prvReturnItemDefault_unfold [OF m(5) held n m(4) facts(6,5) m(1) [unfolded g_def]]
  have eq: "extent S ?f ?A' = extent S ?f ?A" by (simp add: extent_append)
  show ?thesis
  proof (cases "extent S ?f ?A < S")
    case True
    have "\<exists>m' q. advance_free (walk_fuel rb) (rb\<lparr>storage := m\<rparr>) = Some (rb\<lparr>storage := m, storage := m', pucFree := q\<rparr>) \<and>
        free_walk S (storage (rb\<lparr>storage := m\<rparr>)) (pucFree (rb\<lparr>storage := m\<rparr>)) ?A' (pucRead (rb\<lparr>storage := m\<rparr>)) m' q"
    proof (rule advance_free_ok)
      show "length ?A' < walk_fuel rb"
        using length_le_extent [OF m(3)] eq eA(1) facts(7) by (simp add: walk_fuel_def)
    qed (use facts m(2,3) True eq in simp_all)
    then obtain m' q where w: "advance_free (walk_fuel rb) (rb\<lparr>storage := m\<rparr>) = Some (rb\<lparr>storage := m', pucFree := q\<rparr>)"
      "free_walk S m ?f ?A' (pucRead rb) m' q" by auto
    have "rb_core S split (reset_full_flag (rb\<lparr>storage := m', pucFree := q\<rparr>)) (dropWhile freed ?A') B"
    proof (rule rb_core_free_walk [OF core m(2,3) _ eq w(2)])
      show "\<forall>c \<in> set ?A'. len_ok (max_item S split) c" using ll by simp
      show "m ! x = storage rb ! x" if "x < S" "\<not> in_ring S ?f (extent S ?f ?A') x" for x
        using m(6) that unfolding eq by blast
    qed (use True eq eA(2) in simp_all)
    moreover have "q = chain_end S ?f (takeWhile freed ?A')" using w(2) unfolding free_walk_def by blast
    ultimately show ?thesis
      using un w(1) msg by (simp add: rb_inv_def g_def reset_full_flag_same reset_full_flag_free)
  next
    case False
    then have full: "extent S ?f ?A = S" using eA(1) by simp
    note lf = return_last_of_full [OF core full m(2)]
    obtain h where h: "get_header m ?f = Some h"
      using header_readable [OF facts(10) m(2)] by blast
    have "advance_free (walk_fuel rb) (rb\<lparr>storage := m\<rparr>) = Some (rb\<lparr>storage := m\<rparr>)"
      unfolding walk_fuel_def using h lf(2) by (intro advance_free_stop [of _ h]) simp_all
    then have r: "prvReturnItemDefault rb (?r + 8) = Some (reset_full_flag (rb\<lparr>storage := m\<rparr>))"
      using un by simp
    have "\<forall>c \<in> set ?A'. freed c" using last False g(3) by auto
    then have dw: "dropWhile freed (A1 @ free_flag (Item n f d) # A2) = []"
      unfolding free_flag.simps g_def [symmetric] by (simp only: dropWhile_eq_Nil_conv)
    show ?thesis
      unfolding dw using r lf(1) False by (simp add: reset_full_flag_same)
  qed
qed

end
