(* ===== verification/Ringbuf_Queue.thy ===== *)
theory Ringbuf_Queue
  imports Ringbuf_Send Ringbuf_Recv Ringbuf_Free
begin

text \<open>
  What a no-split or allow-split buffer is to its users: a queue of messages.  The held
  cells stay visible, because an item occupies the ring until it is returned.
\<close>

definition rb_queue :: "nat \<Rightarrow> bool \<Rightarrow> Ringbuffer_t \<Rightarrow> cell list \<Rightarrow> byte list list \<Rightarrow> bool" where
  "rb_queue S split rb A q \<longleftrightarrow> (\<exists>B. rb_inv S split rb A B \<and> messages B = Some q)"

text \<open>The bytes a receive hands out.\<close>

definition read_received :: "byte list \<Rightarrow> received \<Rightarrow> byte list option" where
  "read_received m r = do {
     d1 \<leftarrow> read_at m (fst (fst r)) (snd (fst r));
     d2 \<leftarrow> (case snd r of None \<Rightarrow> Some [] | Some (p2, n2) \<Rightarrow> read_at m p2 n2);
     Some (d1 @ d2)
   }"

section \<open>Receiving\<close>

lemma rb_core_unread_data:
  assumes "rb_core S split rb A (C @ Item n f d # B)" "chain S (storage rb) (pucRead rb) C p"
  shows "cell_at S (storage rb) p (Item n f d)"
proof -
  have "chain S (storage rb) (pucRead rb) (C @ Item n f d # B) (pucAcquire rb)"
    using assms(1) by (simp add: rb_core_def)
  then show ?thesis
    using chain_chain_end [OF assms(2)] chain_chain_end unfolding chain_append by auto
qed

lemma chain_end_append: "chain_end S p (xs @ ys) = chain_end S (chain_end S p xs) ys"
  by (induction xs arbitrary: p) auto

text \<open>The first item of the queue, behind a dummy or not.\<close>

lemma get_first:
  assumes inv: "rb_core S split rb A B" and B: "B = Item n f d # B' \<or> B = Dummy g # Item n f d # B'"
  shows "\<exists>rb' p C. prvGetItemDefault rb = Some (rb', p + 8, n, bit f 2) \<and>
     rb_core S split rb' (A @ C @ [Item n f d]) B' \<and> (C = [] \<or> C = [Dummy g]) \<and>
     cell_at S (storage rb) p (Item n f d) \<and> storage rb' = storage rb \<and> pucFree rb' = pucFree rb \<and>
     p = chain_end S (pucFree rb) (A @ C) \<and>
     uxRingbufferFlags rb' = uxRingbufferFlags rb \<and> pvGetItem rb' = pvGetItem rb \<and>
     xTasksWaitingToSend rb' = xTasksWaitingToSend rb \<and>
     xTasksWaitingToReceive rb' = xTasksWaitingToReceive rb \<and> xQueueSet rb' = xQueueSet rb"
proof -
  have chA: "pucRead rb = chain_end S (pucFree rb) A"
    using inv chain_chain_end by (auto simp: rb_core_def)
  have ch: "chain S (storage rb) (pucRead rb) B (pucAcquire rb)" using inv by (simp add: rb_core_def)
  have rd: "pucRead rb < S" using rb_core_facts(11) [OF inv] by (simp add: pos_ok_def)
  from B show ?thesis
  proof
    assume B: "B = Item n f d # B'"
    have it: "cell_at S (storage rb) (pucRead rb) (Item n f d)" using ch unfolding B chain.simps by blast
    show ?thesis
      using get_item [of S split rb A n f d B'] inv [unfolded B] it chA
      by (intro exI [of _ "rb\<lparr>xItemsWaiting := xItemsWaiting rb - 1,
                   pucRead := wrap_pos S (pucRead rb + cell_span S (pucRead rb) (Item n f d))\<rparr>"]
                exI [of _ "pucRead rb"] exI [of _ "[]"])
         (simp del: cell_at.simps cell_span.simps)
  next
    assume B: "B = Dummy g # Item n f d # B'"
    have n0: "wrap_pos S (pucRead rb + cell_span S (pucRead rb) (Dummy g)) = 0"
      using rd by (simp add: wrap_pos_def)
    have it: "cell_at S (storage rb) 0 (Item n f d)" using ch unfolding B chain.simps n0 by blast
    have "chain_end S (pucFree rb) (A @ [Dummy g]) = 0"
      using n0 chA by (simp add: chain_end_append)
    then show ?thesis
      using get_dummy [of S split rb A g n f d B'] inv [unfolded B] it
      by (intro exI [of _ "rb\<lparr>xItemsWaiting := xItemsWaiting rb - 1,
                   pucRead := wrap_pos S (cell_span S 0 (Item n f d))\<rparr>"]
                exI [of _ "0::nat"] exI [of _ "[Dummy g]"])
         (simp del: cell_at.simps cell_span.simps)
  qed
qed

lemma call_pvGetItem_default:
  "pvGetItem rb = GetItemDefault \<Longrightarrow> call_pvGetItem rb k = prvGetItemDefault rb"
  by (simp add: call_pvGetItem_def)

lemma has_allow_split: "has_flag w rbALLOW_SPLIT_FLAG \<longleftrightarrow> bit w 0"
  by (simp add: rbALLOW_SPLIT_FLAG_def)

text \<open>The items at the front of a non-empty queue: one, or two that make up one message.\<close>

lemma messages_front:
  assumes "messages B = Some (x # q)"
  obtains (whole) n f B' g where "B = Item n f x # B' \<or> B = Dummy g # Item n f x # B'"
      "\<not> bit f 2" "messages B' = Some q"
  | (pair) n f d n' f' d' B' g where
      "B = Item n f d # Item n' f' d' # B' \<or> B = Dummy g # Item n f d # Item n' f' d' # B'"
      "bit f 2" "\<not> bit f' 2" "x = d @ d'" "messages B' = Some q"
proof -
  have "\<exists>n f d C g. (B = Item n f d # C \<or> B = Dummy g # Item n f d # C) \<and>
          messages (Item n f d # C) = Some (x # q)"
  proof -
    have "B \<noteq> []" "messages B \<noteq> None" using assms by auto
    from messages_Cons_item [OF this(2,1)] show ?thesis
    proof (elim disjE exE)
      fix n f d C assume "B = Item n f d # C"
      then show ?thesis using assms by blast
    next
      fix g n f d C assume B: "B = Dummy g # Item n f d # C"
      then have "messages (Item n f d # C) = Some (x # q)" using assms unfolding B messages.simps(2) by simp
      then show ?thesis using B by blast
    qed
  qed
  then obtain n f d C g where C: "B = Item n f d # C \<or> B = Dummy g # Item n f d # C"
    "messages (Item n f d # C) = Some (x # q)" by blast
  show thesis
  proof (cases "bit f 2")
    case False
    then have "messages C = Some q" "d = x" using C(2) by auto
    then show thesis using whole C(1) False by blast
  next
    case True
    then obtain n' f' d' B' where "C = Item n' f' d' # B'" "\<not> bit f' 2" "x = d @ d'" "messages B' = Some q"
      using C(2) by (auto split: list.splits cell.splits if_splits)
    then show thesis using pair C(1) True by blast
  qed
qed

text \<open>The message at the front is handed out, and its items are held until they are
  returned.  Only a caller that asks for the second part may use an allow-split buffer.\<close>

definition held_at :: "nat \<Rightarrow> nat \<Rightarrow> cell list \<Rightarrow> nat \<Rightarrow> bool" where
  "held_at S p A a \<longleftrightarrow>
     (\<exists>A1 n f d A2. A = A1 @ Item n f d # A2 \<and> \<not> bit f 0 \<and> a = chain_end S p A1 + 8)"

definition parts :: "received \<Rightarrow> nat set" where
  "parts r = insert (fst (fst r)) (case snd r of None \<Rightarrow> {} | Some (p2, n2) \<Rightarrow> {p2})"

lemma held_atI:
  "A = A1 @ Item n f d # A2 \<Longrightarrow> \<not> bit f 0 \<Longrightarrow> a = chain_end S p A1 + 8 \<Longrightarrow> held_at S p A a"
  unfolding held_at_def by blast

text \<open>The addresses of the items that are held, in the order of the ring.\<close>

fun held_addrs :: "nat \<Rightarrow> nat \<Rightarrow> cell list \<Rightarrow> nat list" where
  "held_addrs S p [] = []"
| "held_addrs S p (c # cs) = (if freed c then [] else [p + 8]) @ held_addrs S (wrap_pos S (p + cell_span S p c)) cs"

lemma held_addrs_append: "held_addrs S p (xs @ ys) = held_addrs S p xs @ held_addrs S (chain_end S p xs) ys"
  by (induction xs arbitrary: p) (simp_all del: cell_span.simps)

lemma length_held_addrs: "length (held_addrs S p A) = length (filter (\<lambda>c. \<not> freed c) A)"
  by (induction A arbitrary: p) (simp_all del: cell_span.simps)

lemma held_addrs_held_at: "a \<in> set (held_addrs S p A) \<Longrightarrow> held_at S p A a"
proof (induction A arbitrary: p)
  case (Cons c A)
  show ?case
  proof (cases "a \<in> set (held_addrs S (wrap_pos S (p + cell_span S p c)) A)")
    case True
    then obtain A1 n f d A2 where "A = A1 @ Item n f d # A2" "\<not> bit f 0"
      "a = chain_end S (wrap_pos S (p + cell_span S p c)) A1 + 8"
      using Cons.IH unfolding held_at_def by blast
    then show ?thesis by (intro held_atI [of _ "c # A1" n f d A2]) (simp_all del: cell_span.simps)
  next
    case False
    then have "\<not> freed c" "a = p + 8" using Cons.prems by (simp_all split: if_splits del: cell_span.simps)
    then show ?thesis by (cases c) (auto intro!: held_atI [of _ "[]"])
  qed
qed simp

lemma held_addrs_dropWhile: "held_addrs S (chain_end S p (takeWhile freed A)) (dropWhile freed A) = held_addrs S p A"
  by (induction A arbitrary: p) (simp_all del: cell_span.simps)

lemma receive_now_ok:
  assumes inv: "rb_inv S split rb A B" and q: "messages B = Some (x # q)" and want: "split \<longrightarrow> want2"
  shows "\<exists>rb' r C. receive_now want2 k rb = Some (rb', r) \<and>
     read_received (storage rb') r = Some x \<and> storage rb' = storage rb \<and>
     rb_queue S split rb' (A @ C) q \<and> pucFree rb' = pucFree rb \<and>
     (\<forall>a \<in> parts r. held_at S (pucFree rb') (A @ C) a) \<and>
     length (filter (\<lambda>c. \<not> freed c) C) = (if snd r = None then 1 else 2) \<and> (\<not> split \<longrightarrow> snd r = None) \<and>
     (snd r = None \<longrightarrow> held_addrs S (chain_end S (pucFree rb') A) C = [fst (fst r)]) \<and>
     xQueueSet rb' = xQueueSet rb \<and>
     xTasksWaitingToSend rb' = xTasksWaitingToSend rb \<and>
     xTasksWaitingToReceive rb' = xTasksWaitingToReceive rb"
proof -
  have core: "rb_core S split rb A B" using inv by (rule rb_inv_core)
  have st: "pvGetItem rb = GetItemDefault" "bit (uxRingbufferFlags rb) 0 = split"
    using core by (auto simp: rb_core_def rb_static_def)
  from q show ?thesis
  proof (cases rule: messages_front)
    case (whole n f B' g)
    obtain rb' p C where g: "prvGetItemDefault rb = Some (rb', p + 8, n, bit f 2)"
      "rb_core S split rb' (A @ C @ [Item n f x]) B'" "C = [] \<or> C = [Dummy g]"
      "cell_at S (storage rb) p (Item n f x)" "storage rb' = storage rb" "pucFree rb' = pucFree rb"
      "p = chain_end S (pucFree rb) (A @ C)" "uxRingbufferFlags rb' = uxRingbufferFlags rb"
      "xTasksWaitingToSend rb' = xTasksWaitingToSend rb"
      "xTasksWaitingToReceive rb' = xTasksWaitingToReceive rb" "xQueueSet rb' = xQueueSet rb"
      using get_first [OF core whole(1)] by blast
    have "receive_now want2 k rb = Some (rb', (p + 8, n), None)"
      using g(1,8) st want whole(2) by (simp add: receive_now_def call_pvGetItem_default has_allow_split)
    moreover have "read_received (storage rb') ((p + 8, n), None) = Some x"
      using g(4,5) by (simp add: read_received_def)
    moreover have "rb_queue S split rb' (A @ (C @ [Item n f x])) q"
      using g(2) whole(3) by (auto simp: rb_queue_def rb_inv_def)
    moreover have f0: "\<not> bit f 0" using core whole(1) by (auto simp: rb_core_def)
    moreover have "length (filter (\<lambda>c. \<not> freed c) (C @ [Item n f x])) = 1" using f0 g(3) by auto
    moreover have "\<forall>a \<in> parts ((p + 8, n), None). held_at S (pucFree rb') (A @ (C @ [Item n f x])) a"
      using f0 g(6,7) by (auto simp: parts_def intro!: held_atI [of _ "A @ C" n f x "[]"])
    moreover have "held_addrs S (chain_end S (pucFree rb') A) (C @ [Item n f x]) = [p + 8]"
      using f0 g(3,6,7) by (auto simp: held_addrs_append chain_end_append simp del: cell_span.simps)
    ultimately show ?thesis using g(5,6,9-11)
      by (intro exI [of _ rb'] exI [of _ "((p + 8, n), None)"] exI [of _ "C @ [Item n f x]"]) simp
  next
    case (pair n f d n' f' d' B' g)
    obtain rb1 p C where g: "prvGetItemDefault rb = Some (rb1, p + 8, n, bit f 2)"
      "rb_core S split rb1 (A @ C @ [Item n f d]) (Item n' f' d' # B')" "C = [] \<or> C = [Dummy g]"
      "cell_at S (storage rb) p (Item n f d)" "storage rb1 = storage rb" "pucFree rb1 = pucFree rb"
      "p = chain_end S (pucFree rb) (A @ C)" "uxRingbufferFlags rb1 = uxRingbufferFlags rb"
      "pvGetItem rb1 = pvGetItem rb" "xTasksWaitingToSend rb1 = xTasksWaitingToSend rb"
      "xTasksWaitingToReceive rb1 = xTasksWaitingToReceive rb" "xQueueSet rb1 = xQueueSet rb"
      using get_first [OF core, of n f d "Item n' f' d' # B'" g] pair(1) by blast
    have "split"
      using core pair(1,2) by (auto simp: rb_core_def)
    have end1: "0 < p" "wrap_pos S (p + cell_span S p (Item n f d)) = 0"
      using g(4) pair(2) by (simp_all add: wrap_pos_def)
    have ch: "chain S (storage rb1) (pucRead rb1) (Item n' f' d' # B') (pucAcquire rb1)"
      using g(2) by (simp add: rb_core_def)
    have rd: "pucRead rb1 = chain_end S (pucFree rb1) (A @ C @ [Item n f d])"
      using g(2) chain_chain_end by (auto simp: rb_core_def)
    then have rd0: "pucRead rb1 = 0"
      using g(6,7) end1(2) by (simp add: chain_end_append)
    have it2: "cell_at S (storage rb1) 0 (Item n' f' d')" using ch rd0 unfolding chain.simps by metis
    note g2 = get_item [OF g(2)]
    let ?rb2 = "rb1\<lparr>xItemsWaiting := xItemsWaiting rb1 - 1,
                   pucRead := wrap_pos S (pucRead rb1 + cell_span S (pucRead rb1) (Item n' f' d'))\<rparr>"
    have "receive_now want2 k rb = Some (?rb2, (p + 8, n), Some (8, n'))"
      using g(1,8,9) g2(1) st want \<open>split\<close> pair(2,3) rd0 end1(1)
      by (simp add: receive_now_def call_pvGetItem_default has_allow_split del: cell_span.simps)
    moreover have "read_received (storage ?rb2) ((p + 8, n), Some (8, n')) = Some x"
      using g(4,5) it2 pair(4) by (simp add: read_received_def)
    moreover have "rb_queue S split ?rb2 (A @ (C @ [Item n f d, Item n' f' d'])) q"
      using g2(2) pair(5) by (auto simp: rb_queue_def rb_inv_def simp del: cell_span.simps)
    moreover have b: "\<not> bit f 0" "\<not> bit f' 0" using core pair(1) by (auto simp: rb_core_def)
    moreover have "length (filter (\<lambda>c. \<not> freed c) (C @ [Item n f d, Item n' f' d'])) = 2" using b g(3) by auto
    moreover have "\<forall>a \<in> parts ((p + 8, n), Some (8, n')).
        held_at S (pucFree ?rb2) (A @ (C @ [Item n f d, Item n' f' d'])) a"
    proof -
      have "held_at S (pucFree ?rb2) (A @ (C @ [Item n f d, Item n' f' d'])) (p + 8)"
      by (rule held_atI [of _ "A @ C" n f d "[Item n' f' d']"]) (use b g(6,7) in simp_all)
    moreover have "held_at S (pucFree ?rb2) (A @ (C @ [Item n f d, Item n' f' d'])) 8"
      by (rule held_atI [of _ "A @ C @ [Item n f d]" n' f' d' "[]"])
         (use b rd rd0 in simp_all)
      ultimately show ?thesis unfolding parts_def by simp
    qed
    ultimately show ?thesis using g(5,6,10-12) \<open>split\<close>
      by (intro exI [of _ ?rb2] exI [of _ "((p + 8, n), Some (8, n'))"]
                exI [of _ "C @ [Item n f d, Item n' f' d']"]) (simp del: cell_span.simps)
  qed
qed

end
