(* ===== verification/Ringbuf_Split.thy ===== *)
theory Ringbuf_Split
  imports Ringbuf_Inv
begin

text \<open>
  Sending to an allow-split buffer: when the item does not fit before the tail, a first part
  (or a dummy, when only a header fits) fills the end of the ring and the rest starts at its
  head.  The copy keeps the invariant and appends one message.
\<close>

section \<open>Writing the cells\<close>

lemma write_item_ok:
  assumes "length m = S" "p + 8 + rbALIGN_SIZE n \<le> S" "n < 2147483648" "n \<le> length bs"
  shows "\<exists>m1 m2 m3. set_item_len m p n = Some m1 \<and> set_item_flags m1 p 0 = Some m2 \<and>
     memcpy m2 (p + 8) bs n = Some m3 \<and> length m3 = S \<and> cell_at S m3 p (Item n 0 (take n bs)) \<and>
     (\<forall>x < S. x < p \<or> p + 8 + rbALIGN_SIZE n \<le> x \<longrightarrow> m3 ! x = m ! x)"
proof -
  have al: "n \<le> rbALIGN_SIZE n" using assms(3) by (simp add: rbALIGN_SIZE_ge)
  obtain m1 m2 where m2: "set_item_len m p n = Some m1" "set_item_flags m1 p 0 = Some m2" "length m2 = S"
    "get_item_len m2 p = Some n" "get_item_flags m2 p = Some 0"
    "\<forall>x < S. x < p \<or> p + 8 \<le> x \<longrightarrow> m2 ! x = m ! x"
    using write_header [of p m n 0] assms by auto
  obtain m3 where m3: "memcpy m2 (p + 8) bs n = Some m3" "length m3 = S"
    "read_at m3 (p + 8) n = Some (take n bs)"
    "\<forall>x < S. x < p + 8 \<or> p + 8 + n \<le> x \<longrightarrow> m3 ! x = m2 ! x"
    using memcpy_Some [of "p + 8" n m2 bs] m2(3) assms al by auto
  have "get_item_len m3 p = Some n" "get_item_flags m3 p = Some 0"
    using get_item_len_cong [of m3 m2 p] get_item_flags_cong [of m3 m2 p] m3(2,4) m2(3-5) by auto
  then have "cell_at S m3 p (Item n 0 (take n bs))" using m3 assms by simp
  moreover have "m3 ! x = m ! x" if "x < S" "x < p \<or> p + 8 + rbALIGN_SIZE n \<le> x" for x
    using that m3(4) m2(6) al by auto
  ultimately show ?thesis using m2(1,2) m3(1,2) by blast
qed

text \<open>How the rest of the item relates to the whole when \<open>k\<close> bytes are in the first part.\<close>

lemma split_sizes:
  assumes "4 dvd k" "k < rbALIGN_SIZE n" "n < 2147483648"
  shows "k < n" "rbALIGN_SIZE (n - k) = rbALIGN_SIZE n - k"
proof -
  have al: "rbALIGN_SIZE n = (n + 3) div 4 * 4" using assms(3) by (simp add: rbALIGN_SIZE_eq)
  obtain j where j: "k = 4 * j" using assms(1) by (rule dvdE)
  have "j < (n + 3) div 4" using assms(2) unfolding al j by simp
  then show k: "k < n" unfolding j by simp
  have "n + 3 = (n - k + 3) + 4 * j" using k j by simp
  then have "(n + 3) div 4 = ((n - k + 3) + 4 * j) div 4" by simp
  then have "(n + 3) div 4 = (n - k + 3) div 4 + j" by simp
  moreover have "rbALIGN_SIZE (n - k) = (n - k + 3) div 4 * 4" using assms(3) by (simp add: rbALIGN_SIZE_eq)
  ultimately show "rbALIGN_SIZE (n - k) = rbALIGN_SIZE n - k" unfolding al j by simp
qed

text \<open>What the first part leaves: its cell, and the data, size and aligned size of the rest.\<close>

definition first_part :: "nat \<Rightarrow> nat \<Rightarrow> byte list \<Rightarrow> nat \<Rightarrow> cell \<Rightarrow> byte list \<Rightarrow> nat \<Rightarrow> bool" where
  "first_part S acq bs n D bs' k \<longleftrightarrow>
     (D = Dummy 2 \<and> acq + 8 = S \<and> bs' = bs \<and> k = n) \<or>
     (D = Item (S - acq - 8) 4 (take (S - acq - 8) bs) \<and> acq + 8 < S \<and>
      bs' = drop (S - acq - 8) bs \<and> k = n - (S - acq - 8))"

lemma split_first_part_ok:
  assumes rb: "pucHead rb = 0" "length (storage rb) = S" "S < 2147483648" "4 dvd S"
    and acq: "pos_ok S (pucAcquire rb)" "0 < pucAcquire rb"
    and n: "S - pucAcquire rb < rbALIGN_SIZE n + 8" "n < 2147483648" "n \<le> length bs"
  shows "\<exists>m D bs' k. split_first_part rb bs n (rbALIGN_SIZE n) (S - pucAcquire rb) =
       Some (rb\<lparr>storage := m, xItemsWaiting := xItemsWaiting rb + int (length (filter is_item [D])),
                pucAcquire := 0\<rparr>, bs', k, rbALIGN_SIZE k) \<and>
     first_part S (pucAcquire rb) bs n D bs' k \<and> length m = S \<and> chain S m (pucAcquire rb) [D] 0 \<and>
     (\<forall>x < S. x < pucAcquire rb \<longrightarrow> m ! x = storage rb ! x)"
proof -
  let ?a = "pucAcquire rb"
  have a: "4 dvd ?a" "?a + 8 \<le> S" using acq by (auto simp: pos_ok_def)
  define K where "K = S - ?a - 8"
  have K: "?a + 8 + K = S" using a by (simp add: K_def)
  obtain m1 m2 where m: "set_item_flags (storage rb) ?a 0 = Some m1" "set_item_len m1 ?a K = Some m2"
    "length m2 = S" "get_item_len m2 ?a = Some K" "get_item_flags m2 ?a = Some 0"
    "\<forall>x < S. x < ?a \<or> ?a + 8 \<le> x \<longrightarrow> m2 ! x = storage rb ! x"
    using write_dummy [of ?a "storage rb" 0 K] a rb(2,3) K by auto
  have sub: "sub32 (S - ?a) rbHEADER_SIZE = K" "wrap32 (?a + rbHEADER_SIZE) = ?a + 8"
    using a rb(3) by (simp_all add: sub32_eq wrap32_id rbHEADER_SIZE_def K_def)
  show ?thesis
  proof (cases "K = 0")
    case True
    obtain m3 where m3: "set_item_flags m2 ?a 2 = Some m3" "length m3 = S"
      "get_item_flags m3 ?a = Some 2" "get_item_len m3 ?a = get_item_len m2 ?a"
      "\<forall>x < S. x < ?a \<or> ?a + 8 \<le> x \<longrightarrow> m3 ! x = m2 ! x"
      using set_flags_frame [of ?a m2 2] a m(3) by auto
    have "split_first_part rb bs n (rbALIGN_SIZE n) (S - ?a) =
        Some (rb\<lparr>storage := m3, pucAcquire := 0\<rparr>, bs, n, rbALIGN_SIZE n)"
      using m(1,2) m3(1) True rb(1) unfolding split_first_part_def Let_def sub
      by (simp add: rbITEM_DUMMY_DATA_FLAG_def set_flag_def)
    moreover have "chain S m3 ?a [Dummy 2] 0"
      using m3(3,4) m(4) True K by (simp add: wrap_pos_def)
    moreover have "first_part S ?a bs n (Dummy 2) bs n" using True K by (simp add: first_part_def)
    ultimately show ?thesis
      using m3(2,5) m(6)
      by - (rule exI [of _ m3], rule exI [of _ "Dummy 2"], rule exI [of _ bs], rule exI [of _ n], simp add: wrap_pos_def)
  next
    case False
    have k4: "4 dvd K" "K < rbALIGN_SIZE n" using a rb(4) n(1) by (auto simp: K_def)
    note sp = split_sizes [OF k4 n(2)]
    obtain m3 where m3: "memcpy m2 (?a + 8) bs K = Some m3" "length m3 = S"
      "read_at m3 (?a + 8) K = Some (take K bs)"
      "\<forall>x < S. x < ?a + 8 \<or> ?a + 8 + K \<le> x \<longrightarrow> m3 ! x = m2 ! x"
      using memcpy_Some [of "?a + 8" K m2 bs] m(3) K n(3) sp(1) by auto
    have len3: "get_item_len m3 ?a = Some K"
      using get_item_len_cong [of m3 m2 ?a] m3(2,4) m(3,4) by auto
    obtain m4 where m4: "set_item_flags m3 ?a 4 = Some m4" "length m4 = S"
      "get_item_flags m4 ?a = Some 4" "get_item_len m4 ?a = get_item_len m3 ?a"
      "\<forall>j. read_at m4 (?a + 8) j = read_at m3 (?a + 8) j"
      "\<forall>x < S. x < ?a \<or> ?a + 8 \<le> x \<longrightarrow> m4 ! x = m3 ! x"
      using set_flags_frame [of ?a m3 4] a m3(2) by auto
    have al: "rbALIGN_SIZE K = K" using k4(1) rb(3) K by (subst rbALIGN_SIZE_eq) auto
    have s: "sub32 n K = n - K" "sub32 (rbALIGN_SIZE n) K = rbALIGN_SIZE (n - K)"
      using sp k4(2) n(2) rbALIGN_SIZE_lt [of n] by (simp_all add: sub32_eq)
    let ?D = "Item K 4 (take K bs)"
    have "split_first_part rb bs n (rbALIGN_SIZE n) (S - ?a) =
        Some (rb\<lparr>storage := m4, xItemsWaiting := xItemsWaiting rb + 1, pucAcquire := 0\<rparr>,
              drop K bs, n - K, rbALIGN_SIZE (n - K))"
      using m(1,2) m3(1) m4(1) False rb(1) unfolding split_first_part_def Let_def sub
      by (simp add: rbITEM_SPLIT_FLAG_def set_flag_def s)
    moreover have "cell_at S m4 ?a ?D"
      using m4(3-5) m3(3) len3 acq K al rb(3) by simp
    then have "chain S m4 ?a [?D] 0" using K al by (simp add: wrap_pos_def del: cell_at.simps)
    moreover have "first_part S ?a bs n ?D (drop K bs) (n - K)" using False K unfolding first_part_def K_def [symmetric] by simp
    ultimately show ?thesis
      using m4(2,6) m3(4) m(6)
      by - (rule exI [of _ m4], rule exI [of _ ?D], rule exI [of _ "drop K bs"], rule exI [of _ "n - K"], simp del: cell_at.simps cell_span.simps)
  qed
qed

section \<open>The geometry of the ring\<close>

text \<open>Where the parts of a new item go: \<open>D\<close> is the first part, if there is one, and the
  last part of \<open>k\<close> bytes starts at \<open>p\<close>.\<close>

definition parts_fit :: "nat \<Rightarrow> nat \<Rightarrow> nat \<Rightarrow> cell list \<Rightarrow> nat \<Rightarrow> nat \<Rightarrow> bool" where
  "parts_fit S E acq D p k \<longleftrightarrow>
     p + 8 + rbALIGN_SIZE k \<le> S \<and> pos_ok S p \<and>
     (D = [] \<and> p = acq \<or> (\<exists>c. D = [c]) \<and> p = 0 \<and> 0 < acq \<and> 8 + rbALIGN_SIZE k \<le> acq) \<and>
     E + extent S acq D + (if S - (p + 8 + rbALIGN_SIZE k) < 8 then S - p else 8 + rbALIGN_SIZE k) \<le> S"

lemma max_item_split: "max_item S True = S - 16"
  by (simp add: max_item_def)

lemma split_fits:
  assumes inv: "rb_inv S True rb A B" and n: "n \<le> max_item S True"
    and fits: "prvCheckItemFitsDefault rb n = Some True"
  defines "E \<equiv> extent S (pucFree rb) (A @ B)" and "T \<equiv> rbALIGN_SIZE n + 8" and "a \<equiv> pucAcquire rb"
  shows "n < 2147483648" "4 dvd T" "T + 8 \<le> S"
    "a = (if pucFree rb + E < S then pucFree rb + E else pucFree rb + E - S)" "E < S"
    "if a = pucFree rb then True else if a < pucFree rb then T \<le> pucFree rb - a
     else T \<le> S - a \<or> T + 8 \<le> S - (a - pucFree rb)"
proof -
  note facts = rb_inv_facts [OF inv]
  have sz: "16 \<le> S" "S < 2147483648" "4 dvd S" using facts by auto
  show n31: "n < 2147483648" using n sz by (simp add: max_item_split)
  have "rbALIGN_SIZE n \<le> S - 16"
    using n sz by (intro rbALIGN_SIZE_le_aligned) (auto simp: max_item_split)
  then show T: "T + 8 \<le> S" using sz by (simp add: T_def)
  show "4 dvd T" by (simp add: T_def)
  have E: "E \<le> S" "is_full rb \<longleftrightarrow> E = S" using inv by (auto simp: rb_inv_def rb_core_def E_def)
  have fS: "pucFree rb < S" "pucFree rb + 8 \<le> S" "a + 8 \<le> S"
    using facts(10,12) by (auto simp: pos_ok_def a_def)
  show aE: "a = (if pucFree rb + E < S then pucFree rb + E else pucFree rb + E - S)"
    using facts(15) E(1) fS(1) unfolding E_def [symmetric] a_def by (simp add: mod_if [of "pucFree rb + E"])
  have st: "pucTail rb = S" "pucHead rb = 0" "xSize rb = S" "has_flag (uxRingbufferFlags rb) rbALLOW_SPLIT_FLAG"
    using inv facts by (auto simp: rb_inv_def rb_core_def rb_static_def rbALLOW_SPLIT_FLAG_def)
  have w: "wrap32 (rbALIGN_SIZE n + rbHEADER_SIZE) = T" "wrap32 (T + rbHEADER_SIZE) = T + 8"
    using T sz by (simp_all add: wrap32_id T_def rbHEADER_SIZE_def)
  have s: "sub32 S a = S - a" "pucFree rb \<le> a \<Longrightarrow> sub32 S (sub32 a (pucFree rb)) = S - (a - pucFree rb)"
    using sz fS by (simp_all add: sub32_eq)
  have f: "if a = pucFree rb then \<not> is_full rb else if a < pucFree rb then T \<le> pucFree rb - a
     else T \<le> S - a \<or> T + 8 \<le> S - (a - pucFree rb)"
    using fits unfolding prvCheckItemFitsDefault_def Let_def w a_def [symmetric]
    by (auto simp: s st w trap_simps split: if_splits)
  then show "if a = pucFree rb then True else if a < pucFree rb then T \<le> pucFree rb - a
     else T \<le> S - a \<or> T + 8 \<le> S - (a - pucFree rb)" by (auto split: if_splits)
  show "E < S"
  proof (rule ccontr)
    assume "\<not> E < S"
    then have "E = S" using E(1) by simp
    then have "a = pucFree rb" "is_full rb" using aE E(2) fS(1) by auto
    then show False using f by simp
  qed
qed

lemma parts_fit_whole:
  assumes inv: "rb_inv S True rb A B" and n: "n \<le> max_item S True"
    and fits: "prvCheckItemFitsDefault rb n = Some True"
    and le: "rbALIGN_SIZE n + 8 \<le> S - pucAcquire rb"
  shows "parts_fit S (extent S (pucFree rb) (A @ B)) (pucAcquire rb) [] (pucAcquire rb) n"
proof -
  note facts = rb_inv_facts [OF inv]
  note sf = split_fits [OF inv n fits]
  have *: "4 dvd pucAcquire rb" "pucAcquire rb + 8 \<le> S" "4 dvd pucFree rb" "pucFree rb + 8 \<le> S" "4 dvd S"
    using facts by (auto simp: pos_ok_def)
  then show ?thesis
    using sf(3-6) le facts(12) by (auto simp: parts_fit_def split: if_splits)
qed

lemma parts_fit_split:
  assumes inv: "rb_inv S True rb A B" and n: "n \<le> max_item S True"
    and fits: "prvCheckItemFitsDefault rb n = Some True"
    and gt: "S - pucAcquire rb < rbALIGN_SIZE n + 8" and D: "first_part S (pucAcquire rb) bs n D bs' k"
  shows "parts_fit S (extent S (pucFree rb) (A @ B)) (pucAcquire rb) [D] 0 k"
    "0 < pucAcquire rb" "k < 2147483648" "k \<le> n"
proof -
  note facts = rb_inv_facts [OF inv]
  note sf = split_fits [OF inv n fits]
  let ?a = "pucAcquire rb" and ?f = "pucFree rb"
  have *: "4 dvd ?a" "?a + 8 \<le> S" "4 dvd ?f" "?f + 8 \<le> S" "4 dvd S" "16 \<le> S"
    using facts by (auto simp: pos_ok_def)
  show a: "0 < ?a" using gt sf(3) by (cases ?a) auto
  have k4: "4 dvd S - ?a - 8" "S - ?a - 8 < rbALIGN_SIZE n" using * gt by auto
  note sp = split_sizes [OF k4 sf(1)]
  have k: "rbALIGN_SIZE k = rbALIGN_SIZE n - (S - ?a - 8)" "k \<le> n"
    using D sp by (auto simp: first_part_def)
  show "k \<le> n" "k < 2147483648" using k(2) sf(1) by simp_all
  have "rbALIGN_SIZE (S - ?a - 8) = S - ?a - 8"
    using k4(1) facts(4) by (subst rbALIGN_SIZE_eq) auto
  then have e: "extent S ?a [D] = S - ?a" using D * by (auto simp: first_part_def)
  have b: "rbALIGN_SIZE k + 8 + (S - ?a) = rbALIGN_SIZE n + 16"
    using k(1) k4(2) *(2) by simp
  have "?a \<noteq> ?f \<Longrightarrow> ?f < ?a \<and> rbALIGN_SIZE n + 16 \<le> S - (?a - ?f)"
    using sf(6) gt * by (auto split: if_splits)
  then have lim: "rbALIGN_SIZE k + 8 \<le> (if ?a = ?f then ?a else ?f)"
    using b sf(3) *(2) by (cases "?a = ?f") auto
  have E: "extent S ?f (A @ B) = (if ?a = ?f then 0 else ?a - ?f)"
    using sf(4,5) lim \<open>?a \<noteq> ?f \<Longrightarrow> _\<close> by (cases "?a = ?f") (auto split: if_splits)
  have la: "rbALIGN_SIZE k + 8 \<le> ?a" "(if ?a = ?f then ?a else ?f) + 8 \<le> S"
    using lim * \<open>?a \<noteq> ?f \<Longrightarrow> _\<close> by (auto split: if_splits)
  then have sp0: "(if S - (0 + 8 + rbALIGN_SIZE k) < 8 then S - 0 else 8 + rbALIGN_SIZE k) = 8 + rbALIGN_SIZE k"
    using lim by auto
  have "extent S ?f (A @ B) + extent S ?a [D] + (8 + rbALIGN_SIZE k) \<le> S"
    using E lim * e \<open>?a \<noteq> ?f \<Longrightarrow> _\<close> by (auto split: if_splits)
  then show "parts_fit S (extent S ?f (A @ B)) ?a [D] 0 k"
    unfolding parts_fit_def sp0 using la a * by (auto simp: pos_ok_def)
qed

section \<open>The copy\<close>

text \<open>The last part is written at the acquire pointer, which then moves behind it.\<close>

definition write_last_part :: "Ringbuffer_t \<Rightarrow> byte list \<Rightarrow> nat \<Rightarrow> nat \<Rightarrow> Ringbuffer_t option" where
  "write_last_part rb1 item isz asz = do {
     m1 \<leftarrow> set_item_len (storage rb1) (pucAcquire rb1) isz;
     m2 \<leftarrow> set_item_flags m1 (pucAcquire rb1) 0;
     let acq = wrap32 (pucAcquire rb1 + rbHEADER_SIZE);
     m3 \<leftarrow> memcpy m2 acq item isz;
     let rb2 = rb1\<lparr>storage := m3, xItemsWaiting := xItemsWaiting rb1 + 1,
                   pucAcquire := wrap32 (acq + asz)\<rparr>;
     let rb3 = mark_full (wrap_acquire rb2);
     Some (rb3\<lparr>pucWrite := pucAcquire rb3\<rparr>)
   }"

lemma prvCopyItemAllowSplit_alt:
  assumes "pucAcquire rb + 8 \<le> S" "4 dvd pucAcquire rb" "pucHead rb = 0" "pucTail rb = S" "S < 2147483648"
    "rbALIGN_SIZE n + 8 \<le> S"
  shows "prvCopyItemAllowSplit rb bs n =
     (if S - pucAcquire rb < rbALIGN_SIZE n + 8
      then Option.bind (split_first_part rb bs n (rbALIGN_SIZE n) (S - pucAcquire rb))
             (\<lambda>(rb1, item, isz, asz). write_last_part rb1 item isz asz)
      else write_last_part rb bs n (rbALIGN_SIZE n))"
proof -
  have s: "sub32 S (pucAcquire rb) = S - pucAcquire rb" "wrap32 (rbALIGN_SIZE n + rbHEADER_SIZE) = rbALIGN_SIZE n + 8"
    using assms by (simp_all add: sub32_eq wrap32_id rbHEADER_SIZE_def)
  have "8 \<le> S - pucAcquire rb" using assms(1) by simp
  then show ?thesis
    using assms unfolding prvCopyItemAllowSplit_def Let_def assms(4) s
    by (cases "S - pucAcquire rb < rbALIGN_SIZE n + 8")
       (simp_all add: rbHEADER_SIZE_def write_last_part_def [abs_def] Let_def)
qed

lemma write_last_part_ok:
  assumes rb: "pucHead rb = 0" "pucTail rb = S" "length (storage rb) = S" "S < 2147483648"
    and k: "pucAcquire rb + 8 + rbALIGN_SIZE k \<le> S" "k < 2147483648" "k \<le> length bs"
  shows "\<exists>m. length m = S \<and> cell_at S m (pucAcquire rb) (Item k 0 (take k bs)) \<and>
     (\<forall>x < S. x < pucAcquire rb \<or> pucAcquire rb + 8 + rbALIGN_SIZE k \<le> x \<longrightarrow> m ! x = storage rb ! x) \<and>
     write_last_part rb bs k (rbALIGN_SIZE k) =
       Some (let q = wrap_pos S (pucAcquire rb + cell_span S (pucAcquire rb) (Item k 0 (take k bs)))
             in rb\<lparr>storage := m, xItemsWaiting := xItemsWaiting rb + 1, pucAcquire := q,
                   uxRingbufferFlags := (if q = pucFree rb
                     then set_flag (uxRingbufferFlags rb) rbBUFFER_FULL_FLAG else uxRingbufferFlags rb),
                   pucWrite := q\<rparr>)"
proof -
  let ?a = "pucAcquire rb"
  obtain m1 m2 m3 where m: "set_item_len (storage rb) ?a k = Some m1" "set_item_flags m1 ?a 0 = Some m2"
    "memcpy m2 (?a + 8) bs k = Some m3" "length m3 = S" "cell_at S m3 ?a (Item k 0 (take k bs))"
    "\<forall>x < S. x < ?a \<or> ?a + 8 + rbALIGN_SIZE k \<le> x \<longrightarrow> m3 ! x = storage rb ! x"
    using write_item_ok [OF rb(3) k] by blast
  have w: "wrap32 (?a + rbHEADER_SIZE) = ?a + 8" "wrap32 (?a + 8 + rbALIGN_SIZE k) = ?a + 8 + rbALIGN_SIZE k"
    using k(1) rb(4) by (simp_all add: wrap32_id rbHEADER_SIZE_def)
  define Q where "Q = ?a + 8 + rbALIGN_SIZE k"
  have q: "(if S - Q < 8 then 0 else Q) =
      wrap_pos S (?a + cell_span S ?a (Item k 0 (take k bs)))"
    using k(1) by (auto simp: wrap_pos_def Q_def)
  have QS: "Q \<le> S" using k(1) by (simp add: Q_def)
  let ?rb = "rb\<lparr>storage := m3, xItemsWaiting := xItemsWaiting rb + 1\<rparr>"
  have "sub32 S Q = S - Q" using QS rb(4) by (simp add: sub32_eq)
  then have mf: "mark_full (wrap_acquire (?rb\<lparr>pucAcquire := Q\<rparr>)) =
     (let q = (if S - Q < 8 then 0 else Q)
      in ?rb\<lparr>pucAcquire := q,
            uxRingbufferFlags := (if q = pucFree rb
              then set_flag (uxRingbufferFlags rb) rbBUFFER_FULL_FLAG else uxRingbufferFlags rb)\<rparr>)"
    using rb(1,2) by (simp add: mark_full_def wrap_acquire_def rbHEADER_SIZE_def Let_def)
  have "write_last_part rb bs k (rbALIGN_SIZE k) =
       Some (let rb3 = mark_full (wrap_acquire (?rb\<lparr>pucAcquire := Q\<rparr>))
             in rb3\<lparr>pucWrite := pucAcquire rb3\<rparr>)"
    unfolding write_last_part_def w using m(1-3) by (simp add: w Q_def Let_def)
  also have "\<dots> = Some (let q = wrap_pos S (?a + cell_span S ?a (Item k 0 (take k bs)))
             in rb\<lparr>storage := m3, xItemsWaiting := xItemsWaiting rb + 1, pucAcquire := q,
                   uxRingbufferFlags := (if q = pucFree rb
                     then set_flag (uxRingbufferFlags rb) rbBUFFER_FULL_FLAG else uxRingbufferFlags rb),
                   pucWrite := q\<rparr>)"
    unfolding mf q by (simp add: Let_def del: cell_span.simps)
  finally show ?thesis using m(4-6) by blast
qed

lemma first_part_messages:
  assumes "first_part S a bs n D bs' k" "n \<le> length bs" "a + 8 \<le> S"
    "S - a - 8 < n"
  shows "k \<le> length bs'" "messages [D, Item k 0 (take k bs')] = Some [take n bs]"
proof -
  have tk: "take j bs @ take (n - j) (drop j bs) = take n bs" if "j \<le> n" for j
    using that by (metis add_diff_inverse_nat not_less take_add)
  from assms(1) show "k \<le> length bs'"
    unfolding first_part_def using assms(2) by (elim disjE conjE) simp_all
  from assms(1) show "messages [D, Item k 0 (take k bs')] = Some [take n bs]"
    unfolding first_part_def
  proof (elim disjE conjE)
    assume *: "D = Item (S - a - 8) 4 (take (S - a - 8) bs)" "a + 8 < S" "bs' = drop (S - a - 8) bs"
      "k = n - (S - a - 8)"
    show ?thesis unfolding * using tk [of "S - a - 8"] assms(4) * by simp
  qed simp
qed

text \<open>The state before the last part is written.\<close>

definition before_last ::
  "nat \<Rightarrow> Ringbuffer_t \<Rightarrow> nat \<Rightarrow> nat \<Rightarrow> byte list \<Rightarrow> Ringbuffer_t \<Rightarrow> cell list \<Rightarrow> nat \<Rightarrow> byte list \<Rightarrow> bool" where
  "before_last S rb E n bs rb1 D k bs' \<longleftrightarrow>
     prvCopyItemAllowSplit rb bs n = write_last_part rb1 bs' k (rbALIGN_SIZE k) \<and>
     rb1 = rb\<lparr>storage := storage rb1, xItemsWaiting := xItemsWaiting rb + int (length (filter is_item D)),
              pucAcquire := pucAcquire rb1\<rparr> \<and>
     length (storage rb1) = S \<and> chain S (storage rb1) (pucAcquire rb) D (pucAcquire rb1) \<and>
     parts_fit S E (pucAcquire rb) D (pucAcquire rb1) k \<and> k < 2147483648 \<and>
     (\<forall>x < S. \<not> in_ring S (pucAcquire rb) (extent S (pucAcquire rb) D) x \<longrightarrow>
        storage rb1 ! x = storage rb ! x) \<and>
     k \<le> length bs' \<and> messages (D @ [Item k 0 (take k bs')]) = Some [take n bs] \<and>
     (\<forall>c \<in> set (D @ [Item k 0 (take k bs')]). fresh_cell True (max_item S True) c)"

lemma before_last_ok:
  assumes inv: "rb_inv S True rb A B" and n: "n \<le> max_item S True"
    and fits: "prvCheckItemFitsDefault rb n = Some True" and bs: "n \<le> length bs"
  shows "\<exists>rb1 D k bs'. before_last S rb (extent S (pucFree rb) (A @ B)) n bs rb1 D k bs'"
proof -
  note facts = rb_inv_facts [OF inv]
  let ?a = "pucAcquire rb" and ?E = "extent S (pucFree rb) (A @ B)"
  have a: "4 dvd ?a" "?a + 8 \<le> S" using facts(12) by (auto simp: pos_ok_def)
  note sf = split_fits [OF inv n fits]
  have T: "rbALIGN_SIZE n + 8 \<le> S" using sf(3) by simp
  note alt = prvCopyItemAllowSplit_alt [OF a(2,1) facts(6,5,4) T, of bs]
  show ?thesis
  proof (cases "S - ?a < rbALIGN_SIZE n + 8")
    case False
    then have pf: "parts_fit S ?E ?a [] ?a n" by (intro parts_fit_whole [OF inv n fits]) simp
    have "before_last S rb ?E n bs rb [] n bs"
      unfolding before_last_def using False alt pf sf(1) bs facts(8) n by simp
    then show ?thesis by blast
  next
    case True
    have a0: "0 < ?a" using True sf(3) by (cases ?a) auto
    obtain m D bs' k where sp: "split_first_part rb bs n (rbALIGN_SIZE n) (S - ?a) =
       Some (rb\<lparr>storage := m, xItemsWaiting := xItemsWaiting rb + int (length (filter is_item [D])),
                pucAcquire := 0\<rparr>, bs', k, rbALIGN_SIZE k)"
     "first_part S ?a bs n D bs' k" "length m = S" "chain S m ?a [D] 0"
     "\<forall>x < S. x < ?a \<longrightarrow> m ! x = storage rb ! x"
      using split_first_part_ok [OF facts(6,8,4,2,12) a0 True sf(1) bs] by blast
    note pf = parts_fit_split [OF inv n fits True sp(2)]
    have k4: "4 dvd S - ?a - 8" "S - ?a - 8 < rbALIGN_SIZE n" using a True facts(2) by auto
    have kn: "S - ?a - 8 < n" using split_sizes(1) [OF k4 sf(1)] .
    have e: "?a + extent S ?a [D] = S"
      using chain_end_mod [OF sp(4)] a sp(4) extent_pos [OF sp(4)] cell_span_le [of S m ?a D]
      by (cases "?a + extent S ?a [D] < S") auto
    note ms = first_part_messages [OF sp(2) bs a(2) kn]
    have fc: "\<forall>c \<in> set ([D] @ [Item k 0 (take k bs')]). fresh_cell True (max_item S True) c"
      using sp(2) n kn pf(4) by (auto simp: first_part_def)
    have fr: "\<forall>x < S. \<not> in_ring S ?a (extent S ?a [D]) x \<longrightarrow> m ! x = storage rb ! x"
      using sp(5) unfolding in_ring_def e by auto
    have "before_last S rb ?E n bs (rb\<lparr>storage := m,
        xItemsWaiting := xItemsWaiting rb + int (length (filter is_item [D])), pucAcquire := 0\<rparr>) [D] k bs'"
      unfolding before_last_def using True alt pf sp(1,3,4) fc fr ms by simp
    then show ?thesis by blast
  qed
qed

lemma parts_fit_extent:
  assumes "parts_fit S E a D p k" "chain S m a D p" "a < S" and N: "N = D @ [Item k 0 d]"
  shows "E + extent S a N \<le> S" "extent S a N = extent S a D + cell_span S p (Item k 0 d)"
proof -
  have "p = chain_end S a D" using chain_chain_end [OF assms(2)] .
  then show e: "extent S a N = extent S a D + cell_span S p (Item k 0 d)"
    by (simp add: N extent_append)
  show "E + extent S a N \<le> S" unfolding e using assms(1) by (auto simp: parts_fit_def)
qed

lemma prvCopyItemAllowSplit_ok:
  assumes inv: "rb_inv S True rb A B" and n: "n \<le> max_item S True"
    and fits: "prvCheckItemFitsDefault rb n = Some True" and bs: "n \<le> length bs"
  shows "\<exists>rb' N. prvCopyItemAllowSplit rb bs n = Some rb' \<and>
     rb_inv S True rb' A (B @ N) \<and> messages N = Some [take n bs] \<and>
     pucFree rb' = pucFree rb \<and> pucRead rb' = pucRead rb \<and> xQueueSet rb' = xQueueSet rb \<and>
     xTasksWaitingToReceive rb' = xTasksWaitingToReceive rb \<and>
     xTasksWaitingToSend rb' = xTasksWaitingToSend rb"
proof -
  note facts = rb_inv_facts [OF inv]
  let ?a = "pucAcquire rb" and ?E = "extent S (pucFree rb) (A @ B)"
  have a: "?a < S" "?a + 8 \<le> S" using facts(12) by (auto simp: pos_ok_def)
  obtain rb1 D k bs' where bl: "before_last S rb ?E n bs rb1 D k bs'"
    using before_last_ok [OF inv n fits bs] by blast
  let ?p = "pucAcquire rb1" and ?I = "Item k 0 (take k bs')"
  let ?N = "D @ [?I]"
  have first: "prvCopyItemAllowSplit rb bs n = write_last_part rb1 bs' k (rbALIGN_SIZE k)"
    "rb1 = rb\<lparr>storage := storage rb1, xItemsWaiting := xItemsWaiting rb + int (length (filter is_item D)),
              pucAcquire := ?p\<rparr>"
    "length (storage rb1) = S" "chain S (storage rb1) ?a D ?p" "parts_fit S ?E ?a D ?p k" "k < 2147483648"
    "\<forall>x < S. \<not> in_ring S ?a (extent S ?a D) x \<longrightarrow> storage rb1 ! x = storage rb ! x"
    "k \<le> length bs'" "messages ?N = Some [take n bs]"
    "\<forall>c \<in> set ?N. fresh_cell True (max_item S True) c"
    using bl unfolding before_last_def by blast+
  have same: "pucHead rb1 = 0" "pucTail rb1 = S" "pucFree rb1 = pucFree rb"
    "uxRingbufferFlags rb1 = uxRingbufferFlags rb"
    "xItemsWaiting rb1 = xItemsWaiting rb + int (length (filter is_item D))"
    by (subst first(2), simp add: facts)+
  have fit: "?p + 8 + rbALIGN_SIZE k \<le> S" "pos_ok S ?p"
    "D \<noteq> [] \<longrightarrow> ?p = 0 \<and> 8 + rbALIGN_SIZE k \<le> ?a" "D = [] \<longrightarrow> ?p = ?a"
    using first(5) by (auto simp: parts_fit_def)
  note pe = parts_fit_extent [OF first(5,4) a(1) refl, of "take k bs'"]
  let ?q = "wrap_pos S (?p + cell_span S ?p ?I)"
  obtain m where m: "length m = S" "cell_at S m ?p ?I"
     "\<forall>x < S. x < ?p \<or> ?p + 8 + rbALIGN_SIZE k \<le> x \<longrightarrow> m ! x = storage rb1 ! x"
     "write_last_part rb1 bs' k (rbALIGN_SIZE k) =
       Some (rb1\<lparr>storage := m, xItemsWaiting := xItemsWaiting rb1 + 1, pucAcquire := ?q,
                   uxRingbufferFlags := (if ?q = pucFree rb1
                     then set_flag (uxRingbufferFlags rb1) rbBUFFER_FULL_FLAG else uxRingbufferFlags rb1),
                   pucWrite := ?q\<rparr>)"
    using write_last_part_ok [OF same(1,2) first(3) facts(4) fit(1) first(6,8)] unfolding Let_def by blast
  have eD: "?a + extent S ?a D = S" if "D \<noteq> []"
    using chain_end_mod [OF first(4) a(1)] fit(3) pe a that extent_pos [OF first(4)]
    by (cases "?a + extent S ?a D < S")
       (auto simp: mod_if [of "?a + extent S ?a D"] simp del: cell_span.simps split: if_splits)
  have chD: "chain S m ?a D ?p"
  proof (rule chain_frame [OF first(4) a(1) _ first(3) m(1)])
    show "m ! x = storage rb1 ! x" if "in_ring S ?a (extent S ?a D) x" for x
    proof -
      have "D \<noteq> []" using that a(1) by (auto simp: in_ring_def)
      then have "?p + 8 + rbALIGN_SIZE k \<le> x"
        using that fit(3) eD by (auto simp: in_ring_def simp del: cell_span.simps)
      then show ?thesis using m(3) that by (auto simp: in_ring_def)
    qed
  qed (use pe in simp)
  have chN: "chain S m ?a ?N ?q"
    unfolding chain_append using chD m(2) by (auto simp del: cell_at.simps cell_span.simps)
  have span: "8 + rbALIGN_SIZE k \<le> cell_span S ?p ?I" using fit(1) by auto
  let ?rb' = "rb\<lparr>storage := m, pucAcquire := ?q, pucWrite := ?q,
         xItemsWaiting := xItemsWaiting rb + int (length (filter is_item ?N)),
         uxRingbufferFlags := (if ?q = pucFree rb
           then set_flag (uxRingbufferFlags rb) rbBUFFER_FULL_FLAG else uxRingbufferFlags rb)\<rparr>"
  have inv': "rb_inv S True ?rb' A (B @ ?N)"
  proof (rule rb_inv_append [OF inv m(1) _ chN])
    show "m ! x = storage rb ! x" if "x < S" "\<not> in_ring S ?a (extent S ?a ?N) x" for x
    proof -
      have "\<not> in_ring S ?a (extent S ?a D) x" "x < ?p \<or> ?p + 8 + rbALIGN_SIZE k \<le> x"
        using that fit(3,4) span pe(2) a(1) eD by (auto simp: in_ring_def simp del: cell_span.simps)
      then show ?thesis using m(3) first(7) that(1) by metis
    qed
    obtain ms where ms: "messages B = Some ms" using inv by (auto simp: rb_inv_def)
    show "messages (B @ ?N) \<noteq> None" using messages_append_whole [OF ms, of ?N] first(9) by simp
    show "\<forall>c \<in> set ?N. fresh_cell True (max_item S True) c" by fact
  qed (use pe in simp_all)
  have eq: "?rb' = rb1\<lparr>storage := m, xItemsWaiting := xItemsWaiting rb1 + 1, pucAcquire := ?q,
                   uxRingbufferFlags := (if ?q = pucFree rb1
                     then set_flag (uxRingbufferFlags rb1) rbBUFFER_FULL_FLAG else uxRingbufferFlags rb1),
                   pucWrite := ?q\<rparr>"
    unfolding same by (subst first(2), rule Ringbuffer_t.equality) (simp_all del: cell_span.simps)
  have "prvCopyItemAllowSplit rb bs n = Some ?rb'"
    unfolding first(1) m(4) eq ..
  then show ?thesis
    using inv' first(9) by (intro exI [of _ ?rb'] exI [of _ ?N] conjI) (assumption | simp)+
qed

end
