(* ===== verification/Ringbuf_Session.thy ===== *)
theory Ringbuf_Session
  imports Ringbuf_Queue Ringbuf_Split "HOL-Library.Multiset"
begin

text \<open>
  The public calls on a no-split or allow-split buffer, seen as operations of the queue of
  messages, and sessions of a producer and a consumer on one buffer.
\<close>

section \<open>The task lists do not matter\<close>

definition same_ring :: "Ringbuffer_t \<Rightarrow> Ringbuffer_t \<Rightarrow> bool" where
  "same_ring rb' rb \<longleftrightarrow>
     rb' = rb\<lparr>xTasksWaitingToSend := xTasksWaitingToSend rb',
             xTasksWaitingToReceive := xTasksWaitingToReceive rb'\<rparr>"

lemma rb_core_tasks: "rb_core S split (rb\<lparr>xTasksWaitingToSend := ws, xTasksWaitingToReceive := wr\<rparr>) A B \<longleftrightarrow>
    rb_core S split rb A B"
  by (simp add: rb_core_def rb_static_def is_full_def)

lemma rb_queue_same_ring:
  assumes "same_ring rb' rb" shows "rb_queue S split rb' A q \<longleftrightarrow> rb_queue S split rb A q"
    "pucFree rb' = pucFree rb" "storage rb' = storage rb"
proof -
  from assms have e: "rb' = rb\<lparr>xTasksWaitingToSend := xTasksWaitingToSend rb',
             xTasksWaitingToReceive := xTasksWaitingToReceive rb'\<rparr>" by (simp only: same_ring_def)
  show "rb_queue S split rb' A q \<longleftrightarrow> rb_queue S split rb A q"
    by (subst e) (simp add: rb_queue_def rb_inv_def rb_core_tasks)
  show "pucFree rb' = pucFree rb" "storage rb' = storage rb" by (subst e, simp)+
qed

lemma same_ring_notify:
  "same_ring (fst (notify_receiver sc rb)) rb" "same_ring (fst (notify_sender sc rb)) rb"
  by (simp_all add: same_ring_def notify_receiver_def notify_sender_def split: option.splits prod.splits)

section \<open>Creation\<close>

lemma rb_queue_empty: "rb_core S split rb A [] \<Longrightarrow> rb_queue S split rb A []"
  unfolding rb_queue_def rb_inv_def by (intro exI [of _ "[]"]) simp

lemma rb_queue_new:
  assumes "size_ok S" "length st = S"
  shows "ty = RINGBUF_TYPE_NOSPLIT \<Longrightarrow> rb_queue S False (prvInitializeNewRingbuffer S ty st) [] []"
    "ty = RINGBUF_TYPE_ALLOWSPLIT \<Longrightarrow> rb_queue S True (prvInitializeNewRingbuffer S ty st) [] []"
proof -
  have a: "sub32 (rbALIGN_SIZE (S div 2)) 8 = rbALIGN_SIZE (S div 2) - 8"
    using max_item_nosplit [OF assms(1)] assms(1) by (intro sub32_eq) (auto simp: size_ok_def)
  have b: "sub32 S 16 = S - 16" using assms(1) by (intro sub32_eq) (auto simp: size_ok_def)
  show "rb_queue S False (prvInitializeNewRingbuffer S ty st) [] []" if "ty = RINGBUF_TYPE_NOSPLIT"
    using assms that a
    by (intro rb_queue_empty) (simp add: rb_core_def rb_static_def prvInitializeNewRingbuffer_def
        is_full_bit max_item_def rbHEADER_SIZE_def pos_ok_def size_ok_def)
  show "rb_queue S True (prvInitializeNewRingbuffer S ty st) [] []" if "ty = RINGBUF_TYPE_ALLOWSPLIT"
    using assms that b
    by (intro rb_queue_empty) (simp add: rb_core_def rb_static_def prvInitializeNewRingbuffer_def
        is_full_bit max_item_def rbHEADER_SIZE_def pos_ok_def size_ok_def rb_flag_defs)
qed

section \<open>Sending\<close>

text \<open>Buffers in which a send cannot lose the write pointer.\<close>

definition size_for :: "bool \<Rightarrow> nat \<Rightarrow> bool" where
  "size_for split S \<longleftrightarrow> split \<or> 8 dvd S"

lemma fits_total:
  assumes "rb_core S split rb A B"
  shows "\<exists>b. prvCheckItemFitsDefault rb n = Some b"
proof -
  have "4 dvd pucAcquire rb" "pucHead rb = 0" "pucAcquire rb < pucTail rb"
    using rb_core_facts(5,6,12) [OF assms] by (auto simp: pos_ok_def)
  then show ?thesis by (simp add: prvCheckItemFitsDefault_def Let_def)
qed

lemma rb_core_static: "rb_core S split rb A B \<Longrightarrow> rb_static S split rb"
  by (simp add: rb_core_def)

lemma copy_ok:
  assumes q: "rb_queue S split rb A q" and S: "size_for split S" and n: "n \<le> max_item S split" "n \<le> length bs"
    and fits: "call_xCheckItemFits rb n = Some True"
  shows "\<exists>rb'. call_vCopyItem rb bs n = Some rb' \<and> rb_queue S split rb' A (q @ [take n bs]) \<and>
     pucFree rb' = pucFree rb"
proof -
  obtain B where B: "rb_inv S split rb A B" "messages B = Some q" using q by (auto simp: rb_queue_def)
  have st: "rb_static S split rb" using B(1) by (simp add: rb_inv_def rb_core_def)
  have f: "prvCheckItemFitsDefault rb n = Some True"
    using fits st by (simp add: call_xCheckItemFits_def rb_static_def)
  show ?thesis
  proof (cases split)
    case True
    obtain rb' N where "prvCopyItemAllowSplit rb bs n = Some rb'" "rb_inv S True rb' A (B @ N)"
      "messages N = Some [take n bs]" "pucFree rb' = pucFree rb"
      using prvCopyItemAllowSplit_ok [of S rb A B n bs] B(1) n f True by auto
    then show ?thesis
      using st True messages_append_whole [OF B(2), of N]
      by (auto simp: call_vCopyItem_def rb_static_def rb_queue_def)
  next
    case False
    obtain rb' D where "prvCopyItemNoSplit rb bs n = Some rb'"
      "rb_inv S False rb' A (B @ D @ [Item n 8 (take n bs)])" "D = [] \<or> D = [Dummy 10]"
      "pucFree rb' = pucFree rb"
      using prvCopyItemNoSplit_ok [of S rb A B n bs] B(1) n f False S by (auto simp: size_for_def)
    moreover have "messages (D @ [Item n 8 (take n bs)]) = Some [take n bs]"
      using \<open>D = [] \<or> D = [Dummy 10]\<close> by auto
    ultimately show ?thesis
      using st False messages_append_whole [OF B(2), of "D @ [Item n 8 (take n bs)]"]
      by (auto simp: call_vCopyItem_def rb_static_def rb_queue_def)
  qed
qed

text \<open>A send either appends the message or leaves the buffer as it is.\<close>

lemma send_isr_ok:
  assumes q: "rb_queue S split rb A q" and S: "size_for split S" and bs: "n \<le> length bs"
  shows "\<exists>rb' es ok. xRingbufferSendFromISR sc bs n rb = Some (rb', es, ok) \<and>
     (if ok then rb_queue S split rb' A (q @ [take n bs]) else rb' = rb) \<and> pucFree rb' = pucFree rb"
proof -
  obtain B where B: "rb_inv S split rb A B" using q by (auto simp: rb_queue_def)
  have st: "rb_static S split rb" and core: "rb_core S split rb A B"
    using B by (auto simp: rb_inv_def rb_core_def)
  have nb: "\<not> has_flag (uxRingbufferFlags rb) rbBYTE_BUFFER_FLAG" "xMaxItemSize rb = max_item S split"
    using st by (simp_all add: rb_static_def rbBYTE_BUFFER_FLAG_def)
  obtain b where b: "call_xCheckItemFits rb n = Some b"
    using fits_total [OF core] st by (auto simp: call_xCheckItemFits_def rb_static_def)
  show ?thesis
  proof (cases "n \<le> max_item S split \<and> b")
    case True
    obtain rb1 where r: "call_vCopyItem rb bs n = Some rb1" "rb_queue S split rb1 A (q @ [take n bs])"
      "pucFree rb1 = pucFree rb"
      using copy_ok [OF q S _ bs] b True by auto
    obtain rb2 es where rb2: "notify_receiver sc rb1 = (rb2, es)" by fastforce
    then have sr: "same_ring rb2 rb1" using same_ring_notify(1) [of sc rb1] by simp
    have "xRingbufferSendFromISR sc bs n rb = Some (rb2, es, True)"
      using nb b r(1) rb2 True by (simp add: xRingbufferSendFromISR_def)
    then show ?thesis using rb_queue_same_ring [OF sr] r(2,3) by auto
  next
    case False
    then have "xRingbufferSendFromISR sc bs n rb = Some (rb, [], False)"
      using nb b by (auto simp: xRingbufferSendFromISR_def)
    then show ?thesis by auto
  qed
qed

section \<open>Receiving and returning\<close>

lemma messages_item_nonempty: "messages (Item n f d # B) \<noteq> Some []"
  by (cases "bit f 2"; cases B) (auto split: cell.splits)

lemma receive_isr_ok:
  assumes q: "rb_queue S split rb A q" and want: "split \<longrightarrow> want2"
  shows "\<exists>rb' r. prvReceiveGenericFromISR want2 k rb = Some (rb', r) \<and>
     (case r of
        None \<Rightarrow> q = [] \<and> rb' = rb
      | Some w \<Rightarrow> q \<noteq> [] \<and> read_received (storage rb') w = Some (hd q) \<and> pucFree rb' = pucFree rb \<and>
          (\<exists>C. rb_queue S split rb' (A @ C) (tl q) \<and> (\<forall>a \<in> parts w. held_at S (pucFree rb') (A @ C) a) \<and>
               length (filter (\<lambda>c. \<not> freed c) C) = (if snd w = None then 1 else 2) \<and>
               (\<not> split \<longrightarrow> snd w = None) \<and>
               (snd w = None \<longrightarrow> held_addrs S (chain_end S (pucFree rb') A) C = [fst (fst w)])))"
proof -
  obtain B where B: "rb_inv S split rb A B" "messages B = Some q" using q by (auto simp: rb_queue_def)
  note av = prvCheckItemAvail_iff [OF B(1)]
  show ?thesis
  proof (cases q)
    case Nil
    have "B = []"
    proof (rule ccontr)
      assume "B \<noteq> []"
      then obtain n f d B' where "B = Item n f d # B' \<or> (\<exists>g. B = Dummy g # Item n f d # B')"
        using messages_Cons_item [of B] B(2) by auto
      then have "messages (Item n f d # B') = Some []" using B(2) Nil by (auto simp del: messages.simps(3))
      then show False using messages_item_nonempty by blast
    qed
    then show ?thesis using av Nil by (simp add: prvReceiveGenericFromISR_def)
  next
    case (Cons x q')
    have "B \<noteq> []" using B(2) Cons by auto
    moreover obtain rb' r C where "receive_now want2 k rb = Some (rb', r)"
      "read_received (storage rb') r = Some x" "rb_queue S split rb' (A @ C) q'" "pucFree rb' = pucFree rb"
      "\<forall>a \<in> parts r. held_at S (pucFree rb') (A @ C) a"
      "length (filter (\<lambda>c. \<not> freed c) C) = (if snd r = None then 1 else 2)" "\<not> split \<longrightarrow> snd r = None"
      "snd r = None \<longrightarrow> held_addrs S (chain_end S (pucFree rb') A) C = [fst (fst r)]"
      using receive_now_ok [OF B(1) B(2) [unfolded Cons] want, of k] by (elim exE conjE) (rule that; assumption)
    ultimately show ?thesis
      using av Cons by (intro exI [of _ rb'] exI [of _ "Some r"]) (auto simp: prvReceiveGenericFromISR_def)
  qed
qed

text \<open>Returning keeps every message that is still to be received.\<close>

lemma return_isr_ok:
  assumes q: "rb_queue S split rb (A1 @ Item n f d # A2) q" and held: "\<not> bit f 0"
    and last: "extent S (pucFree rb) (A1 @ Item n f d # A2) < S \<or> (\<forall>c \<in> set A1 \<union> set A2. freed c)"
  shows "\<exists>rb' es w'. vRingbufferReturnItemFromISR sc (chain_end S (pucFree rb) A1 + 8) w rb = Some (rb', es, w') \<and>
     rb_queue S split rb' (dropWhile freed (A1 @ free_flag (Item n f d) # A2)) q \<and>
     (extent S (pucFree rb) (A1 @ Item n f d # A2) < S \<longrightarrow>
        pucFree rb' = chain_end S (pucFree rb) (takeWhile freed (A1 @ free_flag (Item n f d) # A2)))"
proof -
  obtain B where B: "rb_inv S split rb (A1 @ Item n f d # A2) B" "messages B = Some q"
    using q by (auto simp: rb_queue_def)
  have st: "vReturnItem rb = ReturnItemDefault"
    using B(1) unfolding rb_inv_def rb_core_def rb_static_def by blast
  obtain rb1 where r: "prvReturnItemDefault rb (chain_end S (pucFree rb) A1 + 8) = Some rb1"
    "rb_inv S split rb1 (dropWhile freed (A1 @ free_flag (Item n f d) # A2)) B"
    "extent S (pucFree rb) (A1 @ Item n f d # A2) < S \<longrightarrow>
       pucFree rb1 = chain_end S (pucFree rb) (takeWhile freed (A1 @ free_flag (Item n f d) # A2))"
    using prvReturnItemDefault_ok [OF B(1) held last] by blast
  have q1: "rb_queue S split rb1 (dropWhile freed (A1 @ free_flag (Item n f d) # A2)) q"
    using r(2) B(2) unfolding rb_queue_def by blast
  obtain rb2 es where rb2: "notify_sender sc rb1 = (rb2, es)" by fastforce
  then have sr: "same_ring rb2 rb1" using same_ring_notify(2) [of sc rb1] by simp
  have "vRingbufferReturnItemFromISR sc (chain_end S (pucFree rb) A1 + 8) w rb =
      Some (rb2, filter (\<lambda>e. e \<noteq> Yield) es, w \<or> Yield \<in> set es)"
    using r(1) rb2 st by (simp add: vRingbufferReturnItemFromISR_def call_vReturnItem_def)
  then show ?thesis using rb_queue_same_ring(1,2) [OF sr] q1 r(3) by simp
qed

section \<open>Sessions\<close>

text \<open>
  A producer sends whole byte strings and a consumer receives and returns items, in any order: it may hold
  several items of a no-split buffer and return any of them.  A byte buffer itself refuses a receive while an
  item is held.  The session records what the buffer accepted, what the consumer read, and the items it holds.
\<close>

record session =
  ses_buf :: Ringbuffer_t
  accepted :: "byte list list"
  delivered :: "byte list list"
  outstanding :: "nat list"

datatype session_op = OpSend "byte list" | OpReceive | OpReturn nat

text \<open>\<open>OpReturn i\<close> returns item \<open>i\<close> of those that are held; without such an item there is nothing to call.\<close>

definition without :: "nat \<Rightarrow> 'a list \<Rightarrow> 'a list" where
  "without i xs = take i xs @ drop (Suc i) xs"

fun session_step :: "sched \<Rightarrow> session_op \<Rightarrow> session \<Rightarrow> session option" where
  "session_step sc (OpSend bs) s = do {
     (rb, es, ok) \<leftarrow> xRingbufferSendFromISR sc bs (length bs) (ses_buf s);
     Some (s\<lparr>ses_buf := rb, accepted := accepted s @ (if ok then [bs] else [])\<rparr>)
   }"
| "session_step sc OpReceive s = do {
     (rb, r) \<leftarrow> xRingbufferReceiveFromISR (ses_buf s);
     case r of
       None \<Rightarrow> Some (s\<lparr>ses_buf := rb\<rparr>)
     | Some w \<Rightarrow> do {
         d \<leftarrow> read_received (storage rb) w;
         Some (s\<lparr>ses_buf := rb, delivered := delivered s @ [d], outstanding := outstanding s @ [fst (fst w)]\<rparr>)
       }
   }"
| "session_step sc (OpReturn i) s =
     (if i < length (outstanding s)
      then do {
        (rb, es, w) \<leftarrow> vRingbufferReturnItemFromISR sc (outstanding s ! i) False (ses_buf s);
        Some (s\<lparr>ses_buf := rb, outstanding := without i (outstanding s)\<rparr>)
      }
      else Some s)"

fun run_session :: "sched \<Rightarrow> session_op list \<Rightarrow> session \<Rightarrow> session option" where
  "run_session sc [] s = Some s"
| "run_session sc (a # as) s = Option.bind (session_step sc a s) (run_session sc as)"

definition new_session :: "RingbufferType_t \<Rightarrow> nat \<Rightarrow> byte list \<Rightarrow> session" where
  "new_session ty S st =
     \<lparr>ses_buf = prvInitializeNewRingbuffer S ty st, accepted = [], delivered = [],
      outstanding = []\<rparr>"

text \<open>The items that are held fill the whole ring.  When there are several, a return frees them all
  (Theorem \<open>return_of_first_part_frees_the_second\<close>); a careful consumer never returns one of several then.\<close>

definition held_fill_ring :: "Ringbuffer_t \<Rightarrow> bool" where
  "held_fill_ring rb \<longleftrightarrow> is_full rb \<and> xItemsWaiting rb = 0"

fun careful_op :: "(Ringbuffer_t \<Rightarrow> bool) \<Rightarrow> session_op \<Rightarrow> session \<Rightarrow> bool" where
  "careful_op danger (OpReturn i) s = (length (outstanding s) \<le> 1 \<or> \<not> danger (ses_buf s))"
| "careful_op danger _ s = True"

fun careful_run :: "(Ringbuffer_t \<Rightarrow> bool) \<Rightarrow> sched \<Rightarrow> session_op list \<Rightarrow> session \<Rightarrow> bool" where
  "careful_run danger sc [] s = True"
| "careful_run danger sc (a # as) s =
     (careful_op danger a s \<and> (case session_step sc a s of None \<Rightarrow> True | Some s' \<Rightarrow> careful_run danger sc as s'))"

lemma careful_without_danger: "careful_run (\<lambda>rb. False) sc as s"
proof (induction as arbitrary: s)
  case (Cons a as)
  then show ?case by (cases a) (auto split: option.split)
qed simp

section \<open>The queue interface of the buffer types\<close>

text \<open>
  What sessions need of a buffer type: a relation between the buffer, the items that the
  consumer holds, and the list of what is still to be received.  \<open>items\<close> says what one send
  adds to the list: one message for a no-split buffer, its bytes for a byte buffer.  \<open>refuses\<close> says for which
  held items a receive is refused, \<open>danger\<close> when one of several held items must not be returned.
\<close>

locale fifo_buffer =
  fixes holds :: "Ringbuffer_t \<Rightarrow> nat list \<Rightarrow> 'a list \<Rightarrow> bool"
    and items :: "byte list \<Rightarrow> 'a list"
    and refuses :: "nat list \<Rightarrow> bool"
    and danger :: "Ringbuffer_t \<Rightarrow> bool"
  assumes send: "holds rb held q \<Longrightarrow>
      \<exists>rb' es ok. xRingbufferSendFromISR sc bs (length bs) rb = Some (rb', es, ok) \<and>
        holds rb' held (if ok then q @ items bs else q)"
    and receive: "holds rb held q \<Longrightarrow>
      \<exists>rb' r. xRingbufferReceiveFromISR rb = Some (rb', r) \<and>
        (case r of
           None \<Rightarrow> (q = [] \<or> refuses held) \<and> holds rb' held q
         | Some w \<Rightarrow> \<exists>d q'. read_received (storage rb') w = Some d \<and> items d \<noteq> [] \<and> \<not> refuses held \<and> q = items d @ q' \<and>
                       holds rb' (held @ [fst (fst w)]) q')"
    and return: "holds rb held q \<Longrightarrow> i < length held \<Longrightarrow> length held \<le> 1 \<or> \<not> danger rb \<Longrightarrow>
      \<exists>rb' es w. vRingbufferReturnItemFromISR sc (held ! i) False rb = Some (rb', es, w) \<and> holds rb' (without i held) q"
begin

definition session_ok :: "session \<Rightarrow> bool" where
  "session_ok s \<longleftrightarrow>
     (\<exists>q. holds (ses_buf s) (outstanding s) q \<and>
          concat (map items (accepted s)) = concat (map items (delivered s)) @ q)"

lemma session_step_ok:
  assumes "session_ok s" and "careful_op danger a s"
  shows "\<exists>s'. session_step sc a s = Some s' \<and> session_ok s'"
proof -
  obtain q where q: "holds (ses_buf s) (outstanding s) q"
    "concat (map items (accepted s)) = concat (map items (delivered s)) @ q"
    using assms(1) by (auto simp: session_ok_def)
  show ?thesis
  proof (cases a)
    case (OpSend bs)
    obtain rb es ok where r: "xRingbufferSendFromISR sc bs (length bs) (ses_buf s) = Some (rb, es, ok)"
      "holds rb (outstanding s) (if ok then q @ items bs else q)"
      using send [OF q(1)] by blast
    let ?s = "s\<lparr>ses_buf := rb, accepted := accepted s @ (if ok then [bs] else [])\<rparr>"
    have "session_ok ?s"
      unfolding session_ok_def using q(2) r(2) by (intro exI [of _ "if ok then q @ items bs else q"]) simp
    then show ?thesis using OpSend r(1) by simp
  next
    case OpReceive
    obtain rb r where r: "xRingbufferReceiveFromISR (ses_buf s) = Some (rb, r)"
      "case r of
         None \<Rightarrow> (q = [] \<or> refuses (outstanding s)) \<and> holds rb (outstanding s) q
       | Some w \<Rightarrow> \<exists>d q'. read_received (storage rb) w = Some d \<and> items d \<noteq> [] \<and> \<not> refuses (outstanding s) \<and>
                     q = items d @ q' \<and> holds rb (outstanding s @ [fst (fst w)]) q'"
      using receive [OF q(1)] by blast
    then show ?thesis
    proof (cases r)
      case None
      then have "session_ok (s\<lparr>ses_buf := rb\<rparr>)"
        unfolding session_ok_def using q(2) r(2) by (intro exI [of _ q]) auto
      then show ?thesis using OpReceive r(1) None by simp
    next
      case (Some w)
      then obtain d q' where d: "read_received (storage rb) w = Some d" "q = items d @ q'"
        "holds rb (outstanding s @ [fst (fst w)]) q'" using r(2) by auto
      then have "session_ok (s\<lparr>ses_buf := rb, delivered := delivered s @ [d], outstanding := outstanding s @ [fst (fst w)]\<rparr>)"
        unfolding session_ok_def using q(2) by (intro exI [of _ q']) simp
      then show ?thesis using OpReceive r(1) Some d(1) by simp
    qed
  next
    case (OpReturn i)
    show ?thesis
    proof (cases "i < length (outstanding s)")
      case True
      have "length (outstanding s) \<le> 1 \<or> \<not> danger (ses_buf s)" using assms(2) OpReturn by simp
      then obtain rb es w where r: "vRingbufferReturnItemFromISR sc (outstanding s ! i) False (ses_buf s) = Some (rb, es, w)"
        "holds rb (without i (outstanding s)) q" using return [OF q(1) True] by metis
      then have "session_ok (s\<lparr>ses_buf := rb, outstanding := without i (outstanding s)\<rparr>)"
        unfolding session_ok_def using q(2) by (intro exI [of _ q]) simp
      then show ?thesis using OpReturn True r(1) by simp
    qed (use OpReturn assms(1) in simp)
  qed
qed

text \<open>No session gets stuck or traps, and what was delivered is what was accepted, in order; the next receive
  hands out the first of what is missing, unless it is refused because of what is held.\<close>

lemma run_session_ok:
  "session_ok s \<Longrightarrow> careful_run danger sc as s \<Longrightarrow> \<exists>s'. run_session sc as s = Some s' \<and> session_ok s'"
proof (induction as arbitrary: s)
  case (Cons a as)
  obtain s' where "session_step sc a s = Some s'" "session_ok s'"
    using session_step_ok [OF Cons.prems(1), of a sc] Cons.prems(2) by auto
  then show ?case using Cons.IH [of s'] Cons.prems(2) by simp
qed simp

lemma nothing_is_lost:
  assumes "session_ok s" and "careful_run danger sc as s"
  shows "\<exists>s' q rb r. run_session sc as s = Some s' \<and>
     concat (map items (accepted s')) = concat (map items (delivered s')) @ q \<and>
     xRingbufferReceiveFromISR (ses_buf s') = Some (rb, r) \<and>
     (case r of
        None \<Rightarrow> q = [] \<or> refuses (outstanding s')
      | Some w \<Rightarrow> \<exists>d q'. read_received (storage rb) w = Some d \<and> items d \<noteq> [] \<and> \<not> refuses (outstanding s') \<and> q = items d @ q')"
proof -
  obtain s' q where s': "run_session sc as s = Some s'" "holds (ses_buf s') (outstanding s') q"
    "concat (map items (accepted s')) = concat (map items (delivered s')) @ q"
    using run_session_ok [OF assms] by (auto simp: session_ok_def)
  from receive [OF s'(2)] s'(1,3) show ?thesis by (fastforce split: option.splits)
qed

end

section \<open>No-split buffers provide the interface\<close>

definition nosplit_holds :: "nat \<Rightarrow> Ringbuffer_t \<Rightarrow> nat list \<Rightarrow> byte list list \<Rightarrow> bool" where
  "nosplit_holds S rb held q \<longleftrightarrow> 8 dvd S \<and>
     (\<exists>A. rb_queue S False rb A q \<and> mset held = mset (held_addrs S (pucFree rb) A))"

lemma nosplit_send:
  assumes "nosplit_holds S rb held q"
  shows "\<exists>rb' es ok. xRingbufferSendFromISR sc bs (length bs) rb = Some (rb', es, ok) \<and>
        nosplit_holds S rb' held (if ok then q @ [bs] else q)"
proof -
  obtain A where A: "8 dvd S" "rb_queue S False rb A q" "mset held = mset (held_addrs S (pucFree rb) A)"
    using assms by (auto simp: nosplit_holds_def)
  obtain rb' es ok where r: "xRingbufferSendFromISR sc bs (length bs) rb = Some (rb', es, ok)"
    "if ok then rb_queue S False rb' A (q @ [take (length bs) bs]) else rb' = rb"
    "pucFree rb' = pucFree rb"
    using send_isr_ok [OF A(2), of "length bs" bs sc] A(1) by (auto simp: size_for_def)
  then have "rb_queue S False rb' A (if ok then q @ [bs] else q)" using A(2) by auto
  then have "nosplit_holds S rb' held (if ok then q @ [bs] else q)"
    unfolding nosplit_holds_def r(3) using A(1,3) by (intro conjI exI [of _ A])
  then show ?thesis using r(1) by blast
qed

lemma nosplit_receive:
  assumes "nosplit_holds S rb held q"
  shows "\<exists>rb' r. xRingbufferReceiveFromISR rb = Some (rb', r) \<and>
        (case r of
           None \<Rightarrow> (q = [] \<or> False) \<and> nosplit_holds S rb' held q
         | Some w \<Rightarrow> \<exists>d q'. read_received (storage rb') w = Some d \<and> [d] \<noteq> [] \<and> \<not> False \<and> q = [d] @ q' \<and>
                       nosplit_holds S rb' (held @ [fst (fst w)]) q')"
proof -
  obtain A where A: "8 dvd S" "rb_queue S False rb A q" "mset held = mset (held_addrs S (pucFree rb) A)"
    using assms by (auto simp: nosplit_holds_def)
  obtain rb' r where r: "prvReceiveGenericFromISR False 0 rb = Some (rb', r)"
    "case r of None \<Rightarrow> q = [] \<and> rb' = rb
     | Some w \<Rightarrow> q \<noteq> [] \<and> read_received (storage rb') w = Some (hd q) \<and> pucFree rb' = pucFree rb \<and>
      (\<exists>C. rb_queue S False rb' (A @ C) (tl q) \<and> (\<forall>a \<in> parts w. held_at S (pucFree rb') (A @ C) a) \<and>
           length (filter (\<lambda>c. \<not> freed c) C) = (if snd w = None then 1 else 2) \<and>
           (\<not> False \<longrightarrow> snd w = None) \<and>
           (snd w = None \<longrightarrow> held_addrs S (chain_end S (pucFree rb') A) C = [fst (fst w)]))"
    using receive_isr_ok [OF A(2), of False 0] by blast
  show ?thesis
  proof (cases r)
    case None
    then show ?thesis using r assms by (simp add: xRingbufferReceiveFromISR_def)
  next
    case (Some w)
    then obtain C where q: "q = [hd q] @ tl q" "read_received (storage rb') w = Some (hd q)" "pucFree rb' = pucFree rb"
      "rb_queue S False rb' (A @ C) (tl q)" "held_addrs S (chain_end S (pucFree rb') A) C = [fst (fst w)]"
      using r(2) by auto
    have "mset (held @ [fst (fst w)]) = mset (held_addrs S (pucFree rb') (A @ C))"
      using A(3) q(3,5) by (simp add: held_addrs_append)
    then have "nosplit_holds S rb' (held @ [fst (fst w)]) (tl q)"
      using A(1) q(4) unfolding nosplit_holds_def by blast
    then have "\<exists>d q'. read_received (storage rb') w = Some d \<and> [d] \<noteq> [] \<and> \<not> False \<and> q = [d] @ q' \<and>
                       nosplit_holds S rb' (held @ [fst (fst w)]) q'" using q(1,2) by blast
    then show ?thesis using r(1) Some by (simp add: xRingbufferReceiveFromISR_def)
  qed
qed

lemma held_do_not_fill:
  assumes "rb_queue S split rb A q" and "\<not> held_fill_ring rb"
  shows "extent S (pucFree rb) A < S"
proof (rule ccontr)
  assume large: "\<not> extent S (pucFree rb) A < S"
  obtain B where B: "rb_core S split rb A B" using assms(1) by (auto simp: rb_queue_def rb_inv_def)
  have chA: "chain S (storage rb) (pucFree rb) A (pucRead rb)" and chB: "chain S (storage rb) (pucRead rb) B (pucAcquire rb)"
    using B by (auto simp: rb_core_def)
  have E: "extent S (pucFree rb) (A @ B) = extent S (pucFree rb) A + extent S (pucRead rb) B"
    using chain_chain_end [OF chA] by (metis extent_append)
  then have "B = []" using large rb_core_facts(14) [OF B] extent_pos [OF chB] by fastforce
  then have "is_full rb" "xItemsWaiting rb = 0" using B E large rb_core_facts(14) [OF B] by (auto simp: rb_core_def)
  then show False using assms(2) by (simp add: held_fill_ring_def)
qed

lemma mset_without: "i < length xs \<Longrightarrow> mset xs = add_mset (xs ! i) (mset (without i xs))"
  unfolding without_def by (subst id_take_nth_drop [of i xs]) simp_all

lemma nosplit_return:
  assumes "nosplit_holds S rb held q" and i: "i < length held" and safe: "length held \<le> 1 \<or> \<not> held_fill_ring rb"
  shows "\<exists>rb' es w. vRingbufferReturnItemFromISR sc (held ! i) False rb = Some (rb', es, w) \<and> nosplit_holds S rb' (without i held) q"
proof -
  obtain A where A: "8 dvd S" "rb_queue S False rb A q" "mset held = mset (held_addrs S (pucFree rb) A)"
    using assms(1) by (auto simp: nosplit_holds_def)
  have "held ! i \<in> set (held_addrs S (pucFree rb) A)" using i A(3) by (metis nth_mem set_mset_mset)
  then obtain A1 n f d A2 where h: "A = A1 @ Item n f d # A2" "\<not> bit f 0" "held ! i = chain_end S (pucFree rb) A1 + 8"
    using held_addrs_held_at unfolding held_at_def by blast
  let ?A' = "A1 @ free_flag (Item n f d) # A2"
  have len: "length held = Suc (length (filter (\<lambda>c. \<not> freed c) A1) + length (filter (\<lambda>c. \<not> freed c) A2))"
    using arg_cong [OF A(3), of size] h(1,2) by (simp add: length_held_addrs)
  have one: "length held \<le> 1 \<Longrightarrow> \<forall>c \<in> set A1 \<union> set A2. freed c" using len by (auto simp: filter_empty_conv)
  have last: "extent S (pucFree rb) (A1 @ Item n f d # A2) < S \<or> (\<forall>c \<in> set A1 \<union> set A2. freed c)"
    using safe one held_do_not_fill [OF A(2)] h(1) by blast
  obtain rb' es w where r: "vRingbufferReturnItemFromISR sc (held ! i) False rb = Some (rb', es, w)"
    "rb_queue S False rb' (dropWhile freed ?A') q"
    "extent S (pucFree rb) (A1 @ Item n f d # A2) < S \<longrightarrow> pucFree rb' = chain_end S (pucFree rb) (takeWhile freed ?A')"
    using return_isr_ok [OF A(2) [unfolded h(1)] h(2) last, of sc False] unfolding h(3) by blast
  have free: "freed (free_flag (Item n f d))" by (simp add: rbITEM_FREE_FLAG_def)
  have span: "cell_span S p (free_flag c) = cell_span S p c" for p c by (cases c) simp_all
  have rest: "mset (without i held) = mset (held_addrs S (pucFree rb) ?A')"
    using A(3) mset_without [OF i] h free by (simp add: held_addrs_append span del: cell_span.simps free_flag.simps)
  have "mset (without i held) = mset (held_addrs S (pucFree rb') (dropWhile freed ?A'))"
  proof (cases "extent S (pucFree rb) (A1 @ Item n f d # A2) < S")
    case True
    then show ?thesis using rest r(3) by (simp add: held_addrs_dropWhile)
  next
    case False
    then have "\<forall>c \<in> set ?A'. freed c" using last free by auto
    then have none: "dropWhile freed ?A' = []" "filter (\<lambda>c. \<not> freed c) ?A' = []"
      by (simp_all only: dropWhile_eq_Nil_conv filter_empty_conv) blast
    then have "held_addrs S (pucFree rb) ?A' = []" by (metis length_0_conv length_held_addrs)
    then show ?thesis using rest unfolding none(1) by (simp only: held_addrs.simps)
  qed
  then have "nosplit_holds S rb' (without i held) q" using A(1) r(2) unfolding nosplit_holds_def by blast
  then show ?thesis using r(1) by blast
qed

interpretation nosplit: fifo_buffer "nosplit_holds S" "\<lambda>bs. [bs]" "\<lambda>held. False" held_fill_ring for S
  by unfold_locales (rule nosplit_send nosplit_receive nosplit_return, assumption+)+

lemma new_nosplit_session: "size_ok S \<Longrightarrow> 8 dvd S \<Longrightarrow> length st = S \<Longrightarrow>
    nosplit.session_ok S (new_session RINGBUF_TYPE_NOSPLIT S st)"
  unfolding nosplit.session_ok_def new_session_def
  by (intro exI [of _ "[]"]) (auto simp: rb_queue_new nosplit_holds_def intro!: exI [of _ "[]"])

end
