(* ===== verification/Ringbuf_Bytes.thy ===== *)
theory Ringbuf_Bytes
  imports Ringbuf_Session
begin

text \<open>
  Byte buffers: the buffer is a queue of bytes.  Between the free and the read pointer lie
  the bytes of the item that was received and not yet returned.
\<close>

section \<open>The invariant\<close>

definition ring_data :: "nat \<Rightarrow> byte list \<Rightarrow> nat \<Rightarrow> byte list \<Rightarrow> bool" where
  "ring_data S m p q \<longleftrightarrow> (\<forall>i < length q. m ! ((p + i) mod S) = q ! i)"

definition bytes_static :: "nat \<Rightarrow> Ringbuffer_t \<Rightarrow> bool" where
  "bytes_static S rb \<longleftrightarrow>
     0 < S \<and> S < 2147483648 \<and> xSize rb = S \<and> pucHead rb = 0 \<and> pucTail rb = S \<and>
     length (storage rb) = S \<and> xMaxItemSize rb = S \<and>
     \<not> bit (uxRingbufferFlags rb) 0 \<and> bit (uxRingbufferFlags rb) 1 \<and>
     xCheckItemFits rb = CheckItemFitsByteBuffer \<and> vCopyItem rb = CopyItemByteBuf \<and>
     pvGetItem rb = GetItemByteBuf \<and> vReturnItem rb = ReturnItemByteBuf \<and>
     xGetCurMaxSize rb = GetCurMaxSizeByteBuf"

definition bytes_queue :: "nat \<Rightarrow> Ringbuffer_t \<Rightarrow> nat \<Rightarrow> byte list \<Rightarrow> bool" where
  "bytes_queue S rb h q \<longleftrightarrow>
     bytes_static S rb \<and> pucFree rb < S \<and> h + length q \<le> S \<and>
     pucRead rb = (pucFree rb + h) mod S \<and> pucAcquire rb = (pucFree rb + (h + length q)) mod S \<and>
     pucWrite rb = pucAcquire rb \<and> xItemsWaiting rb = int (length q) \<and>
     (is_full rb \<longleftrightarrow> h + length q = S) \<and> ring_data S (storage rb) (pucRead rb) q"

lemma mod_ring: "p < S \<Longrightarrow> n \<le> S \<Longrightarrow> (p + n) mod S = (if p + n < S then p + n else p + n - S)"
  for p n S :: nat
  by (simp add: mod_if [of "p + n"])

lemma bytes_facts:
  assumes "bytes_queue S rb h q"
  shows "0 < S" "S < 2147483648" "xSize rb = S" "pucHead rb = 0" "pucTail rb = S" "length (storage rb) = S"
    "pucFree rb < S" "pucRead rb < S" "pucAcquire rb < S" "h + length q \<le> S"
  using assms by (auto simp: bytes_queue_def bytes_static_def)

lemma bytes_is_full_bit: "is_full rb \<longleftrightarrow> bit (uxRingbufferFlags rb) 2"
  by (simp add: is_full_def rbBUFFER_FULL_FLAG_def)

lemma has_bytebuf: "has_flag w rbBYTE_BUFFER_FLAG \<longleftrightarrow> bit w 1" "has_flag w rbALLOW_SPLIT_FLAG \<longleftrightarrow> bit w 0"
  by (simp_all add: rbBYTE_BUFFER_FLAG_def rbALLOW_SPLIT_FLAG_def)

lemma bytes_queue_new:
  "0 < S \<Longrightarrow> S < 2147483648 \<Longrightarrow> length st = S \<Longrightarrow>
     bytes_queue S (prvInitializeNewRingbuffer S RINGBUF_TYPE_BYTEBUF st) 0 []"
  by (simp add: bytes_queue_def bytes_static_def prvInitializeNewRingbuffer_def ring_data_def
      bytes_is_full_bit rb_flag_defs)

section \<open>Room for a send\<close>

lemma bytes_fits:
  assumes q: "bytes_queue S rb h q" and n: "n \<le> S" "0 < n"
  shows "prvCheckItemFitsByteBuffer rb n = Some (h + length q + n \<le> S)"
proof -
  note f = bytes_facts [OF q]
  have a: "pucAcquire rb = (if pucFree rb + (h + length q) < S then pucFree rb + (h + length q)
                             else pucFree rb + (h + length q) - S)"
    using q mod_ring [OF f(7,10)] by (simp add: bytes_queue_def)
  have full: "is_full rb \<longleftrightarrow> h + length q = S" using q by (simp add: bytes_queue_def)
  have s: "pucFree rb \<le> pucAcquire rb \<Longrightarrow>
      sub32 (xSize rb) (sub32 (pucAcquire rb) (pucFree rb)) = S - (pucAcquire rb - pucFree rb)"
    using f by (simp add: sub32_eq)
  have b: "pucHead rb \<le> pucAcquire rb \<and> pucAcquire rb < pucTail rb" using f by simp
  consider "pucAcquire rb = pucFree rb" | "pucAcquire rb < pucFree rb" | "pucFree rb < pucAcquire rb"
    by linarith
  then show ?thesis
  proof cases
    case 1
    then have "h + length q = 0 \<or> h + length q = S" using a f by (auto split: if_splits)
    then show ?thesis using 1 b full n by (auto simp: prvCheckItemFitsByteBuffer_def)
  next
    case 2
    then show ?thesis using b a f by (auto simp: prvCheckItemFitsByteBuffer_def split: if_splits)
  next
    case 3
    then have "pucAcquire rb = pucFree rb + (h + length q)" using a f by (auto split: if_splits)
    then show ?thesis using 3 b s f by (auto simp: prvCheckItemFitsByteBuffer_def)
  qed
qed

section \<open>Writing\<close>

text \<open>Writing \<open>bs\<close> into the free part, in one or two pieces, appends it.\<close>

lemma ring_append:
  assumes d: "ring_data S m p q" and S: "p < S" "length m = S" "length m' = S"
    and room: "length q + length bs \<le> S"
    and m': "\<And>i. i < length bs \<Longrightarrow> m' ! ((p + length q + i) mod S) = bs ! i"
    and fr: "\<And>x. x < S \<Longrightarrow> (\<forall>i < length bs. x \<noteq> (p + length q + i) mod S) \<Longrightarrow> m' ! x = m ! x"
  shows "ring_data S m' p (q @ bs)"
  unfolding ring_data_def
proof (intro allI impI)
  fix i assume i: "i < length (q @ bs)"
  show "m' ! ((p + i) mod S) = (q @ bs) ! i"
  proof (cases "i < length q")
    case True
    have "(p + i) mod S \<noteq> (p + length q + j) mod S" if "j < length bs" for j
    proof -
      have "(p + i) mod S = (if p + i < S then p + i else p + i - S)"
        using mod_ring [of p S i] S(1) True room by simp
      moreover have "(p + length q + j) mod S = (if p + (length q + j) < S then p + (length q + j) else p + (length q + j) - S)"
        using mod_ring [of p S "length q + j"] S(1) that room by (simp add: add.assoc)
      ultimately show ?thesis using True that room by (auto split: if_splits)
    qed
    then have "m' ! ((p + i) mod S) = m ! ((p + i) mod S)" using fr [of "(p + i) mod S"] S(1) by auto
    then show ?thesis using d True by (simp add: ring_data_def nth_append)
  next
    case False
    then have "m' ! ((p + length q + (i - length q)) mod S) = bs ! (i - length q)"
      using i by (intro m') simp
    then show ?thesis using False by (simp add: nth_append)
  qed
qed

text \<open>The memory after the copy of \<open>prvCopyItemByteBuf\<close>.\<close>

lemma write_ring:
  assumes "a < S" "length m = S" "n \<le> length bs" "n \<le> S"
  shows "\<exists>m1 m2. memcpy m a bs (min n (S - a)) = Some m1 \<and>
     memcpy m1 0 (drop (S - a) bs) (n - (S - a)) = Some m2 \<and> length m1 = S \<and> length m2 = S \<and>
     (n \<le> S - a \<longrightarrow> m2 = m1) \<and>
     (\<forall>i < n. m2 ! ((a + i) mod S) = bs ! i) \<and>
     (\<forall>x < S. (\<forall>i < n. x \<noteq> (a + i) mod S) \<longrightarrow> m2 ! x = m ! x)"
proof -
  define k where "k = min n (S - a)"
  define j where "j = n - (S - a)"
  have kj: "k \<le> length bs" "a + k \<le> S" "j \<le> S" "j + (S - a) \<le> length bs \<or> j = 0" "k + j = n"
    "n \<le> S - a \<longrightarrow> j = 0 \<and> k = n" "\<not> n \<le> S - a \<longrightarrow> k = S - a"
    using assms by (auto simp: k_def j_def)
  define m1 where "m1 = take a m @ take k bs @ drop (a + k) m"
  define m2 where "m2 = take j (drop (S - a) bs) @ drop j m1"
  have l1: "length m1 = S" using assms kj by (auto simp: m1_def)
  have lj: "length (take j (drop (S - a) bs)) = j" using kj(4) by auto
  have l2: "length m2 = S" using kj l1 lj by (simp add: m2_def)
  have w1: "m1 ! x = (if a \<le> x \<and> x < a + k then bs ! (x - a) else m ! x)" if "x < S" for x
    using that kj(1,2) assms(1,2) by (auto simp: m1_def nth_append)
  have w2: "m2 ! x = (if x < j then bs ! (S - a + x) else m1 ! x)" if "x < S" for x
    using that kj(3,4) l1 lj by (auto simp: m2_def nth_append)
  have "memcpy m a bs k = Some m1"
    using kj assms(2) by (simp add: memcpy_def write_at_def m1_def)
  moreover have "memcpy m1 0 (drop (S - a) bs) j = Some m2"
    using kj(3,4) l1 lj by (auto simp: memcpy_def write_at_def m2_def)
  moreover have "n \<le> S - a \<longrightarrow> m2 = m1" using kj(6) by (simp add: m2_def)
  moreover have w: "m2 ! x = (if x < j then bs ! (S - a + x)
        else if a \<le> x \<and> x < a + k then bs ! (x - a) else m ! x)" if "x < S" for x
    using w1 [OF that] w2 [OF that] by simp
  moreover have "m2 ! ((a + i) mod S) = bs ! i" if "i < n" for i
  proof (cases "a + i < S")
    case True
    then have "\<not> a + i < j" "i < k" using that kj(5-7) assms(4) by (cases "n \<le> S - a"; simp)+
    then show ?thesis using w [of "a + i"] True by simp
  next
    case False
    then have "(a + i) mod S = a + i - S" using mod_ring [of a S i] that assms by simp
    moreover have "a + i - S < j" using that False assms(1) unfolding j_def by linarith
    ultimately show ?thesis using w [of "a + i - S"] that assms False by simp
  qed
  moreover have "m2 ! x = m ! x" if "x < S" "\<forall>i < n. x \<noteq> (a + i) mod S" for x
  proof -
    have "\<not> (a \<le> x \<and> x < a + k)"
    proof
      assume x: "a \<le> x \<and> x < a + k"
      then have "x - a < n" using kj(5) by linarith
      then show False using that(2) [rule_format, of "x - a"] that(1) x by simp
    qed
    moreover have "\<not> x < j"
    proof
      assume x: "x < j"
      then have "(a + (x + (S - a))) mod S = x" using that(1) assms(1) by simp
      then show False using that(2) [rule_format, of "x + (S - a)"] x unfolding j_def by linarith
    qed
    ultimately show ?thesis using w [OF that(1)] by (metis (full_types))
  qed
  ultimately show ?thesis using l1 l2 unfolding k_def j_def by blast
qed

text \<open>The copy of \<open>prvCopyItemByteBuf\<close> in terms of the two writes.\<close>

lemma prvCopyItemByteBuf_eq:
  assumes st: "pucHead rb = 0" "pucTail rb = S" "pucAcquire rb < S" "S < 2147483648"
    and n: "n \<le> S" "n \<le> length bs"
    and m1: "memcpy (storage rb) (pucAcquire rb) bs (min n (S - pucAcquire rb)) = Some m1"
    and m2: "memcpy m1 0 (drop (S - pucAcquire rb) bs) (n - (S - pucAcquire rb)) = Some m2"
    and eq: "n \<le> S - pucAcquire rb \<Longrightarrow> m2 = m1"
  shows "prvCopyItemByteBuf rb bs n =
     Some (let q = (pucAcquire rb + n) mod S
           in rb\<lparr>storage := m2, xItemsWaiting := xItemsWaiting rb + int n, pucAcquire := q,
                 uxRingbufferFlags := (if q = pucFree rb
                   then set_flag (uxRingbufferFlags rb) rbBUFFER_FULL_FLAG else uxRingbufferFlags rb),
                 pucWrite := q\<rparr>)"
proof -
  let ?a = "pucAcquire rb"
  have q: "(?a + n) mod S = (if ?a + n < S then ?a + n else ?a + n - S)"
    using mod_ring [OF st(3) n(1)] .
  obtain r where r: "S = ?a + r" "0 < r" using st(3) less_imp_add_positive by blast
  have s: "sub32 (pucTail rb) ?a = r" "S - ?a = r" using st r by (simp_all add: sub32_eq)
  have b: "pucHead rb \<le> ?a \<and> ?a < pucTail rb" using st by simp
  show ?thesis
  proof (cases "r < n")
    case True
    then obtain w where w: "n = r + w" "0 < w" using less_imp_add_positive by blast
    have "wrap32 w = w" using w n(1) st(4) by (intro wrap32_id) simp
    moreover have "(?a + n) mod S = w" "w \<noteq> pucTail rb" using q r w n st(2,3) by auto
    moreover have "memcpy (storage rb) ?a bs r = Some m1" "memcpy m1 0 (drop r bs) w = Some m2"
      using m1 m2 s(2) w by (simp_all add: min_def)
    ultimately show ?thesis
      unfolding prvCopyItemByteBuf_def Let_def s using b w st(1)
      by (cases "w = pucFree rb") (simp_all add: mark_full_def add.assoc)
  next
    case False
    then have "wrap32 (?a + n) = ?a + n" using r st(4) by (intro wrap32_id) simp
    moreover have "(?a + n) mod S = (if ?a + n = pucTail rb then 0 else ?a + n)" using q False r st by auto
    moreover have "memcpy (storage rb) ?a bs n = Some m2"
      using m1 eq s(2) False by (simp add: min_def)
    ultimately show ?thesis
      unfolding prvCopyItemByteBuf_def Let_def s using b False st(1)
      by (cases "?a + n = pucFree rb") (simp_all add: mark_full_def)
  qed
qed

lemma prvCopyItemByteBuf_ok:
  assumes q: "bytes_queue S rb h q" and n: "0 < n" "n \<le> length bs" "h + length q + n \<le> S"
  shows "\<exists>rb'. prvCopyItemByteBuf rb bs n = Some rb' \<and> bytes_queue S rb' h (q @ take n bs) \<and>
     pucFree rb' = pucFree rb"
proof -
  note f = bytes_facts [OF q]
  let ?a = "pucAcquire rb"
  have nS: "n \<le> S" using n(3) by simp
  obtain m1 m2 where m: "memcpy (storage rb) ?a bs (min n (S - ?a)) = Some m1"
     "memcpy m1 0 (drop (S - ?a) bs) (n - (S - ?a)) = Some m2" "length m2 = S"
     "n \<le> S - ?a \<longrightarrow> m2 = m1" "\<forall>i < n. m2 ! ((?a + i) mod S) = bs ! i"
     "\<forall>x < S. (\<forall>i < n. x \<noteq> (?a + i) mod S) \<longrightarrow> m2 ! x = storage rb ! x"
    using write_ring [OF f(9,6) n(2) nS] by blast
  let ?q = "(?a + n) mod S"
  let ?rb' = "rb\<lparr>storage := m2, xItemsWaiting := xItemsWaiting rb + int n, pucAcquire := ?q,
                 uxRingbufferFlags := (if ?q = pucFree rb
                   then set_flag (uxRingbufferFlags rb) rbBUFFER_FULL_FLAG else uxRingbufferFlags rb),
                 pucWrite := ?q\<rparr>"
  have r: "prvCopyItemByteBuf rb bs n = Some ?rb'"
    using prvCopyItemByteBuf_eq [OF f(4,5,9,2) nS n(2) m(1,2)] m(4) by (simp add: Let_def)
  have q0: "?a = (pucFree rb + (h + length q)) mod S" "pucRead rb = (pucFree rb + h) mod S"
    "ring_data S (storage rb) (pucRead rb) q" "is_full rb \<longleftrightarrow> h + length q = S" "bytes_static S rb"
    using q by (auto simp: bytes_queue_def)
  have ae: "?a = (pucRead rb + length q) mod S" using q0(1,2) by (simp add: mod_add_left_eq add.assoc)
  have ai: "(pucRead rb + length q + i) mod S = (?a + i) mod S" for i
    using ae by (metis mod_add_left_eq)
  have qe: "?q = (pucFree rb + (h + length (q @ take n bs))) mod S"
    using q0(1) n(2) by (simp add: mod_add_left_eq add.assoc)
  have data: "ring_data S m2 (pucRead rb) (q @ take n bs)"
  proof (rule ring_append [OF q0(3) f(8,6) m(3)])
    show "m2 ! ((pucRead rb + length q + i) mod S) = take n bs ! i" if "i < length (take n bs)" for i
      using that m(5) by (simp add: ai)
    show "m2 ! x = storage rb ! x" if "x < S" "\<forall>i < length (take n bs). x \<noteq> (pucRead rb + length q + i) mod S" for x
      using that m(6) n(2) by (simp add: ai)
  qed (use n in simp)
  have full: "?q = pucFree rb \<longleftrightarrow> h + length q + n = S"
    using mod_ring [OF f(7), of "h + length q + n"] qe n f(7) by (auto simp: add.assoc)
  have "\<not> is_full rb" using q0(4) n by simp
  then have "bytes_queue S ?rb' h (q @ take n bs)"
    using q0 data qe full n f m(3) q
    by (simp add: bytes_queue_def bytes_static_def bytes_is_full_bit rbBUFFER_FULL_FLAG_def add.assoc)
  then show ?thesis using r by (intro exI [of _ ?rb']) simp
qed

section \<open>Receiving and returning\<close>

lemma bytes_avail:
  assumes q: "bytes_queue S rb h q"
  shows "prvCheckItemAvail rb = Some (h = 0 \<and> q \<noteq> [])"
proof -
  note f = bytes_facts [OF q]
  have st: "has_flag (uxRingbufferFlags rb) rbBYTE_BUFFER_FLAG"
    "has_flag (uxRingbufferFlags rb) (rbBYTE_BUFFER_FLAG OR rbALLOW_SPLIT_FLAG)"
    using q has_flag_3 [of "uxRingbufferFlags rb"]
    by (simp_all add: bytes_queue_def bytes_static_def has_bytebuf)
       (simp add: rbBYTE_BUFFER_FLAG_def rbALLOW_SPLIT_FLAG_def)
  have p: "pucRead rb = (pucFree rb + h) mod S" "pucWrite rb = (pucRead rb + length q) mod S"
    "xItemsWaiting rb = int (length q)" "is_full rb \<longleftrightarrow> h + length q = S"
    using q by (auto simp: bytes_queue_def mod_add_left_eq add.assoc)
  have rf: "pucRead rb = pucFree rb \<longleftrightarrow> h = 0 \<or> h = S"
    using mod_ring [OF f(7), of h] p(1) f(1,7,10) by auto
  have rw: "pucRead rb = pucWrite rb \<longleftrightarrow> q = [] \<or> length q = S"
    using mod_ring [OF f(8), of "length q"] p(2) f(1,8,10) by auto
  show ?thesis
    using st p(3,4) rf rw f(1,10) by (auto simp: prvCheckItemAvail_def)
qed

text \<open>How many bytes one receive returns: what lies before the tail, limited by the caller.\<close>

definition chunk :: "nat \<Rightarrow> nat \<Rightarrow> nat \<Rightarrow> nat \<Rightarrow> nat" where
  "chunk S p len k = (let c = min len (S - p) in if k = 0 then c else min k c)"

lemma ring_data_take:
  assumes d: "ring_data S m p q" and n: "p + n \<le> S" "n \<le> length q" "length m = S"
  shows "read_at m p n = Some (take n q)"
proof -
  have "take n (drop p m) = take n q"
  proof (rule nth_equalityI)
    fix i assume i: "i < length (take n (drop p m))"
    then have "p + i < S" "i < length q" using n by simp_all
    then have "m ! ((p + i) mod S) = q ! i" "p + i < S"
      using d unfolding ring_data_def by blast+
    then have "m ! (p + i) = q ! i" by simp
    then show "take n (drop p m) ! i = take n q ! i" using i n by simp
  qed (use n in simp)
  then show ?thesis using n by (simp add: read_at_def)
qed

lemma ring_data_drop: "ring_data S m p q \<Longrightarrow> ring_data S m ((p + n) mod S) (drop n q)"
  by (auto simp: ring_data_def mod_add_left_eq add.assoc nth_append dest: spec [of _ "n + _"])

lemma prvGetItemByteBuf_ok:
  assumes q: "bytes_queue S rb 0 q" and ne: "q \<noteq> []" and n_def: "n = chunk S (pucRead rb) (length q) k"
  shows "\<exists>rb'. prvGetItemByteBuf rb k = Some (rb', pucRead rb, n) \<and> 0 < n \<and> n \<le> length q \<and>
     read_at (storage rb') (pucRead rb) n = Some (take n q) \<and> bytes_queue S rb' n (drop n q) \<and>
     pucRead rb < S"
proof -
  note f = bytes_facts [OF q]
  let ?r = "pucRead rb"
  have p: "?r = pucFree rb" "pucWrite rb = (?r + length q) mod S"
    "xItemsWaiting rb = int (length q)" "is_full rb \<longleftrightarrow> length q = S" "ring_data S (storage rb) ?r q"
    using q f(7) by (auto simp: bytes_queue_def)
  have len: "0 < length q" "length q \<le> S" using ne f(10) by auto
  have w: "pucWrite rb = (if ?r + length q < S then ?r + length q else ?r + length q - S)"
    using mod_ring [OF f(8) len(2)] p(2) by simp
  have wrapped: "pucWrite rb < ?r \<or> is_full rb \<longleftrightarrow> S \<le> ?r + length q"
    using w p(4) len f(8) by auto
  have n: "0 < n" "n \<le> length q" "?r + n \<le> S"
    using len f(8) by (auto simp: n_def chunk_def Let_def)
  have r': "(?r + n) mod S = (if ?r + n = S then 0 else ?r + n)" using n(3) f(8) by auto
  have "prvGetItemByteBuf rb k =
      Some (rb\<lparr>xItemsWaiting := xItemsWaiting rb - int n, pucRead := (?r + n) mod S\<rparr>, ?r, n)"
  proof -
    obtain t where t: "S = ?r + t" "0 < t" using f(8) less_imp_add_positive by blast
    have g: "xItemsWaiting rb > 0 \<and> (?r \<noteq> pucWrite rb \<or> is_full rb)"
      using p(3,4) w len f(8) by (auto split: if_splits)
    have b: "pucHead rb \<le> ?r \<and> ?r < pucTail rb" "?r = pucFree rb" using f p(1) by simp_all
    have tt: "pucTail rb - ?r = t" using f(5) t by simp
    show ?thesis
    proof (cases "S \<le> ?r + length q")
      case True
      then have "n = (if k = 0 \<or> t \<le> k then t else k)" using t by (simp add: n_def chunk_def Let_def min_def)
      then show ?thesis
        unfolding prvGetItemByteBuf_def Let_def tt r' using True wrapped g b f(4) t
        by (cases "k = 0 \<or> t \<le> k") (simp_all add: trap_simps)
    next
      case False
      then have "pucWrite rb - ?r = length q" "length q < t" "pucWrite rb = ?r + length q" using w t by auto
      moreover from this have "n = (if k = 0 \<or> length q \<le> k then length q else k)"
        using t by (simp add: n_def chunk_def Let_def min_def)
      ultimately show ?thesis
        unfolding prvGetItemByteBuf_def Let_def r' using False wrapped g b t
        by (cases "k = 0 \<or> length q \<le> k") (simp_all add: trap_simps)
    qed
  qed
  moreover have "bytes_queue S (rb\<lparr>xItemsWaiting := xItemsWaiting rb - int n, pucRead := (?r + n) mod S\<rparr>) n (drop n q)"
    using q n p(1) ring_data_drop [OF p(5), of n]
    by (simp add: bytes_queue_def bytes_static_def is_full_def of_nat_diff)
  moreover have "read_at (storage rb) ?r n = Some (take n q)"
    by (rule ring_data_take [OF p(5) n(3,2) f(6)])
  ultimately show ?thesis using n f(8) by auto
qed

lemma prvReturnItemByteBuf_ok:
  assumes q: "bytes_queue S rb h q" and h: "0 < h" and p: "p < S"
  shows "\<exists>rb'. prvReturnItemByteBuf rb p = Some rb' \<and> bytes_queue S rb' 0 q"
proof -
  note f = bytes_facts [OF q]
  have b: "pucAcquire rb = (pucRead rb + length q) mod S"
    using q by (simp add: bytes_queue_def mod_add_left_eq add.assoc)
  let ?rb = "rb\<lparr>pucFree := pucRead rb\<rparr>"
  have "prvReturnItemByteBuf rb p = Some (if is_full ?rb
     then ?rb\<lparr>uxRingbufferFlags := clear_flag (uxRingbufferFlags rb) rbBUFFER_FULL_FLAG\<rparr> else ?rb)"
    using f p by (simp add: prvReturnItemByteBuf_def)
  moreover have "bytes_queue S (if is_full ?rb
     then ?rb\<lparr>uxRingbufferFlags := clear_flag (uxRingbufferFlags rb) rbBUFFER_FULL_FLAG\<rparr> else ?rb) 0 q"
    using q f b h
    by (auto simp: bytes_queue_def bytes_static_def bytes_is_full_bit rbBUFFER_FULL_FLAG_def)
  ultimately show ?thesis by blast
qed

section \<open>The public calls\<close>

lemma bytes_queue_same_ring:
  assumes "same_ring rb' rb"
  shows "bytes_queue S rb' h q \<longleftrightarrow> bytes_queue S rb h q"
proof -
  from assms have e: "rb' = rb\<lparr>xTasksWaitingToSend := xTasksWaitingToSend rb',
             xTasksWaitingToReceive := xTasksWaitingToReceive rb'\<rparr>" by (simp only: same_ring_def)
  show ?thesis by (subst e) (simp add: bytes_queue_def bytes_static_def is_full_def)
qed

lemma bytes_static_calls:
  assumes "bytes_queue S rb h q"
  shows "has_flag (uxRingbufferFlags rb) rbBYTE_BUFFER_FLAG" "\<not> has_flag (uxRingbufferFlags rb) rbALLOW_SPLIT_FLAG"
    "xMaxItemSize rb = S" "call_xCheckItemFits rb n = prvCheckItemFitsByteBuffer rb n"
    "call_vCopyItem rb bs n = prvCopyItemByteBuf rb bs n" "call_vReturnItem rb a = prvReturnItemByteBuf rb a"
    "call_pvGetItem rb k = map_option (\<lambda>(rb', p, n). (rb', p, n, False)) (prvGetItemByteBuf rb k)"
    "call_xGetCurMaxSize rb = prvGetCurMaxSizeByteBuf rb"
  using assms by (simp_all add: bytes_queue_def bytes_static_def has_bytebuf call_xCheckItemFits_def
      call_vCopyItem_def call_vReturnItem_def call_pvGetItem_def call_xGetCurMaxSize_def)

text \<open>A send is accepted exactly when there is room for all of it.\<close>

lemma bytes_send_isr_ok:
  assumes q: "bytes_queue S rb h q" and bs: "n \<le> length bs"
  shows "\<exists>rb' es. xRingbufferSendFromISR sc bs n rb = Some (rb', es, h + length q + n \<le> S) \<and>
     (if h + length q + n \<le> S then bytes_queue S rb' h (q @ take n bs) else rb' = rb)"
proof -
  note f = bytes_facts [OF q]
  note st = bytes_static_calls [OF q]
  consider "n > S" | "n = 0" | "0 < n" "n \<le> S" "h + length q + n \<le> S" | "0 < n" "n \<le> S" "\<not> h + length q + n \<le> S"
    by linarith
  then show ?thesis
  proof cases
    case 1
    then show ?thesis using st(3) by (simp add: xRingbufferSendFromISR_def)
  next
    case 2
    then show ?thesis using st(1) q f(10) by (simp add: xRingbufferSendFromISR_def)
  next
    case 3
    obtain rb1 where r: "prvCopyItemByteBuf rb bs n = Some rb1" "bytes_queue S rb1 h (q @ take n bs)"
      using prvCopyItemByteBuf_ok [OF q 3(1) bs 3(3)] by blast
    obtain rb2 es where rb2: "notify_receiver sc rb1 = (rb2, es)" by fastforce
    then have sr: "same_ring rb2 rb1" using same_ring_notify(1) [of sc rb1] by simp
    have "xRingbufferSendFromISR sc bs n rb = Some (rb2, es, True)"
      using st 3 bytes_fits [OF q 3(2,1)] r(1) rb2 by (simp add: xRingbufferSendFromISR_def)
    then show ?thesis using 3(3) r(2) bytes_queue_same_ring [OF sr] by auto
  next
    case 4
    then have "xRingbufferSendFromISR sc bs n rb = Some (rb, [], False)"
      using st bytes_fits [OF q 4(2,1)] by (simp add: xRingbufferSendFromISR_def)
    then show ?thesis using 4(3) by simp
  qed
qed

text \<open>A receive hands out a prefix of the stream, of at most \<open>k\<close> bytes when \<open>k\<close> is not 0;
  while something is held it hands out nothing.\<close>

lemma bytes_receive_isr_ok:
  assumes q: "bytes_queue S rb h q"
  shows "(if h = 0 \<and> q \<noteq> []
     then \<exists>rb' n p. prvReceiveGenericFromISR want2 k rb = Some (rb', Some ((p, n), None)) \<and>
            n = chunk S p (length q) k \<and> 0 < n \<and> n \<le> length q \<and> p < S \<and>
            read_received (storage rb') ((p, n), None) = Some (take n q) \<and> bytes_queue S rb' n (drop n q)
     else prvReceiveGenericFromISR want2 k rb = Some (rb, None))"
proof -
  note av = bytes_avail [OF q]
  note st = bytes_static_calls [OF q]
  show ?thesis
  proof (cases "h = 0 \<and> q \<noteq> []")
    case True
    then have q0: "bytes_queue S rb 0 q" "q \<noteq> []" using q by auto
    let ?n = "chunk S (pucRead rb) (length q) k"
    obtain rb' where g: "prvGetItemByteBuf rb k = Some (rb', pucRead rb, ?n)"
      "0 < ?n" "?n \<le> length q" "read_at (storage rb') (pucRead rb) ?n = Some (take ?n q)"
      "bytes_queue S rb' ?n (drop ?n q)" "pucRead rb < S"
      using prvGetItemByteBuf_ok [OF q0 refl] by blast
    have "\<not> has_flag (uxRingbufferFlags rb') rbALLOW_SPLIT_FLAG" using bytes_static_calls(2) [OF g(5)] .
    then have "prvReceiveGenericFromISR want2 k rb = Some (rb', Some ((pucRead rb, ?n), None))"
      using av True st(7) g(1) by (simp add: prvReceiveGenericFromISR_def receive_now_def)
    then show ?thesis using True g by (auto simp: read_received_def)
  next
    case False
    then have "prvCheckItemAvail rb = Some False" using av by simp
    then show ?thesis using False by (auto simp: prvReceiveGenericFromISR_def)
  qed
qed

lemma bytes_return_isr_ok:
  assumes q: "bytes_queue S rb h q" and h: "0 < h" and p: "p < S"
  shows "\<exists>rb' es w'. vRingbufferReturnItemFromISR sc p w rb = Some (rb', es, w') \<and> bytes_queue S rb' 0 q"
proof -
  obtain rb1 where r: "prvReturnItemByteBuf rb p = Some rb1" "bytes_queue S rb1 0 q"
    using prvReturnItemByteBuf_ok [OF q h p] by blast
  obtain rb2 es where rb2: "notify_sender sc rb1 = (rb2, es)" by fastforce
  then have sr: "same_ring rb2 rb1" using same_ring_notify(2) [of sc rb1] by simp
  have "vRingbufferReturnItemFromISR sc p w rb = Some (rb2, filter (\<lambda>e. e \<noteq> Yield) es, w \<or> Yield \<in> set es)"
    using bytes_static_calls(6) [OF q] r(1) rb2 by (simp add: vRingbufferReturnItemFromISR_def)
  then show ?thesis using bytes_queue_same_ring [OF sr] r(2) by blast
qed

section \<open>Byte buffers provide the queue interface\<close>

definition bytes_holds :: "nat \<Rightarrow> Ringbuffer_t \<Rightarrow> nat list \<Rightarrow> byte list \<Rightarrow> bool" where
  "bytes_holds S rb held q \<longleftrightarrow>
     (\<exists>h. bytes_queue S rb h q \<and> (held = [] \<and> h = 0 \<or> (\<exists>p. held = [p] \<and> 0 < h \<and> p < S)))"

lemma bytes_send:
  assumes "bytes_holds S rb held q"
  shows "\<exists>rb' es ok. xRingbufferSendFromISR sc bs (length bs) rb = Some (rb', es, ok) \<and>
        bytes_holds S rb' held (if ok then q @ bs else q)"
proof -
  obtain h where h: "bytes_queue S rb h q" "held = [] \<and> h = 0 \<or> (\<exists>p. held = [p] \<and> 0 < h \<and> p < S)"
    using assms by (auto simp: bytes_holds_def)
  let ?ok = "h + length q + length bs \<le> S"
  obtain rb' es where r: "xRingbufferSendFromISR sc bs (length bs) rb = Some (rb', es, ?ok)"
    "if ?ok then bytes_queue S rb' h (q @ take (length bs) bs) else rb' = rb"
    using bytes_send_isr_ok [OF h(1), of "length bs" bs sc] by auto
  then have "bytes_queue S rb' h (if ?ok then q @ bs else q)" using h(1) by (auto split: if_splits)
  then have "bytes_holds S rb' held (if ?ok then q @ bs else q)"
    using h(2) unfolding bytes_holds_def by blast
  then show ?thesis using r(1) by blast
qed

lemma bytes_receive:
  assumes "bytes_holds S rb held q"
  shows "\<exists>rb' r. xRingbufferReceiveFromISR rb = Some (rb', r) \<and>
        (case r of
           None \<Rightarrow> (q = [] \<or> held \<noteq> []) \<and> bytes_holds S rb' held q
         | Some w \<Rightarrow> \<exists>d q'. read_received (storage rb') w = Some d \<and> d \<noteq> [] \<and> \<not> held \<noteq> [] \<and> q = d @ q' \<and>
                       bytes_holds S rb' (held @ [fst (fst w)]) q')"
proof -
  obtain h where h: "bytes_queue S rb h q" "held = [] \<longleftrightarrow> h = 0"
    using assms by (auto simp: bytes_holds_def)
  show ?thesis
  proof (cases "h = 0 \<and> q \<noteq> []")
    case False
    then show ?thesis
      using bytes_receive_isr_ok [OF h(1), of False 0] h(2) assms by (auto simp: xRingbufferReceiveFromISR_def)
  next
    case True
    then obtain rb' n p where r: "prvReceiveGenericFromISR False 0 rb = Some (rb', Some ((p, n), None))"
      "0 < n" "p < S" "read_received (storage rb') ((p, n), None) = Some (take n q)" "bytes_queue S rb' n (drop n q)"
      using bytes_receive_isr_ok [OF h(1), of False 0] by auto
    have "held = []" using True h(2) by simp
    moreover from this have "bytes_holds S rb' (held @ [p]) (drop n q)" using r(2,3,5) by (auto simp: bytes_holds_def)
    moreover have "q = take n q @ drop n q" "take n q \<noteq> []" using r(2) True by auto
    ultimately have "\<exists>d q'. read_received (storage rb') ((p, n), None) = Some d \<and> d \<noteq> [] \<and> \<not> held \<noteq> [] \<and> q = d @ q' \<and>
                       bytes_holds S rb' (held @ [p]) q'" using r(4) by blast
    then show ?thesis using r(1) by (simp add: xRingbufferReceiveFromISR_def)
  qed
qed

lemma bytes_return:
  assumes "bytes_holds S rb held q" and "i < length held"
  shows "\<exists>rb' es w. vRingbufferReturnItemFromISR sc (held ! i) False rb = Some (rb', es, w) \<and> bytes_holds S rb' (without i held) q"
proof -
  obtain h p where h: "bytes_queue S rb h q" "0 < h" "p < S" "held = [p]" using assms by (auto simp: bytes_holds_def)
  then show ?thesis
    using bytes_return_isr_ok [OF h(1-3), of sc False] assms(2) by (auto simp: bytes_holds_def without_def)
qed

interpretation bytes: fifo_buffer "bytes_holds S" "\<lambda>bs. bs" "\<lambda>held. held \<noteq> []" "\<lambda>rb. False" for S
  by unfold_locales (erule bytes_send bytes_receive bytes_return, assumption?)+

lemma new_bytes_session: "0 < S \<Longrightarrow> S < 2147483648 \<Longrightarrow> length st = S \<Longrightarrow>
    bytes.session_ok S (new_session RINGBUF_TYPE_BYTEBUF S st)"
  unfolding bytes.session_ok_def new_session_def
  by (intro exI [of _ "[]"]) (simp add: bytes_queue_new bytes_holds_def)

end
