(* ===== verification/Ringbuf_Eval.thy ===== *)
theory Ringbuf_Eval
  imports Ringbuf_Bytes
begin

text \<open>Evaluation of the ring buffer operations on concrete buffers, for witnesses and
  counterexamples.\<close>

lemma advance_write_numeral:
  "advance_write (numeral k) rb = do {
     h \<leftarrow> get_header (storage rb) (pucWrite rb);
     if (has_flag (uxItemFlags h) rbITEM_WRITTEN_FLAG \<or> has_flag (uxItemFlags h) rbITEM_DUMMY_DATA_FLAG)
          \<and> pucWrite rb \<noteq> pucAcquire rb
     then (if has_flag (uxItemFlags h) rbITEM_DUMMY_DATA_FLAG
           then do {
             m \<leftarrow> set_item_flags (storage rb) (pucWrite rb)
                    (set_flag (uxItemFlags h) rbITEM_WRITTEN_FLAG);
             advance_write (pred_numeral k) (wrap_write (rb\<lparr>storage := m, pucWrite := pucHead rb\<rparr>))
           }
           else do {
             let p = wrap32 (pucWrite rb + (rbALIGN_SIZE (xItemLen h) + rbHEADER_SIZE));
             assert_that (p \<le> pucHead rb + xSize rb);
             advance_write (pred_numeral k) (wrap_write (rb\<lparr>pucWrite := p\<rparr>))
           })
     else Some rb
   }"
  by (simp add: numeral_eq_Suc advance_write.simps)

lemma advance_free_numeral:
  "advance_free (numeral k) rb = do {
     h \<leftarrow> get_header (storage rb) (pucFree rb);
     if (has_flag (uxItemFlags h) rbITEM_FREE_FLAG \<or> has_flag (uxItemFlags h) rbITEM_DUMMY_DATA_FLAG)
          \<and> pucFree rb \<noteq> pucRead rb
     then (if has_flag (uxItemFlags h) rbITEM_DUMMY_DATA_FLAG
           then do {
             m \<leftarrow> set_item_flags (storage rb) (pucFree rb)
                    (set_flag (uxItemFlags h) rbITEM_FREE_FLAG);
             advance_free (pred_numeral k) (wrap_free (rb\<lparr>storage := m, pucFree := pucHead rb\<rparr>))
           }
           else do {
             let p = wrap32 (pucFree rb + (rbALIGN_SIZE (xItemLen h) + rbHEADER_SIZE));
             assert_that (p \<le> pucHead rb + xSize rb);
             advance_free (pred_numeral k) (wrap_free (rb\<lparr>pucFree := p\<rparr>))
           })
     else Some rb
   }"
  by (simp add: numeral_eq_Suc advance_free.simps)

lemma replicate_numeral: "replicate (numeral k) x = x # replicate (pred_numeral k) x"
  by (simp add: numeral_eq_Suc)

lemma length_1_2_4 : "length [a] = 1" "length [a, b] = 2" "length [a, b, c, d] = 4"
  by (simp_all add: eval_nat_numeral)

lemma bytes_of_nat_4: "bytes_of_nat 4 n = [of_nat n, of_nat (n div 256), of_nat (n div 256 div 256),
    of_nat (n div 256 div 256 div 256)]"
proof -
  have four: "4 = Suc (Suc (Suc (Suc 0)))" by simp
  show ?thesis unfolding four bytes_of_nat.simps ..
qed

lemmas rb_eval =
  xRingbufferSendFromISR_def xRingbufferReceiveFromISR_def vRingbufferReturnItemFromISR_def
  xRingbufferSendAcquire_def xRingbufferSendComplete_def xRingbufferReceiveSplitFromISR_def
  xRingbufferReceiveUpToFromISR_def
  prvSendAcquireGeneric.simps prvReceiveGeneric.simps send_now_def prvReceiveGenericFromISR_def
  receive_now_def call_pvGetItem_def call_vReturnItem_def call_vCopyItem_def
  call_xCheckItemFits_def prvCheckItemFitsDefault_def prvCheckItemFitsByteBuffer_def
  prvCopyItemNoSplit_def prvAcquireItemNoSplit_def prvSendItemDoneNoSplit_def prvCopyItemAllowSplit_def
  prvCopyItemByteBuf_def split_first_part_def walk_fuel_def wrap_write_def wrap_acquire_def
  mark_full_def mark_dummy_def prvGetItemDefault_def prvGetItemByteBuf_def prvReturnItemDefault_def
  prvReturnItemByteBuf_def reset_full_flag_def wrap_free_def is_full_def
  prvCheckItemAvail_def notify_receiver_def notify_sender_def unblock_first_def read_received_def
  get_header_def get_item_len_def get_item_flags_def set_item_len_def set_item_flags_def
  read_at_def write_at_def memcpy_def rbALIGN_SIZE_def rbALIGN_MASK_def rbCHECK_ALIGNED_def
  rb_flag_defs has_flag_def set_flag_def clear_flag_def rbHEADER_SIZE_def wrap32_def sub32_def
  prvInitializeNewRingbuffer_def new_session_def advance_write_numeral advance_free_numeral
  replicate_numeral length_1_2_4 bytes_of_nat_4

end
