(* ===== verification/Ringbuf_Props.thy ===== *)
theory Ringbuf_Props
  imports Ringbuf_Eval
begin

text \<open>
  The properties of the ring buffer: sessions, the queue refinement of the public calls,
  the free-size query, blocking calls, and the inputs on which the code does not do what it
  promises.
\<close>

section \<open>Sessions\<close>



text \<open>C2: On a byte buffer of any size, every sequence of sends, receives and returns runs
  without a failed assertion or an access outside the storage; a receive while an item is held is refused by the buffer.
  The bytes delivered are the bytes accepted, in order, and none is lost: a receive after the sequence hands out
  a non-empty prefix of the bytes that were not delivered yet, unless there is none or an item is held.\<close>

theorem byte_sessions_are_streams:
  assumes "0 < S" "S < 2147483648" "length st = S"
  shows "\<exists>s q rb r. run_session sc ops (new_session RINGBUF_TYPE_BYTEBUF S st) = Some s \<and>
     concat (accepted s) = concat (delivered s) @ q \<and> xRingbufferReceiveFromISR (ses_buf s) = Some (rb, r) \<and>
     (case r of
        None \<Rightarrow> q = [] \<or> outstanding s \<noteq> []
      | Some w \<Rightarrow> \<exists>d q'. read_received (storage rb) w = Some d \<and> d \<noteq> [] \<and> outstanding s = [] \<and> q = d @ q')"
  using bytes.nothing_is_lost [OF new_bytes_session [OF assms] careful_without_danger, of sc ops]
  by (simp only: list.map_ident not_not)

theorem byte_sessions_are_streams_witness:
  "\<exists>s q rb r. run_session \<lparr>cur_task = 0, task_prio = \<lambda>t. t\<rparr> [OpSend [7, 8], OpReceive, OpReceive, OpSend [9], OpReturn 0]
      (new_session RINGBUF_TYPE_BYTEBUF 3 (replicate 3 0)) = Some s \<and>
     concat (accepted s) = concat (delivered s) @ q \<and> xRingbufferReceiveFromISR (ses_buf s) = Some (rb, r) \<and>
     (case r of
        None \<Rightarrow> q = [] \<or> outstanding s \<noteq> []
      | Some w \<Rightarrow> \<exists>d q'. read_received (storage rb) w = Some d \<and> d \<noteq> [] \<and> outstanding s = [] \<and> q = d @ q')"
  by (rule byte_sessions_are_streams) simp_all

section \<open>The calls as operations of a queue of messages\<close>

text \<open>C3: On a no-split buffer (of a size divisible by 8) or an allow-split buffer on which no item is acquired
  and not completed, \<open>xRingbufferSendFromISR\<close> never traps; it appends exactly the caller's bytes to the queue of messages, whether or
  not the item wraps or is split, or refuses and leaves the buffer untouched.  What the
  receiver holds is not affected.\<close>

theorem send_appends_or_refuses:
  assumes "rb_queue S split rb A q" "split \<or> 8 dvd S" "n \<le> length bs"
  shows "\<exists>rb' es ok. xRingbufferSendFromISR sc bs n rb = Some (rb', es, ok) \<and>
     (if ok then rb_queue S split rb' A (q @ [take n bs]) else rb' = rb)"
proof -
  have "size_for split S" using assms(2) by (simp add: size_for_def)
  from send_isr_ok [OF assms(1) this assms(3), of sc] show ?thesis by blast
qed

theorem send_appends_or_refuses_witness:
  "\<exists>rb' es ok. xRingbufferSendFromISR \<lparr>cur_task = 0, task_prio = \<lambda>t. t\<rparr> [1, 2, 3] 3
       (prvInitializeNewRingbuffer 32 RINGBUF_TYPE_ALLOWSPLIT (replicate 32 0)) = Some (rb', es, ok) \<and>
     (if ok then rb_queue 32 True rb' [] ([] @ [take 3 [1, 2, 3]])
      else rb' = prvInitializeNewRingbuffer 32 RINGBUF_TYPE_ALLOWSPLIT (replicate 32 0))"
  by (rule send_appends_or_refuses) (simp_all add: rb_queue_new size_ok_def)

text \<open>C4: A receive hands out the oldest message, in one part or (allow-split) in two whose
  bytes together are the message, and takes it off the queue; it reports that nothing is
  available exactly when the queue is empty.  The addresses it hands out are items that the
  caller now holds.\<close>

theorem receive_takes_the_oldest:
  assumes "rb_queue S split rb A q" "split \<longrightarrow> want2"
  shows "\<exists>rb' r. prvReceiveGenericFromISR want2 k rb = Some (rb', r) \<and>
     (case r of
        None \<Rightarrow> q = [] \<and> rb' = rb
      | Some w \<Rightarrow> q \<noteq> [] \<and> read_received (storage rb') w = Some (hd q) \<and>
          (\<exists>C. rb_queue S split rb' (A @ C) (tl q) \<and> (\<forall>a \<in> parts w. held_at S (pucFree rb') (A @ C) a)))"
  using receive_isr_ok [OF assms, of k] by (elim exE conjE) (auto split: option.splits)

theorem receive_takes_the_oldest_witness:
  "\<exists>rb' r. prvReceiveGenericFromISR True 0
       (prvInitializeNewRingbuffer 32 RINGBUF_TYPE_ALLOWSPLIT (replicate 32 0)) = Some (rb', r) \<and>
     (case r of
        None \<Rightarrow> ([] :: byte list list) = [] \<and>
                rb' = prvInitializeNewRingbuffer 32 RINGBUF_TYPE_ALLOWSPLIT (replicate 32 0)
      | Some w \<Rightarrow> ([] :: byte list list) \<noteq> [] \<and> read_received (storage rb') w = Some (hd []) \<and>
          (\<exists>C. rb_queue 32 True rb' ([] @ C) (tl []) \<and>
               (\<forall>a \<in> parts w. held_at 32 (pucFree rb') ([] @ C) a)))"
  by (rule receive_takes_the_oldest) (simp_all add: rb_queue_new size_ok_def)







section \<open>The free size\<close>

lemma not_full_ring:
  assumes "rb_core S split rb A B" "\<not> is_full rb"
  shows "4 dvd pucAcquire rb" "4 dvd pucFree rb" "4 dvd S" "16 \<le> S" "S < 2147483648"
    "pucAcquire rb + 8 \<le> S" "pucFree rb + 8 \<le> S"
  using rb_core_facts [OF assms(1)] by (auto simp: pos_ok_def)

lemma align_le_iff: "4 dvd X \<Longrightarrow> n < 2147483648 \<Longrightarrow> rbALIGN_SIZE n + 8 \<le> X \<longleftrightarrow> 8 \<le> X \<and> n \<le> X - 8"
proof
  assume "4 dvd X" "n < 2147483648" "rbALIGN_SIZE n + 8 \<le> X"
  moreover from this have "n \<le> rbALIGN_SIZE n" by (intro rbALIGN_SIZE_ge) simp
  ultimately show "8 \<le> X \<and> n \<le> X - 8" by simp
next
  assume *: "4 dvd X" "n < 2147483648" "8 \<le> X \<and> n \<le> X - 8"
  have "(n + 3) div 4 * 4 + 8 \<le> X" using * by presburger
  then show "rbALIGN_SIZE n + 8 \<le> X" using *(2) by (simp add: rbALIGN_SIZE_eq)
qed

text \<open>C7: On a no-split buffer whose size is a multiple of 8, the free-size query is exact: a
  non-empty item up to the maximum size is accepted now if and only if it is at most the reported size.\<close>

theorem nosplit_free_size_exact:
  assumes "rb_queue S False rb A q" "8 dvd S" "0 < n" "n \<le> xMaxItemSize rb"
  shows "call_xCheckItemFits rb n = Some (n \<le> xRingbufferGetCurFreeSize rb)"
proof -
  obtain B where "rb_inv S False rb A B" using assms(1) by (auto simp: rb_queue_def)
  then have core: "rb_core S False rb A B" by (simp add: rb_inv_def)
  note f = rb_core_facts [OF core]
  have st: "rb_static S False rb" by (rule rb_core_static [OF core])
  have n: "n \<le> max_item S False" using assms(4) f(9) by simp
  note tot = item_total [OF f(1) n]
  have S8: "2 * (max_item S False + 8) \<le> S" "S div 2 * 2 = S"
    using max_item_nosplit(2) [OF f(1)] max_item_nosplit(1) [OF f(1)] assms(2) f(4)
    by (auto simp: rbALIGN_SIZE_eq elim!: dvdE)
  have nf: "\<not> has_flag (uxRingbufferFlags rb) rbALLOW_SPLIT_FLAG"
    using st by (simp add: rb_static_def rbALLOW_SPLIT_FLAG_def)
  have al: "4 dvd pucAcquire rb" "4 dvd pucFree rb" "pucAcquire rb + 8 \<le> S" "pucFree rb + 8 \<le> S"
    using f(10,12) by (auto simp: pos_ok_def)
  have sub: "sub32 S (pucAcquire rb) = S - pucAcquire rb" "sub32 (pucFree rb) 0 = pucFree rb"
    using al f(4) by (simp_all add: sub32_eq)
  have le: "rbALIGN_SIZE n + 8 \<le> X \<longleftrightarrow> n + 8 \<le> X" if "4 dvd X" for X
    using align_le_iff [OF that tot(1)] by auto
  have cur: "xRingbufferGetCurFreeSize rb = prvGetCurMaxSizeNoSplit rb"
    using st by (simp add: xRingbufferGetCurFreeSize_def call_xGetCurMaxSize_def rb_static_def)
  have clamp: "n \<le> clamp_free_size rb (int X - 8) \<longleftrightarrow> n + 8 \<le> X" for X
    using assms(3,4) by (auto simp: clamp_free_size_def)
  have fits: "call_xCheckItemFits rb n =
      Some (if pucAcquire rb = pucFree rb then \<not> is_full rb
            else if pucAcquire rb < pucFree rb then n + 8 \<le> pucFree rb - pucAcquire rb
            else n + 8 \<le> S - pucAcquire rb \<or> n + 8 \<le> pucFree rb)"
    using st al f(2-6) nf le [of "pucFree rb - pucAcquire rb"] le [of "S - pucAcquire rb"] le [of "pucFree rb"]
    by (simp add: call_xCheckItemFits_def rb_static_def prvCheckItemFitsDefault_def tot(3) sub Let_def)
  show ?thesis
  proof (cases "is_full rb")
    case True
    then have "pucAcquire rb = pucFree rb" using core f(10,15) by (simp add: rb_core_def pos_ok_def)
    then show ?thesis using True fits cur assms(3) by (simp add: prvGetCurMaxSizeNoSplit_def)
  next
    case False
    define X where "X = (if pucAcquire rb < pucFree rb then pucFree rb - pucAcquire rb
        else max (S - pucAcquire rb) (pucFree rb))"
    have "prvGetCurMaxSizeNoSplit rb = clamp_free_size rb (int X - 8)"
      using False f(5,6) by (auto simp: prvGetCurMaxSizeNoSplit_def X_def rbHEADER_SIZE_def Let_def max_def of_nat_diff)
    then have "n \<le> xRingbufferGetCurFreeSize rb \<longleftrightarrow> n + 8 \<le> X" using cur clamp by simp
    then show ?thesis
      using fits False n S8(1) al by (auto simp: X_def)
  qed
qed

theorem nosplit_free_size_exact_witness:
  "call_xCheckItemFits (prvInitializeNewRingbuffer 32 RINGBUF_TYPE_NOSPLIT (replicate 32 0)) 3 =
     Some (3 \<le> xRingbufferGetCurFreeSize (prvInitializeNewRingbuffer 32 RINGBUF_TYPE_NOSPLIT (replicate 32 0)))"
  by (rule nosplit_free_size_exact [OF rb_queue_new(1)])
     (simp_all add: size_ok_def prvInitializeNewRingbuffer_def sub32_def rbHEADER_SIZE_def
        rbALIGN_SIZE_def rbALIGN_MASK_def wrap32_def)

text \<open>On a byte buffer the free-size query is exact: a non-empty write is accepted now if
  and only if it is at most the reported size.\<close>

theorem bytes_free_size_exact:
  assumes "bytes_queue S rb h q" "0 < n" "n \<le> xMaxItemSize rb"
  shows "call_xCheckItemFits rb n = Some (n \<le> xRingbufferGetCurFreeSize rb)"
proof -
  note f = bytes_facts [OF assms(1)]
  note st = bytes_static_calls [OF assms(1)]
  have full: "is_full rb \<longleftrightarrow> h + length q = S" and a: "pucAcquire rb = (pucFree rb + (h + length q)) mod S"
    using assms(1) by (auto simp: bytes_queue_def)
  have "xRingbufferGetCurFreeSize rb = S - (h + length q)"
    using st(8) full f(3,7,10) mod_ring [OF f(7,10)] a
    by (auto simp: xRingbufferGetCurFreeSize_def prvGetCurMaxSizeByteBuf_def Let_def)
  then show ?thesis
    using bytes_fits [OF assms(1) _ assms(2)] assms(3) st(3,4) f(10) by auto
qed

theorem bytes_free_size_exact_witness:
  "call_xCheckItemFits (prvInitializeNewRingbuffer 5 RINGBUF_TYPE_BYTEBUF (replicate 5 0)) 3 =
     Some (3 \<le> xRingbufferGetCurFreeSize (prvInitializeNewRingbuffer 5 RINGBUF_TYPE_BYTEBUF (replicate 5 0)))"
  by (rule bytes_free_size_exact [OF bytes_queue_new]) (simp_all add: prvInitializeNewRingbuffer_def)

section \<open>Blocking calls\<close>

text \<open>C9: A receive that returns without an item was asked not to wait or was told that its
  time is up, and nothing was available in the buffer it returns; whatever other tasks did
  while it was blocked.\<close>

theorem receive_gives_up_only_when_nothing_available:
  assumes "prvReceiveGeneric sc want2 k ticks script rb = Some (rb', Returned None)"
  shows "(ticks = 0 \<or> True \<in> fst ` set script) \<and> prvCheckItemAvail rb' = Some False"
  using assms
proof (induction script arbitrary: rb)
  case Nil
  then show ?case
    by (auto simp: prvReceiveGeneric.simps [of sc want2 k ticks "[]"] bind_eq_Some_conv split: if_splits)
next
  case (Cons x xs)
  obtain timed_out others where x: "x = (timed_out, others)" by (cases x)
  show ?case
    using Cons unfolding x
    by (auto simp: prvReceiveGeneric.simps [of sc want2 k ticks "_ # _"] bind_eq_Some_conv split: if_splits)
qed

text \<open>Time-out of a receive from an empty buffer.\<close>

theorem receive_gives_up_only_when_nothing_available_witness:
  "((5::nat) = 0 \<or> True \<in> fst ` set [(True, \<lambda>rb :: Ringbuffer_t. rb)]) \<and>
   prvCheckItemAvail (prvInitializeNewRingbuffer 16 RINGBUF_TYPE_BYTEBUF (replicate 16 0)) = Some False"
  by (rule receive_gives_up_only_when_nothing_available
        [of "\<lparr>cur_task = 0, task_prio = \<lambda>t. t\<rparr>" False 0 _ _ "prvInitializeNewRingbuffer 16 RINGBUF_TYPE_BYTEBUF (replicate 16 0)"])
     (simp add: prvReceiveGeneric.simps prvCheckItemAvail_def prvInitializeNewRingbuffer_def)

text \<open>A blocking send that returns failure was asked not to wait or timed out, its item
  did not fit in the buffer it returns, and it added nothing to that buffer.\<close>

theorem send_gives_up_only_when_it_does_not_fit:
  assumes "prvSendAcquireGeneric sc mode n ticks script rb = Some (rb', Returned (es, p, False))"
  shows "(ticks = 0 \<or> True \<in> fst ` set script) \<and> call_xCheckItemFits rb' n = Some False \<and> es = [] \<and> p = None"
  using assms
proof (induction script arbitrary: rb)
  case Nil
  then show ?case
    by (auto simp: prvSendAcquireGeneric.simps [of sc mode n ticks "[]"] bind_eq_Some_conv split: if_splits)
next
  case (Cons x xs)
  obtain timed_out others where x: "x = (timed_out, others)" by (cases x)
  show ?case
    using Cons unfolding x
    by (auto simp: prvSendAcquireGeneric.simps [of sc mode n ticks "_ # _"] bind_eq_Some_conv split: if_splits)
qed

theorem send_gives_up_only_when_it_does_not_fit_witness:
  "((5::nat) = 0 \<or> True \<in> fst ` set [(True, \<lambda>rb :: Ringbuffer_t. rb)]) \<and>
   call_xCheckItemFits ((prvInitializeNewRingbuffer 16 RINGBUF_TYPE_BYTEBUF (replicate 16 0))
     \<lparr>pucAcquire := 12\<rparr>) 8 = Some False \<and> ([] :: rb_effect list) = [] \<and> (None :: nat option) = None"
  by (rule send_gives_up_only_when_it_does_not_fit
        [of "\<lparr>cur_task = 0, task_prio = \<lambda>t. t\<rparr>" "SendData (replicate 8 1)" 8 _ _
            "(prvInitializeNewRingbuffer 16 RINGBUF_TYPE_BYTEBUF (replicate 16 0))\<lparr>pucAcquire := 12\<rparr>"])
     (simp add: prvSendAcquireGeneric.simps call_xCheckItemFits_def prvCheckItemFitsByteBuffer_def
        prvInitializeNewRingbuffer_def sub32_def)

section \<open>Where the code does not keep its promises\<close>

text \<open>The session after the second message of the theorem below.\<close>

definition stuck_session :: session where
  "stuck_session =
     \<lparr>ses_buf = \<lparr>xSize = 20, xMaxItemSize = 4, uxRingbufferFlags = 4,
         xCheckItemFits = CheckItemFitsDefault, vCopyItem = CopyItemNoSplit, pvGetItem = GetItemDefault,
         vReturnItem = ReturnItemDefault, xGetCurMaxSize = GetCurMaxSizeNoSplit,
         pucAcquire = 12, pucWrite = 12, pucRead = 12, pucFree = 12, pucHead = 0, pucTail = 20,
         xItemsWaiting = 1, xTasksWaitingToSend = [], xTasksWaitingToReceive = [], xQueueSet = None,
         storage = [4, 0, 0, 0, 8, 0, 0, 0, 5, 6, 7, 8, 0, 0, 0, 0, 2, 0, 0, 0]\<rparr>,
      accepted = [[1, 2, 3, 4], [5, 6, 7, 8]], delivered = [[1, 2, 3, 4]], outstanding = []\<rparr>"

lemma stuck_step: "session_step sc a stuck_session = Some stuck_session"
proof (cases a)
  case (OpSend bs)
  then show ?thesis
    by (cases "4 < length bs")
       (simp_all add: stuck_session_def rb_eval split del: if_split cong: bind_weak_cong let_weak_cong)
qed (simp_all add: stuck_session_def rb_eval split del: if_split cong: bind_weak_cong let_weak_cong)

lemma stuck_run: "run_session sc ops stuck_session = Some stuck_session"
  by (induction ops) (simp_all add: stuck_step)

text \<open>A no-split buffer of 20 bytes stops working after two accepted messages: a message
  that fills the whole ring behind a dummy leaves the write pointer where it was, because the
  loop of \<open>prvSendItemDoneNoSplit\<close> stops at once when \<open>pucWrite\<close> equals \<open>pucAcquire\<close>, so the
  dummy is never marked as written.  The second message was accepted and nothing is held,
  but from then on every receive finds nothing, every send is refused, and no sequence of
  calls changes the state.\<close>

theorem nosplit_20_stops_for_ever:
  "\<exists>s. run_session sc [OpSend [1, 2, 3, 4], OpReceive, OpReturn 0, OpSend [5, 6, 7, 8]]
         (new_session RINGBUF_TYPE_NOSPLIT 20 (replicate 20 0)) = Some s \<and>
       accepted s = [[1, 2, 3, 4], [5, 6, 7, 8]] \<and> delivered s = [[1, 2, 3, 4]] \<and> outstanding s = [] \<and>
       (\<forall>ops. run_session sc ops s = Some s)"
proof (intro exI conjI allI)
  show "run_session sc [OpSend [1, 2, 3, 4], OpReceive, OpReturn 0, OpSend [5, 6, 7, 8]]
         (new_session RINGBUF_TYPE_NOSPLIT 20 (replicate 20 0)) = Some stuck_session"
    by (simp add: stuck_session_def without_def rb_eval split del: if_split cong: bind_weak_cong let_weak_cong)
  show "run_session sc ops stuck_session = Some stuck_session" for ops by (rule stuck_run)
qed (simp_all add: stuck_session_def)

text \<open>A receive can hand out an item that its sender has acquired but not completed.
  In a no-split buffer of 64 bytes two items are acquired behind a dummy and only the second
  is completed: the receive returns the first, whose header says that it is not written.\<close>

definition receive_unwritten :: "sched \<Rightarrow> (received option \<times> bool option) option" where
  "receive_unwritten sc = do {
     (rb1, es, ok) \<leftarrow> xRingbufferSendFromISR sc (replicate 16 1) 16
                        (prvInitializeNewRingbuffer 64 RINGBUF_TYPE_NOSPLIT (replicate 64 0));
     (rb2, r) \<leftarrow> xRingbufferReceiveFromISR rb1;
     (rb3, es, w) \<leftarrow> vRingbufferReturnItemFromISR sc 8 False rb2;
     (rb4, es, ok) \<leftarrow> xRingbufferSendFromISR sc (replicate 16 2) 16 rb3;
     (rb5, r) \<leftarrow> xRingbufferReceiveFromISR rb4;
     (rb6, es, w) \<leftarrow> vRingbufferReturnItemFromISR sc 32 False rb5;
     (rb7, first) \<leftarrow> xRingbufferSendAcquire sc 12 0 [] rb6;
     (rb8, second) \<leftarrow> xRingbufferSendAcquire sc 12 0 [] rb7;
     (rb9, es) \<leftarrow> xRingbufferSendComplete sc 28 rb8;
     (rb10, r) \<leftarrow> xRingbufferReceiveFromISR rb9;
     Some (r, map_option (\<lambda>h. has_flag (uxItemFlags h) rbITEM_WRITTEN_FLAG) (get_header (storage rb10) 0))
   }"

theorem receive_returns_an_unwritten_item:
  "receive_unwritten sc = Some (Some ((8, 12), None), Some False)"
  by (simp add: receive_unwritten_def rb_eval split del: if_split cong: bind_weak_cong let_weak_cong)

text \<open>Returning the first part of a split item can free the second part as well.  In an
  allow-split buffer of 32 bytes an item of the maximum size fills the ring in two parts; the
  return of the first part clears the full flag, and the next send overwrites the four bytes
  at offset 8 that the receiver still holds.\<close>

definition overwrite_held :: "sched \<Rightarrow> (received option \<times> byte list option \<times> bool \<times> byte list option) option" where
  "overwrite_held sc = do {
     (rb1, es, ok) \<leftarrow> xRingbufferSendFromISR sc [1, 2, 3, 4] 4
                        (prvInitializeNewRingbuffer 32 RINGBUF_TYPE_ALLOWSPLIT (replicate 32 0));
     (rb2, r) \<leftarrow> xRingbufferReceiveSplitFromISR rb1;
     (rb3, es, w) \<leftarrow> vRingbufferReturnItemFromISR sc 8 False rb2;
     (rb4, es, ok) \<leftarrow> xRingbufferSendFromISR sc [1,2,3,4,5,6,7,8,9,10,11,12,13,14,15,16] 16 rb3;
     (rb5, r) \<leftarrow> xRingbufferReceiveSplitFromISR rb4;
     (rb6, es, w) \<leftarrow> vRingbufferReturnItemFromISR sc 20 False rb5;
     (rb7, es, ok) \<leftarrow> xRingbufferSendFromISR sc (replicate 16 99) 16 rb6;
     Some (r, read_at (storage rb5) 8 4, ok, read_at (storage rb7) 8 4)
   }"

theorem return_of_first_part_frees_the_second:
  "overwrite_held sc =
     Some (Some ((20, 12), Some (8, 4)), Some [13, 14, 15, 16], True, Some [99, 99, 99, 99])"
  by (simp add: overwrite_held_def rb_eval split del: if_split cong: bind_weak_cong let_weak_cong)

text \<open>A no-split buffer of 8 bytes has no room for data, but its maximum item size wraps
  around to almost four gigabytes, and a send of 4 bytes is let through to a copy outside the
  storage.\<close>

theorem tiny_buffer_underflows:
  "xRingbufferGetMaxItemSize (prvInitializeNewRingbuffer 8 RINGBUF_TYPE_NOSPLIT (replicate 8 0)) = 4294967292 \<and>
   xRingbufferSendFromISR sc [1, 2, 3, 4] 4 (prvInitializeNewRingbuffer 8 RINGBUF_TYPE_NOSPLIT (replicate 8 0)) = None"
  by (simp add: xRingbufferGetMaxItemSize_def rb_eval split del: if_split cong: bind_weak_cong let_weak_cong)

text \<open>For an allow-split buffer the free-size query under-reports: with the first 24 of 64
  bytes used it says 24 although an item of 32 bytes fits and is accepted.\<close>

theorem allow_split_free_size_under_reports:
  "map_option (\<lambda>(rb, es, ok). (xRingbufferGetCurFreeSize rb, call_xCheckItemFits rb 32))
     (xRingbufferSendFromISR sc (replicate 16 1) 16
        (prvInitializeNewRingbuffer 64 RINGBUF_TYPE_ALLOWSPLIT (replicate 64 0))) = Some (24, Some True)"
  by (simp add: xRingbufferGetCurFreeSize_def call_xGetCurMaxSize_def prvGetCurMaxSizeAllowSplit_def
      clamp_free_size_def rb_eval split del: if_split cong: bind_weak_cong let_weak_cong)

end
