(* ===== verification/Timer.thy ===== *)
theory Timer
  imports Prelude
begin

text \<open>
  The timers of \<open>components/esp_timer/src/esp_timer.c\<close>, built without profiling.  Timers live
  in a heap and are named by handles; reading a handle that is not allocated is \<open>None\<close>.  The
  two lists of armed timers are lists of handles, and the alarm registers are the array
  \<open>timestamp_id\<close> of \<open>esp_timer_impl_common.c\<close>.  The time read from the hardware is an argument.
\<close>

section \<open>Data\<close>

datatype esp_timer_dispatch_t = ESP_TIMER_TASK | ESP_TIMER_ISR

definition EVENT_ID_DELETE_TIMER :: "32 word" where "EVENT_ID_DELETE_TIMER = 0xF0DE1E1E"
definition FL_ISR_DISPATCH_METHOD :: "8 word" where "FL_ISR_DISPATCH_METHOD = 1"
definition FL_SKIP_UNHANDLED_EVENTS :: "8 word" where "FL_SKIP_UNHANDLED_EVENTS = 2"

text \<open>\<open>callback\<close> and \<open>event_id\<close> are the two members of a union: one 32-bit field.\<close>

record esp_timer =
  alarm :: "64 word"
  period :: "56 word"
  flags :: "8 word"
  callback :: "32 word"
  arg :: nat

type_synonym esp_timer_handle_t = nat

record timer_state =
  heap :: "esp_timer_handle_t \<Rightarrow> esp_timer option"
  s_timers :: "esp_timer_dispatch_t \<Rightarrow> esp_timer_handle_t list"
  timestamp_id :: "esp_timer_dispatch_t \<Rightarrow> 64 word"
  s_timer_task :: bool
  called :: "(esp_timer_handle_t \<times> 64 word \<times> 64 word) list"

definition UINT64_MAX :: "64 word" where "UINT64_MAX = - 1"
definition INT64_MAX :: "64 word" where "INT64_MAX = 0x7FFFFFFFFFFFFFFF"

definition dispatch_of :: "esp_timer \<Rightarrow> esp_timer_dispatch_t" where
  "dispatch_of t = (if flags t AND FL_ISR_DISPATCH_METHOD \<noteq> 0 then ESP_TIMER_ISR else ESP_TIMER_TASK)"

definition esp_timer_impl_get_min_period_us :: "64 word" where
  "esp_timer_impl_get_min_period_us = 50"

definition esp_timer_impl_set_alarm_id :: "64 word \<Rightarrow> esp_timer_dispatch_t \<Rightarrow> timer_state \<Rightarrow> timer_state" where
  "esp_timer_impl_set_alarm_id ts d st = st\<lparr>timestamp_id := (timestamp_id st)(d := ts)\<rparr>"

definition esp_timer_impl_try_to_set_next_alarm :: "timer_state \<Rightarrow> timer_state" where
  "esp_timer_impl_try_to_set_next_alarm st =
     (let (now_idx, next_idx) =
        (if timestamp_id st ESP_TIMER_TASK < timestamp_id st ESP_TIMER_ISR
         then (ESP_TIMER_TASK, ESP_TIMER_ISR) else (ESP_TIMER_ISR, ESP_TIMER_TASK))
      in if timestamp_id st next_idx \<noteq> UINT64_MAX
         then esp_timer_impl_set_alarm_id UINT64_MAX now_idx st
         else st\<lparr>timestamp_id := (timestamp_id st)(now_idx := UINT64_MAX)\<rparr>)"

definition is_initialized :: "timer_state \<Rightarrow> bool" where
  "is_initialized st \<longleftrightarrow> s_timer_task st"

definition timer_armed :: "esp_timer \<Rightarrow> bool" where
  "timer_armed t \<longleftrightarrow> alarm t > 0"

definition update_timer :: "esp_timer_handle_t \<Rightarrow> esp_timer \<Rightarrow> timer_state \<Rightarrow> timer_state" where
  "update_timer h t st = st\<lparr>heap := (heap st)(h \<mapsto> t)\<rparr>"

section \<open>The lists of armed timers\<close>

text \<open>The loop of \<open>timer_insert\<close>: before the first timer with a later alarm, or at the end.\<close>

fun list_insert ::
  "(esp_timer_handle_t \<Rightarrow> esp_timer option) \<Rightarrow> 64 word \<Rightarrow> esp_timer_handle_t
     \<Rightarrow> esp_timer_handle_t list \<Rightarrow> esp_timer_handle_t list option" where
  "list_insert hp a h [] = Some [h]"
| "list_insert hp a h (it # its) = do {
     t \<leftarrow> hp it;
     if a < alarm t then Some (h # it # its)
     else map_option ((#) it) (list_insert hp a h its)
   }"

definition timer_insert :: "esp_timer_handle_t \<Rightarrow> bool \<Rightarrow> timer_state \<Rightarrow> timer_state option" where
  "timer_insert h without_update_alarm st = do {
     t \<leftarrow> heap st h;
     let d = dispatch_of t;
     l \<leftarrow> list_insert (heap st) (alarm t) h (s_timers st d);
     let st1 = st\<lparr>s_timers := (s_timers st)(d := l)\<rparr>;
     Some (if \<not> without_update_alarm \<and> hd l = h
           then esp_timer_impl_set_alarm_id (alarm t) d st1 else st1)
   }"

text \<open>\<open>LIST_REMOVE\<close> takes the timer out of the list that holds it; on a timer that is in no
  list it would follow stale links.\<close>

definition list_remove :: "esp_timer_handle_t \<Rightarrow> timer_state \<Rightarrow> timer_state option" where
  "list_remove h st = do {
     assert_that (\<exists>d \<in> {ESP_TIMER_TASK, ESP_TIMER_ISR}. h \<in> set (s_timers st d));
     Some (st\<lparr>s_timers := (\<lambda>d. remove1 h (s_timers st d))\<rparr>)
   }"

definition timer_remove :: "esp_timer_handle_t \<Rightarrow> timer_state \<Rightarrow> timer_state option" where
  "timer_remove h st = do {
     t \<leftarrow> heap st h;
     let d = dispatch_of t;
     let was_first = (s_timers st d \<noteq> [] \<and> hd (s_timers st d) = h);
     st1 \<leftarrow> list_remove h st;
     let st2 = update_timer h (t\<lparr>alarm := 0, period := 0\<rparr>) st1;
     if was_first
     then do {
       next_timestamp \<leftarrow>
         (case s_timers st2 d of [] \<Rightarrow> Some UINT64_MAX | f # fs \<Rightarrow> map_option alarm (heap st2 f));
       Some (esp_timer_impl_set_alarm_id next_timestamp d st2)
     }
     else Some st2
   }"

section \<open>The API\<close>

text \<open>A NULL handle is \<open>None\<close> as argument.  \<open>calloc\<close> is the handle it returns, if any.\<close>

record esp_timer_create_args_t =
  ca_callback :: "32 word"
  ca_arg :: nat
  ca_dispatch_method :: int
  ca_skip_unhandled_events :: bool

definition esp_timer_create ::
  "esp_timer_create_args_t option \<Rightarrow> bool \<Rightarrow> esp_timer_handle_t option \<Rightarrow> timer_state
     \<Rightarrow> timer_state \<times> esp_err_t \<times> esp_timer_handle_t option" where
  "esp_timer_create args out_handle calloc st =
     (if \<not> is_initialized st then (st, ESP_ERR_INVALID_STATE, None)
      else case args of
             None \<Rightarrow> (st, ESP_ERR_INVALID_ARG, None)
           | Some a \<Rightarrow>
               if ca_callback a = 0 \<or> \<not> out_handle \<or> ca_dispatch_method a < 0 \<or> ca_dispatch_method a \<ge> 2
               then (st, ESP_ERR_INVALID_ARG, None)
               else case calloc of
                      None \<Rightarrow> (st, ESP_ERR_NO_MEM, None)
                    | Some h \<Rightarrow>
                        (update_timer h
                           \<lparr>alarm = 0, period = 0,
                            flags = (if ca_dispatch_method a \<noteq> 0 then FL_ISR_DISPATCH_METHOD else 0) OR
                                    (if ca_skip_unhandled_events a then FL_SKIP_UNHANDLED_EVENTS else 0),
                            callback = ca_callback a, arg = ca_arg a\<rparr> st, ESP_OK, Some h))"

definition esp_timer_start_once ::
  "64 word \<Rightarrow> esp_timer_handle_t option \<Rightarrow> 64 word \<Rightarrow> timer_state \<Rightarrow> (timer_state \<times> esp_err_t) option" where
  "esp_timer_start_once now timer timeout_us st =
     (case timer of
        None \<Rightarrow> Some (st, ESP_ERR_INVALID_ARG)
      | Some h \<Rightarrow>
          if \<not> is_initialized st then Some (st, ESP_ERR_INVALID_STATE)
          else do {
            t \<leftarrow> heap st h;
            let a = now + timeout_us;
            if timer_armed t then Some (st, ESP_ERR_INVALID_STATE)
            else do {
              st1 \<leftarrow> timer_insert h False (update_timer h (t\<lparr>alarm := a, period := 0\<rparr>) st);
              Some (st1, ESP_OK)
            }
          })"

definition esp_timer_start_periodic ::
  "64 word \<Rightarrow> esp_timer_handle_t option \<Rightarrow> 64 word \<Rightarrow> timer_state \<Rightarrow> (timer_state \<times> esp_err_t) option" where
  "esp_timer_start_periodic now timer period_us st =
     (case timer of
        None \<Rightarrow> Some (st, ESP_ERR_INVALID_ARG)
      | Some h \<Rightarrow>
          if \<not> is_initialized st then Some (st, ESP_ERR_INVALID_STATE)
          else do {
            t \<leftarrow> heap st h;
            let p = max period_us esp_timer_impl_get_min_period_us;
            let a = now + p;
            if timer_armed t then Some (st, ESP_ERR_INVALID_STATE)
            else do {
              st1 \<leftarrow> timer_insert h False (update_timer h (t\<lparr>alarm := a, period := ucast p\<rparr>) st);
              Some (st1, ESP_OK)
            }
          })"

definition esp_timer_restart ::
  "64 word \<Rightarrow> esp_timer_handle_t option \<Rightarrow> 64 word \<Rightarrow> timer_state \<Rightarrow> (timer_state \<times> esp_err_t) option" where
  "esp_timer_restart now timer timeout_us st =
     (case timer of
        None \<Rightarrow> Some (st, ESP_ERR_INVALID_ARG)
      | Some h \<Rightarrow>
          if \<not> is_initialized st then Some (st, ESP_ERR_INVALID_STATE)
          else do {
            t \<leftarrow> heap st h;
            if \<not> timer_armed t then Some (st, ESP_ERR_INVALID_STATE)
            else do {
              st1 \<leftarrow> timer_remove h st;
              t1 \<leftarrow> heap st1 h;
              let t2 = (if period t \<noteq> 0
                        then let new_period = max timeout_us esp_timer_impl_get_min_period_us
                             in t1\<lparr>alarm := now + new_period, period := ucast new_period\<rparr>
                        else t1\<lparr>alarm := now + timeout_us, period := 0\<rparr>);
              st2 \<leftarrow> timer_insert h False (update_timer h t2 st1);
              Some (st2, ESP_OK)
            }
          })"

definition esp_timer_stop ::
  "esp_timer_handle_t option \<Rightarrow> timer_state \<Rightarrow> (timer_state \<times> esp_err_t) option" where
  "esp_timer_stop timer st =
     (case timer of
        None \<Rightarrow> Some (st, ESP_ERR_INVALID_ARG)
      | Some h \<Rightarrow>
          if \<not> is_initialized st then Some (st, ESP_ERR_INVALID_STATE)
          else do {
            t \<leftarrow> heap st h;
            if \<not> timer_armed t then Some (st, ESP_ERR_INVALID_STATE)
            else do {
              st1 \<leftarrow> timer_remove h st;
              Some (st1, ESP_OK)
            }
          })"

definition esp_timer_delete ::
  "64 word \<Rightarrow> esp_timer_handle_t option \<Rightarrow> timer_state \<Rightarrow> (timer_state \<times> esp_err_t) option" where
  "esp_timer_delete now timer st =
     (case timer of
        None \<Rightarrow> Some (st, ESP_ERR_INVALID_ARG)
      | Some h \<Rightarrow> do {
          t \<leftarrow> heap st h;
          if timer_armed t then Some (st, ESP_ERR_INVALID_STATE)
          else do {
            st1 \<leftarrow> timer_insert h False
              (update_timer h (t\<lparr>flags := flags t AND NOT FL_ISR_DISPATCH_METHOD,
                                callback := EVENT_ID_DELETE_TIMER, alarm := now, period := 0\<rparr>) st);
            Some (st1, ESP_OK)
          }
        })"

section \<open>Processing alarms\<close>

text \<open>How often a periodic timer was missed: the quotient is kept in an \<open>int\<close>.\<close>

definition skipped_events :: "64 word \<Rightarrow> esp_timer \<Rightarrow> 32 word" where
  "skipped_events now t = ucast ((now - alarm t) div ucast (period t))"

definition next_alarm_of :: "64 word \<Rightarrow> esp_timer \<Rightarrow> 64 word" where
  "next_alarm_of now t =
     (if flags t AND FL_SKIP_UNHANDLED_EVENTS \<noteq> 0 \<and> sint (skipped_events now t) > 1
      then now + ucast (period t) else alarm t + ucast (period t))"

text \<open>One pass of the loop for a timer that is due.  The callback runs unlocked and may call
  the API: it is a function on the state.  \<open>called\<close> records the callbacks run, with the alarm
  and the time.\<close>

definition process_one ::
  "(32 word \<Rightarrow> nat \<Rightarrow> timer_state \<Rightarrow> timer_state option) \<Rightarrow> 64 word \<Rightarrow> esp_timer_handle_t
     \<Rightarrow> esp_timer \<Rightarrow> timer_state \<Rightarrow> timer_state option" where
  "process_one run_cb now it t st = do {
     st1 \<leftarrow> list_remove it st;
     if callback t = EVENT_ID_DELETE_TIMER
     then Some (st1\<lparr>heap := (heap st1)(it := None)\<rparr>)
     else do {
       st2 \<leftarrow> (if period t > 0
               then timer_insert it True (update_timer it (t\<lparr>alarm := next_alarm_of now t\<rparr>) st1)
               else Some (update_timer it (t\<lparr>alarm := 0\<rparr>) st1));
       run_cb (callback t) (arg t) (st2\<lparr>called := called st2 @ [(it, alarm t, now)]\<rparr>)
     }
   }"

text \<open>\<open>timer_process_alarm\<close>: each pass reads the time again, so the times are a list; running
  out of times before the loop ends is \<open>None\<close>.\<close>

fun timer_process_alarm_loop ::
  "(32 word \<Rightarrow> nat \<Rightarrow> timer_state \<Rightarrow> timer_state option) \<Rightarrow> esp_timer_dispatch_t \<Rightarrow> 64 word list
     \<Rightarrow> bool \<Rightarrow> timer_state \<Rightarrow> (timer_state \<times> bool) option" where
  "timer_process_alarm_loop run_cb d [] processed st = None"
| "timer_process_alarm_loop run_cb d (now # nows) processed st =
     (case s_timers st d of
        [] \<Rightarrow> Some (if processed then esp_timer_impl_set_alarm_id UINT64_MAX d st else st, processed)
      | it # its \<Rightarrow> do {
          t \<leftarrow> heap st it;
          if alarm t > now
          then Some (if d = ESP_TIMER_TASK \<or> processed
                     then esp_timer_impl_set_alarm_id (alarm t) d st else st, processed)
          else do {
            st1 \<leftarrow> process_one run_cb now it t st;
            timer_process_alarm_loop run_cb d nows True st1
          }
        })"

definition timer_process_alarm ::
  "(32 word \<Rightarrow> nat \<Rightarrow> timer_state \<Rightarrow> timer_state option) \<Rightarrow> esp_timer_dispatch_t \<Rightarrow> 64 word list
     \<Rightarrow> timer_state \<Rightarrow> (timer_state \<times> bool) option" where
  "timer_process_alarm run_cb d nows st = timer_process_alarm_loop run_cb d nows False st"

text \<open>The interrupt handler: the second result says whether the timer task is notified.\<close>

definition timer_alarm_handler ::
  "(32 word \<Rightarrow> nat \<Rightarrow> timer_state \<Rightarrow> timer_state option) \<Rightarrow> 64 word list \<Rightarrow> timer_state
     \<Rightarrow> (timer_state \<times> bool) option" where
  "timer_alarm_handler run_cb nows st = do {
     (st1, isr_timers_processed) \<leftarrow>
       timer_process_alarm run_cb ESP_TIMER_ISR nows (esp_timer_impl_try_to_set_next_alarm st);
     Some (st1, \<not> isr_timers_processed)
   }"

section \<open>Initialisation and queries\<close>

text \<open>\<open>create_ok\<close> and \<open>impl_err\<close> are the results of \<open>xTaskCreatePinnedToCore\<close> and
  \<open>esp_timer_impl_init\<close>.\<close>

definition init_timer_task :: "bool \<Rightarrow> timer_state \<Rightarrow> timer_state \<times> esp_err_t" where
  "init_timer_task create_ok st =
     (if is_initialized st then (st, ESP_ERR_INVALID_STATE)
      else if create_ok then (st\<lparr>s_timer_task := True\<rparr>, ESP_OK) else (st, ESP_ERR_NO_MEM))"

definition deinit_timer_task :: "timer_state \<Rightarrow> timer_state" where
  "deinit_timer_task st = st\<lparr>s_timer_task := False\<rparr>"

definition esp_timer_init :: "bool \<Rightarrow> esp_err_t \<Rightarrow> timer_state \<Rightarrow> timer_state \<times> esp_err_t" where
  "esp_timer_init create_ok impl_err st =
     (let (st1, err) = init_timer_task create_ok st
      in if err = ESP_OK
         then if impl_err \<noteq> ESP_OK then (deinit_timer_task st1, impl_err) else (st1, impl_err)
         else (st1, err))"

definition esp_timer_deinit :: "timer_state \<Rightarrow> timer_state \<times> esp_err_t" where
  "esp_timer_deinit st =
     (if \<not> is_initialized st then (st, ESP_ERR_INVALID_STATE)
      else if s_timers st ESP_TIMER_TASK \<noteq> [] \<or> s_timers st ESP_TIMER_ISR \<noteq> []
      then (st, ESP_ERR_INVALID_STATE)
      else (deinit_timer_task st, ESP_OK))"

definition next_of_list :: "timer_state \<Rightarrow> esp_timer_handle_t list \<Rightarrow> 64 word \<Rightarrow> 64 word option" where
  "next_of_list st l next_alarm =
     (case l of
        [] \<Rightarrow> Some next_alarm
      | it # its \<Rightarrow> map_option (\<lambda>t. if next_alarm > alarm t then alarm t else next_alarm) (heap st it))"

definition esp_timer_get_next_alarm :: "timer_state \<Rightarrow> 64 word option" where
  "esp_timer_get_next_alarm st = do {
     n \<leftarrow> next_of_list st (s_timers st ESP_TIMER_TASK) INT64_MAX;
     next_of_list st (s_timers st ESP_TIMER_ISR) n
   }"

fun next_wake_of_list :: "timer_state \<Rightarrow> esp_timer_handle_t list \<Rightarrow> 64 word \<Rightarrow> 64 word option" where
  "next_wake_of_list st [] next_alarm = Some next_alarm"
| "next_wake_of_list st (it # its) next_alarm = do {
     t \<leftarrow> heap st it;
     if flags t AND FL_SKIP_UNHANDLED_EVENTS = 0
     then Some (if next_alarm > alarm t then alarm t else next_alarm)
     else next_wake_of_list st its next_alarm
   }"

definition esp_timer_get_next_alarm_for_wake_up :: "timer_state \<Rightarrow> 64 word option" where
  "esp_timer_get_next_alarm_for_wake_up st = do {
     n \<leftarrow> next_wake_of_list st (s_timers st ESP_TIMER_TASK) INT64_MAX;
     next_wake_of_list st (s_timers st ESP_TIMER_ISR) n
   }"

text \<open>The queries return the error code and the value stored through the pointer.\<close>

definition esp_timer_get_period ::
  "esp_timer_handle_t option \<Rightarrow> bool \<Rightarrow> timer_state \<Rightarrow> (esp_err_t \<times> 64 word option) option" where
  "esp_timer_get_period timer out st =
     (case timer of
        None \<Rightarrow> Some (ESP_ERR_INVALID_ARG, None)
      | Some h \<Rightarrow> if \<not> out then Some (ESP_ERR_INVALID_ARG, None)
                  else map_option (\<lambda>t. (ESP_OK, Some (ucast (period t)))) (heap st h))"

definition esp_timer_get_expiry_time ::
  "esp_timer_handle_t option \<Rightarrow> bool \<Rightarrow> timer_state \<Rightarrow> (esp_err_t \<times> 64 word option) option" where
  "esp_timer_get_expiry_time timer out st =
     (case timer of
        None \<Rightarrow> Some (ESP_ERR_INVALID_ARG, None)
      | Some h \<Rightarrow> if \<not> out then Some (ESP_ERR_INVALID_ARG, None)
                  else do {
                    t \<leftarrow> heap st h;
                    Some (if period t > 0 then (ESP_ERR_NOT_SUPPORTED, None) else (ESP_OK, Some (alarm t)))
                  })"

definition esp_timer_is_active :: "esp_timer_handle_t option \<Rightarrow> timer_state \<Rightarrow> bool option" where
  "esp_timer_is_active timer st =
     (case timer of None \<Rightarrow> Some False | Some h \<Rightarrow> map_option timer_armed (heap st h))"

end
