(* ===== verification/Timer_Inv.thy ===== *)
theory Timer_Inv
  imports Timer
begin

text \<open>
  The invariant of the armed timers: each list holds exactly the armed timers of its
  dispatch method, once, in the order of their alarms, and the hardware alarm is that of the
  first timer.
\<close>

section \<open>The invariant\<close>

definition alarm_at :: "timer_state \<Rightarrow> esp_timer_handle_t \<Rightarrow> 64 word" where
  "alarm_at st h = (case heap st h of Some t \<Rightarrow> alarm t | None \<Rightarrow> 0)"

definition listed_ok :: "timer_state \<Rightarrow> bool" where
  "listed_ok st \<longleftrightarrow>
     (\<forall>d. distinct (s_timers st d)) \<and>
     (\<forall>d. \<forall>h \<in> set (s_timers st d). \<exists>t. heap st h = Some t \<and> dispatch_of t = d \<and> timer_armed t) \<and>
     (\<forall>d. sorted (map (alarm_at st) (s_timers st d)))"

definition armed_listed :: "timer_state \<Rightarrow> bool" where
  "armed_listed st \<longleftrightarrow>
     (\<forall>h t. heap st h = Some t \<longrightarrow> timer_armed t \<longrightarrow> h \<in> set (s_timers st (dispatch_of t)))"

definition timers_ok :: "timer_state \<Rightarrow> bool" where
  "timers_ok st \<longleftrightarrow> listed_ok st \<and> armed_listed st"

definition alarm_set :: "timer_state \<Rightarrow> esp_timer_dispatch_t \<Rightarrow> bool" where
  "alarm_set st d \<longleftrightarrow>
     timestamp_id st d = (case s_timers st d of [] \<Rightarrow> UINT64_MAX | h # hs \<Rightarrow> alarm_at st h)"

lemma timer_armed_iff: "timer_armed t \<longleftrightarrow> alarm t \<noteq> 0"
  by (simp add: timer_armed_def word_neq_0_conv)

lemma listed_heap:
  "listed_ok st \<Longrightarrow> h \<in> set (s_timers st d) \<Longrightarrow> \<exists>t. heap st h = Some t \<and> dispatch_of t = d \<and> timer_armed t"
  by (simp add: listed_ok_def)

lemma unarmed_not_listed:
  "listed_ok st \<Longrightarrow> heap st h = Some t \<Longrightarrow> \<not> timer_armed t \<Longrightarrow> h \<notin> set (s_timers st d)"
  using listed_heap by fastforce

lemma listed_in_own:
  "listed_ok st \<Longrightarrow> heap st h = Some t \<Longrightarrow> h \<in> set (s_timers st d) \<Longrightarrow> d = dispatch_of t"
  using listed_heap by fastforce

section \<open>Inserting into a sorted list\<close>

definition insert_stable :: "('a \<Rightarrow> 'b :: linorder) \<Rightarrow> 'b \<Rightarrow> 'a \<Rightarrow> 'a list \<Rightarrow> 'a list" where
  "insert_stable key a h l = takeWhile (\<lambda>x. key x \<le> a) l @ h # dropWhile (\<lambda>x. key x \<le> a) l"

lemma list_insert_eq:
  "\<forall>h \<in> set l. hp h \<noteq> None \<Longrightarrow>
     list_insert hp a h l = Some (insert_stable (\<lambda>x. case hp x of Some t \<Rightarrow> alarm t | None \<Rightarrow> 0) a h l)"
  by (induction l) (auto simp: insert_stable_def not_le)

lemma set_insert_stable [simp]: "set (insert_stable key a h l) = insert h (set l)"
  unfolding insert_stable_def by (metis list.simps(15) set_append takeWhile_dropWhile_id Un_insert_right)

lemma distinct_insert_stable: "distinct l \<Longrightarrow> h \<notin> set l \<Longrightarrow> distinct (insert_stable key a h l)"
  using distinct_append [of "takeWhile (\<lambda>x. key x \<le> a) l" "dropWhile (\<lambda>x. key x \<le> a) l"]
  by (auto simp: insert_stable_def dest: set_takeWhileD set_dropWhileD)

lemma sorted_insert_stable:
  assumes "sorted (map key l)"
  shows "sorted (map key (takeWhile (\<lambda>x. key x \<le> a) l) @ a # map key (dropWhile (\<lambda>x. key x \<le> a) l))"
  using assms
proof (induction l)
  case (Cons x l)
  show ?case
  proof (cases "key x \<le> a")
    case True
    then show ?thesis
      using Cons by (auto simp: dest: set_takeWhileD set_dropWhileD)
  next
    case False
    then show ?thesis using Cons.prems by (auto intro: order_trans less_imp_le)
  qed
qed simp

lemma insert_stable_first: "insert_stable key a h l \<noteq> []"
  by (simp add: insert_stable_def)

lemma hd_insert_stable:
  "hd (insert_stable key a h l) = (if l = [] \<or> \<not> key (hd l) \<le> a then h else hd l)"
  by (cases l) (auto simp: insert_stable_def)

section \<open>Arming\<close>

lemma alarm_at_update: "alarm_at (update_timer h t st) x = (if x = h then alarm t else alarm_at st x)"
  by (simp add: alarm_at_def update_timer_def)

lemma map_alarm_update:
  "h \<notin> set l \<Longrightarrow> map (alarm_at (update_timer h t st)) l = map (alarm_at st) l"
  by (auto simp: alarm_at_update)

text \<open>The state after arming: the timer is in its place, and the hardware alarm follows when
  it is the first.\<close>

definition armed_state :: "esp_timer_handle_t \<Rightarrow> esp_timer \<Rightarrow> bool \<Rightarrow> timer_state \<Rightarrow> timer_state" where
  "armed_state h t quiet st =
     (let d = dispatch_of t;
          l = insert_stable (alarm_at st) (alarm t) h (s_timers st d);
          st1 = st\<lparr>heap := (heap st)(h \<mapsto> t), s_timers := (s_timers st)(d := l)\<rparr>
      in if \<not> quiet \<and> hd l = h then esp_timer_impl_set_alarm_id (alarm t) d st1 else st1)"

lemma insert_stable_cong:
  assumes "\<And>x. x \<in> set l \<Longrightarrow> k1 x = k2 x"
  shows "insert_stable k1 a h l = insert_stable k2 a h l"
proof -
  have "takeWhile (\<lambda>x. k1 x \<le> a) l = takeWhile (\<lambda>x. k2 x \<le> a) l"
    by (rule takeWhile_cong) (simp_all add: assms)
  moreover have "dropWhile (\<lambda>x. k1 x \<le> a) l = dropWhile (\<lambda>x. k2 x \<le> a) l"
    by (rule dropWhile_cong) (simp_all add: assms)
  ultimately show ?thesis by (simp add: insert_stable_def)
qed

lemma timer_insert_eq:
  assumes ok: "listed_ok st" and h: "\<forall>d. h \<notin> set (s_timers st d)"
  shows "timer_insert h quiet (update_timer h t st) = Some (armed_state h t quiet st)"
proof -
  let ?st = "update_timer h t st" and ?d = "dispatch_of t"
  have al: "\<forall>x \<in> set (s_timers st ?d). heap ?st x \<noteq> None"
    using listed_heap [OF ok] by (fastforce simp: update_timer_def)
  have ne: "\<And>x. x \<in> set (s_timers st ?d) \<Longrightarrow> x \<noteq> h" using h by auto
  have "list_insert (heap ?st) (alarm t) h (s_timers st ?d) =
      Some (insert_stable (alarm_at ?st) (alarm t) h (s_timers st ?d))"
    using list_insert_eq [OF al] by (simp add: alarm_at_def [abs_def])
  also have "insert_stable (alarm_at ?st) (alarm t) h (s_timers st ?d) =
      insert_stable (alarm_at st) (alarm t) h (s_timers st ?d)"
    by (rule insert_stable_cong) (use ne in \<open>simp add: alarm_at_update\<close>)
  finally have "list_insert (heap ?st) (alarm t) h (s_timers st ?d) =
      Some (insert_stable (alarm_at st) (alarm t) h (s_timers st ?d))" .
  moreover have "heap ?st h = Some t" "s_timers ?st = s_timers st"
    "?st\<lparr>s_timers := f\<rparr> = st\<lparr>heap := (heap st)(h \<mapsto> t), s_timers := f\<rparr>" for f
    by (simp_all add: update_timer_def)
  ultimately show ?thesis
    by (simp only: timer_insert_def armed_state_def Let_def bind.bind_lunit)
qed

lemma armed_state_simps [simp]:
  "heap (armed_state h t quiet st) = (heap st)(h \<mapsto> t)"
  "s_timers (armed_state h t quiet st) =
     (s_timers st)(dispatch_of t := insert_stable (alarm_at st) (alarm t) h (s_timers st (dispatch_of t)))"
  "s_timer_task (armed_state h t quiet st) = s_timer_task st"
  "called (armed_state h t quiet st) = called st"
  by (simp_all add: armed_state_def Let_def esp_timer_impl_set_alarm_id_def)

lemma alarm_at_armed_state: "alarm_at (armed_state h t quiet st) x = (if x = h then alarm t else alarm_at st x)"
  by (simp add: alarm_at_def)

lemma armed_state_ok:
  assumes ok: "timers_ok st" and h: "\<forall>d. h \<notin> set (s_timers st d)" and t: "timer_armed t"
  shows "timers_ok (armed_state h t quiet st)"
proof -
  let ?st = "armed_state h t quiet st"
  have lok: "listed_ok st" and arm: "armed_listed st" using ok by (auto simp: timers_ok_def)
  have "sorted (map (alarm_at ?st) (s_timers ?st d))" for d
  proof (cases "d = dispatch_of t")
    case True
    let ?l = "s_timers st d" and ?P = "\<lambda>x. alarm_at st x \<le> alarm t"
    have ne: "map (alarm_at ?st) xs = map (alarm_at st) xs" if "set xs \<subseteq> set ?l" for xs
      using h that by (auto simp: alarm_at_armed_state)
    have sub: "set (takeWhile ?P ?l) \<subseteq> set ?l" "set (dropWhile ?P ?l) \<subseteq> set ?l"
      by (auto dest: set_takeWhileD set_dropWhileD)
    have i: "s_timers ?st d = takeWhile ?P ?l @ h # dropWhile ?P ?l"
      using True by (simp add: insert_stable_def)
    have "sorted (map (alarm_at st) ?l)" using lok by (simp add: listed_ok_def)
    note so = sorted_insert_stable [OF this, of "alarm t"]
    have "map (alarm_at ?st) (s_timers ?st d) =
        map (alarm_at st) (takeWhile ?P ?l) @ alarm t # map (alarm_at st) (dropWhile ?P ?l)"
      unfolding i map_append list.map(2) ne [OF sub(1)] ne [OF sub(2)] by (simp add: alarm_at_armed_state)
    then show ?thesis using so by (simp only:)
  next
    case False
    have "map (alarm_at ?st) (s_timers st d) = map (alarm_at st) (s_timers st d)"
      using h by (auto simp: alarm_at_armed_state)
    moreover have "s_timers ?st d = s_timers st d" using False by simp
    ultimately show ?thesis using lok by (simp only: listed_ok_def)
  qed
  moreover have "\<forall>d. distinct (s_timers ?st d)"
    using lok h by (simp add: listed_ok_def distinct_insert_stable)
  moreover have "\<exists>t'. heap ?st x = Some t' \<and> dispatch_of t' = d \<and> timer_armed t'" if "x \<in> set (s_timers ?st d)" for x d
    using that listed_heap [OF lok, of x d] h t by (auto split: if_splits)
  moreover have "armed_listed ?st"
    unfolding armed_listed_def
  proof (intro allI impI)
    fix x t' assume x: "heap ?st x = Some t'" "timer_armed t'"
    show "x \<in> set (s_timers ?st (dispatch_of t'))"
    proof (cases "x = h")
      case False
      then have "x \<in> set (s_timers st (dispatch_of t'))" using arm x by (simp add: armed_listed_def)
      then show ?thesis by auto
    qed (use x in auto)
  qed
  ultimately show ?thesis by (auto simp: timers_ok_def listed_ok_def)
qed

lemma armed_state_alarm:
  assumes ok: "listed_ok st" and h: "\<forall>d. h \<notin> set (s_timers st d)" and set: "alarm_set st d"
  shows "alarm_set (armed_state h t False st) d"
proof -
  let ?st = "armed_state h t False st" and ?l = "s_timers st (dispatch_of t)"
  let ?i = "insert_stable (alarm_at st) (alarm t) h ?l"
  have ts: "timestamp_id ?st =
      (if hd ?i = h then (timestamp_id st)(dispatch_of t := alarm t) else timestamp_id st)"
    by (simp add: armed_state_def Let_def esp_timer_impl_set_alarm_id_def)
  have first: "(case s_timers ?st (dispatch_of t) of [] \<Rightarrow> UINT64_MAX | x # xs \<Rightarrow> alarm_at ?st x) =
      (if hd ?i = h then alarm t else alarm_at st (hd ?i))"
    using insert_stable_first [of "alarm_at st" "alarm t" h ?l] by (cases ?i) (auto simp: alarm_at_armed_state)
  show ?thesis
  proof (cases "d = dispatch_of t")
    case True
    have "hd ?i \<noteq> h \<Longrightarrow> ?l \<noteq> [] \<and> hd ?i = hd ?l"
      by (auto simp: hd_insert_stable split: if_splits)
    then show ?thesis
      using set first ts True unfolding alarm_set_def by (cases ?l) (auto split: if_splits)
  next
    case False
    then have "s_timers ?st d = s_timers st d" "timestamp_id ?st d = timestamp_id st d" using ts by auto
    moreover have "alarm_at ?st x = alarm_at st x" if "s_timers st d = x # xs" for x xs
      using h that by (metis alarm_at_armed_state list.set_intros(1))
    ultimately show ?thesis using set unfolding alarm_set_def
      by (cases "s_timers st d") (auto simp del: armed_state_simps)
  qed
qed

end
