(* ===== verification/Timer_Ops.thy ===== *)
theory Timer_Ops
  imports Timer_Inv
begin

text \<open>
  Disarming, and the step relation of the API: every call that a task or a callback may make
  keeps the invariant of the armed timers and the alarm registers.
\<close>

section \<open>Disarming\<close>

lemma timers_ok_cong:
  assumes "timers_ok st" "heap st' = heap st" "s_timers st' = s_timers st"
  shows "timers_ok st'"
proof -
  have "alarm_at st' = alarm_at st" using assms by (simp add: alarm_at_def fun_eq_iff)
  then show ?thesis using assms by (simp add: timers_ok_def listed_ok_def armed_listed_def)
qed

lemma in_both_lists: "(\<exists>d \<in> {ESP_TIMER_TASK, ESP_TIMER_ISR}. P d) \<longleftrightarrow> (\<exists>d. P d)"
  by (auto, metis esp_timer_dispatch_t.exhaust)

text \<open>Taking a timer out of its list, and what is stored for it afterwards.\<close>

definition taken_out :: "esp_timer_handle_t \<Rightarrow> esp_timer option \<Rightarrow> timer_state \<Rightarrow> timer_state" where
  "taken_out h ot st = st\<lparr>heap := (heap st)(h := ot), s_timers := (\<lambda>d. remove1 h (s_timers st d))\<rparr>"

lemma taken_out_simps [simp]:
  "heap (taken_out h ot st) = (heap st)(h := ot)"
  "s_timers (taken_out h ot st) d = remove1 h (s_timers st d)"
  "timestamp_id (taken_out h ot st) = timestamp_id st"
  "called (taken_out h ot st) = called st"
  "s_timer_task (taken_out h ot st) = s_timer_task st"
  by (simp_all add: taken_out_def)

lemma list_remove_eq:
  assumes "h \<in> set (s_timers st d)"
  shows "list_remove h st = Some (st\<lparr>s_timers := (\<lambda>d. remove1 h (s_timers st d))\<rparr>)"
proof -
  have "\<exists>d \<in> {ESP_TIMER_TASK, ESP_TIMER_ISR}. h \<in> set (s_timers st d)"
    unfolding in_both_lists using assms by blast
  then show ?thesis by (simp only: list_remove_def assert_that_bind)
qed

lemma alarm_at_taken_out: "x \<noteq> h \<Longrightarrow> alarm_at (taken_out h ot st) x = alarm_at st x"
  by (simp add: alarm_at_def)

lemma sorted_map_remove1: "sorted (map f l) \<Longrightarrow> sorted (map f (remove1 x l))"
proof (induction l)
  case (Cons a l)
  then show ?case by (cases "a = x") (auto dest: notin_set_remove1 [THEN contrapos_nn] set_remove1_subset [THEN subsetD])
qed simp

lemma taken_out_ok:
  assumes ok: "timers_ok st" and u: "\<And>t. ot = Some t \<Longrightarrow> \<not> timer_armed t"
  shows "timers_ok (taken_out h ot st)"
    and "h \<notin> set (s_timers (taken_out h ot st) d)"
proof -
  let ?st = "taken_out h ot st"
  have lok: "listed_ok st" and arm: "armed_listed st" using ok by (auto simp: timers_ok_def)
  have dis: "distinct (s_timers st d)" for d using lok by (simp add: listed_ok_def)
  have out: "h \<notin> set (s_timers ?st d)" for d using dis [of d] by simp
  then show "h \<notin> set (s_timers ?st d)" .
  have "sorted (map (alarm_at ?st) (s_timers ?st d))" for d
  proof -
    have "map (alarm_at ?st) (s_timers ?st d) = map (alarm_at st) (s_timers ?st d)"
      using out [of d] by (intro map_cong refl) (metis alarm_at_taken_out)
    moreover have "sorted (map (alarm_at st) (s_timers ?st d))"
      using lok by (simp add: listed_ok_def sorted_map_remove1)
    ultimately show ?thesis by (simp only:)
  qed
  moreover have "\<exists>t. heap ?st x = Some t \<and> dispatch_of t = d \<and> timer_armed t" if "x \<in> set (s_timers ?st d)" for x d
  proof -
    have "x \<noteq> h" "x \<in> set (s_timers st d)" using that out [of d] dis [of d] by auto
    then show ?thesis using listed_heap [OF lok] by simp
  qed
  moreover have "armed_listed ?st"
    unfolding armed_listed_def
  proof (intro allI impI)
    fix x t assume x: "heap ?st x = Some t" "timer_armed t"
    then have "x \<noteq> h" using u by auto
    then show "x \<in> set (s_timers ?st (dispatch_of t))"
      using arm x by (auto simp: armed_listed_def)
  qed
  ultimately show "timers_ok ?st" using dis by (simp add: timers_ok_def listed_ok_def)
qed

text \<open>The state after \<open>timer_remove\<close>: the hardware alarm follows when the first timer left.\<close>

definition disarmed_state :: "esp_timer_handle_t \<Rightarrow> esp_timer \<Rightarrow> timer_state \<Rightarrow> timer_state" where
  "disarmed_state h t st =
     (let d = dispatch_of t; st1 = taken_out h (Some (t\<lparr>alarm := 0, period := 0\<rparr>)) st
      in if hd (s_timers st d) = h
         then esp_timer_impl_set_alarm_id
                (case s_timers st1 d of [] \<Rightarrow> UINT64_MAX | f # fs \<Rightarrow> alarm_at st1 f) d st1
         else st1)"

lemma disarmed_state_simps [simp]:
  "heap (disarmed_state h t st) = (heap st)(h \<mapsto> t\<lparr>alarm := 0, period := 0\<rparr>)"
  "s_timers (disarmed_state h t st) d = remove1 h (s_timers st d)"
  "s_timer_task (disarmed_state h t st) = s_timer_task st"
  "called (disarmed_state h t st) = called st"
  by (simp_all add: disarmed_state_def Let_def esp_timer_impl_set_alarm_id_def)

lemma dispatch_of_more [simp]:
  "dispatch_of (t\<lparr>alarm := a\<rparr>) = dispatch_of t" "dispatch_of (t\<lparr>period := p\<rparr>) = dispatch_of t"
  by (simp_all add: dispatch_of_def)

lemma timer_remove_eq:
  assumes ok: "timers_ok st" and h: "heap st h = Some t" and t: "timer_armed t"
  shows "timer_remove h st = Some (disarmed_state h t st)"
proof -
  let ?d = "dispatch_of t"
  let ?st = "taken_out h (Some (t\<lparr>alarm := 0, period := 0\<rparr>)) st"
  have lok: "listed_ok st" and inl: "h \<in> set (s_timers st ?d)"
    using ok h t by (auto simp: timers_ok_def armed_listed_def)
  have ok1: "timers_ok ?st" by (rule taken_out_ok [OF ok]) (auto simp: timer_armed_def)
  have st: "update_timer h (t\<lparr>alarm := 0, period := 0\<rparr>) (st\<lparr>s_timers := \<lambda>d. remove1 h (s_timers st d)\<rparr>) = ?st"
    by (simp add: update_timer_def taken_out_def)
  have first: "(case s_timers ?st ?d of [] \<Rightarrow> Some UINT64_MAX | f # fs \<Rightarrow> map_option alarm (heap ?st f)) =
      Some (case s_timers ?st ?d of [] \<Rightarrow> UINT64_MAX | f # fs \<Rightarrow> alarm_at ?st f)"
  proof (cases "s_timers ?st ?d")
    case (Cons f fs)
    then have "f \<in> set (s_timers ?st ?d)" by simp
    then obtain tf where "heap ?st f = Some tf"
      using listed_heap [of ?st f ?d] ok1 unfolding timers_ok_def by blast
    then show ?thesis using Cons by (simp add: alarm_at_def)
  qed simp
  have ne: "s_timers st ?d \<noteq> []" using inl by auto
  show ?thesis
    unfolding timer_remove_def h list_remove_eq [OF inl] bind.bind_lunit Let_def st first disarmed_state_def
    using ne by simp
qed

lemma disarmed_state_ok:
  assumes ok: "timers_ok st"
  shows "timers_ok (disarmed_state h t st)"
    and "h \<notin> set (s_timers (disarmed_state h t st) d)"
proof -
  let ?st = "taken_out h (Some (t\<lparr>alarm := 0, period := 0\<rparr>)) st"
  have "timers_ok ?st" by (rule taken_out_ok [OF ok]) (auto simp: timer_armed_def)
  then show "timers_ok (disarmed_state h t st)"
    by (rule timers_ok_cong) (simp_all add: fun_eq_iff)
  have "distinct (s_timers st d)" using ok by (simp add: timers_ok_def listed_ok_def)
  then show "h \<notin> set (s_timers (disarmed_state h t st) d)" by simp
qed

lemma hd_remove1: "l \<noteq> [] \<Longrightarrow> hd l \<noteq> h \<Longrightarrow> remove1 h l \<noteq> [] \<and> hd (remove1 h l) = hd l"
  by (cases l) auto

lemma disarmed_state_alarm:
  assumes ok: "timers_ok st" and h: "heap st h = Some t" and t: "timer_armed t" and set: "alarm_set st d"
  shows "alarm_set (disarmed_state h t st) d"
proof -
  let ?st = "disarmed_state h t st" and ?d = "dispatch_of t"
  let ?st1 = "taken_out h (Some (t\<lparr>alarm := 0, period := 0\<rparr>)) st"
  have al: "alarm_at ?st = alarm_at ?st1" by (simp add: alarm_at_def fun_eq_iff)
  have other: "alarm_at ?st x = alarm_at st x" if "x \<noteq> h" for x
    using that by (simp add: al alarm_at_taken_out)
  show ?thesis
  proof (cases "d = ?d \<and> hd (s_timers st ?d) = h")
    case True
    then show ?thesis
      unfolding alarm_set_def al by (simp add: disarmed_state_def Let_def esp_timer_impl_set_alarm_id_def)
  next
    case False
    have ts: "timestamp_id ?st d = timestamp_id st d"
      using False by (auto simp: disarmed_state_def Let_def esp_timer_impl_set_alarm_id_def)
    have nh: "s_timers st d \<noteq> [] \<Longrightarrow> hd (s_timers st d) \<noteq> h"
      using False listed_in_own [of st h t d] ok h unfolding timers_ok_def by (metis list.set_sel(1))
    show ?thesis
    proof (cases "s_timers st d")
      case Nil
      then show ?thesis using set ts by (simp add: alarm_set_def)
    next
      case (Cons x xs)
      then have "s_timers ?st d = x # remove1 h xs" "x \<noteq> h" using nh by auto
      then show ?thesis using set ts Cons other by (simp add: alarm_set_def)
    qed
  qed
qed

section \<open>The calls of the API\<close>

text \<open>A call reads the time \<open>now\<close>, which is not negative.  \<open>calloc\<close> gives a handle that is not
  in use.  An alarm of 0 means that the timer is not armed, so the rules ask that the new alarm is
  not 0: it is 0 only when the time and the delay are both 0, or when their sum wraps.\<close>

inductive timer_call :: "timer_state \<Rightarrow> timer_state \<Rightarrow> bool" where
  create: "esp_timer_create args out calloc st = (st', err, r) \<Longrightarrow>
    (\<And>h. calloc = Some h \<Longrightarrow> heap st h = None) \<Longrightarrow> timer_call st st'"
| start_once: "esp_timer_start_once now timer us st = Some (st', err) \<Longrightarrow>
    now + us \<noteq> 0 \<Longrightarrow> timer_call st st'"
| start_periodic: "esp_timer_start_periodic now timer us st = Some (st', err) \<Longrightarrow>
    now + max us esp_timer_impl_get_min_period_us \<noteq> 0 \<Longrightarrow> timer_call st st'"
| restart: "esp_timer_restart now timer us st = Some (st', err) \<Longrightarrow>
    now + us \<noteq> 0 \<Longrightarrow> now + max us esp_timer_impl_get_min_period_us \<noteq> 0 \<Longrightarrow> timer_call st st'"
| stop: "esp_timer_stop timer st = Some (st', err) \<Longrightarrow> timer_call st st'"
| delete: "esp_timer_delete now timer st = Some (st', err) \<Longrightarrow> now \<noteq> 0 \<Longrightarrow> timer_call st st'"

text \<open>What one call keeps: the timers, the alarm registers that were set, the callback log.\<close>

definition call_keeps :: "timer_state \<Rightarrow> timer_state \<Rightarrow> bool" where
  "call_keeps st st' \<longleftrightarrow>
     timers_ok st' \<and> (\<forall>d. alarm_set st d \<longrightarrow> alarm_set st' d) \<and> called st' = called st"

lemma call_keeps_refl: "timers_ok st \<Longrightarrow> call_keeps st st"
  by (simp add: call_keeps_def)

lemma call_keeps_trans: "call_keeps a b \<Longrightarrow> call_keeps b c \<Longrightarrow> call_keeps a c"
  by (simp add: call_keeps_def)

lemma arm_keeps:
  assumes ok: "timers_ok st" and h: "\<forall>d. h \<notin> set (s_timers st d)" and t: "alarm t \<noteq> 0"
  shows "timer_insert h False (update_timer h t st) = Some (armed_state h t False st)"
    and "call_keeps st (armed_state h t False st)"
proof -
  have lok: "listed_ok st" using ok by (simp add: timers_ok_def)
  show "timer_insert h False (update_timer h t st) = Some (armed_state h t False st)"
    by (rule timer_insert_eq [OF lok h])
  show "call_keeps st (armed_state h t False st)"
    using armed_state_ok [OF ok h] armed_state_alarm [OF lok h] t
    by (simp add: call_keeps_def timer_armed_iff)
qed

lemma disarm_keeps:
  assumes "timers_ok st" "heap st h = Some t" "timer_armed t"
  shows "call_keeps st (disarmed_state h t st)"
  using assms disarmed_state_ok(1) disarmed_state_alarm by (auto simp: call_keeps_def)

lemma unarmed_nowhere:
  "timers_ok st \<Longrightarrow> heap st h = Some t \<Longrightarrow> \<not> timer_armed t \<Longrightarrow> \<forall>d. h \<notin> set (s_timers st d)"
  using unarmed_not_listed by (auto simp: timers_ok_def)

lemma create_keeps:
  assumes ok: "timers_ok st" and c: "esp_timer_create args out calloc st = (st', err, r)"
    and fresh: "\<And>h. calloc = Some h \<Longrightarrow> heap st h = None"
  shows "call_keeps st st'"
proof (cases "st' = st")
  case False
  then obtain h t where ca: "calloc = Some h" and st': "st' = update_timer h t st" and t: "alarm t = 0"
    using c by (auto simp: esp_timer_create_def split: if_splits option.splits)
  have lok: "listed_ok st" and arm: "armed_listed st" using ok by (auto simp: timers_ok_def)
  have no: "\<forall>d. h \<notin> set (s_timers st d)" using listed_heap [OF lok] fresh [OF ca] by fastforce
  have hp: "heap st' = (heap st)(h \<mapsto> t)" "s_timers st' = s_timers st"
    "timestamp_id st' = timestamp_id st" "called st' = called st"
    by (simp_all add: st' update_timer_def)
  have al: "map (alarm_at st') (s_timers st d) = map (alarm_at st) (s_timers st d)" for d
    unfolding st' using no map_alarm_update by blast
  have "listed_ok st'"
    unfolding listed_ok_def hp al
  proof (intro conjI allI ballI)
    fix d x assume x: "x \<in> set (s_timers st d)"
    then have "x \<noteq> h" using no by auto
    then show "\<exists>t'. ((heap st)(h \<mapsto> t)) x = Some t' \<and> dispatch_of t' = d \<and> timer_armed t'"
      using listed_heap [OF lok x] by simp
  qed (use lok in \<open>auto simp: listed_ok_def\<close>)
  moreover have "armed_listed st'"
    using arm t by (auto simp: armed_listed_def hp timer_armed_iff)
  moreover have "alarm_set st' d" if "alarm_set st d" for d
    using that al [of d] by (cases "s_timers st d") (simp_all add: alarm_set_def hp)
  ultimately show ?thesis by (simp add: call_keeps_def timers_ok_def hp)
qed (use ok call_keeps_refl in simp)

lemma start_keeps:
  assumes ok: "timers_ok st" and h: "heap st h = Some t" and u: "\<not> timer_armed t"
    and a: "alarm t' \<noteq> 0"
  shows "timer_insert h False (update_timer h t' st) = Some (armed_state h t' False st)"
    and "call_keeps st (armed_state h t' False st)"
  using arm_keeps [OF ok unarmed_nowhere [OF ok h u] a] by auto

lemma start_once_eq:
  assumes "s_timer_task st" "heap st h = Some t" "\<not> timer_armed t" "timers_ok st" "now + us \<noteq> 0"
  shows "esp_timer_start_once now (Some h) us st =
    Some (armed_state h (t\<lparr>alarm := now + us, period := 0\<rparr>) False st, ESP_OK)"
  using assms start_keeps(1) [of st h t "t\<lparr>alarm := now + us, period := 0\<rparr>"]
  by (simp add: esp_timer_start_once_def is_initialized_def)

lemma start_periodic_eq:
  fixes us
  defines "p \<equiv> max us esp_timer_impl_get_min_period_us"
  assumes "s_timer_task st" "heap st h = Some t" "\<not> timer_armed t" "timers_ok st" "now + p \<noteq> 0"
  shows "esp_timer_start_periodic now (Some h) us st =
    Some (armed_state h (t\<lparr>alarm := now + p, period := ucast p\<rparr>) False st, ESP_OK)"
  using assms start_keeps(1) [of st h t "t\<lparr>alarm := now + p, period := ucast p\<rparr>"]
  by (simp add: esp_timer_start_periodic_def is_initialized_def Let_def)

lemma stop_eq:
  assumes "s_timer_task st" "heap st h = Some t" "timer_armed t" "timers_ok st"
  shows "esp_timer_stop (Some h) st = Some (disarmed_state h t st, ESP_OK)"
  using assms timer_remove_eq by (simp add: esp_timer_stop_def is_initialized_def)

lemma delete_eq:
  assumes "heap st h = Some t" "\<not> timer_armed t" "timers_ok st" "now \<noteq> 0"
  shows "esp_timer_delete now (Some h) st =
    Some (armed_state h (t\<lparr>flags := flags t AND NOT FL_ISR_DISPATCH_METHOD,
            callback := EVENT_ID_DELETE_TIMER, alarm := now, period := 0\<rparr>) False st, ESP_OK)"
  using assms start_keeps(1) [of st h t "t\<lparr>flags := flags t AND NOT FL_ISR_DISPATCH_METHOD,
            callback := EVENT_ID_DELETE_TIMER, alarm := now, period := 0\<rparr>"]
  by (simp add: esp_timer_delete_def)

text \<open>Restarting is stopping and starting again, with the kind of timer kept.\<close>

definition stop_and_start ::
  "64 word \<Rightarrow> esp_timer_handle_t \<Rightarrow> 64 word \<Rightarrow> timer_state \<Rightarrow> (timer_state \<times> esp_err_t) option" where
  "stop_and_start now h us st = do {
     t \<leftarrow> heap st h;
     (st1, err) \<leftarrow> esp_timer_stop (Some h) st;
     if err \<noteq> ESP_OK then Some (st1, err)
     else if period t \<noteq> 0 then esp_timer_start_periodic now (Some h) us st1
     else esp_timer_start_once now (Some h) us st1
   }"

lemma restart_eq_stop_and_start:
  assumes ok: "timers_ok st" and h: "heap st h = Some t"
  shows "esp_timer_restart now (Some h) us st = stop_and_start now h us st"
proof (cases "s_timer_task st \<and> timer_armed t")
  case True
  then have stop: "esp_timer_stop (Some h) st = Some (disarmed_state h t st, ESP_OK)"
    and rm: "timer_remove h st = Some (disarmed_state h t st)"
    using stop_eq timer_remove_eq ok h by auto
  have un: "\<not> timer_armed (t\<lparr>alarm := 0, period := 0\<rparr>)" by (simp add: timer_armed_def)
  show ?thesis
    using True h by (simp add: esp_timer_restart_def stop_and_start_def stop rm Let_def un
        esp_timer_start_once_def esp_timer_start_periodic_def is_initialized_def)
next
  case False
  then show ?thesis
    using h by (auto simp: esp_timer_restart_def stop_and_start_def esp_timer_stop_def is_initialized_def)
qed

lemma start_once_keeps:
  assumes ok: "timers_ok st" and c: "esp_timer_start_once now timer us st = Some (st', err)" and a: "now + us \<noteq> 0"
  shows "call_keeps st st'"
proof (cases "st' = st")
  case False
  then obtain h t where h: "timer = Some h" "heap st h = Some t" "\<not> timer_armed t" "s_timer_task st"
    using c by (auto simp: esp_timer_start_once_def is_initialized_def Let_def split: option.splits if_splits bind_splits)
  then show ?thesis
    using start_once_eq [OF h(4) h(2,3) ok a] start_keeps(2) [OF ok h(2,3)] a c by auto
qed (use ok call_keeps_refl in simp)

lemma start_periodic_keeps:
  assumes ok: "timers_ok st" and c: "esp_timer_start_periodic now timer us st = Some (st', err)"
    and a: "now + max us esp_timer_impl_get_min_period_us \<noteq> 0"
  shows "call_keeps st st'"
proof (cases "st' = st")
  case False
  then obtain h t where h: "timer = Some h" "heap st h = Some t" "\<not> timer_armed t" "s_timer_task st"
    using c by (auto simp: esp_timer_start_periodic_def is_initialized_def Let_def split: option.splits if_splits bind_splits)
  then show ?thesis
    using start_periodic_eq [OF h(4) h(2,3) ok a] start_keeps(2) [OF ok h(2,3)] a c by auto
qed (use ok call_keeps_refl in simp)

lemma stop_keeps:
  assumes ok: "timers_ok st" and c: "esp_timer_stop timer st = Some (st', err)"
  shows "call_keeps st st'"
proof (cases "st' = st")
  case False
  then obtain h t where h: "timer = Some h" "heap st h = Some t" "timer_armed t" "s_timer_task st"
    using c by (auto simp: esp_timer_stop_def is_initialized_def Let_def split: option.splits if_splits bind_splits)
  then show ?thesis using stop_eq [OF h(4) h(2,3) ok] disarm_keeps [OF ok h(2,3)] c by simp
qed (use ok call_keeps_refl in simp)

lemma delete_keeps:
  assumes ok: "timers_ok st" and c: "esp_timer_delete now timer st = Some (st', err)" and a: "now \<noteq> 0"
  shows "call_keeps st st'"
proof (cases "st' = st")
  case False
  then obtain h t where h: "timer = Some h" "heap st h = Some t" "\<not> timer_armed t"
    using c by (auto simp: esp_timer_delete_def Let_def split: option.splits if_splits bind_splits)
  then show ?thesis
    using delete_eq [OF h(2,3) ok a] start_keeps(2) [OF ok h(2,3)] a c by auto
qed (use ok call_keeps_refl in simp)

lemma restart_keeps:
  assumes ok: "timers_ok st" and c: "esp_timer_restart now timer us st = Some (st', err)"
    and a: "now + us \<noteq> 0" "now + max us esp_timer_impl_get_min_period_us \<noteq> 0"
  shows "call_keeps st st'"
proof (cases "st' = st")
  case False
  then obtain h t where h: "timer = Some h" "heap st h = Some t"
    using c by (auto simp: esp_timer_restart_def is_initialized_def Let_def split: option.splits if_splits bind_splits)
  have s: "stop_and_start now h us st = Some (st', err)"
    using c restart_eq_stop_and_start [OF ok h(2)] h(1) by simp
  obtain st1 e where stop: "esp_timer_stop (Some h) st = Some (st1, e)"
    using s h(2) by (cases "esp_timer_stop (Some h) st") (auto simp: stop_and_start_def)
  have k1: "call_keeps st st1" by (rule stop_keeps [OF ok stop])
  then have ok1: "timers_ok st1" by (simp add: call_keeps_def)
  have "call_keeps st1 st'"
    using s h(2) stop start_once_keeps [OF ok1 _ a(1)] start_periodic_keeps [OF ok1 _ a(2)] call_keeps_refl [OF ok1]
    by (auto simp: stop_and_start_def split: if_splits)
  then show ?thesis by (rule call_keeps_trans [OF k1])
qed (use ok call_keeps_refl in simp)

lemma timer_call_keeps: "timer_call st st' \<Longrightarrow> timers_ok st \<Longrightarrow> call_keeps st st'"
  by (induction rule: timer_call.induct)
     (rule create_keeps start_once_keeps start_periodic_keeps restart_keeps stop_keeps delete_keeps; assumption?; simp)+

lemma timer_calls_keep: "timer_call\<^sup>*\<^sup>* st st' \<Longrightarrow> timers_ok st \<Longrightarrow> call_keeps st st'"
proof (induction rule: rtranclp_induct)
  case base
  then show ?case by (rule call_keeps_refl)
next
  case (step y z)
  then show ?case using timer_call_keeps call_keeps_trans unfolding call_keeps_def by metis
qed

end
