(* ===== verification/Timer_Loop.thy ===== *)
theory Timer_Loop
  imports Timer_Ops
begin

text \<open>
  The alarm loop: what one pass and a whole run keep, that a run ends, and which callbacks it runs.
\<close>

section \<open>One pass\<close>

text \<open>Callbacks run unlocked and may only use the API.\<close>

definition callbacks_call ::
  "(32 word \<Rightarrow> nat \<Rightarrow> timer_state \<Rightarrow> timer_state option) \<Rightarrow> bool" where
  "callbacks_call run_cb \<longleftrightarrow> (\<forall>cb a s s'. run_cb cb a s = Some s' \<longrightarrow> timer_call\<^sup>*\<^sup>* s s')"

lemma unat_INT64_MAX: "unat INT64_MAX = 9223372036854775807"
  by (simp add: INT64_MAX_def)

lemma unat_plus_period:
  fixes p :: "56 word"
  assumes "a \<le> INT64_MAX"
  shows "unat (a + ucast p) = unat a + unat p"
proof -
  have "unat a \<le> 9223372036854775807" using assms by (simp add: word_le_nat_alt unat_INT64_MAX)
  moreover have "unat p < 2 ^ LENGTH(56)" by (rule unsigned_less)
  moreover have "unat (ucast p :: 64 word) = unat p"
    by (simp add: uint_up_ucast is_up flip: nat_uint_eq)
  ultimately show ?thesis by (simp add: unat_word_ariths(1))
qed

lemma next_alarm_later:
  assumes "alarm t \<le> now" "now \<le> INT64_MAX" "period t > 0"
  shows "next_alarm_of now t > alarm t"
proof -
  have "alarm t \<le> INT64_MAX" using assms(1,2) by (rule order_trans)
  moreover have "unat (period t) > 0" using assms(3) by (simp add: word_less_nat_alt)
  ultimately show ?thesis
    using assms(1,2) by (simp add: next_alarm_of_def word_less_nat_alt unat_plus_period word_le_nat_alt)
qed

text \<open>The state when the callback is about to run.\<close>

definition after_pass :: "64 word \<Rightarrow> esp_timer_handle_t \<Rightarrow> esp_timer \<Rightarrow> timer_state \<Rightarrow> timer_state" where
  "after_pass now it t st =
     (if callback t = EVENT_ID_DELETE_TIMER then taken_out it None st
      else if period t > 0
      then armed_state it (t\<lparr>alarm := next_alarm_of now t\<rparr>) True (taken_out it None st)
      else taken_out it (Some (t\<lparr>alarm := 0\<rparr>)) st)"

definition log_call :: "64 word \<Rightarrow> esp_timer_handle_t \<Rightarrow> esp_timer \<Rightarrow> (esp_timer_handle_t \<times> 64 word \<times> 64 word) list" where
  "log_call now it t = (if callback t = EVENT_ID_DELETE_TIMER then [] else [(it, alarm t, now)])"

lemma taken_out_listed:
  assumes "timers_ok st"
  shows "timers_ok (taken_out h None st)" "\<forall>d. h \<notin> set (s_timers (taken_out h None st) d)"
  using taken_out_ok [OF assms, of None] by auto

lemma process_one_eq:
  assumes ok: "timers_ok st" and it: "it \<in> set (s_timers st d)"
  shows "process_one run_cb now it t st =
     (if callback t = EVENT_ID_DELETE_TIMER then Some (after_pass now it t st)
      else run_cb (callback t) (arg t)
             ((after_pass now it t st)\<lparr>called := called st @ [(it, alarm t, now)]\<rparr>))"
proof -
  let ?st1 = "st\<lparr>s_timers := \<lambda>d. remove1 it (s_timers st d)\<rparr>"
  have up: "update_timer it u ?st1 = update_timer it u (taken_out it None st)"
    "update_timer it u ?st1 = taken_out it (Some u) st"
    "?st1\<lparr>heap := (heap ?st1)(it := None)\<rparr> = taken_out it None st" for u
    by (simp_all add: update_timer_def taken_out_def)
  have lok: "listed_ok (taken_out it None st)"
    using taken_out_listed(1) [OF ok] by (simp add: timers_ok_def)
  note ins = timer_insert_eq [OF lok taken_out_listed(2) [OF ok],
      where t = "t\<lparr>alarm := next_alarm_of now t\<rparr>" and quiet = True]
  show ?thesis
    unfolding process_one_def list_remove_eq [OF it] bind.bind_lunit after_pass_def up(3)
    using ins by (simp add: up del: fun_upd_apply) (simp add: up(1) [symmetric] up(2))
qed

lemma after_pass_ok:
  assumes ok: "timers_ok st" and a: "alarm t \<le> now" "now \<le> INT64_MAX"
  shows "timers_ok (after_pass now it t st)"
proof (cases "callback t \<noteq> EVENT_ID_DELETE_TIMER \<and> period t > 0")
  case True
  have "alarm t < next_alarm_of now t" using next_alarm_later [OF a] True by simp
  then have "timer_armed (t\<lparr>alarm := next_alarm_of now t\<rparr>)"
    by (auto simp: timer_armed_iff)
  then show ?thesis
    using armed_state_ok [OF taken_out_listed [OF ok]] True by (simp add: after_pass_def)
next
  case False
  then show ?thesis
    using taken_out_ok(1) [OF ok, of None] taken_out_ok(1) [OF ok, of "Some (t\<lparr>alarm := 0\<rparr>)"]
    by (auto simp: after_pass_def timer_armed_iff)
qed

lemma after_pass_called: "called (after_pass now it t st) = called st"
  by (simp add: after_pass_def)

lemma after_pass_other:
  assumes ok: "timers_ok st" and it: "it \<in> set (s_timers st d)" "heap st it = Some t"
    and d: "d' \<noteq> d" and set: "alarm_set st d'"
  shows "alarm_set (after_pass now it t st) d'"
proof -
  have own: "d = dispatch_of t" using listed_in_own it ok unfolding timers_ok_def by blast
  have no: "it \<notin> set (s_timers st d')"
    using listed_in_own [of st it t d'] it ok d own unfolding timers_ok_def by blast
  have s: "s_timers (after_pass now it t st) d' = s_timers st d'"
    using no d own by (simp add: after_pass_def remove1_idem)
  have t: "timestamp_id (after_pass now it t st) d' = timestamp_id st d'"
    by (simp add: after_pass_def armed_state_def Let_def)
  have "alarm_at (after_pass now it t st) x = alarm_at st x" if "x \<noteq> it" for x
    using that by (simp add: after_pass_def alarm_at_def)
  then show ?thesis
    using set no by (cases "s_timers st d'") (auto simp: alarm_set_def s t)
qed

lemma called_update_ok:
  "timers_ok st \<Longrightarrow> timers_ok (st\<lparr>called := l\<rparr>)"
  "alarm_set st d \<Longrightarrow> alarm_set (st\<lparr>called := l\<rparr>) d"
  by (rule timers_ok_cong, simp_all, auto simp: alarm_set_def alarm_at_def split: list.splits)

lemma process_one_keeps:
  assumes ok: "timers_ok st" and it: "it \<in> set (s_timers st d)" "heap st it = Some t"
    and a: "alarm t \<le> now" "now \<le> INT64_MAX" and cb: "callbacks_call run_cb"
    and p: "process_one run_cb now it t st = Some st'"
  shows "timers_ok st'" "d' \<noteq> d \<Longrightarrow> alarm_set st d' \<Longrightarrow> alarm_set st' d'"
    "called st' = called st @ log_call now it t"
proof -
  let ?s = "after_pass now it t st"
  let ?c = "?s\<lparr>called := called st @ [(it, alarm t, now)]\<rparr>"
  have ok1: "timers_ok ?s" by (rule after_pass_ok [OF ok a])
  have oth: "alarm_set ?s d'" if "d' \<noteq> d" "alarm_set st d'"
    by (rule after_pass_other [OF ok it that])
  have "timers_ok st' \<and> (d' \<noteq> d \<longrightarrow> alarm_set st d' \<longrightarrow> alarm_set st' d') \<and>
      called st' = called st @ log_call now it t"
  proof (cases "callback t = EVENT_ID_DELETE_TIMER")
    case True
    then show ?thesis
      using p ok1 oth by (auto simp: process_one_eq [OF ok it(1)] log_call_def after_pass_called)
  next
    case False
    then have "run_cb (callback t) (arg t) ?c = Some st'"
      using p by (simp add: process_one_eq [OF ok it(1)])
    then have "timer_call\<^sup>*\<^sup>* ?c st'" using cb by (simp add: callbacks_call_def)
    then have "call_keeps ?c st'" by (rule timer_calls_keep) (rule called_update_ok(1) [OF ok1])
    then show ?thesis
      using False oth called_update_ok(2) by (auto simp: call_keeps_def log_call_def)
  qed
  then show "timers_ok st'" "d' \<noteq> d \<Longrightarrow> alarm_set st d' \<Longrightarrow> alarm_set st' d'"
    "called st' = called st @ log_call now it t" by auto
qed

section \<open>The whole loop\<close>

definition none_due :: "64 word \<Rightarrow> esp_timer_dispatch_t \<Rightarrow> timer_state \<Rightarrow> bool" where
  "none_due now d st \<longleftrightarrow> (\<forall>h \<in> set (s_timers st d). now < alarm_at st h)"

text \<open>What a run of the loop guarantees when it ends.\<close>

definition run_keeps ::
  "esp_timer_dispatch_t \<Rightarrow> 64 word list \<Rightarrow> bool \<Rightarrow> timer_state \<Rightarrow> timer_state \<Rightarrow> bool \<Rightarrow> bool" where
  "run_keeps d nows processed st st' b \<longleftrightarrow>
     timers_ok st' \<and>
     (\<exists>now \<in> set nows. none_due now d st') \<and>
     (b \<or> alarm_set st d \<longrightarrow> alarm_set st' d) \<and>
     (\<forall>d'. d' \<noteq> d \<longrightarrow> alarm_set st d' \<longrightarrow> alarm_set st' d') \<and>
     (processed \<longrightarrow> b) \<and>
     (\<exists>l. called st' = called st @ l \<and> (\<forall>(h, a, n) \<in> set l. a \<le> n \<and> a \<noteq> 0 \<and> n \<in> set nows))"

lemma sorted_first_due:
  assumes "listed_ok st" "s_timers st d = it # its" "now < alarm_at st it"
  shows "none_due now d st"
proof -
  have "sorted (map (alarm_at st) (it # its))" using assms(1,2) unfolding listed_ok_def by metis
  then show ?thesis using assms by (auto simp: none_due_def)
qed

lemma set_alarm_keeps:
  assumes ok: "timers_ok st" and ts: "ts = (case s_timers st d of [] \<Rightarrow> UINT64_MAX | h # hs \<Rightarrow> alarm_at st h)"
  shows "timers_ok (esp_timer_impl_set_alarm_id ts d st)"
    "alarm_set (esp_timer_impl_set_alarm_id ts d st) d"
    "d' \<noteq> d \<Longrightarrow> alarm_set st d' \<Longrightarrow> alarm_set (esp_timer_impl_set_alarm_id ts d st) d'"
    "none_due now d (esp_timer_impl_set_alarm_id ts d st) = none_due now d st"
    "called (esp_timer_impl_set_alarm_id ts d st) = called st"
proof -
  let ?st = "esp_timer_impl_set_alarm_id ts d st"
  show "timers_ok ?st" by (rule timers_ok_cong [OF ok]) (simp_all add: esp_timer_impl_set_alarm_id_def)
  have al: "alarm_at ?st = alarm_at st" by (simp add: alarm_at_def esp_timer_impl_set_alarm_id_def fun_eq_iff)
  have s: "s_timers ?st = s_timers st" "called ?st = called st"
    "timestamp_id ?st = (timestamp_id st)(d := ts)"
    by (simp_all add: esp_timer_impl_set_alarm_id_def)
  show "alarm_set ?st d" using ts unfolding alarm_set_def al s by simp
  show "d' \<noteq> d \<Longrightarrow> alarm_set st d' \<Longrightarrow> alarm_set ?st d'" unfolding alarm_set_def al s by simp
  show "none_due now d ?st = none_due now d st" unfolding none_due_def al s by simp
  show "called ?st = called st" by (rule s)
qed

lemma run_keeps_step:
  assumes k: "run_keeps d nows True st1 st' b" and it: "heap st it = Some t" "it \<in> set (s_timers st d)"
    and a: "alarm t \<le> now" and ok: "timers_ok st"
    and c: "called st1 = called st @ log_call now it t"
    and o: "\<And>d'. d' \<noteq> d \<Longrightarrow> alarm_set st d' \<Longrightarrow> alarm_set st1 d'"
  shows "run_keeps d (now # nows) processed st st' b"
proof -
  obtain l where l: "called st' = called st1 @ l" "\<forall>(h, a, n) \<in> set l. a \<le> n \<and> a \<noteq> 0 \<and> n \<in> set nows"
    using k unfolding run_keeps_def by blast
  have "timer_armed t" using listed_heap [of st it d] ok it unfolding timers_ok_def by auto
  then have "\<forall>(h, a, n) \<in> set (log_call now it t @ l). a \<le> n \<and> a \<noteq> 0 \<and> n \<in> set (now # nows)"
    using l(2) a by (auto simp: log_call_def timer_armed_iff)
  moreover have "called st' = called st @ (log_call now it t @ l)" using l(1) c by simp
  ultimately have lg: "\<exists>l. called st' = called st @ l \<and>
      (\<forall>(h, a, n) \<in> set l. a \<le> n \<and> a \<noteq> 0 \<and> n \<in> set (now # nows))"
    by - (rule exI, rule conjI)
  show ?thesis using k o lg unfolding run_keeps_def by auto
qed

lemma loop_keeps:
  "timer_process_alarm_loop run_cb d nows processed st = Some (st', b) \<Longrightarrow> timers_ok st \<Longrightarrow>
     callbacks_call run_cb \<Longrightarrow> \<forall>now \<in> set nows. now \<le> INT64_MAX \<Longrightarrow>
     run_keeps d nows processed st st' b"
proof (induction run_cb d nows processed st rule: timer_process_alarm_loop.induct)
  case (1 run_cb d processed st)
  then show ?case by simp
next
  case (2 run_cb d now nows processed st)
  note ok = 2(3) and lok = 2(3) [unfolded timers_ok_def, THEN conjunct1]
  show ?case
  proof (cases "s_timers st d")
    case Nil
    note sk = set_alarm_keeps [OF ok, where d = d and ts = UINT64_MAX]
    have "st' = (if processed then esp_timer_impl_set_alarm_id UINT64_MAX d st else st)" "b = processed"
      using 2(2) Nil by auto
    moreover have "none_due now d st" using Nil by (simp add: none_due_def)
    ultimately show ?thesis
      using ok sk Nil by (cases processed) (auto simp: run_keeps_def)
  next
    case (Cons it its)
    have itl: "it \<in> set (s_timers st d)" using Cons by simp
    obtain t where t: "heap st it = Some t" using listed_heap [OF lok itl] by blast
    show ?thesis
    proof (cases "alarm t > now")
      case True
      have al: "alarm_at st it = alarm t" by (simp add: alarm_at_def t)
      note sk = set_alarm_keeps [OF ok, where d = d and ts = "alarm t"]
      have "none_due now d st" by (rule sorted_first_due [OF lok Cons]) (simp add: al True)
      moreover have "b = processed" "st' = (if d = ESP_TIMER_TASK \<or> processed
          then esp_timer_impl_set_alarm_id (alarm t) d st else st)"
        using 2(2) Cons t True by auto
      ultimately show ?thesis
        using ok sk Cons al by (cases "d = ESP_TIMER_TASK \<or> processed") (auto simp: run_keeps_def)
    next
      case False
      then obtain st1 where st1: "process_one run_cb now it t st = Some st1"
        and rest: "timer_process_alarm_loop run_cb d nows True st1 = Some (st', b)"
        using 2(2) Cons t by (auto split: bind_splits)
      have a: "alarm t \<le> now" "now \<le> INT64_MAX" using False 2(5) by auto
      note k = process_one_keeps [OF ok itl t a 2(4) st1]
      have "run_keeps d nows True st1 st' b"
        by (rule 2(1) [OF Cons t False st1 rest k(1) 2(4)]) (use 2(5) in simp)
      then show ?thesis by (rule run_keeps_step [OF _ t itl a(1) ok k(3) k(2)])
    qed
  qed
qed

section \<open>The loop ends\<close>

text \<open>The work left up to the time \<open>m\<close>: how far the alarms of the list can still move.\<close>

definition work_until :: "64 word \<Rightarrow> esp_timer_dispatch_t \<Rightarrow> timer_state \<Rightarrow> nat" where
  "work_until m d st = (\<Sum>h \<in> set (s_timers st d). Suc (unat m) - unat (alarm_at st h))"

definition quiet_callbacks :: "(32 word \<Rightarrow> nat \<Rightarrow> timer_state \<Rightarrow> timer_state option) \<Rightarrow> bool" where
  "quiet_callbacks run_cb \<longleftrightarrow> (\<forall>cb a s. run_cb cb a s = Some s)"

lemma quiet_callbacks_call: "quiet_callbacks run_cb \<Longrightarrow> callbacks_call run_cb"
  by (simp add: quiet_callbacks_def callbacks_call_def)

lemma work_after_pass:
  assumes ok: "timers_ok st" and it: "it \<in> set (s_timers st d)" "heap st it = Some t"
    and a: "alarm t \<le> now" "now \<le> m" "m \<le> INT64_MAX"
  shows "work_until m d (after_pass now it t st) < work_until m d st"
proof -
  let ?s = "after_pass now it t st" and ?S = "set (s_timers st d)"
  let ?f = "\<lambda>h. Suc (unat m) - unat (alarm_at st h)"
  have own: "d = dispatch_of t" using listed_in_own it ok unfolding timers_ok_def by blast
  have dis: "distinct (s_timers st d)" using ok by (simp add: timers_ok_def listed_ok_def)
  have same: "alarm_at ?s x = alarm_at st x" if "x \<noteq> it" for x
    using that by (simp add: after_pass_def alarm_at_def)
  have "unat (alarm t) \<le> unat m" using a by (simp add: word_le_nat_alt)
  moreover have al: "alarm_at st it = alarm t" by (simp add: alarm_at_def it)
  ultimately have pos: "0 < ?f it" by simp
  have S: "work_until m d st = ?f it + sum ?f (?S - {it})"
    unfolding work_until_def by (rule sum.remove) (use it in simp_all)
  have rest: "(\<Sum>h \<in> ?S - {it}. Suc (unat m) - unat (alarm_at ?s h)) = sum ?f (?S - {it})"
    by (rule sum.cong) (use same in auto)
  show ?thesis
  proof (cases "callback t \<noteq> EVENT_ID_DELETE_TIMER \<and> period t > 0")
    case True
    have set: "set (s_timers ?s d) = insert it (?S - {it})"
      using True own dis by (simp add: after_pass_def)
    have "alarm_at ?s it = next_alarm_of now t"
      using True by (simp add: after_pass_def alarm_at_def)
    moreover have "next_alarm_of now t > alarm t"
      using next_alarm_later a True order_trans by blast
    ultimately have "Suc (unat m) - unat (alarm_at ?s it) < ?f it"
      using pos al by (simp add: word_less_nat_alt)
    then show ?thesis
      unfolding S unfolding work_until_def set rest [symmetric]
      by (subst sum.insert) (simp_all del: insert_Diff_single)
  next
    case False
    have "set (s_timers ?s d) = ?S - {it}" using False dis by (auto simp: after_pass_def)
    then show ?thesis using pos unfolding S unfolding work_until_def by (simp add: rest)
  qed
qed

lemma process_one_quiet:
  assumes ok: "timers_ok st" and it: "it \<in> set (s_timers st d)" and q: "quiet_callbacks run_cb"
  shows "process_one run_cb now it t st =
     Some ((after_pass now it t st)\<lparr>called := called st @ log_call now it t\<rparr>)"
proof -
  have "(after_pass now it t st)\<lparr>called := called st\<rparr> = after_pass now it t st"
    using after_pass_called [of now it t st] by (simp flip: after_pass_called [of now it t st])
  then show ?thesis
    using q by (simp add: process_one_eq [OF ok it] quiet_callbacks_def log_call_def)
qed

lemma work_called [simp]: "work_until m d (st\<lparr>called := l\<rparr>) = work_until m d st"
  by (simp add: work_until_def alarm_at_def)

lemma loop_ends:
  "timers_ok st \<Longrightarrow> quiet_callbacks run_cb \<Longrightarrow> m \<le> INT64_MAX \<Longrightarrow> \<forall>now \<in> set nows. now \<le> m \<Longrightarrow>
     work_until m d st < length nows \<Longrightarrow>
     \<exists>st' b. timer_process_alarm_loop run_cb d nows processed st = Some (st', b)"
proof (induction nows arbitrary: st processed)
  case (Cons now nows)
  note ok = Cons.prems(1) and q = Cons.prems(2)
  show ?case
  proof (cases "s_timers st d")
    case (Cons it its)
    have itl: "it \<in> set (s_timers st d)" using Cons by simp
    then obtain t where t: "heap st it = Some t" using listed_heap ok unfolding timers_ok_def by blast
    show ?thesis
    proof (cases "alarm t > now")
      case False
      let ?s = "(after_pass now it t st)\<lparr>called := called st @ log_call now it t\<rparr>"
      have a: "alarm t \<le> now" "now \<le> m" "now \<le> INT64_MAX"
        using False Cons.prems(3,4) by auto
      have "work_until m d ?s < length nows"
        using work_after_pass [OF ok itl t a(1,2) Cons.prems(3)] Cons.prems(5) by simp
      moreover have "timers_ok ?s" by (rule called_update_ok(1)) (rule after_pass_ok [OF ok a(1,3)])
      ultimately have "\<exists>st' b. timer_process_alarm_loop run_cb d nows True ?s = Some (st', b)"
        using Cons.IH q Cons.prems(3,4) by simp
      then show ?thesis using Cons t False by (simp add: process_one_quiet [OF ok itl q])
    qed (use Cons t in simp)
  qed simp
qed simp

end
