(* ===== verification/Timer_Query.thy ===== *)
theory Timer_Query
  imports Timer_Loop
begin

text \<open>
  Which callbacks a run of the loop makes when the due timers are one-shot, and the queries
  for the next alarm against the set of armed timers.
\<close>

section \<open>One-shot timers\<close>

definition one_shot :: "timer_state \<Rightarrow> esp_timer_handle_t \<Rightarrow> bool" where
  "one_shot st h \<longleftrightarrow> (case heap st h of Some t \<Rightarrow> period t = 0 \<and> callback t \<noteq> EVENT_ID_DELETE_TIMER | None \<Rightarrow> False)"

definition due_timers :: "64 word \<Rightarrow> esp_timer_dispatch_t \<Rightarrow> timer_state \<Rightarrow> esp_timer_handle_t list" where
  "due_timers now d st = takeWhile (\<lambda>h. alarm_at st h \<le> now) (s_timers st d)"

lemma due_timers_Cons:
  assumes "s_timers st d = it # its" "heap st it = Some t" "alarm t \<le> now"
  shows "due_timers now d st = it # takeWhile (\<lambda>h. alarm_at st h \<le> now) its"
  using assms by (simp add: due_timers_def alarm_at_def)

lemma after_pass_one_shot:
  assumes ok: "timers_ok st" and l: "s_timers st d = it # its" and t: "heap st it = Some t"
    and o: "period t = 0" "callback t \<noteq> EVENT_ID_DELETE_TIMER"
  shows "s_timers (after_pass now it t st) d = its"
    and "x \<noteq> it \<Longrightarrow> heap (after_pass now it t st) x = heap st x"
    and "it \<notin> set its"
proof -
  have "distinct (it # its)" using ok l unfolding timers_ok_def listed_ok_def by metis
  then show "it \<notin> set its" by simp
  show "s_timers (after_pass now it t st) d = its" using o by (simp add: after_pass_def l)
  show "x \<noteq> it \<Longrightarrow> heap (after_pass now it t st) x = heap st x" using o by (simp add: after_pass_def)
qed

lemma one_shots_loop:
  "timers_ok st \<Longrightarrow> quiet_callbacks run_cb \<Longrightarrow> now \<le> INT64_MAX \<Longrightarrow>
   \<forall>h \<in> set (due_timers now d st). one_shot st h \<Longrightarrow>
   n = length (due_timers now d st) \<Longrightarrow>
   \<exists>st'. timer_process_alarm_loop run_cb d (replicate (Suc n) now) processed st =
           Some (st', processed \<or> n > 0) \<and>
         called st' = called st @ map (\<lambda>h. (h, alarm_at st h, now)) (due_timers now d st) \<and>
         s_timers st' d = drop n (s_timers st d)"
proof (induction n arbitrary: st processed)
  case 0
  show ?case
  proof (cases "s_timers st d")
    case Nil
    then show ?thesis by (auto simp: due_timers_def esp_timer_impl_set_alarm_id_def)
  next
    case (Cons it its)
    then obtain t where t: "heap st it = Some t"
      using listed_heap [of st it d] 0(1) unfolding timers_ok_def by (metis list.set_intros(1))
    then have "alarm t > now" using 0 Cons by (simp add: due_timers_def alarm_at_def split: if_splits)
    then show ?thesis using Cons t 0 by (auto simp: esp_timer_impl_set_alarm_id_def)
  qed
next
  case (Suc n)
  note ok = Suc.prems(1) and q = Suc.prems(2)
  obtain it its where l: "s_timers st d = it # its"
    using Suc.prems(5) by (cases "s_timers st d") (auto simp: due_timers_def)
  have itl: "it \<in> set (s_timers st d)" using l by simp
  obtain t where t: "heap st it = Some t" using listed_heap itl ok unfolding timers_ok_def by blast
  have a: "alarm t \<le> now"
    using Suc.prems(5) l t by (simp add: due_timers_def alarm_at_def split: if_splits)
  note due = due_timers_Cons [OF l t a]
  have o: "period t = 0" "callback t \<noteq> EVENT_ID_DELETE_TIMER"
    using Suc.prems(4) due t by (auto simp: one_shot_def)
  note ap = after_pass_one_shot [OF ok l t o]
  let ?s = "(after_pass now it t st)\<lparr>called := called st @ log_call now it t\<rparr>"
  have sl: "s_timers ?s d = its" using ap(1) by simp
  have al: "alarm_at ?s x = alarm_at st x" if "x \<in> set its" for x
  proof -
    have "x \<noteq> it" using that ap(3) by auto
    from ap(2) [OF this] show ?thesis by (simp add: alarm_at_def)
  qed
  have due': "due_timers now d ?s = takeWhile (\<lambda>h. alarm_at st h \<le> now) its"
    unfolding due_timers_def sl using al by (intro takeWhile_cong) auto
  have sub: "set (due_timers now d ?s) \<subseteq> set its" unfolding due' by (auto dest: set_takeWhileD)
  have os: "one_shot ?s h" if "h \<in> set (due_timers now d ?s)" for h
  proof -
    have "h \<in> set its" using that sub by blast
    then have "h \<noteq> it" using ap(3) by auto
    then have "heap ?s h = heap st h" using ap(2) by simp
    moreover have "one_shot st h" using Suc.prems(4) due that by (simp add: due')
    ultimately show ?thesis by (simp add: one_shot_def)
  qed
  have ok': "timers_ok ?s" by (rule called_update_ok(1)) (rule after_pass_ok [OF ok a Suc.prems(3)])
  have n: "n = length (due_timers now d ?s)" using Suc.prems(5) due due' by simp
  obtain st' where st': "timer_process_alarm_loop run_cb d (replicate (Suc n) now) True ?s = Some (st', True \<or> n > 0)"
    "called st' = called ?s @ map (\<lambda>h. (h, alarm_at ?s h, now)) (due_timers now d ?s)"
    "s_timers st' d = drop n (s_timers ?s d)"
    using Suc.IH [of ?s True, OF ok' q Suc.prems(3) _ n] os by blast
  have m: "map (\<lambda>h. (h, alarm_at ?s h, now)) (due_timers now d ?s) =
      map (\<lambda>h. (h, alarm_at st h, now)) (due_timers now d ?s)"
    using al sub by auto
  have "called st' = called st @ map (\<lambda>h. (h, alarm_at st h, now)) (due_timers now d st)"
    unfolding st'(2) unfolding m unfolding due due' using o t by (simp add: log_call_def alarm_at_def)
  moreover have "timer_process_alarm_loop run_cb d (replicate (Suc (Suc n)) now) processed st = Some (st', True)"
    unfolding replicate_Suc [of "Suc n"] timer_process_alarm_loop.simps(2) l list.case t
    using a st'(1) by (simp add: process_one_quiet [OF ok itl q] leD del: replicate_Suc)
  moreover have "s_timers st' d = drop (Suc n) (s_timers st d)" using st'(3) sl l by simp
  ultimately show ?case by - (rule exI [of _ st'], simp)
qed

section \<open>The next alarm\<close>

definition armed_alarms :: "(esp_timer \<Rightarrow> bool) \<Rightarrow> timer_state \<Rightarrow> 64 word set" where
  "armed_alarms P st = {alarm t | h t. heap st h = Some t \<and> timer_armed t \<and> P t}"

definition listed_alarms :: "(esp_timer \<Rightarrow> bool) \<Rightarrow> timer_state \<Rightarrow> esp_timer_dispatch_t \<Rightarrow> 64 word set" where
  "listed_alarms P st d =
     alarm_at st ` {h \<in> set (s_timers st d). case heap st h of Some t \<Rightarrow> P t | None \<Rightarrow> False}"

lemma armed_alarms_lists:
  assumes ok: "timers_ok st"
  shows "armed_alarms P st = listed_alarms P st ESP_TIMER_TASK \<union> listed_alarms P st ESP_TIMER_ISR"
proof (intro equalityI subsetI)
  fix a assume "a \<in> armed_alarms P st"
  then obtain h t where h: "heap st h = Some t" "timer_armed t" "P t" "a = alarm t"
    by (auto simp: armed_alarms_def)
  then have "h \<in> set (s_timers st (dispatch_of t))" using ok by (simp add: timers_ok_def armed_listed_def)
  then have "a \<in> listed_alarms P st (dispatch_of t)"
    using h by (auto simp: listed_alarms_def alarm_at_def intro!: image_eqI [of _ _ h])
  then show "a \<in> listed_alarms P st ESP_TIMER_TASK \<union> listed_alarms P st ESP_TIMER_ISR"
    by (cases "dispatch_of t") auto
next
  fix a assume "a \<in> listed_alarms P st ESP_TIMER_TASK \<union> listed_alarms P st ESP_TIMER_ISR"
  then obtain h d t where h: "h \<in> set (s_timers st d)" "heap st h = Some t" "P t" "a = alarm t"
    by (auto simp: listed_alarms_def alarm_at_def split: option.splits)
  then have "timer_armed t" using listed_heap ok unfolding timers_ok_def by fastforce
  then show "a \<in> armed_alarms P st" using h by (auto simp: armed_alarms_def)
qed

lemma min_if: "(if n > a then a else n) = min a (n :: 'a :: linorder)"
  by (auto simp: min_def)

lemma Min_sorted_head:
  fixes f :: "'a \<Rightarrow> 'b :: linorder"
  assumes "\<forall>y \<in> S. x \<le> y" "finite S"
  shows "Min (insert n (insert x S)) = min x n"
  using assms by (intro Min_eqI) (auto simp: min_def dest: order_trans)

lemma next_of_list_Min:
  assumes ok: "timers_ok st"
  shows "next_of_list st (s_timers st d) n = Some (Min (insert n (listed_alarms (\<lambda>t. True) st d)))"
proof (cases "s_timers st d")
  case Nil
  then show ?thesis by (simp add: next_of_list_def listed_alarms_def)
next
  case (Cons it its)
  have lok: "listed_ok st" using ok by (simp add: timers_ok_def)
  then obtain t where t: "heap st it = Some t" using listed_heap [of st it d] Cons by auto
  have "{h \<in> set (s_timers st d). case heap st h of Some t \<Rightarrow> True | None \<Rightarrow> False} = set (s_timers st d)"
    using listed_heap [OF lok] by fastforce
  then have s: "listed_alarms (\<lambda>t. True) st d = insert (alarm_at st it) (alarm_at st ` set its)"
    by (simp add: listed_alarms_def Cons)
  have "sorted (map (alarm_at st) (it # its))" using lok Cons unfolding listed_ok_def by metis
  then have "\<forall>y \<in> alarm_at st ` set its. alarm_at st it \<le> y" by auto
  then have "Min (insert n (listed_alarms (\<lambda>t. True) st d)) = min (alarm_at st it) n"
    unfolding s by (intro Min_sorted_head) auto
  then show ?thesis by (simp add: next_of_list_def Cons t min_if alarm_at_def)
qed

lemma next_wake_Min:
  assumes "sorted (map (alarm_at st) l)" "\<forall>h \<in> set l. heap st h \<noteq> None"
  shows "next_wake_of_list st l n = Some (Min (insert n (alarm_at st ` {h \<in> set l.
           case heap st h of Some t \<Rightarrow> flags t AND FL_SKIP_UNHANDLED_EVENTS = 0 | None \<Rightarrow> False})))"
  using assms
proof (induction l)
  case (Cons it its)
  let ?P = "\<lambda>h. case heap st h of Some t \<Rightarrow> flags t AND FL_SKIP_UNHANDLED_EVENTS = 0 | None \<Rightarrow> False"
  obtain t where t: "heap st it = Some t" using Cons.prems(2) by auto
  show ?case
  proof (cases "flags t AND FL_SKIP_UNHANDLED_EVENTS = 0")
    case True
    then have "{h \<in> set (it # its). ?P h} = insert it {h \<in> set its. ?P h}" using t by auto
    then have s: "alarm_at st ` {h \<in> set (it # its). ?P h} =
        insert (alarm_at st it) (alarm_at st ` {h \<in> set its. ?P h})" by simp
    have "\<forall>y \<in> alarm_at st ` {h \<in> set its. ?P h}. alarm_at st it \<le> y" using Cons.prems(1) by auto
    then have "Min (insert n (alarm_at st ` {h \<in> set (it # its). ?P h})) = min (alarm_at st it) n"
      unfolding s by (intro Min_sorted_head) auto
    then show ?thesis using t True by (simp add: min_if alarm_at_def)
  next
    case False
    then have "{h \<in> set (it # its). ?P h} = {h \<in> set its. ?P h}" using t by auto
    then show ?thesis using t False Cons by simp
  qed
qed simp

lemma next_wake_of_list_Min:
  assumes ok: "timers_ok st"
  shows "next_wake_of_list st (s_timers st d) n =
    Some (Min (insert n (listed_alarms (\<lambda>t. flags t AND FL_SKIP_UNHANDLED_EVENTS = 0) st d)))"
proof -
  have "sorted (map (alarm_at st) (s_timers st d))" using ok by (simp add: timers_ok_def listed_ok_def)
  moreover have "\<forall>h \<in> set (s_timers st d). heap st h \<noteq> None"
    using listed_heap ok unfolding timers_ok_def by fastforce
  ultimately show ?thesis by (simp add: next_wake_Min listed_alarms_def)
qed

lemma finite_listed_alarms [simp]: "finite (listed_alarms P st d)"
  by (simp add: listed_alarms_def)

lemma Min_two: "finite A \<Longrightarrow> finite B \<Longrightarrow> Min (insert (Min (insert n A)) B) = Min (insert n (A \<union> B))"
  for n :: "'a :: linorder"
  by (cases "A = {}"; cases "B = {}") (simp_all add: Min_Un min.assoc)

end
