(* ===== verification/Timer_Props.thy ===== *)
theory Timer_Props
  imports Timer_Query
begin

text \<open>
  The properties of the timers: the lists of armed timers and the alarm registers, what a run of
  the alarm loop does and that it ends, the queries, and the delays and interrupts for which a
  timer is not served.
\<close>

section \<open>Reachable states\<close>

definition initial_timers :: timer_state where
  "initial_timers =
     \<lparr>heap = (\<lambda>h. None), s_timers = (\<lambda>d. []), timestamp_id = (\<lambda>d. UINT64_MAX),
      s_timer_task = False, called = []\<rparr>"

inductive timer_step :: "timer_state \<Rightarrow> timer_state \<Rightarrow> bool" where
  call: "timer_call st st' \<Longrightarrow> timer_step st st'"
| init: "esp_timer_init create_ok impl_err st = (st', err) \<Longrightarrow> timer_step st st'"
| deinit: "esp_timer_deinit st = (st', err) \<Longrightarrow> timer_step st st'"
| task: "timer_process_alarm run_cb ESP_TIMER_TASK nows st = Some (st', b) \<Longrightarrow>
    callbacks_call run_cb \<Longrightarrow> \<forall>now \<in> set nows. now \<le> INT64_MAX \<Longrightarrow> timer_step st st'"
| interrupt: "timer_alarm_handler run_cb nows st = Some (st', b) \<Longrightarrow>
    callbacks_call run_cb \<Longrightarrow> \<forall>now \<in> set nows. now \<le> INT64_MAX \<Longrightarrow> timer_step st st'"

lemma initial_timers_ok: "timers_ok initial_timers"
  by (simp add: timers_ok_def listed_ok_def armed_listed_def initial_timers_def)

lemma try_to_set_ok: "timers_ok st \<Longrightarrow> timers_ok (esp_timer_impl_try_to_set_next_alarm st)"
  by (erule timers_ok_cong)
     (simp_all add: esp_timer_impl_try_to_set_next_alarm_def esp_timer_impl_set_alarm_id_def Let_def split: prod.splits)

lemma timer_step_ok: "timer_step st st' \<Longrightarrow> timers_ok st \<Longrightarrow> timers_ok st'"
proof (induction rule: timer_step.induct)
  case (call st st')
  then show ?case using timer_call_keeps by (auto simp: call_keeps_def)
next
  case (init create_ok impl_err st st' err)
  then show ?case
    by (elim timers_ok_cong)
       (auto simp: esp_timer_init_def init_timer_task_def deinit_timer_task_def split: if_splits)
next
  case (deinit st st' err)
  then show ?case
    by (elim timers_ok_cong) (auto simp: esp_timer_deinit_def deinit_timer_task_def split: if_splits)
next
  case (task run_cb nows st st' b)
  then have "run_keeps ESP_TIMER_TASK nows False st st' b"
    unfolding timer_process_alarm_def by (elim loop_keeps)
  then show ?case by (simp add: run_keeps_def)
next
  case (interrupt run_cb nows st st' b)
  let ?s = "esp_timer_impl_try_to_set_next_alarm st"
  obtain b' where "timer_process_alarm_loop run_cb ESP_TIMER_ISR nows False ?s = Some (st', b')"
    using interrupt(1) by (auto simp: timer_alarm_handler_def timer_process_alarm_def split: bind_splits)
  from loop_keeps [OF this try_to_set_ok [OF interrupt(4)] interrupt(2,3)] show ?case
    by (simp add: run_keeps_def)
qed

lemma timer_steps_ok: "timer_step\<^sup>*\<^sup>* initial_timers st \<Longrightarrow> timers_ok st"
  by (induction rule: rtranclp_induct) (auto intro: initial_timers_ok timer_step_ok)

section \<open>Lists and registers\<close>

text \<open>C16: In every state reached by the calls of the API, by the timer task and by the alarm
  interrupt, with any callbacks that use the API, each list is sorted by alarm, holds no timer
  twice, and a timer is in the list of its dispatch method exactly when it is armed.  The alarms of the calls do
  not wrap to 0, the mark of a timer that is not armed, and no timer is deleted at time 0.\<close>

theorem armed_timers_are_listed_in_order:
  assumes "timer_step\<^sup>*\<^sup>* initial_timers st"
  shows "distinct (s_timers st d) \<and> sorted (map (alarm_at st) (s_timers st d)) \<and>
    (\<forall>h t. heap st h = Some t \<longrightarrow> (timer_armed t \<and> d = dispatch_of t \<longleftrightarrow> h \<in> set (s_timers st d)))"
proof -
  have ok: "timers_ok st" by (rule timer_steps_ok [OF assms])
  then have lok: "listed_ok st" by (simp add: timers_ok_def)
  have "timer_armed t \<and> d = dispatch_of t \<longleftrightarrow> h \<in> set (s_timers st d)" if "heap st h = Some t" for h t
    using ok listed_in_own [OF lok that] unarmed_not_listed [OF lok that] that
    by (auto simp: timers_ok_def armed_listed_def)
  then show ?thesis using lok by (simp add: listed_ok_def)
qed

definition demo_args :: "int \<Rightarrow> esp_timer_create_args_t" where
  "demo_args d = \<lparr>ca_callback = 7, ca_arg = 0, ca_dispatch_method = d, ca_skip_unhandled_events = False\<rparr>"

definition demo_init :: timer_state where
  "demo_init = fst (esp_timer_init True ESP_OK initial_timers)"

definition demo_created :: timer_state where
  "demo_created = fst (esp_timer_create (Some (demo_args 0)) True (Some 1) demo_init)"

lemma demo_reachable: "timer_step\<^sup>*\<^sup>* initial_timers demo_created"
proof -
  have "timer_step initial_timers demo_init"
    by (rule timer_step.init [of True ESP_OK _ _ ESP_OK]) (simp add: demo_init_def esp_timer_init_def init_timer_task_def
      is_initialized_def initial_timers_def)
  moreover have "timer_call demo_init demo_created"
    by (rule timer_call.create [of "Some (demo_args 0)" True "Some 1" _ _ ESP_OK "Some 1"])
       (simp_all add: demo_created_def demo_init_def demo_args_def esp_timer_create_def esp_timer_init_def
         init_timer_task_def is_initialized_def initial_timers_def)
  ultimately show ?thesis by (meson rtranclp.simps timer_step.call)
qed

theorem armed_timers_are_listed_in_order_witness:
  "distinct (s_timers demo_created ESP_TIMER_TASK) \<and>
   sorted (map (alarm_at demo_created) (s_timers demo_created ESP_TIMER_TASK)) \<and>
   (\<exists>t. heap demo_created 1 = Some t \<and>
      (timer_armed t \<and> ESP_TIMER_TASK = dispatch_of t \<longleftrightarrow> 1 \<in> set (s_timers demo_created ESP_TIMER_TASK)))"
proof -
  have "\<exists>t. heap demo_created 1 = Some t"
    by (simp add: demo_created_def demo_init_def demo_args_def esp_timer_create_def esp_timer_init_def
      init_timer_task_def is_initialized_def initial_timers_def update_timer_def)
  then show ?thesis using armed_timers_are_listed_in_order [OF demo_reachable, of ESP_TIMER_TASK] by blast
qed

text \<open>C17: The calls of the API keep the alarm register of each list at the alarm of its first
  timer, or at the maximum when the list is empty.\<close>

theorem calls_keep_the_alarm_registers:
  assumes "timer_call\<^sup>*\<^sup>* st st'" "timers_ok st" "alarm_set st d"
  shows "timestamp_id st' d = (case s_timers st' d of [] \<Rightarrow> UINT64_MAX | h # hs \<Rightarrow> alarm_at st' h)"
  using timer_calls_keep [OF assms(1,2)] assms(3) by (simp add: call_keeps_def alarm_set_def)

theorem calls_keep_the_alarm_registers_witness:
  "\<exists>st'. esp_timer_start_once 10 (Some 1) 90 demo_created = Some (st', ESP_OK) \<and> timestamp_id st' ESP_TIMER_TASK =
     (case s_timers st' ESP_TIMER_TASK of [] \<Rightarrow> UINT64_MAX | h # hs \<Rightarrow> alarm_at st' h)"
proof -
  have ok: "timers_ok demo_created" by (rule timer_steps_ok [OF demo_reachable])
  have e: "demo_created = \<lparr>heap = [1 \<mapsto> \<lparr>alarm = 0, period = 0, flags = 0, callback = 7, arg = 0\<rparr>],
      s_timers = (\<lambda>d. []), timestamp_id = (\<lambda>d. UINT64_MAX), s_timer_task = True, called = []\<rparr>"
    by (simp add: demo_created_def demo_init_def demo_args_def esp_timer_create_def esp_timer_init_def
      init_timer_task_def is_initialized_def initial_timers_def update_timer_def fun_eq_iff)
  obtain st' where s: "esp_timer_start_once 10 (Some 1) 90 demo_created = Some (st', ESP_OK)"
    by (simp add: e esp_timer_start_once_def is_initialized_def timer_armed_def timer_insert_def update_timer_def Let_def)
  then have "timer_call demo_created st'" by (rule timer_call.start_once) simp
  then have c: "timer_call\<^sup>*\<^sup>* demo_created st'" by (rule r_into_rtranclp)
  have a: "alarm_set demo_created ESP_TIMER_TASK" by (simp add: alarm_set_def e)
  show ?thesis
    using s calls_keep_the_alarm_registers [OF c ok a] by - (rule exI [of _ st'], simp)
qed

section \<open>Running the alarm loop\<close>

text \<open>C18: When the alarm loop ends, nothing in its list is due at the last time read; every callback
  it ran was for an armed timer and not before its alarm; and the alarm register of the list is
  right whenever something was processed.\<close>

theorem alarm_loop_leaves_nothing_due:
  assumes "timers_ok st" "callbacks_call run_cb" "\<forall>now \<in> set nows. now \<le> INT64_MAX"
    "timer_process_alarm run_cb d nows st = Some (st', b)"
  shows "(\<exists>now \<in> set nows. \<forall>h \<in> set (s_timers st' d). now < alarm_at st' h) \<and>
    (\<exists>l. called st' = called st @ l \<and> (\<forall>(h, a, n) \<in> set l. a \<noteq> 0 \<and> a \<le> n \<and> n \<in> set nows)) \<and>
    (b \<longrightarrow> timestamp_id st' d = (case s_timers st' d of [] \<Rightarrow> UINT64_MAX | h # hs \<Rightarrow> alarm_at st' h))"
proof -
  have k: "run_keeps d nows False st st' b"
    by (rule loop_keeps [OF assms(4) [unfolded timer_process_alarm_def] assms(1-3)])
  obtain l where "called st' = called st @ l" "\<forall>(h, a, n) \<in> set l. a \<le> n \<and> a \<noteq> 0 \<and> n \<in> set nows"
    using k unfolding run_keeps_def by blast
  then have "\<exists>l. called st' = called st @ l \<and> (\<forall>(h, a, n) \<in> set l. a \<noteq> 0 \<and> a \<le> n \<and> n \<in> set nows)"
    by - (rule exI [of _ l], auto)
  then show ?thesis using k by (simp add: run_keeps_def none_due_def alarm_set_def)
qed

text \<open>Two timers of the task, one-shot at 100 and periodic at 150.\<close>

definition demo_armed :: timer_state where
  "demo_armed =
     \<lparr>heap = [1 \<mapsto> \<lparr>alarm = 100, period = 0, flags = 0, callback = 7, arg = 0\<rparr>,
              2 \<mapsto> \<lparr>alarm = 150, period = 60, flags = 0, callback = 8, arg = 0\<rparr>],
      s_timers = (\<lambda>d. if d = ESP_TIMER_TASK then [1, 2] else []),
      timestamp_id = (\<lambda>d. if d = ESP_TIMER_TASK then 100 else UINT64_MAX),
      s_timer_task = True, called = []\<rparr>"

lemma demo_armed_ok: "timers_ok demo_armed"
  by (simp add: demo_armed_def timers_ok_def listed_ok_def armed_listed_def alarm_at_def dispatch_of_def
      timer_armed_def)

lemma demo_quiet: "quiet_callbacks (\<lambda>cb a s. Some s)"
  by (simp add: quiet_callbacks_def)

theorem alarm_loop_leaves_nothing_due_witness:
  "\<exists>st' b. timer_process_alarm (\<lambda>cb a s. Some s) ESP_TIMER_TASK [120, 120] demo_armed = Some (st', b) \<and>
     (\<exists>now \<in> set [120, 120]. \<forall>h \<in> set (s_timers st' ESP_TIMER_TASK). now < alarm_at st' h)"
proof -
  obtain st' b where r: "timer_process_alarm (\<lambda>cb a s. Some s) ESP_TIMER_TASK [120, 120] demo_armed = Some (st', b)"
    by (simp add: timer_process_alarm_def demo_armed_def process_one_def list_remove_def
        EVENT_ID_DELETE_TIMER_def update_timer_def)
  have "\<forall>now \<in> set [120, 120]. now \<le> INT64_MAX" by (simp add: INT64_MAX_def)
  from alarm_loop_leaves_nothing_due [OF demo_armed_ok quiet_callbacks_call [OF demo_quiet] this r] r
  show ?thesis by blast
qed

text \<open>C19: With callbacks that leave the timers alone, the alarm loop ends even when every time it reads is later than the one before: if the
  clock stays below \<open>m\<close>, the passes are bounded by how far the alarms are from \<open>m\<close>.\<close>

theorem alarm_loop_ends:
  assumes "timers_ok st" "quiet_callbacks run_cb" "m \<le> INT64_MAX" "\<forall>now \<in> set nows. now \<le> m"
    "(\<Sum>h \<in> set (s_timers st d). Suc (unat m) - unat (alarm_at st h)) < length nows"
  shows "\<exists>st' b. timer_process_alarm run_cb d nows st = Some (st', b)"
  using loop_ends assms unfolding timer_process_alarm_def work_until_def by blast

theorem alarm_loop_ends_witness:
  "\<exists>st' b. timer_process_alarm (\<lambda>cb a s. Some s) ESP_TIMER_TASK (replicate 33 120) demo_armed = Some (st', b)"
  by (rule alarm_loop_ends [OF demo_armed_ok demo_quiet, of 120])
     (simp_all add: INT64_MAX_def demo_armed_def alarm_at_def)

text \<open>C20: When the due timers of a list are one-shot, the callbacks leave the timers alone and the clock stands
  still during the run, one run calls each of them exactly once, in the
  order of the list, and takes exactly them out of the list.\<close>

theorem one_shots_fire_once_in_order:
  assumes "timers_ok st" "quiet_callbacks run_cb" "now \<le> INT64_MAX"
    "\<forall>h \<in> set (due_timers now d st). one_shot st h"
  shows "\<exists>st' b. timer_process_alarm run_cb d (replicate (Suc (length (due_timers now d st))) now) st = Some (st', b) \<and>
    called st' = called st @ map (\<lambda>h. (h, alarm_at st h, now)) (due_timers now d st) \<and>
    s_timers st d = due_timers now d st @ s_timers st' d"
proof -
  let ?n = "length (due_timers now d st)"
  obtain st' where st': "timer_process_alarm_loop run_cb d (replicate (Suc ?n) now) False st = Some (st', False \<or> ?n > 0)"
    "called st' = called st @ map (\<lambda>h. (h, alarm_at st h, now)) (due_timers now d st)"
    "s_timers st' d = drop ?n (s_timers st d)"
    using one_shots_loop [OF assms refl, of False] by blast
  have "due_timers now d st = take ?n (s_timers st d)"
    by (simp add: due_timers_def takeWhile_eq_take [symmetric])
  then have "s_timers st d = due_timers now d st @ s_timers st' d"
    using st'(3) by (metis append_take_drop_id)
  then show ?thesis using st'(1,2) by (auto simp only: timer_process_alarm_def)
qed

theorem one_shots_fire_once_in_order_witness:
  "\<exists>st' b. timer_process_alarm (\<lambda>cb a s. Some s) ESP_TIMER_TASK
      (replicate (Suc (length (due_timers 120 ESP_TIMER_TASK demo_armed))) 120) demo_armed = Some (st', b) \<and>
    called st' = called demo_armed @
      map (\<lambda>h. (h, alarm_at demo_armed h, 120)) (due_timers 120 ESP_TIMER_TASK demo_armed) \<and>
    s_timers demo_armed ESP_TIMER_TASK = due_timers 120 ESP_TIMER_TASK demo_armed @ s_timers st' ESP_TIMER_TASK"
  by (rule one_shots_fire_once_in_order [OF demo_armed_ok demo_quiet])
     (simp_all add: INT64_MAX_def due_timers_def one_shot_def demo_armed_def alarm_at_def EVENT_ID_DELETE_TIMER_def)

section \<open>Queries and errors\<close>

text \<open>C21: The next alarm is the earliest alarm of all armed timers, and the next alarm for a wake-up
  the earliest of those that must not be skipped; both are capped by the maximum time.\<close>

theorem next_alarm_is_the_earliest:
  assumes "timers_ok st"
  shows "esp_timer_get_next_alarm st = Some (Min (insert INT64_MAX (armed_alarms (\<lambda>t. True) st))) \<and>
    esp_timer_get_next_alarm_for_wake_up st =
      Some (Min (insert INT64_MAX (armed_alarms (\<lambda>t. flags t AND FL_SKIP_UNHANDLED_EVENTS = 0) st)))"
  unfolding esp_timer_get_next_alarm_def esp_timer_get_next_alarm_for_wake_up_def
  by (simp add: next_of_list_Min [OF assms] next_wake_of_list_Min [OF assms] armed_alarms_lists [OF assms]
      Min_two del: Min_insert)

theorem next_alarm_is_the_earliest_witness:
  "esp_timer_get_next_alarm demo_armed = Some (Min (insert INT64_MAX (armed_alarms (\<lambda>t. True) demo_armed)))"
  using next_alarm_is_the_earliest [OF demo_armed_ok] by simp

text \<open>C22: Restarting a timer is stopping it and starting it again, periodic when it was periodic and
  one-shot otherwise, on every path, errors included.\<close>

theorem restart_is_stop_and_start:
  assumes "timers_ok st" "heap st h = Some t"
  shows "esp_timer_restart now (Some h) us st = do {
     (st1, err) \<leftarrow> esp_timer_stop (Some h) st;
     if err \<noteq> ESP_OK then Some (st1, err)
     else if period t \<noteq> 0 then esp_timer_start_periodic now (Some h) us st1
     else esp_timer_start_once now (Some h) us st1
   }"
  using restart_eq_stop_and_start [OF assms] assms(2) by (simp add: stop_and_start_def)

theorem restart_is_stop_and_start_witness:
  "esp_timer_restart 110 (Some 2) 500 demo_armed = do {
     (st1, err) \<leftarrow> esp_timer_stop (Some 2) demo_armed;
     if err \<noteq> ESP_OK then Some (st1, err)
     else esp_timer_start_periodic 110 (Some 2) 500 st1
   }"
proof -
  have "heap demo_armed 2 = Some \<lparr>alarm = 150, period = 60, flags = 0, callback = 8, arg = 0\<rparr>"
    by (simp add: demo_armed_def)
  from restart_is_stop_and_start [OF demo_armed_ok this, of 110 500] show ?thesis by (simp add: case_prod_unfold cong: if_cong)
qed

text \<open>C23: A call that does not return success changes nothing.\<close>

theorem failed_timer_calls_change_nothing:
  "(esp_timer_create args out calloc st = (st1, e1, r) \<longrightarrow> e1 = ESP_OK \<or> st1 = st) \<and>
   (esp_timer_start_once now timer us st = Some (st2, e2) \<longrightarrow> e2 = ESP_OK \<or> st2 = st) \<and>
   (esp_timer_start_periodic now timer us st = Some (st3, e3) \<longrightarrow> e3 = ESP_OK \<or> st3 = st) \<and>
   (esp_timer_restart now timer us st = Some (st4, e4) \<longrightarrow> e4 = ESP_OK \<or> st4 = st) \<and>
   (esp_timer_stop timer st = Some (st5, e5) \<longrightarrow> e5 = ESP_OK \<or> st5 = st) \<and>
   (esp_timer_delete now timer st = Some (st6, e6) \<longrightarrow> e6 = ESP_OK \<or> st6 = st) \<and>
   (esp_timer_deinit st = (st7, e7) \<longrightarrow> e7 = ESP_OK \<or> st7 = st)"
proof (intro conjI impI)
  show "esp_timer_create args out calloc st = (st1, e1, r) \<Longrightarrow> e1 = ESP_OK \<or> st1 = st"
    by (auto simp: esp_timer_create_def split: if_splits option.splits)
  show "esp_timer_start_once now timer us st = Some (st2, e2) \<Longrightarrow> e2 = ESP_OK \<or> st2 = st"
    by (auto simp: esp_timer_start_once_def Let_def split: if_splits option.splits bind_splits)
  show "esp_timer_start_periodic now timer us st = Some (st3, e3) \<Longrightarrow> e3 = ESP_OK \<or> st3 = st"
    by (auto simp: esp_timer_start_periodic_def Let_def split: if_splits option.splits bind_splits)
  show "esp_timer_restart now timer us st = Some (st4, e4) \<Longrightarrow> e4 = ESP_OK \<or> st4 = st"
    by (auto simp: esp_timer_restart_def Let_def split: if_splits option.splits bind_splits)
  show "esp_timer_stop timer st = Some (st5, e5) \<Longrightarrow> e5 = ESP_OK \<or> st5 = st"
    by (auto simp: esp_timer_stop_def split: if_splits option.splits bind_splits)
  show "esp_timer_delete now timer st = Some (st6, e6) \<Longrightarrow> e6 = ESP_OK \<or> st6 = st"
    by (auto simp: esp_timer_delete_def split: if_splits option.splits bind_splits)
  show "esp_timer_deinit st = (st7, e7) \<Longrightarrow> e7 = ESP_OK \<or> st7 = st"
    by (auto simp: esp_timer_deinit_def split: if_splits)
qed

theorem failed_timer_calls_change_nothing_witness:
  "esp_timer_stop (Some 1) demo_created = Some (demo_created, ESP_ERR_INVALID_STATE)"
proof -
  obtain st' e where s: "esp_timer_stop (Some 1) demo_created = Some (st', e)" "e = ESP_ERR_INVALID_STATE"
    by (simp add: demo_created_def demo_init_def demo_args_def esp_timer_create_def esp_timer_init_def
      init_timer_task_def is_initialized_def initial_timers_def update_timer_def esp_timer_stop_def timer_armed_def)
  then have "st' = demo_created"
    using failed_timer_calls_change_nothing [THEN conjunct2, THEN conjunct2, THEN conjunct2, THEN conjunct2,
        THEN conjunct1, THEN mp, OF s(1)] by simp
  then show ?thesis using s by simp
qed

section \<open>Timers that are not served\<close>

text \<open>Delays are not checked.  One microsecond after boot, the longest delay wraps to the
  alarm 0: the timer is listed but not armed, so it can be started again and is then in the list
  twice; and a period of 2 to the power 56 is stored as 0, so the periodic timer is one-shot.\<close>

definition wrapped_delay :: "(nat list \<times> bool option \<times> nat list) option" where
  "wrapped_delay = do {
     (st1, e1) \<leftarrow> esp_timer_start_once 1 (Some 1) UINT64_MAX demo_created;
     active \<leftarrow> Some (esp_timer_is_active (Some 1) st1);
     (st2, e2) \<leftarrow> esp_timer_start_once 2 (Some 1) 100 st1;
     Some (s_timers st1 ESP_TIMER_TASK, active, s_timers st2 ESP_TIMER_TASK)
   }"

definition truncated_period :: "(esp_err_t \<times> 64 word option) option" where
  "truncated_period = do {
     (st1, e1) \<leftarrow> esp_timer_start_periodic 1 (Some 1) 72057594037927936 demo_created;
     esp_timer_get_period (Some 1) True st1
   }"

theorem delays_are_not_checked:
  "wrapped_delay = Some ([1], Some False, [1, 1]) \<and> truncated_period = Some (ESP_OK, Some 0)"
proof
  note d = demo_created_def demo_init_def demo_args_def esp_timer_create_def esp_timer_init_def
      init_timer_task_def is_initialized_def initial_timers_def update_timer_def UINT64_MAX_def
  show "wrapped_delay = Some ([1], Some False, [1, 1])"
    by (simp add: d wrapped_delay_def esp_timer_start_once_def timer_armed_def timer_insert_def
        esp_timer_impl_set_alarm_id_def dispatch_of_def esp_timer_is_active_def Let_def)
  show "truncated_period = Some (ESP_OK, Some 0)"
    by (simp add: d truncated_period_def esp_timer_start_periodic_def timer_armed_def timer_insert_def
        esp_timer_impl_set_alarm_id_def dispatch_of_def esp_timer_get_period_def Let_def
        esp_timer_impl_get_min_period_us_def max_def)
qed

text \<open>When the interrupt of a task timer finds that a later ISR timer is due as well, it
  serves the ISR timer only, drops the alarm of the task timer and does not notify the timer task.
  A second interrupt does notify it, but drops the alarm of the periodic ISR timer; once the timer
  task has run, both alarm registers are at the maximum although the ISR timer is armed.\<close>

definition both_due :: timer_state where
  "both_due =
     \<lparr>heap = [1 \<mapsto> \<lparr>alarm = 100, period = 0, flags = 0, callback = 7, arg = 0\<rparr>,
              2 \<mapsto> \<lparr>alarm = 101, period = 1000, flags = 1, callback = 8, arg = 0\<rparr>],
      s_timers = (\<lambda>d. if d = ESP_TIMER_TASK then [1] else [2]),
      timestamp_id = (\<lambda>d. if d = ESP_TIMER_TASK then 100 else 101),
      s_timer_task = True, called = []\<rparr>"

lemma not_task: "d \<noteq> ESP_TIMER_TASK \<longleftrightarrow> d = ESP_TIMER_ISR"
  by (cases d) simp_all

definition lost_alarm :: "((bool \<times> nat list \<times> bool) \<times> bool \<times> nat list \<times> nat list \<times> bool) option" where
  "lost_alarm = do {
     (st1, notify1) \<leftarrow> timer_alarm_handler (\<lambda>cb a s. Some s) [102, 102] both_due;
     (st2, notify2) \<leftarrow> timer_alarm_handler (\<lambda>cb a s. Some s) [103] st1;
     (st3, processed) \<leftarrow> timer_process_alarm (\<lambda>cb a s. Some s) ESP_TIMER_TASK [104, 104] st2;
     Some ((notify1, s_timers st1 ESP_TIMER_TASK, timestamp_id st1 ESP_TIMER_TASK = UINT64_MAX),
           notify2, s_timers st3 ESP_TIMER_TASK, s_timers st3 ESP_TIMER_ISR,
           alarm_at st3 2 = 1101 \<and> timestamp_id st3 ESP_TIMER_TASK = UINT64_MAX \<and>
           timestamp_id st3 ESP_TIMER_ISR = UINT64_MAX)
   }"

theorem isr_timer_loses_its_alarm:
  "timers_ok both_due \<and> alarm_set both_due ESP_TIMER_TASK \<and> alarm_set both_due ESP_TIMER_ISR \<and>
   lost_alarm = Some ((False, [1], True), True, [], [2], True)"
proof (intro conjI)
  show "timers_ok both_due"
    by (auto simp: both_due_def timers_ok_def listed_ok_def armed_listed_def alarm_at_def dispatch_of_def
      timer_armed_def FL_ISR_DISPATCH_METHOD_def not_task split: if_splits)
  show "alarm_set both_due ESP_TIMER_TASK" "alarm_set both_due ESP_TIMER_ISR"
    by (simp_all add: both_due_def alarm_set_def alarm_at_def)
  show "lost_alarm = Some ((False, [1], True), True, [], [2], True)"
    by (simp add: lost_alarm_def both_due_def timer_alarm_handler_def timer_process_alarm_def process_one_def
        list_remove_def esp_timer_impl_try_to_set_next_alarm_def esp_timer_impl_set_alarm_id_def UINT64_MAX_def
        Let_def EVENT_ID_DELETE_TIMER_def update_timer_def timer_insert_def next_alarm_of_def skipped_events_def
        dispatch_of_def FL_ISR_DISPATCH_METHOD_def FL_SKIP_UNHANDLED_EVENTS_def alarm_at_def fun_eq_iff)
qed

end
