(* ===== verification/Log.thy ===== *)
theory Log
  imports Prelude
begin

text \<open>
  Log levels per tag: \<open>components/log/src/log_level\<close> with its linked list, its two caches and
  the front end.  A tag is a pointer; \<open>str\<close> gives the string a pointer points to.  A failed
  assertion and an access outside the cache array are \<open>None\<close>.
\<close>

section \<open>Levels\<close>

text \<open>\<open>esp_log_level_t\<close> is an \<open>enum\<close> of 32 bits, stored in 8 bits by the list and in a field
  of \<open>ESP_LOG_LEVEL_LEN\<close> bits by the heap.\<close>

type_synonym esp_log_level_t = "32 word"
type_synonym tag_ptr = nat

definition ESP_LOG_NONE :: esp_log_level_t where "ESP_LOG_NONE = 0"
definition ESP_LOG_MAX :: esp_log_level_t where "ESP_LOG_MAX = 6"

section \<open>The linked list\<close>

text \<open>\<open>malloc_ok\<close> says whether the allocation of a new entry succeeds.\<close>

record uncached_tag_entry =
  ut_tag :: string
  ut_level :: "8 word"

fun set_log_level :: "string \<Rightarrow> esp_log_level_t \<Rightarrow> uncached_tag_entry list \<Rightarrow> uncached_tag_entry list \<times> bool" where
  "set_log_level tag level [] = ([], False)"
| "set_log_level tag level (it # its) =
     (if ut_tag it = tag then (it\<lparr>ut_level := ucast level\<rparr> # its, True)
      else let (its', found) = set_log_level tag level its in (it # its', found))"

definition add_to_list ::
  "bool \<Rightarrow> string \<Rightarrow> esp_log_level_t \<Rightarrow> uncached_tag_entry list \<Rightarrow> uncached_tag_entry list \<times> esp_err_t" where
  "add_to_list malloc_ok tag level l =
     (if malloc_ok then (\<lparr>ut_tag = tag, ut_level = ucast level\<rparr> # l, ESP_OK) else (l, ESP_ERR_NO_MEM))"

definition esp_log_linked_list_set_level ::
  "bool \<Rightarrow> string \<Rightarrow> esp_log_level_t \<Rightarrow> uncached_tag_entry list \<Rightarrow> uncached_tag_entry list \<times> bool" where
  "esp_log_linked_list_set_level malloc_ok tag level l =
     (let (l1, found) = set_log_level tag level l
      in if \<not> found
         then let (l2, err) = add_to_list malloc_ok tag level l1 in (l2, err = ESP_OK)
         else (l1, True))"

fun esp_log_linked_list_get_level :: "string \<Rightarrow> uncached_tag_entry list \<Rightarrow> esp_log_level_t option" where
  "esp_log_linked_list_get_level tag [] = None"
| "esp_log_linked_list_get_level tag (it # its) =
     (if tag = ut_tag it then Some (ucast (ut_level it)) else esp_log_linked_list_get_level tag its)"

fun esp_log_linked_list_clean :: "uncached_tag_entry list \<Rightarrow> uncached_tag_entry list" where
  "esp_log_linked_list_clean [] = []"
| "esp_log_linked_list_clean (it # its) = esp_log_linked_list_clean its"

section \<open>Array accesses\<close>

definition aget :: "'a list \<Rightarrow> nat \<Rightarrow> 'a option" where
  "aget es i = (if i < length es then Some (es ! i) else None)"

definition aput :: "'a list \<Rightarrow> nat \<Rightarrow> 'a \<Rightarrow> 'a list option" where
  "aput es i e = (if i < length es then Some (es[i := e]) else None)"

section \<open>The array cache\<close>

text \<open>\<open>TAG_CACHE_SIZE\<close> is the length of \<open>s_cache\<close>.\<close>

record array_entry =
  ae_tag :: tag_ptr
  ae_level :: "32 word"

record array_cache =
  s_cache :: "array_entry list"
  s_cache_entry_count :: "32 word"

definition ENTRY_COUNT :: "array_cache \<Rightarrow> nat" where
  "ENTRY_COUNT c =
     (if unat (s_cache_entry_count c) \<ge> length (s_cache c) then length (s_cache c)
      else unat (s_cache_entry_count c))"

text \<open>The search loops: the first index of the list with the property.\<close>

fun array_find :: "(array_entry \<Rightarrow> bool) \<Rightarrow> array_entry list \<Rightarrow> nat list \<Rightarrow> nat option option" where
  "array_find P es [] = Some None"
| "array_find P es (i # is) = do {
     e \<leftarrow> aget es i;
     if P e then Some (Some i) else array_find P es is
   }"

definition array_set_level ::
  "(tag_ptr \<Rightarrow> string) \<Rightarrow> string \<Rightarrow> esp_log_level_t \<Rightarrow> array_cache \<Rightarrow> array_cache option" where
  "array_set_level str tag level c = do {
     r \<leftarrow> array_find (\<lambda>e. str (ae_tag e) = tag) (s_cache c) [0..<ENTRY_COUNT c];
     case r of
       None \<Rightarrow> Some c
     | Some i \<Rightarrow> do {
         e \<leftarrow> aget (s_cache c) i;
         es \<leftarrow> aput (s_cache c) i (e\<lparr>ae_level := level\<rparr>);
         Some (c\<lparr>s_cache := es\<rparr>)
       }
   }"

definition array_get_level :: "tag_ptr \<Rightarrow> array_cache \<Rightarrow> (array_cache \<times> esp_log_level_t option) option" where
  "array_get_level tag c = do {
     r \<leftarrow> array_find (\<lambda>e. ae_tag e = tag) (s_cache c) [0..<ENTRY_COUNT c];
     case r of
       None \<Rightarrow> Some (c, None)
     | Some i \<Rightarrow> map_option (\<lambda>e. (c, Some (ae_level e))) (aget (s_cache c) i)
   }"

definition array_clean :: "array_cache \<Rightarrow> array_cache" where
  "array_clean c = c\<lparr>s_cache_entry_count := 0\<rparr>"

definition array_add :: "tag_ptr \<Rightarrow> esp_log_level_t \<Rightarrow> array_cache \<Rightarrow> array_cache option" where
  "array_add tag level c = do {
     es \<leftarrow> aput (s_cache c) (unat (s_cache_entry_count c) mod length (s_cache c))
             \<lparr>ae_tag = tag, ae_level = level\<rparr>;
     let n = s_cache_entry_count c + 1;
     Some (c\<lparr>s_cache := es,
             s_cache_entry_count := (if n = - 1 then of_nat (length (s_cache c)) else n)\<rparr>)
   }"

section \<open>The heap cache\<close>

text \<open>Built with its checks (\<open>LOG_BUILTIN_CHECKS\<close>): an entry whose parent is not older fails
  the assertion.\<close>

record heap_entry =
  he_tag :: tag_ptr
  he_level :: "3 word"
  he_generation :: "29 word"

record heap_cache =
  s_log_cache :: "heap_entry list"
  s_log_cache_max_generation :: "32 word"
  s_log_cache_entry_count :: "32 word"
  s_log_cache_misses :: "32 word"

definition MAX_GENERATION :: "32 word" where "MAX_GENERATION = 0x1FFFFFFF"

fun heap_find :: "(heap_entry \<Rightarrow> bool) \<Rightarrow> heap_entry list \<Rightarrow> nat list \<Rightarrow> nat option option" where
  "heap_find P es [] = Some None"
| "heap_find P es (i # is) = do {
     e \<leftarrow> aget es i;
     parent \<leftarrow> aget es ((i - 1) div 2);
     assert_that (i = 0 \<or> he_generation parent < he_generation e);
     if P e then Some (Some i) else heap_find P es is
   }"

definition heap_set_level ::
  "(tag_ptr \<Rightarrow> string) \<Rightarrow> string \<Rightarrow> esp_log_level_t \<Rightarrow> heap_cache \<Rightarrow> heap_cache option" where
  "heap_set_level str tag level c = do {
     r \<leftarrow> heap_find (\<lambda>e. str (he_tag e) = tag) (s_log_cache c) [0..<unat (s_log_cache_entry_count c)];
     case r of
       None \<Rightarrow> Some c
     | Some i \<Rightarrow> do {
         e \<leftarrow> aget (s_log_cache c) i;
         es \<leftarrow> aput (s_log_cache c) i (e\<lparr>he_level := ucast level\<rparr>);
         Some (c\<lparr>s_log_cache := es\<rparr>)
       }
   }"

definition heap_swap :: "nat \<Rightarrow> nat \<Rightarrow> 'a list \<Rightarrow> 'a list option" where
  "heap_swap i j es = do {
     a \<leftarrow> aget es i;
     b \<leftarrow> aget es j;
     es1 \<leftarrow> aput es i b;
     aput es1 j a
   }"

function heap_bubble_down :: "nat \<Rightarrow> nat \<Rightarrow> heap_entry list \<Rightarrow> heap_entry list option" where
  "heap_bubble_down sz index es =
     (if index < sz div 2
      then do {
        l \<leftarrow> aget es (index * 2 + 1);
        r \<leftarrow> aget es (index * 2 + 2);
        es1 \<leftarrow> heap_swap index (if he_generation l < he_generation r then index * 2 + 1 else index * 2 + 2) es;
        heap_bubble_down sz (if he_generation l < he_generation r then index * 2 + 1 else index * 2 + 2) es1
      }
      else Some es)"
  by pat_completeness auto
termination by (relation "measure (\<lambda>(sz, index, es). sz - index)") auto

declare heap_bubble_down.simps [simp del]

text \<open>The renumbering loop runs over the entries in use.\<close>

fun fix_cache_loop :: "nat list \<Rightarrow> heap_entry list \<Rightarrow> heap_entry list option" where
  "fix_cache_loop [] es = Some es"
| "fix_cache_loop (i # is) es = do {
     e \<leftarrow> aget es i;
     es1 \<leftarrow> aput es i (e\<lparr>he_generation := of_nat i\<rparr>);
     fix_cache_loop is es1
   }"

definition fix_cache_generation_overflow :: "heap_cache \<Rightarrow> heap_cache option" where
  "fix_cache_generation_overflow c = do {
     es \<leftarrow> fix_cache_loop [0..<unat (s_log_cache_entry_count c)] (s_log_cache c);
     Some (c\<lparr>s_log_cache := es, s_log_cache_max_generation := s_log_cache_entry_count c\<rparr>)
   }"

definition check_generation :: "heap_cache \<Rightarrow> heap_cache option" where
  "check_generation c =
     (if s_log_cache_max_generation c = MAX_GENERATION then fix_cache_generation_overflow c else Some c)"

definition heap_get_level :: "tag_ptr \<Rightarrow> heap_cache \<Rightarrow> (heap_cache \<times> esp_log_level_t option) option" where
  "heap_get_level tag c = do {
     r \<leftarrow> heap_find (\<lambda>e. he_tag e = tag) (s_log_cache c) [0..<unat (s_log_cache_entry_count c)];
     case r of
       None \<Rightarrow> Some (c\<lparr>s_log_cache_misses := s_log_cache_misses c + 1\<rparr>, None)
     | Some i \<Rightarrow> do {
         e \<leftarrow> aget (s_log_cache c) i;
         let level = ucast (he_level e);
         if unat (s_log_cache_entry_count c) = length (s_log_cache c)
         then do {
           es1 \<leftarrow> aput (s_log_cache c) i (e\<lparr>he_generation := ucast (s_log_cache_max_generation c)\<rparr>);
           es2 \<leftarrow> heap_bubble_down (length es1) i es1;
           c1 \<leftarrow> check_generation (c\<lparr>s_log_cache := es2,
                    s_log_cache_max_generation := s_log_cache_max_generation c + 1\<rparr>);
           Some (c1, Some level)
         }
         else Some (c, Some level)
       }
   }"

definition heap_clean :: "heap_cache \<Rightarrow> heap_cache" where
  "heap_clean c = c\<lparr>s_log_cache_entry_count := 0, s_log_cache_max_generation := 0, s_log_cache_misses := 0\<rparr>"

definition heap_add :: "tag_ptr \<Rightarrow> esp_log_level_t \<Rightarrow> heap_cache \<Rightarrow> heap_cache option" where
  "heap_add tag level c =
     (let e = \<lparr>he_tag = tag, he_level = ucast level, he_generation = ucast (s_log_cache_max_generation c)\<rparr>;
          n = unat (s_log_cache_entry_count c);
          c0 = c\<lparr>s_log_cache_max_generation := s_log_cache_max_generation c + 1\<rparr>
      in if n < length (s_log_cache c)
         then do {
           es \<leftarrow> aput (s_log_cache c) n e;
           check_generation (c0\<lparr>s_log_cache := es, s_log_cache_entry_count := s_log_cache_entry_count c + 1\<rparr>)
         }
         else do {
           es \<leftarrow> aput (s_log_cache c) 0 e;
           es1 \<leftarrow> heap_bubble_down (length es) 0 es;
           check_generation (c0\<lparr>s_log_cache := es1\<rparr>)
         })"

section \<open>The front end\<close>

text \<open>\<open>CONFIG_LOG_TAG_LEVEL_IMPL\<close>; with a cache, its operations are those of one of the two
  implementations.\<close>

datatype tag_level_impl = IMPL_NONE | IMPL_LINKED_LIST | IMPL_CACHE_AND_LINKED_LIST

record 'c cache_ops =
  cache_set_level :: "(tag_ptr \<Rightarrow> string) \<Rightarrow> string \<Rightarrow> esp_log_level_t \<Rightarrow> 'c \<Rightarrow> 'c option"
  cache_get_level :: "tag_ptr \<Rightarrow> 'c \<Rightarrow> ('c \<times> esp_log_level_t option) option"
  cache_clean :: "'c \<Rightarrow> 'c"
  cache_add :: "tag_ptr \<Rightarrow> esp_log_level_t \<Rightarrow> 'c \<Rightarrow> 'c option"

record 'c log_state =
  esp_log_default_level :: esp_log_level_t
  s_master_log_level :: esp_log_level_t
  s_log_tags :: "uncached_tag_entry list"
  log_cache :: 'c

definition esp_log_set_default_level :: "esp_log_level_t \<Rightarrow> 'c log_state \<Rightarrow> 'c log_state" where
  "esp_log_set_default_level level st = st\<lparr>esp_log_default_level := level\<rparr>"

definition esp_log_get_level_master :: "'c log_state \<Rightarrow> esp_log_level_t" where
  "esp_log_get_level_master st = s_master_log_level st"

definition esp_log_set_level_master :: "esp_log_level_t \<Rightarrow> 'c log_state \<Rightarrow> 'c log_state" where
  "esp_log_set_level_master level st = st\<lparr>s_master_log_level := level\<rparr>"

definition log_level_set ::
  "tag_level_impl \<Rightarrow> 'c cache_ops \<Rightarrow> (tag_ptr \<Rightarrow> string) \<Rightarrow> bool \<Rightarrow> tag_ptr option \<Rightarrow> esp_log_level_t
     \<Rightarrow> 'c log_state \<Rightarrow> 'c log_state option" where
  "log_level_set impl ops str malloc_ok tag level st =
     (case tag of
        None \<Rightarrow> Some st
      | Some p \<Rightarrow>
          if str p = ''*''
          then let st1 = esp_log_set_default_level level st;
                   st2 = st1\<lparr>s_log_tags := esp_log_linked_list_clean (s_log_tags st1)\<rparr>
               in Some (if impl = IMPL_CACHE_AND_LINKED_LIST
                        then st2\<lparr>log_cache := cache_clean ops (log_cache st2)\<rparr> else st2)
          else
            let (l, success) = esp_log_linked_list_set_level malloc_ok (str p) level (s_log_tags st);
                st1 = st\<lparr>s_log_tags := l\<rparr>
            in if impl = IMPL_CACHE_AND_LINKED_LIST \<and> success
               then do {
                 c \<leftarrow> cache_set_level ops str (str p) level (log_cache st1);
                 Some (st1\<lparr>log_cache := c\<rparr>)
               }
               else Some st1)"

text \<open>\<open>lock_ok\<close>: the lock is taken before the timeout.\<close>

definition log_level_get ::
  "tag_level_impl \<Rightarrow> 'c cache_ops \<Rightarrow> (tag_ptr \<Rightarrow> string) \<Rightarrow> bool \<Rightarrow> tag_ptr option \<Rightarrow> bool
     \<Rightarrow> 'c log_state \<Rightarrow> ('c log_state \<times> esp_log_level_t) option" where
  "log_level_get impl ops str lock_ok tag timeout st =
     (let level_for_tag = esp_log_default_level st
      in case tag of
           None \<Rightarrow> Some (st, level_for_tag)
         | Some p \<Rightarrow>
             if timeout \<and> \<not> lock_ok then Some (st, ESP_LOG_NONE)
             else if impl = IMPL_CACHE_AND_LINKED_LIST
             then do {
               (c, hit) \<leftarrow> cache_get_level ops p (log_cache st);
               case hit of
                 Some level \<Rightarrow> Some (st\<lparr>log_cache := c\<rparr>, level)
               | None \<Rightarrow> do {
                   let level = (case esp_log_linked_list_get_level (str p) (s_log_tags st) of
                                  Some l \<Rightarrow> l | None \<Rightarrow> level_for_tag);
                   c1 \<leftarrow> cache_add ops p level c;
                   Some (st\<lparr>log_cache := c1\<rparr>, level)
                 }
             }
             else Some (st, case esp_log_linked_list_get_level (str p) (s_log_tags st) of
                              Some l \<Rightarrow> l | None \<Rightarrow> level_for_tag))"

definition esp_log_level_set ::
  "tag_level_impl \<Rightarrow> 'c cache_ops \<Rightarrow> (tag_ptr \<Rightarrow> string) \<Rightarrow> bool \<Rightarrow> tag_ptr option \<Rightarrow> esp_log_level_t
     \<Rightarrow> 'c log_state \<Rightarrow> 'c log_state option" where
  "esp_log_level_set impl ops str malloc_ok tag level st =
     (if impl = IMPL_NONE then Some (esp_log_set_default_level level st)
      else log_level_set impl ops str malloc_ok tag level st)"

definition esp_log_level_get_timeout ::
  "tag_level_impl \<Rightarrow> 'c cache_ops \<Rightarrow> (tag_ptr \<Rightarrow> string) \<Rightarrow> bool \<Rightarrow> tag_ptr option
     \<Rightarrow> 'c log_state \<Rightarrow> ('c log_state \<times> esp_log_level_t) option" where
  "esp_log_level_get_timeout impl ops str lock_ok tag st =
     (if impl = IMPL_NONE then Some (st, esp_log_default_level st)
      else log_level_get impl ops str lock_ok tag True st)"

definition esp_log_level_get ::
  "tag_level_impl \<Rightarrow> 'c cache_ops \<Rightarrow> (tag_ptr \<Rightarrow> string) \<Rightarrow> tag_ptr option
     \<Rightarrow> 'c log_state \<Rightarrow> ('c log_state \<times> esp_log_level_t) option" where
  "esp_log_level_get impl ops str tag st =
     (if impl = IMPL_NONE then Some (st, esp_log_default_level st)
      else log_level_get impl ops str True tag False st)"

definition array_ops :: "array_cache cache_ops" where
  "array_ops = \<lparr>cache_set_level = array_set_level, cache_get_level = array_get_level,
                cache_clean = array_clean, cache_add = array_add\<rparr>"

definition heap_ops :: "heap_cache cache_ops" where
  "heap_ops = \<lparr>cache_set_level = heap_set_level, cache_get_level = heap_get_level,
               cache_clean = heap_clean, cache_add = heap_add\<rparr>"

end
