(* ===== verification/Log_Cache.thy ===== *)
theory Log_Cache
  imports Log
begin

text \<open>
  The interface between the log front end and a tag cache, and what the front end shows over
  any cache that keeps it: the levels returned are those of the linked list alone.
\<close>

section \<open>Sequences of calls\<close>

datatype log_op =
    LogSet "tag_ptr option" esp_log_level_t bool
  | LogGet "tag_ptr option"
  | LogGetTimeout "tag_ptr option" bool

fun run_log ::
  "tag_level_impl \<Rightarrow> 'c cache_ops \<Rightarrow> (tag_ptr \<Rightarrow> string) \<Rightarrow> log_op list \<Rightarrow> 'c log_state
     \<Rightarrow> ('c log_state \<times> esp_log_level_t list) option" where
  "run_log impl ops str [] st = Some (st, [])"
| "run_log impl ops str (LogSet tag level malloc_ok # os) st = do {
     st1 \<leftarrow> esp_log_level_set impl ops str malloc_ok tag level st;
     run_log impl ops str os st1
   }"
| "run_log impl ops str (LogGet tag # os) st = do {
     (st1, l) \<leftarrow> esp_log_level_get impl ops str tag st;
     (st2, ls) \<leftarrow> run_log impl ops str os st1;
     Some (st2, l # ls)
   }"
| "run_log impl ops str (LogGetTimeout tag lock_ok # os) st = do {
     (st1, l) \<leftarrow> esp_log_level_get_timeout impl ops str lock_ok tag st;
     (st2, ls) \<leftarrow> run_log impl ops str os st1;
     Some (st2, l # ls)
   }"

fun op_tags :: "log_op \<Rightarrow> tag_ptr set" where
  "op_tags (LogSet tag level malloc_ok) = set_option tag"
| "op_tags (LogGet tag) = set_option tag"
| "op_tags (LogGetTimeout tag lock_ok) = set_option tag"

fun op_level_ok :: "log_op \<Rightarrow> bool" where
  "op_level_ok (LogSet tag level malloc_ok) = (level < ESP_LOG_MAX)"
| "op_level_ok _ = True"

section \<open>The linked list as a map\<close>

definition tag_level :: "'c log_state \<Rightarrow> string \<Rightarrow> esp_log_level_t" where
  "tag_level st s =
     (case esp_log_linked_list_get_level s (s_log_tags st) of
        Some l \<Rightarrow> l | None \<Rightarrow> esp_log_default_level st)"

lemma ucast_level: "(level :: 32 word) < 256 \<Longrightarrow> ucast (ucast level :: 8 word) = level"
  unfolding word_unat_eq_iff by (simp add: unsigned_ucast_eq word_less_nat_alt take_bit_eq_mod unat_mod_distrib)

lemma ucast_level3: "(level :: 32 word) < 8 \<Longrightarrow> ucast (ucast level :: 3 word) = level"
  unfolding word_unat_eq_iff by (simp add: unsigned_ucast_eq word_less_nat_alt take_bit_eq_mod unat_mod_distrib)

lemma valid_level_less:
  assumes "level < ESP_LOG_MAX"
  shows "level < 8" "level < 256"
  using assms by (simp_all add: ESP_LOG_MAX_def word_less_nat_alt)

lemma linked_list_clean [simp]: "esp_log_linked_list_clean l = []"
  by (induction l) simp_all

lemma set_log_level_found: "snd (set_log_level s level l) = (esp_log_linked_list_get_level s l \<noteq> None)"
  by (induction l) (auto split: prod.splits)

lemma set_log_level_get:
  "esp_log_linked_list_get_level x (fst (set_log_level s level l)) =
     (if x = s \<and> esp_log_linked_list_get_level s l \<noteq> None then Some (ucast (ucast level :: 8 word))
      else esp_log_linked_list_get_level x l)"
  by (induction l) (auto split: prod.splits)

lemma linked_list_set_result:
  "snd (esp_log_linked_list_set_level malloc_ok s level l) =
     (malloc_ok \<or> esp_log_linked_list_get_level s l \<noteq> None)"
  using set_log_level_found [of s level l]
  by (auto simp: esp_log_linked_list_set_level_def add_to_list_def Let_def split: prod.splits)

lemma linked_list_set_get:
  assumes "level < ESP_LOG_MAX"
  shows "esp_log_linked_list_get_level x (fst (esp_log_linked_list_set_level malloc_ok s level l)) =
     (if x = s \<and> (malloc_ok \<or> esp_log_linked_list_get_level s l \<noteq> None) then Some level
      else esp_log_linked_list_get_level x l)"
  using set_log_level_found [of s level l] set_log_level_get [of x s level l]
    ucast_level [OF valid_level_less(2) [OF assms]]
  by (auto simp: esp_log_linked_list_set_level_def add_to_list_def Let_def split: prod.splits)

text \<open>Levels stay valid.\<close>

definition levels_ok :: "'c log_state \<Rightarrow> bool" where
  "levels_ok st \<longleftrightarrow> (\<forall>s. tag_level st s < ESP_LOG_MAX) \<and> esp_log_default_level st < ESP_LOG_MAX"

section \<open>The interface\<close>

text \<open>What the front end relies on: the cache never traps, a lookup returns the cached level and
  keeps the contents, an insertion adds one tag and may drop others, an update changes the level of
  the tag, and cleaning empties it.  Two pointers in the cache with the same string are excluded.\<close>

locale tag_cache =
  fixes ops :: "'c cache_ops"
    and inv :: "'c \<Rightarrow> bool"
    and content :: "'c \<Rightarrow> tag_ptr \<Rightarrow> esp_log_level_t option"
  assumes clean_law: "inv c \<Longrightarrow> inv (cache_clean ops c) \<and> content (cache_clean ops c) = Map.empty"
    and get_law: "inv c \<Longrightarrow>
      \<exists>c'. cache_get_level ops p c = Some (c', content c p) \<and> inv c' \<and> content c' = content c"
    and add_law: "inv c \<Longrightarrow> content c p = None \<Longrightarrow> level < ESP_LOG_MAX \<Longrightarrow>
      \<exists>c'. cache_add ops p level c = Some c' \<and> inv c' \<and> content c' \<subseteq>\<^sub>m (content c)(p \<mapsto> level)"
    and set_law: "inv c \<Longrightarrow> inj_on str (dom (content c)) \<Longrightarrow> level < ESP_LOG_MAX \<Longrightarrow>
      \<exists>c'. cache_set_level ops str s level c = Some c' \<and> inv c' \<and>
        content c' = (\<lambda>q. if content c q \<noteq> None \<and> str q = s then Some level else content c q)"
begin

definition coherent :: "(tag_ptr \<Rightarrow> string) \<Rightarrow> tag_ptr set \<Rightarrow> 'c log_state \<Rightarrow> bool" where
  "coherent str T st \<longleftrightarrow> inv (log_cache st) \<and> dom (content (log_cache st)) \<subseteq> T \<and> inj_on str T \<and>
     levels_ok st \<and> (\<forall>p l. content (log_cache st) p = Some l \<longrightarrow> l = tag_level st (str p))"

lemma set_coherent:
  assumes c: "coherent str T st" and t: "set_option tag \<subseteq> T" and l: "level < ESP_LOG_MAX"
    and r: "esp_log_level_set IMPL_LINKED_LIST ops' str malloc_ok tag level st2 = Some st2'"
    and e: "s_log_tags st2 = s_log_tags st" "esp_log_default_level st2 = esp_log_default_level st"
  shows "\<exists>st'. esp_log_level_set IMPL_CACHE_AND_LINKED_LIST ops str malloc_ok tag level st = Some st' \<and>
     coherent str T st' \<and> s_log_tags st2' = s_log_tags st' \<and> esp_log_default_level st2' = esp_log_default_level st'"
proof (cases tag)
  case None
  then show ?thesis using c r e by (simp add: esp_log_level_set_def log_level_set_def)
next
  case (Some p)
  have inv: "inv (log_cache st)" and lok: "levels_ok st" using c by (auto simp: coherent_def)
  show ?thesis
  proof (cases "str p = ''*''")
    case True
    have "coherent str T (st\<lparr>esp_log_default_level := level, s_log_tags := [],
        log_cache := cache_clean ops (log_cache st)\<rparr>)"
      using c clean_law [OF inv] l by (simp add: coherent_def levels_ok_def tag_level_def)
    then show ?thesis
      using True Some r e by (auto simp: esp_log_level_set_def log_level_set_def esp_log_set_default_level_def Let_def)
  next
    case False
    obtain l1 ok where s: "esp_log_linked_list_set_level malloc_ok (str p) level (s_log_tags st) = (l1, ok)"
      by (meson prod.exhaust)
    let ?st1 = "st\<lparr>s_log_tags := l1\<rparr>"
    have ok: "ok = (malloc_ok \<or> esp_log_linked_list_get_level (str p) (s_log_tags st) \<noteq> None)"
      using linked_list_set_result [of malloc_ok "str p" level "s_log_tags st"] s by simp
    have g: "esp_log_linked_list_get_level x l1 =
        (if x = str p \<and> ok then Some level else esp_log_linked_list_get_level x (s_log_tags st))" for x
      using linked_list_set_get [OF l, of x malloc_ok "str p" "s_log_tags st"] s ok by simp
    have tl: "tag_level ?st1 x = (if x = str p \<and> ok then level else tag_level st x)" for x
      using g [of x] by (simp add: tag_level_def split: option.splits)
    have lok1: "levels_ok ?st1" using lok l tl by (simp add: levels_ok_def)
    have r2: "s_log_tags st2' = l1" "esp_log_default_level st2' = esp_log_default_level st"
      using r e Some False s by (auto simp: esp_log_level_set_def log_level_set_def)
    show ?thesis
    proof (cases ok)
      case True
      have "inj_on str (dom (content (log_cache st)))"
        using c by (meson coherent_def inj_on_subset)
      from set_law [OF inv this l, of "str p"] obtain c' where
        c': "cache_set_level ops str (str p) level (log_cache st) = Some c'" "inv c'"
        "content c' = (\<lambda>q. if content (log_cache st) q \<noteq> None \<and> str q = str p then Some level
            else content (log_cache st) q)" by blast
      have "coherent str T (?st1\<lparr>log_cache := c'\<rparr>)"
      proof -
        have "dom (content c') \<subseteq> T" using c by (auto simp: c'(3) coherent_def split: if_splits)
        moreover have "l' = tag_level ?st1 (str q)" if "content c' q = Some l'" for q l'
          using that c True by (auto simp: c'(3) tl coherent_def split: if_splits)
        moreover have "levels_ok (?st1\<lparr>log_cache := c'\<rparr>)" "\<And>x. tag_level (?st1\<lparr>log_cache := c'\<rparr>) x = tag_level ?st1 x"
          using lok1 by (simp_all add: levels_ok_def tag_level_def cong: option.case_cong)
        ultimately show ?thesis using c c'(2) by (simp add: coherent_def)
      qed
      then show ?thesis
        using Some False s True c'(1) r2
        by (auto simp: esp_log_level_set_def log_level_set_def intro!: exI [of _ "?st1\<lparr>log_cache := c'\<rparr>"])
    next
      case notok: False
      have "coherent str T ?st1"
        using c lok1 notok by (simp add: coherent_def tl)
      then show ?thesis
        using Some False s notok r2 by (simp add: esp_log_level_set_def log_level_set_def)
    qed
  qed
qed

lemma get_coherent:
  assumes c: "coherent str T st" and t: "p \<in> T"
  shows "\<exists>st'. log_level_get IMPL_CACHE_AND_LINKED_LIST ops str True (Some p) timeout st =
       Some (st', tag_level st (str p)) \<and>
     coherent str T st' \<and> s_log_tags st' = s_log_tags st \<and> esp_log_default_level st' = esp_log_default_level st"
proof -
  have inv: "inv (log_cache st)" using c by (simp add: coherent_def)
  from get_law [OF inv, of p] obtain c1 where
    c1: "cache_get_level ops p (log_cache st) = Some (c1, content (log_cache st) p)" "inv c1"
    "content c1 = content (log_cache st)" by blast
  have upd: "levels_ok (st\<lparr>log_cache := x\<rparr>) = levels_ok st"
    "tag_level (st\<lparr>log_cache := x\<rparr>) y = tag_level st y" for x y
    by (simp_all add: levels_ok_def tag_level_def cong: option.case_cong)
  show ?thesis
  proof (cases "content (log_cache st) p")
    case (Some l)
    have "l = tag_level st (str p)" using c Some by (simp add: coherent_def)
    moreover have "coherent str T (st\<lparr>log_cache := c1\<rparr>)" using c c1 by (simp add: coherent_def upd)
    ultimately show ?thesis using Some c1(1) by (simp add: log_level_get_def)
  next
    case None
    have lv: "tag_level st (str p) < ESP_LOG_MAX" using c by (simp add: coherent_def levels_ok_def)
    from add_law [OF c1(2) _ lv, of p] obtain c2 where
      c2: "cache_add ops p (tag_level st (str p)) c1 = Some c2" "inv c2"
      "content c2 \<subseteq>\<^sub>m (content (log_cache st))(p \<mapsto> tag_level st (str p))"
      using c1(3) None by auto
    have sub: "l = tag_level st (str q)" "q \<in> T" if "content c2 q = Some l" for q l
    proof -
      have "((content (log_cache st))(p \<mapsto> tag_level st (str p))) q = Some l"
        using c2(3) that by (metis domI map_le_def)
      then show "l = tag_level st (str q)" "q \<in> T"
        using c t by (auto simp: coherent_def split: if_splits)
    qed
    then have "coherent str T (st\<lparr>log_cache := c2\<rparr>)"
      using c c2(2) by (auto simp: coherent_def upd)
    moreover have "cache_add ops p (case esp_log_linked_list_get_level (str p) (s_log_tags st) of
        Some l \<Rightarrow> l | None \<Rightarrow> esp_log_default_level st) c1 = Some c2"
      using c2(1) by (simp add: tag_level_def)
    ultimately show ?thesis
      using None c1(1) by (simp add: log_level_get_def Let_def) (simp add: tag_level_def)
  qed
qed

lemma get_any_coherent:
  assumes c: "coherent str T st" and t: "set_option tag \<subseteq> T"
    and r: "log_level_get IMPL_LINKED_LIST ops' str lock_ok tag timeout st2 = Some (st2', l)"
    and e: "s_log_tags st2 = s_log_tags st" "esp_log_default_level st2 = esp_log_default_level st"
  shows "\<exists>st'. log_level_get IMPL_CACHE_AND_LINKED_LIST ops str lock_ok tag timeout st = Some (st', l) \<and>
     coherent str T st' \<and> s_log_tags st2' = s_log_tags st' \<and> esp_log_default_level st2' = esp_log_default_level st'"
proof (cases tag)
  case None
  then show ?thesis using c r e by (simp add: log_level_get_def)
next
  case (Some p)
  show ?thesis
  proof (cases "timeout \<and> \<not> lock_ok")
    case True
    then show ?thesis using c r e Some by (auto simp: log_level_get_def)
  next
    case False
    then have "log_level_get IMPL_CACHE_AND_LINKED_LIST ops str lock_ok (Some p) timeout st =
        log_level_get IMPL_CACHE_AND_LINKED_LIST ops str True (Some p) timeout st"
      by (auto simp: log_level_get_def)
    moreover have "st2' = st2" "l = tag_level st (str p)"
      using False r e Some by (auto simp: log_level_get_def tag_level_def)
    ultimately show ?thesis using get_coherent [OF c, of p timeout] t Some e by auto
  qed
qed

theorem cached_run:
  assumes "coherent str T st" "s_log_tags st2 = s_log_tags st" "esp_log_default_level st2 = esp_log_default_level st"
    "\<forall>x \<in> set os. op_tags x \<subseteq> T \<and> op_level_ok x"
    "run_log IMPL_LINKED_LIST ops' str os st2 = Some (st2', ls)"
  shows "\<exists>st'. run_log IMPL_CACHE_AND_LINKED_LIST ops str os st = Some (st', ls)"
  using assms
proof (induction os arbitrary: st st2 st2' ls)
  case Nil
  then show ?case by simp
next
  case (Cons x os)
  note c = Cons.prems(1) and e = Cons.prems(2,3) and r = Cons.prems(5)
  have rest: "\<forall>y \<in> set os. op_tags y \<subseteq> T \<and> op_level_ok y" using Cons.prems(4) by simp
  show ?case
  proof (cases x)
    case (LogSet tag level malloc_ok)
    obtain st3 where st3: "esp_log_level_set IMPL_LINKED_LIST ops' str malloc_ok tag level st2 = Some st3"
      "run_log IMPL_LINKED_LIST ops' str os st3 = Some (st2', ls)"
      using r LogSet by (auto split: bind_splits)
    obtain st' where st': "esp_log_level_set IMPL_CACHE_AND_LINKED_LIST ops str malloc_ok tag level st = Some st'"
      "coherent str T st'" "s_log_tags st3 = s_log_tags st'" "esp_log_default_level st3 = esp_log_default_level st'"
      using set_coherent [OF c _ _ st3(1) e] Cons.prems(4) LogSet by auto
    show ?thesis using Cons.IH [OF st'(2-4) rest st3(2)] st'(1) LogSet by simp
  next
    case (LogGet tag)
    obtain st3 l ls' where st3: "log_level_get IMPL_LINKED_LIST ops' str True tag False st2 = Some (st3, l)"
      "run_log IMPL_LINKED_LIST ops' str os st3 = Some (st2', ls')" "ls = l # ls'"
      using r LogGet by (auto simp: esp_log_level_get_def split: bind_splits)
    obtain st' where st': "log_level_get IMPL_CACHE_AND_LINKED_LIST ops str True tag False st = Some (st', l)"
      "coherent str T st'" "s_log_tags st3 = s_log_tags st'" "esp_log_default_level st3 = esp_log_default_level st'"
      using get_any_coherent [OF c _ st3(1) e] Cons.prems(4) LogGet by auto
    show ?thesis using Cons.IH [OF st'(2-4) rest st3(2)] st'(1) LogGet st3(3)
      by (auto simp: esp_log_level_get_def)
  next
    case (LogGetTimeout tag lock_ok)
    obtain st3 l ls' where st3: "log_level_get IMPL_LINKED_LIST ops' str lock_ok tag True st2 = Some (st3, l)"
      "run_log IMPL_LINKED_LIST ops' str os st3 = Some (st2', ls')" "ls = l # ls'"
      using r LogGetTimeout by (auto simp: esp_log_level_get_timeout_def split: bind_splits)
    obtain st' where st': "log_level_get IMPL_CACHE_AND_LINKED_LIST ops str lock_ok tag True st = Some (st', l)"
      "coherent str T st'" "s_log_tags st3 = s_log_tags st'" "esp_log_default_level st3 = esp_log_default_level st'"
      using get_any_coherent [OF c _ st3(1) e] Cons.prems(4) LogGetTimeout by auto
    show ?thesis using Cons.IH [OF st'(2-4) rest st3(2)] st'(1) LogGetTimeout st3(3)
      by (auto simp: esp_log_level_get_timeout_def)
  qed
qed

end

text \<open>Without a cache a run never fails.\<close>

lemma linked_list_run_total: "\<exists>st' ls. run_log IMPL_LINKED_LIST ops str os st = Some (st', ls)"
proof (induction os arbitrary: st)
  case Nil
  then show ?case by simp
next
  case (Cons x os)
  show ?case
  proof (cases x)
    case (LogSet tag level malloc_ok)
    obtain st1 where "esp_log_level_set IMPL_LINKED_LIST ops str malloc_ok tag level st = Some st1"
      by (cases tag; cases "str (the tag) = ''*''")
         (simp_all add: esp_log_level_set_def log_level_set_def case_prod_unfold)
    then show ?thesis using Cons.IH [of st1] LogSet by simp
  next
    case (LogGet tag)
    obtain l where "esp_log_level_get IMPL_LINKED_LIST ops str tag st = Some (st, l)"
      by (cases tag) (auto simp: esp_log_level_get_def log_level_get_def)
    then show ?thesis using Cons.IH [of st] LogGet by auto
  next
    case (LogGetTimeout tag lock_ok)
    obtain l where "esp_log_level_get_timeout IMPL_LINKED_LIST ops str lock_ok tag st = Some (st, l)"
      by (cases tag; cases lock_ok) (simp_all add: esp_log_level_get_timeout_def log_level_get_def)
    then show ?thesis using Cons.IH [of st] LogGetTimeout by auto
  qed
qed

end
