(* ===== verification/Log_Array.thy ===== *)
theory Log_Array
  imports Log_Cache "HOL-Library.Multiset"
begin

text \<open>
  The contents of a cache array as a map, and the array cache as a provider of the cache
  interface.
\<close>

section \<open>Contents of an array of entries\<close>

definition cached :: "('e \<Rightarrow> tag_ptr) \<Rightarrow> ('e \<Rightarrow> esp_log_level_t) \<Rightarrow> 'e list \<Rightarrow> tag_ptr \<Rightarrow> esp_log_level_t option" where
  "cached tg lv es = map_of (map (\<lambda>e. (tg e, lv e)) es)"

lemma cached_Some:
  assumes "distinct (map tg es)"
  shows "cached tg lv es p = Some l \<longleftrightarrow> (\<exists>i < length es. tg (es ! i) = p \<and> lv (es ! i) = l)"
proof -
  let ?f = "\<lambda>e. (tg e, lv e)"
  have "distinct (map fst (map ?f es))" using assms by (simp add: comp_def)
  then have "cached tg lv es p = Some l \<longleftrightarrow> (p, l) \<in> set (map ?f es)"
    unfolding cached_def by (rule map_of_eq_Some_iff)
  also have "\<dots> \<longleftrightarrow> (\<exists>i < length es. ?f (es ! i) = (p, l))"
    by (metis (no_types, lifting) in_set_conv_nth length_map nth_map)
  finally show ?thesis by simp
qed

lemma cached_None: "cached tg lv es p = None \<longleftrightarrow> p \<notin> tg ` set es"
  by (simp add: cached_def map_of_eq_None_iff image_image)

lemma dom_cached: "dom (cached tg lv es) = tg ` set es"
  by (simp add: cached_def dom_map_of_conv_image_fst image_image)

lemma cached_nth: "distinct (map tg es) \<Longrightarrow> i < length es \<Longrightarrow> cached tg lv es (tg (es ! i)) = Some (lv (es ! i))"
  using cached_Some by metis

lemma map_eq_by_Some: "(\<And>p l. m p = Some l \<longleftrightarrow> m' p = Some l) \<Longrightarrow> m = m'"
  by (rule ext) (metis option.exhaust)

lemma map_le_by_Some: "(\<And>p l. m p = Some l \<Longrightarrow> m' p = Some l) \<Longrightarrow> m \<subseteq>\<^sub>m m'"
  by (force simp: map_le_def)

lemma map_update_same_key: "tg e = tg (es ! i) \<Longrightarrow> map tg (es[i := e]) = map tg es"
  by (metis list_update_id map_update)

lemma cached_update:
  assumes d: "distinct (map tg es)" and i: "i < length es" and t: "tg e = tg (es ! i)"
  shows "cached tg lv (es[i := e]) = (cached tg lv es)(tg e \<mapsto> lv e)"
proof (rule map_eq_by_Some)
  fix p l
  have d': "distinct (map tg (es[i := e]))" using d by (simp add: map_update_same_key [of tg, OF t])
  have nth: "tg (es ! j) = tg (es ! i) \<longleftrightarrow> j = i" if "j < length es" for j
    using d i that by (metis length_map nth_eq_iff_index_eq nth_map)
  show "cached tg lv (es[i := e]) p = Some l \<longleftrightarrow> ((cached tg lv es)(tg e \<mapsto> lv e)) p = Some l"
    unfolding cached_Some [OF d']
  proof (cases "p = tg e")
    case True
    then show "(\<exists>j < length (es[i := e]). tg (es[i := e] ! j) = p \<and> lv (es[i := e] ! j) = l) \<longleftrightarrow>
        ((cached tg lv es)(tg e \<mapsto> lv e)) p = Some l"
      using nth i t by (auto simp: nth_list_update)
  next
    case False
    have "(tg (es[i := e] ! j) = p \<and> lv (es[i := e] ! j) = l) \<longleftrightarrow> (tg (es ! j) = p \<and> lv (es ! j) = l)"
      if "j < length es" for j
      using False t i that by (cases "j = i") auto
    then show "(\<exists>j < length (es[i := e]). tg (es[i := e] ! j) = p \<and> lv (es[i := e] ! j) = l) \<longleftrightarrow>
        ((cached tg lv es)(tg e \<mapsto> lv e)) p = Some l"
      using False by (auto simp: cached_Some [OF d])
  qed
qed

lemma cached_replace:
  assumes d: "distinct (map tg es)" and i: "i < length es" and new: "tg e \<notin> tg ` set es"
  shows "cached tg lv (es[i := e]) \<subseteq>\<^sub>m (cached tg lv es)(tg e \<mapsto> lv e)" "distinct (map tg (es[i := e]))"
proof -
  show d': "distinct (map tg (es[i := e]))"
    using d new by (simp add: map_update distinct_list_update)
  have nt: "tg (es ! j) \<noteq> tg e" if "j < length es" for j
    using new that by (metis image_eqI nth_mem)
  show "cached tg lv (es[i := e]) \<subseteq>\<^sub>m (cached tg lv es)(tg e \<mapsto> lv e)"
  proof (rule map_le_by_Some)
    fix p l assume "cached tg lv (es[i := e]) p = Some l"
    then obtain j where j: "j < length es" "tg (es[i := e] ! j) = p" "lv (es[i := e] ! j) = l"
      using cached_Some [OF d', of lv p l] by auto
    show "((cached tg lv es)(tg e \<mapsto> lv e)) p = Some l"
    proof (cases "j = i")
      case True
      then show ?thesis using j by simp
    next
      case False
      then show ?thesis using j nt [OF j(1)] cached_nth [OF d j(1), of lv] by auto
    qed
  qed
qed

lemma cached_snoc:
  assumes "tg e \<notin> tg ` set es"
  shows "cached tg lv (es @ [e]) = (cached tg lv es)(tg e \<mapsto> lv e)"
proof (rule ext)
  fix p
  have "cached tg lv es (tg e) = None" using assms cached_None by metis
  then show "cached tg lv (es @ [e]) p = ((cached tg lv es)(tg e \<mapsto> lv e)) p"
    by (cases "cached tg lv es p") (auto simp: cached_def map_add_def)
qed

lemma cached_mset:
  assumes m: "mset (map (\<lambda>e. (tg e, lv e)) es) = mset (map (\<lambda>e. (tg e, lv e)) es')" and d: "distinct (map tg es)"
  shows "cached tg lv es' = cached tg lv es" "distinct (map tg es')"
proof -
  have fst: "mset (map tg xs) = image_mset fst (mset (map (\<lambda>e. (tg e, lv e)) xs))" for xs
    by (induction xs) simp_all
  show d': "distinct (map tg es')"
    using d mset_eq_imp_distinct_iff [of "map tg es" "map tg es'"] unfolding fst m by blast
  have fd: "distinct (map fst (map (\<lambda>e. (tg e, lv e)) xs)) = distinct (map tg xs)" for xs
    by (simp add: comp_def)
  show "cached tg lv es' = cached tg lv es"
    unfolding cached_def map_of_inject_set [OF d' [folded fd] d [folded fd]]
    by (rule mset_eq_setD [OF m, symmetric])
qed

text \<open>What the search loops find.\<close>

definition first_match :: "('e \<Rightarrow> bool) \<Rightarrow> 'e list \<Rightarrow> nat option" where
  "first_match P es = List.find (\<lambda>i. P (es ! i)) [0..<length es]"

lemma first_match_None: "first_match P es = None \<longleftrightarrow> (\<forall>e \<in> set es. \<not> P e)"
  by (simp add: first_match_def find_None_iff all_set_conv_all_nth)

lemma first_match_Some: "first_match P es = Some i \<Longrightarrow> i < length es \<and> P (es ! i)"
  by (auto simp: first_match_def find_Some_iff)

text \<open>Updating the one entry whose tag has the given string.\<close>

lemma update_matching:
  assumes d: "distinct (map tg es)" and inj: "inj_on str (dom (cached tg lv es))"
    and i: "i < length es" "str (tg (es ! i)) = s" and e: "tg e = tg (es ! i)" "lv e = level"
  shows "cached tg lv (es[i := e]) =
    (\<lambda>q. if cached tg lv es q \<noteq> None \<and> str q = s then Some level else cached tg lv es q)"
proof
  fix q
  have "cached tg lv es (tg (es ! i)) = Some (lv (es ! i))" by (rule cached_nth [OF d i(1)])
  then have mem: "tg (es ! i) \<in> dom (cached tg lv es)" by blast
  show "cached tg lv (es[i := e]) q =
      (if cached tg lv es q \<noteq> None \<and> str q = s then Some level else cached tg lv es q)"
  proof (cases "q = tg (es ! i)")
    case True
    then show ?thesis using i(2) e mem by (simp add: cached_update [OF d i(1) e(1)] domIff)
  next
    case False
    have "\<not> (cached tg lv es q \<noteq> None \<and> str q = s)"
    proof
      assume q: "cached tg lv es q \<noteq> None \<and> str q = s"
      then have "q \<in> dom (cached tg lv es)" by (simp add: domIff)
      from inj_onD [OF inj _ this mem] q i(2) False show False by simp
    qed
    then show ?thesis using False e(1) by (auto simp: cached_update [OF d i(1) e(1)])
  qed
qed

lemma update_none_matching:
  assumes "\<forall>e \<in> set es. str (tg e) \<noteq> s"
  shows "cached tg lv es = (\<lambda>q. if cached tg lv es q \<noteq> None \<and> str q = s then Some level else cached tg lv es q)"
proof
  fix q
  have "\<not> (cached tg lv es q \<noteq> None \<and> str q = s)"
    using assms cached_None [of tg lv es q] by auto
  then show "cached tg lv es q = (if cached tg lv es q \<noteq> None \<and> str q = s then Some level else cached tg lv es q)"
    by (simp only: if_False)
qed

section \<open>The array cache\<close>

lemma array_find_eq:
  "\<forall>i \<in> set is. i < length es \<Longrightarrow> array_find P es is = Some (List.find (\<lambda>i. P (es ! i)) is)"
  by (induction "is") (auto simp: aget_def)

definition array_used :: "array_cache \<Rightarrow> array_entry list" where
  "array_used c = take (ENTRY_COUNT c) (s_cache c)"

definition array_inv :: "array_cache \<Rightarrow> bool" where
  "array_inv c \<longleftrightarrow> s_cache c \<noteq> [] \<and> length (s_cache c) < 4294967295 \<and>
     s_cache_entry_count c \<noteq> - 1 \<and> distinct (map ae_tag (array_used c))"

definition array_content :: "array_cache \<Rightarrow> tag_ptr \<Rightarrow> esp_log_level_t option" where
  "array_content c = cached ae_tag ae_level (array_used c)"

lemma ENTRY_COUNT_le: "ENTRY_COUNT c \<le> length (s_cache c)"
  by (simp add: ENTRY_COUNT_def)

lemma length_array_used: "length (array_used c) = ENTRY_COUNT c"
  using ENTRY_COUNT_le by (simp add: array_used_def)

lemma array_used_nth: "i < length (array_used c) \<Longrightarrow> array_used c ! i = s_cache c ! i \<and> i < length (s_cache c)"
  by (simp add: array_used_def)

lemma array_find_used:
  "array_find P (s_cache c) [0..<ENTRY_COUNT c] = Some (first_match P (array_used c))"
proof -
  have "array_find P (s_cache c) [0..<ENTRY_COUNT c] = Some (List.find (\<lambda>i. P (s_cache c ! i)) [0..<ENTRY_COUNT c])"
    by (rule array_find_eq) (use ENTRY_COUNT_le in \<open>auto intro: less_le_trans\<close>)
  also have "List.find (\<lambda>i. P (s_cache c ! i)) [0..<ENTRY_COUNT c] = first_match P (array_used c)"
    unfolding first_match_def length_array_used
    by (rule find_cong) (use array_used_nth length_array_used in \<open>auto\<close>)
  finally show ?thesis .
qed

lemma array_get_law:
  assumes "array_inv c"
  shows "array_get_level p c = Some (c, array_content c p)"
proof (cases "first_match (\<lambda>e. ae_tag e = p) (array_used c)")
  case None
  then have "array_content c p = None" by (auto simp: array_content_def cached_None first_match_None)
  then show ?thesis by (simp add: array_get_level_def array_find_used None)
next
  case (Some i)
  note i = first_match_Some [OF Some]
  have "array_content c p = Some (ae_level (s_cache c ! i))" "i < length (s_cache c)"
    using cached_nth [of ae_tag "array_used c" i ae_level] assms i array_used_nth
    by (auto simp: array_content_def array_inv_def)
  then show ?thesis by (simp add: array_get_level_def array_find_used Some aget_def)
qed

lemma array_clean_law: "array_inv c \<Longrightarrow> array_inv (array_clean c) \<and> array_content (array_clean c) = Map.empty"
  by (simp add: array_inv_def array_content_def array_used_def array_clean_def ENTRY_COUNT_def cached_def)

lemma array_set_law:
  assumes inv: "array_inv c" and inj: "inj_on str (dom (array_content c))"
  shows "\<exists>c'. array_set_level str s level c = Some c' \<and> array_inv c' \<and>
    array_content c' = (\<lambda>q. if array_content c q \<noteq> None \<and> str q = s then Some level else array_content c q)"
proof (cases "first_match (\<lambda>e. str (ae_tag e) = s) (array_used c)")
  case None
  then have "\<forall>e \<in> set (array_used c). str (ae_tag e) \<noteq> s" by (simp add: first_match_None)
  from update_none_matching [OF this, of ae_level level]
  have "array_content c = (\<lambda>q. if array_content c q \<noteq> None \<and> str q = s then Some level else array_content c q)"
    unfolding array_content_def .
  moreover have "array_set_level str s level c = Some c"
    using None by (simp add: array_set_level_def array_find_used)
  ultimately show ?thesis using inv by blast
next
  case (Some i)
  note i = first_match_Some [OF Some]
  have il: "i < length (s_cache c)" and e: "array_used c ! i = s_cache c ! i" using array_used_nth i by auto
  let ?e = "(s_cache c ! i)\<lparr>ae_level := level\<rparr>"
  let ?c = "c\<lparr>s_cache := (s_cache c)[i := ?e]\<rparr>"
  have d: "distinct (map ae_tag (array_used c))" using inv by (simp add: array_inv_def)
  have u: "array_used ?c = (array_used c)[i := ?e]"
    by (simp add: array_used_def ENTRY_COUNT_def take_update_swap)
  have t: "ae_tag ?e = ae_tag (array_used c ! i)" by (simp add: e)
  have "array_inv ?c"
    using inv d map_update_same_key [of ae_tag, OF t] by (simp add: array_inv_def u)
  moreover have "array_content ?c =
      (\<lambda>q. if array_content c q \<noteq> None \<and> str q = s then Some level else array_content c q)"
    unfolding array_content_def u
    by (rule update_matching [OF d inj [unfolded array_content_def]]) (use i e in auto)
  ultimately show ?thesis
    using il by (intro exI [of _ ?c]) (simp add: array_set_level_def array_find_used Some aget_def aput_def)
qed

lemma unat_minus_1_32: "unat (- 1 :: 32 word) = 4294967295"
  by (simp add: unsigned_minus_1_eq_mask mask_eq_exp_minus_1)

lemma unat_plus_1_32: "n \<noteq> - 1 \<Longrightarrow> unat (n + 1) = Suc (unat n)" for n :: "32 word"
proof -
  assume n: "n \<noteq> - 1"
  have "unat n < 2 ^ LENGTH(32)" by (rule unsigned_less)
  moreover have "unat n \<noteq> unat (- 1 :: 32 word)" using n by (simp only: word_unat_eq_iff [symmetric] not_False_eq_True)
  ultimately show ?thesis by (simp add: unat_word_ariths(1) unat_minus_1_32)
qed

lemma array_count_step:
  fixes n :: "32 word"
  assumes N: "N < 4294967295" and n: "n \<noteq> - 1"
  defines "n' \<equiv> if n + 1 = - 1 then of_nat N else n + 1"
  shows "n' \<noteq> - 1" "unat n < N \<Longrightarrow> unat n' = Suc (unat n)" "N \<le> unat n \<Longrightarrow> N \<le> unat n'"
proof -
  have uN: "unat (of_nat N :: 32 word) = N" using N by (simp add: unat_of_nat)
  note m1 = unat_minus_1_32
  show "n' \<noteq> - 1" using uN m1 N by (auto simp: n'_def)
  have w: "n + 1 = - 1 \<Longrightarrow> Suc (unat n) = 4294967295" using unat_plus_1_32 [OF n] m1 by metis
  show "unat n < N \<Longrightarrow> unat n' = Suc (unat n)"
  proof (cases "n + 1 = - 1")
    case True
    then show "unat n < N \<Longrightarrow> unat n' = Suc (unat n)" using w N by linarith
  qed (simp add: n'_def unat_plus_1_32 [OF n])
  show "N \<le> unat n \<Longrightarrow> N \<le> unat n'"
    using unat_plus_1_32 [OF n] uN by (auto simp: n'_def)
qed

lemma array_add_law:
  assumes inv: "array_inv c" and new: "array_content c p = None"
  shows "\<exists>c'. array_add p level c = Some c' \<and> array_inv c' \<and> array_content c' \<subseteq>\<^sub>m (array_content c)(p \<mapsto> level)"
proof -
  let ?es = "s_cache c" and ?n = "s_cache_entry_count c"
  let ?N = "length ?es" and ?e = "\<lparr>ae_tag = p, ae_level = level\<rparr>"
  let ?i = "unat ?n mod ?N"
  define n' :: "32 word" where "n' = (if ?n + 1 = - 1 then of_nat ?N else ?n + 1)"
  let ?c = "c\<lparr>s_cache := ?es[?i := ?e], s_cache_entry_count := n'\<rparr>"
  have N: "0 < ?N" "?N < 4294967295" and d: "distinct (map ae_tag (array_used c))" and n: "?n \<noteq> - 1"
    using inv by (auto simp: array_inv_def)
  have i: "?i < ?N" using N by simp
  have np: "p \<notin> ae_tag ` set (array_used c)" using new by (simp add: array_content_def cached_None)
  have r: "array_add p level c = Some ?c"
    using i by (simp add: array_add_def aput_def n'_def Let_def)
  note n' = array_count_step [OF N(2) n, folded n'_def]
  have good: "distinct (map ae_tag (array_used ?c)) \<and> array_content ?c \<subseteq>\<^sub>m (array_content c)(p \<mapsto> level)"
  proof (cases "unat ?n < ?N")
    case True
    have ec: "ENTRY_COUNT c = unat ?n" "ENTRY_COUNT ?c = Suc (unat ?n)"
      using True n'(2) by (auto simp: ENTRY_COUNT_def)
    have u: "array_used ?c = array_used c @ [?e]"
      using True unfolding array_used_def ec by (simp add: take_Suc_conv_app_nth)
    then show ?thesis
      using cached_snoc [of ae_tag ?e "array_used c" ae_level] np d by (simp add: array_content_def u)
  next
    case False
    then have u: "array_used c = ?es" "array_used ?c = ?es[?i := ?e]"
      using n'(3) by (auto simp: array_used_def ENTRY_COUNT_def)
    then show ?thesis
      using cached_replace(1) [of ae_tag ?es ?i ?e ae_level] cached_replace(2) [of ae_tag ?es ?i ?e] d np i by (simp add: array_content_def u)
  qed
  have "array_inv ?c" using N n'(1) good by (simp add: array_inv_def)
  then show ?thesis using r good by - (rule exI [of _ ?c], simp)
qed

interpretation arr: tag_cache array_ops array_inv array_content
proof unfold_locales
  show "array_inv c \<Longrightarrow> array_inv (cache_clean array_ops c) \<and> array_content (cache_clean array_ops c) = Map.empty" for c
    using array_clean_law by (simp add: array_ops_def)
  show "array_inv c \<Longrightarrow> \<exists>c'. cache_get_level array_ops p c = Some (c', array_content c p) \<and> array_inv c' \<and>
      array_content c' = array_content c" for c p
    using array_get_law by (simp add: array_ops_def)
  show "array_inv c \<Longrightarrow> array_content c p = None \<Longrightarrow> level < ESP_LOG_MAX \<Longrightarrow>
      \<exists>c'. cache_add array_ops p level c = Some c' \<and> array_inv c' \<and>
        array_content c' \<subseteq>\<^sub>m (array_content c)(p \<mapsto> level)" for c p level
    using array_add_law by (simp add: array_ops_def)
  show "array_inv c \<Longrightarrow> inj_on str (dom (array_content c)) \<Longrightarrow> level < ESP_LOG_MAX \<Longrightarrow>
      \<exists>c'. cache_set_level array_ops str s level c = Some c' \<and> array_inv c' \<and> array_content c' =
        (\<lambda>q. if array_content c q \<noteq> None \<and> str q = s then Some level else array_content c q)" for c str s level
    using array_set_law by (simp add: array_ops_def)
qed

end
