(* ===== verification/Log_Heap.thy ===== *)
theory Log_Heap
  imports Log_Array
begin

text \<open>
  The heap cache: its entries in use are a min-heap of distinct generations, so the checks of
  the searches never fail, and it provides the cache interface.
\<close>

section \<open>Heap order on generations\<close>

definition heap_ordered :: "nat \<Rightarrow> (nat \<Rightarrow> nat) \<Rightarrow> bool" where
  "heap_ordered n f \<longleftrightarrow> (\<forall>k < n. 0 < k \<longrightarrow> f ((k - 1) div 2) < f k)"

text \<open>Heap order except below \<open>i\<close>, which holds the largest key.\<close>

definition heap_except :: "nat \<Rightarrow> nat \<Rightarrow> (nat \<Rightarrow> nat) \<Rightarrow> bool" where
  "heap_except n i f \<longleftrightarrow>
     i < n \<and> inj_on f {..<n} \<and>
     (\<forall>k < n. 0 < k \<longrightarrow> (k - 1) div 2 \<noteq> i \<longrightarrow> f ((k - 1) div 2) < f k) \<and>
     (\<forall>k < n. k \<noteq> i \<longrightarrow> f k < f i) \<and>
     (\<forall>k < n. 0 < i \<longrightarrow> 0 < k \<longrightarrow> (k - 1) div 2 = i \<longrightarrow> f ((i - 1) div 2) < f k)"

lemma heap_except_leaf:
  assumes "heap_except n i f" "odd n" "n div 2 \<le> i"
  shows "heap_ordered n f"
  unfolding heap_ordered_def
proof (intro allI impI)
  fix k assume k: "k < n" "0 < k"
  have "(k - 1) div 2 \<noteq> i"
  proof
    assume "(k - 1) div 2 = i"
    then have "2 * i + 1 \<le> k" using k by linarith
    moreover have "n \<le> 2 * i + 1" using assms(2,3) by (elim oddE) simp
    ultimately show False using k by simp
  qed
  then show "f ((k - 1) div 2) < f k" using assms(1) k by (simp add: heap_except_def)
qed

definition swapped :: "nat \<Rightarrow> nat \<Rightarrow> (nat \<Rightarrow> 'a) \<Rightarrow> nat \<Rightarrow> 'a" where
  "swapped i j f = f(i := f j, j := f i)"

lemma heap_except_step:
  assumes h: "heap_except n i f" and nx: "nx < n" "(nx - 1) div 2 = i" "0 < nx"
    and least: "\<And>k. k < n \<Longrightarrow> 0 < k \<Longrightarrow> (k - 1) div 2 = i \<Longrightarrow> k \<noteq> nx \<Longrightarrow> f nx < f k"
  shows "heap_except n nx (swapped i nx f)"
proof -
  let ?g = "swapped i nx f"
  have ne: "i < nx" using nx by linarith
  have i: "i < n" and inj: "inj_on f {..<n}"
    and ord: "\<And>k. k < n \<Longrightarrow> 0 < k \<Longrightarrow> (k - 1) div 2 \<noteq> i \<Longrightarrow> f ((k - 1) div 2) < f k"
    and mx: "\<And>k. k < n \<Longrightarrow> k \<noteq> i \<Longrightarrow> f k < f i"
    and gr: "\<And>k. k < n \<Longrightarrow> 0 < i \<Longrightarrow> 0 < k \<Longrightarrow> (k - 1) div 2 = i \<Longrightarrow> f ((i - 1) div 2) < f k"
    using h by (auto simp: heap_except_def)
  have g: "?g i = f nx" "?g nx = f i" "\<And>k. k \<noteq> i \<Longrightarrow> k \<noteq> nx \<Longrightarrow> ?g k = f k"
    using ne by (auto simp: swapped_def)
  have "?g ((k - 1) div 2) < ?g k" if k: "k < n" "0 < k" "(k - 1) div 2 \<noteq> nx" for k
  proof -
    consider "k = i" | "k = nx" | "k \<noteq> i" "k \<noteq> nx" "(k - 1) div 2 = i" | "k \<noteq> i" "k \<noteq> nx" "(k - 1) div 2 \<noteq> i"
      by blast
    then show ?thesis
    proof cases
      case 1
      then have "(k - 1) div 2 \<noteq> i" "(k - 1) div 2 \<noteq> nx" using k ne by linarith+
      then show ?thesis using gr [OF nx(1) _ nx(3,2)] k 1 by (simp add: g)
    next
      case 2
      then show ?thesis using mx [OF nx(1)] ne nx(2) by (simp add: g)
    next
      case 3
      then show ?thesis using least [OF k(1,2)] by (simp add: g)
    next
      case 4
      then show ?thesis using ord [OF k(1,2)] k(3) by (simp add: g)
    qed
  qed
  moreover have "?g k < ?g nx" if "k < n" "k \<noteq> nx" for k
    using that mx [OF that(1)] mx [OF nx(1)] ne g by (cases "k = i") auto
  moreover have "?g ((nx - 1) div 2) < ?g k" if "k < n" "0 < k" "(k - 1) div 2 = nx" for k
  proof -
    have "k \<noteq> i" "k \<noteq> nx" using that ne by linarith+
    then show ?thesis using ord [OF that(1,2)] that(3) ne nx(2) by (simp add: g)
  qed
  moreover have "inj_on ?g {..<n}"
  proof (rule inj_onI)
    fix x y assume xy: "x \<in> {..<n}" "y \<in> {..<n}" "?g x = ?g y"
    define s where "s = (\<lambda>k. if k = i then nx else if k = nx then i else k)"
    have "?g z = f (s z)" for z using ne by (simp add: swapped_def s_def)
    then have "f (s x) = f (s y)" using xy(3) by simp
    moreover have "s x < n" "s y < n" using xy(1,2) i nx(1) by (auto simp: s_def)
    ultimately have "s x = s y" using inj_onD [OF inj] by simp
    then show "x = y" using ne by (auto simp: s_def split: if_splits)
  qed
  ultimately show ?thesis using nx(1) by (auto simp: heap_except_def)
qed

section \<open>Bubbling down\<close>

definition gens :: "heap_entry list \<Rightarrow> nat \<Rightarrow> nat" where
  "gens es k = unat (he_generation (es ! k))"

lemma heap_swap_eq:
  assumes "i < length es" "j < length es" "i \<noteq> j"
  shows "heap_swap i j es = Some (es[i := es ! j, j := es ! i])"
    and "mset (es[i := es ! j, j := es ! i]) = mset es"
    and "k < length es \<Longrightarrow> gens (es[i := es ! j, j := es ! i]) k = swapped i j (gens es) k"
proof -
  show "heap_swap i j es = Some (es[i := es ! j, j := es ! i])"
    using assms by (simp add: heap_swap_def aget_def aput_def)
  show "mset (es[i := es ! j, j := es ! i]) = mset es"
    by (rule mset_swap) (use assms in auto)
  show "k < length es \<Longrightarrow> gens (es[i := es ! j, j := es ! i]) k = swapped i j (gens es) k"
    using assms by (auto simp: gens_def swapped_def nth_list_update)
qed

lemma heap_except_cong:
  assumes "\<And>k. k < n \<Longrightarrow> f k = g k" "heap_except n i f"
  shows "heap_except n i g"
proof -
  have "i < n" using assms(2) by (simp add: heap_except_def)
  moreover have "inj_on g {..<n} = inj_on f {..<n}" by (rule inj_on_cong) (simp add: assms(1))
  moreover have p: "(k - 1) div 2 < n" if "k < n" for k using that by linarith
  ultimately show ?thesis
    using assms(2) p [of i] unfolding heap_except_def by (simp add: assms(1) [symmetric] p)
qed

lemma heap_bubble_down_ok:
  "length es = sz \<Longrightarrow> odd sz \<Longrightarrow> heap_except sz index (gens es) \<Longrightarrow>
   \<exists>es'. heap_bubble_down sz index es = Some es' \<and> mset es' = mset es \<and> heap_ordered sz (gens es')"
proof (induction sz index es rule: heap_bubble_down.induct)
  case (1 sz index es)
  show ?case
  proof (cases "index < sz div 2")
    case False
    then have "heap_ordered sz (gens es)" using heap_except_leaf [OF 1(4) 1(3)] by simp
    then show ?thesis using False by (simp add: heap_bubble_down.simps [of sz index es])
  next
    case True
    have b: "index * 2 + 2 < length es" using True 1(2,3) by (auto elim!: oddE)
    let ?l = "es ! (index * 2 + 1)" and ?r = "es ! (index * 2 + 2)"
    let ?nx = "if he_generation ?l < he_generation ?r then index * 2 + 1 else index * 2 + 2"
    let ?es1 = "es[index := es ! ?nx, ?nx := es ! index]"
    have get: "aget es (index * 2 + 1) = Some ?l" "aget es (index * 2 + 2) = Some ?r"
      using b by (simp_all add: aget_def)
    have nx: "?nx < length es" "index \<noteq> ?nx" "0 < ?nx" "(?nx - 1) div 2 = index" using b by auto
    have i: "index < length es" using b by simp
    note sw = heap_swap_eq [OF i nx(1,2)]
    have inj: "inj_on (gens es) {..<sz}" using 1(4) by (simp add: heap_except_def)
    have least: "gens es ?nx < gens es k"
      if k: "k < sz" "0 < k" "(k - 1) div 2 = index" "k \<noteq> ?nx" for k
    proof -
      have kk: "k = index * 2 + 1 \<or> k = index * 2 + 2" using k(2,3) by linarith
      have "gens es k \<noteq> gens es ?nx"
        using inj_onD [OF inj, of k ?nx] k(1,4) nx(1) 1(2) by auto
      moreover have "gens es (index * 2 + 1) < gens es (index * 2 + 2) \<longleftrightarrow> he_generation ?l < he_generation ?r"
        by (simp add: gens_def word_less_nat_alt)
      ultimately show ?thesis using kk k(4) by (auto split: if_splits)
    qed
    have "heap_except sz ?nx (swapped index ?nx (gens es))"
      by (rule heap_except_step [OF 1(4) _ nx(4,3) least]) (use nx(1) 1(2) in auto)
    then have he: "heap_except sz ?nx (gens ?es1)"
      by (rule heap_except_cong [rotated]) (use sw(3) 1(2) in simp)
    have "length ?es1 = sz" using 1(2) by simp
    from 1(1) [OF True get sw(1) this 1(3) he] obtain es' where
      "heap_bubble_down sz ?nx ?es1 = Some es'" "mset es' = mset ?es1" "heap_ordered sz (gens es')"
      by blast
    then show ?thesis
      using True get sw(1,2) by (simp add: heap_bubble_down.simps [of sz index es] del: mset_update)
  qed
qed

lemma heap_except_bump:
  assumes o: "heap_ordered n f" and inj: "inj_on f {..<n}" and i: "i < n" and m: "\<And>k. k < n \<Longrightarrow> f k < m"
  shows "heap_except n i (f(i := m))"
proof -
  have par: "(k - 1) div 2 < k" if "0 < k" for k :: nat using that by linarith
  have "inj_on (f(i := m)) {..<n}"
  proof (rule inj_onI)
    fix x y assume "x \<in> {..<n}" "y \<in> {..<n}" "(f(i := m)) x = (f(i := m)) y"
    then show "x = y" using inj_onD [OF inj, of x y] m [of x] m [of y] by (auto split: if_splits)
  qed
  moreover have "f ((i - 1) div 2) < f k" if "k < n" "0 < i" "0 < k" "(k - 1) div 2 = i" for k
    using o i that unfolding heap_ordered_def by (metis less_trans)
  moreover have "(f(i := m)) ((k - 1) div 2) < (f(i := m)) k" if "k < n" "0 < k" "(k - 1) div 2 \<noteq> i" for k
    using o that m [of "(k - 1) div 2"] par [of k] by (auto simp: heap_ordered_def)
  ultimately show ?thesis using i m par by (auto simp: heap_except_def)
qed

lemma gens_inj: "inj_on (gens es) {..<length es} \<longleftrightarrow> distinct (map he_generation es)"
  by (auto simp: inj_on_def gens_def distinct_conv_nth word_unat_eq_iff [symmetric])

lemma bump_ok:
  assumes odd: "odd (length es)" and o: "heap_ordered (length es) (gens es)"
    and d: "distinct (map he_generation es)" and i: "i < length es"
    and m: "\<And>k. k < length es \<Longrightarrow> gens es k < unat (he_generation e)"
  shows "\<exists>es'. heap_bubble_down (length es) i (es[i := e]) = Some es' \<and> mset es' = mset (es[i := e]) \<and>
    heap_ordered (length es) (gens es')"
proof (rule heap_bubble_down_ok)
  have inj: "inj_on (gens es) {..<length es}" using d by (simp add: gens_inj)
  show "heap_except (length es) i (gens (es[i := e]))"
    by (rule heap_except_cong [OF _ heap_except_bump [OF o inj i m]]) (auto simp: gens_def nth_list_update)
qed (use odd in simp_all)

section \<open>The heap cache\<close>

definition heap_used :: "heap_cache \<Rightarrow> heap_entry list" where
  "heap_used c = take (unat (s_log_cache_entry_count c)) (s_log_cache c)"

definition heap_pre :: "heap_cache \<Rightarrow> bool" where
  "heap_pre c \<longleftrightarrow>
     odd (length (s_log_cache c)) \<and> length (s_log_cache c) < 536870911 \<and>
     unat (s_log_cache_entry_count c) \<le> length (s_log_cache c) \<and>
     unat (s_log_cache_max_generation c) \<le> 536870911 \<and>
     distinct (map he_tag (heap_used c)) \<and> distinct (map he_generation (heap_used c)) \<and>
     heap_ordered (length (heap_used c)) (gens (heap_used c)) \<and>
     (\<forall>e \<in> set (heap_used c). unat (he_generation e) < unat (s_log_cache_max_generation c))"

definition heap_inv :: "heap_cache \<Rightarrow> bool" where
  "heap_inv c \<longleftrightarrow> heap_pre c \<and> s_log_cache_max_generation c \<noteq> MAX_GENERATION"

definition heap_content :: "heap_cache \<Rightarrow> tag_ptr \<Rightarrow> esp_log_level_t option" where
  "heap_content c = cached he_tag (\<lambda>e. ucast (he_level e)) (heap_used c)"

lemma unat_MAX_GENERATION: "unat MAX_GENERATION = 536870911"
  by (simp add: MAX_GENERATION_def)

lemma heap_inv_max: "heap_inv c \<Longrightarrow> unat (s_log_cache_max_generation c) < 536870911"
  unfolding heap_inv_def heap_pre_def
  using unat_MAX_GENERATION word_unat_eq_iff [of "s_log_cache_max_generation c" MAX_GENERATION] by linarith

lemma heap_find_eq:
  "\<forall>i \<in> set is. i < length es \<and> (i = 0 \<or> gens es ((i - 1) div 2) < gens es i) \<Longrightarrow>
     heap_find P es is = Some (List.find (\<lambda>i. P (es ! i)) is)"
proof (induction "is")
  case (Cons i "is")
  have "(i - 1) div 2 < length es" using Cons.prems by (auto intro: le_less_trans [rotated])
  then show ?case
    using Cons by (auto simp: aget_def gens_def word_less_nat_alt assert_that_def)
qed simp

lemma length_heap_used: "heap_pre c \<Longrightarrow> length (heap_used c) = unat (s_log_cache_entry_count c)"
  by (simp add: heap_pre_def heap_used_def)

lemma heap_used_nth:
  "i < length (heap_used c) \<Longrightarrow> heap_used c ! i = s_log_cache c ! i \<and> i < length (s_log_cache c)"
  by (simp add: heap_used_def)

lemma heap_find_used:
  assumes "heap_pre c"
  shows "heap_find P (s_log_cache c) [0..<unat (s_log_cache_entry_count c)] = Some (first_match P (heap_used c))"
proof -
  let ?n = "unat (s_log_cache_entry_count c)"
  have n: "length (heap_used c) = ?n" "?n \<le> length (s_log_cache c)"
    using length_heap_used [OF assms] assms by (auto simp: heap_pre_def)
  have g: "gens (heap_used c) k = gens (s_log_cache c) k" if "k < ?n" for k
    using heap_used_nth [of k c] that n by (simp add: gens_def)
  have "gens (s_log_cache c) ((i - 1) div 2) < gens (s_log_cache c) i" if "i < ?n" "i \<noteq> 0" for i
  proof -
    have "(i - 1) div 2 < ?n" using that by linarith
    moreover have "gens (heap_used c) ((i - 1) div 2) < gens (heap_used c) i"
      using assms that n by (simp add: heap_pre_def heap_ordered_def)
    ultimately show ?thesis using g that by simp
  qed
  then have "\<forall>i \<in> set [0..<?n]. i < length (s_log_cache c) \<and>
      (i = 0 \<or> gens (s_log_cache c) ((i - 1) div 2) < gens (s_log_cache c) i)"
    using n(2) by (metis atLeastLessThan_iff less_le_trans set_upt)
  then have "heap_find P (s_log_cache c) [0..<?n] = Some (List.find (\<lambda>i. P (s_log_cache c ! i)) [0..<?n])"
    by (rule heap_find_eq)
  also have "List.find (\<lambda>i. P (s_log_cache c ! i)) [0..<?n] = first_match P (heap_used c)"
    unfolding first_match_def n by (rule find_cong) (use heap_used_nth n in auto)
  finally show ?thesis .
qed

subsection \<open>Renumbering\<close>

lemma fix_cache_loop_eq:
  "n \<le> length es \<Longrightarrow> \<exists>es'. fix_cache_loop [m..<n] es = Some es' \<and> length es' = length es \<and>
     (\<forall>i < length es. es' ! i = (if m \<le> i \<and> i < n then (es ! i)\<lparr>he_generation := of_nat i\<rparr> else es ! i))"
proof (induction "n - m" arbitrary: m es)
  case 0
  then show ?case by auto
next
  case (Suc k)
  let ?es = "es[m := (es ! m)\<lparr>he_generation := of_nat m\<rparr>]"
  have m: "m < n" "m < length es" using Suc(2,3) by auto
  have k: "k = n - Suc m" and l: "n \<le> length ?es" using Suc(2,3) by auto
  obtain es' where es': "fix_cache_loop [Suc m..<n] ?es = Some es'" "length es' = length ?es"
    "\<forall>i < length ?es. es' ! i = (if Suc m \<le> i \<and> i < n then (?es ! i)\<lparr>he_generation := of_nat i\<rparr> else ?es ! i)"
    using Suc(1) [OF k l] by blast
  have "es' ! i = (if m \<le> i \<and> i < n then (es ! i)\<lparr>he_generation := of_nat i\<rparr> else es ! i)" if "i < length es" for i
    using es'(3) that m by (cases "i = m") auto
  then show ?case
    using es'(1,2) m by (simp add: upt_conv_Cons aget_def aput_def)
qed

lemma check_generation_ok:
  assumes p: "heap_pre c"
  shows "\<exists>c'. check_generation c = Some c' \<and> heap_inv c' \<and> heap_content c' = heap_content c"
proof (cases "s_log_cache_max_generation c = MAX_GENERATION")
  case False
  then show ?thesis using p by (simp add: check_generation_def heap_inv_def)
next
  case True
  let ?n = "unat (s_log_cache_entry_count c)" and ?es = "s_log_cache c"
  have n: "?n \<le> length ?es" "length ?es < 536870911" using p by (auto simp: heap_pre_def)
  obtain es' where es': "fix_cache_loop [0..<?n] ?es = Some es'" "length es' = length ?es"
    "\<And>i. i < length ?es \<Longrightarrow> es' ! i = (if i < ?n then (?es ! i)\<lparr>he_generation := of_nat i\<rparr> else ?es ! i)"
    using fix_cache_loop_eq [OF n(1), of 0] by auto
  let ?c = "c\<lparr>s_log_cache := es', s_log_cache_max_generation := s_log_cache_entry_count c\<rparr>"
  have u: "heap_used ?c = take ?n es'" "heap_used c = take ?n ?es" by (simp_all add: heap_used_def)
  have gi: "unat (of_nat i :: 29 word) = i" if "i < ?n" for i
    using that n by (simp add: unat_of_nat)
  have nth: "take ?n es' ! i = (?es ! i)\<lparr>he_generation := of_nat i\<rparr>" if "i < ?n" for i
    using that es'(3) [of i] n by simp
  have gs: "gens (take ?n es') i = i" if "i < ?n" for i
    using nth [OF that] gi [OF that] by (simp add: gens_def)
  have l: "length (take ?n es') = ?n" "length (take ?n ?es) = ?n" using n es'(2) by simp_all
  have mp: "map f (take ?n es') = map f (take ?n ?es)" if "\<And>e g. f (e\<lparr>he_generation := g\<rparr>) = f e" for f :: "heap_entry \<Rightarrow> 'b"
    by (rule nth_equalityI) (use l nth that n in auto)
  have tags: "map he_tag (take ?n es') = map he_tag (take ?n ?es)" by (rule mp) simp
  have "map (\<lambda>e. (he_tag e, ucast (he_level e) :: 32 word)) (take ?n es') =
      map (\<lambda>e. (he_tag e, ucast (he_level e))) (take ?n ?es)" by (rule mp) simp
  then have cont: "heap_content ?c = heap_content c" unfolding heap_content_def cached_def u by (simp only:)
  have "heap_ordered ?n (gens (take ?n es'))"
    unfolding heap_ordered_def
  proof (intro allI impI)
    fix k assume k: "k < ?n" "0 < k"
    then have "(k - 1) div 2 < ?n" "(k - 1) div 2 < k" by linarith+
    then show "gens (take ?n es') ((k - 1) div 2) < gens (take ?n es') k" using gs k by simp
  qed
  moreover have "distinct (map he_generation (take ?n es'))"
    unfolding gens_inj [symmetric] using gs l(1) by (auto simp: inj_on_def)
  moreover have "\<forall>e \<in> set (take ?n es'). unat (he_generation e) < ?n"
  proof
    fix e assume "e \<in> set (take ?n es')"
    then obtain i where "i < ?n" "e = take ?n es' ! i" using l by (metis in_set_conv_nth)
    then show "unat (he_generation e) < ?n" using gs [of i] by (simp add: gens_def)
  qed
  ultimately have "heap_pre ?c"
    using p es'(2) n l tags unfolding heap_pre_def u by simp
  moreover have "s_log_cache_entry_count c \<noteq> MAX_GENERATION"
    using n unat_MAX_GENERATION by auto
  ultimately have "heap_inv ?c" by (simp add: heap_inv_def)
  then show ?thesis
    using True es'(1) cont by (simp add: check_generation_def fix_cache_generation_overflow_def)
qed

section \<open>The laws of the interface\<close>

lemma unat_generation: "unat (m :: 32 word) < 536870911 \<Longrightarrow> unat (ucast m :: 29 word) = unat m"
  by (simp add: unsigned_ucast_eq take_bit_eq_mod)

lemma unat_succ_max: "unat (m :: 32 word) < 536870911 \<Longrightarrow> unat (m + 1) = Suc (unat m)"
  by (rule unat_plus_1_32) (auto simp: unat_minus_1_32)

lemma heap_clean_law: "heap_inv c \<Longrightarrow> heap_inv (heap_clean c) \<and> heap_content (heap_clean c) = Map.empty"
  by (simp add: heap_inv_def heap_pre_def heap_content_def heap_used_def heap_clean_def cached_def
      heap_ordered_def MAX_GENERATION_def)

text \<open>Putting an entry with the next generation into a full cache.\<close>

lemma full_bump:
  assumes inv: "heap_inv c" and full: "unat (s_log_cache_entry_count c) = length (s_log_cache c)"
    and i: "i < length (s_log_cache c)" and e: "he_generation e = ucast (s_log_cache_max_generation c)"
    and d: "distinct (map he_tag ((s_log_cache c)[i := e]))"
  shows "\<exists>es'. heap_bubble_down (length (s_log_cache c)) i ((s_log_cache c)[i := e]) = Some es' \<and>
    length es' = length (s_log_cache c) \<and>
    heap_pre (c\<lparr>s_log_cache := es', s_log_cache_max_generation := s_log_cache_max_generation c + 1\<rparr>) \<and>
    cached he_tag lv es' = cached he_tag lv ((s_log_cache c)[i := e])"
proof -
  let ?es = "s_log_cache c" and ?m = "unat (s_log_cache_max_generation c)"
  have u: "heap_used c = ?es" using full by (simp add: heap_used_def)
  have m: "?m < 536870911" by (rule heap_inv_max [OF inv])
  have ge: "unat (he_generation e) = ?m" using unat_generation [OF m] e by simp
  have pre: "odd (length ?es)" "heap_ordered (length ?es) (gens ?es)" "distinct (map he_generation ?es)"
    "\<forall>e \<in> set ?es. unat (he_generation e) < ?m" "length ?es < 536870911"
    using inv u by (auto simp: heap_inv_def heap_pre_def)
  have "gens ?es k < unat (he_generation e)" if "k < length ?es" for k
    using pre(4) that unfolding gens_def ge by simp
  from bump_ok [OF pre(1-3) i this] obtain es' where es':
    "heap_bubble_down (length ?es) i (?es[i := e]) = Some es'" "mset es' = mset (?es[i := e])"
    "heap_ordered (length ?es) (gens es')" by blast
  have len: "length es' = length ?es" using es'(2) by (metis length_list_update size_mset)
  have mm: "mset (map f es') = mset (map f (?es[i := e]))" for f :: "heap_entry \<Rightarrow> 'b"
    using es'(2) by (metis mset_map)
  have c: "cached he_tag lv es' = cached he_tag lv (?es[i := e])" "distinct (map he_tag es')"
    using cached_mset [OF mm [symmetric] d] by auto
  have "he_generation e \<notin> he_generation ` set ?es"
    using pre(4) ge by auto
  then have "distinct (map he_generation (?es[i := e]))"
    using pre(3) by (simp add: map_update distinct_list_update)
  then have dg: "distinct (map he_generation es')"
    using mset_eq_imp_distinct_iff [OF mm] by blast
  have "set es' = set (?es[i := e])" by (rule mset_eq_setD [OF es'(2)])
  then have sub: "set es' \<subseteq> insert e (set ?es)" using set_update_subset_insert by simp
  have bound: "\<forall>x \<in> set es'. unat (he_generation x) < Suc ?m"
  proof
    fix x assume "x \<in> set es'"
    then have "x = e \<or> x \<in> set ?es" using sub by auto
    then show "unat (he_generation x) < Suc ?m" using pre(4) ge by (auto intro: less_SucI)
  qed
  let ?c = "c\<lparr>s_log_cache := es', s_log_cache_max_generation := s_log_cache_max_generation c + 1\<rparr>"
  have u': "heap_used ?c = es'" using full len by (simp add: heap_used_def)
  have "heap_pre ?c"
    unfolding heap_pre_def u' using pre len full m es'(3) c(2) dg bound unat_succ_max [OF m] by simp
  then show ?thesis using es'(1) c(1) len by blast
qed

lemma heap_get_law:
  assumes inv: "heap_inv c"
  shows "\<exists>c'. heap_get_level p c = Some (c', heap_content c p) \<and> heap_inv c' \<and> heap_content c' = heap_content c"
proof (cases "first_match (\<lambda>e. he_tag e = p) (heap_used c)")
  case None
  let ?c = "c\<lparr>s_log_cache_misses := s_log_cache_misses c + 1\<rparr>"
  have "heap_content c p = None" using None by (auto simp: heap_content_def cached_None first_match_None)
  moreover have "heap_get_level p c = Some (?c, None)"
    using inv None by (simp add: heap_get_level_def heap_find_used heap_inv_def)
  moreover have "heap_used ?c = heap_used c" by (simp add: heap_used_def)
  then have "heap_inv ?c" "heap_content ?c = heap_content c"
    using inv by (auto simp: heap_inv_def heap_pre_def heap_content_def)
  ultimately show ?thesis by - (rule exI [of _ ?c], simp)
next
  case (Some i)
  note i = first_match_Some [OF Some]
  let ?es = "s_log_cache c"
  have il: "i < length ?es" and un: "heap_used c ! i = ?es ! i" using heap_used_nth i by auto
  have d: "distinct (map he_tag (heap_used c))" using inv by (simp add: heap_inv_def heap_pre_def)
  have lv: "heap_content c p = Some (ucast (he_level (?es ! i)))"
    using cached_nth [OF d, of i] i un by (auto simp: heap_content_def)
  have find: "heap_find (\<lambda>e. he_tag e = p) ?es [0..<unat (s_log_cache_entry_count c)] = Some (Some i)"
    using heap_find_used inv Some by (simp add: heap_inv_def)
  show ?thesis
  proof (cases "unat (s_log_cache_entry_count c) = length ?es")
    case False
    then have "heap_get_level p c = Some (c, heap_content c p)"
      using il lv by (simp add: heap_get_level_def find aget_def Let_def)
    then show ?thesis using inv by simp
  next
    case True
    let ?e = "(?es ! i)\<lparr>he_generation := ucast (s_log_cache_max_generation c)\<rparr>"
    have u: "heap_used c = ?es" using True by (simp add: heap_used_def)
    have t: "he_tag ?e = he_tag (?es ! i)" by simp
    have d': "distinct (map he_tag (?es[i := ?e]))"
      using d u map_update_same_key [of he_tag, OF t] by simp
    let ?lv = "\<lambda>e. ucast (he_level e) :: 32 word"
    obtain es' where es': "heap_bubble_down (length ?es) i (?es[i := ?e]) = Some es'"
      and len: "length es' = length ?es"
      and es'2: "heap_pre (c\<lparr>s_log_cache := es', s_log_cache_max_generation := s_log_cache_max_generation c + 1\<rparr>)"
      and es'3: "cached he_tag ?lv es' = cached he_tag ?lv (?es[i := ?e])"
      using full_bump [OF inv True il _ d', of ?lv] by auto
    let ?c = "c\<lparr>s_log_cache := es', s_log_cache_max_generation := s_log_cache_max_generation c + 1\<rparr>"
    obtain c' where c': "check_generation ?c = Some c'" "heap_inv c'" "heap_content c' = heap_content ?c"
      using check_generation_ok [OF es'2] by blast
    have "heap_content ?c = cached he_tag ?lv es'" using True len by (simp add: heap_content_def heap_used_def)
    also have "\<dots> = (cached he_tag ?lv ?es)(he_tag ?e \<mapsto> ?lv ?e)"
      unfolding es'3 by (rule cached_update) (use d u il in simp_all)
    also have "\<dots> = heap_content c"
      using lv i un unfolding heap_content_def u by (simp add: fun_upd_idem)
    finally have "heap_content ?c = heap_content c" .
    moreover have "heap_get_level p c = Some (c', heap_content c p)"
      using il lv True es' c'(1) by (simp add: heap_get_level_def find [unfolded True] aget_def aput_def Let_def)
    ultimately show ?thesis using c' by auto
  qed
qed

lemma heap_set_law:
  assumes inv: "heap_inv c" and inj: "inj_on str (dom (heap_content c))" and l: "level < ESP_LOG_MAX"
  shows "\<exists>c'. heap_set_level str s level c = Some c' \<and> heap_inv c' \<and>
    heap_content c' = (\<lambda>q. if heap_content c q \<noteq> None \<and> str q = s then Some level else heap_content c q)"
proof (cases "first_match (\<lambda>e. str (he_tag e) = s) (heap_used c)")
  case None
  let ?lv = "\<lambda>e. ucast (he_level e) :: 32 word"
  have "\<forall>e \<in> set (heap_used c). str (he_tag e) \<noteq> s" using None by (simp add: first_match_None)
  from update_none_matching [OF this, of ?lv level]
  have "heap_content c = (\<lambda>q. if heap_content c q \<noteq> None \<and> str q = s then Some level else heap_content c q)"
    unfolding heap_content_def .
  moreover have "heap_set_level str s level c = Some c"
    using None inv by (simp add: heap_set_level_def heap_find_used heap_inv_def)
  ultimately show ?thesis using inv by blast
next
  case (Some i)
  note i = first_match_Some [OF Some]
  let ?es = "s_log_cache c" and ?lv = "\<lambda>e. ucast (he_level e) :: 32 word"
  have il: "i < length ?es" and un: "heap_used c ! i = ?es ! i" using heap_used_nth i by auto
  have pre: "heap_pre c" using inv by (simp add: heap_inv_def)
  then have d: "distinct (map he_tag (heap_used c))" by (simp add: heap_pre_def)
  let ?e = "(?es ! i)\<lparr>he_level := ucast level\<rparr>"
  let ?c = "c\<lparr>s_log_cache := ?es[i := ?e]\<rparr>"
  have find: "heap_find (\<lambda>e. str (he_tag e) = s) ?es [0..<unat (s_log_cache_entry_count c)] = Some (Some i)"
    using heap_find_used [OF pre] Some by simp
  have u: "heap_used ?c = (heap_used c)[i := ?e]" by (simp add: heap_used_def take_update_swap)
  have t: "he_tag ?e = he_tag (heap_used c ! i)" "he_generation ?e = he_generation (heap_used c ! i)" by (simp_all add: un)
  have mp: "map he_tag (heap_used ?c) = map he_tag (heap_used c)"
    "map he_generation (heap_used ?c) = map he_generation (heap_used c)"
    unfolding u using map_update_same_key [of he_tag, OF t(1)] map_update_same_key [of he_generation, OF t(2)] by auto
  have len: "length (heap_used ?c) = length (heap_used c)" by (simp add: u)
  have g: "gens (heap_used ?c) k = gens (heap_used c) k" if "k < length (heap_used c)" for k
    using arg_cong [OF mp(2), of "\<lambda>l. l ! k"] that len by (simp add: gens_def)
  have "heap_ordered (length (heap_used ?c)) (gens (heap_used ?c))"
    using pre len g unfolding heap_pre_def heap_ordered_def
    by (metis (no_types, lifting) div_le_dividend diff_le_self le_less_trans)
  moreover have "set (map he_generation (heap_used ?c)) = set (map he_generation (heap_used c))"
    by (simp only: mp)
  then have "he_generation ` set (heap_used ?c) = he_generation ` set (heap_used c)" by simp
  then have "\<forall>e \<in> set (heap_used ?c). unat (he_generation e) < unat (s_log_cache_max_generation c)"
    using pre unfolding heap_pre_def by (metis (no_types, lifting) image_iff)
  ultimately have "heap_inv ?c"
    using inv mp unfolding heap_inv_def heap_pre_def by simp
  moreover have "heap_content ?c =
      (\<lambda>q. if heap_content c q \<noteq> None \<and> str q = s then Some level else heap_content c q)"
    unfolding heap_content_def u
    by (rule update_matching [OF d inj [unfolded heap_content_def]])
       (use i un ucast_level3 [OF valid_level_less(1) [OF l]] in auto)
  moreover have "heap_set_level str s level c = Some ?c"
    using il by (simp add: heap_set_level_def find aget_def aput_def)
  ultimately show ?thesis by blast
qed

lemma heap_add_full:
  assumes inv: "heap_inv c" and new: "heap_content c p = None" and full: "unat (s_log_cache_entry_count c) = length (s_log_cache c)"
    and l: "level < ESP_LOG_MAX"
  defines "e \<equiv> \<lparr>he_tag = p, he_level = ucast level, he_generation = ucast (s_log_cache_max_generation c)\<rparr>"
  shows "\<exists>c'. heap_add p level c = Some c' \<and> heap_inv c' \<and>
    heap_content c' = cached he_tag (\<lambda>e. ucast (he_level e)) ((s_log_cache c)[0 := e]) \<and>
    heap_content c' \<subseteq>\<^sub>m (heap_content c)(p \<mapsto> level)"
proof -
  let ?es = "s_log_cache c" and ?lv = "\<lambda>e. ucast (he_level e) :: 32 word"
  let ?m = "s_log_cache_max_generation c"
  have pre: "heap_pre c" using inv by (simp add: heap_inv_def)
  have u: "heap_used c = ?es" using full by (simp add: heap_used_def)
  have lv: "?lv e = level" using ucast_level3 [OF valid_level_less(1) [OF l]] by (simp add: e_def)
  have np: "he_tag e \<notin> he_tag ` set ?es" using new u by (simp add: heap_content_def cached_None e_def)
  have d: "distinct (map he_tag ?es)" using pre u by (simp add: heap_pre_def)
  have z: "0 < length ?es" using pre by (cases ?es) (auto simp: heap_pre_def)
  have "distinct (map he_tag (?es[0 := e]))" and le: "cached he_tag ?lv (?es[0 := e]) \<subseteq>\<^sub>m (cached he_tag ?lv ?es)(he_tag e \<mapsto> ?lv e)"
    using cached_replace(2) [OF d z np] cached_replace(1) [OF d z np, of ?lv] by auto
  then obtain es' where es': "heap_bubble_down (length ?es) 0 (?es[0 := e]) = Some es'"
    and len: "length es' = length ?es"
    and es'2: "heap_pre (c\<lparr>s_log_cache := es', s_log_cache_max_generation := ?m + 1\<rparr>)"
    and es'3: "cached he_tag ?lv es' = cached he_tag ?lv (?es[0 := e])"
    using full_bump [OF inv full z, of e ?lv] by (auto simp: e_def)
  let ?c = "c\<lparr>s_log_cache := es', s_log_cache_max_generation := ?m + 1\<rparr>"
  obtain c' where c': "check_generation ?c = Some c'" "heap_inv c'" "heap_content c' = heap_content ?c"
    using check_generation_ok [OF es'2] by blast
  have hc: "heap_content ?c = cached he_tag ?lv es'" using full len by (simp add: heap_content_def heap_used_def)
  have tg: "he_tag e = p" by (simp add: e_def)
  have "heap_content c' \<subseteq>\<^sub>m (heap_content c)(p \<mapsto> level)"
    using le unfolding c'(3) hc es'3 lv tg unfolding heap_content_def u .
  moreover have cc: "c\<lparr>s_log_cache_max_generation := ?m + 1, s_log_cache := es'\<rparr> = ?c" by (cases c) simp
  have "check_generation (c\<lparr>s_log_cache_max_generation := ?m + 1, s_log_cache := es'\<rparr>) = Some c'"
    unfolding cc by (rule c'(1))
  then have "heap_add p level c = Some c'"
    using full z es' by (simp add: heap_add_def aput_def Let_def e_def)
  ultimately show ?thesis using c' hc es'3 by auto
qed

lemma heap_add_law:
  assumes inv: "heap_inv c" and new: "heap_content c p = None" and l: "level < ESP_LOG_MAX"
  shows "\<exists>c'. heap_add p level c = Some c' \<and> heap_inv c' \<and> heap_content c' \<subseteq>\<^sub>m (heap_content c)(p \<mapsto> level)"
proof -
  let ?es = "s_log_cache c" and ?lv = "\<lambda>e. ucast (he_level e) :: 32 word"
  let ?n = "unat (s_log_cache_entry_count c)" and ?m = "s_log_cache_max_generation c"
  let ?e = "\<lparr>he_tag = p, he_level = ucast level, he_generation = ucast ?m\<rparr>"
  have pre: "heap_pre c" using inv by (simp add: heap_inv_def)
  have m: "unat ?m < 536870911" by (rule heap_inv_max [OF inv])
  have lv: "?lv ?e = level" using ucast_level3 [OF valid_level_less(1) [OF l]] by simp
  have np: "he_tag ?e \<notin> he_tag ` set (heap_used c)" using new by (simp add: heap_content_def cached_None)
  have d: "distinct (map he_tag (heap_used c))" using pre by (simp add: heap_pre_def)
  show ?thesis
  proof (cases "?n < length ?es")
    case True
    let ?c = "c\<lparr>s_log_cache_max_generation := ?m + 1, s_log_cache := ?es[?n := ?e],
      s_log_cache_entry_count := s_log_cache_entry_count c + 1\<rparr>"
    have len: "length ?es < 536870911" using pre by (simp add: heap_pre_def)
    have n1: "unat (s_log_cache_entry_count c + 1) = Suc ?n"
      by (rule unat_succ_max) (use True len in simp)
    have u: "heap_used ?c = heap_used c @ [?e]"
      using True n1 by (simp add: heap_used_def take_Suc_conv_app_nth)
    have lu: "length (heap_used c) = ?n" by (rule length_heap_used [OF pre])
    have ge: "unat (he_generation ?e) = unat ?m" using unat_generation [OF m] by simp
    have bound: "\<forall>e \<in> set (heap_used c). unat (he_generation e) < unat ?m"
      and ord: "heap_ordered ?n (gens (heap_used c))" and dg: "distinct (map he_generation (heap_used c))"
      using pre lu by (auto simp: heap_pre_def)
    have gk: "gens (heap_used ?c) k = gens (heap_used c) k" "gens (heap_used c) k < unat ?m" if "k < ?n" for k
      using that lu bound by (auto simp: gens_def u nth_append)
    have gn: "gens (heap_used ?c) ?n = unat ?m" using lu ge by (simp add: gens_def u nth_append)
    have "heap_ordered (Suc ?n) (gens (heap_used ?c))"
      unfolding heap_ordered_def
    proof (intro allI impI)
      fix k assume k: "k < Suc ?n" "0 < k"
      have p: "(k - 1) div 2 < ?n" using k by linarith
      show "gens (heap_used ?c) ((k - 1) div 2) < gens (heap_used ?c) k"
      proof (cases "k = ?n")
        case True
        then show ?thesis using gk [OF p] gn by simp
      next
        case False
        then have "k < ?n" using k by simp
        then show ?thesis using gk(1) [OF p] gk(1) [of k] ord k(2) by (simp add: heap_ordered_def)
      qed
    qed
    moreover have "he_generation ?e \<notin> he_generation ` set (heap_used c)" using bound ge by auto
    then have "distinct (map he_generation (heap_used ?c))" using dg by (simp add: u)
    moreover have "distinct (map he_tag (heap_used ?c))" using d np by (simp add: u)
    moreover have "\<forall>e \<in> set (heap_used ?c). unat (he_generation e) < Suc (unat ?m)"
      using bound ge by (auto simp: u intro: less_SucI)
    ultimately have "heap_pre ?c"
      using pre True len m n1 lu unat_succ_max [OF m] unfolding heap_pre_def by (simp add: u)
    then obtain c' where c': "check_generation ?c = Some c'" "heap_inv c'" "heap_content c' = heap_content ?c"
      using check_generation_ok by blast
    have "heap_content ?c = (heap_content c)(p \<mapsto> level)"
      using cached_snoc [OF np, of ?lv] lv by (simp add: heap_content_def u)
    moreover have "heap_add p level c = Some c'"
      using True c'(1) by (simp add: heap_add_def aput_def Let_def)
    ultimately show ?thesis using c' by auto
  next
    case False
    then have "?n = length ?es" using pre by (simp add: heap_pre_def)
    from heap_add_full [OF inv new this l] show ?thesis by blast
  qed
qed

lemma heap_root_least: "heap_ordered n f \<Longrightarrow> k < n \<Longrightarrow> f 0 \<le> f k"
proof (induction k rule: less_induct)
  case (less k)
  show ?case
  proof (cases "k = 0")
    case False
    then have p: "(k - 1) div 2 < k" by linarith
    then have "f 0 \<le> f ((k - 1) div 2)" using less by simp
    also have "\<dots> < f k" using less.prems False by (simp add: heap_ordered_def)
    finally show ?thesis by simp
  qed simp
qed

interpretation hp: tag_cache heap_ops heap_inv heap_content
proof unfold_locales
  show "heap_inv c \<Longrightarrow> heap_inv (cache_clean heap_ops c) \<and> heap_content (cache_clean heap_ops c) = Map.empty" for c
    using heap_clean_law by (simp add: heap_ops_def)
  show "heap_inv c \<Longrightarrow> \<exists>c'. cache_get_level heap_ops p c = Some (c', heap_content c p) \<and> heap_inv c' \<and>
      heap_content c' = heap_content c" for c p
    using heap_get_law by (simp add: heap_ops_def)
  show "heap_inv c \<Longrightarrow> heap_content c p = None \<Longrightarrow> level < ESP_LOG_MAX \<Longrightarrow>
      \<exists>c'. cache_add heap_ops p level c = Some c' \<and> heap_inv c' \<and>
        heap_content c' \<subseteq>\<^sub>m (heap_content c)(p \<mapsto> level)" for c p level
    using heap_add_law by (simp add: heap_ops_def)
  show "heap_inv c \<Longrightarrow> inj_on str (dom (heap_content c)) \<Longrightarrow> level < ESP_LOG_MAX \<Longrightarrow>
      \<exists>c'. cache_set_level heap_ops str s level c = Some c' \<and> heap_inv c' \<and> heap_content c' =
        (\<lambda>q. if heap_content c q \<noteq> None \<and> str q = s then Some level else heap_content c q)" for c str s level
    using heap_set_law by (simp add: heap_ops_def)
qed

end
