(* ===== verification/Log_Props.thy ===== *)
theory Log_Props
  imports Log_Heap
begin

text \<open>
  The properties of the log levels: the linked list is a map from tags to levels, both caches
  are transparent and their checks never fail, the heap replaces the oldest entry, and one tag
  behind two pointers is not updated everywhere.
\<close>

section \<open>Caches are transparent\<close>

definition new_log :: "'c \<Rightarrow> esp_log_level_t \<Rightarrow> 'c log_state" where
  "new_log c level = \<lparr>esp_log_default_level = level, s_master_log_level = level, s_log_tags = [], log_cache = c\<rparr>"

definition new_array_cache :: "array_entry list \<Rightarrow> array_cache" where
  "new_array_cache es = \<lparr>s_cache = es, s_cache_entry_count = 0\<rparr>"

definition new_heap_cache :: "heap_entry list \<Rightarrow> heap_cache" where
  "new_heap_cache es = \<lparr>s_log_cache = es, s_log_cache_max_generation = 0,
     s_log_cache_entry_count = 0, s_log_cache_misses = 0\<rparr>"

lemma new_levels_ok: "level < ESP_LOG_MAX \<Longrightarrow> levels_ok (new_log c level)"
  by (simp add: levels_ok_def tag_level_def new_log_def)

text \<open>C26: For every sequence of calls that set and get levels, with tags that have one pointer each,
  the two caches return exactly the levels that the linked list alone returns; no access is outside
  the cache array, and the consistency checks of the heap never fail, however often its generations
  are renumbered.\<close>

theorem cached_log_levels_equal_uncached:
  assumes "inj_on str T" "level < ESP_LOG_MAX" "\<forall>x \<in> set ops. op_tags x \<subseteq> T \<and> op_level_ok x"
    "as \<noteq> []" "length as < 4294967295" "odd (length hs)" "length hs < 536870911"
  shows "\<exists>st1 st2 st3 levels.
    run_log IMPL_LINKED_LIST array_ops str ops (new_log (new_array_cache as) level) = Some (st1, levels) \<and>
    run_log IMPL_CACHE_AND_LINKED_LIST array_ops str ops (new_log (new_array_cache as) level) = Some (st2, levels) \<and>
    run_log IMPL_CACHE_AND_LINKED_LIST heap_ops str ops (new_log (new_heap_cache hs) level) = Some (st3, levels)"
proof -
  let ?a = "new_log (new_array_cache as) level" and ?h = "new_log (new_heap_cache hs) level"
  obtain st1 levels where r: "run_log IMPL_LINKED_LIST array_ops str ops ?a = Some (st1, levels)"
    using linked_list_run_total by blast
  have "array_inv (new_array_cache as)" "array_content (new_array_cache as) = Map.empty"
    using assms(4,5) by (simp_all add: array_inv_def array_content_def array_used_def new_array_cache_def
      ENTRY_COUNT_def cached_def)
  then have ca: "arr.coherent str T ?a"
    using assms(1) new_levels_ok [OF assms(2), of "new_array_cache as"] by (simp add: arr.coherent_def new_log_def)
  have "heap_inv (new_heap_cache hs)" "heap_content (new_heap_cache hs) = Map.empty"
    using assms(6,7) by (simp_all add: heap_inv_def heap_pre_def heap_content_def heap_used_def new_heap_cache_def
      heap_ordered_def cached_def MAX_GENERATION_def)
  then have ch: "hp.coherent str T ?h"
    using assms(1) new_levels_ok [OF assms(2), of "new_heap_cache hs"] by (simp add: hp.coherent_def new_log_def)
  have e: "s_log_tags ?a = s_log_tags ?h" "esp_log_default_level ?a = esp_log_default_level ?h"
    by (simp_all add: new_log_def)
  obtain st2 where "run_log IMPL_CACHE_AND_LINKED_LIST array_ops str ops ?a = Some (st2, levels)"
    using arr.cached_run [OF ca refl refl assms(3) r] by blast
  moreover obtain st3 where "run_log IMPL_CACHE_AND_LINKED_LIST heap_ops str ops ?h = Some (st3, levels)"
    using hp.cached_run [OF ch e assms(3) r] by blast
  ultimately show ?thesis using r by blast
qed

definition demo_str :: "tag_ptr \<Rightarrow> string" where
  "demo_str p = (if p = 1 then ''wifi'' else if p = 2 then ''mqtt'' else ''*'')"

theorem cached_log_levels_equal_uncached_witness:
  "\<exists>st1 st2 st3 levels.
    run_log IMPL_LINKED_LIST array_ops demo_str [LogSet (Some 1) 4 True, LogGet (Some 2), LogGet (Some 1)]
      (new_log (new_array_cache [\<lparr>ae_tag = 0, ae_level = 0\<rparr>]) 3) = Some (st1, levels) \<and>
    run_log IMPL_CACHE_AND_LINKED_LIST array_ops demo_str [LogSet (Some 1) 4 True, LogGet (Some 2), LogGet (Some 1)]
      (new_log (new_array_cache [\<lparr>ae_tag = 0, ae_level = 0\<rparr>]) 3) = Some (st2, levels) \<and>
    run_log IMPL_CACHE_AND_LINKED_LIST heap_ops demo_str [LogSet (Some 1) 4 True, LogGet (Some 2), LogGet (Some 1)]
      (new_log (new_heap_cache [\<lparr>he_tag = 0, he_level = 0, he_generation = 0\<rparr>]) 3) = Some (st3, levels)"
  by (rule cached_log_levels_equal_uncached [of demo_str "{1, 2}"])
     (auto simp: demo_str_def inj_on_def ESP_LOG_MAX_def)

section \<open>The linked list\<close>

text \<open>C27: Without a cache the levels are a map with a default: setting a tag changes that tag only,
  the wildcard resets every tag, a failed allocation changes nothing, and a lookup returns the map's
  value.\<close>

theorem log_levels_are_a_map:
  assumes "level < ESP_LOG_MAX"
  shows "\<exists>st'. esp_log_level_set IMPL_LINKED_LIST ops str malloc_ok (Some p) level st = Some st' \<and>
    tag_level st' =
      (if str p = ''*'' then (\<lambda>s. level)
       else if malloc_ok \<or> esp_log_linked_list_get_level (str p) (s_log_tags st) \<noteq> None
       then (tag_level st)(str p := level) else tag_level st) \<and>
    esp_log_level_get IMPL_LINKED_LIST ops str (Some q) st' = Some (st', tag_level st' (str q))"
proof (cases "str p = ''*''")
  case True
  then show ?thesis
    by (simp add: esp_log_level_set_def log_level_set_def esp_log_set_default_level_def Let_def
        esp_log_level_get_def log_level_get_def tag_level_def fun_eq_iff)
next
  case False
  obtain l ok where s: "esp_log_linked_list_set_level malloc_ok (str p) level (s_log_tags st) = (l, ok)"
    by (meson prod.exhaust)
  let ?st = "st\<lparr>s_log_tags := l\<rparr>"
  have g: "esp_log_linked_list_get_level x l =
      (if x = str p \<and> (malloc_ok \<or> esp_log_linked_list_get_level (str p) (s_log_tags st) \<noteq> None) then Some level
       else esp_log_linked_list_get_level x (s_log_tags st))" for x
    using linked_list_set_get [OF assms, of x malloc_ok "str p" "s_log_tags st"] s by simp
  have "esp_log_level_set IMPL_LINKED_LIST ops str malloc_ok (Some p) level st = Some ?st"
    using False s by (simp add: esp_log_level_set_def log_level_set_def)
  moreover have "tag_level ?st x =
      (if malloc_ok \<or> esp_log_linked_list_get_level (str p) (s_log_tags st) \<noteq> None
       then (tag_level st)(str p := level) else tag_level st) x" for x
    by (simp add: tag_level_def g cong: option.case_cong)
  then have "tag_level ?st = (if malloc_ok \<or> esp_log_linked_list_get_level (str p) (s_log_tags st) \<noteq> None
       then (tag_level st)(str p := level) else tag_level st)" by (rule ext)
  moreover have "esp_log_level_get IMPL_LINKED_LIST ops str (Some q) ?st = Some (?st, tag_level ?st (str q))"
    by (simp add: esp_log_level_get_def log_level_get_def tag_level_def cong: option.case_cong)
  ultimately show ?thesis using False by simp
qed

theorem log_levels_are_a_map_witness:
  "\<exists>st'. esp_log_level_set IMPL_LINKED_LIST array_ops demo_str True (Some 1) 4 (new_log (new_array_cache []) 3) = Some st' \<and>
    tag_level st' = (tag_level (new_log (new_array_cache []) 3))(''wifi'' := 4)"
  using log_levels_are_a_map [of 4 array_ops demo_str True 1 "new_log (new_array_cache []) 3" 1]
  by (auto simp: demo_str_def ESP_LOG_MAX_def)

section \<open>Eviction\<close>

text \<open>C28: A full heap cache makes room for a new tag by dropping the entry with the least
  generation, and only that one.\<close>

theorem heap_cache_evicts_the_oldest:
  assumes "heap_inv c" "unat (s_log_cache_entry_count c) = length (s_log_cache c)" "heap_content c p = None"
    "level < ESP_LOG_MAX"
  shows "\<exists>c' e0. heap_add p level c = Some c' \<and> e0 \<in> set (s_log_cache c) \<and>
    (\<forall>e \<in> set (s_log_cache c). he_generation e0 \<le> he_generation e) \<and>
    dom (heap_content c') = insert p (dom (heap_content c) - {he_tag e0}) \<and> heap_content c' p = Some level"
proof -
  let ?es = "s_log_cache c"
  let ?e = "\<lparr>he_tag = p, he_level = ucast level, he_generation = ucast (s_log_cache_max_generation c)\<rparr>"
  obtain c' where c': "heap_add p level c = Some c'"
    "heap_content c' = cached he_tag (\<lambda>e. ucast (he_level e)) (?es[0 := ?e])"
    "heap_content c' \<subseteq>\<^sub>m (heap_content c)(p \<mapsto> level)"
    using heap_add_full [OF assms(1,3,2,4)] by blast
  have u: "heap_used c = ?es" using assms(2) by (simp add: heap_used_def)
  have pre: "heap_pre c" using assms(1) by (simp add: heap_inv_def)
  then obtain e0 rest where es: "?es = e0 # rest" by (cases ?es) (auto simp: heap_pre_def)
  have d: "distinct (map he_tag ?es)" and o: "heap_ordered (length ?es) (gens ?es)"
    using pre u by (auto simp: heap_pre_def)
  have "he_generation e0 \<le> he_generation e" if e: "e \<in> set ?es" for e
  proof -
    obtain k where "k < length ?es" "e = ?es ! k" using e by (auto simp: in_set_conv_nth)
    then show ?thesis
      using heap_root_least [OF o, of k] es by (simp add: gens_def word_le_nat_alt)
  qed
  moreover have dom: "dom (heap_content c') = insert p (dom (heap_content c) - {he_tag e0})"
  proof -
    have "he_tag e0 \<notin> he_tag ` set rest" using d es by simp
    then show ?thesis unfolding c'(2) unfolding heap_content_def u dom_cached es by simp
  qed
  moreover have "heap_content c' p = Some level"
    using c'(3) dom by (metis fun_upd_same insertI1 map_le_def)
  ultimately show ?thesis using c'(1) es by auto
qed

definition demo_full :: heap_cache where
  "demo_full = \<lparr>s_log_cache = [\<lparr>he_tag = 5, he_level = 3, he_generation = 0\<rparr>],
      s_log_cache_max_generation = 1, s_log_cache_entry_count = 1, s_log_cache_misses = 1\<rparr>"

theorem heap_cache_evicts_the_oldest_witness:
  "\<exists>c' (e0 :: heap_entry). heap_add 9 4 demo_full = Some c' \<and>
    dom (heap_content c') = insert 9 (dom (heap_content demo_full) - {he_tag e0})"
proof -
  have "heap_inv demo_full" "unat (s_log_cache_entry_count demo_full) = length (s_log_cache demo_full)"
    "heap_content demo_full 9 = None"
    by (simp_all add: heap_inv_def heap_pre_def heap_used_def heap_ordered_def heap_content_def cached_def
      MAX_GENERATION_def demo_full_def)
  moreover have "(4 :: 32 word) < ESP_LOG_MAX" by (simp add: ESP_LOG_MAX_def)
  ultimately show ?thesis using heap_cache_evicts_the_oldest [of demo_full 9 4] by blast
qed

section \<open>One tag behind two pointers\<close>

text \<open>The caches look tags up by pointer but are updated by string, and only the first match is
  updated: when a tag has two pointers, a new level is not seen through the second one.\<close>

definition same_tag_ops :: "log_op list" where
  "same_tag_ops = [LogGet (Some 1), LogGet (Some 2), LogSet (Some 1) 5 True, LogGet (Some 1), LogGet (Some 2)]"

definition no_tag :: array_entry where "no_tag = \<lparr>ae_tag = 0, ae_level = 0\<rparr>"

definition no_heap_tag :: heap_entry where
  "no_heap_tag = \<lparr>he_tag = 0, he_level = 0, he_generation = 0\<rparr>"

lemma two_indices: "[0..<2] = [0, 1 :: nat]"
  by (simp add: upt_rec)

theorem second_pointer_of_a_tag_is_stale:
  "map_option snd (run_log IMPL_LINKED_LIST array_ops (\<lambda>p. ''wifi'') same_tag_ops
     (new_log (new_array_cache ([no_tag, no_tag, no_tag])) 3)) = Some [3, 3, 5, 5] \<and>
   map_option snd (run_log IMPL_CACHE_AND_LINKED_LIST array_ops (\<lambda>p. ''wifi'') same_tag_ops
     (new_log (new_array_cache ([no_tag, no_tag, no_tag])) 3)) = Some [3, 3, 5, 3] \<and>
   map_option snd (run_log IMPL_CACHE_AND_LINKED_LIST heap_ops (\<lambda>p. ''wifi'') same_tag_ops
     (new_log (new_heap_cache ([no_heap_tag, no_heap_tag, no_heap_tag])) 3)) = Some [3, 3, 5, 3]"
proof (intro conjI)
  note d = same_tag_ops_def new_log_def esp_log_level_get_def esp_log_level_set_def log_level_get_def
    log_level_set_def esp_log_linked_list_set_level_def add_to_list_def
  note a = array_ops_def no_tag_def two_indices new_array_cache_def array_get_level_def array_set_level_def array_add_def
    ENTRY_COUNT_def aget_def aput_def Let_def
  note h = heap_ops_def no_heap_tag_def two_indices new_heap_cache_def heap_get_level_def heap_set_level_def heap_add_def
    check_generation_def MAX_GENERATION_def aget_def aput_def Let_def
  show "map_option snd (run_log IMPL_LINKED_LIST array_ops (\<lambda>p. ''wifi'') same_tag_ops
     (new_log (new_array_cache ([no_tag, no_tag, no_tag])) 3)) = Some [3, 3, 5, 5]"
    by (simp add: d)
  show "map_option snd (run_log IMPL_CACHE_AND_LINKED_LIST array_ops (\<lambda>p. ''wifi'') same_tag_ops
     (new_log (new_array_cache ([no_tag, no_tag, no_tag])) 3)) = Some [3, 3, 5, 3]"
    by (simp add: d a split del: if_split cong: bind_weak_cong let_weak_cong)
  show "map_option snd (run_log IMPL_CACHE_AND_LINKED_LIST heap_ops (\<lambda>p. ''wifi'') same_tag_ops
     (new_log (new_heap_cache ([no_heap_tag, no_heap_tag, no_heap_tag])) 3)) = Some [3, 3, 5, 3]"
    by (simp add: d h split del: if_split cong: bind_weak_cong let_weak_cong)
qed

end
