(* ===== verification/Ieee_Frame.thy ===== *)
theory Ieee_Frame
  imports Prelude
begin

text \<open>
  The frame parser of the 802.15.4 driver,
  \<open>components/ieee802154/driver/esp_ieee802154_frame.c\<close>.  A frame is a list of bytes that starts
  with its length (the PHR); reading past its end is \<open>None\<close>.  Offsets and lengths are 8-bit words.
\<close>

section \<open>Constants\<close>

definition IEEE802154_FRAME_INVALID_OFFSET :: "8 word" where "IEEE802154_FRAME_INVALID_OFFSET = 0xff"
definition IEEE802154_FRAME_INVALID_ADDR_MODE :: "8 word" where "IEEE802154_FRAME_INVALID_ADDR_MODE = 0xff"

definition IEEE802154_FRAME_TYPE_MASK :: "8 word" where "IEEE802154_FRAME_TYPE_MASK = 0x07"
definition IEEE802154_FRAME_TYPE_BEACON :: "8 word" where "IEEE802154_FRAME_TYPE_BEACON = 0x00"
definition IEEE802154_FRAME_TYPE_DATA :: "8 word" where "IEEE802154_FRAME_TYPE_DATA = 0x01"
definition IEEE802154_FRAME_TYPE_ACK :: "8 word" where "IEEE802154_FRAME_TYPE_ACK = 0x02"
definition IEEE802154_FRAME_TYPE_COMMAND :: "8 word" where "IEEE802154_FRAME_TYPE_COMMAND = 0x03"

definition IEEE802154_FRAME_SECURITY_BIT :: "8 word" where "IEEE802154_FRAME_SECURITY_BIT = 0x08"
definition IEEE802154_FRAME_SECURITY_MASK :: "8 word" where "IEEE802154_FRAME_SECURITY_MASK = 0x07"
definition IEEE802154_FRAME_KEY_ID_MODE_MASK :: "8 word" where "IEEE802154_FRAME_KEY_ID_MODE_MASK = 0x18"
definition IEEE802154_FRAME_COUNTER_SUPPRESS_BIT :: "8 word" where "IEEE802154_FRAME_COUNTER_SUPPRESS_BIT = 0x20"
definition IEEE802154_FRAME_AR_BIT :: "8 word" where "IEEE802154_FRAME_AR_BIT = 0x20"
definition IEEE802154_FRAME_PANID_COMP_BIT :: "8 word" where "IEEE802154_FRAME_PANID_COMP_BIT = 0x40"

definition IEEE802154_FRAME_VERSION_MASK :: "8 word" where "IEEE802154_FRAME_VERSION_MASK = 0x30"
definition IEEE802154_FRAME_VERSION_0 :: "8 word" where "IEEE802154_FRAME_VERSION_0 = 0x00"
definition IEEE802154_FRAME_VERSION_1 :: "8 word" where "IEEE802154_FRAME_VERSION_1 = 0x10"
definition IEEE802154_FRAME_VERSION_2 :: "8 word" where "IEEE802154_FRAME_VERSION_2 = 0x20"

definition IEEE802154_FRAME_DSN_BIT :: "8 word" where "IEEE802154_FRAME_DSN_BIT = 0x01"
definition IEEE802154_FRAME_IE_BIT :: "8 word" where "IEEE802154_FRAME_IE_BIT = 0x02"
definition IEEE802154_FRAME_IE_HEAD_ID_MASK :: "16 word" where "IEEE802154_FRAME_IE_HEAD_ID_MASK = 0x3f80"
definition IEEE802154_IE_TYPE_HT2 :: "16 word" where "IEEE802154_IE_TYPE_HT2 = 0x3f80"
definition IEEE802154_FRAME_IE_SUBFIELD_LEN_MASK :: "16 word" where "IEEE802154_FRAME_IE_SUBFIELD_LEN_MASK = 0x007f"

definition IEEE802154_FRAME_DST_MODE_MASK :: "8 word" where "IEEE802154_FRAME_DST_MODE_MASK = 0x0C"
definition IEEE802154_FRAME_DST_MODE_NONE :: "8 word" where "IEEE802154_FRAME_DST_MODE_NONE = 0x00"
definition IEEE802154_FRAME_DST_MODE_SHORT :: "8 word" where "IEEE802154_FRAME_DST_MODE_SHORT = 0x08"
definition IEEE802154_FRAME_DST_MODE_EXT :: "8 word" where "IEEE802154_FRAME_DST_MODE_EXT = 0x0C"
definition IEEE802154_FRAME_SRC_MODE_MASK :: "8 word" where "IEEE802154_FRAME_SRC_MODE_MASK = 0xC0"
definition IEEE802154_FRAME_SRC_MODE_NONE :: "8 word" where "IEEE802154_FRAME_SRC_MODE_NONE = 0x00"
definition IEEE802154_FRAME_SRC_MODE_SHORT :: "8 word" where "IEEE802154_FRAME_SRC_MODE_SHORT = 0x80"
definition IEEE802154_FRAME_SRC_MODE_EXT :: "8 word" where "IEEE802154_FRAME_SRC_MODE_EXT = 0xC0"

definition IEEE802154_FRAME_PHR_SIZE :: "8 word" where "IEEE802154_FRAME_PHR_SIZE = 1"
definition IEEE802154_FRAME_FCF_SIZE :: "8 word" where "IEEE802154_FRAME_FCF_SIZE = 2"
definition IEEE802154_FRAME_FCS_SIZE :: "8 word" where "IEEE802154_FRAME_FCS_SIZE = 2"
definition IEEE802154_FRAME_DSN_SIZE :: "8 word" where "IEEE802154_FRAME_DSN_SIZE = 1"
definition IEEE802154_FRAME_PANID_SIZE :: "8 word" where "IEEE802154_FRAME_PANID_SIZE = 2"
definition IEEE802154_FRAME_SHORT_ADDR_SIZE :: "8 word" where "IEEE802154_FRAME_SHORT_ADDR_SIZE = 2"
definition IEEE802154_FRAME_EXT_ADDR_SIZE :: "8 word" where "IEEE802154_FRAME_EXT_ADDR_SIZE = 8"
definition IEEE802154_FRAME_SE_HEAD_SIZE :: "8 word" where "IEEE802154_FRAME_SE_HEAD_SIZE = 1"
definition IEEE802154_FRAME_COUNTER_SIZE :: "8 word" where "IEEE802154_FRAME_COUNTER_SIZE = 4"
definition IEEE802154_FRAME_COMMAND_ID_LEN :: "8 word" where "IEEE802154_FRAME_COMMAND_ID_LEN = 1"
definition IEEE802154_FRAME_IE_HEAD_LEN :: "8 word" where "IEEE802154_FRAME_IE_HEAD_LEN = 2"

lemmas ieee_consts =
  IEEE802154_FRAME_INVALID_OFFSET_def IEEE802154_FRAME_INVALID_ADDR_MODE_def IEEE802154_FRAME_TYPE_MASK_def
  IEEE802154_FRAME_TYPE_BEACON_def IEEE802154_FRAME_TYPE_DATA_def IEEE802154_FRAME_TYPE_ACK_def
  IEEE802154_FRAME_TYPE_COMMAND_def IEEE802154_FRAME_SECURITY_BIT_def IEEE802154_FRAME_SECURITY_MASK_def
  IEEE802154_FRAME_KEY_ID_MODE_MASK_def IEEE802154_FRAME_COUNTER_SUPPRESS_BIT_def IEEE802154_FRAME_AR_BIT_def
  IEEE802154_FRAME_PANID_COMP_BIT_def IEEE802154_FRAME_VERSION_MASK_def IEEE802154_FRAME_VERSION_0_def
  IEEE802154_FRAME_VERSION_1_def IEEE802154_FRAME_VERSION_2_def IEEE802154_FRAME_DSN_BIT_def
  IEEE802154_FRAME_IE_BIT_def IEEE802154_FRAME_IE_HEAD_ID_MASK_def IEEE802154_IE_TYPE_HT2_def
  IEEE802154_FRAME_IE_SUBFIELD_LEN_MASK_def IEEE802154_FRAME_DST_MODE_MASK_def IEEE802154_FRAME_DST_MODE_NONE_def
  IEEE802154_FRAME_DST_MODE_SHORT_def IEEE802154_FRAME_DST_MODE_EXT_def IEEE802154_FRAME_SRC_MODE_MASK_def
  IEEE802154_FRAME_SRC_MODE_NONE_def IEEE802154_FRAME_SRC_MODE_SHORT_def IEEE802154_FRAME_SRC_MODE_EXT_def
  IEEE802154_FRAME_PHR_SIZE_def IEEE802154_FRAME_FCF_SIZE_def IEEE802154_FRAME_FCS_SIZE_def
  IEEE802154_FRAME_DSN_SIZE_def IEEE802154_FRAME_PANID_SIZE_def IEEE802154_FRAME_SHORT_ADDR_SIZE_def
  IEEE802154_FRAME_EXT_ADDR_SIZE_def IEEE802154_FRAME_SE_HEAD_SIZE_def IEEE802154_FRAME_COUNTER_SIZE_def
  IEEE802154_FRAME_COMMAND_ID_LEN_def IEEE802154_FRAME_IE_HEAD_LEN_def

section \<open>Fields of the frame control\<close>

definition frame_byte :: "byte list \<Rightarrow> nat \<Rightarrow> byte option" where
  "frame_byte frame i = (if i < length frame then Some (frame ! i) else None)"

definition frame_bit :: "byte list \<Rightarrow> nat \<Rightarrow> byte \<Rightarrow> bool option" where
  "frame_bit frame i m = map_option (\<lambda>b. b AND m \<noteq> 0) (frame_byte frame i)"

definition is_security_enabled :: "byte list \<Rightarrow> bool option" where
  "is_security_enabled frame = frame_bit frame 1 IEEE802154_FRAME_SECURITY_BIT"

definition is_ie_present :: "byte list \<Rightarrow> bool option" where
  "is_ie_present frame = frame_bit frame 2 IEEE802154_FRAME_IE_BIT"

definition ieee802154_frame_get_type :: "byte list \<Rightarrow> byte option" where
  "ieee802154_frame_get_type frame = map_option (\<lambda>b. b AND IEEE802154_FRAME_TYPE_MASK) (frame_byte frame 1)"

definition ieee802154_frame_get_version :: "byte list \<Rightarrow> byte option" where
  "ieee802154_frame_get_version frame = map_option (\<lambda>b. b AND IEEE802154_FRAME_VERSION_MASK) (frame_byte frame 2)"

definition is_dsn_present :: "byte list \<Rightarrow> bool option" where
  "is_dsn_present frame = do {
     version \<leftarrow> ieee802154_frame_get_version frame;
     if version \<noteq> IEEE802154_FRAME_VERSION_2 then Some True
     else map_option Not (frame_bit frame 2 IEEE802154_FRAME_DSN_BIT)
   }"

definition dst_addr_mode :: "byte list \<Rightarrow> byte option" where
  "dst_addr_mode frame = map_option (\<lambda>b. b AND IEEE802154_FRAME_DST_MODE_MASK) (frame_byte frame 2)"

definition src_addr_mode :: "byte list \<Rightarrow> byte option" where
  "src_addr_mode frame = map_option (\<lambda>b. b AND IEEE802154_FRAME_SRC_MODE_MASK) (frame_byte frame 2)"

definition is_panid_compression :: "byte list \<Rightarrow> bool option" where
  "is_panid_compression frame = frame_bit frame 1 IEEE802154_FRAME_PANID_COMP_BIT"

definition is_suported_frame_type :: "byte \<Rightarrow> bool" where
  "is_suported_frame_type frame_type \<longleftrightarrow>
     frame_type = IEEE802154_FRAME_TYPE_BEACON \<or> frame_type = IEEE802154_FRAME_TYPE_DATA \<or>
     frame_type = IEEE802154_FRAME_TYPE_ACK \<or> frame_type = IEEE802154_FRAME_TYPE_COMMAND"

definition is_dst_panid_present :: "byte list \<Rightarrow> bool option" where
  "is_dst_panid_present frame = do {
     dst_mode \<leftarrow> dst_addr_mode frame;
     version \<leftarrow> ieee802154_frame_get_version frame;
     if version = IEEE802154_FRAME_VERSION_2
     then do {
       src_mode \<leftarrow> src_addr_mode frame;
       panid_compression \<leftarrow> is_panid_compression frame;
       Some (if dst_mode \<noteq> IEEE802154_FRAME_DST_MODE_NONE
             then if (src_mode = IEEE802154_FRAME_SRC_MODE_NONE \<and> panid_compression) \<or>
                     (dst_mode = IEEE802154_FRAME_DST_MODE_EXT \<and> src_mode = IEEE802154_FRAME_SRC_MODE_EXT
                      \<and> panid_compression)
                  then False else True
             else if src_mode = IEEE802154_FRAME_SRC_MODE_NONE \<and> panid_compression then True else False)
     }
     else Some (dst_mode \<noteq> IEEE802154_FRAME_DST_MODE_NONE)
   }"

definition is_src_panid_present :: "byte list \<Rightarrow> bool option" where
  "is_src_panid_present frame = do {
     src_mode \<leftarrow> src_addr_mode frame;
     panid_compression \<leftarrow> is_panid_compression frame;
     version \<leftarrow> ieee802154_frame_get_version frame;
     if version = IEEE802154_FRAME_VERSION_2
     then do {
       dst_mode \<leftarrow> dst_addr_mode frame;
       Some (if src_mode \<noteq> IEEE802154_FRAME_SRC_MODE_NONE
             then if dst_mode = IEEE802154_FRAME_DST_MODE_EXT \<and> src_mode = IEEE802154_FRAME_SRC_MODE_EXT
                     \<and> \<not> panid_compression
                  then False else \<not> panid_compression
             else False)
     }
     else Some (if src_mode \<noteq> IEEE802154_FRAME_SRC_MODE_NONE then \<not> panid_compression else False)
   }"

section \<open>Offsets\<close>

definition ieee802154_frame_address_offset :: "byte list \<Rightarrow> byte option" where
  "ieee802154_frame_address_offset frame = do {
     dsn \<leftarrow> is_dsn_present frame;
     Some (IEEE802154_FRAME_PHR_SIZE + IEEE802154_FRAME_FCF_SIZE + (if dsn then IEEE802154_FRAME_DSN_SIZE else 0))
   }"

text \<open>The size of an address by its mode; a reserved mode has none.\<close>

definition addr_mode_size :: "byte \<Rightarrow> byte \<Rightarrow> byte \<Rightarrow> byte \<Rightarrow> byte option" where
  "addr_mode_size none short ext mode =
     (if mode = none then Some 0
      else if mode = short then Some IEEE802154_FRAME_SHORT_ADDR_SIZE
      else if mode = ext then Some IEEE802154_FRAME_EXT_ADDR_SIZE
      else None)"

definition dst_addr_size :: "byte \<Rightarrow> byte option" where
  "dst_addr_size = addr_mode_size IEEE802154_FRAME_DST_MODE_NONE IEEE802154_FRAME_DST_MODE_SHORT IEEE802154_FRAME_DST_MODE_EXT"

definition src_addr_size :: "byte \<Rightarrow> byte option" where
  "src_addr_size = addr_mode_size IEEE802154_FRAME_SRC_MODE_NONE IEEE802154_FRAME_SRC_MODE_SHORT IEEE802154_FRAME_SRC_MODE_EXT"

definition ieee802154_frame_address_size :: "byte list \<Rightarrow> byte option" where
  "ieee802154_frame_address_size frame = do {
     dst_panid \<leftarrow> is_dst_panid_present frame;
     dst_mode \<leftarrow> dst_addr_mode frame;
     case dst_addr_size dst_mode of
       None \<Rightarrow> Some IEEE802154_FRAME_INVALID_OFFSET
     | Some dst_size \<Rightarrow> do {
         src_panid \<leftarrow> is_src_panid_present frame;
         src_mode \<leftarrow> src_addr_mode frame;
         case src_addr_size src_mode of
           None \<Rightarrow> Some IEEE802154_FRAME_INVALID_OFFSET
         | Some src_size \<Rightarrow>
             Some ((if dst_panid then IEEE802154_FRAME_PANID_SIZE else 0) + dst_size +
                   (if src_panid then IEEE802154_FRAME_PANID_SIZE else 0) + src_size)
       }
   }"

definition ieee802154_frame_security_header_offset :: "byte list \<Rightarrow> byte option" where
  "ieee802154_frame_security_header_offset frame = do {
     ty \<leftarrow> ieee802154_frame_get_type frame;
     if \<not> is_suported_frame_type ty then Some IEEE802154_FRAME_INVALID_ADDR_MODE
     else do {
       offset \<leftarrow> ieee802154_frame_address_offset frame;
       address_size \<leftarrow> ieee802154_frame_address_size frame;
       if offset = IEEE802154_FRAME_INVALID_OFFSET then Some IEEE802154_FRAME_INVALID_OFFSET
       else if address_size = IEEE802154_FRAME_INVALID_OFFSET then Some IEEE802154_FRAME_INVALID_OFFSET
       else Some (offset + address_size)
     }
   }"

definition key_id_mode_size :: "byte \<Rightarrow> byte" where
  "key_id_mode_size security_header =
     (let m = security_header AND IEEE802154_FRAME_KEY_ID_MODE_MASK
      in if m = 0x08 then 1 else if m = 0x10 then 5 else if m = 0x18 then 9 else 0)"

definition ieee802154_frame_get_security_field_len :: "byte list \<Rightarrow> byte option" where
  "ieee802154_frame_get_security_field_len frame = do {
     ty \<leftarrow> ieee802154_frame_get_type frame;
     if \<not> is_suported_frame_type ty then Some IEEE802154_FRAME_INVALID_OFFSET
     else do {
       offset \<leftarrow> ieee802154_frame_security_header_offset frame;
       if offset = IEEE802154_FRAME_INVALID_OFFSET then Some IEEE802154_FRAME_INVALID_OFFSET
       else do {
         security_header \<leftarrow> frame_byte frame (unat offset);
         Some (IEEE802154_FRAME_SE_HEAD_SIZE +
               (if security_header AND IEEE802154_FRAME_COUNTER_SUPPRESS_BIT \<noteq> 0
                then 0 else IEEE802154_FRAME_COUNTER_SIZE) +
               key_id_mode_size security_header)
       }
     }
   }"

definition ieee802154_frame_ie_header_offset :: "byte list \<Rightarrow> byte option" where
  "ieee802154_frame_ie_header_offset frame = do {
     offset \<leftarrow> ieee802154_frame_security_header_offset frame;
     security_field_len \<leftarrow> ieee802154_frame_get_security_field_len frame;
     Some (offset + security_field_len)
   }"

definition ieee802154_frame_get_mic_len :: "byte list \<Rightarrow> byte option" where
  "ieee802154_frame_get_mic_len frame = do {
     offset \<leftarrow> ieee802154_frame_security_header_offset frame;
     security_header \<leftarrow> frame_byte frame (unat offset);
     let level = security_header AND IEEE802154_FRAME_SECURITY_MASK;
     Some (if level = 0x01 \<or> level = 0x05 then 4
           else if level = 0x02 \<or> level = 0x06 then 8
           else if level = 0x03 \<or> level = 0x07 then 16
           else 0)
   }"

text \<open>The loop over the header IEs.  The comparison is made in \<open>int\<close>; the length wraps around in
  8 bits, and a loop that does not end is \<open>None\<close>.\<close>

partial_function (option) ie_field_loop :: "byte list \<Rightarrow> byte \<Rightarrow> byte \<Rightarrow> byte \<Rightarrow> byte option" where
  "ie_field_loop frame offset frame_footer_len ie_field_len = do {
     frame_len \<leftarrow> frame_byte frame 0;
     if unat frame_len > unat offset + unat ie_field_len + unat frame_footer_len
     then do {
       hi \<leftarrow> frame_byte frame (unat offset + unat ie_field_len + 1);
       lo \<leftarrow> frame_byte frame (unat offset + unat ie_field_len);
       let ie_header = (push_bit 8 (ucast hi) OR ucast lo :: 16 word);
       if ie_header AND IEEE802154_FRAME_IE_HEAD_ID_MASK = IEEE802154_IE_TYPE_HT2
       then Some (ie_field_len + IEEE802154_FRAME_IE_HEAD_LEN)
       else ie_field_loop frame offset frame_footer_len
              (ie_field_len + (IEEE802154_FRAME_IE_HEAD_LEN +
                 ucast (ie_header AND IEEE802154_FRAME_IE_SUBFIELD_LEN_MASK)))
     }
     else Some ie_field_len
   }"

definition ieee802154_frame_get_ie_field_len :: "byte list \<Rightarrow> byte option" where
  "ieee802154_frame_get_ie_field_len frame = do {
     offset \<leftarrow> ieee802154_frame_ie_header_offset frame;
     mic_len \<leftarrow> ieee802154_frame_get_mic_len frame;
     ie_field_loop frame offset (mic_len + IEEE802154_FRAME_FCS_SIZE) 0
   }"

definition ieee802154_frame_payload_offset :: "byte list \<Rightarrow> byte option" where
  "ieee802154_frame_payload_offset frame = do {
     offset \<leftarrow> ieee802154_frame_security_header_offset frame;
     security \<leftarrow> is_security_enabled frame;
     security_len \<leftarrow> (if security then ieee802154_frame_get_security_field_len frame else Some 0);
     version \<leftarrow> ieee802154_frame_get_version frame;
     ie \<leftarrow> (if version = IEEE802154_FRAME_VERSION_2 then is_ie_present frame else Some False);
     ie_len \<leftarrow> (if ie then ieee802154_frame_get_ie_field_len frame else Some 0);
     ty \<leftarrow> ieee802154_frame_get_type frame;
     let command_len =
       (if (version = IEEE802154_FRAME_VERSION_0 \<or> version = IEEE802154_FRAME_VERSION_1)
            \<and> ty = IEEE802154_FRAME_TYPE_COMMAND
        then IEEE802154_FRAME_COMMAND_ID_LEN else 0);
     Some (offset + security_len + ie_len + command_len - 1)
   }"

definition ieee802154_frame_get_security_payload_offset :: "byte list \<Rightarrow> byte option" where
  "ieee802154_frame_get_security_payload_offset frame = ieee802154_frame_payload_offset frame"

section \<open>Addresses\<close>

definition ieee802154_frame_is_ack_required :: "byte list \<Rightarrow> bool option" where
  "ieee802154_frame_is_ack_required frame = do {
     ty \<leftarrow> ieee802154_frame_get_type frame;
     if is_suported_frame_type ty then frame_bit frame 1 IEEE802154_FRAME_AR_BIT else Some False
   }"

text \<open>The getters return the bytes copied through the pointer, if any, beside the result.\<close>

definition ieee802154_frame_get_dst_addr :: "byte list \<Rightarrow> (byte \<times> byte list option) option" where
  "ieee802154_frame_get_dst_addr frame = do {
     ty \<leftarrow> ieee802154_frame_get_type frame;
     if \<not> is_suported_frame_type ty then Some (IEEE802154_FRAME_INVALID_ADDR_MODE, None)
     else do {
       offset \<leftarrow> ieee802154_frame_address_offset frame;
       dst_mode \<leftarrow> dst_addr_mode frame;
       if \<not> (dst_mode = IEEE802154_FRAME_DST_MODE_SHORT \<or> dst_mode = IEEE802154_FRAME_DST_MODE_EXT)
       then Some (dst_mode, None)
       else do {
         let addr_size = (if dst_mode = IEEE802154_FRAME_DST_MODE_SHORT
                          then IEEE802154_FRAME_SHORT_ADDR_SIZE else IEEE802154_FRAME_EXT_ADDR_SIZE);
         dst_panid \<leftarrow> is_dst_panid_present frame;
         addr \<leftarrow> read_at frame
                   (unat (offset + (if dst_panid then IEEE802154_FRAME_PANID_SIZE else 0))) (unat addr_size);
         Some (dst_mode, Some addr)
       }
     }
   }"

text \<open>The bytes of the destination address that precede the source fields.\<close>

definition dst_addr_skip :: "byte \<Rightarrow> byte" where
  "dst_addr_skip dst_mode =
     (if dst_mode = IEEE802154_FRAME_DST_MODE_SHORT then IEEE802154_FRAME_SHORT_ADDR_SIZE
      else if dst_mode = IEEE802154_FRAME_DST_MODE_EXT then IEEE802154_FRAME_EXT_ADDR_SIZE else 0)"

definition ieee802154_frame_get_src_addr :: "byte list \<Rightarrow> (byte \<times> byte list option) option" where
  "ieee802154_frame_get_src_addr frame = do {
     ty \<leftarrow> ieee802154_frame_get_type frame;
     if \<not> is_suported_frame_type ty then Some (IEEE802154_FRAME_INVALID_ADDR_MODE, None)
     else do {
       offset \<leftarrow> ieee802154_frame_address_offset frame;
       dst_mode \<leftarrow> dst_addr_mode frame;
       src_mode \<leftarrow> src_addr_mode frame;
       if \<not> (src_mode = IEEE802154_FRAME_SRC_MODE_SHORT \<or> src_mode = IEEE802154_FRAME_SRC_MODE_EXT)
       then Some (src_mode, None)
       else do {
         let addr_size = (if src_mode = IEEE802154_FRAME_SRC_MODE_SHORT
                          then IEEE802154_FRAME_SHORT_ADDR_SIZE else IEEE802154_FRAME_EXT_ADDR_SIZE);
         dst_panid \<leftarrow> is_dst_panid_present frame;
         src_panid \<leftarrow> is_src_panid_present frame;
         addr \<leftarrow> read_at frame
                   (unat (offset + (if dst_panid then IEEE802154_FRAME_PANID_SIZE else 0) + dst_addr_skip dst_mode +
                          (if src_panid then IEEE802154_FRAME_PANID_SIZE else 0))) (unat addr_size);
         Some (src_mode, Some addr)
       }
     }
   }"

definition ieee802154_frame_get_dest_panid :: "byte list \<Rightarrow> (esp_err_t \<times> byte list option) option" where
  "ieee802154_frame_get_dest_panid frame = do {
     offset \<leftarrow> ieee802154_frame_address_offset frame;
     dst_panid \<leftarrow> is_dst_panid_present frame;
     if dst_panid
     then do {
       panid \<leftarrow> read_at frame (unat offset) (unat IEEE802154_FRAME_PANID_SIZE);
       Some (ESP_OK, Some panid)
     }
     else Some (ESP_FAIL, None)
   }"

definition ieee802154_frame_get_src_panid :: "byte list \<Rightarrow> (esp_err_t \<times> byte list option) option" where
  "ieee802154_frame_get_src_panid frame = do {
     offset \<leftarrow> ieee802154_frame_address_offset frame;
     dst_mode \<leftarrow> dst_addr_mode frame;
     src_panid \<leftarrow> is_src_panid_present frame;
     if src_panid
     then do {
       dst_panid \<leftarrow> is_dst_panid_present frame;
       panid \<leftarrow> read_at frame
                  (unat (offset + (if dst_panid then IEEE802154_FRAME_PANID_SIZE else 0) + dst_addr_skip dst_mode))
                  (unat IEEE802154_FRAME_PANID_SIZE);
       Some (ESP_OK, Some panid)
     }
     else Some (ESP_FAIL, None)
   }"

end
