(* ===== verification/Ieee_Ack.thy ===== *)
theory Ieee_Ack
  imports Ieee_Frame
begin

text \<open>
  The table of addresses with pending frames and the pending bit of acknowledgements,
  \<open>components/ieee802154/driver/esp_ieee802154_ack.c\<close>.  The table has one half for short and one for
  extended addresses: an array of addresses and a bit mask of the entries in use.  An access outside
  an array is \<open>None\<close>.
\<close>

section \<open>Bit masks\<close>

definition IEEE802154_PENDING_TABLE_MASK_BITS :: nat where "IEEE802154_PENDING_TABLE_MASK_BITS = 8"

definition IEEE802154_PENDING_TABLE_MASK_SIZE :: "nat \<Rightarrow> nat" where
  "IEEE802154_PENDING_TABLE_MASK_SIZE n = (n - 1) div IEEE802154_PENDING_TABLE_MASK_BITS + 1"

definition BIT_IST :: "byte list \<Rightarrow> nat \<Rightarrow> bool option" where
  "BIT_IST msk pos =
     (let i = pos div IEEE802154_PENDING_TABLE_MASK_BITS
      in if i < length msk
         then Some (msk ! i AND push_bit (pos mod IEEE802154_PENDING_TABLE_MASK_BITS) 1 \<noteq> 0) else None)"

definition BIT_SET :: "byte list \<Rightarrow> nat \<Rightarrow> byte list option" where
  "BIT_SET msk pos =
     (let i = pos div IEEE802154_PENDING_TABLE_MASK_BITS
      in if i < length msk
         then Some (msk[i := msk ! i OR push_bit (pos mod IEEE802154_PENDING_TABLE_MASK_BITS) 1]) else None)"

definition BIT_CLR :: "byte list \<Rightarrow> nat \<Rightarrow> byte list option" where
  "BIT_CLR msk pos =
     (let i = pos div IEEE802154_PENDING_TABLE_MASK_BITS
      in if i < length msk
         then Some (msk[i := msk ! i AND NOT (push_bit (pos mod IEEE802154_PENDING_TABLE_MASK_BITS) 1)]) else None)"

section \<open>One half of the table\<close>

text \<open>\<open>CONFIG_IEEE802154_PENDING_TABLE_SIZE\<close> is the number of addresses; \<open>sz\<close> is the size of an
  address.  \<open>memcmp\<close> reads \<open>sz\<close> bytes of the argument.\<close>

type_synonym half = "byte list list \<times> byte list"

definition addr_eq :: "nat \<Rightarrow> byte list \<Rightarrow> byte list list \<Rightarrow> nat \<Rightarrow> bool option" where
  "addr_eq sz addr addrs i =
     (if sz \<le> length addr \<and> i < length addrs then Some (take sz addr = addrs ! i) else None)"

text \<open>The search loop shared by the lookup and by clearing: the first used entry with the address.\<close>

fun find_used :: "nat \<Rightarrow> byte list \<Rightarrow> half \<Rightarrow> nat list \<Rightarrow> nat option option" where
  "find_used sz addr (addrs, msk) [] = Some None"
| "find_used sz addr (addrs, msk) (i # is) = do {
     used \<leftarrow> BIT_IST msk i;
     same \<leftarrow> (if used then addr_eq sz addr addrs i else Some False);
     if same then Some (Some i) else find_used sz addr (addrs, msk) is
   }"

text \<open>The loop of the insertion: the address is found, or the first free entry is recorded.\<close>

fun find_or_empty :: "nat \<Rightarrow> byte list \<Rightarrow> half \<Rightarrow> nat list \<Rightarrow> nat option \<Rightarrow> (bool \<times> nat option) option" where
  "find_or_empty sz addr (addrs, msk) [] first_empty = Some (False, first_empty)"
| "find_or_empty sz addr (addrs, msk) (i # is) first_empty = do {
     used \<leftarrow> BIT_IST msk i;
     if \<not> used
     then find_or_empty sz addr (addrs, msk) is (if first_empty = None then Some i else first_empty)
     else do {
       same \<leftarrow> addr_eq sz addr addrs i;
       if same then Some (True, first_empty) else find_or_empty sz addr (addrs, msk) is first_empty
     }
   }"

definition half_mem :: "nat \<Rightarrow> byte list \<Rightarrow> half \<Rightarrow> bool option" where
  "half_mem sz addr h = map_option (\<lambda>r. r \<noteq> None) (find_used sz addr h [0..<length (fst h)])"

definition half_add :: "nat \<Rightarrow> byte list \<Rightarrow> half \<Rightarrow> (half \<times> esp_err_t) option" where
  "half_add sz addr h = do {
     (found, first_empty) \<leftarrow> find_or_empty sz addr h [0..<length (fst h)] None;
     if found then Some (h, ESP_OK)
     else case first_empty of
            None \<Rightarrow> Some (h, ESP_FAIL)
          | Some i \<Rightarrow> do {
              assert_that (sz \<le> length addr \<and> i < length (fst h));
              msk \<leftarrow> BIT_SET (snd h) i;
              Some (((fst h)[i := take sz addr], msk), ESP_OK)
            }
   }"

definition half_clear :: "nat \<Rightarrow> byte list \<Rightarrow> half \<Rightarrow> (half \<times> esp_err_t) option" where
  "half_clear sz addr h = do {
     r \<leftarrow> find_used sz addr h [0..<length (fst h)];
     case r of
       None \<Rightarrow> Some (h, ESP_FAIL)
     | Some i \<Rightarrow> do {
         msk \<leftarrow> BIT_CLR (snd h) i;
         Some ((fst h, msk), ESP_OK)
       }
   }"

definition half_reset :: "half \<Rightarrow> half" where
  "half_reset h = (fst h, replicate (length (snd h)) 0)"

section \<open>The table\<close>

record pending_table =
  short_addr :: "byte list list"
  ext_addr :: "byte list list"
  short_addr_mask :: "byte list"
  ext_addr_mask :: "byte list"

definition half_of :: "bool \<Rightarrow> pending_table \<Rightarrow> half" where
  "half_of is_short t = (if is_short then (short_addr t, short_addr_mask t) else (ext_addr t, ext_addr_mask t))"

definition set_half :: "bool \<Rightarrow> half \<Rightarrow> pending_table \<Rightarrow> pending_table" where
  "set_half is_short h t =
     (if is_short then t\<lparr>short_addr := fst h, short_addr_mask := snd h\<rparr>
      else t\<lparr>ext_addr := fst h, ext_addr_mask := snd h\<rparr>)"

definition addr_bytes :: "bool \<Rightarrow> nat" where
  "addr_bytes is_short = unat (if is_short then IEEE802154_FRAME_SHORT_ADDR_SIZE else IEEE802154_FRAME_EXT_ADDR_SIZE)"

definition ieee802154_addr_in_pending_table :: "byte list \<Rightarrow> bool \<Rightarrow> pending_table \<Rightarrow> bool option" where
  "ieee802154_addr_in_pending_table addr is_short t = half_mem (addr_bytes is_short) addr (half_of is_short t)"

definition ieee802154_add_pending_addr :: "byte list \<Rightarrow> bool \<Rightarrow> pending_table \<Rightarrow> (pending_table \<times> esp_err_t) option" where
  "ieee802154_add_pending_addr addr is_short t =
     map_option (\<lambda>(h, err). (set_half is_short h t, err))
       (half_add (addr_bytes is_short) addr (half_of is_short t))"

definition ieee802154_clear_pending_addr :: "byte list \<Rightarrow> bool \<Rightarrow> pending_table \<Rightarrow> (pending_table \<times> esp_err_t) option" where
  "ieee802154_clear_pending_addr addr is_short t =
     map_option (\<lambda>(h, err). (set_half is_short h t, err))
       (half_clear (addr_bytes is_short) addr (half_of is_short t))"

definition ieee802154_reset_pending_table :: "bool \<Rightarrow> pending_table \<Rightarrow> pending_table" where
  "ieee802154_reset_pending_table is_short t = set_half is_short (half_reset (half_of is_short t)) t"

section \<open>The pending bit\<close>

datatype ieee802154_ll_pending_mode_t =
    IEEE802154_AUTO_PENDING_DISABLE
  | IEEE802154_AUTO_PENDING_ENABLE
  | IEEE802154_AUTO_PENDING_ENHANCED
  | IEEE802154_AUTO_PENDING_ZIGBEE

text \<open>The address buffer starts as zeros and receives what the parser copies.\<close>

definition addr_buffer :: "byte list option \<Rightarrow> byte list" where
  "addr_buffer copied =
     (case copied of None \<Rightarrow> replicate 8 0 | Some a \<Rightarrow> a @ replicate (8 - length a) 0)"

text \<open>The result and the value written to the hardware, if any.\<close>

definition ieee802154_ack_config_pending_bit ::
  "ieee802154_ll_pending_mode_t \<Rightarrow> pending_table \<Rightarrow> byte list \<Rightarrow> (bool \<times> bool option) option" where
  "ieee802154_ack_config_pending_bit pending_mode t frame = do {
     version \<leftarrow> ieee802154_frame_get_version frame;
     let set_to_hw = (version \<le> IEEE802154_FRAME_VERSION_1);
     pending_bit \<leftarrow>
       (case pending_mode of
          IEEE802154_AUTO_PENDING_DISABLE \<Rightarrow> Some True
        | IEEE802154_AUTO_PENDING_ZIGBEE \<Rightarrow> do {
            (src_mode, copied) \<leftarrow> ieee802154_frame_get_src_addr frame;
            hit \<leftarrow> (if src_mode = IEEE802154_FRAME_SRC_MODE_SHORT
                    then ieee802154_addr_in_pending_table (addr_buffer copied) True t else Some False);
            Some (\<not> hit)
          }
        | _ \<Rightarrow> do {
            (src_mode, copied) \<leftarrow> ieee802154_frame_get_src_addr frame;
            if src_mode = IEEE802154_FRAME_SRC_MODE_SHORT \<or> src_mode = IEEE802154_FRAME_SRC_MODE_EXT
            then ieee802154_addr_in_pending_table (addr_buffer copied)
                   (src_mode = IEEE802154_FRAME_SRC_MODE_SHORT) t
            else Some False
          });
     Some (pending_bit, if set_to_hw then Some pending_bit else None)
   }"

end
