(* ===== verification/Ieee_Table.thy ===== *)
theory Ieee_Table
  imports Ieee_Ack
begin

text \<open>
  The pending table as a bounded set of addresses: the interface, what any sequence of updates
  does over it, and both halves of the table as its providers.
\<close>

section \<open>The interface\<close>

datatype 'a set_op = AddAddr 'a | ClearAddr 'a | ResetAddrs

fun set_spec :: "nat \<Rightarrow> 'a set_op list \<Rightarrow> 'a set \<Rightarrow> 'a set" where
  "set_spec cap [] S = S"
| "set_spec cap (AddAddr a # os) S =
     set_spec cap os (if a \<in> S \<or> card S < cap then insert a S else S)"
| "set_spec cap (ClearAddr a # os) S = set_spec cap os (S - {a})"
| "set_spec cap (ResetAddrs # os) S = set_spec cap os {}"

fun op_addr_ok :: "('a \<Rightarrow> bool) \<Rightarrow> 'a set_op \<Rightarrow> bool" where
  "op_addr_ok ok (AddAddr a) = ok a"
| "op_addr_ok ok (ClearAddr a) = ok a"
| "op_addr_ok ok ResetAddrs = True"

fun run_set_ops ::
  "('a \<Rightarrow> 't \<Rightarrow> ('t \<times> esp_err_t) option) \<Rightarrow> ('a \<Rightarrow> 't \<Rightarrow> ('t \<times> esp_err_t) option) \<Rightarrow> ('t \<Rightarrow> 't)
     \<Rightarrow> 'a set_op list \<Rightarrow> 't \<Rightarrow> 't option" where
  "run_set_ops add clear reset [] t = Some t"
| "run_set_ops add clear reset (AddAddr a # os) t = do { (t1, e) \<leftarrow> add a t; run_set_ops add clear reset os t1 }"
| "run_set_ops add clear reset (ClearAddr a # os) t = do { (t1, e) \<leftarrow> clear a t; run_set_ops add clear reset os t1 }"
| "run_set_ops add clear reset (ResetAddrs # os) t = run_set_ops add clear reset os (reset t)"

locale address_set =
  fixes mem :: "'a \<Rightarrow> 't \<Rightarrow> bool option"
    and add :: "'a \<Rightarrow> 't \<Rightarrow> ('t \<times> esp_err_t) option"
    and clear :: "'a \<Rightarrow> 't \<Rightarrow> ('t \<times> esp_err_t) option"
    and reset :: "'t \<Rightarrow> 't"
    and inv :: "'t \<Rightarrow> bool"
    and elems :: "'t \<Rightarrow> 'a set"
    and capacity :: "'t \<Rightarrow> nat"
    and ok :: "'a \<Rightarrow> bool"
  assumes mem_law: "inv t \<Longrightarrow> ok a \<Longrightarrow> mem a t = Some (a \<in> elems t)"
    and add_law: "inv t \<Longrightarrow> ok a \<Longrightarrow> \<exists>t' e. add a t = Some (t', e) \<and> inv t' \<and> capacity t' = capacity t \<and>
      (e = ESP_OK \<longleftrightarrow> a \<in> elems t \<or> card (elems t) < capacity t) \<and>
      elems t' = (if a \<in> elems t \<or> card (elems t) < capacity t then insert a (elems t) else elems t)"
    and clear_law: "inv t \<Longrightarrow> ok a \<Longrightarrow> \<exists>t' e. clear a t = Some (t', e) \<and> inv t' \<and> capacity t' = capacity t \<and>
      (e = ESP_OK \<longleftrightarrow> a \<in> elems t) \<and> elems t' = elems t - {a}"
    and reset_law: "inv t \<Longrightarrow> inv (reset t) \<and> capacity (reset t) = capacity t \<and> elems (reset t) = {}"
begin

lemma run_set_ops_spec:
  "inv t \<Longrightarrow> \<forall>x \<in> set os. op_addr_ok ok x \<Longrightarrow>
     \<exists>t'. run_set_ops add clear reset os t = Some t' \<and> inv t' \<and> capacity t' = capacity t \<and>
       elems t' = set_spec (capacity t) os (elems t)"
proof (induction os arbitrary: t)
  case Nil
  then show ?case by simp
next
  case (Cons x os)
  have rest: "\<forall>y \<in> set os. op_addr_ok ok y" using Cons.prems(2) by simp
  show ?case
  proof (cases x)
    case (AddAddr a)
    then obtain t1 e where t1: "add a t = Some (t1, e)" "inv t1" "capacity t1 = capacity t"
      "elems t1 = (if a \<in> elems t \<or> card (elems t) < capacity t then insert a (elems t) else elems t)"
      using add_law [OF Cons.prems(1), of a] Cons.prems(2) by auto
    then show ?thesis using Cons.IH [OF t1(2) rest] AddAddr by simp
  next
    case (ClearAddr a)
    then obtain t1 e where t1: "clear a t = Some (t1, e)" "inv t1" "capacity t1 = capacity t" "elems t1 = elems t - {a}"
      using clear_law [OF Cons.prems(1), of a] Cons.prems(2) by auto
    then show ?thesis using Cons.IH [OF t1(2) rest] ClearAddr by simp
  next
    case ResetAddrs
    then show ?thesis using reset_law [OF Cons.prems(1)] Cons.IH [OF _ rest, of "reset t"] by simp
  qed
qed

end

section \<open>Masks\<close>

definition used_bit :: "byte list \<Rightarrow> nat \<Rightarrow> bool" where
  "used_bit msk i = bit (msk ! (i div 8)) (i mod 8)"

lemma BIT_IST_eq: "i < 8 * length msk \<Longrightarrow> BIT_IST msk i = Some (used_bit msk i)"
proof -
  assume "i < 8 * length msk"
  then have "i div 8 < length msk" by (simp add: div_less_iff_less_mult mult.commute)
  moreover have "w AND push_bit k 1 = 0 \<longleftrightarrow> \<not> bit w k" for w :: byte and k
    by (simp add: push_bit_eq_mult and_exp_eq_0_iff_not_bit)
  ultimately show ?thesis
    by (simp add: BIT_IST_def used_bit_def IEEE802154_PENDING_TABLE_MASK_BITS_def Let_def)
qed

lemma div_mod_eq_8: "i = j \<longleftrightarrow> i div 8 = j div 8 \<and> i mod 8 = (j mod 8 :: nat)"
  by (metis div_mult_mod_eq)

lemma BIT_SET_eq:
  assumes "p < 8 * length msk"
  shows "\<exists>msk'. BIT_SET msk p = Some msk' \<and> length msk' = length msk \<and>
    (\<forall>i < 8 * length msk. used_bit msk' i \<longleftrightarrow> i = p \<or> used_bit msk i)"
proof -
  have p: "p div 8 < length msk" using assms by (simp add: div_less_iff_less_mult mult.commute)
  have b: "bit (w OR 2 ^ (p mod 8)) (i mod 8) \<longleftrightarrow> i mod 8 = p mod 8 \<or> bit w (i mod 8)" for w :: byte and i
    by (auto simp: bit_simps)
  have "used_bit (msk[p div 8 := msk ! (p div 8) OR push_bit (p mod 8) 1]) i \<longleftrightarrow> i = p \<or> used_bit msk i" for i
    using p unfolding div_mod_eq_8 [of i p] by (cases "i div 8 = p div 8") (auto simp: used_bit_def b)
  then show ?thesis using p by (simp add: BIT_SET_def IEEE802154_PENDING_TABLE_MASK_BITS_def Let_def)
qed

lemma BIT_CLR_eq:
  assumes "p < 8 * length msk"
  shows "\<exists>msk'. BIT_CLR msk p = Some msk' \<and> length msk' = length msk \<and>
    (\<forall>i < 8 * length msk. used_bit msk' i \<longleftrightarrow> i \<noteq> p \<and> used_bit msk i)"
proof -
  have p: "p div 8 < length msk" using assms by (simp add: div_less_iff_less_mult mult.commute)
  have b: "bit (w AND NOT (2 ^ (p mod 8))) (i mod 8) \<longleftrightarrow> i mod 8 \<noteq> p mod 8 \<and> bit w (i mod 8)" for w :: byte and i
    by (auto simp: bit_simps)
  have "used_bit (msk[p div 8 := msk ! (p div 8) AND NOT (push_bit (p mod 8) 1)]) i \<longleftrightarrow> i \<noteq> p \<and> used_bit msk i" for i
    using p unfolding div_mod_eq_8 [of i p] by (cases "i div 8 = p div 8") (auto simp: used_bit_def b)
  then show ?thesis using p by (simp add: BIT_CLR_def IEEE802154_PENDING_TABLE_MASK_BITS_def Let_def)
qed

section \<open>A half of the table\<close>

definition half_used :: "half \<Rightarrow> nat set" where
  "half_used h = {i. i < length (fst h) \<and> used_bit (snd h) i}"

definition half_elems :: "half \<Rightarrow> byte list set" where
  "half_elems h = (\<lambda>i. fst h ! i) ` half_used h"

definition half_inv :: "nat \<Rightarrow> half \<Rightarrow> bool" where
  "half_inv sz h \<longleftrightarrow> length (fst h) \<le> 8 * length (snd h) \<and> inj_on (\<lambda>i. fst h ! i) (half_used h)"

lemma half_elemsI: "i \<in> half_used h \<Longrightarrow> fst h ! i = a \<Longrightarrow> a \<in> half_elems h"
  by (auto simp: half_elems_def)

lemma finite_half_used [simp]: "finite (half_used h)"
  by (simp add: half_used_def)

lemma card_half_elems: "half_inv sz h \<Longrightarrow> card (half_elems h) = card (half_used h)"
  by (simp add: half_elems_def half_inv_def card_image)

lemma find_used_eq:
  assumes "length as \<le> 8 * length msk" "sz \<le> length addr"
  shows "\<forall>i \<in> set is. i < length as \<Longrightarrow>
    find_used sz addr (as, msk) is = Some (List.find (\<lambda>i. used_bit msk i \<and> as ! i = take sz addr) is)"
proof (induction "is")
  case (Cons i "is")
  then have "BIT_IST msk i = Some (used_bit msk i)" using assms by (intro BIT_IST_eq) auto
  then show ?case using Cons assms by (auto simp: addr_eq_def)
qed simp

lemma find_used_cases:
  assumes inv: "half_inv sz h" and len: "sz \<le> length addr"
  shows "(take sz addr \<notin> half_elems h \<and> find_used sz addr h [0..<length (fst h)] = Some None) \<or>
    (\<exists>i \<in> half_used h. fst h ! i = take sz addr \<and> find_used sz addr h [0..<length (fst h)] = Some (Some i))"
proof -
  obtain as msk where h: "h = (as, msk)" by (cases h)
  let ?P = "\<lambda>i. used_bit msk i \<and> as ! i = take sz addr"
  have f: "find_used sz addr h [0..<length (fst h)] = Some (List.find ?P [0..<length as])"
    using find_used_eq [of as msk sz addr "[0..<length as]"] inv len by (simp add: h half_inv_def)
  show ?thesis
  proof (cases "List.find ?P [0..<length as]")
    case None
    then have "take sz addr \<notin> half_elems h"
      by (auto simp: find_None_iff half_elems_def half_used_def h)
    then show ?thesis using f None by simp
  next
    case (Some i)
    then have "i < length as" "?P i" by (auto simp: find_Some_iff)
    then show ?thesis using f Some by (auto simp: half_used_def h)
  qed
qed

lemma find_or_empty_eq:
  assumes "length as \<le> 8 * length msk" "sz \<le> length addr"
  shows "\<forall>i \<in> set is. i < length as \<Longrightarrow>
    \<exists>fe'. find_or_empty sz addr (as, msk) is fe =
        Some (\<exists>i \<in> set is. used_bit msk i \<and> as ! i = take sz addr, fe') \<and>
      ((\<exists>i \<in> set is. used_bit msk i \<and> as ! i = take sz addr) \<or>
       fe' = (if fe = None then List.find (\<lambda>i. \<not> used_bit msk i) is else fe))"
proof (induction "is" arbitrary: fe)
  case (Cons i "is")
  then have b: "BIT_IST msk i = Some (used_bit msk i)" "i < length as" using assms by (auto intro!: BIT_IST_eq)
  show ?case
  proof (cases "used_bit msk i \<and> as ! i = take sz addr")
    case True
    then show ?thesis using b assms(2) by (simp add: addr_eq_def)
  next
    case False
    have ex: "(\<exists>j \<in> set (i # is). used_bit msk j \<and> as ! j = take sz addr) =
        (\<exists>j \<in> set is. used_bit msk j \<and> as ! j = take sz addr)" using False by auto
    show ?thesis
      unfolding ex using b assms(2) False
        Cons.IH [of "if used_bit msk i then fe else if fe = None then Some i else fe"] Cons.prems
      by (cases "used_bit msk i") (auto simp: addr_eq_def)
  qed
qed simp

lemma half_mem_law:
  "half_inv sz h \<Longrightarrow> sz \<le> length addr \<Longrightarrow> half_mem sz addr h = Some (take sz addr \<in> half_elems h)"
  using find_used_cases [of sz h addr] by (auto simp: half_mem_def intro: half_elemsI)

lemma half_clear_law:
  assumes inv: "half_inv sz h" and len: "sz \<le> length addr"
  shows "\<exists>h' e. half_clear sz addr h = Some (h', e) \<and> half_inv sz h' \<and> length (fst h') = length (fst h) \<and>
    (e = ESP_OK \<longleftrightarrow> take sz addr \<in> half_elems h) \<and> half_elems h' = half_elems h - {take sz addr}"
  using find_used_cases [OF inv len]
proof (elim disjE bexE conjE)
  assume "take sz addr \<notin> half_elems h" "find_used sz addr h [0..<length (fst h)] = Some None"
  then show ?thesis using inv by (simp add: half_clear_def)
next
  fix i assume i: "i \<in> half_used h" "fst h ! i = take sz addr"
    "find_used sz addr h [0..<length (fst h)] = Some (Some i)"
  have "i < 8 * length (snd h)" using i(1) inv by (simp add: half_used_def half_inv_def)
  then obtain msk' where m: "BIT_CLR (snd h) i = Some msk'" "length msk' = length (snd h)"
    "\<forall>j < 8 * length (snd h). used_bit msk' j \<longleftrightarrow> j \<noteq> i \<and> used_bit (snd h) j"
    using BIT_CLR_eq by blast
  let ?h = "(fst h, msk')"
  have u: "half_used ?h = half_used h - {i}" using m(3) inv by (auto simp: half_used_def half_inv_def)
  have inj: "inj_on (\<lambda>i. fst h ! i) (half_used h)" using inv by (simp add: half_inv_def)
  have "half_elems ?h = half_elems h - {take sz addr}"
    unfolding half_elems_def u using inj_on_image_set_diff [OF inj, of "half_used h" "{i}"] i(1,2) by simp
  moreover have "half_inv sz ?h" using inv m(2) inj_on_diff [OF inj] by (simp add: half_inv_def u)
  moreover have "take sz addr \<in> half_elems h" by (rule half_elemsI [OF i(1,2)])
  ultimately show ?thesis using i(3) m(1) by (simp add: half_clear_def)
qed

lemma half_add_law:
  assumes inv: "half_inv sz h" and len: "sz \<le> length addr"
  shows "\<exists>h' e. half_add sz addr h = Some (h', e) \<and> half_inv sz h' \<and> length (fst h') = length (fst h) \<and>
    (e = ESP_OK \<longleftrightarrow> take sz addr \<in> half_elems h \<or> card (half_elems h) < length (fst h)) \<and>
    half_elems h' = (if take sz addr \<in> half_elems h \<or> card (half_elems h) < length (fst h)
                     then insert (take sz addr) (half_elems h) else half_elems h)"
proof -
  obtain as msk where h: "h = (as, msk)" by (cases h)
  let ?a = "take sz addr" and ?n = "length as"
  have n: "?n \<le> 8 * length msk" using inv by (simp add: half_inv_def h)
  have el: "(\<exists>i \<in> set [0..<?n]. used_bit msk i \<and> as ! i = ?a) \<longleftrightarrow> ?a \<in> half_elems h"
    by (auto simp: half_elems_def half_used_def h image_iff)
  obtain fe where f: "find_or_empty sz addr h [0..<?n] None = Some (?a \<in> half_elems h, fe)"
    "?a \<in> half_elems h \<or> fe = List.find (\<lambda>i. \<not> used_bit msk i) [0..<?n]"
    using find_or_empty_eq [OF n len, of "[0..<?n]" None] unfolding el by (auto simp: h)
  have cu: "card (half_elems h) = card (half_used h)" by (rule card_half_elems [OF inv])
  show ?thesis
  proof (cases "?a \<in> half_elems h")
    case True
    then show ?thesis using f(1) inv by (simp add: half_add_def h insert_absorb)
  next
    case False
    show ?thesis
    proof (cases fe)
      case None
      then have "\<forall>i < ?n. used_bit msk i" using f(2) False by (auto simp: find_None_iff2)
      then have "half_used h = {..<?n}" by (auto simp: half_used_def h)
      then have "card (half_elems h) = length (fst h)" using cu by (simp add: h)
      then show ?thesis using f(1) None False inv by (simp add: half_add_def h)
    next
      case (Some i)
      then have i: "i < ?n" "\<not> used_bit msk i" using f(2) False by (auto simp: find_Some_iff2)
      then obtain msk' where m: "BIT_SET msk i = Some msk'" "length msk' = length msk"
        "\<forall>j < 8 * length msk. used_bit msk' j \<longleftrightarrow> j = i \<or> used_bit msk j"
        using BIT_SET_eq n by (meson less_le_trans)
      let ?h = "(as[i := ?a], msk')"
      have iu: "i \<notin> half_used h" using i by (simp add: half_used_def h)
      have u: "half_used ?h = insert i (half_used h)" using m(3) n i(1) by (auto simp: half_used_def h)
      have same: "as[i := ?a] ! j = as ! j" if "j \<in> half_used h" for j
        using that iu by (cases "j = i") auto
      have inj: "inj_on (\<lambda>i. as ! i) (half_used h)" using inv by (simp add: half_inv_def h)
      have im: "(\<lambda>j. as[i := ?a] ! j) ` half_used h = half_elems h"
        unfolding half_elems_def h fst_conv by (rule image_cong) (use same h in auto)
      have "inj_on (\<lambda>j. as[i := ?a] ! j) (half_used ?h)"
        unfolding u using False i(1) iu im inj_on_cong [of "half_used h" "\<lambda>j. as[i := ?a] ! j" "\<lambda>j. as ! j"] same inj
        by (simp add: inj_on_insert)
      then have "half_inv sz ?h" using n m(2) by (simp add: half_inv_def)
      moreover have "half_elems ?h = insert ?a (half_elems h)"
        using i(1) im by (simp add: half_elems_def [of ?h] u)
      moreover have "card (half_elems h) < length (fst h)"
      proof -
        have "half_used h \<subset> {..<?n}" using iu i(1) by (auto simp: half_used_def h)
        then have "card (half_used h) < card {..<?n}" by (intro psubset_card_mono) simp_all
        then show ?thesis using cu by (simp add: h)
      qed
      ultimately show ?thesis using f(1) Some False i(1) len m(1) by (simp add: half_add_def h)
    qed
  qed
qed

lemma half_reset_law:
  "half_inv sz h \<Longrightarrow> half_inv sz (half_reset h) \<and> length (fst (half_reset h)) = length (fst h) \<and> half_elems (half_reset h) = {}"
proof -
  assume inv: "half_inv sz h"
  have "half_used (half_reset h) = {}"
    using inv by (auto simp: half_used_def half_reset_def half_inv_def used_bit_def div_less_iff_less_mult mult.commute)
  then show ?thesis using inv by (simp add: half_inv_def half_elems_def) (simp add: half_reset_def)
qed

lemma half_laws:
  assumes "half_inv sz h" "length a = sz"
  shows "half_mem sz a h = Some (a \<in> half_elems h)"
    and "\<exists>h' e. half_add sz a h = Some (h', e) \<and> half_inv sz h' \<and> length (fst h') = length (fst h) \<and>
      (e = ESP_OK \<longleftrightarrow> a \<in> half_elems h \<or> card (half_elems h) < length (fst h)) \<and>
      half_elems h' = (if a \<in> half_elems h \<or> card (half_elems h) < length (fst h)
                       then insert a (half_elems h) else half_elems h)"
    and "\<exists>h' e. half_clear sz a h = Some (h', e) \<and> half_inv sz h' \<and> length (fst h') = length (fst h) \<and>
      (e = ESP_OK \<longleftrightarrow> a \<in> half_elems h) \<and> half_elems h' = half_elems h - {a}"
proof -
  have t: "take sz a = a" and l: "sz \<le> length a" using assms(2) by simp_all
  show "half_mem sz a h = Some (a \<in> half_elems h)"
    by (rule half_mem_law [OF assms(1) l, unfolded t])
  show "\<exists>h' e. half_add sz a h = Some (h', e) \<and> half_inv sz h' \<and> length (fst h') = length (fst h) \<and>
      (e = ESP_OK \<longleftrightarrow> a \<in> half_elems h \<or> card (half_elems h) < length (fst h)) \<and>
      half_elems h' = (if a \<in> half_elems h \<or> card (half_elems h) < length (fst h)
                       then insert a (half_elems h) else half_elems h)"
    by (rule half_add_law [OF assms(1) l, unfolded t])
  show "\<exists>h' e. half_clear sz a h = Some (h', e) \<and> half_inv sz h' \<and> length (fst h') = length (fst h) \<and>
      (e = ESP_OK \<longleftrightarrow> a \<in> half_elems h) \<and> half_elems h' = half_elems h - {a}"
    by (rule half_clear_law [OF assms(1) l, unfolded t])
qed

interpretation short_addrs: address_set "half_mem 2" "half_add 2" "half_clear 2" half_reset "half_inv 2" half_elems
  "\<lambda>h. length (fst h)" "\<lambda>a. length a = 2"
  by unfold_locales (rule half_laws half_reset_law; assumption)+

interpretation ext_addrs: address_set "half_mem 8" "half_add 8" "half_clear 8" half_reset "half_inv 8" half_elems
  "\<lambda>h. length (fst h)" "\<lambda>a. length a = 8"
  by unfold_locales (rule half_laws half_reset_law; assumption)+

end
