(* ===== verification/Ieee_Header.thy ===== *)
theory Ieee_Header
  imports Ieee_Frame
begin

text \<open>
  The layout of an 802.15.4 MAC header as an encoder, for the round trip with the parser, the
  table of PAN identifiers of the 2015 edition, and the loop over the header IEs.
\<close>

section \<open>Header layout\<close>

datatype mac_addr = No_Addr | Short_Addr "byte list" | Ext_Addr "byte list"

fun addr_ok :: "mac_addr \<Rightarrow> bool" where
  "addr_ok No_Addr = True"
| "addr_ok (Short_Addr a) = (length a = 2)"
| "addr_ok (Ext_Addr a) = (length a = 8)"

fun addr_octets :: "mac_addr \<Rightarrow> byte list" where
  "addr_octets No_Addr = []"
| "addr_octets (Short_Addr a) = a"
| "addr_octets (Ext_Addr a) = a"

fun dst_bits :: "mac_addr \<Rightarrow> byte" where
  "dst_bits No_Addr = 0" | "dst_bits (Short_Addr a) = 0x08" | "dst_bits (Ext_Addr a) = 0x0C"

fun src_bits :: "mac_addr \<Rightarrow> byte" where
  "src_bits No_Addr = 0" | "src_bits (Short_Addr a) = 0x80" | "src_bits (Ext_Addr a) = 0xC0"

record mac_header =
  mh_type :: byte
  mh_security :: bool
  mh_ack :: bool
  mh_comp :: bool
  mh_version :: byte
  mh_ie :: bool
  mh_seq :: "byte option"
  mh_dst_pan :: "byte list option"
  mh_dst :: mac_addr
  mh_src_pan :: "byte list option"
  mh_src :: mac_addr

text \<open>Which PAN identifiers are present: the table of the 2015 edition, row by row, and the rule
  of the earlier ones.\<close>

fun pan_ids_2015 :: "mac_addr \<Rightarrow> mac_addr \<Rightarrow> bool \<Rightarrow> bool \<times> bool" where
  "pan_ids_2015 No_Addr No_Addr cmp = (cmp, False)"
| "pan_ids_2015 (Short_Addr a) No_Addr cmp = (\<not> cmp, False)"
| "pan_ids_2015 (Ext_Addr a) No_Addr cmp = (\<not> cmp, False)"
| "pan_ids_2015 No_Addr (Short_Addr b) cmp = (False, \<not> cmp)"
| "pan_ids_2015 No_Addr (Ext_Addr b) cmp = (False, \<not> cmp)"
| "pan_ids_2015 (Ext_Addr a) (Ext_Addr b) cmp = (\<not> cmp, False)"
| "pan_ids_2015 (Short_Addr a) (Short_Addr b) cmp = (True, \<not> cmp)"
| "pan_ids_2015 (Short_Addr a) (Ext_Addr b) cmp = (True, \<not> cmp)"
| "pan_ids_2015 (Ext_Addr a) (Short_Addr b) cmp = (True, \<not> cmp)"

definition pan_ids_2006 :: "mac_addr \<Rightarrow> mac_addr \<Rightarrow> bool \<Rightarrow> bool \<times> bool" where
  "pan_ids_2006 d s cmp = (d \<noteq> No_Addr, s \<noteq> No_Addr \<and> \<not> cmp)"

definition pan_ids :: "byte \<Rightarrow> mac_addr \<Rightarrow> mac_addr \<Rightarrow> bool \<Rightarrow> bool \<times> bool" where
  "pan_ids version d s cmp =
     (if version = IEEE802154_FRAME_VERSION_2 then pan_ids_2015 d s cmp else pan_ids_2006 d s cmp)"

definition header_ok :: "mac_header \<Rightarrow> bool" where
  "header_ok h \<longleftrightarrow>
     mh_type h \<in> {0, 1, 2, 3} \<and> mh_version h \<in> {0, 0x10, 0x20} \<and>
     (mh_seq h = None \<longrightarrow> mh_version h = 0x20) \<and>
     (mh_dst_pan h \<noteq> None, mh_src_pan h \<noteq> None) = pan_ids (mh_version h) (mh_dst h) (mh_src h) (mh_comp h) \<and>
     (\<forall>p. mh_dst_pan h = Some p \<longrightarrow> length p = 2) \<and> (\<forall>p. mh_src_pan h = Some p \<longrightarrow> length p = 2) \<and>
     addr_ok (mh_dst h) \<and> addr_ok (mh_src h)"

definition fcf0 :: "mac_header \<Rightarrow> byte" where
  "fcf0 h = mh_type h OR (if mh_security h then 0x08 else 0) OR (if mh_ack h then 0x20 else 0) OR
            (if mh_comp h then 0x40 else 0)"

definition fcf1 :: "mac_header \<Rightarrow> byte" where
  "fcf1 h = (if mh_seq h = None then 0x01 else 0) OR (if mh_ie h then 0x02 else 0) OR dst_bits (mh_dst h) OR
            mh_version h OR src_bits (mh_src h)"

definition opt_list :: "'a list option \<Rightarrow> 'a list" where
  "opt_list o' = (case o' of None \<Rightarrow> [] | Some l \<Rightarrow> l)"

definition seq_list :: "mac_header \<Rightarrow> byte list" where
  "seq_list h = (case mh_seq h of None \<Rightarrow> [] | Some s \<Rightarrow> [s])"

definition header_bytes :: "byte \<Rightarrow> mac_header \<Rightarrow> byte list" where
  "header_bytes len h =
     [len, fcf0 h, fcf1 h] @ seq_list h @ opt_list (mh_dst_pan h) @ addr_octets (mh_dst h) @
     opt_list (mh_src_pan h) @ addr_octets (mh_src h)"

section \<open>The table of PAN identifiers\<close>

lemma panid_present:
  assumes "ieee802154_frame_get_version frame = Some v" "dst_addr_mode frame = Some (dst_bits d)"
    "src_addr_mode frame = Some (src_bits s)" "is_panid_compression frame = Some cmp"
  shows "is_dst_panid_present frame = Some (fst (pan_ids v d s cmp))"
    "is_src_panid_present frame = Some (snd (pan_ids v d s cmp))"
  using assms
  by (cases d; cases s; simp add: is_dst_panid_present_def is_src_panid_present_def pan_ids_def pan_ids_2006_def ieee_consts)+

section \<open>Fields of an encoded header\<close>

lemma header_frame_byte:
  "frame_byte (header_bytes len h @ rest) 0 = Some len"
  "frame_byte (header_bytes len h @ rest) 1 = Some (fcf0 h)"
  "frame_byte (header_bytes len h @ rest) 2 = Some (fcf1 h)"
  by (simp_all add: frame_byte_def header_bytes_def)

lemma fcf0_fields:
  assumes "header_ok h"
  shows "fcf0 h AND IEEE802154_FRAME_TYPE_MASK = mh_type h"
    "fcf0 h AND IEEE802154_FRAME_SECURITY_BIT \<noteq> 0 \<longleftrightarrow> mh_security h"
    "fcf0 h AND IEEE802154_FRAME_AR_BIT \<noteq> 0 \<longleftrightarrow> mh_ack h"
    "fcf0 h AND IEEE802154_FRAME_PANID_COMP_BIT \<noteq> 0 \<longleftrightarrow> mh_comp h"
  using assms
  by (simp_all add: header_ok_def fcf0_def ieee_consts; elim conjE disjE; simp)+

lemma fcf1_fields:
  assumes "header_ok h"
  shows "fcf1 h AND IEEE802154_FRAME_VERSION_MASK = mh_version h"
    "fcf1 h AND IEEE802154_FRAME_DSN_BIT \<noteq> 0 \<longleftrightarrow> mh_seq h = None"
    "fcf1 h AND IEEE802154_FRAME_IE_BIT \<noteq> 0 \<longleftrightarrow> mh_ie h"
    "fcf1 h AND IEEE802154_FRAME_DST_MODE_MASK = dst_bits (mh_dst h)"
    "fcf1 h AND IEEE802154_FRAME_SRC_MODE_MASK = src_bits (mh_src h)"
proof -
  have v: "mh_version h = 0 \<or> mh_version h = 0x10 \<or> mh_version h = 0x20" using assms by (simp add: header_ok_def)
  show "fcf1 h AND IEEE802154_FRAME_VERSION_MASK = mh_version h"
    "fcf1 h AND IEEE802154_FRAME_DSN_BIT \<noteq> 0 \<longleftrightarrow> mh_seq h = None"
    "fcf1 h AND IEEE802154_FRAME_IE_BIT \<noteq> 0 \<longleftrightarrow> mh_ie h"
    "fcf1 h AND IEEE802154_FRAME_DST_MODE_MASK = dst_bits (mh_dst h)"
    "fcf1 h AND IEEE802154_FRAME_SRC_MODE_MASK = src_bits (mh_src h)"
    using v by (cases "mh_dst h"; cases "mh_src h"; elim disjE; simp add: fcf1_def ieee_consts)+
qed

lemma header_type_ok: "header_ok h \<Longrightarrow> is_suported_frame_type (mh_type h)"
  by (auto simp: header_ok_def is_suported_frame_type_def ieee_consts)

lemma parse_fields:
  fixes len :: byte and rest :: "byte list"
  assumes ok: "header_ok h"
  defines "frame \<equiv> header_bytes len h @ rest"
  shows "ieee802154_frame_get_type frame = Some (mh_type h)"
    "ieee802154_frame_get_version frame = Some (mh_version h)"
    "is_dsn_present frame = Some (mh_seq h \<noteq> None)"
    "dst_addr_mode frame = Some (dst_bits (mh_dst h))"
    "src_addr_mode frame = Some (src_bits (mh_src h))"
    "is_panid_compression frame = Some (mh_comp h)"
    "is_security_enabled frame = Some (mh_security h)"
    "is_ie_present frame = Some (mh_ie h)"
    "ieee802154_frame_is_ack_required frame = Some (mh_ack h)"
    "is_dst_panid_present frame = Some (mh_dst_pan h \<noteq> None)"
    "is_src_panid_present frame = Some (mh_src_pan h \<noteq> None)"
proof -
  note f0 = fcf0_fields [OF ok] and f1 = fcf1_fields [OF ok]
  note fb = header_frame_byte [of len h rest, folded frame_def, unfolded One_nat_def]
  show ty: "ieee802154_frame_get_type frame = Some (mh_type h)"
    by (simp add: ieee802154_frame_get_type_def fb f0)
  show v: "ieee802154_frame_get_version frame = Some (mh_version h)"
    by (simp add: ieee802154_frame_get_version_def fb f1)
  have "mh_seq h = None \<longrightarrow> mh_version h = IEEE802154_FRAME_VERSION_2"
    using ok by (simp add: header_ok_def IEEE802154_FRAME_VERSION_2_def)
  then show "is_dsn_present frame = Some (mh_seq h \<noteq> None)"
    by (auto simp: is_dsn_present_def v frame_bit_def fb f1)
  show d: "dst_addr_mode frame = Some (dst_bits (mh_dst h))" by (simp add: dst_addr_mode_def fb f1)
  show s: "src_addr_mode frame = Some (src_bits (mh_src h))" by (simp add: src_addr_mode_def fb f1)
  show c: "is_panid_compression frame = Some (mh_comp h)" by (simp add: is_panid_compression_def frame_bit_def fb f0)
  show "is_security_enabled frame = Some (mh_security h)" by (simp add: is_security_enabled_def frame_bit_def fb f0)
  show "is_ie_present frame = Some (mh_ie h)" by (simp add: is_ie_present_def frame_bit_def fb f1)
  note sup = header_type_ok [OF ok]
  show "ieee802154_frame_is_ack_required frame = Some (mh_ack h)"
    by (simp add: ieee802154_frame_is_ack_required_def ty sup frame_bit_def fb f0)
  have "(mh_dst_pan h \<noteq> None, mh_src_pan h \<noteq> None) = pan_ids (mh_version h) (mh_dst h) (mh_src h) (mh_comp h)"
    using ok by (simp add: header_ok_def)
  then have p: "fst (pan_ids (mh_version h) (mh_dst h) (mh_src h) (mh_comp h)) = (mh_dst_pan h \<noteq> None)"
    "snd (pan_ids (mh_version h) (mh_dst h) (mh_src h) (mh_comp h)) = (mh_src_pan h \<noteq> None)"
    by (metis fst_conv, metis snd_conv)
  show "is_dst_panid_present frame = Some (mh_dst_pan h \<noteq> None)"
    "is_src_panid_present frame = Some (mh_src_pan h \<noteq> None)"
    using panid_present [OF v d s c] p by simp_all
qed

section \<open>Reading the addresses back\<close>

lemma read_at_middle: "n = length xs \<Longrightarrow> k = length ys \<Longrightarrow> read_at (xs @ ys @ zs) n k = Some ys"
  by (simp add: read_at_def)

text \<open>Lengths of the parts of a header, as the parser computes them.\<close>

lemma header_lengths:
  assumes "header_ok h"
  shows "length (seq_list h) = (if mh_seq h \<noteq> None then 1 else 0)"
    "length (opt_list (mh_dst_pan h)) = (if mh_dst_pan h \<noteq> None then 2 else 0)"
    "length (opt_list (mh_src_pan h)) = (if mh_src_pan h \<noteq> None then 2 else 0)"
    "length (addr_octets (mh_dst h)) = unat (dst_addr_skip (dst_bits (mh_dst h)))"
    "dst_addr_size (dst_bits (mh_dst h)) = Some (dst_addr_skip (dst_bits (mh_dst h)))"
    "src_addr_size (src_bits (mh_src h)) = Some (of_nat (length (addr_octets (mh_src h))))"
    "dst_addr_skip (dst_bits (mh_dst h)) \<in> {0, 2, 8}"
    "length (addr_octets (mh_src h)) \<in> {0, 2, 8}"
proof -
  have a: "addr_ok (mh_dst h)" "addr_ok (mh_src h)" using assms by (auto simp: header_ok_def)
  show "length (addr_octets (mh_dst h)) = unat (dst_addr_skip (dst_bits (mh_dst h)))"
    "dst_addr_size (dst_bits (mh_dst h)) = Some (dst_addr_skip (dst_bits (mh_dst h)))"
    "dst_addr_skip (dst_bits (mh_dst h)) \<in> {0, 2, 8}"
    using a(1) by (cases "mh_dst h"; simp add: dst_addr_skip_def dst_addr_size_def addr_mode_size_def ieee_consts)+
  show "src_addr_size (src_bits (mh_src h)) = Some (of_nat (length (addr_octets (mh_src h))))"
    "length (addr_octets (mh_src h)) \<in> {0, 2, 8}"
    using a(2) by (cases "mh_src h"; simp add: src_addr_size_def addr_mode_size_def ieee_consts)+
  show "length (seq_list h) = (if mh_seq h \<noteq> None then 1 else 0)" by (auto simp: seq_list_def)
  show "length (opt_list (mh_dst_pan h)) = (if mh_dst_pan h \<noteq> None then 2 else 0)"
    "length (opt_list (mh_src_pan h)) = (if mh_src_pan h \<noteq> None then 2 else 0)"
    using assms by (auto simp: header_ok_def opt_list_def)
qed

definition addr_start :: "mac_header \<Rightarrow> byte" where
  "addr_start h = 3 + (if mh_seq h \<noteq> None then 1 else 0)"

lemma address_offset_eq:
  assumes ok: "header_ok h"
  shows "ieee802154_frame_address_offset (header_bytes len h @ rest) = Some (addr_start h)"
  by (simp add: ieee802154_frame_address_offset_def parse_fields [OF ok] addr_start_def ieee_consts)

text \<open>The offsets of the fields after the sequence number.\<close>

lemma field_offsets:
  assumes ok: "header_ok h"
  defines "dp \<equiv> (if mh_dst_pan h \<noteq> None then 2 else 0 :: byte)"
    and "sp \<equiv> (if mh_src_pan h \<noteq> None then 2 else 0 :: byte)"
    and "dl \<equiv> dst_addr_skip (dst_bits (mh_dst h))"
  shows "unat (addr_start h) = 3 + length (seq_list h)"
    "unat (addr_start h + dp) = 3 + length (seq_list h) + length (opt_list (mh_dst_pan h))"
    "unat (addr_start h + dp + dl) =
       3 + length (seq_list h) + length (opt_list (mh_dst_pan h)) + length (addr_octets (mh_dst h))"
    "unat (addr_start h + dp + dl + sp) =
       3 + length (seq_list h) + length (opt_list (mh_dst_pan h)) + length (addr_octets (mh_dst h)) +
       length (opt_list (mh_src_pan h))"
proof -
  note l = header_lengths [OF ok]
  have a: "addr_start h = 3 \<and> length (seq_list h) = 0 \<or> addr_start h = 4 \<and> length (seq_list h) = 1"
    using l(1) by (auto simp: addr_start_def)
  have b: "dp = 0 \<and> length (opt_list (mh_dst_pan h)) = 0 \<or> dp = 2 \<and> length (opt_list (mh_dst_pan h)) = 2"
    using l(2) by (auto simp: dp_def)
  have c: "sp = 0 \<and> length (opt_list (mh_src_pan h)) = 0 \<or> sp = 2 \<and> length (opt_list (mh_src_pan h)) = 2"
    using l(3) by (auto simp: sp_def)
  have d: "dl = 0 \<and> length (addr_octets (mh_dst h)) = 0 \<or> dl = 2 \<and> length (addr_octets (mh_dst h)) = 2 \<or>
      dl = 8 \<and> length (addr_octets (mh_dst h)) = 8"
    using l(4,7) by (auto simp: dl_def)
  show "unat (addr_start h) = 3 + length (seq_list h)" using a by auto
  show "unat (addr_start h + dp) = 3 + length (seq_list h) + length (opt_list (mh_dst_pan h))"
    using a b by auto
  show "unat (addr_start h + dp + dl) =
       3 + length (seq_list h) + length (opt_list (mh_dst_pan h)) + length (addr_octets (mh_dst h))"
    using a b d by auto
  show "unat (addr_start h + dp + dl + sp) =
       3 + length (seq_list h) + length (opt_list (mh_dst_pan h)) + length (addr_octets (mh_dst h)) +
       length (opt_list (mh_src_pan h))"
    using a b c d by auto
qed

definition addr_result :: "byte \<Rightarrow> mac_addr \<Rightarrow> byte \<times> byte list option" where
  "addr_result mode a = (mode, case a of No_Addr \<Rightarrow> None | _ \<Rightarrow> Some (addr_octets a))"

definition pan_result :: "byte list option \<Rightarrow> esp_err_t \<times> byte list option" where
  "pan_result p = (if p = None then ESP_FAIL else ESP_OK, p)"

lemma get_dst_addr_eq:
  assumes ok: "header_ok h"
  shows "ieee802154_frame_get_dst_addr (header_bytes len h @ rest) =
    Some (addr_result (dst_bits (mh_dst h)) (mh_dst h))"
proof -
  let ?pre = "[len, fcf0 h, fcf1 h] @ seq_list h @ opt_list (mh_dst_pan h)"
  let ?post = "opt_list (mh_src_pan h) @ addr_octets (mh_src h) @ rest"
  let ?frame = "header_bytes len h @ rest"
  have f: "?frame = ?pre @ addr_octets (mh_dst h) @ ?post" by (simp add: header_bytes_def)
  note pf = parse_fields [OF ok, of len rest] and fo = field_offsets(2) [OF ok]
  have r: "n = 3 + length (seq_list h) + length (opt_list (mh_dst_pan h)) \<Longrightarrow> k = length (addr_octets (mh_dst h)) \<Longrightarrow>
      read_at ?frame n k = Some (addr_octets (mh_dst h))" for n k
    unfolding f by (rule read_at_middle) simp_all
  have a: "addr_ok (mh_dst h)" using ok by (simp add: header_ok_def)
  have m: "mh_dst h \<noteq> No_Addr \<Longrightarrow> unat (if dst_bits (mh_dst h) = IEEE802154_FRAME_DST_MODE_SHORT
      then IEEE802154_FRAME_SHORT_ADDR_SIZE else IEEE802154_FRAME_EXT_ADDR_SIZE) = length (addr_octets (mh_dst h))"
    using a by (cases "mh_dst h") (simp_all add: ieee_consts)
  have mode: "dst_bits (mh_dst h) = IEEE802154_FRAME_DST_MODE_SHORT \<or> dst_bits (mh_dst h) = IEEE802154_FRAME_DST_MODE_EXT
      \<longleftrightarrow> mh_dst h \<noteq> No_Addr"
    by (cases "mh_dst h") (simp_all add: ieee_consts)
  show ?thesis
  proof (cases "mh_dst h = No_Addr")
    case True
    then show ?thesis
      using mode by (simp add: ieee802154_frame_get_dst_addr_def pf header_type_ok [OF ok] address_offset_eq [OF ok] addr_result_def)
  next
    case False
    have rd: "read_at ?frame
        (unat (addr_start h + (if mh_dst_pan h \<noteq> None then IEEE802154_FRAME_PANID_SIZE else 0)))
        (unat (if dst_bits (mh_dst h) = IEEE802154_FRAME_DST_MODE_SHORT
          then IEEE802154_FRAME_SHORT_ADDR_SIZE else IEEE802154_FRAME_EXT_ADDR_SIZE)) = Some (addr_octets (mh_dst h))"
      by (rule r [OF _ m [OF False]]) (use fo in \<open>simp only: IEEE802154_FRAME_PANID_SIZE_def\<close>)
    have "addr_result (dst_bits (mh_dst h)) (mh_dst h) = (dst_bits (mh_dst h), Some (addr_octets (mh_dst h)))"
      using False by (cases "mh_dst h") (simp_all add: addr_result_def)
    then show ?thesis
      using rd mode False unfolding ieee802154_frame_get_dst_addr_def pf(1,4,10) address_offset_eq [OF ok]
        bind.bind_lunit Let_def by (simp add: header_type_ok [OF ok])
  qed
qed

lemma get_src_addr_eq:
  assumes ok: "header_ok h"
  shows "ieee802154_frame_get_src_addr (header_bytes len h @ rest) =
    Some (addr_result (src_bits (mh_src h)) (mh_src h))"
proof -
  let ?pre = "[len, fcf0 h, fcf1 h] @ seq_list h @ opt_list (mh_dst_pan h) @ addr_octets (mh_dst h) @ opt_list (mh_src_pan h)"
  let ?frame = "header_bytes len h @ rest"
  have f: "?frame = ?pre @ addr_octets (mh_src h) @ rest" by (simp add: header_bytes_def)
  note pf = parse_fields [OF ok, of len rest] and fo = field_offsets(4) [OF ok]
  have a: "addr_ok (mh_src h)" using ok by (simp add: header_ok_def)
  have m: "mh_src h \<noteq> No_Addr \<Longrightarrow> unat (if src_bits (mh_src h) = IEEE802154_FRAME_SRC_MODE_SHORT
      then IEEE802154_FRAME_SHORT_ADDR_SIZE else IEEE802154_FRAME_EXT_ADDR_SIZE) = length (addr_octets (mh_src h))"
    using a by (cases "mh_src h") (simp_all add: ieee_consts)
  have mode: "src_bits (mh_src h) = IEEE802154_FRAME_SRC_MODE_SHORT \<or> src_bits (mh_src h) = IEEE802154_FRAME_SRC_MODE_EXT
      \<longleftrightarrow> mh_src h \<noteq> No_Addr"
    by (cases "mh_src h") (simp_all add: ieee_consts)
  show ?thesis
  proof (cases "mh_src h = No_Addr")
    case True
    then show ?thesis
      using mode by (simp add: ieee802154_frame_get_src_addr_def pf header_type_ok [OF ok] address_offset_eq [OF ok] addr_result_def)
  next
    case False
    have rd: "read_at ?frame
        (unat (addr_start h + (if mh_dst_pan h \<noteq> None then IEEE802154_FRAME_PANID_SIZE else 0) +
          dst_addr_skip (dst_bits (mh_dst h)) + (if mh_src_pan h \<noteq> None then IEEE802154_FRAME_PANID_SIZE else 0)))
        (unat (if src_bits (mh_src h) = IEEE802154_FRAME_SRC_MODE_SHORT
          then IEEE802154_FRAME_SHORT_ADDR_SIZE else IEEE802154_FRAME_EXT_ADDR_SIZE)) = Some (addr_octets (mh_src h))"
      unfolding f
    proof (rule read_at_middle [OF _ m [OF False]])
      show "unat (addr_start h + (if mh_dst_pan h \<noteq> None then IEEE802154_FRAME_PANID_SIZE else 0) +
          dst_addr_skip (dst_bits (mh_dst h)) + (if mh_src_pan h \<noteq> None then IEEE802154_FRAME_PANID_SIZE else 0)) = length ?pre"
        unfolding IEEE802154_FRAME_PANID_SIZE_def fo by simp
    qed
    have "addr_result (src_bits (mh_src h)) (mh_src h) = (src_bits (mh_src h), Some (addr_octets (mh_src h)))"
      using False by (cases "mh_src h") (simp_all add: addr_result_def)
    then show ?thesis
      using rd mode False unfolding ieee802154_frame_get_src_addr_def pf(1,4,5,10,11) address_offset_eq [OF ok]
        bind.bind_lunit Let_def by (simp add: header_type_ok [OF ok])
  qed
qed

lemma get_dest_panid_eq:
  assumes ok: "header_ok h"
  shows "ieee802154_frame_get_dest_panid (header_bytes len h @ rest) = Some (pan_result (mh_dst_pan h))"
proof (cases "mh_dst_pan h")
  case None
  then show ?thesis
    by (simp add: ieee802154_frame_get_dest_panid_def parse_fields [OF ok] address_offset_eq [OF ok] pan_result_def)
next
  case (Some p)
  let ?pre = "[len, fcf0 h, fcf1 h] @ seq_list h"
  have lp: "length p = 2" using ok Some by (simp add: header_ok_def)
  have f: "header_bytes len h @ rest = ?pre @ p @ (addr_octets (mh_dst h) @ opt_list (mh_src_pan h) @ addr_octets (mh_src h) @ rest)"
    using Some by (simp add: header_bytes_def opt_list_def)
  have "read_at (header_bytes len h @ rest) (unat (addr_start h)) 2 = Some p"
    unfolding f by (rule read_at_middle) (simp_all add: field_offsets(1) [OF ok] lp)
  then show ?thesis
    using Some by (simp add: ieee802154_frame_get_dest_panid_def parse_fields [OF ok] address_offset_eq [OF ok] pan_result_def
        IEEE802154_FRAME_PANID_SIZE_def)
qed

lemma get_src_panid_eq:
  assumes ok: "header_ok h"
  shows "ieee802154_frame_get_src_panid (header_bytes len h @ rest) = Some (pan_result (mh_src_pan h))"
proof (cases "mh_src_pan h")
  case None
  then show ?thesis
    by (simp add: ieee802154_frame_get_src_panid_def parse_fields [OF ok] address_offset_eq [OF ok] pan_result_def)
next
  case (Some p)
  let ?pre = "[len, fcf0 h, fcf1 h] @ seq_list h @ opt_list (mh_dst_pan h) @ addr_octets (mh_dst h)"
  have lp: "length p = 2" using ok Some by (simp add: header_ok_def)
  have f: "header_bytes len h @ rest = ?pre @ p @ (addr_octets (mh_src h) @ rest)"
    using Some by (simp add: header_bytes_def opt_list_def)
  have "read_at (header_bytes len h @ rest) (unat (addr_start h + (if mh_dst_pan h \<noteq> None then IEEE802154_FRAME_PANID_SIZE else 0) +
      dst_addr_skip (dst_bits (mh_dst h)))) 2 = Some p"
    unfolding f
  proof (rule read_at_middle)
    show "unat (addr_start h + (if mh_dst_pan h \<noteq> None then IEEE802154_FRAME_PANID_SIZE else 0) +
        dst_addr_skip (dst_bits (mh_dst h))) = length ?pre"
      unfolding IEEE802154_FRAME_PANID_SIZE_def field_offsets(3) [OF ok] by simp
  qed (simp add: lp)
  then show ?thesis
    using Some unfolding ieee802154_frame_get_src_panid_def parse_fields(4,10,11) [OF ok] address_offset_eq [OF ok]
      bind.bind_lunit by (simp add: pan_result_def IEEE802154_FRAME_PANID_SIZE_def)
qed

lemma security_header_offset_eq:
  assumes ok: "header_ok h"
  shows "ieee802154_frame_security_header_offset (header_bytes len h @ rest) = Some (of_nat (length (header_bytes len h)))"
proof -
  note pf = parse_fields [OF ok, of len rest] and l = header_lengths [OF ok]
  let ?dp = "length (opt_list (mh_dst_pan h))" and ?sp = "length (opt_list (mh_src_pan h))"
  let ?d = "length (addr_octets (mh_dst h))" and ?s = "length (addr_octets (mh_src h))" and ?q = "length (seq_list h)"
  have dl: "dst_addr_skip (dst_bits (mh_dst h)) = of_nat ?d" by (simp add: l(4))
  have size: "ieee802154_frame_address_size (header_bytes len h @ rest) = Some (of_nat (?dp + ?d + ?sp + ?s))"
    unfolding ieee802154_frame_address_size_def pf(4,5,10,11) bind.bind_lunit l(5,6) option.case dl
    by (simp add: l(2,3) IEEE802154_FRAME_PANID_SIZE_def)
  have bound: "?q \<le> 1" "?dp \<le> 2" "?sp \<le> 2" "?d \<le> 8" "?s \<le> 8"
    using l(1-3,7,8) by (auto simp: l(4) split: if_splits)
  have "unat (of_nat (?dp + ?d + ?sp + ?s) :: byte) = ?dp + ?d + ?sp + ?s"
    using bound by (simp add: unat_of_nat del: of_nat_add)
  then have ns: "(of_nat (?dp + ?d + ?sp + ?s) :: byte) \<noteq> IEEE802154_FRAME_INVALID_OFFSET"
    using bound by (auto simp: IEEE802154_FRAME_INVALID_OFFSET_def)
  have st: "addr_start h = of_nat (3 + ?q)" by (simp add: addr_start_def l(1))
  have no: "addr_start h \<noteq> IEEE802154_FRAME_INVALID_OFFSET"
    by (simp add: addr_start_def IEEE802154_FRAME_INVALID_OFFSET_def)
  have "length (header_bytes len h) = (3 + ?q) + (?dp + ?d + ?sp + ?s)" by (simp add: header_bytes_def)
  then have eq: "addr_start h + of_nat (?dp + ?d + ?sp + ?s) = of_nat (length (header_bytes len h))"
    unfolding st by (simp only: of_nat_add)
  show ?thesis
    unfolding ieee802154_frame_security_header_offset_def pf(1) bind.bind_lunit address_offset_eq [OF ok] size
    using ns no by (simp add: header_type_ok [OF ok] eq del: of_nat_add)
qed

section \<open>The loop over the header IEs\<close>

lemma ie_header_step:
  fixes x :: "16 word"
  shows "unat (IEEE802154_FRAME_IE_HEAD_LEN + ucast (x AND IEEE802154_FRAME_IE_SUBFIELD_LEN_MASK) :: byte) =
    2 + unat (x AND IEEE802154_FRAME_IE_SUBFIELD_LEN_MASK)"
    and "unat (x AND IEEE802154_FRAME_IE_SUBFIELD_LEN_MASK) \<le> 127"
proof -
  have "x AND 127 \<le> 127" by (rule word_and_le1)
  then show le: "unat (x AND IEEE802154_FRAME_IE_SUBFIELD_LEN_MASK) \<le> 127"
    by (simp add: IEEE802154_FRAME_IE_SUBFIELD_LEN_MASK_def word_le_nat_alt)
  then show "unat (IEEE802154_FRAME_IE_HEAD_LEN + ucast (x AND IEEE802154_FRAME_IE_SUBFIELD_LEN_MASK) :: byte) =
    2 + unat (x AND IEEE802154_FRAME_IE_SUBFIELD_LEN_MASK)"
    by (simp add: IEEE802154_FRAME_IE_HEAD_LEN_def unat_word_ariths(1) unsigned_ucast_eq take_bit_eq_mod)
qed

text \<open>Up to the length 127 of the standard the 8-bit length does not wrap around and the loop ends.\<close>

lemma ie_field_loop_ends:
  assumes len: "unat (frame ! 0) \<le> 127" "unat (frame ! 0) < length frame" and foot: "2 \<le> unat foot"
  shows "\<exists>n. ie_field_loop frame offset foot k = Some n"
proof (induction "255 - unat k" arbitrary: k rule: less_induct)
  case less
  have f0: "frame_byte frame 0 = Some (frame ! 0)" using len by (auto simp: frame_byte_def)
  show ?case
  proof (cases "unat (frame ! 0) > unat offset + unat k + unat foot")
    case False
    then show ?thesis by (subst ie_field_loop.simps) (simp add: f0)
  next
    case True
    let ?p = "unat offset + unat k"
    have rd: "frame_byte frame (?p + 1) = Some (frame ! (?p + 1))" "frame_byte frame ?p = Some (frame ! ?p)"
      using True len foot by (auto simp: frame_byte_def)
    let ?ie = "push_bit 8 (ucast (frame ! (?p + 1))) OR ucast (frame ! ?p) :: 16 word"
    let ?st = "IEEE802154_FRAME_IE_HEAD_LEN + ucast (?ie AND IEEE802154_FRAME_IE_SUBFIELD_LEN_MASK) :: byte"
    note st = ie_header_step [of ?ie]
    have k: "unat k \<le> 124" using True len foot by linarith
    then have u: "unat (k + ?st) = unat k + unat ?st" using st by (simp add: unat_word_ariths(1))
    have "255 - unat (k + ?st) < 255 - unat k" using u st k by linarith
    then have rec: "\<exists>n. ie_field_loop frame offset foot (k + ?st) = Some n" by (rule less)
    have "ie_field_loop frame offset foot k =
        (if ?ie AND IEEE802154_FRAME_IE_HEAD_ID_MASK = IEEE802154_IE_TYPE_HT2
         then Some (k + IEEE802154_FRAME_IE_HEAD_LEN) else ie_field_loop frame offset foot (k + ?st))"
      by (subst ie_field_loop.simps) (simp only: f0 rd bind.bind_lunit Let_def True if_True)
    then show ?thesis using rec by (simp only:) (simp split: if_split)
  qed
qed

end
