(* ===== verification/Ieee_Pending.thy ===== *)
theory Ieee_Pending
  imports Ieee_Table Ieee_Header
begin

text \<open>
  The two halves of the pending table through the driver's functions: every sequence of calls acts on
  each half as its own operations do, so that the laws of \<open>Ieee_Table\<close> carry over.
\<close>

datatype pending_op = PAdd bool "byte list" | PClear bool "byte list" | PReset bool

definition pending_step :: "pending_op \<Rightarrow> pending_table \<Rightarrow> pending_table option" where
  "pending_step op t =
     (case op of
        PAdd is_short a \<Rightarrow> map_option fst (ieee802154_add_pending_addr a is_short t)
      | PClear is_short a \<Rightarrow> map_option fst (ieee802154_clear_pending_addr a is_short t)
      | PReset is_short \<Rightarrow> Some (ieee802154_reset_pending_table is_short t))"

fun run_pending :: "pending_op list \<Rightarrow> pending_table \<Rightarrow> pending_table option" where
  "run_pending [] t = Some t"
| "run_pending (op # os) t = do { t1 \<leftarrow> pending_step op t; run_pending os t1 }"

fun pending_op_ok :: "pending_op \<Rightarrow> bool" where
  "pending_op_ok (PAdd is_short a) = (length a = addr_bytes is_short)"
| "pending_op_ok (PClear is_short a) = (length a = addr_bytes is_short)"
| "pending_op_ok (PReset is_short) = True"

text \<open>The half an operation concerns, the set operation it is there, and those of a sequence.\<close>

fun half_target :: "pending_op \<Rightarrow> bool" where
  "half_target (PAdd b a) = b"
| "half_target (PClear b a) = b"
| "half_target (PReset b) = b"

fun set_op_of :: "pending_op \<Rightarrow> byte list set_op" where
  "set_op_of (PAdd b a) = AddAddr a"
| "set_op_of (PClear b a) = ClearAddr a"
| "set_op_of (PReset b) = ResetAddrs"

definition ops_of :: "bool \<Rightarrow> pending_op list \<Rightarrow> byte list set_op list" where
  "ops_of b os = map set_op_of (filter (\<lambda>op. half_target op = b) os)"

abbreviation run_half :: "bool \<Rightarrow> byte list set_op list \<Rightarrow> half \<Rightarrow> half option" where
  "run_half b \<equiv> run_set_ops (half_add (addr_bytes b)) (half_clear (addr_bytes b)) half_reset"

lemma half_of_set_half: "half_of b (set_half b' h t) = (if b = b' then h else half_of b t)"
  by (cases h) (auto simp: half_of_def set_half_def)

lemma set_half_half_of: "set_half b (half_of b t) t = t"
  by (simp add: half_of_def set_half_def)

lemma set_half_twice: "set_half b h (set_half b h' t) = set_half b h t"
  by (simp add: set_half_def)

lemma set_half_commute: "b \<noteq> b' \<Longrightarrow> set_half b h (set_half b' h' t) = set_half b' h' (set_half b h t)"
  by (cases t) (auto simp: set_half_def)

lemma set_half_both: "set_half True (half_of True t) (set_half False (half_of False t) t) = t"
  by (simp add: set_half_half_of)

lemma run_half_Cons: "run_half b (x # xs) h = do { h1 \<leftarrow> run_half b [x] h; run_half b xs h1 }"
  by (cases x) (simp_all add: split_def)

lemma pending_step_half:
  "pending_step op t = map_option (\<lambda>h. set_half (half_target op) h t)
     (run_half (half_target op) [set_op_of op] (half_of (half_target op) t))"
  by (cases op) (auto simp: pending_step_def ieee802154_add_pending_addr_def ieee802154_clear_pending_addr_def
      ieee802154_reset_pending_table_def split_def map_option_case split: option.splits)

text \<open>A run that succeeds on both halves succeeds on the table, with the two results.\<close>

lemma run_pending_halves:
  "run_half True (ops_of True os) (half_of True t) = Some hs \<Longrightarrow>
   run_half False (ops_of False os) (half_of False t) = Some he \<Longrightarrow>
     run_pending os t = Some (set_half True hs (set_half False he t))"
proof (induction os arbitrary: t)
  case Nil
  then show ?case using set_half_both [of t] by (auto simp: ops_of_def)
next
  case (Cons op os)
  let ?b = "half_target op"
  have eq: "ops_of ?b (op # os) = set_op_of op # ops_of ?b os" "ops_of (\<not> ?b) (op # os) = ops_of (\<not> ?b) os"
    by (simp_all add: ops_of_def)
  have "run_half ?b (ops_of ?b (op # os)) (half_of ?b t) = Some (if ?b then hs else he)"
    using Cons.prems by (cases ?b) simp_all
  then obtain h where h: "run_half ?b [set_op_of op] (half_of ?b t) = Some h"
    "run_half ?b (ops_of ?b os) h = Some (if ?b then hs else he)"
    unfolding eq by (subst (asm) run_half_Cons) (auto simp del: run_set_ops.simps split: bind_splits)
  have "run_pending os (set_half ?b h t) = Some (set_half True hs (set_half False he (set_half ?b h t)))"
    using Cons.prems h(2) eq(2) by (intro Cons.IH) (cases ?b; simp add: half_of_set_half)+
  then show ?case
    using h(1) by (cases ?b) (simp_all add: pending_step_half set_half_twice set_half_commute [of False True]
        del: run_set_ops.simps)
qed

section \<open>The table as two bounded sets\<close>

text \<open>The table of \<open>n\<close> entries as the C runtime initialises it: all zero.\<close>

definition empty_table :: "nat \<Rightarrow> pending_table" where
  "empty_table n =
     \<lparr>short_addr = replicate n (replicate 2 0), ext_addr = replicate n (replicate 8 0),
      short_addr_mask = replicate (IEEE802154_PENDING_TABLE_MASK_SIZE n) 0,
      ext_addr_mask = replicate (IEEE802154_PENDING_TABLE_MASK_SIZE n) 0\<rparr>"

definition pending_table_ok :: "pending_table \<Rightarrow> bool" where
  "pending_table_ok t \<longleftrightarrow> (\<forall>b. half_inv (addr_bytes b) (half_of b t))"

definition pending_set :: "bool \<Rightarrow> pending_table \<Rightarrow> byte list set" where
  "pending_set b t = half_elems (half_of b t)"

definition pending_cap :: "bool \<Rightarrow> pending_table \<Rightarrow> nat" where
  "pending_cap b t = length (fst (half_of b t))"

lemma addr_bytes_eq [simp]: "addr_bytes True = 2" "addr_bytes False = 8"
  by (simp_all add: addr_bytes_def ieee_consts)

lemma ops_of_ok: "\<forall>op \<in> set os. pending_op_ok op \<Longrightarrow> \<forall>x \<in> set (ops_of b os). op_addr_ok (\<lambda>a. length a = addr_bytes b) x"
proof
  fix x
  assume ok: "\<forall>op \<in> set os. pending_op_ok op" and "x \<in> set (ops_of b os)"
  then obtain op where "op \<in> set os" "half_target op = b" "x = set_op_of op" by (auto simp: ops_of_def)
  with ok show "op_addr_ok (\<lambda>a. length a = addr_bytes b) x" by (cases op) auto
qed

lemma run_half_spec:
  assumes "half_inv (addr_bytes b) h" "\<forall>op \<in> set os. pending_op_ok op"
  shows "\<exists>h'. run_half b (ops_of b os) h = Some h' \<and> half_inv (addr_bytes b) h' \<and>
    length (fst h') = length (fst h) \<and> half_elems h' = set_spec (length (fst h)) (ops_of b os) (half_elems h)"
proof (cases b)
  case True
  then show ?thesis using short_addrs.run_set_ops_spec [of h "ops_of b os"] assms(1) ops_of_ok [OF assms(2), of b] by simp
next
  case False
  then show ?thesis using ext_addrs.run_set_ops_spec [of h "ops_of b os"] assms(1) ops_of_ok [OF assms(2), of b] by simp
qed

lemma run_pending_spec:
  assumes ok: "pending_table_ok t" and os: "\<forall>op \<in> set os. pending_op_ok op"
  shows "\<exists>t'. run_pending os t = Some t' \<and> pending_table_ok t' \<and>
    (\<forall>b. pending_cap b t' = pending_cap b t) \<and> (\<forall>b. pending_set b t' = set_spec (pending_cap b t) (ops_of b os) (pending_set b t))"
proof -
  have inv: "half_inv (addr_bytes b) (half_of b t)" for b using ok by (simp add: pending_table_ok_def)
  obtain hs where hs: "run_half True (ops_of True os) (half_of True t) = Some hs" "half_inv (addr_bytes True) hs"
    "length (fst hs) = pending_cap True t" "half_elems hs = set_spec (pending_cap True t) (ops_of True os) (pending_set True t)"
    using run_half_spec [OF inv [of True] os] unfolding pending_set_def pending_cap_def by blast
  obtain he where he: "run_half False (ops_of False os) (half_of False t) = Some he" "half_inv (addr_bytes False) he"
    "length (fst he) = pending_cap False t" "half_elems he = set_spec (pending_cap False t) (ops_of False os) (pending_set False t)"
    using run_half_spec [OF inv [of False] os] unfolding pending_set_def pending_cap_def by blast
  let ?t = "set_half True hs (set_half False he t)"
  have "run_pending os t = Some ?t" by (rule run_pending_halves [OF hs(1) he(1)])
  moreover have "pending_table_ok ?t" using hs(2) he(2) by (auto simp: pending_table_ok_def half_of_set_half)
  moreover have "pending_set b ?t = set_spec (pending_cap b t) (ops_of b os) (pending_set b t)" for b
    using hs(4) he(4) by (cases b) (simp_all add: pending_set_def [of _ ?t] half_of_set_half)
  moreover have "pending_cap b ?t = pending_cap b t" for b
    using hs(3) he(3) by (cases b) (simp_all add: pending_cap_def [of _ ?t] half_of_set_half)
  ultimately show ?thesis by blast
qed

lemma in_table_eq:
  assumes "pending_table_ok t" "addr_bytes b \<le> length a"
  shows "ieee802154_addr_in_pending_table a b t = Some (take (addr_bytes b) a \<in> pending_set b t)"
  using half_mem_law [of "addr_bytes b" "half_of b t" a] assms
  by (simp add: ieee802154_addr_in_pending_table_def pending_table_ok_def pending_set_def)

lemma add_pending_eq:
  assumes "pending_table_ok t" "length a = addr_bytes b"
  shows "\<exists>t' e. ieee802154_add_pending_addr a b t = Some (t', e) \<and>
    (e = ESP_OK \<longleftrightarrow> a \<in> pending_set b t \<or> card (pending_set b t) < pending_cap b t)"
proof -
  have "half_inv (addr_bytes b) (half_of b t)" using assms(1) by (simp add: pending_table_ok_def)
  from half_laws(2) [OF this assms(2)] show ?thesis
    by (auto simp: ieee802154_add_pending_addr_def pending_set_def pending_cap_def)
qed

lemma clear_pending_eq:
  assumes "pending_table_ok t" "length a = addr_bytes b"
  shows "\<exists>t' e. ieee802154_clear_pending_addr a b t = Some (t', e) \<and> (e = ESP_OK \<longleftrightarrow> a \<in> pending_set b t)"
proof -
  have "half_inv (addr_bytes b) (half_of b t)" using assms(1) by (simp add: pending_table_ok_def)
  from half_laws(3) [OF this assms(2)] show ?thesis
    by (auto simp: ieee802154_clear_pending_addr_def pending_set_def)
qed

lemma empty_table_ok:
  assumes "0 < n"
  shows "pending_table_ok (empty_table n)" "pending_set b (empty_table n) = {}" "pending_cap b (empty_table n) = n"
proof -
  have len: "n \<le> 8 * IEEE802154_PENDING_TABLE_MASK_SIZE n"
    using assms by (simp add: IEEE802154_PENDING_TABLE_MASK_SIZE_def IEEE802154_PENDING_TABLE_MASK_BITS_def)
  have used: "half_used (half_of b (empty_table n)) = {}" for b
    using len by (auto simp: half_used_def half_of_def empty_table_def used_bit_def div_less_iff_less_mult mult.commute)
  show "pending_table_ok (empty_table n)"
    unfolding pending_table_ok_def half_inv_def used using len by (auto simp: half_of_def empty_table_def)
  show "pending_set b (empty_table n) = {}" by (simp add: pending_set_def half_elems_def used)
  show "pending_cap b (empty_table n) = n" by (simp add: pending_cap_def half_of_def empty_table_def)
qed

section \<open>The source address of an encoded header\<close>

fun pending_addr :: "mac_addr \<Rightarrow> pending_table \<Rightarrow> bool" where
  "pending_addr No_Addr t = False"
| "pending_addr (Short_Addr a) t = (a \<in> pending_set True t)"
| "pending_addr (Ext_Addr a) t = (a \<in> pending_set False t)"

fun pending_bit_spec :: "ieee802154_ll_pending_mode_t \<Rightarrow> mac_addr \<Rightarrow> pending_table \<Rightarrow> bool" where
  "pending_bit_spec IEEE802154_AUTO_PENDING_DISABLE s t = True"
| "pending_bit_spec IEEE802154_AUTO_PENDING_ENABLE s t = pending_addr s t"
| "pending_bit_spec IEEE802154_AUTO_PENDING_ENHANCED s t = pending_addr s t"
| "pending_bit_spec IEEE802154_AUTO_PENDING_ZIGBEE s t = (case s of Short_Addr a \<Rightarrow> \<not> pending_addr s t | _ \<Rightarrow> True)"

lemma ack_pending_bit_eq:
  assumes h: "header_ok h" and t: "pending_table_ok t"
  shows "ieee802154_ack_config_pending_bit mode t (header_bytes len h @ rest) =
    Some (pending_bit_spec mode (mh_src h) t,
          if mh_version h = 0x20 then None else Some (pending_bit_spec mode (mh_src h) t))"
proof -
  have v: "mh_version h \<le> 0x10 \<longleftrightarrow> mh_version h \<noteq> 0x20" using h by (auto simp: header_ok_def)
  have ok: "addr_ok (mh_src h)" using h by (simp add: header_ok_def)
  show ?thesis
    using ok
    by (cases mode; cases "mh_src h")
       (simp_all add: ieee802154_ack_config_pending_bit_def parse_fields [OF h] get_src_addr_eq [OF h] addr_result_def
         addr_buffer_def in_table_eq [OF t] ieee_consts v)
qed

end
