(* ===== verification/Ieee_Pib.thy ===== *)
theory Ieee_Pib
  imports Ieee_Ack "HOL-Library.Signed_Division"
begin

text \<open>
  The PAN information base of the 802.15.4 driver,
  \<open>components/ieee802154/driver/esp_ieee802154_pib.c\<close>, with the channel conversion of
  \<open>esp_ieee802154_util.c\<close>.  The registers that the \<open>ieee802154_ll_set_\<close> functions write are the
  record \<open>radio_regs\<close>; the limits of the transmission power are those of the ESP32-C6.
\<close>

section \<open>Channels and power\<close>

definition ieee802154_freq_to_channel :: "8 word \<Rightarrow> 8 word" where
  "ieee802154_freq_to_channel freq = word_of_int ((uint freq - 3) sdiv 5 + 11)"

definition ieee802154_channel_to_freq :: "8 word \<Rightarrow> 8 word" where
  "ieee802154_channel_to_freq channel = (channel - 11) * 5 + 3"

definition IEEE802154_TXPOWER_VALUE_MAX :: int where "IEEE802154_TXPOWER_VALUE_MAX = 20"
definition IEEE802154_TXPOWER_VALUE_MIN :: int where "IEEE802154_TXPOWER_VALUE_MIN = - 15"
definition IEEE802154_TXPOWER_INDEX_MIN :: int where "IEEE802154_TXPOWER_INDEX_MIN = 3"

definition ieee802154_txpower_convert :: "8 word \<Rightarrow> 8 word" where
  "ieee802154_txpower_convert txpower =
     (if sint txpower \<ge> IEEE802154_TXPOWER_VALUE_MAX then 15
      else if sint txpower \<le> IEEE802154_TXPOWER_VALUE_MIN then word_of_int IEEE802154_TXPOWER_INDEX_MIN
      else word_of_int ((sint txpower - IEEE802154_TXPOWER_VALUE_MIN) sdiv 3) + word_of_int IEEE802154_TXPOWER_INDEX_MIN)"

section \<open>The information base\<close>

record ieee802154_pib =
  auto_ack_tx :: bool
  auto_ack_rx :: bool
  enhance_ack_tx :: bool
  promiscuous :: bool
  coordinator :: bool
  rx_when_idle :: bool
  txpower :: "8 word"
  channel :: "8 word"
  pending_mode :: ieee802154_ll_pending_mode_t
  cca_threshold :: "8 word"
  cca_mode :: nat

record radio_regs =
  reg_freq :: "8 word"
  reg_power :: "8 word"
  reg_cca_mode :: nat
  reg_cca_threshold :: "8 word"
  reg_tx_auto_ack :: bool
  reg_rx_auto_ack :: bool
  reg_tx_enhance_ack :: bool
  reg_coordinator :: bool
  reg_promiscuous :: bool
  reg_pending_enhanced :: bool

record pib_state =
  s_ieee802154_pib :: ieee802154_pib
  is_pending :: bool
  regs :: radio_regs

text \<open>\<open>cca_thr\<close> and \<open>cca_md\<close> are the configured CCA threshold and mode.\<close>

definition ieee802154_pib_init :: "8 word \<Rightarrow> nat \<Rightarrow> pib_state \<Rightarrow> pib_state" where
  "ieee802154_pib_init cca_thr cca_md st =
     st\<lparr>s_ieee802154_pib :=
          \<lparr>auto_ack_tx = True, auto_ack_rx = True, enhance_ack_tx = True, promiscuous = True,
           coordinator = False, rx_when_idle = False, txpower = word_of_int IEEE802154_TXPOWER_VALUE_MAX,
           channel = 11, pending_mode = IEEE802154_AUTO_PENDING_DISABLE, cca_threshold = cca_thr, cca_mode = cca_md\<rparr>,
        is_pending := True\<rparr>"

definition ieee802154_pib_update :: "pib_state \<Rightarrow> pib_state" where
  "ieee802154_pib_update st =
     (if is_pending st
      then let p = s_ieee802154_pib st in
        st\<lparr>regs :=
             \<lparr>reg_freq = ieee802154_channel_to_freq (channel p),
              reg_power = ieee802154_txpower_convert (txpower p),
              reg_cca_mode = cca_mode p, reg_cca_threshold = cca_threshold p,
              reg_tx_auto_ack = auto_ack_tx p, reg_rx_auto_ack = auto_ack_rx p,
              reg_tx_enhance_ack = enhance_ack_tx p,
              reg_coordinator = coordinator p, reg_promiscuous = promiscuous p,
              reg_pending_enhanced = (pending_mode p = IEEE802154_AUTO_PENDING_ENHANCED)\<rparr>,
           is_pending := False\<rparr>
      else st)"

definition ieee802154_pib_get_channel :: "pib_state \<Rightarrow> 8 word" where
  "ieee802154_pib_get_channel st = channel (s_ieee802154_pib st)"

definition ieee802154_pib_set_channel :: "8 word \<Rightarrow> pib_state \<Rightarrow> pib_state" where
  "ieee802154_pib_set_channel v st =
     (if channel (s_ieee802154_pib st) \<noteq> v
      then st\<lparr>s_ieee802154_pib := (s_ieee802154_pib st)\<lparr>channel := v\<rparr>, is_pending := True\<rparr> else st)"

definition ieee802154_pib_get_power :: "pib_state \<Rightarrow> 8 word" where
  "ieee802154_pib_get_power st = txpower (s_ieee802154_pib st)"

definition ieee802154_pib_set_power :: "8 word \<Rightarrow> pib_state \<Rightarrow> pib_state" where
  "ieee802154_pib_set_power v st =
     (if txpower (s_ieee802154_pib st) \<noteq> v
      then st\<lparr>s_ieee802154_pib := (s_ieee802154_pib st)\<lparr>txpower := v\<rparr>, is_pending := True\<rparr> else st)"

definition ieee802154_pib_get_promiscuous :: "pib_state \<Rightarrow> bool" where
  "ieee802154_pib_get_promiscuous st = promiscuous (s_ieee802154_pib st)"

definition ieee802154_pib_set_promiscuous :: "bool \<Rightarrow> pib_state \<Rightarrow> pib_state" where
  "ieee802154_pib_set_promiscuous v st =
     (if promiscuous (s_ieee802154_pib st) \<noteq> v
      then st\<lparr>s_ieee802154_pib := (s_ieee802154_pib st)\<lparr>promiscuous := v\<rparr>, is_pending := True\<rparr> else st)"

definition ieee802154_pib_get_cca_threshold :: "pib_state \<Rightarrow> 8 word" where
  "ieee802154_pib_get_cca_threshold st = cca_threshold (s_ieee802154_pib st)"

definition ieee802154_pib_set_cca_threshold :: "8 word \<Rightarrow> pib_state \<Rightarrow> pib_state" where
  "ieee802154_pib_set_cca_threshold v st =
     (if cca_threshold (s_ieee802154_pib st) \<noteq> v
      then st\<lparr>s_ieee802154_pib := (s_ieee802154_pib st)\<lparr>cca_threshold := v\<rparr>, is_pending := True\<rparr> else st)"

definition ieee802154_pib_get_cca_mode :: "pib_state \<Rightarrow> nat" where
  "ieee802154_pib_get_cca_mode st = cca_mode (s_ieee802154_pib st)"

definition ieee802154_pib_set_cca_mode :: "nat \<Rightarrow> pib_state \<Rightarrow> pib_state" where
  "ieee802154_pib_set_cca_mode v st =
     (if cca_mode (s_ieee802154_pib st) \<noteq> v
      then st\<lparr>s_ieee802154_pib := (s_ieee802154_pib st)\<lparr>cca_mode := v\<rparr>, is_pending := True\<rparr> else st)"

definition ieee802154_pib_get_auto_ack_tx :: "pib_state \<Rightarrow> bool" where
  "ieee802154_pib_get_auto_ack_tx st = auto_ack_tx (s_ieee802154_pib st)"

definition ieee802154_pib_set_auto_ack_tx :: "bool \<Rightarrow> pib_state \<Rightarrow> pib_state" where
  "ieee802154_pib_set_auto_ack_tx v st =
     (if auto_ack_tx (s_ieee802154_pib st) \<noteq> v
      then st\<lparr>s_ieee802154_pib := (s_ieee802154_pib st)\<lparr>auto_ack_tx := v\<rparr>, is_pending := True\<rparr> else st)"

definition ieee802154_pib_get_auto_ack_rx :: "pib_state \<Rightarrow> bool" where
  "ieee802154_pib_get_auto_ack_rx st = auto_ack_rx (s_ieee802154_pib st)"

definition ieee802154_pib_set_auto_ack_rx :: "bool \<Rightarrow> pib_state \<Rightarrow> pib_state" where
  "ieee802154_pib_set_auto_ack_rx v st =
     (if auto_ack_rx (s_ieee802154_pib st) \<noteq> v
      then st\<lparr>s_ieee802154_pib := (s_ieee802154_pib st)\<lparr>auto_ack_rx := v\<rparr>, is_pending := True\<rparr> else st)"

definition ieee802154_pib_get_enhance_ack_tx :: "pib_state \<Rightarrow> bool" where
  "ieee802154_pib_get_enhance_ack_tx st = enhance_ack_tx (s_ieee802154_pib st)"

definition ieee802154_pib_set_enhance_ack_tx :: "bool \<Rightarrow> pib_state \<Rightarrow> pib_state" where
  "ieee802154_pib_set_enhance_ack_tx v st =
     (if enhance_ack_tx (s_ieee802154_pib st) \<noteq> v
      then st\<lparr>s_ieee802154_pib := (s_ieee802154_pib st)\<lparr>enhance_ack_tx := v\<rparr>, is_pending := True\<rparr> else st)"

definition ieee802154_pib_get_coordinator :: "pib_state \<Rightarrow> bool" where
  "ieee802154_pib_get_coordinator st = coordinator (s_ieee802154_pib st)"

definition ieee802154_pib_set_coordinator :: "bool \<Rightarrow> pib_state \<Rightarrow> pib_state" where
  "ieee802154_pib_set_coordinator v st =
     (if coordinator (s_ieee802154_pib st) \<noteq> v
      then st\<lparr>s_ieee802154_pib := (s_ieee802154_pib st)\<lparr>coordinator := v\<rparr>, is_pending := True\<rparr> else st)"

definition ieee802154_pib_get_pending_mode :: "pib_state \<Rightarrow> ieee802154_ll_pending_mode_t" where
  "ieee802154_pib_get_pending_mode st = pending_mode (s_ieee802154_pib st)"

definition ieee802154_pib_set_pending_mode :: "ieee802154_ll_pending_mode_t \<Rightarrow> pib_state \<Rightarrow> pib_state" where
  "ieee802154_pib_set_pending_mode v st =
     (if pending_mode (s_ieee802154_pib st) \<noteq> v
      then st\<lparr>s_ieee802154_pib := (s_ieee802154_pib st)\<lparr>pending_mode := v\<rparr>, is_pending := True\<rparr> else st)"

definition ieee802154_pib_get_rx_when_idle :: "pib_state \<Rightarrow> bool" where
  "ieee802154_pib_get_rx_when_idle st = rx_when_idle (s_ieee802154_pib st)"

definition ieee802154_pib_set_rx_when_idle :: "bool \<Rightarrow> pib_state \<Rightarrow> pib_state" where
  "ieee802154_pib_set_rx_when_idle v st =
     st\<lparr>s_ieee802154_pib := (s_ieee802154_pib st)\<lparr>rx_when_idle := v\<rparr>\<rparr>"

end
