(* ===== verification/Ieee_Sync.thy ===== *)
theory Ieee_Sync
  imports Ieee_Pib
begin

text \<open>
  The information base against the radio: any sequence of calls keeps the registers in step with the
  information base or marks them as pending, and acts on the information base as plain field updates.
\<close>

section \<open>Runs\<close>

datatype pib_op =
    PibInit "8 word" nat
  | PibUpdate
  | SetChannel "8 word"
  | SetPower "8 word"
  | SetPromiscuous bool
  | SetCcaThreshold "8 word"
  | SetCcaMode nat
  | SetAutoAckTx bool
  | SetAutoAckRx bool
  | SetEnhanceAckTx bool
  | SetCoordinator bool
  | SetPendingMode ieee802154_ll_pending_mode_t
  | SetRxWhenIdle bool

fun pib_step :: "pib_op \<Rightarrow> pib_state \<Rightarrow> pib_state" where
  "pib_step (PibInit thr md) = ieee802154_pib_init thr md"
| "pib_step PibUpdate = ieee802154_pib_update"
| "pib_step (SetChannel v) = ieee802154_pib_set_channel v"
| "pib_step (SetPower v) = ieee802154_pib_set_power v"
| "pib_step (SetPromiscuous b) = ieee802154_pib_set_promiscuous b"
| "pib_step (SetCcaThreshold v) = ieee802154_pib_set_cca_threshold v"
| "pib_step (SetCcaMode m) = ieee802154_pib_set_cca_mode m"
| "pib_step (SetAutoAckTx b) = ieee802154_pib_set_auto_ack_tx b"
| "pib_step (SetAutoAckRx b) = ieee802154_pib_set_auto_ack_rx b"
| "pib_step (SetEnhanceAckTx b) = ieee802154_pib_set_enhance_ack_tx b"
| "pib_step (SetCoordinator b) = ieee802154_pib_set_coordinator b"
| "pib_step (SetPendingMode m) = ieee802154_pib_set_pending_mode m"
| "pib_step (SetRxWhenIdle b) = ieee802154_pib_set_rx_when_idle b"

definition run_pib :: "pib_op list \<Rightarrow> pib_state \<Rightarrow> pib_state" where
  "run_pib = fold pib_step"

section \<open>The specification\<close>

text \<open>The values after initialisation, and the plain effect of each call.\<close>

definition pib_defaults :: "8 word \<Rightarrow> nat \<Rightarrow> ieee802154_pib" where
  "pib_defaults thr md =
     \<lparr>auto_ack_tx = True, auto_ack_rx = True, enhance_ack_tx = True, promiscuous = True, coordinator = False,
      rx_when_idle = False, txpower = 20, channel = 11, pending_mode = IEEE802154_AUTO_PENDING_DISABLE,
      cca_threshold = thr, cca_mode = md\<rparr>"

fun pib_spec :: "pib_op \<Rightarrow> ieee802154_pib \<Rightarrow> ieee802154_pib" where
  "pib_spec (PibInit thr md) p = pib_defaults thr md"
| "pib_spec PibUpdate p = p"
| "pib_spec (SetChannel v) p = p\<lparr>channel := v\<rparr>"
| "pib_spec (SetPower v) p = p\<lparr>txpower := v\<rparr>"
| "pib_spec (SetPromiscuous b) p = p\<lparr>promiscuous := b\<rparr>"
| "pib_spec (SetCcaThreshold v) p = p\<lparr>cca_threshold := v\<rparr>"
| "pib_spec (SetCcaMode m) p = p\<lparr>cca_mode := m\<rparr>"
| "pib_spec (SetAutoAckTx b) p = p\<lparr>auto_ack_tx := b\<rparr>"
| "pib_spec (SetAutoAckRx b) p = p\<lparr>auto_ack_rx := b\<rparr>"
| "pib_spec (SetEnhanceAckTx b) p = p\<lparr>enhance_ack_tx := b\<rparr>"
| "pib_spec (SetCoordinator b) p = p\<lparr>coordinator := b\<rparr>"
| "pib_spec (SetPendingMode m) p = p\<lparr>pending_mode := m\<rparr>"
| "pib_spec (SetRxWhenIdle b) p = p\<lparr>rx_when_idle := b\<rparr>"

text \<open>The registers hold the values of the information base.\<close>

definition regs_match :: "ieee802154_pib \<Rightarrow> radio_regs \<Rightarrow> bool" where
  "regs_match p r \<longleftrightarrow>
     reg_freq r = ieee802154_channel_to_freq (channel p) \<and> reg_power r = ieee802154_txpower_convert (txpower p) \<and>
     reg_cca_mode r = cca_mode p \<and> reg_cca_threshold r = cca_threshold p \<and>
     (reg_tx_auto_ack r \<longleftrightarrow> auto_ack_tx p) \<and> (reg_rx_auto_ack r \<longleftrightarrow> auto_ack_rx p) \<and>
     (reg_tx_enhance_ack r \<longleftrightarrow> enhance_ack_tx p) \<and> (reg_coordinator r \<longleftrightarrow> coordinator p) \<and>
     (reg_promiscuous r \<longleftrightarrow> promiscuous p) \<and>
     (reg_pending_enhanced r \<longleftrightarrow> pending_mode p = IEEE802154_AUTO_PENDING_ENHANCED)"

definition pib_synced :: "pib_state \<Rightarrow> bool" where
  "pib_synced st \<longleftrightarrow> is_pending st \<or> regs_match (s_ieee802154_pib st) (regs st)"

lemmas pib_setters =
  ieee802154_pib_set_channel_def ieee802154_pib_set_power_def ieee802154_pib_set_promiscuous_def
  ieee802154_pib_set_cca_threshold_def ieee802154_pib_set_cca_mode_def ieee802154_pib_set_auto_ack_tx_def
  ieee802154_pib_set_auto_ack_rx_def ieee802154_pib_set_enhance_ack_tx_def ieee802154_pib_set_coordinator_def
  ieee802154_pib_set_pending_mode_def ieee802154_pib_set_rx_when_idle_def

lemma pib_step_spec: "s_ieee802154_pib (pib_step x st) = pib_spec x (s_ieee802154_pib st)"
  by (cases x) (auto simp: pib_setters ieee802154_pib_init_def ieee802154_pib_update_def pib_defaults_def
      IEEE802154_TXPOWER_VALUE_MAX_def Let_def)

lemma pib_step_synced: "pib_synced st \<Longrightarrow> pib_synced (pib_step x st)"
  by (cases x) (auto simp: pib_synced_def pib_setters ieee802154_pib_init_def ieee802154_pib_update_def
      regs_match_def Let_def)

lemma run_pib_spec: "s_ieee802154_pib (run_pib os st) = fold pib_spec os (s_ieee802154_pib st)"
  by (induction os arbitrary: st) (simp_all add: run_pib_def pib_step_spec)

lemma run_pib_synced: "pib_synced st \<Longrightarrow> pib_synced (run_pib os st)"
  by (induction os arbitrary: st) (simp_all add: run_pib_def pib_step_synced)

lemma update_matches:
  "pib_synced st \<Longrightarrow>
     regs_match (s_ieee802154_pib st) (regs (ieee802154_pib_update st)) \<and> \<not> is_pending (ieee802154_pib_update st)"
  by (auto simp: ieee802154_pib_update_def pib_synced_def regs_match_def Let_def)

section \<open>Channels and power\<close>

lemma channel_freq:
  assumes "11 \<le> c" "c \<le> 26"
  shows "uint (ieee802154_channel_to_freq c) = 5 * (uint c - 11) + 3"
    and "ieee802154_freq_to_channel (ieee802154_channel_to_freq c) = c"
proof -
  have b: "11 \<le> uint c" "uint c \<le> 26" using assms by (simp_all add: word_le_def)
  show u: "uint (ieee802154_channel_to_freq c) = 5 * (uint c - 11) + 3"
    using b by (simp add: ieee802154_channel_to_freq_def uint_word_ariths)
  have "(5 * (uint c - 11) + 3 - 3) sdiv 5 + 11 = uint c" using b by (auto simp: signed_divide_int_def sgn_if)
  then show "ieee802154_freq_to_channel (ieee802154_channel_to_freq c) = c"
    by (simp add: ieee802154_freq_to_channel_def u)
qed

definition power_index :: "int \<Rightarrow> int" where
  "power_index p = (if 20 \<le> p then 15 else if p \<le> - 15 then 3 else (p + 15) div 3 + 3)"

lemma power_index_bounds: "3 \<le> power_index p \<and> power_index p \<le> 15"
  by (auto simp: power_index_def)

lemma power_index_mono: "p \<le> q \<Longrightarrow> power_index p \<le> power_index q"
  by (auto simp: power_index_def intro: zdiv_mono1)

lemma txpower_convert_eq: "uint (ieee802154_txpower_convert p) = power_index (sint p)"
proof -
  have "uint (word_of_int (power_index (sint p)) :: 8 word) = power_index (sint p)"
    using power_index_bounds [of "sint p"] by (simp add: take_bit_int_eq_self unsigned_of_int)
  moreover have "ieee802154_txpower_convert p = word_of_int (power_index (sint p))"
    by (auto simp: ieee802154_txpower_convert_def power_index_def IEEE802154_TXPOWER_VALUE_MAX_def
        IEEE802154_TXPOWER_VALUE_MIN_def IEEE802154_TXPOWER_INDEX_MIN_def signed_divide_int_def)
  ultimately show ?thesis by simp
qed

end
