(* ===== verification/Ieee_Props.thy ===== *)
theory Ieee_Props
  imports Ieee_Pending Ieee_Sync
begin

text \<open>
  The properties of the 802.15.4 driver: the header parser against the layout of the standard,
  the pending table as a set, and the information base against the radio registers.
\<close>

section \<open>The header parser\<close>

text \<open>C30: On every frame whose addressing modes are not reserved, the parser finds the PAN
  identifiers that the standard prescribes: the table of the 2015 edition for version 2, the rule of
  the earlier editions for the other versions.\<close>

theorem pan_ids_follow_the_standard:
  assumes "ieee802154_frame_get_version frame = Some v" "dst_addr_mode frame = Some (dst_bits d)"
    "src_addr_mode frame = Some (src_bits s)" "is_panid_compression frame = Some c"
  shows "is_dst_panid_present frame = Some (fst (pan_ids v d s c)) \<and>
    is_src_panid_present frame = Some (snd (pan_ids v d s c))"
  using panid_present [OF assms] by simp

theorem pan_ids_follow_the_standard_witness:
  "is_dst_panid_present [3, 0x41, 0xAC] =
     Some (fst (pan_ids 0x20 (Ext_Addr (replicate 8 0)) (Short_Addr [0, 0]) True)) \<and>
   is_src_panid_present [3, 0x41, 0xAC] =
     Some (snd (pan_ids 0x20 (Ext_Addr (replicate 8 0)) (Short_Addr [0, 0]) True))"
  by (rule pan_ids_follow_the_standard)
     (simp_all add: ieee802154_frame_get_version_def dst_addr_mode_def src_addr_mode_def is_panid_compression_def
       frame_bit_def frame_byte_def ieee_consts)

text \<open>C31: Parsing is the inverse of laying out: for every well-formed header, with any combination of
  version, addressing modes, PAN identifiers and sequence-number suppression, the parser returns the
  type, the version, the acknowledgement request, both addresses, both PAN identifiers and the end of
  the addressing fields, whatever follows the header.\<close>

theorem parse_inverts_layout:
  assumes "header_ok h"
  shows "ieee802154_frame_get_type (header_bytes len h @ rest) = Some (mh_type h) \<and>
    ieee802154_frame_get_version (header_bytes len h @ rest) = Some (mh_version h) \<and>
    ieee802154_frame_is_ack_required (header_bytes len h @ rest) = Some (mh_ack h) \<and>
    ieee802154_frame_get_dst_addr (header_bytes len h @ rest) = Some (addr_result (dst_bits (mh_dst h)) (mh_dst h)) \<and>
    ieee802154_frame_get_src_addr (header_bytes len h @ rest) = Some (addr_result (src_bits (mh_src h)) (mh_src h)) \<and>
    ieee802154_frame_get_dest_panid (header_bytes len h @ rest) = Some (pan_result (mh_dst_pan h)) \<and>
    ieee802154_frame_get_src_panid (header_bytes len h @ rest) = Some (pan_result (mh_src_pan h)) \<and>
    ieee802154_frame_security_header_offset (header_bytes len h @ rest) = Some (of_nat (length (header_bytes len h)))"
  using parse_fields(1,2,9) [OF assms] get_dst_addr_eq [OF assms] get_src_addr_eq [OF assms]
    get_dest_panid_eq [OF assms] get_src_panid_eq [OF assms] security_header_offset_eq [OF assms] by blast

definition demo_header :: mac_header where
  "demo_header = \<lparr>mh_type = 1, mh_security = False, mh_ack = True, mh_comp = True, mh_version = 0x10, mh_ie = False,
     mh_seq = Some 7, mh_dst_pan = Some [0xCD, 0xAB], mh_dst = Short_Addr [1, 2], mh_src_pan = None,
     mh_src = Ext_Addr [1, 2, 3, 4, 5, 6, 7, 8]\<rparr>"

lemma demo_header_ok: "header_ok demo_header"
  by (simp add: header_ok_def demo_header_def pan_ids_def pan_ids_2006_def IEEE802154_FRAME_VERSION_2_def)

theorem parse_inverts_layout_witness:
  "ieee802154_frame_get_src_addr (header_bytes 20 demo_header @ [9, 9]) = Some (0xC0, Some [1, 2, 3, 4, 5, 6, 7, 8])"
  using parse_inverts_layout [OF demo_header_ok, of 20 "[9, 9]"] by (simp add: demo_header_def addr_result_def)

text \<open>C32: The payload offset of a complete frame of at most 127 bytes with a well-formed header (frame type 0
  to 3, known version, no reserved addressing mode) is always computed: no read is
  outside the frame, and the loop over the header IEs ends, whatever bytes follow the addresses.\<close>

theorem payload_offset_returns:
  assumes "header_ok h" "rest \<noteq> []" "unat len \<le> 127" "unat len < length (header_bytes len h @ rest)"
  shows "\<exists>n. ieee802154_frame_payload_offset (header_bytes len h @ rest) = Some n"
proof -
  let ?f = "header_bytes len h @ rest" and ?o = "of_nat (length (header_bytes len h)) :: byte"
  note pf = parse_fields [OF assms(1), of len rest] and off = security_header_offset_eq [OF assms(1), of len rest]
  note l = header_lengths [OF assms(1)]
  have "length (header_bytes len h) \<le> 24"
    using l(1-3,7,8) by (auto simp: header_bytes_def l(4) split: if_splits)
  then have uo: "unat ?o = length (header_bytes len h)" and no: "?o \<noteq> IEEE802154_FRAME_INVALID_OFFSET"
    by (auto simp: unat_of_nat IEEE802154_FRAME_INVALID_OFFSET_def dest: arg_cong [of _ _ unat])
  obtain b bs where rest: "rest = b # bs" using assms(2) by (cases rest) auto
  have rd: "frame_byte ?f (unat ?o) = Some b" by (simp add: uo frame_byte_def rest)
  obtain sl where sl: "ieee802154_frame_get_security_field_len ?f = Some sl"
    using no by (simp add: ieee802154_frame_get_security_field_len_def pf header_type_ok [OF assms(1)] off rd)
  have "\<exists>m. ieee802154_frame_get_mic_len ?f = Some m \<and> m \<in> {0, 4, 8, 16}"
    by (simp add: ieee802154_frame_get_mic_len_def off rd Let_def)
  then obtain m where m: "ieee802154_frame_get_mic_len ?f = Some m" "m \<in> {0, 4, 8, 16}" by blast
  have foot: "2 \<le> unat (m + IEEE802154_FRAME_FCS_SIZE)" using m(2) by (auto simp: IEEE802154_FRAME_FCS_SIZE_def)
  have hd: "?f ! 0 = len" by (simp add: header_bytes_def)
  have "\<exists>n. ieee802154_frame_get_ie_field_len ?f = Some n"
    unfolding ieee802154_frame_get_ie_field_len_def ieee802154_frame_ie_header_offset_def off sl m(1) bind.bind_lunit
    by (rule ie_field_loop_ends) (use assms(3,4) foot hd in simp_all)
  then obtain n where "ieee802154_frame_get_ie_field_len ?f = Some n" ..
  then show ?thesis
    by (simp add: ieee802154_frame_payload_offset_def off pf sl Let_def)
qed

theorem payload_offset_returns_witness:
  "\<exists>n. ieee802154_frame_payload_offset (header_bytes 17 demo_header @ [9, 9]) = Some n"
  by (rule payload_offset_returns [OF demo_header_ok])
     (simp_all add: header_bytes_def demo_header_def seq_list_def opt_list_def)

text \<open>Outside these bounds the payload offset is not computed.  A version-2 frame with a
  reserved addressing mode and the IE bit makes the parser read at offset 255 of a frame of 128
  bytes; and with a length byte of 255 the 8-bit length of the IEs wraps around and the loop runs for
  ever.  On a frame without security the IEs are looked for behind a security header that is not
  there: the frame that ends its IEs directly after the sequence number, whose payload is at 6, is
  given the offset 14 instead of 5.\<close>

definition unsecured_ie_frame :: "byte list" where
  "unsecured_ie_frame = [20, 0x01, 0x22, 7, 0x80, 0x3f, 1, 2, 3, 9, 0, 6, 7, 8, 9, 10, 11, 12, 13, 14, 15]"

definition reserved_mode_frame :: "byte list" where
  "reserved_mode_frame = [127, 0x09, 0x26, 0] @ replicate 124 0"

definition endless_frame :: "byte list" where
  "endless_frame = [255, 0x09, 0x22, 0, 0x20, 126, 0] @ replicate 126 0 @ [126, 0] @ replicate 121 0"

lemma endless_frame_bytes:
  "frame_byte endless_frame 0 = Some 255" "frame_byte endless_frame 1 = Some 0x09"
  "frame_byte endless_frame 2 = Some 0x22" "frame_byte endless_frame 4 = Some 0x20"
  "frame_byte endless_frame 5 = Some 126" "frame_byte endless_frame 6 = Some 0"
  "frame_byte endless_frame 133 = Some 126" "frame_byte endless_frame 134 = Some 0"
  by (simp_all add: frame_byte_def endless_frame_def nth_append)

lemma endless_loop_aux:
  assumes "ie_field_loop frame offset foot k = Some y"
  shows "frame = endless_frame \<and> offset = 5 \<and> foot = 2 \<and> k \<in> {0, 128} \<longrightarrow> False"
proof (rule ie_field_loop.raw_induct [where
    P = "\<lambda>frame offset foot k y. frame = endless_frame \<and> offset = 5 \<and> foot = 2 \<and> k \<in> {0, 128} \<longrightarrow> False",
    OF _ assms])
  note bytes = endless_frame_bytes endless_frame_bytes [unfolded One_nat_def] ieee_consts
  show "frame = endless_frame \<and> offset = 5 \<and> foot = 2 \<and> k \<in> {0, 128} \<longrightarrow> False"
    if ih: "\<And>frame offset foot k y. f frame offset foot k = Some y \<Longrightarrow>
        frame = endless_frame \<and> offset = 5 \<and> foot = 2 \<and> k \<in> {0, 128} \<longrightarrow> False"
      and step: "frame_byte frame 0 \<bind> (\<lambda>frame_len.
        if unat frame_len > unat offset + unat k + unat foot
        then frame_byte frame (unat offset + unat k + 1) \<bind> (\<lambda>hi.
             frame_byte frame (unat offset + unat k) \<bind> (\<lambda>lo.
             let ie_header = (push_bit 8 (ucast hi) OR ucast lo :: 16 word)
             in if ie_header AND IEEE802154_FRAME_IE_HEAD_ID_MASK = IEEE802154_IE_TYPE_HT2
                then Some (k + IEEE802154_FRAME_IE_HEAD_LEN)
                else f frame offset foot (k + (IEEE802154_FRAME_IE_HEAD_LEN +
                       ucast (ie_header AND IEEE802154_FRAME_IE_SUBFIELD_LEN_MASK)))))
        else Some k) = Some y" for f frame and offset foot k y :: byte
  proof
    assume b: "frame = endless_frame \<and> offset = 5 \<and> foot = 2 \<and> k \<in> {0, 128}"
    then consider (zero) "k = 0" | (wrap) "k = 128" by auto
    then show False
    proof cases
      case zero
      then have "f endless_frame 5 2 128 = Some y" using b step by (simp add: bytes)
      from ih [OF this] show False by simp
    next
      case wrap
      have w: "(256 :: byte) = 0" by (rule word_uint_eqI) simp
      from wrap have "f endless_frame 5 2 256 = Some y" using b step by (simp add: bytes)
      then have "f endless_frame 5 2 0 = Some y" by (simp only: w)
      from ih [OF this] show False by simp
    qed
  qed
qed

lemma endless_loop: "k \<in> {0, 128} \<Longrightarrow> ie_field_loop endless_frame 5 2 k = None"
  using endless_loop_aux [of endless_frame 5 2 k] by (cases "ie_field_loop endless_frame 5 2 k") auto

theorem payload_offset_can_fail:
  "length reserved_mode_frame = 128 \<and>
   ieee802154_frame_security_header_offset reserved_mode_frame = Some 255 \<and>
   ieee802154_frame_payload_offset reserved_mode_frame = None \<and>
   length endless_frame = 256 \<and> ieee802154_frame_payload_offset endless_frame = None \<and>
   is_security_enabled unsecured_ie_frame = Some False \<and>
   ieee802154_frame_security_header_offset unsecured_ie_frame = Some 4 \<and>
   ieee802154_frame_payload_offset unsecured_ie_frame = Some 14"
proof (intro conjI)
  note d = ieee802154_frame_payload_offset_def ieee802154_frame_security_header_offset_def
    ieee802154_frame_get_type_def ieee802154_frame_get_version_def is_suported_frame_type_def
    ieee802154_frame_address_offset_def is_dsn_present_def ieee802154_frame_address_size_def
    is_dst_panid_present_def is_src_panid_present_def dst_addr_mode_def src_addr_mode_def is_panid_compression_def
    is_security_enabled_def is_ie_present_def ieee802154_frame_get_security_field_len_def
    ieee802154_frame_get_ie_field_len_def ieee802154_frame_ie_header_offset_def ieee802154_frame_get_mic_len_def
    frame_bit_def dst_addr_size_def src_addr_size_def addr_mode_size_def key_id_mode_size_def Let_def
  have rb: "frame_byte reserved_mode_frame (Suc 0) = Some 0x09" "frame_byte reserved_mode_frame 2 = Some 0x26"
    "frame_byte reserved_mode_frame 255 = None"
    by (simp_all add: frame_byte_def reserved_mode_frame_def)
  show "length reserved_mode_frame = 128" "length endless_frame = 256"
    by (simp_all add: reserved_mode_frame_def endless_frame_def)
  show "ieee802154_frame_security_header_offset reserved_mode_frame = Some 255"
    by (simp add: d rb ieee_consts)
  show "ieee802154_frame_payload_offset reserved_mode_frame = None"
    by (simp add: d rb ieee_consts)
  show "ieee802154_frame_payload_offset endless_frame = None"
    by (simp add: d endless_frame_bytes [unfolded One_nat_def] ieee_consts endless_loop)
  note u = unsecured_ie_frame_def frame_byte_def
  show "is_security_enabled unsecured_ie_frame = Some False"
    "ieee802154_frame_security_header_offset unsecured_ie_frame = Some 4"
    by (simp_all add: d u ieee_consts)
  have b: "frame_byte unsecured_ie_frame 0 = Some 20" "frame_byte unsecured_ie_frame 9 = Some 9"
    "frame_byte unsecured_ie_frame 10 = Some 0"
    by (simp_all add: u)
  have end11: "ie_field_loop unsecured_ie_frame 9 2 11 = Some 11"
    by (subst ie_field_loop.simps) (simp add: b)
  have "ie_field_loop unsecured_ie_frame 9 2 0 = Some 11"
    by (subst ie_field_loop.simps) (simp add: b ieee_consts end11)
  then show "ieee802154_frame_payload_offset unsecured_ie_frame = Some 14"
    by (simp add: d u ieee_consts)
qed

section \<open>The pending table\<close>

text \<open>C34: After any sequence of additions, removals and resets of short and extended addresses, the
  table of \<open>n\<close> entries is two sets of at most \<open>n\<close> addresses that do not disturb each other: the lookup
  answers membership, an addition succeeds exactly for a member or when there is room, a removal exactly
  for a member.\<close>

theorem pending_table_is_two_bounded_sets:
  assumes "0 < n" "\<forall>op \<in> set os. pending_op_ok op"
  shows "\<exists>t. run_pending os (empty_table n) = Some t \<and>
    (\<forall>b a. length a = addr_bytes b \<longrightarrow>
       ieee802154_addr_in_pending_table a b t = Some (a \<in> set_spec n (ops_of b os) {}) \<and>
       (\<exists>t1 e. ieee802154_add_pending_addr a b t = Some (t1, e) \<and>
          (e = ESP_OK \<longleftrightarrow> a \<in> set_spec n (ops_of b os) {} \<or> card (set_spec n (ops_of b os) {}) < n)) \<and>
       (\<exists>t1 e. ieee802154_clear_pending_addr a b t = Some (t1, e) \<and>
          (e = ESP_OK \<longleftrightarrow> a \<in> set_spec n (ops_of b os) {})))"
proof -
  obtain t where t: "run_pending os (empty_table n) = Some t" "pending_table_ok t"
    "\<forall>b. pending_cap b t = n" "\<forall>b. pending_set b t = set_spec n (ops_of b os) {}"
    using run_pending_spec [OF empty_table_ok(1) [OF assms(1)] assms(2)] empty_table_ok(2,3) [OF assms(1)] by auto
  show ?thesis
    by (rule exI [of _ t])
       (use t in_table_eq [OF t(2)] add_pending_eq [OF t(2)] clear_pending_eq [OF t(2)] in simp)
qed

theorem pending_table_is_two_bounded_sets_witness:
  "\<exists>t. run_pending [PAdd True [1, 2], PAdd True [3, 4], PClear True [1, 2], PReset False] (empty_table 1) = Some t \<and>
    ieee802154_addr_in_pending_table [3, 4] True t = Some False"
proof -
  have "\<forall>op \<in> set [PAdd True [1, 2], PAdd True [3, 4], PClear True [1, 2], PReset False]. pending_op_ok op" by simp
  from pending_table_is_two_bounded_sets [OF _ this, of 1] obtain t where
    "run_pending [PAdd True [1, 2], PAdd True [3, 4], PClear True [1, 2], PReset False] (empty_table 1) = Some t"
    "\<forall>b a. length a = addr_bytes b \<longrightarrow> ieee802154_addr_in_pending_table a b t =
       Some (a \<in> set_spec 1 (ops_of b [PAdd True [1, 2], PAdd True [3, 4], PClear True [1, 2], PReset False]) {})"
    by auto
  then show ?thesis by (auto simp: ops_of_def)
qed

text \<open>C35: The pending bit of the acknowledgement of a received frame is decided by its source address:
  membership in the half of its kind when automatic pending is on, its negation for short addresses in
  the Zigbee mode, and always set when it is off; it is written to the hardware exactly for the frame
  versions 0 and 1.\<close>

theorem pending_bit_follows_source_address:
  assumes "header_ok h" "0 < n" "\<forall>op \<in> set os. pending_op_ok op"
  shows "\<exists>t. run_pending os (empty_table n) = Some t \<and>
    ieee802154_ack_config_pending_bit mode t (header_bytes len h @ rest) =
      (let hit = (case mh_src h of No_Addr \<Rightarrow> False
                  | Short_Addr a \<Rightarrow> a \<in> set_spec n (ops_of True os) {}
                  | Ext_Addr a \<Rightarrow> a \<in> set_spec n (ops_of False os) {});
           b = (case mode of IEEE802154_AUTO_PENDING_DISABLE \<Rightarrow> True
                | IEEE802154_AUTO_PENDING_ZIGBEE \<Rightarrow> \<not> (hit \<and> src_bits (mh_src h) = 0x80)
                | _ \<Rightarrow> hit)
       in Some (b, if mh_version h \<in> {0, 0x10} then Some b else None))"
proof -
  obtain t where t: "run_pending os (empty_table n) = Some t" "pending_table_ok t"
    "\<forall>b. pending_set b t = set_spec n (ops_of b os) {}"
    using run_pending_spec [OF empty_table_ok(1) [OF assms(2)] assms(3)] empty_table_ok(2,3) [OF assms(2)] by auto
  have v: "mh_version h = 0x20 \<longleftrightarrow> \<not> (mh_version h = 0 \<or> mh_version h = 0x10)" using assms(1) by (auto simp: header_ok_def)
  show ?thesis
    by (rule exI [of _ t])
       (cases mode; cases "mh_src h"; simp add: ack_pending_bit_eq [OF assms(1) t(2)] t(1,3) v Let_def)
qed

theorem pending_bit_follows_source_address_witness:
  "\<exists>t. run_pending [PAdd False [1, 2, 3, 4, 5, 6, 7, 8]] (empty_table 4) = Some t \<and>
    ieee802154_ack_config_pending_bit IEEE802154_AUTO_PENDING_ENABLE t (header_bytes 20 demo_header @ []) =
      Some (True, Some True)"
  using pending_bit_follows_source_address [OF demo_header_ok, of 4 "[PAdd False [1, 2, 3, 4, 5, 6, 7, 8]]"
      IEEE802154_AUTO_PENDING_ENABLE 20 "[]"]
  by (simp add: ops_of_def demo_header_def)

section \<open>The information base\<close>

text \<open>C36: Whatever calls follow the initialisation, and whatever the registers held before, an update
  leaves the radio with exactly the values set last: the registers are those of the information base on
  which the calls act as plain field updates.\<close>

theorem update_programs_last_values:
  "regs_match (fold pib_spec os (pib_defaults thr md)) (regs (run_pib (PibInit thr md # os @ [PibUpdate]) st)) \<and>
   s_ieee802154_pib (run_pib (PibInit thr md # os @ [PibUpdate]) st) = fold pib_spec os (pib_defaults thr md) \<and>
   \<not> is_pending (run_pib (PibInit thr md # os @ [PibUpdate]) st)"
proof -
  let ?st = "run_pib (PibInit thr md # os) st"
  have "pib_synced (ieee802154_pib_init thr md st)" by (simp add: pib_synced_def ieee802154_pib_init_def)
  then have "pib_synced ?st" using run_pib_synced [of "ieee802154_pib_init thr md st" os] by (simp add: run_pib_def)
  moreover have "s_ieee802154_pib ?st = fold pib_spec os (pib_defaults thr md)" by (simp add: run_pib_spec)
  moreover have "run_pib (PibInit thr md # os @ [PibUpdate]) st = ieee802154_pib_update ?st" by (simp add: run_pib_def)
  ultimately show ?thesis using update_matches [of ?st] pib_step_spec [of PibUpdate ?st] by simp
qed

text \<open>The conversions to register values stay in range: on the channels 11 to 26 the frequency is
  computed without wrap-around and the conversion back is its inverse; every power, as a signed byte,
  gives an index from 3 to 15, and more power never a smaller index.\<close>

theorem radio_conversions_in_range:
  "(\<forall>c. 11 \<le> c \<and> c \<le> 26 \<longrightarrow> uint (ieee802154_channel_to_freq c) = 5 * (uint c - 11) + 3 \<and>
      ieee802154_freq_to_channel (ieee802154_channel_to_freq c) = c) \<and>
   (\<forall>p. 3 \<le> ieee802154_txpower_convert p \<and> ieee802154_txpower_convert p \<le> 15) \<and>
   (\<forall>p q. sint p \<le> sint q \<longrightarrow> ieee802154_txpower_convert p \<le> ieee802154_txpower_convert q)"
  using channel_freq power_index_bounds power_index_mono by (simp add: word_le_def txpower_convert_eq)

theorem radio_conversions_in_range_witness:
  "ieee802154_freq_to_channel (ieee802154_channel_to_freq 26) = 26"
  using radio_conversions_in_range by simp

end
