(* ===== verification/Partition.thy ===== *)
theory Partition
  imports Prelude
begin

text \<open>
  Partitions and the flash they lie on: the search functions of
  \<open>components/esp_partition/partition.c\<close> over the loaded table, and the access functions of
  \<open>partition_target.c\<close>.  The flash chip is a memory of bytes: erasing a sector sets its bytes to
  \<open>0xFF\<close> and programming a byte clears bits of it.  \<open>faults\<close> is the result of the next calls of the
  driver (success when the list is empty); a call that fails changes nothing.  \<open>power\<close> is the number
  of sectors that can still be erased and bytes that can still be programmed before the supply fails,
  or \<open>None\<close>: a state in which it is 0 is what the next start of the device finds.
\<close>

section \<open>The partition table\<close>

record esp_partition_t =
  ptype :: nat
  subtype :: nat
  address :: nat
  psize :: nat
  erase_size :: nat
  label :: string
  encrypted :: bool
  readonly :: bool

definition ESP_PARTITION_TYPE_APP :: nat where "ESP_PARTITION_TYPE_APP = 0x00"
definition ESP_PARTITION_TYPE_DATA :: nat where "ESP_PARTITION_TYPE_DATA = 0x01"
definition ESP_PARTITION_TYPE_BOOTLOADER :: nat where "ESP_PARTITION_TYPE_BOOTLOADER = 0x02"
definition ESP_PARTITION_TYPE_PARTITION_TABLE :: nat where "ESP_PARTITION_TYPE_PARTITION_TABLE = 0x03"
definition ESP_PARTITION_TYPE_ANY :: nat where "ESP_PARTITION_TYPE_ANY = 0xff"
definition ESP_PARTITION_SUBTYPE_APP_FACTORY :: nat where "ESP_PARTITION_SUBTYPE_APP_FACTORY = 0x00"
definition ESP_PARTITION_SUBTYPE_APP_OTA_MIN :: nat where "ESP_PARTITION_SUBTYPE_APP_OTA_MIN = 0x10"
definition ESP_PARTITION_SUBTYPE_APP_OTA_MAX :: nat where
  "ESP_PARTITION_SUBTYPE_APP_OTA_MAX = ESP_PARTITION_SUBTYPE_APP_OTA_MIN + 16"
definition ESP_PARTITION_SUBTYPE_APP_TEST :: nat where "ESP_PARTITION_SUBTYPE_APP_TEST = 0x20"
definition ESP_PARTITION_SUBTYPE_DATA_OTA :: nat where "ESP_PARTITION_SUBTYPE_DATA_OTA = 0x00"
definition ESP_PARTITION_SUBTYPE_ANY :: nat where "ESP_PARTITION_SUBTYPE_ANY = 0xff"

lemmas partition_consts =
  ESP_PARTITION_TYPE_APP_def ESP_PARTITION_TYPE_DATA_def ESP_PARTITION_TYPE_BOOTLOADER_def
  ESP_PARTITION_TYPE_PARTITION_TABLE_def ESP_PARTITION_TYPE_ANY_def ESP_PARTITION_SUBTYPE_APP_FACTORY_def
  ESP_PARTITION_SUBTYPE_APP_OTA_MIN_def ESP_PARTITION_SUBTYPE_APP_OTA_MAX_def ESP_PARTITION_SUBTYPE_APP_TEST_def
  ESP_PARTITION_SUBTYPE_DATA_OTA_def ESP_PARTITION_SUBTYPE_ANY_def

text \<open>The loop of \<open>esp_partition_next\<close>: the first item from here on that matches, and the items
  after it.\<close>

fun esp_partition_next :: "nat \<Rightarrow> nat \<Rightarrow> string option \<Rightarrow> esp_partition_t list \<Rightarrow>
    (esp_partition_t \<times> esp_partition_t list) option" where
  "esp_partition_next ty sub lbl [] = None"
| "esp_partition_next ty sub lbl (p # ps) =
     (if ty \<noteq> ESP_PARTITION_TYPE_ANY \<and> ty \<noteq> ptype p then esp_partition_next ty sub lbl ps
      else if sub \<noteq> ESP_PARTITION_SUBTYPE_ANY \<and> sub \<noteq> subtype p then esp_partition_next ty sub lbl ps
      else if lbl \<noteq> None \<and> lbl \<noteq> Some (label p) then esp_partition_next ty sub lbl ps
      else Some (p, ps))"

definition esp_partition_find :: "nat \<Rightarrow> nat \<Rightarrow> string option \<Rightarrow> esp_partition_t list \<Rightarrow>
    (esp_partition_t \<times> esp_partition_t list) option" where
  "esp_partition_find ty sub lbl parts =
     (if ty = ESP_PARTITION_TYPE_ANY \<and> sub \<noteq> ESP_PARTITION_SUBTYPE_ANY then None
      else esp_partition_next ty sub lbl parts)"

definition esp_partition_find_first :: "nat \<Rightarrow> nat \<Rightarrow> string option \<Rightarrow> esp_partition_t list \<Rightarrow> esp_partition_t option" where
  "esp_partition_find_first ty sub lbl parts = map_option fst (esp_partition_find ty sub lbl parts)"

text \<open>The loop of \<open>esp_partition_verify\<close> over the items the iterator stops at.\<close>

function verify_loop :: "esp_partition_t \<Rightarrow> nat \<Rightarrow> nat \<Rightarrow> string option \<Rightarrow>
    (esp_partition_t \<times> esp_partition_t list) option \<Rightarrow> esp_partition_t option" where
  "verify_loop q ty sub lbl None = None"
| "verify_loop q ty sub lbl (Some (p, rest)) =
     (if address p = address q \<and> psize q = psize p \<and> encrypted q = encrypted p then Some p
      else verify_loop q ty sub lbl (esp_partition_next ty sub lbl rest))"
  by pat_completeness auto

lemma esp_partition_next_shorter: "esp_partition_next ty sub lbl ps = Some (p, rest) \<Longrightarrow> length rest < length ps"
  by (induction ps) (auto split: if_splits)

termination verify_loop
  by (relation "measure (\<lambda>(q, ty, sub, lbl, it). case it of None \<Rightarrow> 0 | Some (p, rest) \<Rightarrow> Suc (length rest))")
     (auto split: option.splits dest: esp_partition_next_shorter)

definition esp_partition_verify :: "esp_partition_t \<Rightarrow> esp_partition_t list \<Rightarrow> esp_partition_t option" where
  "esp_partition_verify q parts =
     (let lbl = (if label q \<noteq> [] then Some (label q) else None)
      in verify_loop q (ptype q) (subtype q) lbl (esp_partition_find (ptype q) (subtype q) lbl parts))"

section \<open>The flash chip\<close>

record flash =
  mem :: "nat \<Rightarrow> byte"
  faults :: "esp_err_t list"
  power :: "nat option"

definition SPI_FLASH_SEC_SIZE :: nat where "SPI_FLASH_SEC_SIZE = 4096"

definition take_fault :: "flash \<Rightarrow> esp_err_t \<times> flash" where
  "take_fault f = (case faults f of [] \<Rightarrow> (ESP_OK, f) | e # es \<Rightarrow> (e, f\<lparr>faults := es\<rparr>))"

definition powered :: "nat \<Rightarrow> flash \<Rightarrow> nat" where
  "powered n f = (case power f of None \<Rightarrow> n | Some k \<Rightarrow> min k n)"

definition use_power :: "nat \<Rightarrow> flash \<Rightarrow> flash" where
  "use_power n f = f\<lparr>power := map_option (\<lambda>k. k - n) (power f)\<rparr>"

definition flash_bytes :: "nat \<Rightarrow> nat \<Rightarrow> flash \<Rightarrow> byte list" where
  "flash_bytes a n f = map (\<lambda>i. mem f (a + i)) [0..<n]"

definition program_bytes :: "nat \<Rightarrow> byte list \<Rightarrow> (nat \<Rightarrow> byte) \<Rightarrow> nat \<Rightarrow> byte" where
  "program_bytes a bs m = (\<lambda>x. if a \<le> x \<and> x < a + length bs then m x AND bs ! (x - a) else m x)"

definition erase_bytes :: "nat \<Rightarrow> nat \<Rightarrow> (nat \<Rightarrow> byte) \<Rightarrow> nat \<Rightarrow> byte" where
  "erase_bytes a n m = (\<lambda>x. if a \<le> x \<and> x < a + n then 0xFF else m x)"

definition esp_flash_write :: "nat \<Rightarrow> byte list \<Rightarrow> flash \<Rightarrow> esp_err_t \<times> flash" where
  "esp_flash_write a bs f =
     (let (e, f1) = take_fault f
      in if e \<noteq> ESP_OK then (e, f1)
         else let n = powered (length bs) f1
              in (ESP_OK, use_power n (f1\<lparr>mem := program_bytes a (take n bs) (mem f1)\<rparr>)))"

definition esp_flash_erase_region :: "nat \<Rightarrow> nat \<Rightarrow> flash \<Rightarrow> esp_err_t \<times> flash" where
  "esp_flash_erase_region a n f =
     (let (e, f1) = take_fault f
      in if e \<noteq> ESP_OK then (e, f1)
         else let k = powered (n div SPI_FLASH_SEC_SIZE) f1
              in (ESP_OK, use_power k (f1\<lparr>mem := erase_bytes a (k * SPI_FLASH_SEC_SIZE) (mem f1)\<rparr>)))"

section \<open>Access to partitions\<close>

definition esp_partition_write :: "esp_partition_t \<Rightarrow> nat \<Rightarrow> byte list \<Rightarrow> flash \<Rightarrow> esp_err_t \<times> flash" where
  "esp_partition_write p dst_offset src f =
     (if readonly p then (ESP_ERR_NOT_ALLOWED, f)
      else if dst_offset > psize p then (ESP_ERR_INVALID_ARG, f)
      else if length src > psize p - dst_offset then (ESP_ERR_INVALID_SIZE, f)
      else if \<not> encrypted p then esp_flash_write (address p + dst_offset) src f
      else if (address p + dst_offset) mod 16 \<noteq> 0 then (ESP_ERR_INVALID_ARG, f)
      else if length src mod 16 \<noteq> 0 then (ESP_ERR_INVALID_SIZE, f)
      else esp_flash_write (address p + dst_offset) src f)"

definition esp_partition_erase_range :: "esp_partition_t \<Rightarrow> nat \<Rightarrow> nat \<Rightarrow> flash \<Rightarrow> esp_err_t \<times> flash" where
  "esp_partition_erase_range p off sz f =
     (if readonly p then (ESP_ERR_NOT_ALLOWED, f)
      else if off > psize p then (ESP_ERR_INVALID_ARG, f)
      else if sz > psize p - off then (ESP_ERR_INVALID_SIZE, f)
      else if sz mod SPI_FLASH_SEC_SIZE \<noteq> 0 then (ESP_ERR_INVALID_SIZE, f)
      else if off mod SPI_FLASH_SEC_SIZE \<noteq> 0 then (ESP_ERR_INVALID_ARG, f)
      else esp_flash_erase_region (address p + off) sz f)"

text \<open>Mapping a range for reading: the driver may fail.\<close>

definition esp_partition_mmap :: "esp_partition_t \<Rightarrow> nat \<Rightarrow> nat \<Rightarrow> flash \<Rightarrow> esp_err_t \<times> flash" where
  "esp_partition_mmap p off sz f =
     (if off > psize p then (ESP_ERR_INVALID_ARG, f)
      else if sz > psize p - off then (ESP_ERR_INVALID_SIZE, f)
      else take_fault f)"

end
