(* ===== verification/Ota.thy ===== *)
theory Ota
  imports Partition
begin

text \<open>
  Selection of the app to boot.  The OTA data partition holds two select entries in two sectors.  The
  app side is \<open>components/app_update/esp_ota_ops.c\<close>, the boot loader side
  \<open>components/bootloader_support/src/bootloader_utility.c\<close>, and both use
  \<open>bootloader_common_loader.c\<close>.  The build is the one without anti-rollback; \<open>rollback\<close> says whether
  \<open>CONFIG_BOOTLOADER_APP_ROLLBACK_ENABLE\<close> is set.  The CRC of the ROM is the parameter \<open>rom_crc\<close>, the
  check of an app image the parameter \<open>image_ok\<close>.
\<close>

section \<open>Select entries\<close>

definition ESP_OTA_IMG_NEW :: "32 word" where "ESP_OTA_IMG_NEW = 0x0"
definition ESP_OTA_IMG_PENDING_VERIFY :: "32 word" where "ESP_OTA_IMG_PENDING_VERIFY = 0x1"
definition ESP_OTA_IMG_VALID :: "32 word" where "ESP_OTA_IMG_VALID = 0x2"
definition ESP_OTA_IMG_INVALID :: "32 word" where "ESP_OTA_IMG_INVALID = 0x3"
definition ESP_OTA_IMG_ABORTED :: "32 word" where "ESP_OTA_IMG_ABORTED = 0x4"
definition ESP_OTA_IMG_UNDEFINED :: "32 word" where "ESP_OTA_IMG_UNDEFINED = 0xFFFFFFFF"

lemmas img_states = ESP_OTA_IMG_NEW_def ESP_OTA_IMG_PENDING_VERIFY_def ESP_OTA_IMG_VALID_def
  ESP_OTA_IMG_INVALID_def ESP_OTA_IMG_ABORTED_def ESP_OTA_IMG_UNDEFINED_def

record esp_ota_select_entry_t =
  ota_seq :: "32 word"
  seq_label :: "byte list"
  ota_state :: "32 word"
  crc :: "32 word"

definition word_bytes :: "32 word \<Rightarrow> byte list" where
  "word_bytes w = bytes_of_nat 4 (unat w)"

definition bytes_word :: "byte list \<Rightarrow> 32 word" where
  "bytes_word bs = of_nat (nat_of_bytes bs)"

definition select_bytes :: "esp_ota_select_entry_t \<Rightarrow> byte list" where
  "select_bytes e = word_bytes (ota_seq e) @ seq_label e @ word_bytes (ota_state e) @ word_bytes (crc e)"

definition select_of_bytes :: "byte list \<Rightarrow> esp_ota_select_entry_t" where
  "select_of_bytes bs =
     \<lparr>ota_seq = bytes_word (take 4 bs), seq_label = take 20 (drop 4 bs),
      ota_state = bytes_word (take 4 (drop 24 bs)), crc = bytes_word (take 4 (drop 28 bs))\<rparr>"

definition read_select :: "nat \<Rightarrow> flash \<Rightarrow> esp_ota_select_entry_t" where
  "read_select a f = select_of_bytes (flash_bytes a 32 f)"

section \<open>The active entry\<close>

type_synonym rom_crc = "32 word \<Rightarrow> byte list \<Rightarrow> 32 word"

definition bootloader_common_ota_select_crc :: "rom_crc \<Rightarrow> esp_ota_select_entry_t \<Rightarrow> 32 word" where
  "bootloader_common_ota_select_crc rom_crc s = rom_crc 0xFFFFFFFF (word_bytes (ota_seq s))"

definition bootloader_common_ota_select_invalid :: "esp_ota_select_entry_t \<Rightarrow> bool" where
  "bootloader_common_ota_select_invalid s \<longleftrightarrow>
     ota_seq s = 0xFFFFFFFF \<or> ota_state s = ESP_OTA_IMG_INVALID \<or> ota_state s = ESP_OTA_IMG_ABORTED"

definition bootloader_common_ota_select_valid :: "rom_crc \<Rightarrow> esp_ota_select_entry_t \<Rightarrow> bool" where
  "bootloader_common_ota_select_valid rom_crc s \<longleftrightarrow>
     \<not> bootloader_common_ota_select_invalid s \<and> crc s = bootloader_common_ota_select_crc rom_crc s"

text \<open>\<open>-1\<close> is \<open>None\<close>.\<close>

definition bootloader_common_select_otadata ::
  "esp_ota_select_entry_t list \<Rightarrow> bool list \<Rightarrow> bool \<Rightarrow> nat option" where
  "bootloader_common_select_otadata two valid mx =
     (if valid ! 0 \<and> valid ! 1
      then let condition = (if mx then max (ota_seq (two ! 0)) (ota_seq (two ! 1))
                            else min (ota_seq (two ! 0)) (ota_seq (two ! 1)))
           in if condition = ota_seq (two ! 0) then Some 0 else Some 1
      else if valid ! 0 then Some 0
      else if valid ! 1 then Some 1
      else None)"

definition bootloader_common_get_active_otadata :: "rom_crc \<Rightarrow> esp_ota_select_entry_t list \<Rightarrow> nat option" where
  "bootloader_common_get_active_otadata rom_crc two =
     bootloader_common_select_otadata two
       [bootloader_common_ota_select_valid rom_crc (two ! 0), bootloader_common_ota_select_valid rom_crc (two ! 1)] True"

section \<open>The app side\<close>

definition read_otadata ::
  "esp_partition_t list \<Rightarrow> flash \<Rightarrow> (esp_partition_t \<times> esp_ota_select_entry_t list) option \<times> flash" where
  "read_otadata parts f =
     (case esp_partition_find_first ESP_PARTITION_TYPE_DATA ESP_PARTITION_SUBTYPE_DATA_OTA None parts of
        None \<Rightarrow> (None, f)
      | Some p \<Rightarrow>
          let (e, f1) = esp_partition_mmap p 0 (psize p) f
          in if e \<noteq> ESP_OK then (None, f1)
             else (Some (p, [read_select (address p) f1, read_select (address p + erase_size p) f1]), f1))"

definition set_new_state_otadata :: "bool \<Rightarrow> 32 word" where
  "set_new_state_otadata rollback = (if rollback then ESP_OTA_IMG_NEW else ESP_OTA_IMG_UNDEFINED)"

definition rewrite_ota_seq ::
  "rom_crc \<Rightarrow> esp_ota_select_entry_t list \<Rightarrow> 32 word \<Rightarrow> nat \<Rightarrow> esp_partition_t \<Rightarrow> flash \<Rightarrow> esp_err_t \<times> flash" where
  "rewrite_ota_seq rom_crc two seq sec_id p f =
     (if sec_id > 1 then (ESP_ERR_INVALID_ARG, f)
      else let e = (two ! sec_id)\<lparr>ota_seq := seq\<rparr>;
               e = e\<lparr>crc := bootloader_common_ota_select_crc rom_crc e\<rparr>;
               (ret, f1) = esp_partition_erase_range p (sec_id * erase_size p) (erase_size p) f
           in if ret \<noteq> ESP_OK then (ret, f1)
              else esp_partition_write p (erase_size p * sec_id) (select_bytes e) f1)"

text \<open>The count asserts that it has not passed 16 slots.\<close>

function count_from :: "esp_partition_t list \<Rightarrow> nat \<Rightarrow> nat option" where
  "count_from parts c =
     (if esp_partition_find_first ESP_PARTITION_TYPE_APP (ESP_PARTITION_SUBTYPE_APP_OTA_MIN + c) None parts \<noteq> None
      then if c < 16 then count_from parts (c + 1) else None
      else Some c)"
  by pat_completeness auto
termination by (relation "measure (\<lambda>(parts, c). 17 - c)") auto

definition esp_ota_get_app_partition_count :: "esp_partition_t list \<Rightarrow> nat option" where
  "esp_ota_get_app_partition_count parts = count_from parts 0"

definition SUB_TYPE_ID :: "nat \<Rightarrow> nat" where
  "SUB_TYPE_ID i = i mod 16"

text \<open>The search for the next sequence number of a slot, in 32 bits.\<close>

partial_function (option) next_seq :: "32 word \<Rightarrow> 32 word \<Rightarrow> 32 word \<Rightarrow> 32 word \<Rightarrow> 32 word option" where
  "next_seq seq b n i = (if seq > b + i * n then next_seq seq b n (i + 1) else Some (b + i * n))"

definition esp_rewrite_ota_data ::
  "bool \<Rightarrow> rom_crc \<Rightarrow> esp_partition_t list \<Rightarrow> nat \<Rightarrow> flash \<Rightarrow> (esp_err_t \<times> flash) option" where
  "esp_rewrite_ota_data rollback rom_crc parts sub f =
     (case read_otadata parts f of
        (None, f1) \<Rightarrow> Some (ESP_ERR_NOT_FOUND, f1)
      | (Some (p, otadata), f1) \<Rightarrow> do {
          n \<leftarrow> esp_ota_get_app_partition_count parts;
          if SUB_TYPE_ID sub \<ge> n then Some (ESP_ERR_INVALID_ARG, f1)
          else case bootloader_common_get_active_otadata rom_crc otadata of
                 Some active \<Rightarrow> do {
                   seq \<leftarrow> next_seq (ota_seq (otadata ! active)) (of_nat ((SUB_TYPE_ID sub + 1) mod n)) (of_nat n) 0;
                   let nxt = 1 - active;
                   let otadata = otadata[nxt := (otadata ! nxt)\<lparr>ota_state := set_new_state_otadata rollback\<rparr>];
                   Some (rewrite_ota_seq rom_crc otadata seq nxt p f1)
                 }
               | None \<Rightarrow>
                   let otadata = otadata[0 := (otadata ! 0)\<lparr>ota_state := set_new_state_otadata rollback\<rparr>]
                   in Some (rewrite_ota_seq rom_crc otadata (of_nat (SUB_TYPE_ID sub + 1)) 0 p f1)
        })"

definition esp_ota_set_boot_partition ::
  "bool \<Rightarrow> rom_crc \<Rightarrow> (esp_partition_t \<Rightarrow> bool) \<Rightarrow> esp_partition_t list \<Rightarrow> esp_partition_t option \<Rightarrow> flash
     \<Rightarrow> (esp_err_t \<times> flash) option" where
  "esp_ota_set_boot_partition rollback rom_crc image_ok parts part f =
     (case part of
        None \<Rightarrow> Some (ESP_ERR_INVALID_ARG, f)
      | Some p \<Rightarrow>
          if \<not> image_ok p then Some (ESP_ERR_OTA_VALIDATE_FAILED, f)
          else if ptype p = ESP_PARTITION_TYPE_APP
          then if subtype p = ESP_PARTITION_SUBTYPE_APP_FACTORY
               then (case esp_partition_find_first ESP_PARTITION_TYPE_DATA ESP_PARTITION_SUBTYPE_DATA_OTA None parts of
                       Some d \<Rightarrow> Some (esp_partition_erase_range d 0 (psize d) f)
                     | None \<Rightarrow> Some (ESP_ERR_NOT_FOUND, f))
               else esp_rewrite_ota_data rollback rom_crc parts (subtype p) f
          else Some (ESP_ERR_INVALID_ARG, f))"

definition find_app :: "esp_partition_t list \<Rightarrow> nat \<Rightarrow> esp_partition_t option" where
  "find_app parts sub = esp_partition_find_first ESP_PARTITION_TYPE_APP sub None parts"

text \<open>The loop over the OTA subtypes in ascending order.\<close>

fun first_ota :: "esp_partition_t list \<Rightarrow> nat list \<Rightarrow> esp_partition_t option" where
  "first_ota parts [] = None"
| "first_ota parts (s # ss) = (case find_app parts s of Some p \<Rightarrow> Some p | None \<Rightarrow> first_ota parts ss)"

definition find_default_boot_partition :: "esp_partition_t list \<Rightarrow> esp_partition_t option" where
  "find_default_boot_partition parts =
     (case find_app parts ESP_PARTITION_SUBTYPE_APP_FACTORY of
        Some p \<Rightarrow> Some p
      | None \<Rightarrow>
          (case first_ota parts [ESP_PARTITION_SUBTYPE_APP_OTA_MIN..<ESP_PARTITION_SUBTYPE_APP_OTA_MAX] of
             Some p \<Rightarrow> Some p
           | None \<Rightarrow> find_app parts ESP_PARTITION_SUBTYPE_APP_TEST))"

text \<open>The slot of a sequence number, computed in 32 bits.\<close>

definition slot_of :: "32 word \<Rightarrow> nat \<Rightarrow> nat" where
  "slot_of seq n = unat (seq - 1) mod n"

definition esp_ota_get_boot_partition ::
  "rom_crc \<Rightarrow> esp_partition_t list \<Rightarrow> flash \<Rightarrow> (esp_partition_t option \<times> flash) option" where
  "esp_ota_get_boot_partition rom_crc parts f =
     (case read_otadata parts f of
        (None, f1) \<Rightarrow> Some (None, f1)
      | (Some (p, otadata), f1) \<Rightarrow> do {
          n \<leftarrow> esp_ota_get_app_partition_count parts;
          Some (if (bootloader_common_ota_select_invalid (otadata ! 0) \<and>
                    bootloader_common_ota_select_invalid (otadata ! 1)) \<or> n = 0
                then find_default_boot_partition parts
                else case bootloader_common_get_active_otadata rom_crc otadata of
                       Some active \<Rightarrow>
                         find_app parts (ESP_PARTITION_SUBTYPE_APP_OTA_MIN + slot_of (ota_seq (otadata ! active)) n)
                     | None \<Rightarrow> find_default_boot_partition parts, f1)
        })"

text \<open>The partition the running code lies in; the code aborts when there is none.\<close>

fun running_loop :: "nat \<Rightarrow> esp_partition_t list \<Rightarrow> esp_partition_t option" where
  "running_loop phys_offs [] = None"
| "running_loop phys_offs (p # ps) =
     (if ptype p = ESP_PARTITION_TYPE_APP \<and> address p \<le> phys_offs \<and> address p + psize p > phys_offs
      then Some p else running_loop phys_offs ps)"

definition esp_ota_get_running_partition :: "nat \<Rightarrow> esp_partition_t list \<Rightarrow> esp_partition_t option" where
  "esp_ota_get_running_partition phys_offs parts = running_loop phys_offs parts"

text \<open>The loop over the slots: the default so far, and whether the start has been passed.\<close>

fun next_update_loop ::
  "esp_partition_t list \<Rightarrow> esp_partition_t \<Rightarrow> nat list \<Rightarrow> esp_partition_t option \<Rightarrow> bool \<Rightarrow> esp_partition_t option" where
  "next_update_loop parts start [] default_ota next_is_result = default_ota"
| "next_update_loop parts start (t # ts) default_ota next_is_result =
     (case find_app parts t of
        None \<Rightarrow> next_update_loop parts start ts default_ota next_is_result
      | Some p \<Rightarrow>
          let d = (if default_ota = None then Some p else default_ota)
          in if p = start then next_update_loop parts start ts d True
             else if next_is_result then Some p
             else next_update_loop parts start ts d next_is_result)"

text \<open>The outer \<open>None\<close> is the failed assertion that there is a start.\<close>

definition esp_ota_get_next_update_partition ::
  "nat \<Rightarrow> esp_partition_t list \<Rightarrow> esp_partition_t option \<Rightarrow> esp_partition_t option option" where
  "esp_ota_get_next_update_partition phys_offs parts start_from = do {
     start \<leftarrow> (case start_from of None \<Rightarrow> esp_ota_get_running_partition phys_offs parts
               | Some q \<Rightarrow> esp_partition_verify q parts);
     Some (next_update_loop parts start [ESP_PARTITION_SUBTYPE_APP_OTA_MIN..<ESP_PARTITION_SUBTYPE_APP_OTA_MAX] None False)
   }"

definition esp_ota_check_rollback_is_possible ::
  "rom_crc \<Rightarrow> (esp_partition_t \<Rightarrow> bool) \<Rightarrow> esp_partition_t list \<Rightarrow> flash \<Rightarrow> (bool \<times> flash) option" where
  "esp_ota_check_rollback_is_possible rom_crc image_ok parts f =
     (case read_otadata parts f of
        (None, f1) \<Rightarrow> Some (False, f1)
      | (Some (p, otadata), f1) \<Rightarrow> do {
          n \<leftarrow> esp_ota_get_app_partition_count parts;
          if n = 0 then Some (False, f1)
          else let valid = [bootloader_common_ota_select_valid rom_crc (otadata ! 0),
                            bootloader_common_ota_select_valid rom_crc (otadata ! 1)]
               in case bootloader_common_select_otadata otadata valid True of
                    None \<Rightarrow> Some (False, f1)
                  | Some active \<Rightarrow>
                      let last_active = 1 - active;
                          q = (if valid ! last_active
                               then find_app parts (ESP_PARTITION_SUBTYPE_APP_OTA_MIN + slot_of (ota_seq (otadata ! last_active)) n)
                               else find_app parts ESP_PARTITION_SUBTYPE_APP_FACTORY)
                      in Some (case q of None \<Rightarrow> False | Some a \<Rightarrow> image_ok a, f1)
        })"

text \<open>\<open>esp_restart\<close> does not return.\<close>

datatype workable_result = Returned esp_err_t | Restarted

definition esp_ota_current_ota_is_workable ::
  "rom_crc \<Rightarrow> (esp_partition_t \<Rightarrow> bool) \<Rightarrow> esp_partition_t list \<Rightarrow> bool \<Rightarrow> flash \<Rightarrow> (workable_result \<times> flash) option" where
  "esp_ota_current_ota_is_workable rom_crc image_ok parts valid f =
     (case read_otadata parts f of
        (None, f1) \<Rightarrow> Some (Returned ESP_ERR_NOT_FOUND, f1)
      | (Some (p, otadata), f1) \<Rightarrow>
          (case bootloader_common_get_active_otadata rom_crc otadata of
             None \<Rightarrow> Some (Returned ESP_FAIL, f1)
           | Some active \<Rightarrow> do {
               n \<leftarrow> esp_ota_get_app_partition_count parts;
               if n = 0 then Some (Returned ESP_FAIL, f1)
               else if valid \<and> ota_state (otadata ! active) \<noteq> ESP_OTA_IMG_VALID
               then let (err, f2) = rewrite_ota_seq rom_crc
                          (otadata[active := (otadata ! active)\<lparr>ota_state := ESP_OTA_IMG_VALID\<rparr>])
                          (ota_seq (otadata ! active)) active p f1
                    in Some (Returned err, f2)
               else if \<not> valid
               then do {
                 (possible, f2) \<leftarrow> esp_ota_check_rollback_is_possible rom_crc image_ok parts f1;
                 if \<not> possible then Some (Returned ESP_ERR_OTA_ROLLBACK_FAILED, f2)
                 else let (err, f3) = rewrite_ota_seq rom_crc
                            (otadata[active := (otadata ! active)\<lparr>ota_state := ESP_OTA_IMG_INVALID\<rparr>])
                            (ota_seq (otadata ! active)) active p f2
                      in Some (if err \<noteq> ESP_OK then Returned err else Restarted, f3)
               }
               else Some (Returned ESP_OK, f1)
             }))"

definition esp_ota_mark_app_valid_cancel_rollback ::
  "rom_crc \<Rightarrow> (esp_partition_t \<Rightarrow> bool) \<Rightarrow> esp_partition_t list \<Rightarrow> flash \<Rightarrow> (workable_result \<times> flash) option" where
  "esp_ota_mark_app_valid_cancel_rollback rom_crc image_ok parts f =
     esp_ota_current_ota_is_workable rom_crc image_ok parts True f"

definition esp_ota_mark_app_invalid_rollback_and_reboot ::
  "rom_crc \<Rightarrow> (esp_partition_t \<Rightarrow> bool) \<Rightarrow> esp_partition_t list \<Rightarrow> flash \<Rightarrow> (workable_result \<times> flash) option" where
  "esp_ota_mark_app_invalid_rollback_and_reboot rom_crc image_ok parts f =
     esp_ota_current_ota_is_workable rom_crc image_ok parts False f"

definition check_invalid_otadata :: "rom_crc \<Rightarrow> esp_ota_select_entry_t \<Rightarrow> bool" where
  "check_invalid_otadata rom_crc s \<longleftrightarrow>
     ota_seq s \<noteq> 0xFFFFFFFF \<and> crc s = bootloader_common_ota_select_crc rom_crc s \<and>
     (ota_state s = ESP_OTA_IMG_INVALID \<or> ota_state s = ESP_OTA_IMG_ABORTED)"

definition get_last_invalid_otadata :: "rom_crc \<Rightarrow> esp_ota_select_entry_t list \<Rightarrow> nat option" where
  "get_last_invalid_otadata rom_crc two =
     bootloader_common_select_otadata two
       [check_invalid_otadata rom_crc (two ! 0), check_invalid_otadata rom_crc (two ! 1)] False"

definition esp_ota_get_last_invalid_partition ::
  "rom_crc \<Rightarrow> (esp_partition_t \<Rightarrow> bool) \<Rightarrow> esp_partition_t list \<Rightarrow> flash \<Rightarrow> (esp_partition_t option \<times> flash) option" where
  "esp_ota_get_last_invalid_partition rom_crc image_ok parts f =
     (case read_otadata parts f of
        (None, f1) \<Rightarrow> Some (None, f1)
      | (Some (p, otadata), f1) \<Rightarrow> do {
          let invalid = get_last_invalid_otadata rom_crc otadata;
          n \<leftarrow> esp_ota_get_app_partition_count parts;
          Some (case invalid of
                  None \<Rightarrow> None
                | Some i \<Rightarrow>
                    if n = 0 then None
                    else case find_app parts (ESP_PARTITION_SUBTYPE_APP_OTA_MIN + slot_of (ota_seq (otadata ! i)) n) of
                           None \<Rightarrow> None
                         | Some q \<Rightarrow> if image_ok q then Some q else None, f1)
        })"

definition is_ota_partition :: "esp_partition_t option \<Rightarrow> bool" where
  "is_ota_partition q =
     (case q of None \<Rightarrow> False
      | Some p \<Rightarrow> ptype p = ESP_PARTITION_TYPE_APP \<and> subtype p \<ge> ESP_PARTITION_SUBTYPE_APP_OTA_MIN \<and>
                  subtype p < ESP_PARTITION_SUBTYPE_APP_OTA_MAX)"

text \<open>The result and the state written through the pointer, which is not null.\<close>

definition esp_ota_get_state_partition ::
  "rom_crc \<Rightarrow> esp_partition_t list \<Rightarrow> esp_partition_t option \<Rightarrow> flash \<Rightarrow> (esp_err_t \<times> 32 word option \<times> flash) option" where
  "esp_ota_get_state_partition rom_crc parts part f =
     (case part of
        None \<Rightarrow> Some (ESP_ERR_INVALID_ARG, None, f)
      | Some q \<Rightarrow>
          if \<not> is_ota_partition (Some q) then Some (ESP_ERR_NOT_SUPPORTED, None, f)
          else do {
            n \<leftarrow> esp_ota_get_app_partition_count parts;
            case read_otadata parts f of
              (None, f1) \<Rightarrow> Some (ESP_ERR_NOT_FOUND, None, f1)
            | (Some (p, otadata), f1) \<Rightarrow>
                if n = 0 then Some (ESP_ERR_NOT_FOUND, None, f1)
                else let req = subtype q - ESP_PARTITION_SUBTYPE_APP_OTA_MIN;
                         hit = (\<lambda>e. slot_of (ota_seq e) n = req \<and> crc e = bootloader_common_ota_select_crc rom_crc e)
                     in if hit (otadata ! 0) then Some (ESP_OK, Some (ota_state (otadata ! 0)), f1)
                        else if hit (otadata ! 1) then Some (ESP_OK, Some (ota_state (otadata ! 1)), f1)
                        else Some (ESP_ERR_NOT_FOUND, None, f1)
          })"

definition esp_ota_erase_last_boot_app_partition ::
  "rom_crc \<Rightarrow> nat \<Rightarrow> esp_partition_t list \<Rightarrow> flash \<Rightarrow> (esp_err_t \<times> flash) option" where
  "esp_ota_erase_last_boot_app_partition rom_crc phys_offs parts f =
     (case read_otadata parts f of
        (None, f1) \<Rightarrow> Some (ESP_FAIL, f1)
      | (Some (p, otadata), f1) \<Rightarrow> do {
          n \<leftarrow> esp_ota_get_app_partition_count parts;
          case bootloader_common_get_active_otadata rom_crc otadata of
            None \<Rightarrow> Some (ESP_FAIL, f1)
          | Some active \<Rightarrow>
              if n = 0 then Some (ESP_FAIL, f1)
              else let inactive = 1 - active; e = otadata ! inactive
                   in if ota_seq e = 0xFFFFFFFF \<or> crc e \<noteq> bootloader_common_ota_select_crc rom_crc e
                      then Some (ESP_FAIL, f1)
                      else case find_app parts (ESP_PARTITION_SUBTYPE_APP_OTA_MIN + slot_of (ota_seq e) n) of
                             None \<Rightarrow> Some (ESP_FAIL, f1)
                           | Some q \<Rightarrow> do {
                               running \<leftarrow> esp_ota_get_running_partition phys_offs parts;
                               if q = running then Some (ESP_FAIL, f1)
                               else let (err, f2) = esp_partition_erase_range q 0 (psize q) f1
                                    in if err \<noteq> ESP_OK then Some (err, f2)
                                       else Some (esp_partition_erase_range p (inactive * erase_size p) (erase_size p) f2)
                             }
        })"

section \<open>The boot loader side\<close>

definition FACTORY_INDEX :: int where "FACTORY_INDEX = - 1"
definition TEST_APP_INDEX :: int where "TEST_APP_INDEX = - 2"
definition INVALID_INDEX :: int where "INVALID_INDEX = - 99"
definition MAX_OTA_SLOTS :: nat where "MAX_OTA_SLOTS = 16"

lemmas boot_consts = FACTORY_INDEX_def TEST_APP_INDEX_def INVALID_INDEX_def MAX_OTA_SLOTS_def

record esp_partition_pos_t =
  pos_offset :: nat
  pos_size :: nat

record bootloader_state_t =
  ota_info :: esp_partition_pos_t
  factory :: esp_partition_pos_t
  test :: esp_partition_pos_t
  ota :: "esp_partition_pos_t list"
  app_count :: nat

definition no_pos :: esp_partition_pos_t where
  "no_pos = \<lparr>pos_offset = 0, pos_size = 0\<rparr>"

definition empty_bs :: bootloader_state_t where
  "empty_bs = \<lparr>ota_info = no_pos, factory = no_pos, test = no_pos, ota = replicate MAX_OTA_SLOTS no_pos, app_count = 0\<rparr>"

text \<open>One entry of the verified partition table.\<close>

definition load_entry :: "esp_partition_t \<Rightarrow> bootloader_state_t \<Rightarrow> bootloader_state_t" where
  "load_entry p bs =
     (let pos = \<lparr>pos_offset = address p, pos_size = psize p\<rparr>
      in if ptype p = ESP_PARTITION_TYPE_APP
         then if subtype p = ESP_PARTITION_SUBTYPE_APP_FACTORY then bs\<lparr>factory := pos\<rparr>
              else if subtype p = ESP_PARTITION_SUBTYPE_APP_TEST then bs\<lparr>test := pos\<rparr>
              else if subtype p div 16 = 1
              then bs\<lparr>ota := (ota bs)[subtype p mod 16 := pos], app_count := app_count bs + 1\<rparr>
              else bs
         else if ptype p = ESP_PARTITION_TYPE_DATA \<and> subtype p = ESP_PARTITION_SUBTYPE_DATA_OTA
         then bs\<lparr>ota_info := pos\<rparr>
         else bs)"

definition bootloader_utility_load_partition_table :: "esp_partition_t list \<Rightarrow> bootloader_state_t" where
  "bootloader_utility_load_partition_table parts = fold load_entry parts empty_bs"

definition index_to_partition :: "bootloader_state_t \<Rightarrow> int \<Rightarrow> esp_partition_pos_t" where
  "index_to_partition bs index =
     (if index = FACTORY_INDEX then factory bs
      else if index = TEST_APP_INDEX then test bs
      else if index \<ge> 0 \<and> index < int MAX_OTA_SLOTS \<and> index < int (app_count bs) then ota bs ! nat index
      else no_pos)"

definition bootloader_common_read_otadata ::
  "esp_partition_pos_t \<Rightarrow> flash \<Rightarrow> esp_err_t \<times> esp_ota_select_entry_t list \<times> flash" where
  "bootloader_common_read_otadata pos f =
     (if pos_offset pos = 0 then (ESP_ERR_NOT_FOUND, [], f)
      else if pos_size pos < 2 * SPI_FLASH_SEC_SIZE then (ESP_FAIL, [], f)
      else let (e, f1) = take_fault f
           in if e \<noteq> ESP_OK then (ESP_FAIL, [], f1)
              else (ESP_OK, [read_select (pos_offset pos) f1, read_select (pos_offset pos + SPI_FLASH_SEC_SIZE) f1], f1))"

definition write_otadata :: "esp_ota_select_entry_t \<Rightarrow> nat \<Rightarrow> flash \<Rightarrow> flash" where
  "write_otadata e off f =
     (let (err, f1) = esp_flash_erase_region (off div SPI_FLASH_SEC_SIZE * SPI_FLASH_SEC_SIZE) SPI_FLASH_SEC_SIZE f
      in if err = ESP_OK then snd (esp_flash_write off (select_bytes e) f1) else f1)"

text \<open>An update that was started but not confirmed becomes aborted.\<close>

definition abort_pending ::
  "esp_partition_pos_t \<Rightarrow> nat \<Rightarrow> esp_ota_select_entry_t list \<times> flash \<Rightarrow> esp_ota_select_entry_t list \<times> flash" where
  "abort_pending info i st =
     (let (otadata, f) = st
      in if ota_state (otadata ! i) = ESP_OTA_IMG_PENDING_VERIFY
         then let e = (otadata ! i)\<lparr>ota_state := ESP_OTA_IMG_ABORTED\<rparr>
              in (otadata[i := e], write_otadata e (pos_offset info + SPI_FLASH_SEC_SIZE * i) f)
         else (otadata, f))"

text \<open>The index to boot, the flag \<open>ota_has_initial_contents\<close> (whose value before is \<open>initial0\<close>) and the
  flash.\<close>

definition bootloader_utility_get_selected_boot_partition ::
  "bool \<Rightarrow> rom_crc \<Rightarrow> bootloader_state_t \<Rightarrow> bool \<Rightarrow> flash \<Rightarrow> int \<times> bool \<times> flash" where
  "bootloader_utility_get_selected_boot_partition rollback rom_crc bs initial0 f =
     (if pos_offset (ota_info bs) = 0 then (FACTORY_INDEX, initial0, f)
      else case bootloader_common_read_otadata (ota_info bs) f of
        (err, otadata, f1) \<Rightarrow>
          if err \<noteq> ESP_OK then (INVALID_INDEX, initial0, f1)
          else let (otadata, f2) = (if rollback then abort_pending (ota_info bs) 1 (abort_pending (ota_info bs) 0 (otadata, f1))
                                    else (otadata, f1))
               in if (bootloader_common_ota_select_invalid (otadata ! 0) \<and>
                      bootloader_common_ota_select_invalid (otadata ! 1)) \<or> app_count bs = 0
                  then if pos_offset (factory bs) \<noteq> 0 then (FACTORY_INDEX, False, f2)
                       else (0,
                         (ota_seq (otadata ! 0) = 0xFFFFFFFF \<or> crc (otadata ! 0) \<noteq> bootloader_common_ota_select_crc rom_crc (otadata ! 0)) \<and>
                         (ota_seq (otadata ! 1) = 0xFFFFFFFF \<or> crc (otadata ! 1) \<noteq> bootloader_common_ota_select_crc rom_crc (otadata ! 1)),
                         f2)
                  else case bootloader_common_get_active_otadata rom_crc otadata of
                         Some active \<Rightarrow>
                           let boot_index = int (slot_of (ota_seq (otadata ! active)) (app_count bs))
                           in if rollback \<and> ota_state (otadata ! active) = ESP_OTA_IMG_NEW
                              then (boot_index, False,
                                    write_otadata ((otadata ! active)\<lparr>ota_state := ESP_OTA_IMG_PENDING_VERIFY\<rparr>)
                                      (pos_offset (ota_info bs) + SPI_FLASH_SEC_SIZE * active) f2)
                              else (boot_index, False, f2)
                       | None \<Rightarrow> (FACTORY_INDEX, False, f2))"

definition set_actual_ota_seq :: "rom_crc \<Rightarrow> bootloader_state_t \<Rightarrow> int \<Rightarrow> bool \<Rightarrow> flash \<Rightarrow> flash" where
  "set_actual_ota_seq rom_crc bs index initial f =
     (if index > FACTORY_INDEX \<and> initial
      then let e = \<lparr>ota_seq = word_of_int (index + 1), seq_label = replicate 20 0xFF, ota_state = ESP_OTA_IMG_VALID,
                    crc = 0xFFFFFFFF\<rparr>;
               e = e\<lparr>crc := bootloader_common_ota_select_crc rom_crc e\<rparr>
           in write_otadata e (pos_offset (ota_info bs)) f
      else f)"

text \<open>The first partition in the given order with a size that loads.\<close>

fun try_indices :: "bootloader_state_t \<Rightarrow> (esp_partition_pos_t \<Rightarrow> bool) \<Rightarrow> int list \<Rightarrow> int option" where
  "try_indices bs loads [] = None"
| "try_indices bs loads (index # is) =
     (let part = index_to_partition bs index
      in if pos_size part = 0 then try_indices bs loads is
         else if loads part then Some index
         else try_indices bs loads is)"

text \<open>The index of the app that is started, or \<open>None\<close> when the boot loader resets; \<open>start_index\<close> is at least
  the factory index here.\<close>

definition bootloader_utility_load_boot_image ::
  "rom_crc \<Rightarrow> bootloader_state_t \<Rightarrow> (esp_partition_pos_t \<Rightarrow> bool) \<Rightarrow> int \<Rightarrow> bool \<Rightarrow> flash \<Rightarrow> int option \<times> flash" where
  "bootloader_utility_load_boot_image rom_crc bs loads start_index initial f =
     (if start_index = TEST_APP_INDEX
      then (if pos_size (test bs) \<noteq> 0 \<and> loads (test bs) then Some TEST_APP_INDEX else None, f)
      else case try_indices bs loads (rev [FACTORY_INDEX..start_index] @ [start_index + 1..int (app_count bs) - 1]) of
             Some index \<Rightarrow> (Some index, set_actual_ota_seq rom_crc bs index initial f)
           | None \<Rightarrow> (if pos_size (test bs) \<noteq> 0 \<and> loads (test bs) then Some TEST_APP_INDEX else None, f))"

text \<open>A start of the device with a verified partition table, without the options that select by a pin: the
  app that is started, or \<open>None\<close> for a reset.\<close>

definition call_start_cpu0 ::
  "bool \<Rightarrow> rom_crc \<Rightarrow> esp_partition_t list \<Rightarrow> (esp_partition_pos_t \<Rightarrow> bool) \<Rightarrow> flash \<Rightarrow> int option \<times> flash" where
  "call_start_cpu0 rollback rom_crc parts loads f =
     (let bs = bootloader_utility_load_partition_table parts;
          (index, initial, f1) = bootloader_utility_get_selected_boot_partition rollback rom_crc bs False f
      in if index = INVALID_INDEX then (None, f1)
         else bootloader_utility_load_boot_image rom_crc bs loads index initial f1)"

end
