(* ===== verification/Ota_Write.thy ===== *)
theory Ota_Write
  imports Ota
begin

text \<open>
  Receiving an image: \<open>esp_ota_begin\<close> to \<open>esp_ota_end\<close> of \<open>components/app_update/esp_ota_ops.c\<close>,
  \<open>esp_partition_copy\<close> of \<open>components/esp_partition/partition.c\<close> and the check of a partition table in
  \<open>components/bootloader_support/src/flash_partitions.c\<close>.  The list of open updates, the last handle, the
  offset of the boot loader image and the write protection are the state beside the flash.  The image check
  is the parameter \<open>image_ok\<close>, the MD5 of the ROM the parameter \<open>md5\<close>; \<open>enc\<close> says whether flash encryption
  is enabled.  An encrypted write keeps the plain bytes, which is what the cache shows of an erased range.
\<close>

section \<open>Partition tables in flash\<close>

definition ESP_PARTITION_MAGIC :: nat where "ESP_PARTITION_MAGIC = 0x50AA"
definition ESP_PARTITION_MAGIC_MD5 :: nat where "ESP_PARTITION_MAGIC_MD5 = 0xEBEB"
definition ESP_PARTITION_MD5_OFFSET :: nat where "ESP_PARTITION_MD5_OFFSET = 16"
definition ESP_PARTITION_TABLE_MAX_LEN :: nat where "ESP_PARTITION_TABLE_MAX_LEN = 0xC00"
definition ESP_PARTITION_TABLE_MAX_ENTRIES :: nat where
  "ESP_PARTITION_TABLE_MAX_ENTRIES = ESP_PARTITION_TABLE_MAX_LEN div 32"

record esp_partition_info_t =
  magic :: nat
  part_type :: nat
  part_subtype :: nat
  part_offset :: nat
  part_size :: nat

text \<open>Entry \<open>i\<close> of a table, without its label and flags.\<close>

definition partition_info :: "byte list \<Rightarrow> nat \<Rightarrow> esp_partition_info_t" where
  "partition_info t i =
     (let e = drop (32 * i) t
      in \<lparr>magic = nat_of_bytes (take 2 e), part_type = unat (e ! 2), part_subtype = unat (e ! 3),
          part_offset = nat_of_bytes (take 4 (drop 4 e)), part_size = nat_of_bytes (take 4 (drop 8 e))\<rparr>)"

text \<open>The loop over the entries from \<open>i\<close> on; the result and the number of partitions.\<close>

function table_loop :: "(byte list \<Rightarrow> byte list) \<Rightarrow> nat \<Rightarrow> byte list \<Rightarrow> bool \<Rightarrow> nat \<Rightarrow> esp_err_t \<times> nat" where
  "table_loop md5 chip_size t md5_found i =
     (if i \<ge> ESP_PARTITION_TABLE_MAX_ENTRIES then (ESP_ERR_INVALID_STATE, 0)
      else let part = partition_info t i
           in if magic part = ESP_PARTITION_MAGIC
              then if part_offset part > chip_size \<or> wrap32 (part_offset part + part_size part) > chip_size
                   then (ESP_ERR_INVALID_SIZE, 0)
                   else table_loop md5 chip_size t md5_found (i + 1)
              else if magic part = ESP_PARTITION_MAGIC_MD5
              then if md5_found then (ESP_ERR_INVALID_STATE, 0)
                   else if take 16 (drop (32 * i + ESP_PARTITION_MD5_OFFSET) t) \<noteq> md5 (take (i * 32) t)
                   then (ESP_ERR_INVALID_STATE, 0)
                   else table_loop md5 chip_size t True (i + 1)
              else if i \<noteq> 0 \<and> magic part = 0xFFFF \<and> part_type part = 0xff \<and> part_subtype part = 0xff
              then (ESP_OK, i - (if md5_found then 1 else 0))
              else (ESP_ERR_INVALID_STATE, 0))"
  by pat_completeness auto
termination
  by (relation "measure (\<lambda>(md5, chip_size, t, md5_found, i). ESP_PARTITION_TABLE_MAX_ENTRIES - i)") auto

declare table_loop.simps [simp del]

definition esp_partition_table_verify :: "(byte list \<Rightarrow> byte list) \<Rightarrow> nat \<Rightarrow> byte list \<Rightarrow> esp_err_t \<times> nat" where
  "esp_partition_table_verify md5 chip_size t = table_loop md5 chip_size t False 0"

section \<open>Copying partitions\<close>

definition SPI_FLASH_MMU_PAGE_SIZE :: nat where "SPI_FLASH_MMU_PAGE_SIZE = 0x10000"

text \<open>\<open>pages\<close> is the answer to the \<open>q\<close>-th query for free MMU pages.  The loop does not end when a mapping
  of no bytes succeeds again and again.\<close>

partial_function (option) copy_loop ::
  "(nat \<Rightarrow> nat) \<Rightarrow> nat \<Rightarrow> nat \<Rightarrow> nat \<Rightarrow> esp_partition_t \<Rightarrow> nat \<Rightarrow> esp_partition_t \<Rightarrow> nat \<Rightarrow> nat \<Rightarrow> esp_err_t \<Rightarrow> flash
     \<Rightarrow> (esp_err_t \<times> flash) option" where
  "copy_loop pages q free_pages attempts dest dest_off src src_off remaining err f =
     (if remaining = 0 then Some (err, f)
      else let n = min remaining (wrap32 (free_pages * SPI_FLASH_MMU_PAGE_SIZE));
               (e, f1) = esp_partition_mmap src src_off n f
           in if e = ESP_OK
              then let (w, f2) = esp_partition_write dest dest_off (flash_bytes (address src + src_off) n f1) f1
                   in if w \<noteq> ESP_OK then Some (w, f2)
                      else copy_loop pages q free_pages 0 dest (dest_off + n) src (src_off + n) (remaining - n) w f2
              else if attempts + 1 \<ge> 3 then Some (e, f1)
              else copy_loop pages (q + 1) (pages q) (attempts + 1) dest dest_off src src_off remaining e f1)"

definition ALIGN_UP :: "nat \<Rightarrow> nat \<Rightarrow> nat" where
  "ALIGN_UP num align = wrap32 (num + (align - 1)) div align * align"

text \<open>Two partitions of the default chip, one object each.\<close>

definition esp_partition_copy ::
  "(nat \<Rightarrow> nat) \<Rightarrow> esp_partition_t \<Rightarrow> nat \<Rightarrow> esp_partition_t \<Rightarrow> nat \<Rightarrow> nat \<Rightarrow> flash \<Rightarrow> (esp_err_t \<times> flash) option" where
  "esp_partition_copy pages dest dest_off src src_off sz f =
     (if src = dest then Some (ESP_ERR_INVALID_ARG, f)
      else if src_off > psize src \<or> dest_off > psize dest then Some (ESP_ERR_INVALID_SIZE, f)
      else let n = (if sz = 0xFFFFFFFF then psize src - src_off else sz);
               dest_erase_size = (if sz = 0xFFFFFFFF then psize dest - dest_off else sz)
           in if src_off + n \<ge> two32 \<or> src_off + n > psize src \<or> dest_off + n \<ge> two32 \<or> dest_off + n > psize dest
              then Some (ESP_ERR_INVALID_SIZE, f)
              else let (e, f1) = esp_partition_erase_range dest dest_off (ALIGN_UP dest_erase_size SPI_FLASH_SEC_SIZE) f
                   in if e \<noteq> ESP_OK then Some (e, f1)
                      else copy_loop pages 1 (pages 0) 0 dest dest_off src src_off n e f1)"

section \<open>Open updates\<close>

definition OTA_SIZE_UNKNOWN :: nat where "OTA_SIZE_UNKNOWN = 0xffffffff"
definition OTA_WITH_SEQUENTIAL_WRITES :: nat where "OTA_WITH_SEQUENTIAL_WRITES = 0xfffffffe"
definition ESP_IMAGE_HEADER_MAGIC :: byte where "ESP_IMAGE_HEADER_MAGIC = 0xE9"

record ota_ops_entry_t =
  handle :: "32 word"
  staging :: esp_partition_t
  final :: esp_partition_t
  finalize_with_copy :: bool
  need_erase :: bool
  wrote_size :: nat
  partial_bytes :: nat
  partial_data :: "byte list"

record ota_ops =
  s_ota_ops_entries_head :: "ota_ops_entry_t list"
  s_ota_ops_last_handle :: "32 word"
  s_bootloader_partition_offset :: nat
  dangerous_write_protection :: bool
  chip :: flash

fun find_entry :: "32 word \<Rightarrow> ota_ops_entry_t list \<Rightarrow> ota_ops_entry_t option" where
  "find_entry h [] = None"
| "find_entry h (it # its) = (if handle it = h then Some it else find_entry h its)"

definition get_ota_ops_entry :: "32 word \<Rightarrow> ota_ops \<Rightarrow> ota_ops_entry_t option" where
  "get_ota_ops_entry h s = find_entry h (s_ota_ops_entries_head s)"

text \<open>The entry is updated in place, or taken off the list.\<close>

fun set_entry :: "32 word \<Rightarrow> ota_ops_entry_t \<Rightarrow> ota_ops_entry_t list \<Rightarrow> ota_ops_entry_t list" where
  "set_entry h new [] = []"
| "set_entry h new (it # its) = (if handle it = h then new # its else it # set_entry h new its)"

fun remove_entry :: "32 word \<Rightarrow> ota_ops_entry_t list \<Rightarrow> ota_ops_entry_t list" where
  "remove_entry h [] = []"
| "remove_entry h (it # its) = (if handle it = h then its else it # remove_entry h its)"

definition put_entry :: "32 word \<Rightarrow> ota_ops_entry_t \<Rightarrow> flash \<Rightarrow> ota_ops \<Rightarrow> ota_ops" where
  "put_entry h it f s = s\<lparr>s_ota_ops_entries_head := set_entry h it (s_ota_ops_entries_head s), chip := f\<rparr>"

definition drop_entry :: "32 word \<Rightarrow> ota_ops \<Rightarrow> ota_ops" where
  "drop_entry h s = s\<lparr>s_ota_ops_entries_head := remove_entry h (s_ota_ops_entries_head s)\<rparr>"

text \<open>The special treatment of the boot loader and the partition table.\<close>

definition prepare_special :: "esp_partition_t \<Rightarrow> nat \<Rightarrow> ota_ops \<Rightarrow> ota_ops" where
  "prepare_special p off s =
     (let s1 = (if ptype p = ESP_PARTITION_TYPE_BOOTLOADER then s\<lparr>s_bootloader_partition_offset := off\<rparr> else s)
      in if ptype p = ESP_PARTITION_TYPE_BOOTLOADER \<or> ptype p = ESP_PARTITION_TYPE_PARTITION_TABLE
         then s1\<lparr>dangerous_write_protection := False\<rparr> else s1)"

text \<open>The error with which an app partition is refused, or \<open>ESP_OK\<close>, and the flash after the reads.\<close>

definition begin_check ::
  "bool \<Rightarrow> rom_crc \<Rightarrow> nat \<Rightarrow> esp_partition_t list \<Rightarrow> esp_partition_t \<Rightarrow> flash \<Rightarrow> (esp_err_t \<times> flash) option" where
  "begin_check rollback rom_crc phys_offs parts p f =
     (if ptype p = ESP_PARTITION_TYPE_APP
      then if \<not> is_ota_partition (Some p) then Some (ESP_ERR_INVALID_ARG, f)
           else do {
             running \<leftarrow> esp_ota_get_running_partition phys_offs parts;
             if p = running then Some (ESP_ERR_OTA_PARTITION_CONFLICT, f)
             else if rollback
             then do {
               (e, st, f1) \<leftarrow> esp_ota_get_state_partition rom_crc parts (Some running) f;
               Some (if e = ESP_OK \<and> st = Some ESP_OTA_IMG_PENDING_VERIFY then ESP_ERR_OTA_ROLLBACK_INVALID_STATE else ESP_OK, f1)
             }
             else Some (ESP_OK, f)
           }
      else Some (ESP_OK, f))"

definition new_entry :: "32 word \<Rightarrow> esp_partition_t \<Rightarrow> nat \<Rightarrow> ota_ops_entry_t" where
  "new_entry h p image_size =
     \<lparr>handle = h, staging = p, final = p, finalize_with_copy = False,
      need_erase = (image_size = OTA_WITH_SEQUENTIAL_WRITES), wrote_size = 0, partial_bytes = 0, partial_data = replicate 16 0\<rparr>"

text \<open>The result, the handle written through the pointer, which is not null, and the state; \<open>alloc\<close> says
  whether there is memory for the entry.\<close>

definition esp_ota_begin ::
  "bool \<Rightarrow> rom_crc \<Rightarrow> nat \<Rightarrow> esp_partition_t list \<Rightarrow> bool \<Rightarrow> esp_partition_t option \<Rightarrow> nat \<Rightarrow> ota_ops
     \<Rightarrow> (esp_err_t \<times> 32 word option \<times> ota_ops) option" where
  "esp_ota_begin rollback rom_crc phys_offs parts alloc partn image_size s =
     (case partn of
        None \<Rightarrow> Some (ESP_ERR_INVALID_ARG, None, s)
      | Some p0 \<Rightarrow>
          (case esp_partition_verify p0 parts of
             None \<Rightarrow> Some (ESP_ERR_NOT_FOUND, None, s)
           | Some p \<Rightarrow> do {
               (e, f1) \<leftarrow> begin_check rollback rom_crc phys_offs parts p (chip s);
               let s1 = s\<lparr>chip := f1\<rparr>;
               if e \<noteq> ESP_OK then Some (e, None, s1)
               else if \<not> alloc then Some (ESP_ERR_NO_MEM, None, s1)
               else let h = s_ota_ops_last_handle s1 + 1;
                        s2 = s1\<lparr>s_ota_ops_entries_head := new_entry h p image_size # s_ota_ops_entries_head s1,
                                s_ota_ops_last_handle := h\<rparr>;
                        s3 = prepare_special p (address p) s2
                    in if image_size \<noteq> OTA_WITH_SEQUENTIAL_WRITES
                       then let n = (if image_size = 0 \<or> image_size = OTA_SIZE_UNKNOWN then psize p
                                     else ALIGN_UP image_size (erase_size p));
                                (r, f2) = esp_partition_erase_range p 0 n (chip s3)
                            in Some (r, Some h, s3\<lparr>chip := f2\<rparr>)
                       else Some (ESP_OK, Some h, s3)
             }))"

definition esp_ota_set_final_partition ::
  "esp_partition_t list \<Rightarrow> 32 word \<Rightarrow> esp_partition_t option \<Rightarrow> bool \<Rightarrow> ota_ops \<Rightarrow> esp_err_t \<times> ota_ops" where
  "esp_ota_set_final_partition parts h fin copy s =
     (case fin of
        None \<Rightarrow> (ESP_ERR_INVALID_ARG, s)
      | Some q \<Rightarrow>
          (case get_ota_ops_entry h s of
             None \<Rightarrow> (ESP_ERR_NOT_FOUND, s)
           | Some it \<Rightarrow>
               if wrote_size it \<noteq> 0 then (ESP_ERR_INVALID_STATE, s)
               else if staging it \<noteq> q
               then (case esp_partition_verify q parts of
                       None \<Rightarrow> (ESP_ERR_NOT_FOUND, s)
                     | Some p \<Rightarrow>
                         (ESP_OK, prepare_special p (address (staging it))
                            (put_entry h (it\<lparr>final := p, finalize_with_copy := copy\<rparr>) (chip s) s)))
               else (ESP_OK, s)))"

section \<open>Writing\<close>

text \<open>The sectors that a write of \<open>n\<close> bytes enters are erased.\<close>

definition erase_for_write :: "ota_ops_entry_t \<Rightarrow> nat \<Rightarrow> flash \<Rightarrow> esp_err_t \<times> flash" where
  "erase_for_write it n f =
     (if need_erase it
      then let es = erase_size (staging it);
               first_sector = wrote_size it div es;
               last_sector = sub32 (wrap32 (wrote_size it + n)) 1 div es
           in if wrote_size it mod es = 0
              then esp_partition_erase_range (staging it) (wrote_size it) (wrap32 ((sub32 last_sector first_sector + 1) * es)) f
              else if first_sector \<noteq> last_sector
              then esp_partition_erase_range (staging it) (wrap32 ((first_sector + 1) * es))
                     (wrap32 (sub32 last_sector first_sector * es)) f
              else (ESP_OK, f)
      else (ESP_OK, f))"

text \<open>The check of the first bytes; two bytes are read for a partition table, whatever the size.\<close>

definition magic_check :: "ota_ops_entry_t \<Rightarrow> byte list \<Rightarrow> esp_err_t option" where
  "magic_check it data =
     (if wrote_size it = 0 \<and> partial_bytes it = 0
      then if ptype (final it) = ESP_PARTITION_TYPE_APP \<or> ptype (final it) = ESP_PARTITION_TYPE_BOOTLOADER
           then Some (if data ! 0 \<noteq> ESP_IMAGE_HEADER_MAGIC then ESP_ERR_OTA_VALIDATE_FAILED else ESP_OK)
           else if ptype (final it) = ESP_PARTITION_TYPE_PARTITION_TABLE
           then do {
             _ \<leftarrow> assert_that (2 \<le> length data);
             Some (if nat_of_bytes (take 2 data) \<noteq> ESP_PARTITION_MAGIC then ESP_ERR_OTA_VALIDATE_FAILED else ESP_OK)
           }
           else Some ESP_OK
      else Some ESP_OK)"

definition append_bytes :: "ota_ops_entry_t \<Rightarrow> byte list \<Rightarrow> flash \<Rightarrow> esp_err_t \<times> ota_ops_entry_t \<times> flash" where
  "append_bytes it bs f =
     (let (ret, f1) = esp_partition_write (staging it) (wrote_size it) bs f
      in (ret, if ret = ESP_OK then it\<lparr>wrote_size := wrap32 (wrote_size it + length bs)\<rparr> else it, f1))"

text \<open>Completing a block of 16 bytes: a result when the call ends here, the entry, the flash and the data
  that is left.\<close>

definition fill_partial ::
  "ota_ops_entry_t \<Rightarrow> byte list \<Rightarrow> flash \<Rightarrow> esp_err_t option \<times> ota_ops_entry_t \<times> flash \<times> byte list" where
  "fill_partial it data f =
     (if partial_bytes it = 0 then (None, it, f, data)
      else let copy_len = min (16 - partial_bytes it) (length data);
               it1 = it\<lparr>partial_data := take (partial_bytes it) (partial_data it) @ take copy_len data @
                          drop (partial_bytes it + copy_len) (partial_data it),
                        partial_bytes := partial_bytes it + copy_len\<rparr>
           in if partial_bytes it1 \<noteq> 16 then (Some ESP_OK, it1, f, data)
              else let (ret, f1) = esp_partition_write (staging it1) (wrote_size it1) (partial_data it1) f
                   in if ret \<noteq> ESP_OK then (Some ret, it1, f1, data)
                      else (None, it1\<lparr>partial_bytes := 0, partial_data := replicate 16 0xFF,
                              wrote_size := wrap32 (wrote_size it1 + 16)\<rparr>, f1, drop copy_len data))"

definition save_tail :: "ota_ops_entry_t \<Rightarrow> byte list \<Rightarrow> ota_ops_entry_t \<times> byte list" where
  "save_tail it data =
     (let tail = length data mod 16; n = length data - tail
      in if tail \<noteq> 0
         then (it\<lparr>partial_bytes := tail, partial_data := drop n data @ drop tail (partial_data it)\<rparr>, take n data)
         else (it\<lparr>partial_bytes := 0\<rparr>, data))"

definition store_data :: "bool \<Rightarrow> ota_ops_entry_t \<Rightarrow> byte list \<Rightarrow> flash \<Rightarrow> esp_err_t \<times> ota_ops_entry_t \<times> flash" where
  "store_data enc it data f =
     (if enc
      then case fill_partial it data f of
             (Some ret, it1, f1, data1) \<Rightarrow> (ret, it1, f1)
           | (None, it1, f1, data1) \<Rightarrow> (let (it2, body) = save_tail it1 data1 in append_bytes it2 body f1)
      else append_bytes it data f)"

definition write_entry :: "bool \<Rightarrow> ota_ops_entry_t \<Rightarrow> byte list \<Rightarrow> flash \<Rightarrow> (esp_err_t \<times> ota_ops_entry_t \<times> flash) option" where
  "write_entry enc it data f =
     (let (ret, f1) = erase_for_write it (length data) f
      in if ret \<noteq> ESP_OK then Some (ret, it, f1)
         else do {
           m \<leftarrow> magic_check it data;
           if m \<noteq> ESP_OK then Some (m, it, f1) else Some (store_data enc it data f1)
         })"

definition esp_ota_write :: "bool \<Rightarrow> 32 word \<Rightarrow> byte list option \<Rightarrow> ota_ops \<Rightarrow> (esp_err_t \<times> ota_ops) option" where
  "esp_ota_write enc h data s =
     (case data of
        None \<Rightarrow> Some (ESP_ERR_INVALID_ARG, s)
      | Some bs \<Rightarrow>
          if bs = [] then Some (ESP_OK, s)
          else (case get_ota_ops_entry h s of
                  None \<Rightarrow> Some (ESP_ERR_INVALID_ARG, s)
                | Some it \<Rightarrow> do {
                    (ret, it1, f1) \<leftarrow> write_entry enc it bs (chip s);
                    Some (ret, put_entry h it1 f1 s)
                  }))"

definition esp_ota_write_with_offset ::
  "bool \<Rightarrow> 32 word \<Rightarrow> byte list option \<Rightarrow> nat \<Rightarrow> ota_ops \<Rightarrow> (esp_err_t \<times> ota_ops) option" where
  "esp_ota_write_with_offset enc h data offset s =
     (case data of
        None \<Rightarrow> Some (ESP_ERR_INVALID_ARG, s)
      | Some bs \<Rightarrow>
          (case get_ota_ops_entry h s of
             None \<Rightarrow> Some (ESP_ERR_INVALID_ARG, s)
           | Some it \<Rightarrow> do {
               _ \<leftarrow> assert_that (\<not> need_erase it);
               if enc \<and> length bs mod 16 \<noteq> 0 then Some (ESP_ERR_INVALID_ARG, s)
               else let (ret, f1) = esp_partition_write (staging it) offset bs (chip s)
                    in Some (ret, put_entry h
                         (if ret = ESP_OK then it\<lparr>wrote_size := wrap32 (wrote_size it + length bs)\<rparr> else it) f1 s)
             }))"

section \<open>Closing an update\<close>

definition esp_ota_abort :: "32 word \<Rightarrow> ota_ops \<Rightarrow> esp_err_t \<times> ota_ops" where
  "esp_ota_abort h s =
     (case get_ota_ops_entry h s of None \<Rightarrow> (ESP_ERR_NOT_FOUND, s) | Some it \<Rightarrow> (ESP_OK, drop_entry h s))"

definition ota_verify_partition ::
  "(esp_partition_t \<Rightarrow> flash \<Rightarrow> bool) \<Rightarrow> (byte list \<Rightarrow> byte list) \<Rightarrow> nat \<Rightarrow> ota_ops_entry_t \<Rightarrow> flash \<Rightarrow> esp_err_t \<times> flash" where
  "ota_verify_partition image_ok md5 chip_size it f =
     (if ptype (final it) = ESP_PARTITION_TYPE_APP \<or> ptype (final it) = ESP_PARTITION_TYPE_BOOTLOADER
      then (if image_ok (staging it) f then ESP_OK else ESP_ERR_OTA_VALIDATE_FAILED, f)
      else if ptype (final it) = ESP_PARTITION_TYPE_PARTITION_TABLE
      then let (ret, f1) = esp_partition_mmap (staging it) 0 ESP_PARTITION_TABLE_MAX_LEN f
           in if ret = ESP_OK \<and>
                 fst (esp_partition_table_verify md5 chip_size (flash_bytes (address (staging it)) ESP_PARTITION_TABLE_MAX_LEN f1)) \<noteq> ESP_OK
              then (ESP_ERR_OTA_VALIDATE_FAILED, f1)
              else (ret, f1)
      else (ESP_OK, f))"

text \<open>Writing the last bytes, the check and the copy.\<close>

definition finish_entry ::
  "(esp_partition_t \<Rightarrow> flash \<Rightarrow> bool) \<Rightarrow> (byte list \<Rightarrow> byte list) \<Rightarrow> nat \<Rightarrow> (nat \<Rightarrow> nat) \<Rightarrow> ota_ops_entry_t \<Rightarrow> flash
     \<Rightarrow> (esp_err_t \<times> flash) option" where
  "finish_entry image_ok md5 chip_size pages it f =
     (if wrote_size it = 0 then Some (ESP_ERR_INVALID_ARG, f)
      else let (ret, f1) = (if partial_bytes it > 0
                            then esp_partition_write (staging it) (wrote_size it) (partial_data it) f else (ESP_OK, f))
           in if ret \<noteq> ESP_OK then Some (ESP_ERR_INVALID_STATE, f1)
              else let (v, f2) = ota_verify_partition image_ok md5 chip_size it f1
                   in if v \<noteq> ESP_OK then Some (v, f2)
                      else if finalize_with_copy it
                      then esp_partition_copy pages (final it) 0 (staging it) 0 (psize (final it)) f2
                      else Some (v, f2))"

definition esp_ota_end ::
  "(esp_partition_t \<Rightarrow> flash \<Rightarrow> bool) \<Rightarrow> (byte list \<Rightarrow> byte list) \<Rightarrow> nat \<Rightarrow> (nat \<Rightarrow> nat) \<Rightarrow> nat \<Rightarrow> 32 word \<Rightarrow> ota_ops
     \<Rightarrow> (esp_err_t \<times> ota_ops) option" where
  "esp_ota_end image_ok md5 chip_size pages primary_offset h s =
     (case get_ota_ops_entry h s of
        None \<Rightarrow> Some (ESP_ERR_NOT_FOUND, s)
      | Some it \<Rightarrow> do {
          (ret, f1) \<leftarrow> finish_entry image_ok md5 chip_size pages it (chip s);
          let s1 = s\<lparr>chip := f1\<rparr>;
          let s2 = (if ptype (final it) = ESP_PARTITION_TYPE_BOOTLOADER
                    then s1\<lparr>s_bootloader_partition_offset := primary_offset\<rparr> else s1);
          Some (ret, drop_entry h s2)
        })"

end
