(* ===== verification/Ota_Flash.thy ===== *)
theory Ota_Flash
  imports Ota
begin

text \<open>
  Select entries on the flash: encoding and decoding, what an interrupted rewrite leaves, and the two
  entries as the rest of the proofs see them.
\<close>

section \<open>Encoding\<close>

lemma length_word_bytes [simp]: "length (word_bytes w) = 4"
  by (simp add: word_bytes_def)

lemma bytes_word_of_word [simp]: "bytes_word (word_bytes w) = w"
proof -
  have "unat w < 256 ^ 4" using unsigned_less [of w] by simp
  then show ?thesis by (simp add: bytes_word_def word_bytes_def nat_of_bytes_of_nat)
qed

lemma bytes_of_nat_of_bytes: "bytes_of_nat (length bs) (nat_of_bytes bs) = bs"
proof (induction bs)
  case (Cons b bs)
  have "unat (of_nat (unat b + 256 * nat_of_bytes bs) :: byte) = unat b"
    using unsigned_less [of b, where 'a = nat] by (simp only: unat_of_nat8) simp
  then have "(of_nat (unat b + 256 * nat_of_bytes bs) :: byte) = b" by (simp only: word_unat_eq_iff)
  moreover have "(unat b + 256 * nat_of_bytes bs) div 256 = nat_of_bytes bs"
    using unsigned_less [of b, where 'a = nat] by simp
  ultimately show ?case using Cons.IH by simp
qed simp

lemma word_of_bytes_word: "length bs = 4 \<Longrightarrow> word_bytes (bytes_word bs) = bs"
  using nat_of_bytes_less [of bs] bytes_of_nat_of_bytes [of bs]
  by (simp add: word_bytes_def bytes_word_def unat_of_nat)

lemma length_select_bytes: "length (seq_label e) = 20 \<Longrightarrow> length (select_bytes e) = 32"
  by (simp add: select_bytes_def)

lemma select_of_select_bytes: "length (seq_label e) = 20 \<Longrightarrow> select_of_bytes (select_bytes e) = e"
  by (simp add: select_of_bytes_def select_bytes_def)

lemma length_seq_label: "length (seq_label (read_select a f)) = 20"
  by (simp add: read_select_def select_of_bytes_def flash_bytes_def)

definition blank_bytes :: "nat \<Rightarrow> byte list" where
  "blank_bytes n = replicate n 0xFF"

text \<open>What is read back when only the first \<open>n\<close> bytes of an entry have been programmed.\<close>

definition partial_select :: "nat \<Rightarrow> esp_ota_select_entry_t \<Rightarrow> esp_ota_select_entry_t" where
  "partial_select n e = select_of_bytes (take n (select_bytes e) @ blank_bytes (32 - n))"

lemma partial_select_32: "length (seq_label e) = 20 \<Longrightarrow> partial_select 32 e = e"
  by (simp add: partial_select_def blank_bytes_def length_select_bytes select_of_select_bytes)

lemma replicate_4: "replicate 4 x = [x, x, x, x]"
  by (simp add: numeral_eq_Suc)

lemma word_bytes_nth_0: "word_bytes w ! 0 = ucast w"
proof -
  have "bytes_of_nat (Suc k) n ! 0 = of_nat n" for k n by simp
  from this [of 3] have "bytes_of_nat 4 n ! 0 = of_nat n" for n by simp
  then show ?thesis by (simp add: word_bytes_def)
qed

lemma bytes_word_blank: "bytes_word (replicate 4 0xFF) = 0xFFFFFFFF"
  unfolding replicate_4 by (simp add: bytes_word_def)

lemma take_drop_map: "k + n \<le> length xs \<Longrightarrow> take n (drop k xs) = map (\<lambda>i. xs ! (k + i)) [0..<n]"
  by (intro nth_equalityI) auto

definition crc_ok :: "rom_crc \<Rightarrow> bool" where
  "crc_ok rom_crc \<longleftrightarrow> (\<forall>bs. length bs = 4 \<longrightarrow> rom_crc 0xFFFFFFFF bs = 0xFFFFFFFF \<longrightarrow> bs = [0, 0, 0, 0])"

lemma partial_select_fields:
  assumes l: "length (seq_label e) = 20"
  shows "n \<le> 28 \<Longrightarrow> crc (partial_select n e) = 0xFFFFFFFF"
    "4 \<le> n \<Longrightarrow> ota_seq (partial_select n e) = ota_seq e"
    "28 \<le> n \<Longrightarrow> ota_state (partial_select n e) = ota_state e"
    "n < 4 \<Longrightarrow> word_bytes (ota_seq (partial_select n e)) ! 3 = 0xFF"
    "n \<le> 24 \<Longrightarrow> ota_state (partial_select n e) = 0xFFFFFFFF"
    "24 < n \<Longrightarrow> word_bytes (ota_state (partial_select n e)) ! 0 = word_bytes (ota_state e) ! 0"
proof -
  have lb: "length (select_bytes e) = 32" by (rule length_select_bytes [OF l])
  define B where "B = take n (select_bytes e) @ blank_bytes (32 - n)"
  have nth: "B ! i = (if i < n then select_bytes e ! i else 0xFF)" if "i < 32" for i
    using that lb by (auto simp: nth_append blank_bytes_def B_def)
  have len: "32 \<le> length B" using lb by (auto simp: blank_bytes_def B_def)
  have part: "take 4 (drop k B) = map (\<lambda>i. B ! (k + i)) [0..<4]" if "k \<le> 28" for k
    by (rule take_drop_map) (use that len in simp)
  have whole: "take 4 (drop k (select_bytes e)) = map (\<lambda>i. select_bytes e ! (k + i)) [0..<4]" if "k \<le> 28" for k
    by (rule take_drop_map) (use that lb in simp)
  have programmed: "take 4 (drop k B) = take 4 (drop k (select_bytes e))" if "k + 4 \<le> n" "k \<le> 28" for k
    unfolding part [OF that(2)] whole [OF that(2)] by (rule map_cong) (use that nth in auto)
  have untouched: "take 4 (drop k B) = replicate 4 0xFF" if "n \<le> k" "k \<le> 28" for k
  proof -
    have "map (\<lambda>i. B ! (k + i)) [0..<4] = map (\<lambda>i. 0xFF) [0..<4]" by (rule map_cong) (use that nth in auto)
    then show ?thesis unfolding part [OF that(2)] by (simp only: map_replicate_const length_upt diff_zero)
  qed
  have f: "take 4 (drop 0 (select_bytes e)) = word_bytes (ota_seq e)"
    "take 4 (drop 24 (select_bytes e)) = word_bytes (ota_state e)"
    using l by (simp_all add: select_bytes_def)
  have p: "ota_seq (partial_select n e) = bytes_word (take 4 (drop 0 B))"
    "ota_state (partial_select n e) = bytes_word (take 4 (drop 24 B))"
    "crc (partial_select n e) = bytes_word (take 4 (drop 28 B))"
    by (simp_all add: partial_select_def select_of_bytes_def B_def)
  have wb: "word_bytes (bytes_word (take 4 (drop k B))) = take 4 (drop k B)" if "k \<le> 28" for k
    by (rule word_of_bytes_word) (use that len in simp)
  show "crc (partial_select n e) = 0xFFFFFFFF" if "n \<le> 28"
    unfolding p untouched [OF that order_refl] by (rule bytes_word_blank)
  show "ota_seq (partial_select n e) = ota_seq e" if "4 \<le> n"
    unfolding p using programmed [of 0] that f(1) by simp
  show "ota_state (partial_select n e) = ota_state e" if "28 \<le> n"
    unfolding p using programmed [of 24] that f(2) by simp
  show "word_bytes (ota_seq (partial_select n e)) ! 3 = 0xFF" if "n < 4"
    unfolding p using wb [of 0] nth [of 3] part [of 0] that by simp
  show "ota_state (partial_select n e) = 0xFFFFFFFF" if "n \<le> 24"
    unfolding p using untouched [OF that] by (simp add: bytes_word_blank)
  show "word_bytes (ota_state (partial_select n e)) ! 0 = word_bytes (ota_state e) ! 0" if "24 < n"
    unfolding p using wb [of 24] nth [of 24] part [of 24] that whole [of 24] by (simp flip: f(2))
qed

text \<open>An interrupted entry is invalid or already tells the slot and the state of the whole one.\<close>

lemma partial_select_valid:
  assumes l: "length (seq_label e) = 20" and c: "crc_ok rom_crc" and s: "ota_seq e \<noteq> 0"
    and v: "bootloader_common_ota_select_valid rom_crc (partial_select n e)"
  shows "ota_seq (partial_select n e) = ota_seq e \<and> ota_state (partial_select n e) = ota_state e"
proof -
  let ?p = "partial_select n e"
  have crc: "crc ?p = rom_crc 0xFFFFFFFF (word_bytes (ota_seq ?p))"
    using v by (simp add: bootloader_common_ota_select_valid_def bootloader_common_ota_select_crc_def)
  have "28 \<le> n"
  proof (rule ccontr)
    assume n: "\<not> 28 \<le> n"
    then have "rom_crc 0xFFFFFFFF (word_bytes (ota_seq ?p)) = 0xFFFFFFFF" using partial_select_fields(1) [OF l, of n] crc by simp
    then have z: "word_bytes (ota_seq ?p) = [0, 0, 0, 0]" using c by (simp add: crc_ok_def)
    then have "\<not> n < 4" using partial_select_fields(4) [OF l, of n] by auto
    then have "word_bytes (ota_seq e) = [0, 0, 0, 0]" using z partial_select_fields(2) [OF l, of n] by simp
    then have "ota_seq e = bytes_word [0, 0, 0, 0]" by (metis bytes_word_of_word)
    then have "ota_seq e = 0" by (simp add: bytes_word_def)
    then show False using s by simp
  qed
  then show ?thesis using partial_select_fields(2,3) [OF l, of n] by simp
qed

lemma partial_select_not_pending:
  assumes l: "length (seq_label e) = 20" and s: "ota_state e = ESP_OTA_IMG_NEW \<or> ota_state e = ESP_OTA_IMG_UNDEFINED"
  shows "ota_state (partial_select n e) \<noteq> ESP_OTA_IMG_PENDING_VERIFY"
proof
  assume p: "ota_state (partial_select n e) = ESP_OTA_IMG_PENDING_VERIFY"
  then have "24 < n" using partial_select_fields(5) [OF l, of n] by (force simp: img_states)
  then have "word_bytes (ota_state e) ! 0 = word_bytes (ESP_OTA_IMG_PENDING_VERIFY) ! 0"
    using partial_select_fields(6) [OF l, of n] p by simp
  then show False using s by (auto simp: word_bytes_nth_0 img_states)
qed

section \<open>Erasing and programming\<close>

definition blank_select :: esp_ota_select_entry_t where
  "blank_select = select_of_bytes (blank_bytes 32)"

lemma partial_select_0: "partial_select 0 e = blank_select"
  by (simp add: partial_select_def blank_select_def)

lemma blank_select_invalid: "bootloader_common_ota_select_invalid blank_select"
  using bytes_word_blank
  by (simp add: blank_select_def select_of_bytes_def blank_bytes_def bootloader_common_ota_select_invalid_def)

text \<open>Two flashes that hold the same bytes of an entry.\<close>

lemma read_select_cong: "(\<And>i. i < 32 \<Longrightarrow> mem f (a + i) = mem g (a + i)) \<Longrightarrow> read_select a f = read_select a g"
  unfolding read_select_def flash_bytes_def by (rule arg_cong [of _ _ select_of_bytes], rule map_cong) auto

lemma use_power_mem [simp]: "mem (use_power n f) = mem f"
  by (simp add: use_power_def)

lemma use_power_faults [simp]: "faults (use_power n f) = faults f"
  by (simp add: use_power_def)

lemma take_fault_mem [simp]: "mem (snd (take_fault f)) = mem f" "power (snd (take_fault f)) = power f"
  by (simp_all add: take_fault_def split: list.splits)

lemma take_fault_ok: "faults f = [] \<Longrightarrow> take_fault f = (ESP_OK, f)"
  by (simp add: take_fault_def)

lemma powered_le: "powered n f \<le> n"
  by (simp add: powered_def split: option.splits)

lemma powered_full: "power f = None \<Longrightarrow> powered n f = n"
  by (simp add: powered_def)

lemma read_programmed:
  assumes blank: "\<And>i. i < 32 \<Longrightarrow> mem f (a + i) = 0xFF" and l: "length (seq_label e) = 20" and n: "n \<le> 32"
    and m: "mem g = program_bytes a (take n (select_bytes e)) (mem f)"
  shows "read_select a g = partial_select n e"
proof -
  have lb: "length (select_bytes e) = 32" by (rule length_select_bytes [OF l])
  have "flash_bytes a 32 g = take n (select_bytes e) @ blank_bytes (32 - n)"
  proof (rule nth_equalityI)
    show "length (flash_bytes a 32 g) = length (take n (select_bytes e) @ blank_bytes (32 - n))"
      using lb n by (simp add: flash_bytes_def blank_bytes_def)
    fix i assume "i < length (flash_bytes a 32 g)"
    then have i: "i < 32" by (simp add: flash_bytes_def)
    have ff: "(0xFF :: byte) = - 1" by (simp add: word_uint_eq_iff unsigned_minus_1_eq_mask mask_eq_exp_minus_1)
    have and1: "0xFF AND b = b" for b :: byte unfolding ff by simp
    show "flash_bytes a 32 g ! i = (take n (select_bytes e) @ blank_bytes (32 - n)) ! i"
      using i lb n blank [OF i] by (auto simp: flash_bytes_def m program_bytes_def nth_append blank_bytes_def and1)
  qed
  then show ?thesis by (simp add: read_select_def partial_select_def)
qed

text \<open>A partition that holds select entries: two sectors, aligned, writable.\<close>

definition select_area :: "esp_partition_t \<Rightarrow> bool" where
  "select_area d \<longleftrightarrow> erase_size d = SPI_FLASH_SEC_SIZE \<and> 2 * SPI_FLASH_SEC_SIZE \<le> psize d \<and>
     address d mod SPI_FLASH_SEC_SIZE = 0 \<and> address d \<noteq> 0 \<and> \<not> readonly d"

definition entry_at :: "esp_partition_t \<Rightarrow> flash \<Rightarrow> nat \<Rightarrow> esp_ota_select_entry_t" where
  "entry_at d f i = read_select (address d + SPI_FLASH_SEC_SIZE * i) f"

text \<open>What remains of a flash for the next start.\<close>

definition restart :: "flash \<Rightarrow> flash" where
  "restart f = f\<lparr>faults := [], power := None\<rparr>"

lemma entry_at_restart [simp]: "entry_at d (restart f) i = entry_at d f i"
  unfolding entry_at_def by (rule read_select_cong) (simp add: restart_def)

text \<open>Erasing a sector and programming an entry, as both sides do: the result is that of the step that
  failed, and the entry is the old one, or the first bytes of the new one.\<close>

definition replace_entry :: "nat \<Rightarrow> esp_ota_select_entry_t \<Rightarrow> flash \<Rightarrow> esp_err_t \<times> flash" where
  "replace_entry a e f =
     (let (err, f1) = esp_flash_erase_region a SPI_FLASH_SEC_SIZE f
      in if err \<noteq> ESP_OK then (err, f1) else esp_flash_write a (select_bytes e) f1)"

lemma erase_sector_mem:
  assumes "esp_flash_erase_region a SPI_FLASH_SEC_SIZE f = (err, f1)"
  shows "mem f1 = mem f \<or> (err = ESP_OK \<and> mem f1 = erase_bytes a SPI_FLASH_SEC_SIZE (mem f))"
    and "power f = None \<Longrightarrow> err = ESP_OK \<Longrightarrow> mem f1 = erase_bytes a SPI_FLASH_SEC_SIZE (mem f)"
    and "power f = None \<Longrightarrow> power f1 = None"
    and "power f1 \<noteq> Some 0 \<Longrightarrow> err = ESP_OK \<Longrightarrow> mem f1 = erase_bytes a SPI_FLASH_SEC_SIZE (mem f)"
    and "faults f = [] \<Longrightarrow> err = ESP_OK \<and> faults f1 = []"
proof -
  obtain e0 f0 where t: "take_fault f = (e0, f0)" by (cases "take_fault f")
  have m: "mem f0 = mem f" "power f0 = power f" using take_fault_mem [of f] t by simp_all
  have z: "erase_bytes a 0 (mem f) = mem f" by (auto simp: erase_bytes_def fun_eq_iff)
  have k: "powered 1 f0 = 0 \<or> powered 1 f0 = 1" using powered_le [of 1 f0] by linarith
  have r: "e0 = err" "e0 \<noteq> ESP_OK \<Longrightarrow> f1 = f0"
    "e0 = ESP_OK \<Longrightarrow> f1 = use_power (powered 1 f0) (f0\<lparr>mem := erase_bytes a (powered 1 f0 * SPI_FLASH_SEC_SIZE) (mem f)\<rparr>)"
    using assms t m by (auto simp: esp_flash_erase_region_def SPI_FLASH_SEC_SIZE_def Let_def split: if_splits)
  show "mem f1 = mem f \<or> (err = ESP_OK \<and> mem f1 = erase_bytes a SPI_FLASH_SEC_SIZE (mem f))"
    using r m k z by (cases "e0 = ESP_OK") auto
  show "power f = None \<Longrightarrow> err = ESP_OK \<Longrightarrow> mem f1 = erase_bytes a SPI_FLASH_SEC_SIZE (mem f)"
    using r m by (simp add: powered_full)
  show "power f = None \<Longrightarrow> power f1 = None"
    using r m by (cases "e0 = ESP_OK") (auto simp: use_power_def)
  show "mem f1 = erase_bytes a SPI_FLASH_SEC_SIZE (mem f)" if p: "power f1 \<noteq> Some 0" "err = ESP_OK"
  proof -
    have f1: "f1 = use_power (powered 1 f0) (f0\<lparr>mem := erase_bytes a (powered 1 f0 * SPI_FLASH_SEC_SIZE) (mem f)\<rparr>)"
      using r p by simp
    then have "powered 1 f0 = 1" using k p by (auto simp: use_power_def powered_def min_def split: option.splits if_splits)
    then show ?thesis using f1 by simp
  qed
  show "faults f = [] \<Longrightarrow> err = ESP_OK \<and> faults f1 = []"
    using r t by (auto simp: take_fault_def)
qed

lemma flash_write_mem:
  assumes "esp_flash_write a bs f = (err, g)"
  shows "\<exists>n \<le> length bs. mem g = program_bytes a (take n bs) (mem f)"
    and "power f = None \<Longrightarrow> err = ESP_OK \<Longrightarrow> mem g = program_bytes a bs (mem f)"
    and "power f = Some 0 \<Longrightarrow> mem g = mem f"
    and "power f = None \<Longrightarrow> power g = None"
    and "faults f = [] \<Longrightarrow> err = ESP_OK \<and> faults g = []"
proof -
  obtain e0 f0 where t: "take_fault f = (e0, f0)" by (cases "take_fault f")
  have m: "mem f0 = mem f" "power f0 = power f" using take_fault_mem [of f] t by simp_all
  have z: "program_bytes a [] (mem f) = mem f" by (auto simp: program_bytes_def fun_eq_iff)
  have r: "e0 = err" "e0 \<noteq> ESP_OK \<Longrightarrow> g = f0"
    "e0 = ESP_OK \<Longrightarrow> g = use_power (powered (length bs) f0)
       (f0\<lparr>mem := program_bytes a (take (powered (length bs) f0) bs) (mem f)\<rparr>)"
    using assms t m by (auto simp: esp_flash_write_def Let_def split: if_splits)
  show "\<exists>n \<le> length bs. mem g = program_bytes a (take n bs) (mem f)"
  proof (cases "e0 = ESP_OK")
    case True
    then show ?thesis using r(3) powered_le [of "length bs" f0] by (intro exI [of _ "powered (length bs) f0"]) simp
  next
    case False
    then show ?thesis using r(2) m z by (intro exI [of _ 0]) simp
  qed
  show "power f = None \<Longrightarrow> err = ESP_OK \<Longrightarrow> mem g = program_bytes a bs (mem f)"
    using r m by (simp add: powered_full)
  show "power f = Some 0 \<Longrightarrow> mem g = mem f"
    using r m z by (cases "e0 = ESP_OK") (auto simp: powered_def)
  show "power f = None \<Longrightarrow> power g = None"
    using r m by (cases "e0 = ESP_OK") (auto simp: use_power_def)
  show "faults f = [] \<Longrightarrow> err = ESP_OK \<and> faults g = []"
    using r t by (auto simp: take_fault_def)
qed

lemma entry_at_unchanged:
  assumes "\<And>x. \<not> (address d + SPI_FLASH_SEC_SIZE * i \<le> x \<and> x < address d + SPI_FLASH_SEC_SIZE * (i + 1)) \<Longrightarrow> mem g x = mem f x"
    and "j \<noteq> i"
  shows "entry_at d g j = entry_at d f j"
proof (unfold entry_at_def, rule read_select_cong)
  fix k :: nat assume k: "k < 32"
  have "\<not> (SPI_FLASH_SEC_SIZE * i \<le> SPI_FLASH_SEC_SIZE * j + k \<and> SPI_FLASH_SEC_SIZE * j + k < SPI_FLASH_SEC_SIZE * (i + 1))"
    using k assms(2) by (auto simp: SPI_FLASH_SEC_SIZE_def)
  then show "mem g (address d + SPI_FLASH_SEC_SIZE * j + k) = mem f (address d + SPI_FLASH_SEC_SIZE * j + k)"
    by (intro assms(1)) (simp add: add.assoc)
qed

lemma replace_entry_ok:
  assumes l: "length (seq_label e) = 20" and r: "replace_entry (address d + SPI_FLASH_SEC_SIZE * i) e f = (err, g)"
  shows "j \<noteq> i \<Longrightarrow> entry_at d g j = entry_at d f j"
    and "entry_at d g i = entry_at d f i \<or> (\<exists>n \<le> 32. entry_at d g i = partial_select n e)"
    and "power f = None \<Longrightarrow> err = ESP_OK \<Longrightarrow> entry_at d g i = e"
    and "power f = None \<Longrightarrow> power g = None"
    and "faults f = [] \<Longrightarrow> err = ESP_OK \<and> faults g = []"
proof -
  let ?a = "address d + SPI_FLASH_SEC_SIZE * i"
  obtain e1 f1 where er: "esp_flash_erase_region ?a SPI_FLASH_SEC_SIZE f = (e1, f1)" by fastforce
  note em = erase_sector_mem [OF er]
  have lb: "length (select_bytes e) = 32" by (rule length_select_bytes [OF l])
  have w: "e1 \<noteq> ESP_OK \<Longrightarrow> g = f1 \<and> err = e1" "e1 = ESP_OK \<Longrightarrow> esp_flash_write ?a (select_bytes e) f1 = (err, g)"
    using r er by (auto simp: replace_entry_def split: if_splits)
  have blank: "mem f1 (?a + k) = 0xFF" if "mem f1 = erase_bytes ?a SPI_FLASH_SEC_SIZE (mem f)" "k < 32" for k
    using that by (simp add: erase_bytes_def SPI_FLASH_SEC_SIZE_def)
  have out1: "mem f1 x = mem f x" if "\<not> (?a \<le> x \<and> x < address d + SPI_FLASH_SEC_SIZE * (i + 1))" for x
    using em(1) that by (auto simp: erase_bytes_def)
  have out: "mem g x = mem f x" if "\<not> (?a \<le> x \<and> x < address d + SPI_FLASH_SEC_SIZE * (i + 1))" for x
  proof (cases "e1 = ESP_OK")
    case True
    obtain n where n: "mem g = program_bytes ?a (take n (select_bytes e)) (mem f1)"
      using flash_write_mem(1) [OF w(2) [OF True]] by blast
    have "length (take n (select_bytes e)) \<le> SPI_FLASH_SEC_SIZE" using lb by (simp add: SPI_FLASH_SEC_SIZE_def)
    then show ?thesis using that out1 [OF that] n by (auto simp: program_bytes_def)
  next
    case False
    then show ?thesis using w(1) out1 [OF that] by simp
  qed
  show "entry_at d g j = entry_at d f j" if "j \<noteq> i"
    using out that by (rule entry_at_unchanged)
  show "entry_at d g i = entry_at d f i \<or> (\<exists>n \<le> 32. entry_at d g i = partial_select n e)"
  proof (cases "e1 = ESP_OK \<and> power f1 \<noteq> Some 0")
    case True
    then have m: "mem f1 = erase_bytes ?a SPI_FLASH_SEC_SIZE (mem f)" using em(4) by blast
    obtain n where "n \<le> 32" "mem g = program_bytes ?a (take n (select_bytes e)) (mem f1)"
      using flash_write_mem(1) [OF w(2)] True lb by auto
    then have "read_select ?a g = partial_select n e" using read_programmed [OF blank [OF m] l] by blast
    then show ?thesis using \<open>n \<le> 32\<close> by (auto simp: entry_at_def)
  next
    case False
    have g: "mem g = mem f1" using False w flash_write_mem(3) by (cases "e1 = ESP_OK") auto
    show ?thesis using em(1)
    proof
      assume "mem f1 = mem f"
      then show ?thesis by (simp add: entry_at_def g read_select_def flash_bytes_def)
    next
      assume "e1 = ESP_OK \<and> mem f1 = erase_bytes ?a SPI_FLASH_SEC_SIZE (mem f)"
      then have b: "\<And>k. k < 32 \<Longrightarrow> mem f1 (?a + k) = 0xFF" using blank by blast
      have "mem g = program_bytes ?a (take 0 (select_bytes e)) (mem f1)"
        by (auto simp: g program_bytes_def fun_eq_iff)
      then have "read_select ?a g = partial_select 0 e" using read_programmed [OF b l, of 0] by simp
      then show ?thesis by (auto simp: entry_at_def)
    qed
  qed
  show "entry_at d g i = e" if "power f = None" "err = ESP_OK"
  proof -
    have o: "e1 = ESP_OK" using w(1) that(2) by metis
    have m: "mem f1 = erase_bytes ?a SPI_FLASH_SEC_SIZE (mem f)" using em(2) that(1) o by blast
    have "mem g = program_bytes ?a (take 32 (select_bytes e)) (mem f1)"
      using flash_write_mem(2) [OF w(2) [OF o]] em(3) that lb by simp
    then have "read_select ?a g = partial_select 32 e" using read_programmed [OF blank [OF m] l, of 32] by simp
    then show ?thesis by (simp add: entry_at_def partial_select_32 [OF l])
  qed
  show "power f = None \<Longrightarrow> power g = None"
    using w em(3) flash_write_mem(4) [OF w(2)] by (cases "e1 = ESP_OK") auto
  show "faults f = [] \<Longrightarrow> err = ESP_OK \<and> faults g = []"
    using w em(5) flash_write_mem(5) [OF w(2)] by (cases "e1 = ESP_OK") auto
qed

lemma rewrite_ota_seq_eq:
  assumes "select_area d" "i < 2" "length (seq_label (two ! i)) = 20"
  shows "rewrite_ota_seq rom_crc two seq i d f =
    replace_entry (address d + SPI_FLASH_SEC_SIZE * i)
      ((two ! i)\<lparr>ota_seq := seq, crc := rom_crc 0xFFFFFFFF (word_bytes seq)\<rparr>) f"
proof -
  let ?e = "(two ! i)\<lparr>ota_seq := seq, crc := rom_crc 0xFFFFFFFF (word_bytes seq)\<rparr>"
  have i: "i = 0 \<or> i = 1" using assms(2) by auto
  have e: "erase_size d = SPI_FLASH_SEC_SIZE" "\<not> readonly d" using assms(1) by (simp_all add: select_area_def)
  have er: "esp_partition_erase_range d (i * SPI_FLASH_SEC_SIZE) SPI_FLASH_SEC_SIZE f =
      esp_flash_erase_region (address d + SPI_FLASH_SEC_SIZE * i) SPI_FLASH_SEC_SIZE f"
    using i assms(1) by (auto simp: esp_partition_erase_range_def select_area_def SPI_FLASH_SEC_SIZE_def)
  have "4096 dvd address d" using assms(1) by (simp add: select_area_def SPI_FLASH_SEC_SIZE_def mod_eq_0_iff_dvd)
  then have "16 dvd address d" by (rule dvd_trans [rotated]) simp
  then have al: "address d mod 16 = 0" "(address d + 4096) mod 16 = 0" by (simp_all add: mod_eq_0_iff_dvd)
  have wr: "esp_partition_write d (SPI_FLASH_SEC_SIZE * i) bs f1 =
      esp_flash_write (address d + SPI_FLASH_SEC_SIZE * i) bs f1" if "length bs = 32" for bs f1
    using i assms(1) al that by (auto simp: esp_partition_write_def select_area_def SPI_FLASH_SEC_SIZE_def)
  have lb: "length (select_bytes ?e) = 32" by (rule length_select_bytes) (simp add: assms(3))
  show ?thesis
    using assms(2) by (simp add: rewrite_ota_seq_def replace_entry_def bootloader_common_ota_select_crc_def e(1) er
        wr [OF lb] split_def Let_def)
qed

lemma write_otadata_eq:
  "select_area d \<Longrightarrow> write_otadata e (address d + SPI_FLASH_SEC_SIZE * i) f = snd (replace_entry (address d + SPI_FLASH_SEC_SIZE * i) e f)"
proof -
  assume "select_area d"
  then have "SPI_FLASH_SEC_SIZE dvd address d + SPI_FLASH_SEC_SIZE * i"
    by (simp add: select_area_def mod_eq_0_iff_dvd)
  then have "(address d + SPI_FLASH_SEC_SIZE * i) div SPI_FLASH_SEC_SIZE * SPI_FLASH_SEC_SIZE = address d + SPI_FLASH_SEC_SIZE * i"
    by (rule dvd_div_mult_self)
  then show ?thesis by (auto simp: write_otadata_def replace_entry_def split_def Let_def)
qed

section \<open>The two entries\<close>

lemma read_otadata_eq:
  assumes "esp_partition_find_first ESP_PARTITION_TYPE_DATA ESP_PARTITION_SUBTYPE_DATA_OTA None parts = Some d" "select_area d"
  shows "read_otadata parts f =
    (if fst (take_fault f) = ESP_OK then Some (d, [entry_at d f 0, entry_at d f 1]) else None, snd (take_fault f))"
proof -
  have "read_select a (snd (take_fault f)) = read_select a f" for a
    by (rule read_select_cong) simp
  then show ?thesis
    using assms by (simp add: read_otadata_def esp_partition_mmap_def select_area_def entry_at_def split_def Let_def)
qed

lemma bootloader_read_eq:
  assumes "select_area d" "pos = \<lparr>pos_offset = address d, pos_size = psize d\<rparr>"
  shows "bootloader_common_read_otadata pos f =
    (if fst (take_fault f) = ESP_OK then (ESP_OK, [entry_at d f 0, entry_at d f 1], snd (take_fault f))
     else (ESP_FAIL, [], snd (take_fault f)))"
proof -
  have "read_select a (snd (take_fault f)) = read_select a f" for a
    by (rule read_select_cong) simp
  then show ?thesis
    using assms by (auto simp: bootloader_common_read_otadata_def select_area_def entry_at_def split_def Let_def)
qed

end
