(* ===== verification/Ota_Boot.thy ===== *)
theory Ota_Boot
  imports Ota_Flash
begin

text \<open>
  Setting the app to boot against the boot loader's choice: sequence numbers and slots, the choice as a
  function of the two entries, and the effect of an update that may be cut short.
\<close>

section \<open>Sequence numbers\<close>

lemma unat_of_nat_32: "m < 2 ^ 32 \<Longrightarrow> unat (of_nat m :: 32 word) = m"
  by (simp add: unat_of_nat)

lemma next_seq_from:
  assumes n: "0 < n" and fits: "unat seq + n < 2 ^ 32"
  shows "b + i * n < unat seq + n \<Longrightarrow>
    \<exists>k. next_seq seq (of_nat b) (of_nat n) (of_nat i) = Some (of_nat (b + k * n)) \<and>
      unat seq \<le> b + k * n \<and> b + k * n < unat seq + n"
proof (induction "unat seq - (b + i * n)" arbitrary: i rule: less_induct)
  case less
  let ?m = "b + i * n"
  have m: "?m < 2 ^ 32" using less.prems fits by linarith
  have u: "unat (of_nat ?m :: 32 word) = ?m" by (rule unat_of_nat_32) (use m in simp)
  have w: "(of_nat b + of_nat i * of_nat n :: 32 word) = of_nat ?m" by simp
  show ?case
  proof (cases "unat seq \<le> ?m")
    case True
    then have "\<not> seq > of_nat ?m" using u by (simp add: word_less_nat_alt del: of_nat_add of_nat_mult)
    then have "next_seq seq (of_nat b) (of_nat n) (of_nat i) = Some (of_nat ?m)"
      by (subst next_seq.simps) (simp only: w if_False)
    then show ?thesis using True less.prems by blast
  next
    case False
    then have g: "seq > of_nat ?m" using u by (simp add: word_less_nat_alt del: of_nat_add of_nat_mult)
    have "b + Suc i * n < unat seq + n" using False by simp
    moreover have "unat seq - (b + Suc i * n) < unat seq - ?m" using n False by simp
    ultimately obtain k where k: "next_seq seq (of_nat b) (of_nat n) (of_nat (Suc i)) = Some (of_nat (b + k * n))"
      "unat seq \<le> b + k * n" "b + k * n < unat seq + n"
      using less.hyps [of "Suc i"] by blast
    have "next_seq seq (of_nat b) (of_nat n) (of_nat i) = next_seq seq (of_nat b) (of_nat n) (of_nat (Suc i))"
      using g by (subst next_seq.simps) (simp only: w if_True of_nat_Suc add.commute)
    then show ?thesis using k by metis
  qed
qed

lemma mod_pred:
  assumes "Suc m mod n = Suc k mod n" "k < n"
  shows "m mod n = (k :: nat)"
  using assms by (auto simp: mod_Suc split: if_splits)

lemma next_seq_slot:
  assumes n: "0 < n" and k: "k < n" and fits: "unat seq + n < 2 ^ 32" and s: "seq \<noteq> 0"
  shows "\<exists>r. next_seq seq (of_nat ((k + 1) mod n)) (of_nat n) 0 = Some r \<and>
    seq \<le> r \<and> r \<noteq> 0 \<and> unat r < unat seq + n \<and> slot_of r n = k"
proof -
  let ?b = "(k + 1) mod n"
  have "?b + 0 * n < unat seq + n" using n by (simp add: trans_less_add2)
  from next_seq_from [OF n fits this] obtain j where j:
    "next_seq seq (of_nat ?b) (of_nat n) 0 = Some (of_nat (?b + j * n))"
    "unat seq \<le> ?b + j * n" "?b + j * n < unat seq + n" by auto
  let ?m = "?b + j * n"
  have um: "unat (of_nat ?m :: 32 word) = ?m" by (rule unat_of_nat_32) (use j(3) fits in simp)
  have "unat seq \<noteq> 0" using s by (metis unat_0 word_unat_eq_iff)
  then obtain m' where m': "?m = Suc m'" using j(2) by (cases ?m) auto
  have "Suc m' mod n = ?m mod n" using m' by simp
  also have "\<dots> = Suc k mod n" by simp
  finally have "m' mod n = k" using mod_pred k by blast
  moreover have "(of_nat ?m :: 32 word) - 1 = of_nat m'" unfolding m' by simp
  moreover have "unat (of_nat m' :: 32 word) = m'" using m' j(3) fits by (simp add: unat_of_nat)
  ultimately have "slot_of (of_nat ?m) n = k" by (simp add: slot_of_def)
  moreover have "seq \<le> of_nat ?m" using j(2) um by (simp add: word_le_nat_alt del: of_nat_add of_nat_mult)
  moreover have "(of_nat ?m :: 32 word) \<noteq> 0" using um m' by (metis nat.distinct(1) unat_0)
  ultimately show ?thesis using j(1,3) um by metis
qed

lemma first_seq_slot:
  assumes "k < n" "n \<le> 16"
  shows "slot_of (of_nat (k + 1)) n = k" "(of_nat (k + 1) :: 32 word) \<noteq> 0" "unat (of_nat (k + 1) :: 32 word) = k + 1"
proof -
  show u: "unat (of_nat (k + 1) :: 32 word) = k + 1" using assms by (simp add: unat_of_nat del: of_nat_Suc of_nat_add)
  then show "(of_nat (k + 1) :: 32 word) \<noteq> 0" by (metis add_is_0 unat_0 zero_neq_one)
  have "(of_nat (k + 1) :: 32 word) - 1 = of_nat k" by simp
  moreover have "unat (of_nat k :: 32 word) = k" using assms by (simp add: unat_of_nat)
  ultimately show "slot_of (of_nat (k + 1)) n = k" using assms by (simp add: slot_of_def)
qed

section \<open>The choice of the boot loader\<close>

text \<open>The OTA data partition \<open>d\<close> is usable and both sides count the same \<open>n\<close> slots.\<close>

definition ota_layout :: "esp_partition_t list \<Rightarrow> esp_partition_t \<Rightarrow> nat \<Rightarrow> bool" where
  "ota_layout parts d n \<longleftrightarrow>
     esp_partition_find_first ESP_PARTITION_TYPE_DATA ESP_PARTITION_SUBTYPE_DATA_OTA None parts = Some d \<and>
     select_area d \<and> esp_ota_get_app_partition_count parts = Some n \<and> 0 < n \<and> n \<le> 16 \<and>
     ota_info (bootloader_utility_load_partition_table parts) = \<lparr>pos_offset = address d, pos_size = psize d\<rparr> \<and>
     app_count (bootloader_utility_load_partition_table parts) = n \<and>
     (pos_offset (factory (bootloader_utility_load_partition_table parts)) = 0 \<longleftrightarrow>
      pos_size (factory (bootloader_utility_load_partition_table parts)) = 0)"

definition chosen_index :: "rom_crc \<Rightarrow> bool \<Rightarrow> nat \<Rightarrow> esp_ota_select_entry_t list \<Rightarrow> int" where
  "chosen_index rom_crc has_factory n es =
     (if bootloader_common_ota_select_invalid (es ! 0) \<and> bootloader_common_ota_select_invalid (es ! 1)
      then if has_factory then FACTORY_INDEX else 0
      else case bootloader_common_get_active_otadata rom_crc es of
             Some a \<Rightarrow> int (slot_of (ota_seq (es ! a)) n)
           | None \<Rightarrow> FACTORY_INDEX)"

definition no_pending :: "bool \<Rightarrow> esp_ota_select_entry_t list \<Rightarrow> bool" where
  "no_pending rollback es \<longleftrightarrow>
     (rollback \<longrightarrow> ota_state (es ! 0) \<noteq> ESP_OTA_IMG_PENDING_VERIFY \<and> ota_state (es ! 1) \<noteq> ESP_OTA_IMG_PENDING_VERIFY)"

definition entries :: "esp_partition_t \<Rightarrow> flash \<Rightarrow> esp_ota_select_entry_t list" where
  "entries d f = [entry_at d f 0, entry_at d f 1]"

text \<open>The index of the app that the boot loader starts.\<close>

definition started ::
  "bool \<Rightarrow> rom_crc \<Rightarrow> esp_partition_t list \<Rightarrow> (esp_partition_pos_t \<Rightarrow> bool) \<Rightarrow> flash \<Rightarrow> int option" where
  "started rollback rom_crc parts loads f = fst (call_start_cpu0 rollback rom_crc parts loads f)"

definition started_at :: "esp_partition_t list \<Rightarrow> (esp_partition_pos_t \<Rightarrow> bool) \<Rightarrow> int \<Rightarrow> int option" where
  "started_at parts loads index =
     (let bs = bootloader_utility_load_partition_table parts
      in case try_indices bs loads (rev [FACTORY_INDEX..index] @ [index + 1..int (app_count bs) - 1]) of
           Some i \<Rightarrow> Some i
         | None \<Rightarrow> if pos_size (test bs) \<noteq> 0 \<and> loads (test bs) then Some TEST_APP_INDEX else None)"

lemma active_lt: "bootloader_common_get_active_otadata rom_crc es = Some a \<Longrightarrow> a = 0 \<or> a = 1"
  by (auto simp: bootloader_common_get_active_otadata_def bootloader_common_select_otadata_def Let_def split: if_splits)

lemma chosen_index_range: "- 1 \<le> chosen_index rom_crc has_factory n es"
  by (auto simp: chosen_index_def FACTORY_INDEX_def split: option.splits)

lemma selected_eq:
  assumes lay: "ota_layout parts d n" and f: "faults f = []" and p: "no_pending rollback (entries d f)"
  shows "fst (bootloader_utility_get_selected_boot_partition rollback rom_crc
      (bootloader_utility_load_partition_table parts) initial f) =
    chosen_index rom_crc (pos_offset (factory (bootloader_utility_load_partition_table parts)) \<noteq> 0) n (entries d f)"
proof -
  let ?bs = "bootloader_utility_load_partition_table parts"
  have d: "select_area d" "0 < n" and i: "ota_info ?bs = \<lparr>pos_offset = address d, pos_size = psize d\<rparr>" "app_count ?bs = n"
    using lay by (simp_all add: ota_layout_def)
  let ?pos = "\<lparr>pos_offset = address d, pos_size = psize d\<rparr>"
  have rd: "bootloader_common_read_otadata ?pos f = (ESP_OK, entries d f, f)"
    using bootloader_read_eq [OF d(1) refl] f by (simp add: take_fault_ok entries_def)
  have ab: "abort_pending pos 0 (entries d f, f) = (entries d f, f)" "abort_pending pos 1 (entries d f, f) = (entries d f, f)"
    if rollback for pos
    using p that by (simp_all add: abort_pending_def no_pending_def)
  have a: "address d \<noteq> 0" using d(1) by (simp add: select_area_def)
  show ?thesis
    using a d(2) ab [of ?pos] unfolding bootloader_utility_get_selected_boot_partition_def i rd chosen_index_def
    by (cases rollback) (simp_all add: Let_def split: option.splits)
qed

lemma started_eq:
  assumes lay: "ota_layout parts d n" and f: "faults f = []" and p: "no_pending rollback (entries d f)"
  shows "started rollback rom_crc parts loads f =
    started_at parts loads
      (chosen_index rom_crc (pos_offset (factory (bootloader_utility_load_partition_table parts)) \<noteq> 0) n (entries d f))"
proof -
  let ?bs = "bootloader_utility_load_partition_table parts"
  obtain index initial f1 where g:
    "bootloader_utility_get_selected_boot_partition rollback rom_crc ?bs False f = (index, initial, f1)"
    by (cases "bootloader_utility_get_selected_boot_partition rollback rom_crc ?bs False f") auto
  have i: "index = chosen_index rom_crc (pos_offset (factory ?bs) \<noteq> 0) n (entries d f)"
    using selected_eq [OF lay f p, of rom_crc False] g by simp
  then have "- 1 \<le> index" using chosen_index_range by simp
  then have "index \<noteq> INVALID_INDEX" "index \<noteq> TEST_APP_INDEX" by (auto simp: boot_consts)
  then show ?thesis
    using i by (simp add: started_def call_start_cpu0_def g started_at_def bootloader_utility_load_boot_image_def Let_def split: option.splits)
qed

lemma started_at_default:
  assumes lay: "ota_layout parts d n"
    and nf: "pos_offset (factory (bootloader_utility_load_partition_table parts)) = 0"
  shows "started_at parts loads 0 = started_at parts loads FACTORY_INDEX"
proof -
  let ?bs = "bootloader_utility_load_partition_table parts"
  have s: "pos_size (factory ?bs) = 0" "app_count ?bs = n" "0 < n" using lay nf by (auto simp: ota_layout_def)
  have l: "rev [FACTORY_INDEX..0] = [0, FACTORY_INDEX]" "rev [FACTORY_INDEX..FACTORY_INDEX] = [FACTORY_INDEX]"
    by (simp_all add: FACTORY_INDEX_def upto_rec1)
  have u: "[FACTORY_INDEX + 1..int n - 1] = 0 # [1..int n - 1]"
    using s(3) by (simp add: FACTORY_INDEX_def upto_rec1)
  have fp: "pos_size (index_to_partition ?bs FACTORY_INDEX) = 0" using s by (simp add: index_to_partition_def)
  have e: "try_indices ?bs loads (rev [FACTORY_INDEX..0] @ [0 + 1..int n - 1]) =
      try_indices ?bs loads (rev [FACTORY_INDEX..FACTORY_INDEX] @ [FACTORY_INDEX + 1..int n - 1])"
    unfolding l u using fp by (simp add: Let_def)
  show ?thesis by (simp only: started_at_def Let_def s(2) e)
qed

section \<open>Rewriting the entry that is not active\<close>

definition seqs_ok :: "rom_crc \<Rightarrow> nat \<Rightarrow> esp_ota_select_entry_t list \<Rightarrow> bool" where
  "seqs_ok rom_crc n es \<longleftrightarrow>
     (\<forall>e \<in> set es. bootloader_common_ota_select_valid rom_crc e \<longrightarrow> ota_seq e \<noteq> 0 \<and> unat (ota_seq e) + n < 2 ^ 32)"

definition new_entry_ok ::
  "bool \<Rightarrow> rom_crc \<Rightarrow> nat \<Rightarrow> nat \<Rightarrow> esp_ota_select_entry_t list \<Rightarrow> nat \<Rightarrow> esp_ota_select_entry_t \<Rightarrow> bool" where
  "new_entry_ok rollback rom_crc n k es j e \<longleftrightarrow>
     length (seq_label e) = 20 \<and> ota_state e = set_new_state_otadata rollback \<and>
     crc e = bootloader_common_ota_select_crc rom_crc e \<and> ota_seq e \<noteq> 0 \<and> ota_seq e \<noteq> 0xFFFFFFFF \<and>
     slot_of (ota_seq e) n = k \<and>
     (case bootloader_common_get_active_otadata rom_crc es of
        None \<Rightarrow> j = 0
      | Some a \<Rightarrow> j = 1 - a \<and> ota_seq (es ! a) \<le> ota_seq e \<and> unat (ota_seq e) < unat (ota_seq (es ! a)) + n)"

lemma entries_mem: "mem f = mem g \<Longrightarrow> entries d f = entries d g"
  by (simp add: entries_def entry_at_def read_select_def flash_bytes_def)

lemma length_entries [simp]: "length (entries d f) = 2"
  by (simp add: entries_def)

lemma entries_nth: "i < 2 \<Longrightarrow> entries d f ! i = entry_at d f i"
  by (auto simp: entries_def less_2_cases_iff)

lemma entries_replace:
  assumes "j < 2" "\<And>i. i \<noteq> j \<Longrightarrow> entry_at d g i = entry_at d f i" "entry_at d g j = e"
  shows "entries d g = (entries d f)[j := e]"
  using assms by (auto simp: entries_def less_2_cases_iff)

lemma entry_label: "i < 2 \<Longrightarrow> length (seq_label (entries d f ! i)) = 20"
  by (simp add: entries_nth entry_at_def length_seq_label)

text \<open>Both sides replace an entry in the same way.\<close>

lemma replace_entries:
  assumes l: "length (seq_label e) = 20" and j: "j < 2"
    and r: "replace_entry (address d + SPI_FLASH_SEC_SIZE * j) e f = (err, g)"
  shows "entries d g = entries d f \<or> (\<exists>m \<le> 32. entries d g = (entries d f)[j := partial_select m e])"
    and "faults f = [] \<Longrightarrow> power f = None \<Longrightarrow> err = ESP_OK \<and> faults g = [] \<and> power g = None \<and> entries d g = (entries d f)[j := e]"
proof -
  note ok = replace_entry_ok [OF l r]
  have same: "entries d g = (entries d f)[j := x]" if "entry_at d g j = x" for x
    using entries_replace [OF j ok(1) that] by blast
  show "entries d g = entries d f \<or> (\<exists>m \<le> 32. entries d g = (entries d f)[j := partial_select m e])"
    using ok(2)
  proof
    assume "entry_at d g j = entry_at d f j"
    then have "entries d g = (entries d f)[j := entries d f ! j]" using same j by (simp add: entries_nth)
    then show ?thesis by simp
  next
    assume "\<exists>n \<le> 32. entry_at d g j = partial_select n e"
    then show ?thesis using same by blast
  qed
  show "faults f = [] \<Longrightarrow> power f = None \<Longrightarrow> err = ESP_OK \<and> faults g = [] \<and> power g = None \<and> entries d g = (entries d f)[j := e]"
    using ok(3-5) same by metis
qed

lemma rewrite_entries:
  assumes lay: "ota_layout parts d n" and so: "seqs_ok rom_crc n (entries d f)" and k: "k < n"
  shows "\<exists>err g. esp_rewrite_ota_data rollback rom_crc parts (ESP_PARTITION_SUBTYPE_APP_OTA_MIN + k) f = Some (err, g) \<and>
    (entries d g = entries d f \<or>
     (\<exists>j e. new_entry_ok rollback rom_crc n k (entries d f) j e \<and> (\<exists>m \<le> 32. entries d g = (entries d f)[j := partial_select m e]))) \<and>
    (faults f = [] \<longrightarrow> power f = None \<longrightarrow> err = ESP_OK \<and> faults g = [] \<and> power g = None \<and>
     (\<exists>j e. new_entry_ok rollback rom_crc n k (entries d f) j e \<and> entries d g = (entries d f)[j := e]))"
proof -
  have fd: "esp_partition_find_first ESP_PARTITION_TYPE_DATA ESP_PARTITION_SUBTYPE_DATA_OTA None parts = Some d"
    and area: "select_area d" and cnt: "esp_ota_get_app_partition_count parts = Some n" and n: "0 < n" "n \<le> 16"
    using lay by (simp_all add: ota_layout_def)
  have id: "SUB_TYPE_ID (ESP_PARTITION_SUBTYPE_APP_OTA_MIN + k) = k"
    using k n by (simp add: SUB_TYPE_ID_def ESP_PARTITION_SUBTYPE_APP_OTA_MIN_def)
  let ?f1 = "snd (take_fault f)" and ?es = "entries d f"
  have mem1: "mem ?f1 = mem f" "power ?f1 = power f" by simp_all
  have es1: "entries d ?f1 = ?es" by (rule entries_mem) (rule mem1)
  note rd = read_otadata_eq [OF fd area, of f, folded entries_def]
  show ?thesis
  proof (cases "fst (take_fault f) = ESP_OK")
    case False
    then show ?thesis using rd es1 by (auto simp: esp_rewrite_ota_data_def take_fault_def)
  next
    case True
    let ?st = "set_new_state_otadata rollback"
    have "\<exists>j e. j < 2 \<and> new_entry_ok rollback rom_crc n k ?es j e \<and>
        esp_rewrite_ota_data rollback rom_crc parts (ESP_PARTITION_SUBTYPE_APP_OTA_MIN + k) f =
          Some (replace_entry (address d + SPI_FLASH_SEC_SIZE * j) e ?f1)"
    proof (cases "bootloader_common_get_active_otadata rom_crc ?es")
      case None
      let ?e = "(?es ! 0)\<lparr>ota_state := ?st, ota_seq := of_nat (k + 1), crc := rom_crc 0xFFFFFFFF (word_bytes (of_nat (k + 1)))\<rparr>"
      note fs = first_seq_slot [OF k n(2)]
      have "(of_nat (k + 1) :: 32 word) \<noteq> 0xFFFFFFFF"
      proof
        assume "(of_nat (k + 1) :: 32 word) = 0xFFFFFFFF"
        then have "unat (of_nat (k + 1) :: 32 word) = unat (0xFFFFFFFF :: 32 word)" by (rule arg_cong)
        then show False unfolding fs(3) using k n by simp
      qed
      then have "new_entry_ok rollback rom_crc n k ?es 0 ?e"
        using None fs entry_label [of 0 d f]
        by (simp add: new_entry_ok_def bootloader_common_ota_select_crc_def del: of_nat_add of_nat_Suc)
      moreover have "esp_rewrite_ota_data rollback rom_crc parts (ESP_PARTITION_SUBTYPE_APP_OTA_MIN + k) f =
          Some (replace_entry (address d + SPI_FLASH_SEC_SIZE * 0) ?e ?f1)"
        using True None k cnt entry_label [of 0 d f]
        by (simp add: esp_rewrite_ota_data_def rd id rewrite_ota_seq_eq [OF area] Let_def del: of_nat_add of_nat_Suc mult_0_right)
      moreover have "(0 :: nat) < 2" by simp
      ultimately show ?thesis by blast
    next
      case (Some a)
      have a: "a < 2" "1 - a < 2" using active_lt [OF Some] by auto
      have v: "bootloader_common_ota_select_valid rom_crc (?es ! a)"
        using Some by (auto simp: bootloader_common_get_active_otadata_def bootloader_common_select_otadata_def Let_def split: if_splits)
      then have s: "ota_seq (?es ! a) \<noteq> 0" "unat (ota_seq (?es ! a)) + n < 2 ^ 32"
        using so a(1) by (simp_all add: seqs_ok_def)
      obtain r where r: "next_seq (ota_seq (?es ! a)) (of_nat ((k + 1) mod n)) (of_nat n) 0 = Some r"
        "ota_seq (?es ! a) \<le> r" "r \<noteq> 0" "unat r < unat (ota_seq (?es ! a)) + n" "slot_of r n = k"
        using next_seq_slot [OF n(1) k s(2,1)] by blast
      have "r \<noteq> 0xFFFFFFFF" using r(4) s(2) by auto
      let ?e = "(?es ! (1 - a))\<lparr>ota_state := ?st, ota_seq := r, crc := rom_crc 0xFFFFFFFF (word_bytes r)\<rparr>"
      have "new_entry_ok rollback rom_crc n k ?es (1 - a) ?e"
        using Some r \<open>r \<noteq> 0xFFFFFFFF\<close> entry_label [OF a(2)]
        by (simp add: new_entry_ok_def bootloader_common_ota_select_crc_def)
      moreover have "esp_rewrite_ota_data rollback rom_crc parts (ESP_PARTITION_SUBTYPE_APP_OTA_MIN + k) f =
          Some (replace_entry (address d + SPI_FLASH_SEC_SIZE * (1 - a)) ?e ?f1)"
        using True Some k cnt entry_label [OF a(2)] a(2) r(1)
        by (simp add: esp_rewrite_ota_data_def rd id rewrite_ota_seq_eq [OF area] Let_def)
      ultimately show ?thesis using a(2) by blast
    qed
    then obtain j e where je: "j < 2" "new_entry_ok rollback rom_crc n k ?es j e"
      "esp_rewrite_ota_data rollback rom_crc parts (ESP_PARTITION_SUBTYPE_APP_OTA_MIN + k) f =
        Some (replace_entry (address d + SPI_FLASH_SEC_SIZE * j) e ?f1)" by blast
    obtain err g where g: "replace_entry (address d + SPI_FLASH_SEC_SIZE * j) e ?f1 = (err, g)" by fastforce
    have l: "length (seq_label e) = 20" using je(2) by (simp add: new_entry_ok_def)
    note rep = replace_entries [OF l je(1) g, unfolded es1]
    have "faults f = [] \<Longrightarrow> faults ?f1 = []" by (simp add: take_fault_def)
    then show ?thesis using rep je(2,3) g mem1(2) by (intro exI [of _ err] exI [of _ g]) auto
  qed
qed

section \<open>The choice after an update\<close>

lemma valid_not_invalid:
  "bootloader_common_ota_select_valid rom_crc e \<Longrightarrow> \<not> bootloader_common_ota_select_invalid e"
  by (simp add: bootloader_common_ota_select_valid_def)

lemma active_eq:
  "bootloader_common_get_active_otadata rom_crc [x, y] =
     (if bootloader_common_ota_select_valid rom_crc x \<and> bootloader_common_ota_select_valid rom_crc y
      then if ota_seq y \<le> ota_seq x then Some 0 else Some 1
      else if bootloader_common_ota_select_valid rom_crc x then Some 0
      else if bootloader_common_ota_select_valid rom_crc y then Some 1 else None)"
  by (auto simp: bootloader_common_get_active_otadata_def bootloader_common_select_otadata_def Let_def max_def)

lemma new_entry_valid: "new_entry_ok rollback rom_crc n k es j e \<Longrightarrow> bootloader_common_ota_select_valid rom_crc e"
  by (auto simp: new_entry_ok_def bootloader_common_ota_select_valid_def bootloader_common_ota_select_invalid_def
      set_new_state_otadata_def img_states)

text \<open>An entry in place of the inactive one that is valid selects the new slot; one that is not valid
  leaves the choice as it was, or leaves both sides of the choice without an active entry.\<close>

lemma choice_after:
  assumes new: "new_entry_ok rollback rom_crc n k [x, y] j e"
    and p: "bootloader_common_ota_select_valid rom_crc p \<Longrightarrow> ota_seq p = ota_seq e"
  shows "bootloader_common_ota_select_valid rom_crc p \<Longrightarrow> chosen_index rom_crc hf n ([x, y][j := p]) = int k"
    and "\<not> bootloader_common_ota_select_valid rom_crc p \<Longrightarrow>
      chosen_index rom_crc hf n ([x, y][j := p]) = chosen_index rom_crc hf n [x, y] \<or>
      bootloader_common_get_active_otadata rom_crc [x, y] = None \<and>
      bootloader_common_get_active_otadata rom_crc ([x, y][j := p]) = None"
proof -
  have slot: "slot_of (ota_seq e) n = k" using new by (simp add: new_entry_ok_def)
  consider (none) "bootloader_common_get_active_otadata rom_crc [x, y] = None" "j = 0"
    | (first) "bootloader_common_get_active_otadata rom_crc [x, y] = Some 0" "j = 1" "ota_seq x \<le> ota_seq e"
    | (second) "bootloader_common_get_active_otadata rom_crc [x, y] = Some 1" "j = 0" "ota_seq y \<le> ota_seq e"
    using new active_lt [of rom_crc "[x, y]"] by (auto simp: new_entry_ok_def split: option.splits)
  note cs = this
  show "chosen_index rom_crc hf n ([x, y][j := p]) = int k" if v: "bootloader_common_ota_select_valid rom_crc p"
    using cs
  proof cases
    case none
    then show ?thesis using v p [OF v] slot valid_not_invalid [OF v]
      by (auto simp: chosen_index_def active_eq split: if_splits)
  next
    case first
    then show ?thesis using v p [OF v] slot valid_not_invalid [OF v]
      by (auto simp: chosen_index_def active_eq split: if_splits)
  next
    case second
    then show ?thesis using v p [OF v] slot valid_not_invalid [OF v]
      by (auto simp: chosen_index_def active_eq split: if_splits)
  qed
  show "chosen_index rom_crc hf n ([x, y][j := p]) = chosen_index rom_crc hf n [x, y] \<or>
      bootloader_common_get_active_otadata rom_crc [x, y] = None \<and>
      bootloader_common_get_active_otadata rom_crc ([x, y][j := p]) = None"
    if v: "\<not> bootloader_common_ota_select_valid rom_crc p"
    using cs
  proof cases
    case none
    then show ?thesis using v by (auto simp: active_eq split: if_splits)
  next
    case first
    then have "bootloader_common_ota_select_valid rom_crc x" by (auto simp: active_eq split: if_splits)
    then show ?thesis using v first valid_not_invalid [of rom_crc x] by (auto simp: chosen_index_def active_eq)
  next
    case second
    then have "bootloader_common_ota_select_valid rom_crc y" by (auto simp: active_eq split: if_splits)
    then show ?thesis using v second valid_not_invalid [of rom_crc y] by (auto simp: chosen_index_def active_eq)
  qed
qed

lemma chosen_none:
  "bootloader_common_get_active_otadata rom_crc es = None \<Longrightarrow>
     chosen_index rom_crc hf n es = FACTORY_INDEX \<or> \<not> hf \<and> chosen_index rom_crc hf n es = 0"
  by (simp add: chosen_index_def)

lemma started_none:
  assumes lay: "ota_layout parts d n"
    and a: "bootloader_common_get_active_otadata rom_crc es = None" "bootloader_common_get_active_otadata rom_crc es' = None"
    and hf: "hf \<longleftrightarrow> pos_offset (factory (bootloader_utility_load_partition_table parts)) \<noteq> 0"
  shows "started_at parts loads (chosen_index rom_crc hf n es) = started_at parts loads (chosen_index rom_crc hf n es')"
  using chosen_none [OF a(1), of hf n] chosen_none [OF a(2), of hf n] started_at_default [OF lay, of loads] hf by auto

lemma update_choice:
  assumes lay: "ota_layout parts d n" and c: "crc_ok rom_crc" and so: "seqs_ok rom_crc n (entries d f)"
    and np: "no_pending rollback (entries d f)" and k: "k < n"
  shows "\<exists>err g. esp_rewrite_ota_data rollback rom_crc parts (ESP_PARTITION_SUBTYPE_APP_OTA_MIN + k) f = Some (err, g) \<and>
    (started rollback rom_crc parts loads (restart g) = started rollback rom_crc parts loads (restart f) \<or>
     started rollback rom_crc parts loads (restart g) = started_at parts loads (int k)) \<and>
    (faults f = [] \<longrightarrow> power f = None \<longrightarrow>
       err = ESP_OK \<and> started rollback rom_crc parts loads (restart g) = started_at parts loads (int k))"
proof -
  let ?hf = "pos_offset (factory (bootloader_utility_load_partition_table parts)) \<noteq> 0"
  let ?x = "entry_at d f 0" and ?y = "entry_at d f 1"
  have es: "entries d f = [?x, ?y]" by (simp add: entries_def)
  have er: "entries d (restart h) = entries d h" for h by (simp add: entries_def)
  have fr: "faults (restart h) = []" for h by (simp add: restart_def)
  obtain err g where g: "esp_rewrite_ota_data rollback rom_crc parts (ESP_PARTITION_SUBTYPE_APP_OTA_MIN + k) f = Some (err, g)"
    and ent: "entries d g = entries d f \<or> (\<exists>j e. new_entry_ok rollback rom_crc n k (entries d f) j e \<and>
      (\<exists>m \<le> 32. entries d g = (entries d f)[j := partial_select m e]))"
    and full: "faults f = [] \<longrightarrow> power f = None \<longrightarrow> err = ESP_OK \<and> faults g = [] \<and> power g = None \<and>
      (\<exists>j e. new_entry_ok rollback rom_crc n k (entries d f) j e \<and> entries d g = (entries d f)[j := e])"
    using rewrite_entries [OF lay so k] by blast
  have sf: "started rollback rom_crc parts loads (restart f) = started_at parts loads (chosen_index rom_crc ?hf n (entries d f))"
    using started_eq [OF lay fr] np by (simp add: er)
  have after: "started rollback rom_crc parts loads (restart g) =
        started_at parts loads (chosen_index rom_crc ?hf n ([?x, ?y][j := partial_select m e])) \<and>
      (started rollback rom_crc parts loads (restart g) = started rollback rom_crc parts loads (restart f) \<or>
       started rollback rom_crc parts loads (restart g) = started_at parts loads (int k)) \<and>
      (m = 32 \<longrightarrow> started rollback rom_crc parts loads (restart g) = started_at parts loads (int k))"
    if new: "new_entry_ok rollback rom_crc n k [?x, ?y] j e" and eg: "entries d g = [?x, ?y][j := partial_select m e]" for j e m
  proof -
    have l: "length (seq_label e) = 20" and s: "ota_seq e \<noteq> 0" and st: "ota_state e = set_new_state_otadata rollback"
      using new by (simp_all add: new_entry_ok_def)
    have st': "ota_state e = ESP_OTA_IMG_NEW \<or> ota_state e = ESP_OTA_IMG_UNDEFINED" using st by (simp add: set_new_state_otadata_def)
    have j: "j = 0 \<or> j = 1" using new active_lt [of rom_crc "[?x, ?y]"] by (auto simp: new_entry_ok_def split: option.splits)
    have np': "no_pending rollback (entries d (restart g))"
      using np partial_select_not_pending [OF l st', of m] j by (auto simp: er eg es no_pending_def)
    have sg: "started rollback rom_crc parts loads (restart g) =
        started_at parts loads (chosen_index rom_crc ?hf n ([?x, ?y][j := partial_select m e]))"
      using started_eq [OF lay fr np'] by (simp add: er eg)
    have pv: "bootloader_common_ota_select_valid rom_crc (partial_select m e) \<Longrightarrow> ota_seq (partial_select m e) = ota_seq e"
      using partial_select_valid [OF l c s] by blast
    have whole: "m = 32 \<Longrightarrow> bootloader_common_ota_select_valid rom_crc (partial_select m e)"
      using new_entry_valid [OF new] partial_select_32 [OF l] by simp
    show ?thesis
    proof (cases "bootloader_common_ota_select_valid rom_crc (partial_select m e)")
      case True
      have "chosen_index rom_crc ?hf n ([?x, ?y][j := partial_select m e]) = int k"
        by (rule choice_after(1) [OF new pv True])
      then show ?thesis using sg by simp
    next
      case False
      have "chosen_index rom_crc ?hf n ([?x, ?y][j := partial_select m e]) = chosen_index rom_crc ?hf n [?x, ?y] \<or>
          bootloader_common_get_active_otadata rom_crc [?x, ?y] = None \<and>
          bootloader_common_get_active_otadata rom_crc ([?x, ?y][j := partial_select m e]) = None"
        by (rule choice_after(2) [OF new pv False])
      then have "started_at parts loads (chosen_index rom_crc ?hf n ([?x, ?y][j := partial_select m e])) =
          started_at parts loads (chosen_index rom_crc ?hf n [?x, ?y])"
        using started_none [OF lay _ _ refl, of rom_crc "[?x, ?y][j := partial_select m e]" "[?x, ?y]" loads] by metis
      then have "started rollback rom_crc parts loads (restart g) = started rollback rom_crc parts loads (restart f)"
        by (simp only: sg sf es)
      moreover have "m \<noteq> 32" using whole False by blast
      ultimately show ?thesis using sg by blast
    qed
  qed
  have "started rollback rom_crc parts loads (restart g) = started rollback rom_crc parts loads (restart f) \<or>
      started rollback rom_crc parts loads (restart g) = started_at parts loads (int k)"
    using ent
  proof
    assume "entries d g = entries d f"
    then show ?thesis using started_eq [OF lay fr, of rollback g] np sf by (simp add: er)
  next
    assume "\<exists>j e. new_entry_ok rollback rom_crc n k (entries d f) j e \<and>
      (\<exists>m \<le> 32. entries d g = (entries d f)[j := partial_select m e])"
    then obtain j e m where "new_entry_ok rollback rom_crc n k [?x, ?y] j e" "entries d g = [?x, ?y][j := partial_select m e]"
      unfolding es by blast
    then show ?thesis using after by blast
  qed
  moreover have "err = ESP_OK \<and> started rollback rom_crc parts loads (restart g) = started_at parts loads (int k)"
    if pw: "faults f = []" "power f = None"
  proof -
    obtain j e where je: "err = ESP_OK" "new_entry_ok rollback rom_crc n k [?x, ?y] j e" "entries d g = [?x, ?y][j := e]"
      using full pw unfolding es by blast
    have "length (seq_label e) = 20" using je(2) by (simp add: new_entry_ok_def)
    then have "entries d g = [?x, ?y][j := partial_select 32 e]" using je(3) by (simp add: partial_select_32)
    then show ?thesis using after [OF je(2), of 32] je(1) by blast
  qed
  ultimately show ?thesis using g by (intro exI [of _ err] exI [of _ g]) simp
qed

end
