(* ===== verification/Ota_Rollback.thy ===== *)
theory Ota_Rollback
  imports Ota_Boot
begin

text \<open>
  What a start of the device and the confirmation of the running app do to the two select entries, when
  the flash works and the power stays on, in a build with rollback.
\<close>

section \<open>A working flash\<close>

definition working :: "flash \<Rightarrow> bool" where
  "working f \<longleftrightarrow> faults f = [] \<and> power f = None"

text \<open>Replacing entry \<open>j\<close> leaves a working flash with the new list of entries.\<close>

definition holds :: "esp_partition_t \<Rightarrow> flash \<Rightarrow> esp_ota_select_entry_t list \<Rightarrow> bool" where
  "holds d f es \<longleftrightarrow> working f \<and> entries d f = es"

lemma holds_length: "holds d f es \<Longrightarrow> length es = 2"
  by (auto simp: holds_def)

lemma holds_label: "holds d f es \<Longrightarrow> j < 2 \<Longrightarrow> length (seq_label (es ! j)) = 20"
  by (auto simp: holds_def entry_label)

lemma holds_replace:
  assumes h: "holds d f es" and l: "length (seq_label e) = 20" and j: "j < 2"
  shows "\<exists>g. replace_entry (address d + SPI_FLASH_SEC_SIZE * j) e f = (ESP_OK, g) \<and> holds d g (es[j := e])"
proof -
  obtain err g where r: "replace_entry (address d + SPI_FLASH_SEC_SIZE * j) e f = (err, g)" by fastforce
  have "faults f = []" "power f = None" "entries d f = es" using h by (simp_all add: holds_def working_def)
  then show ?thesis using replace_entries(2) [OF l j r] r by (auto simp: holds_def working_def)
qed

lemma holds_write_otadata:
  assumes h: "holds d f es" and d: "select_area d" and l: "length (seq_label e) = 20" and j: "j < 2"
  shows "holds d (write_otadata e (address d + SPI_FLASH_SEC_SIZE * j) f) (es[j := e])"
  using holds_replace [OF h l j] by (auto simp: write_otadata_eq [OF d])

lemma holds_rewrite:
  assumes h: "holds d f es" and d: "select_area d" and l: "length (seq_label (two ! j)) = 20" and j: "j < 2"
  shows "\<exists>g. rewrite_ota_seq rom_crc two seq j d f = (ESP_OK, g) \<and>
    holds d g (es[j := (two ! j)\<lparr>ota_seq := seq, crc := rom_crc 0xFFFFFFFF (word_bytes seq)\<rparr>])"
  unfolding rewrite_ota_seq_eq [OF d j l] by (rule holds_replace [OF h]) (simp_all add: l j)

lemma holds_read:
  assumes h: "holds d f es"
    and d: "esp_partition_find_first ESP_PARTITION_TYPE_DATA ESP_PARTITION_SUBTYPE_DATA_OTA None parts = Some d" "select_area d"
  shows "read_otadata parts f = (Some (d, es), f)"
  using h by (simp add: read_otadata_eq [OF d] holds_def working_def take_fault_ok entries_def)

section \<open>A start of the device\<close>

definition aborted :: "esp_ota_select_entry_t \<Rightarrow> esp_ota_select_entry_t" where
  "aborted e = (if ota_state e = ESP_OTA_IMG_PENDING_VERIFY then e\<lparr>ota_state := ESP_OTA_IMG_ABORTED\<rparr> else e)"

lemma holds_abort:
  assumes h: "holds d f es" and d: "select_area d" and j: "j < 2"
    and i: "info = \<lparr>pos_offset = address d, pos_size = psize d\<rparr>"
  shows "\<exists>g. abort_pending info j (es, f) = (es[j := aborted (es ! j)], g) \<and> holds d g (es[j := aborted (es ! j)])"
proof (cases "ota_state (es ! j) = ESP_OTA_IMG_PENDING_VERIFY")
  case True
  have l: "length (seq_label ((es ! j)\<lparr>ota_state := ESP_OTA_IMG_ABORTED\<rparr>)) = 20" using holds_label [OF h j] by simp
  show ?thesis using True holds_write_otadata [OF h d l j] by (simp add: abort_pending_def aborted_def i Let_def)
next
  case False
  then have "aborted (es ! j) = es ! j" by (simp add: aborted_def)
  then show ?thesis using False h by (simp add: abort_pending_def)
qed

text \<open>The entries after a start with the active entry \<open>a\<close>.\<close>

definition after_start :: "nat \<Rightarrow> esp_ota_select_entry_t list \<Rightarrow> esp_ota_select_entry_t list" where
  "after_start a es =
     (if ota_state (es ! a) = ESP_OTA_IMG_NEW then es[a := (es ! a)\<lparr>ota_state := ESP_OTA_IMG_PENDING_VERIFY\<rparr>] else es)"

lemma holds_start:
  assumes h: "holds d f es" and lay: "ota_layout parts d n"
    and a: "bootloader_common_get_active_otadata rom_crc (map aborted es) = Some a"
  shows "\<exists>g. call_start_cpu0 True rom_crc parts loads f =
      (started_at parts loads (int (slot_of (ota_seq (es ! a)) n)), g) \<and> holds d g (after_start a (map aborted es))"
proof -
  let ?bs = "bootloader_utility_load_partition_table parts"
  let ?pos = "\<lparr>pos_offset = address d, pos_size = psize d\<rparr>"
  have d: "select_area d" "0 < n" and i: "ota_info ?bs = ?pos" "app_count ?bs = n"
    using lay by (simp_all add: ota_layout_def)
  obtain x y where xy: "es = [x, y]" using holds_length [OF h] by (auto simp: length_Suc_conv numeral_2_eq_2)
  have rd: "bootloader_common_read_otadata ?pos f = (ESP_OK, es, f)"
    using h bootloader_read_eq [OF d(1) refl, of f] by (simp add: holds_def working_def take_fault_ok entries_def)
  obtain f1 where f1: "abort_pending ?pos 0 (es, f) = (es[0 := aborted (es ! 0)], f1)" "holds d f1 (es[0 := aborted (es ! 0)])"
    using holds_abort [OF h d(1) _ refl] by fastforce
  obtain f2 where f2: "abort_pending ?pos 1 (es[0 := aborted (es ! 0)], f1) = ([aborted x, aborted y], f2)" "holds d f2 [aborted x, aborted y]"
    using holds_abort [OF f1(2) d(1) _ refl, of 1] by (auto simp: xy)
  have al: "a = 0 \<or> a = 1" using active_lt [OF a] .
  have v: "bootloader_common_ota_select_valid rom_crc (map aborted es ! a)"
    using a by (auto simp: xy active_eq split: if_splits)
  then have inv: "\<not> (bootloader_common_ota_select_invalid (aborted x) \<and> bootloader_common_ota_select_invalid (aborted y))"
    using al valid_not_invalid by (auto simp: xy)
  have adr: "address d \<noteq> 0" using d(1) by (simp add: select_area_def)
  have sq: "ota_seq (map aborted es ! a) = ota_seq (es ! a)" using al by (auto simp: xy aborted_def)
  have w: "holds d (write_otadata ((map aborted es ! a)\<lparr>ota_state := ESP_OTA_IMG_PENDING_VERIFY\<rparr>)
      (address d + SPI_FLASH_SEC_SIZE * a) f2) ([aborted x, aborted y][a := (map aborted es ! a)\<lparr>ota_state := ESP_OTA_IMG_PENDING_VERIFY\<rparr>])"
    by (rule holds_write_otadata [OF f2(2) d(1)]) (use al holds_label [OF f2(2), of a] in \<open>auto simp: xy\<close>)
  have nz: "\<not> (int (slot_of q n) = TEST_APP_INDEX)" "\<not> (int (slot_of q n) = INVALID_INDEX)" for q by (simp_all add: boot_consts)
  have sel: "bootloader_utility_get_selected_boot_partition True rom_crc ?bs False f =
      (int (slot_of (ota_seq (es ! a)) n), False,
       if ota_state (map aborted es ! a) = ESP_OTA_IMG_NEW
       then write_otadata ((map aborted es ! a)\<lparr>ota_state := ESP_OTA_IMG_PENDING_VERIFY\<rparr>) (address d + SPI_FLASH_SEC_SIZE * a) f2
       else f2)"
    using adr d(2) inv a f1(1) f2(1) al
    unfolding bootloader_utility_get_selected_boot_partition_def i sq [symmetric]
    by (auto simp: rd Let_def xy)
  show ?thesis
    using w f2(2) nz by (auto simp: call_start_cpu0_def sel started_at_def bootloader_utility_load_boot_image_def
        set_actual_ota_seq_def after_start_def xy Let_def split: option.splits)
qed

section \<open>Confirming the running app\<close>

lemma active_crc:
  assumes "bootloader_common_get_active_otadata rom_crc es = Some a"
  shows "crc (es ! a) = rom_crc 0xFFFFFFFF (word_bytes (ota_seq (es ! a)))" "a < 2"
proof -
  have "bootloader_common_ota_select_valid rom_crc (es ! a)"
    using assms by (auto simp: bootloader_common_get_active_otadata_def bootloader_common_select_otadata_def Let_def split: if_splits)
  then show "crc (es ! a) = rom_crc 0xFFFFFFFF (word_bytes (ota_seq (es ! a)))"
    by (simp add: bootloader_common_ota_select_valid_def bootloader_common_ota_select_crc_def)
  show "a < 2" using active_lt [OF assms] by auto
qed

lemma holds_rewrite_state:
  assumes h: "holds d f es" and d: "select_area d" and a: "bootloader_common_get_active_otadata rom_crc es = Some a"
  shows "\<exists>g. rewrite_ota_seq rom_crc (es[a := (es ! a)\<lparr>ota_state := st\<rparr>]) (ota_seq (es ! a)) a d f = (ESP_OK, g) \<and>
    holds d g (es[a := (es ! a)\<lparr>ota_state := st\<rparr>])"
proof -
  note ac = active_crc [OF a]
  have l: "length es = 2" by (rule holds_length [OF h])
  have "length (seq_label (es[a := (es ! a)\<lparr>ota_state := st\<rparr>] ! a)) = 20" using holds_label [OF h ac(2)] ac(2) l by simp
  note l20 = this
  have same: "e\<lparr>ota_state := st, crc := c\<rparr> = e\<lparr>ota_state := st\<rparr>" if "crc e = c" for e :: esp_ota_select_entry_t and c
    using that by (cases e) simp
  show ?thesis
    using holds_rewrite [OF h d l20 ac(2), of rom_crc "ota_seq (es ! a)"] ac(2) l by (simp add: same [OF ac(1)])
qed

lemma holds_mark_valid:
  assumes h: "holds d f es" and lay: "ota_layout parts d n"
    and a: "bootloader_common_get_active_otadata rom_crc es = Some a" and s: "ota_state (es ! a) \<noteq> ESP_OTA_IMG_VALID"
  shows "\<exists>g. esp_ota_mark_app_valid_cancel_rollback rom_crc image_ok parts f = Some (Returned ESP_OK, g) \<and>
    holds d g (es[a := (es ! a)\<lparr>ota_state := ESP_OTA_IMG_VALID\<rparr>])"
proof -
  have d: "select_area d" "0 < n" and fd: "esp_partition_find_first ESP_PARTITION_TYPE_DATA ESP_PARTITION_SUBTYPE_DATA_OTA None parts = Some d"
    and c: "esp_ota_get_app_partition_count parts = Some n"
    using lay by (simp_all add: ota_layout_def)
  show ?thesis using holds_rewrite_state [OF h d(1) a, of ESP_OTA_IMG_VALID] d(2) a s
    by (auto simp: esp_ota_mark_app_valid_cancel_rollback_def esp_ota_current_ota_is_workable_def holds_read [OF h fd d(1)] c)
qed

lemma holds_mark_invalid:
  assumes h: "holds d f es" and lay: "ota_layout parts d n"
    and a: "bootloader_common_get_active_otadata rom_crc es = Some a"
    and v: "bootloader_common_ota_select_valid rom_crc (es ! (1 - a))"
    and q: "find_app parts (ESP_PARTITION_SUBTYPE_APP_OTA_MIN + slot_of (ota_seq (es ! (1 - a))) n) = Some q" "image_ok q"
  shows "\<exists>g. esp_ota_mark_app_invalid_rollback_and_reboot rom_crc image_ok parts f = Some (Restarted, g) \<and>
    holds d g (es[a := (es ! a)\<lparr>ota_state := ESP_OTA_IMG_INVALID\<rparr>])"
proof -
  have d: "select_area d" "0 < n" and fd: "esp_partition_find_first ESP_PARTITION_TYPE_DATA ESP_PARTITION_SUBTYPE_DATA_OTA None parts = Some d"
    and c: "esp_ota_get_app_partition_count parts = Some n"
    using lay by (simp_all add: ota_layout_def)
  have al: "a = 0 \<or> a = 1" using active_lt [OF a] .
  have "esp_ota_check_rollback_is_possible rom_crc image_ok parts f = Some (True, f)"
    using al a v q d(2) unfolding bootloader_common_get_active_otadata_def
    by (auto simp: esp_ota_check_rollback_is_possible_def holds_read [OF h fd d(1)] c Let_def)
  then show ?thesis using holds_rewrite_state [OF h d(1) a, of ESP_OTA_IMG_INVALID] d(2) a
    by (auto simp: esp_ota_mark_app_invalid_rollback_and_reboot_def esp_ota_current_ota_is_workable_def
        holds_read [OF h fd d(1)] c)
qed

section \<open>The entries of an update\<close>

lemma valid_fields:
  "bootloader_common_ota_select_valid rom_crc e \<longleftrightarrow>
     ota_seq e \<noteq> 0xFFFFFFFF \<and> ota_state e \<noteq> ESP_OTA_IMG_INVALID \<and> ota_state e \<noteq> ESP_OTA_IMG_ABORTED \<and>
     crc e = rom_crc 0xFFFFFFFF (word_bytes (ota_seq e))"
  by (auto simp: bootloader_common_ota_select_valid_def bootloader_common_ota_select_invalid_def
      bootloader_common_ota_select_crc_def)

text \<open>The entry of an update to another slot, in the state \<open>st\<close>, beside the confirmed entry \<open>a\<close>.\<close>

definition update_entries :: "esp_ota_select_entry_t list \<Rightarrow> nat \<Rightarrow> esp_ota_select_entry_t \<Rightarrow> 32 word \<Rightarrow> esp_ota_select_entry_t list" where
  "update_entries es a e st = es[1 - a := e\<lparr>ota_state := st\<rparr>]"

lemma update_entries_again:
  "length es = 2 \<Longrightarrow> a < 2 \<Longrightarrow> (update_entries es a e st)[1 - a := (update_entries es a e st ! (1 - a))\<lparr>ota_state := st'\<rparr>] =
     update_entries es a e st'"
  by (simp add: update_entries_def)

lemma update_active:
  assumes a: "bootloader_common_get_active_otadata rom_crc es = Some a" and l: "length es = 2"
    and new: "new_entry_ok rollback rom_crc n k es j e" and k: "slot_of (ota_seq (es ! a)) n \<noteq> k"
  shows "bootloader_common_get_active_otadata rom_crc (update_entries es a e st) =
      (if st = ESP_OTA_IMG_INVALID \<or> st = ESP_OTA_IMG_ABORTED then Some a else Some (1 - a))"
    and "j = 1 - a" and "update_entries es a e st ! a = es ! a"
    and "slot_of (ota_seq (update_entries es a e st ! (1 - a))) n = k"
proof -
  obtain x y where xy: "es = [x, y]" using l by (auto simp: length_Suc_conv numeral_2_eq_2)
  have al: "a = 0 \<or> a = 1" using active_lt [OF a] .
  show j: "j = 1 - a" using new a by (simp add: new_entry_ok_def)
  have le: "ota_seq (es ! a) \<le> ota_seq e" and sl: "slot_of (ota_seq e) n = k" and ne: "ota_seq e \<noteq> 0xFFFFFFFF"
    and c: "crc e = rom_crc 0xFFFFFFFF (word_bytes (ota_seq e))"
    using new a by (simp_all add: new_entry_ok_def bootloader_common_ota_select_crc_def)
  then have lt: "ota_seq (es ! a) < ota_seq e" using k by (metis order_le_neq_trans)
  have va: "bootloader_common_ota_select_valid rom_crc (es ! a)"
    using a by (auto simp: bootloader_common_get_active_otadata_def bootloader_common_select_otadata_def Let_def split: if_splits)
  show "bootloader_common_get_active_otadata rom_crc (update_entries es a e st) =
      (if st = ESP_OTA_IMG_INVALID \<or> st = ESP_OTA_IMG_ABORTED then Some a else Some (1 - a))"
    using al va lt ne c by (auto simp: xy update_entries_def active_eq valid_fields)
  show "update_entries es a e st ! a = es ! a" "slot_of (ota_seq (update_entries es a e st ! (1 - a))) n = k"
    using al sl by (auto simp: xy update_entries_def)
qed

lemma map_aborted_update:
  assumes "length es = 2" "a < 2" "no_pending True es"
  shows "map aborted (update_entries es a e st) =
    update_entries es a e (if st = ESP_OTA_IMG_PENDING_VERIFY then ESP_OTA_IMG_ABORTED else st)"
proof -
  obtain x y where "es = [x, y]" using assms(1) by (auto simp: length_Suc_conv numeral_2_eq_2)
  then show ?thesis using assms(2,3)
    by (auto simp: update_entries_def no_pending_def aborted_def less_2_cases_iff)
qed

lemma started_at_loads:
  assumes "k < app_count (bootloader_utility_load_partition_table parts)" "k < 16"
    and "pos_size (ota (bootloader_utility_load_partition_table parts) ! k) \<noteq> 0"
    and "loads (ota (bootloader_utility_load_partition_table parts) ! k)"
  shows "started_at parts loads (int k) = Some (int k)"
proof -
  have "rev [FACTORY_INDEX..int k] = int k # rev [FACTORY_INDEX..int k - 1]"
    by (simp add: FACTORY_INDEX_def upto_rec2)
  then show ?thesis using assms by (simp add: started_at_def index_to_partition_def boot_consts Let_def)
qed

text \<open>A start with the entry of an update in state \<open>s\<close>: which slot runs, and the state it leaves.\<close>

definition runs_new :: "32 word \<Rightarrow> bool" where
  "runs_new s \<longleftrightarrow> s \<noteq> ESP_OTA_IMG_INVALID \<and> s \<noteq> ESP_OTA_IMG_ABORTED \<and> s \<noteq> ESP_OTA_IMG_PENDING_VERIFY"

definition next_state :: "32 word \<Rightarrow> 32 word" where
  "next_state s =
     (if s = ESP_OTA_IMG_NEW then ESP_OTA_IMG_PENDING_VERIFY
      else if s = ESP_OTA_IMG_PENDING_VERIFY then ESP_OTA_IMG_ABORTED else s)"

lemma holds_update_start:
  assumes h: "holds d f (update_entries es a e s)" and lay: "ota_layout parts d n"
    and act: "bootloader_common_get_active_otadata rom_crc es = Some a" and l: "length es = 2"
    and new: "new_entry_ok rollback rom_crc n k es j e" and k: "slot_of (ota_seq (es ! a)) n \<noteq> k"
    and np: "no_pending True es" and conf: "ota_state (es ! a) \<noteq> ESP_OTA_IMG_NEW"
  shows "\<exists>g. call_start_cpu0 True rom_crc parts loads f =
      (started_at parts loads (int (if runs_new s then k else slot_of (ota_seq (es ! a)) n)), g) \<and>
    holds d g (update_entries es a e (next_state s))"
proof -
  let ?s = "if s = ESP_OTA_IMG_PENDING_VERIFY then ESP_OTA_IMG_ABORTED else s"
  let ?b = "if runs_new s then 1 - a else a"
  have a: "a < 2" using active_lt [OF act] by auto
  note up = update_active [OF act l new k]
  have m: "map aborted (update_entries es a e s) = update_entries es a e ?s" by (rule map_aborted_update [OF l a np])
  have b: "bootloader_common_get_active_otadata rom_crc (map aborted (update_entries es a e s)) = Some ?b"
    unfolding m up(1) by (auto simp: runs_new_def)
  have slot: "slot_of (ota_seq (update_entries es a e s ! ?b)) n = (if runs_new s then k else slot_of (ota_seq (es ! a)) n)"
    using up(3,4) by simp
  have "update_entries es a e x ! (1 - a) = e\<lparr>ota_state := x\<rparr>" for x using l a by (simp add: update_entries_def)
  then have "after_start ?b (update_entries es a e ?s) = update_entries es a e (next_state s)"
    using up(3) conf update_entries_again [OF l a, of e]
    by (auto simp: after_start_def next_state_def runs_new_def img_states)
  then show ?thesis using holds_start [OF h lay b, of loads] unfolding m slot by simp
qed

end
