(* ===== verification/Ota_Stream.thy ===== *)
theory Ota_Stream
  imports Ota_Write Ota_Rollback
begin

text \<open>
  Sequential writes as a stream of bytes: the part of the partition that holds the stream, the part that
  is erased, and how the calls of one write move the two bounds.
\<close>

section \<open>The area of a stream\<close>

definition sector_up :: "nat \<Rightarrow> nat" where
  "sector_up w = (w + 4095) div 4096 * 4096"

lemma sector_up_ge: "w \<le> sector_up w"
proof -
  have "sector_up w + (w + 4095) mod 4096 = w + 4095" unfolding sector_up_def by (rule div_mult_mod_eq)
  moreover have "(w + 4095) mod 4096 < 4096" by simp
  ultimately show ?thesis by linarith
qed

lemma sector_up_mono: "w \<le> v \<Longrightarrow> sector_up w \<le> sector_up v"
  by (simp add: sector_up_def div_le_mono)

lemma sector_up_dvd [simp]: "sector_up w mod 4096 = 0"
  by (simp add: sector_up_def)

lemma sector_up_id: "w mod 4096 = 0 \<Longrightarrow> sector_up w = w"
proof -
  assume "w mod 4096 = 0"
  then obtain k where k: "w = 4096 * k" by (auto elim: dvdE simp: mod_eq_0_iff_dvd)
  have "(4096 * k + 4095) div 4096 = k" by simp
  then show ?thesis by (simp add: sector_up_def k)
qed

lemma sector_up_least: "w \<le> v \<Longrightarrow> v mod 4096 = 0 \<Longrightarrow> sector_up w \<le> v"
  using sector_up_mono [of w v] sector_up_id [of v] by simp

lemma sector_up_div: "0 < w \<Longrightarrow> sector_up w = ((w - 1) div 4096 + 1) * 4096"
proof -
  assume "0 < w"
  then have w: "w + 4095 = w - 1 + 4096" by simp
  show ?thesis unfolding sector_up_def w by (subst div_add_self2) simp_all
qed

lemma sector_up_inside: "w mod 4096 \<noteq> 0 \<Longrightarrow> sector_up w = (w div 4096 + 1) * 4096"
proof -
  assume w: "w mod 4096 \<noteq> 0"
  then obtain m where m: "w = Suc m" by (cases w) auto
  have "Suc m div 4096 = m div 4096" using w unfolding m by (simp add: div_Suc)
  then show ?thesis by (simp add: sector_up_div m)
qed

text \<open>Partition \<open>q\<close> holds the bytes \<open>s\<close> and is erased from there up to \<open>e\<close>; \<open>g\<close> differs from \<open>f\<close> only from
  \<open>a\<close> to \<open>e\<close>.\<close>

definition area :: "esp_partition_t \<Rightarrow> byte list \<Rightarrow> nat \<Rightarrow> flash \<Rightarrow> bool" where
  "area q s e f \<longleftrightarrow> working f \<and> length s \<le> e \<and> e \<le> psize q \<and>
     (\<forall>i < length s. mem f (address q + i) = s ! i) \<and>
     (\<forall>i. length s \<le> i \<longrightarrow> i < e \<longrightarrow> mem f (address q + i) = 0xFF)"

definition same_outside :: "esp_partition_t \<Rightarrow> nat \<Rightarrow> nat \<Rightarrow> flash \<Rightarrow> flash \<Rightarrow> bool" where
  "same_outside q a e f g \<longleftrightarrow> (\<forall>x. x < address q + a \<or> address q + e \<le> x \<longrightarrow> mem g x = mem f x)"

lemma same_outside_refl: "same_outside q a e f f"
  by (simp add: same_outside_def)

lemma same_outside_trans:
  "same_outside q a e f g \<Longrightarrow> same_outside q b d g h \<Longrightarrow> a \<le> b \<Longrightarrow> d \<le> e \<Longrightarrow> same_outside q a e f h"
  by (simp add: same_outside_def)

lemma same_outside_weaken: "same_outside q b d f g \<Longrightarrow> a \<le> b \<Longrightarrow> d \<le> e \<Longrightarrow> same_outside q a e f g"
  by (simp add: same_outside_def)

lemma area_shrink: "area q s e f \<Longrightarrow> length s \<le> e' \<Longrightarrow> e' \<le> e \<Longrightarrow> area q s e' f"
  by (simp add: area_def)

lemma byte_ff_and: "(0xFF :: byte) AND b = b"
proof -
  have ff: "(0xFF :: byte) = - 1" by (simp add: word_uint_eq_iff unsigned_minus_1_eq_mask mask_eq_exp_minus_1)
  show ?thesis unfolding ff by simp
qed

text \<open>A partition that can be written: aligned to sectors, of whole sectors.\<close>

definition writable :: "bool \<Rightarrow> esp_partition_t \<Rightarrow> bool" where
  "writable enc q \<longleftrightarrow> \<not> readonly q \<and> (encrypted q \<longrightarrow> enc) \<and> erase_size q = 4096 \<and>
     address q mod 4096 = 0 \<and> psize q mod 4096 = 0 \<and> psize q < two32"

lemma area_write:
  assumes a: "area q s e f" and w: "writable enc q" and l: "length s + length bs \<le> e"
    and al: "enc \<Longrightarrow> length s mod 16 = 0 \<and> length bs mod 16 = 0"
  shows "\<exists>g. esp_partition_write q (length s) bs f = (ESP_OK, g) \<and> area q (s @ bs) e g \<and> same_outside q (length s) e f g"
proof -
  have f: "faults f = []" "power f = None" using a by (simp_all add: area_def working_def)
  let ?g = "f\<lparr>mem := program_bytes (address q + length s) bs (mem f)\<rparr>"
  have fw: "esp_flash_write (address q + length s) bs f = (ESP_OK, ?g)"
    using f by (simp add: esp_flash_write_def take_fault_ok powered_full use_power_def)
  have "(address q + length s) mod 16 = 0" if enc
  proof -
    have "4096 dvd address q" using w by (simp add: writable_def mod_eq_0_iff_dvd)
    then have "16 dvd address q" by (rule dvd_trans [rotated]) simp
    then show ?thesis using al [OF that] by (simp add: mod_eq_0_iff_dvd)
  qed
  then have pw: "esp_partition_write q (length s) bs f = (ESP_OK, ?g)"
    using w a l al fw by (auto simp: esp_partition_write_def writable_def area_def)
  have "area q (s @ bs) e ?g"
    using a l by (auto simp: area_def working_def program_bytes_def nth_append byte_ff_and)
  moreover have "same_outside q (length s) e f ?g"
    using l by (auto simp: same_outside_def program_bytes_def)
  ultimately show ?thesis using pw by blast
qed

lemma partition_erase:
  assumes f: "working f" and w: "writable enc q" and o: "off mod 4096 = 0" "n mod 4096 = 0" "off + n \<le> psize q"
  shows "esp_partition_erase_range q off n f = (ESP_OK, f\<lparr>mem := erase_bytes (address q + off) n (mem f)\<rparr>)"
proof -
  have "n div 4096 * 4096 = n" using o(2) by (simp add: dvd_div_mult_self mod_eq_0_iff_dvd)
  then show ?thesis
    using f w o by (auto simp: esp_partition_erase_range_def writable_def working_def esp_flash_erase_region_def
        SPI_FLASH_SEC_SIZE_def take_fault_ok powered_full use_power_def)
qed

lemma erase_for_write_area:
  assumes a: "area q s (sector_up (length s)) f" and w: "writable enc q" and n: "0 < n" "length s + n \<le> psize q"
    and it: "staging it = q" "wrote_size it = length s" "need_erase it"
  shows "\<exists>g. erase_for_write it n f = (ESP_OK, g) \<and> area q s (sector_up (length s + n)) g \<and>
    same_outside q (length s) (sector_up (length s + n)) f g"
proof -
  let ?W = "length s" and ?last = "(length s + n - 1) div 4096"
  have f: "working f" using a by (simp add: area_def)
  have e: "erase_size q = 4096" "psize q < two32" using w by (simp_all add: writable_def)
  have up: "sector_up (?W + n) = (?last + 1) * 4096" using n by (simp add: sector_up_div)
  have fits: "sector_up (?W + n) \<le> psize q" by (rule sector_up_least) (use n w in \<open>simp_all add: writable_def\<close>)
  have last: "sub32 (wrap32 (?W + n)) 1 div 4096 = ?last" using n e by (simp add: size_simps)
  have le: "?W div 4096 \<le> ?last" by (rule div_le_mono) (use n in simp)
  have "(?last + 1) * 4096 < two32" using up fits e(2) by linarith
  then have b: "?last * 4096 < two32" by simp
  show ?thesis
  proof (cases "?W mod 4096 = 0")
    case True
    have W: "?W div 4096 * 4096 = ?W" using True by (simp add: dvd_div_mult_self mod_eq_0_iff_dvd)
    let ?n = "(?last - ?W div 4096 + 1) * 4096"
    have n1: "?W + ?n = sector_up (?W + n)" unfolding up using W le by (simp add: algebra_simps)
    then have "wrap32 ((sub32 ?last (?W div 4096) + 1) * 4096) = ?n"
      using le b fits e(2) by (simp add: size_simps)
    then have "erase_for_write it n f = esp_partition_erase_range q ?W ?n f"
      using it True e(1) last by (simp add: erase_for_write_def Let_def)
    also have "\<dots> = (ESP_OK, f\<lparr>mem := erase_bytes (address q + ?W) ?n (mem f)\<rparr>)"
      by (rule partition_erase [OF f w True]) (use n1 fits in simp_all)
    finally show ?thesis
      using a fits n1 sector_up_ge [of "?W + n"]
      by (auto simp: area_def working_def erase_bytes_def same_outside_def)
  next
    case False
    then have W: "sector_up ?W = (?W div 4096 + 1) * 4096" by (rule sector_up_inside)
    show ?thesis
    proof (cases "?W div 4096 = ?last")
      case True
      then have "erase_for_write it n f = (ESP_OK, f)" using it False e(1) last by (simp add: erase_for_write_def Let_def)
      moreover have "sector_up (?W + n) = sector_up ?W" using up W True by simp
      ultimately show ?thesis using a by (simp add: same_outside_refl)
    next
      case neq: False
      let ?n = "(?last - ?W div 4096) * 4096"
      have n1: "sector_up ?W + ?n = sector_up (?W + n)" unfolding up W using le by (simp add: algebra_simps)
      have "wrap32 ((?W div 4096 + 1) * 4096) = sector_up ?W" "wrap32 (sub32 ?last (?W div 4096) * 4096) = ?n"
        using W n1 le b fits e(2) by (simp_all add: size_simps)
      then have "erase_for_write it n f = esp_partition_erase_range q (sector_up ?W) ?n f"
        using it False neq e(1) last by (simp add: erase_for_write_def Let_def)
      also have "\<dots> = (ESP_OK, f\<lparr>mem := erase_bytes (address q + sector_up ?W) ?n (mem f)\<rparr>)"
        by (rule partition_erase [OF f w sector_up_dvd]) (use n1 fits in simp_all)
      finally show ?thesis
        using a fits n1 sector_up_ge [of "?W + n"] sector_up_ge [of ?W]
        by (auto simp: area_def working_def erase_bytes_def same_outside_def)
    qed
  qed
qed

section \<open>One write\<close>

text \<open>What a write does not change in an entry.\<close>

definition same_update :: "ota_ops_entry_t \<Rightarrow> ota_ops_entry_t \<Rightarrow> bool" where
  "same_update it it' \<longleftrightarrow> handle it' = handle it \<and> staging it' = staging it \<and> final it' = final it \<and>
     finalize_with_copy it' = finalize_with_copy it \<and> need_erase it' = need_erase it \<and>
     (length (partial_data it) = 16 \<longrightarrow> length (partial_data it') = 16)"

lemma append_area:
  assumes a: "area q t e f" and w: "writable enc q" and it: "staging it = q" "wrote_size it = length t"
    and l: "length t + length bs \<le> e" and al: "enc \<Longrightarrow> length t mod 16 = 0 \<and> length bs mod 16 = 0"
  shows "\<exists>g. append_bytes it bs f = (ESP_OK, it\<lparr>wrote_size := length t + length bs\<rparr>, g) \<and> area q (t @ bs) e g \<and>
    same_outside q (length t) e f g"
proof -
  have "length t + length bs < two32" using l a w by (auto simp: area_def writable_def)
  then show ?thesis
    using area_write [OF a w l al] it by (auto simp: append_bytes_def size_simps)
qed

lemma save_tail_eq:
  assumes "length (partial_data it) = 16"
  shows "\<exists>it'. save_tail it c = (it', take (16 * (length c div 16)) c) \<and> same_update it it' \<and>
    wrote_size it' = wrote_size it \<and> partial_bytes it' = length c mod 16 \<and>
    take (length c mod 16) (partial_data it') = drop (16 * (length c div 16)) c"
proof -
  have n: "length c - length c mod 16 = 16 * (length c div 16)" by (metis minus_mod_eq_mult_div)
  have d: "length (drop (16 * (length c div 16)) c) = length c mod 16" by (simp add: minus_mult_div_eq_mod)
  show ?thesis
  proof (cases "length c mod 16 = 0")
    case True
    then have "16 * (length c div 16) = length c" using n by simp
    then show ?thesis using True by (simp add: save_tail_def same_update_def)
  next
    case False
    then show ?thesis using assms n d by (simp add: save_tail_def same_update_def Let_def)
  qed
qed

lemma multiples_of_16: "(m :: nat) mod 16 = 0 \<Longrightarrow> n mod 16 = 0 \<Longrightarrow> m \<le> n + 15 \<Longrightarrow> m \<le> n"
  by presburger

lemma sector_mod_16: "n mod 4096 = 0 \<Longrightarrow> (n :: nat) mod 16 = 0"
  using mod_mod_cancel [of 16 4096 n] by simp

text \<open>The stream so far and the state of its update.\<close>

definition stored :: "bool \<Rightarrow> byte list \<Rightarrow> nat" where
  "stored enc s = (if enc then 16 * (length s div 16) else length s)"

definition stream_ok :: "bool \<Rightarrow> esp_partition_t \<Rightarrow> byte list \<Rightarrow> flash \<Rightarrow> ota_ops_entry_t \<Rightarrow> flash \<Rightarrow> bool" where
  "stream_ok enc q s f0 it f \<longleftrightarrow>
     staging it = q \<and> final it = q \<and> need_erase it \<and> \<not> finalize_with_copy it \<and> length (partial_data it) = 16 \<and>
     wrote_size it = stored enc s \<and> partial_bytes it = length s - stored enc s \<and>
     take (length s - stored enc s) (partial_data it) = drop (stored enc s) s \<and>
     area q (take (stored enc s) s) (sector_up (stored enc s)) f \<and> same_outside q 0 (psize q) f0 f"

lemma stored_le: "stored enc s \<le> length s"
  by (simp add: stored_def)

lemma length_stored [simp]: "length (take (stored enc s) s) = stored enc s"
  using stored_le [of enc s] by simp

lemma stored_mod: "enc \<Longrightarrow> stored enc s mod 16 = 0"
  by (simp add: stored_def)

lemma stored_rest: "length s - stored enc s < 16 \<and> (enc \<longrightarrow> length s - stored enc s = length s mod 16)"
  by (auto simp: stored_def minus_mult_div_eq_mod)

text \<open>What is stored after a write lies in the sectors that were erased for it.\<close>

lemma stored_append_fits: "stored enc (s @ c) \<le> sector_up (stored enc s + length c)"
proof (cases enc)
  case True
  have "stored enc (s @ c) \<le> length s + length c" using stored_le [of enc "s @ c"] by simp
  moreover have "length s < stored enc s + 16" using stored_rest [of s enc] stored_le [of enc s] by linarith
  ultimately have "stored enc (s @ c) \<le> sector_up (stored enc s + length c) + 15"
    using sector_up_ge [of "stored enc s + length c"] by linarith
  then show ?thesis by (rule multiples_of_16 [OF stored_mod [OF True] sector_mod_16 [OF sector_up_dvd]])
next
  case False
  then show ?thesis using sector_up_ge by (simp add: stored_def)
qed

lemma stored_append_parts:
  assumes "enc" "t = take (length t) (s @ c)" "length t mod 16 = 0" "length t \<le> length s + length c"
    and "r = drop (length t) (s @ c)"
  shows "length t + 16 * (length r div 16) = stored enc (s @ c)"
    and "t @ take (16 * (length r div 16)) r = take (stored enc (s @ c)) (s @ c)"
    and "drop (16 * (length r div 16)) r = drop (stored enc (s @ c)) (s @ c)"
    and "length r mod 16 = length (s @ c) - stored enc (s @ c)"
proof -
  obtain m where m: "length t = 16 * m" using assms(3) by auto
  have r: "length r = length (s @ c) - 16 * m" using assms(5) m by simp
  have L: "length (s @ c) = 16 * m + length r" using r m assms(4) by simp
  have st: "stored enc (s @ c) = 16 * m + 16 * (length r div 16)"
    unfolding stored_def L using assms(1) by simp
  then show s1: "length t + 16 * (length r div 16) = stored enc (s @ c)" using m by simp
  have "take (16 * m + 16 * (length r div 16)) (s @ c) = take (16 * m) (s @ c) @ take (16 * (length r div 16)) (drop (16 * m) (s @ c))"
    by (rule take_add)
  then show "t @ take (16 * (length r div 16)) r = take (stored enc (s @ c)) (s @ c)"
    using assms(2,5) st m by metis
  show "drop (16 * (length r div 16)) r = drop (stored enc (s @ c)) (s @ c)"
    unfolding st assms(5) m by (simp only: drop_drop add.commute)
  show "length r mod 16 = length (s @ c) - stored enc (s @ c)"
    unfolding st L by (simp add: minus_mult_div_eq_mod)
qed

text \<open>The erased area after a write still reaches the end of the sector.\<close>

lemma stream_okI:
  assumes "staging it = q" "final it = q" "need_erase it" "\<not> finalize_with_copy it" "length (partial_data it) = 16"
    and "wrote_size it = stored enc s" "partial_bytes it = length s - stored enc s"
    and "take (length s - stored enc s) (partial_data it) = drop (stored enc s) s"
    and a: "area q (take (stored enc s) s) e f" and e: "stored enc s \<le> e" "e mod 4096 = 0"
    and "same_outside q 0 (psize q) f0 f"
  shows "stream_ok enc q s f0 it f"
proof -
  have "area q (take (stored enc s) s) (sector_up (stored enc s)) f"
    by (rule area_shrink [OF a, unfolded length_stored]) (rule sector_up_ge, rule sector_up_least [OF e])
  then show ?thesis using assms(1-8,12) by (simp add: stream_ok_def)
qed

lemma whole_partition:
  "same_outside q 0 (psize q) f g \<Longrightarrow> same_outside q a e g h \<Longrightarrow> e \<le> psize q \<Longrightarrow> same_outside q 0 (psize q) f h"
  by (rule same_outside_trans) simp_all

text \<open>The part of a write that follows a completed block.\<close>

lemma store_blocks:
  assumes it: "staging it = q" "final it = q" "need_erase it" "\<not> finalize_with_copy it" "length (partial_data it) = 16"
    and wr: "wrote_size it = length t" and enc: enc
    and t: "t = take (length t) (s @ c)" "length t mod 16 = 0" "length t \<le> length s + length c"
    and r: "r = drop (length t) (s @ c)"
    and a: "area q t e f" and w: "writable enc q" and e: "stored enc (s @ c) \<le> e" "e mod 4096 = 0"
    and o: "same_outside q 0 (psize q) f0 f"
  shows "\<exists>it' g. (let (it2, body) = save_tail it r in append_bytes it2 body f) = (ESP_OK, it', g) \<and>
    stream_ok enc q (s @ c) f0 it' g \<and> handle it' = handle it"
proof -
  note parts = stored_append_parts [OF enc t r]
  obtain it2 where it2: "save_tail it r = (it2, take (16 * (length r div 16)) r)" "same_update it it2"
    "wrote_size it2 = wrote_size it" "partial_bytes it2 = length r mod 16"
    "take (length r mod 16) (partial_data it2) = drop (16 * (length r div 16)) r"
    using save_tail_eq [OF it(5)] by blast
  let ?b = "take (16 * (length r div 16)) r"
  have lb: "length ?b = 16 * (length r div 16)" by simp
  have eq: "e \<le> psize q" using a by (simp add: area_def)
  obtain g where g: "append_bytes it2 ?b f = (ESP_OK, it2\<lparr>wrote_size := length t + length ?b\<rparr>, g)"
    "area q (t @ ?b) e g" "same_outside q (length t) e f g"
    using append_area [OF a w, of it2 ?b] it2 it wr t(2) parts(1) e(1) lb by (auto simp: same_update_def)
  let ?it = "it2\<lparr>wrote_size := length t + length ?b\<rparr>"
  have "stream_ok enc q (s @ c) f0 ?it g"
  proof (rule stream_okI)
    show "area q (take (stored enc (s @ c)) (s @ c)) e g" using g(2) parts(2) by metis
    show "same_outside q 0 (psize q) f0 g" using o g(3) eq by (rule whole_partition)
  qed (use it it2 e parts lb in \<open>simp_all add: same_update_def\<close>)
  then show ?thesis using g(1) it2(1,2) by (auto simp: same_update_def)
qed

lemma write_block:
  assumes a: "area q (take (stored enc s) s) e f" and w: "writable enc q" and b: "length b = 16" "stored enc s + 16 \<le> e" and enc: enc
  shows "\<exists>g. esp_partition_write q (stored enc s) b f = (ESP_OK, g) \<and> area q (take (stored enc s) s @ b) e g \<and>
    same_outside q (stored enc s) e f g"
  by (rule area_write [OF a w, unfolded length_stored]) (use b stored_mod [OF enc, of s] in simp_all)

lemma store_data_ok:
  assumes s: "stream_ok enc q s f0 it f0'" and w: "writable enc q" and c: "c \<noteq> []"
    and a: "area q (take (stored enc s) s) (sector_up (stored enc s + length c)) f"
    and o: "same_outside q 0 (psize q) f0 f"
  shows "\<exists>it' g. store_data enc it c f = (ESP_OK, it', g) \<and> stream_ok enc q (s @ c) f0 it' g \<and> handle it' = handle it"
proof (cases enc)
  case False
  let ?S = "sector_up (stored enc s + length c)"
  have st: "stored enc x = length x" for x :: "byte list" using False by (simp add: stored_def)
  have f: "staging it = q" "wrote_size it = length s" "partial_bytes it = 0" using s by (simp_all add: stream_ok_def st)
  have a': "area q s ?S f" using a by (simp add: st)
  have le: "length s + length c \<le> ?S" unfolding st by (rule sector_up_ge)
  obtain g where g: "append_bytes it c f = (ESP_OK, it\<lparr>wrote_size := length s + length c\<rparr>, g)"
    "area q (s @ c) ?S g" "same_outside q (length s) ?S f g"
    using append_area [OF a' w f(1,2) le] False by blast
  have "?S \<le> psize q" using a by (simp add: area_def)
  then have "same_outside q 0 (psize q) f0 g" by (rule whole_partition [OF o g(3)])
  moreover have "area q (s @ c) (sector_up (length s + length c)) g" using g(2) by (simp add: st)
  ultimately have "stream_ok enc q (s @ c) f0 (it\<lparr>wrote_size := length s + length c\<rparr>) g"
    using s by (simp add: stream_ok_def st)
  then show ?thesis using g(1) False by (auto simp: store_data_def)
next
  case enc: True
  let ?W = "stored enc s" and ?S = "sector_up (stored enc s + length c)"
  let ?p = "length s - ?W"
  have it: "staging it = q" "final it = q" "need_erase it" "\<not> finalize_with_copy it" "length (partial_data it) = 16"
    and wr: "wrote_size it = ?W" "partial_bytes it = ?p" and pd: "take ?p (partial_data it) = drop ?W s"
    using s by (simp_all add: stream_ok_def)
  have p: "?p < 16" "?W \<le> length s" "?W mod 16 = 0" using stored_rest stored_le stored_mod [OF enc] by auto
  have fits: "stored enc (s @ c) \<le> ?S" by (rule stored_append_fits)
  have sd: "store_data enc it c f = (case fill_partial it c f of
      (Some ret, it1, f1, data1) \<Rightarrow> (ret, it1, f1)
    | (None, it1, f1, data1) \<Rightarrow> (let (it2, body) = save_tail it1 data1 in append_bytes it2 body f1))"
    using enc by (simp add: store_data_def)
  consider (none) "?p = 0" | (short) "?p \<noteq> 0" "?p + length c < 16" | (full) "?p \<noteq> 0" "16 \<le> ?p + length c" by linarith
  then show ?thesis
  proof cases
    case none
    then have "?W = length s" using p by simp
    then have "\<exists>it' g. (let (it2, body) = save_tail it c in append_bytes it2 body f) = (ESP_OK, it', g) \<and>
        stream_ok enc q (s @ c) f0 it' g \<and> handle it' = handle it"
      using store_blocks [OF it _ enc, of s s c c ?S f f0] wr(1) p(3) a w fits o by simp
    then show ?thesis using none wr by (simp add: sd fill_partial_def)
  next
    case short
    let ?it = "it\<lparr>partial_data := take ?p (partial_data it) @ c @ drop (?p + length c) (partial_data it), partial_bytes := ?p + length c\<rparr>"
    have "fill_partial it c f = (Some ESP_OK, ?it, f, c)" using short wr by (simp add: fill_partial_def Let_def)
    moreover have "stream_ok enc q (s @ c) f0 ?it f"
    proof -
      have L: "length (s @ c) = ?W + (?p + length c)" using p by simp
      obtain m where m: "?W = 16 * m" using p(3) by auto
      have st: "stored enc (s @ c) = ?W" unfolding L m using enc short m by (simp add: stored_def)
      have a2: "area q (take (stored enc (s @ c)) (s @ c)) ?S f" using a st p(2) by simp
      show ?thesis
        by (rule stream_okI [OF _ _ _ _ _ _ _ _ a2 fits sector_up_dvd o]) (use it wr pd p short st in simp_all)
    qed
    ultimately show ?thesis by (auto simp: sd)
  next
    case full
    let ?n = "16 - ?p" and ?block = "drop ?W s @ take (16 - ?p) c"
    have n: "min ?n (length c) = ?n" "?p + ?n = 16" using full p by simp_all
    have lb: "length ?block = 16" using n p by simp
    have W15: "?W + 16 \<le> ?S + 15" using sector_up_ge [of "?W + length c"] c by (cases c) simp_all
    have Wm: "(?W + 16) mod 16 = 0" using p(3) by presburger
    have W16: "?W + 16 \<le> ?S" by (rule multiples_of_16 [OF Wm sector_mod_16 [OF sector_up_dvd] W15])
    have S: "?S \<le> psize q" using a by (simp add: area_def)
    obtain g where g: "esp_partition_write q ?W ?block f = (ESP_OK, g)" "area q (take ?W s @ ?block) ?S g"
      "same_outside q ?W ?S f g"
      using write_block [OF a w lb W16 enc] by blast
    let ?it = "it\<lparr>partial_data := replicate 16 0xFF, partial_bytes := 0, wrote_size := ?W + 16\<rparr>"
    have "?W + 16 < two32" using W16 S w by (simp add: writable_def)
    then have fp: "fill_partial it c f = (None, ?it, g, drop ?n c)"
      using full wr n g(1) pd it(1,5) by (simp add: fill_partial_def Let_def size_simps)
    have "take ?W s @ ?block = s @ take ?n c" by (simp flip: append_assoc)
    moreover have nn: "?W + 16 - length s = ?n" and sl: "length s \<le> ?W + 16" using p by simp_all
    ultimately have t: "take ?W s @ ?block = take (?W + 16) (s @ c)" by simp
    have tl: "length (take ?W s @ ?block) = ?W + 16" using p(2) lb by simp
    have r: "drop ?n c = drop (?W + 16) (s @ c)" by (simp only: drop_append nn drop_all [OF sl] append_Nil)
    have cl: "?W + 16 \<le> length s + length c" using full p by simp
    define T where "T = take ?W s @ ?block"
    have T: "length T = ?W + 16" "T = take (length T) (s @ c)" "area q T ?S g"
      using t tl g(2) unfolding T_def by metis+
    have "\<exists>it' g'. (let (it2, body) = save_tail ?it (drop ?n c) in append_bytes it2 body g) = (ESP_OK, it', g') \<and>
        stream_ok enc q (s @ c) f0 it' g' \<and> handle it' = handle ?it"
      by (rule store_blocks [OF _ _ _ _ _ _ enc T(2) _ _ _ T(3) w fits sector_up_dvd whole_partition [OF o g(3) S]])
         (use it T(1) Wm cl r in \<open>simp_all del: drop_append\<close>)
    then show ?thesis by (simp add: sd fp)
  qed
qed

lemma write_entry_ok:
  assumes s: "stream_ok enc q s f0 it f" and w: "writable enc q" and c: "c \<noteq> []"
    and l: "stored enc s + length c \<le> psize q" and m: "magic_check it c = Some ESP_OK"
  shows "\<exists>it' g. write_entry enc it c f = Some (ESP_OK, it', g) \<and> stream_ok enc q (s @ c) f0 it' g \<and> handle it' = handle it"
proof -
  have it: "staging it = q" "wrote_size it = length (take (stored enc s) s)" "need_erase it"
    and a: "area q (take (stored enc s) s) (sector_up (length (take (stored enc s) s))) f" and o: "same_outside q 0 (psize q) f0 f"
    using s by (simp_all only: stream_ok_def length_stored)
  obtain g where g: "erase_for_write it (length c) f = (ESP_OK, g)"
    "area q (take (stored enc s) s) (sector_up (stored enc s + length c)) g"
    "same_outside q (stored enc s) (sector_up (stored enc s + length c)) f g"
    using erase_for_write_area [OF a w _ _ it, of "length c"] c l unfolding length_stored by auto
  have "sector_up (stored enc s + length c) \<le> psize q" using g(2) by (simp add: area_def)
  then have "same_outside q 0 (psize q) f0 g" by (rule whole_partition [OF o g(3)])
  then show ?thesis using store_data_ok [OF s w c g(2)] m g(1) by (auto simp: write_entry_def)
qed

section \<open>Closing the stream\<close>

text \<open>The last bytes go to an erased sector unless the stored part ends at a sector boundary.\<close>

lemma finish_entry_ok:
  assumes s: "stream_ok enc q s f0 it f" and w: "writable enc q" and ne: "s \<noteq> []" and l: "length s \<le> psize q"
    and tail: "enc \<Longrightarrow> length s mod 4096 = 0 \<or> 16 \<le> length s mod 4096"
    and ty: "ptype q = ESP_PARTITION_TYPE_APP"
  shows "\<exists>g. finish_entry image_ok md5 chip_size pages it f =
      Some (if image_ok q g then ESP_OK else ESP_ERR_OTA_VALIDATE_FAILED, g) \<and>
    flash_bytes (address q) (length s) g = s \<and> same_outside q 0 (psize q) f0 g"
proof -
  let ?W = "stored enc s"
  have it: "staging it = q" "final it = q" "\<not> finalize_with_copy it" "length (partial_data it) = 16"
    and wr: "wrote_size it = ?W" "partial_bytes it = length s - ?W" and pd: "take (length s - ?W) (partial_data it) = drop ?W s"
    and a: "area q (take ?W s) (sector_up ?W) f" and o: "same_outside q 0 (psize q) f0 f"
    using s by (simp_all add: stream_ok_def)
  have content: "flash_bytes (address q) (length s) g = s" if "area q t e g" "s = take (length s) t" "length s \<le> length t" for t e g
  proof -
    have "mem g (address q + i) = s ! i" if "i < length s" for i
      using that \<open>area q t e g\<close> \<open>s = take (length s) t\<close> \<open>length s \<le> length t\<close>
      by (metis area_def nth_take order_less_le_trans)
    then show ?thesis by (intro nth_equalityI) (simp_all add: flash_bytes_def)
  qed
  have verify: "ota_verify_partition image_ok md5 chip_size it g = (if image_ok q g then ESP_OK else ESP_ERR_OTA_VALIDATE_FAILED, g)" for g
    using it ty by (simp add: ota_verify_partition_def)
  show ?thesis
  proof (cases "?W = length s")
    case True
    have "?W \<noteq> 0" using True ne by simp
    then have "finish_entry image_ok md5 chip_size pages it f = Some (if image_ok q f then ESP_OK else ESP_ERR_OTA_VALIDATE_FAILED, f)"
      using wr it(3) True verify by (simp add: finish_entry_def Let_def)
    then show ?thesis using content [OF a] True o by auto
  next
    case False
    then have enc by (cases enc) (simp_all add: stored_def)
    have L: "?W < length s" "length s < ?W + 16" using False stored_le [of enc s] stored_rest [of s enc] by linarith+
    have W: "?W = 16 * (length s div 16)" using \<open>enc\<close> by (simp add: stored_def)
    have nb: "?W mod 4096 \<noteq> 0"
    proof
      assume "?W mod 4096 = 0"
      then have "length s mod 4096 = (length s - ?W) mod 4096" using L by (metis less_imp_le mod_add_left_eq add_0 le_add_diff_inverse)
      then show False using tail [OF \<open>enc\<close>] L by simp
    qed
    have "?W \<noteq> 0" using nb by (cases "?W = 0") simp_all
    have "?W \<noteq> sector_up ?W" using nb sector_up_dvd [of ?W] by metis
    then have W15: "?W + 16 \<le> sector_up ?W + 15" using sector_up_ge [of ?W] by linarith
    have Wm: "(?W + 16) mod 16 = 0" unfolding W by simp
    have fits: "?W + 16 \<le> sector_up ?W" by (rule multiples_of_16 [OF Wm sector_mod_16 [OF sector_up_dvd] W15])
    obtain g where g: "esp_partition_write q ?W (partial_data it) f = (ESP_OK, g)"
      "area q (take ?W s @ partial_data it) (sector_up ?W) g" "same_outside q ?W (sector_up ?W) f g"
      using write_block [OF a w it(4) fits \<open>enc\<close>] by blast
    have "s = take ?W s @ take (length s - ?W) (partial_data it)" using pd by simp
    then have s': "s = take (length s) (take ?W s @ partial_data it)" using L(1) by simp
    have le: "length s \<le> length (take ?W s @ partial_data it)" using L it(4) by simp
    have "sector_up ?W \<le> psize q" using g(2) by (simp add: area_def)
    then have "same_outside q 0 (psize q) f0 g" by (rule whole_partition [OF o g(3)])
    moreover have "finish_entry image_ok md5 chip_size pages it f = Some (if image_ok q g then ESP_OK else ESP_ERR_OTA_VALIDATE_FAILED, g)"
      using wr it L(1) \<open>?W \<noteq> 0\<close> g(1) verify by (simp add: finish_entry_def Let_def)
    ultimately show ?thesis using content [OF g(2) s' le] by auto
  qed
qed

end
