(* ===== verification/Ota_Session.thy ===== *)
theory Ota_Session
  imports Ota_Stream
begin

text \<open>
  A whole update with sequential writes: the handle, the chunks and the end, on the list of open updates.
\<close>

section \<open>The caller\<close>

fun write_chunks :: "bool \<Rightarrow> 32 word \<Rightarrow> byte list list \<Rightarrow> ota_ops \<Rightarrow> (esp_err_t \<times> ota_ops) option" where
  "write_chunks enc h [] s = Some (ESP_OK, s)"
| "write_chunks enc h (c # cs) s = do {
     (r, s1) \<leftarrow> esp_ota_write enc h (Some c) s;
     if r \<noteq> ESP_OK then Some (r, s1) else write_chunks enc h cs s1
   }"

text \<open>The update with handle \<open>h\<close> is the newest one and has received \<open>t\<close>.\<close>

definition receiving ::
  "bool \<Rightarrow> esp_partition_t \<Rightarrow> 32 word \<Rightarrow> ota_ops_entry_t list \<Rightarrow> flash \<Rightarrow> byte list \<Rightarrow> ota_ops \<Rightarrow> bool" where
  "receiving enc q h old f0 t s \<longleftrightarrow>
     (\<exists>it. s_ota_ops_entries_head s = it # old \<and> handle it = h \<and> stream_ok enc q t f0 it (chip s))"

lemma magic_check_ok:
  assumes "stream_ok enc q t f0 it f" "ptype q = ESP_PARTITION_TYPE_APP" "t = [] \<Longrightarrow> c ! 0 = ESP_IMAGE_HEADER_MAGIC"
  shows "magic_check it c = Some ESP_OK"
proof -
  have "wrote_size it = 0 \<and> partial_bytes it = 0 \<longleftrightarrow> t = []"
    using assms(1) stored_le [of enc t] by (auto simp: stream_ok_def stored_def)
  then show ?thesis using assms by (auto simp: magic_check_def stream_ok_def)
qed

lemma receiving_write:
  assumes r: "receiving enc q h old f0 t s" and w: "writable enc q" and ty: "ptype q = ESP_PARTITION_TYPE_APP"
    and l: "length t + length c \<le> psize q" and m: "t = [] \<Longrightarrow> c \<noteq> [] \<Longrightarrow> c ! 0 = ESP_IMAGE_HEADER_MAGIC"
  shows "\<exists>s'. esp_ota_write enc h (Some c) s = Some (ESP_OK, s') \<and> receiving enc q h old f0 (t @ c) s'"
proof (cases "c = []")
  case True
  then show ?thesis using r by (simp add: esp_ota_write_def)
next
  case False
  obtain it where it: "s_ota_ops_entries_head s = it # old" "handle it = h" "stream_ok enc q t f0 it (chip s)"
    using r by (auto simp: receiving_def)
  have "magic_check it c = Some ESP_OK" by (rule magic_check_ok [OF it(3) ty]) (use m False in blast)
  moreover have "stored enc t + length c \<le> psize q" using stored_le [of enc t] l by linarith
  ultimately obtain it' g where g: "write_entry enc it c (chip s) = Some (ESP_OK, it', g)"
    "stream_ok enc q (t @ c) f0 it' g" "handle it' = handle it"
    using write_entry_ok [OF it(3) w False] by blast
  have "esp_ota_write enc h (Some c) s = Some (ESP_OK, put_entry h it' g s)"
    using False it(1,2) g(1) by (simp add: esp_ota_write_def get_ota_ops_entry_def)
  moreover have "receiving enc q h old f0 (t @ c) (put_entry h it' g s)"
    using it(1,2) g(2,3) by (simp add: receiving_def put_entry_def)
  ultimately show ?thesis by blast
qed

lemma receiving_chunks:
  assumes "receiving enc q h old f0 t s" "writable enc q" "ptype q = ESP_PARTITION_TYPE_APP"
    and "length t + length (concat cs) \<le> psize q"
    and "t = [] \<Longrightarrow> concat cs \<noteq> [] \<Longrightarrow> concat cs ! 0 = ESP_IMAGE_HEADER_MAGIC"
  shows "\<exists>s'. write_chunks enc h cs s = Some (ESP_OK, s') \<and> receiving enc q h old f0 (t @ concat cs) s'"
  using assms
proof (induction cs arbitrary: t s)
  case (Cons c cs)
  have "t = [] \<Longrightarrow> c \<noteq> [] \<Longrightarrow> c ! 0 = ESP_IMAGE_HEADER_MAGIC" using Cons.prems(5) by (simp add: nth_append)
  moreover have "length t + length c \<le> psize q" using Cons.prems(4) by simp
  ultimately obtain s1 where s1: "esp_ota_write enc h (Some c) s = Some (ESP_OK, s1)" "receiving enc q h old f0 (t @ c) s1"
    using receiving_write [OF Cons.prems(1-3)] by blast
  have "t @ c = [] \<Longrightarrow> concat cs \<noteq> [] \<Longrightarrow> concat cs ! 0 = ESP_IMAGE_HEADER_MAGIC" using Cons.prems(5) by simp
  then show ?case using Cons.IH [OF s1(2) Cons.prems(2,3)] Cons.prems(4) s1(1) by simp
qed simp

section \<open>Opening and closing\<close>

lemma working_read: "working f \<Longrightarrow> snd (read_otadata parts f) = f"
  by (auto simp: read_otadata_def working_def esp_partition_mmap_def take_fault_def split_def Let_def split: option.splits)

lemma working_state:
  assumes "working f" "esp_ota_get_state_partition rom_crc parts part f = Some (e, st, g)"
  shows "g = f"
  using assms(2) working_read [OF assms(1), of parts]
  by (cases "read_otadata parts f")
     (auto simp: esp_ota_get_state_partition_def Let_def split: option.splits if_splits bind_splits)

lemma begin_check_working:
  "working f \<Longrightarrow> begin_check rollback rom_crc phys_offs parts p f = Some (e, g) \<Longrightarrow> g = f"
  by (auto simp: begin_check_def dest: working_state split: if_splits bind_splits)

lemma receiving_begin:
  assumes b: "esp_ota_begin rollback rom_crc phys_offs parts alloc (Some p) OTA_WITH_SEQUENTIAL_WRITES s = Some (ESP_OK, Some h, s1)"
    and v: "esp_partition_verify p parts = Some q" and f: "working (chip s)"
  shows "receiving enc q h (s_ota_ops_entries_head s) (chip s) [] s1"
proof -
  have a: "area q [] (sector_up 0) (chip s)" using f by (simp add: area_def sector_up_def)
  obtain f1 where c: "begin_check rollback rom_crc phys_offs parts q (chip s) = Some (ESP_OK, f1)" and alloc
    and s1: "h = s_ota_ops_last_handle s + 1"
      "s1 = prepare_special q (address q) (s\<lparr>chip := f1, s_ota_ops_entries_head := new_entry h q OTA_WITH_SEQUENTIAL_WRITES # s_ota_ops_entries_head s,
         s_ota_ops_last_handle := h\<rparr>)"
    using b v by (auto simp: esp_ota_begin_def Let_def split: bind_splits if_splits)
  have "f1 = chip s" using begin_check_working [OF f c] .
  then show ?thesis using a unfolding s1(2)
    by (simp add: receiving_def prepare_special_def new_entry_def stream_ok_def stored_def same_outside_refl Let_def)
qed

lemma receiving_end:
  assumes r: "receiving enc q h old f0 t s" and w: "writable enc q" and ty: "ptype q = ESP_PARTITION_TYPE_APP"
    and t: "t \<noteq> []" "length t \<le> psize q" "enc \<Longrightarrow> length t mod 4096 = 0 \<or> 16 \<le> length t mod 4096"
  shows "\<exists>s'. esp_ota_end image_ok md5 chip_size pages primary_offset h s =
      Some (if image_ok q (chip s') then ESP_OK else ESP_ERR_OTA_VALIDATE_FAILED, s') \<and>
    flash_bytes (address q) (length t) (chip s') = t \<and> same_outside q 0 (psize q) f0 (chip s') \<and>
    s_ota_ops_entries_head s' = old"
proof -
  obtain it where it: "s_ota_ops_entries_head s = it # old" "handle it = h" "stream_ok enc q t f0 it (chip s)"
    using r by (auto simp: receiving_def)
  obtain g where g: "finish_entry image_ok md5 chip_size pages it (chip s) =
      Some (if image_ok q g then ESP_OK else ESP_ERR_OTA_VALIDATE_FAILED, g)"
    "flash_bytes (address q) (length t) g = t" "same_outside q 0 (psize q) f0 g"
    using finish_entry_ok [OF it(3) w t ty] by blast
  have "final it = q" using it(3) by (simp add: stream_ok_def)
  then have "esp_ota_end image_ok md5 chip_size pages primary_offset h s =
      Some (if image_ok q g then ESP_OK else ESP_ERR_OTA_VALIDATE_FAILED, drop_entry h (s\<lparr>chip := g\<rparr>))"
    using it(1,2) g(1) ty by (simp add: esp_ota_end_def get_ota_ops_entry_def partition_consts)
  then show ?thesis using g(2,3) it(1,2) by (simp add: drop_entry_def)
qed

end
