(* ===== verification/Ota_Props.thy ===== *)
theory Ota_Props
  imports Ota_Session
begin

text \<open>
  The properties of the update of the app to boot, with their witnesses: an update that is cut short by
  faults or by the loss of power, the life of an update in a build with rollback, and the reception of an
  image in chunks.
\<close>

section \<open>A device\<close>

definition demo_part :: "nat \<Rightarrow> nat \<Rightarrow> nat \<Rightarrow> nat \<Rightarrow> esp_partition_t" where
  "demo_part ty sub a n = \<lparr>ptype = ty, subtype = sub, address = a, psize = n, erase_size = SPI_FLASH_SEC_SIZE,
     label = [], encrypted = False, readonly = False\<rparr>"

definition demo_parts :: "esp_partition_t list" where
  "demo_parts = [demo_part ESP_PARTITION_TYPE_DATA ESP_PARTITION_SUBTYPE_DATA_OTA 0xd000 0x2000,
     demo_part ESP_PARTITION_TYPE_APP 0x10 0x10000 0x100000, demo_part ESP_PARTITION_TYPE_APP 0x11 0x110000 0x100000]"

definition demo_crc :: rom_crc where
  "demo_crc c bs = c XOR bytes_word bs"

definition demo_confirmed :: esp_ota_select_entry_t where
  "demo_confirmed = \<lparr>ota_seq = 1, seq_label = replicate 20 0xFF, ota_state = ESP_OTA_IMG_VALID,
     crc = demo_crc 0xFFFFFFFF (word_bytes 1)\<rparr>"

definition blank_flash :: flash where
  "blank_flash = \<lparr>mem = (\<lambda>x. 0xFF), faults = [], power = None\<rparr>"

definition confirmed_flash :: flash where
  "confirmed_flash = blank_flash\<lparr>mem := program_bytes 0xd000 (select_bytes demo_confirmed) (mem blank_flash)\<rparr>"

lemma word_bytes_0: "word_bytes 0 = [0, 0, 0, 0]"
proof -
  have "bytes_of_nat (Suc (Suc (Suc (Suc 0)))) 0 = [0, 0, 0, 0]" by simp
  moreover have "Suc (Suc (Suc (Suc 0))) = 4" by simp
  ultimately show ?thesis by (simp only: word_bytes_def unat_0)
qed

lemma demo_crc_ok: "crc_ok demo_crc"
proof -
  have "bs = [0, 0, 0, 0]" if l: "length bs = 4" and x: "demo_crc 0xFFFFFFFF bs = 0xFFFFFFFF" for bs
  proof -
    have "(0xFFFFFFFF :: 32 word) XOR (0xFFFFFFFF XOR bytes_word bs) = 0"
      using x by (simp add: demo_crc_def)
    then have "bytes_word bs = 0" by (simp flip: xor.assoc)
    then have "bs = word_bytes 0" using word_of_bytes_word [OF l] by simp
    then show ?thesis by (simp only: word_bytes_0)
  qed
  then show ?thesis by (simp add: crc_ok_def)
qed

lemma demo_find:
  "esp_partition_find_first ESP_PARTITION_TYPE_DATA ESP_PARTITION_SUBTYPE_DATA_OTA None demo_parts = Some (hd demo_parts)"
  "find_app demo_parts 0x10 = Some (demo_parts ! 1)" "find_app demo_parts 0x11 = Some (demo_parts ! 2)"
  "find_app demo_parts 0x12 = None"
  by (simp_all add: demo_parts_def demo_part_def find_app_def esp_partition_find_first_def esp_partition_find_def partition_consts)

lemma demo_layout: "ota_layout demo_parts (hd demo_parts) 2"
proof -
  have "esp_ota_get_app_partition_count demo_parts = Some 2"
    using demo_find(2-4) by (simp add: esp_ota_get_app_partition_count_def find_app_def partition_consts)
  moreover have "bootloader_utility_load_partition_table demo_parts =
      \<lparr>ota_info = \<lparr>pos_offset = 0xd000, pos_size = 0x2000\<rparr>, factory = no_pos, test = no_pos,
       ota = (replicate MAX_OTA_SLOTS no_pos)[0 := \<lparr>pos_offset = 0x10000, pos_size = 0x100000\<rparr>,
         1 := \<lparr>pos_offset = 0x110000, pos_size = 0x100000\<rparr>], app_count = 2\<rparr>"
    by (simp add: bootloader_utility_load_partition_table_def demo_parts_def demo_part_def load_entry_def empty_bs_def
        partition_consts Let_def)
  moreover have "select_area (hd demo_parts)"
    by (simp add: demo_parts_def demo_part_def select_area_def SPI_FLASH_SEC_SIZE_def)
  ultimately show ?thesis
    using demo_find(1) by (simp add: ota_layout_def no_pos_def demo_parts_def demo_part_def)
qed

definition demo_loads :: "esp_partition_pos_t \<Rightarrow> bool" where
  "demo_loads pos \<longleftrightarrow> pos_size pos \<noteq> 0"

lemma blank_entries: "entries (hd demo_parts) (blank_flash\<lparr>power := w\<rparr>) = [blank_select, blank_select]"
proof -
  have "flash_bytes a 32 (blank_flash\<lparr>power := w\<rparr>) = blank_bytes 32" for a
    by (simp add: flash_bytes_def blank_flash_def blank_bytes_def map_replicate_const)
  then show ?thesis by (simp add: entries_def entry_at_def read_select_def blank_select_def)
qed

lemma blank_seqs_ok: "seqs_ok rom_crc n [blank_select, blank_select]"
  using blank_select_invalid by (auto simp: seqs_ok_def bootloader_common_ota_select_valid_def)

lemma blank_not_pending: "ota_state blank_select \<noteq> ESP_OTA_IMG_PENDING_VERIFY"
  using bytes_word_blank by (simp add: blank_select_def select_of_bytes_def blank_bytes_def img_states)

lemma confirmed_entries: "entries (hd demo_parts) confirmed_flash = [demo_confirmed, blank_select]"
proof -
  have l: "length (seq_label demo_confirmed) = 20" by (simp add: demo_confirmed_def)
  have "read_select 0xd000 confirmed_flash = partial_select 32 demo_confirmed"
    by (rule read_programmed [of blank_flash _ _ 32])
       (simp_all add: l length_select_bytes confirmed_flash_def blank_flash_def)
  moreover have "read_select (0xd000 + SPI_FLASH_SEC_SIZE * 1) confirmed_flash = read_select (0xd000 + SPI_FLASH_SEC_SIZE * 1) blank_flash"
    by (rule read_select_cong)
       (simp add: confirmed_flash_def program_bytes_def length_select_bytes [OF l] SPI_FLASH_SEC_SIZE_def)
  moreover have "read_select a blank_flash = blank_select" for a
    using bytes_word_blank by (simp add: read_select_def blank_select_def flash_bytes_def blank_flash_def blank_bytes_def map_replicate_const)
  ultimately show ?thesis
    by (simp add: entries_def entry_at_def partial_select_32 [OF l] demo_parts_def demo_part_def)
qed

definition bootable :: "esp_partition_t list \<Rightarrow> (esp_partition_pos_t \<Rightarrow> bool) \<Rightarrow> nat \<Rightarrow> bool" where
  "bootable parts loads k \<longleftrightarrow>
     pos_size (ota (bootloader_utility_load_partition_table parts) ! k) \<noteq> 0 \<and>
     loads (ota (bootloader_utility_load_partition_table parts) ! k)"

lemma bootable_starts: "ota_layout parts d n \<Longrightarrow> k < n \<Longrightarrow> bootable parts loads k \<Longrightarrow> started_at parts loads (int k) = Some (int k)"
  by (rule started_at_loads) (auto simp: ota_layout_def bootable_def)

lemma demo_bootable: "k < 2 \<Longrightarrow> bootable demo_parts demo_loads k"
  by (auto simp: bootable_def demo_loads_def bootloader_utility_load_partition_table_def demo_parts_def demo_part_def
      load_entry_def empty_bs_def partition_consts boot_consts Let_def less_2_cases_iff)

lemma set_boot_ota:
  "ptype p = ESP_PARTITION_TYPE_APP \<Longrightarrow> subtype p = ESP_PARTITION_SUBTYPE_APP_OTA_MIN + k \<Longrightarrow> image_ok p \<Longrightarrow>
     esp_ota_set_boot_partition rollback rom_crc image_ok parts (Some p) f =
     esp_rewrite_ota_data rollback rom_crc parts (ESP_PARTITION_SUBTYPE_APP_OTA_MIN + k) f"
  by (simp add: esp_ota_set_boot_partition_def partition_consts)

lemma set_boot_working:
  assumes "ota_layout parts d n" "seqs_ok rom_crc n (entries d f)" "k < n" "faults f = []" "power f = None"
    and p: "ptype p = ESP_PARTITION_TYPE_APP" "subtype p = ESP_PARTITION_SUBTYPE_APP_OTA_MIN + k" "image_ok p"
  shows "\<exists>g j e. esp_ota_set_boot_partition rollback rom_crc image_ok parts (Some p) f = Some (ESP_OK, g) \<and> working g \<and>
    new_entry_ok rollback rom_crc n k (entries d f) j e \<and> entries d g = (entries d f)[j := e]"
  using rewrite_entries [OF assms(1-3), of rollback] assms(4,5) unfolding set_boot_ota [where image_ok = image_ok, OF p]
  by (auto simp: working_def)

section \<open>Interrupted updates\<close>

text \<open>
  C38.  Setting the app of an OTA slot to boot, when it can be started and no entry awaits confirmation, is safe
  against faults and the loss of power.  Whatever calls of the flash
  driver fail and whenever the power goes, the device then starts the app it would have started before or
  the new one, never another and never none because of the update; without a fault and with power it
  reports success and starts the new one.  The CRC of a sequence number that is not 0 must not be all
  ones, which is the erased value of the field, and the sequence numbers must not be about to overflow.
\<close>

theorem set_boot_survives_interruption:
  assumes "ota_layout parts d n" and "crc_ok rom_crc" and "seqs_ok rom_crc n (entries d f)"
    and "no_pending rollback (entries d f)" and "k < n" and "bootable parts loads k"
    and "ptype p = ESP_PARTITION_TYPE_APP" "subtype p = ESP_PARTITION_SUBTYPE_APP_OTA_MIN + k" "image_ok p"
  shows "\<exists>err g. esp_ota_set_boot_partition rollback rom_crc image_ok parts (Some p) f = Some (err, g) \<and>
    (fst (call_start_cpu0 rollback rom_crc parts loads (restart g)) = fst (call_start_cpu0 rollback rom_crc parts loads (restart f)) \<or>
     fst (call_start_cpu0 rollback rom_crc parts loads (restart g)) = Some (int k)) \<and>
    (faults f = [] \<longrightarrow> power f = None \<longrightarrow>
       err = ESP_OK \<and> fst (call_start_cpu0 rollback rom_crc parts loads (restart g)) = Some (int k))"
  using update_choice [OF assms(1-5), of loads] bootable_starts [OF assms(1,5,6)] set_boot_ota [where image_ok = image_ok, OF assms(7-9)]
  by (simp add: started_def)

theorem set_boot_survives_interruption_witness:
  "\<exists>err g. esp_ota_set_boot_partition True demo_crc (\<lambda>p. True) demo_parts (Some (demo_parts ! 2)) (blank_flash\<lparr>power := Some 10\<rparr>) =
      Some (err, g) \<and>
    (fst (call_start_cpu0 True demo_crc demo_parts demo_loads (restart g)) =
       fst (call_start_cpu0 True demo_crc demo_parts demo_loads (restart (blank_flash\<lparr>power := Some 10\<rparr>))) \<or>
     fst (call_start_cpu0 True demo_crc demo_parts demo_loads (restart g)) = Some 1)"
proof -
  let ?f = "blank_flash\<lparr>power := Some 10\<rparr>"
  have "seqs_ok demo_crc 2 (entries (hd demo_parts) ?f)" "no_pending True (entries (hd demo_parts) ?f)"
    unfolding blank_entries by (rule blank_seqs_ok) (simp add: no_pending_def blank_not_pending)
  moreover have "ptype (demo_parts ! 2) = ESP_PARTITION_TYPE_APP" "subtype (demo_parts ! 2) = ESP_PARTITION_SUBTYPE_APP_OTA_MIN + 1"
    by (simp_all add: demo_parts_def demo_part_def partition_consts)
  ultimately show ?thesis
    using set_boot_survives_interruption [OF demo_layout demo_crc_ok, of ?f True 1 demo_loads "demo_parts ! 2" "\<lambda>p. True"]
      demo_bootable by auto
qed

section \<open>Rollback\<close>

text \<open>
  C39.  The life of an update to another slot in a build with rollback, when an entry is active and its app
  is confirmed; the update is selected once, and the flash works.
  The first start runs the new app.  If it never confirms itself, every later start runs the old app again.
  If it confirms itself, the next start runs it again.  If it declares itself invalid, the device restarts
  into the old app.
\<close>

theorem update_rolls_back_unless_confirmed:
  assumes lay: "ota_layout parts d n" and so: "seqs_ok rom_crc n (entries d f)" and np: "no_pending True (entries d f)"
    and act: "bootloader_common_get_active_otadata rom_crc (entries d f) = Some a"
    and conf: "ota_state (entries d f ! a) \<noteq> ESP_OTA_IMG_NEW"
    and old: "slot_of (ota_seq (entries d f ! a)) n = old" and k: "k < n" "k \<noteq> old"
    and boot: "bootable parts loads k" "bootable parts loads old"
    and p: "ptype p = ESP_PARTITION_TYPE_APP" "subtype p = ESP_PARTITION_SUBTYPE_APP_OTA_MIN + k" "image_ok p"
    and q: "find_app parts (ESP_PARTITION_SUBTYPE_APP_OTA_MIN + old) = Some q" "image_ok q"
    and f: "faults f = []" "power f = None"
  shows "\<exists>f1 f2. esp_ota_set_boot_partition True rom_crc image_ok parts (Some p) f = Some (ESP_OK, f1) \<and>
    call_start_cpu0 True rom_crc parts loads f1 = (Some (int k), f2) \<and>
    (\<exists>f3 f4. call_start_cpu0 True rom_crc parts loads f2 = (Some (int old), f3) \<and>
      call_start_cpu0 True rom_crc parts loads f3 = (Some (int old), f4) \<and> entries d f4 = entries d f3) \<and>
    (\<exists>f3 f4. esp_ota_mark_app_valid_cancel_rollback rom_crc image_ok parts f2 = Some (Returned ESP_OK, f3) \<and>
      call_start_cpu0 True rom_crc parts loads f3 = (Some (int k), f4) \<and> entries d f4 = entries d f3) \<and>
    (\<exists>f3 f4. esp_ota_mark_app_invalid_rollback_and_reboot rom_crc image_ok parts f2 = Some (Restarted, f3) \<and>
      call_start_cpu0 True rom_crc parts loads f3 = (Some (int old), f4) \<and> entries d f4 = entries d f3)"
proof -
  let ?es = "entries d f"
  have l: "length ?es = 2" and a: "a < 2" using active_lt [OF act] by auto
  have on: "old < n" using lay old by (auto simp: slot_of_def ota_layout_def)
  note starts = bootable_starts [OF lay k(1) boot(1)] bootable_starts [OF lay on boot(2)]
  obtain f1 j e where f1: "esp_ota_set_boot_partition True rom_crc image_ok parts (Some p) f = Some (ESP_OK, f1)"
    and new: "new_entry_ok True rom_crc n k ?es j e" and ent: "entries d f1 = ?es[j := e]" and wf: "working f1"
    using set_boot_working [where image_ok = image_ok, OF lay so k(1) f p] by blast
  have st: "ota_state e = ESP_OTA_IMG_NEW" and j: "j = 1 - a" using new act by (simp_all add: new_entry_ok_def set_new_state_otadata_def)
  have h1: "holds d f1 (update_entries ?es a e ESP_OTA_IMG_NEW)"
    using ent wf st j by (cases e) (simp add: holds_def update_entries_def)
  have ko: "slot_of (ota_seq (?es ! a)) n \<noteq> k" using old k(2) by simp
  have start: "\<exists>g. call_start_cpu0 True rom_crc parts loads h = (Some (int (if runs_new s then k else old)), g) \<and>
      holds d g (update_entries ?es a e (next_state s))" if "holds d h (update_entries ?es a e s)" for h s
    using holds_update_start [OF that lay act l new ko np conf, of loads] starts unfolding old by (auto split: if_splits)
  note s = runs_new_def next_state_def img_states
  note up = update_active [OF act l new ko]
  obtain f2 where f2: "call_start_cpu0 True rom_crc parts loads f1 = (Some (int k), f2)"
    and h2: "holds d f2 (update_entries ?es a e ESP_OTA_IMG_PENDING_VERIFY)"
    using start [OF h1] by (auto simp: s)
  let ?pend = "update_entries ?es a e ESP_OTA_IMG_PENDING_VERIFY"
  have ap: "bootloader_common_get_active_otadata rom_crc ?pend = Some (1 - a)" unfolding up(1) by (simp add: img_states)
  have pe: "ota_state (?pend ! (1 - a)) = ESP_OTA_IMG_PENDING_VERIFY" using l a by (simp add: update_entries_def)
  have va: "bootloader_common_ota_select_valid rom_crc (?pend ! (1 - (1 - a)))"
    using act a up(3) by (auto simp: bootloader_common_get_active_otadata_def bootloader_common_select_otadata_def Let_def
        less_2_cases_iff split: if_splits)
  have "\<exists>f3 f4. call_start_cpu0 True rom_crc parts loads f2 = (Some (int old), f3) \<and>
      call_start_cpu0 True rom_crc parts loads f3 = (Some (int old), f4) \<and> entries d f4 = entries d f3"
    using start [OF h2] start [of _ ESP_OTA_IMG_ABORTED] by (fastforce simp: s holds_def)
  moreover have "\<exists>f3 f4. esp_ota_mark_app_valid_cancel_rollback rom_crc image_ok parts f2 = Some (Returned ESP_OK, f3) \<and>
      call_start_cpu0 True rom_crc parts loads f3 = (Some (int k), f4) \<and> entries d f4 = entries d f3"
    using holds_mark_valid [OF h2 lay ap, of image_ok] pe update_entries_again [OF l a] start [of _ ESP_OTA_IMG_VALID]
    by (fastforce simp: s holds_def)
  moreover have "\<exists>f3 f4. esp_ota_mark_app_invalid_rollback_and_reboot rom_crc image_ok parts f2 = Some (Restarted, f3) \<and>
      call_start_cpu0 True rom_crc parts loads f3 = (Some (int old), f4) \<and> entries d f4 = entries d f3"
    using holds_mark_invalid [where image_ok = image_ok, OF h2 lay ap va] q up(3) old a update_entries_again [OF l a] start [of _ ESP_OTA_IMG_INVALID]
    by (fastforce simp: s holds_def)
  ultimately show ?thesis using f1 f2 by blast
qed

theorem update_rolls_back_unless_confirmed_witness:
  "\<exists>f1 f2 f3. esp_ota_set_boot_partition True demo_crc (\<lambda>p. True) demo_parts (Some (demo_parts ! 2)) confirmed_flash = Some (ESP_OK, f1) \<and>
    call_start_cpu0 True demo_crc demo_parts demo_loads f1 = (Some 1, f2) \<and>
    call_start_cpu0 True demo_crc demo_parts demo_loads f2 = (Some 0, f3)"
proof -
  let ?es = "entries (hd demo_parts) confirmed_flash"
  have v: "bootloader_common_ota_select_valid demo_crc demo_confirmed"
    by (simp add: demo_confirmed_def bootloader_common_ota_select_valid_def bootloader_common_ota_select_invalid_def
        bootloader_common_ota_select_crc_def img_states)
  have i: "\<not> bootloader_common_ota_select_valid demo_crc blank_select"
    using blank_select_invalid by (simp add: bootloader_common_ota_select_valid_def)
  have "seqs_ok demo_crc 2 ?es" "no_pending True ?es" "bootloader_common_get_active_otadata demo_crc ?es = Some 0"
    "ota_state (?es ! 0) \<noteq> ESP_OTA_IMG_NEW" "slot_of (ota_seq (?es ! 0)) 2 = 0"
    unfolding confirmed_entries using v i blank_not_pending
    by (simp_all add: seqs_ok_def no_pending_def active_eq demo_confirmed_def img_states slot_of_def)
  moreover have "ptype (demo_parts ! 2) = ESP_PARTITION_TYPE_APP" "subtype (demo_parts ! 2) = ESP_PARTITION_SUBTYPE_APP_OTA_MIN + 1"
    "find_app demo_parts (ESP_PARTITION_SUBTYPE_APP_OTA_MIN + 0) = Some (demo_parts ! 1)"
    "faults confirmed_flash = []" "power confirmed_flash = None"
    using demo_find(2) by (simp_all add: demo_parts_def demo_part_def partition_consts confirmed_flash_def blank_flash_def)
  ultimately show ?thesis
    using update_rolls_back_unless_confirmed [OF demo_layout, of demo_crc confirmed_flash 0 0 1 demo_loads "demo_parts ! 2" "\<lambda>p. True" "demo_parts ! 1"]
      demo_bootable by auto
qed

text \<open>
  Selecting the new app twice before the restart costs the rollback: the second call writes the entry of
  the running app, with the same sequence number, and no entry leads to the old app any more.
\<close>

theorem selecting_twice_forgets_the_running_app:
  "\<exists>f1 f2. slot_of (ota_seq (entries (hd demo_parts) confirmed_flash ! 0)) 2 = 0 \<and>
    esp_ota_set_boot_partition True demo_crc (\<lambda>p. True) demo_parts (Some (demo_parts ! 2)) confirmed_flash = Some (ESP_OK, f1) \<and>
    esp_ota_set_boot_partition True demo_crc (\<lambda>p. True) demo_parts (Some (demo_parts ! 2)) f1 = Some (ESP_OK, f2) \<and>
    slot_of (ota_seq (entries (hd demo_parts) f2 ! 0)) 2 = 1 \<and> slot_of (ota_seq (entries (hd demo_parts) f2 ! 1)) 2 = 1"
proof -
  let ?es = "[demo_confirmed, blank_select]"
  have v: "bootloader_common_ota_select_valid demo_crc demo_confirmed"
    by (simp add: demo_confirmed_def bootloader_common_ota_select_valid_def bootloader_common_ota_select_invalid_def
        bootloader_common_ota_select_crc_def img_states)
  have i: "\<not> bootloader_common_ota_select_valid demo_crc blank_select"
    using blank_select_invalid by (simp add: bootloader_common_ota_select_valid_def)
  have p: "ptype (demo_parts ! 2) = ESP_PARTITION_TYPE_APP" "subtype (demo_parts ! 2) = ESP_PARTITION_SUBTYPE_APP_OTA_MIN + 1"
    by (simp_all add: demo_parts_def demo_part_def partition_consts)
  note set = set_boot_working [where image_ok = "\<lambda>p. True" and k = 1 and n = 2, OF demo_layout _ _ _ _ p]
  have act: "bootloader_common_get_active_otadata demo_crc ?es = Some 0" using v i by (simp add: active_eq)
  have s0: "seqs_ok demo_crc 2 (entries (hd demo_parts) confirmed_flash)"
    unfolding confirmed_entries using i by (auto simp: seqs_ok_def demo_confirmed_def)
  have w0: "faults confirmed_flash = []" "power confirmed_flash = None" by (simp_all add: confirmed_flash_def blank_flash_def)
  obtain f1 j e where f1: "esp_ota_set_boot_partition True demo_crc (\<lambda>p. True) demo_parts (Some (demo_parts ! 2)) confirmed_flash = Some (ESP_OK, f1)"
    "working f1" "new_entry_ok True demo_crc 2 1 ?es j e" "entries (hd demo_parts) f1 = ?es[j := e]"
    using set [OF s0 _ w0] unfolding confirmed_entries by force
  have e: "j = 1" "1 \<le> ota_seq e" "unat (ota_seq e) < 3" "slot_of (ota_seq e) 2 = 1"
    using f1(3) act by (simp_all add: new_entry_ok_def demo_confirmed_def)
  have "ota_seq e \<noteq> 1" using e(4) by (auto simp: slot_of_def)
  then have lt: "\<not> ota_seq e \<le> 1" using e(2) by simp
  have es1: "entries (hd demo_parts) f1 = [demo_confirmed, e]" using f1(4) e(1) by simp
  have "ota_seq e \<noteq> 0" using f1(3) by (simp add: new_entry_ok_def)
  then have s1: "seqs_ok demo_crc 2 (entries (hd demo_parts) f1)"
    unfolding es1 using e(3) by (auto simp: seqs_ok_def demo_confirmed_def)
  have act1: "bootloader_common_get_active_otadata demo_crc [demo_confirmed, e] = Some 1"
    using v new_entry_valid [OF f1(3)] lt by (simp add: active_eq demo_confirmed_def)
  obtain f2 j' e' where f2: "esp_ota_set_boot_partition True demo_crc (\<lambda>p. True) demo_parts (Some (demo_parts ! 2)) f1 = Some (ESP_OK, f2)"
    "new_entry_ok True demo_crc 2 1 [demo_confirmed, e] j' e'" "entries (hd demo_parts) f2 = [demo_confirmed, e][j' := e']"
    using set [OF s1] f1(2) unfolding es1 working_def by force
  have "j' = 0" "slot_of (ota_seq e') 2 = 1" using f2(2) act1 by (simp_all add: new_entry_ok_def)
  then have "entries (hd demo_parts) f2 = [e', e]" using f2(3) by simp
  moreover have "slot_of (ota_seq demo_confirmed) 2 = 0" by (simp add: demo_confirmed_def slot_of_def)
  ultimately show ?thesis using f1(1) f2(1) e(4) \<open>slot_of (ota_seq e') 2 = 1\<close> by (simp add: confirmed_entries)
qed

section \<open>Receiving an image\<close>

text \<open>
  C40.  With sequential writes the chunks do not matter.  On a working flash, an image that fits and starts
  with the magic byte is accepted in any chunks, empty ones included, with and without flash encryption;
  when the update ends, the partition holds exactly the image, the flash outside the partition is as it
  was, the result is that of the image check, and the update is off the list.  With encryption the length
  must not leave fewer than 16 bytes for the last sector, which would not have been erased.
\<close>

theorem chunked_image_is_stored:
  assumes b: "esp_ota_begin rollback rom_crc phys_offs parts alloc (Some p) OTA_WITH_SEQUENTIAL_WRITES s = Some (ESP_OK, Some h, s1)"
    and q: "esp_partition_verify p parts = Some q" "writable enc q" "ptype q = ESP_PARTITION_TYPE_APP" and f: "working (chip s)"
    and image: "img \<noteq> []" "img ! 0 = ESP_IMAGE_HEADER_MAGIC" "length img \<le> psize q"
    and tail: "enc \<Longrightarrow> length img mod 4096 = 0 \<or> 16 \<le> length img mod 4096"
    and chunks: "concat chunks = img"
  shows "\<exists>s2 s3. write_chunks enc h chunks s1 = Some (ESP_OK, s2) \<and>
    esp_ota_end image_ok md5 chip_size pages primary_offset h s2 =
      Some (if image_ok q (chip s3) then ESP_OK else ESP_ERR_OTA_VALIDATE_FAILED, s3) \<and>
    flash_bytes (address q) (length img) (chip s3) = img \<and>
    (\<forall>x. x < address q \<or> address q + psize q \<le> x \<longrightarrow> mem (chip s3) x = mem (chip s) x) \<and>
    s_ota_ops_entries_head s3 = s_ota_ops_entries_head s"
proof -
  have r: "receiving enc q h (s_ota_ops_entries_head s) (chip s) [] s1" by (rule receiving_begin [OF b q(1) f])
  obtain s2 where s2: "write_chunks enc h chunks s1 = Some (ESP_OK, s2)"
    "receiving enc q h (s_ota_ops_entries_head s) (chip s) img s2"
    using receiving_chunks [OF r q(2,3), of chunks] image chunks by auto
  show ?thesis
    using receiving_end [where image_ok = image_ok, OF s2(2) q(2,3) image(1,3) tail] s2(1) by (auto simp: same_outside_def)
qed

definition demo_ops :: ota_ops where
  "demo_ops = \<lparr>s_ota_ops_entries_head = [], s_ota_ops_last_handle = 0, s_bootloader_partition_offset = 0,
     dangerous_write_protection = True, chip = blank_flash\<rparr>"

theorem chunked_image_is_stored_witness:
  "\<exists>s1 s2 s3. esp_ota_begin False demo_crc 0x10000 demo_parts True (Some (demo_parts ! 2)) OTA_WITH_SEQUENTIAL_WRITES demo_ops =
      Some (ESP_OK, Some 1, s1) \<and>
    write_chunks False 1 [[0xE9], [], [1, 2]] s1 = Some (ESP_OK, s2) \<and>
    esp_ota_end (\<lambda>q f. True) (\<lambda>bs. []) 0 (\<lambda>i. 0) 0 1 s2 = Some (ESP_OK, s3) \<and>
    flash_bytes 0x110000 3 (chip s3) = [0xE9, 1, 2]"
proof -
  let ?q = "demo_parts ! 2"
  have q: "esp_partition_verify ?q demo_parts = Some ?q" "writable False ?q" "ptype ?q = ESP_PARTITION_TYPE_APP"
    "psize ?q = 0x100000" "address ?q = 0x110000"
    by (simp_all add: esp_partition_verify_def esp_partition_find_def demo_parts_def demo_part_def partition_consts
        writable_def SPI_FLASH_SEC_SIZE_def)
  have "\<exists>s1. esp_ota_begin False demo_crc 0x10000 demo_parts True (Some ?q) OTA_WITH_SEQUENTIAL_WRITES demo_ops = Some (ESP_OK, Some 1, s1)"
    using q(1) by (simp add: esp_ota_begin_def begin_check_def is_ota_partition_def esp_ota_get_running_partition_def
        demo_parts_def demo_part_def partition_consts demo_ops_def Let_def)
  then obtain s1 where b: "esp_ota_begin False demo_crc 0x10000 demo_parts True (Some ?q) OTA_WITH_SEQUENTIAL_WRITES demo_ops =
      Some (ESP_OK, Some 1, s1)" by blast
  have f: "working (chip demo_ops)" by (simp add: demo_ops_def blank_flash_def working_def)
  have img: "[0xE9, 1, 2] \<noteq> ([] :: byte list)" "[0xE9, 1, 2] ! 0 = ESP_IMAGE_HEADER_MAGIC"
    "length [0xE9, 1, 2 :: byte] \<le> psize ?q" "concat [[0xE9], [], [1, 2]] = [0xE9, 1, 2 :: byte]"
    by (simp_all add: ESP_IMAGE_HEADER_MAGIC_def q(4))
  have len: "length [0xE9, 1, 2 :: byte] = 3" by simp
  show ?thesis
    using chunked_image_is_stored [where image_ok = "\<lambda>q f. True" and ?md5.0 = "\<lambda>bs. []" and chip_size = 0 and pages = "\<lambda>i. 0"
        and primary_offset = 0, OF b q(1-3) f img(1-3) _ img(4)] b
    unfolding len q(5) by auto
qed

text \<open>
  With encryption the bytes of an incomplete block are kept back, and a write erases only the sectors that
  its own bytes reach from the stored end on.  When less than a block is left past a sector boundary, the
  end of the update programs that block into a sector that was never erased.
\<close>

definition encrypted_part :: esp_partition_t where
  "encrypted_part = (demo_part ESP_PARTITION_TYPE_APP 0x11 0x110000 0x100000)\<lparr>encrypted := True\<rparr>"

definition used_flash :: flash where
  "used_flash = \<lparr>mem = (\<lambda>x. 0), faults = [], power = None\<rparr>"

lemma encrypted_part_fields [simp]:
  "ptype encrypted_part = ESP_PARTITION_TYPE_APP" "address encrypted_part = 0x110000" "psize encrypted_part = 0x100000"
  "erase_size encrypted_part = 4096" "encrypted encrypted_part" "\<not> readonly encrypted_part"
  by (simp_all add: encrypted_part_def demo_part_def SPI_FLASH_SEC_SIZE_def)

lemmas flash_eval = erase_for_write_def esp_partition_erase_range_def esp_flash_erase_region_def esp_partition_write_def
  esp_flash_write_def take_fault_ok powered_full use_power_def used_flash_def SPI_FLASH_SEC_SIZE_def

lemma first_chunk:
  assumes "length c = 4095" "c ! 0 = ESP_IMAGE_HEADER_MAGIC"
  shows "write_entry True (new_entry 1 encrypted_part OTA_WITH_SEQUENTIAL_WRITES) c used_flash =
    Some (ESP_OK, (new_entry 1 encrypted_part OTA_WITH_SEQUENTIAL_WRITES)\<lparr>wrote_size := 4080, partial_bytes := 15,
        partial_data := drop 4080 c @ [0]\<rparr>,
      used_flash\<lparr>mem := program_bytes 0x110000 (take 4080 c) (erase_bytes 0x110000 4096 (\<lambda>x. 0))\<rparr>)"
  using assms by (simp add: write_entry_def new_entry_def flash_eval magic_check_def store_data_def fill_partial_def save_tail_def
      append_bytes_def size_simps Let_def)

lemma second_chunk:
  assumes "length c = 10" "length d = 15" "\<And>x. 0x110000 + 4096 \<le> x \<Longrightarrow> m x = 0"
  shows "\<exists>m'. write_entry True ((new_entry 1 encrypted_part OTA_WITH_SEQUENTIAL_WRITES)\<lparr>wrote_size := 4080, partial_bytes := 15,
        partial_data := d @ [0]\<rparr>) c (used_flash\<lparr>mem := m\<rparr>) =
      Some (ESP_OK, (new_entry 1 encrypted_part OTA_WITH_SEQUENTIAL_WRITES)\<lparr>wrote_size := 4096, partial_bytes := 9,
        partial_data := drop 1 c @ replicate 7 0xFF\<rparr>, used_flash\<lparr>mem := m'\<rparr>) \<and>
    (\<forall>x. 0x110000 + 4096 \<le> x \<longrightarrow> m' x = 0)"
  using assms by (simp add: write_entry_def new_entry_def flash_eval magic_check_def store_data_def fill_partial_def save_tail_def
      append_bytes_def size_simps program_bytes_def Let_def)

theorem end_programs_an_unerased_sector:
  "\<exists>it1 f1 it2 f2 g.
     write_entry True (new_entry 1 encrypted_part OTA_WITH_SEQUENTIAL_WRITES) (0xE9 # replicate 4094 1) used_flash = Some (ESP_OK, it1, f1) \<and>
     write_entry True it1 (replicate 10 1) f1 = Some (ESP_OK, it2, f2) \<and>
     finish_entry (\<lambda>q f. True) md5 chip_size pages it2 f2 = Some (ESP_OK, g) \<and>
     mem g (address encrypted_part + 4096) \<noteq> 1"
proof -
  let ?it = "new_entry 1 encrypted_part OTA_WITH_SEQUENTIAL_WRITES" and ?c = "0xE9 # replicate 4094 (1 :: byte)"
  let ?m = "program_bytes 0x110000 (take 4080 ?c) (erase_bytes 0x110000 4096 (\<lambda>x. 0))"
  have "?m x = 0" if "0x110000 + 4096 \<le> x" for x
    using that by (simp add: program_bytes_def erase_bytes_def)
  then obtain m' where m': "write_entry True (?it\<lparr>wrote_size := 4080, partial_bytes := 15, partial_data := drop 4080 ?c @ [0]\<rparr>)
      (replicate 10 1) (used_flash\<lparr>mem := ?m\<rparr>) =
      Some (ESP_OK, ?it\<lparr>wrote_size := 4096, partial_bytes := 9, partial_data := drop 1 (replicate 10 1) @ replicate 7 0xFF\<rparr>, used_flash\<lparr>mem := m'\<rparr>)"
    "\<And>x. 0x110000 + 4096 \<le> x \<Longrightarrow> m' x = 0"
    using second_chunk [of "replicate 10 1" "drop 4080 ?c" ?m] by auto
  have "\<exists>g. finish_entry (\<lambda>q f. True) md5 chip_size pages
      (?it\<lparr>wrote_size := 4096, partial_bytes := 9, partial_data := drop 1 (replicate 10 1) @ replicate 7 0xFF\<rparr>) (used_flash\<lparr>mem := m'\<rparr>) =
      Some (ESP_OK, g) \<and> mem g (address encrypted_part + 4096) \<noteq> 1"
    using m'(2) by (simp add: finish_entry_def new_entry_def flash_eval ota_verify_partition_def program_bytes_def Let_def)
  moreover have "write_entry True ?it ?c used_flash =
      Some (ESP_OK, ?it\<lparr>wrote_size := 4080, partial_bytes := 15, partial_data := drop 4080 ?c @ [0]\<rparr>, used_flash\<lparr>mem := ?m\<rparr>)"
    by (rule first_chunk) (simp_all add: ESP_IMAGE_HEADER_MAGIC_def)
  ultimately show ?thesis using m'(1) by blast
qed

text \<open>An entry whose end wraps around 32 bits passes the check of the partition table.\<close>

definition wrapping_table :: "byte list" where
  "wrapping_table = [0xAA, 0x50, 0, 0x10, 0, 0, 1, 0, 0, 0, 0xFF, 0xFF] @ replicate 20 0 @ replicate 32 0xFF"

lemma wrapping_table_entries:
  "partition_info wrapping_table 0 =
     \<lparr>magic = 0x50AA, part_type = 0, part_subtype = 0x10, part_offset = 0x10000, part_size = 0xFFFF0000\<rparr>"
  "partition_info wrapping_table 1 =
     \<lparr>magic = 0xFFFF, part_type = 0xFF, part_subtype = 0xFF, part_offset = 0xFFFFFFFF, part_size = 0xFFFFFFFF\<rparr>"
proof -
  have r: "replicate 2 (x :: byte) = [x, x]" "replicate 4 (x :: byte) = [x, x, x, x]" for x
    by (simp_all add: numeral_eq_Suc)
  show "partition_info wrapping_table 0 =
     \<lparr>magic = 0x50AA, part_type = 0, part_subtype = 0x10, part_offset = 0x10000, part_size = 0xFFFF0000\<rparr>"
    by (simp add: partition_info_def wrapping_table_def Let_def)
  show "partition_info wrapping_table 1 =
     \<lparr>magic = 0xFFFF, part_type = 0xFF, part_subtype = 0xFF, part_offset = 0xFFFFFFFF, part_size = 0xFFFFFFFF\<rparr>"
    by (simp add: partition_info_def wrapping_table_def r Let_def)
qed

theorem table_accepts_a_wrapping_partition:
  "fst (esp_partition_table_verify md5 0x400000 wrapping_table) = ESP_OK \<and>
   part_offset (partition_info wrapping_table 0) + part_size (partition_info wrapping_table 0) = 0x100000000"
proof -
  note c = ESP_PARTITION_MAGIC_def ESP_PARTITION_MAGIC_MD5_def ESP_PARTITION_TABLE_MAX_ENTRIES_def ESP_PARTITION_TABLE_MAX_LEN_def
  have "fst (table_loop md5 0x400000 wrapping_table False 1) = ESP_OK"
    by (subst table_loop.simps) (simp add: wrapping_table_entries(2) [unfolded One_nat_def] c Let_def)
  then have "fst (table_loop md5 0x400000 wrapping_table False 0) = ESP_OK"
    by (subst table_loop.simps) (simp add: wrapping_table_entries(1) c wrap32_def Let_def)
  then show ?thesis by (simp add: esp_partition_table_verify_def wrapping_table_entries(1))
qed

end
