(* ===== verification/Blocks.thy ===== *)
theory Blocks
  imports Prelude "HOL-Library.Multiset"
begin

text \<open>
  The heap of the C library as the components use it that own linked nodes: blocks with addresses that are
  not used again, a script of allocations that fail, and a mark for a block that is freed twice.
\<close>

section \<open>The heap\<close>

text \<open>The allocator: the next address, whether the next allocations succeed (they do when the list is
  empty), the blocks in use, and whether a block was freed that was not in use.\<close>

record block_heap =
  next_addr :: nat
  allocs :: "bool list"
  live :: "nat list"
  bad_free :: bool

definition calloc :: "block_heap \<Rightarrow> nat option \<times> block_heap" where
  "calloc H =
     (if allocs H \<noteq> [] \<and> \<not> hd (allocs H) then (None, H\<lparr>allocs := tl (allocs H)\<rparr>)
      else (Some (next_addr H),
            H\<lparr>next_addr := next_addr H + 1, allocs := tl (allocs H), live := next_addr H # live H\<rparr>))"

definition heap_free :: "nat \<Rightarrow> block_heap \<Rightarrow> block_heap" where
  "heap_free a H =
     (if a \<in> set (live H) then H\<lparr>live := remove1 a (live H)\<rparr> else H\<lparr>bad_free := True\<rparr>)"

section \<open>Facts about allocation\<close>

text \<open>A heap gives each block once.\<close>

definition heap_ok :: "block_heap \<Rightarrow> bool" where
  "heap_ok H \<longleftrightarrow> distinct (live H) \<and> (\<forall>a \<in> set (live H). a < next_addr H)"

lemma mset_live_free [simp]: "mset (live (heap_free a H)) = mset (live H) - {#a#}"
  by (simp add: heap_free_def)

lemma bad_free_free [simp]: "bad_free (heap_free a H) \<longleftrightarrow> bad_free H \<or> a \<notin> set (live H)"
  by (simp add: heap_free_def)

lemma in_set_of_mset [dest]: "mset xs = add_mset a X \<Longrightarrow> a \<in> set xs"
  by (metis set_mset_mset union_single_eq_member)

lemma live_after_free [simp]: "b \<in> set (live H) \<Longrightarrow> b \<noteq> a \<Longrightarrow> b \<in> set (live (heap_free a H))"
  by (simp add: heap_free_def)

lemma heap_ok_free [intro]: "heap_ok H \<Longrightarrow> heap_ok (heap_free a H)"
  by (auto simp: heap_ok_def heap_free_def dest: notin_set_remove1 set_remove1_subset[THEN subsetD])

lemma calloc_None: "calloc H = (None, H') \<Longrightarrow> live H' = live H \<and> bad_free H' = bad_free H \<and> (heap_ok H \<longrightarrow> heap_ok H')"
  by (auto simp: calloc_def heap_ok_def split: if_splits)

lemma calloc_Some:
  "calloc H = (Some a, H') \<Longrightarrow> live H' = a # live H \<and> bad_free H' = bad_free H \<and> (heap_ok H \<longrightarrow> heap_ok H' \<and> a \<notin> set (live H))"
  by (auto simp: calloc_def heap_ok_def less_Suc_eq split: if_splits)

lemmas callocD = calloc_None calloc_Some

end
