(* ===== verification/Event.thy ===== *)
theory Event
  imports Blocks
begin

text \<open>
  The event loop library, \<open>components/esp_event/esp_event.c\<close>, in the build without profiling.  Registrations
  lie in nested lists: a loop has loop nodes, a loop node has handlers for every event and base nodes, a
  base node has handlers for its base and id nodes, an id node has handlers.  Every node has the address
  that \<open>calloc\<close> gave it, the heap the list of the blocks that are allocated and not freed.  Addresses are not
  used again, so that a step which reads a node that has been freed can be told.  The loop mutex makes each
  call one step.
\<close>

section \<open>Nodes\<close>

text \<open>\<open>ESP_EVENT_ANY_BASE\<close> is the null pointer; the library's own \<open>esp_event_any_base\<close> stands for it in the
  lists.\<close>

datatype esp_event_base_t = ESP_EVENT_ANY_BASE | Base nat

definition ESP_EVENT_ANY_ID :: int where "ESP_EVENT_ANY_ID = - 1"

record esp_event_handler_node_t =
  hn_addr :: nat
  handler_ctx :: nat
  ctx_handler :: nat
  ctx_arg :: nat

record esp_event_id_node_t =
  in_addr :: nat
  in_id :: int
  in_handlers :: "esp_event_handler_node_t list"

record esp_event_base_node_t =
  bn_addr :: nat
  bn_base :: esp_event_base_t
  bn_handlers :: "esp_event_handler_node_t list"
  id_nodes :: "esp_event_id_node_t list"

record esp_event_loop_node_t =
  ln_addr :: nat
  ln_handlers :: "esp_event_handler_node_t list"
  base_nodes :: "esp_event_base_node_t list"

text \<open>The data of an event: none, a value in the post itself, or a copy in a block of the heap.\<close>

datatype event_data = No_data | Inline "byte list" | Allocated nat "byte list"

record esp_event_post_instance_t =
  post_base :: esp_event_base_t
  post_id :: int
  post_data :: event_data

record esp_event_loop_instance_t =
  loop_addr :: nat
  loop_nodes :: "esp_event_loop_node_t list"
  ev_queue :: "esp_event_post_instance_t list"
  queue_size :: nat
  loop_task :: "nat option"
  running_task :: "nat option"

section \<open>Adding handlers\<close>

text \<open>The first handler with this function gets the new argument.\<close>

fun overwrite_arg :: "nat \<Rightarrow> nat \<Rightarrow> esp_event_handler_node_t list \<Rightarrow> esp_event_handler_node_t list" where
  "overwrite_arg fn a [] = []"
| "overwrite_arg fn a (n # ns) = (if ctx_handler n = fn then n\<lparr>ctx_arg := a\<rparr> # ns else n # overwrite_arg fn a ns)"

text \<open>The result, the list, the context that was created and the heap.\<close>

definition handler_instances_add ::
  "esp_event_handler_node_t list \<Rightarrow> nat \<Rightarrow> nat \<Rightarrow> bool \<Rightarrow> block_heap
     \<Rightarrow> esp_err_t \<times> esp_event_handler_node_t list \<times> nat option \<times> block_heap" where
  "handler_instances_add hs fn a legacy H =
     (case calloc H of
        (None, H1) \<Rightarrow> (ESP_ERR_NO_MEM, hs, None, H1)
      | (Some n, H1) \<Rightarrow>
          (case calloc H1 of
             (None, H2) \<Rightarrow> (ESP_ERR_NO_MEM, hs, None, heap_free n H2)
           | (Some c, H2) \<Rightarrow>
               if legacy \<and> (\<exists>x \<in> set hs. ctx_handler x = fn)
               then (ESP_OK, overwrite_arg fn a hs, None, heap_free c (heap_free n H2))
               else (ESP_OK, hs @ [\<lparr>hn_addr = n, handler_ctx = c, ctx_handler = fn, ctx_arg = a\<rparr>], Some c, H2)))"

text \<open>A list around its last element with a property.\<close>

fun split_last :: "('a \<Rightarrow> bool) \<Rightarrow> 'a list \<Rightarrow> ('a list \<times> 'a \<times> 'a list) option" where
  "split_last P [] = None"
| "split_last P (x # xs) =
     (case split_last P xs of
        Some (ys, y, zs) \<Rightarrow> Some (x # ys, y, zs)
      | None \<Rightarrow> if P x then Some ([], x, xs) else None)"

definition base_node_add_handler ::
  "esp_event_base_node_t \<Rightarrow> int \<Rightarrow> nat \<Rightarrow> nat \<Rightarrow> bool \<Rightarrow> block_heap
     \<Rightarrow> esp_err_t \<times> esp_event_base_node_t \<times> nat option \<times> block_heap" where
  "base_node_add_handler bn i fn a legacy H =
     (if i = ESP_EVENT_ANY_ID
      then let (err, hs, c, H1) = handler_instances_add (bn_handlers bn) fn a legacy H
           in (err, bn\<lparr>bn_handlers := hs\<rparr>, c, H1)
      else case split_last (\<lambda>it. in_id it = i) (id_nodes bn) of
             None \<Rightarrow>
               (case calloc H of
                  (None, H1) \<Rightarrow> (ESP_ERR_NO_MEM, bn, None, H1)
                | (Some n, H1) \<Rightarrow>
                    let (err, hs, c, H2) = handler_instances_add [] fn a legacy H1
                    in (err, if err = ESP_OK
                             then bn\<lparr>id_nodes := id_nodes bn @ [\<lparr>in_addr = n, in_id = i, in_handlers = hs\<rparr>]\<rparr> else bn, c,
                        if err = ESP_OK then H2 else heap_free n H2))
           | Some (ys, it, zs) \<Rightarrow>
               let (err, hs, c, H1) = handler_instances_add (in_handlers it) fn a legacy H
               in (err, bn\<lparr>id_nodes := ys @ it\<lparr>in_handlers := hs\<rparr> # zs\<rparr>, c, H1))"

definition loop_node_add_handler ::
  "esp_event_loop_node_t \<Rightarrow> esp_event_base_t \<Rightarrow> int \<Rightarrow> nat \<Rightarrow> nat \<Rightarrow> bool \<Rightarrow> block_heap
     \<Rightarrow> esp_err_t \<times> esp_event_loop_node_t \<times> nat option \<times> block_heap" where
  "loop_node_add_handler ln b i fn a legacy H =
     (if b = ESP_EVENT_ANY_BASE \<and> i = ESP_EVENT_ANY_ID
      then let (err, hs, c, H1) = handler_instances_add (ln_handlers ln) fn a legacy H
           in (err, ln\<lparr>ln_handlers := hs\<rparr>, c, H1)
      else let new_node =
                 (case calloc H of
                    (None, H1) \<Rightarrow> (ESP_ERR_NO_MEM, ln, None, H1)
                  | (Some n, H1) \<Rightarrow>
                      let (err, bn, c, H2) =
                            base_node_add_handler \<lparr>bn_addr = n, bn_base = b, bn_handlers = [], id_nodes = []\<rparr> i fn a legacy H1
                      in (err, if err = ESP_OK then ln\<lparr>base_nodes := base_nodes ln @ [bn]\<rparr> else ln, c,
                          if err = ESP_OK then H2 else heap_free n H2))
           in case split_last (\<lambda>it. bn_base it = b) (base_nodes ln) of
                None \<Rightarrow> new_node
              | Some (ys, bn, zs) \<Rightarrow>
                  if (id_nodes bn \<noteq> [] \<and> i = ESP_EVENT_ANY_ID) \<or>
                     (bn_base (last (base_nodes ln)) \<noteq> b \<and> id_nodes (last (base_nodes ln)) \<noteq> [] \<and> i = ESP_EVENT_ANY_ID)
                  then new_node
                  else let (err, bn', c, H1) = base_node_add_handler bn i fn a legacy H
                       in (err, ln\<lparr>base_nodes := ys @ bn' # zs\<rparr>, c, H1))"

text \<open>The function pointer is not null; the context is stored through the pointer of the caller.\<close>

definition esp_event_handler_register_with_internal ::
  "esp_event_loop_instance_t \<Rightarrow> esp_event_base_t \<Rightarrow> int \<Rightarrow> nat \<Rightarrow> nat \<Rightarrow> bool \<Rightarrow> block_heap
     \<Rightarrow> esp_err_t \<times> nat option \<times> esp_event_loop_instance_t \<times> block_heap" where
  "esp_event_handler_register_with_internal lp b i fn a legacy H =
     (if b = ESP_EVENT_ANY_BASE \<and> i \<noteq> ESP_EVENT_ANY_ID then (ESP_ERR_INVALID_ARG, None, lp, H)
      else let is_loop_level_handler = (b = ESP_EVENT_ANY_BASE \<and> i = ESP_EVENT_ANY_ID)
           in if loop_nodes lp = [] \<or> (base_nodes (last (loop_nodes lp)) \<noteq> [] \<and> is_loop_level_handler)
              then case calloc H of
                     (None, H1) \<Rightarrow> (ESP_ERR_NO_MEM, None, lp, H1)
                   | (Some n, H1) \<Rightarrow>
                       let (err, ln, c, H2) =
                             loop_node_add_handler \<lparr>ln_addr = n, ln_handlers = [], base_nodes = []\<rparr> b i fn a legacy H1
                       in (err, c, if err = ESP_OK then lp\<lparr>loop_nodes := loop_nodes lp @ [ln]\<rparr> else lp,
                           if err = ESP_OK then H2 else heap_free n H2)
              else let (err, ln, c, H1) = loop_node_add_handler (last (loop_nodes lp)) b i fn a legacy H
                   in (err, c, lp\<lparr>loop_nodes := butlast (loop_nodes lp) @ [ln]\<rparr>, H1))"

definition esp_event_handler_register_with ::
  "esp_event_loop_instance_t \<Rightarrow> esp_event_base_t \<Rightarrow> int \<Rightarrow> nat \<Rightarrow> nat \<Rightarrow> block_heap
     \<Rightarrow> esp_err_t \<times> nat option \<times> esp_event_loop_instance_t \<times> block_heap" where
  "esp_event_handler_register_with lp b i fn a H = esp_event_handler_register_with_internal lp b i fn a True H"

definition esp_event_handler_instance_register_with ::
  "esp_event_loop_instance_t \<Rightarrow> esp_event_base_t \<Rightarrow> int \<Rightarrow> nat \<Rightarrow> nat \<Rightarrow> block_heap
     \<Rightarrow> esp_err_t \<times> nat option \<times> esp_event_loop_instance_t \<times> block_heap" where
  "esp_event_handler_instance_register_with lp b i fn a H = esp_event_handler_register_with_internal lp b i fn a False H"

section \<open>Removing handlers\<close>

text \<open>What is removed: a handler function for the legacy calls, a context otherwise.\<close>

datatype removal = Legacy nat | Instance nat

definition removes :: "removal \<Rightarrow> esp_event_handler_node_t \<Rightarrow> bool" where
  "removes r n = (case r of Legacy fn \<Rightarrow> ctx_handler n = fn | Instance c \<Rightarrow> handler_ctx n = c)"

fun handler_instances_remove ::
  "removal \<Rightarrow> esp_event_handler_node_t list \<Rightarrow> block_heap \<Rightarrow> esp_err_t \<times> esp_event_handler_node_t list \<times> block_heap" where
  "handler_instances_remove r [] H = (ESP_ERR_NOT_FOUND, [], H)"
| "handler_instances_remove r (n # ns) H =
     (if removes r n then (ESP_OK, ns, heap_free (hn_addr n) (heap_free (handler_ctx n) H))
      else let (err, ns', H') = handler_instances_remove r ns H in (err, n # ns', H'))"

text \<open>The loop over the id nodes goes on after a removal that leaves the node in place.\<close>

fun remove_from_ids ::
  "int \<Rightarrow> removal \<Rightarrow> esp_event_id_node_t list \<Rightarrow> block_heap \<Rightarrow> esp_err_t \<times> esp_event_id_node_t list \<times> block_heap" where
  "remove_from_ids i r [] H = (ESP_ERR_NOT_FOUND, [], H)"
| "remove_from_ids i r (it # its) H =
     (let (res, hs, H1) = (if in_id it = i then handler_instances_remove r (in_handlers it) H
                           else (ESP_ERR_NOT_FOUND, in_handlers it, H))
      in if res = ESP_OK \<and> hs = [] then (ESP_OK, its, heap_free (in_addr it) H1)
         else let (err, its', H2) = remove_from_ids i r its H1 in (err, it\<lparr>in_handlers := hs\<rparr> # its', H2))"

definition base_node_remove_handler ::
  "esp_event_base_node_t \<Rightarrow> int \<Rightarrow> removal \<Rightarrow> block_heap \<Rightarrow> esp_err_t \<times> esp_event_base_node_t \<times> block_heap" where
  "base_node_remove_handler bn i r H =
     (if i = ESP_EVENT_ANY_ID
      then let (err, hs, H1) = handler_instances_remove r (bn_handlers bn) H in (err, bn\<lparr>bn_handlers := hs\<rparr>, H1)
      else let (err, its, H1) = remove_from_ids i r (id_nodes bn) H in (err, bn\<lparr>id_nodes := its\<rparr>, H1))"

fun remove_from_bases ::
  "esp_event_base_t \<Rightarrow> int \<Rightarrow> removal \<Rightarrow> esp_event_base_node_t list \<Rightarrow> block_heap
     \<Rightarrow> esp_err_t \<times> esp_event_base_node_t list \<times> block_heap" where
  "remove_from_bases b i r [] H = (ESP_ERR_NOT_FOUND, [], H)"
| "remove_from_bases b i r (it # its) H =
     (let (res, bn, H1) = (if bn_base it = b then base_node_remove_handler it i r H else (ESP_ERR_NOT_FOUND, it, H))
      in if res = ESP_OK \<and> bn_handlers bn = [] \<and> id_nodes bn = [] then (ESP_OK, its, heap_free (bn_addr it) H1)
         else let (err, its', H2) = remove_from_bases b i r its H1 in (err, bn # its', H2))"

definition loop_node_remove_handler ::
  "esp_event_loop_node_t \<Rightarrow> esp_event_base_t \<Rightarrow> int \<Rightarrow> removal \<Rightarrow> block_heap
     \<Rightarrow> esp_err_t \<times> esp_event_loop_node_t \<times> block_heap" where
  "loop_node_remove_handler ln b i r H =
     (if b = ESP_EVENT_ANY_BASE \<and> i = ESP_EVENT_ANY_ID
      then let (err, hs, H1) = handler_instances_remove r (ln_handlers ln) H in (err, ln\<lparr>ln_handlers := hs\<rparr>, H1)
      else let (err, its, H1) = remove_from_bases b i r (base_nodes ln) H in (err, ln\<lparr>base_nodes := its\<rparr>, H1))"

text \<open>The loop of the unregistration ends at the first loop node that it empties.\<close>

fun remove_from_loops ::
  "esp_event_base_t \<Rightarrow> int \<Rightarrow> removal \<Rightarrow> esp_event_loop_node_t list \<Rightarrow> block_heap
     \<Rightarrow> esp_event_loop_node_t list \<times> block_heap" where
  "remove_from_loops b i r [] H = ([], H)"
| "remove_from_loops b i r (it # its) H =
     (let (res, ln, H1) = loop_node_remove_handler it b i r H
      in if res = ESP_OK \<and> base_nodes ln = [] \<and> ln_handlers ln = [] then (its, heap_free (ln_addr it) H1)
         else let (its', H2) = remove_from_loops b i r its H1 in (ln # its', H2))"

definition esp_event_handler_unregister_with_internal ::
  "esp_event_loop_instance_t \<Rightarrow> esp_event_base_t \<Rightarrow> int \<Rightarrow> removal \<Rightarrow> block_heap
     \<Rightarrow> esp_err_t \<times> esp_event_loop_instance_t \<times> block_heap" where
  "esp_event_handler_unregister_with_internal lp b i r H =
     (if b = ESP_EVENT_ANY_BASE \<and> i \<noteq> ESP_EVENT_ANY_ID then (ESP_ERR_INVALID_ARG, lp, H)
      else let (lns, H1) = remove_from_loops b i r (loop_nodes lp) H in (ESP_OK, lp\<lparr>loop_nodes := lns\<rparr>, H1))"

definition esp_event_handler_unregister_with ::
  "esp_event_loop_instance_t \<Rightarrow> esp_event_base_t \<Rightarrow> int \<Rightarrow> nat \<Rightarrow> block_heap
     \<Rightarrow> esp_err_t \<times> esp_event_loop_instance_t \<times> block_heap" where
  "esp_event_handler_unregister_with lp b i fn H = esp_event_handler_unregister_with_internal lp b i (Legacy fn) H"

definition esp_event_handler_instance_unregister_with ::
  "esp_event_loop_instance_t \<Rightarrow> esp_event_base_t \<Rightarrow> int \<Rightarrow> nat option \<Rightarrow> block_heap
     \<Rightarrow> esp_err_t \<times> esp_event_loop_instance_t \<times> block_heap" where
  "esp_event_handler_instance_unregister_with lp b i ctx H =
     (case ctx of
        None \<Rightarrow> (ESP_ERR_INVALID_ARG, lp, H)
      | Some c \<Rightarrow> esp_event_handler_unregister_with_internal lp b i (Instance c) H)"

section \<open>Removing every handler\<close>

definition handler_instances_remove_all :: "esp_event_handler_node_t list \<Rightarrow> block_heap \<Rightarrow> block_heap" where
  "handler_instances_remove_all hs H = fold (\<lambda>n H. heap_free (hn_addr n) (heap_free (handler_ctx n) H)) hs H"

definition base_node_remove_all_handler :: "esp_event_base_node_t \<Rightarrow> block_heap \<Rightarrow> block_heap" where
  "base_node_remove_all_handler bn H =
     fold (\<lambda>it H. heap_free (in_addr it) (handler_instances_remove_all (in_handlers it) H)) (id_nodes bn)
       (handler_instances_remove_all (bn_handlers bn) H)"

definition loop_node_remove_all_handler :: "esp_event_loop_node_t \<Rightarrow> block_heap \<Rightarrow> block_heap" where
  "loop_node_remove_all_handler ln H =
     fold (\<lambda>it H. heap_free (bn_addr it) (base_node_remove_all_handler it H)) (base_nodes ln)
       (handler_instances_remove_all (ln_handlers ln) H)"

end
