(* ===== verification/Event_Loop.thy ===== *)
theory Event_Loop
  imports Event
begin

text \<open>
  The life of an event loop: creation, posting, the run of the loop with the dispatch of an event, and
  deletion.  A handler is a parameter, any function on the world.  The dispatch walks the lists the way
  \<open>SLIST_FOREACH_SAFE\<close> does, from address to address: the address of the next node is read before a
  handler runs, and every read of a node looks its address up in the loop as it is then.
\<close>

section \<open>The world of a handler\<close>

record ev_world =
  world_loop :: esp_event_loop_instance_t
  world_heap :: block_heap
  executed :: "(nat \<times> nat \<times> esp_event_post_instance_t) list"

type_synonym handler_env = "nat \<Rightarrow> nat \<Rightarrow> esp_event_post_instance_t \<Rightarrow> ev_world \<Rightarrow> ev_world"

text \<open>A run ends, or it reads a node at an address where there is none any more.\<close>

datatype run_result = Finished ev_world | Use_after_free nat

definition handler_execute ::
  "handler_env \<Rightarrow> esp_event_handler_node_t \<Rightarrow> esp_event_post_instance_t \<Rightarrow> ev_world \<Rightarrow> ev_world" where
  "handler_execute env n post w =
     env (ctx_handler n) (ctx_arg n) post (w\<lparr>executed := executed w @ [(ctx_handler n, ctx_arg n, post)]\<rparr>)"

section \<open>Reading nodes\<close>

fun node_at :: "('a \<Rightarrow> nat) \<Rightarrow> nat \<Rightarrow> 'a list \<Rightarrow> ('a \<times> nat option) option" where
  "node_at f a [] = None"
| "node_at f a (x # xs) =
     (if f x = a then Some (x, case xs of [] \<Rightarrow> None | y # ys \<Rightarrow> Some (f y)) else node_at f a xs)"

fun node_in :: "('a \<Rightarrow> nat) \<Rightarrow> nat \<Rightarrow> 'a list list \<Rightarrow> ('a \<times> nat option) option" where
  "node_in f a [] = None"
| "node_in f a (xs # xss) = (case node_at f a xs of Some r \<Rightarrow> Some r | None \<Rightarrow> node_in f a xss)"

definition slist_first :: "('a \<Rightarrow> nat) \<Rightarrow> 'a list \<Rightarrow> nat option" where
  "slist_first f xs = (case xs of [] \<Rightarrow> None | x # _ \<Rightarrow> Some (f x))"

definition base_lists :: "esp_event_loop_instance_t \<Rightarrow> esp_event_base_node_t list list" where
  "base_lists lp = map base_nodes (loop_nodes lp)"

definition id_lists :: "esp_event_loop_instance_t \<Rightarrow> esp_event_id_node_t list list" where
  "id_lists lp = map id_nodes (concat (base_lists lp))"

definition handler_lists :: "esp_event_loop_instance_t \<Rightarrow> esp_event_handler_node_t list list" where
  "handler_lists lp =
     map ln_handlers (loop_nodes lp) @ map bn_handlers (concat (base_lists lp)) @ map in_handlers (concat (id_lists lp))"

section \<open>Dispatch of an event\<close>

partial_function (option) run_handlers ::
  "handler_env \<Rightarrow> esp_event_post_instance_t \<Rightarrow> nat option \<Rightarrow> ev_world \<Rightarrow> run_result option" where
  "run_handlers env post h w =
     (case h of
        None \<Rightarrow> Some (Finished w)
      | Some a \<Rightarrow>
          (case node_in hn_addr a (handler_lists (world_loop w)) of
             None \<Rightarrow> Some (Use_after_free a)
           | Some (n, nxt) \<Rightarrow> run_handlers env post nxt (handler_execute env n post w)))"

text \<open>The walk over the id nodes ends at the first one with the id of the event.\<close>

partial_function (option) run_ids ::
  "handler_env \<Rightarrow> esp_event_post_instance_t \<Rightarrow> nat option \<Rightarrow> ev_world \<Rightarrow> run_result option" where
  "run_ids env post h w =
     (case h of
        None \<Rightarrow> Some (Finished w)
      | Some a \<Rightarrow>
          (case node_in in_addr a (id_lists (world_loop w)) of
             None \<Rightarrow> Some (Use_after_free a)
           | Some (it, nxt) \<Rightarrow>
               (if in_id it = post_id post then run_handlers env post (slist_first hn_addr (in_handlers it)) w
                else run_ids env post nxt w)))"

text \<open>After the handlers of a node, the list below it is read from the node again.\<close>

definition run_base ::
  "handler_env \<Rightarrow> esp_event_post_instance_t \<Rightarrow> esp_event_base_node_t \<Rightarrow> ev_world \<Rightarrow> run_result option" where
  "run_base env post bn w =
     (if bn_base bn = post_base post
      then Option.bind (run_handlers env post (slist_first hn_addr (bn_handlers bn)) w)
             (\<lambda>r. case r of
                    Use_after_free a \<Rightarrow> Some (Use_after_free a)
                  | Finished w1 \<Rightarrow>
                      (case node_in bn_addr (bn_addr bn) (base_lists (world_loop w1)) of
                         None \<Rightarrow> Some (Use_after_free (bn_addr bn))
                       | Some (bn1, _) \<Rightarrow> run_ids env post (slist_first in_addr (id_nodes bn1)) w1))
      else Some (Finished w))"

partial_function (option) run_bases ::
  "handler_env \<Rightarrow> esp_event_post_instance_t \<Rightarrow> nat option \<Rightarrow> ev_world \<Rightarrow> run_result option" where
  "run_bases env post h w =
     (case h of
        None \<Rightarrow> Some (Finished w)
      | Some a \<Rightarrow>
          (case node_in bn_addr a (base_lists (world_loop w)) of
             None \<Rightarrow> Some (Use_after_free a)
           | Some (bn, nxt) \<Rightarrow>
               Option.bind (run_base env post bn w)
                 (\<lambda>r. case r of
                        Use_after_free x \<Rightarrow> Some (Use_after_free x)
                      | Finished w1 \<Rightarrow> run_bases env post nxt w1)))"

definition run_loop_node ::
  "handler_env \<Rightarrow> esp_event_post_instance_t \<Rightarrow> esp_event_loop_node_t \<Rightarrow> ev_world \<Rightarrow> run_result option" where
  "run_loop_node env post ln w =
     Option.bind (run_handlers env post (slist_first hn_addr (ln_handlers ln)) w)
       (\<lambda>r. case r of
              Use_after_free a \<Rightarrow> Some (Use_after_free a)
            | Finished w1 \<Rightarrow>
                (case node_at ln_addr (ln_addr ln) (loop_nodes (world_loop w1)) of
                   None \<Rightarrow> Some (Use_after_free (ln_addr ln))
                 | Some (ln1, _) \<Rightarrow> run_bases env post (slist_first bn_addr (base_nodes ln1)) w1))"

partial_function (option) run_loop_nodes ::
  "handler_env \<Rightarrow> esp_event_post_instance_t \<Rightarrow> nat option \<Rightarrow> ev_world \<Rightarrow> run_result option" where
  "run_loop_nodes env post h w =
     (case h of
        None \<Rightarrow> Some (Finished w)
      | Some a \<Rightarrow>
          (case node_at ln_addr a (loop_nodes (world_loop w)) of
             None \<Rightarrow> Some (Use_after_free a)
           | Some (ln, nxt) \<Rightarrow>
               Option.bind (run_loop_node env post ln w)
                 (\<lambda>r. case r of
                        Use_after_free x \<Rightarrow> Some (Use_after_free x)
                      | Finished w1 \<Rightarrow> run_loop_nodes env post nxt w1)))"

definition dispatch :: "handler_env \<Rightarrow> esp_event_post_instance_t \<Rightarrow> ev_world \<Rightarrow> run_result option" where
  "dispatch env post w = run_loop_nodes env post (slist_first ln_addr (loop_nodes (world_loop w))) w"

section \<open>Running the loop\<close>

definition post_instance_delete :: "esp_event_post_instance_t \<Rightarrow> block_heap \<Rightarrow> block_heap" where
  "post_instance_delete post H = (case post_data post of Allocated a _ \<Rightarrow> heap_free a H | _ \<Rightarrow> H)"

definition portMAX_DELAY :: "32 word" where "portMAX_DELAY = - 1"

abbreviation set_running :: "nat option \<Rightarrow> ev_world \<Rightarrow> ev_world" where
  "set_running t w \<equiv> w\<lparr>world_loop := (world_loop w)\<lparr>running_task := t\<rparr>\<rparr>"

text \<open>
  The loop of \<open>esp_event_loop_run\<close> by the task \<open>me\<close>.  \<open>clock k\<close> is the reading of the tick counter number
  \<open>k\<close>.  \<open>xQueueReceive\<close> on an empty queue ends the call, or never returns when there is no limit.
\<close>

partial_function (option) loop_run_from ::
  "handler_env \<Rightarrow> nat \<Rightarrow> 32 word \<Rightarrow> (nat \<Rightarrow> 32 word) \<Rightarrow> nat \<Rightarrow> 32 word \<Rightarrow> int \<Rightarrow> ev_world \<Rightarrow> run_result option" where
  "loop_run_from env me ticks_to_run clock k marker remaining w =
     (case ev_queue (world_loop w) of
        [] \<Rightarrow> if ticks_to_run = portMAX_DELAY then None else Some (Finished w)
      | post # posts \<Rightarrow>
          Option.bind (dispatch env post (w\<lparr>world_loop := (world_loop w)\<lparr>ev_queue := posts, running_task := Some me\<rparr>\<rparr>))
            (\<lambda>r. case r of
                   Use_after_free a \<Rightarrow> Some (Use_after_free a)
                 | Finished w1 \<Rightarrow>
                     (let w2 = w1\<lparr>world_heap := post_instance_delete post (world_heap w1)\<rparr>
                      in if ticks_to_run \<noteq> portMAX_DELAY
                         then let remaining' = remaining - uint (clock k - marker)
                              in if remaining' \<le> 0 then Some (Finished w2)
                                 else loop_run_from env me ticks_to_run clock (k + 1) (clock k) remaining' (set_running None w2)
                         else loop_run_from env me ticks_to_run clock k marker remaining (set_running None w2))))"

definition esp_event_loop_run ::
  "handler_env \<Rightarrow> nat \<Rightarrow> 32 word \<Rightarrow> (nat \<Rightarrow> 32 word) \<Rightarrow> ev_world \<Rightarrow> run_result option" where
  "esp_event_loop_run env me ticks_to_run clock w =
     loop_run_from env me ticks_to_run clock 1 (clock 0) (uint ticks_to_run) w"

text \<open>The task of a loop runs it for ever.\<close>

partial_function (option) esp_event_loop_run_task ::
  "handler_env \<Rightarrow> nat \<Rightarrow> (nat \<Rightarrow> 32 word) \<Rightarrow> ev_world \<Rightarrow> run_result option" where
  "esp_event_loop_run_task env me clock w =
     Option.bind (esp_event_loop_run env me portMAX_DELAY clock w)
       (\<lambda>r. case r of Use_after_free a \<Rightarrow> Some (Use_after_free a) | Finished w1 \<Rightarrow> esp_event_loop_run_task env me clock w1)"

declare run_handlers.simps [code] run_ids.simps [code] run_bases.simps [code] run_loop_nodes.simps [code]
  loop_run_from.simps [code]

section \<open>Posting\<close>

text \<open>
  \<open>others t\<close> is what the other tasks do to the loop while the caller is blocked in \<open>xQueueSendToBack\<close> for at
  most \<open>t\<close> ticks; it is not asked when the queue has room or the call may not block.
\<close>

definition xQueueSendToBack ::
  "(32 word \<Rightarrow> esp_event_loop_instance_t \<Rightarrow> esp_event_loop_instance_t) \<Rightarrow> esp_event_loop_instance_t
     \<Rightarrow> esp_event_post_instance_t \<Rightarrow> 32 word \<Rightarrow> bool \<times> esp_event_loop_instance_t" where
  "xQueueSendToBack others lp post ticks =
     (let lp1 = (if queue_size lp \<le> length (ev_queue lp) \<and> ticks \<noteq> 0 then others ticks lp else lp)
      in if length (ev_queue lp1) < queue_size lp1 then (True, lp1\<lparr>ev_queue := ev_queue lp1 @ [post]\<rparr>) else (False, lp1))"

text \<open>The time the caller may block: a task that runs the loop itself must not wait for room.\<close>

definition ticks_of_caller :: "esp_event_loop_instance_t \<Rightarrow> nat \<Rightarrow> 32 word \<Rightarrow> 32 word" where
  "ticks_of_caller lp me ticks_to_wait =
     (case loop_task lp of
        None \<Rightarrow> if running_task lp \<noteq> Some me then ticks_to_wait else 0
      | Some t \<Rightarrow> if t \<noteq> me then ticks_to_wait else 0)"

text \<open>\<open>mutex_taken\<close> tells whether a loop without a task of its own gives its mutex within the time.\<close>

definition esp_event_post_to ::
  "(32 word \<Rightarrow> esp_event_loop_instance_t \<Rightarrow> esp_event_loop_instance_t) \<Rightarrow> bool \<Rightarrow> nat
     \<Rightarrow> esp_event_loop_instance_t \<Rightarrow> esp_event_base_t \<Rightarrow> int \<Rightarrow> byte list option \<Rightarrow> 32 word \<Rightarrow> block_heap
     \<Rightarrow> esp_err_t \<times> esp_event_loop_instance_t \<times> block_heap" where
  "esp_event_post_to others mutex_taken me lp b i event_data ticks_to_wait H =
     (if b = ESP_EVENT_ANY_BASE \<or> i = ESP_EVENT_ANY_ID then (ESP_ERR_INVALID_ARG, lp, H)
      else let (copied, d, H1) =
                 (case event_data of
                    None \<Rightarrow> (True, No_data, H)
                  | Some bs \<Rightarrow>
                      (if bs = [] then (True, No_data, H)
                       else case calloc H of (None, H') \<Rightarrow> (False, No_data, H') | (Some a, H') \<Rightarrow> (True, Allocated a bs, H')))
           in if \<not> copied then (ESP_ERR_NO_MEM, lp, H1)
              else let post = \<lparr>post_base = b, post_id = i, post_data = d\<rparr>;
                       (sent, lp1) = (if loop_task lp = None \<and> \<not> mutex_taken then (False, lp)
                                      else xQueueSendToBack others lp post (ticks_of_caller lp me ticks_to_wait))
                   in if sent then (ESP_OK, lp1, H1) else (ESP_ERR_TIMEOUT, lp1, post_instance_delete post H1))"

definition esp_event_isr_post_to ::
  "esp_event_loop_instance_t \<Rightarrow> esp_event_base_t \<Rightarrow> int \<Rightarrow> byte list option \<Rightarrow> nat \<Rightarrow> esp_err_t \<times> esp_event_loop_instance_t" where
  "esp_event_isr_post_to lp b i event_data event_data_size =
     (if b = ESP_EVENT_ANY_BASE \<or> i = ESP_EVENT_ANY_ID \<or> 4 < event_data_size then (ESP_ERR_INVALID_ARG, lp)
      else let d = (case event_data of
                      None \<Rightarrow> No_data
                    | Some bs \<Rightarrow> if event_data_size = 0 then No_data else Inline (take event_data_size bs));
               (sent, lp1) = xQueueSendToBack (\<lambda>_ lp. lp) lp \<lparr>post_base = b, post_id = i, post_data = d\<rparr> 0
           in if sent then (ESP_OK, lp1) else (ESP_FAIL, lp1))"

section \<open>Creation and deletion\<close>

record esp_event_loop_args_t =
  args_queue_size :: nat
  has_task :: bool

text \<open>Whether the kernel gives a queue, a mutex and a task: \<open>task_created\<close> is the handle of the new task.\<close>

definition esp_event_loop_create ::
  "esp_event_loop_args_t option \<Rightarrow> bool \<Rightarrow> bool \<Rightarrow> bool \<Rightarrow> nat option \<Rightarrow> block_heap
     \<Rightarrow> esp_err_t \<times> esp_event_loop_instance_t option \<times> block_heap" where
  "esp_event_loop_create event_loop_args has_event_loop queue_created mutex_created task_created H =
     (case event_loop_args of
        None \<Rightarrow> (ESP_ERR_INVALID_ARG, None, H)
      | Some args \<Rightarrow>
          if \<not> has_event_loop then (ESP_ERR_INVALID_ARG, None, H)
          else case calloc H of
                 (None, H1) \<Rightarrow> (ESP_ERR_NO_MEM, None, H1)
               | (Some a, H1) \<Rightarrow>
                   if \<not> queue_created \<or> \<not> mutex_created then (ESP_ERR_NO_MEM, None, heap_free a H1)
                   else if has_task args \<and> task_created = None then (ESP_FAIL, None, heap_free a H1)
                   else (ESP_OK,
                         Some \<lparr>loop_addr = a, loop_nodes = [], ev_queue = [], queue_size = args_queue_size args,
                               loop_task = (if has_task args then task_created else None), running_task = None\<rparr>,
                         H1))"

definition esp_event_loop_delete :: "esp_event_loop_instance_t \<Rightarrow> block_heap \<Rightarrow> esp_err_t \<times> block_heap" where
  "esp_event_loop_delete lp H =
     (let H1 = fold (\<lambda>it H. heap_free (ln_addr it) (loop_node_remove_all_handler it H)) (loop_nodes lp) H;
          H2 = fold post_instance_delete (ev_queue lp) H1
      in (ESP_OK, heap_free (loop_addr lp) H2))"

section \<open>Is a handler registered\<close>

definition esp_event_is_handler_registered ::
  "esp_event_loop_instance_t \<Rightarrow> esp_event_base_t \<Rightarrow> int \<Rightarrow> nat \<Rightarrow> bool" where
  "esp_event_is_handler_registered lp b i fn =
     (\<exists>ln \<in> set (loop_nodes lp).
        (\<exists>n \<in> set (ln_handlers ln). b = ESP_EVENT_ANY_BASE \<and> i = ESP_EVENT_ANY_ID \<and> ctx_handler n = fn) \<or>
        (\<exists>bn \<in> set (base_nodes ln). bn_base bn = b \<and>
           ((\<exists>n \<in> set (bn_handlers bn). i = ESP_EVENT_ANY_ID \<and> ctx_handler n = fn) \<or>
            (\<exists>it \<in> set (id_nodes bn). in_id it = i \<and> (\<exists>n \<in> set (in_handlers it). ctx_handler n = fn)))))"

section \<open>The default loop\<close>

text \<open>The calls on \<open>s_default_loop\<close>, of \<open>default_event_loop.c\<close>.\<close>

definition esp_event_handler_register ::
  "esp_event_loop_instance_t option \<Rightarrow> esp_event_base_t \<Rightarrow> int \<Rightarrow> nat \<Rightarrow> nat \<Rightarrow> block_heap
     \<Rightarrow> esp_err_t \<times> esp_event_loop_instance_t option \<times> block_heap" where
  "esp_event_handler_register s_default_loop b i fn a H =
     (case s_default_loop of
        None \<Rightarrow> (ESP_ERR_INVALID_STATE, None, H)
      | Some lp \<Rightarrow> let (err, _, lp', H') = esp_event_handler_register_with lp b i fn a H in (err, Some lp', H'))"

definition esp_event_handler_instance_register ::
  "esp_event_loop_instance_t option \<Rightarrow> esp_event_base_t \<Rightarrow> int \<Rightarrow> nat \<Rightarrow> nat \<Rightarrow> block_heap
     \<Rightarrow> esp_err_t \<times> nat option \<times> esp_event_loop_instance_t option \<times> block_heap" where
  "esp_event_handler_instance_register s_default_loop b i fn a H =
     (case s_default_loop of
        None \<Rightarrow> (ESP_ERR_INVALID_STATE, None, None, H)
      | Some lp \<Rightarrow> let (err, c, lp', H') = esp_event_handler_instance_register_with lp b i fn a H in (err, c, Some lp', H'))"

definition esp_event_handler_unregister ::
  "esp_event_loop_instance_t option \<Rightarrow> esp_event_base_t \<Rightarrow> int \<Rightarrow> nat \<Rightarrow> block_heap
     \<Rightarrow> esp_err_t \<times> esp_event_loop_instance_t option \<times> block_heap" where
  "esp_event_handler_unregister s_default_loop b i fn H =
     (case s_default_loop of
        None \<Rightarrow> (ESP_ERR_INVALID_STATE, None, H)
      | Some lp \<Rightarrow> let (err, lp', H') = esp_event_handler_unregister_with lp b i fn H in (err, Some lp', H'))"

definition esp_event_handler_instance_unregister ::
  "esp_event_loop_instance_t option \<Rightarrow> esp_event_base_t \<Rightarrow> int \<Rightarrow> nat option \<Rightarrow> block_heap
     \<Rightarrow> esp_err_t \<times> esp_event_loop_instance_t option \<times> block_heap" where
  "esp_event_handler_instance_unregister s_default_loop b i c H =
     (case s_default_loop of
        None \<Rightarrow> (ESP_ERR_INVALID_STATE, None, H)
      | Some lp \<Rightarrow> let (err, lp', H') = esp_event_handler_instance_unregister_with lp b i c H in (err, Some lp', H'))"

definition esp_event_post ::
  "(32 word \<Rightarrow> esp_event_loop_instance_t \<Rightarrow> esp_event_loop_instance_t) \<Rightarrow> bool \<Rightarrow> nat
     \<Rightarrow> esp_event_loop_instance_t option \<Rightarrow> esp_event_base_t \<Rightarrow> int \<Rightarrow> byte list option \<Rightarrow> 32 word \<Rightarrow> block_heap
     \<Rightarrow> esp_err_t \<times> esp_event_loop_instance_t option \<times> block_heap" where
  "esp_event_post others mutex_taken me s_default_loop b i event_data ticks_to_wait H =
     (case s_default_loop of
        None \<Rightarrow> (ESP_ERR_INVALID_STATE, None, H)
      | Some lp \<Rightarrow>
          let (err, lp', H') = esp_event_post_to others mutex_taken me lp b i event_data ticks_to_wait H
          in (err, Some lp', H'))"

definition esp_event_isr_post ::
  "esp_event_loop_instance_t option \<Rightarrow> esp_event_base_t \<Rightarrow> int \<Rightarrow> byte list option \<Rightarrow> nat
     \<Rightarrow> esp_err_t \<times> esp_event_loop_instance_t option" where
  "esp_event_isr_post s_default_loop b i event_data event_data_size =
     (case s_default_loop of
        None \<Rightarrow> (ESP_ERR_INVALID_STATE, None)
      | Some lp \<Rightarrow> let (err, lp') = esp_event_isr_post_to lp b i event_data event_data_size in (err, Some lp'))"

definition esp_event_loop_create_default ::
  "nat \<Rightarrow> bool \<Rightarrow> bool \<Rightarrow> nat option \<Rightarrow> esp_event_loop_instance_t option \<Rightarrow> block_heap
     \<Rightarrow> esp_err_t \<times> esp_event_loop_instance_t option \<times> block_heap" where
  "esp_event_loop_create_default sys_event_queue_size queue_created mutex_created task_created s_default_loop H =
     (if s_default_loop \<noteq> None then (ESP_ERR_INVALID_STATE, s_default_loop, H)
      else esp_event_loop_create (Some \<lparr>args_queue_size = sys_event_queue_size, has_task = True\<rparr>) True
             queue_created mutex_created task_created H)"

definition esp_event_loop_delete_default ::
  "esp_event_loop_instance_t option \<Rightarrow> block_heap \<Rightarrow> esp_err_t \<times> esp_event_loop_instance_t option \<times> block_heap" where
  "esp_event_loop_delete_default s_default_loop H =
     (case s_default_loop of
        None \<Rightarrow> (ESP_ERR_INVALID_STATE, None, H)
      | Some lp \<Rightarrow>
          let (err, H1) = esp_event_loop_delete lp H
          in (err, if err = ESP_OK then None else s_default_loop, H1))"

end
