(* ===== verification/Event_Heap.thy ===== *)
theory Event_Heap
  imports Event_Loop
begin

text \<open>
  The memory of an event loop.  Each operation moves blocks between the heap and the lists: whatever else is
  allocated (\<open>R\<close> below) stays as it is.
\<close>

section \<open>The blocks of a loop\<close>

definition hs_blocks :: "esp_event_handler_node_t list \<Rightarrow> nat multiset" where
  "hs_blocks hs = mset (map hn_addr hs) + mset (map handler_ctx hs)"

definition id_blocks :: "esp_event_id_node_t list \<Rightarrow> nat multiset" where
  "id_blocks its = sum_list (map (\<lambda>it. {#in_addr it#} + hs_blocks (in_handlers it)) its)"

definition base_blocks :: "esp_event_base_node_t list \<Rightarrow> nat multiset" where
  "base_blocks bns = sum_list (map (\<lambda>bn. {#bn_addr bn#} + hs_blocks (bn_handlers bn) + id_blocks (id_nodes bn)) bns)"

definition loop_blocks :: "esp_event_loop_node_t list \<Rightarrow> nat multiset" where
  "loop_blocks lns =
     sum_list (map (\<lambda>ln. {#ln_addr ln#} + hs_blocks (ln_handlers ln) + base_blocks (base_nodes ln)) lns)"

lemmas blocks_defs = hs_blocks_def id_blocks_def base_blocks_def loop_blocks_def

lemma hs_blocks_simps [simp]:
  "hs_blocks [] = {#}"
  "hs_blocks (n # ns) = {#hn_addr n, handler_ctx n#} + hs_blocks ns"
  "hs_blocks (xs @ ys) = hs_blocks xs + hs_blocks ys"
  by (simp_all add: hs_blocks_def)

lemma id_blocks_simps [simp]:
  "id_blocks [] = {#}"
  "id_blocks (it # its) = {#in_addr it#} + hs_blocks (in_handlers it) + id_blocks its"
  "id_blocks (xs @ ys) = id_blocks xs + id_blocks ys"
  by (simp_all add: id_blocks_def)

lemma base_blocks_simps [simp]:
  "base_blocks [] = {#}"
  "base_blocks (bn # bns) = {#bn_addr bn#} + hs_blocks (bn_handlers bn) + id_blocks (id_nodes bn) + base_blocks bns"
  "base_blocks (xs @ ys) = base_blocks xs + base_blocks ys"
  by (simp_all add: base_blocks_def)

lemma loop_blocks_simps [simp]:
  "loop_blocks [] = {#}"
  "loop_blocks (ln # lns) = {#ln_addr ln#} + hs_blocks (ln_handlers ln) + base_blocks (base_nodes ln) + loop_blocks lns"
  "loop_blocks (xs @ ys) = loop_blocks xs + loop_blocks ys"
  by (simp_all add: loop_blocks_def)

section \<open>Moving blocks\<close>

lemma split_last_Some:
  "split_last P xs = Some (ys, y, zs) \<Longrightarrow> xs = ys @ y # zs \<and> P y \<and> (\<forall>z \<in> set zs. \<not> P z)"
  "split_last P xs = None \<Longrightarrow> \<forall>x \<in> set xs. \<not> P x"
  by (induction P xs arbitrary: ys rule: split_last.induct) (auto split: option.splits if_splits)

lemma hs_blocks_overwrite [simp]: "hs_blocks (overwrite_arg fn a hs) = hs_blocks hs"
  by (induction hs) auto

section \<open>Registration\<close>

text \<open>What an operation takes from the heap goes into the lists, and what it gives back comes from them.\<close>

definition moves :: "block_heap \<Rightarrow> nat multiset \<Rightarrow> block_heap \<Rightarrow> nat multiset \<Rightarrow> bool" where
  "moves H X H' Y \<longleftrightarrow> mset (live H') + X = mset (live H) + Y \<and>
     (heap_ok H \<longrightarrow> heap_ok H' \<and> bad_free H' = bad_free H)"

lemma moves_refl [simp]: "moves H X H X"
  by (simp add: moves_def)

lemma moves_frame: "moves H X H' Y \<Longrightarrow> moves H (A + X + B) H' (A + Y + B)"
  by (simp add: moves_def)

lemma moves_trans:
  assumes "moves H X H' Y" and "moves H' Y H'' Z"
  shows "moves H X H'' Z"
proof -
  have e1: "mset (live H') + X = mset (live H) + Y" and e2: "mset (live H'') + Y = mset (live H') + Z"
    using assms by (simp_all add: moves_def)
  have "(mset (live H'') + X) + Y = (mset (live H'') + Y) + X" by (simp add: ac_simps)
  also have "\<dots> = (mset (live H') + X) + Z" using e2 by (simp add: ac_simps)
  also have "\<dots> = (mset (live H) + Z) + Y" using e1 by (simp add: ac_simps)
  finally show ?thesis using assms by (auto simp: moves_def)
qed

lemma calloc_moves: "calloc H = (Some a, H') \<Longrightarrow> moves H X H' (add_mset a X)"
  "calloc H = (None, H') \<Longrightarrow> moves H X H' X"
  by (auto simp: moves_def dest!: callocD)

lemma free_moves: "a \<in> set (live H) \<Longrightarrow> moves H (add_mset a X) (heap_free a H) X"
  by (auto simp: moves_def intro: heap_ok_free)

lemma handler_instances_add_moves:
  assumes "handler_instances_add hs fn a legacy H = (err, hs', c, H')"
  shows "moves H (hs_blocks hs) H' (hs_blocks hs')"
  using assms
  by (auto simp: handler_instances_add_def moves_def split: option.splits prod.splits if_splits
      dest!: callocD intro: heap_ok_free)

lemma handler_instances_add_fails:
  "handler_instances_add hs fn a legacy H = (err, hs', c, H') \<Longrightarrow> err \<noteq> ESP_OK \<Longrightarrow> hs' = hs"
  by (auto simp: handler_instances_add_def split: option.splits prod.splits if_splits)

lemma handler_instances_addD:
  "handler_instances_add hs fn a legacy H = (err, hs', c, H') \<Longrightarrow>
     moves H (hs_blocks hs) H' (hs_blocks hs') \<and> (err \<noteq> ESP_OK \<longrightarrow> hs' = hs)"
  using handler_instances_add_moves handler_instances_add_fails by blast

lemma base_node_add_handlerD:
  assumes "base_node_add_handler bn i fn a legacy H = (err, bn', c, H')"
  shows "moves H (base_blocks [bn]) H' (base_blocks [bn']) \<and> (err \<noteq> ESP_OK \<longrightarrow> bn' = bn) \<and>
         bn_base bn' = bn_base bn"
proof (cases "i = ESP_EVENT_ANY_ID")
  case True
  then show ?thesis using assms
    by (auto simp: base_node_add_handler_def moves_def split: prod.splits
        dest!: handler_instances_addD)
next
  case False
  show ?thesis
  proof (cases "split_last (\<lambda>it. in_id it = i) (id_nodes bn)")
    case None
    then show ?thesis using assms False
      by (auto simp: base_node_add_handler_def moves_def Let_def split: prod.splits option.splits if_splits
          dest!: handler_instances_addD callocD)
  next
    case (Some x)
    then show ?thesis using assms False
      by (auto simp: base_node_add_handler_def moves_def split: prod.splits
          dest!: handler_instances_addD split_last_Some(1))
  qed
qed

lemma loop_node_add_handlerD:
  assumes "loop_node_add_handler ln b i fn a legacy H = (err, ln', c, H')"
  shows "moves H (loop_blocks [ln]) H' (loop_blocks [ln']) \<and> (err \<noteq> ESP_OK \<longrightarrow> ln' = ln)"
proof (cases "b = ESP_EVENT_ANY_BASE \<and> i = ESP_EVENT_ANY_ID")
  case True
  then show ?thesis using assms
    by (auto simp: loop_node_add_handler_def moves_def split: prod.splits dest!: handler_instances_addD)
next
  case False
  note unfolded = assms [unfolded loop_node_add_handler_def if_not_P [OF False] Let_def]
  show ?thesis
  proof (cases "split_last (\<lambda>it. bn_base it = b) (base_nodes ln)")
    case None
    then show ?thesis using unfolded
      by (auto simp: moves_def split: prod.splits option.splits if_splits
          dest!: base_node_add_handlerD callocD)
  next
    case (Some x)
    obtain ys bn zs where x: "x = (ys, bn, zs)" by (cases x)
    show ?thesis
    proof (cases "(id_nodes bn \<noteq> [] \<and> i = ESP_EVENT_ANY_ID) \<or>
        (bn_base (last (base_nodes ln)) \<noteq> b \<and> id_nodes (last (base_nodes ln)) \<noteq> [] \<and> i = ESP_EVENT_ANY_ID)")
      case True
      then show ?thesis using unfolded Some x
        by (simp split: option.splits prod.splits if_splits)
          (auto simp: moves_def dest!: base_node_add_handlerD callocD)
    next
      case False
      then show ?thesis using unfolded Some x split_last_Some(1) [OF Some [unfolded x]]
        by (auto simp: moves_def split: prod.splits dest!: base_node_add_handlerD)
    qed
  qed
qed

lemma registerD:
  assumes "esp_event_handler_register_with_internal lp b i fn a legacy H = (err, c, lp', H')"
  shows "moves H (loop_blocks (loop_nodes lp)) H' (loop_blocks (loop_nodes lp')) \<and> (err \<noteq> ESP_OK \<longrightarrow> lp' = lp)"
proof (cases "loop_nodes lp = []")
  case True
  then show ?thesis using assms
    by (auto simp: esp_event_handler_register_with_internal_def Let_def moves_def split: prod.splits option.splits if_splits
        dest!: loop_node_add_handlerD callocD)
next
  case False
  then have last: "loop_nodes lp = butlast (loop_nodes lp) @ [last (loop_nodes lp)]" by simp
  have blocks: "loop_blocks (loop_nodes lp) = loop_blocks (butlast (loop_nodes lp)) + loop_blocks [last (loop_nodes lp)]"
    by (subst last) simp
  show ?thesis
    using assms False blocks
    by (auto simp: esp_event_handler_register_with_internal_def Let_def moves_def split: prod.splits option.splits if_splits
        dest!: loop_node_add_handlerD callocD)
qed

section \<open>Removal\<close>

text \<open>\<open>gives_back H X H' Y\<close>: the heap has the blocks \<open>X\<close> and others before, \<open>Y\<close> and the same others after.\<close>

definition gives_back :: "block_heap \<Rightarrow> nat multiset \<Rightarrow> block_heap \<Rightarrow> nat multiset \<Rightarrow> bool" where
  "gives_back H X H' Y \<longleftrightarrow>
     (\<forall>R. mset (live H) = X + R \<longrightarrow> mset (live H') = Y + R \<and> bad_free H' = bad_free H) \<and>
     (heap_ok H \<longrightarrow> heap_ok H')"

lemma gives_back_refl [simp]: "gives_back H X H X"
  by (simp add: gives_back_def)

lemma gives_back_frame: "gives_back H X H' Y \<Longrightarrow> gives_back H (A + X) H' (A + Y)"
  unfolding gives_back_def by (metis (no_types, lifting) add.assoc add.commute)

lemma gives_back_trans: "gives_back H X H' Y \<Longrightarrow> gives_back H' Y H'' Z \<Longrightarrow> gives_back H X H'' Z"
  by (simp add: gives_back_def)

lemma gives_back_free: "gives_back H (add_mset a X) (heap_free a H) X"
  by (auto simp: gives_back_def intro: heap_ok_free)

lemma gives_back_then_free: "gives_back H X H' (add_mset a Y) \<Longrightarrow> gives_back H X (heap_free a H') Y"
  using gives_back_free gives_back_trans by blast

lemma gives_back_join:
  assumes "gives_back H X H' Y" and "gives_back H' Z H'' U"
  shows "gives_back H (X + Z) H'' (Y + U)"
  by (rule gives_back_trans [where H' = H' and Y = "Z + Y"])
    (use gives_back_frame [OF assms(1), of Z] gives_back_frame [OF assms(2), of Y] in \<open>simp_all add: ac_simps\<close>)

lemma handler_instances_removeD:
  "handler_instances_remove r hs H = (err, hs', H') \<Longrightarrow> gives_back H (hs_blocks hs) H' (hs_blocks hs')"
proof (induction r hs H arbitrary: err hs' H' rule: handler_instances_remove.induct)
  case (2 r n ns H)
  show ?case
  proof (cases "removes r n")
    case True
    then show ?thesis using 2(2)
      by (auto intro!: gives_back_then_free simp: add_mset_commute)
  next
    case False
    then show ?thesis using 2
      by (auto split: prod.splits dest: gives_back_frame [where A = "{#hn_addr n, handler_ctx n#}"])
  qed
qed simp

lemma remove_from_idsD:
  "remove_from_ids i r its H = (err, its', H') \<Longrightarrow> gives_back H (id_blocks its) H' (id_blocks its')"
proof (induction i r its H arbitrary: err its' H' rule: remove_from_ids.induct)
  case (2 i r it its H)
  obtain res hs H1 where step: "(if in_id it = i then handler_instances_remove r (in_handlers it) H
      else (ESP_ERR_NOT_FOUND, in_handlers it, H)) = (res, hs, H1)" by (metis prod_cases3)
  have one: "gives_back H (hs_blocks (in_handlers it)) H1 (hs_blocks hs)"
    using step by (auto split: if_splits dest: handler_instances_removeD)
  show ?case
  proof (cases "res = ESP_OK \<and> hs = []")
    case True
    then show ?thesis using 2(2) step one
      by (auto intro!: gives_back_then_free
          dest: gives_back_frame [where A = "add_mset (in_addr it) (id_blocks its)"] simp: ac_simps)
  next
    case False
    obtain its2 H2 where rest: "remove_from_ids i r its H1 = (err, its2, H2)" "its' = it\<lparr>in_handlers := hs\<rparr> # its2" "H' = H2"
      using 2(2) step False by (auto split: prod.splits)
    show ?thesis
      using gives_back_frame [OF gives_back_join [OF one 2(1) [OF step [symmetric] refl refl False rest(1)]], of "{#in_addr it#}"] rest
      by simp
  qed
qed simp

lemma base_node_remove_handlerD:
  assumes "base_node_remove_handler bn i r H = (err, bn', H')"
  shows "gives_back H (base_blocks [bn]) H' (base_blocks [bn'])"
    and "bn_addr bn' = bn_addr bn \<and> bn_base bn' = bn_base bn"
proof -
  show "bn_addr bn' = bn_addr bn \<and> bn_base bn' = bn_base bn"
    using assms by (auto simp: base_node_remove_handler_def split: if_splits prod.splits)
  show "gives_back H (base_blocks [bn]) H' (base_blocks [bn'])"
  proof (cases "i = ESP_EVENT_ANY_ID")
    case True
    then show ?thesis
      using assms
      by (auto simp: base_node_remove_handler_def ac_simps split: prod.splits dest!: handler_instances_removeD
          dest: gives_back_frame [where A = "add_mset (bn_addr bn) (id_blocks (id_nodes bn))"])
  next
    case False
    then show ?thesis
      using assms
      by (auto simp: base_node_remove_handler_def ac_simps split: prod.splits dest!: remove_from_idsD
          dest: gives_back_frame [where A = "add_mset (bn_addr bn) (hs_blocks (bn_handlers bn))"])
  qed
qed

lemma remove_from_basesD:
  "remove_from_bases b i r bns H = (err, bns', H') \<Longrightarrow> gives_back H (base_blocks bns) H' (base_blocks bns')"
proof (induction b i r bns H arbitrary: err bns' H' rule: remove_from_bases.induct)
  case (2 b i r it its H)
  obtain res bn H1 where step: "(if bn_base it = b then base_node_remove_handler it i r H
      else (ESP_ERR_NOT_FOUND, it, H)) = (res, bn, H1)" by (metis prod_cases3)
  have one: "gives_back H (base_blocks [it]) H1 (base_blocks [bn])" and addr: "bn_addr bn = bn_addr it"
    using step by (auto split: if_splits dest: base_node_remove_handlerD simp del: base_blocks_simps)
  show ?case
  proof (cases "res = ESP_OK \<and> bn_handlers bn = [] \<and> id_nodes bn = []")
    case True
    then show ?thesis using 2(2) step addr gives_back_frame [OF one, of "base_blocks its"]
      by (auto intro!: gives_back_then_free simp: ac_simps)
  next
    case False
    obtain its2 H2 where rest: "remove_from_bases b i r its H1 = (err, its2, H2)" "bns' = bn # its2" "H' = H2"
      using 2(2) step False by (auto split: prod.splits if_splits)
    show ?thesis
      using gives_back_join [OF one 2(1) [OF step [symmetric] refl refl False rest(1)]] rest by simp
  qed
qed simp

lemma loop_node_remove_handlerD:
  assumes "loop_node_remove_handler ln b i r H = (err, ln', H')"
  shows "gives_back H (loop_blocks [ln]) H' (loop_blocks [ln'])"
    and "ln_addr ln' = ln_addr ln"
proof -
  show "ln_addr ln' = ln_addr ln"
    using assms by (auto simp: loop_node_remove_handler_def split: if_splits prod.splits)
  show "gives_back H (loop_blocks [ln]) H' (loop_blocks [ln'])"
  proof (cases "b = ESP_EVENT_ANY_BASE \<and> i = ESP_EVENT_ANY_ID")
    case True
    then show ?thesis
      using assms
      by (auto simp: loop_node_remove_handler_def ac_simps split: prod.splits dest!: handler_instances_removeD
          dest: gives_back_frame [where A = "add_mset (ln_addr ln) (base_blocks (base_nodes ln))"])
  next
    case False
    then show ?thesis
      using assms
      by (auto simp: loop_node_remove_handler_def ac_simps split: prod.splits if_splits dest!: remove_from_basesD
          dest: gives_back_frame [where A = "add_mset (ln_addr ln) (hs_blocks (ln_handlers ln))"])
  qed
qed

lemma remove_from_loopsD:
  "remove_from_loops b i r lns H = (lns', H') \<Longrightarrow> gives_back H (loop_blocks lns) H' (loop_blocks lns')"
proof (induction b i r lns H arbitrary: lns' H' rule: remove_from_loops.induct)
  case (2 b i r it its H)
  obtain res ln H1 where step: "loop_node_remove_handler it b i r H = (res, ln, H1)" by (metis prod_cases3)
  note one = loop_node_remove_handlerD [OF step]
  show ?case
  proof (cases "res = ESP_OK \<and> base_nodes ln = [] \<and> ln_handlers ln = []")
    case True
    then show ?thesis using 2(2) step one(2) gives_back_frame [OF one(1), of "loop_blocks its"]
      by (auto intro!: gives_back_then_free simp: ac_simps)
  next
    case False
    obtain its2 H2 where rest: "remove_from_loops b i r its H1 = (its2, H2)" "lns' = ln # its2" "H' = H2"
      using 2(2) step False by (auto split: prod.splits if_splits)
    show ?thesis
      using gives_back_join [OF one(1) 2(1) [OF step [symmetric] refl refl False rest(1)]] rest by simp
  qed
qed simp

lemma unregisterD:
  "esp_event_handler_unregister_with_internal lp b i r H = (err, lp', H') \<Longrightarrow>
     gives_back H (loop_blocks (loop_nodes lp)) H' (loop_blocks (loop_nodes lp'))"
  by (auto simp: esp_event_handler_unregister_with_internal_def split: if_splits prod.splits dest: remove_from_loopsD)

section \<open>Deletion\<close>

lemma handler_instances_remove_all_gives: "gives_back H (hs_blocks hs) (handler_instances_remove_all hs H) {#}"
proof (induction hs arbitrary: H)
  case Nil
  then show ?case by (simp add: handler_instances_remove_all_def)
next
  case (Cons n ns)
  have "gives_back H (hs_blocks (n # ns)) (heap_free (hn_addr n) (heap_free (handler_ctx n) H)) (hs_blocks ns)"
    by (auto intro!: gives_back_then_free simp: add_mset_commute)
  then show ?case using Cons gives_back_trans by (fastforce simp: handler_instances_remove_all_def)
qed

lemma gives_back_fold:
  assumes "\<And>x H. gives_back H (B x) (f x H) {#}"
  shows "gives_back H (sum_list (map B xs)) (fold f xs H) {#}"
proof (induction xs arbitrary: H)
  case (Cons x xs)
  then show ?case using gives_back_join [OF assms Cons] by simp
qed simp

lemma remove_node_gives:
  "gives_back H X H1 {#} \<Longrightarrow> gives_back H ({#a#} + X) (heap_free a H1) {#}"
  using gives_back_frame [of H X H1 "{#}" "{#a#}"] by (auto intro!: gives_back_then_free)

lemma base_node_remove_all_gives:
  "gives_back H (hs_blocks (bn_handlers bn) + id_blocks (id_nodes bn)) (base_node_remove_all_handler bn H) {#}"
  unfolding base_node_remove_all_handler_def id_blocks_def
  using gives_back_join [OF handler_instances_remove_all_gives gives_back_fold]
  by (metis (mono_tags, lifting) add.left_neutral handler_instances_remove_all_gives remove_node_gives)

lemma loop_node_remove_all_gives:
  "gives_back H (hs_blocks (ln_handlers ln) + base_blocks (base_nodes ln)) (loop_node_remove_all_handler ln H) {#}"
proof -
  have "gives_back H ({#bn_addr bn#} + hs_blocks (bn_handlers bn) + id_blocks (id_nodes bn))
          (heap_free (bn_addr bn) (base_node_remove_all_handler bn H)) {#}" for bn H
    using remove_node_gives [OF base_node_remove_all_gives] by (simp add: ac_simps)
  from gives_back_join [OF handler_instances_remove_all_gives gives_back_fold [OF this]]
  show ?thesis by (simp add: loop_node_remove_all_handler_def base_blocks_def)
qed

definition data_blocks :: "esp_event_post_instance_t \<Rightarrow> nat multiset" where
  "data_blocks post = (case post_data post of Allocated a _ \<Rightarrow> {#a#} | _ \<Rightarrow> {#})"

lemma post_instance_delete_gives: "gives_back H (data_blocks post) (post_instance_delete post H) {#}"
  by (cases "post_data post") (auto simp: data_blocks_def post_instance_delete_def intro: gives_back_free)

text \<open>Every block of a loop.\<close>

definition all_blocks :: "esp_event_loop_instance_t \<Rightarrow> nat multiset" where
  "all_blocks lp = {#loop_addr lp#} + loop_blocks (loop_nodes lp) + sum_list (map data_blocks (ev_queue lp))"

lemma loop_delete_gives:
  assumes "esp_event_loop_delete lp H = (err, H')"
  shows "gives_back H (all_blocks lp) H' {#}"
proof -
  have "gives_back H ({#ln_addr ln#} + hs_blocks (ln_handlers ln) + base_blocks (base_nodes ln))
          (heap_free (ln_addr ln) (loop_node_remove_all_handler ln H)) {#}" for ln H
    using remove_node_gives [OF loop_node_remove_all_gives] by (simp add: ac_simps)
  from gives_back_join [OF gives_back_fold [OF this] gives_back_fold [OF post_instance_delete_gives]]
  show ?thesis
    using assms remove_node_gives
    by (fastforce simp: esp_event_loop_delete_def all_blocks_def loop_blocks_def ac_simps)
qed

end
