(* ===== verification/Event_Dispatch.thy ===== *)
theory Event_Dispatch
  imports Event_Heap
begin

text \<open>
  The order of dispatch.  The registrations of a loop are read off its lists in the order in which the dispatch
  walks them; an event runs those that listen to it, once each and in that order, when the handlers leave
  the loop alone.
\<close>

section \<open>Registrations in the lists\<close>

type_synonym event_key = "esp_event_base_t \<times> int"

definition listens :: "event_key \<Rightarrow> event_key \<Rightarrow> bool" where
  "listens e k \<longleftrightarrow>
     fst k = ESP_EVENT_ANY_BASE \<and> snd k = ESP_EVENT_ANY_ID \<or>
     fst k = fst e \<and> (snd k = ESP_EVENT_ANY_ID \<or> snd k = snd e)"

definition key_of :: "esp_event_post_instance_t \<Rightarrow> event_key" where
  "key_of post = (post_base post, post_id post)"

definition id_regs :: "esp_event_base_t \<Rightarrow> esp_event_id_node_t \<Rightarrow> (event_key \<times> esp_event_handler_node_t) list" where
  "id_regs b it = map (\<lambda>n. ((b, in_id it), n)) (in_handlers it)"

definition base_regs :: "esp_event_base_node_t \<Rightarrow> (event_key \<times> esp_event_handler_node_t) list" where
  "base_regs bn =
     map (\<lambda>n. ((bn_base bn, ESP_EVENT_ANY_ID), n)) (bn_handlers bn) @ concat (map (id_regs (bn_base bn)) (id_nodes bn))"

definition node_regs :: "esp_event_loop_node_t \<Rightarrow> (event_key \<times> esp_event_handler_node_t) list" where
  "node_regs ln =
     map (\<lambda>n. ((ESP_EVENT_ANY_BASE, ESP_EVENT_ANY_ID), n)) (ln_handlers ln) @ concat (map base_regs (base_nodes ln))"

definition registrations :: "esp_event_loop_instance_t \<Rightarrow> (event_key \<times> esp_event_handler_node_t) list" where
  "registrations lp = concat (map node_regs (loop_nodes lp))"

text \<open>An id occurs once in a base node, and the ids and bases in the lists are proper ones.\<close>

definition base_ok :: "esp_event_base_node_t \<Rightarrow> bool" where
  "base_ok bn \<longleftrightarrow> bn_base bn \<noteq> ESP_EVENT_ANY_BASE \<and> distinct (map in_id (id_nodes bn)) \<and>
     (\<forall>it \<in> set (id_nodes bn). in_id it \<noteq> ESP_EVENT_ANY_ID)"

definition loop_ok :: "esp_event_loop_instance_t \<Rightarrow> bool" where
  "loop_ok lp \<longleftrightarrow> (\<forall>ln \<in> set (loop_nodes lp). \<forall>bn \<in> set (base_nodes ln). base_ok bn)"

text \<open>No node has the address of another.\<close>

definition addrs_ok :: "esp_event_loop_instance_t \<Rightarrow> bool" where
  "addrs_ok lp \<longleftrightarrow> distinct (map ln_addr (loop_nodes lp)) \<and> distinct (map bn_addr (concat (base_lists lp))) \<and>
     distinct (map in_addr (concat (id_lists lp))) \<and> distinct (map hn_addr (concat (handler_lists lp)))"

section \<open>Finding a node at its address\<close>

lemma slist_first_simps [simp]: "slist_first f [] = None" "slist_first f (x # xs) = Some (f x)"
  by (simp_all add: slist_first_def)

lemma node_at_None: "a \<notin> f ` set xs \<Longrightarrow> node_at f a xs = None"
  by (induction xs) auto

lemma node_at_split:
  "distinct (map f (ys @ x # zs)) \<Longrightarrow> node_at f (f x) (ys @ x # zs) = Some (x, slist_first f zs)"
  by (induction ys) (auto split: list.splits)

lemma node_in_split:
  assumes "distinct (map f (concat xss))" and "ys @ x # zs \<in> set xss"
  shows "node_in f (f x) xss = Some (x, slist_first f zs)"
  using assms
proof (induction xss)
  case (Cons xs xss)
  show ?case
  proof (cases "xs = ys @ x # zs")
    case True
    have "distinct (map f xs)" using Cons.prems(1) by simp
    then have "distinct (map f (ys @ x # zs))" unfolding True .
    from node_at_split [OF this] show ?thesis by (simp add: True)
  next
    case False
    then have mem: "ys @ x # zs \<in> set xss" using Cons.prems(2) by simp
    have "distinct (map f (concat xss))" and disjoint: "f ` set xs \<inter> f ` set (concat xss) = {}"
      using Cons.prems(1) by simp_all
    note IH = Cons.IH [OF this(1) mem]
    have "x \<in> set (concat xss)" using mem by force
    then have "f x \<notin> f ` set xs" using disjoint by blast
    then show ?thesis by (simp add: node_at_None IH)
  qed
qed simp

section \<open>Dispatch\<close>

text \<open>Handlers that leave the loop alone.\<close>

definition quiet :: "handler_env \<Rightarrow> bool" where
  "quiet env \<longleftrightarrow> (\<forall>fn a post w. world_loop (env fn a post w) = world_loop w \<and> executed (env fn a post w) = executed w)"

definition trace :: "esp_event_post_instance_t \<Rightarrow> esp_event_handler_node_t list \<Rightarrow> (nat \<times> nat \<times> esp_event_post_instance_t) list" where
  "trace post ns = map (\<lambda>n. (ctx_handler n, ctx_arg n, post)) ns"

lemma trace_simps [simp]:
  "trace post [] = []" "trace post (n # ns) = (ctx_handler n, ctx_arg n, post) # trace post ns"
  "trace post (xs @ ys) = trace post xs @ trace post ys"
  by (simp_all add: trace_def)

definition ran :: "esp_event_post_instance_t \<Rightarrow> esp_event_handler_node_t list \<Rightarrow> ev_world \<Rightarrow> run_result option \<Rightarrow> bool" where
  "ran post ns w r \<longleftrightarrow>
     (\<exists>w'. r = Some (Finished w') \<and> world_loop w' = world_loop w \<and> executed w' = executed w @ trace post ns)"

lemma ran_Nil [simp]: "ran post [] w (Some (Finished w))"
  by (simp add: ran_def)

lemma ran_bind:
  assumes "ran post ns w r"
    and "\<And>w1. world_loop w1 = world_loop w \<Longrightarrow> ran post ms w1 (f (Finished w1))"
  shows "ran post (ns @ ms) w (Option.bind r f)"
proof -
  obtain w1 where w1: "r = Some (Finished w1)" "world_loop w1 = world_loop w" "executed w1 = executed w @ trace post ns"
    using assms(1) by (auto simp: ran_def)
  show ?thesis using assms(2) [OF w1(2)] w1 by (auto simp: ran_def)
qed

lemma run_handlers_quiet:
  assumes "quiet env" and "ys @ zs \<in> set (handler_lists (world_loop w))" and "addrs_ok (world_loop w)"
  shows "ran post zs w (run_handlers env post (slist_first hn_addr zs) w)"
  using assms(2,3)
proof (induction zs arbitrary: ys w)
  case Nil
  then show ?case by (simp add: run_handlers.simps)
next
  case (Cons z zs)
  let ?w = "handler_execute env z post w"
  have same: "world_loop ?w = world_loop w" "executed ?w = executed w @ trace post [z]"
    using assms(1) by (simp_all add: quiet_def handler_execute_def)
  have "node_in hn_addr (hn_addr z) (handler_lists (world_loop w)) = Some (z, slist_first hn_addr zs)"
    using Cons.prems by (intro node_in_split) (auto simp: addrs_ok_def)
  then have "run_handlers env post (slist_first hn_addr (z # zs)) w =
      run_handlers env post (slist_first hn_addr zs) ?w"
    by (subst run_handlers.simps) simp
  moreover have "ran post zs ?w (run_handlers env post (slist_first hn_addr zs) ?w)"
    using Cons.prems by (intro Cons.IH [of "ys @ [z]"]) (simp_all add: same)
  ultimately show ?case by (auto simp: ran_def same)
qed

lemma run_ids_quiet:
  assumes "quiet env" and "ys @ zs \<in> set (id_lists (world_loop w))" and "addrs_ok (world_loop w)"
    and "distinct (map in_id zs)"
  shows "ran post (concat (map in_handlers (filter (\<lambda>it. in_id it = post_id post) zs))) w
           (run_ids env post (slist_first in_addr zs) w)"
  using assms(2-)
proof (induction zs arbitrary: ys)
  case Nil
  then show ?case by (simp add: run_ids.simps)
next
  case (Cons z zs)
  have at: "node_in in_addr (in_addr z) (id_lists (world_loop w)) = Some (z, slist_first in_addr zs)"
    using Cons.prems by (intro node_in_split) (auto simp: addrs_ok_def)
  show ?case
  proof (cases "in_id z = post_id post")
    case True
    then have "filter (\<lambda>it. in_id it = post_id post) zs = []"
      using Cons.prems(3) by (force simp: filter_empty_conv)
    moreover have "[] @ in_handlers z \<in> set (handler_lists (world_loop w))"
      using Cons.prems(1) by (force simp: handler_lists_def)
    ultimately show ?thesis
      using run_handlers_quiet [OF assms(1) _ assms(3), of "[]" "in_handlers z"] True at
      by (subst run_ids.simps) simp
  next
    case False
    then show ?thesis
      using Cons.IH [of "ys @ [z]"] Cons.prems at
      by (subst run_ids.simps) simp
  qed
qed

text \<open>The handlers of a base node that an event runs, and those of a loop node.\<close>

definition base_runs :: "esp_event_post_instance_t \<Rightarrow> esp_event_base_node_t \<Rightarrow> esp_event_handler_node_t list" where
  "base_runs post bn =
     (if bn_base bn = post_base post
      then bn_handlers bn @ concat (map in_handlers (filter (\<lambda>it. in_id it = post_id post) (id_nodes bn))) else [])"

lemma run_base_quiet:
  assumes "quiet env" and "bns \<in> set (base_lists (world_loop w))" and "bn \<in> set bns"
    and ok: "addrs_ok (world_loop w)" and "base_ok bn"
  shows "ran post (base_runs post bn) w (run_base env post bn w)"
proof (cases "bn_base bn = post_base post")
  case True
  have handlers: "[] @ bn_handlers bn \<in> set (handler_lists (world_loop w))"
    and ids: "[] @ id_nodes bn \<in> set (id_lists (world_loop w))"
    using assms(2,3) by (auto simp: handler_lists_def id_lists_def)
  obtain ys zs where "bns = ys @ bn # zs" using assms(3) by (meson split_list)
  then have at: "node_in bn_addr (bn_addr bn) (base_lists (world_loop w)) = Some (bn, slist_first bn_addr zs)"
    using assms(2) ok by (intro node_in_split) (auto simp: addrs_ok_def)
  show ?thesis
    unfolding run_base_def base_runs_def using True
    using at assms(5) handlers ids ok
    by (simp, intro ran_bind run_handlers_quiet [OF assms(1), of "[]"])
      (auto simp: base_ok_def intro!: run_ids_quiet [OF assms(1), of "[]"])
qed (simp add: run_base_def base_runs_def)

lemma run_bases_quiet:
  assumes "quiet env" and "ys @ zs \<in> set (base_lists (world_loop w))" and "addrs_ok (world_loop w)"
    and "\<forall>bn \<in> set zs. base_ok bn"
  shows "ran post (concat (map (base_runs post) zs)) w (run_bases env post (slist_first bn_addr zs) w)"
  using assms(2-)
proof (induction zs arbitrary: ys w)
  case Nil
  then show ?case by (simp add: run_bases.simps)
next
  case (Cons z zs)
  have at: "node_in bn_addr (bn_addr z) (base_lists (world_loop w)) = Some (z, slist_first bn_addr zs)"
    using Cons.prems by (intro node_in_split) (auto simp: addrs_ok_def)
  have "ran post (base_runs post z @ concat (map (base_runs post) zs)) w
     (Option.bind (run_base env post z w)
        (\<lambda>r. case r of Use_after_free x \<Rightarrow> Some (Use_after_free x)
                     | Finished w1 \<Rightarrow> run_bases env post (slist_first bn_addr zs) w1))"
    using Cons.prems Cons.IH [of "ys @ [z]"]
    by (intro ran_bind run_base_quiet [OF assms(1)]) auto
  then show ?case using at by (subst run_bases.simps) simp
qed

definition node_runs :: "esp_event_post_instance_t \<Rightarrow> esp_event_loop_node_t \<Rightarrow> esp_event_handler_node_t list" where
  "node_runs post ln = ln_handlers ln @ concat (map (base_runs post) (base_nodes ln))"

lemma run_loop_nodes_quiet:
  assumes "quiet env" and "ys @ zs = loop_nodes (world_loop w)" and "addrs_ok (world_loop w)" and "loop_ok (world_loop w)"
  shows "ran post (concat (map (node_runs post) zs)) w (run_loop_nodes env post (slist_first ln_addr zs) w)"
  using assms(2-)
proof (induction zs arbitrary: ys w)
  case Nil
  then show ?case by (simp add: run_loop_nodes.simps)
next
  case (Cons z zs)
  let ?lp = "world_loop w"
  have at: "node_at ln_addr (ln_addr z) (loop_nodes ?lp) = Some (z, slist_first ln_addr zs)"
    using node_at_split [of ln_addr ys z zs] Cons.prems by (simp add: addrs_ok_def)
  have mem: "z \<in> set (loop_nodes ?lp)" using Cons.prems(1) [symmetric] by simp
  then have handlers: "[] @ ln_handlers z \<in> set (handler_lists ?lp)" and bases: "[] @ base_nodes z \<in> set (base_lists ?lp)"
    by (auto simp: handler_lists_def base_lists_def)
  have one: "ran post (node_runs post z) w (run_loop_node env post z w)"
    unfolding run_loop_node_def node_runs_def
    using handlers bases Cons.prems at mem
    by (intro ran_bind run_handlers_quiet [OF assms(1), of "[]"])
      (auto simp: loop_ok_def intro!: run_bases_quiet [OF assms(1), of "[]"])
  have "ran post (node_runs post z @ concat (map (node_runs post) zs)) w
     (Option.bind (run_loop_node env post z w)
        (\<lambda>r. case r of Use_after_free x \<Rightarrow> Some (Use_after_free x)
                     | Finished w1 \<Rightarrow> run_loop_nodes env post (slist_first ln_addr zs) w1))"
    using Cons.prems Cons.IH [of "ys @ [z]"] by (intro ran_bind one) auto
  then show ?case using at by (subst run_loop_nodes.simps) simp
qed

section \<open>What runs are the registrations that listen\<close>

definition listening :: "event_key \<Rightarrow> esp_event_loop_instance_t \<Rightarrow> esp_event_handler_node_t list" where
  "listening e lp = map snd (filter (\<lambda>r. listens e (fst r)) (registrations lp))"

lemma filter_map_const: "map snd (filter (\<lambda>r. P (fst r)) (map (\<lambda>n. (k, n)) ns)) = (if P k then ns else [])"
  by (induction ns) auto

lemma listens_simps:
  "listens e (ESP_EVENT_ANY_BASE, ESP_EVENT_ANY_ID)"
  "b \<noteq> ESP_EVENT_ANY_BASE \<Longrightarrow> listens (key_of post) (b, ESP_EVENT_ANY_ID) \<longleftrightarrow> b = post_base post"
  "b \<noteq> ESP_EVENT_ANY_BASE \<Longrightarrow> i \<noteq> ESP_EVENT_ANY_ID \<Longrightarrow>
     listens (key_of post) (b, i) \<longleftrightarrow> b = post_base post \<and> i = post_id post"
  by (auto simp: listens_def key_of_def)

lemma base_runs_regs:
  assumes "base_ok bn"
  shows "map snd (filter (\<lambda>r. listens (key_of post) (fst r)) (base_regs bn)) = base_runs post bn"
proof -
  have base: "bn_base bn \<noteq> ESP_EVENT_ANY_BASE" using assms by (simp add: base_ok_def)
  have "map snd (filter (\<lambda>r. listens (key_of post) (fst r)) (concat (map (id_regs (bn_base bn)) its))) =
     (if bn_base bn = post_base post then concat (map in_handlers (filter (\<lambda>it. in_id it = post_id post) its)) else [])"
    if "\<forall>it \<in> set its. in_id it \<noteq> ESP_EVENT_ANY_ID" for its
    using that by (induction its) (simp_all add: id_regs_def filter_map_const listens_simps base)
  then show ?thesis using assms
    by (simp add: base_regs_def base_runs_def filter_map_const listens_simps base base_ok_def)
qed

lemma listening_runs:
  assumes "loop_ok lp"
  shows "listening (key_of post) lp = concat (map (node_runs post) (loop_nodes lp))"
proof -
  have bases: "map snd (filter (\<lambda>r. listens (key_of post) (fst r)) (concat (map base_regs bns))) =
      concat (map (base_runs post) bns)" if "\<forall>bn \<in> set bns. base_ok bn" for bns
    using that by (induction bns) (simp_all add: base_runs_regs)
  have "map snd (filter (\<lambda>r. listens (key_of post) (fst r)) (concat (map node_regs lns))) =
      concat (map (node_runs post) lns)" if "\<forall>ln \<in> set lns. \<forall>bn \<in> set (base_nodes ln). base_ok bn" for lns
    using that
    by (induction lns) (simp_all add: node_regs_def node_runs_def bases filter_map_const listens_simps comp_def)
  then show ?thesis using assms by (simp add: listening_def registrations_def loop_ok_def)
qed

lemma dispatch_quiet:
  assumes "quiet env" and "addrs_ok (world_loop w)" and "loop_ok (world_loop w)"
  shows "ran post (listening (key_of post) (world_loop w)) w (dispatch env post w)"
  unfolding dispatch_def listening_runs [OF assms(3)]
  by (rule run_loop_nodes_quiet [OF assms(1) _ assms(2,3), of "[]"]) simp

end
