(* ===== verification/Event_Order.thy ===== *)
theory Event_Order
  imports Event_Dispatch
begin

text \<open>
  Registration keeps the order: the lists of a loop hold the registrations so that, for every event, those
  that listen to it lie in the order in which they were made.  A new one is placed before others only when
  no event concerns both; an unregistration takes out one and moves none.
\<close>

abbreviation proper :: "event_key \<Rightarrow> bool" where
  "proper e \<equiv> fst e \<noteq> ESP_EVENT_ANY_BASE \<and> snd e \<noteq> ESP_EVENT_ANY_ID"

type_synonym regs = "(event_key \<times> esp_event_handler_node_t) list"

section \<open>A new registration\<close>

definition apart :: "event_key \<Rightarrow> event_key \<Rightarrow> bool" where
  "apart k k' \<longleftrightarrow> (\<forall>e. proper e \<longrightarrow> \<not> (listens e k \<and> listens e k'))"

definition adds :: "event_key \<Rightarrow> esp_event_handler_node_t \<Rightarrow> regs \<Rightarrow> regs \<Rightarrow> bool" where
  "adds k n R R' \<longleftrightarrow> (\<exists>ys zs. R = ys @ zs \<and> R' = ys @ (k, n) # zs \<and> (\<forall>x \<in> set zs. apart k (fst x)))"

lemma adds_end [intro]: "adds k n R (R @ [(k, n)])"
  by (force simp: adds_def)

lemma adds_after: "adds k n R R' \<Longrightarrow> adds k n (A @ R) (A @ R')"
  unfolding adds_def by (metis append.assoc)

lemma adds_before: "adds k n R R' \<Longrightarrow> \<forall>x \<in> set B. apart k (fst x) \<Longrightarrow> adds k n (R @ B) (R' @ B)"
  unfolding adds_def by (metis UnE append.assoc append_Cons set_append)

lemma adds_filter:
  assumes "adds k n R R'" and "proper e"
  shows "filter (\<lambda>r. listens e (fst r)) R' = filter (\<lambda>r. listens e (fst r)) R @ (if listens e k then [(k, n)] else [])"
proof -
  obtain ys zs where R: "R = ys @ zs" "R' = ys @ (k, n) # zs" "\<forall>x \<in> set zs. apart k (fst x)"
    using assms(1) by (auto simp: adds_def)
  have "filter (\<lambda>r. listens e (fst r)) zs = []" if "listens e k"
    using R(3) that assms(2) by (force simp: apart_def filter_empty_conv)
  then show ?thesis by (simp add: R(1,2))
qed

text \<open>The node that a registration leaves in the lists.\<close>

definition made :: "nat \<Rightarrow> nat \<Rightarrow> nat option \<Rightarrow> esp_event_handler_node_t \<Rightarrow> bool" where
  "made fn a c n \<longleftrightarrow> c = Some (handler_ctx n) \<and> ctx_handler n = fn \<and> ctx_arg n = a"

lemma adds_made [intro]: "made fn a c n \<Longrightarrow> \<exists>m. made fn a c m \<and> adds k m R (R @ [(k, n)])"
  by blast

lemma adds_Nil [simp]: "adds k n [] R \<longleftrightarrow> R = [(k, n)]"
  by (auto simp: adds_def)

lemma handler_instances_add_made:
  assumes "handler_instances_add hs fn a False H = (ESP_OK, hs', c, H')"
  shows "\<exists>n. hs' = hs @ [n] \<and> made fn a c n"
  using assms by (auto simp: handler_instances_add_def made_def split: option.splits prod.splits)

lemma apart_ids: "b \<noteq> ESP_EVENT_ANY_BASE \<Longrightarrow> i \<noteq> j \<Longrightarrow> i \<noteq> ESP_EVENT_ANY_ID \<Longrightarrow> j \<noteq> ESP_EVENT_ANY_ID \<Longrightarrow> apart (b, i) (b, j)"
  by (auto simp: apart_def listens_def)

lemma apart_bases: "b \<noteq> b' \<Longrightarrow> b \<noteq> ESP_EVENT_ANY_BASE \<Longrightarrow> b' \<noteq> ESP_EVENT_ANY_BASE \<Longrightarrow> apart (b, i) (b', j)"
  by (auto simp: apart_def listens_def)

lemma fst_base_regs: "x \<in> set (base_regs bn) \<Longrightarrow> fst (fst x) = bn_base bn"
  by (auto simp: base_regs_def id_regs_def)

lemma base_node_add_handler_adds:
  assumes "base_node_add_handler bn i fn a False H = (ESP_OK, bn', c, H')"
    and ok: "base_ok bn" and "i = ESP_EVENT_ANY_ID \<Longrightarrow> id_nodes bn = []"
  shows "base_ok bn' \<and> bn_base bn' = bn_base bn \<and>
         (\<exists>n. made fn a c n \<and> adds (bn_base bn, i) n (base_regs bn) (base_regs bn'))"
proof (cases "i = ESP_EVENT_ANY_ID")
  case True
  then show ?thesis using assms
    by (auto simp: base_node_add_handler_def base_regs_def base_ok_def split: prod.splits
        dest!: handler_instances_add_made)
next
  case False
  show ?thesis
  proof (cases "split_last (\<lambda>it. in_id it = i) (id_nodes bn)")
    case None
    then have new: "\<forall>it \<in> set (id_nodes bn). in_id it \<noteq> i" by (rule split_last_Some)
    obtain m hs where bn': "bn' = bn\<lparr>id_nodes := id_nodes bn @ [\<lparr>in_addr = m, in_id = i, in_handlers = hs\<rparr>]\<rparr>"
      and "\<exists>n. hs = [n] \<and> made fn a c n"
      using assms(1) None False
      by (auto simp: base_node_add_handler_def Let_def split: prod.splits option.splits if_splits
          dest!: handler_instances_add_made)
    then obtain n where "hs = [n]" "made fn a c n" by blast
    then show ?thesis
      using new ok False bn' adds_end [of "(bn_base bn, i)" n "base_regs bn"]
      by (auto simp: base_regs_def id_regs_def base_ok_def)
  next
    case (Some x)
    obtain ys it zs where x: "x = (ys, it, zs)" by (cases x)
    note at = split_last_Some(1) [OF Some [unfolded x]]
    obtain n where bn': "bn' = bn\<lparr>id_nodes := ys @ it\<lparr>in_handlers := in_handlers it @ [n]\<rparr> # zs\<rparr>" and n: "made fn a c n"
      using assms(1) Some x False
      by (auto simp: base_node_add_handler_def split: prod.splits dest!: handler_instances_add_made)
    have "adds (bn_base bn, i) n (id_regs (bn_base bn) it @ concat (map (id_regs (bn_base bn)) zs))
        ((id_regs (bn_base bn) it @ [((bn_base bn, i), n)]) @ concat (map (id_regs (bn_base bn)) zs))"
      using at ok by (intro adds_before adds_end) (auto simp: base_ok_def id_regs_def intro!: apart_ids)
    from adds_after [OF this, of "map (\<lambda>n. ((bn_base bn, ESP_EVENT_ANY_ID), n)) (bn_handlers bn) @ concat (map (id_regs (bn_base bn)) ys)"]
    have "adds (bn_base bn, i) n (base_regs bn) (base_regs bn')"
      using at bn' by (simp add: base_regs_def id_regs_def)
    then show ?thesis using at n ok bn' by (auto simp: base_ok_def)
  qed
qed

definition node_ok :: "esp_event_loop_node_t \<Rightarrow> bool" where
  "node_ok ln \<longleftrightarrow> (\<forall>bn \<in> set (base_nodes ln). base_ok bn)"

lemma loop_node_add_handler_adds:
  assumes "loop_node_add_handler ln b i fn a False H = (ESP_OK, ln', c, H')"
    and ok: "node_ok ln" and "b = ESP_EVENT_ANY_BASE \<Longrightarrow> i = ESP_EVENT_ANY_ID \<and> base_nodes ln = []"
  shows "node_ok ln' \<and> (\<exists>n. made fn a c n \<and> adds (b, i) n (node_regs ln) (node_regs ln'))"
proof (cases "b = ESP_EVENT_ANY_BASE")
  case True
  then show ?thesis using assms
    by (auto simp: loop_node_add_handler_def node_regs_def node_ok_def split: prod.splits
        dest!: handler_instances_add_made)
next
  case False
  let ?new = "\<lambda>m. \<lparr>bn_addr = m, bn_base = b, bn_handlers = [], id_nodes = []\<rparr>"
  have fresh: ?thesis if bn: "base_node_add_handler (?new m) i fn a False H1 = (ESP_OK, bn, c, H2)"
      and ln': "ln' = ln\<lparr>base_nodes := base_nodes ln @ [bn]\<rparr>" for m H1 bn H2
  proof -
    have "base_ok bn \<and> (\<exists>n. made fn a c n \<and> adds (b, i) n [] (base_regs bn))"
      using base_node_add_handler_adds [OF bn] False
      by (simp add: base_ok_def [of "?new m"] base_regs_def [of "?new m"])
    then show ?thesis using ok
      by (auto simp: ln' node_ok_def node_regs_def simp flip: append_assoc)
  qed
  show ?thesis
  proof (cases "split_last (\<lambda>it. bn_base it = b) (base_nodes ln)")
    case None
    then obtain m H1 bn' where "base_node_add_handler (?new m) i fn a False H1 = (ESP_OK, bn', c, H')"
      and "ln' = ln\<lparr>base_nodes := base_nodes ln @ [bn']\<rparr>"
      using assms(1) False
      by (auto simp: loop_node_add_handler_def Let_def split: prod.splits option.splits if_splits)
    then show ?thesis by (rule fresh)
  next
    case (Some x)
    obtain ys bn zs where x: "x = (ys, bn, zs)" by (cases x)
    note at = split_last_Some(1) [OF Some [unfolded x]]
    let ?P = "(id_nodes bn \<noteq> [] \<and> i = ESP_EVENT_ANY_ID) \<or>
        (bn_base (last (base_nodes ln)) \<noteq> b \<and> id_nodes (last (base_nodes ln)) \<noteq> [] \<and> i = ESP_EVENT_ANY_ID)"
    show ?thesis
    proof (cases ?P)
      case True
      then obtain m H1 bn' where "base_node_add_handler (?new m) i fn a False H1 = (ESP_OK, bn', c, H')"
        and "ln' = ln\<lparr>base_nodes := base_nodes ln @ [bn']\<rparr>"
        using assms(1) False Some x
        by (simp add: loop_node_add_handler_def Let_def split: prod.splits option.splits if_splits)
      then show ?thesis by (rule fresh)
    next
      case P: False
      obtain bn' H1 where bn': "base_node_add_handler bn i fn a False H = (ESP_OK, bn', c, H1)"
        and ln': "ln' = ln\<lparr>base_nodes := ys @ bn' # zs\<rparr>"
        using assms(1) False Some x P by (auto simp: loop_node_add_handler_def Let_def split: prod.splits)
      obtain n where n: "base_ok bn'" "bn_base bn' = b" "made fn a c n" "adds (b, i) n (base_regs bn) (base_regs bn')"
        using base_node_add_handler_adds [OF bn'] at ok P by (auto simp: node_ok_def)
      have "adds (b, i) n (base_regs bn @ concat (map base_regs zs)) (base_regs bn' @ concat (map base_regs zs))"
        using at ok False
        by (intro adds_before n(4)) (force simp: node_ok_def base_ok_def dest!: fst_base_regs intro!: apart_bases)
      from adds_after [OF this, of "map (\<lambda>n. ((ESP_EVENT_ANY_BASE, ESP_EVENT_ANY_ID), n)) (ln_handlers ln) @ concat (map base_regs ys)"]
      have "adds (b, i) n (node_regs ln) (node_regs ln')"
        using at ln' by (simp add: node_regs_def)
      then show ?thesis using n ok at by (auto simp: ln' node_ok_def)
    qed
  qed
qed

lemma register_adds:
  assumes "esp_event_handler_register_with_internal lp b i fn a False H = (ESP_OK, c, lp', H')"
    and ok: "loop_ok lp"
  shows "loop_ok lp' \<and> (\<exists>n. made fn a c n \<and> adds (b, i) n (registrations lp) (registrations lp'))"
proof -
  have key: "b = ESP_EVENT_ANY_BASE \<Longrightarrow> i = ESP_EVENT_ANY_ID"
    using assms(1) by (auto simp: esp_event_handler_register_with_internal_def split: if_splits)
  let ?new = "\<lambda>m. \<lparr>ln_addr = m, ln_handlers = [], base_nodes = []\<rparr>"
  have fresh: ?thesis if ln: "loop_node_add_handler (?new m) b i fn a False H1 = (ESP_OK, ln, c, H2)"
      and lp': "lp' = lp\<lparr>loop_nodes := loop_nodes lp @ [ln]\<rparr>" for m H1 ln H2
  proof -
    have "node_ok ln \<and> (\<exists>n. made fn a c n \<and> adds (b, i) n [] (node_regs ln))"
      using loop_node_add_handler_adds [OF ln] key by (simp add: node_ok_def node_regs_def)
    then show ?thesis using ok
      by (auto simp: lp' node_ok_def loop_ok_def registrations_def)
  qed
  show ?thesis
  proof (cases "loop_nodes lp = [] \<or> base_nodes (last (loop_nodes lp)) \<noteq> [] \<and> b = ESP_EVENT_ANY_BASE \<and> i = ESP_EVENT_ANY_ID")
    case True
    then obtain m H1 ln where "loop_node_add_handler (?new m) b i fn a False H1 = (ESP_OK, ln, c, H')"
      and "lp' = lp\<lparr>loop_nodes := loop_nodes lp @ [ln]\<rparr>"
      using assms(1)
      by (auto simp: esp_event_handler_register_with_internal_def Let_def split: prod.splits option.splits if_splits)
    then show ?thesis by (rule fresh)
  next
    case False
    let ?ln = "last (loop_nodes lp)" and ?lns = "butlast (loop_nodes lp)"
    have lns: "loop_nodes lp = ?lns @ [?ln]" using False by simp
    obtain ln H1 where ln: "loop_node_add_handler ?ln b i fn a False H = (ESP_OK, ln, c, H1)"
      and lp': "lp' = lp\<lparr>loop_nodes := ?lns @ [ln]\<rparr>"
      using assms(1) False
      by (auto simp: esp_event_handler_register_with_internal_def Let_def split: prod.splits if_splits)
    have oks: "node_ok ?ln" "\<forall>ln \<in> set ?lns. node_ok ln"
      using ok False by (auto simp: loop_ok_def node_ok_def dest: in_set_butlastD)
    obtain n where n: "node_ok ln" "made fn a c n" "adds (b, i) n (node_regs ?ln) (node_regs ln)"
      using loop_node_add_handler_adds [OF ln oks(1)] key False by blast
    have "registrations lp = concat (map node_regs ?lns) @ node_regs ?ln"
      by (subst registrations_def, subst lns) simp
    then have "adds (b, i) n (registrations lp) (registrations lp')"
      using adds_after [OF n(3), of "concat (map node_regs ?lns)"] by (simp add: lp' registrations_def)
    then show ?thesis using n oks by (auto simp: lp' loop_ok_def node_ok_def)
  qed
qed

end
