(* ===== verification/Event_Remove.thy ===== *)
theory Event_Remove
  imports Event_Order
begin

text \<open>
  Unregistration of an instance takes its registration out of the lists and leaves the others where they are,
  since a context belongs to one registration.
\<close>

section \<open>Registrations that stay\<close>

definition stays :: "event_key \<Rightarrow> nat \<Rightarrow> event_key \<times> esp_event_handler_node_t \<Rightarrow> bool" where
  "stays k c r \<longleftrightarrow> \<not> (fst r = k \<and> handler_ctx (snd r) = c)"

definition ctxs :: "regs \<Rightarrow> nat list" where
  "ctxs R = map (\<lambda>r. handler_ctx (snd r)) R"

lemma ctxs_simps [simp]:
  "ctxs [] = []" "ctxs (r # R) = handler_ctx (snd r) # ctxs R" "ctxs (A @ B) = ctxs A @ ctxs B"
  "ctxs (map (\<lambda>n. (k, n)) ns) = map handler_ctx ns"
  by (simp_all add: ctxs_def)

lemma ctxs_mem: "r \<in> set R \<Longrightarrow> handler_ctx (snd r) \<in> set (ctxs R)"
  by (auto simp: ctxs_def)

text \<open>A context that one part of the lists has is not in another part.\<close>

lemma all_stay:
  assumes "distinct (ctxs (A @ B))" and "c \<in> set (ctxs A)"
  shows "filter (stays k c) B = B"
proof -
  have "c \<notin> set (ctxs B)" using assms by auto
  then show ?thesis by (auto simp: filter_id_conv stays_def dest: ctxs_mem)
qed

lemma other_keys_stay: "\<forall>r \<in> set B. fst r \<noteq> k \<Longrightarrow> filter (stays k c) B = B"
  by (auto simp: filter_id_conv stays_def)

lemma stays_handlers:
  "filter (stays k c) (map (\<lambda>n. (k', n)) ns) = map (\<lambda>n. (k', n)) (if k' = k then filter (\<lambda>n. handler_ctx n \<noteq> c) ns else ns)"
  by (induction ns) (auto simp: stays_def)

section \<open>The removal functions\<close>

lemma handler_instances_remove_stays:
  assumes "handler_instances_remove (Instance c) hs H = (err, hs', H')" and "distinct (map handler_ctx hs)"
  shows "hs' = filter (\<lambda>n. handler_ctx n \<noteq> c) hs \<and> (err = ESP_OK \<longrightarrow> c \<in> handler_ctx ` set hs)"
  using assms
proof (induction "Instance c" hs H arbitrary: err hs' H' rule: handler_instances_remove.induct)
  case (2 n ns H)
  show ?case
  proof (cases "handler_ctx n = c")
    case True
    then have "c \<notin> handler_ctx ` set ns" using 2(3) by auto
    then have "filter (\<lambda>m. handler_ctx m \<noteq> c) ns = ns" by (intro filter_True) blast
    then show ?thesis using 2(2) True by (auto simp: removes_def)
  next
    case False
    then show ?thesis using 2 by (auto simp: removes_def split: prod.splits)
  qed
qed auto

lemma remove_from_ids_stays:
  assumes "remove_from_ids i (Instance c) its H = (err, its', H')"
    and "distinct (ctxs (concat (map (id_regs b) its)))"
  shows "concat (map (id_regs b) its') = filter (stays (b, i) c) (concat (map (id_regs b) its)) \<and>
         (err = ESP_OK \<longrightarrow> c \<in> set (ctxs (concat (map (id_regs b) its)))) \<and>
         set (map in_id its') \<subseteq> set (map in_id its) \<and> (distinct (map in_id its) \<longrightarrow> distinct (map in_id its'))"
  using assms
proof (induction i "Instance c" its H arbitrary: err its' H' rule: remove_from_ids.induct)
  case (2 i it its H)
  obtain res hs H1 where step: "(if in_id it = i then handler_instances_remove (Instance c) (in_handlers it) H
      else (ESP_ERR_NOT_FOUND, in_handlers it, H)) = (res, hs, H1)" by (metis prod_cases3)
  have hs: "id_regs b (it\<lparr>in_handlers := hs\<rparr>) = filter (stays (b, i) c) (id_regs b it)"
    and res: "res = ESP_OK \<Longrightarrow> c \<in> set (ctxs (id_regs b it))"
    using step 2(3)
    by (auto simp: id_regs_def stays_handlers split: if_splits dest!: handler_instances_remove_stays)
  show ?case
  proof (cases "res = ESP_OK \<and> hs = []")
    case True
    then have found: "c \<in> set (ctxs (id_regs b it))" using res by simp
    have "filter (stays (b, i) c) (concat (map (id_regs b) its)) = concat (map (id_regs b) its)"
      using 2(3) found by (intro all_stay [of "id_regs b it"]) auto
    moreover have "filter (stays (b, i) c) (id_regs b it) = []" using hs True by (simp add: id_regs_def)
    moreover have "its' = its" using 2(2) step True by auto
    ultimately show ?thesis using found by auto
  next
    case False
    obtain its2 H2 where rest: "remove_from_ids i (Instance c) its H1 = (err, its2, H2)" "its' = it\<lparr>in_handlers := hs\<rparr> # its2"
      using 2(2) step False by (auto split: prod.splits)
    show ?thesis using 2(1) [OF step [symmetric] refl refl False rest(1)] 2(3) hs rest(2) by auto
  qed
qed auto

lemma base_node_remove_stays:
  assumes "base_node_remove_handler bn i (Instance c) H = (err, bn', H')"
    and "distinct (ctxs (base_regs bn))" and "base_ok bn"
  shows "base_regs bn' = filter (stays (bn_base bn, i) c) (base_regs bn) \<and> base_ok bn' \<and> bn_base bn' = bn_base bn \<and>
         (err = ESP_OK \<longrightarrow> c \<in> set (ctxs (base_regs bn)))"
proof (cases "i = ESP_EVENT_ANY_ID")
  case True
  obtain hs where bn': "bn' = bn\<lparr>bn_handlers := hs\<rparr>" and hs: "handler_instances_remove (Instance c) (bn_handlers bn) H = (err, hs, H')"
    using assms(1) True by (auto simp: base_node_remove_handler_def split: prod.splits)
  have "filter (stays (bn_base bn, i) c) (concat (map (id_regs (bn_base bn)) (id_nodes bn))) =
      concat (map (id_regs (bn_base bn)) (id_nodes bn))"
    using assms(3) True by (intro other_keys_stay) (auto simp: id_regs_def base_ok_def)
  then show ?thesis
    using handler_instances_remove_stays [OF hs] assms True
    by (auto simp: bn' base_regs_def stays_handlers base_ok_def)
next
  case False
  obtain its where bn': "bn' = bn\<lparr>id_nodes := its\<rparr>" and its: "remove_from_ids i (Instance c) (id_nodes bn) H = (err, its, H')"
    using assms(1) False by (auto simp: base_node_remove_handler_def split: prod.splits)
  show ?thesis
    using remove_from_ids_stays [OF its, of "bn_base bn"] assms False
    by (auto simp: bn' base_regs_def stays_handlers base_ok_def)
qed

lemma remove_from_bases_stays:
  assumes "remove_from_bases b i (Instance c) bns H = (err, bns', H')"
    and "distinct (ctxs (concat (map base_regs bns)))" and "\<forall>bn \<in> set bns. base_ok bn"
  shows "concat (map base_regs bns') = filter (stays (b, i) c) (concat (map base_regs bns)) \<and>
         (err = ESP_OK \<longrightarrow> c \<in> set (ctxs (concat (map base_regs bns)))) \<and>
         (\<forall>bn \<in> set bns'. base_ok bn)"
  using assms
proof (induction b i "Instance c" bns H arbitrary: err bns' H' rule: remove_from_bases.induct)
  case (2 b i it its H)
  obtain res bn H1 where step: "(if bn_base it = b then base_node_remove_handler it i (Instance c) H
      else (ESP_ERR_NOT_FOUND, it, H)) = (res, bn, H1)" by (metis prod_cases3)
  have other: "bn_base it \<noteq> b \<Longrightarrow> filter (stays (b, i) c) (base_regs it) = base_regs it"
    by (intro other_keys_stay) (auto dest: fst_base_regs)
  have bn: "base_regs bn = filter (stays (b, i) c) (base_regs it)" "base_ok bn"
    and res: "res = ESP_OK \<Longrightarrow> c \<in> set (ctxs (base_regs it))"
    using step 2(3,4) other by (auto split: if_splits dest!: base_node_remove_stays)
  show ?case
  proof (cases "res = ESP_OK \<and> bn_handlers bn = [] \<and> id_nodes bn = []")
    case True
    have "filter (stays (b, i) c) (concat (map base_regs its)) = concat (map base_regs its)"
      using 2(3) res True by (intro all_stay [of "base_regs it"]) auto
    moreover have "filter (stays (b, i) c) (base_regs it) = []" using bn(1) True by (simp add: base_regs_def)
    moreover have "bns' = its" using 2(2) step True by auto
    ultimately show ?thesis using res True 2(4) by auto
  next
    case False
    obtain its2 H2 where rest: "remove_from_bases b i (Instance c) its H1 = (err, its2, H2)" "bns' = bn # its2"
      using 2(2) step False by (auto split: prod.splits if_splits)
    show ?thesis using 2(1) [OF step [symmetric] refl refl False rest(1)] 2(3,4) bn rest(2) by auto
  qed
qed auto

lemma loop_node_remove_stays:
  assumes "loop_node_remove_handler ln b i (Instance c) H = (err, ln', H')"
    and "distinct (ctxs (node_regs ln))" and "node_ok ln" and "b = ESP_EVENT_ANY_BASE \<Longrightarrow> i = ESP_EVENT_ANY_ID"
  shows "node_regs ln' = filter (stays (b, i) c) (node_regs ln) \<and> node_ok ln' \<and>
         (err = ESP_OK \<longrightarrow> c \<in> set (ctxs (node_regs ln)))"
proof (cases "b = ESP_EVENT_ANY_BASE")
  case True
  obtain hs where ln': "ln' = ln\<lparr>ln_handlers := hs\<rparr>" and hs: "handler_instances_remove (Instance c) (ln_handlers ln) H = (err, hs, H')"
    using assms(1,4) True by (auto simp: loop_node_remove_handler_def split: prod.splits)
  have "filter (stays (b, i) c) (concat (map base_regs (base_nodes ln))) = concat (map base_regs (base_nodes ln))"
    using assms(3) True
    by (intro other_keys_stay) (force simp: node_ok_def base_ok_def dest!: fst_base_regs)
  then show ?thesis
    using handler_instances_remove_stays [OF hs] assms True
    by (auto simp: ln' node_regs_def stays_handlers node_ok_def)
next
  case False
  obtain bns where ln': "ln' = ln\<lparr>base_nodes := bns\<rparr>" and bns: "remove_from_bases b i (Instance c) (base_nodes ln) H = (err, bns, H')"
    using assms(1) False by (auto simp: loop_node_remove_handler_def split: prod.splits)
  show ?thesis
    using remove_from_bases_stays [OF bns] assms False
    by (auto simp: ln' node_regs_def stays_handlers node_ok_def)
qed

lemma remove_from_loops_stays:
  assumes "remove_from_loops b i (Instance c) lns H = (lns', H')"
    and "distinct (ctxs (concat (map node_regs lns)))" and "\<forall>ln \<in> set lns. node_ok ln"
    and "b = ESP_EVENT_ANY_BASE \<Longrightarrow> i = ESP_EVENT_ANY_ID"
  shows "concat (map node_regs lns') = filter (stays (b, i) c) (concat (map node_regs lns)) \<and> (\<forall>ln \<in> set lns'. node_ok ln)"
  using assms
proof (induction b i "Instance c" lns H arbitrary: lns' H' rule: remove_from_loops.induct)
  case (2 b i it its H)
  obtain res ln H1 where step: "loop_node_remove_handler it b i (Instance c) H = (res, ln, H1)" by (metis prod_cases3)
  have ln: "node_regs ln = filter (stays (b, i) c) (node_regs it)" "node_ok ln"
    and res: "res = ESP_OK \<Longrightarrow> c \<in> set (ctxs (node_regs it))"
    using loop_node_remove_stays [OF step] 2(3-5) by auto
  show ?case
  proof (cases "res = ESP_OK \<and> base_nodes ln = [] \<and> ln_handlers ln = []")
    case True
    have "filter (stays (b, i) c) (concat (map node_regs its)) = concat (map node_regs its)"
      using 2(3) res True by (intro all_stay [of "node_regs it"]) auto
    moreover have "filter (stays (b, i) c) (node_regs it) = []" using ln(1) True by (simp add: node_regs_def)
    moreover have "lns' = its" using 2(2) step True by auto
    ultimately show ?thesis using 2(4) by auto
  next
    case False
    obtain its2 H2 where rest: "remove_from_loops b i (Instance c) its H1 = (its2, H2)" "lns' = ln # its2"
      using 2(2) step False by (auto split: prod.splits if_splits)
    show ?thesis using 2(1) [OF step [symmetric] refl refl False rest(1)] 2(3-5) ln rest(2) by auto
  qed
qed auto

lemma unregister_stays:
  assumes "esp_event_handler_unregister_with_internal lp b i (Instance c) H = (ESP_OK, lp', H')"
    and "distinct (ctxs (registrations lp))" and "loop_ok lp"
  shows "registrations lp' = filter (stays (b, i) c) (registrations lp) \<and> loop_ok lp'"
  using assms remove_from_loops_stays [of b i c "loop_nodes lp" H]
  by (auto simp: esp_event_handler_unregister_with_internal_def registrations_def loop_ok_def node_ok_def
      split: prod.splits if_splits)

end
