(* ===== verification/Event_Session.thy ===== *)
theory Event_Session
  imports Event_Remove
begin

text \<open>
  Sequences of calls on a loop.  The memory of the loop through any calls; and what a client may expect
  of them, a specification that knows only the calls and what they returned.
\<close>

section \<open>Calls\<close>

datatype ev_call =
    Register esp_event_base_t int nat nat
  | Register_legacy esp_event_base_t int nat nat
  | Unregister esp_event_base_t int "nat option"
  | Unregister_legacy esp_event_base_t int nat
  | Post esp_event_base_t int "byte list option"
  | Isr_post esp_event_base_t int "byte list option" nat

type_synonym ev_result = "esp_err_t \<times> nat option"

text \<open>Posts do not wait for room in the queue.\<close>

fun do_call ::
  "nat \<Rightarrow> ev_call \<Rightarrow> esp_event_loop_instance_t \<times> block_heap \<Rightarrow> ev_result \<times> esp_event_loop_instance_t \<times> block_heap" where
  "do_call me (Register b i fn a) (lp, H) =
     (let (err, c, lp', H') = esp_event_handler_instance_register_with lp b i fn a H in ((err, c), lp', H'))"
| "do_call me (Register_legacy b i fn a) (lp, H) =
     (let (err, c, lp', H') = esp_event_handler_register_with lp b i fn a H in ((err, None), lp', H'))"
| "do_call me (Unregister b i c) (lp, H) =
     (let (err, lp', H') = esp_event_handler_instance_unregister_with lp b i c H in ((err, None), lp', H'))"
| "do_call me (Unregister_legacy b i fn) (lp, H) =
     (let (err, lp', H') = esp_event_handler_unregister_with lp b i fn H in ((err, None), lp', H'))"
| "do_call me (Post b i d) (lp, H) =
     (let (err, lp', H') = esp_event_post_to (\<lambda>_ lp. lp) True me lp b i d 0 H in ((err, None), lp', H'))"
| "do_call me (Isr_post b i d n) (lp, H) =
     (let (err, lp') = esp_event_isr_post_to lp b i d n in ((err, None), lp', H))"

fun do_calls ::
  "nat \<Rightarrow> ev_call list \<Rightarrow> esp_event_loop_instance_t \<times> block_heap
     \<Rightarrow> ev_result list \<times> esp_event_loop_instance_t \<times> block_heap" where
  "do_calls me [] s = ([], s)"
| "do_calls me (c # cs) s = (let (r, s1) = do_call me c s; (rs, s2) = do_calls me cs s1 in (r # rs, s2))"

section \<open>Memory through calls\<close>

text \<open>The loop owns its blocks, and the rest of the heap is \<open>R\<close>.\<close>

definition owns :: "nat multiset \<Rightarrow> esp_event_loop_instance_t \<times> block_heap \<Rightarrow> bool" where
  "owns R s \<longleftrightarrow> heap_ok (snd s) \<and> \<not> bad_free (snd s) \<and> mset (live (snd s)) = all_blocks (fst s) + R"

lemma owns_moves:
  assumes "owns R (lp, H)" and "moves H (all_blocks lp) H' (all_blocks lp')"
  shows "owns R (lp', H')"
proof -
  have "mset (live H') + all_blocks lp = all_blocks lp + R + all_blocks lp'"
    using assms by (simp add: owns_def moves_def)
  then have "mset (live H') = all_blocks lp' + R"
    by (metis (no_types, lifting) add.assoc add.commute add_left_cancel)
  then show ?thesis using assms by (simp add: owns_def moves_def)
qed

lemma owns_gives_back:
  "owns R (lp, H) \<Longrightarrow> gives_back H (all_blocks lp) H' (all_blocks lp') \<Longrightarrow> owns R (lp', H')"
  by (simp add: owns_def gives_back_def)

text \<open>Registration and unregistration change the nodes only.\<close>

lemma register_same:
  "esp_event_handler_register_with_internal lp b i fn a legacy H = (err, c, lp', H') \<Longrightarrow>
     loop_addr lp' = loop_addr lp \<and> ev_queue lp' = ev_queue lp \<and> queue_size lp' = queue_size lp \<and> loop_task lp' = loop_task lp"
  by (auto simp: esp_event_handler_register_with_internal_def Let_def split: prod.splits option.splits if_splits)

lemma unregister_same:
  "esp_event_handler_unregister_with_internal lp b i r H = (err, lp', H') \<Longrightarrow>
     loop_addr lp' = loop_addr lp \<and> ev_queue lp' = ev_queue lp \<and> queue_size lp' = queue_size lp \<and> loop_task lp' = loop_task lp"
  by (auto simp: esp_event_handler_unregister_with_internal_def split: prod.splits if_splits)

lemma owns_register:
  assumes "owns R (lp, H)" and "esp_event_handler_register_with_internal lp b i fn a legacy H = (err, c, lp', H')"
  shows "owns R (lp', H')"
proof -
  have "moves H (all_blocks lp) H' (all_blocks lp')"
    using moves_frame [of H _ H' _ "{#loop_addr lp#}" "sum_list (map data_blocks (ev_queue lp))"] registerD [OF assms(2)] register_same [OF assms(2)]
    by (simp add: all_blocks_def)
  then show ?thesis by (rule owns_moves [OF assms(1)])
qed

lemma owns_unregister:
  assumes "owns R (lp, H)" and "esp_event_handler_unregister_with_internal lp b i r H = (err, lp', H')"
  shows "owns R (lp', H')"
proof -
  have "gives_back H (all_blocks lp) H' (all_blocks lp')"
    using gives_back_frame [OF unregisterD [OF assms(2)], of "{#loop_addr lp#} + sum_list (map data_blocks (ev_queue lp))"]
      unregister_same [OF assms(2)]
    by (simp add: all_blocks_def ac_simps)
  then show ?thesis by (rule owns_gives_back [OF assms(1)])
qed

lemma all_blocks_post: "all_blocks (lp\<lparr>ev_queue := ev_queue lp @ [post]\<rparr>) = all_blocks lp + data_blocks post"
  by (simp add: all_blocks_def)

lemma queue_send_blocks:
  "xQueueSendToBack (\<lambda>_ lp. lp) lp post ticks = (sent, lp') \<Longrightarrow>
     all_blocks lp' = all_blocks lp + (if sent then data_blocks post else {#})"
  by (auto simp: xQueueSendToBack_def all_blocks_post split: if_splits)

lemma post_moves:
  assumes "esp_event_post_to (\<lambda>_ lp. lp) taken me lp b i d ticks H = (err, lp', H')"
  shows "moves H (all_blocks lp) H' (all_blocks lp')"
  using assms
  by (auto simp: esp_event_post_to_def Let_def moves_def data_blocks_def post_instance_delete_def
      split: if_splits option.splits prod.splits dest!: callocD queue_send_blocks)

lemma isr_post_blocks:
  "esp_event_isr_post_to lp b i d n = (err, lp') \<Longrightarrow> all_blocks lp' = all_blocks lp"
  by (auto simp: esp_event_isr_post_to_def data_blocks_def split: if_splits prod.splits option.splits
      dest!: queue_send_blocks)

lemma owns_call:
  assumes "owns R (lp, H)" and "do_call me c (lp, H) = (r, s')"
  shows "owns R s'"
proof (cases c)
  case (Register b i fn a)
  then show ?thesis using assms owns_register [OF assms(1)]
    by (cases s') (auto simp: esp_event_handler_instance_register_with_def split: prod.splits)
next
  case (Register_legacy b i fn a)
  then show ?thesis using assms owns_register [OF assms(1)]
    by (cases s') (auto simp: esp_event_handler_register_with_def split: prod.splits)
next
  case (Unregister b i ctx)
  then show ?thesis using assms owns_unregister [OF assms(1)]
    by (cases s'; cases ctx) (auto simp: esp_event_handler_instance_unregister_with_def split: prod.splits)
next
  case (Unregister_legacy b i fn)
  then show ?thesis using assms owns_unregister [OF assms(1)]
    by (cases s') (auto simp: esp_event_handler_unregister_with_def split: prod.splits)
next
  case (Post b i d)
  then show ?thesis using assms owns_moves [OF assms(1) post_moves] by (cases s') (auto split: prod.splits)
next
  case (Isr_post b i d n)
  then show ?thesis using assms by (cases s') (auto simp: owns_def isr_post_blocks split: prod.splits)
qed

lemma owns_calls: "owns R s \<Longrightarrow> do_calls me cs s = (rs, s') \<Longrightarrow> owns R s'"
proof (induction cs arbitrary: s rs)
  case (Cons c cs)
  obtain r s1 where step: "do_call me c s = (r, s1)" by (cases "do_call me c s")
  obtain rs2 where "do_calls me cs s1 = (rs2, s')" using Cons.prems(2) step by (auto split: prod.splits)
  then show ?case using Cons.IH [of s1 rs2] owns_call [of R "fst s" "snd s" me c r s1] Cons.prems(1) step by simp
qed simp

lemma owns_create:
  assumes "esp_event_loop_create args has queue_created mutex_created task_created H = (ESP_OK, Some lp, H')"
    and "heap_ok H" and "\<not> bad_free H"
  shows "owns (mset (live H)) (lp, H')"
  using assms
  by (auto simp: esp_event_loop_create_def owns_def all_blocks_def split: option.splits prod.splits if_splits
      dest!: callocD)

lemma owns_delete:
  assumes "owns R (lp, H)" and "esp_event_loop_delete lp H = (err, H')"
  shows "heap_ok H' \<and> \<not> bad_free H' \<and> mset (live H') = R"
  using loop_delete_gives [OF assms(2)] assms(1) by (simp add: owns_def gives_back_def)

section \<open>Memory through runs\<close>

text \<open>Handlers are programs of calls on the loop.\<close>

type_synonym scripts = "nat \<Rightarrow> nat \<Rightarrow> esp_event_post_instance_t \<Rightarrow> ev_call list"

definition script_env :: "nat \<Rightarrow> scripts \<Rightarrow> handler_env" where
  "script_env me S fn a post w =
     (let (rs, lp, H) = do_calls me (S fn a post) (world_loop w, world_heap w)
      in w\<lparr>world_loop := lp, world_heap := H\<rparr>)"

abbreviation owns_world :: "nat multiset \<Rightarrow> ev_world \<Rightarrow> bool" where
  "owns_world R w \<equiv> owns R (world_loop w, world_heap w)"

fun owns_result :: "nat multiset \<Rightarrow> run_result \<Rightarrow> bool" where
  "owns_result R (Finished w) = owns_world R w"
| "owns_result R (Use_after_free a) = True"

definition keeps :: "handler_env \<Rightarrow> bool" where
  "keeps env \<longleftrightarrow> (\<forall>R fn a post w. owns_world R w \<longrightarrow> owns_world R (env fn a post w))"

lemma script_env_keeps: "keeps (script_env me S)"
  by (auto simp: keeps_def script_env_def split: prod.splits intro: owns_calls)

lemma handler_execute_keeps: "keeps env \<Longrightarrow> owns_world R w \<Longrightarrow> owns_world R (handler_execute env n post w)"
  by (simp add: keeps_def handler_execute_def)

lemma run_handlers_keeps:
  "run_handlers env post h w = Some r \<Longrightarrow> keeps env \<Longrightarrow> owns_world R w \<Longrightarrow> owns_result R r"
proof (induction arbitrary: R rule: run_handlers.raw_induct [rotated, consumes 1])
  case (1 run env post h w r)
  then show ?case
    by (auto split: option.splits intro: "1"(1) [OF _ _ handler_execute_keeps])
qed

lemma run_ids_keeps:
  "run_ids env post h w = Some r \<Longrightarrow> keeps env \<Longrightarrow> owns_world R w \<Longrightarrow> owns_result R r"
  by (induction arbitrary: R rule: run_ids.raw_induct [rotated, consumes 1])
    (auto split: option.splits prod.splits if_splits dest: run_handlers_keeps)

lemma bind_keeps:
  assumes "Option.bind m (\<lambda>r. case r of Use_after_free a \<Rightarrow> Some (Use_after_free a) | Finished w1 \<Rightarrow> f w1) = Some r"
    and "\<And>r1. m = Some r1 \<Longrightarrow> owns_result R r1"
    and "\<And>w1. m = Some (Finished w1) \<Longrightarrow> f w1 = Some r \<Longrightarrow> owns_world R w1 \<Longrightarrow> owns_result R r"
  shows "owns_result R r"
  using assms by (cases m) (auto split: run_result.splits)

lemma run_base_keeps:
  assumes "run_base env post bn w = Some r" and "keeps env" and "owns_world R w"
  shows "owns_result R r"
proof (cases "bn_base bn = post_base post")
  case True
  then have "Option.bind (run_handlers env post (slist_first hn_addr (bn_handlers bn)) w)
             (\<lambda>r. case r of
                    Use_after_free a \<Rightarrow> Some (Use_after_free a)
                  | Finished w1 \<Rightarrow>
                      (case node_in bn_addr (bn_addr bn) (base_lists (world_loop w1)) of
                         None \<Rightarrow> Some (Use_after_free (bn_addr bn))
                       | Some (bn1, _) \<Rightarrow> run_ids env post (slist_first in_addr (id_nodes bn1)) w1)) = Some r"
    using assms(1) by (simp add: run_base_def)
  then show ?thesis
    by (rule bind_keeps)
      (use assms(2,3) in \<open>auto split: option.splits prod.splits dest: run_handlers_keeps run_ids_keeps\<close>)
qed (use assms in \<open>auto simp: run_base_def\<close>)

lemma run_bases_keeps:
  "run_bases env post h w = Some r \<Longrightarrow> keeps env \<Longrightarrow> owns_world R w \<Longrightarrow> owns_result R r"
proof (induction arbitrary: R rule: run_bases.raw_induct [rotated, consumes 1])
  case (1 run env post h w r)
  show ?case
  proof (cases "h = None \<or> node_in bn_addr (the h) (base_lists (world_loop w)) = None")
    case True
    then show ?thesis using 1(2-) by (auto split: option.splits)
  next
    case False
    then obtain bn nxt where "Option.bind (run_base env post bn w)
        (\<lambda>r. case r of Use_after_free x \<Rightarrow> Some (Use_after_free x) | Finished w1 \<Rightarrow> run env post nxt w1) = Some r"
      using 1(2) by (auto split: option.splits)
    then show ?thesis by (rule bind_keeps) (use 1(1,3,4) run_base_keeps in blast)+
  qed
qed

lemma run_loop_node_keeps:
  assumes "run_loop_node env post ln w = Some r" and "keeps env" and "owns_world R w"
  shows "owns_result R r"
  using assms(1) unfolding run_loop_node_def
  by (rule bind_keeps)
    (use assms(2,3) in \<open>auto split: option.splits prod.splits dest: run_handlers_keeps run_bases_keeps\<close>)

lemma run_loop_nodes_keeps:
  "run_loop_nodes env post h w = Some r \<Longrightarrow> keeps env \<Longrightarrow> owns_world R w \<Longrightarrow> owns_result R r"
proof (induction arbitrary: R rule: run_loop_nodes.raw_induct [rotated, consumes 1])
  case (1 run env post h w r)
  show ?case
  proof (cases "h = None \<or> node_at ln_addr (the h) (loop_nodes (world_loop w)) = None")
    case True
    then show ?thesis using 1(2-) by (auto split: option.splits)
  next
    case False
    then obtain ln nxt where "Option.bind (run_loop_node env post ln w)
        (\<lambda>r. case r of Use_after_free x \<Rightarrow> Some (Use_after_free x) | Finished w1 \<Rightarrow> run env post nxt w1) = Some r"
      using 1(2) by (auto split: option.splits)
    then show ?thesis by (rule bind_keeps) (use 1(1,3,4) run_loop_node_keeps in blast)+
  qed
qed

lemma dispatch_keeps: "dispatch env post w = Some r \<Longrightarrow> keeps env \<Longrightarrow> owns_world R w \<Longrightarrow> owns_result R r"
  unfolding dispatch_def by (rule run_loop_nodes_keeps)

lemma loop_run_from_keeps:
  "loop_run_from env me ticks clock k marker remaining w = Some r \<Longrightarrow> keeps env \<Longrightarrow> owns_world R w \<Longrightarrow> owns_result R r"
proof (induction arbitrary: R rule: loop_run_from.raw_induct [rotated, consumes 1])
  case (1 run env me ticks clock k marker remaining w r)
  show ?case
  proof (cases "ev_queue (world_loop w)")
    case Nil
    then show ?thesis using 1(2-) by (auto split: if_splits)
  next
    case (Cons post posts)
    let ?w = "w\<lparr>world_loop := (world_loop w)\<lparr>ev_queue := posts, running_task := Some me\<rparr>\<rparr>"
    obtain r1 where r1: "dispatch env post ?w = Some r1"
      using 1(2) Cons by (cases "dispatch env post ?w") auto
    have "owns_world (data_blocks post + R) ?w"
      using 1(4) Cons by (simp add: owns_def all_blocks_def ac_simps)
    from dispatch_keeps [OF r1 1(3) this] have owned: "owns_result (data_blocks post + R) r1" .
    show ?thesis
    proof (cases r1)
      case (Finished w1)
      let ?w2 = "w1\<lparr>world_heap := post_instance_delete post (world_heap w1)\<rparr>"
      have "owns_world R ?w2"
        using post_instance_delete_gives [of "world_heap w1" post] owned Finished
        by (auto simp: owns_def gives_back_def ac_simps)
      moreover have "owns_world R (set_running None ?w2)"
        using calculation by (simp add: owns_def all_blocks_def)
      ultimately show ?thesis
        using 1(1) 1(2) 1(3) Cons r1 Finished by (auto simp: Let_def split: if_splits)
    next
      case (Use_after_free a)
      then show ?thesis using 1(2) Cons r1 by auto
    qed
  qed
qed

section \<open>Sessions\<close>

datatype ev_step = Call ev_call | Run "32 word" "nat \<Rightarrow> 32 word"

text \<open>The task \<open>me\<close> makes calls and runs the loop; the handlers are the scripts \<open>S\<close>.\<close>

fun ev_session :: "nat \<Rightarrow> scripts \<Rightarrow> ev_step list \<Rightarrow> ev_world \<Rightarrow> run_result option" where
  "ev_session me S [] w = Some (Finished w)"
| "ev_session me S (Call c # steps) w =
     (let (r, lp, H) = do_call me c (world_loop w, world_heap w)
      in ev_session me S steps (w\<lparr>world_loop := lp, world_heap := H\<rparr>))"
| "ev_session me S (Run ticks clock # steps) w =
     Option.bind (esp_event_loop_run (script_env me S) me ticks clock w)
       (\<lambda>r. case r of Use_after_free a \<Rightarrow> Some (Use_after_free a) | Finished w1 \<Rightarrow> ev_session me S steps w1)"

lemma ev_session_keeps: "ev_session me S steps w = Some r \<Longrightarrow> owns_world R w \<Longrightarrow> owns_result R r"
proof (induction me S steps w rule: ev_session.induct)
  case (2 me S c steps w)
  then show ?case by (auto split: prod.splits dest: owns_call)
next
  case (3 me S ticks clock steps w)
  show ?case
    by (rule bind_keeps [OF 3(2) [unfolded ev_session.simps], of R])
      (use 3(1,3) loop_run_from_keeps [OF _ script_env_keeps] in \<open>auto simp: esp_event_loop_run_def\<close>)
qed auto

end
