(* ===== verification/Event_Spec.thy ===== *)
theory Event_Spec
  imports Event_Session
begin

text \<open>
  What a client of a loop may expect: the live registrations in the order in which they were made, and the
  events that were accepted in the order in which they were posted, known from the calls and their results
  alone.  The run of the loop executes, for each event in turn, the registrations that listen to it.
\<close>

section \<open>The specification\<close>

type_synonym registration = "event_key \<times> nat \<times> nat \<times> nat"

type_synonym event = "event_key \<times> byte list option"

fun spec_call :: "ev_call \<Rightarrow> ev_result \<Rightarrow> registration list \<times> event list \<Rightarrow> registration list \<times> event list" where
  "spec_call (Register b i fn a) (err, c) (rs, es) =
     (case c of Some x \<Rightarrow> if err = ESP_OK then (rs @ [((b, i), x, fn, a)], es) else (rs, es) | None \<Rightarrow> (rs, es))"
| "spec_call (Unregister b i c) (err, _) (rs, es) =
     (case c of Some x \<Rightarrow> if err = ESP_OK then (filter (\<lambda>r. \<not> (fst r = (b, i) \<and> fst (snd r) = x)) rs, es) else (rs, es)
              | None \<Rightarrow> (rs, es))"
| "spec_call (Post b i d) (err, _) (rs, es) =
     (rs, if err = ESP_OK then es @ [((b, i), if d = Some [] then None else d)] else es)"
| "spec_call (Isr_post b i d n) (err, _) (rs, es) =
     (rs, if err = ESP_OK then es @ [((b, i), if n = 0 then None else map_option (take n) d)] else es)"
| "spec_call _ _ s = s"

fun spec_calls :: "ev_call list \<Rightarrow> ev_result list \<Rightarrow> registration list \<times> event list \<Rightarrow> registration list \<times> event list" where
  "spec_calls (c # cs) (r # rs) s = spec_calls cs rs (spec_call c r s)"
| "spec_calls _ _ s = s"

text \<open>The calls on instances; the legacy ones identify a registration by its function.\<close>

fun instance_call :: "ev_call \<Rightarrow> bool" where
  "instance_call (Register_legacy b i fn a) = False"
| "instance_call (Unregister_legacy b i fn) = False"
| "instance_call _ = True"

section \<open>The loop implements it\<close>

definition view :: "event_key \<times> esp_event_handler_node_t \<Rightarrow> registration" where
  "view r = (fst r, handler_ctx (snd r), ctx_handler (snd r), ctx_arg (snd r))"

definition event_bytes :: "event_data \<Rightarrow> byte list option" where
  "event_bytes d = (case d of No_data \<Rightarrow> None | Inline bs \<Rightarrow> Some bs | Allocated _ bs \<Rightarrow> Some bs)"

definition event_of :: "esp_event_post_instance_t \<Rightarrow> event" where
  "event_of post = (key_of post, event_bytes (post_data post))"

definition implements :: "esp_event_loop_instance_t \<Rightarrow> registration list \<times> event list \<Rightarrow> bool" where
  "implements lp s \<longleftrightarrow>
     (\<forall>e. proper e \<longrightarrow> map view (filter (\<lambda>r. listens e (fst r)) (registrations lp)) = filter (\<lambda>r. listens e (fst r)) (fst s)) \<and>
     map event_of (ev_queue lp) = snd s \<and> (\<forall>post \<in> set (ev_queue lp). proper (key_of post)) \<and> loop_ok lp"

lemma fst_view [simp]: "fst (view r) = fst r"
  by (simp add: view_def)

lemma implements_register:
  assumes "implements lp s" and "esp_event_handler_register_with_internal lp b i fn a False H = (err, c, lp', H')"
  shows "implements lp' (spec_call (Register b i fn a) (err, c) s)"
proof (cases "err = ESP_OK")
  case True
  obtain n where n: "made fn a c n" "adds (b, i) n (registrations lp) (registrations lp')" and ok: "loop_ok lp'"
    using register_adds [OF assms(2) [unfolded True]] assms(1) by (auto simp: implements_def)
  show ?thesis
    using assms(1) n(1) ok adds_filter [OF n(2)] register_same [OF assms(2)] True
    by (cases s) (auto simp: implements_def made_def view_def)
next
  case False
  then have "lp' = lp" using registerD [OF assms(2)] by simp
  then show ?thesis using assms(1) False by (cases s; cases c) auto
qed

section \<open>Addresses and contexts are distinct\<close>

lemma id_blocks_split: "id_blocks its = mset (map in_addr its) + hs_blocks (concat (map in_handlers its))"
  by (induction its) (simp_all add: ac_simps)

lemma base_blocks_split:
  "base_blocks bns =
     mset (map bn_addr bns) + hs_blocks (concat (map bn_handlers bns)) + id_blocks (concat (map id_nodes bns))"
  by (induction bns) (simp_all add: ac_simps)

lemma loop_blocks_split:
  "loop_blocks lns =
     mset (map ln_addr lns) + hs_blocks (concat (map ln_handlers lns)) + base_blocks (concat (map base_nodes lns))"
  by (induction lns) (simp_all add: ac_simps)

lemma loop_blocks_lists:
  "loop_blocks (loop_nodes lp) =
     mset (map ln_addr (loop_nodes lp)) + mset (map bn_addr (concat (base_lists lp))) +
     mset (map in_addr (concat (id_lists lp))) + hs_blocks (concat (handler_lists lp))"
  by (simp add: loop_blocks_split base_blocks_split id_blocks_split base_lists_def id_lists_def handler_lists_def
      map_concat comp_def ac_simps)

lemma regs_ids: "mset (ctxs (concat (map (id_regs b) its))) = mset (map handler_ctx (concat (map in_handlers its)))"
  by (induction its) (simp_all add: id_regs_def)

lemma regs_bases:
  "mset (ctxs (concat (map base_regs bns))) =
     mset (map handler_ctx (concat (map bn_handlers bns))) + mset (map handler_ctx (concat (map in_handlers (concat (map id_nodes bns)))))"
  by (induction bns) (simp_all add: base_regs_def regs_ids)

lemma regs_nodes:
  "mset (ctxs (concat (map node_regs lns))) =
     mset (map handler_ctx (concat (map ln_handlers lns))) + mset (ctxs (concat (map base_regs (concat (map base_nodes lns)))))"
  by (induction lns) (simp_all add: node_regs_def)

lemma registrations_ctxs: "mset (ctxs (registrations lp)) = mset (map handler_ctx (concat (handler_lists lp)))"
  unfolding registrations_def regs_nodes regs_bases handler_lists_def base_lists_def id_lists_def
  by (simp only: concat_append map_append mset_append)

lemma distinct_part: "distinct xs \<Longrightarrow> mset xs = mset ys + B \<Longrightarrow> distinct ys"
proof -
  assume d: "distinct xs" and m: "mset xs = mset ys + B"
  obtain zs where "B = mset zs" by (metis ex_mset)
  then have "mset xs = mset (ys @ zs)" using m by simp
  then have "distinct (ys @ zs)" using d mset_eq_imp_distinct_iff by blast
  then show ?thesis by simp
qed

lemma owns_distinct:
  assumes "owns R (lp, H)"
  shows "addrs_ok lp" and "distinct (ctxs (registrations lp))"
proof -
  have d: "distinct (live H)" using assms by (simp add: owns_def heap_ok_def)
  have m: "mset (live H) = loop_blocks (loop_nodes lp) + ({#loop_addr lp#} + sum_list (map data_blocks (ev_queue lp)) + R)"
    using assms by (simp add: owns_def all_blocks_def)
  let ?hs = "concat (handler_lists lp)"
  have "distinct (map ln_addr (loop_nodes lp) @ map bn_addr (concat (base_lists lp)) @ map in_addr (concat (id_lists lp)) @
      map hn_addr ?hs @ map handler_ctx ?hs)"
    by (rule distinct_part [OF d, where B = "{#loop_addr lp#} + sum_list (map data_blocks (ev_queue lp)) + R"])
      (simp only: m loop_blocks_lists hs_blocks_def mset_append ac_simps)
  note parts = this [unfolded distinct_append]
  show "addrs_ok lp" using parts unfolding addrs_ok_def by blast
  have "distinct (map handler_ctx ?hs)" using parts by blast
  then show "distinct (ctxs (registrations lp))"
    using registrations_ctxs mset_eq_imp_distinct_iff by blast
qed

section \<open>Each call is as specified\<close>

lemma implements_unregister:
  assumes "implements lp s" and "owns R (lp, H)"
    and "esp_event_handler_unregister_with_internal lp b i (Instance x) H = (err, lp', H')"
  shows "implements lp' (spec_call (Unregister b i (Some x)) (err, None) s)"
proof (cases "err = ESP_OK")
  case True
  have ok: "loop_ok lp" using assms(1) by (simp add: implements_def)
  note regs = unregister_stays [OF assms(3) [unfolded True] owns_distinct(2) [OF assms(2)] ok]
  let ?spec = "\<lambda>r. \<not> (fst r = (b, i) \<and> fst (snd r) = x)"
  have "map view (filter (\<lambda>r. listens e (fst r)) (filter (stays (b, i) x) A)) =
      filter ?spec (map view (filter (\<lambda>r. listens e (fst r)) A))" for e A
    by (induction A) (auto simp: stays_def view_def)
  then show ?thesis
    using assms(1) regs unregister_same [OF assms(3)] True
    by (cases s) (simp add: implements_def conj_commute)
next
  case False
  then have "lp' = lp"
    using assms(3) by (auto simp: esp_event_handler_unregister_with_internal_def split: if_splits prod.splits)
  then show ?thesis using assms(1) False by (cases s) simp
qed

text \<open>A new event at the end of the queue.\<close>

lemma implements_queue:
  "implements lp (rs, es) \<Longrightarrow> proper (b, i) \<Longrightarrow> event_bytes x = d \<Longrightarrow>
     implements (lp\<lparr>ev_queue := ev_queue lp @ [\<lparr>post_base = b, post_id = i, post_data = x\<rparr>]\<rparr>) (rs, es @ [((b, i), d)])"
  by (simp add: implements_def registrations_def loop_ok_def event_of_def key_of_def)

lemma queue_send_cases:
  "xQueueSendToBack (\<lambda>_ lp. lp) lp post ticks = (sent, lp') \<Longrightarrow>
     lp' = (if sent then lp\<lparr>ev_queue := ev_queue lp @ [post]\<rparr> else lp)"
  by (auto simp: xQueueSendToBack_def split: if_splits)

lemma post_cases:
  assumes "esp_event_post_to (\<lambda>_ lp. lp) taken me lp b i d ticks H = (err, lp', H')"
  shows "(err \<noteq> ESP_OK \<longrightarrow> lp' = lp) \<and>
         (err = ESP_OK \<longrightarrow> proper (b, i) \<and>
            (\<exists>x. lp' = lp\<lparr>ev_queue := ev_queue lp @ [\<lparr>post_base = b, post_id = i, post_data = x\<rparr>]\<rparr> \<and>
                 event_bytes x = (if d = Some [] then None else d)))"
  using assms
  by (auto simp: esp_event_post_to_def Let_def event_bytes_def split: if_splits option.splits prod.splits
      dest!: queue_send_cases)

lemma isr_post_cases:
  assumes "esp_event_isr_post_to lp b i d n = (err, lp')"
  shows "(err \<noteq> ESP_OK \<longrightarrow> lp' = lp) \<and>
         (err = ESP_OK \<longrightarrow> proper (b, i) \<and>
            (\<exists>x. lp' = lp\<lparr>ev_queue := ev_queue lp @ [\<lparr>post_base = b, post_id = i, post_data = x\<rparr>]\<rparr> \<and>
                 event_bytes x = (if n = 0 then None else map_option (take n) d)))"
  using assms
  by (auto simp: esp_event_isr_post_to_def Let_def event_bytes_def split: if_splits option.splits prod.splits
      dest!: queue_send_cases)

lemma implements_call:
  assumes "implements lp s" and "owns R (lp, H)" and "instance_call c" and "do_call me c (lp, H) = (r, lp', H')"
  shows "implements lp' (spec_call c r s)"
proof (cases c)
  case (Register b i fn a)
  then show ?thesis
    using assms(4) implements_register [OF assms(1)]
    by (auto simp: esp_event_handler_instance_register_with_def split: prod.splits)
next
  case (Unregister b i ctx)
  show ?thesis
  proof (cases ctx)
    case None
    then show ?thesis using assms(1,4) Unregister
      by (cases s) (auto simp: esp_event_handler_instance_unregister_with_def)
  next
    case (Some x)
    then show ?thesis using assms(4) Unregister implements_unregister [OF assms(1,2)]
      by (auto simp: esp_event_handler_instance_unregister_with_def split: prod.splits)
  qed
next
  case (Post b i d)
  then obtain err where post: "esp_event_post_to (\<lambda>_ lp. lp) True me lp b i d 0 H = (err, lp', H')" and r: "r = (err, None)"
    using assms(4) by (auto split: prod.splits)
  show ?thesis using post_cases [OF post] assms(1) Post r
    by (cases s; cases "err = ESP_OK") (auto intro: implements_queue)
next
  case (Isr_post b i d n)
  then obtain err where post: "esp_event_isr_post_to lp b i d n = (err, lp')" and r: "r = (err, None)"
    using assms(4) by (auto split: prod.splits)
  show ?thesis using isr_post_cases [OF post] assms(1) Isr_post r
    by (cases s; cases "err = ESP_OK") (auto intro: implements_queue)
qed (use assms(3) in auto)

lemma implements_calls:
  assumes "implements lp s" and "owns R (lp, H)" and "\<forall>c \<in> set cs. instance_call c"
    and "do_calls me cs (lp, H) = (rs, lp', H')"
  shows "implements lp' (spec_calls cs rs s)"
  using assms
proof (induction cs arbitrary: lp H s rs)
  case (Cons c cs)
  obtain r lp1 H1 where step: "do_call me c (lp, H) = (r, lp1, H1)" by (metis prod_cases3)
  obtain rs2 where rest: "do_calls me cs (lp1, H1) = (rs2, lp', H')" "rs = r # rs2"
    using Cons.prems(4) step by (auto split: prod.splits)
  show ?case
    using Cons.IH [OF implements_call [OF Cons.prems(1,2) _ step] owns_call [OF Cons.prems(2) step] _ rest(1)] Cons.prems(3) rest(2)
    by simp
qed simp

lemma implements_create:
  assumes "esp_event_loop_create args has queue_created mutex_created task_created H = (ESP_OK, Some lp, H')"
  shows "implements lp ([], [])"
  using assms
  by (auto simp: esp_event_loop_create_def implements_def registrations_def loop_ok_def
      split: option.splits prod.splits if_splits)

section \<open>The run of the loop\<close>

text \<open>What the specification executes for an event.\<close>

definition spec_run :: "registration list \<Rightarrow> event \<Rightarrow> (nat \<times> nat \<times> event) list" where
  "spec_run rs e = map (\<lambda>(k, c, fn, a). (fn, a, e)) (filter (\<lambda>r. listens (fst e) (fst r)) rs)"

definition observed :: "(nat \<times> nat \<times> esp_event_post_instance_t) list \<Rightarrow> (nat \<times> nat \<times> event) list" where
  "observed xs = map (\<lambda>(fn, a, post). (fn, a, event_of post)) xs"

lemma observed_trace:
  assumes "implements lp (rs, es)" and "proper (key_of post)"
  shows "observed (trace post (listening (key_of post) lp)) = spec_run rs (event_of post)"
proof -
  have "map view (filter (\<lambda>r. listens (key_of post) (fst r)) (registrations lp)) =
      filter (\<lambda>r. listens (key_of post) (fst r)) rs"
    using assms by (cases "key_of post") (simp add: implements_def)
  then have "spec_run rs (event_of post) =
      map (\<lambda>(k, c, fn, a). (fn, a, event_of post)) (map view (filter (\<lambda>r. listens (key_of post) (fst r)) (registrations lp)))"
    by (simp add: spec_run_def event_of_def)
  then show ?thesis by (simp add: observed_def trace_def listening_def view_def comp_def)
qed

lemma observed_append [simp]: "observed (xs @ ys) = observed xs @ observed ys"
  by (simp add: observed_def)

text \<open>A clock within the time of the call: \<open>t\<close> counts ticks and does not wrap.\<close>

definition within :: "32 word \<Rightarrow> (nat \<Rightarrow> nat) \<Rightarrow> (nat \<Rightarrow> 32 word) \<Rightarrow> bool" where
  "within ticks t clock \<longleftrightarrow> mono t \<and> (\<forall>k. clock k = of_nat (t k) \<and> t k - t 0 < unat ticks)"

lemma clock_step:
  assumes "within ticks t clock" and "j \<le> k"
  shows "uint (clock k - clock j) = int (t k - t j)"
proof -
  have le: "t j \<le> t k" and "t 0 \<le> t j" using assms by (auto simp: within_def mono_def)
  have "unat ticks < 2 ^ LENGTH(32)" by (rule unsigned_less)
  then have "t k - t 0 < 2 ^ 32" using assms(1) by (auto simp: within_def intro: less_trans)
  then have small: "t k - t j < 2 ^ 32" using \<open>t 0 \<le> t j\<close> by linarith
  have "clock k - clock j = of_nat (t k - t j)" using assms(1) le by (simp add: within_def of_nat_diff)
  then show ?thesis using small by (simp add: uint_nat unat_of_nat)
qed

lemma loop_run_from_spec:
  assumes "quiet env" and "within ticks t clock" and "ticks \<noteq> portMAX_DELAY"
    and "implements (world_loop w) (rs, es)" and "addrs_ok (world_loop w)"
    and "0 < k" and "remaining = int (unat ticks) - int (t (k - 1) - t 0)"
  shows "\<exists>w'. loop_run_from env me ticks clock k (clock (k - 1)) remaining w = Some (Finished w') \<and>
           ev_queue (world_loop w') = [] \<and>
           observed (executed w') = observed (executed w) @ concat (map (spec_run rs) es)"
  using assms(4-)
proof (induction es arbitrary: w k remaining)
  case Nil
  then have "ev_queue (world_loop w) = []" by (simp add: implements_def)
  then show ?case using assms(3) Nil by (subst loop_run_from.simps) (simp add: implements_def)
next
  case (Cons e es)
  obtain post posts where q: "ev_queue (world_loop w) = post # posts" "event_of post = e" "map event_of posts = es"
    using Cons.prems(1) by (auto simp: implements_def)
  let ?lp = "(world_loop w)\<lparr>ev_queue := posts, running_task := Some me\<rparr>"
  let ?w = "w\<lparr>world_loop := ?lp\<rparr>"
  have same: "registrations ?lp = registrations (world_loop w)" "loop_ok ?lp = loop_ok (world_loop w)"
    "addrs_ok ?lp = addrs_ok (world_loop w)"
    by (simp_all add: registrations_def loop_ok_def addrs_ok_def base_lists_def id_lists_def handler_lists_def)
  have impl: "implements ?lp (rs, es)" and listed: "proper (key_of post)" and ok: "addrs_ok ?lp"
    using Cons.prems(1,2) q same by (auto simp: implements_def)
  have okl: "loop_ok ?lp" using impl by (simp add: implements_def)
  obtain w1 where w1: "dispatch env post ?w = Some (Finished w1)" "world_loop w1 = ?lp"
    "executed w1 = executed w @ trace post (listening (key_of post) ?lp)"
    using dispatch_quiet [OF assms(1), of ?w post] ok okl by (auto simp: ran_def)
  let ?w2 = "set_running None (w1\<lparr>world_heap := post_instance_delete post (world_heap w1)\<rparr>)"
  have tick: "remaining - uint (clock k - clock (k - 1)) = int (unat ticks) - int (t k - t 0)"
    and pos: "0 < int (unat ticks) - int (t k - t 0)"
  proof -
    have "t 0 \<le> t (k - 1)" "t (k - 1) \<le> t k" using assms(2) by (auto simp: within_def mono_def)
    then show "remaining - uint (clock k - clock (k - 1)) = int (unat ticks) - int (t k - t 0)"
      using clock_step [OF assms(2), of "k - 1" k] Cons.prems(4) by (simp add: of_nat_diff)
    have "t k - t 0 < unat ticks" using assms(2) by (auto simp: within_def)
    then show "0 < int (unat ticks) - int (t k - t 0)" by (simp only: diff_gt_0_iff_gt of_nat_less_iff)
  qed
  have same2: "implements (world_loop ?w2) (rs, es)" "addrs_ok (world_loop ?w2)"
    using impl ok
    by (simp_all add: w1(2) implements_def registrations_def loop_ok_def addrs_ok_def base_lists_def id_lists_def handler_lists_def)
  obtain w' where w': "loop_run_from env me ticks clock (k + 1) (clock k) (int (unat ticks) - int (t k - t 0)) ?w2 = Some (Finished w')"
    "ev_queue (world_loop w') = []" "observed (executed w') = observed (executed ?w2) @ concat (map (spec_run rs) es)"
    using Cons.IH [OF same2, of "k + 1"] by auto
  have "loop_run_from env me ticks clock k (clock (k - 1)) remaining w = Some (Finished w')"
    using w'(1) pos assms(3) by (subst loop_run_from.simps) (simp add: q(1) w1(1) Let_def tick [unfolded One_nat_def])
  moreover have "observed (executed w') = observed (executed w) @ concat (map (spec_run rs) (e # es))"
    using w'(3) w1(3) observed_trace [OF impl listed] q(2) by simp
  ultimately show ?case using w'(2) by blast
qed

lemma loop_run_spec:
  assumes "quiet env" and "within ticks t clock" and "ticks \<noteq> portMAX_DELAY"
    and "implements (world_loop w) (rs, es)" and "addrs_ok (world_loop w)"
  shows "\<exists>w'. esp_event_loop_run env me ticks clock w = Some (Finished w') \<and>
           ev_queue (world_loop w') = [] \<and>
           observed (executed w') = observed (executed w) @ concat (map (spec_run rs) es)"
proof -
  have "uint ticks = int (unat ticks) - int (t (1 - 1) - t 0)"
    by (simp only: uint_nat diff_self_eq_0 of_nat_0 diff_zero)
  from loop_run_from_spec [OF assms zero_less_one this] show ?thesis
    by (simp only: esp_event_loop_run_def diff_self_eq_0)
qed

end
