(* ===== verification/Event_Props.thy ===== *)
theory Event_Props
  imports Event_Spec
begin

text \<open>The properties of the event loop library, each with a run of the code in which its hypotheses hold.\<close>

section \<open>Order of dispatch\<close>

definition world_of :: "esp_event_loop_instance_t \<Rightarrow> block_heap \<Rightarrow> ev_world" where
  "world_of lp H = \<lparr>world_loop = lp, world_heap = H, executed = []\<rparr>"

text \<open>A heap with one block in use, and the loop that is created on it.\<close>

definition heap0 :: block_heap where
  "heap0 = \<lparr>next_addr = 8, allocs = [], live = [7], bad_free = False\<rparr>"

definition loop0 :: esp_event_loop_instance_t where
  "loop0 = \<lparr>loop_addr = 8, loop_nodes = [], ev_queue = [], queue_size = 4, loop_task = None, running_task = None\<rparr>"

lemma create0:
  "esp_event_loop_create (Some \<lparr>args_queue_size = 4, has_task = False\<rparr>) True True True None heap0 =
     (ESP_OK, Some loop0, \<lparr>next_addr = 9, allocs = [], live = [8, 7], bad_free = False\<rparr>)"
  by (simp add: esp_event_loop_create_def calloc_def heap0_def loop0_def)

lemma heap0_ok: "heap_ok heap0" "\<not> bad_free heap0"
  by (simp_all add: heap_ok_def heap0_def)

text \<open>C12: The order of dispatch.  Whatever instances are registered and unregistered on a new loop and whatever
  events are posted, also when allocations fail or the queue is full, a run of the loop whose time does not
  expire takes the accepted events in order of posting; each one executes exactly the live registrations
  that listen to it, in order of registration, with their arguments and the data that was posted.  The
  handlers do not touch the loop, and the calls before the run are those of the instance interface and do not wait.\<close>

theorem registered_first_runs_first:
  assumes "esp_event_loop_create args has queue_created mutex_created task_created H0 = (ESP_OK, Some lp0, H1)"
    and "heap_ok H0" and "\<not> bad_free H0" and "\<forall>c \<in> set calls. instance_call c"
    and "do_calls me calls (lp0, H1) = (results, lp, H)"
    and "quiet env" and "within ticks t clock" and "ticks \<noteq> portMAX_DELAY"
  shows "\<exists>w. esp_event_loop_run env runner ticks clock (world_of lp H) = Some (Finished w) \<and>
           ev_queue (world_loop w) = [] \<and>
           (let (rs, es) = spec_calls calls results ([], []) in observed (executed w) = concat (map (spec_run rs) es))"
proof -
  obtain rs es where spec: "spec_calls calls results ([], []) = (rs, es)" by fastforce
  note owned = owns_create [OF assms(1-3)]
  have impl: "implements lp (rs, es)"
    using implements_calls [OF implements_create [OF assms(1)] owned assms(4,5)] spec by simp
  have ok: "addrs_ok lp" using owns_distinct(1) owns_calls [OF owned assms(5)] by blast
  have "implements (world_loop (world_of lp H)) (rs, es)" and "addrs_ok (world_loop (world_of lp H))"
    using impl ok by (simp_all add: world_of_def)
  from loop_run_spec [OF assms(6-8) this, of runner] show ?thesis
    by (simp add: spec world_of_def observed_def)
qed

text \<open>A session: registrations at the three levels, an unregistration, and two events.\<close>

definition calls0 :: "ev_call list" where
  "calls0 = [Register (Base 1) 5 100 0, Register ESP_EVENT_ANY_BASE (- 1) 101 1, Register (Base 1) (- 1) 102 2,
     Register (Base 1) 5 103 3, Unregister ESP_EVENT_ANY_BASE (- 1) (Some 16), Post (Base 1) 5 (Some [7]),
     Post (Base 1) 6 None]"

definition quiet_env :: handler_env where
  "quiet_env fn a post w = w"

lemma registered_first_runs_first_witness:
  "case do_calls 1 calls0 (loop0, snd (snd (esp_event_loop_create (Some \<lparr>args_queue_size = 4, has_task = False\<rparr>) True True True None heap0))) of
     (results, lp, H) \<Rightarrow>
       \<exists>w. esp_event_loop_run quiet_env 1 10 (\<lambda>k. 3) (world_of lp H) = Some (Finished w) \<and>
         observed (executed w) =
           [(100, 0, (Base 1, 5), Some [7]), (102, 2, (Base 1, 5), Some [7]), (103, 3, (Base 1, 5), Some [7]),
            (102, 2, (Base 1, 6), None)]"
proof -
  obtain results lp H where run: "do_calls 1 calls0 (loop0, \<lparr>next_addr = 9, allocs = [], live = [8, 7], bad_free = False\<rparr>) = (results, lp, H)"
    by (metis prod_cases3)
  have results: "results = fst (do_calls 1 calls0 (loop0, \<lparr>next_addr = 9, allocs = [], live = [8, 7], bad_free = False\<rparr>))"
    using run by simp
  have "(let (rs, es) = spec_calls calls0 results ([], []) in concat (map (spec_run rs) es)) =
      [(100, 0, (Base 1, 5), Some [7]), (102, 2, (Base 1, 5), Some [7]), (103, 3, (Base 1, 5), Some [7]),
       (102, 2, (Base 1, 6), None)]"
    unfolding results by code_simp
  moreover have "\<forall>c \<in> set calls0. instance_call c" by (simp add: calls0_def)
  moreover have "quiet quiet_env" by (simp add: quiet_def quiet_env_def)
  moreover have "within 10 (\<lambda>k. 3) (\<lambda>k. 3)" by (simp add: within_def mono_def)
  moreover have "10 \<noteq> portMAX_DELAY" by (simp add: portMAX_DELAY_def)
  ultimately show ?thesis
    using registered_first_runs_first [OF create0 heap0_ok _ run, of quiet_env 10 "\<lambda>k. 3" "\<lambda>k. 3" 1] run
    by (auto simp: create0 split: prod.splits)
qed

section \<open>Memory\<close>

text \<open>C14: The memory of a loop.  From its creation to its deletion, through any calls of the task and any calls
  that handlers make on the loop while it runs, with allocations that fail: when the runs finish, and none
  reads a node that a handler freed, deleting the loop has freed each of its blocks once and no other block.\<close>

theorem loop_memory_is_returned:
  assumes "esp_event_loop_create args has queue_created mutex_created task_created H0 = (ESP_OK, Some lp0, H1)"
    and "heap_ok H0" and "\<not> bad_free H0"
    and "ev_session me S steps (world_of lp0 H1) = Some (Finished w)"
    and "esp_event_loop_delete (world_loop w) (world_heap w) = (err, H2)"
  shows "mset (live H2) = mset (live H0) \<and> \<not> bad_free H2"
proof -
  have "owns_world (mset (live H0)) (world_of lp0 H1)" using owns_create [OF assms(1-3)] by (simp add: world_of_def)
  from ev_session_keeps [OF assms(4) this] have "owns_world (mset (live H0)) w" by simp
  from owns_delete [OF this assms(5)] show ?thesis by simp
qed

text \<open>A session in which an allocation fails and a handler unregisters itself and posts.\<close>

definition heap1 :: block_heap where
  "heap1 = \<lparr>next_addr = 8, allocs = [True, True, True, True, True, True, True, False], live = [7], bad_free = False\<rparr>"

definition steps1 :: "ev_step list" where
  "steps1 = [Call (Register (Base 1) 5 100 0), Call (Register (Base 1) 5 101 1), Call (Register_legacy (Base 1) 6 102 2),
     Call (Post (Base 1) 5 (Some [7])), Run 10 (\<lambda>k. 3)]"

definition scripts1 :: scripts where
  "scripts1 fn a post = (if fn = 100 then [Unregister (Base 1) 5 (Some 13), Post (Base 1) 6 (Some [1])] else [])"

fun finished :: "run_result option \<Rightarrow> bool" where
  "finished (Some (Finished w)) = True"
| "finished _ = False"

lemma loop_memory_is_returned_witness:
  "\<exists>w. ev_session 1 scripts1 steps1
       (world_of loop0 (snd (snd (esp_event_loop_create (Some \<lparr>args_queue_size = 4, has_task = False\<rparr>) True True True None heap1))))
         = Some (Finished w) \<and>
     mset (live (snd (esp_event_loop_delete (world_loop w) (world_heap w)))) = {#7#}"
proof -
  let ?H = "\<lparr>next_addr = 9, allocs = [True, True, True, True, True, True, False], live = [8, 7], bad_free = False\<rparr>"
  have create: "esp_event_loop_create (Some \<lparr>args_queue_size = 4, has_task = False\<rparr>) True True True None heap1 =
      (ESP_OK, Some loop0, ?H)"
    by (simp add: esp_event_loop_create_def calloc_def heap1_def loop0_def)
  have "finished (ev_session 1 scripts1 steps1 (world_of loop0 ?H))"
    by code_simp
  then obtain w where w: "ev_session 1 scripts1 steps1 (world_of loop0 ?H) = Some (Finished w)"
    by (auto elim: finished.elims)
  have "heap_ok heap1" "\<not> bad_free heap1" by (simp_all add: heap_ok_def heap1_def)
  from loop_memory_is_returned [OF create this w prod.collapse [symmetric]]
  have "mset (live (snd (esp_event_loop_delete (world_loop w) (world_heap w)))) = mset (live heap1)" by blast
  then have freed: "mset (live (snd (esp_event_loop_delete (world_loop w) (world_heap w)))) = {#7#}"
    by (simp add: heap1_def)
  show ?thesis by (intro exI [of _ w] conjI freed) (simp only: create snd_conv w)
qed

section \<open>A handler that unregisters itself\<close>

lemmas run_simps =
  run_handlers.simps [of _ _ None] run_handlers.simps [of _ _ "Some a" for a]
  run_ids.simps [of _ _ None] run_ids.simps [of _ _ "Some a" for a]
  run_bases.simps [of _ _ None] run_bases.simps [of _ _ "Some a" for a]
  run_loop_nodes.simps [of _ _ None] run_loop_nodes.simps [of _ _ "Some a" for a]

lemmas run_defs = dispatch_def run_loop_node_def run_base_def base_lists_def id_lists_def handler_lists_def

lemma first_registration:
  assumes "esp_event_handler_instance_register_with lp b i fn a H = (ESP_OK, Some c, lp', H')" and "loop_nodes lp = []"
  shows "\<exists>l m k h. let n = \<lparr>hn_addr = h, handler_ctx = c, ctx_handler = fn, ctx_arg = a\<rparr> in
     loop_nodes lp' =
       (if b = ESP_EVENT_ANY_BASE then [\<lparr>ln_addr = l, ln_handlers = [n], base_nodes = []\<rparr>]
        else if i = ESP_EVENT_ANY_ID
        then [\<lparr>ln_addr = l, ln_handlers = [], base_nodes = [\<lparr>bn_addr = m, bn_base = b, bn_handlers = [n], id_nodes = []\<rparr>]\<rparr>]
        else [\<lparr>ln_addr = l, ln_handlers = [],
               base_nodes = [\<lparr>bn_addr = m, bn_base = b, bn_handlers = [],
                              id_nodes = [\<lparr>in_addr = k, in_id = i, in_handlers = [n]\<rparr>]\<rparr>]\<rparr>])"
  using assms
  by (auto simp: esp_event_handler_instance_register_with_def esp_event_handler_register_with_internal_def
      loop_node_add_handler_def base_node_add_handler_def handler_instances_add_def Let_def
      split: if_splits prod.splits option.splits)

text \<open>C15: The one registration activity that the documentation allows to a handler.  The only handler of a loop
  unregisters itself while it runs.  Registered for an event id it is taken out and the dispatch finishes;
  registered for every event of a base, or for every event, it takes its node with it and the dispatch
  then reads the freed node.\<close>

theorem self_unregistration_reads_a_freed_node:
  assumes "esp_event_handler_instance_register_with lp b i fn a H = (ESP_OK, Some c, lp', H')"
    and "loop_nodes lp = []"
    and "S fn a post = [Unregister b i (Some c)]"
    and "listens (key_of post) (b, i)"
  shows "if i = ESP_EVENT_ANY_ID
         then \<exists>x. dispatch (script_env me S) post (world_of lp' H') = Some (Use_after_free x)
         else \<exists>w. dispatch (script_env me S) post (world_of lp' H') = Some (Finished w) \<and>
                loop_nodes (world_loop w) = [] \<and> executed w = [(fn, a, post)]"
proof -
  have key: "b = ESP_EVENT_ANY_BASE \<Longrightarrow> i = ESP_EVENT_ANY_ID"
    using assms(1) by (auto simp: esp_event_handler_instance_register_with_def esp_event_handler_register_with_internal_def split: if_splits)
  show ?thesis
    using first_registration [OF assms(1,2)] assms(3,4) key
    by (auto simp: Let_def run_defs run_simps world_of_def handler_execute_def script_env_def
      esp_event_handler_instance_unregister_with_def esp_event_handler_unregister_with_internal_def
      loop_node_remove_handler_def base_node_remove_handler_def removes_def listens_def key_of_def
      split: if_splits)
qed

lemma self_unregistration_reads_a_freed_node_witness:
  "case esp_event_handler_instance_register_with loop0 (Base 1) (- 1) 100 0 heap0 of
     (err, c, lp, H) \<Rightarrow>
       \<exists>x. dispatch (script_env 1 (\<lambda>fn a post. [Unregister (Base 1) (- 1) c])) \<lparr>post_base = Base 1, post_id = 5, post_data = No_data\<rparr>
             (world_of lp H) = Some (Use_after_free x)"
proof -
  let ?post = "\<lparr>post_base = Base 1, post_id = 5, post_data = No_data\<rparr>"
  let ?S = "\<lambda>fn a post. [Unregister (Base 1) (- 1) (Some 11)]"
  obtain lp H where reg: "esp_event_handler_instance_register_with loop0 (Base 1) (- 1) 100 0 heap0 = (ESP_OK, Some 11, lp, H)"
    by (simp add: esp_event_handler_instance_register_with_def esp_event_handler_register_with_internal_def
        loop_node_add_handler_def base_node_add_handler_def handler_instances_add_def calloc_def heap0_def loop0_def
        ESP_EVENT_ANY_ID_def)
  have "listens (key_of ?post) (Base 1, - 1)" by (simp add: listens_def key_of_def ESP_EVENT_ANY_ID_def)
  from self_unregistration_reads_a_freed_node [OF reg _ _ this, of ?S 1]
  have "\<exists>x. dispatch (script_env 1 ?S) ?post (world_of lp H) = Some (Use_after_free x)"
    by (simp add: loop0_def ESP_EVENT_ANY_ID_def)
  then show ?thesis unfolding reg by simp
qed

section \<open>Other behaviour\<close>

text \<open>A registration that fails changes nothing: not the loop, nor the blocks in use.\<close>

theorem failed_registration_changes_nothing:
  assumes "esp_event_handler_register_with_internal lp b i fn a legacy H = (err, c, lp', H')" and "err \<noteq> ESP_OK"
  shows "lp' = lp \<and> mset (live H') = mset (live H)"
  using registerD [OF assms(1)] assms(2) by (auto simp: moves_def)

text \<open>A legacy registration is overwritten by a second one only within the last list: here the function is
  registered twice for every event.\<close>

theorem legacy_registration_is_duplicated:
  "length (filter (\<lambda>r. fst r = (ESP_EVENT_ANY_BASE, - 1) \<and> ctx_handler (snd r) = 100)
     (registrations (fst (snd (do_calls 1 [Register_legacy ESP_EVENT_ANY_BASE (- 1) 100 0, Register_legacy (Base 1) (- 1) 101 1,
        Register_legacy ESP_EVENT_ANY_BASE (- 1) 100 2] (loop0, heap0)))))) = 2"
  by code_simp

text \<open>When its time expires, the run leaves the mark of the task that runs the loop.  From then on an
  event that this task posts does not wait for room in the queue, whatever time it gives.\<close>

theorem expired_run_keeps_the_mark:
  assumes "quiet env" and "addrs_ok (world_loop w)" and "loop_ok (world_loop w)" and "loop_task (world_loop w) = None"
    and "ev_queue (world_loop w) = post # posts" and "ticks \<noteq> portMAX_DELAY" and "uint ticks \<le> uint (clock 1 - clock 0)"
  shows "\<exists>w'. esp_event_loop_run env me ticks clock w = Some (Finished w') \<and> ticks_of_caller (world_loop w') me n = 0"
proof -
  let ?lp = "(world_loop w)\<lparr>ev_queue := posts, running_task := Some me\<rparr>"
  have "addrs_ok ?lp" "loop_ok ?lp"
    using assms(2,3) by (simp_all add: loop_ok_def addrs_ok_def base_lists_def id_lists_def handler_lists_def)
  then obtain w1 where w1: "dispatch env post (w\<lparr>world_loop := ?lp\<rparr>) = Some (Finished w1)" "world_loop w1 = ?lp"
    using dispatch_quiet [OF assms(1), of "w\<lparr>world_loop := ?lp\<rparr>" post] by (auto simp: ran_def)
  show ?thesis
    unfolding esp_event_loop_run_def
    using assms(4-7) w1 by (subst loop_run_from.simps) (simp add: Let_def ticks_of_caller_def)
qed

end
