(* ===== verification/Console_Split.thy ===== *)
theory Console_Split
  imports Prelude
begin

text \<open>
  The command line splitter of the console, \<open>components/console/split_argv.c\<close>.  The line is a buffer of bytes
  that ends with a zero; arguments are written back into it behind the read position and returned as
  offsets.  A read, a write or an entry of \<open>argv\<close> out of range is a trap.
\<close>

section \<open>The state machine\<close>

datatype split_state_t = SS_SPACE | SS_ARG | SS_QUOTED_ARG | SS_ARG_ESCAPED | SS_QUOTED_ARG_ESCAPED

definition QUOTE :: byte where "QUOTE = 34"
definition ESCAPE :: byte where "ESCAPE = 92"
definition SPACE :: byte where "SPACE = 32"

record split_t =
  line :: "byte list"
  argv :: "nat option list"
  split_state :: split_state_t
  argc :: nat
  next_arg_start :: nat
  out_ptr :: nat
  in_ptr :: nat

text \<open>An entry of \<open>argv\<close>, and the macro \<open>END_ARG\<close> without its terminating zero.\<close>

definition put_arg :: "split_t \<Rightarrow> split_t option" where
  "put_arg st =
     (if argc st < length (argv st)
      then Some (st\<lparr>argv := (argv st)[argc st := Some (next_arg_start st)], argc := argc st + 1\<rparr>) else None)"

definition END_ARG :: "split_t \<Rightarrow> (split_t \<times> byte option) option" where
  "END_ARG st = map_option (\<lambda>st1. (st1\<lparr>split_state := SS_SPACE\<rparr>, Some 0)) (put_arg st)"

text \<open>The state after a character, and the character to put out.\<close>

definition split_char :: "byte \<Rightarrow> split_t \<Rightarrow> (split_t \<times> byte option) option" where
  "split_char c st =
     (case split_state st of
        SS_SPACE \<Rightarrow>
          if c = SPACE then Some (st, None)
          else if c = QUOTE then Some (st\<lparr>next_arg_start := out_ptr st, split_state := SS_QUOTED_ARG\<rparr>, None)
          else if c = ESCAPE then Some (st\<lparr>next_arg_start := out_ptr st, split_state := SS_ARG_ESCAPED\<rparr>, None)
          else Some (st\<lparr>next_arg_start := out_ptr st, split_state := SS_ARG\<rparr>, Some c)
      | SS_QUOTED_ARG \<Rightarrow>
          if c = QUOTE then END_ARG st
          else if c = ESCAPE then Some (st\<lparr>split_state := SS_QUOTED_ARG_ESCAPED\<rparr>, None)
          else Some (st, Some c)
      | SS_ARG_ESCAPED \<Rightarrow>
          Some (st\<lparr>split_state := SS_ARG\<rparr>, if c = ESCAPE \<or> c = QUOTE \<or> c = SPACE then Some c else None)
      | SS_QUOTED_ARG_ESCAPED \<Rightarrow>
          Some (st\<lparr>split_state := SS_QUOTED_ARG\<rparr>, if c = ESCAPE \<or> c = QUOTE \<or> c = SPACE then Some c else None)
      | SS_ARG \<Rightarrow>
          if c = SPACE then END_ARG st
          else if c = ESCAPE then Some (st\<lparr>split_state := SS_ARG_ESCAPED\<rparr>, None)
          else Some (st, Some c))"

definition put_char :: "byte option \<Rightarrow> split_t \<Rightarrow> split_t option" where
  "put_char co st =
     (case co of
        None \<Rightarrow> Some st
      | Some c \<Rightarrow> if out_ptr st < length (line st)
                  then Some (st\<lparr>line := (line st)[out_ptr st := c], out_ptr := out_ptr st + 1\<rparr>) else None)"

lemma put_char_same: "put_char co st = Some st' \<Longrightarrow> length (line st') = length (line st) \<and> in_ptr st' = in_ptr st"
  by (auto simp: put_char_def split: option.splits if_splits)

lemma split_char_same:
  "split_char c st = Some (st', co) \<Longrightarrow> line st' = line st \<and> in_ptr st' = in_ptr st"
  by (auto simp: split_char_def END_ARG_def put_arg_def split: split_state_t.splits if_splits)

text \<open>The loop over the line: \<open>limit\<close> is \<open>argv_size - 1\<close>.\<close>

function split_loop :: "nat \<Rightarrow> split_t \<Rightarrow> split_t option" where
  "split_loop limit st =
     (if argc st < limit then
        if in_ptr st < length (line st) then
          if line st ! in_ptr st = 0 then Some st
          else (case split_char (line st ! in_ptr st) st of
                  None \<Rightarrow> None
                | Some (st1, co) \<Rightarrow>
                    (case put_char co st1 of
                       None \<Rightarrow> None
                     | Some st2 \<Rightarrow> split_loop limit (st2\<lparr>in_ptr := in_ptr st2 + 1\<rparr>)))
        else None
      else Some st)"
  by pat_completeness auto
termination
  by (relation "measure (\<lambda>(limit, st). length (line st) - in_ptr st)")
    (auto dest!: split_char_same put_char_same)

declare split_loop.simps [simp del]

text \<open>The buffer, the entries and the number of arguments.\<close>

definition esp_console_split_argv ::
  "byte list \<Rightarrow> nat option list \<Rightarrow> nat \<Rightarrow> (byte list \<times> nat option list \<times> nat) option" where
  "esp_console_split_argv buf av argv_size =
     do {
       let limit = sub32 argv_size 1;
       st \<leftarrow> split_loop limit \<lparr>line = buf, argv = av, split_state = SS_SPACE, argc = 0, next_arg_start = 0, out_ptr = 0, in_ptr = 0\<rparr>;
       assert_that (out_ptr st < length (line st));
       let st1 = st\<lparr>line := (line st)[out_ptr st := 0]\<rparr>;
       st2 \<leftarrow> if split_state st1 \<noteq> SS_SPACE \<and> argc st1 < limit then put_arg st1 else Some st1;
       assert_that (argc st2 < length (argv st2));
       Some (line st2, (argv st2)[argc st2 := None], argc st2)
     }"

section \<open>The words of a line\<close>

text \<open>The reference: at most \<open>n\<close> words, read from left to right, \<open>cur\<close> being the word that is read.\<close>

fun words_of :: "nat \<Rightarrow> split_state_t \<Rightarrow> byte list \<Rightarrow> byte list \<Rightarrow> byte list list" where
  "words_of 0 s cur cs = []"
| "words_of (Suc n) s cur [] = (if s = SS_SPACE then [] else [cur])"
| "words_of (Suc n) SS_SPACE cur (c # cs) =
     (if c = SPACE then words_of (Suc n) SS_SPACE [] cs
      else if c = QUOTE then words_of (Suc n) SS_QUOTED_ARG [] cs
      else if c = ESCAPE then words_of (Suc n) SS_ARG_ESCAPED [] cs
      else words_of (Suc n) SS_ARG [c] cs)"
| "words_of (Suc n) SS_QUOTED_ARG cur (c # cs) =
     (if c = QUOTE then cur # words_of n SS_SPACE [] cs
      else if c = ESCAPE then words_of (Suc n) SS_QUOTED_ARG_ESCAPED cur cs
      else words_of (Suc n) SS_QUOTED_ARG (cur @ [c]) cs)"
| "words_of (Suc n) SS_ARG cur (c # cs) =
     (if c = SPACE then cur # words_of n SS_SPACE [] cs
      else if c = ESCAPE then words_of (Suc n) SS_ARG_ESCAPED cur cs
      else words_of (Suc n) SS_ARG (cur @ [c]) cs)"
| "words_of (Suc n) SS_ARG_ESCAPED cur (c # cs) =
     words_of (Suc n) SS_ARG (if c = ESCAPE \<or> c = QUOTE \<or> c = SPACE then cur @ [c] else cur) cs"
| "words_of (Suc n) SS_QUOTED_ARG_ESCAPED cur (c # cs) =
     words_of (Suc n) SS_QUOTED_ARG (if c = ESCAPE \<or> c = QUOTE \<or> c = SPACE then cur @ [c] else cur) cs"

text \<open>The string at an offset of a buffer.\<close>

definition c_string :: "byte list \<Rightarrow> nat \<Rightarrow> byte list" where
  "c_string buf p = takeWhile (\<lambda>b. b \<noteq> 0) (drop p buf)"

section \<open>The splitter computes the words\<close>

text \<open>
  In the first \<open>out_ptr\<close> bytes lie the words that are complete, at the offsets in \<open>argv\<close>, and then the one
  that is read; the write position is not after the read position.
\<close>

definition placed :: "byte list \<Rightarrow> nat \<Rightarrow> byte list \<Rightarrow> bool" where
  "placed P p w \<longleftrightarrow> (\<exists>x y. P = x @ w @ 0 # y \<and> length x = p) \<and> 0 \<notin> set w"

definition split_inv :: "split_t \<Rightarrow> byte list list \<Rightarrow> byte list \<Rightarrow> byte list \<Rightarrow> bool" where
  "split_inv st ws cur input \<longleftrightarrow>
     (\<exists>P rest. take (out_ptr st) (line st) = P @ cur \<and> drop (in_ptr st) (line st) = input @ 0 # rest \<and>
        out_ptr st \<le> in_ptr st \<and>
        (split_state st \<noteq> SS_SPACE \<longrightarrow> next_arg_start st = length P) \<and> (split_state st = SS_SPACE \<longrightarrow> cur = []) \<and>
        0 \<notin> set cur \<and> 0 \<notin> set input \<and>
        argc st = length ws \<and> argc st \<le> length (argv st) \<and>
        (\<exists>ps. map Some ps = take (argc st) (argv st) \<and> list_all2 (placed P) ps ws))"

text \<open>The three kinds of step: nothing is put out, a character of the word, and the end of the word.\<close>

lemma inv_in_range:
  assumes "split_inv st ws cur (c # cs)"
  shows "in_ptr st < length (line st)" and "out_ptr st < length (line st)" and "line st ! in_ptr st = c" and "c \<noteq> 0"
proof -
  obtain rest where d: "drop (in_ptr st) (line st) = c # cs @ 0 # rest" and le: "out_ptr st \<le> in_ptr st" and "0 \<notin> set (c # cs)"
    using assms by (auto simp: split_inv_def)
  then show "in_ptr st < length (line st)" by (metis drop_eq_Nil2 leI list.distinct(1))
  then show "out_ptr st < length (line st)" using le by simp
  show "line st ! in_ptr st = c" using d \<open>in_ptr st < length (line st)\<close> by (metis Cons_nth_drop_Suc list.inject)
  show "c \<noteq> 0" using \<open>0 \<notin> set (c # cs)\<close> by auto
qed

lemma inv_skip:
  assumes "split_inv st ws cur (c # cs)" and "split_state st' \<noteq> SS_SPACE \<longleftrightarrow> split_state st \<noteq> SS_SPACE"
    and "st' = st\<lparr>split_state := s\<rparr>"
  shows "split_inv (st'\<lparr>in_ptr := in_ptr st + 1\<rparr>) ws cur cs"
  using assms by (auto simp: split_inv_def drop_Suc tl_drop [symmetric])

lemma inv_start:
  assumes "split_inv st ws cur (c # cs)" and "split_state st = SS_SPACE"
  shows "split_inv (st\<lparr>next_arg_start := out_ptr st, split_state := s, in_ptr := in_ptr st + 1\<rparr>) ws [] cs"
proof -
  have "length (take (out_ptr st) (line st)) = out_ptr st" using inv_in_range [OF assms(1)] by simp
  then show ?thesis using assms by (auto simp: split_inv_def drop_Suc tl_drop [symmetric])
qed

lemma inv_enter:
  assumes "split_inv st ws cur (c # cs)" and "split_state st = SS_SPACE"
  shows "split_inv (st\<lparr>next_arg_start := out_ptr st, split_state := s\<rparr>) ws [] (c # cs)"
proof -
  have "length (take (out_ptr st) (line st)) = out_ptr st" using inv_in_range [OF assms(1)] by simp
  then show ?thesis using assms by (auto simp: split_inv_def)
qed

lemma after_write:
  assumes "split_inv st ws cur (c # cs)" and "take (out_ptr st) (line st) = P @ cur"
    and "drop (in_ptr st) (line st) = (c # cs) @ 0 # rest"
  shows "take (out_ptr st + 1) ((line st)[out_ptr st := b]) = P @ cur @ [b]"
    and "drop (in_ptr st + 1) ((line st)[out_ptr st := b]) = cs @ 0 # rest"
proof -
  have "out_ptr st < length (line st)" and le: "out_ptr st < in_ptr st + 1"
    using assms(1) inv_in_range(2) by (auto simp: split_inv_def less_Suc_eq_le)
  then show "take (out_ptr st + 1) ((line st)[out_ptr st := b]) = P @ cur @ [b]"
    by (simp add: take_Suc_conv_app_nth assms(2))
  have "drop (in_ptr st + 1) ((line st)[out_ptr st := b]) = drop 1 (drop (in_ptr st) (line st))"
    using le by (simp only: drop_update_cancel drop_drop add.commute)
  then show "drop (in_ptr st + 1) ((line st)[out_ptr st := b]) = cs @ 0 # rest" by (simp add: assms(3))
qed

lemma inv_put:
  assumes "split_inv st ws cur (c # cs)" and "split_state st \<noteq> SS_SPACE" and "b \<noteq> 0" and "s \<noteq> SS_SPACE"
  shows "split_inv (st\<lparr>split_state := s, line := (line st)[out_ptr st := b], out_ptr := out_ptr st + 1, in_ptr := in_ptr st + 1\<rparr>)
           ws (cur @ [b]) cs"
proof -
  obtain P rest ps where at: "take (out_ptr st) (line st) = P @ cur" "drop (in_ptr st) (line st) = (c # cs) @ 0 # rest"
    and others: "out_ptr st \<le> in_ptr st" "next_arg_start st = length P" "0 \<notin> set cur" "0 \<notin> set cs"
      "argc st = length ws" "argc st \<le> length (argv st)"
    and ps: "map Some ps = take (argc st) (argv st)" "list_all2 (placed P) ps ws"
    using assms(1,2) by (auto simp: split_inv_def)
  show ?thesis
    unfolding split_inv_def
    by (rule exI [of _ P], rule exI [of _ rest])
      (use after_write [OF assms(1) at, of b] others assms(3,4) ps in auto)
qed

lemma placed_more: "placed P p w \<Longrightarrow> placed (P @ Q) p w"
  unfolding placed_def by (metis append.assoc append_Cons)

lemma placed_end: "0 \<notin> set w \<Longrightarrow> placed (P @ w @ [0]) (length P) w"
  by (auto simp: placed_def)

lemma inv_end:
  assumes "split_inv st ws cur (c # cs)" and "split_state st \<noteq> SS_SPACE" and "argc st < length (argv st)"
  shows "split_inv (st\<lparr>argv := (argv st)[argc st := Some (next_arg_start st)], argc := argc st + 1, split_state := SS_SPACE,
             line := (line st)[out_ptr st := 0], out_ptr := out_ptr st + 1, in_ptr := in_ptr st + 1\<rparr>)
           (ws @ [cur]) [] cs"
proof -
  obtain P rest ps where at: "take (out_ptr st) (line st) = P @ cur" "drop (in_ptr st) (line st) = (c # cs) @ 0 # rest"
    and others: "out_ptr st \<le> in_ptr st" "next_arg_start st = length P" "0 \<notin> set cur" "0 \<notin> set cs"
      "argc st = length ws"
    and ps: "map Some ps = take (argc st) (argv st)" "list_all2 (placed P) ps ws"
    using assms(1,2) by (auto simp: split_inv_def)
  have "list_all2 (placed (P @ cur @ [0])) (ps @ [length P]) (ws @ [cur])"
    using list_all2_mono [OF ps(2), of "placed (P @ cur @ [0])"] placed_more placed_end [OF others(3)]
    by (intro list_all2_appendI) auto
  moreover have "map Some (ps @ [length P]) = take (argc st + 1) ((argv st)[argc st := Some (next_arg_start st)])"
    using assms(3) ps(1) others(2) by (simp add: take_Suc_conv_app_nth)
  ultimately have args: "\<exists>qs. map Some qs = take (argc st + 1) ((argv st)[argc st := Some (next_arg_start st)]) \<and>
      list_all2 (placed (P @ cur @ [0])) qs (ws @ [cur])" by blast
  show ?thesis
    unfolding split_inv_def
    by (rule exI [of _ "P @ cur @ [0]"], rule exI [of _ rest])
      (use after_write [OF assms(1) at, of 0] others args assms(3) in simp)
qed

text \<open>One character of the input.\<close>

definition step_ok :: "nat \<Rightarrow> split_t \<Rightarrow> byte list list \<Rightarrow> byte list \<Rightarrow> byte \<Rightarrow> byte list \<Rightarrow> bool" where
  "step_ok limit st ws cur c cs \<longleftrightarrow>
     (\<exists>st1 co st2 ws' cur'. split_char c st = Some (st1, co) \<and> put_char co st1 = Some st2 \<and>
        split_inv (st2\<lparr>in_ptr := in_ptr st2 + 1\<rparr>) ws' cur' cs \<and> length (argv st2) = length (argv st) \<and> length ws' \<le> limit \<and>
        ws @ words_of (limit - length ws) (split_state st) cur (c # cs) =
        ws' @ words_of (limit - length ws') (split_state st2) cur' cs)"

lemma step_okI:
  assumes "split_char c st = Some (st1, co)" and "put_char co st1 = Some st2"
    and "split_inv (st2\<lparr>in_ptr := in_ptr st2 + 1\<rparr>) ws' cur' cs" and "length (argv st2) = length (argv st)"
    and "length ws' \<le> limit"
    and "ws @ words_of (limit - length ws) (split_state st) cur (c # cs) =
         ws' @ words_of (limit - length ws') (split_state st2) cur' cs"
  shows "step_ok limit st ws cur c cs"
  using assms unfolding step_ok_def by blast

lemma split_step:
  assumes inv: "split_inv st ws cur (c # cs)" and "length ws < limit" and "limit < length (argv st)"
  shows "step_ok limit st ws cur c cs"
proof -
  obtain n where n: "limit - length ws = Suc n" "limit - Suc (length ws) = n" using assms(2) by (cases "limit - length ws") auto
  have room: "argc st < length (argv st)" using assms by (auto simp: split_inv_def)
  note range = inv_in_range [OF inv]
  have space: "split_state st = SS_SPACE \<Longrightarrow> cur = []" using inv by (auto simp: split_inv_def)
  have special: "QUOTE \<noteq> SPACE" "ESCAPE \<noteq> SPACE" "ESCAPE \<noteq> QUOTE" by (simp_all add: QUOTE_def SPACE_def ESCAPE_def)
  note defs = split_char_def END_ARG_def put_arg_def put_char_def
  have skip: "split_state st \<noteq> SS_SPACE \<Longrightarrow> s \<noteq> SS_SPACE \<Longrightarrow>
      split_inv (st\<lparr>split_state := s, in_ptr := in_ptr st + 1\<rparr>) ws cur cs" for s
    using inv_skip [OF inv, of "st\<lparr>split_state := s\<rparr>" s] by simp
  have put: "split_inv (st\<lparr>line := (line st)[out_ptr st := c], out_ptr := out_ptr st + 1, in_ptr := in_ptr st + 1\<rparr>)
      ws (cur @ [c]) cs" if "split_state st \<noteq> SS_SPACE"
    using inv_put [OF inv that range(4) that] by (cases st) simp
  show ?thesis
  proof (cases "split_state st")
    case SS_SPACE
    note start = inv_start [OF inv SS_SPACE]
    show ?thesis
    proof (cases "c = SPACE \<or> c = QUOTE \<or> c = ESCAPE")
      case True
      then show ?thesis
        using start [of SS_QUOTED_ARG] start [of SS_ARG_ESCAPED] inv_skip [OF inv, of st SS_SPACE] SS_SPACE space assms(2) n special
        by (elim disjE) (auto intro!: step_okI simp: defs)
    next
      case False
      have "split_inv (st\<lparr>next_arg_start := out_ptr st, split_state := SS_ARG, line := (line st)[out_ptr st := c],
          out_ptr := out_ptr st + 1, in_ptr := in_ptr st + 1\<rparr>) ws [c] cs"
        using inv_put [OF inv_enter [OF inv SS_SPACE, of SS_ARG] _ range(4), of SS_ARG] by simp
      then show ?thesis
        using False SS_SPACE range n assms(2) by (auto intro!: step_okI simp: defs)
    qed
  next
    case SS_ARG
    then show ?thesis
      using skip [of SS_ARG_ESCAPED] put inv_end [OF inv _ room] range n assms(2) room special
      by (cases "c = SPACE"; cases "c = ESCAPE") (auto intro!: step_okI simp: defs)
  next
    case SS_QUOTED_ARG
    then show ?thesis
      using skip [of SS_QUOTED_ARG_ESCAPED] put inv_end [OF inv _ room] range n assms(2) room special
      by (cases "c = QUOTE"; cases "c = ESCAPE") (auto intro!: step_okI simp: defs)
  next
    case SS_ARG_ESCAPED
    then show ?thesis
      using skip [of SS_ARG] inv_put [OF inv _ range(4), of SS_ARG] range n assms(2)
      by (cases "c = ESCAPE \<or> c = QUOTE \<or> c = SPACE") (auto intro!: step_okI simp: defs)
  next
    case SS_QUOTED_ARG_ESCAPED
    then show ?thesis
      using skip [of SS_QUOTED_ARG] inv_put [OF inv _ range(4), of SS_QUOTED_ARG] range n assms(2)
      by (cases "c = ESCAPE \<or> c = QUOTE \<or> c = SPACE") (auto intro!: step_okI simp: defs)
  qed
qed

lemma inv_at_end:
  assumes "split_inv st ws cur []"
  shows "in_ptr st < length (line st) \<and> line st ! in_ptr st = 0"
proof -
  obtain rest where d: "drop (in_ptr st) (line st) = 0 # rest" using assms by (auto simp: split_inv_def)
  then have "in_ptr st < length (line st)" by (metis drop_eq_Nil2 leI list.distinct(1))
  then show ?thesis using d by (simp add: nth_via_drop)
qed

lemma split_loop_length: "split_loop limit st = Some st' \<Longrightarrow> length (line st') = length (line st)"
proof (induction limit st rule: split_loop.induct)
  case (1 limit st)
  show ?case
  proof (cases "argc st < limit \<and> line st ! in_ptr st \<noteq> 0")
    case False
    then show ?thesis using 1(2) by (subst (asm) split_loop.simps) (auto split: if_splits)
  next
    case True
    then obtain st1 co st2 where step: "in_ptr st < length (line st)" "split_char (line st ! in_ptr st) st = Some (st1, co)"
      "put_char co st1 = Some st2" "split_loop limit (st2\<lparr>in_ptr := in_ptr st2 + 1\<rparr>) = Some st'"
      using 1(2) by (subst (asm) split_loop.simps) (auto split: if_splits option.splits)
    have "length (line st') = length (line (st2\<lparr>in_ptr := in_ptr st2 + 1\<rparr>))"
      using True step by (intro 1(1) [OF _ _ _ step(2) refl step(3)]) auto
    then show ?thesis using split_char_same [OF step(2)] put_char_same [OF step(3)] by simp
  qed
qed

text \<open>The loop reads the input, or fills \<open>argv\<close>.\<close>

lemma split_loop_words:
  assumes "split_inv st ws cur input" and "length ws \<le> limit" and "limit < length (argv st)"
  shows "\<exists>st' ws' cur' input'. split_loop limit st = Some st' \<and> split_inv st' ws' cur' input' \<and>
           (length ws' = limit \<or> input' = []) \<and> length ws' \<le> limit \<and> length (argv st') = length (argv st) \<and>
           ws @ words_of (limit - length ws) (split_state st) cur input =
           ws' @ words_of (limit - length ws') (split_state st') cur' input'"
  using assms
proof (induction input arbitrary: st ws cur)
  case Nil
  then have "in_ptr st < length (line st)" and "line st ! in_ptr st = 0" using inv_at_end by blast+
  then have "split_loop limit st = Some st" by (subst split_loop.simps) simp
  then show ?case using Nil by blast
next
  case (Cons c input)
  have argc: "argc st = length ws" using Cons.prems(1) by (auto simp: split_inv_def)
  show ?case
  proof (cases "length ws = limit")
    case True
    then have "split_loop limit st = Some st" using argc by (subst split_loop.simps) simp
    then show ?thesis using Cons.prems True by blast
  next
    case False
    then have less: "length ws < limit" using Cons.prems(2) by simp
    obtain st1 co st2 ws1 cur1 where step: "split_char c st = Some (st1, co)" "put_char co st1 = Some st2"
      and inv: "split_inv (st2\<lparr>in_ptr := in_ptr st2 + 1\<rparr>) ws1 cur1 input"
      and len: "length (argv st2) = length (argv st)" "length ws1 \<le> limit"
      and words: "ws @ words_of (limit - length ws) (split_state st) cur (c # input) =
        ws1 @ words_of (limit - length ws1) (split_state st2) cur1 input"
      using split_step [OF Cons.prems(1) less Cons.prems(3)] unfolding step_ok_def by blast
    have "split_loop limit st = split_loop limit (st2\<lparr>in_ptr := in_ptr st2 + 1\<rparr>)"
      using inv_in_range [OF Cons.prems(1)] less argc step by (subst split_loop.simps) simp
    then show ?thesis using Cons.IH [OF inv len(2)] len(1) Cons.prems(3) words by simp
  qed
qed

lemma placed_c_string:
  assumes "placed P p w"
  shows "c_string (P @ R) p = w"
proof -
  obtain x y where P: "P = x @ w @ 0 # y" "length x = p" and w: "0 \<notin> set w" using assms by (auto simp: placed_def)
  have "takeWhile (\<lambda>b. b \<noteq> 0) (w @ 0 # y @ R) = w"
    using w by (induction w) auto
  then show ?thesis using P by (simp add: c_string_def)
qed

text \<open>The result: as many arguments as there are words, within the size of \<open>argv\<close>, each at its offset, and a
  null pointer after them; nothing outside the buffers is touched.\<close>

theorem split_argv_words:
  assumes "0 \<notin> set cs" and "0 < length av" and "length av < two32"
  shows "\<exists>buf' ps av'. esp_console_split_argv (cs @ 0 # rest) av (length av) =
             Some (buf', map Some ps @ None # av', length ps) \<and>
           map (c_string buf') ps = words_of (length av - 1) SS_SPACE [] cs \<and> length ps < length av \<and>
           length buf' = length (cs @ 0 # rest) \<and> length av' = length av - 1 - length ps"
proof -
  let ?limit = "length av - 1"
  let ?st = "\<lparr>line = cs @ 0 # rest, argv = av, split_state = SS_SPACE, argc = 0, next_arg_start = 0, out_ptr = 0, in_ptr = 0\<rparr>"
  have limit: "sub32 (length av) 1 = ?limit" using sub32_eq [of 1 "length av"] assms(2,3) by linarith
  have "split_inv ?st [] [] cs" using assms(1) by (simp add: split_inv_def)
  from split_loop_words [OF this, of ?limit] assms(2)
  obtain st ws cur input where loop: "split_loop ?limit ?st = Some st" and inv: "split_inv st ws cur input"
    and stop: "length ws = ?limit \<or> input = []" and len: "length ws \<le> ?limit" "length (argv st) = length av"
    and words: "words_of ?limit SS_SPACE [] cs = ws @ words_of (?limit - length ws) (split_state st) cur input"
    by auto
  have size: "length (line st) = length (cs @ 0 # rest)" using split_loop_length [OF loop] by simp
  obtain P ps where at: "take (out_ptr st) (line st) = P @ cur" and out: "out_ptr st < length (line st)"
    and start: "split_state st \<noteq> SS_SPACE \<longrightarrow> next_arg_start st = length P" and cur: "0 \<notin> set cur" "split_state st = SS_SPACE \<longrightarrow> cur = []"
    and argc: "argc st = length ws" and ps: "map Some ps = take (length ws) (argv st)" "list_all2 (placed P) ps ws"
    using inv by (fastforce simp: split_inv_def dest: arg_cong [where f = length])
  let ?line = "(line st)[out_ptr st := 0]"
  have line: "?line = (P @ cur @ [0]) @ drop (out_ptr st + 1) (line st)"
    using out at by (simp add: upd_conv_take_nth_drop)
  have strings: "map (c_string ?line) qs = vs" if "list_all2 (placed (P @ cur @ [0])) qs vs" for qs vs
    using that unfolding line by (induction rule: list_all2_induct) (simp_all only: list.map placed_c_string)
  have placed_ws: "list_all2 (placed (P @ cur @ [0])) ps ws"
    using list_all2_mono [OF ps(2)] placed_more by blast
  have ps_len: "length ps = length ws" using ps(2) by (rule list_all2_lengthD)
  show ?thesis
  proof (cases "split_state st \<noteq> SS_SPACE \<and> length ws < ?limit")
    case True
    then have "input = []" using stop by auto
    moreover obtain n where "?limit - length ws = Suc n" using True by (cases "?limit - length ws") auto
    ultimately have all: "words_of ?limit SS_SPACE [] cs = ws @ [cur]" using words True by simp
    have room: "length ws + 1 < length av" using True by linarith
    let ?ps = "ps @ [length P]"
    have args: "map Some ?ps = take (length ws + 1) ((argv st)[length ws := Some (next_arg_start st)])"
      using ps(1) start True len room by (simp add: take_Suc_conv_app_nth)
    have av': "(argv st)[length ws := Some (next_arg_start st), Suc (length ws) := None] =
        map Some ?ps @ None # drop (length ws + 2) (argv st)"
      unfolding args using room len by (simp add: upd_conv_take_nth_drop)
    have "list_all2 (placed (P @ cur @ [0])) ?ps (ws @ [cur])"
      using placed_ws placed_end [OF cur(1)] by (intro list_all2_appendI) auto
    from strings [OF this] have strs: "map (c_string ?line) ?ps = words_of ?limit SS_SPACE [] cs" by (simp only: all)
    have result: "esp_console_split_argv (cs @ 0 # rest) av (length av) =
        Some (?line, map Some ?ps @ None # drop (length ws + 2) (argv st), length ?ps)"
      using loop limit out True argc len room av' ps_len
      by (simp add: esp_console_split_argv_def put_arg_def)
    show ?thesis
      using result strs size len room ps_len
      by (intro exI [of _ ?line] exI [of _ ?ps] exI [of _ "drop (length ws + 2) (argv st)"]) simp
  next
    case False
    then have all: "words_of ?limit SS_SPACE [] cs = ws"
      using words stop len by (cases "?limit - length ws") auto
    have room: "length ws < length av" using len assms(2) by linarith
    have av': "(argv st)[length ws := None] = map Some ps @ None # drop (length ws + 1) (argv st)"
      unfolding ps(1) using room len by (simp add: upd_conv_take_nth_drop)
    from strings [OF placed_ws] have strs: "map (c_string ?line) ps = words_of ?limit SS_SPACE [] cs" by (simp only: all)
    have result: "esp_console_split_argv (cs @ 0 # rest) av (length av) =
        Some (?line, map Some ps @ None # drop (length ws + 1) (argv st), length ps)"
      using loop limit out False argc len room av' ps_len
      by (auto simp: esp_console_split_argv_def put_arg_def)
    show ?thesis
      using result strs size len room ps_len
      by (intro exI [of _ ?line] exI [of _ ps] exI [of _ "drop (length ws + 1) (argv st)"]) simp
  qed
qed

end
