(* ===== verification/Console.thy ===== *)
theory Console
  imports Console_Split Blocks
begin

text \<open>
  The command table of the console, \<open>components/console/commands.c\<close>: registration, lookup, completion and
  hints, and the run of a command line.  The text of hints generated from an argument table, and what
  commands do, are parameters.  Strings are byte lists without the terminating zero.
\<close>

section \<open>State\<close>

text \<open>A hint is a block of the heap with its text; functions, argument tables and contexts are numbers.\<close>

record cmd_item_t =
  item_addr :: nat
  command :: "byte list"
  help_text :: "byte list option"
  hint :: "(nat \<times> byte list) option"
  func :: "nat option"
  func_w_context :: "nat option"
  argtable :: "nat option"
  cmd_context :: nat

record esp_console_cmd_t =
  cmd_command :: "byte list option"
  cmd_help :: "byte list option"
  cmd_hint :: "byte list option"
  cmd_func :: "nat option"
  cmd_argtable :: "nat option"
  cmd_func_w_context :: "nat option"
  cmd_ctx :: nat

record esp_console_config_t =
  max_cmdline_length :: nat
  max_cmdline_args :: nat
  heap_alloc_caps :: nat
  hint_color :: int
  hint_bold :: int

record console_t =
  s_cmd_list :: "cmd_item_t list"
  s_config :: esp_console_config_t
  s_tmp_line_buf :: "(nat \<times> byte list) option"
  s_verbose_level :: nat
  console_heap :: block_heap

definition ANSI_COLOR_DEFAULT :: int where "ANSI_COLOR_DEFAULT = 39"
definition ESP_CONSOLE_HELP_VERBOSE_LEVEL_MAX_NUM :: nat where "ESP_CONSOLE_HELP_VERBOSE_LEVEL_MAX_NUM = 2"

abbreviation with_heap :: "block_heap \<Rightarrow> console_t \<Rightarrow> console_t" where
  "with_heap H c \<equiv> c\<lparr>console_heap := H\<rparr>"

section \<open>Initialisation\<close>

text \<open>\<open>caps\<close> is \<open>MALLOC_CAP_DEFAULT\<close>.\<close>

definition esp_console_init :: "nat \<Rightarrow> esp_console_config_t option \<Rightarrow> console_t \<Rightarrow> esp_err_t \<times> console_t" where
  "esp_console_init caps config c =
     (case config of
        None \<Rightarrow> (ESP_ERR_INVALID_ARG, c)
      | Some cfg \<Rightarrow>
          if s_tmp_line_buf c \<noteq> None then (ESP_ERR_INVALID_STATE, c)
          else let cfg1 = (if hint_color cfg = 0 then cfg\<lparr>hint_color := ANSI_COLOR_DEFAULT\<rparr> else cfg);
                   cfg2 = (if heap_alloc_caps cfg1 = 0 then cfg1\<lparr>heap_alloc_caps := caps\<rparr> else cfg1);
                   c1 = c\<lparr>s_config := cfg2\<rparr>
               in case calloc (console_heap c1) of
                    (None, H) \<Rightarrow> (ESP_ERR_NO_MEM, with_heap H c1)
                  | (Some a, H) \<Rightarrow>
                      (ESP_OK, (with_heap H c1)\<lparr>s_tmp_line_buf := Some (a, replicate (max_cmdline_length cfg) 0)\<rparr>))"

definition free_hint :: "cmd_item_t \<Rightarrow> block_heap \<Rightarrow> block_heap" where
  "free_hint item H = (case hint item of None \<Rightarrow> H | Some (a, _) \<Rightarrow> heap_free a H)"

definition esp_console_deinit :: "console_t \<Rightarrow> esp_err_t \<times> console_t" where
  "esp_console_deinit c =
     (case s_tmp_line_buf c of
        None \<Rightarrow> (ESP_ERR_INVALID_STATE, c)
      | Some (a, _) \<Rightarrow>
          (ESP_OK, c\<lparr>s_tmp_line_buf := None, s_cmd_list := [],
             console_heap := fold (\<lambda>it H. heap_free (item_addr it) (free_hint it H)) (s_cmd_list c) (heap_free a (console_heap c))\<rparr>))"

section \<open>The table\<close>

definition find_command_by_name :: "byte list \<Rightarrow> console_t \<Rightarrow> cmd_item_t option" where
  "find_command_by_name name c = find (\<lambda>it. length (command it) = length name \<and> command it = name) (s_cmd_list c)"

text \<open>The item leaves the list and its hint is freed; the pointer to the hint stays as it is.\<close>

definition esp_console_rm_item_free_hint :: "cmd_item_t \<Rightarrow> console_t \<Rightarrow> console_t" where
  "esp_console_rm_item_free_hint item c =
     c\<lparr>s_cmd_list := filter (\<lambda>it. item_addr it \<noteq> item_addr item) (s_cmd_list c),
       console_heap := free_hint item (console_heap c)\<rparr>"

definition esp_console_cmd_deregister :: "byte list \<Rightarrow> console_t \<Rightarrow> esp_err_t \<times> console_t" where
  "esp_console_cmd_deregister cmd_name c =
     (case find_command_by_name cmd_name c of
        None \<Rightarrow> (ESP_ERR_INVALID_ARG, c)
      | Some item \<Rightarrow>
          let c1 = esp_console_rm_item_free_hint item c
          in (ESP_OK, with_heap (heap_free (item_addr item) (console_heap c1)) c1))"

text \<open>\<open>strcmp a b > 0\<close>.\<close>

fun strcmp_greater :: "byte list \<Rightarrow> byte list \<Rightarrow> bool" where
  "strcmp_greater [] bs = False"
| "strcmp_greater (a # as) [] = True"
| "strcmp_greater (a # as) (b # bs) = (if a = b then strcmp_greater as bs else b < a)"

text \<open>The place in the list: before the first greater name when the help is sorted, at the end otherwise.\<close>

fun insert_sorted :: "cmd_item_t \<Rightarrow> cmd_item_t list \<Rightarrow> cmd_item_t list" where
  "insert_sorted item [] = [item]"
| "insert_sorted item (it # its) =
     (if strcmp_greater (command it) (command item) then item # it # its else it # insert_sorted item its)"

definition insert_item :: "bool \<Rightarrow> cmd_item_t \<Rightarrow> cmd_item_t list \<Rightarrow> cmd_item_t list" where
  "insert_item sorted_help item its = (if sorted_help then insert_sorted item its else its @ [item])"

text \<open>\<open>asprintf\<close> and \<open>strdup\<close>: a hint in a new block.  When \<open>asprintf\<close> fails the pointer stays as it is.\<close>

definition new_hint ::
  "(nat \<Rightarrow> byte list) \<Rightarrow> esp_console_cmd_t \<Rightarrow> (nat \<times> byte list) option \<Rightarrow> block_heap
     \<Rightarrow> (nat \<times> byte list) option \<times> block_heap" where
  "new_hint syntax_of cmd old H =
     (case cmd_hint cmd of
        Some text \<Rightarrow> (case calloc H of (None, H1) \<Rightarrow> (old, H1) | (Some a, H1) \<Rightarrow> (Some (a, SPACE # text), H1))
      | None \<Rightarrow>
          (case cmd_argtable cmd of
             Some tab \<Rightarrow> (case calloc H of (None, H1) \<Rightarrow> (None, H1) | (Some a, H1) \<Rightarrow> (Some (a, syntax_of tab), H1))
           | None \<Rightarrow> (old, H)))"

text \<open>The fields that a registration sets in an item that is new or was taken out of the list.\<close>

definition fill_item :: "esp_console_cmd_t \<Rightarrow> byte list \<Rightarrow> (nat \<times> byte list) option \<Rightarrow> cmd_item_t \<Rightarrow> cmd_item_t" where
  "fill_item cmd name h item =
     (let item1 = item\<lparr>command := name, help_text := cmd_help cmd, hint := h, argtable := cmd_argtable cmd\<rparr>
      in if cmd_func cmd \<noteq> None then item1\<lparr>func := cmd_func cmd\<rparr>
         else item1\<lparr>func_w_context := cmd_func_w_context cmd, cmd_context := cmd_ctx cmd\<rparr>)"

definition esp_console_cmd_register ::
  "bool \<Rightarrow> (nat \<Rightarrow> byte list) \<Rightarrow> esp_console_cmd_t option \<Rightarrow> console_t \<Rightarrow> esp_err_t \<times> console_t" where
  "esp_console_cmd_register sorted_help syntax_of cmd_arg c =
     (case cmd_arg of
        None \<Rightarrow> (ESP_ERR_INVALID_ARG, c)
      | Some cmd \<Rightarrow>
          (case cmd_command cmd of
             None \<Rightarrow> (ESP_ERR_INVALID_ARG, c)
           | Some name \<Rightarrow>
               if SPACE \<in> set name then (ESP_ERR_INVALID_ARG, c)
               else if (cmd_func cmd = None \<and> cmd_func_w_context cmd = None) \<or> (cmd_func cmd \<noteq> None \<and> cmd_func_w_context cmd \<noteq> None)
               then (ESP_ERR_INVALID_ARG, c)
               else let taken =
                      (case find_command_by_name name c of
                         None \<Rightarrow>
                           (case calloc (console_heap c) of
                              (None, H) \<Rightarrow> (None, with_heap H c)
                            | (Some a, H) \<Rightarrow>
                                (Some \<lparr>item_addr = a, command = [], help_text = None, hint = None, func = None,
                                       func_w_context = None, argtable = None, cmd_context = 0\<rparr>, with_heap H c))
                       | Some item \<Rightarrow> (Some item, esp_console_rm_item_free_hint item c))
                    in case taken of
                         (None, c1) \<Rightarrow> (ESP_ERR_NO_MEM, c1)
                       | (Some item, c1) \<Rightarrow>
                           let (h, H) = new_hint syntax_of cmd (hint item) (console_heap c1)
                           in (ESP_OK, c1\<lparr>s_cmd_list := insert_item sorted_help (fill_item cmd name h item) (s_cmd_list c1),
                                        console_heap := H\<rparr>)))"

section \<open>Completion and hints\<close>

definition esp_console_get_completion :: "byte list \<Rightarrow> console_t \<Rightarrow> byte list list" where
  "esp_console_get_completion buf c =
     (if buf = [] then [] else filter (\<lambda>name. take (length buf) name = buf) (map command (s_cmd_list c)))"

definition esp_console_get_hint :: "byte list \<Rightarrow> console_t \<Rightarrow> (nat \<times> byte list) option \<times> (int \<times> int) option" where
  "esp_console_get_hint buf c =
     (case find_command_by_name buf c of
        None \<Rightarrow> (None, None)
      | Some it \<Rightarrow> (hint it, Some (hint_color (s_config c), hint_bold (s_config c))))"

section \<open>Running a command line\<close>

text \<open>A call of a command: the function, its context and the arguments.\<close>

datatype command_call = Call_func nat "byte list list" | Call_with_context nat nat "byte list list"

text \<open>\<open>strlcpy\<close> into a buffer of the given size.\<close>

definition strlcpy :: "byte list \<Rightarrow> byte list \<Rightarrow> nat \<Rightarrow> byte list" where
  "strlcpy buf src len =
     (if len = 0 then buf
      else let n = min (length src) (len - 1) in take n src @ 0 # drop (n + 1) buf)"

text \<open>
  \<open>behaviour\<close> gives the value that a command returns.  The result is the error code, the value stored through
  \<open>cmd_ret\<close> and the calls that were made.
\<close>

definition esp_console_run ::
  "(command_call \<Rightarrow> int) \<Rightarrow> byte list \<Rightarrow> console_t \<Rightarrow> ((esp_err_t \<times> int option \<times> command_call list) \<times> console_t) option" where
  "esp_console_run behaviour cmdline c =
     (case s_tmp_line_buf c of
        None \<Rightarrow> Some ((ESP_ERR_INVALID_STATE, None, []), c)
      | Some (b, buf) \<Rightarrow>
          (case calloc (console_heap c) of
             (None, H) \<Rightarrow> Some ((ESP_ERR_NO_MEM, None, []), with_heap H c)
           | (Some a, H) \<Rightarrow>
               do {
                 let n = max_cmdline_args (s_config c);
                 (buf', av, ac) \<leftarrow> esp_console_split_argv (strlcpy buf cmdline (max_cmdline_length (s_config c))) (replicate n None) n;
                 let c1 = c\<lparr>s_tmp_line_buf := Some (b, buf'), console_heap := heap_free a H\<rparr>;
                 let args = map (\<lambda>p. case p of Some q \<Rightarrow> c_string buf' q | None \<Rightarrow> []) (take ac av);
                 if ac = 0 then Some ((ESP_ERR_INVALID_ARG, None, []), c1)
                 else case find_command_by_name (hd args) c1 of
                        None \<Rightarrow> Some ((ESP_ERR_NOT_FOUND, None, []), c1)
                      | Some cmd \<Rightarrow>
                          let calls = (case func cmd of Some f \<Rightarrow> [Call_func f args] | None \<Rightarrow> []) @
                                      (case func_w_context cmd of Some f \<Rightarrow> [Call_with_context f (cmd_context cmd) args] | None \<Rightarrow> [])
                          in Some ((ESP_OK, if calls = [] then None else Some (behaviour (last calls)), calls), c1)
               }))"

section \<open>Help\<close>

text \<open>The commands that the help lists: at a verbose level, or the one that is named.\<close>

definition help_command :: "byte list option \<Rightarrow> nat option \<Rightarrow> console_t \<Rightarrow> int \<times> byte list list" where
  "help_command help_cmd verbose_level c =
     (case help_cmd of
        None \<Rightarrow>
          (let level = (case verbose_level of None \<Rightarrow> s_verbose_level c | Some v \<Rightarrow> v)
           in if ESP_CONSOLE_HELP_VERBOSE_LEVEL_MAX_NUM \<le> level then (1, [])
              else (0, map command (filter (\<lambda>it. help_text it \<noteq> None) (s_cmd_list c))))
      | Some name \<Rightarrow>
          (case find (\<lambda>it. help_text it \<noteq> None \<and> command it = name) (s_cmd_list c) of
             None \<Rightarrow> (1, [])
           | Some it \<Rightarrow> (0, [command it])))"

definition esp_console_set_help_verbose_level :: "nat \<Rightarrow> console_t \<Rightarrow> esp_err_t \<times> console_t" where
  "esp_console_set_help_verbose_level level c =
     (if ESP_CONSOLE_HELP_VERBOSE_LEVEL_MAX_NUM \<le> level then (ESP_ERR_INVALID_ARG, c)
      else (ESP_OK, c\<lparr>s_verbose_level := level\<rparr>))"

text \<open>The registration of the help command; the function and the argument table are given.\<close>

definition bytes_of :: "string \<Rightarrow> byte list" where
  "bytes_of s = map (\<lambda>ch. of_nat (of_char ch)) s"

definition esp_console_register_help_command ::
  "bool \<Rightarrow> (nat \<Rightarrow> byte list) \<Rightarrow> nat \<Rightarrow> nat \<Rightarrow> console_t \<Rightarrow> esp_err_t \<times> console_t" where
  "esp_console_register_help_command sorted_help syntax_of help_fn help_args c =
     esp_console_cmd_register sorted_help syntax_of
       (Some \<lparr>cmd_command = Some (bytes_of ''help''),
              cmd_help = Some (bytes_of (''Print the summary of all registered commands if no arguments '' @
                ''are given, otherwise print summary of given command.'')),
              cmd_hint = None, cmd_func = Some help_fn, cmd_argtable = Some help_args, cmd_func_w_context = None, cmd_ctx = 0\<rparr>) c"

end
