(* ===== verification/Console_Table.thy ===== *)
theory Console_Table
  imports Console
begin

text \<open>
  The command table is a map from names to commands.  Names and items are distinct; an item calls either a
  function or a function with a context, as long as a name is not registered again with the other kind.
\<close>

section \<open>Words and quoted lines\<close>

definition escape_byte :: "byte \<Rightarrow> byte list" where
  "escape_byte b = (if b = QUOTE \<or> b = ESCAPE then [ESCAPE, b] else [b])"

definition quote_word :: "byte list \<Rightarrow> byte list" where
  "quote_word w = QUOTE # concat (map escape_byte w) @ [QUOTE]"

definition quote_line :: "byte list list \<Rightarrow> byte list" where
  "quote_line ws = concat (map (\<lambda>w. quote_word w @ [SPACE]) ws)"

lemma special_bytes: "QUOTE \<noteq> SPACE" "ESCAPE \<noteq> SPACE" "ESCAPE \<noteq> QUOTE" "QUOTE \<noteq> 0" "SPACE \<noteq> 0" "ESCAPE \<noteq> 0"
  by (simp_all add: QUOTE_def SPACE_def ESCAPE_def)

lemma words_of_quoted:
  "words_of (Suc n) SS_QUOTED_ARG cur (concat (map escape_byte w) @ QUOTE # cs) = (cur @ w) # words_of n SS_SPACE [] cs"
  by (induction w arbitrary: cur) (auto simp: escape_byte_def special_bytes special_bytes [symmetric])

lemma words_of_quote_line:
  "length ws \<le> n \<Longrightarrow> words_of n SS_SPACE [] (quote_line ws) = ws"
proof (induction ws arbitrary: n)
  case Nil
  then show ?case by (cases n) (simp_all add: quote_line_def)
next
  case (Cons w ws)
  then obtain m where n: "n = Suc m" "length ws \<le> m" by (cases n) auto
  have skip: "words_of m SS_SPACE [] (SPACE # cs) = words_of m SS_SPACE [] cs" for cs by (cases m) simp_all
  have "words_of n SS_SPACE [] (quote_line (w # ws)) =
      words_of (Suc m) SS_QUOTED_ARG [] (concat (map escape_byte w) @ QUOTE # SPACE # quote_line ws)"
    by (simp add: n quote_line_def quote_word_def special_bytes)
  then show ?case by (simp add: words_of_quoted skip Cons.IH [OF n(2)])
qed

lemma quote_line_no_zero: "\<forall>w \<in> set ws. 0 \<notin> set w \<Longrightarrow> 0 \<notin> set (quote_line ws)"
  by (auto simp: quote_line_def quote_word_def escape_byte_def special_bytes special_bytes [symmetric] split: if_splits)

section \<open>The table as a map\<close>

text \<open>What a name runs: a function, or a function with a context.\<close>

type_synonym target = "nat + nat \<times> nat"

definition target_of :: "cmd_item_t \<Rightarrow> target" where
  "target_of it = (case func it of Some f \<Rightarrow> Inl f | None \<Rightarrow> Inr (the (func_w_context it), cmd_context it))"

definition one_kind :: "cmd_item_t \<Rightarrow> bool" where
  "one_kind it \<longleftrightarrow> (func it = None) \<noteq> (func_w_context it = None)"

definition table_of :: "console_t \<Rightarrow> byte list \<rightharpoonup> target" where
  "table_of c name = map_option target_of (find_command_by_name name c)"

text \<open>The items are distinct blocks, apart from the command line buffer.\<close>

definition table_ok :: "(byte list \<Rightarrow> bool) \<Rightarrow> console_t \<Rightarrow> bool" where
  "table_ok plain c \<longleftrightarrow>
     distinct (map command (s_cmd_list c)) \<and> distinct (map item_addr (s_cmd_list c)) \<and>
     (\<forall>it \<in> set (s_cmd_list c). one_kind it \<and> (func it \<noteq> None \<longleftrightarrow> plain (command it)) \<and> item_addr it < next_addr (console_heap c))"

lemma find_command_alt: "find_command_by_name name c = find (\<lambda>it. command it = name) (s_cmd_list c)"
  by (auto simp: find_command_by_name_def intro: arg_cong2 [where f = find])

lemma find_distinct:
  "distinct (map f xs) \<Longrightarrow> x \<in> set xs \<Longrightarrow> find (\<lambda>y. f y = f x) xs = Some x"
  by (induction xs) (auto simp: image_iff)

lemma find_Some_iff_mem:
  "distinct (map command its) \<Longrightarrow> find (\<lambda>it. command it = name) its = Some x \<longleftrightarrow> x \<in> set its \<and> command x = name"
  using find_distinct [of command its x] by (auto simp: find_Some_iff in_set_conv_nth)

lemma find_None_mem: "find (\<lambda>it. command it = name) its = None \<longleftrightarrow> name \<notin> command ` set its"
  by (auto simp: find_None_iff)

lemma set_insert_item [simp]: "set (insert_item sorted_help item its) = insert item (set its)"
proof -
  have "set (insert_sorted item its) = insert item (set its)" by (induction its) auto
  then show ?thesis by (auto simp: insert_item_def)
qed

lemma distinct_insert_item:
  "distinct (map f (insert_item sorted_help item its)) \<longleftrightarrow> f item \<notin> f ` set its \<and> distinct (map f its)"
proof -
  have "set (insert_sorted item its) = insert item (set its)" for its by (induction its) auto
  then have "distinct (map f (insert_sorted item its)) \<longleftrightarrow> f item \<notin> f ` set its \<and> distinct (map f its)"
    by (induction its) auto
  then show ?thesis by (auto simp: insert_item_def)
qed

lemma find_insert_item:
  assumes "command item \<notin> command ` set its"
  shows "find (\<lambda>it. command it = name) (insert_item sorted_help item its) =
           (if command item = name then Some item else find (\<lambda>it. command it = name) its)"
proof -
  have "find (\<lambda>it. command it = name) (insert_sorted item its) =
      (if command item = name then Some item else find (\<lambda>it. command it = name) its)"
    using assms by (induction its) auto
  moreover have "find (\<lambda>it. command it = name) (its @ [item]) =
      (if command item = name then Some item else find (\<lambda>it. command it = name) its)"
    using assms by (induction its) auto
  ultimately show ?thesis by (simp add: insert_item_def)
qed

text \<open>Taking an item out by its address takes its name out.\<close>

lemma filter_item:
  assumes "distinct (map command its)" and "distinct (map item_addr its)" and "item \<in> set its"
  shows "filter (\<lambda>it. item_addr it \<noteq> item_addr item) its = filter (\<lambda>it. command it \<noteq> command item) its"
  using assms by (intro filter_cong refl) (auto simp: distinct_map inj_on_def)

lemma find_filter_names:
  "find (\<lambda>it. command it = name) (filter (\<lambda>it. command it \<noteq> other) its) =
     (if name = other then None else find (\<lambda>it. command it = name) its)"
  by (induction its) auto

section \<open>Registration and removal\<close>

lemma next_addr_calloc: "calloc H = (r, H') \<Longrightarrow> next_addr H \<le> next_addr H' \<and> (\<forall>a. r = Some a \<longrightarrow> a = next_addr H \<and> a < next_addr H')"
  by (auto simp: calloc_def split: if_splits)

lemma next_addr_free [simp]: "next_addr (heap_free a H) = next_addr H"
  by (simp add: heap_free_def)

lemma next_addr_free_hint [simp]: "next_addr (free_hint item H) = next_addr H"
  by (auto simp: free_hint_def split: option.splits)

lemma next_addr_new_hint: "new_hint syntax_of cmd old H = (h, H') \<Longrightarrow> next_addr H \<le> next_addr H'"
  by (auto simp: new_hint_def split: option.splits prod.splits dest: next_addr_calloc)

definition cmd_target :: "esp_console_cmd_t \<Rightarrow> target" where
  "cmd_target cmd = (case cmd_func cmd of Some f \<Rightarrow> Inl f | None \<Rightarrow> Inr (the (cmd_func_w_context cmd), cmd_ctx cmd))"

definition right_kind :: "(byte list \<Rightarrow> bool) \<Rightarrow> esp_console_cmd_t \<Rightarrow> bool" where
  "right_kind plain cmd \<longleftrightarrow> (\<forall>name. cmd_command cmd = Some name \<longrightarrow> (cmd_func cmd \<noteq> None \<longleftrightarrow> plain name))"

text \<open>A table without one name.\<close>

lemma table_without:
  assumes "table_ok plain c" and "s_cmd_list c' = filter (\<lambda>it. command it \<noteq> name) (s_cmd_list c)"
    and "next_addr (console_heap c') = next_addr (console_heap c)"
  shows "table_ok plain c'" and "table_of c' = (table_of c)(name := None)"
proof -
  show "table_ok plain c'" using assms by (auto simp: table_ok_def intro: distinct_map_filter)
  show "table_of c' = (table_of c)(name := None)"
    by (auto simp: table_of_def find_command_alt assms(2) find_filter_names fun_eq_iff)
qed

lemma deregister_table:
  assumes "esp_console_cmd_deregister name c = (err, c')" and "table_ok plain c"
  shows "table_ok plain c' \<and> (err = ESP_OK \<longrightarrow> table_of c' = (table_of c)(name := None)) \<and> (err \<noteq> ESP_OK \<longrightarrow> c' = c) \<and>
         s_tmp_line_buf c' = s_tmp_line_buf c \<and> s_config c' = s_config c"
proof (cases "find_command_by_name name c")
  case None
  then show ?thesis using assms by (auto simp: esp_console_cmd_deregister_def)
next
  case (Some item)
  then have item: "item \<in> set (s_cmd_list c)" "command item = name"
    using assms(2) by (auto simp: find_command_alt find_Some_iff_mem table_ok_def)
  have names: "s_cmd_list c' = filter (\<lambda>it. command it \<noteq> name) (s_cmd_list c)"
    using assms Some filter_item [of "s_cmd_list c" item] item
    by (auto simp: esp_console_cmd_deregister_def esp_console_rm_item_free_hint_def table_ok_def)
  have rest: "err = ESP_OK" "next_addr (console_heap c') = next_addr (console_heap c)" "s_tmp_line_buf c' = s_tmp_line_buf c"
    "s_config c' = s_config c"
    using assms(1) Some by (auto simp: esp_console_cmd_deregister_def esp_console_rm_item_free_hint_def)
  from table_without [OF assms(2) names rest(2)] show ?thesis using rest by simp
qed

text \<open>A registration without an allocation failure sets the name to the command.\<close>

lemma free_hint_parts:
  "s_cmd_list (esp_console_rm_item_free_hint item c) = filter (\<lambda>it. item_addr it \<noteq> item_addr item) (s_cmd_list c)"
  "next_addr (console_heap (esp_console_rm_item_free_hint item c)) = next_addr (console_heap c)"
  "s_tmp_line_buf (esp_console_rm_item_free_hint item c) = s_tmp_line_buf c"
  "s_config (esp_console_rm_item_free_hint item c) = s_config c"
  by (simp_all add: esp_console_rm_item_free_hint_def)

lemma fill_item_parts:
  "item_addr (fill_item cmd name h item) = item_addr item" "command (fill_item cmd name h item) = name"
  by (simp_all add: fill_item_def Let_def)

text \<open>The item that is filled holds no function of the other kind.\<close>

lemma fill_item_target:
  assumes "(cmd_func cmd = None) \<noteq> (cmd_func_w_context cmd = None)"
    and "cmd_func cmd \<noteq> None \<Longrightarrow> func_w_context item = None" and "cmd_func cmd = None \<Longrightarrow> func item = None"
  shows "target_of (fill_item cmd name h item) = cmd_target cmd" and "one_kind (fill_item cmd name h item)"
    and "func (fill_item cmd name h item) \<noteq> None \<longleftrightarrow> cmd_func cmd \<noteq> None"
  using assms by (auto simp: fill_item_def target_of_def cmd_target_def one_kind_def Let_def split: option.splits)

text \<open>The end of a registration: the filled item is linked into a table that has neither its name nor its address.\<close>

lemma link_table:
  assumes "table_ok plain c" and "name \<notin> command ` set (s_cmd_list c)" and "item_addr item \<notin> item_addr ` set (s_cmd_list c)"
    and "command item = name" and "one_kind item" and "func item \<noteq> None \<longleftrightarrow> plain name"
    and "item_addr item < next_addr H" and "next_addr (console_heap c) \<le> next_addr H"
  shows "table_ok plain (c\<lparr>s_cmd_list := insert_item sorted_help item (s_cmd_list c), console_heap := H\<rparr>)"
    and "table_of (c\<lparr>s_cmd_list := insert_item sorted_help item (s_cmd_list c), console_heap := H\<rparr>) = (table_of c)(name \<mapsto> target_of item)"
proof -
  show "table_ok plain (c\<lparr>s_cmd_list := insert_item sorted_help item (s_cmd_list c), console_heap := H\<rparr>)"
    using assms by (auto simp: table_ok_def distinct_insert_item)
  show "table_of (c\<lparr>s_cmd_list := insert_item sorted_help item (s_cmd_list c), console_heap := H\<rparr>) = (table_of c)(name \<mapsto> target_of item)"
    using assms by (auto simp: table_of_def find_command_alt find_insert_item fun_eq_iff)
qed

text \<open>The item that a registration fills: a new one, or the one of the name, out of the table.\<close>

definition taken_item :: "byte list \<Rightarrow> console_t \<Rightarrow> cmd_item_t option \<times> console_t" where
  "taken_item name c =
     (case find_command_by_name name c of
        None \<Rightarrow>
          (case calloc (console_heap c) of
             (None, H) \<Rightarrow> (None, with_heap H c)
           | (Some a, H) \<Rightarrow>
               (Some \<lparr>item_addr = a, command = [], help_text = None, hint = None, func = None,
                      func_w_context = None, argtable = None, cmd_context = 0\<rparr>, with_heap H c))
      | Some item \<Rightarrow> (Some item, esp_console_rm_item_free_hint item c))"

lemma register_alt:
  assumes "cmd_command cmd = Some name" and "SPACE \<notin> set name"
    and "(cmd_func cmd = None) \<noteq> (cmd_func_w_context cmd = None)"
  shows "esp_console_cmd_register sorted_help syntax_of (Some cmd) c =
           (case taken_item name c of
              (None, c1) \<Rightarrow> (ESP_ERR_NO_MEM, c1)
            | (Some item, c1) \<Rightarrow>
                let (h, H) = new_hint syntax_of cmd (hint item) (console_heap c1)
                in (ESP_OK, c1\<lparr>s_cmd_list := insert_item sorted_help (fill_item cmd name h item) (s_cmd_list c1), console_heap := H\<rparr>))"
  using assms by (auto simp: esp_console_cmd_register_def taken_item_def Let_def)

lemma register_refused:
  assumes "\<not> (\<exists>name. cmd_command cmd = Some name \<and> SPACE \<notin> set name \<and> (cmd_func cmd = None) \<noteq> (cmd_func_w_context cmd = None))"
  shows "esp_console_cmd_register sorted_help syntax_of (Some cmd) c = (ESP_ERR_INVALID_ARG, c)"
  using assms by (auto simp: esp_console_cmd_register_def split: option.splits)

lemma find_after_take:
  assumes "table_ok plain c" and "find_command_by_name name c = Some item"
  shows "s_cmd_list (esp_console_rm_item_free_hint item c) = filter (\<lambda>it. command it \<noteq> name) (s_cmd_list c)"
    and "item \<in> set (s_cmd_list c)" and "command item = name"
proof -
  show item: "item \<in> set (s_cmd_list c)" "command item = name"
    using assms by (auto simp: find_command_alt find_Some_iff_mem table_ok_def)
  show "s_cmd_list (esp_console_rm_item_free_hint item c) = filter (\<lambda>it. command it \<noteq> name) (s_cmd_list c)"
    using filter_item [of "s_cmd_list c" item] item assms(1) by (simp add: table_ok_def free_hint_parts)
qed

lemma taken_item_table:
  assumes "taken_item name c = (r, c1)" and "table_ok plain c"
  shows "table_ok plain c1" and "s_tmp_line_buf c1 = s_tmp_line_buf c \<and> s_config c1 = s_config c"
    and "table_of c1 = (case r of None \<Rightarrow> table_of c | Some item \<Rightarrow> (table_of c)(name := None))"
    and "r = Some item \<Longrightarrow> name \<notin> command ` set (s_cmd_list c1) \<and> item_addr item \<notin> item_addr ` set (s_cmd_list c1) \<and>
           item_addr item < next_addr (console_heap c1) \<and>
           (func item \<noteq> None \<longrightarrow> plain name) \<and> (func_w_context item \<noteq> None \<longrightarrow> \<not> plain name)"
proof -
  consider (new) "find_command_by_name name c = None" | (old) it where "find_command_by_name name c = Some it" by fastforce
  then have "table_ok plain c1 \<and> s_tmp_line_buf c1 = s_tmp_line_buf c \<and> s_config c1 = s_config c \<and>
      table_of c1 = (case r of None \<Rightarrow> table_of c | Some item \<Rightarrow> (table_of c)(name := None)) \<and>
      (\<forall>item. r = Some item \<longrightarrow> name \<notin> command ` set (s_cmd_list c1) \<and> item_addr item \<notin> item_addr ` set (s_cmd_list c1) \<and>
           item_addr item < next_addr (console_heap c1) \<and>
           (func item \<noteq> None \<longrightarrow> plain name) \<and> (func_w_context item \<noteq> None \<longrightarrow> \<not> plain name))"
  proof cases
    case new
    obtain q H where q: "calloc (console_heap c) = (q, H)" by fastforce
    have more: "next_addr (console_heap c) \<le> next_addr H" "\<forall>a. q = Some a \<longrightarrow> a = next_addr (console_heap c) \<and> a < next_addr H"
      using next_addr_calloc [OF q] by auto
    have c1: "c1 = with_heap H c" and r: "map_option item_addr r = q" "\<forall>item. r = Some item \<longrightarrow> func item = None \<and> func_w_context item = None"
      using assms(1) new q by (auto simp: taken_item_def split: option.splits)
    have same: "table_of c1 = table_of c" by (simp add: c1 table_of_def find_command_alt fun_eq_iff)
    have none: "(table_of c)(name := None) = table_of c" using new by (auto simp: table_of_def fun_eq_iff)
    have ok: "table_ok plain c1" using assms(2) more(1) by (auto simp: c1 table_ok_def)
    have "name \<notin> command ` set (s_cmd_list c1)" using new by (simp add: c1 find_command_alt find_None_mem)
    moreover have "a \<notin> item_addr ` set (s_cmd_list c1)" if "q = Some a" for a
      using that more(2) assms(2) by (auto simp: c1 table_ok_def)
    ultimately show ?thesis using same none ok r more(2) by (auto simp: c1 split: option.splits)
  next
    case (old it)
    note it = find_after_take [OF assms(2) old]
    have r: "r = Some it" and c1: "c1 = esp_console_rm_item_free_hint it c" using assms(1) old by (auto simp: taken_item_def)
    have names: "s_cmd_list c1 = filter (\<lambda>it. command it \<noteq> name) (s_cmd_list c)" by (simp add: c1 it(1))
    have "next_addr (console_heap c1) = next_addr (console_heap c)" by (simp add: c1 free_hint_parts(2))
    from table_without [OF assms(2) names this] have "table_ok plain c1" "table_of c1 = (table_of c)(name := None)" by this+
    moreover have "item_addr it \<notin> item_addr ` set (s_cmd_list c1)" by (auto simp: c1 free_hint_parts(1))
    moreover have "name \<notin> command ` set (s_cmd_list c1)" unfolding c1 it(1) by auto
    moreover have "item_addr it < next_addr (console_heap c1)" "func it \<noteq> None \<longleftrightarrow> plain name" "one_kind it"
      using assms(2) it(2,3) by (auto simp: table_ok_def c1 free_hint_parts(2))
    ultimately show ?thesis by (auto simp: r c1 free_hint_parts one_kind_def)
  qed
  then show "table_ok plain c1" "s_tmp_line_buf c1 = s_tmp_line_buf c \<and> s_config c1 = s_config c"
    "table_of c1 = (case r of None \<Rightarrow> table_of c | Some item \<Rightarrow> (table_of c)(name := None))"
    "r = Some item \<Longrightarrow> name \<notin> command ` set (s_cmd_list c1) \<and> item_addr item \<notin> item_addr ` set (s_cmd_list c1) \<and>
           item_addr item < next_addr (console_heap c1) \<and>
           (func item \<noteq> None \<longrightarrow> plain name) \<and> (func_w_context item \<noteq> None \<longrightarrow> \<not> plain name)"
    by blast+
qed

lemma register_table:
  assumes "esp_console_cmd_register sorted_help syntax_of (Some cmd) c = (err, c')" and "table_ok plain c" and "right_kind plain cmd"
  shows "table_ok plain c' \<and> s_tmp_line_buf c' = s_tmp_line_buf c \<and> s_config c' = s_config c \<and>
         (err = ESP_OK \<longrightarrow> (\<exists>name. cmd_command cmd = Some name \<and> table_of c' = (table_of c)(name \<mapsto> cmd_target cmd))) \<and>
         (err \<noteq> ESP_OK \<longrightarrow> table_of c' = table_of c)"
proof (cases "\<exists>name. cmd_command cmd = Some name \<and> SPACE \<notin> set name \<and> (cmd_func cmd = None) \<noteq> (cmd_func_w_context cmd = None)")
  case False
  from register_refused [OF False] assms show ?thesis by auto
next
  case True
  then obtain name where name: "cmd_command cmd = Some name" "SPACE \<notin> set name" and one: "(cmd_func cmd = None) \<noteq> (cmd_func_w_context cmd = None)"
    by blast
  obtain r c1 where taken: "taken_item name c = (r, c1)" by fastforce
  note at = taken_item_table [OF taken assms(2)]
  show ?thesis
  proof (cases r)
    case None
    then show ?thesis using assms(1) at(1-3) taken by (simp add: register_alt [OF name one])
  next
    case (Some item)
    obtain h H where h: "new_hint syntax_of cmd (hint item) (console_heap c1) = (h, H)" by fastforce
    have more: "next_addr (console_heap c1) \<le> next_addr H" by (rule next_addr_new_hint [OF h])
    let ?item = "fill_item cmd name h item"
    have kind: "cmd_func cmd \<noteq> None \<longleftrightarrow> plain name" using assms(3) name by (simp add: right_kind_def)
    have other: "cmd_func cmd \<noteq> None \<Longrightarrow> func_w_context item = None" "cmd_func cmd = None \<Longrightarrow> func item = None"
      using at(4) [OF Some] kind by blast+
    have fill: "target_of ?item = cmd_target cmd" "one_kind ?item" "func ?item \<noteq> None \<longleftrightarrow> plain name"
      using fill_item_target [OF one, of item name h] other kind by simp_all
    have link: "table_ok plain (c1\<lparr>s_cmd_list := insert_item sorted_help ?item (s_cmd_list c1), console_heap := H\<rparr>)"
      "table_of (c1\<lparr>s_cmd_list := insert_item sorted_help ?item (s_cmd_list c1), console_heap := H\<rparr>) = (table_of c1)(name \<mapsto> target_of ?item)"
      using link_table [OF at(1), of name ?item H sorted_help] at(4) [OF Some] fill more by (auto simp: fill_item_parts)
    have "err = ESP_OK" "c' = c1\<lparr>s_cmd_list := insert_item sorted_help ?item (s_cmd_list c1), console_heap := H\<rparr>"
      using assms(1) taken h Some by (auto simp: register_alt [OF name one])
    then show ?thesis using link at(2,3) Some name fill by simp
  qed
qed

end
