(* ===== verification/Console_Session.thy ===== *)
theory Console_Session
  imports Console_Table
begin

text \<open>
  Sessions of the console: registrations, removals and command lines in any order, with allocations that may
  fail.  What they promise is stated on a map from names to commands.
\<close>

section \<open>Sessions\<close>

datatype console_op = Cmd_register esp_console_cmd_t | Cmd_deregister "byte list" | Cmd_run "byte list"

type_synonym outcome = "esp_err_t \<times> command_call list"

definition console_step ::
  "bool \<Rightarrow> (nat \<Rightarrow> byte list) \<Rightarrow> (command_call \<Rightarrow> int) \<Rightarrow> console_op \<Rightarrow> console_t \<Rightarrow> (outcome \<times> console_t) option" where
  "console_step sorted_help syntax_of behaviour call c =
     (case call of
        Cmd_register cmd \<Rightarrow> (let (err, c1) = esp_console_cmd_register sorted_help syntax_of (Some cmd) c in Some ((err, []), c1))
      | Cmd_deregister name \<Rightarrow> (let (err, c1) = esp_console_cmd_deregister name c in Some ((err, []), c1))
      | Cmd_run cmdline \<Rightarrow> map_option (\<lambda>((err, _, calls), c1). ((err, calls), c1)) (esp_console_run behaviour cmdline c))"

fun console_session ::
  "bool \<Rightarrow> (nat \<Rightarrow> byte list) \<Rightarrow> (command_call \<Rightarrow> int) \<Rightarrow> console_op list \<Rightarrow> console_t \<Rightarrow> (outcome list \<times> console_t) option" where
  "console_session sorted_help syntax_of behaviour [] c = Some ([], c)"
| "console_session sorted_help syntax_of behaviour (call # calls) c =
     do {
       (out, c1) \<leftarrow> console_step sorted_help syntax_of behaviour call c;
       (outs, c2) \<leftarrow> console_session sorted_help syntax_of behaviour calls c1;
       Some (out # outs, c2)
     }"

section \<open>What a session promises\<close>

definition acceptable :: "esp_console_cmd_t \<Rightarrow> bool" where
  "acceptable cmd \<longleftrightarrow>
     (case cmd_command cmd of None \<Rightarrow> False | Some name \<Rightarrow> SPACE \<notin> set name) \<and>
     (cmd_func cmd = None) \<noteq> (cmd_func_w_context cmd = None)"

definition call_of :: "target \<Rightarrow> byte list list \<Rightarrow> command_call" where
  "call_of t ws = (case t of Inl f \<Rightarrow> Call_func f ws | Inr (f, x) \<Rightarrow> Call_with_context f x ws)"

text \<open>The outcome of a command line, when there is memory: \<open>n\<close> is the number of words that are read.\<close>

definition run_outcome :: "nat \<Rightarrow> byte list \<Rightarrow> (byte list \<rightharpoonup> target) \<Rightarrow> outcome" where
  "run_outcome n cmdline T =
     (case words_of n SS_SPACE [] cmdline of
        [] \<Rightarrow> (ESP_ERR_INVALID_ARG, [])
      | w # ws \<Rightarrow> (case T w of None \<Rightarrow> (ESP_ERR_NOT_FOUND, []) | Some t \<Rightarrow> (ESP_OK, [call_of t (w # ws)])))"

text \<open>\<open>len\<close> is the size of the line buffer.\<close>

definition step_promise :: "nat \<Rightarrow> nat \<Rightarrow> console_op \<Rightarrow> outcome \<Rightarrow> (byte list \<rightharpoonup> target) \<Rightarrow> bool" where
  "step_promise n len call out T =
     (case call of
        Cmd_register cmd \<Rightarrow> out \<in> (if acceptable cmd then {(ESP_OK, []), (ESP_ERR_NO_MEM, [])} else {(ESP_ERR_INVALID_ARG, [])})
      | Cmd_deregister name \<Rightarrow> out = (if T name = None then ESP_ERR_INVALID_ARG else ESP_OK, [])
      | Cmd_run cmdline \<Rightarrow> out = (ESP_ERR_NO_MEM, []) \<or> out = run_outcome n (take (len - 1) cmdline) T)"

definition step_table :: "console_op \<Rightarrow> outcome \<Rightarrow> (byte list \<rightharpoonup> target) \<Rightarrow> (byte list \<rightharpoonup> target)" where
  "step_table call out T =
     (case call of
        Cmd_register cmd \<Rightarrow> (if fst out = ESP_OK then T(the (cmd_command cmd) \<mapsto> cmd_target cmd) else T)
      | Cmd_deregister name \<Rightarrow> T(name := None)
      | Cmd_run cmdline \<Rightarrow> T)"

fun promised :: "nat \<Rightarrow> nat \<Rightarrow> console_op list \<Rightarrow> outcome list \<Rightarrow> (byte list \<rightharpoonup> target) \<Rightarrow> bool" where
  "promised n len [] outs T = (outs = [])"
| "promised n len (call # calls) outs T =
     (case outs of
        [] \<Rightarrow> False
      | out # outs' \<Rightarrow> step_promise n len call out T \<and> promised n len calls outs' (step_table call out T))"

text \<open>Command lines are strings, and a name is not registered with both kinds of function.\<close>

definition proper_op :: "(byte list \<Rightarrow> bool) \<Rightarrow> console_op \<Rightarrow> bool" where
  "proper_op plain call = (case call of Cmd_register cmd \<Rightarrow> right_kind plain cmd | Cmd_deregister name \<Rightarrow> True | Cmd_run cmdline \<Rightarrow> 0 \<notin> set cmdline)"

text \<open>A console that is initialised, with room for a line and for arguments.\<close>

definition console_ready :: "nat \<Rightarrow> nat \<Rightarrow> console_t \<Rightarrow> bool" where
  "console_ready n len c \<longleftrightarrow>
     max_cmdline_args (s_config c) = n + 1 \<and> n + 1 < two32 \<and> max_cmdline_length (s_config c) = len \<and> 0 < len \<and>
     (\<exists>b buf. s_tmp_line_buf c = Some (b, buf) \<and> length buf = len)"

section \<open>A command line\<close>

lemma strlcpy_room:
  assumes "0 < length buf"
  shows "\<exists>rest. strlcpy buf src (length buf) = take (length buf - 1) src @ 0 # rest" and "length (strlcpy buf src (length buf)) = length buf"
proof -
  have "take (min (length src) (length buf - 1)) src = take (length buf - 1) src" by (auto simp: min_def)
  then show "\<exists>rest. strlcpy buf src (length buf) = take (length buf - 1) src @ 0 # rest"
    using assms by (auto simp: strlcpy_def Let_def)
  show "length (strlcpy buf src (length buf)) = length buf"
    using assms by (cases buf) (auto simp: strlcpy_def Let_def min_def)
qed

lemma calls_of_item:
  assumes "one_kind it"
  shows "(case func it of Some f \<Rightarrow> [Call_func f args] | None \<Rightarrow> []) @
         (case func_w_context it of Some f \<Rightarrow> [Call_with_context f (cmd_context it) args] | None \<Rightarrow> []) = [call_of (target_of it) args]"
  using assms by (auto simp: one_kind_def call_of_def target_of_def split: option.splits)

lemma run_outcome_at:
  assumes "console_ready n len c" and "table_ok plain c" and "0 \<notin> set cmdline"
  shows "\<exists>err ret calls c'. esp_console_run behaviour cmdline c = Some ((err, ret, calls), c') \<and>
           ((err, calls) = (ESP_ERR_NO_MEM, []) \<or> (err, calls) = run_outcome n (take (len - 1) cmdline) (table_of c)) \<and>
           console_ready n len c' \<and> table_ok plain c' \<and> table_of c' = table_of c \<and> s_cmd_list c' = s_cmd_list c"
proof -
  obtain b buf where buf: "s_tmp_line_buf c = Some (b, buf)" "length buf = len" and config: "max_cmdline_args (s_config c) = n + 1" "n + 1 < two32"
      "max_cmdline_length (s_config c) = len" "0 < len"
    using assms(1) by (auto simp: console_ready_def)
  obtain q H where q: "calloc (console_heap c) = (q, H)" by fastforce
  have more: "next_addr (console_heap c) \<le> next_addr H" using next_addr_calloc [OF q] by simp
  show ?thesis
  proof (cases q)
    case None
    then have "esp_console_run behaviour cmdline c = Some ((ESP_ERR_NO_MEM, None, []), with_heap H c)"
      using buf q by (simp add: esp_console_run_def)
    moreover have "table_ok plain (with_heap H c)" using assms(2) more by (auto simp: table_ok_def)
    moreover have "table_of (with_heap H c) = table_of c" by (simp add: table_of_def find_command_alt fun_eq_iff)
    moreover have "console_ready n len (with_heap H c)" using assms(1) by (simp add: console_ready_def)
    ultimately show ?thesis by auto
  next
    case (Some a)
    let ?words = "words_of n SS_SPACE [] (take (len - 1) cmdline)"
    obtain rest where copy: "strlcpy buf cmdline len = take (len - 1) cmdline @ 0 # rest"
      and len: "length (strlcpy buf cmdline len) = len"
      using strlcpy_room [of buf cmdline] buf config(4) by auto
    have "0 \<notin> set (take (len - 1) cmdline)" using assms(3) by (auto dest: in_set_takeD)
    from split_argv_words [OF this, of "replicate (n + 1) None" rest] config(2)
    obtain buf' ps av' where split: "esp_console_split_argv (strlcpy buf cmdline len) (replicate (n + 1) None) (n + 1) =
        Some (buf', map Some ps @ None # av', length ps)"
      and words: "map (c_string buf') ps = ?words" and len': "length buf' = len"
      using copy len by auto
    let ?c = "c\<lparr>s_tmp_line_buf := Some (b, buf'), console_heap := heap_free a H\<rparr>"
    have args: "map (\<lambda>p. case p of Some q \<Rightarrow> c_string buf' q | None \<Rightarrow> []) (take (length ps) (map Some ps @ None # av')) = ?words"
      using words by (simp add: comp_def)
    have ready: "console_ready n len ?c" using assms(1) len' by (simp add: console_ready_def)
    have table: "table_ok plain ?c" using assms(2) more by (auto simp: table_ok_def)
    have same: "table_of ?c = table_of c" "s_cmd_list ?c = s_cmd_list c" by (simp_all add: table_of_def find_command_alt fun_eq_iff)
    have find_same: "find_command_by_name w ?c = find_command_by_name w c" for w by (simp add: find_command_alt)
    have run: "\<exists>ret. esp_console_run behaviour cmdline c =
        Some ((fst (run_outcome n (take (len - 1) cmdline) (table_of c)), ret, snd (run_outcome n (take (len - 1) cmdline) (table_of c))), ?c)"
    proof (cases ?words)
      case Nil
      then have "ps = []" using words by simp
      then show ?thesis using Nil q Some split args by (simp add: esp_console_run_def buf config run_outcome_def)
    next
      case (Cons w ws)
      then have ps: "length ps \<noteq> 0" using words by auto
      show ?thesis
      proof (cases "find_command_by_name w c")
        case None
        then show ?thesis
          using Cons q \<open>q = Some a\<close> split args ps by (simp add: esp_console_run_def buf config run_outcome_def find_same table_of_def)
      next
        case (Some it)
        have "one_kind it" using Some assms(2) by (auto simp: find_command_alt find_Some_iff_mem table_ok_def)
        note calls = calls_of_item [OF this]
        show ?thesis
          using Some Cons q \<open>q = Some a\<close> split args ps
          by (simp add: esp_console_run_def buf config run_outcome_def find_same table_of_def calls Let_def)
      qed
    qed
    then show ?thesis using ready table same by (metis prod.collapse)
  qed
qed

section \<open>Sessions keep their promise\<close>

lemma table_config:
  "s_cmd_list c' = s_cmd_list c \<Longrightarrow> table_of c' = table_of c"
  by (simp add: table_of_def find_command_alt fun_eq_iff)

lemma register_outcome:
  "fst (esp_console_cmd_register sorted_help syntax_of (Some cmd) c) \<in>
     (if acceptable cmd then {ESP_OK, ESP_ERR_NO_MEM} else {ESP_ERR_INVALID_ARG})"
proof (cases "acceptable cmd")
  case True
  then obtain name where "cmd_command cmd = Some name" "SPACE \<notin> set name" "(cmd_func cmd = None) \<noteq> (cmd_func_w_context cmd = None)"
    by (auto simp: acceptable_def split: option.splits)
  note alt = register_alt [OF this]
  show ?thesis using True by (simp add: alt Let_def split: prod.splits option.splits)
next
  case False
  then have "\<not> (\<exists>name. cmd_command cmd = Some name \<and> SPACE \<notin> set name \<and> (cmd_func cmd = None) \<noteq> (cmd_func_w_context cmd = None))"
    by (auto simp: acceptable_def)
  from register_refused [OF this] False show ?thesis by simp
qed

lemma ready_config:
  "console_ready n len c \<Longrightarrow> s_tmp_line_buf c' = s_tmp_line_buf c \<Longrightarrow> s_config c' = s_config c \<Longrightarrow> console_ready n len c'"
  by (simp add: console_ready_def)

lemma step_keeps_promise:
  assumes "console_ready n len c" and "table_ok plain c" and "proper_op plain call"
  shows "\<exists>out c'. console_step sorted_help syntax_of behaviour call c = Some (out, c') \<and> step_promise n len call out (table_of c) \<and>
           console_ready n len c' \<and> table_ok plain c' \<and> table_of c' = step_table call out (table_of c)"
proof (cases call)
  case (Cmd_register cmd)
  obtain err c' where r: "esp_console_cmd_register sorted_help syntax_of (Some cmd) c = (err, c')" by fastforce
  have kind: "right_kind plain cmd" using assms(3) Cmd_register by (simp add: proper_op_def)
  note after = register_table [OF r assms(2) kind]
  have "err \<in> (if acceptable cmd then {ESP_OK, ESP_ERR_NO_MEM} else {ESP_ERR_INVALID_ARG})"
    using register_outcome [of sorted_help syntax_of cmd c] r by simp
  then have "step_promise n len call (err, []) (table_of c)" by (simp add: Cmd_register step_promise_def split: if_splits)
  moreover have "console_ready n len c'" using ready_config [OF assms(1)] after by blast
  moreover have "table_of c' = step_table call (err, []) (table_of c)" using after by (auto simp: Cmd_register step_table_def)
  ultimately show ?thesis using r after by (simp add: Cmd_register console_step_def)
next
  case (Cmd_deregister name)
  obtain err c' where r: "esp_console_cmd_deregister name c = (err, c')" by fastforce
  note after = deregister_table [OF r assms(2)]
  have err: "err = (if table_of c name = None then ESP_ERR_INVALID_ARG else ESP_OK)"
    using r by (auto simp: esp_console_cmd_deregister_def table_of_def Let_def split: option.splits)
  have "console_ready n len c'" using ready_config [OF assms(1)] after by blast
  moreover have "table_of c' = (table_of c)(name := None)" using after err by (auto simp: fun_eq_iff split: if_splits)
  ultimately show ?thesis
    using r after err by (simp add: Cmd_deregister console_step_def step_promise_def step_table_def)
next
  case (Cmd_run cmdline)
  have zero: "0 \<notin> set cmdline" using assms(3) Cmd_run by (simp add: proper_op_def)
  from run_outcome_at [OF assms(1,2) zero, of behaviour] show ?thesis
    by (fastforce simp: Cmd_run console_step_def step_promise_def step_table_def)
qed

lemma session_keeps_promise:
  assumes "console_ready n len c" and "table_ok plain c" and "\<forall>call \<in> set calls. proper_op plain call"
  shows "\<exists>outs c'. console_session sorted_help syntax_of behaviour calls c = Some (outs, c') \<and> promised n len calls outs (table_of c) \<and>
           console_ready n len c' \<and> table_ok plain c'"
  using assms
proof (induction calls arbitrary: c)
  case Nil
  then show ?case by simp
next
  case (Cons call calls)
  have proper: "proper_op plain call" using Cons.prems(3) by simp
  obtain out c1 where step: "console_step sorted_help syntax_of behaviour call c = Some (out, c1)"
    "step_promise n len call out (table_of c)" "console_ready n len c1" "table_ok plain c1" "table_of c1 = step_table call out (table_of c)"
    using step_keeps_promise [OF Cons.prems(1,2) proper] by blast
  then show ?case using Cons.IH [OF step(3,4)] Cons.prems(3) by (simp) (fastforce)
qed

text \<open>An initialised console is ready and its table is empty.\<close>

lemma init_ready:
  assumes "esp_console_init caps (Some cfg) c = (ESP_OK, c')" and "s_cmd_list c = []"
    and "max_cmdline_args cfg = n + 1" and "n + 1 < two32" and "0 < max_cmdline_length cfg"
  shows "console_ready n (max_cmdline_length cfg) c'" and "table_ok plain c'" and "table_of c' = (\<lambda>_. None)" and "s_cmd_list c' = []"
proof -
  show "console_ready n (max_cmdline_length cfg) c'"
    using assms by (auto simp: esp_console_init_def console_ready_def Let_def split: if_splits option.splits prod.splits)
  show list: "s_cmd_list c' = []"
    using assms(1,2) by (auto simp: esp_console_init_def Let_def split: if_splits option.splits prod.splits)
  show "table_ok plain c'" by (simp add: table_ok_def list)
  show "table_of c' = (\<lambda>_. None)" by (simp add: table_of_def find_command_alt list fun_eq_iff)
qed

end
