(* ===== verification/Console_Memory.thy ===== *)
theory Console_Memory
  imports Console_Session
begin

text \<open>
  The memory of the console: the line buffer, the items and their hints.  A hint stays in use as long as its
  item, when the registrations of a name all bring a hint or all bring none and the copy of a hint does not fail.
\<close>

section \<open>The blocks of the console\<close>

definition hint_block :: "(nat \<times> byte list) option \<Rightarrow> nat multiset" where
  "hint_block h = (case h of None \<Rightarrow> {#} | Some (a, _) \<Rightarrow> {#a#})"

definition item_block :: "cmd_item_t \<Rightarrow> nat multiset" where
  "item_block it = add_mset (item_addr it) (hint_block (hint it))"

definition item_blocks :: "cmd_item_t list \<Rightarrow> nat multiset" where
  "item_blocks its = sum_list (map item_block its)"

definition console_blocks :: "console_t \<Rightarrow> nat multiset" where
  "console_blocks c = hint_block (s_tmp_line_buf c) + item_blocks (s_cmd_list c)"

text \<open>The blocks in use are those of the console and others, \<open>X\<close>; only hinted names have hints.\<close>

definition mem_at :: "(byte list \<Rightarrow> bool) \<Rightarrow> nat multiset \<Rightarrow> console_t \<Rightarrow> bool" where
  "mem_at hinted X c \<longleftrightarrow>
     heap_ok (console_heap c) \<and> \<not> bad_free (console_heap c) \<and> mset (live (console_heap c)) = X + console_blocks c \<and>
     (\<forall>it \<in> set (s_cmd_list c). hint it \<noteq> None \<longrightarrow> hinted (command it))"

lemma hint_block_simps [simp]: "hint_block None = {#}" "hint_block (Some (a, t)) = {#a#}"
  by (simp_all add: hint_block_def)

lemma item_blocks_simps [simp]: "item_blocks [] = {#}" "item_blocks (it # its) = item_block it + item_blocks its"
  by (simp_all add: item_blocks_def)

lemma item_blocks_insert [simp]: "item_blocks (insert_item sorted_help item its) = item_block item + item_blocks its"
proof -
  have "item_blocks (insert_sorted item its) = item_block item + item_blocks its" by (induction its) (auto simp: ac_simps)
  moreover have "item_blocks (its @ [item]) = item_block item + item_blocks its" by (induction its) (auto simp: ac_simps)
  ultimately show ?thesis by (simp add: insert_item_def)
qed

lemma item_blocks_filter:
  assumes "distinct (map item_addr its)" and "item \<in> set its"
  shows "item_blocks its = item_block item + item_blocks (filter (\<lambda>it. item_addr it \<noteq> item_addr item) its)"
  using assms
proof (induction its)
  case (Cons it its)
  show ?case
  proof (cases "it = item")
    case True
    have "\<forall>x \<in> set its. item_addr x \<noteq> item_addr it" using Cons.prems(1) by (simp add: image_iff) metis
    then have "filter (\<lambda>x. item_addr x \<noteq> item_addr it) its = its" by (simp add: filter_id_conv)
    then show ?thesis by (simp add: True [symmetric])
  next
    case False
    then have "item_addr it \<noteq> item_addr item" using Cons.prems by auto
    then show ?thesis using Cons False by (simp add: ac_simps)
  qed
qed simp

lemma item_addrs_below: "mset (map item_addr its) \<subseteq># item_blocks its"
  by (induction its) (auto simp: item_block_def intro: subset_mset.add_increasing)

lemma distinct_sublist:
  assumes "mset xs \<subseteq># mset ys" and "distinct ys"
  shows "distinct xs"
proof -
  have "count (mset ys) a \<le> 1" for a
    using assms(2) unfolding distinct_count_atmost_1 by (metis le_refl zero_le_one)
  then have "count (mset xs) a \<le> 1" for a
    using mset_subset_eq_count [OF assms(1), of a] le_trans by blast
  moreover have "a \<in> set xs \<longleftrightarrow> count (mset xs) a \<noteq> 0" for a by (simp add: count_eq_zero_iff)
  ultimately show ?thesis unfolding distinct_count_atmost_1 by (metis le_antisym less_one not_le)
qed

lemma distinct_items:
  assumes "mem_at hinted X c"
  shows "distinct (map item_addr (s_cmd_list c))"
proof (rule distinct_sublist)
  have "mset (map item_addr (s_cmd_list c)) \<subseteq># item_blocks (s_cmd_list c)" by (rule item_addrs_below)
  also have "\<dots> \<subseteq># mset (live (console_heap c))" using assms by (simp add: mem_at_def console_blocks_def)
  finally show "mset (map item_addr (s_cmd_list c)) \<subseteq># mset (live (console_heap c))" .
  show "distinct (live (console_heap c))" using assms by (simp add: mem_at_def heap_ok_def)
qed

section \<open>Single steps\<close>

lemma mem_free:
  assumes "mem_at hinted (add_mset a X) c"
  shows "mem_at hinted X (with_heap (heap_free a (console_heap c)) c)"
  using assms by (auto simp: mem_at_def console_blocks_def)

lemma mem_calloc:
  assumes "mem_at hinted X c" and "calloc (console_heap c) = (q, H)"
  shows "mem_at hinted (X + (case q of None \<Rightarrow> {#} | Some a \<Rightarrow> {#a#})) (with_heap H c)"
  using assms by (cases q) (auto simp: mem_at_def console_blocks_def dest: callocD)

lemma mem_rm_item:
  assumes "mem_at hinted X c" and "item \<in> set (s_cmd_list c)"
  shows "mem_at hinted (add_mset (item_addr item) X) (esp_console_rm_item_free_hint item c)"
proof -
  have all: "item_blocks (s_cmd_list c) = item_block item + item_blocks (s_cmd_list (esp_console_rm_item_free_hint item c))"
    using item_blocks_filter [OF distinct_items [OF assms(1)] assms(2)] by (simp add: free_hint_parts)
  have "a \<in># mset (live (console_heap c))" if "hint item = Some (a, t)" for a t
    using assms(1) that by (simp add: mem_at_def console_blocks_def all item_block_def)
  then show ?thesis
    using assms(1) all
    by (auto simp: mem_at_def console_blocks_def esp_console_rm_item_free_hint_def free_hint_def item_block_def split: option.splits)
qed

lemma mem_new_hint:
  assumes "mem_at hinted X c" and "new_hint syntax_of cmd old (console_heap c) = (h, H)"
    and "cmd_hint cmd \<noteq> None \<Longrightarrow> allocs (console_heap c) = []"
    and "cmd_hint cmd = None \<Longrightarrow> cmd_argtable cmd = None \<Longrightarrow> old = None"
  shows "mem_at hinted (X + hint_block h) (with_heap H c)" and "h \<noteq> None \<Longrightarrow> cmd_hint cmd \<noteq> None \<or> cmd_argtable cmd \<noteq> None"
proof -
  obtain q H1 where q: "calloc (console_heap c) = (q, H1)" by fastforce
  have some: "q \<noteq> None" if "cmd_hint cmd \<noteq> None" using assms(3) [OF that] q by (auto simp: calloc_def)
  show "mem_at hinted (X + hint_block h) (with_heap H c)"
    using assms(1,2,4) q some mem_calloc [OF assms(1) q] by (auto simp: new_hint_def split: option.splits)
  show "h \<noteq> None \<Longrightarrow> cmd_hint cmd \<noteq> None \<or> cmd_argtable cmd \<noteq> None"
    using assms(2,4) by (auto simp: new_hint_def split: option.splits prod.splits)
qed

lemma mem_link:
  assumes "mem_at hinted (X + item_block item) (with_heap H c)" and "hint item \<noteq> None \<Longrightarrow> hinted (command item)"
  shows "mem_at hinted X (c\<lparr>s_cmd_list := insert_item sorted_help item (s_cmd_list c), console_heap := H\<rparr>)"
  using assms by (auto simp: mem_at_def console_blocks_def ac_simps)

section \<open>The operations\<close>

text \<open>The registrations that keep hints in use: all of a name bring a hint, or none does.\<close>

definition hint_kind :: "(byte list \<Rightarrow> bool) \<Rightarrow> esp_console_cmd_t \<Rightarrow> bool" where
  "hint_kind hinted cmd \<longleftrightarrow>
     (\<forall>name. cmd_command cmd = Some name \<longrightarrow> (hinted name \<longleftrightarrow> cmd_hint cmd \<noteq> None \<or> cmd_argtable cmd \<noteq> None))"

lemma allocs_end [simp]: "allocs (heap_free a H) = allocs H"
  by (simp add: heap_free_def)

lemma allocs_calloc: "calloc H = (q, H') \<Longrightarrow> allocs H = [] \<Longrightarrow> allocs H' = []"
  by (auto simp: calloc_def)

lemma allocs_rm: "allocs (console_heap (esp_console_rm_item_free_hint item c)) = allocs (console_heap c)"
  by (simp add: esp_console_rm_item_free_hint_def free_hint_def split: option.splits)

lemma allocs_new_hint: "new_hint syntax_of cmd old H = (h, H') \<Longrightarrow> allocs H = [] \<Longrightarrow> allocs H' = []"
  by (auto simp: new_hint_def split: option.splits prod.splits dest: allocs_calloc)

lemma mem_taken:
  assumes "taken_item name c = (r, c1)" and "mem_at hinted X c"
  shows "mem_at hinted (X + (case r of None \<Rightarrow> {#} | Some item \<Rightarrow> {#item_addr item#})) c1"
    and "r = Some item \<Longrightarrow> hint item \<noteq> None \<Longrightarrow> hinted name"
    and "allocs (console_heap c) = [] \<Longrightarrow> allocs (console_heap c1) = []"
proof -
  have found: "item \<in> set (s_cmd_list c) \<and> command item = name" if "find_command_by_name name c = Some item" for item
    using that by (auto simp: find_command_alt find_Some_iff)
  show "mem_at hinted (X + (case r of None \<Rightarrow> {#} | Some item \<Rightarrow> {#item_addr item#})) c1"
    using assms mem_calloc [OF assms(2)] mem_rm_item [OF assms(2)] found
    by (fastforce simp: taken_item_def split: option.splits prod.splits)
  show "r = Some item \<Longrightarrow> hint item \<noteq> None \<Longrightarrow> hinted name"
    using assms found by (auto simp: taken_item_def mem_at_def split: option.splits prod.splits)
  show "allocs (console_heap c) = [] \<Longrightarrow> allocs (console_heap c1) = []"
    using assms(1) by (auto simp: taken_item_def allocs_rm split: option.splits prod.splits dest: allocs_calloc)
qed

lemma mem_register:
  assumes "esp_console_cmd_register sorted_help syntax_of (Some cmd) c = (err, c')" and "mem_at hinted X c"
    and "hint_kind hinted cmd" and "cmd_hint cmd \<noteq> None \<Longrightarrow> allocs (console_heap c) = []"
  shows "mem_at hinted X c'" and "allocs (console_heap c) = [] \<Longrightarrow> allocs (console_heap c') = []"
proof -
  have "mem_at hinted X c' \<and> (allocs (console_heap c) = [] \<longrightarrow> allocs (console_heap c') = [])"
  proof (cases "\<exists>name. cmd_command cmd = Some name \<and> SPACE \<notin> set name \<and> (cmd_func cmd = None) \<noteq> (cmd_func_w_context cmd = None)")
    case False
    from register_refused [OF False] assms show ?thesis by auto
  next
    case True
    then obtain name where name: "cmd_command cmd = Some name" "SPACE \<notin> set name" and one: "(cmd_func cmd = None) \<noteq> (cmd_func_w_context cmd = None)"
      by blast
    obtain r c1 where taken: "taken_item name c = (r, c1)" by fastforce
    note at = mem_taken [OF taken assms(2)]
    show ?thesis
    proof (cases r)
      case None
      then show ?thesis using assms(1) at(1,3) taken by (simp add: register_alt [OF name one])
    next
      case (Some item)
      obtain h H where h: "new_hint syntax_of cmd (hint item) (console_heap c1) = (h, H)" by fastforce
      let ?item = "fill_item cmd name h item"
      have hinted: "hinted name \<longleftrightarrow> cmd_hint cmd \<noteq> None \<or> cmd_argtable cmd \<noteq> None"
        using assms(3) name by (simp add: hint_kind_def)
      have c1: "mem_at hinted (add_mset (item_addr item) X) c1" using at(1) Some by simp
      have bare: "hint item = None" if "cmd_hint cmd = None" "cmd_argtable cmd = None" using at(2) [OF Some] hinted that by blast
      have none: "allocs (console_heap c1) = []" if "cmd_hint cmd \<noteq> None" using at(3) assms(4) that by blast
      have new: "mem_at hinted (add_mset (item_addr item) X + hint_block h) (with_heap H c1)"
        "h \<noteq> None \<Longrightarrow> cmd_hint cmd \<noteq> None \<or> cmd_argtable cmd \<noteq> None"
        using mem_new_hint [OF c1 h] none bare by blast+
      have parts: "item_block ?item = add_mset (item_addr item) (hint_block h)" "hint ?item = h"
        by (simp_all add: item_block_def fill_item_def Let_def)
      have "mem_at hinted X (c1\<lparr>s_cmd_list := insert_item sorted_help ?item (s_cmd_list c1), console_heap := H\<rparr>)"
      proof (rule mem_link)
        show "mem_at hinted (X + item_block ?item) (with_heap H c1)" using new(1) by (simp add: parts)
        show "hinted (command ?item)" if "hint ?item \<noteq> None" using new(2) that hinted by (simp add: parts fill_item_parts)
      qed
      moreover have "c' = c1\<lparr>s_cmd_list := insert_item sorted_help ?item (s_cmd_list c1), console_heap := H\<rparr>"
        using assms(1) taken h Some by (auto simp: register_alt [OF name one])
      ultimately show ?thesis using at(3) allocs_new_hint [OF h] by simp
    qed
  qed
  then show "mem_at hinted X c'" "allocs (console_heap c) = [] \<Longrightarrow> allocs (console_heap c') = []" by blast+
qed

lemma mem_deregister:
  assumes "esp_console_cmd_deregister name c = (err, c')" and "mem_at hinted X c"
  shows "mem_at hinted X c'" and "allocs (console_heap c) = [] \<Longrightarrow> allocs (console_heap c') = []"
proof -
  have "mem_at hinted X c' \<and> (allocs (console_heap c) = [] \<longrightarrow> allocs (console_heap c') = [])"
  proof (cases "find_command_by_name name c")
    case None
    then show ?thesis using assms by (simp add: esp_console_cmd_deregister_def)
  next
    case (Some item)
    then have "item \<in> set (s_cmd_list c)" by (auto simp: find_command_alt find_Some_iff)
    from mem_free [OF mem_rm_item [OF assms(2) this]] show ?thesis
      using assms(1) Some by (auto simp: esp_console_cmd_deregister_def Let_def allocs_rm)
  qed
  then show "mem_at hinted X c'" "allocs (console_heap c) = [] \<Longrightarrow> allocs (console_heap c') = []" by blast+
qed

section \<open>Command lines and sessions\<close>

text \<open>A command line is always split and run; the block of the argument pointers is freed.\<close>

lemma run_returns:
  assumes "console_ready n len c" and "0 \<notin> set cmdline" and "mem_at hinted X c"
  shows "\<exists>r c'. esp_console_run behaviour cmdline c = Some (r, c') \<and> console_ready n len c' \<and> mem_at hinted X c' \<and>
           (allocs (console_heap c) = [] \<longrightarrow> allocs (console_heap c') = [])"
proof -
  obtain b buf where buf: "s_tmp_line_buf c = Some (b, buf)" "length buf = len" and config: "max_cmdline_args (s_config c) = n + 1" "n + 1 < two32"
      "max_cmdline_length (s_config c) = len" "0 < len"
    using assms(1) by (auto simp: console_ready_def)
  obtain q H where q: "calloc (console_heap c) = (q, H)" by fastforce
  note mem = mem_calloc [OF assms(3) q]
  note allocs = allocs_calloc [OF q]
  show ?thesis
  proof (cases q)
    case None
    then show ?thesis using buf q mem allocs assms(1) by (simp add: esp_console_run_def console_ready_def)
  next
    case (Some a)
    obtain rest where copy: "strlcpy buf cmdline len = take (len - 1) cmdline @ 0 # rest"
      and len: "length (strlcpy buf cmdline len) = len"
      using strlcpy_room [of buf cmdline] buf config(4) by auto
    have "0 \<notin> set (take (len - 1) cmdline)" using assms(2) by (auto dest: in_set_takeD)
    from split_argv_words [OF this, of "replicate (n + 1) None" rest] config(2)
    obtain buf' av ac where split: "esp_console_split_argv (strlcpy buf cmdline len) (replicate (n + 1) None) (n + 1) = Some (buf', av, ac)"
      and len': "length buf' = len"
      using copy len by auto
    let ?c = "c\<lparr>s_tmp_line_buf := Some (b, buf'), console_heap := heap_free a H\<rparr>"
    have "\<exists>r. esp_console_run behaviour cmdline c = Some (r, ?c)"
      using q Some split by (auto simp: esp_console_run_def buf config Let_def split: option.splits)
    moreover have "mem_at hinted X (with_heap (heap_free a H) c)"
      using mem_free [of hinted a X "with_heap H c"] mem Some by simp
    then have "mem_at hinted X ?c" by (simp add: mem_at_def console_blocks_def buf)
    moreover have "console_ready n len ?c" using assms(1) len' by (simp add: console_ready_def)
    ultimately show ?thesis using allocs by auto
  qed
qed

text \<open>What is asked of the calls: strings, hints of one kind, and no failing copy of a hint.\<close>

definition memory_op :: "(byte list \<Rightarrow> bool) \<Rightarrow> block_heap \<Rightarrow> console_op \<Rightarrow> bool" where
  "memory_op hinted H call =
     (case call of
        Cmd_register cmd \<Rightarrow> hint_kind hinted cmd \<and> (cmd_hint cmd = None \<or> allocs H = [])
      | Cmd_deregister name \<Rightarrow> True
      | Cmd_run cmdline \<Rightarrow> 0 \<notin> set cmdline)"

lemma step_memory:
  assumes "console_ready n len c" and "mem_at hinted X c" and "memory_op hinted (console_heap c) call"
  shows "\<exists>out c'. console_step sorted_help syntax_of behaviour call c = Some (out, c') \<and> console_ready n len c' \<and> mem_at hinted X c' \<and>
           (allocs (console_heap c) = [] \<longrightarrow> allocs (console_heap c') = [])"
proof (cases call)
  case (Cmd_register cmd)
  obtain err c' where r: "esp_console_cmd_register sorted_help syntax_of (Some cmd) c = (err, c')" by fastforce
  have "s_tmp_line_buf c' = s_tmp_line_buf c \<and> s_config c' = s_config c"
    using r by (auto simp: esp_console_cmd_register_def esp_console_rm_item_free_hint_def Let_def split: option.splits if_splits prod.splits)
  then have "console_ready n len c'" using ready_config [OF assms(1)] by blast
  moreover have "hint_kind hinted cmd" "cmd_hint cmd \<noteq> None \<Longrightarrow> allocs (console_heap c) = []"
    using assms(3) by (auto simp: memory_op_def Cmd_register)
  ultimately show ?thesis using mem_register [OF r assms(2)] r by (simp add: Cmd_register console_step_def)
next
  case (Cmd_deregister name)
  obtain err c' where r: "esp_console_cmd_deregister name c = (err, c')" by fastforce
  have "s_tmp_line_buf c' = s_tmp_line_buf c \<and> s_config c' = s_config c"
    using r by (auto simp: esp_console_cmd_deregister_def esp_console_rm_item_free_hint_def Let_def split: option.splits)
  then have "console_ready n len c'" using ready_config [OF assms(1)] by blast
  then show ?thesis using mem_deregister [OF r assms(2)] r by (simp add: Cmd_deregister console_step_def)
next
  case (Cmd_run cmdline)
  have "0 \<notin> set cmdline" using assms(3) by (simp add: memory_op_def Cmd_run)
  from run_returns [OF assms(1) this assms(2), of behaviour] show ?thesis
    by (fastforce simp: Cmd_run console_step_def)
qed

lemma memory_op_later:
  "memory_op hinted H call \<Longrightarrow> (allocs H = [] \<longrightarrow> allocs H' = []) \<Longrightarrow> memory_op hinted H' call"
  by (auto simp: memory_op_def split: console_op.splits)

lemma session_memory:
  assumes "console_ready n len c" and "mem_at hinted X c" and "\<forall>call \<in> set calls. memory_op hinted (console_heap c) call"
  shows "\<exists>outs c'. console_session sorted_help syntax_of behaviour calls c = Some (outs, c') \<and> console_ready n len c' \<and> mem_at hinted X c'"
  using assms
proof (induction calls arbitrary: c)
  case Nil
  then show ?case by simp
next
  case (Cons call calls)
  have op: "memory_op hinted (console_heap c) call" using Cons.prems(3) by simp
  obtain out c1 where step: "console_step sorted_help syntax_of behaviour call c = Some (out, c1)" "console_ready n len c1" "mem_at hinted X c1"
    and later: "allocs (console_heap c) = [] \<longrightarrow> allocs (console_heap c1) = []"
    using step_memory [OF Cons.prems(1,2) op] by blast
  have "\<forall>call \<in> set calls. memory_op hinted (console_heap c1) call"
    using Cons.prems(3) memory_op_later [OF _ later] by simp
  from Cons.IH [OF step(2,3) this] show ?case using step(1) by auto
qed

section \<open>The end of the console\<close>

lemma free_items:
  assumes "heap_ok H" and "\<not> bad_free H" and "mset (live H) = X + item_blocks its"
  shows "let H' = fold (\<lambda>it H. heap_free (item_addr it) (free_hint it H)) its H in heap_ok H' \<and> \<not> bad_free H' \<and> mset (live H') = X"
  using assms
proof (induction its arbitrary: H)
  case Nil
  then show ?case by simp
next
  case (Cons it its)
  let ?H = "heap_free (item_addr it) (free_hint it H)"
  have all: "a \<in># mset (live H)" if "a \<in># item_block it" for a using that Cons.prems(3) by simp
  have parts: "mset (live ?H) = X + item_blocks its"
    using Cons.prems(3) by (auto simp: free_hint_def item_block_def split: option.splits)
  have hint_in: "a \<in> set (live H)" if "hint it = Some (a, t)" for a t
    using all [of a] that by (simp add: item_block_def)
  have "mset (live (free_hint it H)) = add_mset (item_addr it) (X + item_blocks its)"
    using Cons.prems(3) by (auto simp: free_hint_def item_block_def split: option.splits)
  then have item_in: "item_addr it \<in> set (live (free_hint it H))" by (rule in_set_of_mset)
  have "\<not> bad_free ?H" using Cons.prems(2) hint_in item_in by (auto simp: free_hint_def split: option.splits)
  moreover have "heap_ok ?H" using Cons.prems(1) by (auto simp: free_hint_def split: option.splits)
  ultimately show ?case using Cons.IH [OF _ _ parts] by simp
qed

lemma deinit_memory:
  assumes "console_ready n len c" and "mem_at hinted X c" and "esp_console_deinit c = (err, c')"
  shows "err = ESP_OK \<and> s_cmd_list c' = [] \<and> s_tmp_line_buf c' = None \<and> \<not> bad_free (console_heap c') \<and> mset (live (console_heap c')) = X"
proof -
  obtain b buf where buf: "s_tmp_line_buf c = Some (b, buf)" using assms(1) by (auto simp: console_ready_def)
  have live: "mset (live (console_heap c)) = add_mset b (X + item_blocks (s_cmd_list c))" and ok: "heap_ok (console_heap c)" "\<not> bad_free (console_heap c)"
    using assms(2) by (auto simp: mem_at_def console_blocks_def buf)
  have "heap_ok (heap_free b (console_heap c))" "\<not> bad_free (heap_free b (console_heap c))"
    "mset (live (heap_free b (console_heap c))) = X + item_blocks (s_cmd_list c)"
    using live ok by auto
  from free_items [OF this] show ?thesis using assms(3) buf by (auto simp: esp_console_deinit_def Let_def)
qed

lemma init_memory:
  assumes "esp_console_init caps (Some cfg) c = (ESP_OK, c')" and "s_cmd_list c = []" and "s_tmp_line_buf c = None"
    and "heap_ok (console_heap c)" and "\<not> bad_free (console_heap c)"
  shows "mem_at hinted (mset (live (console_heap c))) c'" and "allocs (console_heap c) = [] \<Longrightarrow> allocs (console_heap c') = []"
proof -
  obtain q H where q: "calloc (console_heap c) = (q, H)" by fastforce
  show "mem_at hinted (mset (live (console_heap c))) c'"
    using assms q by (auto simp: esp_console_init_def mem_at_def console_blocks_def Let_def split: if_splits option.splits dest: callocD)
  show "allocs (console_heap c) = [] \<Longrightarrow> allocs (console_heap c') = []"
    using assms q by (auto simp: esp_console_init_def Let_def split: if_splits option.splits dest: allocs_calloc)
qed

end
