(* ===== verification/Console_Props.thy ===== *)
theory Console_Props
  imports Console_Memory
begin

text \<open>The properties of the console, each with a run of the code in which its hypotheses hold.\<close>

section \<open>The splitter\<close>

text \<open>C24: The splitter works in place.  For every line and every \<open>argv\<close> with at least one entry it stays inside
  both, leaves in the line the words of the line, as many as fit, as strings at the offsets that it stores,
  and ends \<open>argv\<close> with a null pointer.\<close>

theorem line_is_split_in_place:
  assumes "0 \<notin> set cs" and "0 < length av" and "length av < two32"
  shows "\<exists>buf' ps av'. esp_console_split_argv (cs @ 0 # rest) av (length av) =
             Some (buf', map Some ps @ None # av', length ps) \<and>
           map (c_string buf') ps = words_of (length av - 1) SS_SPACE [] cs \<and> length ps < length av \<and>
           length buf' = length (cs @ 0 # rest) \<and> length av' = length av - 1 - length ps"
  using assms by (rule split_argv_words)

text \<open>The line \<open>a\ b\\c\" "1 2"x  z\<close>, with room for two words.\<close>

definition line0 :: "byte list" where
  "line0 = [97, 92, 32, 98, 92, 92, 99, 92, 34, 32, 34, 49, 32, 50, 34, 120, 32, 32, 122]"

lemma words_of_line0: "words_of (Suc (Suc 0)) SS_SPACE [] line0 = [[97, 32, 98, 92, 99, 34], [49, 32, 50]]"
  by (simp add: line0_def SPACE_def ESCAPE_def QUOTE_def)

lemma line_is_split_in_place_witness:
  "\<exists>buf' ps av'. esp_console_split_argv (line0 @ 0 # [5]) [None, Some 9, None] 3 = Some (buf', map Some ps @ None # av', length ps) \<and>
     map (c_string buf') ps = [[97, 32, 98, 92, 99, 34], [49, 32, 50]]"
proof -
  have "0 \<notin> set line0" by (simp add: line0_def)
  note split = line_is_split_in_place [OF this, of "[None, Some 9, None]" "[5]"]
  have args: "length [None, Some (9 :: nat), None] = 3" "3 - 1 = Suc (Suc 0)" by simp_all
  have "0 < (3 :: nat)" "(3 :: nat) < two32" by simp_all
  from split [unfolded args words_of_line0, OF this] show ?thesis
    by (elim exE conjE) (intro exI conjI, assumption, assumption)
qed

text \<open>Quoted words come out as they are.\<close>

theorem quoted_words_come_out:
  assumes "\<forall>w \<in> set ws. 0 \<notin> set w" and "length ws < length av" and "length av < two32"
  shows "\<exists>buf' ps av'. esp_console_split_argv (quote_line ws @ 0 # rest) av (length av) = Some (buf', map Some ps @ None # av', length ws) \<and>
           map (c_string buf') ps = ws"
proof -
  have "0 < length av" "length ws \<le> length av - 1" using assms(2) by linarith+
  with split_argv_words [OF quote_line_no_zero [OF assms(1)], of av rest] assms(3) show ?thesis
    by (fastforce simp: words_of_quote_line dest: arg_cong [where f = length])
qed

section \<open>The table of commands\<close>

definition config0 :: esp_console_config_t where
  "config0 = \<lparr>max_cmdline_length = 8, max_cmdline_args = 4, heap_alloc_caps = 0, hint_color = 0, hint_bold = 0\<rparr>"

definition console0 :: console_t where
  "console0 = \<lparr>s_cmd_list = [], s_config = config0, s_tmp_line_buf = None, s_verbose_level = 1,
     console_heap = \<lparr>next_addr = 8, allocs = [], live = [7], bad_free = False\<rparr>\<rparr>"

definition console1 :: console_t where
  "console1 = snd (esp_console_init 4 (Some config0) console0)"



definition cmd_f :: "byte list \<Rightarrow> nat \<Rightarrow> byte list option \<Rightarrow> esp_console_cmd_t" where
  "cmd_f name f h = \<lparr>cmd_command = Some name, cmd_help = None, cmd_hint = h, cmd_func = Some f, cmd_argtable = None,
     cmd_func_w_context = None, cmd_ctx = 0\<rparr>"

definition cmd_x :: "byte list \<Rightarrow> nat \<Rightarrow> nat \<Rightarrow> esp_console_cmd_t" where
  "cmd_x name f x = \<lparr>cmd_command = Some name, cmd_help = None, cmd_hint = None, cmd_func = None, cmd_argtable = None,
     cmd_func_w_context = Some f, cmd_ctx = x\<rparr>"

text \<open>Two commands, \<open>l\<close> and \<open>m\<close>; \<open>l\<close> is registered again and later removed.\<close>

definition calls0 :: "console_op list" where
  "calls0 = [Cmd_register (cmd_f [108] 1 None), Cmd_register (cmd_x [109] 2 55), Cmd_run [109, 32, 49],
     Cmd_register (cmd_f [108] 3 None), Cmd_run [108], Cmd_deregister [108], Cmd_run [108]]"


lemma eval_replicate: "replicate 4 x = [x, x, x, x]" "replicate 8 y = [y, y, y, y, y, y, y, y]"
  by (simp_all add: numeral_eq_Suc)

lemmas console_eval = calls0_def cmd_f_def cmd_x_def console1_def console0_def config0_def esp_console_init_def calloc_def heap_free_def
  console_step_def esp_console_cmd_register_def esp_console_cmd_deregister_def esp_console_rm_item_free_hint_def free_hint_def
  find_command_by_name_def insert_item_def new_hint_def fill_item_def esp_console_run_def strlcpy_def
  esp_console_split_argv_def sub32_eq split_loop.simps split_char_def put_char_def END_ARG_def put_arg_def c_string_def
  SPACE_def QUOTE_def ESCAPE_def Let_def eval_replicate

lemma calls0_outcomes:
  "map_option fst (console_session True (\<lambda>_. []) (\<lambda>_. 0) calls0 console1) =
     Some [(ESP_OK, []), (ESP_OK, []), (ESP_OK, [Call_with_context 2 55 [[109], [49]]]), (ESP_OK, []),
       (ESP_OK, [Call_func 3 [[108]]]), (ESP_OK, []), (ESP_ERR_NOT_FOUND, [])]"
  by (simp add: console_eval split del: if_split cong: bind_weak_cong)

section \<open>Memory\<close>




section \<open>A name with two kinds of function\<close>

text \<open>A name that is registered with a function and a hint, and then with a function with a context and
  without a hint: a line calls both functions, and the hint is freed a second time by the removal.\<close>

definition calls2 :: "console_op list" where
  "calls2 = [Cmd_register (cmd_f [108] 1 (Some [60])), Cmd_register (cmd_x [108] 2 55), Cmd_run [108]]"

theorem second_registration_keeps_the_first_function:
  "map_option fst (console_session True (\<lambda>_. []) (\<lambda>_. 0) calls2 console1) =
     Some [(ESP_OK, []), (ESP_OK, []), (ESP_OK, [Call_func 1 [[108]], Call_with_context 2 55 [[108]]])]"
  by (simp add: console_eval calls2_def split del: if_split cong: bind_weak_cong)

theorem second_registration_frees_the_hint_twice:
  "map_option (\<lambda>(outs, c). (bad_free (console_heap c), bad_free (console_heap (snd (esp_console_cmd_deregister [108] c)))))
     (console_session True (\<lambda>_. []) (\<lambda>_. 0) calls2 console1) = Some (False, True)"
  by (simp add: console_eval calls2_def split del: if_split cong: bind_weak_cong)

end
