(* ===== verification/Vfs.thy ===== *)
theory Vfs
  imports Blocks
begin

text \<open>
  The virtual file system layer, \<open>components/vfs/vfs.c\<close>: the table of registered file systems, the table of
  file descriptors, and the operations on both.  Functions of a driver are numbers; what they return is a
  parameter.  Paths are byte lists without the terminating zero.
\<close>

section \<open>Operations of a driver\<close>

type_synonym fn = nat

datatype fs_op = Op_write | Op_lseek | Op_read | Op_pread | Op_pwrite | Op_open | Op_close | Op_fstat | Op_fcntl | Op_ioctl | Op_fsync

datatype dir_op = Op_stat | Op_link | Op_unlink | Op_rename | Op_opendir | Op_readdir | Op_readdir_r | Op_telldir | Op_seekdir
  | Op_closedir | Op_mkdir | Op_rmdir | Op_access | Op_truncate | Op_ftruncate | Op_utime

datatype termios_op = Op_tcsetattr | Op_tcgetattr | Op_tcdrain | Op_tcflush | Op_tcflow | Op_tcgetsid | Op_tcsendbreak

datatype select_op = Op_start_select | Op_socket_select | Op_stop_socket_select | Op_stop_socket_select_isr
  | Op_get_socket_select_semaphore | Op_end_select

definition dir_op_list :: "dir_op list" where
  "dir_op_list = [Op_stat, Op_link, Op_unlink, Op_rename, Op_opendir, Op_readdir, Op_readdir_r, Op_telldir, Op_seekdir,
     Op_closedir, Op_mkdir, Op_rmdir, Op_access, Op_truncate, Op_ftruncate, Op_utime]"

definition termios_op_list :: "termios_op list" where
  "termios_op_list = [Op_tcsetattr, Op_tcgetattr, Op_tcdrain, Op_tcflush, Op_tcflow, Op_tcgetsid, Op_tcsendbreak]"

definition select_op_list :: "select_op list" where
  "select_op_list = [Op_start_select, Op_socket_select, Op_stop_socket_select, Op_stop_socket_select_isr,
     Op_get_socket_select_semaphore, Op_end_select]"

text \<open>What a driver passes in: the flags and its functions, \<open>None\<close> for a null pointer.\<close>

record esp_vfs_t =
  vfs_flags :: "32 word"
  vfs_fs :: "fs_op \<Rightarrow> fn option"
  vfs_dir :: "dir_op \<Rightarrow> fn option"
  vfs_termios :: "termios_op \<Rightarrow> fn option"
  vfs_select :: "select_op \<Rightarrow> fn option"

text \<open>What the layer keeps: a block with the functions for files, and blocks for the parts that are there.\<close>

record esp_vfs_fs_ops_t =
  fs_block :: nat
  fs_fns :: "fs_op \<Rightarrow> fn option"
  fs_dir :: "(nat \<times> (dir_op \<Rightarrow> fn option)) option"
  fs_termios :: "(nat \<times> (termios_op \<Rightarrow> fn option)) option"
  fs_select :: "(nat \<times> (select_op \<Rightarrow> fn option)) option"

section \<open>State\<close>

definition ESP_VFS_PATH_MAX :: nat where "ESP_VFS_PATH_MAX = 15"
definition ESP_VFS_FLAG_CONTEXT_PTR :: "32 word" where "ESP_VFS_FLAG_CONTEXT_PTR = 2"
definition ESP_VFS_FLAG_READONLY_FS :: "32 word" where "ESP_VFS_FLAG_READONLY_FS = 4"
definition ESP_VFS_FLAG_STATIC :: "32 word" where "ESP_VFS_FLAG_STATIC = 8"
definition LEN_PATH_PREFIX_IGNORED :: nat where "LEN_PATH_PREFIX_IGNORED = 4294967295"

record vfs_entry_t =
  entry_block :: nat
  entry_flags :: "32 word"
  entry_vfs :: esp_vfs_fs_ops_t
  path_prefix :: "byte list"
  path_prefix_len :: nat
  entry_ctx :: nat
  entry_offset :: nat

record fd_table_t =
  permanent :: bool
  has_pending_close :: bool
  has_pending_select :: bool
  vfs_index :: int
  local_fd :: byte

definition FD_TABLE_ENTRY_UNUSED :: fd_table_t where
  "FD_TABLE_ENTRY_UNUSED =
     \<lparr>permanent = False, has_pending_close = False, has_pending_select = False, vfs_index = - 1, local_fd = - 1\<rparr>"

text \<open>An argument of a driver function, and a call: the function, the context if it takes one, the arguments.\<close>

datatype vfs_arg = IntArg int | StrArg "byte list" | PtrArg nat

record vfs_call =
  call_fn :: fn
  call_ctx :: "nat option"
  call_args :: "vfs_arg list"

text \<open>The tables have the lengths \<open>VFS_MAX_COUNT\<close> and \<open>MAX_FDS\<close>; \<open>history\<close> are the driver calls so far.\<close>

record vfs_state =
  s_vfs :: "vfs_entry_t option list"
  s_vfs_count :: nat
  s_fd_table :: "fd_table_t list"
  vfs_heap :: block_heap
  history :: "vfs_call list"

abbreviation VFS_MAX_COUNT :: "vfs_state \<Rightarrow> nat" where "VFS_MAX_COUNT st \<equiv> length (s_vfs st)"
abbreviation MAX_FDS :: "vfs_state \<Rightarrow> nat" where "MAX_FDS st \<equiv> length (s_fd_table st)"
abbreviation set_heap :: "block_heap \<Rightarrow> vfs_state \<Rightarrow> vfs_state" where "set_heap H st \<equiv> st\<lparr>vfs_heap := H\<rparr>"

definition vfs_init :: "nat \<Rightarrow> nat \<Rightarrow> block_heap \<Rightarrow> vfs_state" where
  "vfs_init max_count max_fds H =
     \<lparr>s_vfs = replicate max_count None, s_vfs_count = 0, s_fd_table = replicate max_fds FD_TABLE_ENTRY_UNUSED,
      vfs_heap = H, history = []\<rparr>"

definition esp_get_free_index :: "vfs_state \<Rightarrow> nat option" where
  "esp_get_free_index st = find (\<lambda>i. s_vfs st ! i = None) [0..<VFS_MAX_COUNT st]"

section \<open>Blocks of the operations\<close>

definition free_part :: "(nat \<times> 'f) option \<Rightarrow> block_heap \<Rightarrow> block_heap" where
  "free_part p H = (case p of None \<Rightarrow> H | Some (a, _) \<Rightarrow> heap_free a H)"

definition esp_vfs_free_fs_ops :: "esp_vfs_fs_ops_t \<Rightarrow> block_heap \<Rightarrow> block_heap" where
  "esp_vfs_free_fs_ops v H = heap_free (fs_block v) (free_part (fs_select v) (free_part (fs_dir v) (free_part (fs_termios v) H)))"

definition esp_vfs_free_entry :: "vfs_entry_t \<Rightarrow> block_heap \<Rightarrow> block_heap" where
  "esp_vfs_free_entry e H =
     heap_free (entry_block e) (if entry_flags e AND ESP_VFS_FLAG_STATIC = 0 then esp_vfs_free_fs_ops (entry_vfs e) H else H)"

definition free_proxy_members ::
  "(nat \<times> (dir_op \<Rightarrow> fn option)) option \<Rightarrow> (nat \<times> (termios_op \<Rightarrow> fn option)) option \<Rightarrow> (nat \<times> (select_op \<Rightarrow> fn option)) option
     \<Rightarrow> block_heap \<Rightarrow> block_heap" where
  "free_proxy_members d t s H = free_part s (free_part t (free_part d H))"

text \<open>A part is allocated when there is something to keep.  \<open>None\<close> is a failed allocation.\<close>

definition alloc_part :: "'f option \<Rightarrow> block_heap \<Rightarrow> (nat \<times> 'f) option option \<times> block_heap" where
  "alloc_part p H =
     (case p of
        None \<Rightarrow> (Some None, H)
      | Some f \<Rightarrow> (case calloc H of (None, H1) \<Rightarrow> (None, H1) | (Some a, H1) \<Rightarrow> (Some (Some (a, f)), H1)))"

definition build_fs_ops ::
  "(fs_op \<Rightarrow> fn option) \<Rightarrow> (dir_op \<Rightarrow> fn option) option \<Rightarrow> (termios_op \<Rightarrow> fn option) option \<Rightarrow> (select_op \<Rightarrow> fn option) option
     \<Rightarrow> block_heap \<Rightarrow> esp_vfs_fs_ops_t option \<times> block_heap" where
  "build_fs_ops fs d t s H =
     (case alloc_part d H of
        (None, H1) \<Rightarrow> (None, free_proxy_members None None None H1)
      | (Some dp, H1) \<Rightarrow>
         (case alloc_part t H1 of
            (None, H2) \<Rightarrow> (None, free_proxy_members dp None None H2)
          | (Some tp, H2) \<Rightarrow>
             (case alloc_part s H2 of
                (None, H3) \<Rightarrow> (None, free_proxy_members dp tp None H3)
              | (Some sp, H3) \<Rightarrow>
                 (case calloc H3 of
                    (None, H4) \<Rightarrow> (None, free_proxy_members dp tp sp H4)
                  | (Some a, H4) \<Rightarrow>
                      (Some \<lparr>fs_block = a, fs_fns = fs, fs_dir = dp, fs_termios = tp, fs_select = sp\<rparr>, H4)))))"

definition esp_vfs_duplicate_fs_ops :: "esp_vfs_fs_ops_t \<Rightarrow> block_heap \<Rightarrow> esp_vfs_fs_ops_t option \<times> block_heap" where
  "esp_vfs_duplicate_fs_ops orig H =
     build_fs_ops (fs_fns orig) (map_option snd (fs_dir orig)) (map_option snd (fs_termios orig)) (map_option snd (fs_select orig)) H"

definition esp_vfs_make_fs_ops :: "esp_vfs_t option \<Rightarrow> block_heap \<Rightarrow> esp_err_t \<times> esp_vfs_fs_ops_t option \<times> block_heap" where
  "esp_vfs_make_fs_ops vfs_arg H =
     (case vfs_arg of
        None \<Rightarrow> (ESP_ERR_INVALID_ARG, None, H)
      | Some v \<Rightarrow>
          let skip_dir = (\<forall>op \<in> set dir_op_list. vfs_dir v op = None);
              skip_termios = (\<forall>op \<in> set termios_op_list. vfs_termios v op = None);
              skip_select = (\<forall>op \<in> set select_op_list. vfs_select v op = None)
          in case build_fs_ops (vfs_fs v) (if skip_dir then None else Some (vfs_dir v))
                    (if skip_termios then None else Some (vfs_termios v)) (if skip_select then None else Some (vfs_select v)) H of
               (None, H1) \<Rightarrow> (ESP_ERR_NO_MEM, None, H1)
             | (Some main, H1) \<Rightarrow> (ESP_OK, Some main, H1))"

section \<open>Registration\<close>

text \<open>
  The prefix is copied into an array of \<open>ESP_VFS_PATH_MAX\<close> bytes; a copy that does not fit is a trap.  The second
  component is the index that is passed back.
\<close>

definition SLASH :: byte where "SLASH = 47"

definition prefix_refused :: "byte list \<Rightarrow> nat \<Rightarrow> bool" where
  "prefix_refused base_path len \<longleftrightarrow>
     len \<noteq> LEN_PATH_PREFIX_IGNORED \<and>
     (len = 1 \<or> ESP_VFS_PATH_MAX < len \<or> (2 \<le> len \<and> (base_path ! 0 \<noteq> SLASH \<or> base_path ! (len - 1) = SLASH)))"

definition esp_vfs_register_fs_common ::
  "byte list \<Rightarrow> nat \<Rightarrow> esp_vfs_fs_ops_t option \<Rightarrow> 32 word \<Rightarrow> nat \<Rightarrow> vfs_state \<Rightarrow> ((esp_err_t \<times> nat option) \<times> vfs_state) option" where
  "esp_vfs_register_fs_common base_path len vfs_arg flags ctx st =
     (case vfs_arg of
        None \<Rightarrow> Some ((ESP_ERR_INVALID_ARG, None), st)
      | Some v \<Rightarrow>
          if prefix_refused base_path len then Some ((ESP_ERR_INVALID_ARG, None), st)
          else (case esp_get_free_index st of
             None \<Rightarrow> Some ((ESP_ERR_NO_MEM, None), st)
           | Some index \<Rightarrow>
               let st1 = (if index = s_vfs_count st then st\<lparr>s_vfs_count := s_vfs_count st + 1\<rparr> else st)
               in (case calloc (vfs_heap st1) of
                    (None, H) \<Rightarrow> Some ((ESP_ERR_NO_MEM, None), set_heap H st1)
                  | (Some a, H) \<Rightarrow>
                      do {
                        assert_that (len = LEN_PATH_PREFIX_IGNORED \<or> length base_path + 1 \<le> ESP_VFS_PATH_MAX);
                        let prefix = (if len \<noteq> LEN_PATH_PREFIX_IGNORED then base_path else []);
                        let entry = \<lparr>entry_block = a, entry_flags = flags, entry_vfs = v, path_prefix = prefix,
                                     path_prefix_len = len, entry_ctx = ctx, entry_offset = index\<rparr>;
                        Some ((ESP_OK, Some index), (set_heap H st1)\<lparr>s_vfs := (s_vfs st1)[index := Some entry]\<rparr>)
                      })))"

definition esp_vfs_register_fs ::
  "byte list \<Rightarrow> esp_vfs_fs_ops_t option \<Rightarrow> 32 word \<Rightarrow> nat \<Rightarrow> vfs_state \<Rightarrow> (esp_err_t \<times> vfs_state) option" where
  "esp_vfs_register_fs base_path vfs_arg flags ctx st =
     (case vfs_arg of
        None \<Rightarrow> Some (ESP_ERR_INVALID_ARG, st)
      | Some v \<Rightarrow>
          if flags AND ESP_VFS_FLAG_STATIC \<noteq> 0
          then map_option (\<lambda>((err, _), st1). (err, st1)) (esp_vfs_register_fs_common base_path (length base_path) (Some v) flags ctx st)
          else (case esp_vfs_duplicate_fs_ops v (vfs_heap st) of
             (None, H) \<Rightarrow> Some (ESP_ERR_NO_MEM, set_heap H st)
           | (Some copy, H) \<Rightarrow>
               map_option (\<lambda>((err, _), st1). (err, if err \<noteq> ESP_OK then set_heap (esp_vfs_free_fs_ops copy (vfs_heap st1)) st1 else st1))
                 (esp_vfs_register_fs_common base_path (length base_path) (Some copy) flags ctx (set_heap H st))))"

definition esp_vfs_register_common ::
  "byte list \<Rightarrow> nat \<Rightarrow> esp_vfs_t option \<Rightarrow> nat \<Rightarrow> vfs_state \<Rightarrow> ((esp_err_t \<times> nat option) \<times> vfs_state) option" where
  "esp_vfs_register_common base_path len vfs_arg ctx st =
     (case vfs_arg of
        None \<Rightarrow> Some ((ESP_ERR_INVALID_ARG, None), st)
      | Some v \<Rightarrow>
          if vfs_flags v AND ESP_VFS_FLAG_STATIC \<noteq> 0 then Some ((ESP_ERR_INVALID_ARG, None), st)
          else (case esp_vfs_make_fs_ops (Some v) (vfs_heap st) of
             (err, None, H) \<Rightarrow> Some ((err, None), set_heap H st)
           | (_, Some ops, H) \<Rightarrow>
               map_option (\<lambda>((err, i), st1). ((err, i), if err \<noteq> ESP_OK then set_heap (esp_vfs_free_fs_ops ops (vfs_heap st1)) st1 else st1))
                 (esp_vfs_register_fs_common base_path len (Some ops) (vfs_flags v) ctx (set_heap H st))))"

definition esp_vfs_register :: "byte list \<Rightarrow> esp_vfs_t option \<Rightarrow> nat \<Rightarrow> vfs_state \<Rightarrow> (esp_err_t \<times> vfs_state) option" where
  "esp_vfs_register base_path v ctx st =
     map_option (\<lambda>((err, _), st1). (err, st1)) (esp_vfs_register_common base_path (length base_path) v ctx st)"

text \<open>\<open>has_id\<close>: the pointer for the identifier is not null; \<open>None\<close> in it is the value -1.\<close>

definition esp_vfs_register_with_id ::
  "esp_vfs_t option \<Rightarrow> nat \<Rightarrow> bool \<Rightarrow> vfs_state \<Rightarrow> ((esp_err_t \<times> nat option) \<times> vfs_state) option" where
  "esp_vfs_register_with_id v ctx has_id st =
     (if \<not> has_id then Some ((ESP_ERR_INVALID_ARG, None), st)
      else esp_vfs_register_common [] LEN_PATH_PREFIX_IGNORED v ctx st)"

definition esp_vfs_register_fs_with_id ::
  "esp_vfs_fs_ops_t option \<Rightarrow> 32 word \<Rightarrow> nat \<Rightarrow> bool \<Rightarrow> vfs_state \<Rightarrow> ((esp_err_t \<times> nat option) \<times> vfs_state) option" where
  "esp_vfs_register_fs_with_id v flags ctx has_id st =
     (if \<not> has_id then Some ((ESP_ERR_INVALID_ARG, None), st)
      else esp_vfs_register_fs_common [] LEN_PATH_PREFIX_IGNORED v flags ctx st)"

section \<open>Descriptors that are registered\<close>

text \<open>The entries from \<open>i\<close> on of a range that ends at \<open>max_fd\<close>; the second component is the first that is taken.\<close>

function register_range :: "nat \<Rightarrow> nat \<Rightarrow> nat \<Rightarrow> fd_table_t list \<Rightarrow> (fd_table_t list \<times> nat option) option" where
  "register_range index i max_fd tab =
     (if i < max_fd then
        if i < length tab then
          if vfs_index (tab ! i) \<noteq> - 1 then Some (tab, Some i)
          else register_range index (i + 1) max_fd
                 (tab[i := (tab ! i)\<lparr>permanent := True, vfs_index := int index, local_fd := of_nat i\<rparr>])
        else None
      else Some (tab, None))"
  by pat_completeness auto
termination by (relation "measure (\<lambda>(index, i, max_fd, tab). max_fd - i)") auto

declare register_range.simps [simp del]

definition clear_fds :: "nat \<Rightarrow> nat \<Rightarrow> int \<Rightarrow> fd_table_t list \<Rightarrow> fd_table_t list" where
  "clear_fds first last_fd vfs_id tab =
     map (\<lambda>(j, e). if first \<le> j \<and> j < last_fd \<and> vfs_index e = vfs_id then FD_TABLE_ENTRY_UNUSED else e) (zip [0..<length tab] tab)"

definition esp_vfs_register_fd_range ::
  "esp_vfs_t option \<Rightarrow> nat \<Rightarrow> int \<Rightarrow> int \<Rightarrow> vfs_state \<Rightarrow> (esp_err_t \<times> vfs_state) option" where
  "esp_vfs_register_fd_range v ctx min_fd max_fd st =
     (if min_fd < 0 \<or> max_fd < 0 \<or> int (MAX_FDS st) < min_fd \<or> int (MAX_FDS st) < max_fd \<or> max_fd < min_fd
      then Some (ESP_ERR_INVALID_ARG, st)
      else do {
        ((ret, index), st1) \<leftarrow> esp_vfs_register_common [] LEN_PATH_PREFIX_IGNORED v ctx st;
        case index of
          None \<Rightarrow> Some (ret, st1)
        | Some i \<Rightarrow> do {
            (tab, taken) \<leftarrow> register_range i (nat min_fd) (nat max_fd) (s_fd_table st1);
            case taken of
              None \<Rightarrow> Some (ret, st1\<lparr>s_fd_table := tab\<rparr>)
            | Some fd \<Rightarrow>
                Some (ESP_ERR_INVALID_ARG,
                  st1\<lparr>s_vfs := (s_vfs st1)[i := None],
                     vfs_heap := (case s_vfs st1 ! i of None \<Rightarrow> vfs_heap st1 | Some e \<Rightarrow> heap_free (entry_block e) (vfs_heap st1)),
                     s_fd_table := clear_fds (nat min_fd) fd (int i) tab\<rparr>)
          }
      })"

text \<open>The loop over the descriptors runs to \<open>VFS_MAX_COUNT\<close>.\<close>

definition esp_vfs_unregister_with_id :: "int \<Rightarrow> vfs_state \<Rightarrow> (esp_err_t \<times> vfs_state) option" where
  "esp_vfs_unregister_with_id vfs_id st =
     (if vfs_id < 0 \<or> int (VFS_MAX_COUNT st) \<le> vfs_id then Some (ESP_ERR_INVALID_ARG, st)
      else (case s_vfs st ! nat vfs_id of
         None \<Rightarrow> Some (ESP_ERR_INVALID_ARG, st)
       | Some e \<Rightarrow> do {
           assert_that (VFS_MAX_COUNT st \<le> MAX_FDS st);
           Some (ESP_OK, st\<lparr>s_vfs := (s_vfs st)[nat vfs_id := None], vfs_heap := esp_vfs_free_entry e (vfs_heap st),
                            s_fd_table := clear_fds 0 (VFS_MAX_COUNT st) vfs_id (s_fd_table st)\<rparr>)
         }))"

text \<open>The first entry with the prefix.\<close>

definition find_prefix :: "byte list \<Rightarrow> vfs_state \<Rightarrow> nat option" where
  "find_prefix base_path st =
     find (\<lambda>i. case s_vfs st ! i of
                 None \<Rightarrow> False
               | Some e \<Rightarrow> length base_path = path_prefix_len e \<and> base_path = take (path_prefix_len e) (path_prefix e))
       [0..<s_vfs_count st]"

definition esp_vfs_unregister :: "byte list \<Rightarrow> vfs_state \<Rightarrow> (esp_err_t \<times> vfs_state) option" where
  "esp_vfs_unregister base_path st =
     (case find_prefix base_path st of None \<Rightarrow> Some (ESP_ERR_INVALID_STATE, st) | Some i \<Rightarrow> esp_vfs_unregister_with_id (int i) st)"

definition esp_vfs_set_readonly_flag :: "byte list \<Rightarrow> vfs_state \<Rightarrow> esp_err_t \<times> vfs_state" where
  "esp_vfs_set_readonly_flag base_path st =
     (case find_prefix base_path st of
        None \<Rightarrow> (ESP_ERR_INVALID_STATE, st)
      | Some i \<Rightarrow>
          (ESP_OK, st\<lparr>s_vfs := (s_vfs st)[i := map_option (\<lambda>e. e\<lparr>entry_flags := entry_flags e OR ESP_VFS_FLAG_READONLY_FS\<rparr>) (s_vfs st ! i)]\<rparr>))"

text \<open>The first unused descriptor.\<close>

definition free_fd :: "vfs_state \<Rightarrow> nat option" where
  "free_fd st = find (\<lambda>i. vfs_index (s_fd_table st ! i) = - 1) [0..<MAX_FDS st]"

definition take_fd :: "bool \<Rightarrow> int \<Rightarrow> byte \<Rightarrow> nat \<Rightarrow> vfs_state \<Rightarrow> vfs_state" where
  "take_fd perm index lfd i st =
     st\<lparr>s_fd_table := (s_fd_table st)[i := (s_fd_table st ! i)\<lparr>permanent := perm, vfs_index := index, local_fd := lfd\<rparr>]\<rparr>"

definition esp_vfs_register_fd_with_local_fd ::
  "int \<Rightarrow> int \<Rightarrow> bool \<Rightarrow> bool \<Rightarrow> vfs_state \<Rightarrow> (esp_err_t \<times> nat option) \<times> vfs_state" where
  "esp_vfs_register_fd_with_local_fd vfs_id lfd perm has_fd st =
     (if vfs_id < 0 \<or> int (s_vfs_count st) \<le> vfs_id \<or> \<not> has_fd then ((ESP_ERR_INVALID_ARG, None), st)
      else (case free_fd st of
         None \<Rightarrow> ((ESP_ERR_NO_MEM, None), st)
       | Some i \<Rightarrow> ((ESP_OK, Some i), take_fd perm vfs_id (if 0 \<le> lfd then of_int lfd else of_nat i) i st)))"

definition esp_vfs_register_fd :: "int \<Rightarrow> bool \<Rightarrow> vfs_state \<Rightarrow> (esp_err_t \<times> nat option) \<times> vfs_state" where
  "esp_vfs_register_fd vfs_id has_fd st = esp_vfs_register_fd_with_local_fd vfs_id (- 1) True has_fd st"

definition esp_vfs_unregister_fd :: "int \<Rightarrow> int \<Rightarrow> vfs_state \<Rightarrow> esp_err_t \<times> vfs_state" where
  "esp_vfs_unregister_fd vfs_id fd st =
     (if vfs_id < 0 \<or> int (s_vfs_count st) \<le> vfs_id \<or> fd < 0 \<or> int (MAX_FDS st) \<le> fd then (ESP_ERR_INVALID_ARG, st)
      else let item = s_fd_table st ! nat fd
           in if permanent item \<and> vfs_index item = vfs_id \<and> uint (local_fd item) = fd
              then (ESP_OK, st\<lparr>s_fd_table := (s_fd_table st)[nat fd := FD_TABLE_ENTRY_UNUSED]\<rparr>)
              else (ESP_ERR_INVALID_ARG, st))"

section \<open>From descriptors and paths to file systems\<close>

definition get_vfs_for_index :: "int \<Rightarrow> vfs_state \<Rightarrow> vfs_entry_t option" where
  "get_vfs_for_index index st = (if index < 0 \<or> int (s_vfs_count st) \<le> index then None else s_vfs st ! nat index)"

definition fd_valid :: "int \<Rightarrow> vfs_state \<Rightarrow> bool" where
  "fd_valid fd st \<longleftrightarrow> fd < int (MAX_FDS st) \<and> 0 \<le> fd"

definition get_vfs_for_fd :: "int \<Rightarrow> vfs_state \<Rightarrow> vfs_entry_t option" where
  "get_vfs_for_fd fd st = (if fd_valid fd st then get_vfs_for_index (vfs_index (s_fd_table st ! nat fd)) st else None)"

definition get_local_fd :: "vfs_entry_t option \<Rightarrow> int \<Rightarrow> vfs_state \<Rightarrow> int" where
  "get_local_fd v fd st = (if v \<noteq> None \<and> fd_valid fd st then uint (local_fd (s_fd_table st ! nat fd)) else - 1)"

text \<open>The path behind the prefix; a path without the prefix is a failed assertion.\<close>

definition translate_path :: "vfs_entry_t \<Rightarrow> byte list \<Rightarrow> byte list option" where
  "translate_path v src_path =
     do {
       assert_that (take (path_prefix_len v) src_path = take (path_prefix_len v) (path_prefix v));
       Some (if length src_path = path_prefix_len v then [SLASH] else drop (path_prefix_len v) src_path)
     }"

text \<open>One entry of the scan: the best match so far and the length of its prefix.\<close>

definition scan_entry :: "byte list \<Rightarrow> vfs_entry_t option \<Rightarrow> vfs_entry_t option \<times> int \<Rightarrow> vfs_entry_t option \<times> int" where
  "scan_entry path entry best =
     (case entry of
        None \<Rightarrow> best
      | Some v \<Rightarrow>
          if path_prefix_len v = LEN_PATH_PREFIX_IGNORED then best
          else if length path < path_prefix_len v \<or> take (path_prefix_len v) path \<noteq> take (path_prefix_len v) (path_prefix v) then best
          else if path_prefix_len v = 0 \<and> fst best = None then (Some v, snd best)
          else if path_prefix_len v < length path \<and> path ! path_prefix_len v \<noteq> SLASH then best
          else if snd best < int (path_prefix_len v) then (Some v, int (path_prefix_len v))
          else best)"

definition get_vfs_for_path :: "byte list \<Rightarrow> vfs_state \<Rightarrow> vfs_entry_t option" where
  "get_vfs_for_path path st = fst (fold (scan_entry path) (take (s_vfs_count st) (s_vfs st)) (None, - 1))"

end
