(* ===== verification/Vfs_Calls.thy ===== *)
theory Vfs_Calls
  imports Vfs
begin

text \<open>
  The system calls of the layer: each finds the file system of its path or descriptor and calls the function
  of the driver.  \<open>drv\<close> gives what a driver returns after the calls of the history.
\<close>

section \<open>Calling a driver\<close>

text \<open>\<open>Driver_errno\<close> is the value that the driver left in \<open>errno\<close>.\<close>

datatype vfs_errno = ENOENT | EROFS | ENOSYS | EBADF | ENOMEM | EXDEV | EINVAL | EINTR | Driver_errno

text \<open>A value from the driver, or the result -1 (or a null pointer) with \<open>errno\<close>.\<close>

datatype vfs_result = Ret int | Fail vfs_errno

type_synonym driver = "vfs_call list \<Rightarrow> int"

definition call_driver :: "driver \<Rightarrow> vfs_entry_t \<Rightarrow> fn \<Rightarrow> vfs_arg list \<Rightarrow> vfs_state \<Rightarrow> int \<times> vfs_state" where
  "call_driver drv pvfs f args st =
     (let ctx = (if entry_flags pvfs AND ESP_VFS_FLAG_CONTEXT_PTR \<noteq> 0 then Some (entry_ctx pvfs) else None);
          calls = history st @ [\<lparr>call_fn = f, call_ctx = ctx, call_args = args\<rparr>]
      in (drv calls, st\<lparr>history := calls\<rparr>))"

definition CHECK_AND_CALL :: "driver \<Rightarrow> vfs_entry_t \<Rightarrow> fs_op \<Rightarrow> vfs_arg list \<Rightarrow> vfs_state \<Rightarrow> vfs_result \<times> vfs_state" where
  "CHECK_AND_CALL drv pvfs op args st =
     (case fs_fns (entry_vfs pvfs) op of
        None \<Rightarrow> (Fail ENOSYS, st)
      | Some f \<Rightarrow> (let (r, st1) = call_driver drv pvfs f args st in (Ret r, st1)))"

definition CHECK_AND_CALL_SUBCOMPONENT ::
  "driver \<Rightarrow> vfs_entry_t \<Rightarrow> (nat \<times> ('op \<Rightarrow> fn option)) option \<Rightarrow> 'op \<Rightarrow> vfs_arg list \<Rightarrow> vfs_state \<Rightarrow> vfs_result \<times> vfs_state" where
  "CHECK_AND_CALL_SUBCOMPONENT drv pvfs component op args st =
     (case component of
        None \<Rightarrow> (Fail ENOSYS, st)
      | Some (_, fns) \<Rightarrow>
          (case fns op of
             None \<Rightarrow> (Fail ENOSYS, st)
           | Some f \<Rightarrow> (let (r, st1) = call_driver drv pvfs f args st in (Ret r, st1))))"

definition call_dir :: "driver \<Rightarrow> vfs_entry_t \<Rightarrow> dir_op \<Rightarrow> vfs_arg list \<Rightarrow> vfs_state \<Rightarrow> vfs_result \<times> vfs_state" where
  "call_dir drv pvfs op args st = CHECK_AND_CALL_SUBCOMPONENT drv pvfs (fs_dir (entry_vfs pvfs)) op args st"

definition call_termios :: "driver \<Rightarrow> vfs_entry_t \<Rightarrow> termios_op \<Rightarrow> vfs_arg list \<Rightarrow> vfs_state \<Rightarrow> vfs_result \<times> vfs_state" where
  "call_termios drv pvfs op args st = CHECK_AND_CALL_SUBCOMPONENT drv pvfs (fs_termios (entry_vfs pvfs)) op args st"

definition CHECK_VFS_READONLY_FLAG :: "32 word \<Rightarrow> bool" where
  "CHECK_VFS_READONLY_FLAG flags \<longleftrightarrow> flags AND ESP_VFS_FLAG_READONLY_FS \<noteq> 0"

section \<open>Opening and closing\<close>

definition O_ACCMODE :: "32 word" where "O_ACCMODE = 3"
definition O_RDONLY :: "32 word" where "O_RDONLY = 0"

definition esp_vfs_open :: "driver \<Rightarrow> byte list \<Rightarrow> 32 word \<Rightarrow> int \<Rightarrow> vfs_state \<Rightarrow> (vfs_result \<times> vfs_state) option" where
  "esp_vfs_open drv path flags mode st =
     (case get_vfs_for_path path st of
        None \<Rightarrow> Some (Fail ENOENT, st)
      | Some v \<Rightarrow>
          if flags AND O_ACCMODE \<noteq> O_RDONLY \<and> entry_flags v AND ESP_VFS_FLAG_READONLY_FS \<noteq> 0 then Some (Fail EROFS, st)
          else do {
            path_within_vfs \<leftarrow> translate_path v path;
            case CHECK_AND_CALL drv v Op_open [StrArg path_within_vfs, IntArg (sint flags), IntArg mode] st of
              (Fail e, st1) \<Rightarrow> Some (Fail e, st1)
            | (Ret fd_within_vfs, st1) \<Rightarrow>
                if 0 \<le> fd_within_vfs then
                  (case free_fd st1 of
                     Some i \<Rightarrow> Some (Ret (int i), take_fd False (int (entry_offset v)) (of_int fd_within_vfs) i st1)
                   | None \<Rightarrow>
                       (case CHECK_AND_CALL drv v Op_close [IntArg fd_within_vfs] st1 of
                          (Fail e, st2) \<Rightarrow> Some (Fail e, st2)
                        | (Ret _, st2) \<Rightarrow> Some (Fail ENOMEM, st2)))
                else Some (Fail Driver_errno, st1)
          })"

text \<open>The check at the start of a call on a descriptor.\<close>

definition with_fd :: "int \<Rightarrow> (vfs_entry_t \<Rightarrow> int \<Rightarrow> vfs_state \<Rightarrow> vfs_result \<times> vfs_state) \<Rightarrow> vfs_state \<Rightarrow> vfs_result \<times> vfs_state" where
  "with_fd fd body st =
     (let v = get_vfs_for_fd fd st; lfd = get_local_fd v fd st
      in case v of
           None \<Rightarrow> (Fail EBADF, st)
         | Some pvfs \<Rightarrow> if lfd < 0 then (Fail EBADF, st) else body pvfs lfd st)"

definition release_fd :: "int \<Rightarrow> vfs_state \<Rightarrow> vfs_state" where
  "release_fd fd st =
     (let e = s_fd_table st ! nat fd
      in if permanent e then st
         else st\<lparr>s_fd_table := (s_fd_table st)[nat fd :=
                (if has_pending_select e then e\<lparr>has_pending_close := True\<rparr> else FD_TABLE_ENTRY_UNUSED)]\<rparr>)"

definition esp_vfs_close :: "driver \<Rightarrow> int \<Rightarrow> vfs_state \<Rightarrow> vfs_result \<times> vfs_state" where
  "esp_vfs_close drv fd st =
     with_fd fd (\<lambda>v lfd st.
       case CHECK_AND_CALL drv v Op_close [IntArg lfd] st of
         (Fail e, st1) \<Rightarrow> (Fail e, st1)
       | (Ret r, st1) \<Rightarrow> (Ret r, release_fd fd st1)) st"

section \<open>Calls on a descriptor\<close>

definition esp_vfs_write :: "driver \<Rightarrow> int \<Rightarrow> nat \<Rightarrow> int \<Rightarrow> vfs_state \<Rightarrow> vfs_result \<times> vfs_state" where
  "esp_vfs_write drv fd dat len = with_fd fd (\<lambda>v lfd. CHECK_AND_CALL drv v Op_write [IntArg lfd, PtrArg dat, IntArg len])"

definition esp_vfs_lseek :: "driver \<Rightarrow> int \<Rightarrow> int \<Rightarrow> int \<Rightarrow> vfs_state \<Rightarrow> vfs_result \<times> vfs_state" where
  "esp_vfs_lseek drv fd off mode = with_fd fd (\<lambda>v lfd. CHECK_AND_CALL drv v Op_lseek [IntArg lfd, IntArg off, IntArg mode])"

definition esp_vfs_read :: "driver \<Rightarrow> int \<Rightarrow> nat \<Rightarrow> int \<Rightarrow> vfs_state \<Rightarrow> vfs_result \<times> vfs_state" where
  "esp_vfs_read drv fd dst len = with_fd fd (\<lambda>v lfd. CHECK_AND_CALL drv v Op_read [IntArg lfd, PtrArg dst, IntArg len])"

definition esp_vfs_pread :: "driver \<Rightarrow> int \<Rightarrow> nat \<Rightarrow> int \<Rightarrow> int \<Rightarrow> vfs_state \<Rightarrow> vfs_result \<times> vfs_state" where
  "esp_vfs_pread drv fd dst len off = with_fd fd (\<lambda>v lfd. CHECK_AND_CALL drv v Op_pread [IntArg lfd, PtrArg dst, IntArg len, IntArg off])"

definition esp_vfs_pwrite :: "driver \<Rightarrow> int \<Rightarrow> nat \<Rightarrow> int \<Rightarrow> int \<Rightarrow> vfs_state \<Rightarrow> vfs_result \<times> vfs_state" where
  "esp_vfs_pwrite drv fd src len off = with_fd fd (\<lambda>v lfd. CHECK_AND_CALL drv v Op_pwrite [IntArg lfd, PtrArg src, IntArg len, IntArg off])"

definition esp_vfs_fstat :: "driver \<Rightarrow> int \<Rightarrow> nat \<Rightarrow> vfs_state \<Rightarrow> vfs_result \<times> vfs_state" where
  "esp_vfs_fstat drv fd sb = with_fd fd (\<lambda>v lfd. CHECK_AND_CALL drv v Op_fstat [IntArg lfd, PtrArg sb])"

definition esp_vfs_fcntl_r :: "driver \<Rightarrow> int \<Rightarrow> int \<Rightarrow> int \<Rightarrow> vfs_state \<Rightarrow> vfs_result \<times> vfs_state" where
  "esp_vfs_fcntl_r drv fd cmd arg = with_fd fd (\<lambda>v lfd. CHECK_AND_CALL drv v Op_fcntl [IntArg lfd, IntArg cmd, IntArg arg])"

definition esp_vfs_ioctl :: "driver \<Rightarrow> int \<Rightarrow> int \<Rightarrow> vfs_arg list \<Rightarrow> vfs_state \<Rightarrow> vfs_result \<times> vfs_state" where
  "esp_vfs_ioctl drv fd cmd args = with_fd fd (\<lambda>v lfd. CHECK_AND_CALL drv v Op_ioctl (IntArg lfd # IntArg cmd # args))"

definition esp_vfs_fsync :: "driver \<Rightarrow> int \<Rightarrow> vfs_state \<Rightarrow> vfs_result \<times> vfs_state" where
  "esp_vfs_fsync drv fd = with_fd fd (\<lambda>v lfd. CHECK_AND_CALL drv v Op_fsync [IntArg lfd])"

definition esp_vfs_ftruncate :: "driver \<Rightarrow> int \<Rightarrow> int \<Rightarrow> vfs_state \<Rightarrow> vfs_result \<times> vfs_state" where
  "esp_vfs_ftruncate drv fd len =
     with_fd fd (\<lambda>v lfd st. if CHECK_VFS_READONLY_FLAG (entry_flags v) then (Fail EROFS, st)
                            else call_dir drv v Op_ftruncate [IntArg lfd, IntArg len] st)"

definition tcgetattr :: "driver \<Rightarrow> int \<Rightarrow> nat \<Rightarrow> vfs_state \<Rightarrow> vfs_result \<times> vfs_state" where
  "tcgetattr drv fd p = with_fd fd (\<lambda>v lfd. call_termios drv v Op_tcgetattr [IntArg lfd, PtrArg p])"

definition tcsetattr :: "driver \<Rightarrow> int \<Rightarrow> int \<Rightarrow> nat \<Rightarrow> vfs_state \<Rightarrow> vfs_result \<times> vfs_state" where
  "tcsetattr drv fd optional_actions p = with_fd fd (\<lambda>v lfd. call_termios drv v Op_tcsetattr [IntArg lfd, IntArg optional_actions, PtrArg p])"

definition tcdrain :: "driver \<Rightarrow> int \<Rightarrow> vfs_state \<Rightarrow> vfs_result \<times> vfs_state" where
  "tcdrain drv fd = with_fd fd (\<lambda>v lfd. call_termios drv v Op_tcdrain [IntArg lfd])"

definition tcflush :: "driver \<Rightarrow> int \<Rightarrow> int \<Rightarrow> vfs_state \<Rightarrow> vfs_result \<times> vfs_state" where
  "tcflush drv fd sel = with_fd fd (\<lambda>v lfd. call_termios drv v Op_tcflush [IntArg lfd, IntArg sel])"

definition tcflow :: "driver \<Rightarrow> int \<Rightarrow> int \<Rightarrow> vfs_state \<Rightarrow> vfs_result \<times> vfs_state" where
  "tcflow drv fd action = with_fd fd (\<lambda>v lfd. call_termios drv v Op_tcflow [IntArg lfd, IntArg action])"

definition tcgetsid :: "driver \<Rightarrow> int \<Rightarrow> vfs_state \<Rightarrow> vfs_result \<times> vfs_state" where
  "tcgetsid drv fd = with_fd fd (\<lambda>v lfd. call_termios drv v Op_tcgetsid [IntArg lfd])"

definition tcsendbreak :: "driver \<Rightarrow> int \<Rightarrow> int \<Rightarrow> vfs_state \<Rightarrow> vfs_result \<times> vfs_state" where
  "tcsendbreak drv fd duration = with_fd fd (\<lambda>v lfd. call_termios drv v Op_tcsendbreak [IntArg lfd, IntArg duration])"

section \<open>Calls on a path\<close>

text \<open>The start of a call on a path: \<open>writes\<close> says whether the call is refused on a read-only file system.\<close>

definition with_path ::
  "byte list \<Rightarrow> bool \<Rightarrow> (vfs_entry_t \<Rightarrow> byte list \<Rightarrow> vfs_state \<Rightarrow> vfs_result \<times> vfs_state) \<Rightarrow> vfs_state \<Rightarrow> (vfs_result \<times> vfs_state) option" where
  "with_path path writes body st =
     (case get_vfs_for_path path st of
        None \<Rightarrow> Some (Fail ENOENT, st)
      | Some v \<Rightarrow>
          if writes \<and> CHECK_VFS_READONLY_FLAG (entry_flags v) then Some (Fail EROFS, st)
          else map_option (\<lambda>path_within_vfs. body v path_within_vfs st) (translate_path v path))"

definition esp_vfs_stat :: "driver \<Rightarrow> byte list \<Rightarrow> nat \<Rightarrow> vfs_state \<Rightarrow> (vfs_result \<times> vfs_state) option" where
  "esp_vfs_stat drv path sb = with_path path False (\<lambda>v p. call_dir drv v Op_stat [StrArg p, PtrArg sb])"

definition esp_vfs_utime :: "driver \<Rightarrow> byte list \<Rightarrow> nat \<Rightarrow> vfs_state \<Rightarrow> (vfs_result \<times> vfs_state) option" where
  "esp_vfs_utime drv path tm = with_path path False (\<lambda>v p. call_dir drv v Op_utime [StrArg p, PtrArg tm])"

definition esp_vfs_unlink :: "driver \<Rightarrow> byte list \<Rightarrow> vfs_state \<Rightarrow> (vfs_result \<times> vfs_state) option" where
  "esp_vfs_unlink drv path = with_path path True (\<lambda>v p. call_dir drv v Op_unlink [StrArg p])"

definition esp_vfs_mkdir :: "driver \<Rightarrow> byte list \<Rightarrow> int \<Rightarrow> vfs_state \<Rightarrow> (vfs_result \<times> vfs_state) option" where
  "esp_vfs_mkdir drv path mode = with_path path True (\<lambda>v p. call_dir drv v Op_mkdir [StrArg p, IntArg mode])"

definition esp_vfs_rmdir :: "driver \<Rightarrow> byte list \<Rightarrow> vfs_state \<Rightarrow> (vfs_result \<times> vfs_state) option" where
  "esp_vfs_rmdir drv path = with_path path True (\<lambda>v p. call_dir drv v Op_rmdir [StrArg p])"

definition esp_vfs_access :: "driver \<Rightarrow> byte list \<Rightarrow> int \<Rightarrow> vfs_state \<Rightarrow> (vfs_result \<times> vfs_state) option" where
  "esp_vfs_access drv path amode = with_path path False (\<lambda>v p. call_dir drv v Op_access [StrArg p, IntArg amode])"

definition esp_vfs_truncate :: "driver \<Rightarrow> byte list \<Rightarrow> int \<Rightarrow> vfs_state \<Rightarrow> (vfs_result \<times> vfs_state) option" where
  "esp_vfs_truncate drv path len = with_path path True (\<lambda>v p. call_dir drv v Op_truncate [StrArg p, IntArg len])"

text \<open>Two entries are the same when they are the same element of the table.\<close>

definition same_vfs :: "vfs_entry_t option \<Rightarrow> vfs_entry_t option \<Rightarrow> bool" where
  "same_vfs a b \<longleftrightarrow> map_option entry_block a = map_option entry_block b"

definition with_two_paths ::
  "driver \<Rightarrow> dir_op \<Rightarrow> byte list \<Rightarrow> byte list \<Rightarrow> vfs_entry_t \<Rightarrow> vfs_state \<Rightarrow> (vfs_result \<times> vfs_state) option" where
  "with_two_paths drv op p1 p2 v st =
     do {
       path1 \<leftarrow> translate_path v p1;
       path2 \<leftarrow> translate_path v p2;
       Some (call_dir drv v op [StrArg path1, StrArg path2] st)
     }"

definition esp_vfs_link :: "driver \<Rightarrow> byte list \<Rightarrow> byte list \<Rightarrow> vfs_state \<Rightarrow> (vfs_result \<times> vfs_state) option" where
  "esp_vfs_link drv n1 n2 st =
     (case get_vfs_for_path n1 st of
        None \<Rightarrow> Some (Fail ENOENT, st)
      | Some v \<Rightarrow>
          if \<not> same_vfs (Some v) (get_vfs_for_path n2 st) then Some (Fail EXDEV, st)
          else if CHECK_VFS_READONLY_FLAG (entry_flags v) then Some (Fail EROFS, st)
          else with_two_paths drv Op_link n1 n2 v st)"

definition esp_vfs_rename :: "driver \<Rightarrow> byte list \<Rightarrow> byte list \<Rightarrow> vfs_state \<Rightarrow> (vfs_result \<times> vfs_state) option" where
  "esp_vfs_rename drv src dst st =
     (case get_vfs_for_path src st of
        None \<Rightarrow> Some (Fail ENOENT, st)
      | Some v \<Rightarrow>
          if CHECK_VFS_READONLY_FLAG (entry_flags v) then Some (Fail EROFS, st)
          else if \<not> same_vfs (Some v) (get_vfs_for_path dst st) then Some (Fail EXDEV, st)
          else with_two_paths drv Op_rename src dst v st)"

section \<open>Directories\<close>

text \<open>An open directory is the pointer of the driver with the index of its file system.  A null pointer is the
  result 0.\<close>

record vfs_dir_t =
  dir_ptr :: nat
  dd_vfs_idx :: int

definition esp_vfs_opendir :: "driver \<Rightarrow> byte list \<Rightarrow> vfs_state \<Rightarrow> (vfs_result \<times> vfs_dir_t option \<times> vfs_state) option" where
  "esp_vfs_opendir drv name st =
     (case get_vfs_for_path name st of
        None \<Rightarrow> Some (Fail ENOENT, None, st)
      | Some v \<Rightarrow>
          map_option (\<lambda>p. case call_dir drv v Op_opendir [StrArg p] st of
                            (Fail e, st1) \<Rightarrow> (Fail e, None, st1)
                          | (Ret r, st1) \<Rightarrow>
                              (Ret r, if r = 0 then None else Some \<lparr>dir_ptr = nat r, dd_vfs_idx = int (entry_offset v)\<rparr>, st1))
            (translate_path v name))"

definition with_dir :: "driver \<Rightarrow> dir_op \<Rightarrow> vfs_dir_t \<Rightarrow> vfs_arg list \<Rightarrow> vfs_state \<Rightarrow> vfs_result \<times> vfs_state" where
  "with_dir drv op pdir args st =
     (case get_vfs_for_index (dd_vfs_idx pdir) st of
        None \<Rightarrow> (Fail EBADF, st)
      | Some v \<Rightarrow> call_dir drv v op (PtrArg (dir_ptr pdir) # args) st)"

definition esp_vfs_readdir :: "driver \<Rightarrow> vfs_dir_t \<Rightarrow> vfs_state \<Rightarrow> vfs_result \<times> vfs_state" where
  "esp_vfs_readdir drv pdir = with_dir drv Op_readdir pdir []"

definition esp_vfs_readdir_r :: "driver \<Rightarrow> vfs_dir_t \<Rightarrow> nat \<Rightarrow> nat \<Rightarrow> vfs_state \<Rightarrow> vfs_result \<times> vfs_state" where
  "esp_vfs_readdir_r drv pdir entry out_dirent = with_dir drv Op_readdir_r pdir [PtrArg entry, PtrArg out_dirent]"

definition esp_vfs_telldir :: "driver \<Rightarrow> vfs_dir_t \<Rightarrow> vfs_state \<Rightarrow> vfs_result \<times> vfs_state" where
  "esp_vfs_telldir drv pdir = with_dir drv Op_telldir pdir []"

definition esp_vfs_seekdir :: "driver \<Rightarrow> vfs_dir_t \<Rightarrow> int \<Rightarrow> vfs_state \<Rightarrow> vfs_state" where
  "esp_vfs_seekdir drv pdir loc st = snd (with_dir drv Op_seekdir pdir [IntArg loc] st)"

definition esp_vfs_rewinddir :: "driver \<Rightarrow> vfs_dir_t \<Rightarrow> vfs_state \<Rightarrow> vfs_state" where
  "esp_vfs_rewinddir drv pdir = esp_vfs_seekdir drv pdir 0"

definition esp_vfs_closedir :: "driver \<Rightarrow> vfs_dir_t \<Rightarrow> vfs_state \<Rightarrow> vfs_result \<times> vfs_state" where
  "esp_vfs_closedir drv pdir = with_dir drv Op_closedir pdir []"

end
