(* ===== verification/Vfs_Path.thy ===== *)
theory Vfs_Path
  imports Vfs_Calls
begin

text \<open>The tables of the layer are well formed after every call, and a path leads to the longest prefix.\<close>

section \<open>Well-formed tables\<close>

definition prefix_ok :: "vfs_entry_t \<Rightarrow> bool" where
  "prefix_ok v \<longleftrightarrow>
     (path_prefix_len v = LEN_PATH_PREFIX_IGNORED \<and> path_prefix v = []) \<or>
     (path_prefix_len v = length (path_prefix v) \<and> length (path_prefix v) < ESP_VFS_PATH_MAX \<and>
        (path_prefix v = [] \<or> path_prefix v ! 0 = SLASH))"

definition vfs_ok :: "vfs_state \<Rightarrow> bool" where
  "vfs_ok st \<longleftrightarrow>
     s_vfs_count st \<le> VFS_MAX_COUNT st \<and>
     (\<forall>i < VFS_MAX_COUNT st. \<forall>v. s_vfs st ! i = Some v \<longrightarrow> i < s_vfs_count st \<and> entry_offset v = i \<and> prefix_ok v) \<and>
     (\<forall>e \<in> set (s_fd_table st). vfs_index e = - 1 \<or> 0 \<le> vfs_index e \<and> vfs_index e < int (s_vfs_count st))"

lemma vfs_ok_init: "vfs_ok (vfs_init max_count max_fds H)"
  by (auto simp: vfs_ok_def vfs_init_def FD_TABLE_ENTRY_UNUSED_def)

lemma vfs_ok_heap [simp]: "vfs_ok (set_heap H st) \<longleftrightarrow> vfs_ok st"
  by (simp add: vfs_ok_def)

lemma vfs_ok_history [simp]: "vfs_ok (st\<lparr>history := h\<rparr>) \<longleftrightarrow> vfs_ok st"
  by (simp add: vfs_ok_def)

lemma vfs_okD:
  assumes "vfs_ok st"
  shows "s_vfs_count st \<le> VFS_MAX_COUNT st"
    and "i < VFS_MAX_COUNT st \<Longrightarrow> s_vfs st ! i = Some v \<Longrightarrow> i < s_vfs_count st \<and> entry_offset v = i \<and> prefix_ok v"
    and "e \<in> set (s_fd_table st) \<Longrightarrow> vfs_index e = - 1 \<or> 0 \<le> vfs_index e \<and> vfs_index e < int (s_vfs_count st)"
  using assms by (auto simp: vfs_ok_def)

text \<open>The registered file systems.\<close>

definition mounted :: "vfs_state \<Rightarrow> vfs_entry_t set" where
  "mounted st = {v. Some v \<in> set (s_vfs st)}"

lemma mounted_at:
  assumes "vfs_ok st" and "i < s_vfs_count st" and "s_vfs st ! i = Some v"
  shows "v \<in> mounted st"
proof -
  have "i < VFS_MAX_COUNT st" using vfs_okD(1) [OF assms(1)] assms(2) by linarith
  then show ?thesis using assms(3) nth_mem [of i "s_vfs st"] by (simp add: mounted_def)
qed

lemma mounted_scanned:
  assumes "vfs_ok st"
  shows "mounted st = {v. Some v \<in> set (take (s_vfs_count st) (s_vfs st))}"
proof (intro equalityI subsetI)
  fix v
  assume "v \<in> mounted st"
  then obtain i where i: "i < VFS_MAX_COUNT st" "s_vfs st ! i = Some v" by (auto simp: mounted_def in_set_conv_nth)
  then have "i < s_vfs_count st" using vfs_okD(2) [OF assms] by blast
  then have "take (s_vfs_count st) (s_vfs st) ! i = Some v" "i < length (take (s_vfs_count st) (s_vfs st))" using i by simp_all
  then show "v \<in> {v. Some v \<in> set (take (s_vfs_count st) (s_vfs st))}" by (metis mem_Collect_eq nth_mem)
qed (auto simp: mounted_def dest: in_set_takeD)

lemma mounted_prefix_ok: "vfs_ok st \<Longrightarrow> v \<in> mounted st \<Longrightarrow> prefix_ok v"
  using vfs_okD(2) by (fastforce simp: mounted_def in_set_conv_nth)

section \<open>Prefixes\<close>

text \<open>A file system serves a path when its prefix is empty, or is the path or a directory on the path.\<close>

definition serves :: "byte list \<Rightarrow> vfs_entry_t \<Rightarrow> bool" where
  "serves path v \<longleftrightarrow>
     path_prefix_len v \<noteq> LEN_PATH_PREFIX_IGNORED \<and>
     (path_prefix v = [] \<or> path = path_prefix v \<or> (\<exists>rest. path = path_prefix v @ SLASH # rest))"

definition best_for :: "byte list \<Rightarrow> vfs_entry_t set \<Rightarrow> vfs_entry_t \<Rightarrow> bool" where
  "best_for path M v \<longleftrightarrow> v \<in> M \<and> serves path v \<and> (\<forall>w \<in> M. serves path w \<longrightarrow> length (path_prefix w) \<le> length (path_prefix v))"

lemma serves_scan:
  assumes "prefix_ok v" and "path_prefix_len v \<noteq> LEN_PATH_PREFIX_IGNORED"
  shows "serves path v \<longleftrightarrow>
           \<not> (length path < path_prefix_len v \<or> take (path_prefix_len v) path \<noteq> take (path_prefix_len v) (path_prefix v)) \<and>
           (path_prefix v = [] \<or> \<not> (path_prefix_len v < length path \<and> path ! path_prefix_len v \<noteq> SLASH))"
proof -
  have len: "path_prefix_len v = length (path_prefix v)" using assms by (auto simp: prefix_ok_def)
  show ?thesis
  proof
    assume "serves path v"
    then show "\<not> (length path < path_prefix_len v \<or> take (path_prefix_len v) path \<noteq> take (path_prefix_len v) (path_prefix v)) \<and>
           (path_prefix v = [] \<or> \<not> (path_prefix_len v < length path \<and> path ! path_prefix_len v \<noteq> SLASH))"
      by (auto simp: serves_def len)
  next
    assume scan: "\<not> (length path < path_prefix_len v \<or> take (path_prefix_len v) path \<noteq> take (path_prefix_len v) (path_prefix v)) \<and>
           (path_prefix v = [] \<or> \<not> (path_prefix_len v < length path \<and> path ! path_prefix_len v \<noteq> SLASH))"
    then have path: "path = path_prefix v @ drop (length (path_prefix v)) path"
      by (metis append_take_drop_id len order_refl take_all)
    show "serves path v"
    proof (cases "drop (length (path_prefix v)) path")
      case Nil
      then show ?thesis using path assms(2) by (simp add: serves_def)
    next
      case (Cons c rest)
      then have "length (path_prefix v) < length path" and "path ! length (path_prefix v) = c"
        by (metis drop_eq_Nil2 leI list.distinct(1), simp add: nth_via_drop)
      then have "path_prefix v = [] \<or> c = SLASH" using scan by (auto simp: len)
      then show ?thesis using path Cons assms(2) unfolding serves_def by metis
    qed
  qed
qed

text \<open>The scan keeps the best of the entries that it has seen.\<close>

definition scan_inv :: "byte list \<Rightarrow> vfs_entry_t set \<Rightarrow> vfs_entry_t option \<times> int \<Rightarrow> bool" where
  "scan_inv path M best \<longleftrightarrow>
     (case fst best of
        None \<Rightarrow> snd best = - 1 \<and> (\<forall>w \<in> M. \<not> serves path w)
      | Some v \<Rightarrow> best_for path M v \<and>
          (snd best = int (length (path_prefix v)) \<or> (snd best = - 1 \<and> path_prefix v = [])))"

lemma scan_entry_inv:
  assumes "scan_inv path M best" and "prefix_ok v"
  shows "scan_inv path (insert v M) (scan_entry path (Some v) best)"
proof (cases "path_prefix_len v = LEN_PATH_PREFIX_IGNORED")
  case True
  then have "\<not> serves path v" by (simp add: serves_def)
  then show ?thesis using assms(1) True by (auto simp: scan_inv_def scan_entry_def best_for_def split: option.splits)
next
  case False
  have len: "path_prefix_len v = length (path_prefix v)" using assms(2) False by (auto simp: prefix_ok_def)
  note scan = serves_scan [OF assms(2) False]
  obtain b n where best: "best = (b, n)" by fastforce
  show ?thesis
  proof (cases "serves path v")
    case True
    have step: "scan_entry path (Some v) best =
        (if path_prefix v = [] \<and> b = None then (Some v, n)
         else if path_prefix v = [] \<and> path \<noteq> [] \<and> path ! 0 \<noteq> SLASH then best
         else if n < int (length (path_prefix v)) then (Some v, int (length (path_prefix v))) else best)"
      using True False unfolding scan by (auto simp: scan_entry_def best len)
    show ?thesis
    proof (cases b)
      case None
      then have "n = - 1" "\<forall>w \<in> M. \<not> serves path w" using assms(1) by (simp_all add: scan_inv_def best)
      then show ?thesis using True by (simp add: step None scan_inv_def best_for_def)
    next
      case (Some u)
      then have u: "best_for path M u" "n = int (length (path_prefix u)) \<or> (n = - 1 \<and> path_prefix u = [])"
        using assms(1) by (simp_all add: scan_inv_def best)
      have keep: "scan_inv path (insert v M) best" if "length (path_prefix v) \<le> length (path_prefix u)"
        using u that by (simp add: scan_inv_def best Some best_for_def)
      have replace: "scan_inv path (insert v M) (Some v, int (length (path_prefix v)))" if "length (path_prefix u) \<le> length (path_prefix v)"
        using u(1) that True le_trans by (fastforce simp: scan_inv_def best_for_def)
      show ?thesis
      proof (cases "path_prefix v = [] \<and> path \<noteq> [] \<and> path ! 0 \<noteq> SLASH")
        case True
        then have "scan_entry path (Some v) best = best" using step Some by simp
        then show ?thesis using keep True by simp
      next
        case False
        then have move: "scan_entry path (Some v) best = (if n < int (length (path_prefix v)) then (Some v, int (length (path_prefix v))) else best)"
          using step Some by auto
        show ?thesis
        proof (cases "n < int (length (path_prefix v))")
          case True
          then have "length (path_prefix u) \<le> length (path_prefix v)" using u(2) by auto
          then show ?thesis using replace move True by simp
        next
          case False
          then have "length (path_prefix v) \<le> length (path_prefix u)" using u(2) by auto
          then show ?thesis using keep move False by simp
        qed
      qed
    qed
  next
    case False
    then have "length path < length (path_prefix v) \<or> take (length (path_prefix v)) path \<noteq> path_prefix v \<or>
        (path_prefix v \<noteq> [] \<and> length (path_prefix v) < length path \<and> path ! length (path_prefix v) \<noteq> SLASH)"
      unfolding scan by (simp add: len) blast
    then have "scan_entry path (Some v) best = best"
      by (elim disjE) (simp_all add: scan_entry_def len)
    then show ?thesis using assms(1) False by (cases b) (simp_all add: scan_inv_def best_for_def best)
  qed
qed

lemma scan_fold:
  "\<forall>v. Some v \<in> set es \<longrightarrow> prefix_ok v \<Longrightarrow> scan_inv path M best \<Longrightarrow>
     scan_inv path (M \<union> {v. Some v \<in> set es}) (fold (scan_entry path) es best)"
proof (induction es arbitrary: M best)
  case Nil
  then show ?case by simp
next
  case (Cons e es)
  show ?case
  proof (cases e)
    case None
    then have "scan_entry path e best = best" by (simp add: scan_entry_def)
    then show ?thesis using Cons None by simp
  next
    case (Some v)
    have "scan_inv path (insert v M) (scan_entry path (Some v) best)"
      using scan_entry_inv [OF Cons.prems(2)] Cons.prems(1) Some by simp
    from Cons.IH [OF _ this] Cons.prems(1)
    have "scan_inv path (insert v M \<union> {v. Some v \<in> set es}) (fold (scan_entry path) es (scan_entry path (Some v) best))" by simp
    moreover have "M \<union> {w. Some w \<in> set (e # es)} = insert v M \<union> {w. Some w \<in> set es}" using Some by auto
    ultimately show ?thesis by (simp add: Some)
  qed
qed

lemma get_vfs_for_path_best:
  assumes "vfs_ok st"
  shows "case get_vfs_for_path path st of
           None \<Rightarrow> \<forall>w \<in> mounted st. \<not> serves path w
         | Some v \<Rightarrow> best_for path (mounted st) v"
proof -
  have "\<forall>v. Some v \<in> set (take (s_vfs_count st) (s_vfs st)) \<longrightarrow> prefix_ok v"
    using mounted_prefix_ok [OF assms] mounted_scanned [OF assms] by blast
  moreover have "scan_inv path {} (None, - 1)" by (simp add: scan_inv_def)
  ultimately have "scan_inv path ({} \<union> mounted st) (fold (scan_entry path) (take (s_vfs_count st) (s_vfs st)) (None, - 1))"
    unfolding mounted_scanned [OF assms] by (rule scan_fold)
  then show ?thesis by (auto simp: get_vfs_for_path_def scan_inv_def split: option.splits)
qed

text \<open>The path for the driver: what follows the prefix, or the root.\<close>

definition path_in :: "vfs_entry_t \<Rightarrow> byte list \<Rightarrow> byte list" where
  "path_in v path = (if path = path_prefix v then [SLASH] else drop (length (path_prefix v)) path)"

lemma translate_served:
  assumes "serves path v" and "prefix_ok v"
  shows "translate_path v path = Some (path_in v path)"
proof -
  have len: "path_prefix_len v = length (path_prefix v)" using assms by (auto simp: prefix_ok_def serves_def)
  have "take (length (path_prefix v)) path = path_prefix v" using assms(1) by (auto simp: serves_def)
  moreover have "length path = length (path_prefix v) \<longleftrightarrow> path = path_prefix v"
    using calculation by (metis order_refl take_all)
  ultimately show ?thesis by (simp add: translate_path_def path_in_def len)
qed

section \<open>Free entries\<close>

lemma find_upt_Some:
  "find P [0..<n] = Some i \<longleftrightarrow> i < n \<and> P i \<and> (\<forall>j < i. \<not> P j)"
  by (auto simp: find_Some_iff)

lemma find_upt_None: "find P [0..<n] = None \<longleftrightarrow> (\<forall>j < n. \<not> P j)"
  by (auto simp: find_None_iff)

lemma free_index_Some:
  assumes "esp_get_free_index st = Some i" and "vfs_ok st"
  shows "i < VFS_MAX_COUNT st" and "s_vfs st ! i = None" and "i \<le> s_vfs_count st"
proof -
  have i: "i < VFS_MAX_COUNT st" "s_vfs st ! i = None" "\<forall>j < i. s_vfs st ! j \<noteq> None"
    using assms(1) by (auto simp: esp_get_free_index_def find_upt_Some)
  then show "i < VFS_MAX_COUNT st" "s_vfs st ! i = None" by simp_all
  show "i \<le> s_vfs_count st"
  proof (rule ccontr)
    assume "\<not> i \<le> s_vfs_count st"
    then have "s_vfs_count st < i" by simp
    then obtain v where "s_vfs st ! s_vfs_count st = Some v" using i(3) by blast
    then show False using vfs_okD(2) [OF assms(2), of "s_vfs_count st" v] i(1) \<open>s_vfs_count st < i\<close> by simp
  qed
qed

end
