(* ===== verification/Vfs_Session.thy ===== *)
theory Vfs_Session
  imports Vfs_Path
begin

text \<open>
  What the layer promises to its callers, as a step relation on a map from indices to file systems and a map
  from descriptors to files, and the proof that any sequence of registrations and system calls follows it.
\<close>

section \<open>System calls\<close>

datatype vfs_syscall =
    Mount "byte list" esp_vfs_t nat
  | Open "byte list" "32 word" int
  | Close int
  | Write int nat int | Read int nat int | Lseek int int int | Pread int nat int int | Pwrite int nat int int
  | Fstat int nat | Fcntl int int int | Ioctl int int "vfs_arg list" | Fsync int
  | Stat "byte list" nat | Utime "byte list" nat | Unlink "byte list" | Mkdir "byte list" int | Rmdir "byte list"
  | Access "byte list" int | Truncate "byte list" int

type_synonym vfs_outcome = "esp_err_t + vfs_result"

fun vfs_exec :: "driver \<Rightarrow> vfs_syscall \<Rightarrow> vfs_state \<Rightarrow> (vfs_outcome \<times> vfs_state) option" where
  "vfs_exec drv (Mount path v ctx) st = map_option (\<lambda>(err, st1). (Inl err, st1)) (esp_vfs_register path (Some v) ctx st)"
| "vfs_exec drv (Open path flags mode) st = map_option (\<lambda>(r, st1). (Inr r, st1)) (esp_vfs_open drv path flags mode st)"
| "vfs_exec drv (Close fd) st = Some (let (r, st1) = esp_vfs_close drv fd st in (Inr r, st1))"
| "vfs_exec drv (Write fd dat len) st = Some (let (r, st1) = esp_vfs_write drv fd dat len st in (Inr r, st1))"
| "vfs_exec drv (Read fd dst len) st = Some (let (r, st1) = esp_vfs_read drv fd dst len st in (Inr r, st1))"
| "vfs_exec drv (Lseek fd off mode) st = Some (let (r, st1) = esp_vfs_lseek drv fd off mode st in (Inr r, st1))"
| "vfs_exec drv (Pread fd dst len off) st = Some (let (r, st1) = esp_vfs_pread drv fd dst len off st in (Inr r, st1))"
| "vfs_exec drv (Pwrite fd src len off) st = Some (let (r, st1) = esp_vfs_pwrite drv fd src len off st in (Inr r, st1))"
| "vfs_exec drv (Fstat fd sb) st = Some (let (r, st1) = esp_vfs_fstat drv fd sb st in (Inr r, st1))"
| "vfs_exec drv (Fcntl fd cmd arg) st = Some (let (r, st1) = esp_vfs_fcntl_r drv fd cmd arg st in (Inr r, st1))"
| "vfs_exec drv (Ioctl fd cmd args) st = Some (let (r, st1) = esp_vfs_ioctl drv fd cmd args st in (Inr r, st1))"
| "vfs_exec drv (Fsync fd) st = Some (let (r, st1) = esp_vfs_fsync drv fd st in (Inr r, st1))"
| "vfs_exec drv (Stat path sb) st = map_option (\<lambda>(r, st1). (Inr r, st1)) (esp_vfs_stat drv path sb st)"
| "vfs_exec drv (Utime path tm) st = map_option (\<lambda>(r, st1). (Inr r, st1)) (esp_vfs_utime drv path tm st)"
| "vfs_exec drv (Unlink path) st = map_option (\<lambda>(r, st1). (Inr r, st1)) (esp_vfs_unlink drv path st)"
| "vfs_exec drv (Mkdir path mode) st = map_option (\<lambda>(r, st1). (Inr r, st1)) (esp_vfs_mkdir drv path mode st)"
| "vfs_exec drv (Rmdir path) st = map_option (\<lambda>(r, st1). (Inr r, st1)) (esp_vfs_rmdir drv path st)"
| "vfs_exec drv (Access path amode) st = map_option (\<lambda>(r, st1). (Inr r, st1)) (esp_vfs_access drv path amode st)"
| "vfs_exec drv (Truncate path len) st = map_option (\<lambda>(r, st1). (Inr r, st1)) (esp_vfs_truncate drv path len st)"

fun vfs_session :: "driver \<Rightarrow> vfs_syscall list \<Rightarrow> vfs_state \<Rightarrow> (vfs_outcome list \<times> vfs_state) option" where
  "vfs_session drv [] st = Some ([], st)"
| "vfs_session drv (call # calls) st =
     do {
       (out, st1) \<leftarrow> vfs_exec drv call st;
       (outs, st2) \<leftarrow> vfs_session drv calls st1;
       Some (out # outs, st2)
     }"

section \<open>The specification\<close>

text \<open>A file is the index of its file system and the number that the driver gave it.\<close>

record vfs_spec =
  mounts :: "nat \<Rightarrow> vfs_entry_t option"
  files :: "int \<Rightarrow> (nat \<times> int) option"
  driver_calls :: "vfs_call list"

text \<open>Calls on a descriptor: the descriptor, the operation, the arguments after the number of the file.\<close>

fun fd_call :: "vfs_syscall \<Rightarrow> (int \<times> fs_op \<times> vfs_arg list) option" where
  "fd_call (Close fd) = Some (fd, Op_close, [])"
| "fd_call (Write fd dat len) = Some (fd, Op_write, [PtrArg dat, IntArg len])"
| "fd_call (Read fd dst len) = Some (fd, Op_read, [PtrArg dst, IntArg len])"
| "fd_call (Lseek fd off mode) = Some (fd, Op_lseek, [IntArg off, IntArg mode])"
| "fd_call (Pread fd dst len off) = Some (fd, Op_pread, [PtrArg dst, IntArg len, IntArg off])"
| "fd_call (Pwrite fd src len off) = Some (fd, Op_pwrite, [PtrArg src, IntArg len, IntArg off])"
| "fd_call (Fstat fd sb) = Some (fd, Op_fstat, [PtrArg sb])"
| "fd_call (Fcntl fd cmd arg) = Some (fd, Op_fcntl, [IntArg cmd, IntArg arg])"
| "fd_call (Ioctl fd cmd args) = Some (fd, Op_ioctl, IntArg cmd # args)"
| "fd_call (Fsync fd) = Some (fd, Op_fsync, [])"
| "fd_call _ = None"

text \<open>Calls on a path: the path, whether the call writes, the operation, the arguments after the path.\<close>

fun path_call :: "vfs_syscall \<Rightarrow> (byte list \<times> bool \<times> dir_op \<times> vfs_arg list) option" where
  "path_call (Stat path sb) = Some (path, False, Op_stat, [PtrArg sb])"
| "path_call (Utime path tm) = Some (path, False, Op_utime, [PtrArg tm])"
| "path_call (Unlink path) = Some (path, True, Op_unlink, [])"
| "path_call (Mkdir path mode) = Some (path, True, Op_mkdir, [IntArg mode])"
| "path_call (Rmdir path) = Some (path, True, Op_rmdir, [])"
| "path_call (Access path amode) = Some (path, False, Op_access, [IntArg amode])"
| "path_call (Truncate path len) = Some (path, True, Op_truncate, [IntArg len])"
| "path_call _ = None"

definition read_only :: "vfs_entry_t \<Rightarrow> bool" where
  "read_only v \<longleftrightarrow> entry_flags v AND ESP_VFS_FLAG_READONLY_FS \<noteq> 0"

definition dir_fn :: "vfs_entry_t \<Rightarrow> dir_op \<Rightarrow> fn option" where
  "dir_fn v op = do { (_, fns) \<leftarrow> fs_dir (entry_vfs v); fns op }"

text \<open>The call of a function, with the context of the file system if that asks for it.\<close>

definition the_call :: "vfs_entry_t \<Rightarrow> fn \<Rightarrow> vfs_arg list \<Rightarrow> vfs_call" where
  "the_call v f args =
     \<lparr>call_fn = f, call_ctx = (if entry_flags v AND ESP_VFS_FLAG_CONTEXT_PTR \<noteq> 0 then Some (entry_ctx v) else None), call_args = args\<rparr>"

definition serving :: "vfs_spec \<Rightarrow> byte list \<Rightarrow> vfs_entry_t \<Rightarrow> bool" where
  "serving S path v \<longleftrightarrow> best_for path (ran (mounts S)) v"

definition unserved :: "vfs_spec \<Rightarrow> byte list \<Rightarrow> bool" where
  "unserved S path \<longleftrightarrow> (\<forall>v \<in> ran (mounts S). \<not> serves path v)"

text \<open>The smallest descriptor that is not in use.\<close>

definition next_fd :: "nat \<Rightarrow> vfs_spec \<Rightarrow> int \<Rightarrow> bool" where
  "next_fd max_fds S fd \<longleftrightarrow> 0 \<le> fd \<and> fd < int max_fds \<and> files S fd = None \<and> (\<forall>k. 0 \<le> k \<and> k < fd \<longrightarrow> files S k \<noteq> None)"

definition no_fd :: "nat \<Rightarrow> vfs_spec \<Rightarrow> bool" where
  "no_fd max_fds S \<longleftrightarrow> (\<forall>fd. 0 \<le> fd \<and> fd < int max_fds \<longrightarrow> files S fd \<noteq> None)"

inductive vfs_step :: "driver \<Rightarrow> nat \<Rightarrow> vfs_spec \<Rightarrow> vfs_syscall \<Rightarrow> vfs_outcome \<Rightarrow> vfs_spec \<Rightarrow> bool"
  for drv :: driver and max_fds :: nat
where
  mounted:
    "vfs_step drv max_fds S (Mount path v ctx) (Inl ESP_OK) (S\<lparr>mounts := (mounts S)(i \<mapsto> e)\<rparr>)"
    if "mounts S i = None" "path_prefix e = path" "path_prefix_len e = length path" "entry_flags e = vfs_flags v" "entry_ctx e = ctx"
      "fs_fns (entry_vfs e) = vfs_fs v" "dir_fn e = vfs_dir v" "entry_offset e = i"
| refused:
    "vfs_step drv max_fds S (Mount path v ctx) (Inl err) S" if "err \<noteq> ESP_OK"
| open_unserved:
    "vfs_step drv max_fds S (Open path flags mode) (Inr (Fail ENOENT)) S" if "unserved S path"
| open_read_only:
    "vfs_step drv max_fds S (Open path flags mode) (Inr (Fail EROFS)) S"
    if "serving S path v" "read_only v" "flags AND O_ACCMODE \<noteq> O_RDONLY"
| open_unknown:
    "vfs_step drv max_fds S (Open path flags mode) (Inr (Fail ENOSYS)) S"
    if "serving S path v" "fs_fns (entry_vfs v) Op_open = None"
| open_failed:
    "vfs_step drv max_fds S (Open path flags mode) (Inr (Fail Driver_errno)) (S\<lparr>driver_calls := h\<rparr>)"
    if "serving S path v" "\<not> (read_only v \<and> flags AND O_ACCMODE \<noteq> O_RDONLY)" "fs_fns (entry_vfs v) Op_open = Some f"
      "h = driver_calls S @ [the_call v f [StrArg (path_in v path), IntArg (sint flags), IntArg mode]]" "drv h < 0"
| opened:
    "vfs_step drv max_fds S (Open path flags mode) (Inr (Ret fd))
       (S\<lparr>files := (files S)(fd \<mapsto> (entry_offset v, drv h mod 256)), driver_calls := h\<rparr>)"
    if "serving S path v" "\<not> (read_only v \<and> flags AND O_ACCMODE \<noteq> O_RDONLY)" "fs_fns (entry_vfs v) Op_open = Some f"
      "h = driver_calls S @ [the_call v f [StrArg (path_in v path), IntArg (sint flags), IntArg mode]]" "0 \<le> drv h"
      "next_fd max_fds S fd"
| open_full:
    "vfs_step drv max_fds S (Open path flags mode) (Inr (Fail ENOMEM)) (S\<lparr>driver_calls := h @ [the_call v g [IntArg (drv h)]]\<rparr>)"
    if "serving S path v" "\<not> (read_only v \<and> flags AND O_ACCMODE \<noteq> O_RDONLY)" "fs_fns (entry_vfs v) Op_open = Some f"
      "h = driver_calls S @ [the_call v f [StrArg (path_in v path), IntArg (sint flags), IntArg mode]]" "0 \<le> drv h"
      "no_fd max_fds S" "fs_fns (entry_vfs v) Op_close = Some g"
| open_full_unclosed:
    "vfs_step drv max_fds S (Open path flags mode) (Inr (Fail ENOSYS)) (S\<lparr>driver_calls := h\<rparr>)"
    if "serving S path v" "\<not> (read_only v \<and> flags AND O_ACCMODE \<noteq> O_RDONLY)" "fs_fns (entry_vfs v) Op_open = Some f"
      "h = driver_calls S @ [the_call v f [StrArg (path_in v path), IntArg (sint flags), IntArg mode]]" "0 \<le> drv h"
      "no_fd max_fds S" "fs_fns (entry_vfs v) Op_close = None"
| bad_fd:
    "vfs_step drv max_fds S call (Inr (Fail EBADF)) S"
    if "fd_call call = Some (fd, op, args)" "files S fd = None"
| fd_unknown:
    "vfs_step drv max_fds S call (Inr (Fail ENOSYS)) S"
    if "fd_call call = Some (fd, op, args)" "files S fd = Some (i, l)" "mounts S i = Some v" "fs_fns (entry_vfs v) op = None"
| fd_done:
    "vfs_step drv max_fds S call (Inr (Ret (drv h)))
       (S\<lparr>driver_calls := h, files := (if op = Op_close then (files S)(fd := None) else files S)\<rparr>)"
    if "fd_call call = Some (fd, op, args)" "files S fd = Some (i, l)" "mounts S i = Some v" "fs_fns (entry_vfs v) op = Some f"
      "h = driver_calls S @ [the_call v f (IntArg l # args)]"
| path_unserved:
    "vfs_step drv max_fds S call (Inr (Fail ENOENT)) S" if "path_call call = Some (path, writes, op, args)" "unserved S path"
| path_read_only:
    "vfs_step drv max_fds S call (Inr (Fail EROFS)) S"
    if "path_call call = Some (path, True, op, args)" "serving S path v" "read_only v"
| path_unknown:
    "vfs_step drv max_fds S call (Inr (Fail ENOSYS)) S"
    if "path_call call = Some (path, writes, op, args)" "serving S path v" "dir_fn v op = None"
| path_done:
    "vfs_step drv max_fds S call (Inr (Ret (drv h))) (S\<lparr>driver_calls := h\<rparr>)"
    if "path_call call = Some (path, writes, op, args)" "serving S path v" "\<not> (read_only v \<and> writes)" "dir_fn v op = Some f"
      "h = driver_calls S @ [the_call v f (StrArg (path_in v path) # args)]"

inductive vfs_steps :: "driver \<Rightarrow> nat \<Rightarrow> vfs_spec \<Rightarrow> vfs_syscall list \<Rightarrow> vfs_outcome list \<Rightarrow> vfs_spec \<Rightarrow> bool"
  for drv :: driver and max_fds :: nat
where
  nil: "vfs_steps drv max_fds S [] [] S"
| cons: "vfs_steps drv max_fds S (call # calls) (out # outs) S''"
    if "vfs_step drv max_fds S call out S'" "vfs_steps drv max_fds S' calls outs S''"

inductive_cases vfs_steps_NilE: "vfs_steps drv max_fds S [] outs S'"
inductive_cases vfs_steps_ConsE: "vfs_steps drv max_fds S (call # calls) outs S''"

end
