(* ===== verification/Vfs_Refine.thy ===== *)
theory Vfs_Refine
  imports Vfs_Session
begin

text \<open>The layer follows its specification.\<close>

section \<open>Registration\<close>

text \<open>What a registration leaves as it is.\<close>

definition same_files :: "vfs_state \<Rightarrow> vfs_state \<Rightarrow> bool" where
  "same_files st st' \<longleftrightarrow> s_fd_table st' = s_fd_table st \<and> history st' = history st \<and> length (s_vfs st') = length (s_vfs st)"

lemma same_files_refl [simp]: "same_files st st"
  by (simp add: same_files_def)

lemma same_files_heap [simp]: "same_files st (set_heap H st') \<longleftrightarrow> same_files st st'"
  "same_files (set_heap H st) st' \<longleftrightarrow> same_files st st'"
  by (simp_all add: same_files_def)

text \<open>A path that fits with its terminating zero into the array of the entry.\<close>

definition fits :: "byte list \<Rightarrow> bool" where
  "fits path \<longleftrightarrow> length path < ESP_VFS_PATH_MAX"

lemma prefix_not_refused:
  assumes "\<not> prefix_refused path (length path)" and "fits path"
  shows "path = [] \<or> path ! 0 = SLASH"
  using assms by (cases path) (auto simp: prefix_refused_def fits_def ESP_VFS_PATH_MAX_def LEN_PATH_PREFIX_IGNORED_def Suc_le_eq)

lemma register_fs_common_file:
  assumes "vfs_ok st" and "fits path"
  shows "\<exists>err i st'. esp_vfs_register_fs_common path (length path) (Some v) flags ctx st = Some ((err, i), st') \<and>
           same_files st st' \<and> vfs_ok st' \<and> s_vfs_count st \<le> s_vfs_count st' \<and> (err \<noteq> ESP_OK \<longrightarrow> s_vfs st' = s_vfs st) \<and>
           (err = ESP_OK \<longrightarrow> (\<exists>k e. k < VFS_MAX_COUNT st \<and> s_vfs st ! k = None \<and> s_vfs st' = (s_vfs st)[k := Some e] \<and>
              path_prefix e = path \<and> path_prefix_len e = length path \<and> entry_flags e = flags \<and> entry_ctx e = ctx \<and>
              entry_vfs e = v \<and> entry_offset e = k))"
proof (cases "prefix_refused path (length path)")
  case True
  then show ?thesis using assms(1) by (simp add: esp_vfs_register_fs_common_def)
next
  case False
  show ?thesis
  proof (cases "esp_get_free_index st")
    case None
    then show ?thesis using assms(1) False by (simp add: esp_vfs_register_fs_common_def)
  next
    case (Some k)
    note k = free_index_Some [OF Some assms(1)]
    obtain st1 where st1: "st1 = (if k = s_vfs_count st then st\<lparr>s_vfs_count := s_vfs_count st + 1\<rparr> else st)" by simp
    have ok1: "vfs_ok st1" "k < s_vfs_count st1" "same_files st st1" "s_vfs st1 = s_vfs st" "s_vfs_count st \<le> s_vfs_count st1"
      "vfs_heap st1 = vfs_heap st"
      using assms(1) k by (fastforce simp: st1 vfs_ok_def same_files_def)+
    obtain q H where q: "calloc (vfs_heap st) = (q, H)" by fastforce
    show ?thesis
    proof (cases q)
      case None
      then show ?thesis using False Some ok1 q by (simp add: esp_vfs_register_fs_common_def Let_def flip: st1)
    next
      case (Some a)
      let ?e = "\<lparr>entry_block = a, entry_flags = flags, entry_vfs = v, path_prefix = path, path_prefix_len = length path,
                 entry_ctx = ctx, entry_offset = k\<rparr>"
      let ?st2 = "(set_heap H st1)\<lparr>s_vfs := (s_vfs st1)[k := Some ?e]\<rparr>"
      have len: "length path + 1 \<le> ESP_VFS_PATH_MAX" "length path \<noteq> LEN_PATH_PREFIX_IGNORED"
        using assms(2) by (auto simp: fits_def ESP_VFS_PATH_MAX_def LEN_PATH_PREFIX_IGNORED_def)
      have run: "esp_vfs_register_fs_common path (length path) (Some v) flags ctx st = Some ((ESP_OK, Some k), ?st2)"
        using False \<open>esp_get_free_index st = Some k\<close> ok1(6) q Some len by (simp add: esp_vfs_register_fs_common_def Let_def flip: st1)
      have "prefix_ok ?e" using prefix_not_refused [OF False assms(2)] assms(2) by (simp add: prefix_ok_def fits_def)
      then have "vfs_ok ?st2" using ok1(1,2,4) k by (auto simp: vfs_ok_def nth_list_update)
      moreover have "same_files st ?st2" using ok1(3) by (simp add: same_files_def)
      ultimately show ?thesis using run ok1(4,5) k by fastforce
    qed
  qed
qed

text \<open>The functions that the layer keeps are those that were passed in.\<close>

lemma all_dir_ops: "op \<in> set dir_op_list"
  by (cases op) (simp_all add: dir_op_list_def)

lemma all_termios_ops: "op \<in> set termios_op_list"
  by (cases op) (simp_all add: termios_op_list_def)

lemma all_select_ops: "op \<in> set select_op_list"
  by (cases op) (simp_all add: select_op_list_def)

lemma alloc_part_Some: "alloc_part p H = (Some q, H') \<Longrightarrow> map_option snd q = p"
  by (auto simp: alloc_part_def split: option.splits prod.splits)

lemma build_fs_ops_parts:
  assumes "build_fs_ops fs d t s H = (Some ops, H')"
  shows "fs_fns ops = fs" and "map_option snd (fs_dir ops) = d" and "map_option snd (fs_termios ops) = t" and "map_option snd (fs_select ops) = s"
  using assms by (auto simp: build_fs_ops_def split: option.splits prod.splits dest!: alloc_part_Some)

lemma make_fs_ops_parts:
  assumes "esp_vfs_make_fs_ops (Some v) H = (err, Some ops, H')"
  shows "err = ESP_OK" and "fs_fns ops = vfs_fs v"
    and "do { (_, fns) \<leftarrow> fs_dir ops; fns op } = vfs_dir v op"
    and "do { (_, fns) \<leftarrow> fs_termios ops; fns tio } = vfs_termios v tio"
    and "do { (_, fns) \<leftarrow> fs_select ops; fns sop } = vfs_select v sop"
proof -
  let ?d = "if \<forall>op \<in> set dir_op_list. vfs_dir v op = None then None else Some (vfs_dir v)"
  let ?t = "if \<forall>op \<in> set termios_op_list. vfs_termios v op = None then None else Some (vfs_termios v)"
  let ?s = "if \<forall>op \<in> set select_op_list. vfs_select v op = None then None else Some (vfs_select v)"
  have build: "build_fs_ops (vfs_fs v) ?d ?t ?s H = (Some ops, H')" and err: "err = ESP_OK"
    using assms by (cases "build_fs_ops (vfs_fs v) ?d ?t ?s H"; cases "fst (build_fs_ops (vfs_fs v) ?d ?t ?s H)";
      simp add: esp_vfs_make_fs_ops_def Let_def split del: if_split)+
  note parts = build_fs_ops_parts [OF build]
  have part: "do { (_, fns) \<leftarrow> p; fns x } = do { fns \<leftarrow> map_option snd p; fns x }" for p :: "(nat \<times> ('x \<Rightarrow> fn option)) option" and x
    by (cases p) auto
  show "err = ESP_OK" "fs_fns ops = vfs_fs v" using err parts(1) by simp_all
  show "do { (_, fns) \<leftarrow> fs_dir ops; fns op } = vfs_dir v op"
    using all_dir_ops [of op] by (simp add: part parts(2))
  show "do { (_, fns) \<leftarrow> fs_termios ops; fns tio } = vfs_termios v tio"
    using all_termios_ops [of tio] by (simp add: part parts(3))
  show "do { (_, fns) \<leftarrow> fs_select ops; fns sop } = vfs_select v sop"
    using all_select_ops [of sop] by (simp add: part parts(4))
qed

lemma register_file_system:
  assumes "vfs_ok st" and "fits path"
  shows "\<exists>err st'. esp_vfs_register path (Some v) ctx st = Some (err, st') \<and> same_files st st' \<and> vfs_ok st' \<and>
           s_vfs_count st \<le> s_vfs_count st' \<and> (err \<noteq> ESP_OK \<longrightarrow> s_vfs st' = s_vfs st) \<and>
           (err = ESP_OK \<longrightarrow> (\<exists>k e. k < VFS_MAX_COUNT st \<and> s_vfs st ! k = None \<and> s_vfs st' = (s_vfs st)[k := Some e] \<and>
              path_prefix e = path \<and> path_prefix_len e = length path \<and> entry_flags e = vfs_flags v \<and> entry_ctx e = ctx \<and>
              fs_fns (entry_vfs e) = vfs_fs v \<and> dir_fn e = vfs_dir v \<and> entry_offset e = k))"
proof (cases "vfs_flags v AND ESP_VFS_FLAG_STATIC \<noteq> 0")
  case True
  then show ?thesis using assms(1) by (simp add: esp_vfs_register_def esp_vfs_register_common_def)
next
  case False
  obtain err ops H where make: "esp_vfs_make_fs_ops (Some v) (vfs_heap st) = (err, ops, H)" by (metis prod_cases3)
  show ?thesis
  proof (cases ops)
    case None
    then have "err \<noteq> ESP_OK"
      using make by (auto simp: esp_vfs_make_fs_ops_def Let_def split: option.splits prod.splits)
    then show ?thesis using assms(1) False make None by (simp add: esp_vfs_register_def esp_vfs_register_common_def)
  next
    case (Some main)
    note parts = make_fs_ops_parts [OF make [unfolded Some]]
    have "vfs_ok (set_heap H st)" using assms(1) by simp
    from register_fs_common_file [OF this assms(2), of main "vfs_flags v" ctx]
    obtain err1 i st1 where reg: "esp_vfs_register_fs_common path (length path) (Some main) (vfs_flags v) ctx (set_heap H st) = Some ((err1, i), st1)"
      and st1: "same_files st st1" "vfs_ok st1" "s_vfs_count st \<le> s_vfs_count st1" "err1 \<noteq> ESP_OK \<longrightarrow> s_vfs st1 = s_vfs st"
      and entry: "err1 = ESP_OK \<longrightarrow> (\<exists>k e. k < VFS_MAX_COUNT st \<and> s_vfs st ! k = None \<and> s_vfs st1 = (s_vfs st)[k := Some e] \<and>
              path_prefix e = path \<and> path_prefix_len e = length path \<and> entry_flags e = vfs_flags v \<and> entry_ctx e = ctx \<and>
              entry_vfs e = main \<and> entry_offset e = k)"
      by simp blast
    have fns: "fs_fns (entry_vfs e) = vfs_fs v \<and> dir_fn e = vfs_dir v" if "entry_vfs e = main" for e
      using that parts by (simp add: dir_fn_def fun_eq_iff)
    let ?st2 = "if err1 \<noteq> ESP_OK then set_heap (esp_vfs_free_fs_ops main (vfs_heap st1)) st1 else st1"
    have "esp_vfs_register path (Some v) ctx st = Some (err1, ?st2)"
      using False make Some parts(1) reg by (simp add: esp_vfs_register_def esp_vfs_register_common_def)
    moreover have "same_files st ?st2" "vfs_ok ?st2" "s_vfs_count st \<le> s_vfs_count ?st2" "s_vfs ?st2 = s_vfs st1"
      using st1 by simp_all
    ultimately show ?thesis using st1(4) entry fns by metis
  qed
qed

section \<open>Abstraction\<close>

definition abs_vfs :: "vfs_state \<Rightarrow> vfs_spec" where
  "abs_vfs st =
     \<lparr>mounts = (\<lambda>i. if i < VFS_MAX_COUNT st then s_vfs st ! i else None),
      files = (\<lambda>fd. let e = s_fd_table st ! nat fd
                    in if fd_valid fd st \<and> vfs_index e \<noteq> - 1 then Some (nat (vfs_index e), uint (local_fd e)) else None),
      driver_calls = history st\<rparr>"

text \<open>No descriptor is permanent or part of a \<open>select\<close> call, and the file systems of open files are registered.\<close>

definition plain_fd :: "vfs_state \<Rightarrow> fd_table_t \<Rightarrow> bool" where
  "plain_fd st e \<longleftrightarrow> \<not> permanent e \<and> \<not> has_pending_select e \<and> \<not> has_pending_close e \<and>
     (vfs_index e \<noteq> - 1 \<longrightarrow> s_vfs st ! nat (vfs_index e) \<noteq> None)"

definition files_ok :: "vfs_state \<Rightarrow> bool" where
  "files_ok st \<longleftrightarrow> vfs_ok st \<and> (\<forall>e \<in> set (s_fd_table st). plain_fd st e)"

lemma files_ok_init: "files_ok (vfs_init max_count max_fds H)"
  by (auto simp: files_ok_def vfs_ok_init plain_fd_def) (auto simp: vfs_init_def FD_TABLE_ENTRY_UNUSED_def)

lemma abs_history [simp]: "abs_vfs (st\<lparr>history := h\<rparr>) = (abs_vfs st)\<lparr>driver_calls := h\<rparr>"
  by (simp add: abs_vfs_def fd_valid_def cong: if_cong)

lemma files_ok_history [simp]: "files_ok (st\<lparr>history := h\<rparr>) = files_ok st"
  by (simp add: files_ok_def plain_fd_def)

lemma abs_calls [simp]: "driver_calls (abs_vfs st) = history st"
  by (simp add: abs_vfs_def)

lemma ran_mounts: "ran (mounts (abs_vfs st)) = mounted st"
  by (auto simp: ran_def abs_vfs_def mounted_def in_set_conv_nth split: if_splits)

text \<open>A path leads to the file system that serves it best.\<close>

lemma lookup_cases:
  assumes "vfs_ok st"
  obtains (unserved) "get_vfs_for_path path st = None" "unserved (abs_vfs st) path"
        | (served) v where "get_vfs_for_path path st = Some v" "serving (abs_vfs st) path v" "translate_path v path = Some (path_in v path)"
            "s_vfs st ! entry_offset v = Some v" "entry_offset v < s_vfs_count st"
proof (cases "get_vfs_for_path path st")
  case None
  then show ?thesis
    using get_vfs_for_path_best [OF assms, of path] unserved by (simp add: unserved_def ran_mounts)
next
  case (Some v)
  then have best: "best_for path (mounted st) v" using get_vfs_for_path_best [OF assms, of path] by simp
  then have v: "v \<in> mounted st" "serves path v" by (simp_all add: best_for_def)
  then obtain i where i: "i < VFS_MAX_COUNT st" "s_vfs st ! i = Some v" by (auto simp: mounted_def in_set_conv_nth)
  then have "i < s_vfs_count st" "entry_offset v = i" using vfs_okD(2) [OF assms] by blast+
  then show ?thesis
    using served [OF Some] best translate_served [OF v(2) mounted_prefix_ok [OF assms v(1)]] i by (simp add: serving_def ran_mounts)
qed

text \<open>A call of a driver.\<close>

lemma check_and_call_eq:
  "CHECK_AND_CALL drv v op args st =
     (case fs_fns (entry_vfs v) op of
        None \<Rightarrow> (Fail ENOSYS, st)
      | Some f \<Rightarrow> (Ret (drv (history st @ [the_call v f args])), st\<lparr>history := history st @ [the_call v f args]\<rparr>))"
  by (simp add: CHECK_AND_CALL_def call_driver_def the_call_def Let_def split: option.split)

lemma call_dir_eq:
  "call_dir drv v op args st =
     (case dir_fn v op of
        None \<Rightarrow> (Fail ENOSYS, st)
      | Some f \<Rightarrow> (Ret (drv (history st @ [the_call v f args])), st\<lparr>history := history st @ [the_call v f args]\<rparr>))"
  by (simp add: call_dir_def CHECK_AND_CALL_SUBCOMPONENT_def dir_fn_def call_driver_def the_call_def Let_def split: option.split)

lemma files_abs:
  "files (abs_vfs st) fd = Some (i, l) \<longleftrightarrow>
     fd_valid fd st \<and> vfs_index (s_fd_table st ! nat fd) \<noteq> - 1 \<and> i = nat (vfs_index (s_fd_table st ! nat fd)) \<and>
     l = uint (local_fd (s_fd_table st ! nat fd))"
  "files (abs_vfs st) fd = None \<longleftrightarrow> \<not> (fd_valid fd st \<and> vfs_index (s_fd_table st ! nat fd) \<noteq> - 1)"
  by (auto simp: abs_vfs_def Let_def)

lemma fd_cases:
  assumes "files_ok st"
  obtains (bad) "files (abs_vfs st) fd = None" "\<And>body. with_fd fd body st = (Fail EBADF, st)"
        | (known) i l v where "files (abs_vfs st) fd = Some (i, l)" "mounts (abs_vfs st) i = Some v"
            "\<And>body. with_fd fd body st = body v l st" "fd_valid fd st"
proof (cases "files (abs_vfs st) fd")
  case None
  have ok: "vfs_ok st" using assms by (simp add: files_ok_def)
  from None have "get_vfs_for_fd fd st = None"
    by (auto simp: files_abs get_vfs_for_fd_def get_vfs_for_index_def)
  then show ?thesis using bad [OF None] by (simp add: with_fd_def Let_def)
next
  case (Some il)
  then obtain i l where il: "il = (i, l)" by fastforce
  let ?e = "s_fd_table st ! nat fd"
  have f: "fd_valid fd st" "vfs_index ?e \<noteq> - 1" "i = nat (vfs_index ?e)" "l = uint (local_fd ?e)"
    using Some il by (simp_all add: files_abs)
  then have e: "?e \<in> set (s_fd_table st)" by (simp add: fd_valid_def nat_less_iff)
  have ok: "vfs_ok st" and plain: "plain_fd st ?e" using assms e by (auto simp: files_ok_def)
  have range: "0 \<le> vfs_index ?e" "vfs_index ?e < int (s_vfs_count st)" using vfs_okD(3) [OF ok e] f(2) by auto
  obtain v where v: "s_vfs st ! i = Some v" using plain f(2,3) by (auto simp: plain_fd_def)
  have "i < VFS_MAX_COUNT st" using vfs_okD(1) [OF ok] range f(3) by linarith
  then have "mounts (abs_vfs st) i = Some v" using v by (simp add: abs_vfs_def)
  moreover have "get_vfs_for_fd fd st = Some v"
    using f range v by (simp add: get_vfs_for_fd_def get_vfs_for_index_def)
  then have "with_fd fd body st = body v l st" for body
    using f by (simp add: with_fd_def get_local_fd_def Let_def)
  ultimately show ?thesis using known Some il f(1) by blast
qed

text \<open>The first unused descriptor.\<close>

lemma free_fd_abs:
  assumes "files_ok st"
  shows "free_fd st = Some k \<Longrightarrow> next_fd (MAX_FDS st) (abs_vfs st) (int k) \<and> k < MAX_FDS st \<and> vfs_index (s_fd_table st ! k) = - 1"
    and "free_fd st = None \<Longrightarrow> no_fd (MAX_FDS st) (abs_vfs st)"
proof -
  assume "free_fd st = Some k"
  then have k: "k < MAX_FDS st" "vfs_index (s_fd_table st ! k) = - 1" "\<forall>j < k. vfs_index (s_fd_table st ! j) \<noteq> - 1"
    by (auto simp: free_fd_def find_upt_Some)
  have "files (abs_vfs st) j \<noteq> None" if "0 \<le> j" "j < int k" for j
    using that k by (auto simp: files_abs fd_valid_def nat_less_iff)
  moreover have "files (abs_vfs st) (int k) = None" using k(2) by (simp add: files_abs)
  ultimately show "next_fd (MAX_FDS st) (abs_vfs st) (int k) \<and> k < MAX_FDS st \<and> vfs_index (s_fd_table st ! k) = - 1"
    using k(1,2) unfolding next_fd_def by simp
next
  assume "free_fd st = None"
  then have "\<forall>j < MAX_FDS st. vfs_index (s_fd_table st ! j) \<noteq> - 1" by (simp add: free_fd_def find_upt_None)
  then have "\<not> (files (abs_vfs st) fd = None)" if "0 \<le> fd" "fd < int (MAX_FDS st)" for fd
    using that by (simp add: files_abs fd_valid_def nat_less_iff)
  then show "no_fd (MAX_FDS st) (abs_vfs st)" by (simp add: no_fd_def)
qed

lemma take_fd_abs:
  assumes "files_ok st" and "k < MAX_FDS st" and "i < s_vfs_count st" and "s_vfs st ! i \<noteq> None"
  shows "abs_vfs (take_fd False (int i) (of_int r) k st) = (abs_vfs st)\<lparr>files := (files (abs_vfs st))(int k \<mapsto> (i, r mod 256))\<rparr>"
    and "files_ok (take_fd False (int i) (of_int r) k st)"
proof -
  let ?e = "(s_fd_table st ! k)\<lparr>permanent := False, vfs_index := int i, local_fd := of_int r\<rparr>"
  let ?st = "take_fd False (int i) (of_int r) k st"
  have tab: "s_fd_table ?st = (s_fd_table st)[k := ?e]" by (simp add: take_fd_def)
  have "plain_fd st (s_fd_table st ! k)" using assms(1,2) by (simp add: files_ok_def)
  then have "plain_fd st ?e" using assms(4) by (simp add: plain_fd_def)
  moreover have "set (s_fd_table ?st) \<subseteq> insert ?e (set (s_fd_table st))" unfolding tab by (rule set_update_subset_insert)
  moreover have "plain_fd ?st = plain_fd st" by (simp add: plain_fd_def take_fd_def fun_eq_iff)
  moreover have "vfs_ok ?st"
    using assms(1,3) set_update_subset_insert [of "s_fd_table st" k ?e] by (auto simp: files_ok_def vfs_ok_def take_fd_def)
  ultimately show "files_ok ?st" using assms(1) unfolding files_ok_def by auto
  have byte: "uint (of_int r :: byte) = r mod 256" by (simp add: unsigned_of_int take_bit_eq_mod)
  have "files (abs_vfs ?st) fd = ((files (abs_vfs st))(int k \<mapsto> (i, r mod 256))) fd" for fd
    using assms(2) byte by (auto simp: abs_vfs_def take_fd_def fd_valid_def Let_def nth_list_update nat_eq_iff)
  then have "files (abs_vfs ?st) = (files (abs_vfs st))(int k \<mapsto> (i, r mod 256))" by blast
  moreover have "mounts (abs_vfs ?st) = mounts (abs_vfs st)" "driver_calls (abs_vfs ?st) = driver_calls (abs_vfs st)"
    by (simp_all add: abs_vfs_def take_fd_def cong: if_cong)
  ultimately show "abs_vfs ?st = (abs_vfs st)\<lparr>files := (files (abs_vfs st))(int k \<mapsto> (i, r mod 256))\<rparr>" by simp
qed

lemma release_fd_abs:
  assumes "files_ok st" and "fd_valid fd st"
  shows "abs_vfs (release_fd fd st) = (abs_vfs st)\<lparr>files := (files (abs_vfs st))(fd := None)\<rparr>"
    and "files_ok (release_fd fd st)" and "MAX_FDS (release_fd fd st) = MAX_FDS st"
proof -
  have k: "nat fd < MAX_FDS st" "0 \<le> fd" using assms(2) by (simp_all add: fd_valid_def nat_less_iff)
  have "plain_fd st (s_fd_table st ! nat fd)" using assms(1) k by (simp add: files_ok_def)
  then have rel: "release_fd fd st = st\<lparr>s_fd_table := (s_fd_table st)[nat fd := FD_TABLE_ENTRY_UNUSED]\<rparr>"
    by (simp add: release_fd_def plain_fd_def Let_def)
  have sub: "set ((s_fd_table st)[nat fd := FD_TABLE_ENTRY_UNUSED]) \<subseteq> insert FD_TABLE_ENTRY_UNUSED (set (s_fd_table st))"
    by (rule set_update_subset_insert)
  have unused: "vfs_index FD_TABLE_ENTRY_UNUSED = - 1" by (simp add: FD_TABLE_ENTRY_UNUSED_def)
  have "plain_fd st FD_TABLE_ENTRY_UNUSED" by (simp add: plain_fd_def FD_TABLE_ENTRY_UNUSED_def)
  moreover have "plain_fd (release_fd fd st) = plain_fd st" by (simp add: rel plain_fd_def fun_eq_iff)
  moreover have "vfs_ok (release_fd fd st)" using assms(1) sub unused by (auto simp: rel files_ok_def vfs_ok_def)
  ultimately show "files_ok (release_fd fd st)" using assms(1) sub by (auto simp: files_ok_def rel)
  have "files (abs_vfs (release_fd fd st)) j = ((files (abs_vfs st))(fd := None)) j" for j
    using k unused by (auto simp: rel abs_vfs_def fd_valid_def Let_def nth_list_update)
  then have "files (abs_vfs (release_fd fd st)) = (files (abs_vfs st))(fd := None)" by blast
  moreover have "mounts (abs_vfs (release_fd fd st)) = mounts (abs_vfs st)" "driver_calls (abs_vfs (release_fd fd st)) = driver_calls (abs_vfs st)"
    by (simp_all add: abs_vfs_def rel cong: if_cong)
  ultimately show "abs_vfs (release_fd fd st) = (abs_vfs st)\<lparr>files := (files (abs_vfs st))(fd := None)\<rparr>" by simp
  show "MAX_FDS (release_fd fd st) = MAX_FDS st" by (simp add: rel)
qed

section \<open>The calls follow the specification\<close>

definition allowed :: "driver \<Rightarrow> vfs_syscall \<Rightarrow> vfs_state \<Rightarrow> bool" where
  "allowed drv call st \<longleftrightarrow>
     (\<exists>out st'. vfs_exec drv call st = Some (out, st') \<and> vfs_step drv (MAX_FDS st) (abs_vfs st) call out (abs_vfs st') \<and>
        files_ok st' \<and> MAX_FDS st' = MAX_FDS st)"

lemma allowedI:
  "vfs_exec drv call st = Some (out, st') \<Longrightarrow> vfs_step drv (MAX_FDS st) (abs_vfs st) call out (abs_vfs st') \<Longrightarrow> files_ok st' \<Longrightarrow>
     MAX_FDS st' = MAX_FDS st \<Longrightarrow> allowed drv call st"
  by (auto simp: allowed_def)

lemma exec_fd:
  assumes "fd_call call = Some (fd, op, args)"
  shows "vfs_exec drv call st = Some (let (r, st1) = with_fd fd (\<lambda>v l st. case CHECK_AND_CALL drv v op (IntArg l # args) st of
             (Fail e, st1) \<Rightarrow> (Fail e, st1) | (Ret r, st1) \<Rightarrow> (Ret r, if op = Op_close then release_fd fd st1 else st1)) st in (Inr r, st1))"
proof -
  have other: "(\<lambda>v l st. case CHECK_AND_CALL drv v op (xs l) st of (Fail e, st1) \<Rightarrow> (Fail e, st1)
        | (Ret r, st1) \<Rightarrow> (Ret r, if op = Op_close then release_fd fd st1 else st1)) =
      (\<lambda>v l. CHECK_AND_CALL drv v op (xs l))" if "op \<noteq> Op_close" for xs op
    using that by (intro ext) (simp add: check_and_call_eq split: option.split)
  have close: "(\<lambda>v l st. case CHECK_AND_CALL drv v Op_close (xs l) st of (Fail e, st1) \<Rightarrow> (Fail e, st1)
        | (Ret r, st1) \<Rightarrow> (Ret r, if Op_close = Op_close then release_fd fd st1 else st1)) =
      (\<lambda>v l st. case CHECK_AND_CALL drv v Op_close (xs l) st of (Fail e, st1) \<Rightarrow> (Fail e, st1)
        | (Ret r, st1) \<Rightarrow> (Ret r, release_fd fd st1))" for xs
    by (intro ext) (simp split: vfs_result.split prod.split)
  show ?thesis
    using assms by (cases call)
      (auto simp: other close esp_vfs_close_def esp_vfs_write_def esp_vfs_read_def esp_vfs_lseek_def esp_vfs_pread_def esp_vfs_pwrite_def
        esp_vfs_fstat_def esp_vfs_fcntl_r_def esp_vfs_ioctl_def esp_vfs_fsync_def)
qed

lemma exec_path:
  assumes "path_call call = Some (path, writes, op, args)"
  shows "vfs_exec drv call st = map_option (\<lambda>(r, st1). (Inr r, st1)) (with_path path writes (\<lambda>v p. call_dir drv v op (StrArg p # args)) st)"
  using assms by (cases call)
    (auto simp: esp_vfs_stat_def esp_vfs_utime_def esp_vfs_unlink_def esp_vfs_mkdir_def esp_vfs_rmdir_def esp_vfs_access_def esp_vfs_truncate_def)

lemma fd_call_allowed:
  assumes "files_ok st" and "fd_call call = Some (fd, op, args)"
  shows "allowed drv call st"
  using assms(1)
proof (cases rule: fd_cases [of st fd])
  case bad
  then show ?thesis using assms by (intro allowedI) (auto simp: exec_fd [OF assms(2)] intro: vfs_step.bad_fd)
next
  case (known i l v)
  show ?thesis
  proof (cases "fs_fns (entry_vfs v) op")
    case None
    then show ?thesis
      using assms known by (intro allowedI) (auto simp: exec_fd [OF assms(2)] check_and_call_eq intro: vfs_step.fd_unknown)
  next
    case (Some f)
    let ?h = "history st @ [the_call v f (IntArg l # args)]"
    let ?st1 = "st\<lparr>history := ?h\<rparr>"
    let ?st2 = "if op = Op_close then release_fd fd ?st1 else ?st1"
    have valid: "fd_valid fd ?st1" using known(4) by (simp add: fd_valid_def)
    have rel: "abs_vfs (release_fd fd ?st1) = (abs_vfs ?st1)\<lparr>files := (files (abs_vfs ?st1))(fd := None)\<rparr>"
      "files_ok (release_fd fd ?st1)" "MAX_FDS (release_fd fd ?st1) = MAX_FDS ?st1"
      using release_fd_abs [OF _ valid] assms(1) by simp_all
    have "vfs_exec drv call st = Some (Inr (Ret (drv ?h)), ?st2)"
      using Some known by (simp add: exec_fd [OF assms(2)] check_and_call_eq)
    moreover have "abs_vfs ?st2 = (abs_vfs st)\<lparr>driver_calls := ?h,
        files := (if op = Op_close then (files (abs_vfs st))(fd := None) else files (abs_vfs st))\<rparr>"
      using rel(1) by simp
    then have "vfs_step drv (MAX_FDS st) (abs_vfs st) call (Inr (Ret (drv ?h))) (abs_vfs ?st2)"
      using vfs_step.fd_done [OF assms(2) known(1,2) Some, of ?h drv "MAX_FDS st"] by simp
    moreover have "files_ok ?st2" "MAX_FDS ?st2 = MAX_FDS st" using rel assms(1) by simp_all
    ultimately show ?thesis by (rule allowedI)
  qed
qed

lemma path_call_allowed:
  assumes "files_ok st" and "path_call call = Some (path, writes, op, args)"
  shows "allowed drv call st"
proof -
  have "vfs_ok st" using assms(1) by (simp add: files_ok_def)
  then show ?thesis
  proof (cases rule: lookup_cases [of st path])
    case unserved
    then show ?thesis
      using assms by (intro allowedI) (auto simp: exec_path [OF assms(2)] with_path_def intro: vfs_step.path_unserved)
  next
    case (served v)
    have ro: "CHECK_VFS_READONLY_FLAG (entry_flags v) \<longleftrightarrow> read_only v" by (simp add: CHECK_VFS_READONLY_FLAG_def read_only_def)
    show ?thesis
    proof (cases "writes \<and> read_only v")
      case True
      then show ?thesis
        using assms served by (intro allowedI) (auto simp: exec_path [OF assms(2)] with_path_def ro intro: vfs_step.path_read_only)
    next
      case False
      show ?thesis
      proof (cases "dir_fn v op")
        case None
        then show ?thesis
          using assms served False
          by (intro allowedI) (auto simp: exec_path [OF assms(2)] with_path_def ro call_dir_eq intro: vfs_step.path_unknown)
      next
        case (Some f)
        let ?h = "history st @ [the_call v f (StrArg (path_in v path) # args)]"
        have "vfs_exec drv call st = Some (Inr (Ret (drv ?h)), st\<lparr>history := ?h\<rparr>)"
          using served False Some by (auto simp: exec_path [OF assms(2)] with_path_def ro call_dir_eq)
        moreover have "vfs_step drv (MAX_FDS st) (abs_vfs st) call (Inr (Ret (drv ?h))) (abs_vfs (st\<lparr>history := ?h\<rparr>))"
          using vfs_step.path_done [OF assms(2) served(2) _ Some, of ?h drv "MAX_FDS st"] False by auto
        ultimately show ?thesis using assms(1) by (intro allowedI [where st' = "st\<lparr>history := ?h\<rparr>"]) simp_all
      qed
    qed
  qed
qed

lemma open_allowed:
  assumes "files_ok st"
  shows "allowed drv (Open path flags mode) st"
proof -
  have ok: "vfs_ok st" using assms by (simp add: files_ok_def)
  then show ?thesis
  proof (cases rule: lookup_cases [of st path])
    case unserved
    then show ?thesis using assms by (intro allowedI) (auto simp: esp_vfs_open_def intro: vfs_step.open_unserved)
  next
    case (served v)
    have ro: "flags AND O_ACCMODE \<noteq> O_RDONLY \<and> entry_flags v AND ESP_VFS_FLAG_READONLY_FS \<noteq> 0 \<longleftrightarrow>
        read_only v \<and> flags AND O_ACCMODE \<noteq> O_RDONLY" by (auto simp: read_only_def)
    show ?thesis
    proof (cases "read_only v \<and> flags AND O_ACCMODE \<noteq> O_RDONLY")
      case True
      then show ?thesis
        using assms served vfs_step.open_read_only [OF served(2), of flags drv "MAX_FDS st" mode]
        by (intro allowedI) (auto simp: esp_vfs_open_def read_only_def)
    next
      case writable: False
      show ?thesis
      proof (cases "fs_fns (entry_vfs v) Op_open")
        case None
        then show ?thesis
          using assms served writable
          by (intro allowedI) (auto simp: esp_vfs_open_def ro check_and_call_eq intro: vfs_step.open_unknown)
      next
        case (Some f)
        let ?h = "history st @ [the_call v f [StrArg (path_in v path), IntArg (sint flags), IntArg mode]]"
        let ?st1 = "st\<lparr>history := ?h\<rparr>"
        let ?r = "drv ?h"
        have h: "?h = driver_calls (abs_vfs st) @ [the_call v f [StrArg (path_in v path), IntArg (sint flags), IntArg mode]]"
          by (simp add: abs_vfs_def)
        have ok1: "files_ok ?st1" using assms by simp
        have free: "free_fd ?st1 = free_fd st" by (simp add: free_fd_def)
        have run: "esp_vfs_open drv path flags mode st =
            (if 0 \<le> ?r then
               (case free_fd st of
                  Some i \<Rightarrow> Some (Ret (int i), take_fd False (int (entry_offset v)) (of_int ?r) i ?st1)
                | None \<Rightarrow>
                    (case CHECK_AND_CALL drv v Op_close [IntArg ?r] ?st1 of
                       (Fail e, st2) \<Rightarrow> Some (Fail e, st2) | (Ret _, st2) \<Rightarrow> Some (Fail ENOMEM, st2)))
             else Some (Fail Driver_errno, ?st1))"
          using served writable Some by (auto simp: esp_vfs_open_def ro check_and_call_eq free)
        show ?thesis
        proof (cases "0 \<le> ?r")
          case False
          then have "vfs_step drv (MAX_FDS st) (abs_vfs st) (Open path flags mode) (Inr (Fail Driver_errno)) (abs_vfs ?st1)"
            using vfs_step.open_failed [where h = ?h and drv = drv, OF served(2) writable Some h] by simp
          then show ?thesis using run False ok1 by (intro allowedI [where st' = ?st1]) simp_all
        next
          case opened: True
          show ?thesis
          proof (cases "free_fd st")
            case (Some k)
            note k = free_fd_abs(1) [OF assms Some]
            have v: "s_vfs ?st1 ! entry_offset v \<noteq> None" "entry_offset v < s_vfs_count ?st1" "k < MAX_FDS ?st1"
              using served k by simp_all
            note take = take_fd_abs [OF ok1 v(3,2,1), of ?r]
            have "abs_vfs (take_fd False (int (entry_offset v)) (of_int ?r) k ?st1) =
                (abs_vfs st)\<lparr>files := (files (abs_vfs st))(int k \<mapsto> (entry_offset v, ?r mod 256)), driver_calls := ?h\<rparr>"
              using take(1) by simp
            then have "vfs_step drv (MAX_FDS st) (abs_vfs st) (Open path flags mode) (Inr (Ret (int k)))
                (abs_vfs (take_fd False (int (entry_offset v)) (of_int ?r) k ?st1))"
              using vfs_step.opened [where h = ?h and drv = drv, OF served(2) writable \<open>fs_fns (entry_vfs v) Op_open = Some f\<close> h opened
                  k [THEN conjunct1]] by (simp only:)
            moreover have "vfs_exec drv (Open path flags mode) st =
                Some (Inr (Ret (int k)), take_fd False (int (entry_offset v)) (of_int ?r) k ?st1)"
              using run opened Some by simp
            moreover have "MAX_FDS (take_fd False (int (entry_offset v)) (of_int ?r) k ?st1) = MAX_FDS st" by (simp add: take_fd_def)
            ultimately show ?thesis using take(2) allowedI by blast
          next
            case None
            note full = free_fd_abs(2) [OF assms None]
            show ?thesis
            proof (cases "fs_fns (entry_vfs v) Op_close")
              case None
              then have "vfs_step drv (MAX_FDS st) (abs_vfs st) (Open path flags mode) (Inr (Fail ENOSYS)) (abs_vfs ?st1)"
                using vfs_step.open_full_unclosed [where h = ?h and drv = drv, OF served(2) writable Some h opened full] by simp
              then show ?thesis
                using run opened \<open>free_fd st = None\<close> None ok1 by (intro allowedI [where st' = ?st1]) (simp_all add: check_and_call_eq)
            next
              case (Some g)
              let ?st2 = "?st1\<lparr>history := ?h @ [the_call v g [IntArg ?r]]\<rparr>"
              have "vfs_step drv (MAX_FDS st) (abs_vfs st) (Open path flags mode) (Inr (Fail ENOMEM)) (abs_vfs ?st2)"
                using vfs_step.open_full [where h = ?h and drv = drv, OF served(2) writable \<open>fs_fns (entry_vfs v) Op_open = Some f\<close> h opened full Some] by simp
              then show ?thesis
                using run opened \<open>free_fd st = None\<close> Some assms by (intro allowedI [where st' = ?st2]) (simp_all add: check_and_call_eq)
            qed
          qed
        qed
      qed
    qed
  qed
qed

lemma mount_allowed:
  assumes "files_ok st" and "fits path"
  shows "allowed drv (Mount path v ctx) st"
proof -
  have ok: "vfs_ok st" using assms(1) by (simp add: files_ok_def)
  from register_file_system [OF ok assms(2), of v ctx]
  obtain err st' where reg: "esp_vfs_register path (Some v) ctx st = Some (err, st')"
    and st': "same_files st st'" "vfs_ok st'" "s_vfs_count st \<le> s_vfs_count st'" "err \<noteq> ESP_OK \<longrightarrow> s_vfs st' = s_vfs st"
    and entry: "err = ESP_OK \<longrightarrow> (\<exists>k e. k < VFS_MAX_COUNT st \<and> s_vfs st ! k = None \<and> s_vfs st' = (s_vfs st)[k := Some e] \<and>
              path_prefix e = path \<and> path_prefix_len e = length path \<and> entry_flags e = vfs_flags v \<and> entry_ctx e = ctx \<and>
              fs_fns (entry_vfs e) = vfs_fs v \<and> dir_fn e = vfs_dir v \<and> entry_offset e = k)"
    by blast
  have tab: "s_fd_table st' = s_fd_table st" "history st' = history st" "length (s_vfs st') = length (s_vfs st)"
    using st'(1) by (simp_all add: same_files_def)
  have files: "files (abs_vfs st') = files (abs_vfs st)" by (simp add: abs_vfs_def tab fd_valid_def)
  have exec: "vfs_exec drv (Mount path v ctx) st = Some (Inl err, st')" using reg by simp
  show ?thesis
  proof (cases "err = ESP_OK")
    case False
    then have same: "s_vfs st' = s_vfs st" using st'(4) by blast
    then have "abs_vfs st' = abs_vfs st" by (simp add: abs_vfs_def tab fd_valid_def cong: if_cong)
    moreover have "files_ok st'" using assms(1) st'(2) same tab by (simp add: files_ok_def plain_fd_def)
    moreover have "vfs_step drv (MAX_FDS st) (abs_vfs st) (Mount path v ctx) (Inl err) (abs_vfs st)"
      using False by (rule vfs_step.refused)
    ultimately show ?thesis using exec tab by (intro allowedI [where st' = st']) simp_all
  next
    case True
    then obtain k e where k: "k < VFS_MAX_COUNT st" "s_vfs st ! k = None" "s_vfs st' = (s_vfs st)[k := Some e]"
      and e: "path_prefix e = path" "path_prefix_len e = length path" "entry_flags e = vfs_flags v" "entry_ctx e = ctx"
        "fs_fns (entry_vfs e) = vfs_fs v" "dir_fn e = vfs_dir v" "entry_offset e = k"
      using entry by blast
    have "mounts (abs_vfs st') = (mounts (abs_vfs st))(k \<mapsto> e)"
      using k by (auto simp: abs_vfs_def fun_eq_iff nth_list_update)
    then have abs: "abs_vfs st' = (abs_vfs st)\<lparr>mounts := (mounts (abs_vfs st))(k \<mapsto> e)\<rparr>"
      using files tab(2) by (simp add: abs_vfs_def)
    have "mounts (abs_vfs st) k = None" using k by (simp add: abs_vfs_def)
    from vfs_step.mounted [where S = "abs_vfs st", OF this e]
    have "vfs_step drv (MAX_FDS st) (abs_vfs st) (Mount path v ctx) (Inl ESP_OK) (abs_vfs st')" by (simp only: abs)
    moreover have "plain_fd st' x" if "plain_fd st x" for x
      using that k by (auto simp: plain_fd_def nth_list_update)
    then have "files_ok st'" using assms(1) st'(2) tab(1) by (simp add: files_ok_def)
    ultimately show ?thesis using exec True tab by (intro allowedI [where st' = st']) simp_all
  qed
qed

definition proper_call :: "vfs_syscall \<Rightarrow> bool" where
  "proper_call call = (case call of Mount path v ctx \<Rightarrow> fits path | _ \<Rightarrow> True)"

lemma call_allowed:
  assumes "files_ok st" and "proper_call call"
  shows "allowed drv call st"
proof (cases "fd_call call = None \<and> path_call call = None")
  case True
  then show ?thesis using assms mount_allowed open_allowed by (cases call) (simp_all add: proper_call_def)
next
  case False
  then show ?thesis using fd_call_allowed [OF assms(1)] path_call_allowed [OF assms(1)] by (auto simp: not_None_eq)
qed

lemma session_allowed:
  assumes "files_ok st" and "\<forall>call \<in> set calls. proper_call call"
  shows "\<exists>outs st'. vfs_session drv calls st = Some (outs, st') \<and> vfs_steps drv (MAX_FDS st) (abs_vfs st) calls outs (abs_vfs st') \<and>
           files_ok st'"
  using assms
proof (induction calls arbitrary: st)
  case Nil
  then show ?case by (auto intro: vfs_steps.nil)
next
  case (Cons call calls)
  have "allowed drv call st" using call_allowed [OF Cons.prems(1)] Cons.prems(2) by simp
  then obtain out st1 where step: "vfs_exec drv call st = Some (out, st1)" "vfs_step drv (MAX_FDS st) (abs_vfs st) call out (abs_vfs st1)"
    "files_ok st1" "MAX_FDS st1 = MAX_FDS st"
    by (auto simp: allowed_def)
  from Cons.IH [OF step(3)] Cons.prems(2)
  obtain outs st2 where "vfs_session drv calls st1 = Some (outs, st2)"
    "vfs_steps drv (MAX_FDS st) (abs_vfs st1) calls outs (abs_vfs st2)" "files_ok st2"
    using step(4) by auto
  then show ?case using step by (auto intro: vfs_steps.cons)
qed

end
