(* ===== verification/Vfs_Memory.thy ===== *)
theory Vfs_Memory
  imports Vfs_Path "HOL-Library.Multiset"
begin

text \<open>
  The blocks that registered file systems take: an entry each, and the copy of the operations when it is not
  static.  Registrations that fail give everything back.
\<close>

section \<open>Blocks in use\<close>

definition holds_blocks :: "nat multiset \<Rightarrow> block_heap \<Rightarrow> bool" where
  "holds_blocks X H \<longleftrightarrow> heap_ok H \<and> \<not> bad_free H \<and> mset (live H) = X"

lemma holds_calloc:
  assumes "holds_blocks X H" and "calloc H = (q, H')"
  shows "holds_blocks (X + (case q of None \<Rightarrow> {#} | Some a \<Rightarrow> {#a#})) H'"
  using assms by (cases q) (auto simp: holds_blocks_def dest: callocD)

lemma holds_free: "holds_blocks (add_mset a X) H \<Longrightarrow> holds_blocks X (heap_free a H)"
  by (auto simp: holds_blocks_def)

definition part_blocks :: "(nat \<times> 'f) option \<Rightarrow> nat multiset" where
  "part_blocks p = (case p of None \<Rightarrow> {#} | Some (a, _) \<Rightarrow> {#a#})"

definition ops_blocks :: "esp_vfs_fs_ops_t \<Rightarrow> nat multiset" where
  "ops_blocks v = add_mset (fs_block v) (part_blocks (fs_select v) + part_blocks (fs_dir v) + part_blocks (fs_termios v))"

definition entry_blocks :: "vfs_entry_t option \<Rightarrow> nat multiset" where
  "entry_blocks e =
     (case e of
        None \<Rightarrow> {#}
      | Some v \<Rightarrow> add_mset (entry_block v) (if entry_flags v AND ESP_VFS_FLAG_STATIC = 0 then ops_blocks (entry_vfs v) else {#}))"

definition vfs_blocks :: "vfs_state \<Rightarrow> nat multiset" where
  "vfs_blocks st = sum_list (map entry_blocks (s_vfs st))"

lemma part_blocks_simps [simp]: "part_blocks None = {#}" "part_blocks (Some (a, f)) = {#a#}"
  by (simp_all add: part_blocks_def)

lemma holds_free_part: "holds_blocks (X + part_blocks p) H \<Longrightarrow> holds_blocks X (free_part p H)"
  by (cases p) (auto simp: free_part_def intro: holds_free)

lemma holds_free_ops:
  assumes "holds_blocks (X + ops_blocks v) H"
  shows "holds_blocks X (esp_vfs_free_fs_ops v H)"
proof -
  have "holds_blocks (add_mset (fs_block v) X + part_blocks (fs_select v) + part_blocks (fs_dir v) + part_blocks (fs_termios v)) H"
    using assms by (simp add: ops_blocks_def ac_simps)
  then show ?thesis
    unfolding esp_vfs_free_fs_ops_def by (blast intro: holds_free holds_free_part)
qed

lemma holds_free_entry:
  assumes "holds_blocks (X + entry_blocks (Some v)) H"
  shows "holds_blocks X (esp_vfs_free_entry v H)"
proof (cases "entry_flags v AND ESP_VFS_FLAG_STATIC = 0")
  case True
  then have "holds_blocks (add_mset (entry_block v) X + ops_blocks (entry_vfs v)) H"
    using assms by (simp add: entry_blocks_def ac_simps)
  from holds_free [OF holds_free_ops [OF this]] True show ?thesis by (simp add: esp_vfs_free_entry_def)
next
  case False
  then show ?thesis using assms by (auto simp: entry_blocks_def esp_vfs_free_entry_def intro: holds_free)
qed

lemma sum_update:
  "k < length xs \<Longrightarrow> sum_list (map f (xs[k := y])) + f (xs ! k) = sum_list (map f xs) + (f y :: 'b multiset)"
proof (induction xs arbitrary: k)
  case (Cons x xs)
  then show ?case by (cases k) (auto simp: ac_simps)
qed simp

section \<open>Copies of the operations\<close>

lemma holds_alloc_part:
  assumes "holds_blocks X H" and "alloc_part p H = (r, H')"
  shows "holds_blocks (X + (case r of None \<Rightarrow> {#} | Some q \<Rightarrow> part_blocks q)) H'"
proof (cases p)
  case None
  then show ?thesis using assms by (auto simp: alloc_part_def)
next
  case (Some f)
  obtain q H1 where q: "calloc H = (q, H1)" by fastforce
  from holds_calloc [OF assms(1) q] show ?thesis using assms(2) Some q by (cases q) (auto simp: alloc_part_def)
qed

lemma holds_free_proxy:
  "holds_blocks (X + part_blocks d + part_blocks t + part_blocks s) H \<Longrightarrow> holds_blocks X (free_proxy_members d t s H)"
proof -
  assume "holds_blocks (X + part_blocks d + part_blocks t + part_blocks s) H"
  then have "holds_blocks (X + part_blocks s + part_blocks t + part_blocks d) H" by (simp add: ac_simps)
  then show ?thesis unfolding free_proxy_members_def by (blast intro: holds_free_part)
qed

lemma holds_build:
  assumes "holds_blocks X H" and "build_fs_ops fs d t s H = (r, H')"
  shows "holds_blocks (X + (case r of None \<Rightarrow> {#} | Some v \<Rightarrow> ops_blocks v)) H'"
proof -
  obtain dp H1 where d: "alloc_part d H = (dp, H1)" by fastforce
  note h1 = holds_alloc_part [OF assms(1) d]
  show ?thesis
  proof (cases dp)
    case None
    then show ?thesis using assms(2) d h1 holds_free_proxy [of X None None None] by (auto simp: build_fs_ops_def)
  next
    case dp: (Some dq)
    obtain tp H2 where t: "alloc_part t H1 = (tp, H2)" by fastforce
    note h2 = holds_alloc_part [OF h1 t]
    show ?thesis
    proof (cases tp)
      case None
      then show ?thesis using assms(2) d dp t h2 holds_free_proxy [of X dq None None] by (auto simp: build_fs_ops_def)
    next
      case tp: (Some tq)
      obtain sp H3 where s: "alloc_part s H2 = (sp, H3)" by fastforce
      note h3 = holds_alloc_part [OF h2 s]
      show ?thesis
      proof (cases sp)
        case None
        then show ?thesis using assms(2) d dp t tp s h3 holds_free_proxy [of X dq tq None] by (auto simp: build_fs_ops_def)
      next
        case sp: (Some sq)
        obtain q H4 where q: "calloc H3 = (q, H4)" by fastforce
        note h4 = holds_calloc [OF h3 q]
        show ?thesis
        proof (cases q)
          case None
          then show ?thesis
            using assms(2) d dp t tp s sp q h4 holds_free_proxy [of X dq tq sq H4] by (auto simp: build_fs_ops_def)
        next
          case (Some a)
          then show ?thesis
            using assms(2) d dp t tp s sp q h4 by (auto simp: build_fs_ops_def ops_blocks_def ac_simps)
        qed
      qed
    qed
  qed
qed

lemma holds_duplicate:
  "holds_blocks X H \<Longrightarrow> esp_vfs_duplicate_fs_ops orig H = (r, H') \<Longrightarrow>
     holds_blocks (X + (case r of None \<Rightarrow> {#} | Some v \<Rightarrow> ops_blocks v)) H'"
  unfolding esp_vfs_duplicate_fs_ops_def by (rule holds_build)

lemma holds_make:
  assumes "holds_blocks X H" and "esp_vfs_make_fs_ops (Some v) H = (err, r, H')"
  shows "holds_blocks (X + (case r of None \<Rightarrow> {#} | Some v \<Rightarrow> ops_blocks v)) H'"
proof -
  let ?d = "if \<forall>op \<in> set dir_op_list. vfs_dir v op = None then None else Some (vfs_dir v)"
  let ?t = "if \<forall>op \<in> set termios_op_list. vfs_termios v op = None then None else Some (vfs_termios v)"
  let ?s = "if \<forall>op \<in> set select_op_list. vfs_select v op = None then None else Some (vfs_select v)"
  obtain q H1 where build: "build_fs_ops (vfs_fs v) ?d ?t ?s H = (q, H1)" by (rule prod.exhaust)
  then have "r = q" "H' = H1"
    using assms(2) by (cases q; simp add: esp_vfs_make_fs_ops_def Let_def split del: if_split)+
  then show ?thesis using holds_build [OF assms(1) build] by simp
qed

section \<open>Registration and removal\<close>

definition prefix_len_ok :: "byte list \<Rightarrow> nat \<Rightarrow> bool" where
  "prefix_len_ok path len \<longleftrightarrow> len = LEN_PATH_PREFIX_IGNORED \<or> (len = length path \<and> length path < ESP_VFS_PATH_MAX)"

text \<open>The sizes of the tables, and the bound on the number of entries that were used, stay.\<close>

definition tables_kept :: "vfs_state \<Rightarrow> vfs_state \<Rightarrow> bool" where
  "tables_kept st st' \<longleftrightarrow>
     length (s_vfs st') = length (s_vfs st) \<and> length (s_fd_table st') = length (s_fd_table st) \<and>
     (s_vfs_count st \<le> VFS_MAX_COUNT st \<longrightarrow> s_vfs_count st' \<le> VFS_MAX_COUNT st')"

lemma tables_kept_heap [simp]: "tables_kept st (set_heap H st') \<longleftrightarrow> tables_kept st st'" "tables_kept (set_heap H st) st' \<longleftrightarrow> tables_kept st st'"
  "tables_kept st st"
  by (simp_all add: tables_kept_def)

definition mem_vfs :: "nat multiset \<Rightarrow> vfs_state \<Rightarrow> bool" where
  "mem_vfs X st \<longleftrightarrow> holds_blocks (X + vfs_blocks st) (vfs_heap st)"

lemma holds_register_common:
  assumes "holds_blocks (X + own + vfs_blocks st) (vfs_heap st)" and "prefix_len_ok path len"
    and own: "own = (if flags AND ESP_VFS_FLAG_STATIC = 0 then ops_blocks v else {#})"
  shows "\<exists>err i st'. esp_vfs_register_fs_common path len (Some v) flags ctx st = Some ((err, i), st') \<and>
           tables_kept st st' \<and> (if err = ESP_OK then mem_vfs X st' else mem_vfs (X + own) st')"
proof (cases "prefix_refused path len \<or> esp_get_free_index st = None")
  case True
  then show ?thesis using assms(1) by (cases "prefix_refused path len") (auto simp: esp_vfs_register_fs_common_def mem_vfs_def)
next
  case False
  then obtain k where k: "\<not> prefix_refused path len" "esp_get_free_index st = Some k" by auto
  then have free: "k < VFS_MAX_COUNT st" "s_vfs st ! k = None" by (auto simp: esp_get_free_index_def find_Some_iff)
  obtain st1 where st1: "st1 = (if k = s_vfs_count st then st\<lparr>s_vfs_count := s_vfs_count st + 1\<rparr> else st)" by simp
  have same: "s_vfs st1 = s_vfs st" "vfs_heap st1 = vfs_heap st" "s_fd_table st1 = s_fd_table st" "tables_kept st st1"
    using free by (auto simp: st1 tables_kept_def)
  obtain q H where q: "calloc (vfs_heap st) = (q, H)" by fastforce
  note mem = holds_calloc [OF assms(1) q]
  show ?thesis
  proof (cases q)
    case None
    then show ?thesis
      using k q mem same by (simp add: esp_vfs_register_fs_common_def Let_def mem_vfs_def vfs_blocks_def flip: st1)
  next
    case (Some a)
    let ?prefix = "if len \<noteq> LEN_PATH_PREFIX_IGNORED then path else []"
    let ?e = "\<lparr>entry_block = a, entry_flags = flags, entry_vfs = v, path_prefix = ?prefix, path_prefix_len = len,
               entry_ctx = ctx, entry_offset = k\<rparr>"
    let ?st2 = "(set_heap H st1)\<lparr>s_vfs := (s_vfs st1)[k := Some ?e]\<rparr>"
    have fit: "len = LEN_PATH_PREFIX_IGNORED \<or> length path + 1 \<le> ESP_VFS_PATH_MAX" using assms(2) by (auto simp: prefix_len_ok_def)
    have run: "esp_vfs_register_fs_common path len (Some v) flags ctx st = Some ((ESP_OK, Some k), ?st2)"
      using k q Some fit same(2) by (simp add: esp_vfs_register_fs_common_def Let_def flip: st1)
    have "vfs_blocks ?st2 = vfs_blocks st + add_mset a own"
      using sum_update [of k "s_vfs st" entry_blocks "Some ?e"] free by (simp add: vfs_blocks_def same entry_blocks_def own)
    then have "mem_vfs X ?st2" using mem Some by (simp add: mem_vfs_def ac_simps)
    moreover have "tables_kept st ?st2" using same by (simp add: tables_kept_def)
    ultimately show ?thesis using run by simp
  qed
qed

lemma vfs_blocks_heap [simp]: "vfs_blocks (set_heap H st) = vfs_blocks st"
  by (simp add: vfs_blocks_def)

lemma holds_set_heap: "mem_vfs X (set_heap H st) \<longleftrightarrow> holds_blocks (X + vfs_blocks st) H"
  by (simp add: mem_vfs_def vfs_blocks_def)

lemma mem_vfs_more: "mem_vfs (X + ops_blocks v) st \<Longrightarrow> mem_vfs X (set_heap (esp_vfs_free_fs_ops v (vfs_heap st)) st)"
  using holds_free_ops [of "X + vfs_blocks st" v "vfs_heap st"] by (simp add: holds_set_heap mem_vfs_def ac_simps)

lemma mem_register_common:
  assumes "mem_vfs X st" and "prefix_len_ok path len"
  shows "\<exists>err i st'. esp_vfs_register_common path len (Some v) ctx st = Some ((err, i), st') \<and> mem_vfs X st' \<and> tables_kept st st'"
proof (cases "vfs_flags v AND ESP_VFS_FLAG_STATIC \<noteq> 0")
  case True
  then show ?thesis using assms(1) by (simp add: esp_vfs_register_common_def)
next
  case False
  obtain err ops H where make: "esp_vfs_make_fs_ops (Some v) (vfs_heap st) = (err, ops, H)" by (metis prod_cases3)
  note mem = holds_make [OF assms(1) [unfolded mem_vfs_def] make]
  show ?thesis
  proof (cases ops)
    case None
    then show ?thesis using False make mem by (simp add: esp_vfs_register_common_def holds_set_heap)
  next
    case (Some main)
    have "holds_blocks (X + ops_blocks main + vfs_blocks (set_heap H st)) (vfs_heap (set_heap H st))"
      using mem Some by (simp add: vfs_blocks_def ac_simps)
    from holds_register_common [OF this assms(2), of "vfs_flags v" main ctx] False
    obtain err1 i st1 where reg: "esp_vfs_register_fs_common path len (Some main) (vfs_flags v) ctx (set_heap H st) = Some ((err1, i), st1)"
      and len: "tables_kept st st1"
      and mem1: "if err1 = ESP_OK then mem_vfs X st1 else mem_vfs (X + ops_blocks main) st1"
      by auto
    let ?st2 = "if err1 \<noteq> ESP_OK then set_heap (esp_vfs_free_fs_ops main (vfs_heap st1)) st1 else st1"
    have "esp_vfs_register_common path len (Some v) ctx st = Some ((err1, i), ?st2)"
      using False make Some reg by (simp add: esp_vfs_register_common_def)
    moreover have "mem_vfs X ?st2" using mem1 mem_vfs_more by simp
    ultimately show ?thesis using len by simp
  qed
qed

lemma mem_register_fs:
  assumes "mem_vfs X st" and "length path < ESP_VFS_PATH_MAX"
  shows "\<exists>err st'. esp_vfs_register_fs path (Some v) flags ctx st = Some (err, st') \<and> mem_vfs X st' \<and> tables_kept st st'"
proof -
  have path: "prefix_len_ok path (length path)" using assms(2) by (simp add: prefix_len_ok_def)
  show ?thesis
  proof (cases "flags AND ESP_VFS_FLAG_STATIC \<noteq> 0")
    case True
    have "holds_blocks (X + {#} + vfs_blocks st) (vfs_heap st)" using assms(1) by (simp add: mem_vfs_def)
    from holds_register_common [OF this path, of flags v ctx] True show ?thesis
      by (fastforce simp: esp_vfs_register_fs_def split: if_splits)
  next
    case False
    obtain r H where dup: "esp_vfs_duplicate_fs_ops v (vfs_heap st) = (r, H)" by fastforce
    note mem = holds_duplicate [OF assms(1) [unfolded mem_vfs_def] dup]
    show ?thesis
    proof (cases r)
      case None
      then show ?thesis using False dup mem by (simp add: esp_vfs_register_fs_def holds_set_heap)
    next
      case (Some copy)
      have "holds_blocks (X + ops_blocks copy + vfs_blocks (set_heap H st)) (vfs_heap (set_heap H st))"
        using mem Some by (simp add: vfs_blocks_def ac_simps)
      from holds_register_common [OF this path, of flags copy ctx] False
      obtain err1 i st1 where reg: "esp_vfs_register_fs_common path (length path) (Some copy) flags ctx (set_heap H st) = Some ((err1, i), st1)"
        and len: "tables_kept st st1"
        and mem1: "if err1 = ESP_OK then mem_vfs X st1 else mem_vfs (X + ops_blocks copy) st1"
        by auto
      let ?st2 = "if err1 \<noteq> ESP_OK then set_heap (esp_vfs_free_fs_ops copy (vfs_heap st1)) st1 else st1"
      have "esp_vfs_register_fs path (Some v) flags ctx st = Some (err1, ?st2)"
        using False dup Some reg by (simp add: esp_vfs_register_fs_def)
      moreover have "mem_vfs X ?st2" using mem1 mem_vfs_more by simp
      ultimately show ?thesis using len by simp
    qed
  qed
qed

lemma mem_unregister_with_id:
  assumes "mem_vfs X st" and "VFS_MAX_COUNT st \<le> MAX_FDS st"
  shows "\<exists>err st'. esp_vfs_unregister_with_id i st = Some (err, st') \<and> mem_vfs X st' \<and> tables_kept st st'"
proof (cases "i < 0 \<or> int (VFS_MAX_COUNT st) \<le> i \<or> s_vfs st ! nat i = None")
  case True
  then show ?thesis using assms(1) by (auto simp: esp_vfs_unregister_with_id_def split: option.split)
next
  case False
  then obtain e where e: "s_vfs st ! nat i = Some e" and i: "0 \<le> i" "nat i < VFS_MAX_COUNT st" by (auto simp: nat_less_iff)
  let ?st = "st\<lparr>s_vfs := (s_vfs st)[nat i := None], vfs_heap := esp_vfs_free_entry e (vfs_heap st),
               s_fd_table := clear_fds 0 (VFS_MAX_COUNT st) i (s_fd_table st)\<rparr>"
  have "vfs_blocks ?st + entry_blocks (Some e) = vfs_blocks st"
    using sum_update [of "nat i" "s_vfs st" entry_blocks None] i e by (simp add: vfs_blocks_def entry_blocks_def)
  then have "holds_blocks (X + vfs_blocks ?st + entry_blocks (Some e)) (vfs_heap st)"
    using assms(1) by (simp add: mem_vfs_def add.assoc)
  from holds_free_entry [OF this] have "mem_vfs X ?st" by (simp add: mem_vfs_def)
  moreover have "esp_vfs_unregister_with_id i st = Some (ESP_OK, ?st)"
    using assms(2) e i by (auto simp: esp_vfs_unregister_with_id_def nat_less_iff)
  moreover have "tables_kept st ?st" by (simp add: tables_kept_def clear_fds_def)
  ultimately show ?thesis by blast
qed

lemma static_unchanged:
  "(flags OR ESP_VFS_FLAG_READONLY_FS) AND ESP_VFS_FLAG_STATIC = flags AND ESP_VFS_FLAG_STATIC"
  by (simp add: bit.conj_disj_distrib2 ESP_VFS_FLAG_READONLY_FS_def ESP_VFS_FLAG_STATIC_def)

lemma mem_set_readonly:
  assumes "mem_vfs X st" and "s_vfs_count st \<le> VFS_MAX_COUNT st"
  shows "mem_vfs X (snd (esp_vfs_set_readonly_flag path st))"
proof (cases "find_prefix path st")
  case None
  then show ?thesis using assms(1) by (simp add: esp_vfs_set_readonly_flag_def)
next
  case (Some i)
  then have i: "i < VFS_MAX_COUNT st" using assms(2) by (auto simp: find_prefix_def find_Some_iff)
  let ?e = "map_option (\<lambda>e. e\<lparr>entry_flags := entry_flags e OR ESP_VFS_FLAG_READONLY_FS\<rparr>) (s_vfs st ! i)"
  have "entry_blocks ?e = entry_blocks (s_vfs st ! i)"
    by (simp add: entry_blocks_def static_unchanged split: option.split)
  then have "sum_list (map entry_blocks ((s_vfs st)[i := ?e])) = sum_list (map entry_blocks (s_vfs st))"
    using sum_update [OF i, of entry_blocks ?e] by simp
  then show ?thesis using assms(1) Some by (simp add: esp_vfs_set_readonly_flag_def mem_vfs_def vfs_blocks_def)
qed

section \<open>Sessions of registrations\<close>

datatype reg_call =
    Reg "byte list" esp_vfs_t nat | Reg_id esp_vfs_t nat bool | Reg_fs "byte list" esp_vfs_fs_ops_t "32 word" nat
  | Reg_fs_id esp_vfs_fs_ops_t "32 word" nat bool | Unreg "byte list" | Unreg_id int | Read_only "byte list"

fun reg_exec :: "reg_call \<Rightarrow> vfs_state \<Rightarrow> (esp_err_t \<times> vfs_state) option" where
  "reg_exec (Reg path v ctx) st = esp_vfs_register path (Some v) ctx st"
| "reg_exec (Reg_id v ctx has_id) st = map_option (\<lambda>((err, _), st1). (err, st1)) (esp_vfs_register_with_id (Some v) ctx has_id st)"
| "reg_exec (Reg_fs path v flags ctx) st = esp_vfs_register_fs path (Some v) flags ctx st"
| "reg_exec (Reg_fs_id v flags ctx has_id) st =
     map_option (\<lambda>((err, _), st1). (err, st1)) (esp_vfs_register_fs_with_id (Some v) flags ctx has_id st)"
| "reg_exec (Unreg path) st = esp_vfs_unregister path st"
| "reg_exec (Unreg_id i) st = esp_vfs_unregister_with_id i st"
| "reg_exec (Read_only path) st = Some (esp_vfs_set_readonly_flag path st)"

fun reg_session :: "reg_call list \<Rightarrow> vfs_state \<Rightarrow> (esp_err_t list \<times> vfs_state) option" where
  "reg_session [] st = Some ([], st)"
| "reg_session (call # calls) st =
     do {
       (err, st1) \<leftarrow> reg_exec call st;
       (errs, st2) \<leftarrow> reg_session calls st1;
       Some (err # errs, st2)
     }"

text \<open>Prefixes fit into their array, and operations that are registered by identifier are static.\<close>

fun proper_reg :: "reg_call \<Rightarrow> bool" where
  "proper_reg (Reg path v ctx) = (length path < ESP_VFS_PATH_MAX)"
| "proper_reg (Reg_fs path v flags ctx) = (length path < ESP_VFS_PATH_MAX)"
| "proper_reg (Reg_fs_id v flags ctx has_id) = (flags AND ESP_VFS_FLAG_STATIC \<noteq> 0)"
| "proper_reg _ = True"

lemma mem_reg_exec:
  assumes "mem_vfs X st" and "VFS_MAX_COUNT st \<le> MAX_FDS st" and "s_vfs_count st \<le> VFS_MAX_COUNT st" and "proper_reg call"
  shows "\<exists>err st'. reg_exec call st = Some (err, st') \<and> mem_vfs X st' \<and> tables_kept st st'"
proof (cases call)
  case (Reg path v ctx)
  then have "prefix_len_ok path (length path)" using assms(4) by (simp add: prefix_len_ok_def)
  from mem_register_common [OF assms(1) this, of v ctx] show ?thesis by (auto simp: Reg esp_vfs_register_def)
next
  case (Reg_id v ctx has_id)
  have "prefix_len_ok [] LEN_PATH_PREFIX_IGNORED" by (simp add: prefix_len_ok_def)
  from mem_register_common [OF assms(1) this, of v ctx] assms(1) show ?thesis
    by (auto simp: Reg_id esp_vfs_register_with_id_def)
next
  case (Reg_fs path v flags ctx)
  then show ?thesis using mem_register_fs [OF assms(1)] assms(4) by simp
next
  case (Reg_fs_id v flags ctx has_id)
  have len: "prefix_len_ok [] LEN_PATH_PREFIX_IGNORED" by (simp add: prefix_len_ok_def)
  have "holds_blocks (X + {#} + vfs_blocks st) (vfs_heap st)" using assms(1) by (simp add: mem_vfs_def)
  from holds_register_common [OF this len, of flags v ctx] assms(1,4) show ?thesis
    by (fastforce simp: Reg_fs_id esp_vfs_register_fs_with_id_def split: if_splits)
next
  case (Unreg path)
  then show ?thesis
    using mem_unregister_with_id [OF assms(1,2)] assms(1) by (cases "find_prefix path st") (auto simp: esp_vfs_unregister_def)
next
  case (Unreg_id i)
  then show ?thesis using mem_unregister_with_id [OF assms(1,2)] by simp
next
  case (Read_only path)
  have "tables_kept st (snd (esp_vfs_set_readonly_flag path st))"
    by (auto simp: esp_vfs_set_readonly_flag_def tables_kept_def split: option.split)
  then show ?thesis using mem_set_readonly [OF assms(1,3), of path] by (cases "esp_vfs_set_readonly_flag path st") (simp add: Read_only)
qed

lemma mem_reg_session:
  assumes "mem_vfs X st" and "VFS_MAX_COUNT st \<le> MAX_FDS st" and "s_vfs_count st \<le> VFS_MAX_COUNT st" and "\<forall>call \<in> set calls. proper_reg call"
  shows "\<exists>errs st'. reg_session calls st = Some (errs, st') \<and> mem_vfs X st'"
  using assms
proof (induction calls arbitrary: st)
  case Nil
  then show ?case by simp
next
  case (Cons call calls)
  obtain err st1 where step: "reg_exec call st = Some (err, st1)" "mem_vfs X st1" "tables_kept st st1"
    using mem_reg_exec [OF Cons.prems(1-3)] Cons.prems(4) by fastforce
  have "VFS_MAX_COUNT st1 \<le> MAX_FDS st1" "s_vfs_count st1 \<le> VFS_MAX_COUNT st1"
    using step(3) Cons.prems(2,3) by (simp_all add: tables_kept_def)
  from Cons.IH [OF step(2) this] Cons.prems(4) step(1) show ?case by auto
qed

lemma mem_vfs_init:
  assumes "heap_ok H" and "\<not> bad_free H"
  shows "mem_vfs (mset (live H)) (vfs_init max_count max_fds H)"
proof -
  have "sum_list (replicate n {#}) = ({#} :: nat multiset)" for n by (induction n) simp_all
  then show ?thesis using assms by (simp add: mem_vfs_def holds_blocks_def vfs_init_def vfs_blocks_def entry_blocks_def)
qed

end
