(* ===== verification/Vfs_Tables.thy ===== *)
theory Vfs_Tables
  imports Vfs_Memory
begin

text \<open>The tables stay well formed under registrations and removals.\<close>

section \<open>Registration\<close>

lemma prefix_ok_new:
  assumes "\<not> prefix_refused path len" and "prefix_len_ok path len"
  shows "prefix_ok \<lparr>entry_block = a, entry_flags = f, entry_vfs = v, path_prefix = (if len \<noteq> LEN_PATH_PREFIX_IGNORED then path else []),
           path_prefix_len = len, entry_ctx = c, entry_offset = k\<rparr>"
  using assms by (cases path) (auto simp: prefix_ok_def prefix_refused_def prefix_len_ok_def ESP_VFS_PATH_MAX_def LEN_PATH_PREFIX_IGNORED_def Suc_le_eq)

lemma ok_register_fs_common:
  assumes "vfs_ok st" and "prefix_len_ok path len"
    and "esp_vfs_register_fs_common path len v flags ctx st = Some (r, st')"
  shows "vfs_ok st'"
proof (cases "v = None \<or> prefix_refused path len \<or> esp_get_free_index st = None")
  case True
  then have "st' = st" using assms(3) by (auto simp: esp_vfs_register_fs_common_def split: option.splits if_splits)
  then show ?thesis using assms(1) by simp
next
  case False
  then obtain w k where k: "v = Some w" "\<not> prefix_refused path len" "esp_get_free_index st = Some k" by auto
  note bound = free_index_Some [OF k(3) assms(1)]
  obtain st1 where st1: "st1 = (if k = s_vfs_count st then st\<lparr>s_vfs_count := s_vfs_count st + 1\<rparr> else st)" by simp
  have ok1: "vfs_ok st1" "k < s_vfs_count st1" "VFS_MAX_COUNT st1 = VFS_MAX_COUNT st" using assms(1) bound by (fastforce simp: st1 vfs_ok_def)+
  obtain q H where q: "calloc (vfs_heap st1) = (q, H)" by fastforce
  show ?thesis
  proof (cases q)
    case None
    then have "st' = set_heap H st1"
      using assms(3) k q by (simp add: esp_vfs_register_fs_common_def Let_def flip: st1)
    then show ?thesis using ok1 by simp
  next
    case (Some a)
    let ?e = "\<lparr>entry_block = a, entry_flags = flags, entry_vfs = w, path_prefix = (if len \<noteq> LEN_PATH_PREFIX_IGNORED then path else []),
               path_prefix_len = len, entry_ctx = ctx, entry_offset = k\<rparr>"
    have "len = LEN_PATH_PREFIX_IGNORED \<or> length path + 1 \<le> ESP_VFS_PATH_MAX" using assms(2) by (auto simp: prefix_len_ok_def)
    then have "st' = (set_heap H st1)\<lparr>s_vfs := (s_vfs st1)[k := Some ?e]\<rparr>"
      using assms(3) k q Some by (simp add: esp_vfs_register_fs_common_def Let_def flip: st1)
    then show ?thesis using prefix_ok_new [OF k(2) assms(2)] ok1 bound by (auto simp: vfs_ok_def nth_list_update)
  qed
qed

lemma ok_register_common:
  assumes "vfs_ok st" and "prefix_len_ok path len" and "esp_vfs_register_common path len v ctx st = Some (r, st')"
  shows "vfs_ok st'"
proof -
  have "vfs_ok (set_heap H st)" for H using assms(1) by simp
  note common = ok_register_fs_common [OF this assms(2)]
  show ?thesis using assms(1,3)
    by (auto simp: esp_vfs_register_common_def split: option.splits if_splits prod.splits dest: common)
qed

lemma ok_register_fs:
  assumes "vfs_ok st" and "length path < ESP_VFS_PATH_MAX" and "esp_vfs_register_fs path v flags ctx st = Some (r, st')"
  shows "vfs_ok st'"
proof -
  have len: "prefix_len_ok path (length path)" using assms(2) by (simp add: prefix_len_ok_def)
  have "vfs_ok (set_heap H st)" for H using assms(1) by simp
  note common = ok_register_fs_common [OF this len] ok_register_fs_common [OF assms(1) len]
  show ?thesis using assms(1,3)
    by (auto simp: esp_vfs_register_fs_def split: option.splits if_splits prod.splits dest: common)
qed

section \<open>Removal\<close>

lemma updated_at: "xs[i := y] ! j = z \<Longrightarrow> j < length xs \<Longrightarrow> (j = i \<and> y = z) \<or> xs ! j = z"
  by (cases "i < length xs") (auto simp: nth_list_update split: if_splits)

lemma ok_entry:
  assumes "vfs_ok st" and "s_vfs st' = (s_vfs st)[i := y]" and "s_vfs_count st' = s_vfs_count st"
    and "\<forall>e \<in> set (s_fd_table st'). e \<in> set (s_fd_table st) \<or> vfs_index e = - 1"
    and "\<And>v. y = Some v \<Longrightarrow> \<exists>w. s_vfs st ! i = Some w \<and> entry_offset v = entry_offset w \<and> (prefix_ok w \<longrightarrow> prefix_ok v)"
  shows "vfs_ok st'"
proof -
  have "k < s_vfs_count st \<and> entry_offset v = k \<and> prefix_ok v" if "k < VFS_MAX_COUNT st" and "s_vfs st' ! k = Some v" for k v
    using updated_at [of "s_vfs st" i y k "Some v"] that assms(2,5) vfs_okD(2) [OF assms(1), of k] by fastforce
  then show ?thesis using assms(2-4) vfs_okD(1,3) [OF assms(1)] by (auto simp: vfs_ok_def)
qed

lemma ok_clear:
  assumes "vfs_ok st" and "s_vfs st' = (s_vfs st)[i := None]" and "s_vfs_count st' = s_vfs_count st"
    and "s_fd_table st' = clear_fds a b c (s_fd_table st)"
  shows "vfs_ok st'"
  using assms by (intro ok_entry [OF assms(1-3)]) (auto simp: clear_fds_def FD_TABLE_ENTRY_UNUSED_def dest: set_zip_rightD split: if_splits)

lemma ok_unregister_with_id:
  assumes "vfs_ok st" and "esp_vfs_unregister_with_id i st = Some (r, st')"
  shows "vfs_ok st'"
  using assms by (auto simp: esp_vfs_unregister_with_id_def split: option.splits if_splits bind_splits intro: ok_clear)

lemma ok_set_readonly:
  assumes "vfs_ok st"
  shows "vfs_ok (snd (esp_vfs_set_readonly_flag path st))"
proof (cases "find_prefix path st")
  case None
  then show ?thesis using assms by (simp add: esp_vfs_set_readonly_flag_def)
next
  case (Some i)
  show ?thesis
    unfolding esp_vfs_set_readonly_flag_def Some by (rule ok_entry [OF assms]) (auto simp: prefix_ok_def)
qed

lemma ok_reg_exec:
  assumes "vfs_ok st" and "proper_reg call" and "reg_exec call st = Some (err, st')"
  shows "vfs_ok st'"
proof (cases call)
  case (Reg path v ctx)
  then have "prefix_len_ok path (length path)" using assms(2) by (simp add: prefix_len_ok_def)
  from ok_register_common [OF assms(1) this] show ?thesis using assms(3) Reg by (auto simp: esp_vfs_register_def)
next
  case (Reg_id v ctx has_id)
  have "prefix_len_ok [] LEN_PATH_PREFIX_IGNORED" by (simp add: prefix_len_ok_def)
  from ok_register_common [OF assms(1) this] show ?thesis
    using assms(1,3) by (auto simp: Reg_id esp_vfs_register_with_id_def split: if_splits)
next
  case (Reg_fs path v flags ctx)
  then show ?thesis using ok_register_fs [OF assms(1)] assms(2,3) by simp
next
  case (Reg_fs_id v flags ctx has_id)
  have "prefix_len_ok [] LEN_PATH_PREFIX_IGNORED" by (simp add: prefix_len_ok_def)
  from ok_register_fs_common [OF assms(1) this] show ?thesis
    using assms(1,3) by (auto simp: Reg_fs_id esp_vfs_register_fs_with_id_def split: if_splits)
next
  case (Unreg path)
  then show ?thesis
    using assms(1,3) ok_unregister_with_id by (auto simp: esp_vfs_unregister_def split: option.splits)
next
  case (Unreg_id i)
  then show ?thesis using ok_unregister_with_id [OF assms(1)] assms(3) by simp
next
  case (Read_only path)
  then show ?thesis using ok_set_readonly [OF assms(1), of path] assms(3) by simp
qed

lemma ok_reg_session:
  assumes "vfs_ok st" and "\<forall>call \<in> set calls. proper_reg call" and "reg_session calls st = Some (errs, st')"
  shows "vfs_ok st'"
  using assms
proof (induction calls arbitrary: st errs)
  case (Cons call calls)
  then obtain err st1 where step: "reg_exec call st = Some (err, st1)" by (auto split: bind_splits)
  with Cons.prems(3) obtain errs' where rest: "reg_session calls st1 = Some (errs', st')" by (auto split: bind_splits)
  have "vfs_ok st1" using ok_reg_exec [OF Cons.prems(1) _ step] Cons.prems(2) by simp
  from Cons.IH [OF this _ rest] Cons.prems(2) show ?case by simp
qed simp

end
