(* ===== verification/Vfs_Select.thy ===== *)
theory Vfs_Select
  imports Vfs_Calls
begin

text \<open>
  The \<open>select\<close> call of the layer.  The sets of descriptors go to the drivers as sets of local descriptors and
  come back; descriptors of sockets stay together and go to the socket layer.  What drivers, the socket layer
  and other tasks do while the caller waits are parameters.  The log output is not modelled.
\<close>

section \<open>Sets of descriptors\<close>

record fds_triple_t =
  isset :: bool
  readfds :: "nat set"
  writefds :: "nat set"
  errorfds :: "nat set"

text \<open>The three arguments of the caller, which may be null pointers.\<close>

record fd_sets =
  rfds :: "nat set option"
  wfds :: "nat set option"
  efds :: "nat set option"

definition esp_vfs_safe_fd_isset :: "nat \<Rightarrow> nat set option \<Rightarrow> bool" where
  "esp_vfs_safe_fd_isset fd fds = (case fds of None \<Rightarrow> False | Some s \<Rightarrow> fd \<in> s)"

text \<open>\<open>FD_SET\<close> ignores a number that is not below \<open>FD_SETSIZE\<close>.\<close>

definition FD_SET :: "nat \<Rightarrow> nat \<Rightarrow> nat set \<Rightarrow> nat set" where
  "FD_SET max_fds fd s = (if fd < max_fds then insert fd s else s)"

definition FD_CLR :: "nat \<Rightarrow> nat set \<Rightarrow> nat set" where
  "FD_CLR fd s = s - {fd}"

section \<open>What the others do\<close>

text \<open>\<open>ready\<close>: the sets that the driver of an index leaves, when started with these; \<open>socket_layer\<close>: the result and
  the sets of the socket layer; \<open>meanwhile\<close>: what other tasks do during a wait of so many ticks.\<close>

record select_env =
  ready :: "nat \<Rightarrow> fds_triple_t \<Rightarrow> nat set \<times> nat set \<times> nat set"
  socket_layer :: "fd_sets \<Rightarrow> int \<times> fd_sets"
  meanwhile :: "32 word \<Rightarrow> vfs_state \<Rightarrow> vfs_state"

text \<open>\<open>esp_vfs_select_sem_t\<close>: a semaphore of the call, a block of the heap, or the one of the socket layer.\<close>

record esp_vfs_select_sem_t =
  is_sem_local :: bool
  sem :: int

record select_locals =
  vfs_fds_triple :: "fds_triple_t list"
  global_sets :: fd_sets
  socket_select :: "fn option"
  sel_sem :: esp_vfs_select_sem_t

text \<open>A call of a function of the select part; it takes no context.\<close>

definition call_select :: "driver \<Rightarrow> fn \<Rightarrow> vfs_arg list \<Rightarrow> vfs_state \<Rightarrow> int \<times> vfs_state" where
  "call_select drv f args st =
     (let calls = history st @ [\<lparr>call_fn = f, call_ctx = None, call_args = args\<rparr>] in (drv calls, st\<lparr>history := calls\<rparr>))"

definition select_fn :: "vfs_entry_t option \<Rightarrow> select_op \<Rightarrow> fn option" where
  "select_fn v op = do { e \<leftarrow> v; (_, fns) \<leftarrow> fs_select (entry_vfs e); fns op }"

section \<open>Handing the descriptors out\<close>

text \<open>A descriptor moves from a set of the caller to the set of its file system.\<close>

definition move_fd :: "nat \<Rightarrow> nat \<Rightarrow> nat \<Rightarrow> nat set option \<Rightarrow> nat set \<Rightarrow> nat set option \<times> nat set \<times> bool" where
  "move_fd max_fds fd lfd g s =
     (if esp_vfs_safe_fd_isset fd g then (map_option (FD_CLR fd) g, FD_SET max_fds lfd s, True) else (g, s, False))"

definition hand_out :: "nat \<Rightarrow> nat \<Rightarrow> nat \<Rightarrow> fd_sets \<Rightarrow> fds_triple_t \<Rightarrow> fd_sets \<times> fds_triple_t" where
  "hand_out max_fds fd lfd g item =
     (let (r, ir, br) = move_fd max_fds fd lfd (rfds g) (readfds item);
          (w, iw, bw) = move_fd max_fds fd lfd (wfds g) (writefds item);
          (e, ie, be) = move_fd max_fds fd lfd (efds g) (errorfds item)
      in (\<lparr>rfds = r, wfds = w, efds = e\<rparr>,
          \<lparr>isset = isset item \<or> br \<or> bw \<or> be, readfds = ir, writefds = iw, errorfds = ie\<rparr>))"

definition in_any :: "nat \<Rightarrow> fd_sets \<Rightarrow> bool" where
  "in_any fd g \<longleftrightarrow> esp_vfs_safe_fd_isset fd (rfds g) \<or> esp_vfs_safe_fd_isset fd (wfds g) \<or> esp_vfs_safe_fd_isset fd (efds g)"

text \<open>One pass of the first loop.  A null pointer on the way to the functions of the socket layer, and an index
  behind the array of triples, are traps.\<close>

definition select_fd :: "driver \<Rightarrow> nat \<Rightarrow> select_locals \<times> vfs_state \<Rightarrow> (select_locals \<times> vfs_state) option" where
  "select_fd drv fd = (\<lambda>(loc, st).
     let e = s_fd_table st ! fd;
         st1 = (if esp_vfs_safe_fd_isset fd (efds (global_sets loc))
                then st\<lparr>s_fd_table := (s_fd_table st)[fd := e\<lparr>has_pending_select := True\<rparr>]\<rparr> else st)
     in if vfs_index e < 0 then Some (loc, st1)
        else if permanent e then
          if socket_select loc = None \<and> in_any fd (global_sets loc) then do {
            v \<leftarrow> s_vfs st1 ! nat (vfs_index e);
            _ \<leftarrow> fs_select (entry_vfs v);
            f \<leftarrow> select_fn (Some v) Op_get_socket_select_semaphore;
            let (s, st2) = call_select drv f [] st1;
            Some (loc\<lparr>socket_select := select_fn (Some v) Op_socket_select, sel_sem := \<lparr>is_sem_local = False, sem = s\<rparr>\<rparr>, st2)
          }
          else Some (loc, st1)
        else do {
          let i = nat (vfs_index e);
          assert_that (i < length (vfs_fds_triple loc));
          let (g, item) = hand_out (MAX_FDS st) fd (unat (local_fd e)) (global_sets loc) (vfs_fds_triple loc ! i);
          Some (loc\<lparr>global_sets := g, vfs_fds_triple := (vfs_fds_triple loc)[i := item]\<rparr>, st1)
        })"

fun select_fds :: "driver \<Rightarrow> nat list \<Rightarrow> select_locals \<times> vfs_state \<Rightarrow> (select_locals \<times> vfs_state) option" where
  "select_fds drv [] s = Some s"
| "select_fds drv (fd # fds) s = do { s1 \<leftarrow> select_fd drv fd s; select_fds drv fds s1 }"

section \<open>Starting and ending the drivers\<close>

definition end_select :: "driver \<Rightarrow> fds_triple_t list \<Rightarrow> nat \<Rightarrow> vfs_state \<Rightarrow> vfs_state" where
  "end_select drv items i st =
     (case select_fn (get_vfs_for_index (int i) st) Op_end_select of
        None \<Rightarrow> st
      | Some f \<Rightarrow> if isset (items ! i) then snd (call_select drv f [IntArg (int i)] st) else st)"

definition call_end_selects :: "driver \<Rightarrow> nat \<Rightarrow> fds_triple_t list \<Rightarrow> vfs_state \<Rightarrow> vfs_state" where
  "call_end_selects drv end_index items st = fold (end_select drv items) [0..<end_index] st"

text \<open>The local descriptors that are set come back as descriptors; the number of bits set is the result.\<close>

definition give_back :: "nat \<Rightarrow> nat \<Rightarrow> nat set \<Rightarrow> nat set option \<Rightarrow> nat set option \<times> nat" where
  "give_back fd lfd s g =
     (case g of None \<Rightarrow> (None, 0) | Some gs \<Rightarrow> if lfd \<in> s then (Some (insert fd gs), 1) else (Some gs, 0))"

definition back_fd :: "fd_table_t list \<Rightarrow> nat \<Rightarrow> fds_triple_t \<Rightarrow> nat \<Rightarrow> fd_sets \<times> nat \<Rightarrow> fd_sets \<times> nat" where
  "back_fd tab i item fd = (\<lambda>(g, n).
     if vfs_index (tab ! fd) = int i then
       (let lfd = unat (local_fd (tab ! fd));
            (r, a) = give_back fd lfd (readfds item) (rfds g);
            (w, b) = give_back fd lfd (writefds item) (wfds g);
            (e, c) = give_back fd lfd (errorfds item) (efds g)
        in (\<lparr>rfds = r, wfds = w, efds = e\<rparr>, n + a + b + c))
     else (g, n))"

definition set_global_fd_sets :: "fds_triple_t list \<Rightarrow> vfs_state \<Rightarrow> fd_sets \<Rightarrow> fd_sets \<times> nat" where
  "set_global_fd_sets items st g =
     fold (\<lambda>i acc. if isset (items ! i) then fold (back_fd (s_fd_table st) i (items ! i)) [0..<MAX_FDS st] acc else acc)
       [0..<length items] (g, 0)"

definition ESP_OK_VALUE :: int where "ESP_OK_VALUE = 0"
definition ESP_ERR_NOT_SUPPORTED_VALUE :: int where "ESP_ERR_NOT_SUPPORTED_VALUE = 262"

text \<open>The start of the driver at an index; the value is the error, 0 when there is nothing to start.\<close>

definition start_driver ::
  "driver \<Rightarrow> select_env \<Rightarrow> nat \<Rightarrow> nat \<Rightarrow> fds_triple_t list \<times> vfs_state \<Rightarrow> int \<times> fds_triple_t list \<times> vfs_state" where
  "start_driver drv env nfds i = (\<lambda>(items, st).
     case select_fn (get_vfs_for_index (int i) st) Op_start_select of
       None \<Rightarrow> (ESP_OK_VALUE, items, st)
     | Some f \<Rightarrow>
         if \<not> isset (items ! i) then (ESP_OK_VALUE, items, st)
         else let (err, st1) = call_select drv f [IntArg (int nfds), IntArg (int i)] st;
                  (r, w, e) = ready env i (items ! i)
              in (err, items[i := (items ! i)\<lparr>readfds := r, writefds := w, errorfds := e\<rparr>], st1))"

text \<open>The second component is the index at which a start failed, with the error.\<close>

fun start_drivers ::
  "driver \<Rightarrow> select_env \<Rightarrow> nat \<Rightarrow> nat list \<Rightarrow> fds_triple_t list \<times> vfs_state \<Rightarrow> (nat \<times> int) option \<times> fds_triple_t list \<times> vfs_state" where
  "start_drivers drv env nfds [] s = (None, s)"
| "start_drivers drv env nfds (i # idxs) s =
     (let (err, s1) = start_driver drv env nfds i s
      in if err \<noteq> ESP_OK_VALUE then (Some (i, err), s1) else start_drivers drv env nfds idxs s1)"

section \<open>The call\<close>

text \<open>The ticks to wait for a timeout in seconds and microseconds; \<open>period\<close> is \<open>portTICK_PERIOD_MS\<close>.\<close>

definition select_ticks :: "32 word \<Rightarrow> (int \<times> int) option \<Rightarrow> 32 word" where
  "select_ticks period timeout =
     (case timeout of
        None \<Rightarrow> - 1
      | Some (sec, usec) \<Rightarrow>
          let timeout_ms = (of_int (sec * 1000 + usec div 1000) :: 32 word)
          in (timeout_ms + period - 1) div period + 1)"

definition delete_sem :: "esp_vfs_select_sem_t \<Rightarrow> vfs_state \<Rightarrow> vfs_state" where
  "delete_sem s st = (if is_sem_local s then set_heap (heap_free (nat (sem s)) (vfs_heap st)) st else st)"

definition free_block :: "nat \<Rightarrow> vfs_state \<Rightarrow> vfs_state" where
  "free_block a st = set_heap (heap_free a (vfs_heap st)) st"

text \<open>Descriptors that were closed during the call are released.\<close>

definition release_pending :: "nat \<Rightarrow> vfs_state \<Rightarrow> vfs_state" where
  "release_pending nfds st =
     st\<lparr>s_fd_table := map (\<lambda>(fd, e). if fd < nfds \<and> has_pending_close e then FD_TABLE_ENTRY_UNUSED else e)
                        (zip [0..<MAX_FDS st] (s_fd_table st))\<rparr>"

definition no_fds :: fds_triple_t where
  "no_fds = \<lparr>isset = False, readfds = {}, writefds = {}, errorfds = {}\<rparr>"

text \<open>The wait: in the socket layer, or on the semaphore with the sets of the caller emptied.\<close>

definition select_wait ::
  "driver \<Rightarrow> select_env \<Rightarrow> int \<Rightarrow> 32 word \<Rightarrow> select_locals \<Rightarrow> vfs_state \<Rightarrow> int \<times> fd_sets \<times> vfs_state" where
  "select_wait drv env nfds ticks loc st =
     (case socket_select loc of
        Some f \<Rightarrow>
          let (_, st1) = call_select drv f [IntArg nfds] st;
              (ret, g) = socket_layer env (global_sets loc)
          in (ret, g, meanwhile env ticks st1)
      | None \<Rightarrow>
          let g = global_sets loc
          in (0, \<lparr>rfds = map_option (\<lambda>_. {}) (rfds g), wfds = map_option (\<lambda>_. {}) (wfds g), efds = map_option (\<lambda>_. {}) (efds g)\<rparr>,
              meanwhile env ticks st))"

definition esp_vfs_select ::
  "driver \<Rightarrow> select_env \<Rightarrow> 32 word \<Rightarrow> int \<Rightarrow> fd_sets \<Rightarrow> (int \<times> int) option \<Rightarrow> vfs_state \<Rightarrow> (vfs_result \<times> fd_sets \<times> vfs_state) option" where
  "esp_vfs_select drv env period nfds sets timeout st =
     (if int (MAX_FDS st) < nfds \<or> nfds < 0 then Some (Fail EINVAL, sets, st)
      else let vfs_count = s_vfs_count st
      in case calloc (vfs_heap st) of
        (None, H) \<Rightarrow> Some (Fail ENOMEM, sets, set_heap H st)
      | (Some triples, H) \<Rightarrow> do {
          (loc, st1) \<leftarrow> select_fds drv [0..<nat nfds]
            (\<lparr>vfs_fds_triple = replicate vfs_count no_fds, global_sets = sets, socket_select = None,
              sel_sem = \<lparr>is_sem_local = False, sem = 0\<rparr>\<rparr>, set_heap H st);
          let (no_sem, loc1, st2) =
            (if socket_select loc = None
             then (case calloc (vfs_heap st1) of
                     (None, H1) \<Rightarrow> (True, loc, set_heap H1 st1)
                   | (Some a, H1) \<Rightarrow> (False, loc\<lparr>sel_sem := \<lparr>is_sem_local = True, sem = int a\<rparr>\<rparr>, set_heap H1 st1))
             else (False, loc, st1));
          if no_sem then Some (Fail ENOMEM, global_sets loc1, free_block triples st2)
          else case calloc (vfs_heap st2) of
            (None, H2) \<Rightarrow> Some (Fail ENOMEM, global_sets loc1, free_block triples (set_heap H2 st2))
          | (Some args, H2) \<Rightarrow>
              (case start_drivers drv env (nat nfds) [0..<vfs_count] (vfs_fds_triple loc1, set_heap H2 st2) of
                (Some (i, err), items, st3) \<Rightarrow>
                  let st4 = (if err \<noteq> ESP_ERR_NOT_SUPPORTED_VALUE then call_end_selects drv i items st3 else st3);
                      (g, _) = set_global_fd_sets items st4 (global_sets loc1)
                  in Some (Fail EINTR, g, free_block args (free_block triples (delete_sem (sel_sem loc1) st4)))
              | (None, items, st3) \<Rightarrow>
                  let (ret, g, st4) = select_wait drv env nfds (select_ticks period timeout) loc1 st3;
                      st5 = call_end_selects drv vfs_count items st4;
                      (g1, ret1) = (if 0 \<le> ret then let (g', n) = set_global_fd_sets items st5 g in (g', ret + int n) else (g, ret))
                  in Some (Ret ret1, g1, free_block args (free_block triples (release_pending (nat nfds) (delete_sem (sel_sem loc1) st5)))))
        })"

section \<open>Notifications\<close>

text \<open>A notification gives the semaphore of the call, or calls the socket layer through the first file system that
  knows how to stop it.\<close>

datatype notification = Sem_given int | Socket_stopped fn int | Nobody

definition select_notification :: "select_op \<Rightarrow> esp_vfs_select_sem_t \<Rightarrow> vfs_state \<Rightarrow> notification" where
  "select_notification op s st =
     (if is_sem_local s then Sem_given (sem s)
      else case List.find (\<lambda>i. select_fn (s_vfs st ! i) op \<noteq> None) [0..<s_vfs_count st] of
             None \<Rightarrow> Nobody
           | Some i \<Rightarrow> Socket_stopped (the (select_fn (s_vfs st ! i) op)) (sem s))"

definition esp_vfs_select_triggered :: "esp_vfs_select_sem_t \<Rightarrow> vfs_state \<Rightarrow> notification" where
  "esp_vfs_select_triggered = select_notification Op_stop_socket_select"

definition esp_vfs_select_triggered_isr :: "esp_vfs_select_sem_t \<Rightarrow> vfs_state \<Rightarrow> notification" where
  "esp_vfs_select_triggered_isr = select_notification Op_stop_socket_select_isr"

end
