(* ===== verification/Vfs_Ready.thy ===== *)
theory Vfs_Ready
  imports Vfs_Select Vfs_Path
begin

text \<open>
  What \<open>select\<close> returns when no socket takes part: every driver is started with the numbers of its own files,
  and the descriptors of the files that it reports come back.
\<close>

section \<open>Handing out\<close>

definition watched :: "fd_table_t list \<Rightarrow> nat \<Rightarrow> nat \<Rightarrow> nat set option \<Rightarrow> nat set" where
  "watched tab m i S =
     {l. \<exists>fd < m. esp_vfs_safe_fd_isset fd S \<and> vfs_index (tab ! fd) = int i \<and> l = unat (local_fd (tab ! fd)) \<and> l < length tab}"

definition item_at :: "fd_table_t list \<Rightarrow> fd_sets \<Rightarrow> nat \<Rightarrow> nat \<Rightarrow> fds_triple_t" where
  "item_at tab sets m i =
     \<lparr>isset = (\<exists>fd < m. vfs_index (tab ! fd) = int i \<and> in_any fd sets),
      readfds = watched tab m i (rfds sets), writefds = watched tab m i (wfds sets), errorfds = watched tab m i (efds sets)\<rparr>"

definition left_over :: "fd_table_t list \<Rightarrow> nat \<Rightarrow> nat set option \<Rightarrow> nat set option" where
  "left_over tab m S = map_option (\<lambda>s. s - {fd. fd < m \<and> 0 \<le> vfs_index (tab ! fd)}) S"

definition marked :: "nat \<Rightarrow> fd_sets \<Rightarrow> fd_table_t list \<Rightarrow> fd_table_t list" where
  "marked m sets tab =
     map (\<lambda>fd. if fd < m \<and> esp_vfs_safe_fd_isset fd (efds sets) then (tab ! fd)\<lparr>has_pending_select := True\<rparr> else tab ! fd) [0..<length tab]"

lemma length_marked [simp]: "length (marked m sets tab) = length tab"
  by (simp add: marked_def)

lemma marked_nth:
  "fd < length tab \<Longrightarrow>
     marked m sets tab ! fd = (if fd < m \<and> esp_vfs_safe_fd_isset fd (efds sets) then (tab ! fd)\<lparr>has_pending_select := True\<rparr> else tab ! fd)"
  by (simp add: marked_def)

lemma marked_same:
  assumes "fd < length tab"
  shows "vfs_index (marked m sets tab ! fd) = vfs_index (tab ! fd)" "local_fd (marked m sets tab ! fd) = local_fd (tab ! fd)"
    "permanent (marked m sets tab ! fd) = permanent (tab ! fd)" "has_pending_close (marked m sets tab ! fd) = has_pending_close (tab ! fd)"
  using assms by (simp_all add: marked_nth)

lemma marked_0 [simp]: "marked 0 sets tab = tab"
  by (simp add: marked_def map_nth)

lemma marked_Suc:
  assumes "m < length tab"
  shows "marked (Suc m) sets tab =
    (if esp_vfs_safe_fd_isset m (efds sets) then (marked m sets tab)[m := (marked m sets tab ! m)\<lparr>has_pending_select := True\<rparr>]
     else marked m sets tab)"
  using assms by (intro nth_equalityI) (auto simp: marked_nth nth_list_update less_Suc_eq)

text \<open>The locals of the call after \<open>m\<close> descriptors.\<close>

definition handed :: "fd_table_t list \<Rightarrow> nat \<Rightarrow> fd_sets \<Rightarrow> nat \<Rightarrow> select_locals" where
  "handed tab vfs_count sets m =
     \<lparr>vfs_fds_triple = map (item_at tab sets m) [0..<vfs_count],
      global_sets = \<lparr>rfds = left_over tab m (rfds sets), wfds = left_over tab m (wfds sets), efds = left_over tab m (efds sets)\<rparr>,
      socket_select = None, sel_sem = \<lparr>is_sem_local = False, sem = 0\<rparr>\<rparr>"

lemma left_over_isset: "esp_vfs_safe_fd_isset m (left_over tab m S) \<longleftrightarrow> esp_vfs_safe_fd_isset m S"
  by (simp add: esp_vfs_safe_fd_isset_def left_over_def split: option.split)

lemma move_fd_watched:
  assumes "vfs_index (tab ! m) = int i"
  shows "move_fd (length tab) m (unat (local_fd (tab ! m))) (left_over tab m S) (watched tab m i S) =
           (left_over tab (Suc m) S, watched tab (Suc m) i S, esp_vfs_safe_fd_isset m S)"
proof (cases "esp_vfs_safe_fd_isset m S")
  case True
  then have "watched tab (Suc m) i S =
      (if unat (local_fd (tab ! m)) < length tab then insert (unat (local_fd (tab ! m))) (watched tab m i S) else watched tab m i S)"
    using assms by (auto simp: watched_def less_Suc_eq)
  moreover have "left_over tab (Suc m) S = map_option (FD_CLR m) (left_over tab m S)"
    using assms by (cases S) (auto simp: left_over_def FD_CLR_def less_Suc_eq)
  ultimately show ?thesis using True by (simp add: move_fd_def left_over_isset FD_SET_def)
next
  case False
  then have "watched tab (Suc m) i S = watched tab m i S" by (auto simp: watched_def less_Suc_eq)
  moreover have "left_over tab (Suc m) S = left_over tab m S"
    using False by (cases S) (auto simp: left_over_def esp_vfs_safe_fd_isset_def less_Suc_eq)
  ultimately show ?thesis using False by (simp add: move_fd_def left_over_isset)
qed

lemma watched_other: "vfs_index (tab ! m) \<noteq> int i \<Longrightarrow> watched tab (Suc m) i S = watched tab m i S"
  by (auto simp: watched_def less_Suc_eq)

lemma item_other: "vfs_index (tab ! m) \<noteq> int i \<Longrightarrow> item_at tab sets (Suc m) i = item_at tab sets m i"
  by (auto simp: item_at_def watched_other less_Suc_eq)

lemma left_over_unused: "vfs_index (tab ! m) < 0 \<Longrightarrow> left_over tab (Suc m) S = left_over tab m S"
  by (cases S) (auto simp: left_over_def less_Suc_eq)

lemma isset_handed:
  "esp_vfs_safe_fd_isset m (efds (global_sets (handed tab vfs_count sets m))) \<longleftrightarrow> esp_vfs_safe_fd_isset m (efds sets)"
  by (simp add: handed_def left_over_isset)

text \<open>One descriptor.\<close>

lemma select_fd_handed:
  assumes "vfs_ok st" and "m < MAX_FDS st" and "\<not> permanent (s_fd_table st ! m)"
  shows "select_fd drv m (handed (s_fd_table st) (s_vfs_count st) sets m, st\<lparr>s_fd_table := marked m sets (s_fd_table st)\<rparr>) =
           Some (handed (s_fd_table st) (s_vfs_count st) sets (Suc m), st\<lparr>s_fd_table := marked (Suc m) sets (s_fd_table st)\<rparr>)"
proof -
  let ?tab = "s_fd_table st"
  note same = marked_same [OF assms(2), of m sets]
  show ?thesis
  proof (cases "vfs_index (?tab ! m) < 0")
    case True
    then have "handed ?tab (s_vfs_count st) sets (Suc m) = handed ?tab (s_vfs_count st) sets m"
      by (simp add: handed_def item_other left_over_unused)
    then show ?thesis using True same by (simp add: select_fd_def Let_def isset_handed marked_Suc [OF assms(2)])
  next
    case False
    then obtain i where i: "vfs_index (?tab ! m) = int i" by (metis int_nat_eq not_less)
    have count: "i < s_vfs_count st"
      using vfs_okD(3) [OF assms(1), of "?tab ! m"] assms(2) i by simp
    have out: "hand_out (MAX_FDS st) m (unat (local_fd (?tab ! m)))
        (global_sets (handed ?tab (s_vfs_count st) sets m)) (item_at ?tab sets m i) =
        (global_sets (handed ?tab (s_vfs_count st) sets (Suc m)), item_at ?tab sets (Suc m) i)"
      using i by (auto simp: hand_out_def handed_def item_at_def move_fd_watched in_any_def less_Suc_eq)
    have items: "(map (item_at ?tab sets m) [0..<s_vfs_count st])[i := item_at ?tab sets (Suc m) i] = map (item_at ?tab sets (Suc m)) [0..<s_vfs_count st]"
    proof (rule nth_equalityI)
      fix k
      assume "k < length ((map (item_at ?tab sets m) [0..<s_vfs_count st])[i := item_at ?tab sets (Suc m) i])"
      then show "(map (item_at ?tab sets m) [0..<s_vfs_count st])[i := item_at ?tab sets (Suc m) i] ! k =
          map (item_at ?tab sets (Suc m)) [0..<s_vfs_count st] ! k"
        using i by (cases "k = i") (simp_all add: item_other)
    qed simp
    have nxt: "(handed ?tab (s_vfs_count st) sets m)\<lparr>global_sets := global_sets (handed ?tab (s_vfs_count st) sets (Suc m)),
        vfs_fds_triple := (map (item_at ?tab sets m) [0..<s_vfs_count st])[i := item_at ?tab sets (Suc m) i]\<rparr> =
        handed ?tab (s_vfs_count st) sets (Suc m)"
      unfolding items by (simp add: handed_def)
    have triple: "vfs_fds_triple (handed ?tab (s_vfs_count st) sets m) = map (item_at ?tab sets m) [0..<s_vfs_count st]"
      by (simp add: handed_def)
    show ?thesis
      using same i count assms(3) out nxt by (simp add: select_fd_def Let_def triple isset_handed marked_Suc [OF assms(2)])
  qed
qed

lemma select_fds_append: "select_fds drv (xs @ ys) s = do { s1 \<leftarrow> select_fds drv xs s; select_fds drv ys s1 }"
proof (induction xs arbitrary: s)
  case (Cons a xs)
  then show ?case by (cases "select_fd drv a s") simp_all
qed simp

lemma select_fds_handed:
  assumes "vfs_ok st" and "m \<le> MAX_FDS st" and "\<forall>fd < m. \<not> permanent (s_fd_table st ! fd)"
  shows "select_fds drv [0..<m] (handed (s_fd_table st) (s_vfs_count st) sets 0, st) =
           Some (handed (s_fd_table st) (s_vfs_count st) sets m, st\<lparr>s_fd_table := marked m sets (s_fd_table st)\<rparr>)"
  using assms(2,3)
proof (induction m)
  case 0
  then show ?case by simp
next
  case (Suc m)
  then show ?case using select_fd_handed [OF assms(1), of m drv sets] by (simp add: select_fds_append)
qed

section \<open>Starting and ending\<close>

text \<open>The sets of an index after its driver ran.\<close>

definition ran_item :: "select_env \<Rightarrow> vfs_state \<Rightarrow> nat \<Rightarrow> fds_triple_t \<Rightarrow> fds_triple_t" where
  "ran_item env st i item =
     (if isset item \<and> select_fn (get_vfs_for_index (int i) st) Op_start_select \<noteq> None
      then (let (r, w, e) = ready env i item in item\<lparr>readfds := r, writefds := w, errorfds := e\<rparr>) else item)"

lemma ran_item_history [simp]: "ran_item env (st\<lparr>history := h\<rparr>) = ran_item env st"
  by (simp add: ran_item_def get_vfs_for_index_def fun_eq_iff)

lemma isset_ran [simp]: "isset (ran_item env st i item) = isset item"
  by (simp add: ran_item_def split: prod.split)

lemma start_driver_ran:
  assumes "\<forall>h. drv h = ESP_OK_VALUE" and "i < length items"
  shows "\<exists>h. start_driver drv env n i (items, st) = (ESP_OK_VALUE, items[i := ran_item env st i (items ! i)], st\<lparr>history := h\<rparr>)"
proof (cases "select_fn (get_vfs_for_index (int i) st) Op_start_select")
  case None
  then have "start_driver drv env n i (items, st) = (ESP_OK_VALUE, items[i := ran_item env st i (items ! i)], st\<lparr>history := history st\<rparr>)"
    by (simp add: start_driver_def ran_item_def)
  then show ?thesis by blast
next
  case (Some f)
  show ?thesis
  proof (cases "isset (items ! i)")
    case True
    then show ?thesis
      using Some assms(1) by (simp add: start_driver_def ran_item_def call_select_def Let_def split: prod.split) blast
  next
    case False
    then have "start_driver drv env n i (items, st) = (ESP_OK_VALUE, items[i := ran_item env st i (items ! i)], st\<lparr>history := history st\<rparr>)"
      using Some by (simp add: start_driver_def ran_item_def)
    then show ?thesis by blast
  qed
qed

lemma start_drivers_append:
  "start_drivers drv env n (xs @ ys) s =
     (case start_drivers drv env n xs s of (None, s1) \<Rightarrow> start_drivers drv env n ys s1 | (Some e, s1) \<Rightarrow> (Some e, s1))"
  by (induction xs arbitrary: s) (auto simp: Let_def split: prod.split option.split)

lemma start_drivers_ran:
  assumes "\<forall>h. drv h = ESP_OK_VALUE" and "k \<le> length items"
  shows "\<exists>h. start_drivers drv env n [0..<k] (items, st) =
           (None, map (\<lambda>i. if i < k then ran_item env st i (items ! i) else items ! i) [0..<length items], st\<lparr>history := h\<rparr>)"
  using assms(2)
proof (induction k)
  case 0
  have "start_drivers drv env n [0..<0] (items, st) =
      (None, map (\<lambda>i. if i < 0 then ran_item env st i (items ! i) else items ! i) [0..<length items], st\<lparr>history := history st\<rparr>)"
    by (simp add: map_nth)
  then show ?case by blast
next
  case (Suc k)
  let ?items = "map (\<lambda>i. if i < k then ran_item env st i (items ! i) else items ! i) [0..<length items]"
  obtain h where IH: "start_drivers drv env n [0..<k] (items, st) = (None, ?items, st\<lparr>history := h\<rparr>)" using Suc by auto
  obtain h' where step: "start_driver drv env n k (?items, st\<lparr>history := h\<rparr>) =
      (ESP_OK_VALUE, ?items[k := ran_item env (st\<lparr>history := h\<rparr>) k (?items ! k)], st\<lparr>history := h\<rparr>\<lparr>history := h'\<rparr>)"
    using start_driver_ran [OF assms(1), of k ?items env n "st\<lparr>history := h\<rparr>"] Suc.prems by auto
  have "?items[k := ran_item env (st\<lparr>history := h\<rparr>) k (?items ! k)] =
      map (\<lambda>i. if i < Suc k then ran_item env st i (items ! i) else items ! i) [0..<length items]"
    using Suc.prems by (intro nth_equalityI) (auto simp: nth_list_update less_Suc_eq)
  then show ?case using IH step by (simp add: start_drivers_append) blast
qed

lemma end_select_history: "\<exists>h. end_select drv items i st = st\<lparr>history := h\<rparr>"
proof (cases "\<exists>f. select_fn (get_vfs_for_index (int i) st) Op_end_select = Some f \<and> isset (items ! i)")
  case True
  then show ?thesis by (auto simp: end_select_def call_select_def Let_def)
next
  case False
  then have "end_select drv items i st = st\<lparr>history := history st\<rparr>" by (auto simp: end_select_def split: option.split)
  then show ?thesis by blast
qed

lemma call_end_selects_history: "\<exists>h. call_end_selects drv k items st = st\<lparr>history := h\<rparr>"
proof (induction k)
  case 0
  have "call_end_selects drv 0 items st = st\<lparr>history := history st\<rparr>" by (simp add: call_end_selects_def)
  then show ?case by blast
next
  case (Suc k)
  then obtain h where h: "call_end_selects drv k items st = st\<lparr>history := h\<rparr>" by blast
  obtain h' where "end_select drv items k (st\<lparr>history := h\<rparr>) = st\<lparr>history := h\<rparr>\<lparr>history := h'\<rparr>" using end_select_history by blast
  then show ?case using h by (auto simp: call_end_selects_def)
qed

section \<open>Coming back\<close>

text \<open>Descriptors below \<open>max_fds\<close> whose file is reported by the driver of an index below \<open>i\<close>, or by \<open>i\<close> and below \<open>k\<close>.\<close>

definition reported :: "fd_table_t list \<Rightarrow> (nat \<Rightarrow> nat \<Rightarrow> bool) \<Rightarrow> nat \<Rightarrow> nat \<Rightarrow> nat set" where
  "reported tab has i k =
     {fd. fd < length tab \<and> (\<exists>j. vfs_index (tab ! fd) = int j \<and> (j < i \<or> (j = i \<and> fd < k)) \<and> has j (unat (local_fd (tab ! fd))))}"

definition bits :: "nat set option \<Rightarrow> nat set \<Rightarrow> nat" where
  "bits g s = (case g of None \<Rightarrow> 0 | Some _ \<Rightarrow> card s)"

lemma finite_reported [simp]: "finite (reported tab has i k)"
  by (rule finite_subset [of _ "{..<length tab}"]) (auto simp: reported_def)

lemma reported_0 [simp]: "reported tab has 0 0 = {}"
  by (auto simp: reported_def)

lemma reported_next: "reported tab has i (length tab) = reported tab has (Suc i) 0"
  by (auto simp: reported_def less_Suc_eq)

lemma reported_skip: "vfs_index (tab ! k) \<noteq> int i \<Longrightarrow> reported tab has i (Suc k) = reported tab has i k"
  by (auto simp: reported_def less_Suc_eq)

lemma reported_idle: "\<forall>l. \<not> has i l \<Longrightarrow> reported tab has (Suc i) 0 = reported tab has i 0"
  by (auto simp: reported_def less_Suc_eq)

lemma reported_step:
  assumes "k < length tab" and "vfs_index (tab ! k) = int i"
  shows "reported tab has i (Suc k) = (if has i (unat (local_fd (tab ! k))) then insert k (reported tab has i k) else reported tab has i k)"
    and "k \<notin> reported tab has i k"
  using assms by (auto simp: reported_def less_Suc_eq)

lemma give_back_reported:
  assumes "k < length tab" and "vfs_index (tab ! k) = int i" and "\<forall>l. has i l \<longleftrightarrow> l \<in> s"
  shows "give_back k (unat (local_fd (tab ! k))) s (map_option (\<lambda>_. reported tab has i k) g) =
           (map_option (\<lambda>_. reported tab has i (Suc k)) g, bits g (reported tab has i (Suc k)) - bits g (reported tab has i k))"
    and "bits g (reported tab has i k) \<le> bits g (reported tab has i (Suc k))"
proof -
  note step = reported_step [OF assms(1,2), of has]
  show "give_back k (unat (local_fd (tab ! k))) s (map_option (\<lambda>_. reported tab has i k) g) =
           (map_option (\<lambda>_. reported tab has i (Suc k)) g, bits g (reported tab has i (Suc k)) - bits g (reported tab has i k))"
    using step assms(3) by (cases g) (simp_all add: give_back_def bits_def)
  show "bits g (reported tab has i k) \<le> bits g (reported tab has i (Suc k))"
    using step by (cases g) (simp_all add: bits_def)
qed

text \<open>Whether a local descriptor is in a set of the drivers, for one of the three sets.\<close>

definition has_local :: "fds_triple_t list \<Rightarrow> (fds_triple_t \<Rightarrow> nat set) \<Rightarrow> nat \<Rightarrow> nat \<Rightarrow> bool" where
  "has_local items sel j l \<longleftrightarrow> j < length items \<and> isset (items ! j) \<and> l \<in> sel (items ! j)"

definition back_at :: "fd_table_t list \<Rightarrow> fds_triple_t list \<Rightarrow> fd_sets \<Rightarrow> nat \<Rightarrow> nat \<Rightarrow> fd_sets \<times> nat" where
  "back_at tab items g i k =
     (let r = reported tab (has_local items readfds) i k; w = reported tab (has_local items writefds) i k;
          e = reported tab (has_local items errorfds) i k
      in (\<lparr>rfds = map_option (\<lambda>_. r) (rfds g), wfds = map_option (\<lambda>_. w) (wfds g), efds = map_option (\<lambda>_. e) (efds g)\<rparr>,
          bits (rfds g) r + bits (wfds g) w + bits (efds g) e))"

lemma back_fd_at:
  assumes "k < length tab" and "i < length items" and "isset (items ! i)"
  shows "back_fd tab i (items ! i) k (back_at tab items g i k) = back_at tab items g i (Suc k)"
proof (cases "vfs_index (tab ! k) = int i")
  case True
  have given: "give_back k (unat (local_fd (tab ! k))) (sel (items ! i)) (map_option (\<lambda>_. reported tab (has_local items sel) i k) s) =
        (map_option (\<lambda>_. reported tab (has_local items sel) i (Suc k)) s,
         bits s (reported tab (has_local items sel) i (Suc k)) - bits s (reported tab (has_local items sel) i k))"
      "bits s (reported tab (has_local items sel) i k) \<le> bits s (reported tab (has_local items sel) i (Suc k))" for sel s
    using assms give_back_reported [OF assms(1) True, of "has_local items sel" "sel (items ! i)" s] by (simp_all add: has_local_def)
  show ?thesis using True given(1) [of readfds "rfds g"] given(1) [of writefds "wfds g"] given(1) [of errorfds "efds g"]
      given(2) [of "rfds g" readfds] given(2) [of "wfds g" writefds] given(2) [of "efds g" errorfds]
    by (simp add: back_fd_def back_at_def Let_def)
next
  case False
  then show ?thesis by (simp add: back_fd_def back_at_def reported_skip Let_def)
qed

lemma back_fds_at:
  assumes "i < length items" and "isset (items ! i)" and "k \<le> length tab"
  shows "fold (back_fd tab i (items ! i)) [0..<k] (back_at tab items g i 0) = back_at tab items g i k"
  using assms(3)
proof (induction k)
  case (Suc k)
  then show ?case using back_fd_at [of k tab i items g] assms(1,2) by simp
qed simp

lemma back_at_next:
  assumes "i < length items"
  shows "(if isset (items ! i) then fold (back_fd tab i (items ! i)) [0..<length tab] (back_at tab items g i 0) else back_at tab items g i 0) =
           back_at tab items g (Suc i) 0"
proof (cases "isset (items ! i)")
  case True
  then show ?thesis using assms by (simp add: back_fds_at) (simp add: back_at_def reported_next)
next
  case False
  then have "reported tab (has_local items sel) (Suc i) 0 = reported tab (has_local items sel) i 0" for sel
    by (intro reported_idle) (simp add: has_local_def)
  then show ?thesis using False by (simp add: back_at_def)
qed

text \<open>Everything that came back, when the sets of the caller were empty.\<close>

lemma set_global_fd_sets_at:
  "set_global_fd_sets items st \<lparr>rfds = map_option (\<lambda>_. {}) (rfds g), wfds = map_option (\<lambda>_. {}) (wfds g), efds = map_option (\<lambda>_. {}) (efds g)\<rparr> =
     back_at (s_fd_table st) items g (length items) 0"
proof -
  let ?step = "\<lambda>i acc. if isset (items ! i) then fold (back_fd (s_fd_table st) i (items ! i)) [0..<MAX_FDS st] acc else acc"
  have "fold ?step [0..<k] (back_at (s_fd_table st) items g 0 0) = back_at (s_fd_table st) items g k 0" if "k \<le> length items" for k
    using that
  proof (induction k)
    case (Suc k)
    then show ?case using back_at_next [of k items "s_fd_table st" g] by (simp cong: if_cong)
  qed simp
  moreover have "back_at (s_fd_table st) items g 0 0 =
      (\<lparr>rfds = map_option (\<lambda>_. {}) (rfds g), wfds = map_option (\<lambda>_. {}) (wfds g), efds = map_option (\<lambda>_. {}) (efds g)\<rparr>, 0)"
    by (auto simp: back_at_def Let_def bits_def split: option.split)
  ultimately show ?thesis by (simp add: set_global_fd_sets_def)
qed

section \<open>The whole call\<close>

text \<open>The sets that the drivers leave, and the descriptors that come back for one of the three sets.\<close>

definition answers :: "select_env \<Rightarrow> vfs_state \<Rightarrow> nat \<Rightarrow> fd_sets \<Rightarrow> fds_triple_t list" where
  "answers env st m sets = map (\<lambda>i. ran_item env st i (item_at (s_fd_table st) sets m i)) [0..<s_vfs_count st]"

definition reported_fds :: "vfs_state \<Rightarrow> fds_triple_t list \<Rightarrow> (fds_triple_t \<Rightarrow> nat set) \<Rightarrow> nat set" where
  "reported_fds st items sel =
     {fd. fd < MAX_FDS st \<and> (\<exists>i < length items. vfs_index (s_fd_table st ! fd) = int i \<and> isset (items ! i) \<and>
        unat (local_fd (s_fd_table st ! fd)) \<in> sel (items ! i))}"

lemma reported_all:
  assumes "\<forall>fd < MAX_FDS st. vfs_index (tab ! fd) = vfs_index (s_fd_table st ! fd) \<and> local_fd (tab ! fd) = local_fd (s_fd_table st ! fd)"
    and "length tab = MAX_FDS st"
  shows "reported tab (has_local items sel) (length items) 0 = reported_fds st items sel"
  using assms by (auto simp: reported_def reported_fds_def has_local_def)

lemma start_drivers_handed:
  assumes "\<forall>h. drv h = ESP_OK_VALUE"
  shows "\<exists>h. start_drivers drv env n [0..<s_vfs_count st] (map (item_at (s_fd_table st) sets m) [0..<s_vfs_count st], st') =
           (None, map (\<lambda>i. ran_item env st' i (item_at (s_fd_table st) sets m i)) [0..<s_vfs_count st], st'\<lparr>history := h\<rparr>)"
proof -
  let ?items = "map (item_at (s_fd_table st) sets m) [0..<s_vfs_count st]"
  obtain h where "start_drivers drv env n [0..<s_vfs_count st] (?items, st') =
      (None, map (\<lambda>i. if i < s_vfs_count st then ran_item env st' i (?items ! i) else ?items ! i) [0..<length ?items], st'\<lparr>history := h\<rparr>)"
    using start_drivers_ran [OF assms, of "s_vfs_count st" ?items env n st'] by auto
  then show ?thesis by (intro exI [of _ h]) simp
qed

lemma ran_item_vfs: "s_vfs st' = s_vfs st \<Longrightarrow> s_vfs_count st' = s_vfs_count st \<Longrightarrow> ran_item env st' = ran_item env st"
  by (simp add: ran_item_def get_vfs_for_index_def fun_eq_iff)

lemma calloc_plenty: "allocs H = [] \<Longrightarrow> \<exists>a H'. calloc H = (Some a, H') \<and> allocs H' = []"
  by (simp add: calloc_def)

lemma handed_0:
  "handed tab vfs_count sets 0 =
     \<lparr>vfs_fds_triple = replicate vfs_count no_fds, global_sets = sets, socket_select = None, sel_sem = \<lparr>is_sem_local = False, sem = 0\<rparr>\<rparr>"
proof -
  have none: "left_over tab 0 S = S" for S by (cases S) (simp_all add: left_over_def)
  have "item_at tab sets 0 = (\<lambda>_. no_fds)" by (simp add: item_at_def no_fds_def watched_def fun_eq_iff)
  then show ?thesis by (simp add: handed_def none map_replicate_const)
qed

lemma select_reports:
  assumes "vfs_ok st" and "0 < s_vfs_count st" and "0 \<le> nfds" "nfds \<le> int (MAX_FDS st)" and "\<forall>fd < nat nfds. \<not> permanent (s_fd_table st ! fd)"
    and "allocs (vfs_heap st) = []" and "\<forall>h. drv h = ESP_OK_VALUE" and "heap_ok (vfs_heap st)"
    and "\<forall>ticks st. s_fd_table (meanwhile env ticks st) = s_fd_table st \<and> vfs_heap (meanwhile env ticks st) = vfs_heap st"
    and "items = answers env st (nat nfds) sets"
    and "r = reported_fds st items readfds" "w = reported_fds st items writefds" "e = reported_fds st items errorfds"
  shows "\<exists>st'. esp_vfs_select drv env period nfds sets timeout st =
           Some (Ret (int (bits (rfds sets) r + bits (wfds sets) w + bits (efds sets) e)),
                 \<lparr>rfds = map_option (\<lambda>_. r) (rfds sets), wfds = map_option (\<lambda>_. w) (wfds sets), efds = map_option (\<lambda>_. e) (efds sets)\<rparr>, st') \<and>
    s_fd_table st' = s_fd_table (release_pending (nat nfds) (st\<lparr>s_fd_table := marked (nat nfds) sets (s_fd_table st)\<rparr>)) \<and>
    mset (live (vfs_heap st')) = mset (live (vfs_heap st)) \<and> bad_free (vfs_heap st') = bad_free (vfs_heap st)"
proof -
  let ?n = "nat nfds"
  let ?tab = "s_fd_table st"
  let ?mtab = "marked ?n sets ?tab"
  let ?empty = "\<lparr>rfds = map_option (\<lambda>_. {}) (rfds sets), wfds = map_option (\<lambda>_. {}) (wfds sets), efds = map_option (\<lambda>_. {}) (efds sets)\<rparr>"
  obtain a H1 where a: "calloc (vfs_heap st) = (Some a, H1)" "allocs H1 = []" using calloc_plenty [OF assms(6)] by blast
  obtain b H2 where b: "calloc H1 = (Some b, H2)" "allocs H2 = []" using calloc_plenty [OF a(2)] by blast
  obtain c H3 where c: "calloc H2 = (Some c, H3)" using calloc_plenty [OF b(2)] by blast
  obtain st1 where st1: "st1 = (set_heap H1 st)\<lparr>s_fd_table := ?mtab\<rparr>" by simp
  have fds: "select_fds drv [0..<?n] (\<lparr>vfs_fds_triple = replicate (s_vfs_count st) no_fds, global_sets = sets, socket_select = None,
      sel_sem = \<lparr>is_sem_local = False, sem = 0\<rparr>\<rparr>, set_heap H1 st) = Some (handed ?tab (s_vfs_count st) sets ?n, st1)"
    using select_fds_handed [of "set_heap H1 st" ?n drv sets] assms(1,3-5) by (simp add: handed_0 st1)
  have ran: "ran_item env (set_heap H3 st1) = ran_item env st" by (rule ran_item_vfs) (simp_all add: st1)
  obtain h where start: "start_drivers drv env ?n [0..<s_vfs_count st] (map (item_at ?tab sets ?n) [0..<s_vfs_count st], set_heap H3 st1) =
      (None, items, (set_heap H3 st1)\<lparr>history := h\<rparr>)"
    using start_drivers_handed [OF assms(7), of env ?n st sets ?n "set_heap H3 st1"] by (auto simp: ran assms(10) answers_def)
  obtain st4 where st4: "st4 = meanwhile env (select_ticks period timeout) ((set_heap H3 st1)\<lparr>history := h\<rparr>)" by simp
  obtain h' where ends: "call_end_selects drv (s_vfs_count st) items st4 = st4\<lparr>history := h'\<rparr>" using call_end_selects_history by blast
  have tab4: "s_fd_table st4 = ?mtab" using assms(9) by (simp add: st4 st1)
  have all: "reported ?mtab (has_local items sel) (length items) 0 = reported_fds st items sel" for sel
    by (rule reported_all) (simp_all add: marked_same)
  have given: "set_global_fd_sets items (st4\<lparr>history := h'\<rparr>) ?empty =
      (\<lparr>rfds = map_option (\<lambda>_. r) (rfds sets), wfds = map_option (\<lambda>_. w) (wfds sets), efds = map_option (\<lambda>_. e) (efds sets)\<rparr>,
       bits (rfds sets) r + bits (wfds sets) w + bits (efds sets) e)"
    unfolding set_global_fd_sets_at by (simp add: tab4 back_at_def all assms(11-13) Let_def)
  have waits: "select_wait drv env nfds (select_ticks period timeout)
      (handed ?tab (s_vfs_count st) sets ?n\<lparr>sel_sem := \<lparr>is_sem_local = True, sem = int b\<rparr>\<rparr>) ((set_heap H3 st1)\<lparr>history := h\<rparr>) = (0, ?empty, st4)"
    by (simp add: select_wait_def handed_def left_over_def option.map_comp comp_def st4)
  have range: "\<not> (int (MAX_FDS st) < nfds \<or> nfds < 0)" using assms(3,4) by linarith
  have heap1: "vfs_heap st1 = H1" by (simp add: st1)
  have locals: "vfs_fds_triple (handed ?tab (s_vfs_count st) sets ?n) = map (item_at ?tab sets ?n) [0..<s_vfs_count st]"
      "socket_select (handed ?tab (s_vfs_count st) sets ?n) = None" by (simp_all add: handed_def)
  have heap4: "vfs_heap st4 = H3" using assms(9) by (simp add: st4)
  note parts = calloc_Some [OF a(1)] calloc_Some [OF b(1)] calloc_Some [OF c]
  have "heap_ok H1" "heap_ok H2" using parts assms(8) by blast+
  then have differ: "a \<noteq> b" "a \<noteq> c" "b \<noteq> c" using parts by auto
  show ?thesis
    using parts differ
    by (simp add: esp_vfs_select_def range Let_def a b c fds heap1 locals start waits ends given release_pending_def tab4 heap4
        delete_sem_def free_block_def)
qed

end
