(* ===== verification/Vfs_Props.thy ===== *)
theory Vfs_Props
  imports Vfs_Refine Vfs_Tables Vfs_Ready
begin

text \<open>The properties of the virtual file system layer, and its defects on concrete states.\<close>

section \<open>System calls\<close>

text \<open>C25: System calls follow the specification.  From the empty tables, any sequence of mounts and calls on
  paths and descriptors, with failing allocations and full tables, runs without a trap; each call does one
  step of the specification on the map of mounts and the map of open files: a path goes to the longest prefix
  that serves it, a new file takes the smallest free descriptor, and a call on a descriptor reaches the
  function of its own file system with the number that this gave the file.  The paths of mounts fit into the
  array of the table.\<close>

theorem system_calls_follow_the_specification:
  assumes "\<forall>call \<in> set calls. proper_call call"
  shows "\<exists>outs st'. vfs_session drv calls (vfs_init max_count max_fds H) = Some (outs, st') \<and>
           vfs_steps drv max_fds \<lparr>mounts = \<lambda>_. None, files = \<lambda>_. None, driver_calls = []\<rparr> calls outs (abs_vfs st')"
proof -
  have "abs_vfs (vfs_init max_count max_fds H) = \<lparr>mounts = \<lambda>_. None, files = \<lambda>_. None, driver_calls = []\<rparr>"
    by (auto simp: abs_vfs_def vfs_init_def fun_eq_iff FD_TABLE_ENTRY_UNUSED_def fd_valid_def Let_def nat_less_iff)
  moreover have "MAX_FDS (vfs_init max_count max_fds H) = max_fds" by (simp add: vfs_init_def)
  ultimately show ?thesis using session_allowed [OF files_ok_init assms, of drv max_count max_fds H] by auto
qed

text \<open>A driver whose functions are the numbers from \<open>n\<close> on, and a heap without other blocks.\<close>

definition driver_at :: "nat \<Rightarrow> esp_vfs_t" where
  "driver_at n = \<lparr>vfs_flags = 0, vfs_fs = [Op_open \<mapsto> n, Op_write \<mapsto> n + 1, Op_close \<mapsto> n + 2], vfs_dir = (\<lambda>_. None),
     vfs_termios = (\<lambda>_. None), vfs_select = (\<lambda>_. None)\<rparr>"

definition fresh_heap :: block_heap where
  "fresh_heap = \<lparr>next_addr = 1, allocs = [], live = [], bad_free = False\<rparr>"

definition dir_a :: "byte list" where "dir_a = [47, 97]"
definition dir_b :: "byte list" where "dir_b = [47, 98]"
definition file_a :: "byte list" where "file_a = [47, 97, 47, 120]"
definition file_b :: "byte list" where "file_b = [47, 98, 47, 120]"

definition calls_ab :: "vfs_syscall list" where
  "calls_ab = [Mount dir_a (driver_at 10) 0, Mount dir_b (driver_at 20) 0, Open file_b 0 0, Write 0 64 5, Close 0, Write 0 64 5]"

theorem system_calls_follow_the_specification_witness:
  "\<exists>outs st'. vfs_session (\<lambda>h. int (length h)) calls_ab (vfs_init 8 4 fresh_heap) = Some (outs, st') \<and>
     vfs_steps (\<lambda>h. int (length h)) 4 \<lparr>mounts = \<lambda>_. None, files = \<lambda>_. None, driver_calls = []\<rparr> calls_ab outs (abs_vfs st')"
  by (rule system_calls_follow_the_specification)
     (simp add: calls_ab_def proper_call_def fits_def dir_a_def dir_b_def ESP_VFS_PATH_MAX_def)

section \<open>Paths\<close>

text \<open>C33: Paths lead to the longest prefix.  After any registrations and removals a path is resolved to a
  registered file system whose prefix is the path or a directory on it, or empty, and no registered prefix of
  that kind is longer; when nothing is found there is none.  The path for the driver is what follows the
  prefix, or the root.\<close>

theorem paths_lead_to_the_longest_prefix:
  assumes "\<forall>call \<in> set calls. proper_reg call" and "reg_session calls (vfs_init max_count max_fds H) = Some (errs, st)"
  shows "case get_vfs_for_path path st of
           None \<Rightarrow> \<forall>w \<in> mounted st. \<not> serves path w
         | Some v \<Rightarrow> best_for path (mounted st) v \<and>
             (\<exists>p. translate_path v path = Some p \<and> (if path = path_prefix v then p = [SLASH] else path = path_prefix v @ p))"
proof -
  have ok: "vfs_ok st" by (rule ok_reg_session [OF vfs_ok_init assms])
  note best = get_vfs_for_path_best [OF ok, of path]
  show ?thesis
  proof (cases "get_vfs_for_path path st")
    case None
    then show ?thesis using best by simp
  next
    case (Some v)
    then have v: "best_for path (mounted st) v" using best by simp
    then have "translate_path v path = Some (path_in v path)"
      using translate_served mounted_prefix_ok [OF ok] by (auto simp: best_for_def)
    moreover have "path \<noteq> path_prefix v \<longrightarrow> path = path_prefix v @ path_in v path"
      using v by (auto simp: best_for_def serves_def path_in_def)
    ultimately show ?thesis using Some v by (simp add: path_in_def)
  qed
qed

definition regs1 :: "reg_call list" where
  "regs1 = [Reg dir_a (driver_at 10) 0, Reg file_a (driver_at 20) 0, Reg dir_b (driver_at 30) 0, Unreg dir_b]"

lemma replicate_small: "replicate 1 x = [x]" "replicate 2 x = [x, x]" "replicate 4 x = [x, x, x, x]"
  by (simp_all add: numeral_eq_Suc)

lemmas reg_eval = replicate_small upt_rec reg_exec.simps reg_session.simps esp_vfs_register_def esp_vfs_register_common_def esp_vfs_make_fs_ops_def build_fs_ops_def alloc_part_def
  esp_vfs_register_fs_common_def prefix_refused_def esp_get_free_index_def esp_vfs_unregister_def find_prefix_def
  esp_vfs_unregister_with_id_def esp_vfs_free_entry_def esp_vfs_free_fs_ops_def free_part_def heap_free_def clear_fds_def
  vfs_init_def driver_at_def fresh_heap_def calloc_def Let_def dir_a_def dir_b_def file_a_def file_b_def
  ESP_VFS_PATH_MAX_def LEN_PATH_PREFIX_IGNORED_def SLASH_def ESP_VFS_FLAG_STATIC_def FD_TABLE_ENTRY_UNUSED_def

lemma regs1_run: "\<exists>errs st. reg_session regs1 (vfs_init 4 4 fresh_heap) = Some (errs, st) \<and>
    map_option path_prefix (get_vfs_for_path [47, 97, 47, 120, 47, 121] st) = Some file_a"
  by (simp add: regs1_def reg_eval get_vfs_for_path_def scan_entry_def split del: if_split cong: bind_weak_cong)

theorem paths_lead_to_the_longest_prefix_witness:
  "\<exists>errs st v. reg_session regs1 (vfs_init 4 4 fresh_heap) = Some (errs, st) \<and>
     best_for [47, 97, 47, 120, 47, 121] (mounted st) v \<and> path_prefix v = file_a"
proof -
  have regs: "\<forall>call \<in> set regs1. proper_reg call"
    by (simp add: regs1_def dir_a_def dir_b_def file_a_def ESP_VFS_PATH_MAX_def)
  obtain errs st v where "reg_session regs1 (vfs_init 4 4 fresh_heap) = Some (errs, st)"
    "get_vfs_for_path [47, 97, 47, 120, 47, 121] st = Some v" "path_prefix v = file_a" using regs1_run by auto
  then show ?thesis using paths_lead_to_the_longest_prefix [OF regs, of 4 4 fresh_heap errs st "[47, 97, 47, 120, 47, 121]"] by auto
qed

section \<open>Memory\<close>

text \<open>C11: Registrations return their memory.  Through any registrations and removals, with failing
  allocations and a full table, no block is freed twice or while it belongs to others, and the blocks in use are those of
  others and the blocks of the file systems that are registered; when none is left, those of others.
  Prefixes fit into the array of the table, operations that are registered by identifier are static, ranges of
  descriptors are not registered, and the table of file systems is not larger than that of descriptors.\<close>

theorem registrations_return_their_memory:
  assumes "heap_ok H" and "\<not> bad_free H" and "max_count \<le> max_fds" and "\<forall>call \<in> set calls. proper_reg call"
  shows "\<exists>errs st. reg_session calls (vfs_init max_count max_fds H) = Some (errs, st) \<and> \<not> bad_free (vfs_heap st) \<and>
           mset (live (vfs_heap st)) = mset (live H) + vfs_blocks st \<and> (mounted st = {} \<longrightarrow> mset (live (vfs_heap st)) = mset (live H))"
proof -
  have "VFS_MAX_COUNT (vfs_init max_count max_fds H) \<le> MAX_FDS (vfs_init max_count max_fds H)"
    "s_vfs_count (vfs_init max_count max_fds H) \<le> VFS_MAX_COUNT (vfs_init max_count max_fds H)"
    using assms(3) by (simp_all add: vfs_init_def)
  from mem_reg_session [OF mem_vfs_init [OF assms(1,2)] this assms(4)]
  obtain errs st where run: "reg_session calls (vfs_init max_count max_fds H) = Some (errs, st)" and mem: "mem_vfs (mset (live H)) st" by blast
  have "sum_list (map entry_blocks es) = {#}" if "\<forall>e \<in> set es. e = None" for es
    using that by (induction es) (simp_all add: entry_blocks_def)
  moreover have "\<forall>e \<in> set (s_vfs st). e = None" if "mounted st = {}"
    using that by (auto simp: mounted_def) (metis option.exhaust)
  ultimately have "vfs_blocks st = {#}" if "mounted st = {}" using that by (simp add: vfs_blocks_def)
  then show ?thesis using run mem by (auto simp: mem_vfs_def holds_blocks_def)
qed

theorem registrations_return_their_memory_witness:
  "\<exists>errs st. reg_session regs1 (vfs_init 2 4 (fresh_heap\<lparr>allocs := [True, False]\<rparr>)) = Some (errs, st) \<and> \<not> bad_free (vfs_heap st)"
proof -
  have "\<forall>call \<in> set regs1. proper_reg call"
    by (simp add: regs1_def dir_a_def dir_b_def file_a_def ESP_VFS_PATH_MAX_def)
  from registrations_return_their_memory [OF _ _ _ this, of "fresh_heap\<lparr>allocs := [True, False]\<rparr>" 2 4]
  show ?thesis by (auto simp: fresh_heap_def heap_ok_def)
qed

section \<open>Select\<close>

text \<open>C37: \<open>select\<close> returns what the drivers report.  When no permanent descriptor is watched, a file system was registered and nothing fails,
  every driver with a start function is given the numbers of its own files that are watched; when the wait is over the
  call returns the descriptors whose files the drivers left in the sets, and their number, leaves no block
  behind, and releases the descriptors that were closed meanwhile.  The mark of a descriptor that was watched
  for errors stays.  Other tasks may mount during the wait but leave the descriptors and the heap alone.\<close>

theorem select_returns_what_is_ready:
  assumes "vfs_ok st" and "0 < s_vfs_count st" and "0 \<le> nfds" "nfds \<le> int (MAX_FDS st)" and "\<forall>fd < nat nfds. \<not> permanent (s_fd_table st ! fd)"
    and "allocs (vfs_heap st) = []" and "heap_ok (vfs_heap st)" and "\<forall>h. drv h = ESP_OK_VALUE"
    and "\<forall>ticks st. s_fd_table (meanwhile env ticks st) = s_fd_table st \<and> vfs_heap (meanwhile env ticks st) = vfs_heap st"
    and "items = answers env st (nat nfds) sets"
    and "r = reported_fds st items readfds" "w = reported_fds st items writefds" "e = reported_fds st items errorfds"
  shows "\<exists>st'. esp_vfs_select drv env period nfds sets timeout st =
           Some (Ret (int (bits (rfds sets) r + bits (wfds sets) w + bits (efds sets) e)),
                 \<lparr>rfds = map_option (\<lambda>_. r) (rfds sets), wfds = map_option (\<lambda>_. w) (wfds sets), efds = map_option (\<lambda>_. e) (efds sets)\<rparr>, st') \<and>
    s_fd_table st' = s_fd_table (release_pending (nat nfds) (st\<lparr>s_fd_table := marked (nat nfds) sets (s_fd_table st)\<rparr>)) \<and>
    mset (live (vfs_heap st')) = mset (live (vfs_heap st)) \<and> bad_free (vfs_heap st') = bad_free (vfs_heap st)"
  by (rule select_reports) (use assms in simp_all)

text \<open>Two files of one driver, with the numbers 3 and 2; the driver reports the first.\<close>

definition watched_entry :: vfs_entry_t where
  "watched_entry = \<lparr>entry_block = 1, entry_flags = 0,
     entry_vfs = \<lparr>fs_block = 2, fs_fns = [Op_open \<mapsto> 10, Op_write \<mapsto> 11, Op_close \<mapsto> 12], fs_dir = None, fs_termios = None,
                  fs_select = Some (3, [Op_start_select \<mapsto> 13, Op_end_select \<mapsto> 14])\<rparr>,
     path_prefix = dir_a, path_prefix_len = 2, entry_ctx = 0, entry_offset = 0\<rparr>"

definition two_files :: vfs_state where
  "two_files = \<lparr>s_vfs = [Some watched_entry, None], s_vfs_count = 1,
     s_fd_table = [FD_TABLE_ENTRY_UNUSED\<lparr>vfs_index := 0, local_fd := 3\<rparr>, FD_TABLE_ENTRY_UNUSED\<lparr>vfs_index := 0, local_fd := 2\<rparr>,
                   FD_TABLE_ENTRY_UNUSED, FD_TABLE_ENTRY_UNUSED],
     vfs_heap = \<lparr>next_addr = 4, allocs = [], live = [3, 2, 1], bad_free = False\<rparr>, history = []\<rparr>"

definition reports_3 :: select_env where
  "reports_3 = \<lparr>ready = (\<lambda>i item. (readfds item \<inter> {3}, writefds item \<inter> {3}, errorfds item \<inter> {3})),
     socket_layer = (\<lambda>g. (0, g)), meanwhile = (\<lambda>_ st. st)\<rparr>"

definition watch_both :: fd_sets where
  "watch_both = \<lparr>rfds = Some {0, 1}, wfds = None, efds = Some {0}\<rparr>"

lemma below_2: "(\<exists>fd < (2 :: nat). P fd) \<longleftrightarrow> P 0 \<or> P 1"
  by (auto simp: less_Suc_eq numeral_2_eq_2)

lemma below_4: "fd < 4 \<longleftrightarrow> fd = 0 \<or> fd = 1 \<or> fd = 2 \<or> fd = (3 :: nat)"
  by auto

lemma two_files_ok: "vfs_ok two_files" "\<forall>fd < nat 2. \<not> permanent (s_fd_table two_files ! fd)"
proof -
  have "prefix_ok watched_entry" by (simp add: prefix_ok_def watched_entry_def dir_a_def ESP_VFS_PATH_MAX_def SLASH_def)
  moreover have "entry_offset watched_entry = 0" by (simp add: watched_entry_def)
  ultimately show "vfs_ok two_files" by (auto simp: vfs_ok_def two_files_def FD_TABLE_ENTRY_UNUSED_def less_Suc_eq)
  show "\<forall>fd < nat 2. \<not> permanent (s_fd_table two_files ! fd)"
    by (auto simp: two_files_def FD_TABLE_ENTRY_UNUSED_def less_Suc_eq numeral_2_eq_2)
qed

lemma watched_two:
  "watched (s_fd_table two_files) 2 0 (Some {0, 1}) = {3, 2}" "watched (s_fd_table two_files) 2 0 None = {}"
  "watched (s_fd_table two_files) 2 0 (Some {0}) = {3}"
  by (auto simp: watched_def below_2 two_files_def FD_TABLE_ENTRY_UNUSED_def esp_vfs_safe_fd_isset_def)

lemma answers_two:
  "answers reports_3 two_files 2 watch_both = [\<lparr>isset = True, readfds = {3}, writefds = {}, errorfds = {3}\<rparr>]"
proof -
  have "item_at (s_fd_table two_files) watch_both 2 0 = \<lparr>isset = True, readfds = {3, 2}, writefds = {}, errorfds = {3}\<rparr>"
    using watched_two by (auto simp: item_at_def below_2 watch_both_def in_any_def esp_vfs_safe_fd_isset_def two_files_def FD_TABLE_ENTRY_UNUSED_def)
  then show ?thesis
    by (simp add: answers_def ran_item_def select_fn_def get_vfs_for_index_def two_files_def watched_entry_def reports_3_def)
qed

theorem select_returns_what_is_ready_witness:
  "\<exists>st'. esp_vfs_select (\<lambda>_. 0) reports_3 1 2 watch_both (Some (1, 0)) two_files = Some (Ret 2, \<lparr>rfds = Some {0}, wfds = None, efds = Some {0}\<rparr>, st') \<and>
     has_pending_select (s_fd_table st' ! 0) \<and> mset (live (vfs_heap st')) = {#1, 2, 3#}"
proof -
  let ?items = "answers reports_3 two_files 2 watch_both"
  have r: "reported_fds two_files ?items readfds = {0}" "reported_fds two_files ?items errorfds = {0}"
    unfolding answers_two by (auto simp: reported_fds_def two_files_def FD_TABLE_ENTRY_UNUSED_def below_4 nth_Cons')
  have range: "0 < s_vfs_count two_files" "0 \<le> (2 :: int)" "2 \<le> int (MAX_FDS two_files)" by (simp_all add: two_files_def)
  have heap: "allocs (vfs_heap two_files) = []" "heap_ok (vfs_heap two_files)" "mset (live (vfs_heap two_files)) = {#3, 2, 1#}"
    by (simp_all add: two_files_def heap_ok_def)
  have others: "\<forall>ticks st. s_fd_table (meanwhile reports_3 ticks st) = s_fd_table st \<and> vfs_heap (meanwhile reports_3 ticks st) = vfs_heap st"
    by (simp add: reports_3_def)
  have driver: "\<forall>h. (\<lambda>_ :: vfs_call list. 0) h = ESP_OK_VALUE" by (simp add: ESP_OK_VALUE_def)
  have items: "?items = answers reports_3 two_files (nat 2) watch_both" by simp
  obtain st' where st': "esp_vfs_select (\<lambda>_. 0) reports_3 1 2 watch_both (Some (1, 0)) two_files =
       Some (Ret (int (bits (Some {0, 1}) {0} + bits None (reported_fds two_files ?items writefds) + bits (Some {0}) {0})),
             \<lparr>rfds = Some {0}, wfds = None, efds = Some {0}\<rparr>, st')"
     "s_fd_table st' = s_fd_table (release_pending 2 (two_files\<lparr>s_fd_table := marked 2 watch_both (s_fd_table two_files)\<rparr>))"
     "mset (live (vfs_heap st')) = {#3, 2, 1#}"
    using select_returns_what_is_ready [OF two_files_ok(1) range two_files_ok(2) heap(1,2) driver others items refl refl refl, of 1 "Some (1, 0)"]
    unfolding r heap(3) by (auto simp: watch_both_def)
  have "has_pending_select (s_fd_table st' ! 0)"
    unfolding st'(2) by (simp add: release_pending_def marked_def watch_both_def esp_vfs_safe_fd_isset_def two_files_def FD_TABLE_ENTRY_UNUSED_def)
  then show ?thesis using st'(1,3) by (simp add: bits_def add_mset_commute)
qed

section \<open>Where the code does not keep its promises\<close>

lemmas file_eval = esp_vfs_open_def esp_vfs_write_def esp_vfs_close_def with_fd_def get_vfs_for_fd_def get_vfs_for_index_def get_local_fd_def
  fd_valid_def CHECK_AND_CALL_def call_driver_def free_fd_def take_fd_def release_fd_def translate_path_def get_vfs_for_path_def
  scan_entry_def O_ACCMODE_def O_RDONLY_def ESP_VFS_FLAG_READONLY_FS_def ESP_VFS_FLAG_CONTEXT_PTR_def

text \<open>The removal of a file system looks only at the first \<open>VFS_MAX_COUNT\<close> descriptors.  With one entry and four
  descriptors, the second file that was opened stays open, and once another file system is registered a write
  to it is a call of the new driver.\<close>

definition stale_file :: "(vfs_result \<times> vfs_call) option" where
  "stale_file = do {
     (_, st1) \<leftarrow> esp_vfs_register dir_a (Some (driver_at 10)) 0 (vfs_init 1 4 fresh_heap);
     (_, st2) \<leftarrow> esp_vfs_open (\<lambda>_. 5) file_a 0 0 st1;
     (_, st3) \<leftarrow> esp_vfs_open (\<lambda>_. 6) file_a 0 0 st2;
     (_, st4) \<leftarrow> esp_vfs_unregister dir_a st3;
     (_, st5) \<leftarrow> esp_vfs_register dir_b (Some (driver_at 20)) 0 st4;
     (r, st6) \<leftarrow> Some (esp_vfs_write (\<lambda>_. 1) 1 64 9 st5);
     Some (r, last (history st6))
   }"

theorem open_file_reaches_the_next_file_system:
  "stale_file = Some (Ret 1, \<lparr>call_fn = 21, call_ctx = None, call_args = [IntArg 6, PtrArg 64, IntArg 9]\<rparr>)"
  by (simp add: stale_file_def reg_eval file_eval split del: if_split cong: bind_weak_cong)

text \<open>The mark that \<open>select\<close> sets on a descriptor is not taken away.  When the descriptor is closed later it is
  only marked again: it is not free for the next open, and a write to it still reaches the driver.\<close>

definition closed_file :: "(vfs_result \<times> vfs_result \<times> vfs_result) option" where
  "closed_file = do {
     (_, _, st1) \<leftarrow> esp_vfs_select (\<lambda>_. 0) reports_3 1 1 \<lparr>rfds = None, wfds = None, efds = Some {0}\<rparr> None two_files;
     (r1, st2) \<leftarrow> Some (esp_vfs_close (\<lambda>_. 0) 0 st1);
     (r2, st3) \<leftarrow> esp_vfs_open (\<lambda>_. 7) file_a 0 0 st2;
     (r3, st4) \<leftarrow> Some (esp_vfs_write (\<lambda>_. 9) 0 64 9 st3);
     Some (r1, r2, r3)
   }"

lemmas select_eval = esp_vfs_select_def select_fds.simps select_fd_def esp_vfs_safe_fd_isset_def hand_out_def move_fd_def FD_SET_def FD_CLR_def
  start_drivers.simps start_driver_def select_fn_def call_select_def select_wait_def call_end_selects_def end_select_def
  set_global_fd_sets_def back_fd_def give_back_def release_pending_def delete_sem_def free_block_def no_fds_def
  reports_3_def two_files_def watched_entry_def ESP_OK_VALUE_def ESP_ERR_NOT_SUPPORTED_VALUE_def

theorem closed_file_stays_open:
  "closed_file = Some (Ret 0, Ret 2, Ret 9)"
  by (simp add: closed_file_def select_eval reg_eval file_eval split del: if_split cong: bind_weak_cong)

text \<open>When \<open>select\<close> cannot allocate the arguments of the drivers, its semaphore stays allocated.\<close>

theorem failed_select_keeps_its_semaphore:
  "map_option (\<lambda>(r, _, st). (r, live (vfs_heap st)))
     (esp_vfs_select (\<lambda>_. 0) reports_3 1 1 \<lparr>rfds = Some {0}, wfds = None, efds = None\<rparr> None
       (set_heap \<lparr>next_addr = 4, allocs = [True, True, False], live = [], bad_free = False\<rparr> two_files)) = Some (Fail ENOMEM, [5])"
  by (simp add: select_eval reg_eval split del: if_split cong: bind_weak_cong)

text \<open>When a range of descriptors is registered and one is taken, the entry is freed but not the copy of the operations.\<close>

theorem failed_range_keeps_the_operations:
  "map_option (\<lambda>(err, st). (err, s_vfs st ! 1, live (vfs_heap st))) (esp_vfs_register_fd_range (Some (driver_at 20)) 0 0 2 two_files) =
     Some (ESP_ERR_INVALID_ARG, None, [4, 3, 2, 1])"
  by (simp add: esp_vfs_register_fd_range_def register_range.simps reg_eval two_files_def watched_entry_def split del: if_split cong: bind_weak_cong)

text \<open>Operations that are registered by identifier without the static flag are not copied: the block of the
  caller is kept in the table, and freed by the removal.\<close>

definition own_ops :: esp_vfs_fs_ops_t where
  "own_ops = \<lparr>fs_block = 7, fs_fns = (\<lambda>_. None), fs_dir = None, fs_termios = None, fs_select = None\<rparr>"

theorem operations_of_the_caller_are_freed:
  "do { ((err, i), st1) \<leftarrow> esp_vfs_register_fs_with_id (Some own_ops) 0 0 True (vfs_init 2 2 \<lparr>next_addr = 8, allocs = [], live = [7], bad_free = False\<rparr>);
        (err1, st2) \<leftarrow> esp_vfs_unregister_with_id 0 st1;
        Some (err, i, live (vfs_heap st1), err1, live (vfs_heap st2)) } = Some (ESP_OK, Some 0, [8, 7], ESP_OK, [])"
  by (simp add: esp_vfs_register_fs_with_id_def own_ops_def reg_eval split del: if_split cong: bind_weak_cong)

text \<open>A prefix of 15 characters passes the check, and with its terminating zero does not fit into the array of 15 bytes.\<close>

theorem longest_prefix_does_not_fit:
  "esp_vfs_register [47, 97, 97, 97, 97, 97, 97, 97, 97, 97, 97, 97, 97, 97, 97] (Some (driver_at 10)) 0 (vfs_init 2 2 fresh_heap) = None"
  by (simp add: reg_eval split del: if_split cong: bind_weak_cong)

end
