(* ===== verification/Pm.thy ===== *)
theory Pm
  imports Blocks
begin

text \<open>
  Power management, \<open>components/esp_pm\<close>: \<open>pm_locks.c\<close> has the locks with their counts, \<open>pm_impl.c\<close> the power
  modes, the switch between them and the hooks of the idle task and of interrupts.  The build is the one with
  tickless idle, without profiling and without a tick counter that depends on the CPU frequency, for a chip other
  than the ESP32.  A call is one step, so that the flag \<open>s_is_switching\<close> is never seen set; \<open>Pm_Race\<close> splits the
  steps.  The switch of UART clocks, the configuration at the start under \<open>CONFIG_PM_DFS_INIT_AUTO\<close> and the
  preparation of the modem, whose result \<open>esp_pm_configure\<close> does not use, are left out.
\<close>

section \<open>Types\<close>

datatype esp_pm_lock_type_t = ESP_PM_CPU_FREQ_MAX | ESP_PM_APB_FREQ_MAX | ESP_PM_NO_LIGHT_SLEEP | ESP_PM_LOCK_MAX

datatype pm_mode_t = PM_MODE_LIGHT_SLEEP | PM_MODE_APB_MIN | PM_MODE_APB_MAX | PM_MODE_CPU_MAX

datatype pm_mode_switch_t = MODE_LOCK | MODE_UNLOCK

text \<open>The value of a mode; the enumeration is in the order of the power that a mode takes.\<close>

fun mode_number :: "pm_mode_t \<Rightarrow> nat" where
  "mode_number PM_MODE_LIGHT_SLEEP = 0"
| "mode_number PM_MODE_APB_MIN = 1"
| "mode_number PM_MODE_APB_MAX = 2"
| "mode_number PM_MODE_CPU_MAX = 3"

lemma mode_number_inj: "mode_number m = mode_number m' \<Longrightarrow> m = m'"
  by (cases m; cases m') simp_all

instantiation pm_mode_t :: linorder
begin

definition less_eq_pm_mode_t :: "pm_mode_t \<Rightarrow> pm_mode_t \<Rightarrow> bool" where
  "less_eq_pm_mode_t m m' \<longleftrightarrow> mode_number m \<le> mode_number m'"

definition less_pm_mode_t :: "pm_mode_t \<Rightarrow> pm_mode_t \<Rightarrow> bool" where
  "less_pm_mode_t m m' \<longleftrightarrow> mode_number m < mode_number m'"

instance
  by standard (auto simp: less_eq_pm_mode_t_def less_pm_mode_t_def intro: mode_number_inj)

end

lemma UNIV_mode: "UNIV = {PM_MODE_LIGHT_SLEEP, PM_MODE_APB_MIN, PM_MODE_APB_MAX, PM_MODE_CPU_MAX}"
proof -
  have "m \<in> {PM_MODE_LIGHT_SLEEP, PM_MODE_APB_MIN, PM_MODE_APB_MAX, PM_MODE_CPU_MAX}" for m by (cases m) simp_all
  then show ?thesis by blast
qed

instance pm_mode_t :: finite
  by standard (simp add: UNIV_mode)

definition BIT :: "pm_mode_t \<Rightarrow> 32 word" where
  "BIT m = push_bit (mode_number m) 1"

section \<open>State\<close>

text \<open>A lock; its name is a pointer.\<close>

record esp_pm_lock =
  lock_type :: esp_pm_lock_type_t
  lock_arg :: int
  lock_mode :: pm_mode_t
  lock_name :: nat
  lock_count :: "32 word"

type_synonym esp_pm_lock_handle_t = nat

text \<open>What the hardware keeps: the frequency of the CPU, the clock that the timer was told, and the wake-up
  timer.  Frequencies are in MHz.\<close>

record pm_hardware =
  cpu_freq :: int
  timer_apb_freq :: int
  timer_wakeup :: "int option"

text \<open>The variables of \<open>pm_impl.c\<close> and the list of locks; the lists have one element per core.\<close>

record pm_state =
  s_mode :: pm_mode_t
  s_mode_lock_counts :: "pm_mode_t \<Rightarrow> 32 word"
  s_mode_mask :: "32 word"
  s_periph_skip_light_sleep_cb :: "nat option list"
  s_skipped_light_sleep :: "bool list"
  s_skip_light_sleep :: "bool list"
  s_core_idle :: "bool list"
  s_rtos_lock_handle :: "esp_pm_lock_handle_t option list"
  s_cpu_freq_by_mode :: "pm_mode_t \<Rightarrow> int"
  s_light_sleep_en :: bool
  s_config_changed :: bool
  s_list :: "esp_pm_lock_handle_t list"
  locks :: "esp_pm_lock_handle_t \<rightharpoonup> esp_pm_lock"
  pm_heap :: block_heap
  hw :: pm_hardware

abbreviation set_hw :: "(pm_hardware \<Rightarrow> pm_hardware) \<Rightarrow> pm_state \<Rightarrow> pm_state" where
  "set_hw f st \<equiv> st\<lparr>hw := f (hw st)\<rparr>"

abbreviation cores :: "pm_state \<Rightarrow> nat" where
  "cores st \<equiv> length (s_core_idle st)"

definition PERIPH_SKIP_LIGHT_SLEEP_NO :: nat where "PERIPH_SKIP_LIGHT_SLEEP_NO = 2"

section \<open>Switching\<close>

definition get_lowest_allowed_mode :: "pm_state \<Rightarrow> pm_mode_t" where
  "get_lowest_allowed_mode st =
     (if BIT PM_MODE_CPU_MAX \<le> s_mode_mask st then PM_MODE_CPU_MAX
      else if BIT PM_MODE_APB_MAX \<le> s_mode_mask st then PM_MODE_APB_MAX
      else if BIT PM_MODE_APB_MIN \<le> s_mode_mask st \<or> \<not> s_light_sleep_en st then PM_MODE_APB_MIN
      else PM_MODE_LIGHT_SLEEP)"

definition on_freq_update :: "int \<Rightarrow> int \<Rightarrow> pm_hardware \<Rightarrow> pm_hardware" where
  "on_freq_update old_ticks_per_us ticks_per_us h =
     (let old_apb_ticks_per_us = min old_ticks_per_us 80; apb_ticks_per_us = min ticks_per_us 80
      in if old_apb_ticks_per_us \<noteq> apb_ticks_per_us then h\<lparr>timer_apb_freq := apb_ticks_per_us\<rparr> else h)"

text \<open>The change of the frequency: the timer is told first when the frequency falls, and last when it rises.\<close>

definition change_freq :: "int \<Rightarrow> int \<Rightarrow> pm_hardware \<Rightarrow> pm_hardware" where
  "change_freq new_freq old_freq h =
     (if new_freq \<noteq> old_freq
      then if new_freq < old_freq then (on_freq_update old_freq new_freq h)\<lparr>cpu_freq := new_freq\<rparr>
           else on_freq_update old_freq new_freq (h\<lparr>cpu_freq := new_freq\<rparr>)
      else h)"

definition do_switch :: "pm_mode_t \<Rightarrow> pm_state \<Rightarrow> pm_state" where
  "do_switch new_mode st =
     (if new_mode = s_mode st \<and> \<not> s_config_changed st then st
      else let new_config = s_cpu_freq_by_mode st new_mode;
               old_config = (if \<not> s_config_changed st then s_cpu_freq_by_mode st (s_mode st) else cpu_freq (hw st))
           in (set_hw (change_freq new_config old_config) st)\<lparr>s_config_changed := False, s_mode := new_mode\<rparr>)"

text \<open>The update of count and mask, and the mode to switch to.\<close>

definition count_mode :: "pm_mode_t \<Rightarrow> pm_mode_switch_t \<Rightarrow> pm_state \<Rightarrow> pm_mode_t option \<times> pm_state" where
  "count_mode mode lock_or_unlock st =
     (let mode_mask = BIT mode;
          old = s_mode_lock_counts st mode;
          count = (if lock_or_unlock = MODE_LOCK then old + 1 else old);
          st1 = st\<lparr>s_mode_lock_counts := (s_mode_lock_counts st)(mode := if lock_or_unlock = MODE_LOCK then old + 1 else old - 1)\<rparr>
      in if count = 1
         then let st2 = st1\<lparr>s_mode_mask := (if lock_or_unlock = MODE_LOCK then s_mode_mask st1 OR mode_mask
                                            else s_mode_mask st1 AND NOT mode_mask)\<rparr>
              in (Some (get_lowest_allowed_mode st2), st2)
         else (None, st1))"

definition esp_pm_impl_switch_mode :: "pm_mode_t \<Rightarrow> pm_mode_switch_t \<Rightarrow> pm_state \<Rightarrow> pm_state" where
  "esp_pm_impl_switch_mode mode lock_or_unlock st =
     (case count_mode mode lock_or_unlock st of (None, st1) \<Rightarrow> st1 | (Some new_mode, st1) \<Rightarrow> do_switch new_mode st1)"

section \<open>Locks\<close>

definition esp_pm_impl_get_mode :: "esp_pm_lock_type_t \<Rightarrow> pm_mode_t option" where
  "esp_pm_impl_get_mode type =
     (if type = ESP_PM_CPU_FREQ_MAX then Some PM_MODE_CPU_MAX
      else if type = ESP_PM_APB_FREQ_MAX then Some PM_MODE_APB_MAX
      else if type = ESP_PM_NO_LIGHT_SLEEP then Some PM_MODE_APB_MIN
      else None)"

text \<open>The handle is passed back.  A type without a mode aborts.\<close>

definition esp_pm_lock_create ::
  "esp_pm_lock_type_t \<Rightarrow> int \<Rightarrow> nat \<Rightarrow> bool \<Rightarrow> pm_state \<Rightarrow> ((esp_err_t \<times> esp_pm_lock_handle_t option) \<times> pm_state) option" where
  "esp_pm_lock_create type arg name has_handle st =
     (if \<not> has_handle then Some ((ESP_ERR_INVALID_ARG, None), st)
      else case calloc (pm_heap st) of
        (None, H) \<Rightarrow> Some ((ESP_ERR_NO_MEM, None), st\<lparr>pm_heap := H\<rparr>)
      | (Some a, H) \<Rightarrow> do {
          mode \<leftarrow> esp_pm_impl_get_mode type;
          let new_lock = \<lparr>lock_type = type, lock_arg = arg, lock_mode = mode, lock_name = name, lock_count = 0\<rparr>;
          Some ((ESP_OK, Some a), st\<lparr>pm_heap := H, locks := (locks st)(a \<mapsto> new_lock), s_list := a # s_list st\<rparr>)
        })"

text \<open>A handle of a lock that was deleted is a trap.\<close>

definition esp_pm_lock_delete :: "esp_pm_lock_handle_t option \<Rightarrow> pm_state \<Rightarrow> (esp_err_t \<times> pm_state) option" where
  "esp_pm_lock_delete handle st =
     (case handle of
        None \<Rightarrow> Some (ESP_ERR_INVALID_ARG, st)
      | Some h \<Rightarrow> do {
          l \<leftarrow> locks st h;
          if 0 < lock_count l then Some (ESP_ERR_INVALID_STATE, st)
          else do {
            assert_that (h \<in> set (s_list st));
            Some (ESP_OK, st\<lparr>s_list := remove1 h (s_list st), locks := (locks st)(h := None), pm_heap := heap_free h (pm_heap st)\<rparr>)
          }
        })"

definition esp_pm_lock_acquire :: "esp_pm_lock_handle_t option \<Rightarrow> pm_state \<Rightarrow> (esp_err_t \<times> pm_state) option" where
  "esp_pm_lock_acquire handle st =
     (case handle of
        None \<Rightarrow> Some (ESP_ERR_INVALID_ARG, st)
      | Some h \<Rightarrow> do {
          l \<leftarrow> locks st h;
          let st1 = st\<lparr>locks := (locks st)(h \<mapsto> l\<lparr>lock_count := lock_count l + 1\<rparr>)\<rparr>;
          Some (ESP_OK, if lock_count l = 0 then esp_pm_impl_switch_mode (lock_mode l) MODE_LOCK st1 else st1)
        })"

definition esp_pm_lock_release :: "esp_pm_lock_handle_t option \<Rightarrow> pm_state \<Rightarrow> (esp_err_t \<times> pm_state) option" where
  "esp_pm_lock_release handle st =
     (case handle of
        None \<Rightarrow> Some (ESP_ERR_INVALID_ARG, st)
      | Some h \<Rightarrow> do {
          l \<leftarrow> locks st h;
          if lock_count l = 0 then Some (ESP_ERR_INVALID_STATE, st)
          else let st1 = st\<lparr>locks := (locks st)(h \<mapsto> l\<lparr>lock_count := lock_count l - 1\<rparr>)\<rparr>
               in Some (ESP_OK, if lock_count l - 1 = 0 then esp_pm_impl_switch_mode (lock_mode l) MODE_UNLOCK st1 else st1)
        })"

section \<open>Configuration\<close>

record esp_pm_config_t =
  max_freq_mhz :: int
  min_freq_mhz :: int
  light_sleep_enable :: bool

text \<open>The chip: the frequencies of the CPU that exist, the crystal, the slowest clock that the buses and the modem
  allow, and the reference clock in Hz with its least divider.\<close>

record pm_chip =
  freq_exists :: "int \<Rightarrow> bool"
  xtal_freq_mhz :: int
  apb_clk_freq :: int
  REF_CLK_FREQ :: int
  REF_CLK_DIV_MIN :: int

definition MHZ :: int where "MHZ = 1000000"

definition apb_max_freq :: "pm_chip \<Rightarrow> esp_pm_config_t \<Rightarrow> int" where
  "apb_max_freq chip config = max (min (max_freq_mhz config) (apb_clk_freq chip)) (min_freq_mhz config)"

definition set_frequencies :: "pm_chip \<Rightarrow> esp_pm_config_t \<Rightarrow> pm_state \<Rightarrow> pm_state" where
  "set_frequencies chip config st =
     st\<lparr>s_cpu_freq_by_mode := (s_cpu_freq_by_mode st)
          (PM_MODE_CPU_MAX := max_freq_mhz config, PM_MODE_APB_MAX := apb_max_freq chip config,
           PM_MODE_APB_MIN := min_freq_mhz config, PM_MODE_LIGHT_SLEEP := min_freq_mhz config)\<rparr>"

definition set_timer_wakeup :: "esp_pm_config_t \<Rightarrow> pm_state \<Rightarrow> pm_state" where
  "set_timer_wakeup config st =
     (if light_sleep_enable config then set_hw (\<lambda>h. h\<lparr>timer_wakeup := Some 0\<rparr>) st
      else if s_light_sleep_en st then set_hw (\<lambda>h. h\<lparr>timer_wakeup := None\<rparr>) st
      else st)"

definition esp_pm_configure :: "pm_chip \<Rightarrow> esp_pm_config_t \<Rightarrow> pm_state \<Rightarrow> (esp_err_t \<times> pm_state) option" where
  "esp_pm_configure chip config st =
     (if max_freq_mhz config < min_freq_mhz config then Some (ESP_ERR_INVALID_ARG, st)
      else if \<not> freq_exists chip (min_freq_mhz config) then Some (ESP_ERR_INVALID_ARG, st)
      else if min_freq_mhz config < xtal_freq_mhz chip \<and> min_freq_mhz config * MHZ div REF_CLK_FREQ chip < REF_CLK_DIV_MIN chip
        then Some (ESP_ERR_INVALID_ARG, st)
      else if \<not> freq_exists chip (max_freq_mhz config) then Some (ESP_ERR_INVALID_ARG, st)
      else do {
        assert_that (freq_exists chip (apb_max_freq chip config));
        let st1 = (set_timer_wakeup config (set_frequencies chip config st))
                    \<lparr>s_light_sleep_en := light_sleep_enable config, s_config_changed := True\<rparr>;
        Some (ESP_OK, do_switch PM_MODE_CPU_MAX st1)
      })"

definition esp_pm_get_configuration :: "bool \<Rightarrow> pm_state \<Rightarrow> esp_err_t \<times> esp_pm_config_t option" where
  "esp_pm_get_configuration has_config st =
     (if \<not> has_config then (ESP_ERR_INVALID_ARG, None)
      else (ESP_OK, Some \<lparr>max_freq_mhz = s_cpu_freq_by_mode st PM_MODE_CPU_MAX,
                          min_freq_mhz = s_cpu_freq_by_mode st PM_MODE_APB_MIN, light_sleep_enable = s_light_sleep_en st\<rparr>))"

definition esp_pm_impl_get_cpu_freq :: "pm_mode_t \<Rightarrow> pm_state \<Rightarrow> int" where
  "esp_pm_impl_get_cpu_freq mode st = s_cpu_freq_by_mode st mode"

section \<open>Start\<close>

text \<open>Before the start: nothing locked, the CPU at its default frequency.\<close>

definition pm_reset :: "nat \<Rightarrow> int \<Rightarrow> block_heap \<Rightarrow> pm_state" where
  "pm_reset n default_mhz H =
     \<lparr>s_mode = PM_MODE_CPU_MAX, s_mode_lock_counts = (\<lambda>_. 0), s_mode_mask = 0,
      s_periph_skip_light_sleep_cb = replicate PERIPH_SKIP_LIGHT_SLEEP_NO None,
      s_skipped_light_sleep = replicate n False, s_skip_light_sleep = replicate n False, s_core_idle = replicate n False,
      s_rtos_lock_handle = replicate n None, s_cpu_freq_by_mode = (\<lambda>_. 0), s_light_sleep_en = False, s_config_changed = False,
      s_list = [], locks = Map.empty, pm_heap = H,
      hw = \<lparr>cpu_freq = default_mhz, timer_apb_freq = min default_mhz 80, timer_wakeup = None\<rparr>\<rparr>"

text \<open>The lock of a core; an error stops the start.\<close>

definition create_rtos_lock :: "nat \<Rightarrow> pm_state \<Rightarrow> pm_state option" where
  "create_rtos_lock core_id st = do {
     ((err, handle), st1) \<leftarrow> esp_pm_lock_create ESP_PM_CPU_FREQ_MAX 0 core_id True st;
     assert_that (err = ESP_OK);
     let st2 = st1\<lparr>s_rtos_lock_handle := (s_rtos_lock_handle st1)[core_id := handle]\<rparr>;
     (err, st3) \<leftarrow> esp_pm_lock_acquire handle st2;
     assert_that (err = ESP_OK);
     Some st3
   }"

fun create_rtos_locks :: "nat list \<Rightarrow> pm_state \<Rightarrow> pm_state option" where
  "create_rtos_locks [] st = Some st"
| "create_rtos_locks (core_id # core_ids) st = do { st1 \<leftarrow> create_rtos_lock core_id st; create_rtos_locks core_ids st1 }"

definition esp_pm_impl_init :: "pm_chip \<Rightarrow> int \<Rightarrow> pm_state \<Rightarrow> pm_state option" where
  "esp_pm_impl_init chip default_mhz st = do {
     st1 \<leftarrow> create_rtos_locks [0..<cores st] st;
     assert_that (freq_exists chip default_mhz);
     Some (st1\<lparr>s_cpu_freq_by_mode := (\<lambda>_. default_mhz)\<rparr>)
   }"

section \<open>Hooks\<close>

text \<open>\<open>asks\<close>: what the callback of a peripheral answers.\<close>

definition periph_should_skip_light_sleep :: "(nat \<Rightarrow> bool) \<Rightarrow> pm_state \<Rightarrow> bool" where
  "periph_should_skip_light_sleep asks st \<longleftrightarrow>
     s_light_sleep_en st \<and> (\<exists>cb \<in> set (s_periph_skip_light_sleep_cb st). case cb of None \<Rightarrow> False | Some f \<Rightarrow> asks f)"

definition leave_idle :: "nat \<Rightarrow> pm_state \<Rightarrow> pm_state option" where
  "leave_idle core_id st =
     (if s_core_idle st ! core_id
      then map_option (\<lambda>(_, st1). st1\<lparr>s_core_idle := (s_core_idle st1)[core_id := False]\<rparr>)
             (esp_pm_lock_acquire (s_rtos_lock_handle st ! core_id) st)
      else Some st)"

definition esp_pm_impl_isr_hook :: "nat \<Rightarrow> pm_state \<Rightarrow> pm_state option" where
  "esp_pm_impl_isr_hook core_id st = leave_idle core_id st"

definition esp_pm_impl_idle_hook :: "(nat \<Rightarrow> bool) \<Rightarrow> nat \<Rightarrow> pm_state \<Rightarrow> pm_state option" where
  "esp_pm_impl_idle_hook asks core_id st =
     (if \<not> s_core_idle st ! core_id \<and> \<not> periph_should_skip_light_sleep asks st
      then map_option (\<lambda>(_, st1). st1\<lparr>s_core_idle := (s_core_idle st1)[core_id := True]\<rparr>)
             (esp_pm_lock_release (s_rtos_lock_handle st ! core_id) st)
      else Some st)"

text \<open>The wait ends with an interrupt, whose hook runs first.\<close>

definition esp_pm_impl_waiti :: "(nat \<Rightarrow> bool) \<Rightarrow> nat \<Rightarrow> pm_state \<Rightarrow> pm_state option" where
  "esp_pm_impl_waiti asks core_id st = do {
     st2 \<leftarrow> (if s_skipped_light_sleep st ! core_id
             then do { st1 \<leftarrow> esp_pm_impl_isr_hook core_id st; esp_pm_impl_idle_hook asks core_id st1 }
             else Some st);
     Some (st2\<lparr>s_skipped_light_sleep := (s_skipped_light_sleep st2)[core_id := True]\<rparr>)
   }"

end
