(* ===== verification/Pm_Inv.thy ===== *)
theory Pm_Inv
  imports Pm
begin

text \<open>The power mode is the least one that meets every lock that is held, after every call.\<close>

section \<open>Modes that are wanted\<close>

definition held :: "pm_state \<Rightarrow> esp_pm_lock_handle_t set" where
  "held st = {h. \<exists>l. locks st h = Some l \<and> lock_count l \<noteq> 0}"

definition mode_of :: "pm_state \<Rightarrow> esp_pm_lock_handle_t \<Rightarrow> pm_mode_t" where
  "mode_of st h = lock_mode (the (locks st h))"

definition held_modes :: "pm_state \<Rightarrow> pm_mode_t set" where
  "held_modes st = mode_of st ` held st"

definition base_mode :: "pm_state \<Rightarrow> pm_mode_t" where
  "base_mode st = (if s_light_sleep_en st then PM_MODE_LIGHT_SLEEP else PM_MODE_APB_MIN)"

definition wanted_mode :: "pm_state \<Rightarrow> pm_mode_t" where
  "wanted_mode st = Max (insert (base_mode st) (held_modes st))"

lemma mode_le [simp]:
  "m \<le> PM_MODE_CPU_MAX" "PM_MODE_LIGHT_SLEEP \<le> m"
  "PM_MODE_CPU_MAX \<le> m \<longleftrightarrow> m = PM_MODE_CPU_MAX" "m \<le> PM_MODE_LIGHT_SLEEP \<longleftrightarrow> m = PM_MODE_LIGHT_SLEEP"
  by (cases m; simp add: less_eq_pm_mode_t_def)+

lemma mode_le_min: "m \<le> PM_MODE_APB_MIN \<longleftrightarrow> m \<noteq> PM_MODE_CPU_MAX \<and> m \<noteq> PM_MODE_APB_MAX"
  "m \<le> PM_MODE_APB_MAX \<longleftrightarrow> m \<noteq> PM_MODE_CPU_MAX"
  by (cases m; simp add: less_eq_pm_mode_t_def)+

lemma Max_modes:
  "Max (insert (base_mode st) S) =
     (if PM_MODE_CPU_MAX \<in> S then PM_MODE_CPU_MAX
      else if PM_MODE_APB_MAX \<in> S then PM_MODE_APB_MAX
      else if PM_MODE_APB_MIN \<in> S \<or> \<not> s_light_sleep_en st then PM_MODE_APB_MIN
      else PM_MODE_LIGHT_SLEEP)"
proof -
  have fin: "finite (insert (base_mode st) S)" by simp
  have below: "m = PM_MODE_LIGHT_SLEEP \<or> m = PM_MODE_APB_MIN \<or> m = PM_MODE_APB_MAX \<or> m = PM_MODE_CPU_MAX" for m :: pm_mode_t
    by (cases m) simp_all
  show ?thesis
    by (rule Max_eqI [OF fin]) (use below in \<open>auto simp: base_mode_def mode_le_min split: if_splits\<close>)
qed

section \<open>The mask\<close>

definition mask_of :: "(pm_mode_t \<Rightarrow> bool) \<Rightarrow> 32 word" where
  "mask_of p = (if p PM_MODE_LIGHT_SLEEP then 1 else 0) OR (if p PM_MODE_APB_MIN then 2 else 0) OR
     (if p PM_MODE_APB_MAX then 4 else 0) OR (if p PM_MODE_CPU_MAX then 8 else 0)"

lemma BIT_values:
  "BIT PM_MODE_LIGHT_SLEEP = 1" "BIT PM_MODE_APB_MIN = 2" "BIT PM_MODE_APB_MAX = 4" "BIT PM_MODE_CPU_MAX = 8"
  by (simp_all add: BIT_def)

lemma mask_set: "mask_of p OR BIT m = mask_of (p(m := True))"
  by (cases m; cases "p PM_MODE_LIGHT_SLEEP"; cases "p PM_MODE_APB_MIN"; cases "p PM_MODE_APB_MAX"; cases "p PM_MODE_CPU_MAX";
      simp add: mask_of_def BIT_values)

lemma mask_clear: "mask_of p AND NOT (BIT m) = mask_of (p(m := False))"
  by (cases m; cases "p PM_MODE_LIGHT_SLEEP"; cases "p PM_MODE_APB_MIN"; cases "p PM_MODE_APB_MAX"; cases "p PM_MODE_CPU_MAX";
      simp add: mask_of_def BIT_values)

lemma mask_compare:
  "BIT PM_MODE_CPU_MAX \<le> mask_of p \<longleftrightarrow> p PM_MODE_CPU_MAX"
  "\<not> p PM_MODE_CPU_MAX \<Longrightarrow> BIT PM_MODE_APB_MAX \<le> mask_of p \<longleftrightarrow> p PM_MODE_APB_MAX"
  "\<not> p PM_MODE_CPU_MAX \<Longrightarrow> \<not> p PM_MODE_APB_MAX \<Longrightarrow> BIT PM_MODE_APB_MIN \<le> mask_of p \<longleftrightarrow> p PM_MODE_APB_MIN"
proof -
  have one [simp]: "\<not> (8 :: 32 word) \<le> 1" "\<not> (4 :: 32 word) \<le> 1" "\<not> (2 :: 32 word) \<le> 1" by (simp_all add: word_le_nat_alt)
  have bits: "(8 :: 32 word) \<le> (if a then 1 else 0) OR (if b then 2 else 0) OR (if c then 4 else 0) OR (if d then 8 else 0) \<longleftrightarrow> d"
    "(4 :: 32 word) \<le> (if a then 1 else 0) OR (if b then 2 else 0) OR (if c then 4 else 0) OR 0 \<longleftrightarrow> c"
    "(2 :: 32 word) \<le> (if a then 1 else 0) OR (if b then 2 else 0) OR 0 OR 0 \<longleftrightarrow> b" for a b c d :: bool
    by (cases a; cases b; cases c; cases d; simp; fail)+
  show "BIT PM_MODE_CPU_MAX \<le> mask_of p \<longleftrightarrow> p PM_MODE_CPU_MAX" unfolding BIT_values mask_of_def by (rule bits)
  show "BIT PM_MODE_APB_MAX \<le> mask_of p \<longleftrightarrow> p PM_MODE_APB_MAX" if "\<not> p PM_MODE_CPU_MAX"
    unfolding BIT_values mask_of_def using that bits(2) by simp
  show "BIT PM_MODE_APB_MIN \<le> mask_of p \<longleftrightarrow> p PM_MODE_APB_MIN" if "\<not> p PM_MODE_CPU_MAX" "\<not> p PM_MODE_APB_MAX"
    unfolding BIT_values mask_of_def using that bits(3) by simp
qed

lemma lowest_is_wanted:
  assumes "s_mode_mask st = mask_of (\<lambda>m. m \<in> held_modes st)"
  shows "get_lowest_allowed_mode st = wanted_mode st"
  unfolding get_lowest_allowed_mode_def wanted_mode_def assms Max_modes by (simp add: mask_compare)

section \<open>Counts, mask and mode\<close>

definition with_mode :: "pm_state \<Rightarrow> pm_mode_t \<Rightarrow> esp_pm_lock_handle_t set" where
  "with_mode st m = {h \<in> held st. mode_of st h = m}"

definition counts_ok :: "pm_state \<Rightarrow> bool" where
  "counts_ok st \<longleftrightarrow> finite (held st) \<and> card (held st) < 2 ^ 32 \<and> (\<forall>m. unat (s_mode_lock_counts st m) = card (with_mode st m)) \<and>
     s_mode_mask st = mask_of (\<lambda>m. m \<in> held_modes st)"

definition freq_ok :: "pm_state \<Rightarrow> bool" where
  "freq_ok st \<longleftrightarrow> timer_apb_freq (hw st) = min (cpu_freq (hw st)) 80 \<and>
     (\<not> s_config_changed st \<longrightarrow> cpu_freq (hw st) = s_cpu_freq_by_mode st (s_mode st))"

lemma with_mode_finite: "finite (held st) \<Longrightarrow> finite (with_mode st m)"
  by (simp add: with_mode_def)

lemma held_modes_with: "m \<in> held_modes st \<longleftrightarrow> with_mode st m \<noteq> {}"
  by (auto simp: held_modes_def with_mode_def)

lemma change_freq_ok:
  assumes "timer_apb_freq h = min (cpu_freq h) 80" and "old_freq = cpu_freq h"
  shows "cpu_freq (change_freq new_freq old_freq h) = new_freq \<and> timer_apb_freq (change_freq new_freq old_freq h) = min new_freq 80"
  using assms by (auto simp: change_freq_def on_freq_update_def Let_def)

lemma do_switch_to:
  assumes "freq_ok st"
  shows "\<exists>h. do_switch m st = st\<lparr>s_mode := m, hw := h, s_config_changed := False\<rparr> \<and>
           cpu_freq h = s_cpu_freq_by_mode st m \<and> timer_apb_freq h = min (cpu_freq h) 80"
proof (cases "m = s_mode st \<and> \<not> s_config_changed st")
  case True
  then have "do_switch m st = st\<lparr>s_mode := m, hw := hw st, s_config_changed := False\<rparr>" by (simp add: do_switch_def)
  then show ?thesis using assms True by (intro exI [of _ "hw st"]) (simp add: freq_ok_def)
next
  case False
  let ?old = "if \<not> s_config_changed st then s_cpu_freq_by_mode st (s_mode st) else cpu_freq (hw st)"
  have "do_switch m st = st\<lparr>s_mode := m, hw := change_freq (s_cpu_freq_by_mode st m) ?old (hw st), s_config_changed := False\<rparr>"
    using False by (auto simp: do_switch_def)
  moreover have "cpu_freq (change_freq (s_cpu_freq_by_mode st m) ?old (hw st)) = s_cpu_freq_by_mode st m \<and>
      timer_apb_freq (change_freq (s_cpu_freq_by_mode st m) ?old (hw st)) = min (s_cpu_freq_by_mode st m) 80"
    by (rule change_freq_ok) (use assms in \<open>simp_all add: freq_ok_def\<close>)
  ultimately show ?thesis by metis
qed

text \<open>The parts of the invariant that a call of the switch takes to.\<close>

definition modes_ok :: "pm_state \<Rightarrow> bool" where
  "modes_ok st \<longleftrightarrow> counts_ok st \<and> freq_ok st \<and> \<not> s_config_changed st \<and> s_mode st = wanted_mode st"

text \<open>The switch changes these variables only.\<close>

definition only_modes :: "pm_state \<Rightarrow> pm_state \<Rightarrow> bool" where
  "only_modes st st' \<longleftrightarrow> (\<exists>mode counts mask h.
     st' = st\<lparr>s_mode := mode, s_mode_lock_counts := counts, s_mode_mask := mask, hw := h, s_config_changed := False\<rparr> \<and>
     timer_wakeup h = timer_wakeup (hw st))"

lemma wanted_mode_eq: "held_modes st' = held_modes st \<Longrightarrow> s_light_sleep_en st' = s_light_sleep_en st \<Longrightarrow> wanted_mode st' = wanted_mode st"
  by (simp add: wanted_mode_def base_mode_def)

lemma held_locks: "locks st' = locks st \<Longrightarrow> held st' = held st \<and> with_mode st' = with_mode st \<and> held_modes st' = held_modes st"
  by (simp add: held_def with_mode_def held_modes_def mode_of_def fun_eq_iff)

lemma do_switch_wakeup: "timer_wakeup (hw (do_switch m st)) = timer_wakeup (hw st)"
  by (simp add: do_switch_def change_freq_def on_freq_update_def Let_def)

lemma count_mode_form:
  "\<exists>cnt msk. snd (count_mode mode dir st) = st\<lparr>s_mode_lock_counts := cnt, s_mode_mask := msk\<rparr> \<and>
     (fst (count_mode mode dir st) = None \<or> fst (count_mode mode dir st) = Some (get_lowest_allowed_mode (snd (count_mode mode dir st))))"
  by (rule exI [of _ "s_mode_lock_counts (snd (count_mode mode dir st))"], rule exI [of _ "s_mode_mask (snd (count_mode mode dir st))"])
     (simp add: count_mode_def Let_def)

text \<open>A count that is right gives a mask that is right, and then a mode.\<close>

lemma switched:
  assumes "finite (held st1)" and "card (held st1) < 2 ^ 32" and "freq_ok st1" and "\<not> s_config_changed st1"
    and count: "count_mode mode dir st1 = (r, st2)"
    and counts: "\<forall>m. unat (s_mode_lock_counts st2 m) = card (with_mode st1 m)"
    and mask: "s_mode_mask st2 = mask_of (\<lambda>m. m \<in> held_modes st1)"
    and same: "r = None \<Longrightarrow> s_mode st1 = wanted_mode st1"
  shows "modes_ok (esp_pm_impl_switch_mode mode dir st1) \<and> only_modes st1 (esp_pm_impl_switch_mode mode dir st1)"
proof -
  obtain cnt msk where st2: "st2 = st1\<lparr>s_mode_lock_counts := cnt, s_mode_mask := msk\<rparr>"
    and r: "r = None \<or> r = Some (get_lowest_allowed_mode st2)"
    using count_mode_form [of mode dir st1] count by auto
  have locks: "locks st2 = locks st1" by (simp add: st2)
  have ok2: "counts_ok st2" using assms(1,2) counts mask held_locks [OF locks] by (simp add: counts_ok_def)
  have freq2: "freq_ok st2" "\<not> s_config_changed st2" using assms(3,4) by (simp_all add: st2 freq_ok_def)
  have wanted: "wanted_mode st2 = wanted_mode st1" by (rule wanted_mode_eq) (use held_locks [OF locks] in blast, simp add: st2)
  show ?thesis
  proof (cases r)
    case None
    then have run: "esp_pm_impl_switch_mode mode dir st1 = st2" using count by (simp add: esp_pm_impl_switch_mode_def)
    have "s_mode st2 = wanted_mode st2" using same [OF None] wanted by (simp add: st2)
    moreover have "only_modes st1 st2"
      unfolding only_modes_def st2 using assms(4) by (intro exI [of _ "s_mode st1"] exI [of _ cnt] exI [of _ msk] exI [of _ "hw st1"]) simp
    ultimately show ?thesis using ok2 freq2 run by (simp add: modes_ok_def)
  next
    case (Some m)
    then have m: "m = wanted_mode st2" using r lowest_is_wanted [of st2] ok2 by (simp add: counts_ok_def)
    have run: "esp_pm_impl_switch_mode mode dir st1 = do_switch m st2" using count Some by (simp add: esp_pm_impl_switch_mode_def)
    obtain h where h: "do_switch m st2 = st2\<lparr>s_mode := m, hw := h, s_config_changed := False\<rparr>"
      "cpu_freq h = s_cpu_freq_by_mode st2 m" "timer_apb_freq h = min (cpu_freq h) 80"
      using do_switch_to [OF freq2(1)] by blast
    have wake: "timer_wakeup h = timer_wakeup (hw st1)" using do_switch_wakeup [of m st2] h(1) by (simp add: st2)
    obtain st3 where st3: "st3 = st2\<lparr>s_mode := m, hw := h, s_config_changed := False\<rparr>" by simp
    have locks3: "locks st3 = locks st2" by (simp add: st3)
    have "counts_ok st3" using ok2 held_locks [OF locks3] by (simp add: counts_ok_def st3)
    moreover have "freq_ok st3" using h(2,3) by (simp add: freq_ok_def st3)
    moreover have "wanted_mode st3 = wanted_mode st2" by (rule wanted_mode_eq) (use held_locks [OF locks3] in blast, simp add: st3)
    moreover have "only_modes st1 st3"
      unfolding only_modes_def st3 st2 using wake by (intro exI [of _ m] exI [of _ cnt] exI [of _ msk] exI [of _ h]) simp
    ultimately show ?thesis using run h(1) m by (simp add: modes_ok_def flip: st3) (simp add: st3)
  qed
qed

section \<open>One lock\<close>

lemma count_mode_lock:
  "count_mode mode MODE_LOCK st =
     (let st1 = st\<lparr>s_mode_lock_counts := (s_mode_lock_counts st)(mode := s_mode_lock_counts st mode + 1)\<rparr>
      in if s_mode_lock_counts st mode = 0
         then let st2 = st1\<lparr>s_mode_mask := s_mode_mask st OR BIT mode\<rparr> in (Some (get_lowest_allowed_mode st2), st2)
         else (None, st1))"
  by (simp add: count_mode_def Let_def)

lemma count_mode_unlock:
  "count_mode mode MODE_UNLOCK st =
     (let st1 = st\<lparr>s_mode_lock_counts := (s_mode_lock_counts st)(mode := s_mode_lock_counts st mode - 1)\<rparr>
      in if s_mode_lock_counts st mode = 1
         then let st2 = st1\<lparr>s_mode_mask := s_mode_mask st AND NOT (BIT mode)\<rparr> in (Some (get_lowest_allowed_mode st2), st2)
         else (None, st1))"
  by (simp add: count_mode_def Let_def)

lemma modes_okD:
  assumes "modes_ok st"
  shows "finite (held st)" "unat (s_mode_lock_counts st m) = card (with_mode st m)"
    "s_mode_mask st = mask_of (\<lambda>m. m \<in> held_modes st)" "freq_ok st" "\<not> s_config_changed st" "s_mode st = wanted_mode st"
  using assms by (simp_all add: modes_ok_def counts_ok_def)

lemma count_zero: "modes_ok st \<Longrightarrow> s_mode_lock_counts st m = 0 \<longleftrightarrow> m \<notin> held_modes st"
  using modes_okD(1,2) [of st] by (simp add: held_modes_with with_mode_finite flip: unat_eq_zero)

text \<open>A lock whose count changes.\<close>

abbreviation set_count :: "esp_pm_lock_handle_t \<Rightarrow> esp_pm_lock \<Rightarrow> 32 word \<Rightarrow> pm_state \<Rightarrow> pm_state" where
  "set_count h l c st \<equiv> st\<lparr>locks := (locks st)(h \<mapsto> l\<lparr>lock_count := c\<rparr>)\<rparr>"

lemma held_set_count: "held (set_count h l c st) = (if c = 0 then held st - {h} else insert h (held st))"
  by (auto simp: held_def)

lemma mode_of_set_count: "mode_of (set_count h l c st) g = (if g = h then lock_mode l else mode_of st g)"
  by (simp add: mode_of_def)

lemma with_mode_taken:
  "c \<noteq> 0 \<Longrightarrow> h \<notin> held st \<Longrightarrow>
     with_mode (set_count h l c st) m = (if m = lock_mode l then insert h (with_mode st m) else with_mode st m)"
  by (auto simp: with_mode_def held_set_count mode_of_set_count)

lemma with_mode_given:
  "h \<in> held st \<Longrightarrow> locks st h = Some l \<Longrightarrow>
     with_mode (set_count h l 0 st) m = (if m = lock_mode l then with_mode st m - {h} else with_mode st m)"
  by (auto simp: with_mode_def held_set_count mode_of_set_count) (simp_all add: mode_of_def)

lemma lock_taken:
  assumes "modes_ok st" and "h \<notin> held st" and "c \<noteq> 0" and "card (held st) + 1 < 2 ^ 32"
  shows "modes_ok (esp_pm_impl_switch_mode (lock_mode l) MODE_LOCK (set_count h l c st)) \<and>
           only_modes (set_count h l c st) (esp_pm_impl_switch_mode (lock_mode l) MODE_LOCK (set_count h l c st))"
proof -
  let ?st1 = "set_count h l c st"
  let ?m = "lock_mode l"
  let ?old = "s_mode_lock_counts st ?m"
  note ok = modes_okD [OF assms(1)]
  note with_mode = with_mode_taken [OF assms(3,2), of l]
  have modes: "held_modes ?st1 = insert ?m (held_modes st)"
    using assms(2,3) by (auto simp: held_modes_with with_mode)
  have old: "?old = 0 \<longleftrightarrow> ?m \<notin> held_modes st" by (rule count_zero [OF assms(1)])
  have "card (with_mode st ?m) \<le> card (held st)" using ok(1) by (intro card_mono) (auto simp: with_mode_def)
  then have "unat ?old + 1 < 2 ^ 32" using ok(2) [of ?m] assms(4) by simp
  then have sum: "unat (?old + 1) = unat ?old + 1" by (simp add: unat_word_ariths)
  have "finite (with_mode st ?m)" "h \<notin> with_mode st ?m" using ok(1) assms(2) by (simp_all add: with_mode_finite) (simp add: with_mode_def)
  then have card: "card (insert h (with_mode st ?m)) = card (with_mode st ?m) + 1" by simp
  obtain r st2 where count: "count_mode ?m MODE_LOCK ?st1 = (r, st2)" by fastforce
  show ?thesis
  proof (rule switched [OF _ _ _ _ count])
    show "finite (held ?st1)" "card (held ?st1) < 2 ^ 32" using ok(1) assms(2-4) by (simp_all add: held_set_count)
    show "freq_ok ?st1" "\<not> s_config_changed ?st1" using ok(4,5) by (simp_all add: freq_ok_def)
    show "\<forall>m. unat (s_mode_lock_counts st2 m) = card (with_mode ?st1 m)"
      using count ok(2) sum card by (auto simp: count_mode_lock Let_def with_mode split: if_splits)
    have "mask_of ((\<lambda>m. m \<in> held_modes st)(?m := True)) = mask_of (\<lambda>m. m \<in> insert ?m (held_modes st))" by (simp add: mask_of_def)
    moreover have "(\<lambda>m. m \<in> insert ?m (held_modes st)) = (\<lambda>m. m \<in> held_modes st)" if "?m \<in> held_modes st"
      using that by (simp add: insert_absorb)
    ultimately show "s_mode_mask st2 = mask_of (\<lambda>m. m \<in> held_modes ?st1)"
      using count ok(3) old mask_set [of "\<lambda>m. m \<in> held_modes st" ?m]
      unfolding modes by (cases "?old = 0") (auto simp: count_mode_lock Let_def simp del: insert_iff)
    show "s_mode ?st1 = wanted_mode ?st1" if "r = None"
    proof -
      have "?m \<in> held_modes st" using that count old by (auto simp: count_mode_lock Let_def split: if_splits)
      then have "wanted_mode ?st1 = wanted_mode st" by (intro wanted_mode_eq) (simp_all add: modes insert_absorb)
      then show ?thesis using ok(6) by simp
    qed
  qed
qed

lemma lock_given:
  assumes "modes_ok st" and "h \<in> held st" and "locks st h = Some l"
  shows "modes_ok (esp_pm_impl_switch_mode (lock_mode l) MODE_UNLOCK (set_count h l 0 st)) \<and>
           only_modes (set_count h l 0 st) (esp_pm_impl_switch_mode (lock_mode l) MODE_UNLOCK (set_count h l 0 st))"
proof -
  let ?st1 = "set_count h l 0 st"
  let ?m = "lock_mode l"
  let ?old = "s_mode_lock_counts st ?m"
  note ok = modes_okD [OF assms(1)]
  note with_mode = with_mode_given [OF assms(2,3)]
  have fin: "finite (with_mode st ?m)" and h: "h \<in> with_mode st ?m"
    using ok(1) assms(2,3) by (simp_all add: with_mode_finite) (simp add: with_mode_def mode_of_def)
  then have pos: "0 < card (with_mode st ?m)" by (auto simp: card_gt_0_iff)
  then have nz: "?old \<noteq> 0" using ok(2) [of ?m] by auto
  have sub: "unat (?old - 1) = unat ?old - 1" using nz by (simp add: unat_minus_one)
  have card: "card (with_mode st ?m - {h}) = card (with_mode st ?m) - 1" using h by simp
  have one: "?old = 1 \<longleftrightarrow> with_mode st ?m = {h}"
  proof
    assume "?old = 1"
    then have "card (with_mode st ?m) = 1" using ok(2) [of ?m] by simp
    then show "with_mode st ?m = {h}" using h by (auto simp: card_1_singleton_iff)
  next
    assume "with_mode st ?m = {h}"
    then show "?old = 1" using ok(2) [of ?m] by (simp add: word_unat_eq_iff)
  qed
  have modes: "held_modes ?st1 = (if ?old = 1 then held_modes st - {?m} else held_modes st)"
  proof (rule set_eqI)
    fix m
    show "m \<in> held_modes ?st1 \<longleftrightarrow> m \<in> (if ?old = 1 then held_modes st - {?m} else held_modes st)"
      using h by (auto simp: held_modes_with with_mode one)
  qed
  obtain r st2 where count: "count_mode ?m MODE_UNLOCK ?st1 = (r, st2)" by fastforce
  show ?thesis
  proof (rule switched [OF _ _ _ _ count])
    show "finite (held ?st1)" using ok(1) by (simp add: held_set_count)
    have "card (held ?st1) \<le> card (held st)" using ok(1) by (intro card_mono) (auto simp: held_set_count)
    then show "card (held ?st1) < 2 ^ 32" using assms(1) by (simp add: modes_ok_def counts_ok_def)
    show "freq_ok ?st1" "\<not> s_config_changed ?st1" using ok(4,5) by (simp_all add: freq_ok_def)
    show "\<forall>m. unat (s_mode_lock_counts st2 m) = card (with_mode ?st1 m)"
      using count ok(2) sub card by (auto simp: count_mode_unlock Let_def with_mode split: if_splits)
    have "mask_of ((\<lambda>m. m \<in> held_modes st)(?m := False)) = mask_of (\<lambda>m. m \<in> held_modes st - {?m})" by (simp add: mask_of_def)
    then show "s_mode_mask st2 = mask_of (\<lambda>m. m \<in> held_modes ?st1)"
      using count ok(3) mask_clear [of "\<lambda>m. m \<in> held_modes st" ?m]
      by (auto simp: count_mode_unlock Let_def modes split: if_splits)
    show "s_mode ?st1 = wanted_mode ?st1" if "r = None"
    proof -
      have "?old \<noteq> 1" using that count by (auto simp: count_mode_unlock Let_def split: if_splits)
      then have "wanted_mode ?st1 = wanted_mode st" by (intro wanted_mode_eq) (simp_all add: modes)
      then show ?thesis using ok(6) by simp
    qed
  qed
qed

end
