(* ===== verification/Pm_Sleep.thy ===== *)
theory Pm_Sleep
  imports Pm
begin

text \<open>
  Automatic light sleep: the callbacks of peripherals that ask to skip it, the callbacks that run before and
  after it, and the function that the idle task calls when no task is ready.  The build has light sleep
  callbacks.  Callbacks are numbers; what they answer and how long they take are parameters.
\<close>

section \<open>Callbacks of peripherals\<close>

text \<open>The slots from one on; \<open>None\<close> when no slot is free.\<close>

fun register_slot :: "nat \<Rightarrow> nat option list \<Rightarrow> nat option list option" where
  "register_slot cb [] = None"
| "register_slot cb (slot # slots) =
     (if slot = Some cb then Some (slot # slots)
      else if slot = None then Some (Some cb # slots)
      else map_option ((#) slot) (register_slot cb slots))"

definition esp_pm_register_skip_light_sleep_callback :: "nat \<Rightarrow> pm_state \<Rightarrow> esp_err_t \<times> pm_state" where
  "esp_pm_register_skip_light_sleep_callback cb st =
     (case register_slot cb (s_periph_skip_light_sleep_cb st) of
        None \<Rightarrow> (ESP_ERR_NO_MEM, st)
      | Some slots \<Rightarrow> (ESP_OK, st\<lparr>s_periph_skip_light_sleep_cb := slots\<rparr>))"

fun unregister_slot :: "nat \<Rightarrow> nat option list \<Rightarrow> nat option list option" where
  "unregister_slot cb [] = None"
| "unregister_slot cb (slot # slots) =
     (if slot = Some cb then Some (None # slots) else map_option ((#) slot) (unregister_slot cb slots))"

definition esp_pm_unregister_skip_light_sleep_callback :: "nat \<Rightarrow> pm_state \<Rightarrow> esp_err_t \<times> pm_state" where
  "esp_pm_unregister_skip_light_sleep_callback cb st =
     (case unregister_slot cb (s_periph_skip_light_sleep_cb st) of
        None \<Rightarrow> (ESP_ERR_INVALID_STATE, st)
      | Some slots \<Rightarrow> (ESP_OK, st\<lparr>s_periph_skip_light_sleep_cb := slots\<rparr>))"

section \<open>Callbacks around light sleep\<close>

record esp_pm_sleep_cb_config_t =
  cb_block :: nat
  cb :: nat
  cb_arg :: nat
  prior :: "32 word"

text \<open>The two lists and the heap of their nodes.\<close>

record pm_sleep_cbs =
  s_light_sleep_enter_cb_config :: "esp_pm_sleep_cb_config_t list"
  s_light_sleep_exit_cb_config :: "esp_pm_sleep_cb_config_t list"
  cbs_heap :: block_heap

text \<open>What is registered; a callback may be missing.\<close>

record esp_pm_sleep_cbs_register_config_t =
  enter_cb :: "nat option"
  exit_cb :: "nat option"
  enter_cb_user_arg :: nat
  exit_cb_user_arg :: nat
  enter_cb_prior :: "32 word"
  exit_cb_prior :: "32 word"

text \<open>The pointer walks to the end of the list in search of the callback, and then on while the priority of the
  node is not greater.\<close>

fun seek_cb :: "nat \<Rightarrow> esp_pm_sleep_cb_config_t list \<Rightarrow> nat \<Rightarrow> nat option" where
  "seek_cb f [] pos = Some pos"
| "seek_cb f (c # cs) pos = (if cb c = f then None else seek_cb f cs (pos + 1))"

fun seek_prior :: "32 word \<Rightarrow> esp_pm_sleep_cb_config_t list \<Rightarrow> nat \<Rightarrow> nat" where
  "seek_prior p [] pos = pos"
| "seek_prior p (c # cs) pos = (if prior c \<le> p then seek_prior p cs (pos + 1) else pos)"

definition register_cb ::
  "nat \<Rightarrow> nat \<Rightarrow> 32 word \<Rightarrow> esp_pm_sleep_cb_config_t list \<Rightarrow> block_heap \<Rightarrow> esp_err_t \<times> esp_pm_sleep_cb_config_t list \<times> block_heap" where
  "register_cb f arg p cs H =
     (case seek_cb f cs 0 of
        None \<Rightarrow> (ESP_FAIL, cs, H)
      | Some pos \<Rightarrow>
          (case calloc H of
             (None, H1) \<Rightarrow> (ESP_ERR_NO_MEM, cs, H1)
           | (Some a, H1) \<Rightarrow>
               let here = seek_prior p (drop pos cs) pos
               in (ESP_OK, take here cs @ \<lparr>cb_block = a, cb = f, cb_arg = arg, prior = p\<rparr> # drop here cs, H1)))"

definition esp_pm_light_sleep_register_cbs ::
  "esp_pm_sleep_cbs_register_config_t \<Rightarrow> pm_sleep_cbs \<Rightarrow> esp_err_t \<times> pm_sleep_cbs" where
  "esp_pm_light_sleep_register_cbs conf s =
     (if enter_cb conf = None \<and> exit_cb conf = None then (ESP_ERR_INVALID_ARG, s)
      else
        let (err, cs, H) =
              (case enter_cb conf of
                 None \<Rightarrow> (ESP_OK, s_light_sleep_enter_cb_config s, cbs_heap s)
               | Some f \<Rightarrow> register_cb f (enter_cb_user_arg conf) (enter_cb_prior conf) (s_light_sleep_enter_cb_config s) (cbs_heap s));
            s1 = s\<lparr>s_light_sleep_enter_cb_config := cs, cbs_heap := H\<rparr>
        in if err \<noteq> ESP_OK then (err, s1)
           else case exit_cb conf of
                  None \<Rightarrow> (ESP_OK, s1)
                | Some f \<Rightarrow>
                    let (err1, cs1, H1) = register_cb f (exit_cb_user_arg conf) (exit_cb_prior conf) (s_light_sleep_exit_cb_config s1) (cbs_heap s1)
                    in (err1, s1\<lparr>s_light_sleep_exit_cb_config := cs1, cbs_heap := H1\<rparr>))"

fun unregister_cb :: "nat \<Rightarrow> esp_pm_sleep_cb_config_t list \<Rightarrow> block_heap \<Rightarrow> esp_pm_sleep_cb_config_t list \<times> block_heap" where
  "unregister_cb f [] H = ([], H)"
| "unregister_cb f (c # cs) H =
     (if cb c = f then (cs, heap_free (cb_block c) H) else (let (cs1, H1) = unregister_cb f cs H in (c # cs1, H1)))"

definition esp_pm_light_sleep_unregister_cbs ::
  "esp_pm_sleep_cbs_register_config_t \<Rightarrow> pm_sleep_cbs \<Rightarrow> esp_err_t \<times> pm_sleep_cbs" where
  "esp_pm_light_sleep_unregister_cbs conf s =
     (if enter_cb conf = None \<and> exit_cb conf = None then (ESP_ERR_INVALID_ARG, s)
      else
        let (cs, H) = (case enter_cb conf of None \<Rightarrow> (s_light_sleep_enter_cb_config s, cbs_heap s)
                       | Some f \<Rightarrow> unregister_cb f (s_light_sleep_enter_cb_config s) (cbs_heap s));
            (cs1, H1) = (case exit_cb conf of None \<Rightarrow> (s_light_sleep_exit_cb_config s, H)
                         | Some f \<Rightarrow> unregister_cb f (s_light_sleep_exit_cb_config s) H)
        in (ESP_OK, s\<lparr>s_light_sleep_enter_cb_config := cs, s_light_sleep_exit_cb_config := cs1, cbs_heap := H1\<rparr>))"

text \<open>The calls that are made: function, time, argument.\<close>

definition execute_callbacks :: "int \<Rightarrow> esp_pm_sleep_cb_config_t list \<Rightarrow> (nat \<times> int \<times> nat) list" where
  "execute_callbacks sleep_time_us cs = map (\<lambda>c. (cb c, sleep_time_us, cb_arg c)) cs"

definition esp_pm_execute_enter_sleep_callbacks :: "int \<Rightarrow> pm_sleep_cbs \<Rightarrow> (nat \<times> int \<times> nat) list" where
  "esp_pm_execute_enter_sleep_callbacks t s = execute_callbacks t (s_light_sleep_enter_cb_config s)"

definition esp_pm_execute_exit_sleep_callbacks :: "int \<Rightarrow> pm_sleep_cbs \<Rightarrow> (nat \<times> int \<times> nat) list" where
  "esp_pm_execute_exit_sleep_callbacks t s = execute_callbacks t (s_light_sleep_exit_cb_config s)"

section \<open>The sleep\<close>

definition should_skip_light_sleep :: "(nat \<Rightarrow> bool) \<Rightarrow> nat \<Rightarrow> pm_state \<Rightarrow> bool \<times> pm_state" where
  "should_skip_light_sleep asks core_id st =
     (if cores st = 2 \<and> s_skip_light_sleep st ! core_id
      then (True, st\<lparr>s_skip_light_sleep := (s_skip_light_sleep st)[core_id := False],
                     s_skipped_light_sleep := (s_skipped_light_sleep st)[core_id := True]\<rparr>)
      else let skip = (s_mode st \<noteq> PM_MODE_LIGHT_SLEEP \<or> periph_should_skip_light_sleep asks st)
           in (skip, st\<lparr>s_skipped_light_sleep := (s_skipped_light_sleep st)[core_id := skip]\<rparr>))"

definition other_core_should_skip_light_sleep :: "nat \<Rightarrow> pm_state \<Rightarrow> pm_state" where
  "other_core_should_skip_light_sleep core_id st =
     (if cores st = 2 then st\<lparr>s_skip_light_sleep := (s_skip_light_sleep st)[1 - core_id := True]\<rparr> else st)"

definition LIGHT_SLEEP_EARLY_WAKEUP_US :: int where "LIGHT_SLEEP_EARLY_WAKEUP_US = 100"

text \<open>The clock and the chip: the next alarm, the time, the length of a tick in ms, the least number of ticks to
  sleep for, the time that the first callbacks take, and the time spent asleep, which is not negative.  Times are in us.\<close>

record sleep_env =
  next_esp_timer_alarm :: int
  esp_timer_now :: int
  portTICK_PERIOD_MS :: int
  configEXPECTED_IDLE_TIME_BEFORE_SLEEP :: int
  callbacks_took :: int
  time_asleep :: int

text \<open>What happened: the calls before, the wake-up time when the chip slept, the ticks that are made up (none when zero), and the calls after.\<close>

record sleep_outcome =
  enter_calls :: "(nat \<times> int \<times> nat) list"
  slept_for :: "int option"
  stepped_ticks :: "32 word"
  exit_calls :: "(nat \<times> int \<times> nat) list"

definition vApplicationSleep ::
  "(nat \<Rightarrow> bool) \<Rightarrow> sleep_env \<Rightarrow> pm_sleep_cbs \<Rightarrow> nat \<Rightarrow> int \<Rightarrow> pm_state \<Rightarrow> sleep_outcome \<times> pm_state" where
  "vApplicationSleep asks env cbs core_id xExpectedIdleTime st =
     (let (skip, st1) = should_skip_light_sleep asks core_id st
      in if skip then (\<lparr>enter_calls = [], slept_for = None, stepped_ticks = 0, exit_calls = []\<rparr>, st1)
         else let time_until_next_alarm = next_esp_timer_alarm env - esp_timer_now env;
                  wakeup_delay_us = portTICK_PERIOD_MS env * 1000 * xExpectedIdleTime;
                  sleep_time_us = min wakeup_delay_us time_until_next_alarm;
                  before = esp_pm_execute_enter_sleep_callbacks sleep_time_us cbs;
                  sleep_time_us1 = sleep_time_us - callbacks_took env
              in if configEXPECTED_IDLE_TIME_BEFORE_SLEEP env * portTICK_PERIOD_MS env * 1000 \<le> sleep_time_us1
                 then let wakeup = sleep_time_us1 - LIGHT_SLEEP_EARLY_WAKEUP_US;
                          st2 = set_hw (\<lambda>h. h\<lparr>timer_wakeup := Some wakeup\<rparr>) st1;
                          slept_us = time_asleep env;
                          slept_ticks = word_of_int (slept_us div (portTICK_PERIOD_MS env * 1000))
                      in (\<lparr>enter_calls = before, slept_for = Some wakeup, stepped_ticks = slept_ticks,
                           exit_calls = esp_pm_execute_exit_sleep_callbacks slept_us cbs\<rparr>,
                          other_core_should_skip_light_sleep core_id st2)
                 else (\<lparr>enter_calls = before, slept_for = None, stepped_ticks = 0,
                        exit_calls = esp_pm_execute_exit_sleep_callbacks 0 cbs\<rparr>, st1))"

section \<open>What a sleep needs\<close>

lemma sleep_is_allowed:
  assumes "vApplicationSleep asks env cbs core_id idle st = (out, st')" and "slept_for out = Some us"
  shows "s_mode st = PM_MODE_LIGHT_SLEEP" "\<not> periph_should_skip_light_sleep asks st" "timer_wakeup (hw st') = Some us"
    "us + LIGHT_SLEEP_EARLY_WAKEUP_US + callbacks_took env =
       min (portTICK_PERIOD_MS env * 1000 * idle) (next_esp_timer_alarm env - esp_timer_now env)"
  using assms
  by (auto simp: vApplicationSleep_def should_skip_light_sleep_def other_core_should_skip_light_sleep_def Let_def split: if_splits prod.splits)

section \<open>The order of the callbacks\<close>

text \<open>A new callback is called last, whatever its priority: the search for a duplicate ends at the end of the list.\<close>

lemma seek_cb_end: "seek_cb f cs pos = (if \<exists>c \<in> set cs. cb c = f then None else Some (pos + length cs))"
  by (induction cs arbitrary: pos) auto

theorem new_callback_goes_last:
  "register_cb f arg p cs H =
     (if \<exists>c \<in> set cs. cb c = f then (ESP_FAIL, cs, H)
      else case calloc H of
        (None, H1) \<Rightarrow> (ESP_ERR_NO_MEM, cs, H1)
      | (Some a, H1) \<Rightarrow> (ESP_OK, cs @ [\<lparr>cb_block = a, cb = f, cb_arg = arg, prior = p\<rparr>], H1))"
  by (auto simp: register_cb_def seek_cb_end split: option.split prod.split)

text \<open>When the exit callback is a duplicate, the call fails, but the enter callback stays.\<close>

theorem failed_registration_leaves_a_callback:
  assumes "\<forall>c \<in> set (s_light_sleep_enter_cb_config s). cb c \<noteq> f" and "c \<in> set (s_light_sleep_exit_cb_config s)" and "cb c = g"
    and "calloc (cbs_heap s) = (Some a, H1)" and "enter_cb conf = Some f" and "exit_cb conf = Some g"
  shows "\<exists>s'. esp_pm_light_sleep_register_cbs conf s = (ESP_FAIL, s') \<and>
    f \<in> cb ` set (s_light_sleep_enter_cb_config s') \<and> length (s_light_sleep_enter_cb_config s') = length (s_light_sleep_enter_cb_config s) + 1"
proof -
  have "\<not> (\<exists>c \<in> set (s_light_sleep_enter_cb_config s). cb c = f)" "(\<exists>c \<in> set (s_light_sleep_exit_cb_config s). cb c = g) = True"
    using assms(1-3) by auto
  then show ?thesis using assms(4-6) by (simp add: esp_pm_light_sleep_register_cbs_def new_callback_goes_last Let_def)
qed

text \<open>A callback registered again after the slot before it is free takes two slots; unregistered once, it is still asked.\<close>

theorem skip_callback_twice:
  assumes "f \<noteq> g"
  shows "register_slot f [None, None] = Some [Some f, None]" "register_slot g [Some f, None] = Some [Some f, Some g]"
    "unregister_slot f [Some f, Some g] = Some [None, Some g]" "register_slot g [None, Some g] = Some [Some g, Some g]"
    "unregister_slot g [Some g, Some g] = Some [None, Some g]"
  using assms by simp_all

end
