(* ===== verification/Pm_Session.thy ===== *)
theory Pm_Session
  imports Pm_Inv Pm_Sleep
begin

text \<open>The invariant of power management, through every call that tasks, the idle task and interrupts make.\<close>

section \<open>The invariant\<close>

text \<open>The list holds the locks that exist, and counts are bounded by the number of calls.\<close>

definition locks_listed :: "nat \<Rightarrow> pm_state \<Rightarrow> bool" where
  "locks_listed n st \<longleftrightarrow>
     finite (dom (locks st)) \<and> card (dom (locks st)) \<le> n \<and> set (s_list st) = dom (locks st) \<and> distinct (s_list st) \<and>
     dom (locks st) \<subseteq> set (live (pm_heap st)) \<and> heap_ok (pm_heap st) \<and>
     (\<forall>h l. locks st h = Some l \<longrightarrow> unat (lock_count l) \<le> n \<and> esp_pm_impl_get_mode (lock_type l) = Some (lock_mode l))"

text \<open>Each core has a lock of its own, which is taken once, unless the core is idle.\<close>

definition rtos_lock_ok :: "pm_state \<Rightarrow> nat \<Rightarrow> bool" where
  "rtos_lock_ok st c \<longleftrightarrow>
     (\<exists>h l. s_rtos_lock_handle st ! c = Some h \<and> locks st h = Some l \<and> lock_mode l = PM_MODE_CPU_MAX \<and>
            lock_count l = (if s_core_idle st ! c then 0 else 1))"

definition rtos_ok :: "pm_state \<Rightarrow> bool" where
  "rtos_ok st \<longleftrightarrow>
     length (s_rtos_lock_handle st) = cores st \<and> distinct (s_rtos_lock_handle st) \<and> (\<forall>c < cores st. rtos_lock_ok st c)"

definition pm_ok :: "nat \<Rightarrow> pm_state \<Rightarrow> bool" where
  "pm_ok n st \<longleftrightarrow> modes_ok st \<and> locks_listed n st \<and> rtos_ok st"

lemma only_modesD:
  assumes "only_modes st st'"
  shows "locks st' = locks st" "s_list st' = s_list st" "pm_heap st' = pm_heap st" "s_core_idle st' = s_core_idle st"
    "s_rtos_lock_handle st' = s_rtos_lock_handle st" "s_light_sleep_en st' = s_light_sleep_en st"
    "s_cpu_freq_by_mode st' = s_cpu_freq_by_mode st" "timer_wakeup (hw st') = timer_wakeup (hw st)"
  using assms by (auto simp: only_modes_def)

lemma only_modes_refl: "\<not> s_config_changed st \<Longrightarrow> only_modes st st"
  unfolding only_modes_def
  by (rule exI [of _ "s_mode st"], rule exI [of _ "s_mode_lock_counts st"], rule exI [of _ "s_mode_mask st"], rule exI [of _ "hw st"]) simp

lemma table_ok_same:
  "locks st' = locks st \<Longrightarrow> s_list st' = s_list st \<Longrightarrow> pm_heap st' = pm_heap st \<Longrightarrow> locks_listed n st' \<longleftrightarrow> locks_listed n st"
  by (simp add: locks_listed_def)

lemma table_ok_later: "locks_listed n st \<Longrightarrow> n \<le> k \<Longrightarrow> locks_listed k st"
  unfolding locks_listed_def by (meson order_trans)

lemma table_ok_count:
  assumes "locks_listed n st" and "locks st h = Some l" and "unat c \<le> n"
  shows "locks_listed n (set_count h l c st)"
  using assms by (auto simp: locks_listed_def insert_absorb domI)

lemma held_below: "locks_listed n st \<Longrightarrow> card (held st) \<le> n"
  by (rule order_trans [OF card_mono [of "dom (locks st)"]]) (auto simp: locks_listed_def held_def)

section \<open>Taking and giving a lock\<close>

text \<open>A lock that stays held.\<close>

lemma modes_ok_recount:
  assumes "modes_ok st" and "locks st h = Some l" and "lock_count l \<noteq> 0" and "c \<noteq> 0"
  shows "modes_ok (set_count h l c st)"
proof -
  have same: "held (set_count h l c st) = held st"
    using assms(2-4) by (auto simp: held_set_count) (auto simp: held_def)
  have mode: "mode_of (set_count h l c st) = mode_of st" using assms(2) by (auto simp: fun_eq_iff mode_of_def)
  have "with_mode (set_count h l c st) = with_mode st" "held_modes (set_count h l c st) = held_modes st"
    by (simp_all add: with_mode_def held_modes_def same mode fun_eq_iff)
  moreover have "wanted_mode (set_count h l c st) = wanted_mode st" using calculation by (intro wanted_mode_eq) simp_all
  ultimately show ?thesis using assms(1) by (simp add: modes_ok_def counts_ok_def freq_ok_def same)
qed

lemma unat_Suc: "unat (c :: 32 word) + 1 < 2 ^ 32 \<Longrightarrow> unat (c + 1) = unat c + 1"
  by (simp add: unat_word_ariths)

lemma lock_acquire_ok:
  assumes "modes_ok st" and "locks_listed n st" and "locks st h = Some l" and "n + 1 < 2 ^ 32"
  shows "\<exists>st'. esp_pm_lock_acquire (Some h) st = Some (ESP_OK, st') \<and> modes_ok st' \<and> locks_listed (n + 1) st' \<and>
           only_modes (set_count h l (lock_count l + 1) st) st'"
proof -
  have "unat (lock_count l) \<le> n" using assms(2,3) by (auto simp: locks_listed_def)
  then have count: "unat (lock_count l + 1) = unat (lock_count l) + 1" "unat (lock_count l + 1) \<le> n + 1"
    using assms(4) unat_Suc [of "lock_count l"] by auto
  then have nz: "lock_count l + 1 \<noteq> 0" by auto
  let ?st1 = "set_count h l (lock_count l + 1) st"
  have table: "locks_listed (n + 1) ?st1" by (rule table_ok_count [OF table_ok_later [OF assms(2)] assms(3) count(2)]) simp
  show ?thesis
  proof (cases "lock_count l = 0")
    case True
    then have "h \<notin> held st" using assms(3) by (simp add: held_def)
    moreover have "card (held st) + 1 < 2 ^ 32" using held_below [OF assms(2)] assms(4) by linarith
    ultimately have taken: "modes_ok (esp_pm_impl_switch_mode (lock_mode l) MODE_LOCK ?st1)"
      "only_modes ?st1 (esp_pm_impl_switch_mode (lock_mode l) MODE_LOCK ?st1)"
      using lock_taken [OF assms(1) _ nz, of h l] by simp_all
    have "locks_listed (n + 1) (esp_pm_impl_switch_mode (lock_mode l) MODE_LOCK ?st1)"
      using table table_ok_same [of "esp_pm_impl_switch_mode (lock_mode l) MODE_LOCK ?st1" ?st1] only_modesD [OF taken(2)] by simp
    then show ?thesis using taken True assms(3) by (simp add: esp_pm_lock_acquire_def)
  next
    case False
    then have "modes_ok ?st1" by (rule modes_ok_recount [OF assms(1,3) _ nz])
    moreover from this have "only_modes ?st1 ?st1" using modes_okD(5) [of ?st1] by (intro only_modes_refl) simp
    ultimately show ?thesis using table False assms(3) by (simp add: esp_pm_lock_acquire_def)
  qed
qed

lemma release_ok:
  assumes "modes_ok st" and "locks_listed n st" and "locks st h = Some l"
  shows "\<exists>err st'. esp_pm_lock_release (Some h) st = Some (err, st') \<and> modes_ok st' \<and> locks_listed n st' \<and>
           (if lock_count l = 0 then err = ESP_ERR_INVALID_STATE \<and> st' = st
            else err = ESP_OK \<and> only_modes (set_count h l (lock_count l - 1) st) st')"
proof (cases "lock_count l = 0")
  case True
  then show ?thesis using assms by (simp add: esp_pm_lock_release_def)
next
  case False
  have "unat (lock_count l) \<le> n" using assms(2,3) by (auto simp: locks_listed_def)
  then have "unat (lock_count l - 1) \<le> n" using False by (simp add: unat_minus_one)
  then have table: "locks_listed n (set_count h l (lock_count l - 1) st)" by (rule table_ok_count [OF assms(2,3)])
  show ?thesis
  proof (cases "lock_count l = 1")
    case True
    let ?st1 = "set_count h l 0 st"
    have "h \<in> held st" using assms(3) False by (simp add: held_def)
    then have given: "modes_ok (esp_pm_impl_switch_mode (lock_mode l) MODE_UNLOCK ?st1)"
      "only_modes ?st1 (esp_pm_impl_switch_mode (lock_mode l) MODE_UNLOCK ?st1)"
      using lock_given [OF assms(1) _ assms(3)] by simp_all
    have "locks_listed n (esp_pm_impl_switch_mode (lock_mode l) MODE_UNLOCK ?st1)"
      using table True table_ok_same [of "esp_pm_impl_switch_mode (lock_mode l) MODE_UNLOCK ?st1" ?st1] only_modesD [OF given(2)] by simp
    then show ?thesis using given True assms(3) by (simp add: esp_pm_lock_release_def)
  next
    case False
    then have nz: "lock_count l - 1 \<noteq> 0" by simp
    have "modes_ok (set_count h l (lock_count l - 1) st)" by (rule modes_ok_recount [OF assms(1,3) \<open>lock_count l \<noteq> 0\<close> nz])
    moreover from this have "only_modes (set_count h l (lock_count l - 1) st) (set_count h l (lock_count l - 1) st)"
      using modes_okD(5) by (intro only_modes_refl) blast
    ultimately show ?thesis using table nz \<open>lock_count l \<noteq> 0\<close> assms(3) by (simp add: esp_pm_lock_release_def)
  qed
qed

section \<open>Variables that the modes do not depend on\<close>

lemmas modes_defs = modes_ok_def counts_ok_def freq_ok_def wanted_mode_def base_mode_def held_modes_def with_mode_def held_def mode_of_def

lemma modes_ok_other [simp]:
  "modes_ok (st\<lparr>s_core_idle := a\<rparr>) = modes_ok st" "modes_ok (st\<lparr>s_skipped_light_sleep := b\<rparr>) = modes_ok st"
  "modes_ok (st\<lparr>s_skip_light_sleep := c\<rparr>) = modes_ok st" "modes_ok (st\<lparr>s_periph_skip_light_sleep_cb := d\<rparr>) = modes_ok st"
  "modes_ok (st\<lparr>hw := (hw st)\<lparr>timer_wakeup := e\<rparr>\<rparr>) = modes_ok st" "modes_ok (st\<lparr>pm_heap := H\<rparr>) = modes_ok st"
  "modes_ok (st\<lparr>s_skipped_light_sleep := b, hw := (hw st)\<lparr>timer_wakeup := e\<rparr>\<rparr>) = modes_ok st"
  by (simp_all add: modes_defs)

lemma rtos_ok_other [simp]:
  "rtos_ok (st\<lparr>s_skipped_light_sleep := b\<rparr>) = rtos_ok st" "rtos_ok (st\<lparr>s_skip_light_sleep := c\<rparr>) = rtos_ok st"
  "rtos_ok (st\<lparr>s_periph_skip_light_sleep_cb := d\<rparr>) = rtos_ok st" "rtos_ok (st\<lparr>hw := h\<rparr>) = rtos_ok st" "rtos_ok (st\<lparr>pm_heap := H\<rparr>) = rtos_ok st"
  by (simp_all add: rtos_ok_def rtos_lock_ok_def)

lemma table_ok_other [simp]:
  "locks_listed n (st\<lparr>s_core_idle := a\<rparr>) = locks_listed n st" "locks_listed n (st\<lparr>s_skipped_light_sleep := b\<rparr>) = locks_listed n st"
  "locks_listed n (st\<lparr>s_skip_light_sleep := c\<rparr>) = locks_listed n st" "locks_listed n (st\<lparr>s_periph_skip_light_sleep_cb := d\<rparr>) = locks_listed n st"
  "locks_listed n (st\<lparr>hw := h\<rparr>) = locks_listed n st"
  by (simp_all add: locks_listed_def)

section \<open>The locks of the cores\<close>

definition user_handle :: "pm_state \<Rightarrow> esp_pm_lock_handle_t option \<Rightarrow> bool" where
  "user_handle st handle \<longleftrightarrow> (handle = None \<or> handle \<notin> set (s_rtos_lock_handle st) \<and> locks st (the handle) \<noteq> None)"

lemma rtos_ok_keep:
  assumes "rtos_ok st" and "s_rtos_lock_handle st' = s_rtos_lock_handle st" and "s_core_idle st' = s_core_idle st"
    and "\<And>h. Some h \<in> set (s_rtos_lock_handle st) \<Longrightarrow> locks st' h = locks st h"
  shows "rtos_ok st'"
proof -
  have "rtos_lock_ok st' c" if c: "c < cores st" for c
  proof -
    obtain h l where h: "s_rtos_lock_handle st ! c = Some h" "locks st h = Some l" "lock_mode l = PM_MODE_CPU_MAX"
      "lock_count l = (if s_core_idle st ! c then 0 else 1)"
      using assms(1) c by (auto simp: rtos_ok_def rtos_lock_ok_def)
    then have "Some h \<in> set (s_rtos_lock_handle st)" using assms(1) c by (metis nth_mem rtos_ok_def)
    then show ?thesis using h assms(2-4) by (auto simp: rtos_lock_ok_def)
  qed
  then show ?thesis using assms(1-3) by (simp add: rtos_ok_def)
qed

lemma rtos_lock:
  assumes "rtos_ok st" and "c < cores st"
  obtains h l where "s_rtos_lock_handle st ! c = Some h" "locks st h = Some l" "lock_mode l = PM_MODE_CPU_MAX"
    "lock_count l = (if s_core_idle st ! c then 0 else 1)"
  using assms by (auto simp: rtos_ok_def rtos_lock_ok_def)

lemma rtos_ok_count:
  assumes "rtos_ok st" and "c < cores st" and "s_rtos_lock_handle st ! c = Some h" and "locks st h = Some l"
    and "k = (if b then 0 else 1)"
    and "locks st' = (locks st)(h \<mapsto> l\<lparr>lock_count := k\<rparr>)" and "s_rtos_lock_handle st' = s_rtos_lock_handle st"
    and "s_core_idle st' = (s_core_idle st)[c := b]"
  shows "rtos_ok st'"
proof -
  have "lock_mode l = PM_MODE_CPU_MAX" using rtos_lock [OF assms(1,2)] assms(3,4) by force
  moreover have "s_rtos_lock_handle st ! d \<noteq> Some h" if "d < cores st" and "d \<noteq> c" for d
    using assms(1-3) that by (metis nth_eq_iff_index_eq rtos_ok_def)
  ultimately show ?thesis using assms by (fastforce simp: rtos_ok_def rtos_lock_ok_def nth_list_update)
qed

lemma awake_holds:
  assumes "rtos_ok st" and "c < cores st" and "\<not> s_core_idle st ! c"
  shows "PM_MODE_CPU_MAX \<in> held_modes st"
proof -
  obtain h l where "locks st h = Some l" "lock_mode l = PM_MODE_CPU_MAX" "lock_count l = 1"
    using rtos_lock [OF assms(1,2)] assms(3) by metis
  then show ?thesis by (force simp: held_modes_def held_def mode_of_def image_iff)
qed

lemma leave_idle_ok:
  assumes "pm_ok n st" and "c < cores st" and "n + 1 < 2 ^ 32"
  shows "\<exists>st'. leave_idle c st = Some st' \<and> pm_ok (n + 1) st' \<and> cores st' = cores st"
proof (cases "s_core_idle st ! c")
  case False
  then show ?thesis using assms table_ok_later [of n st "n + 1"] by (simp add: leave_idle_def pm_ok_def)
next
  case True
  have ok: "modes_ok st" "locks_listed n st" "rtos_ok st" using assms(1) by (simp_all add: pm_ok_def)
  obtain h l where h: "s_rtos_lock_handle st ! c = Some h" "locks st h = Some l" "lock_count l = 0"
    using rtos_lock [OF ok(3) assms(2)] True by metis
  obtain st1 where st1: "esp_pm_lock_acquire (Some h) st = Some (ESP_OK, st1)" "modes_ok st1" "locks_listed (n + 1) st1"
    "only_modes (set_count h l 1 st) st1"
    using lock_acquire_ok [OF ok(1,2) h(2) assms(3)] h(3) by auto
  have "rtos_ok (st1\<lparr>s_core_idle := (s_core_idle st1)[c := False]\<rparr>)"
    by (rule rtos_ok_count [OF ok(3) assms(2) h(1,2), of 1 False]) (use only_modesD [OF st1(4)] in simp_all)
  then show ?thesis using True h(1) st1 only_modesD [OF st1(4)] by (simp add: leave_idle_def pm_ok_def)
qed

lemma idle_hook_ok:
  assumes "pm_ok n st" and "c < cores st"
  shows "\<exists>st'. esp_pm_impl_idle_hook asks c st = Some st' \<and> pm_ok n st' \<and> cores st' = cores st"
proof (cases "\<not> s_core_idle st ! c \<and> \<not> periph_should_skip_light_sleep asks st")
  case False
  then show ?thesis using assms by (auto simp: esp_pm_impl_idle_hook_def)
next
  case True
  have ok: "modes_ok st" "locks_listed n st" "rtos_ok st" using assms(1) by (simp_all add: pm_ok_def)
  obtain h l where h: "s_rtos_lock_handle st ! c = Some h" "locks st h = Some l" "lock_count l = 1"
    using rtos_lock [OF ok(3) assms(2)] True by metis
  obtain st1 where st1: "esp_pm_lock_release (Some h) st = Some (ESP_OK, st1)" "modes_ok st1" "locks_listed n st1"
    "only_modes (set_count h l 0 st) st1"
    using release_ok [OF ok(1,2) h(2)] h(3) by auto
  have "rtos_ok (st1\<lparr>s_core_idle := (s_core_idle st1)[c := True]\<rparr>)"
    by (rule rtos_ok_count [OF ok(3) assms(2) h(1,2), of 0 True]) (use only_modesD [OF st1(4)] in simp_all)
  then show ?thesis using True h(1) st1 only_modesD [OF st1(4)] by (simp add: esp_pm_impl_idle_hook_def pm_ok_def)
qed

section \<open>Calls of tasks\<close>

lemma held_modes_held: "held st' = held st \<Longrightarrow> (\<And>h. h \<in> held st \<Longrightarrow> locks st' h = locks st h) \<Longrightarrow>
    with_mode st' = with_mode st \<and> held_modes st' = held_modes st"
  by (auto simp: with_mode_def held_modes_def mode_of_def fun_eq_iff image_iff)

text \<open>A lock that is not held comes or goes.\<close>

lemma modes_ok_locks:
  assumes "modes_ok st" and "held (st\<lparr>locks := L\<rparr>) = held st" and "\<And>h. h \<in> held st \<Longrightarrow> L h = locks st h"
  shows "modes_ok (st\<lparr>locks := L\<rparr>)"
proof -
  have "with_mode (st\<lparr>locks := L\<rparr>) = with_mode st \<and> held_modes (st\<lparr>locks := L\<rparr>) = held_modes st"
    by (rule held_modes_held) (use assms in simp_all)
  moreover from this have "wanted_mode (st\<lparr>locks := L\<rparr>) = wanted_mode st" by (intro wanted_mode_eq) simp_all
  ultimately show ?thesis using assms(1,2) by (simp add: modes_ok_def counts_ok_def freq_ok_def)
qed

lemma modes_ok_list [simp]: "modes_ok (st\<lparr>s_list := xs\<rparr>) = modes_ok st" "rtos_ok (st\<lparr>s_list := xs\<rparr>) = rtos_ok st"
  by (simp_all add: modes_defs rtos_ok_def rtos_lock_ok_def)

lemma create_ok:
  assumes "pm_ok n st" and "type \<noteq> ESP_PM_LOCK_MAX"
  shows "\<exists>r st'. esp_pm_lock_create type arg name has_handle st = Some (r, st') \<and> pm_ok (n + 1) st' \<and> cores st' = cores st"
proof -
  have ok: "modes_ok st" "locks_listed n st" "rtos_ok st" using assms(1) by (simp_all add: pm_ok_def)
  have later: "locks_listed (n + 1) st" using table_ok_later [OF ok(2)] by simp
  obtain mode where mode: "esp_pm_impl_get_mode type = Some mode" using assms(2) by (cases type) (simp_all add: esp_pm_impl_get_mode_def)
  obtain q H where q: "calloc (pm_heap st) = (q, H)" by fastforce
  consider "\<not> has_handle" | "has_handle" "q = None" | a where "has_handle" "q = Some a" by (cases has_handle; cases q) auto
  then show ?thesis
  proof cases
    case 1
    then show ?thesis using ok later by (simp add: esp_pm_lock_create_def pm_ok_def)
  next
    case 2
    then have "locks_listed (n + 1) (st\<lparr>pm_heap := H\<rparr>)" using later calloc_None [of "pm_heap st" H] q by (simp add: locks_listed_def)
    then show ?thesis using 2 ok q by (simp add: esp_pm_lock_create_def pm_ok_def)
  next
    case 3
    let ?l = "\<lparr>lock_type = type, lock_arg = arg, lock_mode = mode, lock_name = name, lock_count = 0\<rparr>"
    let ?L = "(locks st)(a \<mapsto> ?l)"
    note fresh = calloc_Some [OF q [unfolded 3(2)]]
    have a: "locks st a = None" "a \<notin> set (s_list st)" using fresh ok(2) by (auto simp: locks_listed_def)
    have held: "held (st\<lparr>locks := ?L\<rparr>) = held st" using a by (auto simp: held_def)
    have "modes_ok (st\<lparr>locks := ?L\<rparr>)" by (rule modes_ok_locks [OF ok(1) held]) (use a in \<open>auto simp: held_def\<close>)
    then have modes: "modes_ok (st\<lparr>pm_heap := H, locks := ?L, s_list := a # s_list st\<rparr>)" by (simp add: modes_defs)
    have table: "locks_listed (n + 1) (st\<lparr>pm_heap := H, locks := ?L, s_list := a # s_list st\<rparr>)"
      using later ok(2) fresh a mode by (auto simp: locks_listed_def domIff card_insert_if)
    have rtos: "rtos_ok (st\<lparr>pm_heap := H, locks := ?L, s_list := a # s_list st\<rparr>)"
    proof (rule rtos_ok_keep [OF ok(3)])
      fix h
      assume "Some h \<in> set (s_rtos_lock_handle st)"
      then obtain c where "c < cores st" "s_rtos_lock_handle st ! c = Some h" using ok(3) by (metis in_set_conv_nth rtos_ok_def)
      then have "h \<noteq> a" using rtos_lock [OF ok(3)] a by (metis option.distinct(1) option.inject)
      then show "locks (st\<lparr>pm_heap := H, locks := ?L, s_list := a # s_list st\<rparr>) h = locks st h" by simp
    qed simp_all
    show ?thesis using 3 q mode modes table rtos by (simp add: esp_pm_lock_create_def pm_ok_def)
  qed
qed

lemma delete_ok:
  assumes "pm_ok n st" and "user_handle st handle"
  shows "\<exists>err st'. esp_pm_lock_delete handle st = Some (err, st') \<and> pm_ok n st' \<and> cores st' = cores st"
proof (cases "\<exists>h l. handle = Some h \<and> locks st h = Some l \<and> lock_count l = 0")
  case False
  then show ?thesis using assms
    by (cases handle) (auto simp: esp_pm_lock_delete_def user_handle_def word_gt_0)
next
  case True
  then obtain h l where h: "handle = Some h" "locks st h = Some l" "lock_count l = 0" by blast
  have ok: "modes_ok st" "locks_listed n st" "rtos_ok st" using assms(1) by (simp_all add: pm_ok_def)
  let ?st' = "st\<lparr>s_list := remove1 h (s_list st), locks := (locks st)(h := None), pm_heap := heap_free h (pm_heap st)\<rparr>"
  have inlist: "h \<in> set (s_list st)" using ok(2) h(2) by (auto simp: locks_listed_def)
  have held: "held (st\<lparr>locks := (locks st)(h := None)\<rparr>) = held st" using h by (auto simp: held_def)
  have "modes_ok (st\<lparr>locks := (locks st)(h := None)\<rparr>)" by (rule modes_ok_locks [OF ok(1) held]) (use h in \<open>auto simp: held_def\<close>)
  then have modes: "modes_ok ?st'" by (simp add: modes_defs)
  have "card (dom (locks st) - {h}) \<le> n" using ok(2) by (auto simp: locks_listed_def intro: order_trans [OF card_Diff1_le])
  moreover have "g \<in> set (live (heap_free h (pm_heap st)))" if "locks st g = Some k" and "g \<noteq> h" for g k
    using ok(2) that by (intro live_after_free) (auto simp: locks_listed_def)
  ultimately have table: "locks_listed n ?st'"
    using ok(2) by (auto simp: locks_listed_def heap_ok_free)
  have rtos: "rtos_ok ?st'"
    by (rule rtos_ok_keep [OF ok(3)]) (use assms(2) h(1) in \<open>auto simp: user_handle_def\<close>)
  show ?thesis using h inlist modes table rtos by (simp add: esp_pm_lock_delete_def pm_ok_def)
qed

lemma task_acquire_ok:
  assumes "pm_ok n st" and "user_handle st handle" and "n + 1 < 2 ^ 32"
  shows "\<exists>err st'. esp_pm_lock_acquire handle st = Some (err, st') \<and> pm_ok (n + 1) st' \<and> cores st' = cores st"
proof (cases handle)
  case None
  then show ?thesis using assms(1) table_ok_later [of n st "n + 1"] by (simp add: esp_pm_lock_acquire_def pm_ok_def)
next
  case (Some h)
  then obtain l where l: "locks st h = Some l" using assms(2) by (auto simp: user_handle_def)
  have ok: "modes_ok st" "locks_listed n st" "rtos_ok st" using assms(1) by (simp_all add: pm_ok_def)
  obtain st' where st': "esp_pm_lock_acquire (Some h) st = Some (ESP_OK, st')" "modes_ok st'" "locks_listed (n + 1) st'"
    "only_modes (set_count h l (lock_count l + 1) st) st'"
    using lock_acquire_ok [OF ok(1,2) l assms(3)] by blast
  have "rtos_ok st'"
    by (rule rtos_ok_keep [OF ok(3)]) (use only_modesD [OF st'(4)] assms(2) Some in \<open>auto simp: user_handle_def\<close>)
  then show ?thesis using st' Some only_modesD [OF st'(4)] by (simp add: pm_ok_def)
qed

lemma task_release_ok:
  assumes "pm_ok n st" and "user_handle st handle"
  shows "\<exists>err st'. esp_pm_lock_release handle st = Some (err, st') \<and> pm_ok n st' \<and> cores st' = cores st"
proof (cases handle)
  case None
  then show ?thesis using assms(1) by (simp add: esp_pm_lock_release_def)
next
  case (Some h)
  then obtain l where l: "locks st h = Some l" using assms(2) by (auto simp: user_handle_def)
  have ok: "modes_ok st" "locks_listed n st" "rtos_ok st" using assms(1) by (simp_all add: pm_ok_def)
  obtain err st' where st': "esp_pm_lock_release (Some h) st = Some (err, st')" "modes_ok st'" "locks_listed n st'"
    "if lock_count l = 0 then err = ESP_ERR_INVALID_STATE \<and> st' = st else err = ESP_OK \<and> only_modes (set_count h l (lock_count l - 1) st) st'"
    using release_ok [OF ok(1,2) l] by blast
  show ?thesis
  proof (cases "lock_count l = 0")
    case True
    then show ?thesis using st' Some assms(1) by simp
  next
    case False
    then have only: "only_modes (set_count h l (lock_count l - 1) st) st'" using st'(4) by simp
    have "rtos_ok st'"
      by (rule rtos_ok_keep [OF ok(3)]) (use only_modesD [OF only] assms(2) Some in \<open>auto simp: user_handle_def\<close>)
    then show ?thesis using st' Some only_modesD [OF only] by (simp add: pm_ok_def)
  qed
qed

text \<open>A configuration is set by a task, on a core that is awake.\<close>

lemma configure_ok:
  assumes "pm_ok n st" and "c < cores st" and "\<not> s_core_idle st ! c" and "freq_exists chip (apb_clk_freq chip)"
  shows "\<exists>err st'. esp_pm_configure chip config st = Some (err, st') \<and> pm_ok n st' \<and> cores st' = cores st"
proof (cases "max_freq_mhz config < min_freq_mhz config \<or> \<not> freq_exists chip (min_freq_mhz config) \<or>
    (min_freq_mhz config < xtal_freq_mhz chip \<and> min_freq_mhz config * MHZ div REF_CLK_FREQ chip < REF_CLK_DIV_MIN chip) \<or>
    \<not> freq_exists chip (max_freq_mhz config)")
  case True
  then show ?thesis using assms(1) by (auto simp: esp_pm_configure_def)
next
  case False
  have ok: "modes_ok st" "locks_listed n st" "rtos_ok st" using assms(1) by (simp_all add: pm_ok_def)
  have apb: "freq_exists chip (apb_max_freq chip config)"
    using False assms(4) by (auto simp: apb_max_freq_def min_def max_def)
  obtain st1 where st1: "st1 = (set_timer_wakeup config (set_frequencies chip config st))
      \<lparr>s_light_sleep_en := light_sleep_enable config, s_config_changed := True\<rparr>" by simp
  obtain f t where form: "st1 = st\<lparr>s_cpu_freq_by_mode := f, hw := (hw st)\<lparr>timer_wakeup := t\<rparr>,
      s_light_sleep_en := light_sleep_enable config, s_config_changed := True\<rparr>"
  proof -
    have "st1 = st\<lparr>s_cpu_freq_by_mode := s_cpu_freq_by_mode st1, hw := (hw st)\<lparr>timer_wakeup := timer_wakeup (hw st1)\<rparr>,
        s_light_sleep_en := light_sleep_enable config, s_config_changed := True\<rparr>"
      by (simp add: st1 set_timer_wakeup_def set_frequencies_def)
    then show ?thesis by (rule that)
  qed
  have run: "esp_pm_configure chip config st = Some (ESP_OK, do_switch PM_MODE_CPU_MAX st1)"
    using False apb by (auto simp: esp_pm_configure_def st1 Let_def)
  have freq: "freq_ok st1" using modes_okD(4) [OF ok(1)] by (simp add: freq_ok_def form)
  obtain h where h: "do_switch PM_MODE_CPU_MAX st1 = st1\<lparr>s_mode := PM_MODE_CPU_MAX, hw := h, s_config_changed := False\<rparr>"
    "cpu_freq h = s_cpu_freq_by_mode st1 PM_MODE_CPU_MAX" "timer_apb_freq h = min (cpu_freq h) 80"
    using do_switch_to [OF freq] by blast
  obtain st2 where st2: "st2 = st1\<lparr>s_mode := PM_MODE_CPU_MAX, hw := h, s_config_changed := False\<rparr>" by simp
  have locks: "locks st2 = locks st" by (simp add: st2 form)
  have "PM_MODE_CPU_MAX \<in> held_modes st2" using awake_holds [OF ok(3) assms(2,3)] held_locks [OF locks] by simp
  then have wanted: "wanted_mode st2 = PM_MODE_CPU_MAX" by (simp add: wanted_mode_def Max_modes)
  have counts: "counts_ok st2" using ok(1) held_locks [OF locks] by (simp add: modes_ok_def counts_ok_def st2 form)
  have "freq_ok st2" "\<not> s_config_changed st2" "s_mode st2 = PM_MODE_CPU_MAX" using h(2,3) by (simp_all add: freq_ok_def st2)
  with wanted counts have "modes_ok st2" by (simp add: modes_ok_def)
  moreover have "locks_listed n st2" using ok(2) by (simp add: locks_listed_def st2 form)
  moreover have "rtos_ok st2" by (rule rtos_ok_keep [OF ok(3)]) (simp_all add: st2 form)
  moreover have "cores st2 = cores st" by (simp add: st2 form)
  ultimately show ?thesis using run h(1) by (simp add: pm_ok_def flip: st2)
qed

lemma skip_callback_ok:
  assumes "pm_ok n st"
  shows "pm_ok n (snd (esp_pm_register_skip_light_sleep_callback f st)) \<and> pm_ok n (snd (esp_pm_unregister_skip_light_sleep_callback f st)) \<and>
         cores (snd (esp_pm_register_skip_light_sleep_callback f st)) = cores st \<and>
         cores (snd (esp_pm_unregister_skip_light_sleep_callback f st)) = cores st"
  using assms
  by (auto simp: esp_pm_register_skip_light_sleep_callback_def esp_pm_unregister_skip_light_sleep_callback_def pm_ok_def split: option.split)

lemma sleep_ok:
  assumes "pm_ok n st"
  shows "pm_ok n (snd (vApplicationSleep asks env cbs c idle st)) \<and> cores (snd (vApplicationSleep asks env cbs c idle st)) = cores st"
  using assms
  by (auto simp: vApplicationSleep_def should_skip_light_sleep_def other_core_should_skip_light_sleep_def Let_def pm_ok_def)

lemma waiti_ok:
  assumes "pm_ok n st" and "c < cores st" and "n + 1 < 2 ^ 32"
  shows "\<exists>st'. esp_pm_impl_waiti asks c st = Some st' \<and> pm_ok (n + 1) st' \<and> cores st' = cores st"
proof (cases "s_skipped_light_sleep st ! c")
  case False
  then show ?thesis using assms(1) table_ok_later [of n st "n + 1"] by (simp add: esp_pm_impl_waiti_def pm_ok_def)
next
  case True
  obtain st1 where st1: "leave_idle c st = Some st1" "pm_ok (n + 1) st1" "cores st1 = cores st" using leave_idle_ok [OF assms] by blast
  then obtain st2 where "esp_pm_impl_idle_hook asks c st1 = Some st2" "pm_ok (n + 1) st2" "cores st2 = cores st"
    using idle_hook_ok [of "n + 1" st1 c asks] assms(2) by auto
  then show ?thesis using True st1 by (simp add: esp_pm_impl_waiti_def esp_pm_impl_isr_hook_def pm_ok_def)
qed

section \<open>The start\<close>

lemma only_cpu_max:
  assumes "dom (locks st) = A" and "finite A" and "\<And>h. h \<in> A \<Longrightarrow> \<exists>l. locks st h = Some l \<and> lock_count l = 1 \<and> lock_mode l = PM_MODE_CPU_MAX"
    and "A \<noteq> {}"
  shows "held st = A" "with_mode st m = (if m = PM_MODE_CPU_MAX then A else {})" "held_modes st = {PM_MODE_CPU_MAX}"
    "wanted_mode st = PM_MODE_CPU_MAX"
proof -
  show held: "held st = A" using assms(1,3) by (force simp: held_def)
  have mode: "mode_of st h = PM_MODE_CPU_MAX" if "h \<in> A" for h using assms(3) [OF that] by (auto simp: mode_of_def)
  then show "with_mode st m = (if m = PM_MODE_CPU_MAX then A else {})" by (auto simp: with_mode_def held)
  show "held_modes st = {PM_MODE_CPU_MAX}" using mode assms(4) by (force simp: held_modes_def held image_iff)
  then show "wanted_mode st = PM_MODE_CPU_MAX" by (simp add: wanted_mode_def Max_modes)
qed

lemmas init_eval = esp_pm_impl_init_def pm_reset_def create_rtos_lock_def esp_pm_lock_create_def esp_pm_impl_get_mode_def
  esp_pm_lock_acquire_def esp_pm_impl_switch_mode_def count_mode_def get_lowest_allowed_mode_def do_switch_def BIT_values Let_def

lemma init_one:
  assumes "esp_pm_impl_init chip d (pm_reset 1 d H) = Some st" and "heap_ok H"
  shows "pm_ok 2 st \<and> cores st = 1"
proof -
  obtain q H1 where q: "calloc H = (q, H1)" by fastforce
  obtain a where a: "q = Some a" using assms(1) q by (cases q) (simp_all add: init_eval)
  note fresh = calloc_Some [OF q [unfolded a]]
  have st: "st = \<lparr>s_mode = PM_MODE_CPU_MAX, s_mode_lock_counts = (\<lambda>_. 0)(PM_MODE_CPU_MAX := 1), s_mode_mask = 8,
      s_periph_skip_light_sleep_cb = replicate PERIPH_SKIP_LIGHT_SLEEP_NO None, s_skipped_light_sleep = [False], s_skip_light_sleep = [False],
      s_core_idle = [False], s_rtos_lock_handle = [Some a], s_cpu_freq_by_mode = (\<lambda>_. d), s_light_sleep_en = False, s_config_changed = False,
      s_list = [a],
      locks = [a \<mapsto> \<lparr>lock_type = ESP_PM_CPU_FREQ_MAX, lock_arg = 0, lock_mode = PM_MODE_CPU_MAX, lock_name = 0, lock_count = 1\<rparr>],
      pm_heap = H1, hw = \<lparr>cpu_freq = d, timer_apb_freq = min d 80, timer_wakeup = None\<rparr>\<rparr>"
    using assms(1) q a by (cases "freq_exists chip d") (auto simp: init_eval)
  have dom: "dom (locks st) = {a}" by (simp add: st)
  note only = only_cpu_max [OF dom, simplified, unfolded st, simplified]
  have "modes_ok st" using only by (simp add: modes_ok_def counts_ok_def freq_ok_def mask_of_def st)
  moreover have "locks_listed 2 st" using fresh assms(2) by (simp add: locks_listed_def st esp_pm_impl_get_mode_def)
  moreover have "rtos_ok st" by (simp add: rtos_ok_def rtos_lock_ok_def st)
  ultimately show ?thesis by (simp add: pm_ok_def st)
qed

lemma init_two:
  assumes "esp_pm_impl_init chip d (pm_reset 2 d H) = Some st" and "heap_ok H"
  shows "pm_ok 2 st \<and> cores st = 2"
proof -
  have two: "[0..<2] = [0, 1]" "replicate 2 x = [x, x]" for x :: 'x by (simp_all add: upt_rec numeral_2_eq_2)
  obtain q H1 where q: "calloc H = (q, H1)" by fastforce
  obtain a where a: "q = Some a" using assms(1) q by (cases q) (simp_all add: init_eval two)
  obtain q2 H2 where q2: "calloc H1 = (q2, H2)" by fastforce
  obtain b where b: "q2 = Some b" using assms(1) q a q2 by (cases q2) (simp_all add: init_eval two)
  note fresh = calloc_Some [OF q [unfolded a]] calloc_Some [OF q2 [unfolded b]]
  have ab: "a \<noteq> b" "heap_ok H2" using fresh assms(2) by auto
  let ?l = "\<lambda>core. \<lparr>lock_type = ESP_PM_CPU_FREQ_MAX, lock_arg = 0, lock_mode = PM_MODE_CPU_MAX, lock_name = core, lock_count = 1\<rparr>"
  have st: "st = \<lparr>s_mode = PM_MODE_CPU_MAX, s_mode_lock_counts = (\<lambda>_. 0)(PM_MODE_CPU_MAX := 2), s_mode_mask = 8,
      s_periph_skip_light_sleep_cb = replicate PERIPH_SKIP_LIGHT_SLEEP_NO None,
      s_skipped_light_sleep = [False, False], s_skip_light_sleep = [False, False],
      s_core_idle = [False, False], s_rtos_lock_handle = [Some a, Some b], s_cpu_freq_by_mode = (\<lambda>_. d), s_light_sleep_en = False,
      s_config_changed = False, s_list = [b, a], locks = [a \<mapsto> ?l 0, b \<mapsto> ?l 1],
      pm_heap = H2, hw = \<lparr>cpu_freq = d, timer_apb_freq = min d 80, timer_wakeup = None\<rparr>\<rparr>"
    using assms(1) q a q2 b ab(1) by (cases "freq_exists chip d") (auto simp: init_eval two fun_upd_twist)
  have dom: "dom (locks st) = {a, b}" by (auto simp: st)
  have ones: "\<exists>l. locks st h = Some l \<and> lock_count l = 1 \<and> lock_mode l = PM_MODE_CPU_MAX" if "h \<in> {a, b}" for h
    using that ab(1) by (auto simp: st)
  note only = only_cpu_max [OF dom _ ones, simplified]
  have "counts_ok st" using only ab(1) by (simp add: counts_ok_def) (simp add: st mask_of_def)
  then have "modes_ok st" using only(4) by (simp add: modes_ok_def) (simp add: freq_ok_def st)
  moreover have "locks_listed 2 st"
  proof -
    have "s_list st = [b, a]" "pm_heap st = H2" "live H2 = b # a # live H" using fresh by (simp_all add: st)
    moreover have "unat (lock_count l) \<le> 2 \<and> esp_pm_impl_get_mode (lock_type l) = Some (lock_mode l)" if l: "locks st h = Some l" for h l
    proof -
      have "h = a \<or> h = b" using l dom by blast
      then have "l = ?l 0 \<or> l = ?l 1" using l ab(1) by (auto simp: st)
      then show ?thesis by (auto simp: esp_pm_impl_get_mode_def)
    qed
    ultimately show ?thesis using ab unfolding locks_listed_def dom by (simp add: insert_commute)
  qed
  moreover have "rtos_ok st"
  proof -
    have "c = 0 \<or> c = 1" if "c < (2 :: nat)" for c using that by auto
    then show ?thesis using ab(1) by (fastforce simp: rtos_ok_def rtos_lock_ok_def st numeral_2_eq_2)
  qed
  ultimately show ?thesis by (simp add: pm_ok_def) (simp add: st)
qed

section \<open>Runs\<close>

datatype pm_op =
    Lock_create esp_pm_lock_type_t int nat bool
  | Lock_delete "esp_pm_lock_handle_t option"
  | Lock_acquire "esp_pm_lock_handle_t option"
  | Lock_release "esp_pm_lock_handle_t option"
  | Configure esp_pm_config_t
  | Interrupt nat
  | Idle "nat \<Rightarrow> bool" nat
  | Wait "nat \<Rightarrow> bool" nat
  | Sleep "nat \<Rightarrow> bool" sleep_env pm_sleep_cbs nat int
  | Skip_register nat
  | Skip_unregister nat

fun pm_exec :: "pm_chip \<Rightarrow> pm_op \<Rightarrow> pm_state \<Rightarrow> pm_state option" where
  "pm_exec chip (Lock_create type arg name has_handle) st = map_option snd (esp_pm_lock_create type arg name has_handle st)"
| "pm_exec chip (Lock_delete handle) st = map_option snd (esp_pm_lock_delete handle st)"
| "pm_exec chip (Lock_acquire handle) st = map_option snd (esp_pm_lock_acquire handle st)"
| "pm_exec chip (Lock_release handle) st = map_option snd (esp_pm_lock_release handle st)"
| "pm_exec chip (Configure config) st = map_option snd (esp_pm_configure chip config st)"
| "pm_exec chip (Interrupt core_id) st = esp_pm_impl_isr_hook core_id st"
| "pm_exec chip (Idle asks core_id) st = esp_pm_impl_idle_hook asks core_id st"
| "pm_exec chip (Wait asks core_id) st = esp_pm_impl_waiti asks core_id st"
| "pm_exec chip (Sleep asks env cbs core_id idle) st = Some (snd (vApplicationSleep asks env cbs core_id idle st))"
| "pm_exec chip (Skip_register f) st = Some (snd (esp_pm_register_skip_light_sleep_callback f st))"
| "pm_exec chip (Skip_unregister f) st = Some (snd (esp_pm_unregister_skip_light_sleep_callback f st))"

text \<open>Tasks use locks that they created and that are not deleted; a configuration is set on a core that is awake.\<close>

fun pm_proper :: "pm_state \<Rightarrow> pm_op \<Rightarrow> bool" where
  "pm_proper st (Lock_create type arg name has_handle) = (type \<noteq> ESP_PM_LOCK_MAX)"
| "pm_proper st (Lock_delete handle) = user_handle st handle"
| "pm_proper st (Lock_acquire handle) = user_handle st handle"
| "pm_proper st (Lock_release handle) = user_handle st handle"
| "pm_proper st (Configure config) = (\<exists>c < cores st. \<not> s_core_idle st ! c)"
| "pm_proper st (Interrupt core_id) = (core_id < cores st)"
| "pm_proper st (Idle asks core_id) = (core_id < cores st)"
| "pm_proper st (Wait asks core_id) = (core_id < cores st)"
| "pm_proper st _ = True"

text \<open>The states after \<open>n\<close> calls, two of them for the start.\<close>

inductive pm_run :: "pm_chip \<Rightarrow> nat \<Rightarrow> pm_state \<Rightarrow> bool" for chip :: pm_chip where
  start: "pm_run chip 2 st" if "esp_pm_impl_init chip d (pm_reset n d H) = Some st" "n = 1 \<or> n = 2" "heap_ok H"
| step: "pm_run chip (n + 1) st'" if "pm_run chip n st" "pm_proper st op" "pm_exec chip op st = Some st'"

lemma exec_ok:
  assumes "pm_ok n st" and "pm_proper st op" and "n + 1 < 2 ^ 32" and "freq_exists chip (apb_clk_freq chip)"
  shows "\<exists>st'. pm_exec chip op st = Some st' \<and> pm_ok (n + 1) st'"
proof -
  have later: "pm_ok n st' \<Longrightarrow> pm_ok (n + 1) st'" for st' using table_ok_later [of n st' "n + 1"] by (simp add: pm_ok_def)
  show ?thesis
  proof (cases op)
    case (Lock_create type arg name has_handle)
    then show ?thesis using create_ok [OF assms(1), of type arg name has_handle] assms(2) by auto
  next
    case (Lock_delete handle)
    then show ?thesis using delete_ok [OF assms(1), of handle] assms(2) later by auto
  next
    case (Lock_acquire handle)
    then show ?thesis using task_acquire_ok [OF assms(1) _ assms(3), of handle] assms(2) by auto
  next
    case (Lock_release handle)
    then show ?thesis using task_release_ok [OF assms(1), of handle] assms(2) later by auto
  next
    case (Configure config)
    then obtain c where "c < cores st" "\<not> s_core_idle st ! c" using assms(2) by auto
    from configure_ok [OF assms(1) this assms(4), of config] show ?thesis using Configure later by auto
  next
    case (Interrupt c)
    then show ?thesis using leave_idle_ok [OF assms(1) _ assms(3), of c] assms(2) by (auto simp: esp_pm_impl_isr_hook_def)
  next
    case (Idle asks c)
    then show ?thesis using idle_hook_ok [OF assms(1), of c asks] assms(2) later by auto
  next
    case (Wait asks c)
    then show ?thesis using waiti_ok [OF assms(1) _ assms(3), of c asks] assms(2) by auto
  next
    case (Sleep asks env cbs c idle)
    then show ?thesis using sleep_ok [OF assms(1), of asks env cbs c idle] later by simp
  next
    case (Skip_register f)
    then show ?thesis using skip_callback_ok [OF assms(1), of f] later by simp
  next
    case (Skip_unregister f)
    then show ?thesis using skip_callback_ok [OF assms(1), of f] later by simp
  qed
qed

lemma run_ok:
  assumes "pm_run chip n st" and "n < 2 ^ 32" and "freq_exists chip (apb_clk_freq chip)"
  shows "pm_ok n st"
  using assms(1,2)
proof (induction rule: pm_run.induct)
  case (start d n H st)
  then show ?case using init_one init_two by blast
next
  case (step n st op st')
  then show ?case using exec_ok [OF step.IH step.hyps(2) _ assms(3)] by simp
qed

end
