(* ===== verification/Pm_Race.thy ===== *)
theory Pm_Race
  imports Pm_Session
begin

text \<open>
  The hooks of two cores, in the steps between which the other core can run.  A hook takes or gives the lock of
  its core: the count and the mask change under the lock of the switch, which is released before the switch
  itself takes it again with the mode that was computed.
\<close>

section \<open>Steps\<close>

text \<open>What a core still has to do: the mode to switch to, and the mark for idle.\<close>

record race_state =
  pm :: pm_state
  pending :: "(pm_mode_t option \<times> bool) option list"

datatype race_event = Idle_begins nat | Interrupt_begins nat | Hook_ends nat

definition hook_begins :: "nat \<Rightarrow> bool \<Rightarrow> race_state \<Rightarrow> race_state option" where
  "hook_begins c idle r =
     do {
       assert_that (c < cores (pm r) \<and> pending r ! c = None \<and> s_core_idle (pm r) ! c = (\<not> idle));
       h \<leftarrow> s_rtos_lock_handle (pm r) ! c;
       l \<leftarrow> locks (pm r) h;
       assert_that (lock_count l = (if idle then 1 else 0));
       let (m, st1) = count_mode (lock_mode l) (if idle then MODE_UNLOCK else MODE_LOCK) (set_count h l (if idle then 0 else 1) (pm r));
       Some \<lparr>pm = st1, pending = (pending r)[c := Some (m, idle)]\<rparr>
     }"

definition hook_ends :: "nat \<Rightarrow> race_state \<Rightarrow> race_state option" where
  "hook_ends c r =
     do {
       (m, idle) \<leftarrow> pending r ! c;
       let st1 = (case m of None \<Rightarrow> pm r | Some new_mode \<Rightarrow> do_switch new_mode (pm r));
       Some \<lparr>pm = st1\<lparr>s_core_idle := (s_core_idle st1)[c := idle]\<rparr>, pending = (pending r)[c := None]\<rparr>
     }"

fun race_exec :: "race_event \<Rightarrow> race_state \<Rightarrow> race_state option" where
  "race_exec (Idle_begins c) r = hook_begins c True r"
| "race_exec (Interrupt_begins c) r = hook_begins c False r"
| "race_exec (Hook_ends c) r = hook_ends c r"

fun race_run :: "race_event list \<Rightarrow> race_state \<Rightarrow> race_state option" where
  "race_run [] r = Some r"
| "race_run (e # es) r = do { r1 \<leftarrow> race_exec e r; race_run es r1 }"

definition quiet_cores :: "pm_state \<Rightarrow> race_state" where
  "quiet_cores st = \<lparr>pm = st, pending = replicate (cores st) None\<rparr>"

section \<open>Without interleaving\<close>

text \<open>A hook that begins and ends with nothing in between is the call of the model.\<close>

lemma count_mode_idle: "s_core_idle (snd (count_mode m d st)) = s_core_idle st"
  by (simp add: count_mode_def Let_def)

lemma switch_mode_idle: "s_core_idle (esp_pm_impl_switch_mode m d st) = s_core_idle st"
  by (simp add: esp_pm_impl_switch_mode_def do_switch_def Let_def count_mode_def)

lemma replicate_cleared: "(replicate k None)[c := x, c := None] = replicate k None" "(replicate k None)[c := None] = replicate k None"
  by (cases "c < k"; auto intro!: nth_equalityI simp: nth_list_update)+

lemma hook_is_interrupt:
  assumes "pm_ok n st" and "c < cores st" and "s_core_idle st ! c"
  shows "race_run [Interrupt_begins c, Hook_ends c] (quiet_cores st) = map_option quiet_cores (esp_pm_impl_isr_hook c st)"
proof -
  obtain h l where h: "s_rtos_lock_handle st ! c = Some h" "locks st h = Some l" "lock_count l = 0"
    using rtos_lock [of st c] assms by (metis pm_ok_def)
  obtain m st1 where count: "count_mode (lock_mode l) MODE_LOCK (set_count h l 1 st) = (m, st1)" by fastforce
  have idle: "s_core_idle st1 = s_core_idle st" using count_mode_idle [of "lock_mode l" MODE_LOCK "set_count h l 1 st"] count by simp
  have switch: "s_core_idle (do_switch x st1) = s_core_idle st1" for x by (simp add: do_switch_def Let_def)
  show ?thesis
    using assms(2,3) h count idle switch
    by (simp add: quiet_cores_def hook_begins_def hook_ends_def esp_pm_impl_isr_hook_def leave_idle_def esp_pm_lock_acquire_def
        esp_pm_impl_switch_mode_def replicate_cleared split: option.split)
qed

section \<open>With interleaving\<close>

definition race_chip :: pm_chip where
  "race_chip = \<lparr>freq_exists = (\<lambda>f. f \<in> {40, 80, 160}), xtal_freq_mhz = 40, apb_clk_freq = 80, REF_CLK_FREQ = 1000000, REF_CLK_DIV_MIN = 2\<rparr>"

text \<open>Two cores that are awake, with light sleep enabled.\<close>

definition two_cores :: "pm_state option" where
  "two_cores = do {
     st \<leftarrow> esp_pm_impl_init race_chip 160 (pm_reset 2 160 \<lparr>next_addr = 1, allocs = [], live = [], bad_free = False\<rparr>);
     (err, st1) \<leftarrow> esp_pm_configure race_chip \<lparr>max_freq_mhz = 160, min_freq_mhz = 40, light_sleep_enable = True\<rparr> st;
     Some st1
   }"

text \<open>Core 0 goes idle; core 1 goes idle and has computed its mode when an interrupt wakes core 0.\<close>

definition race_events :: "race_event list" where
  "race_events = [Idle_begins 0, Hook_ends 0, Idle_begins 1, Interrupt_begins 0, Hook_ends 0, Hook_ends 1]"

lemma replicate_2: "replicate 2 x = [x, x]"
  by (simp add: numeral_2_eq_2)

lemma upt_2: "[0..<2] = [0, 1]"
  by (simp add: upt_rec)

lemmas race_eval = two_cores_def race_chip_def race_events_def quiet_cores_def hook_begins_def hook_ends_def init_eval
  esp_pm_configure_def set_timer_wakeup_def set_frequencies_def apb_max_freq_def MHZ_def change_freq_def on_freq_update_def
  calloc_def replicate_2 upt_2 mode_number.simps

theorem mode_of_the_slower_core_wins:
  "map_option (\<lambda>r. (pending r, s_core_idle (pm r), s_mode (pm r), s_mode_mask (pm r), cpu_freq (hw (pm r)),
       map_option (\<lambda>l. (lock_mode l, lock_count l)) (locks (pm r) 1)))
     (do { st \<leftarrow> two_cores; race_run race_events (quiet_cores st) }) =
   Some ([None, None], [False, True], PM_MODE_LIGHT_SLEEP, BIT PM_MODE_CPU_MAX, 40, Some (PM_MODE_CPU_MAX, 1))"
  by (simp add: race_eval)

end
