(* ===== verification/Pm_Props.thy ===== *)
theory Pm_Props
  imports Pm_Race Timer_Props
begin

text \<open>The properties of power management: the mode that the locks ask for, and when the chip may sleep.\<close>

section \<open>The mode\<close>

text \<open>C8: In every state that a run of power management reaches, in which every call is one step and the calls of
  two cores do not overlap (Theorem \<open>mode_of_the_slower_core_wins\<close> has two that do), the power mode is at least the mode of every lock that
  is held, and no higher than one of them or the configuration asks for; the CPU has the frequency of the mode, the timer
  knows it, and every further call of a task, the idle task or an interrupt returns.\<close>

theorem power_mode_meets_every_lock:
  assumes "pm_run chip n st" and "n + 1 < 2 ^ 32" and "freq_exists chip (apb_clk_freq chip)"
  shows "(\<forall>h l m. locks st h = Some l \<and> lock_count l \<noteq> 0 \<and> esp_pm_impl_get_mode (lock_type l) = Some m \<longrightarrow> m \<le> s_mode st) \<and>
    (s_mode st = (if s_light_sleep_en st then PM_MODE_LIGHT_SLEEP else PM_MODE_APB_MIN) \<or>
     (\<exists>h l. locks st h = Some l \<and> lock_count l \<noteq> 0 \<and> esp_pm_impl_get_mode (lock_type l) = Some (s_mode st))) \<and>
    cpu_freq (hw st) = s_cpu_freq_by_mode st (s_mode st) \<and> timer_apb_freq (hw st) = min (cpu_freq (hw st)) 80 \<and>
    (\<forall>op. pm_proper st op \<longrightarrow> (\<exists>st'. pm_exec chip op st = Some st'))"
proof (intro conjI allI impI)
  have n: "n < 2 ^ 32" using assms(2) by simp
  have ok: "modes_ok st" "locks_listed n st" using run_ok [OF assms(1) n assms(3)] by (simp_all add: pm_ok_def)
  note mode = modes_okD(6) [OF ok(1)]
  have type: "esp_pm_impl_get_mode (lock_type l) = Some (lock_mode l)" if "locks st h = Some l" for h l
    using that ok(2) by (auto simp: locks_listed_def)
  show "m \<le> s_mode st" if "locks st h = Some l \<and> lock_count l \<noteq> 0 \<and> esp_pm_impl_get_mode (lock_type l) = Some m" for h l m
  proof -
    have "mode_of st h \<in> held_modes st" "mode_of st h = m" using that type [of h l]
      by (auto simp: held_modes_def held_def mode_of_def image_iff intro!: exI [of _ h])
    then show ?thesis unfolding mode wanted_mode_def by (intro Max_ge) auto
  qed
  have "s_mode st \<in> insert (base_mode st) (held_modes st)" unfolding mode wanted_mode_def by (intro Max_in) auto
  then show "s_mode st = (if s_light_sleep_en st then PM_MODE_LIGHT_SLEEP else PM_MODE_APB_MIN) \<or>
      (\<exists>h l. locks st h = Some l \<and> lock_count l \<noteq> 0 \<and> esp_pm_impl_get_mode (lock_type l) = Some (s_mode st))"
    using type by (force simp: base_mode_def held_modes_def held_def mode_of_def)
  show "cpu_freq (hw st) = s_cpu_freq_by_mode st (s_mode st)" "timer_apb_freq (hw st) = min (cpu_freq (hw st)) 80"
    using modes_okD(4,5) [OF ok(1)] by (simp_all add: freq_ok_def)
  show "\<exists>st'. pm_exec chip op st = Some st'" if "pm_proper st op" for op
    using exec_ok [OF run_ok [OF assms(1) n assms(3)] that assms(2,3)] by blast
qed

text \<open>One core: the start, light sleep is enabled, the core goes idle.\<close>

definition one_core :: "pm_state option" where
  "one_core = do {
     st \<leftarrow> esp_pm_impl_init race_chip 160 (pm_reset 1 160 \<lparr>next_addr = 1, allocs = [], live = [], bad_free = False\<rparr>);
     st1 \<leftarrow> pm_exec race_chip (Configure \<lparr>max_freq_mhz = 160, min_freq_mhz = 40, light_sleep_enable = True\<rparr>) st;
     pm_exec race_chip (Idle (\<lambda>f. False) 0) st1
   }"

lemmas one_core_eval = one_core_def race_chip_def init_eval esp_pm_configure_def set_timer_wakeup_def set_frequencies_def
  apb_max_freq_def MHZ_def change_freq_def on_freq_update_def calloc_def mode_number.simps esp_pm_impl_idle_hook_def
  replicate_2 periph_should_skip_light_sleep_def esp_pm_lock_release_def PERIPH_SKIP_LIGHT_SLEEP_NO_def

lemma one_core_start:
  "\<exists>st0 st1 st. esp_pm_impl_init race_chip 160 (pm_reset 1 160 \<lparr>next_addr = 1, allocs = [], live = [], bad_free = False\<rparr>) = Some st0 \<and>
     s_core_idle st0 = [False] \<and>
     pm_exec race_chip (Configure \<lparr>max_freq_mhz = 160, min_freq_mhz = 40, light_sleep_enable = True\<rparr>) st0 = Some st1 \<and>
     s_core_idle st1 = [False] \<and> pm_exec race_chip (Idle (\<lambda>f. False) 0) st1 = Some st \<and> one_core = Some st \<and>
     s_mode st = PM_MODE_LIGHT_SLEEP \<and> s_core_idle st = [True] \<and> s_light_sleep_en st \<and> s_periph_skip_light_sleep_cb st = [None, None]"
  by (simp add: one_core_eval)

lemma one_core_runs:
  "\<exists>st. one_core = Some st \<and> pm_run race_chip 4 st \<and> s_mode st = PM_MODE_LIGHT_SLEEP \<and> s_core_idle st = [True] \<and>
     s_light_sleep_en st \<and> s_periph_skip_light_sleep_cb st = [None, None]"
proof -
  obtain st0 st1 st where st: "esp_pm_impl_init race_chip 160 (pm_reset 1 160 \<lparr>next_addr = 1, allocs = [], live = [], bad_free = False\<rparr>) = Some st0"
    "s_core_idle st0 = [False]"
    "pm_exec race_chip (Configure \<lparr>max_freq_mhz = 160, min_freq_mhz = 40, light_sleep_enable = True\<rparr>) st0 = Some st1"
    "s_core_idle st1 = [False]" "pm_exec race_chip (Idle (\<lambda>f. False) 0) st1 = Some st" "one_core = Some st"
    "s_mode st = PM_MODE_LIGHT_SLEEP" "s_core_idle st = [True]" "s_light_sleep_en st" "s_periph_skip_light_sleep_cb st = [None, None]"
    using one_core_start by blast
  have "pm_run race_chip 2 st0" using st(1) by (rule pm_run.start) (simp_all add: heap_ok_def)
  from pm_run.step [OF this _ st(3)] st(2) have "pm_run race_chip 3 st1" by simp
  from pm_run.step [OF this _ st(5)] st(4) have "pm_run race_chip 4 st" by simp
  then show ?thesis using st by blast
qed

lemma race_chip_apb: "freq_exists race_chip (apb_clk_freq race_chip)"
  by (simp add: race_chip_def)

theorem power_mode_meets_every_lock_witness:
  "\<exists>st. one_core = Some st \<and> s_mode st = PM_MODE_LIGHT_SLEEP \<and>
     (\<forall>h l m. locks st h = Some l \<and> lock_count l \<noteq> 0 \<and> esp_pm_impl_get_mode (lock_type l) = Some m \<longrightarrow> m \<le> s_mode st) \<and>
     (\<exists>st'. pm_exec race_chip (Interrupt 0) st = Some st')"
proof -
  obtain st where st: "one_core = Some st" "pm_run race_chip 4 st" "s_mode st = PM_MODE_LIGHT_SLEEP" "s_core_idle st = [True]"
    using one_core_runs by blast
  have "pm_proper st (Interrupt 0)" using st(4) by simp
  moreover have lt: "4 + 1 < (2 :: nat) ^ 32" by simp
  note all = power_mode_meets_every_lock [OF st(2) lt race_chip_apb]
  ultimately have "\<exists>st'. pm_exec race_chip (Interrupt 0) st = Some st'" using all by blast
  moreover have "\<forall>h l m. locks st h = Some l \<and> lock_count l \<noteq> 0 \<and> esp_pm_impl_get_mode (lock_type l) = Some m \<longrightarrow> m \<le> s_mode st"
    using all by blast
  ultimately show ?thesis using st(1,3) by blast
qed

section \<open>Light sleep\<close>










end
