(* ===== verification/Spec2Isabelle.thy ===== *)
theory Spec2Isabelle
  imports Ringbuf_Props Timer_Props Log_Props Ieee_Props Ota_Props Event_Props Console_Props Vfs_Props Pm_Props
begin

text \<open>
  A verification library for components of the ESP-IDF tree.  Each component has a group of theories:
  the model (data and operations as in the C code), an invariant and the lemmas of its operations, an
  abstract specification, and a \<open>_Props\<close> theory with the numbered properties and their witnesses.

  \<^bold>\<open>Conventions\<close> (\<open>Prelude\<close>).  Machine integers are words where wrap-around matters; sizes of the
  ring buffer are \<open>nat\<close> with the 32-bit wrap written out.  A failed \<open>configASSERT\<close>, an access outside an
  object and a loop that does not end are \<open>None\<close> of the option monad.  C globals and control blocks are
  records that are passed along.  A critical section or a lock makes a call one atomic step; what other
  tasks and interrupts do in between is a sequence of such steps.

  \<^bold>\<open>Ring buffer\<close> (\<open>components/esp_ringbuf/ringbuf.c\<close>).  \<open>Ringbuf\<close> has the control block and every
  static function for the three buffer types, \<open>Ringbuf_Api\<close> the public functions, with blocking calls as
  loops over a script of what happens while the caller is blocked.  \<open>Ringbuf_Layout\<close> and \<open>Ringbuf_Inv\<close>
  give the chain of items between the free, read, write and acquire pointers and the invariant;
  \<open>Ringbuf_Send\<close>, \<open>Ringbuf_Recv\<close>, \<open>Ringbuf_Free\<close>, \<open>Ringbuf_Split\<close> and \<open>Ringbuf_Bytes\<close> show that the
  operations keep it and act on the abstract queue; \<open>Ringbuf_Queue\<close> relates the ring to a queue of messages;
  \<open>Ringbuf_Session\<close> states the interface of a queue as a locale, with runs of sends, receives and returns in which
  a consumer may hold several items, and interprets it on no-split buffers, \<open>Ringbuf_Bytes\<close> on byte buffers.  The pointer walks take fuel; the invariant bounds the number of items by the buffer size, and the
  walks are shown to end within it.  \<open>Ringbuf_Props\<close>: C1 to C7 and C9, among them FIFO delivery without
  loss for message and byte buffers, and five defects on reachable states.

  \<^bold>\<open>High-resolution timer\<close> (\<open>components/esp_timer\<close>: \<open>esp_timer.c\<close>, \<open>esp_timer_impl_common.c\<close>,
  \<open>esp_timer_impl_systimer.c\<close>).  \<open>Timer\<close> has timers on a heap of handles, the two lists of armed timers
  ordered by alarm, the alarm registers, every call of the API, the timer task and the interrupt.
  \<open>Timer_Inv\<close> has the invariant, \<open>Timer_Ops\<close> its preservation, \<open>Timer_Loop\<close> the processing loop with its
  measure, \<open>Timer_Query\<close> the queries.  \<open>Timer_Props\<close>: C16 to C23, and two defects.  Time is an argument of each call, as
  the hardware counter is; callbacks are functions on the state.

  \<^bold>\<open>Log levels per tag\<close> (\<open>components/log/src/log_level\<close>).  \<open>Log\<close> has the linked list of tags, the array
  and the binary-heap cache and the front end for each configuration.  \<open>Log_Cache\<close> states what a cache
  promises as a locale and proves that any run of sets and gets is a map with a default; \<open>Log_Array\<close> and
  \<open>Log_Heap\<close> interpret it.  \<open>Log_Props\<close>: C26 to C28.

  \<^bold>\<open>IEEE 802.15.4 driver\<close> (\<open>components/ieee802154/driver\<close>).  \<open>Ieee_Frame\<close> has the header parser of
  \<open>esp_ieee802154_frame.c\<close>, with 8-bit offsets and the loop over the header IEs as a partial function;
  \<open>Ieee_Header\<close> the layout of the standard as an encoder, to which the parser is the inverse.  \<open>Ieee_Ack\<close>
  has the pending table and the pending bit of \<open>esp_ieee802154_ack.c\<close>; \<open>Ieee_Table\<close> the interface of a
  bounded set of addresses as a locale with both halves of the table as providers; \<open>Ieee_Pending\<close> carries
  the laws over to the driver's functions.  \<open>Ieee_Pib\<close> has the information base of
  \<open>esp_ieee802154_pib.c\<close> and the channel conversion of \<open>esp_ieee802154_util.c\<close>; \<open>Ieee_Sync\<close> relates it to
  the registers.  The model takes the table size from \<open>Kconfig\<close>, which limits it to 100, so that the 8-bit
  indices of the code do not overflow.  \<open>Ieee_Props\<close>: C30 to C32 and C34 to C36, and the conversions.

  \<^bold>\<open>Over-the-air update\<close> (\<open>components/app_update/esp_ota_ops.c\<close>, \<open>components/bootloader_support\<close>,
  \<open>components/esp_partition\<close>).  \<open>Partition\<close> has the search over the partition table and the flash chip: a
  memory that programming clears and erasing sets, a script of failures of the driver, and a budget after
  which the power is lost.  \<open>Ota\<close> has the two select entries, the functions of the app that read or rewrite
  them and the choice of the boot loader.  \<open>Ota_Flash\<close> shows what an interrupted rewrite of an entry can
  leave, \<open>Ota_Boot\<close> relates sequence numbers and slots and the choice before and after a rewrite,
  \<open>Ota_Rollback\<close> follows an update through starts and its confirmation.  The build is the one without
  anti-rollback; images are checked by a parameter.  \<open>Ota_Write\<close> has the reception of an image, from
  \<open>esp_ota_begin\<close> to \<open>esp_ota_end\<close>, with the check of a partition table and the copy of a partition;
  \<open>Ota_Stream\<close> has the invariant of a partition that receives a stream of bytes, and \<open>Ota_Session\<close> carries it
  through the calls of a caller.  \<open>Ota_Props\<close>: C38 to C40, and three defects on concrete inputs.

  \<^bold>\<open>Event loops\<close> (\<open>components/esp_event\<close>: \<open>esp_event.c\<close>, \<open>esp_event_private.c\<close>,
  \<open>default_event_loop.c\<close>).  \<open>Blocks\<close> is the heap that event loops and console share, with a script of
  failing allocations and a mark for a second release.  \<open>Event\<close> has the nested lists of loop, base, id and handler nodes with the address
  of each node, and registration and removal with every block they take and free; allocation follows a
  script.  \<open>Event_Loop\<close> has the dispatch, which walks the lists by address and tells a read of a freed node,
  the run of the loop, posting, creation and deletion; handlers are functions on the loop.
  \<open>Event_Heap\<close> follows the blocks through each operation, \<open>Event_Dispatch\<close> shows what an event runs,
  \<open>Event_Order\<close> and \<open>Event_Remove\<close> that the lists keep the order of registration, \<open>Event_Session\<close> follows
  the memory through calls and runs, \<open>Event_Spec\<close> states what a client may expect and shows that the loop
  does it.  Walks and runs are partial functions; they are shown to end where the handlers leave the loop
  alone.  \<open>Event_Props\<close>: C12, C14 and C15, and two more defects.

  \<^bold>\<open>Console\<close> (\<open>components/console\<close>: \<open>split_argv.c\<close>, \<open>commands.c\<close>).  \<open>Console_Split\<close> has the splitter, which
  writes the words back into the line, and proves it equal to a recursive function on the characters.
  \<open>Console\<close> has the list of commands with the block of each item and hint, registration, removal,
  completion, hints, help and the run of a line; commands are numbers whose calls are recorded.
  \<open>Console_Table\<close> reads the list as a map, \<open>Console_Session\<close> states what a sequence of calls promises,
  \<open>Console_Memory\<close> follows the blocks.  \<open>Console_Props\<close>: C13, C24 and C29, and a defect.

  \<^bold>\<open>Virtual file system\<close> (\<open>components/vfs/vfs.c\<close>).  \<open>Vfs\<close> has the table of file systems with the blocks of each
  entry, the table of descriptors, and every registration and removal; \<open>Vfs_Calls\<close> the system calls,
  \<open>Vfs_Select\<close> the call \<open>select\<close> and its notifications.  The functions of a driver are numbers whose calls are
  recorded; what they return is a parameter, and they do not touch the tables.  A call of the layer is one
  step.  \<open>Vfs_Path\<close> shows that a path leads to the longest prefix, \<open>Vfs_Session\<close> specifies the calls as steps on
  a map of mounts and a map of files, \<open>Vfs_Refine\<close> shows that the layer does these steps, \<open>Vfs_Memory\<close> and
  \<open>Vfs_Tables\<close> follow blocks and tables through registrations, \<open>Vfs_Ready\<close> follows the sets of \<open>select\<close> to the
  drivers and back.  \<open>Vfs_Props\<close>: C11, C25, C33 and C37, and six defects.  The table of file systems has at
  most 20 entries (\<open>Kconfig\<close>), so that its 8-bit index does not overflow.  The clearing of the semaphore of the
  socket layer after a \<open>select\<close> on sockets is not modelled.

  \<^bold>\<open>Power management\<close> (\<open>components/esp_pm\<close>: \<open>pm_locks.c\<close>, \<open>pm_impl.c\<close>).  \<open>Pm\<close> has the locks with their
  counts, the modes with counts and mask, the switch of the frequency, the configuration, the start and the hooks
  of the idle task and of interrupts for one or two cores; \<open>Pm_Sleep\<close> the callbacks and the automatic light sleep.
  \<open>Pm_Inv\<close> shows that the mode is the least one that meets the locks, \<open>Pm_Session\<close> carries the invariant through
  the calls of a run, at most \<open>2 ^ 32\<close> of them, so that no count wraps, by tasks that use their own locks.
  \<open>Pm_Race\<close> lets the hooks of two cores interleave.  Clock and hardware are arguments.  \<open>Pm_Props\<close>: C8, and C10,
  which joins the sleep with the alarms of the timers; four defects are in \<open>Pm_Sleep\<close> and \<open>Pm_Race\<close>.

  \<^bold>\<open>Not modelled.\<close>  The FreeRTOS scheduler, vendored stacks (lwIP, mbedTLS, Bluetooth, wpa_supplicant,
  FatFs, SPIFFS, http_parser), register descriptions and hardware drivers, and code in C++ or Python.
  Of the modelled components: functions that only print, the profiling builds of \<open>esp_timer\<close> and \<open>esp_event\<close>, the state
  machine, security and debug files of the 802.15.4 driver, the tick counter that depends on the CPU frequency.
\<close>

end
